(* ===== verification/Prelude.thy ===== *)
theory Prelude
  imports Main "HOL-Library.Word" "HOL-Library.Sublist"
begin

text \<open>
  Shared vocabulary of the development: bytes and byte strings, the error values of the Go
  code, the parts of the Go standard library that several components call
  (\<open>strconv\<close>, the byte-wise ASCII case maps, \<open>bytes.IndexByte\<close>), and the generic
  lemmas and simp collections that the component theories use.

  A Go \<open>byte\<close> is a HOL \<open>char\<close> (a value of 0 to 255) and a Go \<open>[]byte\<close> or \<open>string\<close> is a
  HOL \<open>string\<close>; its length counts bytes, as \<open>len\<close> does in Go.
\<close>

type_synonym byte = char
type_synonym bytes = "char list"
type_synonym u16 = "16 word"
type_synonym u32 = "32 word"
type_synonym u64 = "64 word"

abbreviation bval :: "byte \<Rightarrow> nat" where
  "bval \<equiv> of_char"

abbreviation NUL :: byte where "NUL \<equiv> CHR 0x00"
abbreviation TAB :: byte where "TAB \<equiv> CHR 0x09"
abbreviation LF :: byte where "LF \<equiv> CHR 0x0A"
abbreviation CR :: byte where "CR \<equiv> CHR 0x0D"
abbreviation SP :: byte where "SP \<equiv> CHR 0x20"
abbreviation DQ :: byte where "DQ \<equiv> CHR 0x22"
abbreviation BSL :: byte where "BSL \<equiv> CHR 0x5C"

abbreviation CRLF :: bytes where "CRLF \<equiv> [CR, LF]"

named_theorems forward "facts that an operation only reads forward in its input"
named_theorems frame "facts that an operation leaves a field alone"

subsection \<open>Go errors\<close>

text \<open>
  An \<open>error\<close> value of Go. \<open>IoErr\<close> is an error of the reader, \<open>ErrNew\<close> is
  \<open>errors.New\<close>, \<open>Errorf\<close> is \<open>fmt.Errorf\<close> kept as its format and its arguments,
  \<open>NumSyntax\<close> and \<open>NumRange\<close> are the two \<open>strconv.NumError\<close>s, \<open>ParseError\<close> and
  \<open>TaggedError\<close> are the error types of the IMAP parser, and \<open>WrapErr\<close> is an
  \<open>fmt.Errorf\<close> whose argument is itself an error.
\<close>

datatype io_error = EOF | UnexpectedEOF | NulByte | OtherIO string

datatype goerr =
    IoErr io_error
  | ErrNew string
  | Errorf string "bytes list"
  | NumSyntax bytes
  | NumRange bytes
  | ParseError string
  | TaggedError bytes goerr
  | WrapErr string goerr

text \<open>The outcome of a call that may also panic (an index out of range, an explicit \<open>panic\<close>).\<close>

datatype 'a go = Ok 'a | Fail goerr | Panic string

subsection \<open>ASCII\<close>

definition isDigit :: "byte \<Rightarrow> bool" where
  "isDigit b \<longleftrightarrow> 48 \<le> bval b \<and> bval b \<le> 57"

definition upperByte :: "byte \<Rightarrow> byte" where
  "upperByte b = (if 97 \<le> bval b \<and> bval b \<le> 122 then char_of (bval b - 32) else b)"

definition lowerByte :: "byte \<Rightarrow> byte" where
  "lowerByte b = (if 65 \<le> bval b \<and> bval b \<le> 90 then char_of (bval b + 32) else b)"

definition asciiUpper :: "bytes \<Rightarrow> bytes" where
  "asciiUpper buf = map upperByte buf"

lemma length_asciiUpper [simp]: "length (asciiUpper s) = length s"
  by (simp add: asciiUpper_def)

lemma bval_char_of: "n < 256 \<Longrightarrow> bval (char_of n) = n"
  by (simp add: of_char_of)

lemma upperByte_idem [simp]: "upperByte (upperByte b) = upperByte b"
proof (cases "97 \<le> bval b \<and> bval b \<le> 122")
  case True
  then have "bval (char_of (bval b - 32)) = bval b - 32" by (intro bval_char_of) linarith
  then have "upperByte (char_of (bval b - 32)) = char_of (bval b - 32)"
    using True by (auto simp: upperByte_def simp del: of_char_of)
  with True show ?thesis by (simp add: upperByte_def [of b])
next
  case False
  then have "upperByte b = b" by (auto simp: upperByte_def)
  then show ?thesis by simp
qed

lemma asciiUpper_idem [simp]: "asciiUpper (asciiUpper s) = asciiUpper s"
  by (simp add: asciiUpper_def o_def)

lemma bval_less_256 [simp]: "bval b < 256"
  using of_char_mod_256 [of b, where 'a = nat] by (metis mod_less_divisor zero_less_numeral)

lemma char_of_bval [simp]: "char_of (bval b) = b"
  by (rule char_of_char)

lemma bval_eq_iff: "bval a = bval b \<longleftrightarrow> a = b"
  by (metis char_of_bval)

subsection \<open>Decimal numbers (strconv)\<close>

definition digitVal :: "byte \<Rightarrow> nat" where
  "digitVal b = bval b - 48"

text \<open>\<open>strconv.ParseUint(s, 10, bits)\<close>, digit by digit from the left: a byte that is no digit
  is a syntax error, a value of more than \<open>bits\<close> bits a range error.\<close>

fun parseUintLoop :: "nat \<Rightarrow> bytes \<Rightarrow> nat \<Rightarrow> bytes \<Rightarrow> goerr + nat" where
  "parseUintLoop bits s0 n [] = Inr n"
| "parseUintLoop bits s0 n (c # cs) =
     (if \<not> isDigit c then Inl (NumSyntax s0)
      else if 2 ^ bits \<le> n * 10 + digitVal c then Inl (NumRange s0)
      else parseUintLoop bits s0 (n * 10 + digitVal c) cs)"

definition ParseUint :: "bytes \<Rightarrow> nat \<Rightarrow> goerr + nat" where
  "ParseUint s bits = (if s = [] then Inl (NumSyntax s) else parseUintLoop bits s 0 s)"

text \<open>\<open>strconv.ParseInt(s, 10, 64)\<close>: an optional sign, then the digits.\<close>

definition ParseInt64 :: "bytes \<Rightarrow> goerr + int" where
  "ParseInt64 s =
     (case s of [] \<Rightarrow> Inl (NumSyntax s)
      | c # cs \<Rightarrow>
         (let neg = (c = CHR ''-''); body = (if c = CHR ''+'' \<or> neg then cs else s)
          in case ParseUint body 64 of
               Inl (NumRange x) \<Rightarrow> Inl (NumRange s)
             | Inl e \<Rightarrow> Inl (NumSyntax s)
             | Inr n \<Rightarrow>
                 if \<not> neg \<and> 2 ^ 63 \<le> n then Inl (NumRange s)
                 else if neg \<and> 2 ^ 63 < n then Inl (NumRange s)
                 else Inr (if neg then - int n else int n)))"

text \<open>The value of a string of digits, and the decimal form that \<open>%d\<close> prints.\<close>

definition decVal :: "bytes \<Rightarrow> nat" where
  "decVal s = foldl (\<lambda>n c. n * 10 + digitVal c) 0 s"

fun fmtNat :: "nat \<Rightarrow> bytes" where
  "fmtNat n = (if n < 10 then [char_of (48 + n)] else fmtNat (n div 10) @ [char_of (48 + n mod 10)])"

declare fmtNat.simps [simp del]

definition fmtInt :: "int \<Rightarrow> bytes" where
  "fmtInt i = (if i < 0 then CHR ''-'' # fmtNat (nat (- i)) else fmtNat (nat i))"

lemma digitVal_digit: "(d::nat) < 10 \<Longrightarrow> digitVal (char_of (48 + d)) = d"
  by (simp add: digitVal_def bval_char_of)

lemma isDigit_digit: "(d::nat) < 10 \<Longrightarrow> isDigit (char_of (48 + d))"
  by (simp add: isDigit_def bval_char_of)

lemma decVal_Nil [simp]: "decVal [] = 0"
  by (simp add: decVal_def)

lemma decVal_snoc [simp]: "decVal (s @ [c]) = decVal s * 10 + digitVal c"
  by (simp add: decVal_def)

lemma fmtNat_not_Nil [simp]: "fmtNat n \<noteq> []"
  by (subst fmtNat.simps) simp

lemma fmtNat_digits: "c \<in> set (fmtNat n) \<Longrightarrow> isDigit c"
proof (induction n rule: fmtNat.induct)
  case (1 n)
  then show ?case
    by (cases "n < 10") (auto simp: fmtNat.simps [of n] isDigit_digit)
qed

lemma decVal_fmtNat [simp]: "decVal (fmtNat n) = n"
proof (induction n rule: fmtNat.induct)
  case (1 n)
  show ?case
  proof (cases "n < 10")
    case True
    then show ?thesis
      using decVal_snoc [of "[]" "char_of (48 + n)"]
      by (simp add: fmtNat.simps [of n] digitVal_digit)
  next
    case False
    then show ?thesis using 1 by (simp add: fmtNat.simps [of n] digitVal_digit)
  qed
qed

lemma length_fmtNat_le: "n < 10 ^ Suc k \<Longrightarrow> length (fmtNat n) \<le> Suc k"
proof (induction k arbitrary: n)
  case 0
  then show ?case by (simp add: fmtNat.simps [of n])
next
  case (Suc k)
  show ?case
  proof (cases "n < 10")
    case True
    then show ?thesis by (simp add: fmtNat.simps [of n])
  next
    case False
    have "n div 10 < 10 ^ Suc k" using Suc.prems by (simp add: less_mult_imp_div_less)
    then show ?thesis using Suc.IH [of "n div 10"] False by (simp add: fmtNat.simps [of n])
  qed
qed

lemma foldl_dec_mono: "(n::nat) \<le> foldl (\<lambda>n c. n * 10 + digitVal c) n s"
proof (induction s arbitrary: n)
  case Nil
  then show ?case by simp
next
  case (Cons c s)
  have "n \<le> n * 10 + digitVal c" by simp
  also have "\<dots> \<le> foldl (\<lambda>n c. n * 10 + digitVal c) (n * 10 + digitVal c) s" by (rule Cons.IH)
  finally show ?case by simp
qed

text \<open>What the digit loop computes on a string of digits: its value if that fits, else a range error.\<close>

lemma parseUintLoop_digits:
  "(\<And>c. c \<in> set s \<Longrightarrow> isDigit c) \<Longrightarrow> n < 2 ^ bits \<Longrightarrow>
   parseUintLoop bits s0 n s =
     (let v = foldl (\<lambda>n c. n * 10 + digitVal c) n s in
      if v < 2 ^ bits then Inr v else Inl (NumRange s0))"
proof (induction s arbitrary: n)
  case Nil
  then show ?case by simp
next
  case (Cons c s)
  show ?case
  proof (cases "2 ^ bits \<le> n * 10 + digitVal c")
    case True
    then have "\<not> foldl (\<lambda>n c. n * 10 + digitVal c) (n * 10 + digitVal c) s < 2 ^ bits"
      using foldl_dec_mono [of "n * 10 + digitVal c" s] by linarith
    with True Cons.prems show ?thesis by (simp add: Let_def)
  next
    case False
    with Cons show ?thesis by (simp add: Let_def)
  qed
qed

lemma ParseUint_digits:
  assumes "s \<noteq> []" and "\<And>c. c \<in> set s \<Longrightarrow> isDigit c"
  shows "ParseUint s bits = (if decVal s < 2 ^ bits then Inr (decVal s) else Inl (NumRange s))"
  using assms parseUintLoop_digits [of s 0 bits s] by (simp add: ParseUint_def decVal_def Let_def)

lemma ParseUint_fmtNat: "n < 2 ^ bits \<Longrightarrow> ParseUint (fmtNat n) bits = Inr n"
  by (simp add: ParseUint_digits fmtNat_digits)

lemma ParseUint_bound: "ParseUint s bits = Inr n \<Longrightarrow> n < 2 ^ bits"
proof -
  have loop: "parseUintLoop bits s0 m t = Inr n \<Longrightarrow> m < 2 ^ bits \<Longrightarrow> n < 2 ^ bits" for s0 m t
    by (induction bits s0 m t rule: parseUintLoop.induct) (auto split: if_splits)
  show "ParseUint s bits = Inr n \<Longrightarrow> n < 2 ^ bits"
    using loop [of s 0 s] by (auto simp: ParseUint_def split: if_splits)
qed

subsection \<open>Searching byte strings\<close>

text \<open>\<open>bytes.IndexByte\<close>: \<open>None\<close> is Go's -1.\<close>

fun IndexByte :: "bytes \<Rightarrow> byte \<Rightarrow> nat option" where
  "IndexByte [] c = None"
| "IndexByte (x # xs) c = (if x = c then Some 0 else map_option Suc (IndexByte xs c))"

lemma IndexByte_None_iff: "IndexByte s c = None \<longleftrightarrow> c \<notin> set s"
  by (induction s) auto

lemma IndexByte_Some:
  "IndexByte s c = Some i \<Longrightarrow> i < length s \<and> s ! i = c \<and> c \<notin> set (take i s)"
  by (induction s arbitrary: i) (auto split: if_splits)

lemma IndexByte_append: "c \<notin> set a \<Longrightarrow> IndexByte (a @ c # b) c = Some (length a)"
  by (induction a) auto

subsection \<open>Words\<close>

lemma unat_u32_less [simp]: "unat (x :: u32) < 4294967296"
proof -
  have "unat x < 2 ^ LENGTH(32)" by (rule unsigned_less)
  then show ?thesis by simp
qed

lemma unat_of_nat_u32: "k < 4294967296 \<Longrightarrow> unat (of_nat k :: u32) = k"
  by (simp add: unat_of_nat)

subsection \<open>Lists\<close>

lemma takeWhile_all_append:
  "(\<And>x. x \<in> set a \<Longrightarrow> P x) \<Longrightarrow> b = [] \<or> \<not> P (hd b) \<Longrightarrow> takeWhile P (a @ b) = a"
  by (induction a) (auto simp: takeWhile_eq_Nil_iff)

lemma dropWhile_all_append:
  "(\<And>x. x \<in> set a \<Longrightarrow> P x) \<Longrightarrow> b = [] \<or> \<not> P (hd b) \<Longrightarrow> dropWhile P (a @ b) = b"
  by (induction a) (auto simp: dropWhile_eq_self_iff)


end
