(* ===== verification/ImapTypes.thy ===== *)
theory ImapTypes
  imports Prelude
begin

text \<open>
  The data of the IMAP parser (\<open>imap/imapparser/types.go\<close>) and the helpers on it
  (\<open>typeshelp.go\<close>, \<open>SeqContains\<close> of \<open>search.go\<close>): sequence ranges and their printed
  form, fetch items, search operations and the \<open>Command\<close> record with its \<open>reset\<close>.

  The parser reuses the memory of its slices: \<open>clearValues\<close> cuts every buffer of a
  \<open>[][]byte\<close> back to length 0 and \<open>appendValue\<close> writes into the buffer that is already there.
  The record \<open>slices\<close> keeps such a slice as its whole backing array; the lemmas show that under
  the invariant of \<open>clearValues\<close> it behaves as a plain list, which is how the other theories
  write it.
\<close>

subsection \<open>Sequence ranges\<close>

text \<open>\<open>SeqRange\<close>: 0 stands for \<open>*\<close>.\<close>

record SeqRange =
  seqMin :: u32
  seqMax :: u32

abbreviation mkSeq :: "u32 \<Rightarrow> u32 \<Rightarrow> SeqRange" where
  "mkSeq a b \<equiv> \<lparr>seqMin = a, seqMax = b\<rparr>"

definition SeqContains :: "SeqRange list \<Rightarrow> u32 \<Rightarrow> bool" where
  "SeqContains sequences seqNum \<longleftrightarrow>
     (\<exists>seq\<in>set sequences. seqMin seq \<le> seqNum \<and> (seqMax seq = 0 \<or> seqNum \<le> seqMax seq))"

definition formatSeq :: "SeqRange \<Rightarrow> bytes" where
  "formatSeq seq =
     (if seqMin seq = 0 \<and> seqMax seq = 0 then ''*''
      else if seqMin seq = seqMax seq then fmtNat (unat (seqMin seq))
      else (if seqMin seq = 0 then ''*'' else fmtNat (unat (seqMin seq))) @ '':'' @
           (if seqMax seq = 0 then ''*'' else fmtNat (unat (seqMax seq))))"

fun FormatSeqs :: "SeqRange list \<Rightarrow> bytes" where
  "FormatSeqs [] = []"
| "FormatSeqs [seq] = formatSeq seq"
| "FormatSeqs (seq # seqs) = formatSeq seq @ '','' @ FormatSeqs seqs"

text \<open>\<open>AppendSeqRange\<close>: the last range is put in order first, then extended if \<open>v\<close> is the next value.\<close>

definition normalizeRange :: "SeqRange \<Rightarrow> SeqRange" where
  "normalizeRange r = (if seqMax r < seqMin r then mkSeq (seqMax r) (seqMin r) else r)"

definition AppendSeqRange :: "SeqRange list \<Rightarrow> u32 \<Rightarrow> SeqRange list" where
  "AppendSeqRange seqs v =
     (if seqs \<noteq> [] \<and> 0 < v then
        (let last' = normalizeRange (last seqs) in
         if 0 < seqMax last' \<and> seqMax last' = v - 1
         then butlast seqs @ [last'\<lparr>seqMax := seqMax last' + 1\<rparr>]
         else butlast seqs @ [last'] @ [mkSeq v v])
      else seqs @ [mkSeq v v])"

text \<open>The values a list of ranges without \<open>*\<close> stands for, in order.\<close>

definition expandRange :: "SeqRange \<Rightarrow> u32 list" where
  "expandRange r = map of_nat [unat (seqMin r)..<Suc (unat (seqMax r))]"

definition expandSeqs :: "SeqRange list \<Rightarrow> u32 list" where
  "expandSeqs seqs = concat (map expandRange seqs)"

definition properRange :: "SeqRange \<Rightarrow> bool" where
  "properRange r \<longleftrightarrow> 0 < seqMin r \<and> seqMin r \<le> seqMax r"

lemma expandRange_single [simp]: "expandRange (mkSeq v v) = [v]"
  by (simp add: expandRange_def)

lemma word_pred_unat: "0 < (v :: u32) \<Longrightarrow> m = v - 1 \<Longrightarrow> unat v = Suc (unat m)"
  by (simp add: unat_gt_0 unat_minus_one word_greater_zero_iff)

lemma expandRange_extend:
  assumes "properRange r" "0 < v" "seqMax r = v - 1"
  shows "expandRange (r\<lparr>seqMax := seqMax r + 1\<rparr>) = expandRange r @ [v]"
    and "properRange (r\<lparr>seqMax := seqMax r + 1\<rparr>)"
proof -
  have u: "unat v = Suc (unat (seqMax r))" using word_pred_unat assms(2,3) by blast
  have v: "seqMax r + 1 = v" using assms(3) by simp
  have le: "unat (seqMin r) \<le> unat (seqMax r)" using assms(1) by (simp add: properRange_def word_le_nat_alt)
  show "expandRange (r\<lparr>seqMax := seqMax r + 1\<rparr>) = expandRange r @ [v]"
    using le by (simp add: expandRange_def v u) (simp add: assms(3))
  show "properRange (r\<lparr>seqMax := seqMax r + 1\<rparr>)"
    using assms(1) le by (simp add: properRange_def v word_le_nat_alt u)
qed

lemma AppendSeqRange_step:
  assumes "\<forall>r\<in>set seqs. properRange r" "0 < v"
  shows "(\<forall>r\<in>set (AppendSeqRange seqs v). properRange r) \<and>
    expandSeqs (AppendSeqRange seqs v) = expandSeqs seqs @ [v]"
proof (cases "seqs = []")
  case True
  then show ?thesis using assms(2) by (simp add: AppendSeqRange_def expandSeqs_def properRange_def)
next
  case False
  have split: "seqs = butlast seqs @ [last seqs]" using False by simp
  have pl: "properRange (last seqs)" using assms(1) False by simp
  then have "\<not> seqMax (last seqs) < seqMin (last seqs)" by (auto simp: properRange_def linorder_not_less)
  then have norm: "normalizeRange (last seqs) = last seqs" by (simp add: normalizeRange_def)
  have pb: "\<forall>r\<in>set (butlast seqs). properRange r" using assms(1) by (auto dest: in_set_butlastD)
  have e: "expandSeqs seqs = expandSeqs (butlast seqs) @ expandRange (last seqs)"
    by (subst split) (simp add: expandSeqs_def)
  show ?thesis
  proof (cases "0 < seqMax (last seqs) \<and> seqMax (last seqs) = v - 1")
    case True
    then have "AppendSeqRange seqs v = butlast seqs @ [(last seqs)\<lparr>seqMax := seqMax (last seqs) + 1\<rparr>]"
      using False assms(2) by (auto simp: AppendSeqRange_def norm Let_def)
    then show ?thesis
      using True expandRange_extend [OF pl assms(2)] pb e by (auto simp: expandSeqs_def)
  next
    case ext: False
    then have "AppendSeqRange seqs v = seqs @ [mkSeq v v]"
      using False assms(2) split by (auto simp: AppendSeqRange_def norm Let_def)
    then show ?thesis using assms by (auto simp: expandSeqs_def properRange_def)
  qed
qed

lemma AppendSeqRange_fold:
  "\<forall>v\<in>set vs. 0 < v \<Longrightarrow> \<forall>r\<in>set seqs. properRange r \<Longrightarrow>
   (\<forall>r\<in>set (foldl AppendSeqRange seqs vs). properRange r) \<and>
   expandSeqs (foldl AppendSeqRange seqs vs) = expandSeqs seqs @ vs"
proof (induction vs arbitrary: seqs)
  case Nil
  then show ?case by simp
next
  case (Cons v vs)
  then have "0 < v" "\<forall>v\<in>set vs. 0 < v" by simp_all
  note st = AppendSeqRange_step [OF Cons.prems(2) this(1)] and ih = Cons.IH [OF this(2)]
  show ?case using ih [OF conjunct1 [OF st]] conjunct2 [OF st] by simp
qed

lemma SeqContains_expand:
  assumes "\<forall>r\<in>set seqs. properRange r"
  shows "SeqContains seqs n \<longleftrightarrow> n \<in> set (expandSeqs seqs)"
proof -
  have "seqMin r \<le> n \<and> (seqMax r = 0 \<or> n \<le> seqMax r) \<longleftrightarrow> n \<in> set (expandRange r)" if "properRange r" for r
  proof -
    have nz: "seqMax r \<noteq> 0" using that by (auto simp: properRange_def)
    have "n \<in> set (expandRange r) \<longleftrightarrow> unat (seqMin r) \<le> unat n \<and> unat n \<le> unat (seqMax r)"
    proof
      assume "n \<in> set (expandRange r)"
      then obtain k where k: "n = of_nat k" "unat (seqMin r) \<le> k" "k \<le> unat (seqMax r)"
        by (auto simp: expandRange_def)
      moreover have "unat (of_nat k :: u32) = k"
        using k(3) unat_u32_less [of "seqMax r"] by (intro unat_of_nat_u32) linarith
      ultimately show "unat (seqMin r) \<le> unat n \<and> unat n \<le> unat (seqMax r)" by simp
    next
      assume "unat (seqMin r) \<le> unat n \<and> unat n \<le> unat (seqMax r)"
      then have "unat n \<in> set [unat (seqMin r)..<Suc (unat (seqMax r))]" by auto
      then have "of_nat (unat n) \<in> set (expandRange r)" unfolding expandRange_def set_map by (rule imageI)
      then show "n \<in> set (expandRange r)" by simp
    qed
    then show ?thesis using nz by (simp add: word_le_nat_alt)
  qed
  then show ?thesis using assms by (auto simp: SeqContains_def expandSeqs_def)
qed

text \<open>C39: \<open>AppendSeqRange\<close>, used to report UIDs (COPYUID, ESEARCH ALL, MODIFIED), compresses
  without loss: the ranges built from positive numbers, expanded again, are those numbers in their
  order, and \<open>SeqContains\<close> on the ranges holds for exactly those numbers.\<close>

theorem AppendSeqRange_exact:
  assumes "\<forall>v\<in>set vs. 0 < v"
  shows "expandSeqs (foldl AppendSeqRange [] vs) = vs \<and>
    SeqContains (foldl AppendSeqRange [] vs) n = (n \<in> set vs)"
  using AppendSeqRange_fold [of vs "[]"] SeqContains_expand [of "foldl AppendSeqRange [] vs" n] assms
  by (simp add: expandSeqs_def)

theorem AppendSeqRange_exact_witness:
  "foldl AppendSeqRange [] [3, 4, 5, 9, 2] = [mkSeq 3 5, mkSeq 9 9, mkSeq 2 2] \<and>
   expandSeqs (foldl AppendSeqRange [] [3, 4, 5, 9, 2]) = [3, 4, 5, 9, 2]"
  using AppendSeqRange_exact [of "[3, 4, 5, 9, 2]" 4]
  by (simp add: AppendSeqRange_def normalizeRange_def)

text \<open>The documented meaning "when Min == Max, a SeqRange refers to a single value" fails for
  the range \<open>*\<close>: \<open>SeqContains\<close> of the set \<open>*\<close> holds for every number, not for the largest only, and
  \<open>*:n\<close> holds for every number up to \<open>n\<close>.\<close>

theorem SeqContains_star:
  "SeqContains [mkSeq 0 0] n \<and> (m \<noteq> 0 \<longrightarrow> SeqContains [mkSeq 0 m] n = (n \<le> m))"
  by (simp add: SeqContains_def)

theorem SeqContains_star_witness: "(7::u32) \<noteq> 0 \<and> SeqContains [mkSeq 0 7] 5"
  using SeqContains_star [of 5 7] by simp

subsection \<open>Slices whose buffers are reused\<close>

text \<open>A \<open>[][]byte\<close> as its backing array (\<open>arr\<close>, as long as \<open>cap\<close>) and its length. What a
  reallocation adds beyond the length is up to the runtime: \<open>grow\<close> extra nil buffers.\<close>

record slices =
  arr :: "bytes list"
  len :: nat

definition clearValues :: "slices \<Rightarrow> slices" where
  "clearValues v = \<lparr>arr = map (\<lambda>_. []) (arr v), len = 0\<rparr>"

definition appendValue :: "nat \<Rightarrow> slices \<Rightarrow> bytes \<Rightarrow> slices" where
  "appendValue grow v src =
     (let v' = (if len v < length (arr v) then v\<lparr>len := len v + 1\<rparr>
                else \<lparr>arr = take (len v) (arr v) @ [[]] @ replicate grow [], len = len v + 1\<rparr>);
          i = len v' - 1
      in v'\<lparr>arr := (arr v')[i := (arr v' ! i) @ src]\<rparr>)"

definition valuesOf :: "slices \<Rightarrow> bytes list" where
  "valuesOf v = take (len v) (arr v)"

definition cleanTail :: "slices \<Rightarrow> bool" where
  "cleanTail v \<longleftrightarrow> len v \<le> length (arr v) \<and> set (drop (len v) (arr v)) \<subseteq> {[]}"

text \<open>\<open>copyItem\<close> on the header list: cut to length 0 without clearing, then one \<open>appendValue\<close> each.\<close>

definition copyHeaders :: "nat \<Rightarrow> slices \<Rightarrow> slices \<Rightarrow> slices" where
  "copyHeaders grow dst src = foldl (appendValue grow) (dst\<lparr>len := 0\<rparr>) (valuesOf src)"

text \<open>What a list of values promises to the parser: clearing empties it, appending adds at the end.\<close>

locale value_list =
  fixes clear :: "'v \<Rightarrow> 'v" and app :: "'v \<Rightarrow> bytes \<Rightarrow> 'v" and vals :: "'v \<Rightarrow> bytes list" and ok :: "'v \<Rightarrow> bool"
  assumes clear_ok: "ok (clear v)" and clear_vals: "vals (clear v) = []"
    and app_ok: "ok v \<Longrightarrow> ok (app v x)" and app_vals: "ok v \<Longrightarrow> vals (app v x) = vals v @ [x]"
begin

lemma fold_app: "ok v \<Longrightarrow> ok (foldl app v xs) \<and> vals (foldl app v xs) = vals v @ xs"
  by (induction xs arbitrary: v) (simp_all add: app_ok app_vals)

lemma refill: "vals (foldl app (clear v) xs) = xs"
  using fold_app [OF clear_ok] by (simp add: clear_vals)

end

lemma cleanTail_append:
  assumes "cleanTail v"
  shows "cleanTail (appendValue grow v x) \<and> valuesOf (appendValue grow v x) = valuesOf v @ [x]"
proof (cases "len v < length (arr v)")
  case True
  then have "arr v ! len v \<in> set (drop (len v) (arr v))"
    by (metis Cons_nth_drop_Suc list.set_intros(1))
  then have e: "arr v ! len v = []" using assms by (auto simp: cleanTail_def)
  have "set (drop (Suc (len v)) (arr v)) \<subseteq> {[]}"
    using assms by (metis Suc_n_not_le_n cleanTail_def nat_le_linear set_drop_subset_set_drop subset_trans)
  then show ?thesis using True e
    by (simp add: appendValue_def cleanTail_def valuesOf_def Let_def take_Suc_conv_app_nth)
next
  case False
  then show ?thesis using assms
    by (auto simp: appendValue_def cleanTail_def valuesOf_def Let_def nth_append list_update_append set_replicate_conv_if)
qed

lemma clearValues_clean: "cleanTail (clearValues v)" "valuesOf (clearValues v) = []"
  by (auto simp: clearValues_def cleanTail_def valuesOf_def)

interpretation slice_values: value_list clearValues "appendValue grow" valuesOf cleanTail for grow
  by unfold_locales (simp_all add: cleanTail_append clearValues_clean)

lemma copyHeaders_clear: "valuesOf (copyHeaders grow (clearValues dst) src) = valuesOf src"
  using slice_values.refill [of grow dst "valuesOf src"] by (simp add: copyHeaders_def clearValues_def)

text \<open>The slice reuse of the parser is invisible: whatever a \<open>[][]byte\<close> held before, after
  \<open>clearValues\<close> a sequence of \<open>appendValue\<close> calls yields exactly the appended values, and
  \<open>copyItem\<close> into a cleared item yields exactly the source headers, for every growth policy of the
  runtime.\<close>

theorem reused_slices_exact:
  "valuesOf (foldl (appendValue grow) (clearValues v) xs) = xs \<and>
   valuesOf (copyHeaders grow (clearValues v) src) = valuesOf src"
  by (simp add: slice_values.refill copyHeaders_clear)

subsection \<open>Fetch items, search operations, commands\<close>

datatype FetchItemType =
    FetchNone \<comment> \<open>the empty string\<close> | FetchUnknown | FetchAll | FetchFull | FetchFast | FetchEnvelope
  | FetchFlags | FetchInternalDate | FetchRFC822Header | FetchRFC822Size | FetchRFC822Text
  | FetchUID | FetchBodyStructure | FetchBody | FetchModSeq

record FetchItemSection =
  secPath :: "u16 list"
  secName :: bytes
  secHeaders :: "bytes list"

record FetchItem =
  itemType :: FetchItemType
  itemPeek :: bool
  itemSection :: FetchItemSection
  partialStart :: u32
  partialLength :: u32

definition emptyItem :: FetchItem where
  "emptyItem = \<lparr>itemType = FetchNone, itemPeek = False,
     itemSection = \<lparr>secPath = [], secName = [], secHeaders = []\<rparr>, partialStart = 0, partialLength = 0\<rparr>"

text \<open>\<open>FetchItem.reset\<close> writes every field.\<close>

definition resetItem :: "FetchItem \<Rightarrow> FetchItem" where
  "resetItem item = item\<lparr>itemType := FetchNone, itemPeek := False,
     itemSection := (itemSection item)\<lparr>secPath := [], secName := [], secHeaders := []\<rparr>,
     partialStart := 0, partialLength := 0\<rparr>"

lemma resetItem_empty [simp]: "resetItem item = emptyItem"
  by (cases item, cases "itemSection item") (simp add: resetItem_def emptyItem_def)

datatype SearchOp =
  SearchOp (opKey: string) (opChildren: "SearchOp list") (opValue: bytes) (opNum: int)
    (opSequences: "SeqRange list") (opDate: int)

datatype StoreMode = StoreUnknown | StoreAdd | StoreRemove | StoreReplace

datatype StatusItem =
    StatusMessages | StatusRecent | StatusUIDNext | StatusUIDValidity | StatusUnseen | StatusHighestModSeq

datatype Mode = ModeNonAuth | ModeAuth | ModeSelected

record QresyncParam =
  uidValidity :: u32
  qModSeq :: int
  qUIDs :: "SeqRange list"
  knownSeqNumMatch :: "SeqRange list"
  knownUIDMatch :: "SeqRange list"

record ListParam =
  referenceName :: bytes
  mailboxGlob :: bytes
  selectOptions :: "string list"
  returnOptions :: "string list"

record StoreParam =
  storeMode :: StoreMode
  storeSilent :: bool
  storeFlags :: "bytes list"
  unchangedSince :: int

record SearchParam =
  searchOp :: "SearchOp option"
  searchCharset :: string
  searchReturn :: "string list"

record PushService =
  apsMailboxes :: "bytes list"
  apsVersion :: int
  apsSubtopic :: bytes
  apsAccountID :: bytes
  apsDeviceToken :: bytes

record Command =
  cmdTag :: bytes
  cmdName :: string
  cmdUID :: bool
  cmdMailbox :: bytes
  cmdCondstore :: bool
  cmdQresync :: QresyncParam
  cmdSequences :: "SeqRange list"
  cmdRenameOld :: bytes
  cmdRenameNew :: bytes
  cmdParams :: "bytes list"
  cmdUsername :: bytes
  cmdPassword :: bytes
  cmdList :: ListParam
  cmdStatusItems :: "StatusItem list"
  cmdAppendFlags :: "bytes list"
  cmdAppendDate :: bytes
  cmdFetchItems :: "FetchItem list"
  cmdChangedSince :: int
  cmdVanished :: bool
  cmdStore :: StoreParam
  cmdSearch :: SearchParam
  cmdPush :: "PushService option"

definition emptyCommand :: Command where
  "emptyCommand = \<lparr>cmdTag = [], cmdName = [], cmdUID = False, cmdMailbox = [], cmdCondstore = False,
     cmdQresync = \<lparr>uidValidity = 0, qModSeq = 0, qUIDs = [], knownSeqNumMatch = [], knownUIDMatch = []\<rparr>,
     cmdSequences = [], cmdRenameOld = [], cmdRenameNew = [], cmdParams = [], cmdUsername = [],
     cmdPassword = [], cmdList = \<lparr>referenceName = [], mailboxGlob = [], selectOptions = [], returnOptions = []\<rparr>,
     cmdStatusItems = [], cmdAppendFlags = [], cmdAppendDate = [], cmdFetchItems = [],
     cmdChangedSince = 0, cmdVanished = False,
     cmdStore = \<lparr>storeMode = StoreUnknown, storeSilent = False, storeFlags = [], unchangedSince = 0\<rparr>,
     cmdSearch = \<lparr>searchOp = None, searchCharset = [], searchReturn = []\<rparr>, cmdPush = None\<rparr>"

text \<open>\<open>Command.reset\<close>, statement by statement (the literal file is reset by the parser, which owns it).\<close>

definition resetCommand :: "Command \<Rightarrow> Command" where
  "resetCommand cmd = cmd\<lparr>
     cmdTag := [],
     cmdName := [],
     cmdUID := False,
     cmdMailbox := [],
     cmdCondstore := False,
     cmdQresync := (cmdQresync cmd)\<lparr>uidValidity := 0, qModSeq := 0, qUIDs := [],
       knownSeqNumMatch := [], knownUIDMatch := []\<rparr>,
     cmdSequences := [],
     cmdRenameOld := [],
     cmdRenameNew := [],
     cmdParams := [],
     cmdUsername := [],
     cmdPassword := [],
     cmdList := (cmdList cmd)\<lparr>selectOptions := [], returnOptions := [], referenceName := [], mailboxGlob := []\<rparr>,
     cmdStatusItems := [],
     cmdAppendFlags := [],
     cmdAppendDate := [],
     cmdFetchItems := [],
     cmdChangedSince := 0,
     cmdVanished := False,
     cmdStore := (cmdStore cmd)\<lparr>storeMode := StoreUnknown, storeSilent := False, unchangedSince := 0, storeFlags := []\<rparr>,
     cmdSearch := (cmdSearch cmd)\<lparr>searchOp := None, searchCharset := [], searchReturn := []\<rparr>,
     cmdPush := None\<rparr>"

text \<open>No field of a command survives into the next one.\<close>

lemma resetCommand_empty [simp]: "resetCommand cmd = emptyCommand"
  by (cases cmd, cases "cmdQresync cmd", cases "cmdList cmd", cases "cmdStore cmd", cases "cmdSearch cmd")
    (simp add: resetCommand_def emptyCommand_def)

subsection \<open>Printed forms\<close>

definition storeModeString :: "StoreMode \<Rightarrow> bytes" where
  "storeModeString m = (case m of
      StoreUnknown \<Rightarrow> ''StoreUnknown''
    | StoreAdd \<Rightarrow> ''+FLAGS''
    | StoreRemove \<Rightarrow> ''-FLAGS''
    | StoreReplace \<Rightarrow> ''FLAGS'')"

fun joinWith :: "bytes \<Rightarrow> bytes list \<Rightarrow> bytes" where
  "joinWith sep [] = []"
| "joinWith sep [x] = x"
| "joinWith sep (x # xs) = x @ sep @ joinWith sep xs"

definition storeString :: "StoreParam \<Rightarrow> bytes" where
  "storeString s =
     storeModeString (storeMode s) @
     (if storeSilent s then ''.SILENT'' else []) @
     (if unchangedSince s \<noteq> 0 then '' (UNCHANGEDSINCE '' @ fmtInt (unchangedSince s) @ '')'' else []) @
     (if storeFlags s \<noteq> [] then ''('' @ joinWith '' '' (storeFlags s) @ '')'' else [])"

definition fetchTypeString :: "FetchItemType \<Rightarrow> bytes" where
  "fetchTypeString t = (case t of
      FetchNone \<Rightarrow> [] | FetchUnknown \<Rightarrow> ''FetchUnknown''
    | FetchAll \<Rightarrow> ''ALL'' | FetchFull \<Rightarrow> ''FULL'' | FetchFast \<Rightarrow> ''FAST''
    | FetchEnvelope \<Rightarrow> ''ENVELOPE'' | FetchFlags \<Rightarrow> ''FLAGS'' | FetchInternalDate \<Rightarrow> ''INTERNALDATE''
    | FetchRFC822Header \<Rightarrow> ''RFC822.HEADER'' | FetchRFC822Size \<Rightarrow> ''RFC822.SIZE''
    | FetchRFC822Text \<Rightarrow> ''RFC822.TEXT'' | FetchUID \<Rightarrow> ''UID''
    | FetchBodyStructure \<Rightarrow> ''BODYSTRUCTURE'' | FetchBody \<Rightarrow> ''BODY'' | FetchModSeq \<Rightarrow> ''MODSEQ'')"

definition fetchItemString :: "FetchItem \<Rightarrow> bytes" where
  "fetchItemString item =
     (let s = itemSection item in
      fetchTypeString (itemType item) @
      (if itemPeek item then ''.PEEK'' else []) @
      (if secPath s \<noteq> [] \<or> secName s \<noteq> [] \<or> secHeaders s \<noteq> [] then
         ''['' @ joinWith ''.'' (map (\<lambda>v. fmtNat (unat v)) (secPath s)) @
         (if secName s \<noteq> [] then (if secPath s \<noteq> [] then ''.'' else []) @ secName s else []) @
         (if secHeaders s \<noteq> [] then '' ('' @ joinWith '' '' (secHeaders s) @ '')'' else []) @
         '']''
       else []) @
      (if partialStart item \<noteq> 0 \<or> partialLength item \<noteq> 0 then
         ''<'' @ fmtNat (unat (partialStart item)) @ ''.'' @ fmtNat (unat (partialLength item)) @ ''>''
       else []))"

end
