(* ===== verification/Base64.thy ===== *)
theory Base64
  imports Prelude
begin

text \<open>
  The encodings of the Go standard library that the IMAP and SMTP code call:
  \<open>encoding/base64\<close> (both decoders, with and without padding; bytes CR and LF are skipped
  wherever they stand), \<open>unicode/utf8\<close> and \<open>unicode/utf16\<close>, and \<open>strconv.Quote\<close>. A rune is a \<open>nat\<close>.
  The locale \<open>b64_alphabet\<close> states what an alphabet must satisfy for the codec to round-trip;
  it is interpreted on the two alphabets the code uses, the standard one and the one of
  modified UTF-7 (utf7mod).
\<close>

subsection \<open>base64\<close>

definition stdAlphabet :: bytes where
  "stdAlphabet = ''ABCDEFGHIJKLMNOPQRSTUVWXYZabcdefghijklmnopqrstuvwxyz0123456789+/''"

definition sym :: "bytes \<Rightarrow> nat \<Rightarrow> byte" where
  "sym alpha n = alpha ! n"

definition b1 :: "nat \<Rightarrow> nat \<Rightarrow> byte" where
  "b1 a b = char_of (a * 4 + b div 16)"

definition b2 :: "nat \<Rightarrow> nat \<Rightarrow> byte" where
  "b2 b c = char_of ((b mod 16) * 16 + c div 4)"

definition b3 :: "nat \<Rightarrow> nat \<Rightarrow> byte" where
  "b3 c d = char_of ((c mod 4) * 64 + d)"

text \<open>\<open>Encoding.Encode\<close>: three bytes to four symbols; \<open>pad\<close> is \<open>padChar != NoPadding\<close>.\<close>

fun b64Encode :: "bytes \<Rightarrow> bool \<Rightarrow> bytes \<Rightarrow> bytes" where
  "b64Encode al pad [] = []"
| "b64Encode al pad [x] =
     [sym al (bval x div 4), sym al ((bval x mod 4) * 16)] @ (if pad then ''=='' else [])"
| "b64Encode al pad [x, y] =
     [sym al (bval x div 4), sym al ((bval x mod 4) * 16 + bval y div 16),
      sym al ((bval y mod 16) * 4)] @ (if pad then ''='' else [])"
| "b64Encode al pad (x # y # z # r) =
     [sym al (bval x div 4), sym al ((bval x mod 4) * 16 + bval y div 16),
      sym al ((bval y mod 16) * 4 + bval z div 64), sym al (bval z mod 64)] @ b64Encode al pad r"

lemma triples_induct [case_names Nil One Two More]:
  assumes "P []" and "\<And>x. P [x]" and "\<And>x y. P [x, y]"
    and "\<And>x y z r. P r \<Longrightarrow> P (x # y # z # r)"
  shows "P (s :: bytes)"
  using assms by (rule b64Encode.induct [of "\<lambda>_ _ s. P s"])

text \<open>The quantum loop of \<open>Encoding.Decode\<close>, on input without CR and LF. \<open>None\<close> is a
  \<open>CorruptInputError\<close>. Trailing bits are ignored (the encodings are not strict).\<close>

fun b64Quanta :: "bytes \<Rightarrow> bool \<Rightarrow> bytes \<Rightarrow> bytes option" where
  "b64Quanta al pad [] = Some []"
| "b64Quanta al pad [a] = None"
| "b64Quanta al pad [a, b] =
     (if pad then None
      else case (IndexByte al a, IndexByte al b) of
        (Some i, Some j) \<Rightarrow> Some [b1 i j] | _ \<Rightarrow> None)"
| "b64Quanta al pad [a, b, c] =
     (if pad then None
      else case (IndexByte al a, IndexByte al b, IndexByte al c) of
        (Some i, Some j, Some k) \<Rightarrow> Some [b1 i j, b2 j k] | _ \<Rightarrow> None)"
| "b64Quanta al pad (a # b # c # d # r) =
     (if pad \<and> d = CHR ''='' then
        (if r \<noteq> [] then None
         else if c = CHR ''='' then
           (case (IndexByte al a, IndexByte al b) of
              (Some i, Some j) \<Rightarrow> Some [b1 i j] | _ \<Rightarrow> None)
         else
           (case (IndexByte al a, IndexByte al b, IndexByte al c) of
              (Some i, Some j, Some k) \<Rightarrow> Some [b1 i j, b2 j k] | _ \<Rightarrow> None))
      else case (IndexByte al a, IndexByte al b, IndexByte al c, IndexByte al d) of
        (Some i, Some j, Some k, Some l) \<Rightarrow>
          map_option (\<lambda>out. b1 i j # b2 j k # b3 k l # out) (b64Quanta al pad r)
      | _ \<Rightarrow> None)"

definition b64Decode :: "bytes \<Rightarrow> bool \<Rightarrow> bytes \<Rightarrow> bytes option" where
  "b64Decode al pad src = b64Quanta al pad (filter (\<lambda>c. c \<noteq> CR \<and> c \<noteq> LF) src)"

lemma bval_less_64_div [simp]: "bval x div 4 < 64" "bval x div 16 < 16" "bval x div 64 < 4"
  using bval_less_256 [of x] by (simp_all add: less_mult_imp_div_less)

locale b64_alphabet =
  fixes al :: bytes
  assumes len64: "length al = 64"
    and dist: "distinct al"
    and no_special: "CHR ''='' \<notin> set al" "CR \<notin> set al" "LF \<notin> set al" "CHR ''-'' \<notin> set al"
begin

lemma index_sym [simp]: "n < 64 \<Longrightarrow> IndexByte al (sym al n) = Some n"
proof -
  assume n: "n < 64"
  have split: "al = take n al @ al ! n # drop (Suc n) al"
    using n len64 by (simp add: id_take_nth_drop)
  have "al ! n \<notin> set (take n al)"
    using dist n len64 by (auto simp: in_set_conv_nth nth_eq_iff_index_eq)
  then have "IndexByte (take n al @ al ! n # drop (Suc n) al) (al ! n) = Some (length (take n al))"
    by (rule IndexByte_append)
  then show ?thesis using split n len64 by (simp add: sym_def)
qed

lemma sym_in [simp]: "n < 64 \<Longrightarrow> sym al n \<in> set al"
  using len64 by (simp add: sym_def)

lemma sym_neq [simp]:
  "n < 64 \<Longrightarrow> sym al n \<noteq> CHR ''=''" "n < 64 \<Longrightarrow> sym al n \<noteq> CR"
  "n < 64 \<Longrightarrow> sym al n \<noteq> LF" "n < 64 \<Longrightarrow> sym al n \<noteq> CHR ''-''"
  using no_special sym_in by metis+

lemma bounds [simp]:
  "(bval x mod 4) * 16 < 64" "(bval x mod 4) * 16 + bval y div 16 < 64"
  "(bval x mod 16) * 4 < 64" "(bval x mod 16) * 4 + bval y div 64 < 64"
proof -
  have "bval x mod 4 < 4" "bval y div 16 < 16" "bval x mod 16 < 16" "bval y div 64 < 4" by simp_all
  then show "(bval x mod 4) * 16 < 64" "(bval x mod 4) * 16 + bval y div 16 < 64"
    "(bval x mod 16) * 4 < 64" "(bval x mod 16) * 4 + bval y div 64 < 64" by linarith+
qed

lemma recombine:
  "b1 (bval x div 4) ((bval x mod 4) * 16) = x"
  "b1 (bval x div 4) ((bval x mod 4) * 16 + bval y div 16) = x"
  "b2 ((bval x mod 4) * 16 + bval y div 16) ((bval y mod 16) * 4) = y"
  "b2 ((bval x mod 4) * 16 + bval y div 16) ((bval y mod 16) * 4 + bval z div 64) = y"
  "b3 ((bval y mod 16) * 4 + bval z div 64) (bval z mod 64) = z"
proof -
  have y: "bval y div 16 < 16" and z: "bval z div 64 < 4" by simp_all
  have "bval x div 4 * 4 + bval x mod 4 = bval x" by simp
  moreover have "((bval x mod 4) * 16 + bval y div 16) div 16 = bval x mod 4" using y by simp
  ultimately show "b1 (bval x div 4) ((bval x mod 4) * 16) = x"
    and "b1 (bval x div 4) ((bval x mod 4) * 16 + bval y div 16) = x"
    by (simp_all add: b1_def)
  have "((bval x mod 4) * 16 + bval y div 16) mod 16 = bval y div 16"
    and "((bval y mod 16) * 4 + bval z div 64) div 4 = bval y mod 16" using y z by simp_all
  then show "b2 ((bval x mod 4) * 16 + bval y div 16) ((bval y mod 16) * 4) = y"
    and "b2 ((bval x mod 4) * 16 + bval y div 16) ((bval y mod 16) * 4 + bval z div 64) = y"
    by (simp_all add: b2_def)
  have "((bval y mod 16) * 4 + bval z div 64) mod 4 = bval z div 64" using z by simp
  then show "b3 ((bval y mod 16) * 4 + bval z div 64) (bval z mod 64) = z"
    by (simp add: b3_def)
qed

lemma quanta_encode: "b64Quanta al pad (b64Encode al pad s) = Some s"
  by (induction s rule: triples_induct) (auto simp: recombine)

lemma encode_clean:
  "c \<in> set (b64Encode al pad s) \<Longrightarrow> c \<noteq> CR \<and> c \<noteq> LF \<and> c \<noteq> CHR ''-''"
  by (induction s rule: triples_induct) (auto split: if_splits)

lemma decode_encode: "b64Decode al pad (b64Encode al pad s) = Some s"
proof -
  have "filter (\<lambda>c. c \<noteq> CR \<and> c \<noteq> LF) (b64Encode al pad s) = b64Encode al pad s"
    using encode_clean by (auto simp: filter_id_conv)
  then show ?thesis by (simp add: b64Decode_def quanta_encode)
qed

end

lemma b64Encode_eq_Nil [simp]: "b64Encode al pad s = [] \<longleftrightarrow> s = []"
  by (cases "(al, pad, s)" rule: b64Encode.cases) auto

interpretation std64: b64_alphabet stdAlphabet
  by unfold_locales (simp_all add: stdAlphabet_def)

subsection \<open>utf8 and utf16\<close>

definition RuneError :: nat where "RuneError = 0xFFFD"

definition isSurrogate :: "nat \<Rightarrow> bool" where
  "isSurrogate r \<longleftrightarrow> 0xD800 \<le> r \<and> r < 0xE000"

text \<open>A Unicode scalar value: what \<open>utf8.ValidRune\<close> accepts.\<close>

definition validRune :: "nat \<Rightarrow> bool" where
  "validRune r \<longleftrightarrow> r \<le> 0x10FFFF \<and> \<not> isSurrogate r"

text \<open>\<open>utf8.EncodeRune\<close>: an invalid rune is written as \<open>RuneError\<close>.\<close>

definition encodeRune :: "nat \<Rightarrow> bytes" where
  "encodeRune r0 =
     (let r = (if validRune r0 then r0 else RuneError) in
      if r < 0x80 then [char_of r]
      else if r < 0x800 then [char_of (0xC0 + r div 64), char_of (0x80 + r mod 64)]
      else if r < 0x10000 then
        [char_of (0xE0 + r div 4096), char_of (0x80 + r div 64 mod 64), char_of (0x80 + r mod 64)]
      else
        [char_of (0xF0 + r div 262144), char_of (0x80 + r div 4096 mod 64),
         char_of (0x80 + r div 64 mod 64), char_of (0x80 + r mod 64)])"

definition cont :: "byte \<Rightarrow> bool" where
  "cont b \<longleftrightarrow> 0x80 \<le> bval b \<and> bval b \<le> 0xBF"

text \<open>\<open>utf8.DecodeRune\<close>: the first rune and its width; \<open>(RuneError, 1)\<close> on an invalid or cut
  sequence (overlong forms and surrogates included), \<open>(RuneError, 0)\<close> on no input.\<close>

definition decodeRune :: "bytes \<Rightarrow> nat \<times> nat" where
  "decodeRune p =
     (case p of
        [] \<Rightarrow> (RuneError, 0)
      | a # p1 \<Rightarrow>
          (let x = bval a in
           if x < 0x80 then (x, 1)
           else if 0xC2 \<le> x \<and> x \<le> 0xDF then
             (case p1 of b # _ \<Rightarrow>
                if cont b then ((x mod 32) * 64 + bval b mod 64, 2) else (RuneError, 1)
              | _ \<Rightarrow> (RuneError, 1))
           else if 0xE0 \<le> x \<and> x \<le> 0xEF then
             (case p1 of b # c # _ \<Rightarrow>
                if cont b \<and> cont c \<and> (x = 0xE0 \<longrightarrow> 0xA0 \<le> bval b) \<and> (x = 0xED \<longrightarrow> bval b \<le> 0x9F)
                then ((x mod 16) * 4096 + (bval b mod 64) * 64 + bval c mod 64, 3)
                else (RuneError, 1)
              | _ \<Rightarrow> (RuneError, 1))
           else if 0xF0 \<le> x \<and> x \<le> 0xF4 then
             (case p1 of b # c # d # _ \<Rightarrow>
                if cont b \<and> cont c \<and> cont d \<and> (x = 0xF0 \<longrightarrow> 0x90 \<le> bval b) \<and> (x = 0xF4 \<longrightarrow> bval b \<le> 0x8F)
                then ((x mod 8) * 262144 + (bval b mod 64) * 4096 + (bval c mod 64) * 64 + bval d mod 64, 4)
                else (RuneError, 1)
              | _ \<Rightarrow> (RuneError, 1))
           else (RuneError, 1)))"

text \<open>\<open>utf16.DecodeRune\<close> and \<open>utf16.EncodeRune\<close>.\<close>

definition decodeSurrogates :: "nat \<Rightarrow> nat \<Rightarrow> nat" where
  "decodeSurrogates r1 r2 =
     (if 0xD800 \<le> r1 \<and> r1 < 0xDC00 \<and> 0xDC00 \<le> r2 \<and> r2 < 0xE000
      then (r1 - 0xD800) * 1024 + (r2 - 0xDC00) + 0x10000 else RuneError)"

definition encodeSurrogates :: "nat \<Rightarrow> nat \<times> nat" where
  "encodeSurrogates r =
     (if r < 0x10000 \<or> 0x10FFFF < r then (RuneError, RuneError)
      else (0xD800 + (r - 0x10000) div 1024 mod 1024, 0xDC00 + (r - 0x10000) mod 1024))"

lemma decodeRune_width: "p \<noteq> [] \<Longrightarrow> 0 < snd (decodeRune p) \<and> snd (decodeRune p) \<le> length p"
  by (auto simp: decodeRune_def Let_def split: list.splits)

lemma add_mod_small: "(r::nat) < m \<Longrightarrow> (k * m + r) mod m = r"
  by simp

lemma contByte:
  assumes "r < 64"
  shows "bval (char_of (0x80 + r)) = 0x80 + r" "cont (char_of (0x80 + r))" "(0x80 + r) mod 64 = r"
proof -
  show b: "bval (char_of (0x80 + r)) = 0x80 + r" using assms by (intro bval_char_of) simp
  show "cont (char_of (0x80 + r))" using assms by (simp add: cont_def b del: of_char_of)
  show "(0x80 + r) mod 64 = r" using add_mod_small [OF assms, of 2] by simp
qed

lemma decode_bytes_two:
  assumes "2 \<le> p" "p < 32" "q < 64"
  shows "decodeRune (char_of (0xC0 + p) # char_of (0x80 + q) # rest) = (p * 64 + q, 2)"
proof -
  have x: "bval (char_of (0xC0 + p)) = 0xC0 + p" using assms by (intro bval_char_of) simp
  have m: "(0xC0 + p) mod 32 = p" using add_mod_small [of p 32 6] assms by simp
  show ?thesis using assms by (simp add: decodeRune_def Let_def x m contByte del: of_char_of)
qed

lemma decode_bytes_three:
  assumes "n < 16" "p < 64" "q < 64" "n = 0 \<Longrightarrow> 0x20 \<le> p" "n = 13 \<Longrightarrow> p \<le> 0x1F"
  shows "decodeRune (char_of (0xE0 + n) # char_of (0x80 + p) # char_of (0x80 + q) # rest) =
    (n * 4096 + p * 64 + q, 3)"
proof -
  have x: "bval (char_of (0xE0 + n)) = 0xE0 + n" using assms by (intro bval_char_of) simp
  have m: "(0xE0 + n) mod 16 = n" using add_mod_small [of n 16 14] assms by simp
  show ?thesis using assms by (simp add: decodeRune_def Let_def x m contByte del: of_char_of)
qed

lemma decode_bytes_four:
  assumes "n < 5" "m < 64" "p < 64" "q < 64" "n = 0 \<Longrightarrow> 0x10 \<le> m" "n = 4 \<Longrightarrow> m \<le> 0x0F"
  shows "decodeRune (char_of (0xF0 + n) # char_of (0x80 + m) # char_of (0x80 + p) # char_of (0x80 + q) # rest) =
    (n * 262144 + m * 4096 + p * 64 + q, 4)"
proof -
  have x: "bval (char_of (0xF0 + n)) = 0xF0 + n" using assms by (intro bval_char_of) simp
  have e: "(0xF0 + n) mod 8 = n" using add_mod_small [of n 8 30] assms by simp
  show ?thesis using assms by (simp add: decodeRune_def Let_def x e contByte del: of_char_of)
qed

lemma decode_encode_ascii: "r < 0x80 \<Longrightarrow> decodeRune (encodeRune r @ rest) = (r, length (encodeRune r))"
  by (simp add: encodeRune_def decodeRune_def validRune_def isSurrogate_def Let_def)

lemma digits64: "(r::nat) div 64 * 64 + r mod 64 = r" "r div 64 = r div 4096 * 64 + r div 64 mod 64"
  "r div 4096 = r div 262144 * 64 + r div 4096 mod 64"
  using div_mult_mod_eq [of "r div 64" 64] div_mult_mod_eq [of "r div 4096" 64]
  by (simp_all add: div_mult2_eq [symmetric])

lemma decode_encode_two:
  assumes "0x80 \<le> r" "r < 0x800"
  shows "decodeRune (encodeRune r @ rest) = (r, length (encodeRune r))"
proof -
  have d: "2 \<le> r div 64" "r div 64 < 32" using assms by (simp_all add: less_mult_imp_div_less)
  have "encodeRune r = [char_of (0xC0 + r div 64), char_of (0x80 + r mod 64)]"
    using assms by (simp add: encodeRune_def validRune_def isSurrogate_def)
  then show ?thesis using decode_bytes_two [OF d, of "r mod 64" rest] by simp
qed

lemma decode_encode_three:
  assumes "0x800 \<le> r" "r < 0x10000" "\<not> isSurrogate r"
  shows "decodeRune (encodeRune r @ rest) = (r, length (encodeRune r))"
proof -
  have d: "r div 4096 < 16" using assms by (simp add: less_mult_imp_div_less)
  have lt: "r mod 64 < 64" "r div 64 mod 64 < 64" by simp_all
  have lo: "r div 4096 = 0 \<Longrightarrow> 0x20 \<le> r div 64 mod 64"
    using assms(1) digits64 [of r] lt by linarith
  have hi: "r div 4096 = 13 \<Longrightarrow> r div 64 mod 64 \<le> 0x1F"
    using assms(3) digits64 [of r] lt unfolding isSurrogate_def by linarith
  have sum: "r div 4096 * 4096 + r div 64 mod 64 * 64 + r mod 64 = r"
    using digits64 [of r] by linarith
  have "encodeRune r = [char_of (0xE0 + r div 4096), char_of (0x80 + r div 64 mod 64), char_of (0x80 + r mod 64)]"
    using assms by (simp add: encodeRune_def validRune_def)
  then show ?thesis using decode_bytes_three [OF d lt(2,1) lo hi, of rest] unfolding sum by simp
qed

lemma decode_encode_four:
  assumes "0x10000 \<le> r" "r \<le> 0x10FFFF"
  shows "decodeRune (encodeRune r @ rest) = (r, length (encodeRune r))"
proof -
  have d: "r div 262144 < 5" using assms by (simp add: less_mult_imp_div_less)
  have lt: "r mod 64 < 64" "r div 64 mod 64 < 64" "r div 4096 mod 64 < 64" by simp_all
  have lo: "r div 262144 = 0 \<Longrightarrow> 0x10 \<le> r div 4096 mod 64"
    using assms(1) digits64 [of r] lt by linarith
  have hi: "r div 262144 = 4 \<Longrightarrow> r div 4096 mod 64 \<le> 0x0F"
    using assms(2) digits64 [of r] lt by linarith
  have sum: "r div 262144 * 262144 + r div 4096 mod 64 * 4096 + r div 64 mod 64 * 64 + r mod 64 = r"
    using digits64 [of r] by linarith
  have "encodeRune r = [char_of (0xF0 + r div 262144), char_of (0x80 + r div 4096 mod 64),
      char_of (0x80 + r div 64 mod 64), char_of (0x80 + r mod 64)]"
    using assms by (simp add: encodeRune_def validRune_def isSurrogate_def)
  then show ?thesis using decode_bytes_four [OF d lt(3,2,1) lo hi, of rest] unfolding sum by simp
qed

lemma decode_encodeRune:
  assumes "validRune r"
  shows "decodeRune (encodeRune r @ rest) = (r, length (encodeRune r))"
proof -
  consider "r < 0x80" | "0x80 \<le> r" "r < 0x800" | "0x800 \<le> r" "r < 0x10000" | "0x10000 \<le> r" by linarith
  then show ?thesis
    using assms decode_encode_ascii decode_encode_two decode_encode_three decode_encode_four
    by cases (auto simp: validRune_def)
qed

lemma encodeRune_nonempty [simp]: "encodeRune r \<noteq> []"
  by (simp add: encodeRune_def Let_def)

lemma encodeRune_ascii: "r < 0x80 \<Longrightarrow> encodeRune r = [char_of r]"
  by (simp add: encodeRune_def validRune_def isSurrogate_def)

lemma decode_encodeSurrogates:
  assumes "0x10000 \<le> r" "r \<le> 0x10FFFF"
  shows "(case encodeSurrogates r of (h, l) \<Rightarrow> isSurrogate h \<and> h \<noteq> RuneError \<and> h < 65536 \<and> l < 65536
    \<and> decodeSurrogates h l = r)"
proof -
  have h: "(r - 0x10000) div 1024 < 1024" using assms by arith
  then have "(r - 0x10000) div 1024 mod 1024 = (r - 0x10000) div 1024" by simp
  moreover have "(r - 0x10000) div 1024 * 1024 + (r - 0x10000) mod 1024 = r - 0x10000" by simp
  moreover have "(r - 0x10000) mod 1024 < 1024" by simp
  ultimately show ?thesis using assms h
    by (simp add: encodeSurrogates_def decodeSurrogates_def isSurrogate_def RuneError_def)
qed

text \<open>Valid text is the UTF-8 encoding of a list of Unicode scalar values.\<close>

definition utf8 :: "nat list \<Rightarrow> bytes" where
  "utf8 rs = concat (map encodeRune rs)"

lemma utf8_simps [simp]: "utf8 [] = []" "utf8 (r # rs) = encodeRune r @ utf8 rs"
    "utf8 (rs @ rs') = utf8 rs @ utf8 rs'"
  by (simp_all add: utf8_def)

lemma utf8_Nil_iff [simp]: "utf8 rs = [] \<longleftrightarrow> rs = []"
  by (cases rs) auto

text \<open>\<open>utf8.Valid\<close>\<close>

function utf8Valid :: "bytes \<Rightarrow> bool" where
  "utf8Valid p =
     (if p = [] then True
      else (let (r, sz) = decodeRune p in if r = RuneError \<and> sz = 1 then False else utf8Valid (drop sz p)))"
  by pat_completeness auto
termination
proof (relation "measure length", goal_cases)
  case (2 p x r sz)
  then have "decodeRune p = (r, sz)" "p \<noteq> []" by simp_all
  then show ?case using decodeRune_width [of p] by simp
qed simp

declare utf8Valid.simps [simp del]

lemma length_encodeRune_Error: "encodeRune r = encodeRune RuneError \<or> validRune r"
  by (auto simp: encodeRune_def validRune_def isSurrogate_def RuneError_def)

lemma validRune_Error: "validRune RuneError" "length (encodeRune RuneError) = 3"
  by (simp_all add: validRune_def isSurrogate_def RuneError_def encodeRune_def)

lemma utf8Valid_utf8: "(\<And>r. r \<in> set rs \<Longrightarrow> validRune r) \<Longrightarrow> utf8Valid (utf8 rs)"
proof (induction rs)
  case Nil
  then show ?case by (simp add: utf8Valid.simps)
next
  case (Cons r rs)
  have d: "decodeRune (encodeRune r @ utf8 rs) = (r, length (encodeRune r))"
    using Cons.prems by (intro decode_encodeRune) simp
  have "r = RuneError \<Longrightarrow> length (encodeRune r) \<noteq> 1" using validRune_Error by simp
  then show ?case using Cons d by (subst utf8Valid.simps) simp
qed

subsection \<open>strconv.Quote\<close>

text \<open>\<open>fmt\<close>'s \<open>%q\<close> (\<open>strconv.Quote\<close>): printable ASCII is kept, a quote and a backslash are escaped, the other ASCII
  bytes have their escapes, a byte that is no UTF-8 is \<open>\xNN\<close>. Whether another rune is kept is the argument \<open>isPrint\<close> (the table behind
  \<open>strconv.IsPrint\<close>).\<close>

definition hexDigit :: "nat \<Rightarrow> byte" where
  "hexDigit n = (if n < 10 then char_of (48 + n) else char_of (87 + n))"

fun hexDigits :: "nat \<Rightarrow> nat \<Rightarrow> bytes" where
  "hexDigits 0 n = []"
| "hexDigits (Suc k) n = hexDigits k (n div 16) @ [hexDigit (n mod 16)]"

definition escapeByte :: "nat \<Rightarrow> bytes" where
  "escapeByte n =
     (if n = 7 then [BSL, CHR ''a''] else if n = 8 then [BSL, CHR ''b''] else if n = 9 then [BSL, CHR ''t'']
      else if n = 10 then [BSL, CHR ''n''] else if n = 11 then [BSL, CHR ''v''] else if n = 12 then [BSL, CHR ''f'']
      else if n = 13 then [BSL, CHR ''r'']
      else [BSL, CHR ''x''] @ hexDigits 2 n)"

definition escapeRune :: "nat \<Rightarrow> bytes" where
  "escapeRune r = (if r < 65536 then [BSL, CHR ''u''] @ hexDigits 4 r else [BSL, CHR ''U''] @ hexDigits 8 r)"

function quoteLoop :: "(nat \<Rightarrow> bool) \<Rightarrow> bytes \<Rightarrow> bytes" where
  "quoteLoop isPrint s =
     (if s = [] then []
      else
        (let (r, sz) = decodeRune s in
         (if r = RuneError \<and> sz = 1 then [BSL, CHR ''x''] @ hexDigits 2 (bval (hd s))
          else if r = bval DQ \<or> r = bval BSL then [BSL, hd s]
          else if 32 \<le> r \<and> r < 127 \<or> 128 \<le> r \<and> isPrint r then take sz s
          else if r < 128 then escapeByte r
          else escapeRune r) @ quoteLoop isPrint (drop sz s)))"
  by pat_completeness auto
termination
proof (relation "measure (\<lambda>(isPrint, s). length s)", goal_cases)
  case (2 isPrint s x r sz)
  then have "sz = snd (decodeRune s)" by (metis snd_conv)
  with 2 show ?case using decodeRune_width [of s] by (cases s) auto
qed simp

declare quoteLoop.simps [simp del]

definition goQuote :: "(nat \<Rightarrow> bool) \<Rightarrow> bytes \<Rightarrow> bytes" where
  "goQuote isPrint s = [DQ] @ quoteLoop isPrint s @ [DQ]"

end
