(* ===== verification/ImapScanner.thy ===== *)
theory ImapScanner
  imports ImapTypes Base64
begin

text \<open>
  The IMAP tokenizer (\<open>imap/imapparser/scanner.go\<close>), method by method.

  A method of \<open>*Scanner\<close> is a function from the scanner to its result and the new scanner. The
  \<open>bufio.Reader\<close> is the list of the bytes it has not handed out yet and the error it reports after
  the last one. The literal file (an \<open>iox.BufferFile\<close>, shared by the scanner and the command) is its
  content, and \<open>hasLiteral\<close> tells whether the scanner's pointer to it is set; its \<open>Truncate\<close> and
  \<open>Seek\<close> do not fail. Writing through the unset pointer is a panic of the program: it is recorded in
  \<open>panicked\<close>, which no operation clears, and \<open>ParseCommand\<close> of the parser reports it. \<open>contLog\<close>
  lists the calls of the continuation callback \<open>ContFn\<close> (\<open>hasContFn\<close>: it is not nil).
\<close>

subsection \<open>State\<close>

datatype Token =
    TokenUnknown | TokenAtom | TokenNumber | TokenString | TokenLiteral | TokenListStart
  | TokenListEnd | TokenNIL | TokenFlag | TokenSequences | TokenTag | TokenSearchKey
  | TokenFetchItem | TokenDate | TokenListMailbox | TokenEnd

definition tokenString :: "Token \<Rightarrow> string" where
  "tokenString t = (case t of
      TokenUnknown \<Rightarrow> ''unknown-token'' | TokenAtom \<Rightarrow> ''atom'' | TokenNumber \<Rightarrow> ''number''
    | TokenString \<Rightarrow> ''astring'' | TokenLiteral \<Rightarrow> ''literal'' | TokenListStart \<Rightarrow> ''list-start''
    | TokenListEnd \<Rightarrow> ''list-end'' | TokenNIL \<Rightarrow> ''NIL'' | TokenFlag \<Rightarrow> ''flag''
    | TokenSequences \<Rightarrow> ''sequences'' | TokenTag \<Rightarrow> ''tag'' | TokenEnd \<Rightarrow> ''end''
    | TokenSearchKey \<Rightarrow> ''search-key'' | TokenFetchItem \<Rightarrow> ''fetch-item'' | TokenDate \<Rightarrow> ''date''
    | TokenListMailbox \<Rightarrow> ''list-mailbox'')"

record scanner =
  buf :: bytes
  endErr :: io_error
  ioErr :: "goerr option"
  listDepth :: nat
  lastWasCRLF :: bool
  hasContFn :: bool
  contLog :: "(string \<times> nat) list"
  scanError :: "goerr option"
  token :: Token
  val :: bytes
  seqs :: "SeqRange list"
  fitem :: FetchItem
  date :: int
  number :: nat
  hasLiteral :: bool
  litFile :: bytes
  panicked :: bool

definition NewScanner :: "bytes \<Rightarrow> io_error \<Rightarrow> bool \<Rightarrow> bool \<Rightarrow> scanner" where
  "NewScanner r e lit cfn = \<lparr>buf = r, endErr = e, ioErr = None, listDepth = 0, lastWasCRLF = False,
     hasContFn = cfn, contLog = [], scanError = None, token = TokenUnknown, val = [], seqs = [],
     fitem = emptyItem, date = 0, number = 0, hasLiteral = lit, litFile = [], panicked = False\<rparr>"

definition SetSource :: "bytes \<Rightarrow> io_error \<Rightarrow> scanner \<Rightarrow> scanner" where
  "SetSource r e s = s\<lparr>buf := r, endErr := e\<rparr>"

definition setErr :: "goerr \<Rightarrow> scanner \<Rightarrow> scanner" where
  "setErr e s = s\<lparr>scanError := Some e\<rparr>"

definition pushVal :: "byte \<Rightarrow> scanner \<Rightarrow> scanner" where
  "pushVal b s = s\<lparr>val := val s @ [b]\<rparr>"

text \<open>\<open>string(b)\<close> of a byte is the UTF-8 form of that code point.\<close>

definition byteStr :: "byte \<Rightarrow> bytes" where
  "byteStr b = encodeRune (bval b)"

subsection \<open>Bytes\<close>

definition errNUL :: goerr where
  "errNUL = Errorf ''imapparser: unexpected NUL'' []"

definition eofErr :: "io_error \<Rightarrow> goerr" where
  "eofErr e = IoErr (if e = UnexpectedEOF then EOF else e)"

definition peekChar :: "scanner \<Rightarrow> byte \<times> scanner" where
  "peekChar s =
     (if ioErr s \<noteq> None then (NUL, s)
      else case buf s of
        [] \<Rightarrow> (NUL, s\<lparr>ioErr := Some (eofErr (endErr s))\<rparr>)
      | b # _ \<Rightarrow> if b = NUL then (b, s\<lparr>ioErr := Some errNUL\<rparr>) else (b, s))"

definition readChar :: "scanner \<Rightarrow> byte \<times> scanner" where
  "readChar s =
     (if ioErr s \<noteq> None then (NUL, s)
      else case buf s of
        [] \<Rightarrow> (NUL, s\<lparr>ioErr := Some (eofErr (endErr s))\<rparr>)
      | b # r \<Rightarrow> if b = NUL then (b, s\<lparr>buf := r, ioErr := Some errNUL\<rparr>) else (b, s\<lparr>buf := r\<rparr>))"

definition is7bitPrint :: "byte \<Rightarrow> bool" where
  "is7bitPrint b \<longleftrightarrow> 0x20 \<le> bval b \<and> bval b \<le> 0x7e"

lemma peekChar_Cons: "ioErr s = None \<Longrightarrow> buf s = b # r \<Longrightarrow> b \<noteq> NUL \<Longrightarrow> peekChar s = (b, s)"
  by (simp add: peekChar_def)

lemma readChar_Cons: "ioErr s = None \<Longrightarrow> buf s = b # r \<Longrightarrow> b \<noteq> NUL \<Longrightarrow> readChar s = (b, s\<lparr>buf := r\<rparr>)"
  by (simp add: readChar_def)

lemma peekChar_some:
  "peekChar s = (b, s1) \<Longrightarrow> b \<noteq> NUL \<Longrightarrow> s1 = s \<and> ioErr s = None \<and> (\<exists>r. buf s = b # r)"
  by (auto simp: peekChar_def split: if_splits list.splits)

lemma peekChar_buf: "peekChar s = (b, s1) \<Longrightarrow> buf s1 = buf s"
  by (auto simp: peekChar_def split: if_splits list.splits)

lemma readChar_some:
  "readChar s = (b, s1) \<Longrightarrow> b \<noteq> NUL \<Longrightarrow> ioErr s = None \<and> buf s = b # buf s1 \<and> s1 = s\<lparr>buf := buf s1\<rparr>"
  by (auto simp: readChar_def split: if_splits list.splits)

lemma peek_read_less:
  "peekChar s = (b, s1) \<Longrightarrow> b \<noteq> NUL \<Longrightarrow> readChar s1 = (c, s2) \<Longrightarrow>
   length (buf s2) < length (buf s) \<and> c = b"
  by (auto dest!: peekChar_some simp: readChar_Cons)

lemma readChar_less: "readChar s = (b, s1) \<Longrightarrow> b \<noteq> NUL \<Longrightarrow> length (buf s1) < length (buf s)"
  by (drule readChar_some) auto

lemma read_sym:
  "(b, s1) = readChar s \<Longrightarrow> b \<noteq> NUL \<Longrightarrow> length (buf s1) < length (buf s)"
  "(b, s1) = readChar s \<Longrightarrow> (b', s1') = readChar s1 \<Longrightarrow> b \<noteq> NUL \<Longrightarrow> b' \<noteq> NUL \<Longrightarrow> length (buf s1') < length (buf s)"
  "(b, s1) = peekChar s \<Longrightarrow> (b', s1') = readChar s1 \<Longrightarrow> b \<noteq> NUL \<Longrightarrow> length (buf s1') < length (buf s)"
proof -
  show one: "length (buf s1) < length (buf s)" if "(b, s1) = readChar s" "b \<noteq> NUL" for b s1 s
    using readChar_less [OF that(1) [symmetric] that(2)] .
  show "length (buf s1') < length (buf s)"
    if "(b, s1) = readChar s" "(b', s1') = readChar s1" "b \<noteq> NUL" "b' \<noteq> NUL"
    using one [OF that(1,3)] one [OF that(2,4)] by simp
  show "length (buf s1') < length (buf s)" if "(b, s1) = peekChar s" "(b', s1') = readChar s1" "b \<noteq> NUL"
    using peek_read_less [OF that(1) [symmetric] that(3) that(2) [symmetric]] by simp
qed

lemma readChar_le: "readChar s = (b, s1) \<Longrightarrow> length (buf s1) \<le> length (buf s)"
  by (auto simp: readChar_def split: if_splits list.splits)

lemma setErr_simps [simp]:
  "buf (setErr e s) = buf s" "ioErr (setErr e s) = ioErr s" "scanError (setErr e s) = Some e"
  "val (setErr e s) = val s" "panicked (setErr e s) = panicked s" "seqs (setErr e s) = seqs s"
  by (simp_all add: setErr_def)

lemma pushVal_simps [simp]:
  "buf (pushVal b s) = buf s" "ioErr (pushVal b s) = ioErr s" "scanError (pushVal b s) = scanError s"
  "val (pushVal b s) = val s @ [b]" "panicked (pushVal b s) = panicked s" "seqs (pushVal b s) = seqs s"
  by (simp_all add: pushVal_def)

subsection \<open>Strings and atoms\<close>

definition errUnterminatedString :: goerr where
  "errUnterminatedString = ErrNew ''imapparser: unterminated string''"

definition quotedEnd :: "scanner \<Rightarrow> scanner" where
  "quotedEnd s = (if ioErr s = Some (IoErr EOF) then setErr errUnterminatedString s
                  else s\<lparr>scanError := ioErr s\<rparr>)"

function quotedLoop :: "scanner \<Rightarrow> bool \<times> scanner" where
  "quotedLoop s =
     (let (b, s1) = readChar s in
      if b = NUL then (False, quotedEnd s1)
      else if b = DQ then (True, s1)
      else if b = CR \<or> b = LF then
        (False, setErr (Errorf ''imapparser: invalid character in quoted string: %q'' [byteStr b]) s1)
      else if b = BSL then
        (let (c, s2) = readChar s1 in
         if c = NUL then (False, quotedEnd s2)
         else if c = BSL \<or> c = DQ then quotedLoop (pushVal c s2)
         else (False, setErr (Errorf ''imapserver: invalid escape character in quoted string: %q'' [byteStr c]) s2))
      else quotedLoop (pushVal b s1))"
  by auto
termination
  by (relation "measure (\<lambda>s. length (buf s))") (auto dest: read_sym)

declare quotedLoop.simps [simp del]

definition readQuotedString :: "scanner \<Rightarrow> bool \<times> scanner" where
  "readQuotedString s = (let (_, s1) = readChar s in quotedLoop s1)"

text \<open>The loop of \<open>readAtom\<close>, \<open>readTag\<close>, \<open>readAstring\<close> and \<open>readListMailbox\<close>: the four differ in the
  bytes that end the token, the bytes that are an error, and the message.\<close>

function charLoop :: "byte list \<Rightarrow> byte list \<Rightarrow> string \<Rightarrow> nat \<Rightarrow> scanner \<Rightarrow> bool \<times> scanner" where
  "charLoop stop bad msg oldlen s =
     (let (b, s1) = peekChar s in
      if b = NUL then (let (_, s2) = readChar s1 in (oldlen < length (val s2), s2))
      else if b \<in> set stop then (oldlen < length (val s1), s1)
      else if b \<in> set bad \<or> \<not> is7bitPrint b then
        (False, if oldlen < length (val s1) then setErr (Errorf msg [byteStr b]) s1 else s1)
      else (let (_, s2) = readChar s1 in charLoop stop bad msg oldlen (pushVal b s2)))"
  by auto
termination
  by (relation "measure (\<lambda>(_, _, _, _, s). length (buf s))") (auto dest: read_sym)

declare charLoop.simps [simp del]

definition readAtom :: "scanner \<Rightarrow> bool \<times> scanner" where
  "readAtom s = charLoop [SP, CR, LF, CHR '')''] [CHR ''('', CHR ''{'', CHR ''%'', CHR ''*'', CHR '']'']
     ''imapparser: invalid atom character: %q'' (length (val s)) s"

definition readTag :: "scanner \<Rightarrow> bool \<times> scanner" where
  "readTag s = charLoop [SP, CR, LF]
     [CHR ''('', CHR '')'', CHR ''{'', CHR ''%'', CHR ''*'', DQ, BSL, CHR ''+'']
     ''imapparser: invalid tag character: %q'' (length (val s)) s"

definition readFlag :: "scanner \<Rightarrow> bool \<times> scanner" where
  "readFlag s =
     (let (b, s1) = peekChar s in
      if b = BSL then
        (let (_, s2) = readChar s1;
             (ok, s3) = readAtom (pushVal BSL s2) in
         if \<not> ok then
           (let (c, s4) = peekChar (s3\<lparr>val := []\<rparr>) in
            (False, setErr (Errorf ''imapparser: invalid flag: \"%s\"'' [byteStr c]) s4))
         else if val s3 \<in> {BSL # ''Answered'', BSL # ''Flagged'', BSL # ''Deleted'', BSL # ''Seen'', BSL # ''Draft''}
         then (True, s3)
         else (False, (setErr (Errorf ''imapparser: invalid flag: %q'' [val s3]) s3)\<lparr>val := []\<rparr>))
      else readAtom s1)"

subsection \<open>Numbers\<close>

text \<open>Both number readers consume every digit and keep the first \<open>cap\<close> of them.\<close>

function digitLoop :: "nat \<Rightarrow> bytes \<Rightarrow> scanner \<Rightarrow> bytes \<times> scanner" where
  "digitLoop cap acc s =
     (let (b, s1) = peekChar s in
      if b = NUL \<or> \<not> isDigit b then (acc, s1)
      else (let (_, s2) = readChar s1 in
            digitLoop cap (if length acc < cap then acc @ [b] else acc) s2))"
  by auto
termination
  by (relation "measure (\<lambda>(_, _, s). length (buf s))") (auto dest: read_sym)

declare digitLoop.simps [simp del]

definition readUint32 :: "scanner \<Rightarrow> (goerr + u32) \<times> scanner" where
  "readUint32 s =
     (let (ds, s1) = digitLoop 11 [] s in
      (case ParseUint ds 32 of Inl e \<Rightarrow> Inl e | Inr v \<Rightarrow> Inr (of_nat v), s1))"

definition readUint64 :: "scanner \<Rightarrow> (goerr + nat) \<times> scanner" where
  "readUint64 s = (let (ds, s1) = digitLoop 20 [] s in (ParseUint ds 64, s1))"

definition errZeroSeq :: goerr where
  "errZeroSeq = ErrNew (''imapparser: invalid seq-number: '' @ [CHR 0x27, CHR ''0'', CHR 0x27])"

definition readSeqNumber :: "scanner \<Rightarrow> u32 option \<times> scanner" where
  "readSeqNumber s =
     (let (b, s1) = peekChar s in
      if b = NUL then (None, s1)
      else if b = CHR ''*'' then (let (_, s2) = readChar s1 in (Some 0, s2))
      else
        (let (r, s2) = readUint32 s1 in
         case r of
           Inl e \<Rightarrow> (None, setErr e s2)
         | Inr v \<Rightarrow> if v = 0 then (None, setErr errZeroSeq s2)
                   else (Some v, s2)))"

definition readSequence :: "scanner \<Rightarrow> bool \<times> scanner" where
  "readSequence s =
     (let (r, s1) = readSeqNumber s in
      case r of None \<Rightarrow> (False, s1)
      | Some mn \<Rightarrow>
        (let (b, s2) = peekChar s1 in
         if b \<noteq> CHR '':'' then (True, s2\<lparr>seqs := seqs s2 @ [mkSeq mn mn]\<rparr>)
         else
           (let (_, s3) = readChar s2;
                (r2, s4) = readSeqNumber s3 in
            case r2 of
              None \<Rightarrow> (False, setErr (ErrNew ''imapparser: missing upper value of seq-number'') s4)
            | Some mx \<Rightarrow>
                (True, s4\<lparr>seqs := seqs s4 @ [if mx < mn \<and> mx \<noteq> 0 then mkSeq mx mn else mkSeq mn mx]\<rparr>))))"


subsection \<open>Lists, white space, literals\<close>

definition readListStart :: "scanner \<Rightarrow> bool \<times> scanner" where
  "readListStart s =
     (let (b, s1) = peekChar s in
      if b = CHR ''('' then (let (_, s2) = readChar s1 in (True, s2\<lparr>listDepth := listDepth s2 + 1\<rparr>))
      else (False, s1))"

definition readListEnd :: "scanner \<Rightarrow> (goerr + bool) \<times> scanner" where
  "readListEnd s =
     (let (b, s1) = peekChar s in
      if b = CHR '')'' then
        (let (_, s2) = readChar s1 in
         if listDepth s2 = 0 then (Inl (Errorf ''imapparser: unbalanced list-end paren'' []), s2)
         else (Inr True, s2\<lparr>listDepth := listDepth s2 - 1\<rparr>))
      else (Inr False, s1))"

function consumeWhitespace :: "scanner \<Rightarrow> scanner" where
  "consumeWhitespace s =
     (let (b, s1) = peekChar s in
      if b \<noteq> SP \<and> b \<noteq> TAB then s1
      else (let (_, s2) = readChar s1 in consumeWhitespace s2))"
  by auto
termination
  by (relation "measure (\<lambda>s. length (buf s))") (auto dest: read_sym)

declare consumeWhitespace.simps [simp del]

text \<open>\<open>clear\<close> keeps the error, the number, the I/O error and the list depth.\<close>

definition clear :: "scanner \<Rightarrow> scanner" where
  "clear s = s\<lparr>lastWasCRLF := False, token := TokenUnknown, val := [], seqs := [],
     fitem := resetItem (fitem s), date := 0,
     litFile := (if hasLiteral s then [] else litFile s)\<rparr>"

text \<open>\<open>ReadSlice\<close> up to a line feed, repeated while the line is longer than the reader's buffer.\<close>

definition Drain :: "scanner \<Rightarrow> scanner" where
  "Drain s = (if lastWasCRLF s then s
              else s\<lparr>buf := drop 1 (dropWhile (\<lambda>b. b \<noteq> LF) (buf s))\<rparr>)"

text \<open>\<open>io.ReadFull\<close> and \<open>io.CopyN\<close> from the reader: the bytes, or everything consumed and an error.\<close>

definition readFull :: "nat \<Rightarrow> scanner \<Rightarrow> (goerr + bytes) \<times> scanner" where
  "readFull n s =
     (if n \<le> length (buf s) then (Inr (take n (buf s)), s\<lparr>buf := drop n (buf s)\<rparr>)
      else (Inl (IoErr (if endErr s = EOF \<and> buf s \<noteq> [] then UnexpectedEOF else endErr s)), s\<lparr>buf := []\<rparr>))"

definition copyN :: "nat \<Rightarrow> scanner \<Rightarrow> (goerr + bytes) \<times> scanner" where
  "copyN n s =
     (if n \<le> length (buf s) then (Inr (take n (buf s)), s\<lparr>buf := drop n (buf s)\<rparr>)
      else (Inl (IoErr (endErr s)), s\<lparr>buf := []\<rparr>))"

definition callCont :: "string \<Rightarrow> nat \<Rightarrow> scanner \<Rightarrow> scanner" where
  "callCont msg n s = (if hasContFn s then s\<lparr>contLog := contLog s @ [(msg, n)]\<rparr> else s)"

definition contReady :: string where
  "contReady = ''+ Ready for additional text'' @ CRLF"

text \<open>The data of a literal of \<open>v\<close> bytes: into the token's value if there is a limit, else into the file.\<close>

definition literalData :: "nat \<Rightarrow> nat \<Rightarrow> scanner \<Rightarrow> bool \<times> scanner" where
  "literalData limit v s =
     (if limit \<noteq> 0 then
        (if limit < v then
           (False, setErr (Errorf ''imapparser: literal length %d is greater than max %d'' [fmtNat v, fmtNat limit]) s)
         else
           (let (r, s1) = readFull v s in
            case r of
              Inl e \<Rightarrow> (False, setErr e (s1\<lparr>val := []\<rparr>))
            | Inr data \<Rightarrow> (True, s1\<lparr>val := data\<rparr>)))
      else if \<not> hasLiteral s then (False, s\<lparr>panicked := True\<rparr>)
      else
        (let (r, s1) = copyN v s in
         case r of
           Inl e \<Rightarrow> (False, setErr e (s1\<lparr>litFile := []\<rparr>))
         | Inr data \<Rightarrow> (True, s1\<lparr>litFile := litFile s1 @ data\<rparr>)))"

definition literalBody :: "nat \<Rightarrow> scanner \<Rightarrow> bool \<times> scanner" where
  "literalBody limit s2 =
     (let (r, s3) = readUint32 s2 in
      case r of
        Inl e \<Rightarrow> (False, setErr e s3)
      | Inr v \<Rightarrow>
        (let (b, s4) = readChar s3 in
         if b \<noteq> CHR ''}'' then
           (False, setErr (Errorf ''imapparser: bad literal, got %q instead of \"}\"'' [byteStr b]) s4) else
         let (b, s5) = readChar s4 in
         if b \<noteq> CR then
           (False, setErr (Errorf (''imapparser: bad literal, got %q instead of '' @ [BSL, CHR ''r'']) [byteStr b]) s5) else
         let (b, s6) = readChar s5 in
         if b \<noteq> LF then
           (False, setErr (Errorf (''imapparser: bad literal, got %q instead of '' @ [BSL, CHR ''n'']) [byteStr b]) s6) else
         literalData limit (unat v) (callCont contReady (unat v) s6)))"

definition readLiteral :: "nat \<Rightarrow> scanner \<Rightarrow> bool \<times> scanner" where
  "readLiteral limit s =
     (let (b, s1) = peekChar s in
      if b \<noteq> CHR ''{'' then (False, s1)
      else (let (_, s2) = readChar s1 in literalBody limit s2))"

definition readAstring :: "scanner \<Rightarrow> bool \<times> scanner" where
  "readAstring s =
     (let (b, s1) = peekChar s in
      if b = NUL then (False, s1)
      else if b = DQ then readQuotedString s1
      else if b = CHR ''{'' then readLiteral 1024 s1
      else charLoop [SP, CR, LF, CHR ''('', CHR '')'', CHR ''{'', CHR ''%'', CHR ''*'', DQ, BSL] []
             ''imapparser: invalid astring character: %q'' (length (val s1)) s1)"

definition readListMailbox :: "scanner \<Rightarrow> bool \<times> scanner" where
  "readListMailbox s =
     (let (b, s1) = peekChar s in
      if b = NUL then (False, s1)
      else if b = DQ then readQuotedString s1
      else if b = CHR ''{'' then readLiteral 1024 s1
      else charLoop [SP, CR, LF, CHR ''('', CHR '')'', CHR ''{'', DQ, BSL] []
             ''imapparser: invalid astring character: %q'' (length (val s1)) s1)"

subsection \<open>Reading moves forward\<close>

text \<open>What every operation of the scanner except \<open>SetSource\<close> keeps: the rest of the input is a suffix,
  the errors and the panic mark stay set, the callback log only grows.
  With \<open>k\<close> the current token stays as well, as in all the readers below \<open>Next\<close>.\<close>

definition adv :: "bool \<Rightarrow> scanner \<Rightarrow> scanner \<Rightarrow> bool" where
  "adv k s t \<longleftrightarrow> suffix (buf t) (buf s) \<and> endErr t = endErr s \<and>
     (ioErr s \<noteq> None \<longrightarrow> ioErr t = ioErr s) \<and> (scanError s \<noteq> None \<longrightarrow> scanError t \<noteq> None) \<and>
     (panicked s \<longrightarrow> panicked t) \<and> prefix (contLog s) (contLog t) \<and>
     hasContFn t = hasContFn s \<and> hasLiteral t = hasLiteral s \<and> (k \<longrightarrow> token t = token s)"

lemma adv_refl: "adv k s s"
  by (simp add: adv_def)

lemma adv_trans: "adv k s t \<Longrightarrow> adv k t u \<Longrightarrow> adv k s u"
  unfolding adv_def by (metis prefix_order.trans suffix_order.trans)

lemma adv_length: "adv k s t \<Longrightarrow> length (buf t) \<le> length (buf s)"
  by (simp add: adv_def suffix_length_le)

lemma adv_tail:
  assumes "\<And>s. adv k s (snd (R s))"
  shows "adv k s0 s \<Longrightarrow> adv k s0 (snd (R s))"
  using adv_trans assms by blast

lemma adv_let:
  assumes "\<And>s. adv k s (snd (R s))"
  shows "adv k s0 s \<Longrightarrow> (\<And>x s1. adv k s0 s1 \<Longrightarrow> adv k s0 (snd (F x s1))) \<Longrightarrow>
    adv k s0 (snd (let (x, s1) = R s in F x s1))"
  using adv_tail [OF assms] by (simp add: split_def Let_def)

lemma adv_eq:
  assumes "\<And>s. adv k s (snd (R s))"
  shows "R s = (x, t) \<Longrightarrow> adv k s t"
  using assms [of s] by simp

lemma adv_ctrl [forward]:
  "adv k s0 t \<Longrightarrow> adv k s0 (snd (x, t))"
  "(c \<Longrightarrow> adv k s0 (snd A)) \<Longrightarrow> (\<not> c \<Longrightarrow> adv k s0 (snd B)) \<Longrightarrow> adv k s0 (snd (if c then A else B))"
  "(c \<Longrightarrow> adv k s0 s1) \<Longrightarrow> (\<not> c \<Longrightarrow> adv k s0 s2) \<Longrightarrow> adv k s0 (if c then s1 else s2)"
  "(\<And>e. r = Inl e \<Longrightarrow> adv k s0 (snd (C e))) \<Longrightarrow> (\<And>v. r = Inr v \<Longrightarrow> adv k s0 (snd (D v))) \<Longrightarrow>
   adv k s0 (snd (case r of Inl e \<Rightarrow> C e | Inr v \<Rightarrow> D v))"
  "(o1 = None \<Longrightarrow> adv k s0 (snd E)) \<Longrightarrow> (\<And>y. o1 = Some y \<Longrightarrow> adv k s0 (snd (H y))) \<Longrightarrow>
   adv k s0 (snd (case o1 of None \<Rightarrow> E | Some y \<Rightarrow> H y))"
  "adv k s0 z \<Longrightarrow> (\<And>y. adv k s0 y \<Longrightarrow> adv k s0 (snd (K y))) \<Longrightarrow> adv k s0 (snd (Let z K))"
  by (auto split: sum.split option.split)

lemma adv_upd [forward]:
  "adv k s0 s \<Longrightarrow> adv k s0 (setErr e s)"
  "adv k s0 s \<Longrightarrow> adv k s0 (pushVal b s)"
  "adv k s0 s \<Longrightarrow> adv k s0 (s\<lparr>val := v\<rparr>)"
  "adv False s0 s \<Longrightarrow> adv False s0 (s\<lparr>token := t\<rparr>)"
  "adv k s0 s \<Longrightarrow> adv k s0 (s\<lparr>seqs := q\<rparr>)"
  "adv k s0 s \<Longrightarrow> adv k s0 (s\<lparr>fitem := fi\<rparr>)"
  "adv k s0 s \<Longrightarrow> adv k s0 (s\<lparr>date := d\<rparr>)"
  "adv k s0 s \<Longrightarrow> adv k s0 (s\<lparr>number := nn\<rparr>)"
  "adv k s0 s \<Longrightarrow> adv k s0 (s\<lparr>listDepth := nn\<rparr>)"
  "adv k s0 s \<Longrightarrow> adv k s0 (s\<lparr>lastWasCRLF := c\<rparr>)"
  "adv k s0 s \<Longrightarrow> adv k s0 (s\<lparr>litFile := v\<rparr>)"
  "adv k s0 s \<Longrightarrow> adv k s0 (s\<lparr>panicked := True\<rparr>)"
  by (simp_all add: adv_def setErr_def pushVal_def)

lemma adv_callCont [forward]: "adv k s0 s \<Longrightarrow> adv k s0 (callCont m n s)"
  by (auto simp: adv_def callCont_def prefix_def)

lemma peekChar_adv: "adv k s (snd (peekChar s))"
  by (auto simp: peekChar_def adv_def split: list.split)

lemma readChar_adv: "adv k s (snd (readChar s))"
  by (auto simp: readChar_def adv_def suffix_ConsI split: list.split)

lemma readChar_NUL: "readChar s = (NUL, s1) \<Longrightarrow> ioErr s1 \<noteq> None"
  by (auto simp: readChar_def split: if_splits list.splits)

lemmas char_forward [forward] =
  adv_tail [OF peekChar_adv] adv_let [OF peekChar_adv] adv_tail [OF readChar_adv] adv_let [OF readChar_adv]

lemma adv_quotedEnd: "adv k s0 s \<Longrightarrow> ioErr s \<noteq> None \<Longrightarrow> adv k s0 (quotedEnd s)"
  by (auto simp: adv_def quotedEnd_def setErr_def)

lemma adv_pushVal: "adv k s s1 \<Longrightarrow> adv k (pushVal b s1) t \<Longrightarrow> adv k s t"
  by (rule adv_trans [OF adv_upd(2)])

lemma quotedLoop_adv: "adv k s (snd (quotedLoop s))"
proof (induction s rule: measure_induct_rule [of "\<lambda>s. length (buf s)"])
  case (less s)
  obtain b s1 where r1: "readChar s = (b, s1)" by fastforce
  obtain c s2 where r2: "readChar s1 = (c, s2)" by fastforce
  have a1: "adv k s s1" using adv_eq [OF readChar_adv r1] .
  have a2: "adv k s s2" using adv_trans [OF a1 adv_eq [OF readChar_adv r2]] .
  have i1: "b \<noteq> NUL \<Longrightarrow> adv k s (snd (quotedLoop (pushVal b s1)))"
    using less [of "pushVal b s1"] readChar_less [OF r1] by (intro adv_pushVal [OF a1]) simp
  have i2: "b \<noteq> NUL \<Longrightarrow> adv k s (snd (quotedLoop (pushVal c s2)))"
    using less [of "pushVal c s2"] readChar_less [OF r1] readChar_le [OF r2] by (intro adv_pushVal [OF a2]) simp
  have q1: "b = NUL \<Longrightarrow> adv k s (quotedEnd s1)" and q2: "c = NUL \<Longrightarrow> adv k s (quotedEnd s2)"
    using adv_quotedEnd a1 a2 readChar_NUL r1 r2 by blast+
  note simps = r1 r2 a1 a2 i1 i2 q1 q2 adv_upd quotedLoop.simps [of s]
  consider "b = NUL" | "b = DQ" | "b = CR \<or> b = LF" | "b = BSL" | "b \<noteq> NUL \<and> b \<noteq> DQ \<and> b \<noteq> CR \<and> b \<noteq> LF \<and> b \<noteq> BSL"
    by blast
  then show ?case
    by cases (auto simp: simps)
qed

lemma charLoop_adv: "adv k s (snd (charLoop stop bad msg n s))"
proof (induction s rule: measure_induct_rule [of "\<lambda>s. length (buf s)"])
  case (less s)
  obtain b s1 where r1: "peekChar s = (b, s1)" by fastforce
  obtain c s2 where r2: "readChar s1 = (c, s2)" by fastforce
  have a1: "adv k s s1" using adv_eq [OF peekChar_adv r1] .
  have a2: "adv k s s2" using adv_trans [OF a1 adv_eq [OF readChar_adv r2]] .
  have i: "b \<noteq> NUL \<Longrightarrow> adv k s (snd (charLoop stop bad msg n (pushVal b s2)))"
    using less [of "pushVal b s2"] peek_read_less [OF r1 _ r2] by (intro adv_pushVal [OF a2]) simp
  show ?case by (simp add: charLoop.simps [of _ _ _ _ s] r1 r2 a1 a2 i adv_upd)
qed

lemma digitLoop_adv: "adv k s (snd (digitLoop cap acc s))"
proof (induction s arbitrary: acc rule: measure_induct_rule [of "\<lambda>s. length (buf s)"])
  case (less s)
  obtain b s1 where r1: "peekChar s = (b, s1)" by fastforce
  obtain c s2 where r2: "readChar s1 = (c, s2)" by fastforce
  have a1: "adv k s s1" using adv_eq [OF peekChar_adv r1] .
  have a2: "adv k s s2" using adv_trans [OF a1 adv_eq [OF readChar_adv r2]] .
  have i: "b \<noteq> NUL \<Longrightarrow> adv k s (snd (digitLoop cap acc' s2))" for acc'
    using less [of s2] peek_read_less [OF r1 _ r2] by (intro adv_trans [OF a2]) simp
  show ?case by (simp add: digitLoop.simps [of _ _ s] r1 r2 a1 i)
qed

lemma consumeWhitespace_adv: "adv k s (consumeWhitespace s)"
proof (induction s rule: measure_induct_rule [of "\<lambda>s. length (buf s)"])
  case (less s)
  obtain b s1 where r1: "peekChar s = (b, s1)" by fastforce
  obtain c s2 where r2: "readChar s1 = (c, s2)" by fastforce
  have a1: "adv k s s1" using adv_eq [OF peekChar_adv r1] .
  have a2: "adv k s s2" using adv_trans [OF a1 adv_eq [OF readChar_adv r2]] .
  have i: "b \<noteq> NUL \<Longrightarrow> adv k s (consumeWhitespace s2)"
    using less [of s2] peek_read_less [OF r1 _ r2] by (intro adv_trans [OF a2]) simp
  show ?case by (simp add: consumeWhitespace.simps [of s] r1 r2 a1 i)
qed

lemmas loop_forward [forward] =
  adv_tail [OF quotedLoop_adv] adv_let [OF quotedLoop_adv] adv_tail [OF charLoop_adv] adv_let [OF charLoop_adv]
  adv_tail [OF digitLoop_adv] adv_let [OF digitLoop_adv] adv_trans [OF _ consumeWhitespace_adv]

lemma readQuotedString_adv: "adv k s (snd (readQuotedString s))"
  and readAtom_adv: "adv k s (snd (readAtom s))"
  and readTag_adv: "adv k s (snd (readTag s))"
  and readUint32_adv: "adv k s (snd (readUint32 s))"
  and readUint64_adv: "adv k s (snd (readUint64 s))"
  unfolding readQuotedString_def readAtom_def readTag_def readUint32_def readUint64_def
  by (intro forward adv_refl | assumption)+

lemmas base_forward [forward] =
  adv_tail [OF readQuotedString_adv] adv_let [OF readQuotedString_adv] adv_tail [OF readAtom_adv] adv_let [OF readAtom_adv]
  adv_tail [OF readTag_adv] adv_let [OF readUint32_adv] adv_let [OF readUint64_adv]

lemma readFull_adv: "adv k s (snd (readFull n s))" and copyN_adv: "adv k s (snd (copyN n s))"
  by (auto simp: readFull_def copyN_def adv_def suffix_drop)

lemmas io_forward [forward] = adv_let [OF readFull_adv] adv_let [OF copyN_adv]

lemma readFlag_adv: "adv k s (snd (readFlag s))"
  and readListStart_adv: "adv k s (snd (readListStart s))"
  and readListEnd_adv: "adv k s (snd (readListEnd s))"
  and readSeqNumber_adv: "adv k s (snd (readSeqNumber s))"
  and literalData_adv: "adv k s (snd (literalData limit v s))"
  unfolding readFlag_def readListStart_def readListEnd_def readSeqNumber_def literalData_def
  by (intro forward adv_refl | assumption)+

lemmas mid_forward [forward] =
  adv_tail [OF readFlag_adv] adv_tail [OF readListStart_adv] adv_tail [OF readListEnd_adv]
  adv_let [OF readListEnd_adv] adv_let [OF readSeqNumber_adv] adv_tail [OF literalData_adv]

lemma literalBody_adv: "adv k s (snd (literalBody limit s))"
  unfolding literalBody_def by (intro forward adv_refl | assumption)+

lemma readSequence_adv: "adv k s (snd (readSequence s))"
  and readLiteral_adv: "adv k s (snd (readLiteral limit s))"
  unfolding readSequence_def readLiteral_def
  by (intro forward adv_refl adv_tail [OF literalBody_adv] | assumption)+

lemmas seq_forward [forward] =
  adv_tail [OF readSequence_adv] adv_let [OF readSequence_adv] adv_tail [OF readLiteral_adv]

lemma readAstring_adv: "adv k s (snd (readAstring s))"
  and readListMailbox_adv: "adv k s (snd (readListMailbox s))"
  unfolding readAstring_def readListMailbox_def
  by (intro forward adv_refl | assumption)+

lemmas string_forward [forward] =
  adv_tail [OF readAstring_adv] adv_let [OF readAstring_adv] adv_tail [OF readListMailbox_adv]

subsection \<open>What a successful read consumes\<close>

lemma quotedLoop_eats: "quotedLoop s = (True, t) \<Longrightarrow> length (buf t) < length (buf s)"
proof (induction s arbitrary: t rule: measure_induct_rule [of "\<lambda>s. length (buf s)"])
  case (less s)
  obtain b s1 where r1: "readChar s = (b, s1)" by fastforce
  obtain c s2 where r2: "readChar s1 = (c, s2)" by fastforce
  have lt: "b \<noteq> NUL \<Longrightarrow> length (buf s1) < length (buf s)" and le: "length (buf s2) \<le> length (buf s1)"
    using readChar_less [OF r1] readChar_le [OF r2] by blast+
  have i1: "b \<noteq> NUL \<Longrightarrow> quotedLoop (pushVal b s1) = (True, t) \<Longrightarrow> length (buf t) < length (buf s)"
    using less.IH [of "pushVal b s1"] lt by fastforce
  have i2: "b \<noteq> NUL \<Longrightarrow> quotedLoop (pushVal c s2) = (True, t) \<Longrightarrow> length (buf t) < length (buf s)"
    using less.IH [of "pushVal c s2"] lt le by fastforce
  show ?case using less.prems i1 i2 lt
    by (simp add: quotedLoop.simps [of s] r1 r2 split: if_splits)
qed

lemma charLoop_eats:
  "charLoop stop bad msg n s = (ok, t) \<Longrightarrow>
   length (val t) + length (buf t) \<le> length (val s) + length (buf s) \<and> (ok \<longrightarrow> n < length (val t))"
proof (induction s arbitrary: t rule: measure_induct_rule [of "\<lambda>s. length (buf s)"])
  case (less s)
  obtain b s1 where r1: "peekChar s = (b, s1)" by fastforce
  obtain c s2 where r2: "readChar s1 = (c, s2)" by fastforce
  have v: "val s1 = val s" "val s2 = val s1" "buf s1 = buf s" "length (buf s2) \<le> length (buf s1)"
    using r1 r2 readChar_le [OF r2] by (auto simp: peekChar_def readChar_def split: if_splits list.splits)
  have i: "b \<noteq> NUL \<Longrightarrow> charLoop stop bad msg n (pushVal b s2) = (ok, t) \<Longrightarrow>
      length (val t) + length (buf t) \<le> length (val s) + length (buf s) \<and> (ok \<longrightarrow> n < length (val t))"
    using less.IH [of "pushVal b s2" t] peek_read_less [OF r1 _ r2] v by auto
  show ?case using less.prems i v
    by (auto simp: charLoop.simps [of _ _ _ _ s] r1 r2 split: if_splits)
qed

definition eats :: "(scanner \<Rightarrow> bool \<times> scanner) \<Rightarrow> bool" where
  "eats R \<longleftrightarrow> (\<forall>s t. seqs s = [] \<longrightarrow> R s = (True, t) \<longrightarrow> length (buf t) < length (buf s))"

lemma charLoop_strict:
  "charLoop stop bad msg (length (val s)) s = (True, t) \<Longrightarrow> length (buf t) < length (buf s)"
  using charLoop_eats [of stop bad msg "length (val s)" s True t] by simp

lemma readQuotedString_strict: "readQuotedString s = (True, t) \<Longrightarrow> length (buf t) < length (buf s)"
  by (auto simp: readQuotedString_def split: prod.splits dest!: quotedLoop_eats readChar_le)

lemma readAtom_strict: "readAtom s = (True, t) \<Longrightarrow> length (buf t) < length (buf s)"
  by (simp add: readAtom_def charLoop_strict)

lemma readTag_strict: "readTag s = (True, t) \<Longrightarrow> length (buf t) < length (buf s)"
  by (simp add: readTag_def charLoop_strict)

lemma readFlag_strict: "readFlag s = (True, t) \<Longrightarrow> length (buf t) < length (buf s)"
  by (auto simp: readFlag_def split: prod.splits if_splits
      dest!: readAtom_strict peekChar_buf readChar_le)

lemma digitLoop_eats:
  "digitLoop cap acc s = (ds, t) \<Longrightarrow> length ds + length (buf t) \<le> length acc + length (buf s)"
proof (induction s arbitrary: acc t rule: measure_induct_rule [of "\<lambda>s. length (buf s)"])
  case (less s)
  obtain b s1 where r1: "peekChar s = (b, s1)" by fastforce
  obtain c s2 where r2: "readChar s1 = (c, s2)" by fastforce
  have "b \<noteq> NUL \<Longrightarrow> digitLoop cap acc' s2 = (ds, t) \<Longrightarrow> length acc' \<le> Suc (length acc) \<Longrightarrow>
      length ds + length (buf t) \<le> length acc + length (buf s)" for acc'
    using less.IH [of s2 acc' t] peek_read_less [OF r1 _ r2] by auto
  from this [of "acc @ [b]"] this [of acc] less.prems show ?case
    using peekChar_buf [OF r1] by (auto simp: digitLoop.simps [of _ _ s] r1 r2 split: if_splits)
qed

lemma ParseUint_Nil [simp]: "ParseUint [] bits = Inl (NumSyntax [])"
  by (simp add: ParseUint_def)

lemma readUint32_strict: "readUint32 s = (Inr v, t) \<Longrightarrow> length (buf t) < length (buf s)"
  by (cases "fst (digitLoop 11 [] s)")
    (auto simp: readUint32_def split: prod.splits sum.splits dest!: digitLoop_eats)

lemma readUint64_strict: "readUint64 s = (Inr v, t) \<Longrightarrow> length (buf t) < length (buf s)"
  by (cases "fst (digitLoop 20 [] s)")
    (auto simp: readUint64_def split: prod.splits sum.splits dest!: digitLoop_eats)

lemma readSeqNumber_strict:
  assumes "readSeqNumber s = (Some v, t)"
  shows "length (buf t) < length (buf s)"
proof -
  obtain b s1 where r1: "peekChar s = (b, s1)" by fastforce
  show ?thesis using assms peekChar_buf [OF r1] peek_read_less [OF r1]
    by (auto simp: readSeqNumber_def r1 split: prod.splits sum.splits if_splits dest!: readUint32_strict)
qed

lemma readSequence_strict: "readSequence s = (True, t) \<Longrightarrow> length (buf t) < length (buf s)"
proof -
  assume a: "readSequence s = (True, t)"
  then obtain mn s1 where r1: "readSeqNumber s = (Some mn, s1)"
    by (auto simp: readSequence_def split: prod.splits option.splits)
  have "length (buf t) \<le> length (buf s1)"
    using a by (auto simp: readSequence_def r1 split: prod.splits option.splits if_splits
      dest!: peekChar_buf readChar_le readSeqNumber_strict)
  with readSeqNumber_strict [OF r1] show ?thesis by simp
qed

lemma readLiteral_strict:
  assumes "readLiteral limit s = (True, t)"
  shows "length (buf t) < length (buf s)"
proof -
  obtain b s1 where r1: "peekChar s = (b, s1)" by fastforce
  obtain c s2 where r2: "readChar s1 = (c, s2)" by fastforce
  have b: "b = CHR ''{''" using assms by (simp add: readLiteral_def r1 split: if_splits)
  then have "literalBody limit s2 = (True, t)" using assms by (simp add: readLiteral_def r1 r2)
  then have "adv k s2 t" using adv_eq [where R = "literalBody limit", OF literalBody_adv] by blast
  with adv_length peek_read_less [OF r1 _ r2] b show ?thesis by fastforce
qed

lemma string_strict:
  assumes "readAstring s = (True, t) \<or> readListMailbox s = (True, t)"
  shows "length (buf t) < length (buf s)"
proof -
  obtain b s1 where r1: "peekChar s = (b, s1)" by fastforce
  show ?thesis using assms peekChar_buf [OF r1]
    by (auto simp: readAstring_def readListMailbox_def r1 split: if_splits
      dest: readQuotedString_strict readLiteral_strict charLoop_strict)
qed

lemmas readAstring_strict = string_strict [OF disjI1] and readListMailbox_strict = string_strict [OF disjI2]

subsection \<open>Sequence sets\<close>

function readSequences :: "scanner \<Rightarrow> bool \<times> scanner" where
  "readSequences s =
     (let (ok, s1) = readSequence s in
      if \<not> ok then (seqs s1 \<noteq> [], s1)
      else
        (let (b, s2) = peekChar s1 in
         if b \<noteq> CHR '','' then (seqs s2 \<noteq> [], s2)
         else (let (_, s3) = readChar s2 in readSequences s3)))"
  by auto
termination
proof (relation "measure (\<lambda>s. length (buf s))", simp)
  fix s :: scanner and x ok s1 y b s2 z c s3
  assume "x = readSequence s" "(ok, s1) = x" "\<not> \<not> ok" "y = peekChar s1" "(b, s2) = y" "z = readChar s2" "(c, s3) = z"
  then have "readSequence s = (True, s1)" "peekChar s1 = (b, s2)" "readChar s2 = (c, s3)" by simp_all
  then have "length (buf s3) < length (buf s)"
    using readSequence_strict peekChar_buf readChar_le by fastforce
  then show "(s3, s) \<in> measure (\<lambda>s. length (buf s))" by simp
qed

declare readSequences.simps [simp del]

lemma readSequences_adv: "adv k s (snd (readSequences s))"
proof (induction s rule: measure_induct_rule [of "\<lambda>s. length (buf s)"])
  case (less s)
  obtain ok s1 where r1: "readSequence s = (ok, s1)" by fastforce
  obtain b s2 where r2: "peekChar s1 = (b, s2)" by fastforce
  obtain c s3 where r3: "readChar s2 = (c, s3)" by fastforce
  have a1: "adv k s s1" using adv_eq [OF readSequence_adv r1] .
  have a2: "adv k s s2" using adv_trans [OF a1 adv_eq [OF peekChar_adv r2]] .
  have a3: "adv k s s3" using adv_trans [OF a2 adv_eq [OF readChar_adv r3]] .
  have "ok \<Longrightarrow> length (buf s3) < length (buf s)"
    using readSequence_strict r1 readChar_le [OF r3] peekChar_buf [OF r2] by fastforce
  then have "ok \<Longrightarrow> adv k s (snd (readSequences s3))"
    using less [of s3] by (intro adv_trans [OF a3]) simp
  then show ?case by (simp add: readSequences.simps [of s] r1 r2 r3 a1 a2)
qed

lemmas sequences_forward [forward] = adv_tail [OF readSequences_adv]

lemma seqs_keep:
  "peekChar s = (b, s1) \<Longrightarrow> seqs s1 = seqs s" "readChar s = (b, s1) \<Longrightarrow> seqs s1 = seqs s"
  by (auto simp: peekChar_def readChar_def split: if_splits list.splits)

lemma digitLoop_seqs: "digitLoop cap acc s = (ds, t) \<Longrightarrow> seqs t = seqs s"
proof (induction s arbitrary: acc t rule: measure_induct_rule [of "\<lambda>s. length (buf s)"])
  case (less s)
  obtain b s1 where r1: "peekChar s = (b, s1)" by fastforce
  obtain c s2 where r2: "readChar s1 = (c, s2)" by fastforce
  have "b \<noteq> NUL \<Longrightarrow> digitLoop cap acc' s2 = (ds, t) \<Longrightarrow> seqs t = seqs s" for acc'
    using less.IH [of s2 acc' t] peek_read_less [OF r1 _ r2] seqs_keep r1 r2 by metis
  with less.prems seqs_keep(1) [OF r1] show ?case
    by (auto simp: digitLoop.simps [of _ _ s] r1 r2 split: if_splits)
qed

lemma readSeqNumber_seqs: "readSeqNumber s = (r, t) \<Longrightarrow> seqs t = seqs s"
  by (auto simp: readSeqNumber_def readUint32_def split: prod.splits if_splits sum.splits
      dest!: seqs_keep digitLoop_seqs)

lemma readSequence_fail_seqs:
  assumes "readSequence s = (False, t)"
  shows "seqs t = seqs s"
proof -
  obtain r s1 where r1: "readSeqNumber s = (r, s1)" by fastforce
  obtain b s2 where r2: "peekChar s1 = (b, s2)" by fastforce
  obtain c s3 where r3: "readChar s2 = (c, s3)" by fastforce
  obtain r' s4 where r4: "readSeqNumber s3 = (r', s4)" by fastforce
  show ?thesis
    using assms readSeqNumber_seqs [OF r1] seqs_keep(1) [OF r2] seqs_keep(2) [OF r3] readSeqNumber_seqs [OF r4]
    by (auto simp: readSequence_def r1 r2 r3 r4 split: option.splits if_splits)
qed

lemma readSequences_strict:
  assumes "readSequences s = (True, t)" "seqs s = []"
  shows "length (buf t) < length (buf s)"
proof (cases "fst (readSequence s)")
  case False
  then have "fst (readSequences s) = (seqs (snd (readSequence s)) \<noteq> [])"
    by (subst readSequences.simps) (simp add: split_def Let_def)
  moreover have "seqs (snd (readSequence s)) = []"
    using readSequence_fail_seqs [of s "snd (readSequence s)"] False assms(2) by (simp add: prod_eq_iff)
  ultimately show ?thesis using assms(1) by simp
next
  case True
  obtain ok s1 where r1: "readSequence s = (ok, s1)" by fastforce
  obtain b s2 where r2: "peekChar s1 = (b, s2)" by fastforce
  obtain c s3 where r3: "readChar s2 = (c, s3)" by fastforce
  have a2: "adv k s1 s2" using adv_eq [OF peekChar_adv r2] .
  have "adv k s1 (snd (readSequences s3))"
    using adv_trans [OF adv_trans [OF a2 adv_eq [OF readChar_adv r3]] readSequences_adv] .
  then have "adv k s1 (snd (readSequences s))"
    using True r1 a2 by (simp add: readSequences.simps [of s] r2 r3)
  then show ?thesis using True r1 readSequence_strict adv_length assms(1) by fastforce
qed

subsection \<open>Dates\<close>

text \<open>A \<open>time.Time\<close> in UTC is the number of seconds since January 1 of year 1, the zero time.
  \<open>dateSecs\<close> is \<open>time.Date\<close>: a day outside the month is normalised into a neighbouring month.\<close>

definition leapYear :: "int \<Rightarrow> bool" where
  "leapYear y \<longleftrightarrow> y mod 4 = 0 \<and> (y mod 100 \<noteq> 0 \<or> y mod 400 = 0)"

definition daysBeforeYear :: "int \<Rightarrow> int" where
  "daysBeforeYear y = (y - 1) * 365 + (y - 1) div 4 - (y - 1) div 100 + (y - 1) div 400"

definition daysBeforeMonth :: "nat \<Rightarrow> int" where
  "daysBeforeMonth m = [0, 31, 59, 90, 120, 151, 181, 212, 243, 273, 304, 334] ! (m - 1)"

definition dateSecs :: "nat \<Rightarrow> nat \<Rightarrow> nat \<Rightarrow> int" where
  "dateSecs y m d =
     (daysBeforeYear (int y) + daysBeforeMonth m + (if leapYear (int y) \<and> 2 < m then 1 else 0) + int d - 1) * 86400"

definition monthOf :: "bytes \<Rightarrow> nat option" where
  "monthOf mo = map_of
     [(''JAN'', 1), (''FEB'', 2), (''MAR'', 3), (''APR'', 4), (''MAY'', 5), (''JUN'', 6),
      (''JUL'', 7), (''AUG'', 8), (''SEP'', 9), (''OCT'', 10), (''NOV'', 11), (''DEC'', 12)] mo"

definition dateYear :: "bool \<Rightarrow> nat \<Rightarrow> nat \<Rightarrow> scanner \<Rightarrow> bool \<times> scanner" where
  "dateYear quoted day m s =
     (let (r, s1) = readUint32 s in
      case r of Inl e \<Rightarrow> (False, setErr e s1)
      | Inr year \<Rightarrow>
        (if 9999 < year then (False, setErr (Errorf ''invalid year: %d'' [fmtNat (unat year)]) s1)
         else if quoted then
           (let (b, s2) = readChar s1 in
            if b \<noteq> DQ then (False, setErr (Errorf ''date missing end quote'' []) s2)
            else (True, s2\<lparr>date := dateSecs (unat year) m day\<rparr>))
         else (True, s1\<lparr>date := dateSecs (unat year) m day\<rparr>)))"

definition dateMonth :: "bool \<Rightarrow> nat \<Rightarrow> scanner \<Rightarrow> bool \<times> scanner" where
  "dateMonth quoted day s =
     (let (b, s1) = peekChar s in
      if b \<noteq> CHR ''-'' then (False, setErr (ErrNew ''invalid date'') s1) else
      let (_, s2) = readChar s1; (c1, s3) = readChar s2; (c2, s4) = readChar s3; (c3, s5) = readChar s4 in
      case monthOf (asciiUpper [c1, c2, c3]) of
        None \<Rightarrow> (False, setErr (Errorf ''invalid month: %q'' [asciiUpper [c1, c2, c3]]) s5)
      | Some m \<Rightarrow>
        (let (b, s6) = peekChar s5 in
         if b \<noteq> CHR ''-'' then (False, setErr (ErrNew ''invalid date'') s6) else
         let (_, s7) = readChar s6 in dateYear quoted day m s7))"

definition dateDay :: "bool \<Rightarrow> scanner \<Rightarrow> bool \<times> scanner" where
  "dateDay quoted s =
     (let (r, s1) = readUint32 s in
      case r of Inl e \<Rightarrow> (False, setErr e s1)
      | Inr day \<Rightarrow>
        if 31 < day then (False, setErr (Errorf ''invalid day: %d'' [fmtNat (unat day)]) s1)
        else dateMonth quoted (unat day) s1)"

definition readDate :: "scanner \<Rightarrow> bool \<times> scanner" where
  "readDate s =
     (let (b, s1) = peekChar s in
      if b = DQ then (let (_, s2) = readChar s1 in dateDay True s2) else dateDay False s1)"

lemma dateYear_adv: "adv k s (snd (dateYear q d m s))"
  unfolding dateYear_def by (intro forward adv_refl | assumption)+

lemma dateMonth_adv: "adv k s (snd (dateMonth q d s))"
  unfolding dateMonth_def by (intro forward adv_refl adv_tail [OF dateYear_adv] | assumption)+

lemma dateDay_adv: "adv k s (snd (dateDay q s))"
  unfolding dateDay_def by (intro forward adv_refl adv_tail [OF dateMonth_adv] | assumption)+

lemma readDate_adv: "adv k s (snd (readDate s))"
  unfolding readDate_def by (intro forward adv_refl adv_tail [OF dateDay_adv] | assumption)+

lemma dateDay_strict:
  assumes "dateDay q s = (True, t)"
  shows "length (buf t) < length (buf s)"
proof -
  obtain day s1 where r1: "readUint32 s = (Inr day, s1)" and "dateMonth q (unat day) s1 = (True, t)"
    using assms by (auto simp: dateDay_def split: prod.splits sum.splits if_splits)
  then have "adv k s1 t" using adv_eq [where R = "dateMonth q (unat day)", OF dateMonth_adv] by blast
  with readUint32_strict [OF r1] adv_length show ?thesis by fastforce
qed

lemma readDate_strict: "readDate s = (True, t) \<Longrightarrow> length (buf t) < length (buf s)"
  by (auto simp: readDate_def split: prod.splits if_splits dest!: dateDay_strict peekChar_buf readChar_le)

subsection \<open>Fetch items\<close>

definition alphanumeric :: "byte \<Rightarrow> bool" where
  "alphanumeric b \<longleftrightarrow> (65 \<le> bval b \<and> bval b \<le> 90) \<or> isDigit b \<or> b = CHR ''.''"

lemma alphanumeric_NUL [simp]: "\<not> alphanumeric NUL" "\<not> isDigit NUL"
  by (simp_all add: alphanumeric_def isDigit_def)

function alnumLoop :: "nat \<Rightarrow> scanner \<Rightarrow> bool \<times> scanner" where
  "alnumLoop oldlen s =
     (let (b, s1) = peekChar s in
      if alphanumeric b then (let (_, s2) = readChar (pushVal b s1) in alnumLoop oldlen s2)
      else (oldlen < length (val s1), s1))"
  by auto
termination
proof (relation "measure (\<lambda>(_, s). length (buf s))", simp)
  fix oldlen :: nat and s :: scanner and x b s1 y c s2
  assume a: "x = peekChar s" "(b, s1) = x" "alphanumeric b" "y = readChar (pushVal b s1)" "(c, s2) = y"
  then have "peekChar s = (b, s1)" "b \<noteq> NUL" by auto
  with a show "((oldlen, s2), (oldlen, s)) \<in> measure (\<lambda>(_, s). length (buf s))"
    by (auto dest!: peekChar_some simp: readChar_def)
qed

declare alnumLoop.simps [simp del]

definition readAlphanumeric :: "scanner \<Rightarrow> bool \<times> scanner" where
  "readAlphanumeric s = alnumLoop (length (val s)) s"

text \<open>The item names, with the item's type and whether \<open>Peek\<close> is set.\<close>

definition fetchItemName :: "bytes \<Rightarrow> (FetchItemType \<times> bool) option" where
  "fetchItemName v = map_of
     [(''ALL'', (FetchAll, False)), (''FAST'', (FetchFast, False)), (''FULL'', (FetchFull, False)),
      (''ENVELOPE'', (FetchEnvelope, False)), (''FLAGS'', (FetchFlags, False)),
      (''INTERNALDATE'', (FetchInternalDate, False)), (''RFC822.HEADER'', (FetchRFC822Header, False)),
      (''RFC822.SIZE'', (FetchRFC822Size, False)), (''RFC822.TEXT'', (FetchRFC822Text, False)),
      (''UID'', (FetchUID, False)), (''MODSEQ'', (FetchModSeq, False)),
      (''BODYSTRUCTURE'', (FetchBodyStructure, False)), (''BODY'', (FetchBody, False)),
      (''BODY.PEEK'', (FetchBody, True))] v"

definition updSection :: "(FetchItemSection \<Rightarrow> FetchItemSection) \<Rightarrow> scanner \<Rightarrow> scanner" where
  "updSection f s = s\<lparr>fitem := (fitem s)\<lparr>itemSection := f (itemSection (fitem s))\<rparr>\<rparr>"

definition fetchErr :: "string \<Rightarrow> scanner \<Rightarrow> bool \<times> scanner" where
  "fetchErr msg s = (False, setErr (ErrNew (''imapparser: FETCH '' @ msg)) s)"

function pathLoop :: "scanner \<Rightarrow> bool \<times> scanner" where
  "pathLoop s =
     (let (b, s1) = peekChar s in
      if \<not> isDigit b then (True, s1)
      else
        (let (r, s2) = readUint32 s1 in
         case r of Inl e \<Rightarrow> fetchErr ''item bad numeric path'' s2
         | Inr v \<Rightarrow>
           (if 65536 \<le> v then fetchErr ''item path number too big'' s2
            else
              (let s3 = updSection (\<lambda>sec. sec\<lparr>secPath := secPath sec @ [ucast v]\<rparr>) s2;
                   (b, s4) = peekChar s3 in
               if b = CHR ''.'' then (let (_, s5) = readChar s4 in pathLoop s5)
               else pathLoop s4))))"
  by auto
termination
proof (relation "measure (\<lambda>s. length (buf s))", simp)
  fix s :: scanner and x b s1 y r s2 v s3 z b' s4 w c s5
  assume a: "x = peekChar s" "(b, s1) = x" "y = readUint32 s1" "(r, s2) = y" "r = Inr v"
    "s3 = updSection (\<lambda>sec. sec\<lparr>secPath := secPath sec @ [ucast v]\<rparr>) s2" "z = peekChar s3" "(b', s4) = z"
  have "length (buf s2) < length (buf s)"
    using a(1-5) readUint32_strict [of s1 v s2] peekChar_buf [of s b s1] by simp
  moreover have "buf s4 = buf s2" using a(6-) peekChar_buf [of s3 b' s4] by (simp add: updSection_def)
  ultimately have lt: "length (buf s4) < length (buf s)" by simp
  show "(s4, s) \<in> measure (\<lambda>s. length (buf s))" using lt by simp
  assume "w = readChar s4" "(c, s5) = w"
  then show "(s5, s) \<in> measure (\<lambda>s. length (buf s))" using lt readChar_le [of s4 c s5] by simp
qed

declare pathLoop.simps [simp del]

function headerLoop :: "scanner \<Rightarrow> scanner" where
  "headerLoop s =
     (let (ok, s1) = readAstring ((consumeWhitespace s)\<lparr>val := []\<rparr>) in
      if \<not> ok then s1
      else headerLoop (updSection (\<lambda>sec. sec\<lparr>secHeaders := secHeaders sec @ [val s1]\<rparr>) s1))"
  by auto
termination
proof (relation "measure (\<lambda>s. length (buf s))", simp)
  fix s :: scanner and x ok s1
  assume "x = readAstring (consumeWhitespace s\<lparr>val := []\<rparr>)" "(ok, s1) = x" "\<not> \<not> ok"
  then have "length (buf s1) < length (buf (consumeWhitespace s))"
    using readAstring_strict [of "consumeWhitespace s\<lparr>val := []\<rparr>" s1] by simp
  then show "(updSection (\<lambda>sec. sec\<lparr>secHeaders := secHeaders sec @ [val s1]\<rparr>) s1, s) \<in> measure (\<lambda>s. length (buf s))"
    using adv_length [OF consumeWhitespace_adv, of s] by (simp add: updSection_def)
qed

declare headerLoop.simps [simp del]

definition sectionHeaders :: "scanner \<Rightarrow> bool \<times> scanner" where
  "sectionHeaders s =
     (let (b, s1) = peekChar (consumeWhitespace s) in
      if b \<noteq> CHR ''('' then fetchErr ''item missing header-list'' s1 else
      let (_, s2) = readChar s1; (b, s3) = peekChar (headerLoop s2) in
      if b \<noteq> CHR '')'' then fetchErr ''item unclosed header-list'' s3 else
      let (_, s4) = readChar s3 in (True, s4))"

definition sectionNamed :: "scanner \<Rightarrow> bool \<times> scanner" where
  "sectionNamed s =
     (let (ok, s1) = readAlphanumeric s in
      if \<not> ok then (True, s1)
      else if val s1 \<in> {''HEADER'', ''HEADER.FIELDS'', ''HEADER.FIELDS.NOT'', ''TEXT''} \<or>
              (val s1 = ''MIME'' \<and> secPath (itemSection (fitem s1)) \<noteq> []) then
        (if prefix ''HEADER.FIELDS'' (val s1)
         then sectionHeaders ((updSection (\<lambda>sec. sec\<lparr>secName := val s1\<rparr>) s1)\<lparr>val := []\<rparr>)
         else (True, (updSection (\<lambda>sec. sec\<lparr>secName := val s1\<rparr>) s1)\<lparr>val := []\<rparr>))
      else fetchErr ''item invalid section name'' s1)"

definition partialRange :: "scanner \<Rightarrow> bool \<times> scanner" where
  "partialRange s =
     (let (r, s1) = readUint32 s in
      case r of Inl e \<Rightarrow> fetchErr ''invalid partial range start'' s1
      | Inr start \<Rightarrow>
        (let (b, s2) = peekChar (s1\<lparr>fitem := (fitem s1)\<lparr>partialStart := start\<rparr>\<rparr>) in
         if b \<noteq> CHR ''.'' then fetchErr ''invalid partial range'' s2 else
         let (_, s3) = readChar s2; (r, s4) = readUint32 s3 in
         case r of Inl e \<Rightarrow> fetchErr ''invalid partial range end'' s4
         | Inr n \<Rightarrow>
           (let (b, s5) = peekChar (s4\<lparr>fitem := (fitem s4)\<lparr>partialLength := n\<rparr>\<rparr>) in
            if b \<noteq> CHR ''>'' then fetchErr ''invalid partial range close'' s5 else
            let (_, s6) = readChar s5 in (True, s6))))"

definition sectionClose :: "scanner \<Rightarrow> bool \<times> scanner" where
  "sectionClose s =
     (let (b, s1) = peekChar s in
      if b \<noteq> CHR '']'' then fetchErr ''unclosed item section'' s1 else
      let (_, s2) = readChar s1; (b, s3) = peekChar s2 in
      if b \<noteq> CHR ''<'' then (True, s3) else
      let (_, s4) = readChar s3 in partialRange s4)"

definition readSection :: "scanner \<Rightarrow> bool \<times> scanner" where
  "readSection s =
     (let (_, s1) = readChar s; (ok, s2) = pathLoop s1 in
      if \<not> ok then (False, s2) else
      let (ok, s3) = sectionNamed s2 in
      if \<not> ok then (False, s3) else sectionClose s3)"

definition fetchItemRest :: "scanner \<Rightarrow> bool \<times> scanner" where
  "fetchItemRest s1 = (case fetchItemName (val s1) of
        None \<Rightarrow> fetchErr ''unknown item'' s1
      | Some tp \<Rightarrow>
        (let (b, s2) = peekChar (s1\<lparr>val := [],
               fitem := (fitem s1)\<lparr>itemType := fst tp, itemPeek := snd tp \<or> itemPeek (fitem s1)\<rparr>\<rparr>) in
         if b \<noteq> CHR ''['' then (True, consumeWhitespace s2)
         else if fst tp \<noteq> FetchBody then fetchErr ''item unexpected section'' s2
         else readSection s2))"

definition readFetchItem :: "scanner \<Rightarrow> bool \<times> scanner" where
  "readFetchItem s =
     (let (ok, s1) = readAlphanumeric s in
      if \<not> ok then (False, s1) else fetchItemRest s1)"

lemma adv_updSection [forward]: "adv k s0 s \<Longrightarrow> adv k s0 (updSection f s)"
  by (simp add: updSection_def forward)

lemma adv_fetchErr [forward]: "adv k s0 s \<Longrightarrow> adv k s0 (snd (fetchErr m s))"
  by (simp add: fetchErr_def forward)

lemma alnumLoop_adv: "adv k s (snd (alnumLoop n s))"
proof (induction s rule: measure_induct_rule [of "\<lambda>s. length (buf s)"])
  case (less s)
  obtain b s1 where r1: "peekChar s = (b, s1)" by fastforce
  obtain c s2 where r2: "readChar (pushVal b s1) = (c, s2)" by fastforce
  have a1: "adv k s s1" using adv_eq [OF peekChar_adv r1] .
  have a2: "adv k s s2" using adv_trans [OF adv_upd(2) [OF a1] adv_eq [OF readChar_adv r2]] .
  have "alphanumeric b \<Longrightarrow> length (buf s2) < length (buf s)"
    using peekChar_some [OF r1] r2 by (cases "b = NUL") (auto simp: readChar_def split: if_splits)
  then have i: "alphanumeric b \<Longrightarrow> adv k s (snd (alnumLoop n s2))"
    using less [of s2] by (intro adv_trans [OF a2]) simp
  show ?case by (simp add: alnumLoop.simps [of _ s] r1 r2 a1 i)
qed

lemma alnumLoop_eats:
  "alnumLoop n s = (ok, t) \<Longrightarrow>
   length (val t) + length (buf t) \<le> length (val s) + length (buf s) \<and> (ok \<longrightarrow> n < length (val t))"
proof (induction s arbitrary: t rule: measure_induct_rule [of "\<lambda>s. length (buf s)"])
  case (less s)
  obtain b s1 where r1: "peekChar s = (b, s1)" by fastforce
  obtain c s2 where r2: "readChar (pushVal b s1) = (c, s2)" by fastforce
  have v: "alphanumeric b \<Longrightarrow> val s2 = val s @ [b] \<and> Suc (length (buf s2)) = length (buf s)"
    "val s1 = val s" "buf s1 = buf s"
    using r1 r2 by (auto simp: peekChar_def readChar_def split: if_splits list.splits)
  show ?case using less.prems less.IH [of s2 t] v
    by (auto simp: alnumLoop.simps [of _ s] r1 r2 split: if_splits)
qed

lemma readAlphanumeric_adv: "adv k s (snd (readAlphanumeric s))"
  by (simp add: readAlphanumeric_def alnumLoop_adv)

lemma readAlphanumeric_strict: "readAlphanumeric s = (True, t) \<Longrightarrow> length (buf t) < length (buf s)"
  using alnumLoop_eats [of "length (val s)" s True t] by (simp add: readAlphanumeric_def)

lemma pathLoop_adv: "adv k s (snd (pathLoop s))"
proof (induction s rule: measure_induct_rule [of "\<lambda>s. length (buf s)"])
  case (less s)
  obtain b s1 where r1: "peekChar s = (b, s1)" by fastforce
  obtain r s2 where r2: "readUint32 s1 = (r, s2)" by fastforce
  show ?case
  proof (cases r)
    case (Inl e)
    then show ?thesis using adv_eq [OF peekChar_adv r1] adv_eq [OF readUint32_adv r2]
      by (auto simp: pathLoop.simps [of s] r1 r2 intro: forward adv_trans)
  next
    case (Inr v)
    let ?s3 = "updSection (\<lambda>sec. sec\<lparr>secPath := secPath sec @ [ucast v]\<rparr>) s2"
    obtain b' s4 where r4: "peekChar ?s3 = (b', s4)" by fastforce
    obtain c s5 where r5: "readChar s4 = (c, s5)" by fastforce
    have a1: "adv k s s1" using adv_eq [OF peekChar_adv r1] .
    have a2: "adv k s s2" using adv_trans [OF a1 adv_eq [OF readUint32_adv r2]] .
    have a4: "adv k s s4" using adv_trans [OF adv_updSection [OF a2] adv_eq [OF peekChar_adv r4]] .
    have a5: "adv k s s5" using adv_trans [OF a4 adv_eq [OF readChar_adv r5]] .
    have "length (buf s4) < length (buf s)"
      using readUint32_strict r2 Inr peekChar_buf [OF r1] peekChar_buf [OF r4] by (fastforce simp: updSection_def)
    then have "adv k s (snd (pathLoop s4)) \<and> adv k s (snd (pathLoop s5))"
      using less [of s4] less [of s5] readChar_le [OF r5] adv_trans [OF a4] adv_trans [OF a5] by simp
    then show ?thesis using a1 a2 Inr
      by (simp add: pathLoop.simps [of s] r1 r2 r4 r5 adv_fetchErr Let_def)
  qed
qed

lemma headerLoop_adv: "adv k s (headerLoop s)"
proof (induction s rule: measure_induct_rule [of "\<lambda>s. length (buf s)"])
  case (less s)
  obtain ok s1 where r1: "readAstring ((consumeWhitespace s)\<lparr>val := []\<rparr>) = (ok, s1)" by fastforce
  have a1: "adv k s s1"
    using adv_trans [OF adv_upd(3) [OF consumeWhitespace_adv] adv_eq [OF readAstring_adv r1]] .
  have "ok \<Longrightarrow> length (buf s1) < length (buf s)"
    using readAstring_strict [of "(consumeWhitespace s)\<lparr>val := []\<rparr>" s1] r1 adv_length [OF consumeWhitespace_adv, of s]
    by simp
  then have "ok \<Longrightarrow> adv k s (headerLoop (updSection (\<lambda>sec. sec\<lparr>secHeaders := secHeaders sec @ [val s1]\<rparr>) s1))"
    using less [of "updSection (\<lambda>sec. sec\<lparr>secHeaders := secHeaders sec @ [val s1]\<rparr>) s1"]
    by (intro adv_trans [OF adv_updSection [OF a1]]) (simp add: updSection_def)
  then show ?case by (simp add: headerLoop.simps [of s] r1 a1)
qed

lemmas item_forward [forward] =
  adv_let [OF readAlphanumeric_adv] adv_let [OF pathLoop_adv] adv_trans [OF _ headerLoop_adv]

lemma sectionHeaders_adv: "adv k s (snd (sectionHeaders s))"
  and partialRange_adv: "adv k s (snd (partialRange s))"
  unfolding sectionHeaders_def partialRange_def
  by (intro forward adv_refl | assumption)+

lemma sectionNamed_adv: "adv k s (snd (sectionNamed s))"
  and sectionClose_adv: "adv k s (snd (sectionClose s))"
  unfolding sectionNamed_def sectionClose_def
  by (intro forward adv_refl adv_tail [OF sectionHeaders_adv] adv_tail [OF partialRange_adv] | assumption)+

lemma readSection_adv: "adv k s (snd (readSection s))"
  unfolding readSection_def
  by (intro forward adv_refl adv_let [OF sectionNamed_adv] adv_tail [OF sectionClose_adv] | assumption)+

lemma fetchItemRest_adv: "adv k s (snd (fetchItemRest s))"
  unfolding fetchItemRest_def
  by (intro forward adv_refl adv_tail [OF readSection_adv] | assumption)+

lemma readFetchItem_adv: "adv k s (snd (readFetchItem s))"
  unfolding readFetchItem_def
  by (intro forward adv_refl adv_tail [OF fetchItemRest_adv] | assumption)+

lemma readFetchItem_strict:
  assumes "readFetchItem s = (True, t)"
  shows "length (buf t) < length (buf s)"
proof -
  obtain s1 where r1: "readAlphanumeric s = (True, s1)" and r2: "fetchItemRest s1 = (True, t)"
    using assms by (auto simp: readFetchItem_def split: prod.splits if_splits)
  show ?thesis
    using readAlphanumeric_strict [OF r1] adv_length [OF adv_eq [OF fetchItemRest_adv r2]] by simp
qed

subsection \<open>Next\<close>

text \<open>The token that each expectation reads. The flag of the result is the early return of an
  unbalanced list end, which leaves the state as it is.\<close>

definition accept :: "Token \<Rightarrow> bool \<times> scanner \<Rightarrow> bool \<times> scanner" where
  "accept t r = (False, if fst r then (snd r)\<lparr>token := t\<rparr> else snd r)"

definition acceptListEnd :: "scanner \<Rightarrow> bool \<times> scanner" where
  "acceptListEnd s =
     (let (r, s1) = readListEnd s in
      case r of Inl e \<Rightarrow> (True, setErr e s1)
      | Inr ok \<Rightarrow> (False, if ok then s1\<lparr>token := TokenListEnd\<rparr> else s1))"

definition acceptNumber :: "scanner \<Rightarrow> bool \<times> scanner" where
  "acceptNumber s =
     (let (r, s1) = readUint64 s in
      case r of Inl e \<Rightarrow> (False, s1\<lparr>number := 0\<rparr>)
      | Inr v \<Rightarrow> (False, s1\<lparr>number := v, token := TokenNumber\<rparr>))"

definition readDefault :: "byte \<Rightarrow> scanner \<Rightarrow> bool \<times> scanner" where
  "readDefault b s =
     (if b = CHR ''{'' then accept TokenLiteral (readLiteral 0 s)
      else if b = DQ then accept TokenString (readQuotedString s)
      else if b = CHR ''('' then accept TokenListStart (readListStart s)
      else if b = CHR '')'' then acceptListEnd s
      else accept TokenAtom (readAtom s))"

definition readSearchKey :: "byte \<Rightarrow> scanner \<Rightarrow> bool \<times> scanner" where
  "readSearchKey b s =
     (if b = CHR ''('' \<or> b = CHR '')'' then
        (let (_, s1) = readChar s in (False, (pushVal b s1)\<lparr>token := TokenSearchKey\<rparr>))
      else if isDigit b \<or> b = CHR ''*'' then accept TokenSearchKey (readSequences s)
      else accept TokenSearchKey (readAtom s))"

definition readExpected :: "Token \<Rightarrow> byte \<Rightarrow> scanner \<Rightarrow> bool \<times> scanner" where
  "readExpected expect b s = (case expect of
      TokenAtom \<Rightarrow> accept TokenAtom (readAtom s)
    | TokenString \<Rightarrow> accept TokenString (readAstring s)
    | TokenNumber \<Rightarrow> acceptNumber s
    | TokenTag \<Rightarrow> accept TokenTag (readTag s)
    | TokenFlag \<Rightarrow> accept TokenFlag (readFlag s)
    | TokenSequences \<Rightarrow> accept TokenSequences (readSequences s)
    | TokenSearchKey \<Rightarrow> readSearchKey b s
    | TokenFetchItem \<Rightarrow> accept TokenFetchItem (readFetchItem s)
    | TokenListStart \<Rightarrow> accept TokenListStart (readListStart s)
    | TokenListEnd \<Rightarrow> acceptListEnd s
    | TokenDate \<Rightarrow> accept TokenDate (readDate s)
    | TokenListMailbox \<Rightarrow> accept TokenListMailbox (readListMailbox s)
    | _ \<Rightarrow> readDefault b s)"

definition readToken :: "Token \<Rightarrow> byte \<Rightarrow> scanner \<Rightarrow> bool \<times> scanner" where
  "readToken expect b s =
     (if b = CR then
        (let (_, s1) = readChar s; (c, s2) = peekChar s1 in
         if c = LF then (let (_, s3) = readChar s2 in (False, s3\<lparr>token := TokenEnd\<rparr>))
         else (False, setErr (Errorf ''imapparser: broken CRLF, CR followed by %q'' [byteStr c]) s2))
      else if b = LF then (let (_, s1) = readChar s in (False, s1\<lparr>token := TokenEnd\<rparr>))
      else readExpected expect b s)"

definition checkToken :: "Token \<Rightarrow> bool \<Rightarrow> scanner \<Rightarrow> bool \<times> scanner" where
  "checkToken expect allowEnd s =
     (let crlf = (token s = TokenEnd);
          s1 = (if scanError s = None \<and> expect \<noteq> TokenUnknown \<and> expect \<noteq> token s \<and>
                   \<not> (allowEnd \<and> token s = TokenEnd)
                then s\<lparr>token := TokenUnknown\<rparr> else s);
          s2 = (if scanError s1 \<noteq> None then s1\<lparr>token := TokenUnknown\<rparr> else s1) in
      if scanError s2 \<noteq> None \<or> token s2 = TokenUnknown
      then (False, (clear s2)\<lparr>lastWasCRLF := crlf\<rparr>)
      else (True, s2))"

definition nextEOF :: "scanner \<Rightarrow> scanner" where
  "nextEOF s =
     (let (_, s1) = readChar s in
      if ioErr s1 = Some (IoErr EOF) then setErr (IoErr EOF) s1
      else if ioErr s1 \<noteq> None \<and> scanError s1 = None then s1\<lparr>scanError := ioErr s1\<rparr>
      else s1)"

definition nextToken :: "Token \<Rightarrow> bool \<Rightarrow> scanner \<Rightarrow> bool \<times> scanner" where
  "nextToken expect allowEnd s =
     (let (b, s1) = peekChar (consumeWhitespace (clear s)) in
      if b = NUL then (False, nextEOF s1)
      else
        (let (abort, s2) = readToken expect b s1 in
         if abort then (False, s2) else checkToken expect allowEnd s2))"

definition Next :: "Token \<Rightarrow> scanner \<Rightarrow> bool \<times> scanner" where
  "Next expect s = nextToken expect False s"

definition NextOrEnd :: "Token \<Rightarrow> scanner \<Rightarrow> bool \<times> scanner" where
  "NextOrEnd expect s = nextToken expect True s"

lemma adv_clear [forward]: "adv False s0 s \<Longrightarrow> adv False s0 (clear s)"
  by (simp add: adv_def clear_def)

lemma clear_simps [simp]:
  "buf (clear s) = buf s" "val (clear s) = []" "seqs (clear s) = []" "ioErr (clear s) = ioErr s"
  "scanError (clear s) = scanError s" "panicked (clear s) = panicked s" "token (clear s) = TokenUnknown"
  by (simp_all add: clear_def)

lemma adv_accept [forward]: "adv False s0 (snd r) \<Longrightarrow> adv False s0 (snd (accept t r))"
  by (auto simp: accept_def intro: forward)

lemma acceptListEnd_adv: "adv False s (snd (acceptListEnd s))"
  and acceptNumber_adv: "adv False s (snd (acceptNumber s))"
  unfolding acceptListEnd_def acceptNumber_def
  by (intro forward adv_refl | assumption)+

lemma readDefault_adv: "adv False s (snd (readDefault b s))"
  and readSearchKey_adv: "adv False s (snd (readSearchKey b s))"
  unfolding readDefault_def readSearchKey_def
  by (intro forward adv_refl acceptListEnd_adv | assumption)+

lemma readExpected_adv: "adv False s (snd (readExpected expect b s))"
  by (cases expect)
    (simp_all only: readExpected_def Token.case readDefault_adv readSearchKey_adv acceptListEnd_adv acceptNumber_adv
      adv_accept readAtom_adv readAstring_adv readTag_adv readFlag_adv readSequences_adv readFetchItem_adv
      readListStart_adv readDate_adv readListMailbox_adv)

lemma readToken_adv: "adv False s (snd (readToken expect b s))"
  unfolding readToken_def by (intro forward adv_refl adv_tail [OF readExpected_adv] | assumption)+

lemma nextEOF_adv: "adv k s (nextEOF s)"
proof -
  obtain c s1 where r: "readChar s = (c, s1)" by fastforce
  have a: "adv k s s1" using adv_eq [OF readChar_adv r] .
  then have "ioErr s1 \<noteq> None \<Longrightarrow> adv k s (s1\<lparr>scanError := ioErr s1\<rparr>)" by (simp add: adv_def)
  then show ?thesis using a by (simp add: nextEOF_def r forward)
qed

lemma checkToken_adv: "adv False s (snd (checkToken expect allowEnd s))"
  by (simp add: checkToken_def Let_def adv_upd adv_clear adv_refl)

lemma nextToken_adv: "adv False s (snd (nextToken expect allowEnd s))"
  unfolding nextToken_def
  by (intro forward adv_refl adv_trans [OF _ nextEOF_adv] adv_let [OF readToken_adv] adv_tail [OF checkToken_adv]
      | assumption)+

subsection \<open>The contract of a token reader\<close>

text \<open>What \<open>Next\<close> relies on: a reader only moves forward and leaves the current token alone, and
  one that succeeds from a cleared scanner has consumed at least one byte.\<close>

locale token_reader =
  fixes rd :: "scanner \<Rightarrow> bool \<times> scanner"
  assumes fwd: "adv True s (snd (rd s))"
    and eat: "seqs s = [] \<Longrightarrow> rd s = (True, t) \<Longrightarrow> length (buf t) < length (buf s)"
begin

lemma accept_adv: "adv False s (snd (accept tk (rd s)))"
  using fwd [of s] by (auto simp: accept_def adv_def)

lemma accept_eats:
  assumes "accept tk (rd s) = (x, t)" "token s = TokenUnknown" "token t \<noteq> TokenUnknown" "seqs s = []"
  shows "length (buf t) < length (buf s) \<and> token t = tk"
proof (cases "fst (rd s)")
  case True
  then have "rd s = (True, snd (rd s))" by (simp add: prod_eq_iff)
  with eat [OF assms(4) this] assms(1) True show ?thesis by (auto simp: accept_def)
next
  case False
  then have "token t = TokenUnknown" using fwd [of s] assms(1,2) by (simp add: accept_def adv_def)
  with assms(3) show ?thesis by simp
qed

lemma accept_no_abort: "fst (accept tk (rd s)) = False"
  by (simp add: accept_def)

end

interpretation atom_reader: token_reader readAtom
  by unfold_locales (simp_all add: readAtom_adv readAtom_strict)

interpretation tag_reader: token_reader readTag
  by unfold_locales (simp_all add: readTag_adv readTag_strict)

interpretation astring_reader: token_reader readAstring
  by unfold_locales (simp_all add: readAstring_adv readAstring_strict)

interpretation flag_reader: token_reader readFlag
  by unfold_locales (simp_all add: readFlag_adv readFlag_strict)

interpretation quoted_reader: token_reader readQuotedString
  by unfold_locales (simp_all add: readQuotedString_adv readQuotedString_strict)

interpretation sequences_reader: token_reader readSequences
  by unfold_locales (simp_all add: readSequences_adv readSequences_strict)

interpretation fetch_reader: token_reader readFetchItem
  by unfold_locales (simp_all add: readFetchItem_adv readFetchItem_strict)

interpretation date_reader: token_reader readDate
  by unfold_locales (simp_all add: readDate_adv readDate_strict)

interpretation glob_reader: token_reader readListMailbox
  by unfold_locales (simp_all add: readListMailbox_adv readListMailbox_strict)

interpretation literal_reader: token_reader "readLiteral limit" for limit
  by unfold_locales (simp_all add: readLiteral_adv readLiteral_strict)

lemma readListStart_strict: "readListStart s = (True, t) \<Longrightarrow> length (buf t) < length (buf s)"
  by (auto simp: readListStart_def split: prod.splits if_splits dest!: peek_read_less)

interpretation list_start_reader: token_reader readListStart
  by unfold_locales (simp_all add: readListStart_adv readListStart_strict)

lemma readListEnd_strict:
  "readListEnd s = (Inr True, t) \<Longrightarrow> length (buf t) < length (buf s)"
  by (auto simp: readListEnd_def split: prod.splits if_splits dest!: peek_read_less)

lemma readListEnd_token: "readListEnd s = (r, t) \<Longrightarrow> token t = token s"
  using readListEnd_adv [of True s] by (simp add: adv_def)

lemma readUint64_token: "readUint64 s = (r, t) \<Longrightarrow> token t = token s"
  using readUint64_adv [of True s] by (simp add: adv_def)

lemma acceptListEnd_eats:
  "acceptListEnd s = (False, t) \<Longrightarrow> token s = TokenUnknown \<Longrightarrow> token t \<noteq> TokenUnknown \<Longrightarrow>
   length (buf t) < length (buf s)"
  by (auto simp: acceptListEnd_def split: prod.splits sum.splits if_splits dest: readListEnd_strict readListEnd_token)

lemma acceptNumber_eats:
  "acceptNumber s = (False, t) \<Longrightarrow> token s = TokenUnknown \<Longrightarrow> token t \<noteq> TokenUnknown \<Longrightarrow>
   length (buf t) < length (buf s)"
  by (auto simp: acceptNumber_def split: prod.splits sum.splits dest: readUint64_strict readUint64_token)

definition fresh :: "scanner \<Rightarrow> bool" where
  "fresh s \<longleftrightarrow> token s = TokenUnknown \<and> seqs s = []"

lemmas reader_eats =
  atom_reader.accept_eats tag_reader.accept_eats astring_reader.accept_eats flag_reader.accept_eats
  quoted_reader.accept_eats sequences_reader.accept_eats fetch_reader.accept_eats date_reader.accept_eats
  glob_reader.accept_eats literal_reader.accept_eats list_start_reader.accept_eats

lemma readExpected_eats:
  assumes "readExpected expect b s = (False, t)" "fresh s" "token t \<noteq> TokenUnknown"
    and first: "\<And>c s1. readChar s = (c, s1) \<Longrightarrow> length (buf s1) < length (buf s)"
  shows "length (buf t) < length (buf s)"
proof -
  have f: "token s = TokenUnknown" "seqs s = []" using assms(2) by (simp_all add: fresh_def)
  note e = reader_eats [THEN conjunct1, OF _ f(1) assms(3) f(2)]
  have d: "readDefault b s = (False, t) \<Longrightarrow> ?thesis"
    by (auto simp: readDefault_def split: if_splits dest: e acceptListEnd_eats [OF _ f(1) assms(3)])
  have k: "readSearchKey b s = (False, t) \<Longrightarrow> ?thesis"
    by (auto simp: readSearchKey_def split: if_splits prod.splits dest: e first)
  show ?thesis
    using assms(1) by (cases expect)
      (auto simp only: readExpected_def Token.case
        dest: d k e acceptListEnd_eats [OF _ f(1) assms(3)] acceptNumber_eats [OF _ f(1) assms(3)])
qed

lemma readToken_eats:
  assumes "readToken expect b s = (False, t)" "fresh s" "token t \<noteq> TokenUnknown"
    and first: "\<And>c s1. readChar s = (c, s1) \<Longrightarrow> length (buf s1) < length (buf s)"
  shows "length (buf t) < length (buf s)"
  using assms readExpected_eats [of expect b s t]
  by (force simp: readToken_def setErr_def split: if_splits prod.splits dest!: peekChar_buf readChar_le)

lemma checkToken_success:
  "checkToken expect allowEnd s = (True, t) \<Longrightarrow>
   t = s \<and> scanError s = None \<and> token s \<noteq> TokenUnknown \<and>
   (expect = TokenUnknown \<or> token s = expect \<or> allowEnd \<and> token s = TokenEnd)"
  by (auto simp: checkToken_def Let_def split: if_splits)

lemma checkToken_fail:
  "checkToken expect allowEnd s = (False, t) \<Longrightarrow> token t = TokenUnknown \<and> val t = [] \<and> seqs t = []"
  by (auto simp: checkToken_def Let_def split: if_splits)

lemma readAbort: "readToken expect b s = (True, t) \<Longrightarrow> scanError t \<noteq> None \<and> token t = token s"
proof -
  have l: "acceptListEnd s = (True, t) \<Longrightarrow> scanError t \<noteq> None \<and> token t = token s"
    using readListEnd_token by (auto simp: acceptListEnd_def setErr_def split: prod.splits sum.splits if_splits)
  then show "readToken expect b s = (True, t) \<Longrightarrow> scanError t \<noteq> None \<and> token t = token s"
    by (cases expect) (auto simp: readToken_def readExpected_def readDefault_def readSearchKey_def accept_def
      acceptNumber_def split: if_splits prod.splits sum.splits)
qed

text \<open>A successful call of \<open>Next\<close>: the token is the expected one (or the allowed end), there is no
  error, now or before, and at least one byte has been consumed.\<close>

lemma nextToken_success:
  assumes "nextToken expect allowEnd s = (True, t)"
  shows "length (buf t) < length (buf s) \<and> scanError t = None \<and> scanError s = None \<and> token t \<noteq> TokenUnknown \<and>
    (expect = TokenUnknown \<or> token t = expect \<or> allowEnd \<and> token t = TokenEnd)"
proof -
  let ?w = "consumeWhitespace (clear s)"
  obtain b s1 where r1: "peekChar ?w = (b, s1)" by fastforce
  obtain ab s2 where r2: "readToken expect b s1 = (ab, s2)" by fastforce
  have nb: "b \<noteq> NUL" and ab: "\<not> ab" and c: "checkToken expect allowEnd s2 = (True, t)"
    using assms by (auto simp: nextToken_def r1 r2 split: if_splits)
  have s1: "s1 = ?w" "ioErr ?w = None" "\<exists>r. buf ?w = b # r" using peekChar_some [OF r1 nb] by auto
  have a: "adv True (clear s) s1" using consumeWhitespace_adv s1(1) by simp
  have "seqs s1 = []" "token s1 = TokenUnknown"
  proof -
    show "token s1 = TokenUnknown" using a by (simp add: adv_def)
    have "seqs (consumeWhitespace u) = seqs u" for u
    proof (induction u rule: consumeWhitespace.induct)
      case (1 u)
      then show ?case
        by (subst consumeWhitespace.simps) (auto split: prod.split, (metis seqs_keep)+)
    qed
    then show "seqs s1 = []" using s1 by simp
  qed
  then have fresh: "fresh s1" by (simp add: fresh_def)
  have ck: "t = s2" "scanError t = None" "token t \<noteq> TokenUnknown"
    "expect = TokenUnknown \<or> token t = expect \<or> allowEnd \<and> token t = TokenEnd"
    using checkToken_success [OF c] by auto
  have "length (buf s2) < length (buf s1)"
  proof (rule readToken_eats [OF _ fresh])
    show "readToken expect b s1 = (False, s2)" using r2 ab by simp
    show "token s2 \<noteq> TokenUnknown" using ck by simp
    show "length (buf s1') < length (buf s1)" if "readChar s1 = (c, s1')" for c s1'
      using that s1 nb by (auto simp: readChar_def)
  qed
  moreover have "length (buf s1) \<le> length (buf s)" using adv_length [OF a] by simp
  moreover have "scanError s = None"
    using nextToken_adv [of s expect allowEnd] ck(2) assms by (auto simp: adv_def)
  ultimately show ?thesis using ck by simp
qed

lemma nextToken_fail:
  assumes "nextToken expect allowEnd s = (False, t)"
  shows "token t = TokenUnknown"
proof -
  let ?w = "consumeWhitespace (clear s)"
  obtain b s1 where r1: "peekChar ?w = (b, s1)" by fastforce
  obtain ab s2 where r2: "readToken expect b s1 = (ab, s2)" by fastforce
  have a: "adv True (clear s) s1"
    using adv_trans [OF consumeWhitespace_adv adv_eq [OF peekChar_adv r1]] .
  then have t1: "token s1 = TokenUnknown" by (simp add: adv_def)
  have "token (nextEOF s1) = TokenUnknown"
    using t1 nextEOF_adv [of True s1] by (simp add: adv_def)
  then show ?thesis
    using assms readAbort [of expect b s1 s2] t1 checkToken_fail [of expect allowEnd s2 t]
    by (auto simp: nextToken_def r1 r2 split: if_splits)
qed


text \<open>\<open>Scanner.Error\<close> is sticky: once a lexical error has been recorded no later call of \<open>Next\<close> or
  \<open>NextOrEnd\<close> on this scanner succeeds, whatever the input holds, and the error is never cleared.\<close>

theorem scan_error_sticky:
  assumes "scanError s \<noteq> None"
  shows "\<not> fst (nextToken expect allowEnd s) \<and> scanError (snd (nextToken expect allowEnd s)) \<noteq> None"
proof
  show "\<not> fst (nextToken expect allowEnd s)"
    using nextToken_success [of expect allowEnd s "snd (nextToken expect allowEnd s)"] assms
    by (auto simp: prod_eq_iff)
  show "scanError (snd (nextToken expect allowEnd s)) \<noteq> None"
    using nextToken_adv [of s expect allowEnd] assms by (simp add: adv_def)
qed

theorem scan_error_sticky_witness:
  "\<not> fst (nextToken TokenTag False (setErr (ErrNew ''x'') (NewScanner ''a NOOP'' EOF True False)))"
  using scan_error_sticky [of "setErr (ErrNew ''x'') (NewScanner ''a NOOP'' EOF True False)" TokenTag False]
  by simp

end
