(* ===== verification/ImapLexemes.thy ===== *)
theory ImapLexemes
  imports ImapScanner
begin

text \<open>
  What the tokenizer of \<open>imap/imapparser/scanner.go\<close> makes of well-formed input: quoted
  strings, atoms, literals, numbers and sequence sets are read back to the value they were printed
  from, and the scanner stops right behind them. The lemmas about the loops are the ones the
  parser's theorems use to run a command line.
\<close>

subsection \<open>A scanner without errors\<close>

definition idle :: "scanner \<Rightarrow> bool" where
  "idle s \<longleftrightarrow> ioErr s = None \<and> scanError s = None"

lemma idle_upd [simp]:
  "idle (s\<lparr>buf := b\<rparr>) = idle s" "idle (s\<lparr>val := v\<rparr>) = idle s" "idle (s\<lparr>seqs := q\<rparr>) = idle s"
  "idle (s\<lparr>token := t\<rparr>) = idle s" "idle (s\<lparr>number := k\<rparr>) = idle s" "idle (clear s) = idle s"
  "idle (s\<lparr>listDepth := k\<rparr>) = idle s" "idle (s\<lparr>litFile := v\<rparr>) = idle s" "idle (s\<lparr>hasLiteral := c\<rparr>) = idle s"
  "idle (s\<lparr>contLog := l\<rparr>) = idle s" "idle (s\<lparr>lastWasCRLF := c\<rparr>) = idle s"
  by (simp_all add: idle_def clear_def)

lemma idle_noErr: "idle s \<Longrightarrow> ioErr s = None" "idle s \<Longrightarrow> scanError s = None"
  by (simp_all add: idle_def)

lemma pushVal_buf: "pushVal b (s\<lparr>buf := r\<rparr>) = s\<lparr>buf := r, val := val s @ [b]\<rparr>"
  by (simp add: pushVal_def)

subsection \<open>White space, strings, atoms\<close>

lemma consumeWhitespace_step:
  "ioErr s = None \<Longrightarrow> buf s = b # r \<Longrightarrow> b = SP \<or> b = TAB \<Longrightarrow> consumeWhitespace s = consumeWhitespace (s\<lparr>buf := r\<rparr>)"
  by (subst consumeWhitespace.simps) (auto simp: peekChar_def readChar_def)

lemma consumeWhitespace_run:
  assumes "ioErr s = None" "buf s = ws @ b # r" "set ws \<subseteq> {SP, TAB}" "b \<noteq> SP" "b \<noteq> TAB" "b \<noteq> NUL"
  shows "consumeWhitespace s = s\<lparr>buf := b # r\<rparr>"
  using assms
proof (induction ws arbitrary: s)
  case Nil
  then show ?case
    by (subst consumeWhitespace.simps) (simp add: peekChar_def)
next
  case (Cons w ws)
  then show ?case using consumeWhitespace_step [of s w "ws @ b # r"] by auto
qed

text \<open>The escaped form of a string between its quotes.\<close>

fun escapeQuoted :: "bytes \<Rightarrow> bytes" where
  "escapeQuoted [] = []"
| "escapeQuoted (b # v) = (if b = DQ \<or> b = BSL then [BSL, b] else [b]) @ escapeQuoted v"

definition quoteString :: "bytes \<Rightarrow> bytes" where
  "quoteString v = DQ # escapeQuoted v @ [DQ]"

definition textBytes :: "bytes \<Rightarrow> bool" where
  "textBytes v \<longleftrightarrow> set v \<inter> {NUL, CR, LF} = {}"

lemma quotedLoop_run:
  "ioErr s = None \<Longrightarrow> buf s = escapeQuoted v @ DQ # r \<Longrightarrow> textBytes v \<Longrightarrow>
   quotedLoop s = (True, s\<lparr>buf := r, val := val s @ v\<rparr>)"
proof (induction v arbitrary: s)
  case Nil
  then show ?case by (subst quotedLoop.simps) (simp add: readChar_def)
next
  case (Cons b v)
  let ?s = "s\<lparr>buf := escapeQuoted v @ DQ # r, val := val s @ [b]\<rparr>"
  have ih: "quotedLoop ?s = (True, s\<lparr>buf := r, val := val s @ b # v\<rparr>)"
    using Cons.IH [of ?s] Cons.prems by (simp add: textBytes_def)
  have b: "b \<noteq> NUL" "b \<noteq> CR" "b \<noteq> LF" using Cons.prems by (auto simp: textBytes_def)
  show ?case
  proof (cases "b = DQ \<or> b = BSL")
    case True
    then have "quotedLoop s = quotedLoop ?s"
      using Cons.prems by (subst quotedLoop.simps) (auto simp: readChar_def pushVal_buf)
    with ih show ?thesis by simp
  next
    case False
    then have "quotedLoop s = quotedLoop ?s"
      using Cons.prems b by (subst quotedLoop.simps) (auto simp: readChar_def pushVal_buf)
    with ih show ?thesis by simp
  qed
qed

lemma readQuotedString_run:
  "ioErr s = None \<Longrightarrow> buf s = quoteString v @ r \<Longrightarrow> textBytes v \<Longrightarrow>
   readQuotedString s = (True, s\<lparr>buf := r, val := val s @ v\<rparr>)"
  using quotedLoop_run [of "s\<lparr>buf := escapeQuoted v @ DQ # r\<rparr>" v r]
  by (simp add: readQuotedString_def quoteString_def readChar_def)

lemma charLoop_run:
  assumes "ioErr s = None" "buf s = v @ d # r" "d \<in> set stop" "d \<noteq> NUL"
    and "\<forall>b\<in>set v. b \<notin> set stop \<and> b \<notin> set bad \<and> is7bitPrint b"
  shows "charLoop stop bad msg n s = (n < length (val s @ v), s\<lparr>buf := d # r, val := val s @ v\<rparr>)"
  using assms
proof (induction v arbitrary: s)
  case Nil
  then show ?case by (subst charLoop.simps) (simp add: peekChar_def)
next
  case (Cons b v)
  let ?s = "s\<lparr>buf := v @ d # r, val := val s @ [b]\<rparr>"
  have b: "b \<noteq> NUL" using Cons.prems by (auto simp: is7bitPrint_def)
  have "charLoop stop bad msg n s = charLoop stop bad msg n ?s"
    using Cons.prems b by (subst charLoop.simps) (simp add: peekChar_def readChar_def pushVal_buf)
  with Cons.IH [of ?s] Cons.prems show ?case by simp
qed

subsection \<open>Numbers\<close>

lemma digitLoop_run:
  assumes "ioErr s = None" "buf s = ds @ d # r" "\<forall>b\<in>set ds. isDigit b" "\<not> isDigit d" "d \<noteq> NUL"
    "length acc + length ds \<le> cap"
  shows "digitLoop cap acc s = (acc @ ds, s\<lparr>buf := d # r\<rparr>)"
  using assms
proof (induction ds arbitrary: s acc)
  case Nil
  then show ?case by (subst digitLoop.simps) (simp add: peekChar_def)
next
  case (Cons b ds)
  let ?s = "s\<lparr>buf := ds @ d # r\<rparr>"
  have b: "b \<noteq> NUL" using Cons.prems by (auto simp: isDigit_def)
  have "digitLoop cap acc s = digitLoop cap (acc @ [b]) ?s"
    using Cons.prems b by (subst digitLoop.simps) (simp add: peekChar_def readChar_def)
  with Cons.IH [of ?s "acc @ [b]"] Cons.prems show ?case by simp
qed

lemma digitLoop_long:
  assumes "ioErr s = None" "buf s = ds @ d # r" "\<forall>b\<in>set ds. isDigit b" "\<not> isDigit d" "d \<noteq> NUL"
    "length acc = cap"
  shows "digitLoop cap acc s = (acc, s\<lparr>buf := d # r\<rparr>)"
  using assms
proof (induction ds arbitrary: s)
  case Nil
  then show ?case by (subst digitLoop.simps) (simp add: peekChar_def)
next
  case (Cons b ds)
  let ?s = "s\<lparr>buf := ds @ d # r\<rparr>"
  have b: "b \<noteq> NUL" using Cons.prems by (auto simp: isDigit_def)
  have "digitLoop cap acc s = digitLoop cap acc ?s"
    using Cons.prems b by (subst digitLoop.simps) (simp add: peekChar_def readChar_def)
  with Cons.IH [of ?s] Cons.prems show ?case by simp
qed

lemma readUint32_run:
  assumes "ioErr s = None" "buf s = fmtNat (unat n) @ d # r" "\<not> isDigit d" "d \<noteq> NUL"
  shows "readUint32 s = (Inr (n :: u32), s\<lparr>buf := d # r\<rparr>)"
proof -
  have "unat n < 10 ^ Suc 10" by (rule order_less_trans [OF unat_u32_less]) simp
  then have "length (fmtNat (unat n)) \<le> 11" using length_fmtNat_le [of "unat n" 10] by simp
  then have "digitLoop 11 [] s = (fmtNat (unat n), s\<lparr>buf := d # r\<rparr>)"
    using digitLoop_run [OF assms(1,2) _ assms(3,4), of "[]" 11] fmtNat_digits by auto
  then show ?thesis using ParseUint_fmtNat [of "unat n" 32] unat_u32_less [of n] by (simp add: readUint32_def)
qed

text \<open>\<open>readUint64\<close> keeps the first 20 digits, so a longer number is read as its first 20 digits.\<close>

lemma readUint64_run:
  assumes "ioErr s = None" "buf s = ds @ d # r" "\<forall>b\<in>set ds. isDigit b" "\<not> isDigit d" "d \<noteq> NUL"
  shows "readUint64 s = (ParseUint (take 20 ds) 64, s\<lparr>buf := d # r\<rparr>)"
proof (cases "length ds \<le> 20")
  case True
  then show ?thesis using digitLoop_run [OF assms, of "[]" 20] by (simp add: readUint64_def)
next
  case False
  have "digitLoop 20 [] s = (take 20 ds, s\<lparr>buf := d # r\<rparr>)"
  proof -
    have split: "digitLoop cap acc s = digitLoop cap (acc @ a) (s\<lparr>buf := b\<rparr>)"
      if "ioErr s = None" "buf s = a @ b" "\<forall>x\<in>set a. isDigit x" "length acc + length a \<le> cap" for cap acc s a b
      using that
    proof (induction a arbitrary: s acc)
      case Nil
      then show ?case by (metis append_Nil append_Nil2 scanner.surjective scanner.update_convs(1))
    next
      case (Cons x a)
      then have "x \<noteq> NUL" by (auto simp: isDigit_def)
      then have "digitLoop cap acc s = digitLoop cap (acc @ [x]) (s\<lparr>buf := a @ b\<rparr>)"
        using Cons.prems by (subst digitLoop.simps) (simp add: peekChar_def readChar_def)
      with Cons.IH [of "s\<lparr>buf := a @ b\<rparr>" "acc @ [x]"] Cons.prems show ?case by simp
    qed
    have "digitLoop 20 [] s = digitLoop 20 (take 20 ds) (s\<lparr>buf := drop 20 ds @ d # r\<rparr>)"
      using split [of s "take 20 ds" "drop 20 ds @ d # r" "[]" 20] assms(1,2,3) False
      by (auto simp: append_assoc [symmetric] simp del: append_assoc dest: in_set_takeD)
    also have "\<dots> = (take 20 ds, s\<lparr>buf := d # r\<rparr>)"
      using digitLoop_long [of "s\<lparr>buf := drop 20 ds @ d # r\<rparr>" "drop 20 ds" d r "take 20 ds" 20] assms False
      by (auto dest: in_set_dropD)
    finally show ?thesis .
  qed
  then show ?thesis by (simp add: readUint64_def)
qed

subsection \<open>Sequence sets\<close>

definition normalRange :: "SeqRange \<Rightarrow> bool" where
  "normalRange r \<longleftrightarrow> seqMin r \<le> seqMax r \<or> seqMax r = 0"

definition seqEnd :: "byte \<Rightarrow> bool" where
  "seqEnd d \<longleftrightarrow> d \<noteq> NUL \<and> \<not> isDigit d \<and> d \<noteq> CHR '':''"

definition seqNum :: "u32 \<Rightarrow> bytes" where
  "seqNum n = (if n = 0 then ''*'' else fmtNat (unat n))"

lemma fmtNat_head: "\<exists>c cs. fmtNat n = c # cs \<and> isDigit c"
  using fmtNat_digits [of "hd (fmtNat n)" n] by (cases "fmtNat n") auto

lemma readSeqNumber_run:
  assumes "ioErr s = None" "buf s = seqNum n @ d # r" "\<not> isDigit d" "d \<noteq> NUL"
  shows "readSeqNumber s = (Some n, s\<lparr>buf := d # r\<rparr>)"
proof (cases "n = 0")
  case True
  then show ?thesis using assms by (simp add: readSeqNumber_def seqNum_def peekChar_def readChar_def)
next
  case False
  then obtain c cs where c: "fmtNat (unat n) = c # cs" "isDigit c" using fmtNat_head by blast
  then have "c \<noteq> NUL" "c \<noteq> CHR ''*''" by (auto simp: isDigit_def)
  then show ?thesis using readUint32_run [of s n d r] assms False c
    by (simp add: readSeqNumber_def seqNum_def peekChar_def)
qed

lemma formatSeq_alt:
  "formatSeq r = (if seqMin r = seqMax r then seqNum (seqMin r) else seqNum (seqMin r) @ '':'' @ seqNum (seqMax r))"
  by (auto simp: formatSeq_def seqNum_def)

lemma readSequence_run:
  assumes "ioErr s = None" "buf s = formatSeq q @ d # r" "seqEnd d" "normalRange q"
  shows "readSequence s = (True, s\<lparr>buf := d # r, seqs := seqs s @ [q]\<rparr>)"
proof -
  have d: "d \<noteq> NUL" "\<not> isDigit d" "d \<noteq> CHR '':''" using assms(3) by (simp_all add: seqEnd_def)
  obtain a b where q: "q = mkSeq a b" by (cases q) auto
  show ?thesis
  proof (cases "seqMin q = seqMax q")
    case True
    have "readSeqNumber s = (Some (seqMin q), s\<lparr>buf := d # r\<rparr>)"
      using readSeqNumber_run [of s "seqMin q" d r] assms d True by (simp add: formatSeq_alt)
    then show ?thesis using assms(1) d True q by (simp add: readSequence_def peekChar_def)
  next
    case False
    have c: "\<not> isDigit (CHR '':'')" by (simp add: isDigit_def)
    let ?r2 = "seqNum (seqMax q) @ d # r"
    have 1: "readSeqNumber s = (Some (seqMin q), s\<lparr>buf := CHR '':'' # ?r2\<rparr>)"
      using readSeqNumber_run [of s "seqMin q" "CHR '':''" ?r2] assms c False by (simp add: formatSeq_alt)
    have 2: "readSeqNumber (s\<lparr>buf := ?r2\<rparr>) = (Some (seqMax q), s\<lparr>buf := d # r\<rparr>)"
      using readSeqNumber_run [of "s\<lparr>buf := ?r2\<rparr>" "seqMax q" d r] assms d by simp
    have "\<not> (seqMax q < seqMin q \<and> seqMax q \<noteq> 0)" using assms(4) by (auto simp: normalRange_def)
    then show ?thesis using assms(1) 1 2 q by (auto simp add: readSequence_def peekChar_def readChar_def)
  qed
qed

lemma readSequences_run:
  assumes "ioErr s = None" "buf s = FormatSeqs qs @ d # r" "qs \<noteq> []" "seqEnd d" "d \<noteq> CHR '',''"
    "\<forall>q\<in>set qs. normalRange q"
  shows "readSequences s = (True, s\<lparr>buf := d # r, seqs := seqs s @ qs\<rparr>)"
  using assms
proof (induction qs arbitrary: s rule: FormatSeqs.induct)
  case 1
  then show ?case by simp
next
  case (2 q)
  then show ?case
    by (subst readSequences.simps) (simp add: readSequence_run [of s q d r] peekChar_def seqEnd_def)
next
  case (3 q q' qs)
  let ?r = "FormatSeqs (q' # qs) @ d # r"
  have "readSequence s = (True, s\<lparr>buf := CHR '','' # ?r, seqs := seqs s @ [q]\<rparr>)"
    using readSequence_run [of s q "CHR '',''" ?r] "3.prems" by (simp add: seqEnd_def isDigit_def)
  then have "readSequences s = readSequences (s\<lparr>seqs := seqs s @ [q], buf := ?r\<rparr>)"
    using "3.prems"(1) by (subst readSequences.simps) (simp add: peekChar_def readChar_def)
  also have "\<dots> = (True, s\<lparr>buf := d # r, seqs := seqs s @ q # q' # qs\<rparr>)"
    using "3.IH" [of "s\<lparr>seqs := seqs s @ [q], buf := ?r\<rparr>"] "3.prems" by simp
  finally show ?case .
qed

text \<open>Every range that the scanner produces is normal, whatever the input.\<close>

lemma readSequence_normal:
  assumes "readSequence s = (ok, t)" "\<forall>q\<in>set (seqs s). normalRange q"
  shows "\<forall>q\<in>set (seqs t). normalRange q"
proof -
  obtain r s1 where r1: "readSeqNumber s = (r, s1)" by fastforce
  obtain b s2 where r2: "peekChar s1 = (b, s2)" by fastforce
  obtain c s3 where r3: "readChar s2 = (c, s3)" by fastforce
  obtain r' s4 where r4: "readSeqNumber s3 = (r', s4)" by fastforce
  show ?thesis
    using assms readSeqNumber_seqs [OF r1] seqs_keep(1) [OF r2] seqs_keep(2) [OF r3] readSeqNumber_seqs [OF r4]
    by (auto simp: readSequence_def r1 r2 r3 r4 normalRange_def split: option.splits if_splits)
qed

lemma readSequences_normal:
  "\<forall>q\<in>set (seqs s). normalRange q \<Longrightarrow> \<forall>q\<in>set (seqs (snd (readSequences s))). normalRange q"
proof (induction s rule: measure_induct_rule [of "\<lambda>s. length (buf s)"])
  case (less s)
  obtain ok s1 where r1: "readSequence s = (ok, s1)" by fastforce
  obtain b s2 where r2: "peekChar s1 = (b, s2)" by fastforce
  obtain c s3 where r3: "readChar s2 = (c, s3)" by fastforce
  have lt: "ok \<Longrightarrow> length (buf s3) < length (buf s)"
    using readSequence_strict r1 readChar_le [OF r3] peekChar_buf [OF r2] by fastforce
  have n: "\<forall>q\<in>set (seqs s1). normalRange q" using readSequence_normal [OF r1 less.prems] .
  then have n3: "\<forall>q\<in>set (seqs s3). normalRange q"
    using seqs_keep(1) [OF r2] seqs_keep(2) [OF r3] by simp
  from less.IH [of s3, OF lt n3] show ?case
    using n seqs_keep(1) [OF r2]
    by (cases ok) (simp_all add: readSequences.simps [of s] r1 r2 r3)
qed

subsection \<open>Next on well-formed input\<close>

abbreviation spaces :: "bytes \<Rightarrow> bool" where
  "spaces ws \<equiv> set ws \<subseteq> {SP, TAB}"

lemma nextToken_run:
  assumes "idle s" "buf s = ws @ b # r" "spaces ws" "b \<notin> {SP, TAB, NUL, CR, LF}"
    and "readExpected expect b ((clear s)\<lparr>buf := b # r\<rparr>) = (False, t)"
  shows "nextToken expect allowEnd s = checkToken expect allowEnd t"
proof -
  have "consumeWhitespace (clear s) = (clear s)\<lparr>buf := b # r\<rparr>"
    using consumeWhitespace_run [of "clear s" ws b r] assms by (auto simp: idle_def)
  then show ?thesis using assms by (simp add: nextToken_def peekChar_def idle_def readToken_def)
qed

lemma checkToken_ok:
  "scanError t = None \<Longrightarrow> token t = expect \<Longrightarrow> expect \<noteq> TokenUnknown \<Longrightarrow> checkToken expect allowEnd t = (True, t)"
  by (simp add: checkToken_def)

lemma checkToken_any:
  "scanError t = None \<Longrightarrow> token t \<noteq> TokenUnknown \<Longrightarrow> checkToken TokenUnknown allowEnd t = (True, t)"
  by (simp add: checkToken_def)

lemma nextToken_accept:
  assumes "idle s" "buf s = ws @ b # r" "spaces ws" "b \<notin> {SP, TAB, NUL, CR, LF}" "expect \<noteq> TokenUnknown"
    and "\<And>u. readExpected expect b u = accept expect (rd u)"
    and "rd ((clear s)\<lparr>buf := b # r\<rparr>) = (True, t)" "scanError t = None"
  shows "nextToken expect allowEnd s = (True, t\<lparr>token := expect\<rparr>)"
  using nextToken_run [OF assms(1-4), of expect "t\<lparr>token := expect\<rparr>"] assms(5-8)
  by (simp add: accept_def checkToken_ok)

text \<open>An end of line, and what a \<open>Next\<close> that expects something else does with it.\<close>

lemma nextToken_crlf:
  assumes "idle s" "buf s = ws @ CRLF @ r" "spaces ws"
  shows "nextToken expect allowEnd s = checkToken expect allowEnd ((clear s)\<lparr>buf := r, token := TokenEnd\<rparr>)"
proof -
  have "consumeWhitespace (clear s) = (clear s)\<lparr>buf := CR # LF # r\<rparr>"
    using consumeWhitespace_run [of "clear s" ws CR "LF # r"] assms by (auto simp: idle_def)
  then show ?thesis using assms
    by (simp add: nextToken_def peekChar_def readChar_def idle_def readToken_def)
qed

lemma Next_end:
  assumes "idle s" "buf s = ws @ CRLF @ r" "spaces ws"
  shows "Next TokenEnd s = (True, (clear s)\<lparr>buf := r, token := TokenEnd\<rparr>)"
  using nextToken_crlf [OF assms, of TokenEnd False] assms(1)
  by (simp add: Next_def checkToken_def idle_def)

definition atomBytes :: "bytes \<Rightarrow> bool" where
  "atomBytes v \<longleftrightarrow> v \<noteq> [] \<and> (\<forall>b\<in>set v. is7bitPrint b \<and>
     b \<notin> {SP, CHR '')'', CHR ''('', CHR ''{'', CHR ''%'', CHR ''*'', CHR '']''})"

definition tagBytes :: "bytes \<Rightarrow> bool" where
  "tagBytes v \<longleftrightarrow> v \<noteq> [] \<and> (\<forall>b\<in>set v. is7bitPrint b \<and>
     b \<notin> {SP, CHR '')'', CHR ''('', CHR ''{'', CHR ''%'', CHR ''*'', DQ, BSL, CHR ''+''})"

lemma print_not: "is7bitPrint b \<Longrightarrow> b \<noteq> NUL \<and> b \<noteq> TAB \<and> b \<noteq> CR \<and> b \<noteq> LF"
  by (auto simp: is7bitPrint_def)

lemma Next_atom:
  assumes "idle s" "buf s = ws @ v @ d # r" "spaces ws" "atomBytes v" "d \<in> {SP, CR, LF, CHR '')''}"
  shows "nextToken TokenAtom allowEnd s = (True, (clear s)\<lparr>buf := d # r, val := v, token := TokenAtom\<rparr>)"
proof -
  obtain b v' where v: "v = b # v'" using assms(4) by (cases v) (auto simp: atomBytes_def)
  have b: "b \<notin> {SP, TAB, NUL, CR, LF}" using assms(4) print_not [of b] by (auto simp: atomBytes_def v)
  have "readAtom ((clear s)\<lparr>buf := v @ d # r\<rparr>) = (True, (clear s)\<lparr>buf := d # r, val := v\<rparr>)"
    using charLoop_run [of "(clear s)\<lparr>buf := v @ d # r\<rparr>" v d r] assms(1,4,5) print_not
    by (auto simp: readAtom_def atomBytes_def idle_def)
  then show ?thesis
    using nextToken_accept [of s ws b "v' @ d # r" TokenAtom readAtom] assms(1-3) b v
    by (simp add: readExpected_def idle_def)
qed

lemma Next_tag:
  assumes "idle s" "buf s = ws @ v @ d # r" "spaces ws" "tagBytes v" "d \<in> {SP, CR, LF}"
  shows "nextToken TokenTag allowEnd s = (True, (clear s)\<lparr>buf := d # r, val := v, token := TokenTag\<rparr>)"
proof -
  obtain b v' where v: "v = b # v'" using assms(4) by (cases v) (auto simp: tagBytes_def)
  have b: "b \<notin> {SP, TAB, NUL, CR, LF}" using assms(4) print_not [of b] by (auto simp: tagBytes_def v)
  have "readTag ((clear s)\<lparr>buf := v @ d # r\<rparr>) = (True, (clear s)\<lparr>buf := d # r, val := v\<rparr>)"
    using charLoop_run [of "(clear s)\<lparr>buf := v @ d # r\<rparr>" v d r] assms(1,4,5) print_not
    by (auto simp: readTag_def tagBytes_def idle_def)
  then show ?thesis
    using nextToken_accept [of s ws b "v' @ d # r" TokenTag readTag] assms(1-3) b v
    by (simp add: readExpected_def idle_def)
qed

lemma Next_quoted:
  assumes "idle s" "buf s = ws @ quoteString v @ r" "spaces ws" "textBytes v"
  shows "nextToken TokenString allowEnd s = (True, (clear s)\<lparr>buf := r, val := v, token := TokenString\<rparr>)"
proof -
  have "readAstring ((clear s)\<lparr>buf := quoteString v @ r\<rparr>) = (True, (clear s)\<lparr>buf := r, val := v\<rparr>)"
    using readQuotedString_run [of "(clear s)\<lparr>buf := quoteString v @ r\<rparr>" v r] assms(1,4)
    by (simp add: readAstring_def peekChar_def idle_def) (simp add: quoteString_def)
  then show ?thesis
    using nextToken_accept [of s ws DQ "escapeQuoted v @ DQ # r" TokenString readAstring] assms(1-3)
    by (simp add: readExpected_def idle_def quoteString_def)
qed

lemma FormatSeqs_head:
  "qs \<noteq> [] \<Longrightarrow> \<exists>c cs. FormatSeqs qs = c # cs \<and> (isDigit c \<or> c = CHR ''*'')"
proof -
  have 1: "\<exists>c cs. formatSeq q @ x = c # cs \<and> (isDigit c \<or> c = CHR ''*'')" for q x
    using fmtNat_head [of "unat (seqMin q)"] by (auto simp: formatSeq_alt seqNum_def)
  show "qs \<noteq> [] \<Longrightarrow> ?thesis" using 1 1 [of _ "[]"] by (cases qs rule: FormatSeqs.cases) auto
qed

lemma Next_sequences:
  assumes "idle s" "buf s = ws @ FormatSeqs qs @ d # r" "spaces ws" "qs \<noteq> []" "seqEnd d" "d \<noteq> CHR '',''"
    "\<forall>q\<in>set qs. normalRange q"
  shows "nextToken TokenSequences allowEnd s = (True, (clear s)\<lparr>buf := d # r, seqs := qs, token := TokenSequences\<rparr>)"
proof -
  obtain b v' where v: "FormatSeqs qs = b # v'" and b: "isDigit b \<or> b = CHR ''*''"
    using FormatSeqs_head [OF assms(4)] by blast
  have b: "b \<notin> {SP, TAB, NUL, CR, LF}" using b by (auto simp: isDigit_def)
  have "readSequences ((clear s)\<lparr>buf := FormatSeqs qs @ d # r\<rparr>) = (True, (clear s)\<lparr>buf := d # r, seqs := qs\<rparr>)"
    using readSequences_run [of "(clear s)\<lparr>buf := FormatSeqs qs @ d # r\<rparr>" qs d r] assms by (simp add: idle_def)
  then show ?thesis
    using nextToken_accept [of s ws b "v' @ d # r" TokenSequences readSequences] assms(1-3) b v
    by (simp add: readExpected_def idle_def)
qed

subsection \<open>Literals\<close>

definition literalHead :: "nat \<Rightarrow> bytes" where
  "literalHead n = CHR ''{'' # fmtNat n @ CHR ''}'' # CRLF"

lemma readLiteral_run:
  assumes "ioErr s = None" "buf s = literalHead n @ r" "n < 4294967296"
  shows "readLiteral limit s = literalData limit n (callCont contReady n (s\<lparr>buf := r\<rparr>))"
proof -
  let ?w = "of_nat n :: u32"
  have u: "unat ?w = n" using assms(3) by (rule unat_of_nat_u32)
  have c: "\<not> isDigit (CHR ''}'')" by (simp add: isDigit_def)
  have "readUint32 (s\<lparr>buf := fmtNat n @ CHR ''}'' # CR # LF # r\<rparr>) = (Inr ?w, s\<lparr>buf := CHR ''}'' # CR # LF # r\<rparr>)"
    using readUint32_run [of "s\<lparr>buf := fmtNat n @ CHR ''}'' # CR # LF # r\<rparr>" ?w "CHR ''}''" "CR # LF # r"] assms u c
    by simp
  then show ?thesis
    using assms u by (simp add: readLiteral_def literalBody_def literalHead_def peekChar_def readChar_def)
qed

lemma callCont_simps [simp]:
  "buf (callCont m n s) = buf s" "ioErr (callCont m n s) = ioErr s" "scanError (callCont m n s) = scanError s"
  "hasLiteral (callCont m n s) = hasLiteral s" "idle (callCont m n s) = idle s" "litFile (callCont m n s) = litFile s"
  "panicked (callCont m n s) = panicked s" "hasContFn (callCont m n s) = hasContFn s" "val (callCont m n s) = val s"
  by (simp_all add: callCont_def idle_def)

lemma contLog_callCont: "contLog (callCont m n s) = (if hasContFn s then contLog s @ [(m, n)] else contLog s)"
  by (simp add: callCont_def)

lemma Next_literal_file:
  assumes "idle s" "hasLiteral s" "buf s = ws @ literalHead (length v) @ v @ r" "spaces ws" "length v < 4294967296"
  shows "nextToken TokenUnknown allowEnd s =
    (True, (callCont contReady (length v) (clear s))\<lparr>buf := r, litFile := v, token := TokenLiteral\<rparr>)"
proof -
  let ?s = "(clear s)\<lparr>buf := literalHead (length v) @ v @ r\<rparr>"
  have "readLiteral 0 ?s = literalData 0 (length v) (callCont contReady (length v) (?s\<lparr>buf := v @ r\<rparr>))"
    using readLiteral_run [of ?s "length v" "v @ r" 0] assms(1,5) by (simp add: idle_def)
  also have "\<dots> = (True, (callCont contReady (length v) (clear s))\<lparr>buf := r, litFile := v\<rparr>)"
    using assms(2) by (auto simp: literalData_def copyN_def callCont_def clear_def)
  finally have r: "readLiteral 0 ?s = \<dots>" .
  obtain h where h: "literalHead (length v) = CHR ''{'' # h" by (simp add: literalHead_def)
  have e: "readExpected TokenUnknown (CHR ''{'') ((clear s)\<lparr>buf := CHR ''{'' # h @ v @ r\<rparr>) =
      (False, (callCont contReady (length v) (clear s))\<lparr>buf := r, litFile := v, token := TokenLiteral\<rparr>)"
    using r h by (simp add: readExpected_def readDefault_def accept_def)
  have "nextToken TokenUnknown allowEnd s =
      checkToken TokenUnknown allowEnd ((callCont contReady (length v) (clear s))\<lparr>buf := r, litFile := v, token := TokenLiteral\<rparr>)"
    using nextToken_run [OF assms(1) _ assms(4) _ e] assms(3) h by simp
  then show ?thesis using assms(1) by (simp add: checkToken_any idle_def)
qed

text \<open>C31: Strings survive the trip through the tokenizer: after any white space, a string without NUL, CR and LF
  that is quoted with backslash escapes is read by \<open>Next(TokenString)\<close> as exactly that string, and a string of at
  most 1024 arbitrary bytes (NULs included) is read so from its literal form; in both cases the scanner stops right behind
  the string, and for the literal the continuation callback has been called with its length.\<close>

theorem string_roundtrip:
  assumes "idle s" "spaces ws"
  shows "(textBytes v \<and> buf s = ws @ quoteString v @ r \<longrightarrow>
      Next TokenString s = (True, (clear s)\<lparr>buf := r, val := v, token := TokenString\<rparr>)) \<and>
    (length v \<le> 1024 \<and> buf s = ws @ literalHead (length v) @ v @ r \<longrightarrow>
      Next TokenString s =
        (True, (callCont contReady (length v) (clear s))\<lparr>buf := r, val := v, token := TokenString\<rparr>))"
proof (intro conjI impI)
  assume "textBytes v \<and> buf s = ws @ quoteString v @ r"
  then show "Next TokenString s = (True, (clear s)\<lparr>buf := r, val := v, token := TokenString\<rparr>)"
    using Next_quoted assms by (simp add: Next_def)
next
  assume a: "length v \<le> 1024 \<and> buf s = ws @ literalHead (length v) @ v @ r"
  let ?s = "(clear s)\<lparr>buf := literalHead (length v) @ v @ r\<rparr>"
  have "readLiteral 1024 ?s = literalData 1024 (length v) (callCont contReady (length v) (?s\<lparr>buf := v @ r\<rparr>))"
    using readLiteral_run [of ?s "length v" "v @ r" 1024] assms(1) a by (simp add: idle_def)
  also have "\<dots> = (True, (callCont contReady (length v) (clear s))\<lparr>buf := r, val := v\<rparr>)"
    using a by (auto simp: literalData_def readFull_def callCont_def)
  finally have r: "readAstring ?s = \<dots>"
    using assms(1) by (simp add: readAstring_def peekChar_def idle_def literalHead_def)
  obtain h where h: "literalHead (length v) = CHR ''{'' # h" by (simp add: literalHead_def)
  show "Next TokenString s =
      (True, (callCont contReady (length v) (clear s))\<lparr>buf := r, val := v, token := TokenString\<rparr>)"
    using nextToken_accept [OF assms(1) _ assms(2), of "CHR ''{''" "h @ v @ r" TokenString readAstring _ False] a r h assms(1)
    by (simp add: Next_def readExpected_def idle_def)
qed

theorem string_roundtrip_witness:
  "Next TokenString (NewScanner (SP # DQ # ''a'' @ [BSL, DQ, DQ, SP]) EOF True False) =
     (True, (NewScanner '' '' EOF True False)\<lparr>val := [CHR ''a'', DQ], token := TokenString\<rparr>) \<and>
   fst (Next TokenString (NewScanner (literalHead (length [NUL]) @ [NUL] @ CRLF) EOF True False))"
  using string_roundtrip [of "NewScanner (SP # DQ # ''a'' @ [BSL, DQ, DQ, SP]) EOF True False" "'' ''" "[CHR ''a'', DQ]" "'' ''"]
    string_roundtrip [of "NewScanner (literalHead (length [NUL]) @ [NUL] @ CRLF) EOF True False" "[]" "[NUL]" CRLF]
  by (simp add: idle_def NewScanner_def textBytes_def quoteString_def clear_def emptyItem_def resetItem_def)

text \<open>The order of a literal's checks: for a literal longer than the limit of \<open>Next(TokenString)\<close> the continuation
  callback invites the client to send the data before the length is looked at; the call then fails with the data left
  in the input, where it is read as commands.\<close>

theorem literal_invited_then_refused:
  assumes "idle s" "spaces ws" "hasContFn s" "buf s = ws @ literalHead n @ r" "1024 < n" "n < 4294967296"
  shows "\<not> fst (Next TokenString s) \<and> buf (snd (Next TokenString s)) = r \<and>
    contLog (snd (Next TokenString s)) = contLog s @ [(contReady, n)] \<and>
    scanError (snd (Next TokenString s)) =
      Some (Errorf ''imapparser: literal length %d is greater than max %d'' [fmtNat n, ''1024''])"
proof -
  let ?s = "(clear s)\<lparr>buf := literalHead n @ r\<rparr>"
  let ?t = "callCont contReady n (?s\<lparr>buf := r\<rparr>)"
  have k: "fmtNat 1024 = ''1024''" by code_simp
  have "readLiteral 1024 ?s = literalData 1024 n ?t"
    using readLiteral_run [of ?s n r 1024] assms by (simp add: idle_def)
  then have r: "readAstring ?s = literalData 1024 n ?t"
    using assms(1) by (simp add: readAstring_def peekChar_def idle_def literalHead_def)
  let ?e = "Errorf ''imapparser: literal length %d is greater than max %d'' [fmtNat n, ''1024'']"
  obtain h where h: "literalHead n = CHR ''{'' # h" by (simp add: literalHead_def)
  have e: "readExpected TokenString (CHR ''{'') ((clear s)\<lparr>buf := CHR ''{'' # h @ r\<rparr>) = (False, setErr ?e ?t)"
    using r h assms(5) by (simp add: readExpected_def accept_def literalData_def k)
  have "Next TokenString s = checkToken TokenString False (setErr ?e ?t)"
    using nextToken_run [OF assms(1) _ assms(2) _ e] assms(4) h by (simp add: Next_def)
  then show ?thesis using assms(3)
    by (simp add: checkToken_def setErr_def clear_def callCont_def)
qed

theorem literal_invited_then_refused_witness:
  "buf (snd (Next TokenString (NewScanner (literalHead 5000 @ ''a LOGOUT'') EOF True True))) = ''a LOGOUT''"
  using literal_invited_then_refused [of "NewScanner (literalHead 5000 @ ''a LOGOUT'') EOF True True" "[]" 5000 "''a LOGOUT''"]
  by (simp add: idle_def NewScanner_def)



text \<open>A number of more than 20 digits is not rejected but cut: \<open>Next(TokenNumber)\<close> yields the value of its first
  20 digits when that fits 64 bits (although the buffer is meant to detect the overflow), having consumed all of them.\<close>

theorem number_truncated:
  assumes "idle s" "buf s = ds @ d # r" "20 \<le> length ds" "\<forall>b\<in>set ds. isDigit b" "\<not> isDigit d" "d \<noteq> NUL"
    "decVal (take 20 ds) < 2 ^ 64"
  shows "Next TokenNumber s = (True, (clear s)\<lparr>buf := d # r, number := decVal (take 20 ds), token := TokenNumber\<rparr>)"
proof -
  obtain b ds' where b: "ds = b # ds'" "isDigit b" using assms(3,4) by (cases ds) auto
  then have b': "b \<notin> {SP, TAB, NUL, CR, LF}" by (auto simp: isDigit_def)
  have "ParseUint (take 20 ds) 64 = Inr (decVal (take 20 ds))"
    using ParseUint_digits [of "take 20 ds" 64] assms(3,4,7) b(1) by (auto dest: in_set_takeD)
  then have "readUint64 ((clear s)\<lparr>buf := ds @ d # r\<rparr>) = (Inr (decVal (take 20 ds)), (clear s)\<lparr>buf := d # r\<rparr>)"
    using readUint64_run [of "(clear s)\<lparr>buf := ds @ d # r\<rparr>" ds d r] assms by (simp add: idle_def)
  then have "readExpected TokenNumber b ((clear s)\<lparr>buf := b # (ds' @ d # r)\<rparr>) =
      (False, (clear s)\<lparr>buf := d # r, number := decVal (take 20 ds), token := TokenNumber\<rparr>)"
    using b(1) by (simp add: readExpected_def acceptNumber_def)
  from nextToken_run [OF assms(1) _ _ b' this, of "[]" False] show ?thesis
    using assms(1,2) b(1) by (simp add: Next_def checkToken_def idle_def)
qed

theorem number_truncated_witness:
  "number (snd (Next TokenNumber (NewScanner ''000000000000000000079 '' EOF True False))) = 7"
  using number_truncated [of "NewScanner ''000000000000000000079 '' EOF True False" "''000000000000000000079''" SP "[]"]
  by (simp add: idle_def NewScanner_def isDigit_def decVal_def digitVal_def)

end
