(* ===== verification/Utf7.thy ===== *)
theory Utf7
  imports Base64
begin

text \<open>
  Modified UTF-7 (\<open>imap/imapparser/utf7mod/utf7mod.go\<close>): the mailbox name encoding of
  IMAP. \<open>AppendDecode\<close> and \<open>AppendEncode\<close> are translated loop by loop; an index out of range
  is the outcome \<open>Panic\<close>. The lemmas show that decoding undoes encoding on every valid UTF-8
  name, and where the decoder panics.
\<close>

definition encodeModB64 :: bytes where
  "encodeModB64 = ''ABCDEFGHIJKLMNOPQRSTUVWXYZabcdefghijklmnopqrstuvwxyz0123456789+,''"

interpretation mod64: b64_alphabet encodeModB64
  by unfold_locales (simp_all add: encodeModB64_def)

definition ErrInvalidUTF7 :: goerr where
  "ErrInvalidUTF7 = ErrNew ''utf7mod: invalid UTF-7''"

definition appendRune :: "bytes \<Rightarrow> nat \<Rightarrow> bytes" where
  "appendRune dst c = dst @ encodeRune c"

definition unit16 :: "byte \<Rightarrow> byte \<Rightarrow> nat" where
  "unit16 a b = bval a * 256 + bval b"

text \<open>The inner loop of \<open>AppendDecode\<close>: the decoded base64 is read as UTF-16BE.\<close>

fun utf16Loop :: "bytes \<Rightarrow> bytes \<Rightarrow> bytes go" where
  "utf16Loop dst [] = Ok dst"
| "utf16Loop dst [a] = Panic ''index out of range''"
| "utf16Loop dst (a # b # scratch) =
     (if isSurrogate (unit16 a b) then
        (case scratch of
           [] \<Rightarrow> Fail ErrInvalidUTF7
         | [c] \<Rightarrow> Panic ''index out of range''
         | c # d # scratch' \<Rightarrow>
             utf16Loop (appendRune dst (decodeSurrogates (unit16 a b) (unit16 c d))) scratch')
      else utf16Loop (appendRune dst (unit16 a b)) scratch)"

function AppendDecode :: "bytes \<Rightarrow> bytes \<Rightarrow> bytes go" where
  "AppendDecode dst src =
     (case src of
        [] \<Rightarrow> Ok dst
      | c # src1 \<Rightarrow>
          if c \<noteq> CHR ''&'' then AppendDecode (dst @ [c]) src1
          else (case IndexByte src1 (CHR ''-'') of
              None \<Rightarrow> Fail ErrInvalidUTF7
            | Some i \<Rightarrow>
                if i = 0 then AppendDecode (dst @ ''&'') (drop 1 src1)
                else (case b64Decode encodeModB64 False (take i src1) of
                    None \<Rightarrow> Fail (WrapErr ''utf7mod: decode: %v'' (ErrNew ''illegal base64 data''))
                  | Some scratch \<Rightarrow>
                      if length scratch mod 1 = 1 then Fail ErrInvalidUTF7
                      else (case utf16Loop dst scratch of
                          Ok dst' \<Rightarrow> AppendDecode dst' (drop (i + 1) src1)
                        | Fail e \<Rightarrow> Fail e
                        | Panic p \<Rightarrow> Panic p))))"
  by pat_completeness auto
termination
  by (relation "measure (\<lambda>(dst, src). length src)") auto

declare AppendDecode.simps [simp del]

text \<open>The loop of \<open>AppendEncode\<close> that collects a run of non-ASCII runes as UTF-16BE.\<close>

definition unitBytes :: "nat \<Rightarrow> bytes" where
  "unitBytes r = [char_of (r div 256), char_of (r mod 256)]"

function encodeRun :: "bytes \<Rightarrow> bytes \<Rightarrow> bytes \<times> bytes" where
  "encodeRun scratch src =
     (if src = [] then (scratch, src)
      else let (r, sz) = decodeRune src in
        if r < 0x80 then (scratch, src)
        else let (r1, r2) = encodeSurrogates r in
          if r1 \<noteq> RuneError then encodeRun (scratch @ unitBytes r1 @ unitBytes r2) (drop sz src)
          else encodeRun (scratch @ unitBytes r) (drop sz src))"
  by pat_completeness auto
termination
proof (relation "measure (\<lambda>(scratch, src). length src)", goal_cases)
  case 1
  then show ?case by simp
next
  case (2 scratch src x r sz)
  then have "sz = snd (decodeRune src)" by (metis snd_conv)
  with 2 show ?case using decodeRune_width [of src] by (cases src) auto
next
  case (3 scratch src x r sz)
  then have "sz = snd (decodeRune src)" by (metis snd_conv)
  with 3 show ?case using decodeRune_width [of src] by (cases src) auto
qed

declare encodeRun.simps [simp del]

lemma encodeRun_shrinks: "length (snd (encodeRun scratch src)) \<le> length src"
proof (induction scratch src rule: encodeRun.induct)
  case (1 scratch src)
  then show ?case
    by (subst encodeRun.simps) (fastforce simp: Let_def split: prod.splits intro: le_trans [OF _ diff_le_self])
qed

lemma encodeRun_progress:
  assumes "src \<noteq> []" "0x80 \<le> fst (decodeRune src)"
  shows "length (snd (encodeRun scratch src)) < length src"
proof -
  have w: "0 < snd (decodeRune src)" using assms decodeRune_width by simp
  have step: "length (snd (encodeRun s (drop (snd (decodeRune src)) src))) < length src" for s
    using encodeRun_shrinks [of s "drop (snd (decodeRune src)) src"] w assms(1)
    by (cases src) (auto simp: less_Suc_eq_le)
  show ?thesis using assms step
    by (subst encodeRun.simps) (auto simp: Let_def split: prod.splits)
qed

function AppendEncode :: "bytes \<Rightarrow> bytes \<Rightarrow> bytes" where
  "AppendEncode dst src =
     (if src = [] then dst
      else let r = fst (decodeRune src) in
        if r = bval (CHR ''&'') then AppendEncode (dst @ ''&-'') (drop 1 src)
        else if r < 0x80 then AppendEncode (dst @ [char_of r]) (drop 1 src)
        else let (scratch, src') = encodeRun [] src in
          AppendEncode (dst @ ''&'' @ b64Encode encodeModB64 False scratch @ ''-'')
            src')"
  by pat_completeness auto
termination
proof (relation "measure (\<lambda>(dst, src). length src)", goal_cases)
  case (4 dst src r pr scratch src')
  then have "src' = snd (encodeRun [] src)" by (metis snd_conv)
  with 4 show ?case using encodeRun_progress [of src "[]"] by (simp add: linorder_not_less)
qed auto

declare AppendEncode.simps [simp del]

subsection \<open>Round trip\<close>

definition units :: "nat \<Rightarrow> bytes" where
  "units r = (if 0x10000 \<le> r then unitBytes (fst (encodeSurrogates r)) @ unitBytes (snd (encodeSurrogates r))
     else unitBytes r)"

lemma unit16_unitBytes: "u < 65536 \<Longrightarrow> unitBytes u = [a, b] \<Longrightarrow> unit16 a b = u"
  by (auto simp: unitBytes_def unit16_def less_mult_imp_div_less)

lemma utf16Loop_unit:
  "u < 65536 \<Longrightarrow> \<not> isSurrogate u \<Longrightarrow> utf16Loop dst (unitBytes u @ rest) = utf16Loop (appendRune dst u) rest"
  using unit16_unitBytes [of u] by (auto simp: unitBytes_def)

lemma utf16Loop_pair:
  "h < 65536 \<Longrightarrow> l < 65536 \<Longrightarrow> isSurrogate h \<Longrightarrow>
   utf16Loop dst (unitBytes h @ unitBytes l @ rest) = utf16Loop (appendRune dst (decodeSurrogates h l)) rest"
  using unit16_unitBytes [of h] unit16_unitBytes [of l] by (auto simp: unitBytes_def)

lemma utf16Loop_units:
  assumes "validRune r"
  shows "utf16Loop dst (units r @ rest) = utf16Loop (dst @ encodeRune r) rest"
proof (cases "0x10000 \<le> r")
  case True
  with assms have "r \<le> 0x10FFFF" by (simp add: validRune_def)
  then show ?thesis using decode_encodeSurrogates [of r] True
    by (auto simp: units_def utf16Loop_pair appendRune_def split: prod.splits)
next
  case False
  with assms show ?thesis by (simp add: units_def utf16Loop_unit appendRune_def validRune_def)
qed

lemma utf16Loop_run:
  "(\<And>r. r \<in> set rs \<Longrightarrow> validRune r) \<Longrightarrow> utf16Loop dst (concat (map units rs)) = Ok (dst @ utf8 rs)"
  by (induction rs arbitrary: dst) (simp_all add: utf16Loop_units)

lemma encodeRun_stop:
  "rs = [] \<or> hd rs < 0x80 \<Longrightarrow> (\<And>r. r \<in> set rs \<Longrightarrow> validRune r) \<Longrightarrow> encodeRun acc (utf8 rs) = (acc, utf8 rs)"
  by (subst encodeRun.simps) (cases rs; auto simp: decode_encodeRune Let_def)

lemma encodeRun_step:
  assumes "validRune r" "0x80 \<le> r"
  shows "encodeRun acc (encodeRune r @ rest) = encodeRun (acc @ units r) rest"
proof (cases "0x10000 \<le> r")
  case True
  with assms have "r \<le> 0x10FFFF" by (simp add: validRune_def)
  then show ?thesis using assms True decode_encodeSurrogates [of r]
    by (subst encodeRun.simps) (auto simp: decode_encodeRune Let_def units_def split: prod.splits)
next
  case False
  then have "encodeSurrogates r = (RuneError, RuneError)" by (simp add: encodeSurrogates_def)
  with assms False show ?thesis
    by (subst encodeRun.simps) (simp add: decode_encodeRune Let_def units_def)
qed

lemma encodeRun_utf8:
  "(\<And>r. r \<in> set rs \<Longrightarrow> validRune r) \<Longrightarrow>
   encodeRun acc (utf8 rs) =
     (acc @ concat (map units (takeWhile (\<lambda>r. 0x80 \<le> r) rs)), utf8 (dropWhile (\<lambda>r. 0x80 \<le> r) rs))"
proof (induction rs arbitrary: acc)
  case Nil
  then show ?case using encodeRun_stop [of "[]"] by simp
next
  case (Cons r rs)
  show ?case
  proof (cases "0x80 \<le> r")
    case True
    with Cons show ?thesis by (simp add: encodeRun_step)
  next
    case False
    with Cons.prems encodeRun_stop [of "r # rs" acc] show ?thesis by simp
  qed
qed

lemma AppendEncode_amp: "AppendEncode dst (CHR ''&'' # src) = AppendEncode (dst @ ''&-'') src"
  by (subst AppendEncode.simps) (simp add: decodeRune_def)

lemma AppendEncode_ascii:
  "(r::nat) < 0x80 \<Longrightarrow> r \<noteq> 38 \<Longrightarrow> AppendEncode dst (char_of r # src) = AppendEncode (dst @ [char_of r]) src"
  by (subst AppendEncode.simps) (simp add: decodeRune_def)

lemma AppendEncode_run:
  assumes "validRune r" "0x80 \<le> r" "encodeRun [] (encodeRune r @ src) = (scratch, src')"
  shows "AppendEncode dst (encodeRune r @ src) =
    AppendEncode (dst @ ''&'' @ b64Encode encodeModB64 False scratch @ ''-'') src'"
  using assms by (subst AppendEncode.simps) (simp add: decode_encodeRune)

lemma AppendDecode_amp: "AppendDecode out (CHR ''&'' # CHR ''-'' # src) = AppendDecode (out @ ''&'') src"
  by (subst AppendDecode.simps) simp

lemma AppendDecode_char: "c \<noteq> CHR ''&'' \<Longrightarrow> AppendDecode out (c # src) = AppendDecode (out @ [c]) src"
  by (subst AppendDecode.simps) simp

lemma AppendDecode_run:
  assumes "scratch \<noteq> []" "utf16Loop out scratch = Ok out'"
  shows "AppendDecode out (CHR ''&'' # b64Encode encodeModB64 False scratch @ CHR ''-'' # src) = AppendDecode out' src"
proof -
  let ?b = "b64Encode encodeModB64 False scratch"
  have "IndexByte (?b @ CHR ''-'' # src) (CHR ''-'') = Some (length ?b)"
    using mod64.encode_clean by (intro IndexByte_append) blast
  then show ?thesis using assms by (subst AppendDecode.simps) (simp add: mod64.decode_encode)
qed

lemma char_of_amp: "char_of (38::nat) = CHR ''&''"
  by code_simp

lemma char_of_amp_iff: "(r::nat) < 0x80 \<Longrightarrow> char_of r = CHR ''&'' \<longleftrightarrow> r = 38"
  using bval_char_of [of r] char_of_amp by (auto simp del: of_char_of)

lemma encode_decode_ex:
  "(\<And>r. r \<in> set rs \<Longrightarrow> validRune r) \<Longrightarrow>
   \<exists>e. AppendEncode dst (utf8 rs) = dst @ e \<and> (\<forall>out. AppendDecode out e = Ok (out @ utf8 rs))"
proof (induction "length rs" arbitrary: rs dst rule: less_induct)
  case less
  show ?case
  proof (cases rs)
    case Nil
    then show ?thesis by (auto simp: AppendEncode.simps AppendDecode.simps)
  next
    case (Cons r rs')
    have v: "validRune r" "\<And>x. x \<in> set rs' \<Longrightarrow> validRune x" using less.prems Cons by auto
    have ih: "\<exists>e. AppendEncode d (utf8 rs') = d @ e \<and> (\<forall>out. AppendDecode out e = Ok (out @ utf8 rs'))" for d
      using less.hyps [of rs' d] Cons v(2) by simp
    consider "r = 38" | "r < 0x80" "r \<noteq> 38" | "0x80 \<le> r" by linarith
    then show ?thesis
    proof cases
      case 1
      obtain e where e: "AppendEncode (dst @ ''&-'') (utf8 rs') = (dst @ ''&-'') @ e"
          "\<And>out. AppendDecode out e = Ok (out @ utf8 rs')"
        using ih [of "dst @ ''&-''"] by blast
      show ?thesis using 1 e Cons
        by (intro exI [of _ "''&-'' @ e"])
          (simp add: encodeRune_ascii AppendEncode_amp AppendDecode_amp char_of_amp)
    next
      case 2
      then have "char_of r \<noteq> CHR ''&''" by (simp add: char_of_amp_iff)
      then show ?thesis using 2 ih [of "dst @ [char_of r]"] Cons
        by (force simp: AppendEncode_ascii AppendDecode_char encodeRune_ascii)
    next
      case 3
      define run rest where "run = takeWhile (\<lambda>r. 0x80 \<le> r) rs" and "rest = dropWhile (\<lambda>r. 0x80 \<le> r) rs"
      have rs: "utf8 rs = utf8 run @ utf8 rest" by (metis run_def rest_def takeWhile_dropWhile_id utf8_simps(3))
      have vr: "\<And>x. x \<in> set run \<Longrightarrow> validRune x" "\<And>x. x \<in> set rest \<Longrightarrow> validRune x"
        using less.prems by (auto simp: run_def rest_def dest: set_takeWhileD set_dropWhileD)
      have "length rest < length rs" using 3 Cons by (simp add: rest_def length_dropWhile_le less_Suc_eq_le)
      then obtain e where e: "AppendEncode (dst @ ''&'' @ b64Encode encodeModB64 False (concat (map units run)) @ ''-'') (utf8 rest)
          = (dst @ ''&'' @ b64Encode encodeModB64 False (concat (map units run)) @ ''-'') @ e"
          "\<And>out. AppendDecode out e = Ok (out @ utf8 rest)"
        using less.hyps [of rest] vr(2) by blast
      have ne: "concat (map units run) \<noteq> []" using 3 Cons by (auto simp: run_def units_def unitBytes_def)
      have "encodeRun [] (utf8 rs) = (concat (map units run), utf8 rest)"
        using encodeRun_utf8 [of rs "[]"] less.prems by (simp add: run_def rest_def)
      then have "AppendEncode dst (utf8 rs) = dst @ ''&'' @ b64Encode encodeModB64 False (concat (map units run)) @ ''-'' @ e"
        using AppendEncode_run [of r "utf8 rs'"] v 3 Cons e(1) by simp
      moreover have "AppendDecode out (''&'' @ b64Encode encodeModB64 False (concat (map units run)) @ ''-'' @ e) = Ok (out @ utf8 rs)" for out
        using AppendDecode_run [OF ne utf16Loop_run] vr(1) e(2) rs by simp
      ultimately show ?thesis by blast
    qed
  qed
qed

text \<open>C33: Modified UTF-7 decoding undoes encoding: for every mailbox name that is valid UTF-8
  (the encoding of Unicode scalar values, \<open>&\<close> and non-ASCII runs included), \<open>AppendDecode\<close> of
  \<open>AppendEncode\<close> of the name returns the name, with no error and no panic.\<close>

theorem utf7_roundtrip:
  assumes "\<forall>r\<in>set rs. validRune r"
  shows "AppendDecode [] (AppendEncode [] (utf8 rs)) = Ok (utf8 rs)"
  using encode_decode_ex [of rs "[]"] assms by auto

theorem utf7_roundtrip_witness:
  "AppendDecode [] (AppendEncode [] (utf8 [38, 0x65E5, 0x1F600, 65])) = Ok (utf8 [38, 0x65E5, 0x1F600, 65])"
  by (rule utf7_roundtrip) (simp add: validRune_def isSurrogate_def)

text \<open>The decoder panics on user input: the check for an odd number of UTF-16 bytes is
  \<open>len(scratch)%1 == 1\<close>, which never holds, so every name with a shifted run of two base64
  symbols (one decoded byte) reads past the end of \<open>scratch\<close> instead of being refused.\<close>

theorem utf7_odd_run_panics:
  assumes "a \<in> set encodeModB64" "b \<in> set encodeModB64"
  shows "AppendDecode dst (CHR ''&'' # a # b # CHR ''-'' # rest) = Panic ''index out of range''"
proof -
  have ab: "a \<noteq> CHR ''-''" "b \<noteq> CHR ''-''" "a \<noteq> CR" "a \<noteq> LF" "b \<noteq> CR" "b \<noteq> LF"
    using assms mod64.no_special by metis+
  obtain i j where "IndexByte encodeModB64 a = Some i" "IndexByte encodeModB64 b = Some j"
    using assms by (metis IndexByte_None_iff option.exhaust)
  then show ?thesis using ab by (subst AppendDecode.simps) (simp add: b64Decode_def)
qed

theorem utf7_odd_run_panics_witness: "AppendDecode [] ''&AA-'' = Panic ''index out of range''"
  using utf7_odd_run_panics [of "CHR ''A''" "CHR ''A''" "[]" "[]"] by (simp add: encodeModB64_def)

end
