(* ===== verification/ImapParser.thy ===== *)
theory ImapParser
  imports ImapLexemes Utf7
begin

text \<open>
  The IMAP command parser (\<open>imap/imapparser/parser.go\<close>), one definition per command of
  \<open>ParseCommand\<close>.

  A method of \<open>*Parser\<close> maps the parser to its result and the new parser. The body of the command
  switch either returns (\<open>Done\<close>, with the error if there is one) or goes on to the check for the
  end of the line (\<open>More\<close>). The loops recurse on the unread input, which every successful \<open>Next\<close>
  shortens; the search key parser, whose recursive calls are nested, takes fuel, and the flag loop
  of APPEND, which need not end, is a partial function into \<open>option\<close> (\<open>None\<close>: it does not return).

  The command's literal file is the scanner's (field \<open>litFile\<close> there); \<open>pCmdLit\<close> tells whether the
  command's pointer to it is set. A panic (of the UTF-7 decoder, or a write through an unset literal
  pointer) sets the scanner's \<open>panicked\<close> mark, and \<open>ParseCommand\<close> then reports \<open>Panic\<close>.
\<close>

subsection \<open>State\<close>

record parser =
  pScanner :: scanner
  pMode :: Mode
  pCommand :: Command
  pCmdLit :: bool

definition NewParser :: "scanner \<Rightarrow> Mode \<Rightarrow> parser" where
  "NewParser s m = \<lparr>pScanner = s, pMode = m, pCommand = emptyCommand, pCmdLit = False\<rparr>"

datatype outcome = Done "goerr option" | More

abbreviation errf :: "string \<Rightarrow> goerr" where
  "errf msg \<equiv> Errorf msg []"

definition updCmd :: "(Command \<Rightarrow> Command) \<Rightarrow> parser \<Rightarrow> parser" where
  "updCmd f p = p\<lparr>pCommand := f (pCommand p)\<rparr>"

definition pNext :: "Token \<Rightarrow> parser \<Rightarrow> bool \<times> parser" where
  "pNext t p = (let (ok, s) = Next t (pScanner p) in (ok, p\<lparr>pScanner := s\<rparr>))"

definition pNextOrEnd :: "Token \<Rightarrow> parser \<Rightarrow> bool \<times> parser" where
  "pNextOrEnd t p = (let (ok, s) = NextOrEnd t (pScanner p) in (ok, p\<lparr>pScanner := s\<rparr>))"

abbreviation pTok :: "parser \<Rightarrow> Token" where "pTok p \<equiv> token (pScanner p)"
abbreviation pVal :: "parser \<Rightarrow> bytes" where "pVal p \<equiv> val (pScanner p)"
abbreviation pSeqs :: "parser \<Rightarrow> SeqRange list" where "pSeqs p \<equiv> seqs (pScanner p)"
abbreviation pNum :: "parser \<Rightarrow> nat" where "pNum p \<equiv> number (pScanner p)"
abbreviation pBuf :: "parser \<Rightarrow> bytes" where "pBuf p \<equiv> buf (pScanner p)"

text \<open>\<open>asciiUpper(p.Scanner.Value)\<close> changes the bytes in place.\<close>

definition upperVal :: "parser \<Rightarrow> parser" where
  "upperVal p = p\<lparr>pScanner := (pScanner p)\<lparr>val := asciiUpper (pVal p)\<rparr>\<rparr>"

definition setPanic :: "parser \<Rightarrow> parser" where
  "setPanic p = p\<lparr>pScanner := (pScanner p)\<lparr>panicked := True\<rparr>\<rparr>"

text \<open>\<open>p.error\<close>: the scanner's error, if there is one, else a parse error.\<close>

definition pError :: "string \<Rightarrow> parser \<Rightarrow> goerr" where
  "pError errctx p = (case scanError (pScanner p) of Some e \<Rightarrow> e | None \<Rightarrow> ParseError errctx)"

text \<open>Conversions of the scanner's \<open>uint64\<close>.\<close>

definition toInt64 :: "nat \<Rightarrow> int" where
  "toInt64 n = (if n < 2 ^ 63 then int n else int n - 2 ^ 64)"

subsection \<open>Progress\<close>

lemma pNext_le: "pNext t p = (ok, q) \<Longrightarrow> length (pBuf q) \<le> length (pBuf p)"
  using adv_length [OF nextToken_adv [of "pScanner p" t False]]
  by (auto simp: pNext_def Next_def split: prod.splits)

lemma pNext_less: "pNext t p = (True, q) \<Longrightarrow> length (pBuf q) < length (pBuf p)"
  using nextToken_success [of t False "pScanner p" "pScanner q"]
  by (auto simp: pNext_def Next_def split: prod.splits)

lemma pNextOrEnd_le: "pNextOrEnd t p = (ok, q) \<Longrightarrow> length (pBuf q) \<le> length (pBuf p)"
  using adv_length [OF nextToken_adv [of "pScanner p" t True]]
  by (auto simp: pNextOrEnd_def NextOrEnd_def split: prod.splits)

lemma pNextOrEnd_less: "pNextOrEnd t p = (True, q) \<Longrightarrow> length (pBuf q) < length (pBuf p)"
  using nextToken_success [of t True "pScanner p" "pScanner q"]
  by (auto simp: pNextOrEnd_def NextOrEnd_def split: prod.splits)

lemma pNext_tok: "pNext t p = (ok, q) \<Longrightarrow> pTok q \<noteq> TokenUnknown \<Longrightarrow> ok"
  using nextToken_fail [of t False "pScanner p" "pScanner q"]
  by (cases ok) (auto simp: pNext_def Next_def split: prod.splits)

lemma pNext_tok_less: "pNext t p = (ok, q) \<Longrightarrow> pTok q \<noteq> TokenUnknown \<Longrightarrow> length (pBuf q) < length (pBuf p)"
  using pNext_tok [of t p ok q] pNext_less [of t p q] by simp

lemmas progress_sym =
  pNext_le [OF sym] pNext_less [OF sym] pNextOrEnd_le [OF sym] pNextOrEnd_less [OF sym] pNext_tok_less [OF sym]

lemma updCmd_simps [simp]:
  "pScanner (updCmd f p) = pScanner p" "pMode (updCmd f p) = pMode p" "pCommand (updCmd f p) = f (pCommand p)"
  "pCmdLit (updCmd f p) = pCmdLit p"
  by (simp_all add: updCmd_def)

lemma upperVal_simps [simp]:
  "pBuf (upperVal p) = pBuf p" "pTok (upperVal p) = pTok p" "pSeqs (upperVal p) = pSeqs p"
  "pCommand (upperVal p) = pCommand p" "pMode (upperVal p) = pMode p" "pCmdLit (upperVal p) = pCmdLit p"
  by (simp_all add: upperVal_def)

lemma setPanic_simps [simp]: "pBuf (setPanic p) = pBuf p" "panicked (pScanner (setPanic p))"
  by (simp_all add: setPanic_def)

subsection \<open>Mailbox names\<close>

text \<open>A value of five bytes equals INBOX under \<open>strings.EqualFold\<close> iff it does in ASCII. The name is
  appended to the command's mailbox field.\<close>

definition parseMailbox :: "parser \<Rightarrow> (bool \<times> goerr option) \<times> parser" where
  "parseMailbox p =
     (let (ok, p1) = pNext TokenString p in
      if \<not> ok then ((False, None), p1)
      else if asciiUpper (pVal p1) = ''INBOX'' then
        ((True, None), updCmd (\<lambda>c. c\<lparr>cmdMailbox := cmdMailbox c @ ''INBOX''\<rparr>) p1)
      else case AppendDecode (cmdMailbox (pCommand p1)) (pVal p1) of
        Ok m \<Rightarrow> ((True, None), updCmd (\<lambda>c. c\<lparr>cmdMailbox := m\<rparr>) p1)
      | Fail e \<Rightarrow> ((False, Some e), updCmd (\<lambda>c. c\<lparr>cmdMailbox := []\<rparr>) p1)
      | Panic msg \<Rightarrow> ((False, None), setPanic p1))"

lemma parseMailbox_le: "parseMailbox p = (r, q) \<Longrightarrow> length (pBuf q) \<le> length (pBuf p)"
  by (auto simp: parseMailbox_def split: prod.splits if_splits go.splits dest: pNext_le)

text \<open>The error messages around it.\<close>

definition mailboxArg :: "string \<Rightarrow> string \<Rightarrow> parser \<Rightarrow> outcome \<times> parser" where
  "mailboxArg bad missing p =
     (let ((ok, err), p1) = parseMailbox p in
      case err of Some e \<Rightarrow> (Done (Some (WrapErr bad e)), p1)
      | None \<Rightarrow> (if \<not> ok then (Done (Some (errf missing)), p1) else (More, p1)))"

subsection \<open>Commands without a list\<close>

definition parseCompress :: "parser \<Rightarrow> outcome \<times> parser" where
  "parseCompress p =
     (let (ok, p1) = pNext TokenAtom p in
      if \<not> ok then (Done (Some (errf ''COMPRESS missing mechanism name'')), p1) else
      let p2 = upperVal p1 in
      if pVal p2 \<noteq> ''DEFLATE'' then (Done (Some (Errorf ''COMPRESS unsupported mechanism: %q'' [pVal p2])), p2)
      else (More, p2))"

definition parseIdle :: "parser \<Rightarrow> outcome \<times> parser" where
  "parseIdle p = (More, p\<lparr>pScanner := callCont (''+ idling'' @ CRLF) 0 (pScanner p)\<rparr>)"

text \<open>\<open>authorize-id NUL username NUL password\<close> of the PLAIN mechanism.\<close>

definition plainCredentials :: "bytes \<Rightarrow> goerr + (bytes \<times> bytes)" where
  "plainCredentials dst =
     (if length dst < 4 then Inl (errf ''AUTHENTICATE PLAIN credentials too short'')
      else case IndexByte dst NUL of
        None \<Rightarrow> Inl (errf ''AUTHENTICATE PLAIN missing first dividing NUL'')
      | Some i \<Rightarrow>
        (let dst = drop (i + 1) dst in
         case IndexByte dst NUL of
           None \<Rightarrow> Inl (errf ''AUTHENTICATE PLAIN missing second dividing NUL'')
         | Some i \<Rightarrow>
           if i = 0 then Inl (errf ''AUTHENTICATE PLAIN no username'')
           else if i = length dst - 1 then Inl (errf ''AUTHENTICATE PLAIN no password'')
           else Inr (take i dst, drop (i + 1) dst)))"

definition parseAuthenticate :: "parser \<Rightarrow> outcome \<times> parser" where
  "parseAuthenticate p =
     (let (ok, p1) = pNext TokenString p in
      if \<not> ok then (Done (Some (errf ''AUTHENTICATE missing mechanism'')), p1) else
      if pVal p1 \<noteq> ''PLAIN'' then (Done (Some (Errorf ''AUTHENTICATE unsupported mechanism: %q'' [pVal p1])), p1) else
      let (ok, p2) = pNext TokenEnd p1 in
      if \<not> ok then (Done (Some (pError ''AUTHENTICATE has trailing argument'' p2)), p2) else
      let p3 = p2\<lparr>pScanner := callCont (''+ '' @ CRLF) 0 (pScanner p2)\<rparr>;
          (ok, p4) = pNext TokenString p3 in
      if \<not> ok then (Done (Some (errf ''AUTHENTICATE credential is not a string'')), p4) else
      case b64Decode stdAlphabet True (pVal p4) of
        None \<Rightarrow> (Done (Some (errf ''AUTHENTICATE PLAIN invalid base64: %v'')), p4)
      | Some dst \<Rightarrow>
        (case plainCredentials dst of
           Inl e \<Rightarrow> (Done (Some e), p4)
         | Inr (u, w) \<Rightarrow>
             (More, updCmd (\<lambda>c. c\<lparr>cmdUsername := cmdUsername c @ u, cmdPassword := cmdPassword c @ w\<rparr>) p4)))"

definition parseLogin :: "parser \<Rightarrow> outcome \<times> parser" where
  "parseLogin p =
     (let (ok, p1) = pNext TokenString p in
      if \<not> ok then (Done (Some (errf ''LOGIN missing username'')), p1) else
      let p2 = updCmd (\<lambda>c. c\<lparr>cmdUsername := cmdUsername c @ pVal p1\<rparr>) p1;
          (ok, p3) = pNext TokenString p2 in
      if \<not> ok then (Done (Some (errf ''LOGIN missing password'')), p3) else
      (More, updCmd (\<lambda>c. c\<lparr>cmdPassword := cmdPassword c @ pVal p3\<rparr>) p3))"

definition parseOneMailbox :: "parser \<Rightarrow> outcome \<times> parser" where
  "parseOneMailbox p =
     (let n = cmdName (pCommand p) in
      mailboxArg (n @ '' bad mailbox name: %v'') (n @ '' missing mailbox name'') p)"

definition parseRename :: "parser \<Rightarrow> outcome \<times> parser" where
  "parseRename p =
     (let (r, p1) = mailboxArg ''RENAME bad existing mailbox name: %v'' ''RENAME missing existing mailbox name'' p in
      if r \<noteq> More then (r, p1) else
      let p2 = updCmd (\<lambda>c. c\<lparr>cmdRenameOld := cmdRenameOld c @ cmdMailbox c, cmdMailbox := []\<rparr>) p1;
          (r, p3) = mailboxArg ''RENAME bad new mailbox name: %v'' ''RENAME missing new mailbox name'' p2 in
      if r \<noteq> More then (r, p3) else
      (More, updCmd (\<lambda>c. c\<lparr>cmdRenameNew := cmdRenameNew c @ cmdMailbox c, cmdMailbox := []\<rparr>) p3))"

definition parseExpunge :: "parser \<Rightarrow> outcome \<times> parser" where
  "parseExpunge p =
     (if \<not> cmdUID (pCommand p) then (More, p) else
      let (ok, p1) = pNext TokenSequences p in
      if \<not> ok then (Done (Some (errf ''UID EXPUNGE missing sequences'')), p1)
      else (More, updCmd (\<lambda>c. c\<lparr>cmdSequences := cmdSequences c @ pSeqs p1\<rparr>) p1))"

definition parseCopy :: "parser \<Rightarrow> outcome \<times> parser" where
  "parseCopy p =
     (let (ok, p1) = pNext TokenSequences p; n = cmdName (pCommand p) in
      if \<not> ok then (Done (Some (errf ''COPY missing sequences'')), p1) else
      mailboxArg (n @ '' mailbox name: %v'') (n @ ''missing mailbox name'')
        (updCmd (\<lambda>c. c\<lparr>cmdSequences := cmdSequences c @ pSeqs p1\<rparr>) p1))"

subsection \<open>ID, ENABLE, LIST, STATUS\<close>

function idLoop :: "parser \<Rightarrow> outcome \<times> parser" where
  "idLoop p =
     (let (_, p1) = pNext TokenUnknown p in
      if pTok p1 = TokenListEnd then (More, p1)
      else if pTok p1 = TokenString \<or> pTok p1 = TokenAtom then
        (let ps = cmdParams (pCommand p1); nilVal = (pVal p1 = ''NIL'') in
         if nilVal \<and> even (length ps) then (Done (Some (errf ''ID NIL field name'')), p1) else
         let p2 = updCmd (\<lambda>c. c\<lparr>cmdParams := cmdParams c @ [if nilVal then [] else pVal p1]\<rparr>) p1 in
         if 100 < length (cmdParams (pCommand p2)) then (Done (Some (errf ''too many ID parameters'')), p2)
         else idLoop p2)
      else (Done (Some (Errorf ''ID unexpected parameter token %v'' [tokenString (pTok p1)])), p1))"
  by auto
termination
  by (relation "measure (\<lambda>p. length (pBuf p))") (auto dest: progress_sym)

declare idLoop.simps [simp del]

definition parseID :: "parser \<Rightarrow> outcome \<times> parser" where
  "parseID p =
     (let (_, p1) = pNext TokenUnknown p;
          (r, p2) = (if pTok p1 = TokenListStart then idLoop p1
                     else if pTok p1 \<noteq> TokenAtom \<or> pVal p1 \<noteq> ''NIL''
                     then (Done (Some (Errorf ''ID missing parameter list, got %v'' [tokenString (pTok p1)])), p1)
                     else (More, p1)) in
      if r \<noteq> More then (r, p2)
      else if odd (length (cmdParams (pCommand p2))) then (Done (Some (errf ''ID parameter is missing value'')), p2)
      else (More, p2))"

function parseEnable :: "parser \<Rightarrow> outcome \<times> parser" where
  "parseEnable p =
     (let (ok, p1) = pNextOrEnd TokenAtom p in
      if \<not> ok then (More, p1)
      else if pTok p1 = TokenEnd then
        (if cmdParams (pCommand p1) = [] then (Done (Some (errf ''ENABLE missing required argument'')), p1)
         else (Done None, p1))
      else parseEnable (updCmd (\<lambda>c. c\<lparr>cmdParams := cmdParams c @ [pVal p1]\<rparr>) p1))"
  by auto
termination
  by (relation "measure (\<lambda>p. length (pBuf p))") (auto dest: progress_sym)

declare parseEnable.simps [simp del]

text \<open>The two option lists of LIST (the selection options and, after RETURN, the return options) are the same loop up to
  the option names, the error messages and the field.\<close>

function optionLoop :: "string list \<Rightarrow> goerr \<Rightarrow> goerr \<Rightarrow> (string \<Rightarrow> Command \<Rightarrow> Command) \<Rightarrow> parser \<Rightarrow> outcome \<times> parser" where
  "optionLoop names notString unknown add p =
     (let (ok, p1) = pNext TokenListEnd p in
      if ok then (More, p1) else
      let (ok, p2) = pNext TokenString p1 in
      if \<not> ok then (Done (Some notString), p2)
      else if pVal p2 \<notin> set names then (Done (Some unknown), p2)
      else optionLoop names notString unknown add (updCmd (add (pVal p2)) p2))"
  by auto
termination
proof (relation "measure (\<lambda>(_, _, _, _, p). length (pBuf p))", simp)
  fix names :: "string list" and e1 e2 :: goerr and add :: "string \<Rightarrow> Command \<Rightarrow> Command" and p x ok p1 y ok2 p2
  assume "x = pNext TokenListEnd p" "(ok, p1) = x" "y = pNext TokenString p1" "(ok2, p2) = y" "\<not> \<not> ok2"
  then have "length (pBuf p2) < length (pBuf p)"
    using pNext_le [of TokenListEnd p ok p1] pNext_less [of TokenString p1 p2] by simp
  then show "((names, e1, e2, add, updCmd (add (pVal p2)) p2), (names, e1, e2, add, p)) \<in> measure (\<lambda>(_, _, _, _, p). length (pBuf p))"
    by simp
qed

declare optionLoop.simps [simp del]

definition addSelectOption :: "string \<Rightarrow> Command \<Rightarrow> Command" where
  "addSelectOption o1 c = c\<lparr>cmdList := (cmdList c)\<lparr>selectOptions := selectOptions (cmdList c) @ [o1]\<rparr>\<rparr>"

definition addReturnOption :: "string \<Rightarrow> Command \<Rightarrow> Command" where
  "addReturnOption o1 c = c\<lparr>cmdList := (cmdList c)\<lparr>returnOptions := returnOptions (cmdList c) @ [o1]\<rparr>\<rparr>"

definition listReturn :: "parser \<Rightarrow> outcome \<times> parser" where
  "listReturn p =
     (let (ok, p1) = pNextOrEnd TokenAtom p in
      if \<not> ok then (More, p1)
      else if pTok p1 = TokenEnd then (Done None, p1)
      else if pVal p1 \<noteq> ''RETURN'' then (Done (Some (ErrNew ''LIST expecting CRLF or RETURN options'')), p1) else
      let (ok, p2) = pNext TokenListStart p1 in
      if \<not> ok then (Done (Some (ErrNew ''LIST RETURN options missing left-paren'')), p2) else
      optionLoop [''SUBSCRIBED'', ''CHILDREN'', ''SPECIAL-USE''] (ErrNew ''LIST RETURN invalid option'')
        (errf ''LIST bad RETURN option'') addReturnOption p2)"

definition parseList :: "parser \<Rightarrow> outcome \<times> parser" where
  "parseList p =
     (let (ok, p1) = pNext TokenListStart p; n = cmdName (pCommand p);
          (r, p2) = (if ok then optionLoop [''SUBSCRIBED'', ''REMOTE'', ''RECURSIVEMATCH'', ''SPECIAL-USE'']
                             (ErrNew ''LIST bad selection option'') (errf ''LIST bad selection option'') addSelectOption p1
                     else (More, p1)) in
      if r \<noteq> More then (r, p2) else
      let (ok, p3) = pNext TokenString p2 in
      if \<not> ok then (Done (Some (errf (n @ '' missing reference name''))), p3) else
      let p4 = updCmd (\<lambda>c. c\<lparr>cmdList := (cmdList c)\<lparr>referenceName := referenceName (cmdList c) @ pVal p3\<rparr>\<rparr>) p3;
          (ok, p5) = pNext TokenListMailbox p4 in
      if \<not> ok then (Done (Some (errf (n @ '' missing mailbox glob''))), p5) else
      listReturn (updCmd (\<lambda>c. c\<lparr>cmdList := (cmdList c)\<lparr>mailboxGlob := mailboxGlob (cmdList c) @ pVal p5\<rparr>\<rparr>) p5))"

definition statusItemName :: "bytes \<Rightarrow> StatusItem option" where
  "statusItemName v = map_of
     [(''MESSAGES'', StatusMessages), (''RECENT'', StatusRecent), (''UIDNEXT'', StatusUIDNext),
      (''UIDVALIDITY'', StatusUIDValidity), (''UNSEEN'', StatusUnseen), (''HIGHESTMODSEQ'', StatusHighestModSeq)] v"

function statusLoop :: "parser \<Rightarrow> outcome \<times> parser" where
  "statusLoop p =
     (let (ok, p1) = pNext TokenAtom p in
      if \<not> ok then (More, p1)
      else case statusItemName (pVal p1) of
        None \<Rightarrow> (Done (Some (Errorf ''STATUS unknown item: %s'' [pVal p1])), p1)
      | Some item \<Rightarrow> statusLoop (updCmd (\<lambda>c. c\<lparr>cmdStatusItems := cmdStatusItems c @ [item]\<rparr>) p1))"
  by auto
termination
  by (relation "measure (\<lambda>p. length (pBuf p))") (auto dest: progress_sym)

declare statusLoop.simps [simp del]

definition parseStatus :: "parser \<Rightarrow> outcome \<times> parser" where
  "parseStatus p =
     (let (r, p1) = mailboxArg ''STATUS bad mailbox name: %v'' ''STATUS missing mailbox name'' p in
      if r \<noteq> More then (r, p1) else
      let (ok, p2) = pNext TokenListStart p1 in
      if \<not> ok then (Done (Some (errf ''STATUS missing list start'')), p2) else
      let (r, p3) = statusLoop p2 in
      if r \<noteq> More then (r, p3) else
      let (ok, p4) = pNextOrEnd TokenListEnd p3 in
      if \<not> ok then (Done (Some (errf ''STATUS missing list end'')), p4) else (More, p4))"

subsection \<open>APPEND\<close>

text \<open>The flag list: a token that is no flag sets the error and the loop goes on \<open>until we find list end\<close>.\<close>

partial_function (option) appendFlags :: "goerr option \<Rightarrow> parser \<Rightarrow> (goerr option \<times> parser) option" where
  "appendFlags err p =
     (let (ok, p1) = pNextOrEnd TokenListEnd p in
      if ok then Some (err, p1) else
      let (ok, p2) = pNext TokenFlag p1 in
      if \<not> ok then
        appendFlags (Some (Errorf ''APPEND expecting flag, got token %s'' [tokenString (pTok p2)])) p2
      else appendFlags err (updCmd (\<lambda>c. c\<lparr>cmdAppendFlags := cmdAppendFlags c @ [pVal p2]\<rparr>) p2))"

definition missingLiteral :: "parser \<Rightarrow> outcome \<times> parser" where
  "missingLiteral p = (Done (Some (errf ''APPEND missing literal data'')), p)"

text \<open>The optional date and the literal. The literal file is handed over to the command: the scanner's pointer is unset.\<close>

definition appendLiteral :: "parser \<Rightarrow> outcome \<times> parser" where
  "appendLiteral p =
     (let p2 = (if pTok p = TokenString then
                  snd (pNext TokenLiteral (updCmd (\<lambda>c. c\<lparr>cmdAppendDate := cmdAppendDate c @ pVal p\<rparr>) p))
                else p) in
      if pTok p2 \<noteq> TokenLiteral then missingLiteral p2
      else (More, p2\<lparr>pScanner := (pScanner p2)\<lparr>hasLiteral := False\<rparr>\<rparr>))"

definition appendFlagList :: "parser \<Rightarrow> (outcome \<times> parser) option" where
  "appendFlagList p =
     (case appendFlags None p of
        None \<Rightarrow> None
      | Some (err, p1) \<Rightarrow> Some
         (case err of
            Some e \<Rightarrow> (Done (Some e), p1)
          | None \<Rightarrow>
            if pTok p1 \<noteq> TokenListEnd then (Done (Some (errf ''APPEND missing flag list end'')), p1)
            else (let (_, p2) = pNext TokenUnknown p1 in appendLiteral p2)))"

definition parseAppend :: "parser \<Rightarrow> (outcome \<times> parser) option" where
  "parseAppend p =
     (let (r, p1) = mailboxArg ''APPEND bad mailbox name: %v'' ''APPEND missing mailbox name'' p in
      if r \<noteq> More then Some (r, p1) else
      let (_, p2) = pNext TokenUnknown p1 in
      if pTok p2 = TokenUnknown \<or> pTok p2 = TokenEnd then Some (missingLiteral p2)
      else if pTok p2 = TokenListStart then appendFlagList p2
      else Some (appendLiteral p2))"

subsection \<open>FETCH and STORE\<close>

text \<open>The error result \<open>return err\<close> of the item list is the function's still unset named result, so a lexical error in an
  item ends the command without an error.\<close>

function fetchItems :: "parser \<Rightarrow> outcome \<times> parser" where
  "fetchItems p =
     (let (ok, p1) = pNext TokenFetchItem p in
      if \<not> ok then (More, p1)
      else if itemType (fitem (pScanner p1)) \<in> {FetchAll, FetchFull, FetchFast} then
        (Done (Some (errf ''FETCH invalid item'')), p1)
      else fetchItems (updCmd (\<lambda>c. c\<lparr>cmdFetchItems := cmdFetchItems c @ [fitem (pScanner p1)]\<rparr>) p1))"
  by auto
termination
  by (relation "measure (\<lambda>p. length (pBuf p))") (auto dest: progress_sym)

declare fetchItems.simps [simp del]

definition fetchItemList :: "parser \<Rightarrow> outcome \<times> parser" where
  "fetchItemList p =
     (let (r, p1) = fetchItems p in
      if r \<noteq> More then (r, p1)
      else if scanError (pScanner p1) \<noteq> None then (Done None, p1) else
      let (ok, p2) = pNext TokenListEnd p1 in
      if \<not> ok then (Done (Some (errf ''FETCH missing list end'')), p2)
      else if cmdFetchItems (pCommand p2) = [] then (Done (Some (errf ''FETCH empty items list'')), p2)
      else (More, p2))"

definition fetchWhat :: "parser \<Rightarrow> outcome \<times> parser" where
  "fetchWhat p =
     (let (ok, p1) = pNext TokenListStart p in
      if ok then fetchItemList p1 else
      let (ok, p2) = pNext TokenFetchItem p1 in
      if ok then (More, updCmd (\<lambda>c. c\<lparr>cmdFetchItems := cmdFetchItems c @ [fitem (pScanner p2)]\<rparr>) p2)
      else if scanError (pScanner p2) \<noteq> None then (Done (scanError (pScanner p2)), p2)
      else (Done (Some (errf ''FETCH missing items'')), p2))"

definition fetchImplicitUID :: "Command \<Rightarrow> Command" where
  "fetchImplicitUID c =
     (if cmdUID c \<and> \<not> (\<exists>item\<in>set (cmdFetchItems c). itemType item = FetchUID)
      then c\<lparr>cmdFetchItems := cmdFetchItems c @ [emptyItem\<lparr>itemType := FetchUID\<rparr>]\<rparr> else c)"

function fetchModifiers :: "parser \<Rightarrow> outcome \<times> parser" where
  "fetchModifiers p =
     (let (ok, p1) = pNextOrEnd TokenListEnd p in
      if ok then (More, p1) else
      let (ok, p2) = pNext TokenAtom p1 in
      if \<not> ok then (Done (Some (Errorf ''FETCH modifier expecting atom, got %s'' [tokenString (pTok p2)])), p2)
      else if pVal p2 = ''CHANGEDSINCE'' then
        (let (ok, p3) = pNext TokenNumber p2 in
         if \<not> ok then (Done (Some (errf ''FETCH CHANGEDSINCE missing value'')), p3)
         else fetchModifiers (updCmd (\<lambda>c. c\<lparr>cmdChangedSince := toInt64 (pNum p3)\<rparr>) p3))
      else if pVal p2 = ''VANISHED'' then fetchModifiers (updCmd (\<lambda>c. c\<lparr>cmdVanished := True\<rparr>) p2)
      else (Done (Some (Errorf ''FETCH unknown modifier: %s'' [pVal p2])), p2))"
  by auto
termination
proof (relation "measure (\<lambda>p. length (pBuf p))", simp)
  fix p x ok p1 y ok2 p2 z ok3 p3
  assume a: "x = pNextOrEnd TokenListEnd p" "(ok, p1) = x" "y = pNext TokenAtom p1" "(ok2, p2) = y" "\<not> \<not> ok2"
  then have lt: "length (pBuf p2) < length (pBuf p)"
    using pNextOrEnd_le [of TokenListEnd p ok p1] pNext_less [of TokenAtom p1 p2] by simp
  then show "(updCmd (\<lambda>c. c\<lparr>cmdVanished := True\<rparr>) p2, p) \<in> measure (\<lambda>p. length (pBuf p))" by simp
  assume "z = pNext TokenNumber p2" "(ok3, p3) = z"
  then show "(updCmd (\<lambda>c. c\<lparr>cmdChangedSince := toInt64 (pNum p3)\<rparr>) p3, p) \<in> measure (\<lambda>p. length (pBuf p))"
    using lt pNext_le [of TokenNumber p2 ok3 p3] by simp
qed

declare fetchModifiers.simps [simp del]

definition fetchTail :: "parser \<Rightarrow> outcome \<times> parser" where
  "fetchTail p =
     (let (_, p1) = pNext TokenUnknown p in
      if pTok p1 = TokenEnd then (Done None, p1)
      else if pTok p1 \<noteq> TokenListStart then
        (Done (Some (Errorf ''FETCH unexpected trailing token: %v'' [tokenString (pTok p1)])), p1) else
      let (r, p2) = fetchModifiers p1 in
      if r \<noteq> More then (r, p2)
      else if pTok p2 \<noteq> TokenListEnd then (Done (Some (errf ''FETCH modifiers missing list end'')), p2)
      else (More, p2))"

definition parseFetch :: "parser \<Rightarrow> outcome \<times> parser" where
  "parseFetch p =
     (let (ok, p1) = pNext TokenSequences p in
      if \<not> ok then (Done (Some (errf ''FETCH missing sequences'')), p1) else
      let (r, p2) = fetchWhat (updCmd (\<lambda>c. c\<lparr>cmdSequences := cmdSequences c @ pSeqs p1\<rparr>) p1) in
      if r \<noteq> More then (r, p2)
      else fetchTail (updCmd fetchImplicitUID p2))"

definition storeModifier :: "parser \<Rightarrow> outcome \<times> parser" where
  "storeModifier p =
     (let (ok, p1) = pNext TokenListStart p in
      if \<not> ok then (case scanError (pScanner p1) of Some e \<Rightarrow> (Done (Some e), p1) | None \<Rightarrow> (More, p1)) else
      let (ok, p2) = pNext TokenAtom p1 in
      if \<not> ok then (Done (Some (errf ''STORE missing modifier name'')), p2)
      else if pVal p2 \<noteq> ''UNCHANGEDSINCE'' then (Done (Some (Errorf ''STORE unknown modifier: %s'' [pVal p2])), p2) else
      let (ok, p3) = pNext TokenNumber p2 in
      if \<not> ok then (Done (Some (errf ''STORE UNCHANGEDSINCE missing value'')), p3) else
      let p4 = updCmd (\<lambda>c. c\<lparr>cmdStore := (cmdStore c)\<lparr>unchangedSince := toInt64 (pNum p3)\<rparr>\<rparr>) p3;
          (ok, p5) = pNext TokenListEnd p4 in
      if \<not> ok then (Done (Some (errf ''STORE missing list end'')), p5) else (More, p5))"

definition storeItemName :: "bytes \<Rightarrow> (StoreMode \<times> bool) option" where
  "storeItemName v = map_of
     [(''+FLAGS'', (StoreAdd, False)), (''+FLAGS.SILENT'', (StoreAdd, True)),
      (''-FLAGS'', (StoreRemove, False)), (''-FLAGS.SILENT'', (StoreRemove, True)),
      (''FLAGS'', (StoreReplace, False)), (''FLAGS.SILENT'', (StoreReplace, True))] v"

function storeFlagLoop :: "parser \<Rightarrow> parser" where
  "storeFlagLoop p =
     (let (ok, p1) = pNext TokenFlag p in
      if \<not> ok then p1
      else storeFlagLoop (updCmd (\<lambda>c. c\<lparr>cmdStore := (cmdStore c)\<lparr>storeFlags := storeFlags (cmdStore c) @ [pVal p1]\<rparr>\<rparr>) p1))"
  by auto
termination
  by (relation "measure (\<lambda>p. length (pBuf p))") (auto dest: progress_sym)

declare storeFlagLoop.simps [simp del]

definition parseStore :: "parser \<Rightarrow> outcome \<times> parser" where
  "parseStore p =
     (let (ok, p1) = pNext TokenSequences p in
      if \<not> ok then (Done (Some (errf ''STORE missing sequences'')), p1) else
      let (r, p2) = storeModifier (updCmd (\<lambda>c. c\<lparr>cmdSequences := cmdSequences c @ pSeqs p1\<rparr>) p1) in
      if r \<noteq> More then (r, p2) else
      let (ok, p3) = pNext TokenAtom p2 in
      if \<not> ok then (Done (Some (errf ''STORE missing data item name'')), p3) else
      case storeItemName (pVal p3) of
        None \<Rightarrow> (Done (Some (Errorf ''STORE invalid name: %q'' [pVal p3])), p3)
      | Some ms \<Rightarrow>
        (let p4 = updCmd (\<lambda>c. c\<lparr>cmdStore := (cmdStore c)\<lparr>storeMode := fst ms,
                    storeSilent := snd ms \<or> storeSilent (cmdStore c)\<rparr>\<rparr>) p3;
             (ok, p5) = pNext TokenListStart p4 in
         if \<not> ok then (Done (Some (errf ''STORE missing flag list'')), p5) else
         let (ok, p6) = pNext TokenListEnd (storeFlagLoop p5) in
         if \<not> ok then (Done (Some (errf ''STORE missing flag list end'')), p6) else (More, p6)))"

subsection \<open>XAPPLEPUSHSERVICE\<close>

definition updPush :: "(PushService \<Rightarrow> PushService) \<Rightarrow> parser \<Rightarrow> parser" where
  "updPush f p = updCmd (\<lambda>c. c\<lparr>cmdPush := map_option f (cmdPush c)\<rparr>) p"

lemma updPush_simps [simp]: "pScanner (updPush f p) = pScanner p"
  by (simp add: updPush_def)

function pushMailboxes :: "parser \<Rightarrow> outcome \<times> parser" where
  "pushMailboxes p =
     (let (ok, p1) = pNext TokenListEnd p in
      if ok then (More, p1) else
      let (ok, p2) = pNext TokenString p1 in
      if \<not> ok then (Done (Some (errf ''XAPPLEPUSHSERVICE mailbox is not a string'')), p2)
      else pushMailboxes (updPush (\<lambda>a. a\<lparr>apsMailboxes := apsMailboxes a @ [pVal p2]\<rparr>) p2))"
  by auto
termination
proof (relation "measure (\<lambda>p. length (pBuf p))", simp)
  fix p x ok p1 y ok2 p2
  assume "x = pNext TokenListEnd p" "(ok, p1) = x" "y = pNext TokenString p1" "(ok2, p2) = y" "\<not> \<not> ok2"
  then show "(updPush (\<lambda>a. a\<lparr>apsMailboxes := apsMailboxes a @ [pVal p2]\<rparr>) p2, p) \<in> measure (\<lambda>p. length (pBuf p))"
    using pNext_le [of TokenListEnd p ok p1] pNext_less [of TokenString p1 p2] by simp
qed

declare pushMailboxes.simps [simp del]

lemma pushMailboxes_le: "pushMailboxes p = (r, q) \<Longrightarrow> length (pBuf q) \<le> length (pBuf p)"
proof (induction p rule: pushMailboxes.induct)
  case (1 p)
  obtain ok1 p1 where r1: "pNext TokenListEnd p = (ok1, p1)" by fastforce
  obtain ok2 p2 where r2: "pNext TokenString p1 = (ok2, p2)" by fastforce
  show ?case using 1 pNext_le [OF r1] pNext_le [OF r2]
    by (fastforce simp: pushMailboxes.simps [of p] r1 r2 split: if_splits)
qed

definition pushString :: "string \<Rightarrow> (bytes \<Rightarrow> PushService \<Rightarrow> PushService) \<Rightarrow> parser \<Rightarrow> outcome \<times> parser" where
  "pushString name f p =
     (let (ok, p1) = pNext TokenString p in
      if \<not> ok then (Done (Some (errf (''XAPPLEPUSHSERVICE invalid '' @ name))), p1)
      else (More, updPush (f (pVal p1)) p1))"

text \<open>One parameter, with its name already scanned.\<close>

definition pushParam :: "parser \<Rightarrow> outcome \<times> parser" where
  "pushParam p =
     (if pVal p = ''mailboxes'' then
        (let (ok, p1) = pNext TokenListStart p in
         if \<not> ok then (Done (Some (errf ''XAPPLEPUSHSERVICE mailboxes missing list'')), p1)
         else pushMailboxes p1)
      else if pVal p = ''aps-version'' then
        (let (ok, p1) = pNext TokenNumber p in
         if \<not> ok then (Done (Some (errf ''XAPPLEPUSHSERVICE invalid aps-version'')), p1)
         else (More, updPush (\<lambda>a. a\<lparr>apsVersion := toInt64 (pNum p1)\<rparr>) p1))
      else if pVal p = ''aps-account-id'' then pushString ''aps-account-id'' (\<lambda>v a. a\<lparr>apsAccountID := v\<rparr>) p
      else if pVal p = ''aps-device-token'' then pushString ''aps-device-token'' (\<lambda>v a. a\<lparr>apsDeviceToken := v\<rparr>) p
      else if pVal p = ''aps-subtopic'' then pushString ''aps-subtopic'' (\<lambda>v a. a\<lparr>apsSubtopic := v\<rparr>) p
      else (Done (Some (Errorf ''XAPPLEPUSHSERVICE unknown parameter %q'' [pVal p])), p))"

lemma pushParam_le: "pushParam p = (r, q) \<Longrightarrow> length (pBuf q) \<le> length (pBuf p)"
  by (auto simp: pushParam_def pushString_def split: if_splits prod.splits dest!: pNext_le pushMailboxes_le)

function pushLoop :: "parser \<Rightarrow> outcome \<times> parser" where
  "pushLoop p =
     (let (ok, p1) = pNextOrEnd TokenString p in
      if \<not> ok then (Done (Some (Errorf ''unexpected %s'' [tokenString (pTok p1)])), p1)
      else if pTok p1 = TokenEnd then (Done None, p1) else
      let (r, p2) = pushParam p1 in
      if r \<noteq> More then (r, p2) else pushLoop p2)"
  by auto
termination
proof (relation "measure (\<lambda>p. length (pBuf p))", simp)
  fix p x ok p1 y r p2
  assume "x = pNextOrEnd TokenString p" "(ok, p1) = x" "\<not> \<not> ok" "y = pushParam p1" "(r, p2) = y"
  then show "(p2, p) \<in> measure (\<lambda>p. length (pBuf p))"
    using pNextOrEnd_less [of TokenString p p1] pushParam_le [of p1 r p2] by simp
qed

declare pushLoop.simps [simp del]

definition emptyPush :: PushService where
  "emptyPush = \<lparr>apsMailboxes = [], apsVersion = 0, apsSubtopic = [], apsAccountID = [], apsDeviceToken = []\<rparr>"

definition parsePush :: "parser \<Rightarrow> outcome \<times> parser" where
  "parsePush p = pushLoop (updCmd (\<lambda>c. c\<lparr>cmdPush := Some emptyPush\<rparr>) p)"

subsection \<open>SELECT and EXAMINE\<close>

definition updQresync :: "(QresyncParam \<Rightarrow> QresyncParam) \<Rightarrow> parser \<Rightarrow> parser" where
  "updQresync f p = updCmd (\<lambda>c. c\<lparr>cmdQresync := f (cmdQresync c)\<rparr>) p"

lemma updQresync_simps [simp]: "pScanner (updQresync f p) = pScanner p"
  by (simp add: updQresync_def)

definition starNotAllowed :: string where
  "starNotAllowed = [CHR 0x27, CHR ''*'', CHR 0x27] @ '' is not allowed''"

definition loneStar :: "SeqRange list \<Rightarrow> bool" where
  "loneStar qs \<longleftrightarrow> length qs = 1 \<and> hd qs = mkSeq 0 0"

text \<open>The parenthesis of the known sequence numbers and UIDs, and the two list ends after it.\<close>

definition qresyncMatch :: "string \<Rightarrow> parser \<Rightarrow> outcome \<times> parser" where
  "qresyncMatch n p =
     (let (ok, p1) = pNext TokenListStart p in
      if \<not> ok then (Done (Some (errf (n @ '' bad QRESYNC match list start''))), p1) else
      let (ok, p2) = pNext TokenSequences p1 in
      if \<not> ok then (Done (Some (errf (n @ '' bad QRESYNC match list UIDs sequence''))), p2) else
      let p3 = updQresync (\<lambda>q. q\<lparr>knownSeqNumMatch := knownSeqNumMatch q @ pSeqs p2\<rparr>) p2 in
      if loneStar (knownSeqNumMatch (cmdQresync (pCommand p3))) then
        (Done (Some (errf (n @ '' bad QRESYNC known seqnum match, '' @ starNotAllowed))), p3) else
      let (ok, p4) = pNext TokenSequences p3 in
      if \<not> ok then (Done (Some (errf (n @ '' bad QRESYNC match list UIDs sequence''))), p4) else
      let p5 = updQresync (\<lambda>q. q\<lparr>knownUIDMatch := knownUIDMatch q @ pSeqs p4\<rparr>) p4 in
      if loneStar (knownUIDMatch (cmdQresync (pCommand p5))) then
        (Done (Some (errf (n @ '' bad QRESYNC known UIDs match, '' @ starNotAllowed))), p5) else
      let (ok, p6) = pNext TokenListEnd p5 in
      if \<not> ok then (Done (Some (errf (n @ '' missing QRESYNC match list end''))), p6) else
      let (ok, p7) = pNext TokenListEnd p6 in
      if \<not> ok then (Done (Some (errf (n @ '' missing QRESYNC parameter list end''))), p7) else (More, p7))"

definition qresyncUIDs :: "string \<Rightarrow> parser \<Rightarrow> outcome \<times> parser" where
  "qresyncUIDs n p =
     (let (ok, p1) = pNext TokenListEnd p in
      if ok then (Done None, p1) else
      let (ok, p2) = pNext TokenSequences p1 in
      if \<not> ok then (Done (Some (errf (n @ '' bad QRESYNC known UIDs sequence''))), p2) else
      let p3 = updQresync (\<lambda>q. q\<lparr>qUIDs := qUIDs q @ pSeqs p2\<rparr>) p2 in
      if loneStar (qUIDs (cmdQresync (pCommand p3))) then
        (Done (Some (errf (n @ '' bad QRESYNC known UIDs sequence, '' @ starNotAllowed))), p3) else
      let (ok, p4) = pNext TokenListEnd p3 in
      if ok then (Done None, p4) else qresyncMatch n p4)"

definition parseQresync :: "string \<Rightarrow> parser \<Rightarrow> outcome \<times> parser" where
  "parseQresync n p =
     (let (ok, p1) = pNext TokenListStart p in
      if \<not> ok then (Done (Some (errf (n @ '' missing QRESYNC parameter list''))), p1) else
      let (ok, p2) = pNext TokenNumber p1 in
      if \<not> ok then (Done (Some (errf (n @ '' QRESYNC UIDVALIDITY missing''))), p2)
      else if 4294967295 < pNum p2 then (Done (Some (errf (n @ '' QRESYNC UIDVALIDITY too big''))), p2)
      else if pNum p2 = 0 then (Done (Some (errf (n @ '' QRESYNC UIDVALIDITY invalid''))), p2) else
      let p3 = updQresync (\<lambda>q. q\<lparr>uidValidity := of_nat (pNum p2)\<rparr>) p2;
          (ok, p4) = pNext TokenNumber p3 in
      if \<not> ok then (Done (Some (errf (n @ '' missing QRESYNC MODSEQ''))), p4) else
      qresyncUIDs n (updQresync (\<lambda>q. q\<lparr>qModSeq := toInt64 (pNum p4)\<rparr>) p4))"

lemma qresyncMatch_le: "qresyncMatch n p = (r, q) \<Longrightarrow> length (pBuf q) \<le> length (pBuf p)"
  by (auto simp: qresyncMatch_def Let_def split: if_splits prod.splits dest!: pNext_le)

lemma qresyncUIDs_le: "qresyncUIDs n p = (r, q) \<Longrightarrow> length (pBuf q) \<le> length (pBuf p)"
  by (auto simp: qresyncUIDs_def Let_def split: if_splits prod.splits dest!: pNext_le qresyncMatch_le)

lemma parseQresync_le: "parseQresync n p = (r, q) \<Longrightarrow> length (pBuf q) \<le> length (pBuf p)"
  by (auto simp: parseQresync_def Let_def split: if_splits prod.splits dest!: pNext_le qresyncUIDs_le)

function selectParams :: "string \<Rightarrow> parser \<Rightarrow> outcome \<times> parser" where
  "selectParams n p =
     (let (ok, p1) = pNext TokenListEnd p in
      if ok then (More, p1) else
      let (ok, p2) = pNext TokenAtom p1 in
      if \<not> ok then (Done (Some (errf (n @ '' missing paramter name''))), p2)
      else if pVal p2 = ''CONDSTORE'' then selectParams n (updCmd (\<lambda>c. c\<lparr>cmdCondstore := True\<rparr>) p2)
      else if pVal p2 = ''QRESYNC'' then
        (let (r, p3) = parseQresync n p2 in
         if r \<noteq> More then (r, p3) else selectParams n p3)
      else (Done (Some (Errorf (n @ '' invalid paramter: %s'') [pVal p2])), p2))"
  by auto
termination
proof (relation "measure (\<lambda>(_, p). length (pBuf p))", simp)
  fix n :: string and p x ok p1 y ok2 p2 z r p3
  assume a: "x = pNext TokenListEnd p" "(ok, p1) = x" "y = pNext TokenAtom p1" "(ok2, p2) = y" "\<not> \<not> ok2"
  then have lt: "length (pBuf p2) < length (pBuf p)"
    using pNext_le [of TokenListEnd p ok p1] pNext_less [of TokenAtom p1 p2] by simp
  then show "((n, updCmd (\<lambda>c. c\<lparr>cmdCondstore := True\<rparr>) p2), n, p) \<in> measure (\<lambda>(_, p). length (pBuf p))" by simp
  assume "z = parseQresync n p2" "(r, p3) = z"
  then show "((n, p3), n, p) \<in> measure (\<lambda>(_, p). length (pBuf p))"
    using lt parseQresync_le [of n p2 r p3] by simp
qed

declare selectParams.simps [simp del]

definition endOfLine :: "string \<Rightarrow> parser \<Rightarrow> goerr option \<times> parser" where
  "endOfLine n p =
     (let (ok, p1) = pNext TokenEnd p in
      if \<not> ok then (Some (pError (n @ '' has trailing arguments'') p1), p1) else (None, p1))"

definition parseSelect :: "parser \<Rightarrow> outcome \<times> parser" where
  "parseSelect p =
     (let n = cmdName (pCommand p);
          (r, p1) = mailboxArg (n @ '' bad mailbox name: %v'') (n @ '' missing mailbox name'') p in
      if r \<noteq> More then (r, p1) else
      let (ok, p2) = pNextOrEnd TokenListStart p1 in
      if \<not> ok then (Done (Some (Errorf (n @ '' trailing token: %s'') [tokenString (pTok p2)])), p2)
      else if pTok p2 = TokenEnd then (Done None, p2) else
      let (r, p3) = selectParams n p2 in
      if r \<noteq> More then (r, p3) else
      let (err, p4) = endOfLine n p3 in (Done err, p4))"

subsection \<open>SEARCH\<close>

definition searchKeys :: "string list" where
  "searchKeys = [''AND'', ''SEQSET'', ''ALL'', ''ANSWERED'', ''BCC'', ''BEFORE'', ''BODY'', ''CC'', ''DELETED'', ''DRAFT'',
     ''FLAGGED'', ''FROM'', ''HEADER'', ''KEYWORD'', ''LARGER'', ''NEW'', ''NOT'', ''OLD'', ''ON'', ''OR'', ''RECENT'',
     ''SEEN'', ''SENTBEFORE'', ''SENTON'', ''SENTSINCE'', ''SINCE'', ''SMALLER'', ''SUBJECT'', ''TEXT'', ''TO'', ''UID'',
     ''UNANSWERED'', ''UNDELETED'', ''UNDRAFT'', ''UNFLAGGED'', ''UNKEYWORD'', ''UNSEEN'', ''MODSEQ'']"

definition plainKeys :: "string list" where
  "plainKeys = [''ALL'', ''ANSWERED'', ''DELETED'', ''FLAGGED'', ''NEW'', ''OLD'', ''RECENT'', ''SEEN'',
     ''UNANSWERED'', ''UNDELETED'', ''UNFLAGGED'', ''UNSEEN'', ''DRAFT'']"

definition stringKeys :: "string list" where
  "stringKeys = [''BCC'', ''BODY'', ''CC'', ''FROM'', ''SUBJECT'', ''TEXT'', ''TO'']"

definition dateKeys :: "string list" where
  "dateKeys = [''BEFORE'', ''ON'', ''SINCE'', ''SENTBEFORE'', ''SENTON'', ''SENTSINCE'']"

abbreviation mkOp :: "string \<Rightarrow> SearchOp list \<Rightarrow> SearchOp" where
  "mkOp k cs \<equiv> SearchOp k cs [] 0 [] 0"

type_synonym searchResult = "(goerr + SearchOp) \<times> parser"

text \<open>The operation of the \<open>case\<close>s without a nested search key.\<close>

definition headerKey :: "parser \<Rightarrow> searchResult" where
  "headerKey p =
     (let (ok, p1) = pNext TokenString p in
      if \<not> ok then (Inl (errf ''SEARCH HEADER missing field name''), p1) else
      let b = pVal p1 @ '': ''; (ok, p2) = pNext TokenString p1 in
      if \<not> ok then (Inl (errf ''SEARCH HEADER missing field value''), p2)
      else (Inr (SearchOp ''HEADER'' [] (b @ pVal p2) 0 [] 0), p2))"

definition modseqNumber :: "parser \<Rightarrow> searchResult" where
  "modseqNumber p =
     (if pTok p \<noteq> TokenAtom then
        (Inl (Errorf ''SEARCH MODSEQ invalid number, got %s'' [tokenString (pTok p)]), p)
      else case ParseInt64 (pVal p) of
        Inl e \<Rightarrow> (Inl (WrapErr ''SEARCH MODSEQ invalid number: %v'' e), p)
      | Inr v \<Rightarrow> (Inr (SearchOp ''MODSEQ'' [] [] v [] 0), p))"

definition modseqKey :: "parser \<Rightarrow> searchResult" where
  "modseqKey p =
     (let (_, p1) = pNext TokenUnknown p in
      if pTok p1 = TokenString then
        (let (ok, p2) = pNext TokenAtom p1 in
         if \<not> ok then (Inl (errf ''SEARCH MODSEQ missing entry-type''), p2)
         else (let (_, p3) = pNext TokenUnknown p2 in modseqNumber p3))
      else modseqNumber p1)"

definition leafKey :: "string \<Rightarrow> parser \<Rightarrow> searchResult" where
  "leafKey key p =
     (if key \<in> set plainKeys then (Inr (mkOp key []), p)
      else if key \<in> set stringKeys then
        (let (ok, p1) = pNext TokenString p in
         if \<not> ok then (Inl (pError (''search key '' @ key @ '' missing string argument'') p1), p1)
         else (Inr (SearchOp key [] (pVal p1) 0 [] 0), p1))
      else if key = ''KEYWORD'' \<or> key = ''UNKEYWORD'' then
        (let (ok, p1) = pNext TokenAtom p in
         if \<not> ok then (Inl (errf (''SEARCH key '' @ key @ '' missing atom argument'')), p1)
         else (Inr (SearchOp key [] (pVal p1) 0 [] 0), p1))
      else if key \<in> set dateKeys then
        (let (ok, p1) = pNext TokenDate p in
         if \<not> ok then (Inl (errf (''SEARCH '' @ key @ '' missing date'')), p1)
         else (Inr (SearchOp key [] [] 0 [] (date (pScanner p1))), p1))
      else if key = ''HEADER'' then headerKey p
      else if key = ''LARGER'' \<or> key = ''SMALLER'' then
        (let (ok, p1) = pNext TokenNumber p in
         if \<not> ok then (Inl (errf (''SEARCH '' @ key @ '' invalid number'')), p1)
         else (Inr (SearchOp key [] [] (toInt64 (pNum p1)) [] 0), p1))
      else if key = ''UID'' \<or> key = ''UNDRAFT'' then
        (let (ok, p1) = pNext TokenSequences p in
         if \<not> ok then (Inl (errf (''SEARCH key '' @ key @ '' missing sequence-set'')), p1)
         else (Inr (SearchOp key [] [] 0 (pSeqs p1) 0), p1))
      else if key = ''MODSEQ'' then modseqKey p
      else (Inl (ErrNew ''SEARCH parse todo''), p))"

text \<open>\<open>op.Key\<close>: the table's entry, or AND for an opening parenthesis.\<close>

definition searchKeyOf :: "bytes \<Rightarrow> string option" where
  "searchKeyOf v = (if v \<in> set searchKeys then Some v else if v = ''('' then Some ''AND'' else None)"

text \<open>\<open>parseSearchKey\<close>, and the loop of its AND case. \<open>None\<close>: out of fuel. NOT and OR read their terms with \<open>nextKey\<close>,
  the call of \<open>Next\<close> with the upper-casing in between.\<close>

definition nextKey :: "parser \<Rightarrow> bool \<times> parser" where
  "nextKey p = (let (ok, p1) = pNext TokenSearchKey p in (ok, if ok then upperVal p1 else p1))"

fun parseSearchKey :: "nat \<Rightarrow> parser \<Rightarrow> searchResult option"
  and keyList :: "nat \<Rightarrow> SearchOp list \<Rightarrow> parser \<Rightarrow> searchResult option" where
  "parseSearchKey 0 p = None"
| "parseSearchKey (Suc fuel) p =
     (if pSeqs p \<noteq> [] then Some (Inr (SearchOp ''SEQSET'' [] [] 0 (pSeqs p) 0), p)
      else case searchKeyOf (pVal p) of
        None \<Rightarrow> Some (Inl (Errorf ''SEARCH key unknown: %q'' [pVal p]), p)
      | Some key \<Rightarrow>
        if key = ''NOT'' then
          (let (ok, p1) = nextKey p in
           if \<not> ok then Some (Inl (errf ''SEARCH key NOT missing term''), p1)
           else case parseSearchKey fuel p1 of
             None \<Rightarrow> None
           | Some (Inl e, p2) \<Rightarrow> Some (Inl e, p2)
           | Some (Inr ch, p2) \<Rightarrow> Some (Inr (mkOp ''NOT'' [ch]), p2))
        else if key = ''OR'' then
          (let (ok, p1) = nextKey p in
           if \<not> ok then Some (Inl (errf ''SEARCH key OR missing first term''), p1)
           else case parseSearchKey fuel p1 of
             None \<Rightarrow> None
           | Some (Inl e, p2) \<Rightarrow> Some (Inl e, p2)
           | Some (Inr ch1, p2) \<Rightarrow>
             (let (ok, p3) = nextKey p2 in
              if \<not> ok then Some (Inl (errf ''SEARCH key OR missing second term''), p3)
              else case parseSearchKey fuel p3 of
                None \<Rightarrow> None
              | Some (Inl e, p4) \<Rightarrow> Some (Inl e, p4)
              | Some (Inr ch2, p4) \<Rightarrow> Some (Inr (mkOp ''OR'' [ch1, ch2]), p4)))
        else if key = ''AND'' then keyList fuel [] p
        else Some (leafKey key p))"
| "keyList 0 cs p = None"
| "keyList (Suc fuel) cs p =
     (let (ok, p1) = nextKey p in
      if \<not> ok then Some (Inl (errf (''SEARCH key list missing closing '' @ [CHR 0x27, CHR '')'', CHR 0x27])), p1)
      else if pVal p1 = '')'' then
        Some (case cs of [] \<Rightarrow> Inl (errf ''SEARCH empty key list'') | [c] \<Rightarrow> Inr c | _ \<Rightarrow> Inr (mkOp ''AND'' cs), p1)
      else case parseSearchKey fuel p1 of
        None \<Rightarrow> None
      | Some (Inl e, p2) \<Rightarrow> Some (Inl e, p2)
      | Some (Inr ch, p2) \<Rightarrow> keyList fuel (cs @ [ch]) p2)"

definition updSearch :: "(SearchParam \<Rightarrow> SearchParam) \<Rightarrow> parser \<Rightarrow> parser" where
  "updSearch f p = updCmd (\<lambda>c. c\<lparr>cmdSearch := f (cmdSearch c)\<rparr>) p"

lemma updSearch_simps [simp]: "pScanner (updSearch f p) = pScanner p"
  by (simp add: updSearch_def)

text \<open>The prefixes CHARSET and RETURN; they leave the first search key scanned.\<close>

definition searchCharsetPart :: "parser \<Rightarrow> goerr option \<times> parser" where
  "searchCharsetPart p =
     (if pVal p \<noteq> ''CHARSET'' then (None, p) else
      let (ok, p1) = pNext TokenString p in
      if \<not> ok then (Some (pError ''missing CHARSET value'' p1), p1) else
      let p2 = upperVal p1 in
      if pVal p2 \<noteq> ''UTF-8'' \<and> pVal p2 \<noteq> ''US-ASCII'' then (Some (pError ''unsupported CHARSET'' p2), p2) else
      let (ok, p3) = nextKey (updSearch (\<lambda>q. q\<lparr>searchCharset := pVal p2\<rparr>) p2) in
      if \<not> ok then (Some (pError ''missing search key'' p3), p3) else (None, p3))"

function returnLoop :: "parser \<Rightarrow> goerr option \<times> parser" where
  "returnLoop p =
     (let (ok, p1) = nextKey p in
      if \<not> ok then (None, p1)
      else if pVal p1 = '')'' then (None, p1)
      else if pVal p1 \<notin> {''MIN'', ''MAX'', ''ALL'', ''COUNT''} then
        (Some (Errorf ''unknown search RETURN value: %q'' [pVal p1]), p1)
      else returnLoop (updSearch (\<lambda>q. q\<lparr>searchReturn := searchReturn q @ [pVal p1]\<rparr>) p1))"
  by auto
termination
proof (relation "measure (\<lambda>p. length (pBuf p))", simp)
  fix p x ok p1
  assume "x = nextKey p" "(ok, p1) = x" "\<not> \<not> ok"
  then show "(updSearch (\<lambda>q. q\<lparr>searchReturn := searchReturn q @ [pVal p1]\<rparr>) p1, p) \<in> measure (\<lambda>p. length (pBuf p))"
    by (auto simp: nextKey_def split: prod.splits if_splits dest: pNext_less)
qed

declare returnLoop.simps [simp del]

definition searchReturnPart :: "parser \<Rightarrow> goerr option \<times> parser" where
  "searchReturnPart p =
     (if pVal p \<noteq> ''RETURN'' then (None, p) else
      let (ok, p1) = pNext TokenListStart p in
      if \<not> ok then (Some (pError ''missing search RETURN list'' p1), p1) else
      let (err, p2) = returnLoop p1 in
      if err \<noteq> None then (err, p2) else
      let p3 = (if searchReturn (cmdSearch (pCommand p2)) = []
                then updSearch (\<lambda>q. q\<lparr>searchReturn := [''ALL'']\<rparr>) p2 else p2);
          (ok, p4) = nextKey p3 in
      if \<not> ok then (Some (pError ''missing search key'' p4), p4) else (None, p4))"

text \<open>The loop over the top-level keys; the result is the operation and the final error.\<close>

fun searchLoop :: "nat \<Rightarrow> SearchOp list \<Rightarrow> parser \<Rightarrow> (goerr option \<times> parser) option" where
  "searchLoop 0 cs p = None"
| "searchLoop (Suc fuel) cs p =
     (case parseSearchKey fuel p of
        None \<Rightarrow> None
      | Some (Inl e, p1) \<Rightarrow> Some (Some e, updSearch (\<lambda>q. q\<lparr>searchOp := None\<rparr>) p1)
      | Some (Inr ch, p1) \<Rightarrow>
        (let cs' = cs @ [ch];
             (ok, p2) = pNextOrEnd TokenSearchKey p1;
             p3 = (if ok then upperVal p2 else p2) in
         if ok \<and> pTok p3 \<noteq> TokenEnd then searchLoop fuel cs' p3
         else Some (scanError (pScanner p3),
                updSearch (\<lambda>q. q\<lparr>searchOp := Some (if length cs' = 1 then ch else mkOp ''AND'' cs')\<rparr>) p3)))"

definition searchFuel :: "parser \<Rightarrow> nat" where
  "searchFuel p = 2 * length (pBuf p) + 4"

definition parseSearchCommands :: "parser \<Rightarrow> (goerr option \<times> parser) option" where
  "parseSearchCommands p =
     (let (ok, p1) = nextKey p in
      if \<not> ok then Some (Some (pError ''missing search key'' p1), p1) else
      let (err, p2) = searchCharsetPart p1 in
      if err \<noteq> None then Some (err, p2) else
      let (err, p3) = searchReturnPart p2 in
      if err \<noteq> None then Some (err, p3)
      else searchLoop (searchFuel p3) [] p3)"

subsection \<open>ParseCommand\<close>

definition commands :: "string list" where
  "commands = [''CAPABILITY'', ''COMPRESS'', ''LOGOUT'', ''NOOP'', ''LOGIN'', ''AUTHENTICATE'', ''STARTTLS'', ''APPEND'',
     ''CREATE'', ''DELETE'', ''ENABLE'', ''ID'', ''IDLE'', ''EXAMINE'', ''LIST'', ''LSUB'', ''RENAME'', ''SELECT'', ''STATUS'',
     ''SUBSCRIBE'', ''UNSUBSCRIBE'', ''CHECK'', ''CLOSE'', ''EXPUNGE'', ''COPY'', ''MOVE'', ''FETCH'', ''STORE'', ''SEARCH'',
     ''UID'', ''XAPPLEPUSHSERVICE'']"

definition uidCommands :: "string list" where
  "uidCommands = [''COPY'', ''FETCH'', ''STORE'', ''SEARCH'', ''MOVE'', ''EXPUNGE'']"

definition goodMode :: "string \<Rightarrow> Mode \<Rightarrow> bool" where
  "goodMode n m =
     (if n \<in> {''CAPABILITY'', ''COMPRESS'', ''LOGOUT'', ''NOOP'', ''ID''} then True
      else if n \<in> {''LOGIN'', ''AUTHENTICATE'', ''STARTTLS''} then m = ModeNonAuth
      else if n \<in> {''APPEND'', ''CREATE'', ''DELETE'', ''ENABLE'', ''EXAMINE'', ''IDLE'', ''LIST'', ''LSUB'', ''RENAME'',
                  ''SELECT'', ''STATUS'', ''SUBSCRIBE'', ''UNSUBSCRIBE'', ''XAPPLEPUSHSERVICE''}
        then m = ModeAuth \<or> m = ModeSelected
      else if n \<in> {''CHECK'', ''CLOSE'', ''EXPUNGE'', ''COPY'', ''MOVE'', ''FETCH'', ''STORE'', ''SEARCH''}
        then m = ModeSelected
      else False)"

text \<open>The tag, the name, the UID prefix and the mode check.\<close>

definition commandName :: "parser \<Rightarrow> goerr option \<times> parser" where
  "commandName p =
     (let p1 = upperVal p in
      if pVal p1 \<in> set commands then (None, updCmd (\<lambda>c. c\<lparr>cmdName := pVal p1\<rparr>) p1)
      else (Some (Errorf ''unknown command: %q'' [pVal p1]), updCmd (\<lambda>c. c\<lparr>cmdName := []\<rparr>) p1))"

definition uidPrefix :: "parser \<Rightarrow> goerr option \<times> parser" where
  "uidPrefix p =
     (if cmdName (pCommand p) \<noteq> ''UID'' then (None, p) else
      let (ok, p1) = pNext TokenAtom (updCmd (\<lambda>c. c\<lparr>cmdUID := True\<rparr>) p) in
      if \<not> ok then (Some (pError ''no command name following UID prefix'' p1), p1) else
      let (err, p2) = commandName p1 in
      if err \<noteq> None then (err, p2)
      else if cmdName (pCommand p2) \<notin> set uidCommands then
        (Some (errf (''command '' @ cmdName (pCommand p2) @ '' does not support the UID prefix'')), p2)
      else (None, p2))"

definition commandHead :: "parser \<Rightarrow> goerr option \<times> parser" where
  "commandHead p =
     (let (ok, p1) = pNext TokenTag p in
      if \<not> ok then (Some (pError ''no command tag'' p1), p1) else
      let (ok, p2) = pNext TokenAtom (updCmd (\<lambda>c. c\<lparr>cmdTag := cmdTag c @ pVal p1\<rparr>) p1) in
      if \<not> ok then (Some (pError ''no command name'' p2), p2) else
      let (err, p3) = commandName p2 in
      if err \<noteq> None then (err, p3) else
      let (err, p4) = uidPrefix p3 in
      if err \<noteq> None then (err, p4)
      else if \<not> goodMode (cmdName (pCommand p4)) (pMode p4) then
        (Some (errf (''bad mode for command '' @ cmdName (pCommand p4))), p4)
      else (None, p4))"

text \<open>The switch over the commands.\<close>

definition commandArgs :: "parser \<Rightarrow> (outcome \<times> parser) option" where
  "commandArgs p =
     (let n = cmdName (pCommand p) in
      if n \<in> {''CAPABILITY'', ''NOOP'', ''LOGOUT'', ''STARTTLS'', ''CHECK'', ''CLOSE''} then Some (More, p)
      else if n = ''COMPRESS'' then Some (parseCompress p)
      else if n = ''ID'' then Some (parseID p)
      else if n = ''IDLE'' then Some (parseIdle p)
      else if n = ''AUTHENTICATE'' then Some (parseAuthenticate p)
      else if n = ''LOGIN'' then Some (parseLogin p)
      else if n = ''ENABLE'' then Some (parseEnable p)
      else if n \<in> {''SELECT'', ''EXAMINE''} then Some (parseSelect p)
      else if n \<in> {''CREATE'', ''DELETE'', ''SUBSCRIBE'', ''UNSUBSCRIBE''} then Some (parseOneMailbox p)
      else if n = ''RENAME'' then Some (parseRename p)
      else if n \<in> {''LIST'', ''LSUB''} then Some (parseList p)
      else if n = ''STATUS'' then Some (parseStatus p)
      else if n = ''APPEND'' then parseAppend p
      else if n = ''EXPUNGE'' then Some (parseExpunge p)
      else if n = ''SEARCH'' then map_option (\<lambda>(err, p1). (Done err, p1)) (parseSearchCommands p)
      else if n = ''FETCH'' then Some (parseFetch p)
      else if n = ''STORE'' then Some (parseStore p)
      else if n \<in> {''COPY'', ''MOVE''} then Some (parseCopy p)
      else if n = ''XAPPLEPUSHSERVICE'' then Some (parsePush p)
      else Some (Done (Some (errf (''unsupported command: '' @ n))), p))"

text \<open>\<open>Command.reset\<close>, with the truncation of the literal file.\<close>

definition resetParser :: "parser \<Rightarrow> parser" where
  "resetParser p =
     (let p1 = updCmd resetCommand p in
      if pCmdLit p1 then p1\<lparr>pScanner := (pScanner p1)\<lparr>litFile := []\<rparr>\<rparr> else p1)"

text \<open>The deferred function, for an error: the rest of the line is drained, the error is wrapped with the tag, the command
  is reset.\<close>

definition finishError :: "goerr \<Rightarrow> parser \<Rightarrow> goerr \<times> parser" where
  "finishError err p =
     (let p1 = p\<lparr>pScanner := Drain (pScanner p)\<rparr>; s = pScanner p1; tag = cmdTag (pCommand p1) in
      case (scanError s, ioErr s) of
        (Some _, Some ioe) \<Rightarrow> (ioe, resetParser p1)
      | _ \<Rightarrow>
        ((if tag \<noteq> [] then TaggedError tag err
          else case err of ParseError _ \<Rightarrow> err | _ \<Rightarrow> WrapErr ''imapparser: %v'' err), resetParser p1))"

text \<open>The literal pointers at the start: the one of the command and the one of the scanner are made equal.\<close>

definition shareLiteral :: "parser \<Rightarrow> parser" where
  "shareLiteral p =
     (let p1 = (if \<not> pCmdLit p then p\<lparr>pCmdLit := hasLiteral (pScanner p)\<rparr> else p) in
      if \<not> hasLiteral (pScanner p1) then p1\<lparr>pScanner := (pScanner p1)\<lparr>hasLiteral := pCmdLit p1\<rparr>\<rparr> else p1)"

definition parseBody :: "parser \<Rightarrow> (goerr option \<times> parser) option" where
  "parseBody p =
     (let (err, p1) = commandHead p in
      if err \<noteq> None then Some (err, p1)
      else case commandArgs p1 of
        None \<Rightarrow> None
      | Some (Done err, p2) \<Rightarrow> Some (err, p2)
      | Some (More, p2) \<Rightarrow> Some (endOfLine (cmdName (pCommand p2)) p2))"

definition ParseCommand :: "parser \<Rightarrow> (unit go \<times> parser) option" where
  "ParseCommand p =
     (case parseBody (resetParser (shareLiteral p)) of
        None \<Rightarrow> None
      | Some (err, p1) \<Rightarrow> Some
         (if panicked (pScanner p1) then (Panic ''runtime error'', p1)
          else case err of
            None \<Rightarrow> (Ok (), p1)
          | Some e \<Rightarrow> (let (e', p2) = finishError e p1 in (Fail e', p2))))"

end
