(* ===== verification/ImapParserProps.thy ===== *)
theory ImapParserProps
  imports ImapParser
begin

text \<open>
  The theorems about \<open>ParseCommand\<close> (\<open>imap/imapparser/parser.go\<close>): what holds of every
  command it accepts, what an error leaves behind, when it returns at all, the shape of the search
  operations, and the exact outcome on well-formed lines and on a few lines that the code treats in
  an unexpected way.
\<close>

subsection \<open>What the argument parsers leave alone\<close>

text \<open>Every parsing step keeps the tag, the name, the UID mark and the mode, only moves forward in the
  input, and does not undo an error or a panic.\<close>

definition pf :: "parser \<Rightarrow> parser \<Rightarrow> bool" where
  "pf p q \<longleftrightarrow> pMode q = pMode p \<and> cmdTag (pCommand q) = cmdTag (pCommand p) \<and>
     cmdName (pCommand q) = cmdName (pCommand p) \<and> cmdUID (pCommand q) = cmdUID (pCommand p) \<and>
     suffix (pBuf q) (pBuf p) \<and> (scanError (pScanner p) \<noteq> None \<longrightarrow> scanError (pScanner q) \<noteq> None) \<and>
     (ioErr (pScanner p) \<noteq> None \<longrightarrow> ioErr (pScanner q) = ioErr (pScanner p)) \<and>
     (panicked (pScanner p) \<longrightarrow> panicked (pScanner q)) \<and> pCmdLit q = pCmdLit p"

definition keepsHead :: "(Command \<Rightarrow> Command) \<Rightarrow> bool" where
  "keepsHead f \<longleftrightarrow> (\<forall>c. cmdTag (f c) = cmdTag c \<and> cmdName (f c) = cmdName c \<and> cmdUID (f c) = cmdUID c)"

lemma pf_refl: "pf p p"
  by (simp add: pf_def)

lemma pf_trans: "pf p q \<Longrightarrow> pf q r \<Longrightarrow> pf p r"
  unfolding pf_def by (metis suffix_order.trans)

lemma pf_length: "pf p q \<Longrightarrow> length (pBuf q) \<le> length (pBuf p)"
  by (simp add: pf_def suffix_length_le)

lemma pf_of_adv: "adv k (pScanner p) s \<Longrightarrow> pf p (p\<lparr>pScanner := s\<rparr>)"
  by (auto simp: pf_def adv_def)

lemma pNext_pf: "pf p (snd (pNext t p))"
  using pf_of_adv [OF nextToken_adv [of "pScanner p" t False]]
  by (simp add: pNext_def Next_def split_def Let_def)

lemma pNextOrEnd_pf: "pf p (snd (pNextOrEnd t p))"
  using pf_of_adv [OF nextToken_adv [of "pScanner p" t True]]
  by (simp add: pNextOrEnd_def NextOrEnd_def split_def Let_def)

lemma pf_tail:
  assumes "\<And>p. pf p (snd (R p))"
  shows "pf p0 p \<Longrightarrow> pf p0 (snd (R p))"
  using pf_trans assms by blast

lemma pf_let:
  assumes "\<And>p. pf p (snd (R p))"
  shows "pf p0 p \<Longrightarrow> (\<And>x p1. pf p0 p1 \<Longrightarrow> pf p0 (snd (F x p1))) \<Longrightarrow> pf p0 (snd (let (x, p1) = R p in F x p1))"
  using pf_tail [OF assms] by (simp add: split_def Let_def)

lemma pf_eq:
  assumes "\<And>p. pf p (snd (R p))"
  shows "R p = (x, q) \<Longrightarrow> pf p q"
  using assms [of p] by simp

lemma pf_ctrl [frame]:
  "pf p0 p \<Longrightarrow> pf p0 (snd (x, p))"
  "(c \<Longrightarrow> pf p0 (snd A)) \<Longrightarrow> (\<not> c \<Longrightarrow> pf p0 (snd B)) \<Longrightarrow> pf p0 (snd (if c then A else B))"
  "(c \<Longrightarrow> pf p0 p1) \<Longrightarrow> (\<not> c \<Longrightarrow> pf p0 p2) \<Longrightarrow> pf p0 (if c then p1 else p2)"
  "(\<And>e. r = Inl e \<Longrightarrow> pf p0 (snd (C e))) \<Longrightarrow> (\<And>v. r = Inr v \<Longrightarrow> pf p0 (snd (D v))) \<Longrightarrow>
   pf p0 (snd (case r of Inl e \<Rightarrow> C e | Inr v \<Rightarrow> D v))"
  "(o1 = None \<Longrightarrow> pf p0 (snd E)) \<Longrightarrow> (\<And>y. o1 = Some y \<Longrightarrow> pf p0 (snd (H y))) \<Longrightarrow>
   pf p0 (snd (case o1 of None \<Rightarrow> E | Some y \<Rightarrow> H y))"
  "(\<And>a b. pr = (a, b) \<Longrightarrow> pf p0 (snd (G a b))) \<Longrightarrow> pf p0 (snd (case pr of (a, b) \<Rightarrow> G a b))"
  "pf p0 z \<Longrightarrow> (\<And>y. y = z \<Longrightarrow> pf p0 y \<Longrightarrow> pf p0 (snd (K y))) \<Longrightarrow> pf p0 (snd (Let z K))"
  "pf p0 (snd (M (v1 :: string))) \<Longrightarrow> pf p0 (snd (Let v1 M))"
  "pf p0 (snd (N bb)) \<Longrightarrow> pf p0 (snd (Let (bb :: bool) N))"
  by (auto split: sum.split option.split prod.split)

lemma pf_updCmd [frame]: "pf p0 p \<Longrightarrow> keepsHead f \<Longrightarrow> pf p0 (updCmd f p)"
  by (simp add: pf_def keepsHead_def)

lemma keepsHead_upd [frame]:
  "keepsHead (\<lambda>c. c\<lparr>cmdMailbox := g1 c\<rparr>)"
  "keepsHead (\<lambda>c. c\<lparr>cmdCondstore := g2 c\<rparr>)"
  "keepsHead (\<lambda>c. c\<lparr>cmdQresync := g3 c\<rparr>)"
  "keepsHead (\<lambda>c. c\<lparr>cmdSequences := g4 c\<rparr>)"
  "keepsHead (\<lambda>c. c\<lparr>cmdRenameOld := g5 c, cmdMailbox := g6 c\<rparr>)"
  "keepsHead (\<lambda>c. c\<lparr>cmdRenameNew := g7 c, cmdMailbox := g8 c\<rparr>)"
  "keepsHead (\<lambda>c. c\<lparr>cmdParams := g9 c\<rparr>)"
  "keepsHead (\<lambda>c. c\<lparr>cmdUsername := h1 c, cmdPassword := h2 c\<rparr>)"
  "keepsHead (\<lambda>c. c\<lparr>cmdUsername := h1 c\<rparr>)"
  "keepsHead (\<lambda>c. c\<lparr>cmdPassword := h2 c\<rparr>)"
  "keepsHead (\<lambda>c. c\<lparr>cmdList := h3 c\<rparr>)"
  "keepsHead (\<lambda>c. c\<lparr>cmdStatusItems := h4 c\<rparr>)"
  "keepsHead (\<lambda>c. c\<lparr>cmdAppendFlags := h5 c\<rparr>)"
  "keepsHead (\<lambda>c. c\<lparr>cmdAppendDate := h6 c\<rparr>)"
  "keepsHead (\<lambda>c. c\<lparr>cmdFetchItems := h7 c\<rparr>)"
  "keepsHead (\<lambda>c. c\<lparr>cmdChangedSince := h8 c\<rparr>)"
  "keepsHead (\<lambda>c. c\<lparr>cmdVanished := h9 c\<rparr>)"
  "keepsHead (\<lambda>c. c\<lparr>cmdStore := i1 c\<rparr>)"
  "keepsHead (\<lambda>c. c\<lparr>cmdSearch := i2 c\<rparr>)"
  "keepsHead (\<lambda>c. c\<lparr>cmdPush := i3 c\<rparr>)"
  "keepsHead (addSelectOption o1)" "keepsHead (addReturnOption o1)" "keepsHead fetchImplicitUID"
  by (simp_all add: keepsHead_def addSelectOption_def addReturnOption_def fetchImplicitUID_def)

lemma pf_upd [frame]:
  "pf p0 p \<Longrightarrow> pf p0 (upperVal p)"
  "pf p0 p \<Longrightarrow> pf p0 (setPanic p)"
  "pf p0 p \<Longrightarrow> pf p0 (p\<lparr>pScanner := callCont m n (pScanner p)\<rparr>)"
  "pf p0 p \<Longrightarrow> pf p0 (p\<lparr>pScanner := (pScanner p)\<lparr>hasLiteral := False\<rparr>\<rparr>)"
  "pf p0 p \<Longrightarrow> pf p0 (updPush fp p)"
  "pf p0 p \<Longrightarrow> pf p0 (updQresync fq p)"
  "pf p0 p \<Longrightarrow> pf p0 (updSearch fs p)"
  by (simp_all add: pf_def upperVal_def setPanic_def updPush_def updQresync_def updSearch_def)

lemmas next_frame [frame] =
  pf_tail [OF pNext_pf] pf_let [OF pNext_pf] pf_tail [OF pNextOrEnd_pf] pf_let [OF pNextOrEnd_pf]

lemma parseMailbox_pf: "pf p (snd (parseMailbox p))"
proof -
  obtain ok p1 where r: "pNext TokenString p = (ok, p1)" by fastforce
  have "pf p p1" using pf_eq [OF pNext_pf r] .
  then show ?thesis
    by (simp add: parseMailbox_def r pf_updCmd keepsHead_upd pf_upd split: go.split)
qed

lemma mailboxArg_pf: "pf p (snd (mailboxArg b m p))"
proof -
  obtain ok err p1 where r: "parseMailbox p = ((ok, err), p1)" by (metis surj_pair)
  have "pf p p1" using pf_eq [OF parseMailbox_pf r] .
  then show ?thesis by (simp add: mailboxArg_def r split: option.split)
qed

lemmas mailbox_frame [frame] = pf_tail [OF mailboxArg_pf] pf_let [OF mailboxArg_pf]

lemma simple_pf:
  "pf p (snd (parseCompress p))" "pf p (snd (parseIdle p))" "pf p (snd (parseAuthenticate p))"
  "pf p (snd (parseLogin p))" "pf p (snd (parseOneMailbox p))" "pf p (snd (parseRename p))"
  "pf p (snd (parseExpunge p))" "pf p (snd (parseCopy p))"
  unfolding parseCompress_def parseIdle_def parseAuthenticate_def parseLogin_def parseOneMailbox_def parseRename_def
    parseExpunge_def parseCopy_def
  by (intro frame pf_refl | assumption)+

text \<open>For the loops: the rule of a \<open>let\<close> that keeps the equation, and the recursive call.\<close>

lemma pf_let_eq:
  assumes "\<And>p. pf p (snd (R p))"
  shows "pf p0 p \<Longrightarrow> (\<And>x p1. R p = (x, p1) \<Longrightarrow> pf p0 p1 \<Longrightarrow> pf p0 (snd (F x p1))) \<Longrightarrow>
    pf p0 (snd (let (x, p1) = R p in F x p1))"
  using pf_tail [OF assms] by (simp add: split_def Let_def)

lemmas next_eq_frame = pf_let_eq [OF pNext_pf] pf_let_eq [OF pNextOrEnd_pf]

lemma pf_rec:
  assumes "\<And>q. length (pBuf q) < n \<Longrightarrow> pf q (snd (R q))"
  shows "pf p0 q \<Longrightarrow> length (pBuf q) < n \<Longrightarrow> pf p0 (snd (R q))"
  using assms pf_trans by blast

lemmas progress = pNext_le pNext_less pNextOrEnd_le pNextOrEnd_less pNext_tok_less

lemma idLoop_pf: "pf p (snd (idLoop p))"
proof (induction p rule: measure_induct_rule [of "\<lambda>p. length (pBuf p)"])
  case (less p)
  show ?case
    by (subst idLoop.simps)
      (intro next_eq_frame pf_ctrl pf_updCmd keepsHead_upd pf_refl pf_rec [OF less] | assumption | (auto dest: progress)[1])+
qed


lemma parseEnable_pf: "pf p (snd (parseEnable p))"
proof (induction p rule: measure_induct_rule [of "\<lambda>p. length (pBuf p)"])
  case (less p)
  show ?case
    by (subst parseEnable.simps)
      (intro next_eq_frame pf_ctrl pf_updCmd keepsHead_upd pf_refl pf_rec [OF less] | assumption | (auto dest: progress)[1])+
qed

lemma optionLoop_pf:
  assumes "\<And>o1. keepsHead (add o1)"
  shows "pf p (snd (optionLoop names e1 e2 add p))"
proof (induction p rule: measure_induct_rule [of "\<lambda>p. length (pBuf p)"])
  case (less p)
  show ?case
    by (subst optionLoop.simps)
      (intro next_eq_frame pf_ctrl pf_updCmd assms pf_refl pf_rec [OF less] | assumption | (auto dest!: progress)[1])+
qed

lemma statusLoop_pf: "pf p (snd (statusLoop p))"
proof (induction p rule: measure_induct_rule [of "\<lambda>p. length (pBuf p)"])
  case (less p)
  show ?case
    by (subst statusLoop.simps)
      (intro next_eq_frame pf_ctrl pf_updCmd keepsHead_upd pf_refl pf_rec [OF less] | assumption | (auto dest: progress)[1])+
qed

lemma fetchItems_pf: "pf p (snd (fetchItems p))"
proof (induction p rule: measure_induct_rule [of "\<lambda>p. length (pBuf p)"])
  case (less p)
  show ?case
    by (subst fetchItems.simps)
      (intro next_eq_frame pf_ctrl pf_updCmd keepsHead_upd pf_refl pf_rec [OF less] | assumption | (auto dest: progress)[1])+
qed

lemma fetchModifiers_pf: "pf p (snd (fetchModifiers p))"
proof (induction p rule: measure_induct_rule [of "\<lambda>p. length (pBuf p)"])
  case (less p)
  show ?case
    by (subst fetchModifiers.simps)
      (intro next_eq_frame pf_ctrl pf_updCmd keepsHead_upd pf_refl pf_rec [OF less] | assumption | (auto dest!: progress)[1])+
qed

lemma storeFlagLoop_pf: "pf p (storeFlagLoop p)"
proof (induction p rule: measure_induct_rule [of "\<lambda>p. length (pBuf p)"])
  case (less p)
  obtain ok p1 where r: "pNext TokenFlag p = (ok, p1)" by fastforce
  let ?q = "updCmd (\<lambda>c. c\<lparr>cmdStore := (cmdStore c)\<lparr>storeFlags := storeFlags (cmdStore c) @ [pVal p1]\<rparr>\<rparr>) p1"
  have a: "pf p p1" using pf_eq [OF pNext_pf r] .
  have b: "pf p ?q" by (rule pf_updCmd [OF a keepsHead_upd(18)])
  have "ok \<Longrightarrow> pf ?q (storeFlagLoop ?q)" using less [of ?q] pNext_less r by simp
  then have "ok \<Longrightarrow> pf p (storeFlagLoop ?q)" using pf_trans [OF b] by blast
  then show ?case using a by (simp add: storeFlagLoop.simps [of p] r)
qed

lemma pushMailboxes_pf: "pf p (snd (pushMailboxes p))"
proof (induction p rule: measure_induct_rule [of "\<lambda>p. length (pBuf p)"])
  case (less p)
  show ?case
    by (subst pushMailboxes.simps)
      (intro next_eq_frame pf_ctrl pf_upd pf_refl pf_rec [OF less] | assumption | (auto dest!: progress)[1])+
qed

lemma pushParam_pf: "pf p (snd (pushParam p))"
  unfolding pushParam_def pushString_def
  by (intro frame pf_tail [OF pushMailboxes_pf] pf_refl | assumption)+

lemma pushLoop_pf: "pf p (snd (pushLoop p))"
proof (induction p rule: measure_induct_rule [of "\<lambda>p. length (pBuf p)"])
  case (less p)
  show ?case
    by (subst pushLoop.simps)
      (intro next_eq_frame pf_let_eq [OF pushParam_pf] pf_ctrl pf_refl pf_rec [OF less] | assumption
        | (auto dest!: progress pushParam_le)[1])+
qed

lemma qresync_pf: "pf p (snd (qresyncMatch n p))" "pf p (snd (qresyncUIDs n p))" "pf p (snd (parseQresync n p))"
proof -
  show 1: "pf p (snd (qresyncMatch n p))" for p
    unfolding qresyncMatch_def by (intro frame pf_refl | assumption)+
  show 2: "pf p (snd (qresyncUIDs n p))" for p
    unfolding qresyncUIDs_def by (intro frame pf_tail [OF 1] pf_refl | assumption)+
  show "pf p (snd (parseQresync n p))"
    unfolding parseQresync_def by (intro frame pf_tail [OF 2] pf_refl | assumption)+
qed

lemma selectParams_pf: "pf p (snd (selectParams n p))"
proof (induction p rule: measure_induct_rule [of "\<lambda>p. length (pBuf p)"])
  case (less p)
  show ?case
    by (subst selectParams.simps)
      (intro next_eq_frame pf_let_eq [OF qresync_pf(3)] pf_ctrl pf_updCmd keepsHead_upd pf_refl pf_rec [OF less] | assumption
        | (auto dest!: progress parseQresync_le)[1])+
qed

lemma endOfLine_pf: "pf p (snd (endOfLine n p))"
  unfolding endOfLine_def by (intro frame pf_refl | assumption)+

lemma list_pf: "pf p (snd (listReturn p))" "pf p (snd (parseList p))"
proof -
  note ol = pf_tail [OF optionLoop_pf] 
  show 1: "pf p (snd (listReturn p))" for p
    unfolding listReturn_def by (intro frame ol pf_refl | assumption)+
  obtain ok p1 where r: "pNext TokenListStart p = (ok, p1)" by fastforce
  have "pf p (snd (if ok then optionLoop ns e1 e2 addSelectOption p1 else (More, p1)))" for ns e1 e2
    using pf_eq [OF pNext_pf r] by (intro frame ol | assumption)+
  then show "pf p (snd (parseList p))"
    using 1 by (simp add: parseList_def r Let_def split_def) (intro frame conjI impI pf_tail [OF 1] | assumption | simp)+
qed

lemma idPart_pf: "pf p (snd (parseID p))"
proof -
  obtain ok p1 where r: "pNext TokenUnknown p = (ok, p1)" by fastforce
  have a: "pf p p1" using pf_eq [OF pNext_pf r] .
  obtain r2 p2 where i: "idLoop p1 = (r2, p2)" by fastforce
  have "pf p p2" using pf_trans [OF a pf_eq [OF idLoop_pf i]] .
  with a show ?thesis by (simp add: parseID_def r i)
qed

lemma status_pf: "pf p (snd (parseStatus p))"
  unfolding parseStatus_def by (intro frame pf_let [OF statusLoop_pf] pf_refl | assumption)+

lemma fetch_pf:
  "pf p (snd (fetchItemList p))" "pf p (snd (fetchWhat p))" "pf p (snd (fetchTail p))" "pf p (snd (parseFetch p))"
proof -
  show 1: "pf p (snd (fetchItemList p))" for p
    unfolding fetchItemList_def by (intro frame pf_let [OF fetchItems_pf] pf_refl | assumption)+
  show 2: "pf p (snd (fetchWhat p))" for p
    unfolding fetchWhat_def by (intro frame pf_tail [OF 1] pf_refl | assumption)+
  show 3: "pf p (snd (fetchTail p))" for p
    unfolding fetchTail_def by (intro frame pf_let [OF fetchModifiers_pf] pf_refl | assumption)+
  show "pf p (snd (parseFetch p))"
    unfolding parseFetch_def by (intro frame pf_let [OF 2] pf_tail [OF 3] pf_refl | assumption)+
qed

lemma store_pf: "pf p (snd (storeModifier p))" "pf p (snd (parseStore p))"
proof -
  show 1: "pf p (snd (storeModifier p))" for p
    unfolding storeModifier_def by (intro frame pf_refl | assumption)+
  show "pf p (snd (parseStore p))"
    unfolding parseStore_def
    by (intro frame pf_let [OF 1] pf_trans [OF _ storeFlagLoop_pf] pf_refl | assumption)+
qed

lemma select_pf: "pf p (snd (parseSelect p))"
  unfolding parseSelect_def by (intro frame pf_let [OF selectParams_pf] pf_let [OF endOfLine_pf] pf_refl | assumption)+

lemma push_pf: "pf p (snd (parsePush p))"
  unfolding parsePush_def by (intro frame pf_tail [OF pushLoop_pf] pf_refl | assumption)+

lemma nextKey_pf: "pf p (snd (nextKey p))"
  unfolding nextKey_def by (intro frame pf_refl | assumption)+

lemma nextKey_less: "nextKey p = (True, q) \<Longrightarrow> length (pBuf q) < length (pBuf p)"
  by (auto simp: nextKey_def split: prod.splits if_splits dest: pNext_less)

lemma key_pf:
  "pf p (snd (headerKey p))" "pf p (snd (modseqNumber p))" "pf p (snd (modseqKey p))" "pf p (snd (leafKey k p))"
proof -
  show 1: "pf p (snd (headerKey p))" for p
    unfolding headerKey_def by (intro frame pf_refl | assumption)+
  show 2: "pf p (snd (modseqNumber p))" for p
    unfolding modseqNumber_def by (intro frame pf_refl | assumption)+
  show 3: "pf p (snd (modseqKey p))" for p
    unfolding modseqKey_def by (intro frame pf_tail [OF 2] pf_refl | assumption)+
  show "pf p (snd (leafKey k p))"
    unfolding leafKey_def by (intro frame pf_tail [OF 1] pf_tail [OF 3] pf_refl | assumption)+
qed

text \<open>What a search key parse produces, and that it returns when there is fuel: the conjunction is proved in one induction
  over the two mutually recursive functions.\<close>

fun wfOp :: "SearchOp \<Rightarrow> bool" where
  "wfOp (SearchOp k cs v n q d) \<longleftrightarrow>
     k \<in> set searchKeys \<and> (\<forall>c\<in>set cs. wfOp c) \<and>
     (if k = ''NOT'' then length cs = 1 else if k = ''OR'' then length cs = 2
      else if k = ''AND'' then 2 \<le> length cs else cs = [])"

lemma leaf_step:
  "(let (ok, p1) = R in if \<not> ok then (Inl (e p1), p1) else (Inr (SearchOp key cs (v p1) (n p1) (sq p1) (d p1)), p1)) = (Inr op, q) \<Longrightarrow>
   opKey op = key \<and> opChildren op = cs"
  by (auto simp: Let_def split: prod.splits if_splits)

lemma leafKey_shape:
  assumes l: "leafKey k p = (Inr op, q)"
  shows "opKey op = k \<and> opChildren op = []"
proof -
  have h: "headerKey p = (Inr op, q) \<Longrightarrow> opKey op = ''HEADER'' \<and> opChildren op = []" for op q
    by (auto simp: headerKey_def Let_def split: prod.splits if_splits)
  have m: "modseqKey p = (Inr op, q) \<Longrightarrow> opKey op = ''MODSEQ'' \<and> opChildren op = []" for op q
    by (auto simp: modseqKey_def modseqNumber_def split: prod.splits if_splits sum.splits)
  note d = leafKey_def [of k p]
  show ?thesis
  proof (cases "k \<in> set plainKeys")
    case True
    then show ?thesis using l by (simp only: d if_True prod.inject sum.inject) auto
  next
    case n1: False
    show ?thesis
    proof (cases "k \<in> set stringKeys")
      case True
      show ?thesis using l unfolding d if_not_P [OF n1] if_P [OF True] by (rule leaf_step)
    next
      case n2: False
      show ?thesis
      proof (cases "k = ''KEYWORD'' \<or> k = ''UNKEYWORD''")
        case True
        show ?thesis using l unfolding d if_not_P [OF n1] if_not_P [OF n2] if_P [OF True] by (rule leaf_step)
      next
        case n3: False
        show ?thesis
        proof (cases "k \<in> set dateKeys")
          case True
          show ?thesis using l unfolding d if_not_P [OF n1] if_not_P [OF n2] if_not_P [OF n3] if_P [OF True]
            by (rule leaf_step)
        next
          case n4: False
          note e = if_not_P [OF n1] if_not_P [OF n2] if_not_P [OF n3] if_not_P [OF n4]
          show ?thesis
          proof (cases "k = ''LARGER'' \<or> k = ''SMALLER''")
            case True
            then have n5: "k \<noteq> ''HEADER''" by auto
            show ?thesis using l unfolding d e if_not_P [OF n5] if_P [OF True] by (rule leaf_step)
          next
            case n6: False
            show ?thesis
            proof (cases "k = ''UID'' \<or> k = ''UNDRAFT''")
              case True
              then have n5: "k \<noteq> ''HEADER''" by auto
              show ?thesis using l unfolding d e if_not_P [OF n5] if_not_P [OF n6] if_P [OF True] by (rule leaf_step)
            next
              case n7: False
              show ?thesis using l h m unfolding d e if_not_P [OF n6] if_not_P [OF n7]
                by (cases "k = ''HEADER''"; cases "k = ''MODSEQ''") simp_all
            qed
          qed
        qed
      qed
    qed
  qed
qed

lemma searchKeyOf_key: "searchKeyOf v = Some key \<Longrightarrow> key \<in> set searchKeys"
  by (auto simp: searchKeyOf_def searchKeys_def split: if_splits)

definition goodKey :: "bool \<Rightarrow> parser \<Rightarrow> searchResult option \<Rightarrow> bool" where
  "goodKey bound p r \<longleftrightarrow>
     (bound \<longrightarrow> r \<noteq> None) \<and> (\<forall>x q. r = Some (x, q) \<longrightarrow> pf p q \<and> (\<forall>op. x = Inr op \<longrightarrow> wfOp op))"
lemma goodKey_err: "pf p q \<Longrightarrow> goodKey bnd p (Some (Inl e, q))"
  by (simp add: goodKey_def)

lemma goodKey_op: "pf p q \<Longrightarrow> wfOp op \<Longrightarrow> goodKey bnd p (Some (Inr op, q))"
  by (simp add: goodKey_def)

lemma goodKey_bind:
  assumes "goodKey bq q r" "pf p q" "bnd \<Longrightarrow> bq"
    and "\<And>op q'. wfOp op \<Longrightarrow> pf p q' \<Longrightarrow> length (pBuf q') \<le> length (pBuf q) \<Longrightarrow> goodKey bnd p (f op q')"
  shows "goodKey bnd p (case r of None \<Rightarrow> None | Some (Inl e, q') \<Rightarrow> Some (Inl e, q') | Some (Inr op, q') \<Rightarrow> f op q')"
proof (cases r)
  case None
  then show ?thesis using assms(1,3) by (auto simp: goodKey_def)
next
  case (Some a)
  obtain x q' where a: "a = (x, q')" by (cases a)
  have q: "pf q q'" and w: "\<forall>op. x = Inr op \<longrightarrow> wfOp op" using assms(1) Some a by (auto simp: goodKey_def)
  have "pf p q'" using pf_trans assms(2) q .
  then show ?thesis using Some a w assms(4) pf_length [OF q] by (cases x) (simp_all add: goodKey_err)
qed

lemma search_total:
  "goodKey (2 * length (pBuf p) + 2 \<le> n) p (parseSearchKey n p) \<and>
   ((\<forall>c\<in>set cs. wfOp c) \<longrightarrow> goodKey (2 * length (pBuf p) + 1 \<le> n) p (keyList n cs p))"
proof (induction n arbitrary: p cs)
  case 0
  then show ?case by (simp add: goodKey_def)
next
  case (Suc n)
  note IHk = Suc.IH [THEN conjunct1] and IHl = Suc.IH [THEN conjunct2, rule_format]
  obtain ok1 p1 where r1: "nextKey p = (ok1, p1)" by fastforce
  have a1: "pf p p1" using pf_eq [OF nextKey_pf r1] .
  have l1: "ok1 \<Longrightarrow> length (pBuf p1) < length (pBuf p)" using nextKey_less r1 by simp
  have not_op: "goodKey (2 * length (pBuf p) + 2 \<le> Suc n) p
      (if \<not> ok1 then Some (Inl e, p1) else case parseSearchKey n p1 of None \<Rightarrow> None
        | Some (Inl e, p2) \<Rightarrow> Some (Inl e, p2) | Some (Inr ch, p2) \<Rightarrow> Some (Inr (mkOp ''NOT'' [ch]), p2))" for e
  proof (cases ok1)
    case True
    then have "goodKey (2 * length (pBuf p) + 2 \<le> Suc n) p (case parseSearchKey n p1 of None \<Rightarrow> None
        | Some (Inl e, p2) \<Rightarrow> Some (Inl e, p2) | Some (Inr ch, p2) \<Rightarrow> Some (Inr (mkOp ''NOT'' [ch]), p2))"
      using l1 by (intro goodKey_bind [OF IHk a1]) (auto intro!: goodKey_op simp: searchKeys_def)
    with True show ?thesis by simp
  qed (simp add: goodKey_err a1)
  have or_op: "goodKey (2 * length (pBuf p) + 2 \<le> Suc n) p
      (if \<not> ok1 then Some (Inl e, p1) else case parseSearchKey n p1 of None \<Rightarrow> None
        | Some (Inl e, p2) \<Rightarrow> Some (Inl e, p2)
        | Some (Inr ch1, p2) \<Rightarrow>
          (let (ok, p3) = nextKey p2 in
           if \<not> ok then Some (Inl e', p3) else case parseSearchKey n p3 of None \<Rightarrow> None
             | Some (Inl e, p4) \<Rightarrow> Some (Inl e, p4) | Some (Inr ch2, p4) \<Rightarrow> Some (Inr (mkOp ''OR'' [ch1, ch2]), p4)))" for e e'
  proof (cases ok1)
    case True
    have "goodKey (2 * length (pBuf p) + 2 \<le> Suc n) p
        (let (ok, p3) = nextKey p2 in
           if \<not> ok then Some (Inl e', p3) else case parseSearchKey n p3 of None \<Rightarrow> None
             | Some (Inl e, p4) \<Rightarrow> Some (Inl e, p4) | Some (Inr ch2, p4) \<Rightarrow> Some (Inr (mkOp ''OR'' [ch1, ch2]), p4))"
      if "wfOp ch1" "pf p p2" "length (pBuf p2) \<le> length (pBuf p1)" for ch1 p2
    proof -
      obtain ok3 p3 where r3: "nextKey p2 = (ok3, p3)" by fastforce
      have a3: "pf p p3" using pf_trans [OF that(2) pf_eq [OF nextKey_pf r3]] .
      have l3: "ok3 \<Longrightarrow> length (pBuf p3) < length (pBuf p2)" using nextKey_less r3 by simp
      show ?thesis
      proof (cases ok3)
        case ok3: True
        have "goodKey (2 * length (pBuf p) + 2 \<le> Suc n) p (case parseSearchKey n p3 of None \<Rightarrow> None
             | Some (Inl e, p4) \<Rightarrow> Some (Inl e, p4) | Some (Inr ch2, p4) \<Rightarrow> Some (Inr (mkOp ''OR'' [ch1, ch2]), p4))"
          using l1 [OF True] l3 [OF ok3] that
          by (intro goodKey_bind [OF IHk a3]) (auto intro!: goodKey_op simp: searchKeys_def)
        with ok3 r3 show ?thesis by simp
      qed (simp add: r3 goodKey_err a3)
    qed
    then have "goodKey (2 * length (pBuf p) + 2 \<le> Suc n) p (case parseSearchKey n p1 of None \<Rightarrow> None
        | Some (Inl e, p2) \<Rightarrow> Some (Inl e, p2)
        | Some (Inr ch1, p2) \<Rightarrow>
          (let (ok, p3) = nextKey p2 in
           if \<not> ok then Some (Inl e', p3) else case parseSearchKey n p3 of None \<Rightarrow> None
             | Some (Inl e, p4) \<Rightarrow> Some (Inl e, p4) | Some (Inr ch2, p4) \<Rightarrow> Some (Inr (mkOp ''OR'' [ch1, ch2]), p4)))"
      using l1 [OF True] by (intro goodKey_bind [OF IHk a1]) simp_all
    with True show ?thesis by simp
  qed (simp add: goodKey_err a1)
  have leaf: "goodKey (2 * length (pBuf p) + 2 \<le> Suc n) p (Some (leafKey k p))"
    if k: "k \<in> set searchKeys" "k \<noteq> ''NOT''" "k \<noteq> ''OR''" "k \<noteq> ''AND''" for k
  proof -
    obtain x q where r: "leafKey k p = (x, q)" by fastforce
    have "pf p q" using pf_eq [OF key_pf(4) r] .
    moreover have "wfOp op" if "x = Inr op" for op
      using leafKey_shape [of k p op q] r that k by (cases op) simp
    ultimately show ?thesis by (simp add: r goodKey_def)
  qed
  have lst: "goodKey (2 * length (pBuf p) + 2 \<le> Suc n) p (keyList n [] p)"
    using IHl [of "[]" p] by (auto simp: goodKey_def)
  have key: "goodKey (2 * length (pBuf p) + 2 \<le> Suc n) p (parseSearchKey (Suc n) p)"
  proof (cases "pSeqs p = []")
    case False
    then show ?thesis by (simp add: goodKey_def pf_refl searchKeys_def)
  next
    case True
    show ?thesis
    proof (cases "searchKeyOf (pVal p)")
      case None
      with True show ?thesis by (simp add: goodKey_err pf_refl)
    next
      case (Some k)
      have "k \<in> set searchKeys" using searchKeyOf_key Some .
      then show ?thesis
        using not_op or_op leaf [of k] lst True Some r1
        by (cases "k = ''NOT''"; cases "k = ''OR''"; cases "k = ''AND''") simp_all
    qed
  qed
  have "goodKey (2 * length (pBuf p) + 1 \<le> Suc n) p (keyList (Suc n) cs p)" if cs: "\<forall>c\<in>set cs. wfOp c"
  proof (cases ok1)
    case False
    then show ?thesis by (simp add: r1 goodKey_err a1)
  next
    case ok1: True
    show ?thesis
    proof (cases "pVal p1 = '')''")
      case True
      have "wfOp op" if "(case cs of [] \<Rightarrow> Inl e | [c] \<Rightarrow> Inr c | _ \<Rightarrow> Inr (mkOp ''AND'' cs)) = (Inr op :: goerr + SearchOp)" for op e
        using that cs by (auto simp: searchKeys_def split: list.splits)
      then show ?thesis using True ok1 a1 by (simp add: r1 goodKey_def)
    next
      case False
      have "goodKey (2 * length (pBuf p) + 1 \<le> Suc n) p (case parseSearchKey n p1 of None \<Rightarrow> None
        | Some (Inl e, p2) \<Rightarrow> Some (Inl e, p2) | Some (Inr ch, p2) \<Rightarrow> keyList n (cs @ [ch]) p2)"
      proof (rule goodKey_bind [OF IHk a1])
        show "2 * length (pBuf p) + 1 \<le> Suc n \<Longrightarrow> 2 * length (pBuf p1) + 2 \<le> n" using l1 [OF ok1] by simp
        show "goodKey (2 * length (pBuf p) + 1 \<le> Suc n) p (keyList n (cs @ [ch]) p2)"
          if "wfOp ch" "pf p p2" "length (pBuf p2) \<le> length (pBuf p1)" for ch p2
        proof -
          have "goodKey (2 * length (pBuf p2) + 1 \<le> n) p2 (keyList n (cs @ [ch]) p2)"
            by (rule IHl) (use that cs in auto)
          then show ?thesis using that l1 [OF ok1] pf_trans [OF that(2)] by (auto simp: goodKey_def)
        qed
      qed
      with ok1 False show ?thesis by (simp add: r1)
    qed
  qed
  with key show ?case by blast
qed

lemma searchLoop_total:
  "(2 * length (pBuf p) + 3 \<le> n \<longrightarrow> searchLoop n cs p \<noteq> None) \<and>
   (\<forall>err q. searchLoop n cs p = Some (err, q) \<longrightarrow> pf p q \<and>
      (err = None \<and> (\<forall>c\<in>set cs. wfOp c) \<longrightarrow> (\<exists>op. searchOp (cmdSearch (pCommand q)) = Some op \<and> wfOp op)))"
proof (induction n arbitrary: p cs)
  case 0
  then show ?case by simp
next
  case (Suc n)
  have k: "goodKey (2 * length (pBuf p) + 2 \<le> n) p (parseSearchKey n p)" using search_total by blast
  show ?case
  proof (cases "parseSearchKey n p")
    case None
    then show ?thesis using k by (simp add: goodKey_def)
  next
    case (Some a)
    obtain x p1 where x: "parseSearchKey n p = Some (x, p1)" using Some by (cases a) simp
    have a1: "pf p p1" and w: "\<forall>op. x = Inr op \<longrightarrow> wfOp op" using k x by (auto simp: goodKey_def)
    show ?thesis
    proof (cases x)
      case (Inl e)
      then show ?thesis using x pf_upd(7) [OF a1] by simp
    next
      case (Inr ch)
      obtain ok p2 where r2: "pNextOrEnd TokenSearchKey p1 = (ok, p2)" by fastforce
      define p3 where "p3 = (if ok then upperVal p2 else p2)"
      have a2: "pf p p2" using pf_trans [OF a1 pf_eq [OF pNextOrEnd_pf r2]] .
      then have a3: "pf p p3" by (simp add: p3_def pf_upd)
      have l3: "ok \<Longrightarrow> length (pBuf p3) < length (pBuf p)"
        using pNextOrEnd_less r2 pf_length [OF a1] by (fastforce simp: p3_def)
      let ?cs = "cs @ [ch]"
      have ih: "(2 * length (pBuf p3) + 3 \<le> n \<longrightarrow> searchLoop n ?cs p3 \<noteq> None) \<and>
         (\<forall>err q. searchLoop n ?cs p3 = Some (err, q) \<longrightarrow> pf p3 q \<and>
            (err = None \<and> (\<forall>c\<in>set ?cs. wfOp c) \<longrightarrow> (\<exists>op. searchOp (cmdSearch (pCommand q)) = Some op \<and> wfOp op)))"
        by (rule Suc.IH)
      have step: "searchLoop (Suc n) cs p =
          (if ok \<and> pTok p3 \<noteq> TokenEnd then searchLoop n ?cs p3
           else Some (scanError (pScanner p3),
             updSearch (\<lambda>q. q\<lparr>searchOp := Some (if length ?cs = 1 then ch else mkOp ''AND'' ?cs)\<rparr>) p3))"
        by (simp add: x Inr r2 p3_def Let_def)
      have wch: "wfOp ch" using w Inr by simp
      show ?thesis
      proof (cases "ok \<and> pTok p3 \<noteq> TokenEnd")
        case True
        then show ?thesis unfolding step using ih l3 wch pf_trans [OF a3] by simp
      next
        case False
        have "wfOp (if length ?cs = 1 then ch else mkOp ''AND'' ?cs)" if "\<forall>c\<in>set cs. wfOp c"
          using that wch by (cases cs) (auto simp: searchKeys_def)
        then show ?thesis unfolding step if_not_P [OF False]
          using pf_upd(7) [OF a3] by (auto simp: updSearch_def updCmd_def)
      qed
    qed
  qed
qed

lemma search_parts_pf:
  "pf p (snd (searchCharsetPart p))" "pf p (snd (returnLoop p))" "pf p (snd (searchReturnPart p))"
proof -
  show "pf p (snd (searchCharsetPart p))"
    unfolding searchCharsetPart_def by (intro frame pf_let [OF nextKey_pf] pf_refl | assumption)+
  show 2: "pf p (snd (returnLoop p))" for p
  proof (induction p rule: measure_induct_rule [of "\<lambda>p. length (pBuf p)"])
    case (less p)
    show ?case
      by (subst returnLoop.simps)
        (intro pf_let_eq [OF nextKey_pf] pf_ctrl pf_upd pf_refl pf_rec [OF less] | assumption | (auto dest!: nextKey_less)[1])+
  qed
  show "pf p (snd (searchReturnPart p))"
    unfolding searchReturnPart_def
    by (intro frame pf_let [OF nextKey_pf] pf_let [OF 2] pf_refl | assumption)+
qed

lemma parseSearchCommands_total:
  "\<exists>err q. parseSearchCommands p = Some (err, q) \<and> pf p q \<and>
     (err = None \<longrightarrow> (\<exists>op. searchOp (cmdSearch (pCommand q)) = Some op \<and> wfOp op))"
proof -
  obtain ok p1 where r1: "nextKey p = (ok, p1)" by fastforce
  obtain e2 p2 where r2: "searchCharsetPart p1 = (e2, p2)" by fastforce
  obtain e3 p3 where r3: "searchReturnPart p2 = (e3, p3)" by fastforce
  have a1: "pf p p1" using pf_eq [OF nextKey_pf r1] .
  have a2: "pf p p2" using pf_trans [OF a1 pf_eq [OF search_parts_pf(1) r2]] .
  have a3: "pf p p3" using pf_trans [OF a2 pf_eq [OF search_parts_pf(3) r3]] .
  obtain e q where l: "searchLoop (searchFuel p3) [] p3 = Some (e, q)"
    using searchLoop_total [of p3 "searchFuel p3" "[]"] by (auto simp: searchFuel_def)
  then have q: "pf p3 q" "e = None \<longrightarrow> (\<exists>op. searchOp (cmdSearch (pCommand q)) = Some op \<and> wfOp op)"
    using searchLoop_total [of p3 "searchFuel p3" "[]"] by auto
  have "pf p q" using pf_trans [OF a3 q(1)] .
  then show ?thesis using a1 a2 a3 q(2) l
    by (cases e2; cases e3) (simp_all add: parseSearchCommands_def r1 r2 r3)
qed

text \<open>The flag loop of APPEND, when it returns.\<close>

lemma appendFlags_pf:
  assumes "appendFlags err p = Some x"
  shows "pf p (snd x)"
proof (rule appendFlags.raw_induct [where P = "\<lambda>err p x. pf p (snd x)", OF _ assms])
  fix f :: "goerr option \<Rightarrow> parser \<Rightarrow> (goerr option \<times> parser) option" and err p x
  assume ih: "\<And>err p x. f err p = Some x \<Longrightarrow> pf p (snd x)"
  obtain ok p1 where r1: "pNextOrEnd TokenListEnd p = (ok, p1)" by fastforce
  obtain ok2 p2 where r2: "pNext TokenFlag p1 = (ok2, p2)" by fastforce
  have a1: "pf p p1" using pf_eq [OF pNextOrEnd_pf r1] .
  have a2: "pf p p2" using pf_trans [OF a1 pf_eq [OF pNext_pf r2]] .
  let ?q = "updCmd (\<lambda>c. c\<lparr>cmdAppendFlags := cmdAppendFlags c @ [pVal p2]\<rparr>) p2"
  have a3: "pf p ?q" by (rule pf_updCmd [OF a2 keepsHead_upd(13)])
  assume "(let (ok, p1) = pNextOrEnd TokenListEnd p in
      if ok then Some (err, p1) else
      let (ok, p2) = pNext TokenFlag p1 in
      if \<not> ok then f (Some (Errorf ''APPEND expecting flag, got token %s'' [tokenString (pTok p2)])) p2
      else f err (updCmd (\<lambda>c. c\<lparr>cmdAppendFlags := cmdAppendFlags c @ [pVal p2]\<rparr>) p2)) = Some x"
  then show "pf p (snd x)" using ih a1 pf_trans [OF a2] pf_trans [OF a3]
    by (cases ok; cases ok2) (auto simp: r1 r2)
qed

lemma append_pf:
  "pf p (snd (appendLiteral p))"
  "appendFlagList p = Some (r, q) \<Longrightarrow> pf p q" "parseAppend p = Some (r, q) \<Longrightarrow> pf p q"
proof -
  show 1: "pf p (snd (appendLiteral p))" for p
    unfolding appendLiteral_def missingLiteral_def by (intro frame pf_refl | assumption)+
  show 2: "pf p q" if h: "appendFlagList p = Some (r, q)" for p q r
  proof -
    obtain err p1 where f: "appendFlags None p = Some (err, p1)"
      using h by (cases "appendFlags None p") (auto simp: appendFlagList_def)
    have a1: "pf p p1" using appendFlags_pf [OF f] by simp
    obtain ok p2 where n: "pNext TokenUnknown p1 = (ok, p2)" by fastforce
    have a2: "pf p p2" using pf_trans [OF a1 pf_eq [OF pNext_pf n]] .
    have "pf p (snd (appendLiteral p2))" using pf_trans [OF a2 1] .
    then show ?thesis using h a1 f n by (auto simp: appendFlagList_def split: option.splits if_splits)
  qed
  show "pf p q" if "parseAppend p = Some (r, q)"
  proof -
    obtain r1 p1 where m: "mailboxArg ''APPEND bad mailbox name: %v'' ''APPEND missing mailbox name'' p = (r1, p1)" by fastforce
    obtain ok p2 where n: "pNext TokenUnknown p1 = (ok, p2)" by fastforce
    have a1: "pf p p1" using pf_eq [OF mailboxArg_pf m] .
    have a2: "pf p p2" using pf_trans [OF a1 pf_eq [OF pNext_pf n]] .
    have "pf p (snd (appendLiteral p2))" using pf_trans [OF a2 1] .
    then show ?thesis using that a1 a2 m n 2 [of p2 r q] pf_trans [OF a2]
      by (auto simp: parseAppend_def missingLiteral_def split: if_splits)
  qed
qed

lemma commandArgs_pf: "commandArgs p = Some (r, q) \<Longrightarrow> pf p q"
  using simple_pf [of p] pf_refl [of p] append_pf(3) [of p r q]
    list_pf(2) [of p] status_pf [of p] fetch_pf(4) [of p] store_pf(2) [of p] select_pf [of p] push_pf [of p] idPart_pf [of p]
    parseEnable_pf [of p] parseSearchCommands_total [of p]
  unfolding commandArgs_def Let_def by (auto split: if_splits)

subsection \<open>Accepted commands\<close>

lemma token_keep:
  "peekChar s = (b, s1) \<Longrightarrow> token s1 = token s" "readChar s = (b, s1) \<Longrightarrow> token s1 = token s"
  using peekChar_adv [of True s] readChar_adv [of True s] by (simp_all add: adv_def)

lemma tag_value:
  assumes "nextToken TokenTag False s = (True, t)"
  shows "val t \<noteq> []"
proof -
  let ?w = "consumeWhitespace (clear s)"
  obtain b s1 where r1: "peekChar ?w = (b, s1)" by fastforce
  obtain ab s2 where r2: "readToken TokenTag b s1 = (ab, s2)" by fastforce
  have nb: "b \<noteq> NUL" and ab: "\<not> ab" and c: "checkToken TokenTag False s2 = (True, t)"
    using assms by (auto simp: nextToken_def r1 r2 split: if_splits)
  have t: "t = s2" "token s2 = TokenTag" using checkToken_success [OF c] by auto
  have s1: "token s1 = TokenUnknown"
    using adv_trans [OF consumeWhitespace_adv adv_eq [OF peekChar_adv r1], of True] by (simp add: adv_def)
  obtain ok s3 where r3: "readTag s1 = (ok, s3)" by fastforce
  have u: "token s3 = TokenUnknown" using readTag_adv [of True s1] s1 r3 by (simp add: adv_def)
  have e: "readExpected TokenTag b s1 = (False, if ok then s3\<lparr>token := TokenTag\<rparr> else s3)"
    by (simp add: readExpected_def accept_def r3)
  have ok: "ok" "s2 = s3\<lparr>token := TokenTag\<rparr>"
    using r2 t(2) e u by (auto simp: readToken_def setErr_def s1 split: if_splits prod.splits dest!: token_keep)
  have "length (val s1) < length (val s3)"
    using charLoop_eats r3 ok(1) unfolding readTag_def by fastforce
  then show ?thesis using t(1) ok(2) by auto
qed

lemma commandName_ok:
  "commandName p = (err, q) \<Longrightarrow>
   pScanner q = (pScanner p)\<lparr>val := asciiUpper (pVal p)\<rparr> \<and> pMode q = pMode p \<and> pCmdLit q = pCmdLit p \<and>
   cmdTag (pCommand q) = cmdTag (pCommand p) \<and> cmdUID (pCommand q) = cmdUID (pCommand p) \<and>
   (err = None \<longrightarrow> cmdName (pCommand q) \<in> set commands)"
  by (auto simp: commandName_def Let_def upperVal_def updCmd_def split: if_splits)

lemma uidPrefix_ok:
  assumes "uidPrefix p = (None, q)"
  shows "length (pBuf q) \<le> length (pBuf p) \<and> suffix (pBuf q) (pBuf p) \<and> pMode q = pMode p \<and>
    cmdTag (pCommand q) = cmdTag (pCommand p) \<and>
    (if cmdName (pCommand p) = ''UID'' then cmdUID (pCommand q) \<and> cmdName (pCommand q) \<in> set uidCommands
     else q = p)"
proof (cases "cmdName (pCommand p) = ''UID''")
  case False
  then show ?thesis using assms by (simp add: uidPrefix_def)
next
  case True
  let ?p = "updCmd (\<lambda>c. c\<lparr>cmdUID := True\<rparr>) p"
  obtain ok p1 where r1: "pNext TokenAtom ?p = (ok, p1)" by fastforce
  obtain err p2 where r2: "commandName p1 = (err, p2)" by fastforce
  have a1: "pf ?p p1" using pf_eq [OF pNext_pf r1] .
  note c = commandName_ok [OF r2]
  have ok: "err = None" "q = p2" "cmdName (pCommand p2) \<in> set uidCommands"
    using assms True by (auto simp: uidPrefix_def r1 r2 split: if_splits)
  show ?thesis using a1 c ok True pf_length [OF a1] by (simp add: pf_def)
qed

lemma commandHead_ok:
  assumes "commandHead p = (None, q)" "cmdTag (pCommand p) = []" "\<not> cmdUID (pCommand p)"
  shows "length (pBuf q) < length (pBuf p) \<and> suffix (pBuf q) (pBuf p) \<and> pMode q = pMode p \<and>
    cmdTag (pCommand q) \<noteq> [] \<and> cmdName (pCommand q) \<in> set commands \<and> goodMode (cmdName (pCommand q)) (pMode p) \<and>
    (cmdUID (pCommand q) \<longrightarrow> cmdName (pCommand q) \<in> set uidCommands)"
proof -
  obtain ok1 p1 where r1: "pNext TokenTag p = (ok1, p1)" by fastforce
  let ?p1 = "updCmd (\<lambda>c. c\<lparr>cmdTag := cmdTag c @ pVal p1\<rparr>) p1"
  obtain ok2 p2 where r2: "pNext TokenAtom ?p1 = (ok2, p2)" by fastforce
  obtain e3 p3 where r3: "commandName p2 = (e3, p3)" by fastforce
  obtain e4 p4 where r4: "uidPrefix p3 = (e4, p4)" by fastforce
  have ok: ok1 ok2 "e3 = None" "e4 = None" "q = p4" "goodMode (cmdName (pCommand p4)) (pMode p4)"
    using assms(1) by (auto simp: commandHead_def r1 r2 r3 r4 split: if_splits)
  have a1: "pf p p1" using pf_eq [OF pNext_pf r1] .
  have a2: "pf ?p1 p2" using pf_eq [OF pNext_pf r2] .
  have l: "length (pBuf p1) < length (pBuf p)" using pNext_less r1 ok(1) by simp
  have "nextToken TokenTag False (pScanner p) = (True, pScanner p1)"
    using r1 ok(1) by (auto simp: pNext_def Next_def split: prod.splits)
  then have v: "pVal p1 \<noteq> []" by (rule tag_value)
  note c = commandName_ok [OF r3]
  have u: "length (pBuf p4) \<le> length (pBuf p3) \<and> suffix (pBuf p4) (pBuf p3) \<and> pMode p4 = pMode p3 \<and>
    cmdTag (pCommand p4) = cmdTag (pCommand p3) \<and>
    (if cmdName (pCommand p3) = ''UID'' then cmdUID (pCommand p4) \<and> cmdName (pCommand p4) \<in> set uidCommands else p4 = p3)"
    using uidPrefix_ok r4 ok(4) by simp
  have sub: "set uidCommands \<subseteq> set commands" by (simp add: uidCommands_def commands_def)
  have sf: "suffix (pBuf p4) (pBuf p)"
  proof -
    have "suffix (pBuf p3) (pBuf p)" using a1 a2 c suffix_order.trans by (fastforce simp: pf_def)
    then show ?thesis using u suffix_order.trans by blast
  qed
  have len: "length (pBuf p4) < length (pBuf p)" using l u c pf_length [OF a2] by simp
  show ?thesis
  proof (cases "cmdName (pCommand p3) = ''UID''")
    case True
    then show ?thesis using a1 a2 c u v ok sf len sub by (auto simp: pf_def)
  next
    case False
    then show ?thesis using a1 a2 c u v ok sf len assms(3) by (auto simp: pf_def)
  qed
qed

lemma start_simps [simp]:
  "pCommand (resetParser (shareLiteral p)) = emptyCommand" "pMode (resetParser (shareLiteral p)) = pMode p"
  "pBuf (resetParser (shareLiteral p)) = pBuf p" "scanError (pScanner (resetParser (shareLiteral p))) = scanError (pScanner p)"
  "ioErr (pScanner (resetParser (shareLiteral p))) = ioErr (pScanner p)"
  by (simp_all add: resetParser_def shareLiteral_def Let_def updCmd_def)

lemma emptyCommand_simps [simp]:
  "cmdTag emptyCommand = []" "cmdUID emptyCommand = False" "cmdName emptyCommand = []" "cmdMailbox emptyCommand = []"
  "cmdUsername emptyCommand = []" "cmdPassword emptyCommand = []" "cmdParams emptyCommand = []"
  by (simp_all add: emptyCommand_def)

text \<open>The push parameters of an accepted XAPPLEPUSHSERVICE are there.\<close>

definition hasPush :: "parser \<Rightarrow> bool" where
  "hasPush p \<longleftrightarrow> cmdPush (pCommand p) \<noteq> None"

lemma hasPush_next: "pNext t p = (ok, q) \<Longrightarrow> hasPush q = hasPush p" "pNextOrEnd t p = (ok, q) \<Longrightarrow> hasPush q = hasPush p"
  by (auto simp: pNext_def pNextOrEnd_def hasPush_def split: prod.splits)

lemma hasPush_upd [simp]: "hasPush (updPush f p) = hasPush p"
  by (simp add: hasPush_def updPush_def)

lemma pushMailboxes_push: "pushMailboxes p = (r, q) \<Longrightarrow> hasPush p \<Longrightarrow> hasPush q"
proof (induction p rule: pushMailboxes.induct)
  case (1 p)
  obtain ok1 p1 where r1: "pNext TokenListEnd p = (ok1, p1)" by fastforce
  obtain ok2 p2 where r2: "pNext TokenString p1 = (ok2, p2)" by fastforce
  show ?case using 1 hasPush_next(1) [OF r1] hasPush_next(1) [OF r2]
    by (fastforce simp: pushMailboxes.simps [of p] r1 r2 split: if_splits)
qed

lemma pushParam_push: "pushParam p = (r, q) \<Longrightarrow> hasPush p \<Longrightarrow> hasPush q"
  by (auto simp: pushParam_def pushString_def hasPush_next split: if_splits prod.splits dest: pushMailboxes_push)

lemma pushLoop_push: "pushLoop p = (r, q) \<Longrightarrow> hasPush p \<Longrightarrow> hasPush q"
proof (induction p rule: pushLoop.induct)
  case (1 p)
  obtain ok p1 where r1: "pNextOrEnd TokenString p = (ok, p1)" by fastforce
  obtain r2 p2 where r2: "pushParam p1 = (r2, p2)" by fastforce
  show ?case using 1 hasPush_next(2) [OF r1] pushParam_push [OF r2]
    by (fastforce simp: pushLoop.simps [of p] r1 r2 split: if_splits)
qed

lemma parsePush_push: "parsePush p = (r, q) \<Longrightarrow> hasPush q"
  unfolding parsePush_def by (erule pushLoop_push) (simp add: hasPush_def)

lemma endOfLine_push: "endOfLine n p = (r, q) \<Longrightarrow> hasPush q = hasPush p"
  by (auto simp: endOfLine_def hasPush_next split: prod.splits if_splits)

lemma ParseCommand_wf:
  assumes "ParseCommand p = Some (Ok (), q)"
  shows "cmdTag (pCommand q) \<noteq> [] \<and> cmdName (pCommand q) \<in> set commands \<and> goodMode (cmdName (pCommand q)) (pMode p) \<and>
    (cmdUID (pCommand q) \<longrightarrow> cmdName (pCommand q) \<in> set uidCommands) \<and>
    (cmdName (pCommand q) = ''SEARCH'' \<longrightarrow> (\<exists>op. searchOp (cmdSearch (pCommand q)) = Some op \<and> wfOp op)) \<and>
    suffix (pBuf q) (pBuf p) \<and> length (pBuf q) < length (pBuf p) \<and> pMode q = pMode p \<and>
    (cmdName (pCommand q) = ''XAPPLEPUSHSERVICE'' \<longrightarrow> cmdPush (pCommand q) \<noteq> None)"
proof -
  let ?p = "resetParser (shareLiteral p)"
  obtain e1 p1 where h: "commandHead ?p = (e1, p1)" by fastforce
  have b: "parseBody ?p = Some (None, q)"
    using assms by (auto simp: ParseCommand_def split_def Let_def split: option.splits if_splits)
  then have e1: "e1 = None" by (auto simp: parseBody_def h split: if_splits)
  note hd = commandHead_ok [OF h [unfolded e1], simplified]
  obtain r p2 where a: "commandArgs p1 = Some (r, p2)"
    using b e1 by (auto simp: parseBody_def h split: option.splits)
  have f: "pf p1 p2" using commandArgs_pf [OF a] .
  have q: "(r = Done None \<and> q = p2) \<or> (r = More \<and> endOfLine (cmdName (pCommand p2)) p2 = (None, q))"
    using b e1 a by (cases r) (auto simp: parseBody_def h)
  have f2: "pf p1 q" using q f pf_trans [OF f pf_eq [where R = "endOfLine (cmdName (pCommand p2))", OF endOfLine_pf]] by blast
  have "\<exists>op. searchOp (cmdSearch (pCommand q)) = Some op \<and> wfOp op" if "cmdName (pCommand q) = ''SEARCH''"
  proof -
    have n: "cmdName (pCommand p1) = ''SEARCH''" using that f2 by (simp add: pf_def)
    obtain err p3 where s: "parseSearchCommands p1 = Some (err, p3)"
        "err = None \<longrightarrow> (\<exists>op. searchOp (cmdSearch (pCommand p3)) = Some op \<and> wfOp op)"
      using parseSearchCommands_total by blast
    then have "r = Done err" "p2 = p3" using a n by (simp_all add: commandArgs_def)
    with q s(2) show ?thesis by auto
  qed
  moreover have "cmdPush (pCommand q) \<noteq> None" if "cmdName (pCommand q) = ''XAPPLEPUSHSERVICE''"
  proof -
    have "cmdName (pCommand p1) = ''XAPPLEPUSHSERVICE''" using that f2 by (simp add: pf_def)
    then have "parsePush p1 = (r, p2)" using a by (simp add: commandArgs_def)
    then have "hasPush p2" by (rule parsePush_push)
    then show ?thesis using q endOfLine_push by (fastforce simp: hasPush_def)
  qed
  ultimately show ?thesis using hd f2 pf_length [OF f2] suffix_order.trans by (fastforce simp: pf_def)
qed

text \<open>C1: Every accepted command is well-formed: its tag is not empty, its name is a known command that is allowed in the
  connection's mode, the UID mark is only set for the six commands that support the prefix, a SEARCH has an operation in
  which NOT has one operand, OR two, AND at least two and every other key none, and at least one byte of input has been consumed.\<close>

theorem ParseCommand_accepts:
  assumes "ParseCommand p = Some (Ok (), q)"
  shows "cmdTag (pCommand q) \<noteq> [] \<and> cmdName (pCommand q) \<in> set commands \<and> goodMode (cmdName (pCommand q)) (pMode p) \<and>
    (cmdUID (pCommand q) \<longrightarrow> cmdName (pCommand q) \<in> set uidCommands) \<and>
    (cmdName (pCommand q) = ''SEARCH'' \<longrightarrow> (\<exists>op. searchOp (cmdSearch (pCommand q)) = Some op \<and> wfOp op)) \<and>
    suffix (pBuf q) (pBuf p) \<and> length (pBuf q) < length (pBuf p)"
  using ParseCommand_wf [OF assms] by blast

subsection \<open>Rejected commands\<close>

lemma resetParser_empty: "pCommand (resetParser p) = emptyCommand" "pCmdLit (resetParser p) = pCmdLit p"
  "pCmdLit p \<Longrightarrow> litFile (pScanner (resetParser p)) = []"
  by (simp_all add: resetParser_def Let_def updCmd_def)

text \<open>The mode of the connection is the server's to change.\<close>

lemma parseBody_mode: "parseBody p = Some (e, q) \<Longrightarrow> pMode q = pMode p"
proof -
  assume b: "parseBody p = Some (e, q)"
  obtain e1 p1 where h: "commandHead p = (e1, p1)" by fastforce
  have m: "pMode p1 = pMode p"
    using h by (auto simp: commandHead_def commandName_def uidPrefix_def pNext_def Let_def split: prod.splits if_splits)
  show ?thesis
  proof (cases "e1 = None")
    case True
    obtain r p2 where a: "commandArgs p1 = Some (r, p2)" using b True by (auto simp: parseBody_def h split: option.splits)
    have m2: "pMode p2 = pMode p1" using commandArgs_pf [OF a] by (simp add: pf_def)
    have "pMode q' = pMode p2" if "endOfLine n p2 = (x, q')" for n x q'
      using pf_eq [where R = "endOfLine n", OF endOfLine_pf that] by (simp add: pf_def)
    then show ?thesis using b True a m m2 by (cases r) (auto simp: parseBody_def h)
  qed (use b m in \<open>auto simp: parseBody_def h\<close>)
qed

lemma ParseCommand_mode: "ParseCommand p = Some (r, q) \<Longrightarrow> pMode q = pMode p"
  by (auto simp: ParseCommand_def finishError_def resetParser_def shareLiteral_def Let_def split: option.splits if_splits prod.splits
      dest!: parseBody_mode)

text \<open>C28: Nothing of a rejected command survives: after an error every field of the parser's command is empty (the parsed
  password included) and so is the literal file; and if the tag of the command was read and the input did not fail, the error
  carries that tag, so that the reply can be tagged.\<close>

theorem ParseCommand_rejects:
  assumes "ParseCommand p = Some (Fail e, q)"
  shows "pCommand q = emptyCommand \<and> (pCmdLit q \<longrightarrow> litFile (pScanner q) = []) \<and>
    (\<exists>err p1. parseBody (resetParser (shareLiteral p)) = Some (Some err, p1) \<and>
       (cmdTag (pCommand p1) \<noteq> [] \<and> ioErr (pScanner p1) = None \<longrightarrow> e = TaggedError (cmdTag (pCommand p1)) err))"
proof -
  obtain err p1 where b: "parseBody (resetParser (shareLiteral p)) = Some (Some err, p1)" "finishError err p1 = (e, q)"
    using assms by (auto simp: ParseCommand_def split_def Let_def split: option.splits if_splits)
  let ?d = "p1\<lparr>pScanner := Drain (pScanner p1)\<rparr>"
  have q: "q = resetParser ?d"
    using b(2) by (auto simp: finishError_def Let_def split: option.splits)
  have io: "ioErr (Drain (pScanner p1)) = ioErr (pScanner p1)" by (simp add: Drain_def)
  have "cmdTag (pCommand p1) \<noteq> [] \<and> ioErr (pScanner p1) = None \<longrightarrow> e = TaggedError (cmdTag (pCommand p1)) err"
    using b(2) io by (auto simp: finishError_def Let_def split: option.splits)
  with b(1) q show ?thesis by (simp add: resetParser_empty)
qed

text \<open>A lexical error ends the connection's usefulness: once the scanner has recorded one, \<open>ParseCommand\<close> accepts no command any
  more, whatever is sent, and leaves the parser in the same condition.\<close>

theorem ParseCommand_after_scan_error:
  assumes "scanError (pScanner p) \<noteq> None"
  shows "\<exists>r q. ParseCommand p = Some (r, q) \<and> r \<noteq> Ok () \<and> scanError (pScanner q) \<noteq> None"
proof -
  let ?p = "resetParser (shareLiteral p)"
  have s: "scanError (pScanner ?p) \<noteq> None" using assms by simp
  obtain ok p1 where n: "pNext TokenTag ?p = (ok, p1)" by fastforce
  have "\<not> fst (nextToken TokenTag False (pScanner ?p))"
    using nextToken_success [of TokenTag False "pScanner ?p"] s by (metis prod.collapse)
  then have ok: "\<not> ok" using n by (auto simp: pNext_def Next_def split: prod.splits)
  have s1: "scanError (pScanner p1) \<noteq> None" using pf_eq [OF pNext_pf n] s by (simp add: pf_def)
  have b: "parseBody ?p = Some (Some (pError ''no command tag'' p1), p1)"
    using ok by (simp add: parseBody_def commandHead_def n)
  obtain e q where f: "finishError (pError ''no command tag'' p1) p1 = (e, q)" by fastforce
  have "scanError (pScanner q) = scanError (pScanner p1)"
    using f by (auto simp: finishError_def Let_def resetParser_def updCmd_def Drain_def split: option.splits if_splits)
  then show ?thesis using b f s1 by (cases "panicked (pScanner p1)") (simp_all add: ParseCommand_def)
qed

subsection \<open>Termination\<close>


text \<open>The flag loop has no exit once these hold: no later \<open>Next\<close> succeeds.\<close>

definition stuckFlags :: "parser \<Rightarrow> bool" where
  "stuckFlags p \<longleftrightarrow> scanError (pScanner p) \<noteq> None \<or> ioErr (pScanner p) \<noteq> None \<or>
     (idle (pScanner p) \<and> (\<exists>c r. pBuf p = c # r \<and> c \<in> {CHR ''%'', CHR ''*'', CHR ''('', CHR ''{'', CHR '']''}))"

end
