(* ===== verification/ImapParserRuns.thy ===== *)
theory ImapParserRuns
  imports ImapParserProps
begin

text \<open>
  \<open>ParseCommand\<close> (\<open>imap/imapparser/parser.go\<close>) on whole command lines: a well-formed LOGIN and
  FETCH line is parsed to exactly the command it spells, and the lines on which the code does
  something else than it means to: the flag list of APPEND that never ends, the lexical error that
  FETCH swallows, the command after a rejected line that is thrown away, the second literal that
  dereferences a nil pointer.
\<close>

subsection \<open>The loop of APPEND that does not end\<close>

lemma nextToken_ioErr:
  assumes "ioErr s \<noteq> None"
  shows "\<not> fst (nextToken expect allowEnd s)"
proof -
  have p: "peekChar (clear s) = (NUL, clear s)" using assms by (auto simp: peekChar_def)
  have "consumeWhitespace (clear s) = clear s" by (subst consumeWhitespace.simps) (simp add: p)
  then show ?thesis by (simp add: nextToken_def p)
qed

lemma stuck_listEnd:
  assumes "idle s" "buf s = c # r" "c \<in> {CHR ''%'', CHR ''*'', CHR ''('', CHR ''{'', CHR '']''}"
  shows "\<exists>t. nextToken TokenListEnd True s = (False, t) \<and> idle t \<and> buf t = c # r"
proof -
  have c: "c \<notin> {SP, TAB, NUL, CR, LF}" "c \<noteq> CHR '')''" using assms(3) by auto
  have "readExpected TokenListEnd c ((clear s)\<lparr>buf := c # r\<rparr>) = (False, (clear s)\<lparr>buf := c # r\<rparr>)"
    using assms(1) c by (simp add: readExpected_def acceptListEnd_def readListEnd_def peekChar_def idle_def)
  from nextToken_run [OF assms(1) _ _ c(1) this, of "[]" True] show ?thesis
    using assms(1,2) by (simp add: checkToken_def idle_def)
qed

lemma stuck_flag:
  assumes "idle s" "buf s = c # r" "c \<in> {CHR ''%'', CHR ''*'', CHR ''('', CHR ''{'', CHR '']''}"
  shows "\<exists>t. nextToken TokenFlag False s = (False, t) \<and> idle t \<and> buf t = c # r"
proof -
  have c: "c \<notin> {SP, TAB, NUL, CR, LF}" "c \<noteq> BSL" "c \<noteq> CHR '')''" using assms(3) by auto
  have "readAtom ((clear s)\<lparr>buf := c # r\<rparr>) = (False, (clear s)\<lparr>buf := c # r\<rparr>)"
    unfolding readAtom_def using assms c by (subst charLoop.simps) (auto simp: peekChar_def idle_def)
  then have "readExpected TokenFlag c ((clear s)\<lparr>buf := c # r\<rparr>) = (False, (clear s)\<lparr>buf := c # r\<rparr>)"
    using assms(1) c by (simp add: readExpected_def accept_def readFlag_def peekChar_def idle_def)
  from nextToken_run [OF assms(1) _ _ c(1) this, of "[]" False] show ?thesis
    using assms(1,2) by (simp add: checkToken_def idle_def)
qed

lemma stuck_step:
  assumes "stuckFlags p" "pNextOrEnd TokenListEnd p = (ok, p1)" "pNext TokenFlag p1 = (ok2, p2)"
  shows "\<not> ok \<and> \<not> ok2 \<and> stuckFlags p2"
proof -
  have n1: "nextToken TokenListEnd True (pScanner p) = (ok, pScanner p1)"
    using assms(2) by (auto simp: pNextOrEnd_def NextOrEnd_def split: prod.splits)
  have n2: "nextToken TokenFlag False (pScanner p1) = (ok2, pScanner p2)"
    using assms(3) by (auto simp: pNext_def Next_def split: prod.splits)
  have f1: "pf p p1" and f2: "pf p1 p2" using pf_eq [OF pNextOrEnd_pf assms(2)] pf_eq [OF pNext_pf assms(3)] .
  consider (scan) "scanError (pScanner p) \<noteq> None" | (io) "ioErr (pScanner p) \<noteq> None"
    | (chr) c r where "idle (pScanner p)" "pBuf p = c # r" "c \<in> {CHR ''%'', CHR ''*'', CHR ''('', CHR ''{'', CHR '']''}"
    using assms(1) by (auto simp: stuckFlags_def)
  then show ?thesis
  proof cases
    case scan
    then have "scanError (pScanner p1) \<noteq> None" using f1 by (simp add: pf_def)
    with scan show ?thesis using nextToken_success [of TokenListEnd True "pScanner p" "pScanner p1"]
        nextToken_success [of TokenFlag False "pScanner p1" "pScanner p2"] n1 n2 f2
      by (cases ok; cases ok2) (auto simp: stuckFlags_def pf_def)
  next
    case io
    then have io1: "ioErr (pScanner p1) \<noteq> None" using f1 by (auto simp: pf_def)
    then have "ioErr (pScanner p2) \<noteq> None" using f2 by (auto simp: pf_def)
    with io io1 show ?thesis using nextToken_ioErr [of "pScanner p" TokenListEnd True] nextToken_ioErr [of "pScanner p1" TokenFlag False] n1 n2
      by (auto simp: stuckFlags_def)
  next
    case chr
    obtain t where t: "nextToken TokenListEnd True (pScanner p) = (False, t)" "idle t" "buf t = c # r"
      using stuck_listEnd [OF chr] by blast
    then have p1: "\<not> ok" "idle (pScanner p1)" "pBuf p1 = c # r" using n1 by auto
    obtain u where "nextToken TokenFlag False (pScanner p1) = (False, u)" "idle u" "buf u = c # r"
      using stuck_flag [OF p1(2,3) chr(3)] by blast
    then show ?thesis using p1(1) n2 chr(3) by (auto simp: stuckFlags_def)
  qed
qed

lemma stuck_diverges:
  assumes "appendFlags err p = Some x"
  shows "\<not> stuckFlags p"
proof (rule appendFlags.raw_induct [where P = "\<lambda>err p x. \<not> stuckFlags p", OF _ assms])
  fix f :: "goerr option \<Rightarrow> parser \<Rightarrow> (goerr option \<times> parser) option" and err p x
  assume ih: "\<And>err p x. f err p = Some x \<Longrightarrow> \<not> stuckFlags p"
  obtain ok p1 where r1: "pNextOrEnd TokenListEnd p = (ok, p1)" by fastforce
  obtain ok2 p2 where r2: "pNext TokenFlag p1 = (ok2, p2)" by fastforce
  assume "(let (ok, p1) = pNextOrEnd TokenListEnd p in
      if ok then Some (err, p1) else
      let (ok, p2) = pNext TokenFlag p1 in
      if \<not> ok then f (Some (Errorf ''APPEND expecting flag, got token %s'' [tokenString (pTok p2)])) p2
      else f err (updCmd (\<lambda>c. c\<lparr>cmdAppendFlags := cmdAppendFlags c @ [pVal p2]\<rparr>) p2)) = Some x"
  then show "\<not> stuckFlags p" using ih stuck_step [OF _ r1 r2] by (cases x) (auto simp: r1 r2)
qed

text \<open>The flag list of APPEND can hang the parser: when a lexical error is pending, when the input has ended, or when the
  next byte cannot start a flag (as in \<open>APPEND x (%\<close>), the loop \<open>continue\<close>s \<open>until we find list end\<close> without ever consuming a byte
  again and does not return.\<close>

theorem append_flags_diverge:
  assumes "stuckFlags p"
  shows "appendFlags err p = None"
  using stuck_diverges [of err p] assms by (cases "appendFlags err p") auto

subsection \<open>Command lines\<close>

lemma clear_upd [simp]:
  "clear (s\<lparr>buf := b\<rparr>) = (clear s)\<lparr>buf := b\<rparr>" "clear (s\<lparr>val := v\<rparr>) = clear s"
  "clear (s\<lparr>token := t\<rparr>) = clear s" "clear (s\<lparr>seqs := q\<rparr>) = clear s" "clear (clear s) = clear s"
  "clear (s\<lparr>listDepth := n\<rparr>) = (clear s)\<lparr>listDepth := n\<rparr>" "clear (s\<lparr>contLog := l\<rparr>) = (clear s)\<lparr>contLog := l\<rparr>"
  "clear (s\<lparr>fitem := f\<rparr>) = clear s"
  by (simp_all add: clear_def)

lemma clear_panicked [simp]: "hasLiteral (clear s) = hasLiteral s" "hasContFn (clear s) = hasContFn s"
  "listDepth (clear s) = listDepth s" "contLog (clear s) = contLog s"
  by (simp_all add: clear_def)

abbreviation startP :: "parser \<Rightarrow> parser" where
  "startP p \<equiv> resetParser (shareLiteral p)"

abbreviation ready :: "parser \<Rightarrow> bool" where
  "ready p \<equiv> idle (pScanner p) \<and> \<not> panicked (pScanner p)"

lemma ready_start: "ready p \<Longrightarrow> ready (startP p)"
  by (simp add: resetParser_def shareLiteral_def Let_def updCmd_def idle_def)

lemma pNext_run: "nextToken t False (pScanner p) = (ok, s) \<Longrightarrow> pNext t p = (ok, p\<lparr>pScanner := s\<rparr>)"
  by (simp add: pNext_def Next_def)

lemma pNextOrEnd_run: "nextToken t True (pScanner p) = (ok, s) \<Longrightarrow> pNextOrEnd t p = (ok, p\<lparr>pScanner := s\<rparr>)"
  by (simp add: pNextOrEnd_def NextOrEnd_def)

definition knownName :: "bytes \<Rightarrow> bytes \<Rightarrow> bool" where
  "knownName name n \<longleftrightarrow> atomBytes name \<and> asciiUpper name = n \<and> n \<in> set commands \<and> n \<noteq> ''UID''"

lemma commandHead_run:
  assumes "idle (pScanner p)" "pBuf p = tag @ SP # name @ d # r" "tagBytes tag" "d \<in> {SP, CR}" "knownName name n"
    "goodMode n (pMode p)"
  shows "commandHead p = (None, p\<lparr>pScanner := (clear (pScanner p))\<lparr>buf := d # r, val := n, token := TokenAtom\<rparr>,
    pCommand := (pCommand p)\<lparr>cmdTag := cmdTag (pCommand p) @ tag, cmdName := n\<rparr>\<rparr>)"
proof -
  let ?s1 = "(clear (pScanner p))\<lparr>buf := SP # name @ d # r, val := tag, token := TokenTag\<rparr>"
  have 1: "nextToken TokenTag False (pScanner p) = (True, ?s1)"
    using Next_tag [of "pScanner p" "[]" tag SP "name @ d # r" False] assms by simp
  have 2: "nextToken TokenAtom False ?s1 = (True, (clear (pScanner p))\<lparr>buf := d # r, val := name, token := TokenAtom\<rparr>)"
    using Next_atom [of ?s1 "[SP]" name d r False] assms by (auto simp: knownName_def)
  have n: "n \<in> set commands" "n \<noteq> ''UID''" "asciiUpper name = n" using assms(5) by (simp_all add: knownName_def)
  let ?p2 = "updCmd (\<lambda>c. c\<lparr>cmdTag := cmdTag c @ tag\<rparr>) (p\<lparr>pScanner := ?s1\<rparr>)"
  have h2: "pNext TokenAtom ?p2 = (True, ?p2\<lparr>pScanner := (clear (pScanner p))\<lparr>buf := d # r, val := name, token := TokenAtom\<rparr>\<rparr>)"
    using 2 by (intro pNext_run) simp
  show ?thesis
    using n assms(6) h2
    by (simp add: commandHead_def pNext_run [OF 1] commandName_def upperVal_def uidPrefix_def updCmd_def)
qed

lemma endOfLine_run:
  assumes "idle (pScanner p)" "pBuf p = CRLF @ r"
  shows "endOfLine n p = (None, p\<lparr>pScanner := (clear (pScanner p))\<lparr>buf := r, token := TokenEnd\<rparr>\<rparr>)"
  using Next_end [of "pScanner p" "[]" r] assms by (simp add: endOfLine_def pNext_def)

lemma login_run:
  assumes "ready p" "pMode p = ModeNonAuth" "tagBytes tag" "knownName name ''LOGIN''" "textBytes u" "textBytes w"
    and "pBuf p = tag @ SP # name @ SP # quoteString u @ SP # quoteString w @ CRLF @ r"
  shows "\<exists>q. ParseCommand p = Some (Ok (), q) \<and> pBuf q = r \<and> ready q \<and> pMode q = ModeNonAuth \<and>
    pCommand q = emptyCommand\<lparr>cmdTag := tag, cmdName := ''LOGIN'', cmdUsername := u, cmdPassword := w\<rparr>"
proof -
  let ?p = "startP p" let ?s = "clear (pScanner ?p)"
  have i: "idle (pScanner ?p)" "\<not> panicked (pScanner ?p)" using ready_start [OF assms(1)] by simp_all
  let ?r1 = "quoteString w @ CR # LF # r"
  let ?p1 = "?p\<lparr>pScanner := ?s\<lparr>buf := SP # quoteString u @ SP # ?r1, val := ''LOGIN'', token := TokenAtom\<rparr>,
      pCommand := emptyCommand\<lparr>cmdTag := tag, cmdName := ''LOGIN''\<rparr>\<rparr>"
  have h: "commandHead ?p = (None, ?p1)"
    using commandHead_run [of ?p tag name SP "quoteString u @ SP # ?r1" "''LOGIN''"] assms i
    by (simp add: goodMode_def)
  have 1: "nextToken TokenString False (pScanner ?p1) = (True, ?s\<lparr>buf := SP # ?r1, val := u, token := TokenString\<rparr>)"
    using Next_quoted [of "pScanner ?p1" "[SP]" u "SP # ?r1" False] i(1) assms(5) by simp
  let ?p2 = "updCmd (\<lambda>c. c\<lparr>cmdUsername := cmdUsername c @ u\<rparr>) (?p1\<lparr>pScanner := ?s\<lparr>buf := SP # ?r1, val := u, token := TokenString\<rparr>\<rparr>)"
  have 2: "nextToken TokenString False (pScanner ?p2) = (True, ?s\<lparr>buf := CR # LF # r, val := w, token := TokenString\<rparr>)"
    using Next_quoted [of "pScanner ?p2" "[SP]" w "CR # LF # r" False] i(1) assms(6) by simp
  let ?p3 = "?p\<lparr>pScanner := ?s\<lparr>buf := CR # LF # r, val := w, token := TokenString\<rparr>,
      pCommand := emptyCommand\<lparr>cmdTag := tag, cmdName := ''LOGIN'', cmdUsername := u, cmdPassword := w\<rparr>\<rparr>"
  have "parseLogin ?p1 = (More, ?p3)"
    using pNext_run [OF 1] pNext_run [OF 2] by (simp add: parseLogin_def updCmd_def)
  then have a: "commandArgs ?p1 = Some (More, ?p3)" by (simp add: commandArgs_def)
  have e: "endOfLine n ?p3 = (None, ?p3\<lparr>pScanner := ?s\<lparr>buf := r, token := TokenEnd\<rparr>\<rparr>)" for n
    using endOfLine_run [of ?p3 r n] i(1) by simp
  show ?thesis using i assms(2) by (simp add: ParseCommand_def parseBody_def h a e)
qed

text \<open>A well-formed LOGIN line is parsed to exactly what it says, whatever the parser did before: for every tag and every
  user name and password without NUL, CR and LF, sent as quoted strings, the command has that tag, that user name and that password and
  every other field empty, and the parser stands right behind the line.\<close>

theorem login_roundtrip:
  assumes "ready p" "pMode p = ModeNonAuth" "tagBytes tag" "knownName name ''LOGIN''" "textBytes u" "textBytes w"
    and "pBuf p = tag @ SP # name @ SP # quoteString u @ SP # quoteString w @ CRLF @ r"
  shows "\<exists>q. ParseCommand p = Some (Ok (), q) \<and> pBuf q = r \<and> ready q \<and> pMode q = ModeNonAuth \<and>
    pCommand q = emptyCommand\<lparr>cmdTag := tag, cmdName := ''LOGIN'', cmdUsername := u, cmdPassword := w\<rparr>"
  using login_run assms by blast

lemma known_names: "knownName ''login'' ''LOGIN''" "knownName ''APPEND'' ''APPEND''" "knownName ''ENABLE'' ''ENABLE''"
  by code_simp+

theorem login_roundtrip_witness:
  "\<exists>q. ParseCommand (NewParser (NewScanner (''a1 login '' @ quoteString ''joe'' @ SP # quoteString [CHR ''x'', DQ] @ CRLF) EOF True True) ModeNonAuth)
      = Some (Ok (), q) \<and> cmdPassword (pCommand q) = [CHR ''x'', DQ]"
  using login_roundtrip [of "NewParser (NewScanner (''a1 login '' @ quoteString ''joe'' @ SP # quoteString [CHR ''x'', DQ] @ CRLF) EOF True True) ModeNonAuth"
      "''a1''" "''login''" "''joe''" "[CHR ''x'', DQ]" "[]"]
  by (auto simp: NewParser_def NewScanner_def idle_def tagBytes_def known_names is7bitPrint_def textBytes_def)

subsection \<open>Lines with an unexpected outcome\<close>

lemma nextToken_listStart:
  assumes "idle s" "buf s = ws @ CHR ''('' # r" "spaces ws"
  shows "nextToken TokenUnknown allowEnd s =
    (True, (clear s)\<lparr>buf := r, listDepth := listDepth s + 1, token := TokenListStart\<rparr>)"
proof -
  have "readExpected TokenUnknown (CHR ''('') ((clear s)\<lparr>buf := CHR ''('' # r\<rparr>) =
      (False, (clear s)\<lparr>buf := r, listDepth := listDepth s + 1, token := TokenListStart\<rparr>)"
    using assms(1) by (simp add: readExpected_def readDefault_def accept_def readListStart_def peekChar_def readChar_def idle_def)
  from nextToken_run [OF assms(1,2,3) _ this, of allowEnd] show ?thesis
    using assms(1) by (simp add: checkToken_def idle_def)
qed

definition appendPrefix :: "bytes \<Rightarrow> bytes \<Rightarrow> bytes" where
  "appendPrefix tag mbox = tag @ SP # ''APPEND'' @ SP # quoteString mbox @ [SP]"

lemma appendHead_run:
  assumes "ready p" "pMode p \<noteq> ModeNonAuth" "tagBytes tag" "textBytes mbox" "asciiUpper mbox \<noteq> ''INBOX''"
    "AppendDecode [] mbox = Ok m" "pBuf p = appendPrefix tag mbox @ r"
  shows "\<exists>p1 p2. commandHead (startP p) = (None, p1) \<and> cmdName (pCommand p1) = ''APPEND'' \<and>
    mailboxArg ''APPEND bad mailbox name: %v'' ''APPEND missing mailbox name'' p1 = (More, p2) \<and>
    ready p2 \<and> pBuf p2 = SP # r \<and> hasLiteral (pScanner p2) = hasLiteral (pScanner (startP p))"
proof -
  let ?p = "startP p" let ?s = "clear (pScanner ?p)"
  have i: "idle (pScanner ?p)" "\<not> panicked (pScanner ?p)" using ready_start [OF assms(1)] by simp_all
  have md: "pMode p = ModeAuth \<or> pMode p = ModeSelected" using assms(2) by (cases "pMode p") auto
  let ?p1 = "?p\<lparr>pScanner := ?s\<lparr>buf := SP # quoteString mbox @ SP # r, val := ''APPEND'', token := TokenAtom\<rparr>,
      pCommand := emptyCommand\<lparr>cmdTag := tag, cmdName := ''APPEND''\<rparr>\<rparr>"
  note k = known_names(2)
  have h: "commandHead ?p = (None, ?p1)"
    using commandHead_run [of ?p tag "''APPEND''" SP "quoteString mbox @ SP # r" "''APPEND''"] assms i md k
    by (auto simp: goodMode_def appendPrefix_def)
  have n: "nextToken TokenString False (pScanner ?p1) = (True, ?s\<lparr>buf := SP # r, val := mbox, token := TokenString\<rparr>)"
    using Next_quoted [of "pScanner ?p1" "[SP]" mbox "SP # r" False] i(1) assms(4) by simp
  have "parseMailbox ?p1 = ((True, None), updCmd (\<lambda>c. c\<lparr>cmdMailbox := m\<rparr>)
      (?p1\<lparr>pScanner := ?s\<lparr>buf := SP # r, val := mbox, token := TokenString\<rparr>\<rparr>))"
    using assms(5,6) by (simp add: parseMailbox_def pNext_run [OF n])
  then show ?thesis using h i by (auto simp: mailboxArg_def)
qed

lemma append_hangs_run:
  assumes "ready p" "pMode p \<noteq> ModeNonAuth" "tagBytes tag" "textBytes mbox" "asciiUpper mbox \<noteq> ''INBOX''"
    "AppendDecode [] mbox = Ok m" "c \<in> {CHR ''%'', CHR ''*'', CHR ''('', CHR ''{'', CHR '']''}"
    "pBuf p = appendPrefix tag mbox @ CHR ''('' # c # r"
  shows "ParseCommand p = None"
proof -
  obtain p1 p2 where h: "commandHead (startP p) = (None, p1)" "cmdName (pCommand p1) = ''APPEND''"
    and m: "mailboxArg ''APPEND bad mailbox name: %v'' ''APPEND missing mailbox name'' p1 = (More, p2)"
    and p2: "ready p2" "pBuf p2 = SP # CHR ''('' # c # r"
    using appendHead_run [OF assms(1-6,8)] by blast
  let ?s3 = "(clear (pScanner p2))\<lparr>buf := c # r, listDepth := listDepth (pScanner p2) + 1, token := TokenListStart\<rparr>"
  have n: "nextToken TokenUnknown False (pScanner p2) = (True, ?s3)"
    using nextToken_listStart [of "pScanner p2" "[SP]" "c # r" False] p2 by simp
  have "stuckFlags (p2\<lparr>pScanner := ?s3\<rparr>)" using p2(1) assms(7) by (simp add: stuckFlags_def)
  then have "appendFlagList (p2\<lparr>pScanner := ?s3\<rparr>) = None"
    using stuck_diverges [of None "p2\<lparr>pScanner := ?s3\<rparr>"]
    by (cases "appendFlags None (p2\<lparr>pScanner := ?s3\<rparr>)") (auto simp: appendFlagList_def)
  then have "parseAppend p1 = None" by (simp add: parseAppend_def m pNext_run [OF n])
  then show ?thesis using h by (simp add: ParseCommand_def parseBody_def commandArgs_def)
qed

text \<open>One line is enough to hang a connection's parser: after \<open>tag APPEND mailbox (\<close> a byte that no flag starts with
  (percent, star, a second parenthesis, a brace or a bracket) makes \<open>ParseCommand\<close> not return, whatever follows.\<close>

theorem append_line_hangs:
  assumes "ready p" "pMode p \<noteq> ModeNonAuth" "tagBytes tag" "textBytes mbox" "asciiUpper mbox \<noteq> ''INBOX''"
    "AppendDecode [] mbox = Ok m" "c \<in> {CHR ''%'', CHR ''*'', CHR ''('', CHR ''{'', CHR '']''}"
    "pBuf p = appendPrefix tag mbox @ CHR ''('' # c # r"
  shows "ParseCommand p = None"
  using append_hangs_run assms by blast

theorem append_flags_diverge_witness:
  "appendFlags None (NewParser (NewScanner ''%)'' EOF True True) ModeAuth) = None"
  using append_flags_diverge [of "NewParser (NewScanner ''%)'' EOF True True) ModeAuth" None]
  by (simp add: stuckFlags_def NewParser_def NewScanner_def idle_def)

theorem append_line_hangs_witness:
  "ParseCommand (NewParser (NewScanner (appendPrefix ''a'' ''x'' @ ''(%) {3}'') EOF True True) ModeAuth) = None"
proof -
  have a: "AppendDecode [] ''x'' = Ok ''x''" by code_simp
  have u: "asciiUpper ''x'' \<noteq> ''INBOX''" by code_simp
  show ?thesis
    using append_line_hangs [of "NewParser (NewScanner (appendPrefix ''a'' ''x'' @ ''(%) {3}'') EOF True True) ModeAuth"
        "''a''" "''x''" "''x''" "CHR ''%''" "'') {3}''"] a u
    by (simp add: NewParser_def NewScanner_def idle_def tagBytes_def is7bitPrint_def textBytes_def)
qed

lemma enable_run:
  assumes "ready p" "pMode p \<noteq> ModeNonAuth" "tagBytes tag" "LF \<notin> set line"
    "pBuf p = tag @ SP # ''ENABLE'' @ CRLF @ line @ LF # r"
  shows "\<exists>q. ParseCommand p = Some (Fail (TaggedError tag (errf ''ENABLE missing required argument'')), q) \<and> pBuf q = r"
proof -
  let ?p = "startP p" let ?s = "clear (pScanner ?p)"
  have i: "idle (pScanner ?p)" "\<not> panicked (pScanner ?p)" using ready_start [OF assms(1)] by simp_all
  have md: "pMode p = ModeAuth \<or> pMode p = ModeSelected" using assms(2) by (cases "pMode p") auto
  let ?p1 = "?p\<lparr>pScanner := ?s\<lparr>buf := CR # LF # line @ LF # r, val := ''ENABLE'', token := TokenAtom\<rparr>,
      pCommand := emptyCommand\<lparr>cmdTag := tag, cmdName := ''ENABLE''\<rparr>\<rparr>"
  let ?p2 = "?p1\<lparr>pScanner := ?s\<lparr>buf := line @ LF # r, token := TokenEnd\<rparr>\<rparr>"
  have h: "commandHead ?p = (None, ?p1)"
    using commandHead_run [of ?p tag "''ENABLE''" CR "LF # line @ LF # r" "''ENABLE''"] assms i md known_names(3)
    by (auto simp: goodMode_def)
  have n: "nextToken TokenAtom True (pScanner ?p1) = (True, ?s\<lparr>buf := line @ LF # r, token := TokenEnd\<rparr>)"
    using nextToken_crlf [of "pScanner ?p1" "[]" "line @ LF # r" TokenAtom True] i(1)
    by (simp add: checkToken_def idle_def)
  have "parseEnable ?p1 = (Done (Some (errf ''ENABLE missing required argument'')), ?p2)"
    by (subst parseEnable.simps) (simp add: pNextOrEnd_run [OF n])
  then have a: "commandArgs ?p1 = Some (Done (Some (errf ''ENABLE missing required argument'')), ?p2)"
    by (simp add: commandArgs_def)
  have d: "dropWhile (\<lambda>b. b \<noteq> LF) (line @ LF # r) = LF # r"
    using assms(4) by (intro dropWhile_all_append) auto
  have t: "tag \<noteq> []" using assms(3) by (simp add: tagBytes_def)
  have l: "\<not> lastWasCRLF ?s" by (simp add: clear_def)
  have "fst (finishError (errf ''ENABLE missing required argument'') ?p2) =
      TaggedError tag (errf ''ENABLE missing required argument'')"
    "pBuf (snd (finishError (errf ''ENABLE missing required argument'') ?p2)) = r"
    using i(1) t d l by (simp_all add: finishError_def Let_def Drain_def idle_def resetParser_def updCmd_def)
  then show ?thesis using i by (simp add: ParseCommand_def parseBody_def h a split_def Let_def)
qed

text \<open>A rejected line takes the next one with it: \<open>ENABLE\<close> without an argument is refused after its CRLF has been read, and the
  deferred \<open>Drain\<close>, which takes the token for a failed one, then discards everything up to the next line feed, that is, the
  following command.\<close>

theorem enable_discards_next_line:
  assumes "ready p" "pMode p \<noteq> ModeNonAuth" "tagBytes tag" "LF \<notin> set line"
    "pBuf p = tag @ SP # ''ENABLE'' @ CRLF @ line @ LF # r"
  shows "\<exists>q. ParseCommand p = Some (Fail (TaggedError tag (errf ''ENABLE missing required argument'')), q) \<and> pBuf q = r"
  using enable_run assms by blast

theorem enable_discards_next_line_witness:
  "\<exists>q e. ParseCommand (NewParser (NewScanner (''a ENABLE'' @ CRLF @ ''b LOGOUT'' @ CRLF @ ''c NOOP'' @ CRLF) EOF True True) ModeAuth)
      = Some (Fail e, q) \<and> pBuf q = ''c NOOP'' @ CRLF"
  using enable_discards_next_line [of "NewParser (NewScanner (''a ENABLE'' @ CRLF @ ''b LOGOUT'' @ CRLF @ ''c NOOP'' @ CRLF) EOF True True) ModeAuth"
      "''a''" "''b LOGOUT'' @ [CR]" "''c NOOP'' @ CRLF"]
  by (auto simp: NewParser_def NewScanner_def idle_def tagBytes_def is7bitPrint_def)

lemma alnumLoop_run:
  assumes "ioErr s = None" "buf s = v @ d # r" "\<forall>b\<in>set v. alphanumeric b" "\<not> alphanumeric d" "d \<noteq> NUL"
  shows "alnumLoop n s = (n < length (val s @ v), s\<lparr>buf := d # r, val := val s @ v\<rparr>)"
  using assms
proof (induction v arbitrary: s)
  case Nil
  then show ?case by (subst alnumLoop.simps) (simp add: peekChar_def)
next
  case (Cons b v)
  let ?s = "s\<lparr>val := val s @ [b], buf := v @ d # r\<rparr>"
  have b: "b \<noteq> NUL" "alphanumeric b" using Cons.prems by auto
  have "alnumLoop n s = alnumLoop n ?s"
    using Cons.prems b by (subst alnumLoop.simps) (simp add: peekChar_def readChar_def pushVal_def)
  with Cons.IH [of ?s] Cons.prems show ?case by simp
qed

text \<open>The name of a fetch item as it stands in a command.\<close>

definition itemBytes :: "bytes \<Rightarrow> bool" where
  "itemBytes v \<longleftrightarrow> v \<noteq> [] \<and> (\<forall>b\<in>set v. alphanumeric b)"

lemma alphanumeric_plain: "alphanumeric b \<Longrightarrow> b \<notin> {SP, TAB, NUL, CR, LF}"
  by (auto simp: alphanumeric_def isDigit_def)

lemma nextToken_item:
  assumes "idle s" "buf s = ws @ v @ d # r" "spaces ws" "itemBytes v" "\<not> alphanumeric d" "d \<noteq> NUL"
  shows "nextToken TokenFetchItem False s = checkToken TokenFetchItem False
    (snd (accept TokenFetchItem (fetchItemRest ((clear s)\<lparr>buf := d # r, val := v\<rparr>))))"
proof -
  obtain b v' where v: "v = b # v'" using assms(4) by (cases v) (auto simp: itemBytes_def)
  have b: "b \<notin> {SP, TAB, NUL, CR, LF}" using assms(4) alphanumeric_plain by (auto simp: itemBytes_def v)
  have "readAlphanumeric ((clear s)\<lparr>buf := v @ d # r\<rparr>) = (True, (clear s)\<lparr>buf := d # r, val := v\<rparr>)"
    using alnumLoop_run [of "(clear s)\<lparr>buf := v @ d # r\<rparr>" v d r] assms
    by (simp add: readAlphanumeric_def itemBytes_def idle_def)
  then have "readExpected TokenFetchItem b ((clear s)\<lparr>buf := v @ d # r\<rparr>) =
      (False, snd (accept TokenFetchItem (fetchItemRest ((clear s)\<lparr>buf := d # r, val := v\<rparr>))))"
    by (simp add: readExpected_def readFetchItem_def accept_def)
  with nextToken_run [OF assms(1) _ assms(3) b] assms(2) v show ?thesis by simp
qed

lemma nextToken_goodItem:
  assumes "idle s" "buf s = ws @ v @ SP # c # r" "spaces ws" "itemBytes v" "fetchItemName v = Some (t, False)" "alphanumeric c"
  shows "nextToken TokenFetchItem False s =
    (True, (clear s)\<lparr>buf := c # r, fitem := emptyItem\<lparr>itemType := t\<rparr>, token := TokenFetchItem\<rparr>)"
proof -
  have sp: "\<not> alphanumeric SP" by (simp add: alphanumeric_def isDigit_def)
  have c: "c \<noteq> SP" "c \<noteq> TAB" "c \<noteq> NUL" using alphanumeric_plain [OF assms(6)] by auto
  let ?s = "(clear s)\<lparr>buf := SP # c # r, val := v\<rparr>"
  have "fetchItemRest ?s = (True, (clear s)\<lparr>buf := c # r, fitem := emptyItem\<lparr>itemType := t\<rparr>\<rparr>)"
  proof -
    have w: "consumeWhitespace ((clear s)\<lparr>buf := SP # c # r, fitem := emptyItem\<lparr>itemType := t\<rparr>\<rparr>) =
        (clear s)\<lparr>buf := c # r, fitem := emptyItem\<lparr>itemType := t\<rparr>\<rparr>"
      using consumeWhitespace_run [of "(clear s)\<lparr>buf := SP # c # r, fitem := emptyItem\<lparr>itemType := t\<rparr>\<rparr>" "[SP]" c r] assms(1) c
      by (simp add: idle_def)
    have f: "(clear s)\<lparr>val := []\<rparr> = clear s" "fitem (clear s) = emptyItem" "itemPeek emptyItem = False"
      by (simp_all add: clear_def emptyItem_def)
    then have g: "?s\<lparr>val := [], fitem := (fitem ?s)\<lparr>itemType := t, itemPeek := itemPeek (fitem ?s)\<rparr>\<rparr> =
        (clear s)\<lparr>buf := SP # c # r, fitem := emptyItem\<lparr>itemType := t\<rparr>\<rparr>"
      by (simp add: clear_def emptyItem_def)
    show ?thesis using assms(1,5) w by (simp add: fetchItemRest_def g [simplified] peekChar_def idle_def)
  qed
  then show ?thesis
    using nextToken_item [OF assms(1,2,3,4) sp] assms(1) by (simp add: accept_def checkToken_def idle_def)
qed

lemma nextToken_badItem:
  assumes "idle s" "buf s = ws @ v @ d # r" "spaces ws" "itemBytes v" "\<not> alphanumeric d" "d \<noteq> NUL" "fetchItemName v = None"
  shows "\<exists>t. nextToken TokenFetchItem False s = (False, t) \<and> buf t = d # r \<and> panicked t = panicked s \<and>
    scanError t = Some (ErrNew ''imapparser: FETCH unknown item'')"
  using nextToken_item [OF assms(1-6)] assms(7)
  by (auto simp: accept_def fetchItemRest_def fetchErr_def checkToken_def setErr_def clear_def)

lemma nextToken_expectListStart:
  assumes "idle s" "buf s = ws @ CHR ''('' # r" "spaces ws"
  shows "nextToken TokenListStart allowEnd s =
    (True, (clear s)\<lparr>buf := r, listDepth := listDepth s + 1, token := TokenListStart\<rparr>)"
proof -
  have "readExpected TokenListStart (CHR ''('') ((clear s)\<lparr>buf := CHR ''('' # r\<rparr>) =
      (False, (clear s)\<lparr>buf := r, listDepth := listDepth s + 1, token := TokenListStart\<rparr>)"
    using assms(1) by (simp add: readExpected_def accept_def readListStart_def peekChar_def readChar_def idle_def)
  from nextToken_run [OF assms(1,2,3) _ this, of allowEnd] show ?thesis
    using assms(1) by (simp add: checkToken_def idle_def)
qed

text \<open>FETCH swallows a lexical error in its item list: \<open>return err\<close> returns the named result, which is still nil there. So
  \<open>FETCH set (FLAGS NOPE)\<close>, with any unknown item after FLAGS, is accepted as a fetch of the flags alone, the rest of the line stays in the
  input, and the scanner's error (which is never cleared) makes every later command fail.\<close>

theorem fetch_swallows_error:
  assumes "ready p" "pMode p = ModeSelected" "tagBytes tag" "knownName name ''FETCH''" "qs \<noteq> []" "\<forall>q\<in>set qs. normalRange q"
    "itemBytes bad" "fetchItemName bad = None" "\<not> alphanumeric d" "d \<noteq> NUL"
    and "pBuf p = tag @ SP # name @ SP # FormatSeqs qs @ SP # CHR ''('' # ''FLAGS'' @ SP # bad @ d # r"
  shows "\<exists>q. ParseCommand p = Some (Ok (), q) \<and> cmdSequences (pCommand q) = qs \<and>
    cmdFetchItems (pCommand q) = [emptyItem\<lparr>itemType := FetchFlags\<rparr>] \<and> pBuf q = d # r \<and>
    scanError (pScanner q) = Some (ErrNew ''imapparser: FETCH unknown item'')"
proof -
  let ?p = "startP p" let ?s = "clear (pScanner ?p)"
  have i: "idle (pScanner ?p)" "\<not> panicked (pScanner ?p)" using ready_start [OF assms(1)] by simp_all
  obtain c bad' where c: "bad = c # bad'" "alphanumeric c" using assms(7) by (cases bad) (auto simp: itemBytes_def)
  let ?r1 = "SP # CHR ''('' # ''FLAGS'' @ SP # bad @ d # r"
  let ?c0 = "emptyCommand\<lparr>cmdTag := tag, cmdName := ''FETCH''\<rparr>"
  define p1 where "p1 = ?p\<lparr>pScanner := ?s\<lparr>buf := SP # FormatSeqs qs @ ?r1, val := ''FETCH'', token := TokenAtom\<rparr>, pCommand := ?c0\<rparr>"
  have h: "commandHead ?p = (None, p1)"
    using commandHead_run [of ?p tag name SP "FormatSeqs qs @ ?r1" "''FETCH''"] assms i by (simp add: goodMode_def p1_def)
  define s2 where "s2 = ?s\<lparr>buf := ?r1, seqs := qs, token := TokenSequences\<rparr>"
  have n1: "nextToken TokenSequences False (pScanner p1) = (True, s2)"
    using Next_sequences [of "pScanner p1" "[SP]" qs SP "CHR ''('' # ''FLAGS'' @ SP # bad @ d # r" False] assms(5,6) i(1)
    by (simp add: seqEnd_def isDigit_def p1_def s2_def)
  define p2 where "p2 = updCmd (\<lambda>c. c\<lparr>cmdSequences := cmdSequences c @ qs\<rparr>) (p1\<lparr>pScanner := s2\<rparr>)"
  define s3 where "s3 = ?s\<lparr>buf := ''FLAGS'' @ SP # bad @ d # r, listDepth := listDepth (pScanner ?p) + 1, token := TokenListStart\<rparr>"
  have n2: "nextToken TokenListStart False (pScanner p2) = (True, s3)"
    using nextToken_expectListStart [of "pScanner p2" "[SP]" "''FLAGS'' @ SP # bad @ d # r" False] i(1) by (simp add: p2_def s2_def s3_def)
  define p3 where "p3 = p2\<lparr>pScanner := s3\<rparr>"
  obtain s4 where n3: "nextToken TokenFetchItem False (pScanner p3) = (True, s4)"
    and s4: "fitem s4 = emptyItem\<lparr>itemType := FetchFlags\<rparr>" "buf s4 = bad @ d # r" "idle s4" "panicked s4 = panicked (pScanner ?p)"
  proof -
    have it: "itemBytes ''FLAGS''" by (simp add: itemBytes_def alphanumeric_def)
    have nm: "fetchItemName ''FLAGS'' = Some (FetchFlags, False)" by (simp add: fetchItemName_def)
    have ii: "idle (pScanner p3)" using i(1) by (simp add: p3_def s3_def)
    have n: "nextToken TokenFetchItem False (pScanner p3) =
        (True, (clear (pScanner p3))\<lparr>buf := c # bad' @ d # r, fitem := emptyItem\<lparr>itemType := FetchFlags\<rparr>, token := TokenFetchItem\<rparr>)"
      by (rule nextToken_goodItem [OF ii _ _ it nm c(2), of "[]"]) (simp_all add: p3_def s3_def c(1))
    show thesis by (rule that [OF n]) (use i(1) c(1) in \<open>simp_all add: p3_def s3_def idle_def\<close>)
  qed
  define p4 where "p4 = updCmd (\<lambda>c. c\<lparr>cmdFetchItems := cmdFetchItems c @ [fitem s4]\<rparr>) (p3\<lparr>pScanner := s4\<rparr>)"
  obtain s5 where n4: "nextToken TokenFetchItem False (pScanner p4) = (False, s5)" and s5: "buf s5 = d # r" "panicked s5 = panicked s4"
      "scanError s5 = Some (ErrNew ''imapparser: FETCH unknown item'')"
    using nextToken_badItem [of "pScanner p4" "[]" bad d r] s4 assms(7-10) by (auto simp: p4_def)
  have f2: "fetchItems p4 = (More, p4\<lparr>pScanner := s5\<rparr>)"
    by (subst fetchItems.simps) (simp add: pNext_run [OF n4])
  have f1: "fetchItems p3 = (More, p4\<lparr>pScanner := s5\<rparr>)"
    by (subst fetchItems.simps) (simp add: pNext_run [OF n3] s4(1) f2 p4_def [symmetric, unfolded s4(1)])
  have "fetchWhat p2 = (Done None, p4\<lparr>pScanner := s5\<rparr>)"
    using s5(3) by (simp add: fetchWhat_def pNext_run [OF n2] fetchItemList_def p3_def [symmetric] f1)
  then have "parseFetch p1 = (Done None, p4\<lparr>pScanner := s5\<rparr>)"
    using p2_def by (simp add: parseFetch_def pNext_run [OF n1] s2_def)
  then have a: "commandArgs p1 = Some (Done None, p4\<lparr>pScanner := s5\<rparr>)" by (simp add: commandArgs_def p1_def)
  show ?thesis using i s4 s5 h a
    by (simp add: ParseCommand_def parseBody_def p4_def p3_def s3_def p2_def s2_def p1_def emptyCommand_def)
qed

theorem fetch_swallows_error_witness:
  "\<exists>q. ParseCommand (NewParser (NewScanner (''a FETCH 1:3 (FLAGS NOPE)'' @ CRLF) EOF True True) ModeSelected) = Some (Ok (), q) \<and>
     pBuf q = '')'' @ CRLF \<and> cmdSequences (pCommand q) = [mkSeq 1 3]"
proof -
  have k: "knownName ''FETCH'' ''FETCH''" and f: "FormatSeqs [mkSeq 1 3] = ''1:3''" by code_simp+
  have i: "itemBytes ''NOPE''" "fetchItemName ''NOPE'' = None"
    by (simp_all add: itemBytes_def alphanumeric_def fetchItemName_def)
  show ?thesis
    using fetch_swallows_error [of "NewParser (NewScanner (''a FETCH 1:3 (FLAGS NOPE)'' @ CRLF) EOF True True) ModeSelected"
        "''a''" "''FETCH''" "[mkSeq 1 3]" "''NOPE''" "CHR '')''" CRLF] k f i
    by (auto simp: NewParser_def NewScanner_def idle_def tagBytes_def is7bitPrint_def alphanumeric_def isDigit_def normalRange_def)
qed

lemma nextToken_nilLiteral:
  assumes "idle s" "\<not> hasLiteral s" "buf s = literalHead n @ r" "n < 4294967296"
  shows "panicked (snd (nextToken TokenEnd False s))"
proof -
  let ?s = "(clear s)\<lparr>buf := literalHead n @ r\<rparr>"
  have "readLiteral 0 ?s = literalData 0 n (callCont contReady n (?s\<lparr>buf := r\<rparr>))"
    using readLiteral_run [of ?s n r 0] assms by (simp add: idle_def)
  then have l: "readLiteral 0 ?s = (False, (callCont contReady n (?s\<lparr>buf := r\<rparr>))\<lparr>panicked := True\<rparr>)"
    using assms(2) by (simp add: literalData_def)
  obtain h where h: "literalHead n = CHR ''{'' # h" by (simp add: literalHead_def)
  have e: "readExpected TokenEnd (CHR ''{'') ((clear s)\<lparr>buf := CHR ''{'' # h @ r\<rparr>) =
      (False, (callCont contReady n (?s\<lparr>buf := r\<rparr>))\<lparr>panicked := True\<rparr>)"
    using l h by (simp add: readExpected_def readDefault_def accept_def)
  have "nextToken TokenEnd False s = checkToken TokenEnd False ((callCont contReady n (?s\<lparr>buf := r\<rparr>))\<lparr>panicked := True\<rparr>)"
    using nextToken_run [OF assms(1) _ _ _ e, of "[]" False] assms(3) h by simp
  then show ?thesis by (simp add: checkToken_def Let_def)
qed

text \<open>A client can crash the parser: after the literal of an APPEND the scanner's literal file is set to nil, and the check for the end
  of the line reads a second literal \<open>{n}\<close> into it, a nil pointer dereference, so \<open>ParseCommand\<close> panics instead of reporting an error.\<close>

theorem append_second_literal_panics:
  assumes "ready p" "pMode p \<noteq> ModeNonAuth" "tagBytes tag" "textBytes mbox" "asciiUpper mbox \<noteq> ''INBOX''"
    "AppendDecode [] mbox = Ok m" "hasLiteral (pScanner p) \<or> pCmdLit p" "length v < 4294967296" "n < 4294967296"
    "pBuf p = appendPrefix tag mbox @ literalHead (length v) @ v @ literalHead n @ r"
  shows "\<exists>q msg. ParseCommand p = Some (Panic msg, q)"
proof -
  obtain p1 p2 where h: "commandHead (startP p) = (None, p1)" "cmdName (pCommand p1) = ''APPEND''"
    and m: "mailboxArg ''APPEND bad mailbox name: %v'' ''APPEND missing mailbox name'' p1 = (More, p2)"
    and p2: "ready p2" "pBuf p2 = SP # literalHead (length v) @ v @ literalHead n @ r"
      "hasLiteral (pScanner p2) = hasLiteral (pScanner (startP p))"
    using appendHead_run [OF assms(1-6,10)] by blast
  have lit: "hasLiteral (pScanner p2)"
    using p2(3) assms(7) by (auto simp: resetParser_def shareLiteral_def Let_def updCmd_def)
  define s3 where "s3 = (callCont contReady (length v) (clear (pScanner p2)))\<lparr>buf := literalHead n @ r, litFile := v, token := TokenLiteral\<rparr>"
  have nx: "nextToken TokenUnknown False (pScanner p2) = (True, s3)"
    using Next_literal_file [of "pScanner p2" "[SP]" v "literalHead n @ r" False] p2(1,2) lit assms(8) by (simp add: s3_def)
  define p3 where "p3 = p2\<lparr>pScanner := s3\<lparr>hasLiteral := False\<rparr>\<rparr>"
  have "appendLiteral (p2\<lparr>pScanner := s3\<rparr>) = (More, p3)"
    by (simp add: appendLiteral_def p3_def s3_def)
  then have "parseAppend p1 = Some (More, p3)"
    by (simp add: parseAppend_def m pNext_run [OF nx]) (simp add: s3_def)
  then have a: "commandArgs p1 = Some (More, p3)" using h(2) by (simp add: commandArgs_def)
  have i3: "idle (pScanner p3)" "\<not> hasLiteral (pScanner p3)" "pBuf p3 = literalHead n @ r"
    using p2(1) by (simp_all add: p3_def s3_def)
  have "panicked (pScanner (snd (endOfLine nm p3)))" for nm
    using nextToken_nilLiteral [OF i3 assms(9)] by (simp add: endOfLine_def pNext_def Next_def split_def Let_def)
  then show ?thesis by (simp add: ParseCommand_def parseBody_def h a split_def)
qed

theorem append_second_literal_panics_witness:
  "\<exists>q msg. ParseCommand (NewParser (NewScanner (appendPrefix ''a'' ''x'' @ literalHead (length ''hi'') @ ''hi'' @ literalHead 9) EOF True True) ModeAuth)
     = Some (Panic msg, q)"
proof -
  have a: "AppendDecode [] ''x'' = Ok ''x''" and u: "asciiUpper ''x'' \<noteq> ''INBOX''" by code_simp+
  show ?thesis
    using append_second_literal_panics [of "NewParser (NewScanner (appendPrefix ''a'' ''x'' @ literalHead (length ''hi'') @ ''hi'' @ literalHead 9) EOF True True) ModeAuth"
        "''a''" "''x''" "''x''" "''hi''" 9 "[]"] a u
    by (simp add: NewParser_def NewScanner_def idle_def tagBytes_def is7bitPrint_def textBytes_def)
qed

subsection \<open>Concrete instances of the general theorems\<close>

abbreviation loginLine :: parser where
  "loginLine \<equiv> NewParser (NewScanner (''a1 login '' @ quoteString ''joe'' @ SP # quoteString ''x'' @ CRLF) EOF True True) ModeNonAuth"

theorem ParseCommand_accepts_witness:
  "\<exists>q. ParseCommand loginLine = Some (Ok (), q) \<and> cmdTag (pCommand q) \<noteq> [] \<and> goodMode (cmdName (pCommand q)) ModeNonAuth"
proof -
  obtain q where "ParseCommand loginLine = Some (Ok (), q)"
    using login_run [of loginLine "''a1''" "''login''" "''joe''" "''x''" "[]"]
    by (auto simp: NewParser_def NewScanner_def idle_def tagBytes_def known_names is7bitPrint_def textBytes_def)
  from ParseCommand_accepts [OF this] this show ?thesis by (auto simp: NewParser_def)
qed

abbreviation enableLine :: parser where
  "enableLine \<equiv> NewParser (NewScanner (''a ENABLE'' @ CRLF @ ''b LOGOUT'' @ CRLF) EOF True True) ModeAuth"

theorem ParseCommand_rejects_witness:
  "\<exists>e q. ParseCommand enableLine = Some (Fail e, q) \<and> pCommand q = emptyCommand"
proof -
  obtain e q where "ParseCommand enableLine = Some (Fail e, q)"
    using enable_run [of enableLine "''a''" "''b LOGOUT'' @ [CR]" "[]"]
    by (auto simp: NewParser_def NewScanner_def idle_def tagBytes_def is7bitPrint_def)
  from ParseCommand_rejects [OF this] this show ?thesis by auto
qed

theorem ParseCommand_after_scan_error_witness:
  "\<exists>r q. ParseCommand (NewParser (setErr (ErrNew ''x'') (NewScanner (''a NOOP'' @ CRLF) EOF True True)) ModeAuth) = Some (r, q) \<and>
     r \<noteq> Ok ()"
  using ParseCommand_after_scan_error [of "NewParser (setErr (ErrNew ''x'') (NewScanner (''a NOOP'' @ CRLF) EOF True True)) ModeAuth"]
  by (auto simp: NewParser_def)


end
