(* ===== verification/ImapSearch.thy ===== *)
theory ImapSearch
  imports ImapParserRuns
begin

text \<open>
  The evaluation of a search operation on a message (\<open>imap/imapparser/search.go\<close>).

  The interface \<open>MatchMessage\<close> is a record of what its methods return. A date is its instant in
  seconds since January 1 of year 1 and the offset of its time zone; the search dates of the parser
  are midnights in UTC.
\<close>

record matchMessage =
  mmSeqNum :: u32
  mmUID :: u32
  mmModSeq :: int
  mmFlag :: "bytes \<Rightarrow> bool"
  mmHeader :: "bytes \<Rightarrow> bytes"
  mmDate :: int
  mmZone :: int
  mmSize :: int

fun containsStr :: "bytes \<Rightarrow> bytes \<Rightarrow> bool" where
  "containsStr [] sub = (sub = [])"
| "containsStr (c # s) sub = (prefix sub (c # s) \<or> containsStr s sub)"

lemma containsStr_iff: "containsStr s sub \<longleftrightarrow> (\<exists>a b. s = a @ sub @ b)"
proof (induction s)
  case Nil
  then show ?case by auto
next
  case IH: (Cons c s)
  show ?case
  proof
    assume "containsStr (c # s) sub"
    then consider b where "c # s = sub @ b" | a b where "s = a @ sub @ b"
      using IH by (auto simp: prefix_def)
    then show "\<exists>a b. c # s = a @ sub @ b"
    proof cases
      case (1 b)
      then have "c # s = [] @ sub @ b" by simp
      then show ?thesis by blast
    next
      case (2 a b)
      then have "c # s = (c # a) @ sub @ b" by simp
      then show ?thesis by blast
    qed
  next
    assume "\<exists>a b. c # s = a @ sub @ b"
    then obtain a b where e: "c # s = a @ sub @ b" by blast
    show "containsStr (c # s) sub"
    proof (cases a)
      case Nil
      with e have "prefix sub (c # s)" by simp
      then show ?thesis by simp
    next
      case (Cons x a')
      with e have "s = a' @ sub @ b" by simp
      then have "containsStr s sub" using IH by blast
      then show ?thesis by simp
    qed
  qed
qed

text \<open>The midnight in UTC of the message's own calendar day.\<close>

definition dayOf :: "matchMessage \<Rightarrow> int" where
  "dayOf m = (mmDate m + mmZone m) div 86400 * 86400"

definition flagRecent :: bytes where "flagRecent = BSL # ''Recent''"
definition flagSeen :: bytes where "flagSeen = BSL # ''Seen''"
definition flagDeleted :: bytes where "flagDeleted = BSL # ''Deleted''"
definition flagAnswered :: bytes where "flagAnswered = BSL # ''Answered''"
definition flagDraft :: bytes where "flagDraft = BSL # ''Draft''"
definition flagFlagged :: bytes where "flagFlagged = BSL # ''Flagged''"

definition matchHeader :: "matchMessage \<Rightarrow> bytes \<Rightarrow> bool" where
  "matchHeader m v =
     (case IndexByte v (CHR '':'') of
        None \<Rightarrow> False
      | Some i \<Rightarrow>
        if i < 1 then False
        else mmHeader m (take i v) = (if i < length v - 1 then drop (i + 2) v else []))"

text \<open>The keys without operands. KEYWORD, UNKEYWORD, SENTBEFORE, SENTON, SENTSINCE, BODY and TEXT are marked TODO in the code and
  match nothing, like an unknown key.\<close>

definition matchLeaf :: "matchMessage \<Rightarrow> string \<Rightarrow> bytes \<Rightarrow> int \<Rightarrow> SeqRange list \<Rightarrow> int \<Rightarrow> bool" where
  "matchLeaf m k v n q d =
     (if k = ''SEQSET'' then SeqContains q (mmSeqNum m)
      else if k = ''UID'' then SeqContains q (mmUID m)
      else if k = ''ALL'' then True
      else if k = ''BEFORE'' then mmDate m < d
      else if k = ''LARGER'' then n < mmSize m
      else if k = ''SMALLER'' then mmSize m < n
      else if k = ''MODSEQ'' then n \<le> mmModSeq m
      else if k = ''NEW'' then mmFlag m flagRecent \<and> \<not> mmFlag m flagSeen
      else if k = ''OLD'' then \<not> mmFlag m flagRecent
      else if k = ''ON'' then dayOf m = d
      else if k = ''RECENT'' then mmFlag m flagRecent
      else if k = ''SEEN'' then mmFlag m flagSeen
      else if k = ''SINCE'' then dayOf m = d \<or> d < dayOf m
      else if k = ''HEADER'' then matchHeader m v
      else if k = ''SUBJECT'' then containsStr (mmHeader m ''Subject'') v
      else if k = ''TO'' then containsStr (mmHeader m ''To'') v
      else if k = ''FROM'' then containsStr (mmHeader m ''From'') v
      else if k = ''CC'' then containsStr (mmHeader m ''CC'') v
      else if k = ''BCC'' then containsStr (mmHeader m ''BCC'') v
      else if k = ''ANSWERED'' then mmFlag m flagAnswered
      else if k = ''UNANSWERED'' then \<not> mmFlag m flagAnswered
      else if k = ''DELETED'' then mmFlag m flagDeleted
      else if k = ''UNDELETED'' then \<not> mmFlag m flagDeleted
      else if k = ''DRAFT'' then mmFlag m flagDraft
      else if k = ''UNDRAFT'' then \<not> mmFlag m flagDraft
      else if k = ''FLAGGED'' then mmFlag m flagFlagged
      else if k = ''UNFLAGGED'' then \<not> mmFlag m flagFlagged
      else if k = ''UNSEEN'' then \<not> mmFlag m flagSeen
      else False)"

fun matchOp :: "matchMessage \<Rightarrow> SearchOp \<Rightarrow> bool" where
  "matchOp m (SearchOp k cs v n q d) =
     (if k = ''AND'' then (\<forall>c\<in>set cs. matchOp m c)
      else if k = ''OR'' then (\<exists>c\<in>set cs. matchOp m c)
      else if k = ''NOT'' then (case cs of [c] \<Rightarrow> \<not> matchOp m c | _ \<Rightarrow> False)
      else matchLeaf m k v n q d)"

text \<open>The dates: on messages whose date is in UTC the three date keys partition time.\<close>

definition dateOp :: "string \<Rightarrow> int \<Rightarrow> SearchOp" where
  "dateOp k d = SearchOp k [] [] 0 [] d"

lemma matchOp_date:
  "matchOp m (dateOp ''BEFORE'' d) = (mmDate m < d)" "matchOp m (dateOp ''ON'' d) = (dayOf m = d)"
  "matchOp m (dateOp ''SINCE'' d) = (d \<le> dayOf m)"
  by (auto simp: dateOp_def matchLeaf_def)

lemma day_floor: "x div 86400 * 86400 \<le> x" "x < x div 86400 * 86400 + (86400::int)"
  using div_mult_mod_eq [of x 86400] pos_mod_sign [of 86400 x] pos_mod_bound [of 86400 x] by linarith+

lemma day_mult: "((k::int) * 86400 \<le> x div 86400 * 86400) = (k * 86400 \<le> x)"
proof
  assume "k * 86400 \<le> x"
  then have "k * 86400 < x div 86400 * 86400 + 86400" using day_floor(2) [of x] by linarith
  then have "k < x div 86400 + 1" by linarith
  then show "k * 86400 \<le> x div 86400 * 86400" by linarith
qed (use day_floor(1) [of x] in linarith)

text \<open>The date keys of SEARCH agree with each other exactly for messages dated in UTC: there SINCE d is the complement of BEFORE d
  and ON d is SINCE d without SINCE of the next day. In another zone BEFORE compares the instant while SINCE and ON take the calendar day of
  the message's zone, so that a message can match both BEFORE d and SINCE d, or neither (the RFC has both disregard time and zone).\<close>

theorem search_dates:
  assumes "86400 dvd d" "0 < z" "z < 86400"
  shows "(mmZone m = 0 \<longrightarrow> matchOp m (dateOp ''SINCE'' d) = (\<not> matchOp m (dateOp ''BEFORE'' d)) \<and>
      matchOp m (dateOp ''ON'' d) = (matchOp m (dateOp ''SINCE'' d) \<and> \<not> matchOp m (dateOp ''SINCE'' (d + 86400)))) \<and>
    (let east = m\<lparr>mmDate := d - z, mmZone := z\<rparr>; west = m\<lparr>mmDate := d, mmZone := - z\<rparr> in
      matchOp east (dateOp ''BEFORE'' d) \<and> matchOp east (dateOp ''SINCE'' d) \<and>
      \<not> matchOp west (dateOp ''BEFORE'' d) \<and> \<not> matchOp west (dateOp ''SINCE'' d))"
proof -
  obtain k where k: "d = k * 86400" using assms(1) by (auto simp: dvd_def mult.commute)
  have s: "d \<le> x div 86400 * 86400 \<longleftrightarrow> d \<le> x" for x using day_mult [of k x] k by simp
  have s': "d + 86400 \<le> x div 86400 * 86400 \<longleftrightarrow> d + 86400 \<le> x" for x
    using day_mult [of "k + 1" x] k by (simp add: algebra_simps)
  have on: "x div 86400 * 86400 = d \<longleftrightarrow> d \<le> x \<and> \<not> d + 86400 \<le> x" for x
  proof -
    have "k * 86400 \<le> q * 86400 \<and> \<not> k * 86400 + 86400 \<le> q * 86400 \<longleftrightarrow> q * 86400 = k * (86400::int)" for q
    proof
      assume "k * 86400 \<le> q * 86400 \<and> \<not> k * 86400 + 86400 \<le> q * 86400"
      then have "k \<le> q" "q < k + 1" by linarith+
      then have "q = k" by linarith
      then show "q * 86400 = k * 86400" by simp
    qed simp
    from this [of "x div 86400"] show ?thesis using s [of x] s' [of x] k by simp
  qed
  show ?thesis using assms(2,3)
    by (auto simp: matchOp_date dayOf_def s s' on Let_def)
qed

theorem search_dates_witness:
  "matchOp \<lparr>mmSeqNum = 1, mmUID = 1, mmModSeq = 1, mmFlag = (\<lambda>_. False), mmHeader = (\<lambda>_. []), mmDate = 86400 - 3600,
     mmZone = 3600, mmSize = 0\<rparr> (mkOp ''AND'' [dateOp ''BEFORE'' 86400, dateOp ''SINCE'' 86400])"
  using search_dates [of 86400 3600 "\<lparr>mmSeqNum = 1, mmUID = 1, mmModSeq = 1, mmFlag = (\<lambda>_. False), mmHeader = (\<lambda>_. []),
     mmDate = 0, mmZone = 0, mmSize = 0\<rparr>"]
  by (simp add: Let_def)

end
