(* ===== verification/GoIO.thy ===== *)
theory GoIO
  imports Base64
begin

text \<open>
  Two parts of the Go standard library that components of the program share: the \<open>io.Reader\<close> as the list of what its
  calls of \<open>Read\<close> return, and the trimming of white space.
\<close>

subsection \<open>The io.Reader\<close>

datatype rdErr = RdEOF | RdErr string

type_synonym chunks = "(bytes \<times> rdErr option) list"

definition readSrc :: "nat \<Rightarrow> chunks \<Rightarrow> bytes \<times> rdErr option \<times> chunks" where
  "readSrc room src =
     (case src of
        [] \<Rightarrow> ([], Some RdEOF, [])
      | (b, e) # src' \<Rightarrow>
          if length b \<le> room then (b, e, src') else (take room b, None, (drop room b, e) # src'))"

definition srcSize :: "chunks \<Rightarrow> nat" where
  "srcSize src = sum_list (map (length \<circ> fst) src)"

lemma readSrc_size: "readSrc room src = (b, e, src') \<Longrightarrow> length b + srcSize src' = srcSize src"
  by (auto simp: readSrc_def srcSize_def split: list.splits prod.splits if_splits)

lemma srcSize_Nil [simp]: "srcSize [] = 0"
  by (simp add: srcSize_def)

subsection \<open>White space\<close>

text \<open>The runes of \<open>unicode.IsSpace\<close>, and the trimming of \<open>bytes.TrimRightFunc\<close> and \<open>bytes.TrimSpace\<close>: a rune is cut off when
  the string ends (begins) with its encoding.\<close>

definition spaceRunes :: "nat list" where
  "spaceRunes = [0x09, 0x0A, 0x0B, 0x0C, 0x0D, 0x20, 0x85, 0xA0, 0x1680] @ [0x2000..<0x200B] @
     [0x2028, 0x2029, 0x202F, 0x205F, 0x3000]"

function trimLeft :: "bytes list \<Rightarrow> bytes \<Rightarrow> bytes" where
  "trimLeft encs s =
     (case find (\<lambda>e. e \<noteq> [] \<and> prefix e s) encs of None \<Rightarrow> s | Some e \<Rightarrow> trimLeft encs (drop (length e) s))"
  by auto
termination
  by (relation "measure (\<lambda>(_, s). length s)") (auto simp: find_Some_iff prefix_def)

declare trimLeft.simps [simp del]

definition spaceEncodings :: "bytes list" where
  "spaceEncodings = map encodeRune spaceRunes"

definition trimLeftSpace :: "bytes \<Rightarrow> bytes" where
  "trimLeftSpace s = trimLeft spaceEncodings s"

definition trimRightSpace :: "bytes \<Rightarrow> bytes" where
  "trimRightSpace s = rev (trimLeft (map rev spaceEncodings) (rev s))"

definition TrimSpace :: "bytes \<Rightarrow> bytes" where
  "TrimSpace s = trimRightSpace (trimLeftSpace s)"

text \<open>No encoding of a space begins or ends with a visible ASCII byte, so trimming leaves such a string alone.\<close>

definition visible :: "byte \<Rightarrow> bool" where
  "visible b \<longleftrightarrow> 33 \<le> bval b \<and> bval b \<le> 126"

lemma spaceRunes_less: "r \<in> set spaceRunes \<Longrightarrow> r < 0x4000 \<and> (r < 33 \<or> 128 \<le> r)"
  by (auto simp: spaceRunes_def)

lemma spaceEncodings_ends: "e \<in> set spaceEncodings \<Longrightarrow> e \<noteq> [] \<and> \<not> visible (hd e) \<and> \<not> visible (last e)"
proof -
  assume "e \<in> set spaceEncodings"
  then obtain r where r: "e = encodeRune r" "r < 0x4000" "r < 33 \<or> 128 \<le> r" using spaceRunes_less by (auto simp: spaceEncodings_def)
  have v: "validRune r" using r(2) by (simp add: validRune_def isSurrogate_def)
  have b: "bval (char_of (0x80 + r mod 64)) = 0x80 + r mod 64" by (rule bval_char_of) linarith
  have c: "r < 0x800 \<Longrightarrow> bval (char_of (0xC0 + r div 64)) = 0xC0 + r div 64"
    by (rule bval_char_of) (simp add: less_mult_imp_div_less)
  have d: "bval (char_of (0xE0 + r div 4096)) = 0xE0 + r div 4096"
    using r(2) by (intro bval_char_of) linarith
  show ?thesis
    using r v b c d by (auto simp: encodeRune_def Let_def visible_def bval_char_of simp del: of_char_of)
qed

lemma trimLeft_stop: "(\<And>e. e \<in> set encs \<Longrightarrow> e \<noteq> [] \<Longrightarrow> hd e \<noteq> hd s) \<Longrightarrow> trimLeft encs s = s"
proof -
  assume a: "\<And>e. e \<in> set encs \<Longrightarrow> e \<noteq> [] \<Longrightarrow> hd e \<noteq> hd s"
  have "find (\<lambda>e. e \<noteq> [] \<and> prefix e s) encs = None"
    using a by (fastforce simp: find_None_iff prefix_def)
  then show ?thesis by (simp add: trimLeft.simps)
qed

lemma trimRightSpace_id: "s \<noteq> [] \<Longrightarrow> visible (last s) \<Longrightarrow> trimRightSpace s = s"
  using trimLeft_stop [of "map rev spaceEncodings" "rev s"] spaceEncodings_ends
  by (fastforce simp: trimRightSpace_def hd_rev)

lemma TrimSpace_id: "s \<noteq> [] \<Longrightarrow> visible (hd s) \<Longrightarrow> visible (last s) \<Longrightarrow> TrimSpace s = s"
  using trimLeft_stop [of spaceEncodings s] spaceEncodings_ends trimRightSpace_id
  by (fastforce simp: TrimSpace_def trimLeftSpace_def)

end
