(* ===== verification/SmtpServer.thy ===== *)
theory SmtpServer
  imports GoIO
begin

text \<open>
  The SMTP server session (\<open>smtp/smtpserver/smtpserver.go\<close>): the command loop \<open>serve\<close>, the
  command handler \<open>serveCmd\<close>, the two AUTH mechanisms.

  The connection's input is a list of byte strings: \<open>STARTTLS\<close> drops what is left of the first one
  (the new reader sits on the TLS connection) and goes on with the next. What is written to the
  connection is the list of the written strings. The message provider, the interface \<open>Msg\<close> and
  \<open>NewMessageFunc\<close>, is a record of functions on the message's state; the calls made through it are
  listed in \<open>sCalls\<close>, which is what the theorems about it speak of. A panic in the provider's \<open>Close\<close> ends the
  session as \<open>Crash\<close>: \<open>serve\<close> cancels the message, recovers the panic, logs it and panics again.
\<close>

subsection \<open>Reading lines\<close>

text \<open>\<open>bufio.Reader.ReadSlice\<close> of a line feed with the default buffer: a line of more than 4096 bytes is an error that
  consumes those 4096 bytes, the end of the input before a line feed is an error that consumes them all.\<close>

definition bufSize :: nat where "bufSize = 4096"

definition readSlice :: "bytes \<Rightarrow> bytes option \<times> bytes" where
  "readSlice inp =
     (case IndexByte inp LF of
        None \<Rightarrow> (None, drop bufSize inp)
      | Some i \<Rightarrow> if bufSize < i + 1 then (None, drop bufSize inp) else (Some (take (i + 1) inp), drop (i + 1) inp))"

definition endsCRLF :: "bytes \<Rightarrow> bool" where
  "endsCRLF sl \<longleftrightarrow> 2 \<le> length sl \<and> sl ! (length sl - 2) = CR \<and> sl ! (length sl - 1) = LF"

text \<open>The match of \<open>[Ff][Rr][Oo][Mm]:<(.*)>\<close> (or with TO): the first occurrence of the key, then everything up to the last
  closing bracket.\<close>

fun afterKey :: "bytes \<Rightarrow> bytes \<Rightarrow> bytes option" where
  "afterKey key [] = None"
| "afterKey key (c # s) =
     (if prefix key (asciiUpper (c # s)) then Some (drop (length key) (c # s)) else afterKey key s)"

definition upToLast :: "byte \<Rightarrow> bytes \<Rightarrow> bytes option" where
  "upToLast c s = (if c \<in> set s then Some (rev (tl (dropWhile (\<lambda>b. b \<noteq> c) (rev s)))) else None)"

definition angleMatch :: "bytes \<Rightarrow> bytes \<Rightarrow> bytes option" where
  "angleMatch key arg = (case afterKey key arg of None \<Rightarrow> None | Some r \<Rightarrow> upToLast (CHR ''>'') r)"

definition badAddress :: "bytes \<Rightarrow> bool" where
  "badAddress a = (case IndexByte a (CHR ''@'') of None \<Rightarrow> True | Some i \<Rightarrow> i < 1)"

subsection \<open>State\<close>

text \<open>\<open>CallNew\<close> has the sender, the token and whether the provider gave a message; \<open>CallAdd\<close> whether it took the recipient; \<open>CallClose\<close> whether \<open>Close\<close> returned (rather
  than panic).\<close>

datatype msgCall = CallNew bytes nat bool | CallAdd bytes bool | CallWrite bytes | CallClose bool | CallCancel

text \<open>How \<open>Close\<close> of the provider ends: \<open>ErrTempFailure451\<close>, another error with its text, or a panic.\<close>

datatype closeResult = Closed | TempFailure | CloseError bytes | ClosePanic string

definition isPanic :: "closeResult \<Rightarrow> bool" where
  "isPanic r = (case r of ClosePanic _ \<Rightarrow> True | _ \<Rightarrow> False)"

text \<open>The provider. \<open>newMsg\<close> returns \<open>None\<close> for an error (the message is then nil); \<open>addRcpt\<close> returns \<open>None\<close> for an error.\<close>

record 'm msgOps =
  newMsg :: "bytes \<Rightarrow> nat \<Rightarrow> 'm option"
  addRcpt :: "'m \<Rightarrow> bytes \<Rightarrow> bool option \<times> 'm"
  writeLine :: "'m \<Rightarrow> bytes \<Rightarrow> bool \<times> 'm"
  closeMsg :: "'m \<Rightarrow> closeResult \<times> 'm"
  cancelMsg :: "'m \<Rightarrow> 'm"

record server =
  srvHostname :: bytes
  maxSize :: nat
  maxRecipients :: nat
  maxSessions :: nat
  allowNoTLS :: bool
  authFn :: "(bytes \<Rightarrow> bytes \<Rightarrow> bytes \<Rightarrow> nat) option"
  mustAuth :: bool
  servingTLS :: bool
  shuttingDown :: bool

text \<open>The defaults that \<open>serve\<close> fills in.\<close>

definition withDefaults :: "server \<Rightarrow> server" where
  "withDefaults v = v\<lparr>maxSize := (if maxSize v = 0 then 2 ^ 26 else maxSize v),
     maxRecipients := (if maxRecipients v = 0 then 100 else maxRecipients v),
     maxSessions := (if maxSessions v = 0 then 8 else maxSessions v)\<rparr>"

record 'm session =
  sTLS :: bool
  sRcpts :: nat
  sMsg :: "'m option"
  sToken :: nat
  sIn :: "bytes list"
  sOut :: "bytes list"
  sCalls :: "msgCall list"
  sClosed :: "'m list"
  sCancelled :: "'m list"

definition newSession :: "server \<Rightarrow> bytes list \<Rightarrow> 'm session" where
  "newSession v inp = \<lparr>sTLS = servingTLS v, sRcpts = 0, sMsg = None, sToken = 0, sIn = inp, sOut = [], sCalls = [],
     sClosed = [], sCancelled = []\<rparr>"

datatype flow = Continue | End | Crash

definition put :: "bytes \<Rightarrow> 'm session \<Rightarrow> 'm session" where
  "put line s = s\<lparr>sOut := sOut s @ [line @ CRLF]\<rparr>"

definition logCall :: "msgCall \<Rightarrow> 'm session \<Rightarrow> 'm session" where
  "logCall c s = s\<lparr>sCalls := sCalls s @ [c]\<rparr>"

text \<open>The next line of the connection.\<close>

definition nextLine :: "'m session \<Rightarrow> bytes option \<times> 'm session" where
  "nextLine s =
     (case sIn s of
        [] \<Rightarrow> (None, s)
      | inp # segs \<Rightarrow>
        (let (r, rest) = readSlice inp in (r, s\<lparr>sIn := rest # segs\<rparr>)))"

definition unread :: "'m session \<Rightarrow> nat" where
  "unread s = length (concat (sIn s))"

lemma readSlice_some:
  assumes "readSlice inp = (Some sl, rest)"
  shows "inp = sl @ rest \<and> sl \<noteq> [] \<and> last sl = LF \<and> LF \<notin> set (butlast sl) \<and> length sl \<le> bufSize"
proof -
  obtain i where i: "IndexByte inp LF = Some i" and sl: "sl = take (i + 1) inp" "rest = drop (i + 1) inp" "i + 1 \<le> bufSize"
    using assms by (auto simp: readSlice_def split: option.splits if_splits)
  note x = IndexByte_Some [OF i]
  have t: "sl = take i inp @ [LF]" using x sl by (simp add: take_Suc_conv_app_nth)
  have "inp = sl @ rest" using sl by simp
  then show ?thesis using x sl(3) t by auto
qed

lemma readSlice_length: "readSlice inp = (r, rest) \<Longrightarrow> length rest \<le> length inp"
  by (auto simp: readSlice_def split: option.splits if_splits)

lemma readSlice_line:
  "LF \<notin> set a \<Longrightarrow> length a < bufSize \<Longrightarrow> readSlice (a @ LF # b) = (Some (a @ [LF]), b)"
  by (simp add: readSlice_def IndexByte_append)

lemma nextLine_less: "nextLine s = (Some sl, t) \<Longrightarrow> unread t < unread s \<and> length sl \<le> bufSize \<and> sl \<noteq> []"
  by (auto simp: nextLine_def unread_def Let_def split: list.splits prod.splits dest!: readSlice_some)

lemma nextLine_frame:
  "nextLine s = (r, t) \<Longrightarrow> t = s\<lparr>sIn := sIn t\<rparr> \<and> unread t \<le> unread s"
  by (auto simp: nextLine_def unread_def Let_def split: list.splits prod.splits dest!: readSlice_length)

lemma put_fields [simp]:
  "sTLS (put l s) = sTLS s" "sRcpts (put l s) = sRcpts s" "sMsg (put l s) = sMsg s" "sToken (put l s) = sToken s"
  "sIn (put l s) = sIn s" "sCalls (put l s) = sCalls s" "sClosed (put l s) = sClosed s"
  "sCancelled (put l s) = sCancelled s" "sOut (put l s) = sOut s @ [l @ CRLF]" "unread (put l s) = unread s"
  by (simp_all add: put_def unread_def)

lemma logCall_fields [simp]:
  "sTLS (logCall c s) = sTLS s" "sRcpts (logCall c s) = sRcpts s" "sMsg (logCall c s) = sMsg s" "sToken (logCall c s) = sToken s"
  "sIn (logCall c s) = sIn s" "sCalls (logCall c s) = sCalls s @ [c]" "sClosed (logCall c s) = sClosed s"
  "sCancelled (logCall c s) = sCancelled s" "sOut (logCall c s) = sOut s" "unread (logCall c s) = unread s"
  by (simp_all add: logCall_def unread_def)

lemma unread_update [simp]:
  "unread (s\<lparr>sTLS := a\<rparr>) = unread s" "unread (s\<lparr>sRcpts := n\<rparr>) = unread s" "unread (s\<lparr>sMsg := m\<rparr>) = unread s"
  "unread (s\<lparr>sToken := n\<rparr>) = unread s" "unread (s\<lparr>sClosed := ms\<rparr>) = unread s" "unread (s\<lparr>sCancelled := ms\<rparr>) = unread s"
  by (simp_all add: unread_def)

subsection \<open>AUTH\<close>

definition hasNoArg :: "bytes \<Rightarrow> 'm session \<Rightarrow> bool \<times> 'm session" where
  "hasNoArg arg s = (arg = [], if arg \<noteq> [] then put ''501 Syntax error (no parameters allowed)'' s else s)"

definition hasTLS :: "server \<Rightarrow> 'm session \<Rightarrow> bool \<times> 'm session" where
  "hasTLS v s =
     (if allowNoTLS v \<or> servingTLS v then (True, s)
      else (sTLS s, if \<not> sTLS s then put ''530 5.7.0 Must issue a STARTTLS command first'' s else s))"

text \<open>\<open>identity NUL user NUL pass\<close>; after a failure all three are nil.\<close>

definition plainAuth :: "bytes \<Rightarrow> 'm session \<Rightarrow> (bytes \<times> bytes \<times> bytes) \<times> 'm session" where
  "plainAuth arg s =
     (case b64Decode stdAlphabet True arg of
        None \<Rightarrow> (([], [], []), put ''535 bad PLAIN base64 encoding'' s)
      | Some auth \<Rightarrow>
        (case IndexByte auth NUL of
           None \<Rightarrow> (([], [], []), put ''535 invalid PLAIN data'' s)
         | Some i \<Rightarrow>
           (let identity = take i auth; auth = drop (i + 1) auth in
            case IndexByte auth NUL of
              None \<Rightarrow> (([], [], []), put ''535 invalid PLAIN data'' s)
            | Some j \<Rightarrow> ((identity, take j auth, drop (j + 1) auth), s))))"

definition serveAuthPlain :: "bytes \<Rightarrow> 'm session \<Rightarrow> (bytes \<times> bytes \<times> bytes) \<times> 'm session" where
  "serveAuthPlain arg s =
     (let arg = drop 5 arg; arg = (if arg \<noteq> [] \<and> hd arg = SP then tl arg else arg) in
      if arg \<noteq> [] then plainAuth arg s
      else
        (let (r, s1) = nextLine (put ''334 '' s) in
         case r of
           None \<Rightarrow> (([], [], []), s1)
         | Some sl \<Rightarrow>
           (if length sl < 3 \<or> \<not> endsCRLF sl then (([], [], []), put ''535 bad AUTH arg does not end in CRLF'' s1)
            else plainAuth (TrimSpace sl) s1)))"

text \<open>One prompt of AUTH LOGIN; \<open>what\<close> is the name in the error messages.\<close>

definition authLoginPart :: "bytes \<Rightarrow> string \<Rightarrow> string \<Rightarrow> 'm session \<Rightarrow> (string + bytes) \<times> 'm session" where
  "authLoginPart prompt what what64 s =
     (let (r, s1) = nextLine (put prompt s) in
      case r of
        None \<Rightarrow> (Inl (''AUTH LOGIN '' @ what @ '' read error''), s1)
      | Some sl \<Rightarrow>
        (if length sl < 2 \<or> \<not> endsCRLF sl then (Inl (''AUTH LOGIN '' @ what @ '' missing CRLF''), s1)
         else case b64Decode stdAlphabet True (TrimSpace sl) of
           None \<Rightarrow> (Inl (''AUTH LOGIN bad '' @ what64 @ '' base64''), s1)
         | Some d \<Rightarrow> (Inr d, s1)))"

definition serveAuthLogin :: "'m session \<Rightarrow> (string + bytes \<times> bytes) \<times> 'm session" where
  "serveAuthLogin s =
     (let (r1, s1) = authLoginPart ''334 VXNlcm5hbWU6'' ''user'' ''user'' s in
      case r1 of Inl e \<Rightarrow> (Inl e, s1)
      | Inr user \<Rightarrow>
        (let (r2, s2) = authLoginPart ''334 UGFzc3dvcmQ6'' ''password'' ''password'' s1 in
         case r2 of Inl e \<Rightarrow> (Inl e, s2) | Inr pass \<Rightarrow> (Inr (user, pass), s2)))"

definition authResult :: "(bytes \<Rightarrow> bytes \<Rightarrow> bytes \<Rightarrow> nat) \<Rightarrow> bytes \<times> bytes \<times> bytes \<Rightarrow> 'm session \<Rightarrow> flow \<times> 'm session" where
  "authResult auth cred s =
     (let token = (case cred of (identity, user, pass) \<Rightarrow> auth identity user pass);
          s1 = s\<lparr>sToken := token\<rparr> in
      if token = 0 then (Continue, put ''535 5.7.0 Incorrect username or password.'' s1)
      else (Continue, put ''235 Authentication successful.'' s1))"

definition cmdAUTH :: "server \<Rightarrow> bytes \<Rightarrow> 'm session \<Rightarrow> flow \<times> 'm session" where
  "cmdAUTH v arg s =
     (case authFn v of
        None \<Rightarrow> (Continue, put ''451 authentication not supported'' s)
      | Some auth \<Rightarrow>
        (if prefix ''PLAIN'' arg then (let (cred, s1) = serveAuthPlain arg s in authResult auth cred s1)
         else if arg = ''LOGIN'' then
           (let (r, s1) = serveAuthLogin s in
            case r of
              Inl e \<Rightarrow> (Continue, put (''500 5.5.1 Invalid command: '' @ e) s1)
            | Inr (user, pass) \<Rightarrow> authResult auth ([], user, pass) s1)
         else (Continue, put ''504 Unrecognized authentication type.'' s)))"

subsection \<open>Commands\<close>

definition cmdQUIT :: "bytes \<Rightarrow> 'm session \<Rightarrow> flow \<times> 'm session" where
  "cmdQUIT arg s =
     (let (ok, s1) = hasNoArg arg s in
      if \<not> ok then (Continue, s1) else (End, put ''221 2.0.0 Bye'' s1))"

definition cmdEHLO :: "server \<Rightarrow> 'm session \<Rightarrow> flow \<times> 'm session" where
  "cmdEHLO v s =
     (if \<not> allowNoTLS v \<and> \<not> sTLS s then
        (Continue, put ''250 STARTTLS'' (put (''250-'' @ srvHostname v @ '' good morrow, TLS required'') s))
      else
        (let s1 = put (''250-'' @ srvHostname v @ '' welcome!'') s;
             s2 = (if \<not> sTLS s1 then put ''250-STARTTLS'' s1 else s1);
             s3 = (if authFn v \<noteq> None then put ''250-AUTH PLAIN LOGIN'' s2 else s2) in
         (Continue, put ''250 SMTPUTF8'' (put ''250-ENHANCEDSTATUSCODES'' (put ''250-8BITMIME''
           (put (''250-SIZE '' @ fmtNat (maxSize v)) s3))))))"

definition cmdSTARTTLS :: "bytes \<Rightarrow> 'm session \<Rightarrow> flow \<times> 'm session" where
  "cmdSTARTTLS arg s =
     (if sTLS s then (Continue, put ''454 TLS already in use'' s) else
      let (ok, s1) = hasNoArg arg s in
      if \<not> ok then (Continue, s1)
      else (Continue, (put ''220 Ready to start TLS'' s1)\<lparr>sIn := tl (sIn s1), sTLS := True\<rparr>))"

definition cmdMAIL :: "'m msgOps \<Rightarrow> server \<Rightarrow> bytes \<Rightarrow> 'm session \<Rightarrow> flow \<times> 'm session" where
  "cmdMAIL ops v arg s =
     (let (ok, s1) = hasTLS v s in
      if \<not> ok then (Continue, s1)
      else if mustAuth v \<and> sToken s1 = 0 then (Continue, put ''530 5.7.1 Authorization required'' s1)
      else if sMsg s1 \<noteq> None then (Continue, put ''503 5.5.1 Error: MAIL command already called'' s1)
      else if shuttingDown v then (End, put ''451 denied, server shutting down'' s1)
      else case angleMatch ''FROM:<'' arg of
        None \<Rightarrow> (Continue, put ''501 5.1.7 Syntax error (bad sender address)'' s1)
      | Some m \<Rightarrow>
        (let from = TrimSpace m in
         if from = [] then (Continue, put ''501 5.1.0 empty sender address'' s1)
         else if badAddress from then (Continue, put ''501 5.1.0 invalid sender address'' s1)
         else case newMsg ops from (sToken s1) of
           None \<Rightarrow> (End, put ''451 denied'' (logCall (CallNew from (sToken s1) False) s1))
         | Some msg \<Rightarrow>
           (Continue, put ''250 2.1.0 OK'' ((logCall (CallNew from (sToken s1) True) s1)\<lparr>sMsg := Some msg\<rparr>))))"

definition cmdRCPT :: "'m msgOps \<Rightarrow> server \<Rightarrow> bytes \<Rightarrow> 'm session \<Rightarrow> flow \<times> 'm session" where
  "cmdRCPT ops v arg s =
     (let (ok, s1) = hasTLS v s in
      if \<not> ok then (Continue, s1)
      else case sMsg s1 of
        None \<Rightarrow> (Continue, put ''503 5.5.1 Error: MAIL command not called'' s1)
      | Some msg \<Rightarrow>
        (if maxRecipients v \<le> sRcpts s1 + 1 then (Continue, put ''452 Too many recipients'' s1) else
         let s2 = s1\<lparr>sRcpts := sRcpts s1 + 1\<rparr> in
         case angleMatch ''TO:<'' arg of
           None \<Rightarrow> (Continue, put ''501 5.1.7 Syntax error (bad rcpt)'' s2)
         | Some m \<Rightarrow>
           (let to = TrimSpace m in
            if to = [] then (Continue, put ''501 5.1.0 empty recipient address'' s2)
            else if badAddress to then (Continue, put ''501 5.1.0 invalid recipient address'' s2)
            else
              (let (added, msg') = addRcpt ops msg to;
                   s3 = (logCall (CallAdd to (added = Some True)) s2)\<lparr>sMsg := Some msg'\<rparr> in
               case added of
                 None \<Rightarrow> (End, put ''550 Error: bad recipient, error processing'' s3)
               | Some False \<Rightarrow> (Continue, put ''550 Error: bad recipient'' s3)
               | Some True \<Rightarrow> (Continue, put ''250 2.1.0 OK'' s3)))))"

text \<open>The lines of DATA: \<open>n\<close> counts the bytes written. The result is \<open>None\<close> when the terminating dot was read.\<close>

definition dotCRLF :: bytes where "dotCRLF = CHR ''.'' # CRLF"

definition unstuff :: "bytes \<Rightarrow> bytes" where
  "unstuff sl = (if sl \<noteq> [] \<and> hd sl = CHR ''.'' then tl sl else sl)"

function dataLoop :: "'m msgOps \<Rightarrow> server \<Rightarrow> nat \<Rightarrow> 'm \<Rightarrow> 'm session \<Rightarrow> flow option \<times> 'm session" where
  "dataLoop ops v n msg s =
     (let (r, s1) = nextLine s in
      case r of
        None \<Rightarrow> (Some End, s1)
      | Some sl \<Rightarrow>
        (if sl = dotCRLF then (None, s1) else
         let line = unstuff sl; n' = n + length line in
         if maxSize v < n' then (Some End, put ''552 Too much mail data.'' s1) else
         let (ok, msg') = writeLine ops msg line;
             s2 = (logCall (CallWrite line) s1)\<lparr>sMsg := Some msg'\<rparr> in
         if \<not> ok then (Some End, put ''550 Write error'' s2)
         else dataLoop ops v n' msg' s2))"
  by auto
termination
proof (relation "measure (\<lambda>(_, _, _, _, s). unread s)", simp)
  fix ops :: "'m msgOps" and v n msg and s :: "'m session" and x r s1 sl line n' y ok msg' s2
  assume a: "x = nextLine s" "(r, s1) = x" "r = Some sl" "s2 = logCall (CallWrite line) s1\<lparr>sMsg := Some msg'\<rparr>"
  then have "unread s1 < unread s" using nextLine_less [of s sl s1] by simp
  moreover have "unread s2 = unread s1" using a(4) by (simp add: unread_def logCall_def)
  ultimately show "((ops, v, n', msg', s2), (ops, v, n, msg, s)) \<in> measure (\<lambda>(_, _, _, _, s). unread s)" by simp
qed

declare dataLoop.simps [simp del]

definition cmdDATA :: "'m msgOps \<Rightarrow> server \<Rightarrow> bytes \<Rightarrow> 'm session \<Rightarrow> flow \<times> 'm session" where
  "cmdDATA ops v arg s =
     (let (ok, s1) = hasTLS v s in
      if \<not> ok then (Continue, s1) else
      let (ok, s2) = hasNoArg arg s1 in
      if \<not> ok then (Continue, s2)
      else case sMsg s2 of
        None \<Rightarrow> (Continue, put ''503 5.5.1 Error: RCPT command not called'' s2)
      | Some msg \<Rightarrow>
        (if sRcpts s2 = 0 then (Continue, put ''503 5.5.1 Error: RCPT command not called'' s2) else
         let (r, s3) = dataLoop ops v 0 msg (put ''354 Go ahead'' s2) in
         case r of
           Some e \<Rightarrow> (e, s3)
         | None \<Rightarrow>
           (let (res, msg') = closeMsg ops (the (sMsg s3));
                s4 = logCall (CallClose (\<not> isPanic res)) s3;
                s5 = s4\<lparr>sMsg := None, sRcpts := 0, sClosed := sClosed s4 @ [msg']\<rparr> in
            case res of
              ClosePanic e \<Rightarrow> (Crash, s4\<lparr>sMsg := Some msg'\<rparr>)
            | TempFailure \<Rightarrow> (End, put ''451 Temporary failure, please try again later.'' s5)
            | CloseError e \<Rightarrow> (End, put (''550 Write error: '' @ e) s5)
            | Closed \<Rightarrow> (Continue, put ''250 2.0.0 OK: queued'' s5))))"

definition cancelCurrent :: "'m msgOps \<Rightarrow> 'm session \<Rightarrow> 'm session" where
  "cancelCurrent ops s =
     (case sMsg s of 
        None \<Rightarrow> s
      | Some msg \<Rightarrow> (logCall CallCancel s)\<lparr>sMsg := None, sCancelled := sCancelled s @ [cancelMsg ops msg]\<rparr>)"

definition cmdRSET :: "'m msgOps \<Rightarrow> server \<Rightarrow> bytes \<Rightarrow> 'm session \<Rightarrow> flow \<times> 'm session" where
  "cmdRSET ops v arg s =
     (let (ok, s1) = hasTLS v s in
      if \<not> ok then (Continue, s1) else
      let (ok, s2) = hasNoArg arg s1 in
      if \<not> ok then (Continue, s2)
      else (Continue, (cancelCurrent ops s2)\<lparr>sRcpts := 0\<rparr>))"

definition serveCmd :: "'m msgOps \<Rightarrow> server \<Rightarrow> string \<Rightarrow> bytes \<Rightarrow> 'm session \<Rightarrow> flow \<times> 'm session" where
  "serveCmd ops v verb arg s =
     (if verb = ''NOOP'' then (Continue, put ''250 2.0.0 OK'' s)
      else if verb = ''QUIT'' then cmdQUIT arg s
      else if verb = ''HELO'' \<or> verb = ''EHLO'' then cmdEHLO v s
      else if verb = ''STARTTLS'' then cmdSTARTTLS arg s
      else if verb = ''AUTH'' then cmdAUTH v arg s
      else if verb = ''MAIL'' then cmdMAIL ops v arg s
      else if verb = ''RCPT'' then cmdRCPT ops v arg s
      else if verb = ''DATA'' then cmdDATA ops v arg s
      else if verb = ''RSET'' then cmdRSET ops v arg s
      else (Continue, put ''502 5.5.2 Error: command not recognized'' s))"

subsection \<open>The session\<close>

text \<open>The keys of \<open>verbStr\<close>; the lookup is case sensitive.\<close>

definition verbStr :: "string list" where
  "verbStr = [''HELO'', ''EHLO'', ''AUTH'', ''QUIT'', ''RSET'', ''NOOP'', ''MAIL'', ''RCPT'', ''DATA'', ''STARTTLS'']"

definition splitCmd :: "bytes \<Rightarrow> bytes \<times> bytes" where
  "splitCmd sl =
     (case IndexByte sl SP of
        Some i \<Rightarrow> (take i sl, trimRightSpace (drop (i + 1) (take (length sl - 2) sl)))
      | None \<Rightarrow> (take (length sl - 2) sl, []))"

text \<open>The AUTH exchange reads lines and writes replies, nothing else.\<close>

definition onlyIO :: "'m session \<Rightarrow> 'm session \<Rightarrow> bool" where
  "onlyIO s t \<longleftrightarrow> t = s\<lparr>sIn := sIn t, sOut := sOut t\<rparr> \<and> unread t \<le> unread s"

lemma onlyIO_refl [intro, simp]: "onlyIO s s"
  by (simp add: onlyIO_def)

lemma onlyIO_trans: "onlyIO s t \<Longrightarrow> onlyIO t u \<Longrightarrow> onlyIO s u"
  unfolding onlyIO_def by (cases s; cases t; cases u) auto

lemma onlyIO_put [simp]: "onlyIO s (put l s)"
  by (simp add: onlyIO_def put_def unread_def)

lemma onlyIO_put_trans: "onlyIO s t \<Longrightarrow> onlyIO s (put l t)"
  by (rule onlyIO_trans [OF _ onlyIO_put])

lemma onlyIO_nextLine: "nextLine s = (r, t) \<Longrightarrow> onlyIO s t"
  unfolding onlyIO_def using nextLine_frame [of s r t] by (cases s; cases t) auto

lemma onlyIO_plainAuth: "plainAuth arg s = (r, t) \<Longrightarrow> onlyIO s t"
  by (auto simp: plainAuth_def Let_def split: option.splits)

lemma onlyIO_serveAuthPlain: "serveAuthPlain arg s = (r, t) \<Longrightarrow> onlyIO s t"
  by (auto simp: serveAuthPlain_def Let_def split: option.splits if_splits prod.splits
      dest!: onlyIO_nextLine onlyIO_plainAuth intro: onlyIO_trans onlyIO_put_trans onlyIO_put)

lemma onlyIO_authLoginPart: "authLoginPart p w x s = (r, t) \<Longrightarrow> onlyIO s t"
  by (auto simp: authLoginPart_def Let_def split: option.splits if_splits prod.splits
      dest!: onlyIO_nextLine intro: onlyIO_trans onlyIO_put_trans onlyIO_put)

lemma onlyIO_serveAuthLogin: "serveAuthLogin s = (r, t) \<Longrightarrow> onlyIO s t"
  by (auto simp: serveAuthLogin_def Let_def split: sum.splits prod.splits
      dest!: onlyIO_authLoginPart intro: onlyIO_trans)

lemma onlyIO_hasNoArg: "hasNoArg arg s = (ok, t) \<Longrightarrow> onlyIO s t"
  by (auto simp: hasNoArg_def split: if_splits)

lemma onlyIO_hasTLS:
  "hasTLS v s = (ok, t) \<Longrightarrow> onlyIO s t \<and> (ok \<longrightarrow> t = s \<and> (allowNoTLS v \<or> servingTLS v \<or> sTLS s))"
  by (auto simp: hasTLS_def split: if_splits)

lemma onlyIO_token: "onlyIO s u \<Longrightarrow> onlyIO (s\<lparr>sToken := n\<rparr>) (u\<lparr>sToken := n\<rparr>)"
  unfolding onlyIO_def by (cases s; cases u) (auto simp: unread_def)

lemma onlyIO_same_token: "onlyIO s u \<Longrightarrow> onlyIO (s\<lparr>sToken := sToken u\<rparr>) u"
  unfolding onlyIO_def by (cases s; cases u) (auto simp: unread_def)

lemma authResult_frame:
  assumes "onlyIO s u"
  shows "fst (authResult auth cred u) = Continue \<and>
    onlyIO (s\<lparr>sToken := sToken (snd (authResult auth cred u))\<rparr>) (snd (authResult auth cred u))"
  using onlyIO_token [OF assms] onlyIO_put_trans [OF onlyIO_token [OF assms]]
  by (simp add: authResult_def Let_def)

lemma onlyIO_cmdAUTH: "fst (cmdAUTH v arg s) = Continue \<and> onlyIO (s\<lparr>sToken := sToken (snd (cmdAUTH v arg s))\<rparr>) (snd (cmdAUTH v arg s))"
proof (cases "authFn v")
  case None
  then show ?thesis using onlyIO_same_token [OF onlyIO_put] by (simp add: cmdAUTH_def)
next
  case (Some auth)
  obtain c u where p: "serveAuthPlain arg s = (c, u)" by fastforce
  obtain r w where l: "serveAuthLogin s = (r, w)" by fastforce
  note u = onlyIO_serveAuthPlain [OF p] and w = onlyIO_serveAuthLogin [OF l]
  show ?thesis
    using Some p l authResult_frame [OF u, of auth c] authResult_frame [OF w, of auth]
      onlyIO_same_token [OF onlyIO_put_trans [OF w]] onlyIO_same_token [OF onlyIO_put [of s]]
    by (simp add: cmdAUTH_def split: sum.split)
qed

lemma cmdQUIT_frame: "cmdQUIT arg s = (f, t) \<Longrightarrow> onlyIO s t"
  by (auto simp: cmdQUIT_def Let_def split: if_splits prod.splits dest!: onlyIO_hasNoArg intro: onlyIO_put_trans)

lemma cmdEHLO_frame: "cmdEHLO v s = (f, t) \<Longrightarrow> f = Continue \<and> onlyIO s t"
  by (auto simp: cmdEHLO_def Let_def split: if_splits intro!: onlyIO_put_trans)

lemma cmdSTARTTLS_frame:
  assumes "cmdSTARTTLS arg s = (f, t)"
  shows "f = Continue \<and> onlyIO (s\<lparr>sTLS := sTLS t\<rparr>) t \<and> (sTLS s \<longrightarrow> sTLS t)"
proof -
  have same: "onlyIO (s\<lparr>sTLS := sTLS u\<rparr>) u" if "onlyIO s u" for u
    using that unfolding onlyIO_def by (cases s; cases u) (auto simp: unread_def)
  have cut: "length (concat (tl l)) \<le> length (concat l)" for l :: "bytes list"
    by (cases l) auto
  show ?thesis
    using assms by (auto simp: cmdSTARTTLS_def hasNoArg_def Let_def onlyIO_def unread_def put_def cut split: if_splits)
qed

subsection \<open>The calls on the provider\<close>

text \<open>The protocol the provider sees, as an automaton over the calls. A message is opened with a valid sender (and, where
  the server wants it, an authenticated one), then has recipients added, fewer than \<open>maxRecipients\<close> of them, then lines
  written, at most \<open>maxSize\<close> bytes in all, and is closed or cancelled exactly once; after a panic in \<open>Close\<close> it is cancelled.\<close>

datatype phase = Idle | Envelope nat | Body nat | Failing

fun callStep :: "server \<Rightarrow> phase \<Rightarrow> msgCall \<Rightarrow> phase option" where
  "callStep v Idle (CallNew from tok ok) =
     (if badAddress from \<or> mustAuth v \<and> tok = 0 then None else Some (if ok then Envelope 0 else Idle))"
| "callStep v (Envelope k) (CallAdd a ok) = (if badAddress a \<or> maxRecipients v \<le> k + 1 then None else Some (Envelope (k + 1)))"
| "callStep v (Envelope k) (CallWrite l) = (if length l \<le> maxSize v then Some (Body (length l)) else None)"
| "callStep v (Body n) (CallWrite l) = (if n + length l \<le> maxSize v then Some (Body (n + length l)) else None)"
| "callStep v (Envelope k) (CallClose ok) = Some (if ok then Idle else Failing)"
| "callStep v (Body n) (CallClose ok) = Some (if ok then Idle else Failing)"
| "callStep v (Envelope k) CallCancel = Some Idle"
| "callStep v (Body n) CallCancel = Some Idle"
| "callStep v Failing CallCancel = Some Idle"
| "callStep v _ _ = None"

fun runCalls :: "server \<Rightarrow> phase \<Rightarrow> msgCall list \<Rightarrow> phase option" where
  "runCalls v p [] = Some p"
| "runCalls v p (c # cs) = (case callStep v p c of None \<Rightarrow> None | Some q \<Rightarrow> runCalls v q cs)"

lemma runCalls_snoc:
  "runCalls v p (cs @ [c]) = (case runCalls v p cs of None \<Rightarrow> None | Some q \<Rightarrow> callStep v q c)"
  by (induction cs arbitrary: p) (auto split: option.splits)

text \<open>The invariant of a session. \<open>live\<close> is what also holds when a handler ends the session in the middle of a message.\<close>

definition tlsOK :: "server \<Rightarrow> 'm session \<Rightarrow> bool" where
  "tlsOK v s \<longleftrightarrow> allowNoTLS v \<or> servingTLS v \<or> sTLS s \<or> sCalls s = []"

definition between :: "server \<Rightarrow> 'm session \<Rightarrow> bool" where
  "between v s \<longleftrightarrow> tlsOK v s \<and>
     (case sMsg s of
        None \<Rightarrow> runCalls v Idle (sCalls s) = Some Idle \<and> sRcpts s = 0
      | Some _ \<Rightarrow> (\<exists>k. runCalls v Idle (sCalls s) = Some (Envelope k) \<and> k \<le> sRcpts s))"

definition live :: "server \<Rightarrow> 'm session \<Rightarrow> bool" where
  "live v s \<longleftrightarrow> tlsOK v s \<and> (\<exists>p. runCalls v Idle (sCalls s) = Some p \<and> (p = Idle \<longleftrightarrow> sMsg s = None))"

lemma between_live: "between v s \<Longrightarrow> live v s"
  by (auto simp: between_def live_def split: option.splits)

lemma between_same:
  "between v s \<Longrightarrow> sMsg t = sMsg s \<Longrightarrow> sCalls t = sCalls s \<Longrightarrow> sRcpts t = sRcpts s \<Longrightarrow> sTLS s \<longrightarrow> sTLS t \<Longrightarrow> between v t"
  unfolding between_def tlsOK_def by (cases "sMsg s") auto

lemma onlyIO_fields:
  "onlyIO s t \<Longrightarrow> sMsg t = sMsg s \<and> sCalls t = sCalls s \<and> sRcpts t = sRcpts s \<and> sTLS t = sTLS s \<and> sToken t = sToken s
     \<and> sClosed t = sClosed s \<and> sCancelled t = sCancelled s"
  unfolding onlyIO_def by (cases s; cases t) auto

lemma between_onlyIO: "between v s \<Longrightarrow> onlyIO s t \<Longrightarrow> between v t"
  using onlyIO_fields [of s t] by (intro between_same [of v s t]) auto

text \<open>What each handler does to the invariant and to the rest of the input.\<close>

definition handled :: "server \<Rightarrow> 'm session \<Rightarrow> flow \<times> 'm session \<Rightarrow> bool" where
  "handled v s r \<longleftrightarrow> unread (snd r) \<le> unread s \<and> (between v s \<longrightarrow> live v (snd r) \<and> (fst r = Continue \<longrightarrow> between v (snd r)))"

lemma handledI:
  assumes "unread t \<le> unread s" and "between v s \<Longrightarrow> between v t"
  shows "handled v s (f, t)"
  using assms by (auto simp: handled_def between_live)

lemma handled_onlyIO: "onlyIO s t \<Longrightarrow> handled v s (f, t)"
  by (rule handledI) (auto simp: onlyIO_def intro: between_onlyIO)

lemma handled_hasTLS:
  "(hasTLS v s = (True, s) \<Longrightarrow> allowNoTLS v \<or> servingTLS v \<or> sTLS s \<Longrightarrow> handled v s (k s)) \<Longrightarrow>
   handled v s (let (ok, s1) = hasTLS v s in if \<not> ok then (Continue, s1) else k s1)"
  using onlyIO_hasTLS [of v s "fst (hasTLS v s)" "snd (hasTLS v s)"] handled_onlyIO [of s "snd (hasTLS v s)" v Continue]
  by (cases "hasTLS v s") auto

lemma handled_hasNoArg:
  "handled v s (k s) \<Longrightarrow> handled v s (let (ok, s1) = hasNoArg arg s in if \<not> ok then (Continue, s1) else k s1)"
  using handled_onlyIO [of s "snd (hasNoArg arg s)" v Continue] by (auto simp: hasNoArg_def)

lemma handled_AUTH: "handled v s (cmdAUTH v arg s)"
proof -
  note a = onlyIO_cmdAUTH [of v arg s]
  obtain f t where c: "cmdAUTH v arg s = (f, t)" by fastforce
  have "onlyIO (s\<lparr>sToken := sToken t\<rparr>) t" using a c by simp
  note f = onlyIO_fields [OF this]
  have "between v s \<Longrightarrow> between v t" using f by (intro between_same [of v s t]) auto
  moreover have "unread t \<le> unread s" using a c by (simp add: onlyIO_def)
  ultimately show ?thesis unfolding c by (rule handledI [rotated])
qed

lemma handled_STARTTLS: "handled v s (cmdSTARTTLS arg s)"
proof -
  obtain f t where c: "cmdSTARTTLS arg s = (f, t)" by fastforce
  note x = cmdSTARTTLS_frame [OF c]
  then have "onlyIO (s\<lparr>sTLS := sTLS t\<rparr>) t" by simp
  note f = onlyIO_fields [OF this]
  have "between v s \<Longrightarrow> between v t" using f x by (intro between_same [of v s t]) auto
  moreover have "unread t \<le> unread s" using x by (simp add: onlyIO_def)
  ultimately show ?thesis unfolding c by (rule handledI [rotated])
qed

lemma handled_MAIL: "handled v s (cmdMAIL ops v arg s)"
  unfolding cmdMAIL_def
proof (rule handled_hasTLS, goal_cases)
  case 1
  show ?case
  proof (cases "sMsg s")
    case None
    then show ?thesis using 1
      by (auto simp: handled_def between_def live_def tlsOK_def runCalls_snoc Let_def split: option.splits)
  next
    case (Some m)
    then show ?thesis by (auto intro: handled_onlyIO)
  qed
qed

lemma handled_RCPT: "handled v s (cmdRCPT ops v arg s)"
  unfolding cmdRCPT_def
proof (rule handled_hasTLS, goal_cases)
  case 1
  show ?case
  proof (cases "sMsg s")
    case None
    then show ?thesis by (auto intro: handled_onlyIO)
  next
    case (Some m)
    show ?thesis using 1 Some
      by (auto simp: handled_def between_def live_def tlsOK_def runCalls_snoc Let_def split: option.splits prod.splits bool.splits)
  qed
qed

definition openAt :: "phase \<Rightarrow> nat \<Rightarrow> bool" where
  "openAt p n \<longleftrightarrow> (case p of Envelope _ \<Rightarrow> n = 0 | Body m \<Rightarrow> m = n | _ \<Rightarrow> False)"

definition inBody :: "server \<Rightarrow> nat \<Rightarrow> 'm session \<Rightarrow> bool" where
  "inBody v n s \<longleftrightarrow> tlsOK v s \<and> sMsg s \<noteq> None \<and> (\<exists>p. runCalls v Idle (sCalls s) = Some p \<and> openAt p n)"

lemma inBody_live: "inBody v n s \<Longrightarrow> live v s"
proof -
  assume a: "inBody v n s"
  then obtain p where p: "runCalls v Idle (sCalls s) = Some p" "openAt p n" by (auto simp: inBody_def)
  then have "p \<noteq> Idle" by (auto simp: openAt_def)
  then show ?thesis using a p by (auto simp: inBody_def live_def)
qed

lemma inBody_write:
  assumes "inBody v n s" and "n + length l \<le> maxSize v"
  shows "inBody v (n + length l) ((logCall (CallWrite l) s)\<lparr>sMsg := Some m\<rparr>)"
proof -
  obtain p where "runCalls v Idle (sCalls s) = Some p" "openAt p n" using assms(1) by (auto simp: inBody_def)
  then show ?thesis using assms
    by (cases p) (auto simp: inBody_def openAt_def tlsOK_def runCalls_snoc)
qed

lemma inBody_frame: "inBody v n s \<Longrightarrow> onlyIO s t \<Longrightarrow> inBody v n t"
  using onlyIO_fields [of s t] by (auto simp: inBody_def tlsOK_def)

text \<open>The five ways a turn of the loop goes, and the induction over them.\<close>

abbreviation (input) wrote :: "bytes \<Rightarrow> 'm \<Rightarrow> 'm session \<Rightarrow> 'm session" where
  "wrote l m s \<equiv> (logCall (CallWrite l) s)\<lparr>sMsg := Some m\<rparr>"

lemma dataLoop_read: "nextLine s = (None, s1) \<Longrightarrow> dataLoop ops v n msg s = (Some End, s1)"
  by (simp add: dataLoop.simps [of ops v n])

lemma dataLoop_dot: "nextLine s = (Some dotCRLF, s1) \<Longrightarrow> dataLoop ops v n msg s = (None, s1)"
  by (simp add: dataLoop.simps [of ops v n])

lemma dataLoop_big:
  "nextLine s = (Some sl, s1) \<Longrightarrow> sl \<noteq> dotCRLF \<Longrightarrow> maxSize v < n + length (unstuff sl) \<Longrightarrow>
   dataLoop ops v n msg s = (Some End, put ''552 Too much mail data.'' s1)"
  by (simp add: dataLoop.simps [of ops v n] Let_def)

lemma dataLoop_fail:
  "nextLine s = (Some sl, s1) \<Longrightarrow> sl \<noteq> dotCRLF \<Longrightarrow> n + length (unstuff sl) \<le> maxSize v \<Longrightarrow>
   writeLine ops msg (unstuff sl) = (False, m) \<Longrightarrow>
   dataLoop ops v n msg s = (Some End, put ''550 Write error'' (wrote (unstuff sl) m s1))"
  by (simp add: dataLoop.simps [of ops v n] Let_def)

lemma dataLoop_step:
  "nextLine s = (Some sl, s1) \<Longrightarrow> sl \<noteq> dotCRLF \<Longrightarrow> n + length (unstuff sl) \<le> maxSize v \<Longrightarrow>
   writeLine ops msg (unstuff sl) = (True, m) \<Longrightarrow>
   dataLoop ops v n msg s = dataLoop ops v (n + length (unstuff sl)) m (wrote (unstuff sl) m s1)"
  by (simp add: dataLoop.simps [of ops v n msg s] Let_def)

lemma dataLoop_induct:
  assumes "\<And>n msg s s1. nextLine s = (None, s1) \<Longrightarrow> P n msg s (Some End, s1)"
    and "\<And>n msg s s1. nextLine s = (Some dotCRLF, s1) \<Longrightarrow> P n msg s (None, s1)"
    and "\<And>n msg s s1 sl. nextLine s = (Some sl, s1) \<Longrightarrow> sl \<noteq> dotCRLF \<Longrightarrow> maxSize v < n + length (unstuff sl) \<Longrightarrow>
           P n msg s (Some End, put ''552 Too much mail data.'' s1)"
    and "\<And>n msg s s1 sl m. nextLine s = (Some sl, s1) \<Longrightarrow> sl \<noteq> dotCRLF \<Longrightarrow> n + length (unstuff sl) \<le> maxSize v \<Longrightarrow>
           writeLine ops msg (unstuff sl) = (False, m) \<Longrightarrow>
           P n msg s (Some End, put ''550 Write error'' (wrote (unstuff sl) m s1))"
    and step: "\<And>n msg s s1 sl m r. nextLine s = (Some sl, s1) \<Longrightarrow> sl \<noteq> dotCRLF \<Longrightarrow> n + length (unstuff sl) \<le> maxSize v \<Longrightarrow>
           writeLine ops msg (unstuff sl) = (True, m) \<Longrightarrow>
           P (n + length (unstuff sl)) m (wrote (unstuff sl) m s1) r \<Longrightarrow> P n msg s r"
  shows "P n msg s (dataLoop ops v n msg s)"
proof (induction "unread s" arbitrary: n msg s rule: less_induct)
  case less
  obtain l s1 where n: "nextLine s = (l, s1)" by fastforce
  show ?case
  proof (cases l)
    case None
    then show ?thesis using assms(1) n by (simp add: dataLoop_read)
  next
    case (Some sl)
    then have n: "nextLine s = (Some sl, s1)" using n by simp
    obtain ok m where w: "writeLine ops msg (unstuff sl) = (ok, m)" by fastforce
    have "unread (wrote (unstuff sl) m s1) < unread s" using nextLine_less [OF n] by simp
    note IH = less [OF this, of "n + length (unstuff sl)" m]
    consider "sl = dotCRLF" | "sl \<noteq> dotCRLF" "maxSize v < n + length (unstuff sl)"
      | "sl \<noteq> dotCRLF" "n + length (unstuff sl) \<le> maxSize v" "\<not> ok" | "sl \<noteq> dotCRLF" "n + length (unstuff sl) \<le> maxSize v" "ok"
      by linarith
    then show ?thesis
    proof cases
      case 1
      then show ?thesis using assms(2) n by (simp add: dataLoop_dot)
    next
      case 2
      then show ?thesis using assms(3) n by (simp add: dataLoop_big)
    next
      case 3
      then show ?thesis using assms(4) n w by (simp add: dataLoop_fail)
    next
      case 4
      then show ?thesis using step [OF n _ _ _ IH] w by (simp add: dataLoop_step [OF n])
    qed
  qed
qed

lemma dataLoop_frame:
  "unread (snd (dataLoop ops v n msg s)) \<le> unread s \<and> fst (dataLoop ops v n msg s) \<in> {None, Some End}"
  by (rule dataLoop_induct [where P = "\<lambda>n msg s r. unread (snd r) \<le> unread s \<and> fst r \<in> {None, Some End}"])
     (auto dest!: nextLine_frame)

lemma inBody_nextLine: "nextLine s = (r, t) \<Longrightarrow> inBody v n s \<Longrightarrow> inBody v n t"
  using inBody_frame onlyIO_nextLine by blast

lemma inBody_put: "inBody v n s \<Longrightarrow> inBody v n (put l s)"
  using inBody_frame onlyIO_put by blast

lemma dataLoop_inBody: "inBody v n s \<longrightarrow> (\<exists>n'. inBody v n' (snd (dataLoop ops v n msg s)))"
proof (rule dataLoop_induct [where P = "\<lambda>n msg s r. inBody v n s \<longrightarrow> (\<exists>n'. inBody v n' (snd r))"], goal_cases)
  case (1 n msg s s1) then show ?case using inBody_nextLine [of s _ s1 v n] by auto
next
  case (2 n msg s s1) then show ?case using inBody_nextLine [of s _ s1 v n] by auto
next
  case (3 n msg s s1 sl) then show ?case using inBody_nextLine [of s _ s1 v n] inBody_put [of v n s1] by auto
next
  case (4 n msg s s1 sl m)
  then show ?case using inBody_nextLine [of s _ s1 v n] inBody_put [OF inBody_write [of v n s1 "unstuff sl" m]] by auto
next
  case (5 n msg s s1 sl m r)
  then show ?case using inBody_nextLine [of s _ s1 v n] inBody_write [of v n s1 "unstuff sl" m] by auto
qed

lemma inBody_close:
  assumes "inBody v n t"
  shows "live v t \<and> (allowNoTLS v \<or> servingTLS v \<or> sTLS t) \<and> sMsg t \<noteq> None \<and> runCalls v Idle (sCalls t @ [CallClose ok]) = Some (if ok then Idle else Failing)"
proof -
  obtain p where p: "runCalls v Idle (sCalls t) = Some p" "openAt p n" using assms by (auto simp: inBody_def)
  have "sCalls t \<noteq> []" using p by (auto simp: openAt_def)
  then show ?thesis using assms inBody_live [OF assms] p
    by (cases p) (auto simp: inBody_def openAt_def tlsOK_def runCalls_snoc)
qed

lemma handled_DATA: "handled v s (cmdDATA ops v arg s)"
  unfolding cmdDATA_def
proof (rule handled_hasTLS, rule handled_hasNoArg, goal_cases)
  case 1
  show ?case
  proof (cases "sMsg s = None \<or> sRcpts s = 0")
    case True
    then show ?thesis by (auto intro: handled_onlyIO split: option.split)
  next
    case False
    then obtain m where m: "sMsg s = Some m" by auto
    obtain r t where d: "dataLoop ops v 0 m (put ''354 Go ahead'' s) = (r, t)" by fastforce
    obtain c m' where c: "closeMsg ops (the (sMsg t)) = (c, m')" by fastforce
    note fr = dataLoop_frame [of ops v 0 m "put ''354 Go ahead'' s", unfolded d, simplified]
    have "between v s \<Longrightarrow> inBody v 0 (put ''354 Go ahead'' s)"
      using m by (auto simp: between_def inBody_def openAt_def tlsOK_def)
    then have "between v s \<Longrightarrow> \<exists>n'. inBody v n' t"
      using dataLoop_inBody [of v 0 "put ''354 Go ahead'' s" ops m, unfolded d] by simp
    then have "between v s \<Longrightarrow> live v t \<and> (allowNoTLS v \<or> servingTLS v \<or> sTLS t) \<and> sMsg t \<noteq> None \<and>
        runCalls v Idle (sCalls t @ [CallClose ok]) = Some (if ok then Idle else Failing)" for ok
      using inBody_close [of v _ t ok] by auto
    then show ?thesis using fr m False d c
      by (auto simp: handled_def live_def between_def isPanic_def tlsOK_def split: closeResult.splits option.splits)
  qed
qed

lemma cancelCurrent_live:
  assumes "live v s"
  shows "live v (cancelCurrent ops s) \<and> runCalls v Idle (sCalls (cancelCurrent ops s)) = Some Idle \<and> sMsg (cancelCurrent ops s) = None"
proof -
  obtain p where p: "runCalls v Idle (sCalls s) = Some p" "p = Idle \<longleftrightarrow> sMsg s = None" using assms by (auto simp: live_def)
  show ?thesis
  proof (cases "sMsg s")
    case None
    then show ?thesis using p assms by (auto simp: cancelCurrent_def)
  next
    case (Some m)
    then have "tlsOK v (cancelCurrent ops s)" using assms p
      by (cases "sCalls s") (auto simp: live_def tlsOK_def cancelCurrent_def)
    then show ?thesis using Some p by (cases p) (auto simp: live_def cancelCurrent_def runCalls_snoc)
  qed
qed

lemma handled_RSET: "handled v s (cmdRSET ops v arg s)"
  unfolding cmdRSET_def
proof (rule handled_hasTLS, rule handled_hasNoArg, rule handledI, goal_cases)
  case 1
  show ?case by (auto simp: cancelCurrent_def split: option.split)
next
  case 2
  then show ?case using cancelCurrent_live [OF between_live [OF 2(3)], of ops]
    by (auto simp: between_def live_def tlsOK_def)
qed

lemma serveCmd_handled: "handled v s (serveCmd ops v verb arg s)"
proof -
  have q: "handled v s (cmdQUIT arg s)" and e: "handled v s (cmdEHLO v s)"
    by (metis surj_pair handled_onlyIO cmdQUIT_frame, metis surj_pair handled_onlyIO cmdEHLO_frame)
  show ?thesis
    unfolding serveCmd_def using q e
    by (simp add: handled_onlyIO handled_AUTH handled_STARTTLS handled_MAIL handled_RCPT handled_DATA handled_RSET)
qed

subsection \<open>serve\<close>

text \<open>One turn of the loop of \<open>serve\<close>; \<open>serveLoop\<close> repeats it until it does not continue.\<close>

definition serveTurn :: "'m msgOps \<Rightarrow> server \<Rightarrow> 'm session \<Rightarrow> flow \<times> 'm session" where
  "serveTurn ops v s =
     (let (r, s1) = nextLine s in
      case r of
        None \<Rightarrow> (End, s1)
      | Some sl \<Rightarrow>
        (if length sl < 3 \<or> \<not> endsCRLF sl then (Continue, put ''command does not end in CR-LF '' s1)
         else
           (let (verb, arg) = splitCmd sl in
            if verb \<notin> set verbStr then (Continue, put ''unknown command'' s1) else serveCmd ops v verb arg s1)))"

lemma serveTurn_less: "serveTurn ops v s = (Continue, t) \<Longrightarrow> unread t < unread s"
proof -
  assume a: "serveTurn ops v s = (Continue, t)"
  obtain r s1 where n: "nextLine s = (r, s1)" by fastforce
  with a obtain sl where sl: "r = Some sl" by (cases r) (auto simp: serveTurn_def)
  note l = nextLine_less [OF n [unfolded sl]]
  have h: "unread (snd (serveCmd ops v verb arg s1)) \<le> unread s1" for verb arg
    using serveCmd_handled [of v s1 ops verb arg] by (simp add: handled_def)
  obtain verb arg where c: "splitCmd sl = (verb, arg)" by fastforce
  show ?thesis using a n sl l h [of verb arg] c by (auto simp: serveTurn_def split: if_splits)
qed

function serveLoop :: "'m msgOps \<Rightarrow> server \<Rightarrow> 'm session \<Rightarrow> flow \<times> 'm session" where
  "serveLoop ops v s =
     (case serveTurn ops v s of (Continue, t) \<Rightarrow> serveLoop ops v t | (f, t) \<Rightarrow> (f, t))"
  by auto
termination
  by (relation "measure (\<lambda>(_, _, s). unread s)") (auto dest!: sym [of _ "serveTurn _ _ _"] serveTurn_less)

declare serveLoop.simps [simp del]

text \<open>The whole session: the greeting, the loop, then the deferred \<open>Cancel\<close> of a message that is still open.\<close>

definition serve :: "'m msgOps \<Rightarrow> server \<Rightarrow> bytes list \<Rightarrow> flow \<times> 'm session" where
  "serve ops v0 inp =
     (let v = withDefaults v0;
          (f, s) = serveLoop ops v (put (''220 '' @ srvHostname v @ '' ESMTP smsmtpd'') (newSession v inp)) in
      (f, cancelCurrent ops s))"

lemma splitCmd_app: "SP \<notin> set a \<Longrightarrow> splitCmd (a @ SP # b @ CRLF) = (a, trimRightSpace b)"
  by (simp add: splitCmd_def IndexByte_append)

lemma splitCmd_plain: "SP \<notin> set a \<Longrightarrow> splitCmd (a @ CRLF) = (a, [])"
proof -
  assume "SP \<notin> set a"
  then have "IndexByte (a @ CRLF) SP = None" by (simp add: IndexByte_None_iff)
  then show ?thesis by (simp add: splitCmd_def)
qed

lemma between_new: "between v (put l (newSession v inp))"
  by (simp add: between_def tlsOK_def newSession_def)

lemma serveTurn_between:
  assumes "serveTurn ops v s = (f, t)" and "between v s"
  shows "live v t \<and> (f = Continue \<longrightarrow> between v t)"
proof -
  obtain r s1 where n: "nextLine s = (r, s1)" by fastforce
  have b: "between v s1" using assms(2) n between_onlyIO onlyIO_nextLine by blast
  have p: "between v (put l s1)" for l using between_onlyIO [OF b onlyIO_put] .
  have h: "live v (snd (serveCmd ops v verb arg s1)) \<and>
      (fst (serveCmd ops v verb arg s1) = Continue \<longrightarrow> between v (snd (serveCmd ops v verb arg s1)))" for verb arg
    using serveCmd_handled [of v s1 ops verb arg] b by (simp add: handled_def)
  obtain verb arg where c: "splitCmd (the r) = (verb, arg)" by fastforce
  show ?thesis using assms(1) n b p p [THEN between_live] between_live [OF b] h [of verb arg] c
    by (auto simp: serveTurn_def split: option.splits if_splits)
qed

lemma serveLoop_live: "between v s \<Longrightarrow> live v (snd (serveLoop ops v s)) \<and> fst (serveLoop ops v s) \<noteq> Continue"
proof (induction ops v s rule: serveLoop.induct)
  case (1 ops v s)
  obtain f t where t: "serveTurn ops v s = (f, t)" by fastforce
  note b = serveTurn_between [OF t 1(2)]
  show ?case using 1(1) [OF t [symmetric]] b t by (cases f) (auto simp: serveLoop.simps [of ops v s])
qed

lemma serve_cancel: "serve ops v0 inp =
    (fst (serveLoop ops (withDefaults v0) (put (''220 '' @ srvHostname (withDefaults v0) @ '' ESMTP smsmtpd'') (newSession (withDefaults v0) inp))),
     cancelCurrent ops (snd (serveLoop ops (withDefaults v0)
       (put (''220 '' @ srvHostname (withDefaults v0) @ '' ESMTP smsmtpd'') (newSession (withDefaults v0) inp)))))"
  by (simp add: serve_def Let_def split: prod.split)

text \<open>C7: Whatever bytes a client sends, the calls a session makes on the message provider follow the protocol of the \<open>Msg\<close>
  interface (and respect the server's bounds): a message is opened only with a well-formed sender address and, under
  \<open>MustAuth\<close>, a non-zero token; recipients (fewer than \<open>MaxRecipients\<close>, each with a well-formed address) come before the
  lines; at most \<open>MaxSize\<close> bytes are written; and every message opened is closed or cancelled exactly once, also when the
  connection breaks or \<open>Close\<close> panics. In the end no message is open, and the session has ended.\<close>

theorem serve_protocol:
  "runCalls (withDefaults v) Idle (sCalls (snd (serve ops v inp))) = Some Idle \<and>
   sMsg (snd (serve ops v inp)) = None \<and> fst (serve ops v inp) \<noteq> Continue"
  using serveLoop_live [OF between_new] cancelCurrent_live by (simp add: serve_cancel) blast

text \<open>Without TLS (no \<open>AllowNoTLS\<close>, no TLS listener, no \<open>STARTTLS\<close> on the connection) a session never reaches the
  message provider at all.\<close>

theorem serve_needs_tls:
  "allowNoTLS v \<or> servingTLS v \<or> sTLS (snd (serve ops v inp)) \<or> sCalls (snd (serve ops v inp)) = []"
proof -
  have "allowNoTLS (withDefaults v) = allowNoTLS v" "servingTLS (withDefaults v) = servingTLS v"
    by (simp_all add: withDefaults_def)
  then show ?thesis
    using cancelCurrent_live [OF serveLoop_live [OF between_new, THEN conjunct1]]
    by (fastforce simp: serve_cancel live_def tlsOK_def)
qed

subsection \<open>The provider's contract\<close>

text \<open>What a sequence of calls hands over: the message in the making (sender, recipients taken, bytes written) and the
  messages closed so far.\<close>

type_synonym mail = "bytes \<times> bytes list \<times> bytes"

definition addTo :: "mail \<Rightarrow> bytes \<Rightarrow> bool \<Rightarrow> mail" where
  "addTo m a ok = (case m of (from, rs, c) \<Rightarrow> (from, if ok then rs @ [a] else rs, c))"

definition writeTo :: "mail \<Rightarrow> bytes \<Rightarrow> mail" where
  "writeTo m l = (case m of (from, rs, c) \<Rightarrow> (from, rs, c @ l))"

fun callEffect :: "mail option \<times> mail list \<Rightarrow> msgCall \<Rightarrow> mail option \<times> mail list" where
  "callEffect (cur, done) (CallNew from tok ok) = ((if ok then Some (from, [], []) else None), done)"
| "callEffect (Some m, done) (CallAdd a ok) = (Some (addTo m a ok), done)"
| "callEffect (Some m, done) (CallWrite l) = (Some (writeTo m l), done)"
| "callEffect (Some m, done) (CallClose ok) = (if ok then (None, done @ [m]) else (Some m, done))"
| "callEffect (cur, done) CallCancel = (None, done)"
| "callEffect (cur, done) _ = (cur, done)"

definition mails :: "msgCall list \<Rightarrow> mail option \<times> mail list" where
  "mails cs = foldl callEffect (None, []) cs"

lemma mails_snoc [simp]: "mails (cs @ [c]) = callEffect (mails cs) c"
  by (simp add: mails_def)

lemma mails_Nil [simp]: "mails [] = (None, [])"
  by (simp add: mails_def)

text \<open>The contract of a provider: \<open>view\<close> reads off a message its sender, its recipients and its content, \<open>handed\<close> what a closed
  message has handed on; a \<open>Close\<close> that succeeds has handed on the message, one that fails may not have.\<close>

locale msg_provider =
  fixes ops :: "'m msgOps" and good :: "'m \<Rightarrow> bool" and view :: "'m \<Rightarrow> mail" and handed :: "'m \<Rightarrow> mail option"
  assumes new_view: "newMsg ops from tok = Some m \<Longrightarrow> good m \<and> view m = (from, [], [])"
    and add_view: "addRcpt ops m a = (r, m') \<Longrightarrow> good m \<Longrightarrow> good m' \<and> (r \<noteq> None \<longrightarrow> view m' = addTo (view m) a (r = Some True))"
    and write_view: "writeLine ops m l = (ok, m') \<Longrightarrow> good m \<Longrightarrow> good m' \<and> (ok \<longrightarrow> view m' = writeTo (view m) l)"
    and close_view: "closeMsg ops m = (res, m') \<Longrightarrow> good m \<Longrightarrow> \<not> isPanic res \<Longrightarrow>
      handed m' = Some (view m) \<or> handed m' = None \<and> res \<noteq> Closed"
begin

definition handedAll :: "'m list \<Rightarrow> mail list \<Rightarrow> bool" where
  "handedAll ms ys \<longleftrightarrow> map handed (butlast ms) = map Some (butlast ys) \<and>
     list_all2 (\<lambda>m y. handed m = None \<or> handed m = Some y) ms ys"

definition tracked :: "'m session \<Rightarrow> bool" where
  "tracked s \<longleftrightarrow> (\<exists>ys. mails (sCalls s) = (map_option view (sMsg s), ys) \<and> map handed (sClosed s) = map Some ys) \<and>
     (\<forall>m. sMsg s = Some m \<longrightarrow> good m)"

definition tracked' :: "'m session \<Rightarrow> bool" where
  "tracked' s \<longleftrightarrow> (\<exists>cur ys. mails (sCalls s) = (cur, ys) \<and> handedAll (sClosed s) ys \<and> (sMsg s = None \<longrightarrow> cur = None))"

definition tracks :: "'m session \<Rightarrow> flow \<times> 'm session \<Rightarrow> bool" where
  "tracks s r \<longleftrightarrow> (tracked s \<longrightarrow> tracked' (snd r) \<and> (fst r = Continue \<longrightarrow> tracked (snd r)))"

lemma handedAll_Some: "map handed ms = map Some ys \<Longrightarrow> handedAll ms ys"
proof -
  assume a: "map handed ms = map Some ys"
  then have "length ms = length ys" by (metis length_map)
  moreover have "handed (ms ! i) = Some (ys ! i)" if "i < length ys" for i
    using arg_cong [OF a, of "\<lambda>l. l ! i"] that calculation by simp
  ultimately have "list_all2 (\<lambda>m y. handed m = None \<or> handed m = Some y) ms ys" by (simp add: list_all2_conv_all_nth)
  moreover have "map handed (butlast ms) = map Some (butlast ys)" using a by (simp add: map_butlast)
  ultimately show ?thesis by (simp add: handedAll_def)
qed

lemma handedAll_snoc: "map handed ms = map Some ys \<Longrightarrow> handed m = None \<or> handed m = Some x \<Longrightarrow> handedAll (ms @ [m]) (ys @ [x])"
  using handedAll_Some [of ms ys] by (auto simp: handedAll_def list_all2_appendI)

lemma tracked_weak: "tracked s \<Longrightarrow> tracked' s"
  by (auto simp: tracked_def tracked'_def handedAll_Some)

lemma tracked_onlyIO: "onlyIO s t \<Longrightarrow> tracked t = tracked s"
  using onlyIO_fields [of s t] by (simp add: tracked_def)

lemma tracks_onlyIO: "onlyIO s t \<Longrightarrow> tracks s (f, t)"
  using tracked_onlyIO [of s t] tracked_weak [of t] by (simp add: tracks_def)

lemma tracks_hasTLS:
  "tracks s (k s) \<Longrightarrow> tracks s (let (ok, s1) = hasTLS v s in if \<not> ok then (Continue, s1) else k s1)"
  using onlyIO_hasTLS [of v s "fst (hasTLS v s)" "snd (hasTLS v s)"] tracks_onlyIO [of s "snd (hasTLS v s)" Continue]
  by (cases "hasTLS v s") auto

lemma tracks_hasNoArg:
  "tracks s (k s) \<Longrightarrow> tracks s (let (ok, s1) = hasNoArg arg s in if \<not> ok then (Continue, s1) else k s1)"
  using tracks_onlyIO [of s "snd (hasNoArg arg s)" Continue] by (auto simp: hasNoArg_def)

lemma tracks_same:
  "sMsg t = sMsg s \<Longrightarrow> sCalls t = sCalls s \<Longrightarrow> sClosed t = sClosed s \<Longrightarrow> tracks s (f, t)"
  using tracked_weak [of t] by (auto simp: tracks_def tracked_def)

lemma tracks_MAIL: "tracks s (cmdMAIL ops v arg s)"
  unfolding cmdMAIL_def
proof (rule tracks_hasTLS, goal_cases)
  case 1
  show ?case
    by (auto simp: tracks_def tracked_def tracked'_def Let_def handedAll_Some dest!: new_view split: option.splits)
qed

lemma tracked_simps [simp]:
  "tracked (put l s) = tracked s" "tracked' (put l s) = tracked' s" "tracked (s\<lparr>sRcpts := n\<rparr>) = tracked s"
  "tracked' (s\<lparr>sRcpts := n\<rparr>) = tracked' s"
  by (simp_all add: tracked_def tracked'_def)

lemma tracked_add:
  assumes "tracked s" and "sMsg s = Some m" and "addRcpt ops m a = (r, m')"
  shows "tracked' ((logCall (CallAdd a (r = Some True)) s)\<lparr>sMsg := Some m'\<rparr>) \<and>
    (r \<noteq> None \<longrightarrow> tracked ((logCall (CallAdd a (r = Some True)) s)\<lparr>sMsg := Some m'\<rparr>))"
proof -
  have g: "good m" using assms by (simp add: tracked_def)
  show ?thesis using assms add_view [OF assms(3) g] by (auto simp: tracked_def tracked'_def handedAll_Some)
qed

lemma tracks_RCPT: "tracks s (cmdRCPT ops v arg s)"
  unfolding cmdRCPT_def
proof (rule tracks_hasTLS, goal_cases)
  case 1
  show ?case
  proof (cases "sMsg s")
    case None
    then show ?thesis by (auto intro: tracks_onlyIO)
  next
    case (Some m)
    obtain to where to: "to = TrimSpace (the (angleMatch ''TO:<'' arg))" by blast
    obtain r m' where a: "addRcpt ops m to = (r, m')" by fastforce
    have t: "tracked s \<Longrightarrow> tracked' ((logCall (CallAdd to (r = Some True)) (s\<lparr>sRcpts := Suc (sRcpts s)\<rparr>))\<lparr>sMsg := Some m'\<rparr>) \<and>
      (r \<noteq> None \<longrightarrow> tracked ((logCall (CallAdd to (r = Some True)) (s\<lparr>sRcpts := Suc (sRcpts s)\<rparr>))\<lparr>sMsg := Some m'\<rparr>))"
      using tracked_add [of "s\<lparr>sRcpts := Suc (sRcpts s)\<rparr>" m to r m'] Some a by simp
    have w: "tracked s \<Longrightarrow> tracked' s" by (rule tracked_weak)
    show ?thesis
      using Some t w a to
      by (cases "angleMatch ''TO:<'' arg"; cases r) (auto simp: tracks_def Let_def split: bool.splits)
  qed
qed

lemma tracked_write:
  "tracked s \<Longrightarrow> sMsg s = Some m \<Longrightarrow> writeLine ops m l = (ok, m') \<Longrightarrow>
   (ok \<longrightarrow> tracked (wrote l m' s)) \<and> tracked' (wrote l m' s)"
  by (auto simp: tracked_def tracked'_def handedAll_Some dest!: write_view)

lemma dataLoop_tracks:
  "tracked s \<and> sMsg s = Some msg \<longrightarrow>
   tracked' (snd (dataLoop ops v n msg s)) \<and> sMsg (snd (dataLoop ops v n msg s)) \<noteq> None \<and>
   (fst (dataLoop ops v n msg s) = None \<longrightarrow> tracked (snd (dataLoop ops v n msg s)))"
proof (rule dataLoop_induct [where P = "\<lambda>n msg s r. tracked s \<and> sMsg s = Some msg \<longrightarrow> tracked' (snd r) \<and> sMsg (snd r) \<noteq> None \<and> (fst r = None \<longrightarrow> tracked (snd r))"],
    goal_cases)
  case (1 n msg s s1)
  then show ?case using tracked_onlyIO [OF onlyIO_nextLine] onlyIO_fields [OF onlyIO_nextLine [of s _ s1]] tracked_weak by auto
next
  case (2 n msg s s1)
  then show ?case using tracked_onlyIO [OF onlyIO_nextLine] onlyIO_fields [OF onlyIO_nextLine [of s _ s1]] tracked_weak by auto
next
  case (3 n msg s s1 sl)
  then show ?case using tracked_onlyIO [OF onlyIO_nextLine] onlyIO_fields [OF onlyIO_nextLine [of s _ s1]]
      tracked_onlyIO [OF onlyIO_put [of s1]] tracked_weak by auto
next
  case (4 n msg s s1 sl m)
  note f = onlyIO_nextLine [OF 4(1)]
  have "tracked' (put l (wrote (unstuff sl) m s1))" if "tracked s1" "sMsg s1 = Some msg" for l
    using tracked_write [OF that 4(4)] by (simp add: tracked'_def)
  then show ?case using tracked_onlyIO [OF f] onlyIO_fields [OF f] by auto
next
  case (5 n msg s s1 sl m r)
  note f = onlyIO_nextLine [OF 5(1)]
  show ?case using 5(5) tracked_write [of s1 msg, OF _ _ 5(4)] tracked_onlyIO [OF f] onlyIO_fields [OF f] by auto
qed

lemma tracked_close:
  assumes "tracked t" and "sMsg t = Some y" and "closeMsg ops y = (c, m')" and "\<not> isPanic c"
  shows "tracked' ((logCall (CallClose True) t)\<lparr>sMsg := None, sRcpts := 0, sClosed := sClosed t @ [m']\<rparr>) \<and>
    (c = Closed \<longrightarrow> tracked ((logCall (CallClose True) t)\<lparr>sMsg := None, sRcpts := 0, sClosed := sClosed t @ [m']\<rparr>))"
proof -
  obtain ys where ys: "mails (sCalls t) = (Some (view y), ys)" "map handed (sClosed t) = map Some ys" "good y"
    using assms by (auto simp: tracked_def)
  have h: "handed m' = Some (view y) \<or> handed m' = None \<and> c \<noteq> Closed" by (rule close_view [OF assms(3) ys(3) assms(4)])
  have "handedAll (sClosed t @ [m']) (ys @ [view y])" using h by (intro handedAll_snoc [OF ys(2)]) auto
  then show ?thesis using ys h by (auto simp: tracked_def tracked'_def)
qed

lemma tracked_close_panic:
  "tracked t \<Longrightarrow> tracked' ((logCall (CallClose False) t)\<lparr>sMsg := Some m\<rparr>)"
  by (cases "sMsg t") (auto simp: tracked_def tracked'_def handedAll_Some)

lemma tracks_DATA: "tracks s (cmdDATA ops v arg s)"
  unfolding cmdDATA_def
proof (rule tracks_hasTLS, rule tracks_hasNoArg, goal_cases)
  case 1
  show ?case
  proof (cases "sMsg s = None \<or> sRcpts s = 0")
    case True
    then show ?thesis by (auto intro: tracks_onlyIO split: option.split)
  next
    case False
    then obtain m where m: "sMsg s = Some m" by auto
    obtain r t where d: "dataLoop ops v 0 m (put ''354 Go ahead'' s) = (r, t)" by fastforce
    obtain c m' where c: "closeMsg ops (the (sMsg t)) = (c, m')" by fastforce
    have l: "tracked s \<longrightarrow> tracked' t \<and> sMsg t \<noteq> None \<and> (r = None \<longrightarrow> tracked t)"
      using dataLoop_tracks [of "put ''354 Go ahead'' s" m v 0, unfolded d] tracked_onlyIO [OF onlyIO_put [of s]] m by simp
    show ?thesis
    proof (cases r)
      case None
      note x = tracked_close [of t "the (sMsg t)", OF _ _ c] tracked_close_panic [of t m']
      have "isPanic (ClosePanic e)" "\<not> isPanic Closed" "\<not> isPanic TempFailure" "\<not> isPanic (CloseError e')" for e e'
        by (simp_all add: isPanic_def)
      then show ?thesis using None l m False d c x by (cases c) (auto simp: tracks_def)
    next
      case (Some e)
      moreover have "e = End" using dataLoop_frame [of ops v 0 m "put ''354 Go ahead'' s", unfolded d] Some by simp
      ultimately show ?thesis using l m False d by (auto simp: tracks_def)
    qed
  qed
qed

lemma tracks_AUTH: "tracks s (cmdAUTH v arg s)"
  using onlyIO_cmdAUTH [of v arg s] onlyIO_fields [of "s\<lparr>sToken := sToken (snd (cmdAUTH v arg s))\<rparr>"]
    tracks_same [of "snd (cmdAUTH v arg s)" s] by (metis prod.collapse session.select_convs(3,7,8) session.surjective session.update_convs(4))

lemma tracks_STARTTLS: "tracks s (cmdSTARTTLS arg s)"
proof -
  obtain f t where c: "cmdSTARTTLS arg s = (f, t)" by fastforce
  show ?thesis unfolding c using onlyIO_fields [of "s\<lparr>sTLS := sTLS t\<rparr>" t] cmdSTARTTLS_frame [OF c]
    by (intro tracks_same) auto
qed

lemma tracked_cancel:
  "tracked s \<Longrightarrow> tracked (cancelCurrent ops s)" "tracked' s \<Longrightarrow> tracked' (cancelCurrent ops s)"
  by (auto simp: cancelCurrent_def tracked_def tracked'_def split: option.split)

lemma tracks_RSET: "tracks s (cmdRSET ops v arg s)"
  unfolding cmdRSET_def
proof (rule tracks_hasTLS, rule tracks_hasNoArg, goal_cases)
  case 1
  show ?case using tracked_cancel(1) [of s] tracked_weak [of "cancelCurrent ops s"]
    by (auto simp: tracks_def)
qed

lemma tracks_serveCmd: "tracks s (serveCmd ops v verb arg s)"
proof -
  have q: "tracks s (cmdQUIT arg s)" and e: "tracks s (cmdEHLO v s)"
    by (metis surj_pair tracks_onlyIO cmdQUIT_frame, metis surj_pair tracks_onlyIO cmdEHLO_frame)
  show ?thesis
    unfolding serveCmd_def using q e
    by (simp add: tracks_onlyIO tracks_AUTH tracks_STARTTLS tracks_MAIL tracks_RCPT tracks_DATA tracks_RSET)
qed

lemma tracks_serveTurn: "tracks s (serveTurn ops v s)"
proof -
  obtain r s1 where n: "nextLine s = (r, s1)" by fastforce
  note io = onlyIO_nextLine [OF n]
  have h: "tracks s (serveCmd ops v verb arg s1)" for verb arg
    using tracks_serveCmd [of s1 v verb arg] tracked_onlyIO [OF io] by (simp add: tracks_def)
  obtain verb arg where c: "splitCmd (the r) = (verb, arg)" by fastforce
  show ?thesis using n h [of verb arg] c tracks_onlyIO [OF io] tracks_onlyIO [OF onlyIO_put_trans [OF io]]
    by (auto simp: serveTurn_def split: option.splits if_splits)
qed

lemma serveLoop_tracked: "tracked s \<Longrightarrow> tracked' (snd (serveLoop ops v s))"
proof (induction "unread s" arbitrary: s rule: less_induct)
  case less
  obtain f t where t: "serveTurn ops v s = (f, t)" by fastforce
  note b = tracks_serveTurn [of s v, unfolded t tracks_def]
  show ?case using less serveTurn_less [of ops v s t] b t by (cases f) (auto simp: serveLoop.simps [of ops v s])
qed

text \<open>The messages a session hands on are the ones its calls describe.\<close>

theorem closed_mails: "handedAll (sClosed (snd (serve ops v inp))) (snd (mails (sCalls (snd (serve ops v inp)))))"
proof -
  have "tracked (put l (newSession v inp))" for l v
    by (simp add: tracked_def newSession_def)
  from tracked_cancel(2) [OF serveLoop_tracked [OF this]] show ?thesis
    unfolding serve_cancel tracked'_def snd_conv by (metis snd_conv)
qed

end

end
