(* ===== verification/Greylist.thy ===== *)
theory Greylist
  imports SmtpServer
begin

text \<open>
  The greylisting message provider (\<open>smtp/smtpserver/greylist/greylist.go\<close>) behind the interface \<open>Msg\<close>.

  A message keeps the sender and the recipients in one buffer, as slices of it: \<open>AddRecipient\<close> appends to the buffer and keeps
  the offsets, and an append never changes the bytes of an earlier slice. The buffer file (\<open>iox.Filer\<close>, a third-party package) is
  its contents; \<open>fwrite\<close> is its \<open>Write\<close>, which by the contract of \<open>io.Writer\<close> writes everything (\<open>None\<close>) or fails after
  some bytes (\<open>Some n\<close>), and \<open>fseek\<close> the error of its \<open>Seek\<close>. \<open>ProcessMsg\<close>, \<open>Whitelist\<close> and \<open>Blacklist\<close> are
  fields of \<open>Greylist\<close>, functions the caller of the package gives. Errors are their texts, \<open>processMsg\<close> returns a
  \<open>closeResult\<close> because the server tells one error from the others.
\<close>

type_synonym slice = "nat \<times> nat"

record rawMsg =
  rRemoteAddr :: bytes
  rFrom :: bytes
  rRecipients :: "bytes list"
  rWhitelist :: bool
  rContent :: "bytes option"
  rContentSize :: nat

record greylist =
  fwrite :: "bytes \<Rightarrow> bytes \<Rightarrow> nat option"
  fseek :: "bytes \<Rightarrow> bytes option"
  processMsg :: "rawMsg \<Rightarrow> closeResult"
  whitelistFn :: "(bytes \<Rightarrow> bytes \<Rightarrow> bytes + bool) option"
  blacklistFn :: "(bytes \<Rightarrow> bytes \<Rightarrow> bytes + bool) option"

record greyMsg =
  gAddr :: bytes
  gFile :: "bytes option"
  gFileOpen :: bool
  gBuf :: bytes
  gFrom :: slice
  gRecipients :: "slice list"
  gWhite :: bool
  gContentSize :: nat
  gDelivered :: "rawMsg list"

definition sliceOf :: "bytes \<Rightarrow> slice \<Rightarrow> bytes" where
  "sliceOf buf sl = take (snd sl) (drop (fst sl) buf)"

definition NewMessage :: "bytes \<Rightarrow> bytes \<Rightarrow> nat \<Rightarrow> greyMsg option" where
  "NewMessage addr from token =
     Some \<lparr>gAddr = addr, gFile = None, gFileOpen = False, gBuf = from, gFrom = (0, length from), gRecipients = [],
       gWhite = False, gContentSize = 0, gDelivered = []\<rparr>"

definition AddRecipient :: "greyMsg \<Rightarrow> bytes \<Rightarrow> bool option \<times> greyMsg" where
  "AddRecipient g addr =
     (let buf = gBuf g @ addr in
      (Some True, g\<lparr>gBuf := buf, gRecipients := gRecipients g @ [(length buf - length addr, length addr)]\<rparr>))"

definition Write :: "greylist \<Rightarrow> greyMsg \<Rightarrow> bytes \<Rightarrow> bool \<times> greyMsg" where
  "Write gl g line =
     (let g1 = (if gFile g = None then g\<lparr>gFile := Some [], gFileOpen := True\<rparr> else g);
          c = the (gFile g1) in
      case fwrite gl c line of
        None \<Rightarrow> (True, g1\<lparr>gFile := Some (c @ line), gContentSize := gContentSize g1 + length line\<rparr>)
      | Some n \<Rightarrow> (False, g1\<lparr>gFile := Some (c @ take n line), gContentSize := gContentSize g1 + min n (length line)\<rparr>))"

definition closeFile :: "greyMsg \<Rightarrow> greyMsg" where
  "closeFile g = (if gFile g \<noteq> None then g\<lparr>gFileOpen := False\<rparr> else g)"

definition Cancel :: "greyMsg \<Rightarrow> greyMsg" where
  "Cancel g = closeFile g"

text \<open>\<open>allow\<close>: the whitelist before the blacklist; nothing calls it.\<close>

definition allow :: "greylist \<Rightarrow> greyMsg \<Rightarrow> (bytes + bool) \<times> greyMsg" where
  "allow gl g =
     (let from = sliceOf (gBuf g) (gFrom g);
          black = (case blacklistFn gl of
                     None \<Rightarrow> Inr True
                   | Some f \<Rightarrow> (case f (gAddr g) from of Inl e \<Rightarrow> Inl e | Inr is \<Rightarrow> Inr (\<not> is))) in
      case whitelistFn gl of
        None \<Rightarrow> (black, g)
      | Some f \<Rightarrow>
        (case f (gAddr g) from of
           Inl e \<Rightarrow> (Inl e, g)
         | Inr is \<Rightarrow> if is then (Inr True, g\<lparr>gWhite := True\<rparr>) else (black, g)))"

definition rawOf :: "greyMsg \<Rightarrow> rawMsg" where
  "rawOf g = \<lparr>rRemoteAddr = gAddr g, rFrom = sliceOf (gBuf g) (gFrom g), rRecipients = map (sliceOf (gBuf g)) (gRecipients g),
     rWhitelist = gWhite g, rContent = gFile g, rContentSize = gContentSize g\<rparr>"

text \<open>\<open>Close\<close> seeks in the file before it looks whether there is one: with no line written it panics.\<close>

definition Close :: "greylist \<Rightarrow> greyMsg \<Rightarrow> closeResult \<times> greyMsg" where
  "Close gl g =
     (case gFile g of
        None \<Rightarrow> (ClosePanic ''invalid memory address or nil pointer dereference'', g)
      | Some c \<Rightarrow>
        (case fseek gl c of
           Some e \<Rightarrow> (CloseError e, closeFile g)
         | None \<Rightarrow> (processMsg gl (rawOf g), closeFile (g\<lparr>gDelivered := gDelivered g @ [rawOf g]\<rparr>))))"

definition greyOps :: "greylist \<Rightarrow> bytes \<Rightarrow> greyMsg msgOps" where
  "greyOps gl addr = \<lparr>newMsg = NewMessage addr, addRcpt = AddRecipient, writeLine = Write gl, closeMsg = Close gl, cancelMsg = Cancel\<rparr>"

subsection \<open>The provider keeps the contract\<close>

text \<open>Slices of the buffer lie inside it, the size counts the file's bytes, the file is open once it exists.\<close>

definition inBuf :: "bytes \<Rightarrow> slice \<Rightarrow> bool" where
  "inBuf buf sl \<longleftrightarrow> fst sl + snd sl \<le> length buf"

definition wfMsg :: "greyMsg \<Rightarrow> bool" where
  "wfMsg g \<longleftrightarrow> list_all (inBuf (gBuf g)) (gFrom g # gRecipients g) \<and>
     gContentSize g = length (case gFile g of None \<Rightarrow> [] | Some c \<Rightarrow> c)"

definition mailOf :: "greyMsg \<Rightarrow> mail" where
  "mailOf g = (sliceOf (gBuf g) (gFrom g), map (sliceOf (gBuf g)) (gRecipients g), case gFile g of None \<Rightarrow> [] | Some c \<Rightarrow> c)"

lemma sliceOf_append: "inBuf buf sl \<Longrightarrow> sliceOf (buf @ b) sl = sliceOf buf sl"
  by (simp add: sliceOf_def inBuf_def)

lemma inBuf_append: "inBuf buf sl \<Longrightarrow> inBuf (buf @ b) sl"
  by (simp add: inBuf_def)

lemma wf_NewMessage: "NewMessage addr from tok = Some g \<Longrightarrow> wfMsg g \<and> mailOf g = (from, [], [])"
  by (auto simp: NewMessage_def wfMsg_def mailOf_def sliceOf_def inBuf_def)

lemma wf_AddRecipient:
  assumes "AddRecipient g a = (r, g')" and "wfMsg g"
  shows "wfMsg g' \<and> r = Some True \<and> mailOf g' = addTo (mailOf g) a True"
proof -
  have w: "list_all (inBuf (gBuf g)) (gFrom g # gRecipients g)" using assms(2) by (simp add: wfMsg_def)
  then have s: "sliceOf (gBuf g @ a) (gFrom g) = sliceOf (gBuf g) (gFrom g)"
      "map (sliceOf (gBuf g @ a)) (gRecipients g) = map (sliceOf (gBuf g)) (gRecipients g)"
    by (simp_all add: sliceOf_append list_all_iff)
  have "list_all (inBuf (gBuf g @ a)) (gFrom g # gRecipients g @ [(length (gBuf g), length a)])"
    using w inBuf_append by (fastforce simp: list_all_iff inBuf_def)
  moreover have "sliceOf (gBuf g @ a) (length (gBuf g), length a) = a" by (simp add: sliceOf_def)
  moreover have "r = Some True" "g' = g\<lparr>gBuf := gBuf g @ a, gRecipients := gRecipients g @ [(length (gBuf g), length a)]\<rparr>"
    using assms(1) by (simp_all add: AddRecipient_def)
  ultimately show ?thesis using assms(2) s by (simp add: wfMsg_def mailOf_def addTo_def)
qed

lemma wf_Write:
  assumes "Write gl g l = (ok, g')" and "wfMsg g"
  shows "wfMsg g' \<and> (ok \<longrightarrow> mailOf g' = writeTo (mailOf g) l)"
  using assms
  by (cases "gFile g") (auto simp: Write_def wfMsg_def mailOf_def writeTo_def Let_def split: option.splits if_splits)

lemma wf_Close: "Close gl g = (r, g') \<Longrightarrow> wfMsg g \<Longrightarrow> wfMsg g' \<and> mailOf g' = mailOf g"
  by (auto simp: Close_def closeFile_def wfMsg_def mailOf_def split: option.splits)

lemma wf_Cancel: "wfMsg g \<Longrightarrow> wfMsg (Cancel g)"
  by (auto simp: Cancel_def closeFile_def wfMsg_def)

text \<open>The mails a message handed to \<open>ProcessMsg\<close>.\<close>

definition rawMail :: "rawMsg \<Rightarrow> mail" where
  "rawMail r = (rFrom r, rRecipients r, the (rContent r))"

definition processed :: "greyMsg \<Rightarrow> mail option" where
  "processed g = (case gDelivered g of [r] \<Rightarrow> Some (rawMail r) | _ \<Rightarrow> None)"

definition freshMsg :: "greyMsg \<Rightarrow> bool" where
  "freshMsg g \<longleftrightarrow> wfMsg g \<and> gDelivered g = []"

lemma fresh_AddRecipient: "AddRecipient g a = (r, g') \<Longrightarrow> freshMsg g \<Longrightarrow> freshMsg g' \<and> r = Some True \<and> mailOf g' = addTo (mailOf g) a True"
proof -
  assume a: "AddRecipient g a = (r, g')" "freshMsg g"
  then have "gDelivered g' = gDelivered g" by (auto simp: AddRecipient_def)
  then show ?thesis using wf_AddRecipient [OF a(1)] a(2) by (simp add: freshMsg_def)
qed

lemma Write_gDelivered: "Write gl g l = (ok, g') \<Longrightarrow> gDelivered g' = gDelivered g"
  by (auto simp: Write_def Let_def split: option.splits if_splits)

lemma fresh_Write: "Write gl g l = (ok, g') \<Longrightarrow> freshMsg g \<Longrightarrow> freshMsg g' \<and> (ok \<longrightarrow> mailOf g' = writeTo (mailOf g) l)"
  using wf_Write [of gl g l ok g'] Write_gDelivered [of gl g l ok g'] by (simp add: freshMsg_def)

lemma rawMail_rawOf: "gFile g = Some c \<Longrightarrow> rawMail (rawOf g) = mailOf g"
  by (simp add: rawMail_def rawOf_def mailOf_def)

lemma fresh_Close:
  assumes "Close gl g = (r, g')" and "freshMsg g" and "\<not> isPanic r"
  shows "processed g' = Some (mailOf g) \<or> processed g' = None \<and> r \<noteq> Closed"
proof (cases "gFile g")
  case None
  then show ?thesis using assms by (auto simp: Close_def isPanic_def)
next
  case (Some c)
  then show ?thesis using assms rawMail_rawOf [OF Some]
    by (auto simp: Close_def closeFile_def processed_def freshMsg_def split: option.splits)
qed

interpretation grey: msg_provider "greyOps gl addr" freshMsg mailOf processed for gl addr
proof (unfold_locales, goal_cases)
  case (1 frm tok m)
  then show ?case using wf_NewMessage [of addr frm tok m] by (auto simp: greyOps_def freshMsg_def NewMessage_def)
next
  case (2 m a r m')
  then show ?case using fresh_AddRecipient [of m a r m'] by (auto simp: greyOps_def)
next
  case (3 m l ok m')
  then show ?case using fresh_Write [of gl m l ok m'] by (auto simp: greyOps_def)
next
  case (4 m res m')
  then show ?case using fresh_Close [of gl m res m'] by (auto simp: greyOps_def)
qed

text \<open>C8: End to end, from the bytes of the connection to \<open>ProcessMsg\<close>: for every session on the greylist provider, the messages it
  closed correspond one to one to the mails its calls describe (the sender of MAIL, the recipients of RCPT in order, the lines of DATA),
  each is processed with exactly that sender, those recipients and that content, and only the last one of a session
  (after which the session has ended with an error) may not have been processed at all. The slices that the recipients are
  in the shared buffer are never disturbed by later appends.\<close>

theorem greylist_delivery:
  "map processed (butlast (sClosed (snd (serve (greyOps gl addr) v inp)))) =
     map Some (butlast (snd (mails (sCalls (snd (serve (greyOps gl addr) v inp)))))) \<and>
   list_all2 (\<lambda>g m. processed g = None \<or> processed g = Some m)
     (sClosed (snd (serve (greyOps gl addr) v inp))) (snd (mails (sCalls (snd (serve (greyOps gl addr) v inp)))))"
  using grey.closed_mails [of gl addr v inp] by (simp add: grey.handedAll_def)

end
