(* ===== verification/SmtpRuns.thy ===== *)
theory SmtpRuns
  imports Greylist
begin

text \<open>
  What whole runs of the SMTP server (\<open>SmtpServer\<close>) do: the transparency of DATA (the dot-stuffing of a client is undone, line
  by line), a complete mail transaction on the greylist provider, the runs in which the session does something else than its
  responses say, and the admission of sessions by \<open>serveSession\<close>.
\<close>

subsection \<open>DATA\<close>

text \<open>What a client sends for a line (RFC 5321, 4.5.2), and the lines that fit the server's buffer.\<close>

definition stuff :: "bytes \<Rightarrow> bytes" where
  "stuff l = (if l \<noteq> [] \<and> hd l = CHR ''.'' then CHR ''.'' # l else l)"

definition lineOK :: "bytes \<Rightarrow> bool" where
  "lineOK l \<longleftrightarrow> l \<noteq> [] \<and> last l = LF \<and> LF \<notin> set (butlast l) \<and> length (stuff l) \<le> bufSize"

definition writeAll :: "'m msgOps \<Rightarrow> 'm \<Rightarrow> bytes list \<Rightarrow> 'm" where
  "writeAll ops m ls = foldl (\<lambda>m l. snd (writeLine ops m l)) m ls"

lemma nextLine_line:
  assumes "sIn s = (sl @ rest) # segs" and "sl \<noteq> []" and "last sl = LF" and "LF \<notin> set (butlast sl)" and "length sl \<le> bufSize"
  shows "nextLine s = (Some sl, s\<lparr>sIn := rest # segs\<rparr>)"
proof -
  have sl: "sl = butlast sl @ [LF]" using assms(2,3) by (metis append_butlast_last_id)
  have "readSlice (butlast sl @ LF # rest) = (Some (butlast sl @ [LF]), rest)"
    using assms(2,4,5) by (intro readSlice_line) (cases sl; auto)+
  then have "readSlice (sl @ rest) = (Some sl, rest)"
    using sl by (metis append.assoc append_Cons append_Nil)
  then show ?thesis using assms(1) by (simp add: nextLine_def)
qed

lemma stuff_line: "lineOK l \<Longrightarrow> stuff l \<noteq> [] \<and> last (stuff l) = LF \<and> LF \<notin> set (butlast (stuff l)) \<and> length (stuff l) \<le> bufSize"
  by (auto simp: lineOK_def stuff_def)

lemma unstuff_stuff: "l \<noteq> [] \<Longrightarrow> unstuff (stuff l) = l"
  by (simp add: stuff_def unstuff_def)

lemma stuff_not_dot: "l \<noteq> [] \<Longrightarrow> stuff l \<noteq> dotCRLF"
  by (cases l) (auto simp: stuff_def dotCRLF_def)

lemma nextLine_dot: "sIn s = (dotCRLF @ rest) # segs \<Longrightarrow> nextLine s = (Some dotCRLF, s\<lparr>sIn := rest # segs\<rparr>)"
  by (rule nextLine_line) (simp_all add: dotCRLF_def bufSize_def)

lemma dataLoop_lines:
  assumes "list_all lineOK ls" and "\<And>m l. fst (writeLine ops m l)" and "n + length (concat ls) \<le> maxSize v"
    and "sIn s = (concat (map stuff ls) @ dotCRLF @ rest) # segs" and "sMsg s = Some m"
  shows "dataLoop ops v n m s =
    (None, s\<lparr>sIn := rest # segs, sMsg := Some (writeAll ops m ls), sCalls := sCalls s @ map CallWrite ls\<rparr>)"
  using assms(1,3-5)
proof (induction ls arbitrary: n m s)
  case Nil
  have "s\<lparr>sMsg := Some m, sCalls := sCalls s\<rparr> = s" using Nil.prems(4) by (cases s) simp
  then show ?case using dataLoop_dot [OF nextLine_dot [of s rest segs]] Nil by (simp add: writeAll_def)
next
  case (Cons l ls)
  let ?s1 = "s\<lparr>sIn := (concat (map stuff ls) @ dotCRLF @ rest) # segs\<rparr>"
  have ok: "lineOK l" "l \<noteq> []" using Cons.prems(1) by (auto simp: lineOK_def)
  have n: "nextLine s = (Some (stuff l), ?s1)"
    using Cons.prems(3) stuff_line [OF ok(1)] by (intro nextLine_line) auto
  obtain m' where w: "writeLine ops m l = (True, m')" using assms(2) [of m l] by (cases "writeLine ops m l") auto
  have "dataLoop ops v n m s = dataLoop ops v (n + length l) m' (wrote l m' ?s1)"
    using dataLoop_step [OF n stuff_not_dot [OF ok(2)], of n v ops m m'] w Cons.prems(2) unstuff_stuff [OF ok(2)] by simp
  also have "\<dots> = (None, (wrote l m' ?s1)\<lparr>sIn := rest # segs, sMsg := Some (writeAll ops m' ls), sCalls := sCalls (wrote l m' ?s1) @ map CallWrite ls\<rparr>)"
    using Cons.prems by (intro Cons.IH) auto
  finally show ?case using w by (simp add: writeAll_def logCall_def)
qed

lemma DATA_run:
  assumes "list_all lineOK ls" and "\<And>m l. fst (writeLine ops m l)" and "length (concat ls) \<le> maxSize v"
    and "sIn s = (concat (map stuff ls) @ dotCRLF @ rest) # segs" and "sMsg s = Some m" and "sRcpts s \<noteq> 0"
    and "allowNoTLS v \<or> servingTLS v \<or> sTLS s" and "closeMsg ops (writeAll ops m ls) = (Closed, m')"
  shows "cmdDATA ops v [] s =
    (Continue, s\<lparr>sIn := rest # segs, sMsg := None, sRcpts := 0, sCalls := sCalls s @ map CallWrite ls @ [CallClose True],
       sClosed := sClosed s @ [m'], sOut := sOut s @ [''354 Go ahead'' @ CRLF, ''250 2.0.0 OK: queued'' @ CRLF]\<rparr>)"
proof -
  have tls: "hasTLS v s = (True, s)" using assms(7) by (auto simp: hasTLS_def)
  have loop: "dataLoop ops v 0 m (put ''354 Go ahead'' s) =
      (None, (put ''354 Go ahead'' s)\<lparr>sIn := rest # segs, sMsg := Some (writeAll ops m ls), sCalls := sCalls s @ map CallWrite ls\<rparr>)"
    using dataLoop_lines [OF assms(1,2), of 0 v "put ''354 Go ahead'' s" rest segs m] assms(3-5) by simp
  show ?thesis using tls loop assms(5,6,8)
    by (simp add: cmdDATA_def hasNoArg_def Let_def isPanic_def logCall_def put_def)
qed


text \<open>A provider that takes everything, keeping the lines.\<close>

definition keepOps :: "bytes msgOps" where
  "keepOps = \<lparr>newMsg = (\<lambda>_ _. Some []), addRcpt = (\<lambda>m _. (Some True, m)), writeLine = (\<lambda>m l. (True, m @ l)),
     closeMsg = (\<lambda>m. (Closed, m)), cancelMsg = (\<lambda>m. m)\<rparr>"

definition openServer :: server where
  "openServer = \<lparr>srvHostname = ''mx'', maxSize = 0, maxRecipients = 0, maxSessions = 0, allowNoTLS = True, authFn = None,
     mustAuth = False, servingTLS = False, shuttingDown = False\<rparr>"


subsection \<open>Turns of the command loop\<close>

lemma turn:
  assumes "sIn s = (line @ CRLF @ rest) # segs" and "LF \<notin> set line" and "line \<noteq> []" and "length line + 2 \<le> bufSize"
    and "splitCmd (line @ CRLF) = (verb, arg)" and "verb \<in> set verbStr"
  shows "serveTurn ops v s = serveCmd ops v verb arg (s\<lparr>sIn := rest # segs\<rparr>)"
proof -
  have n: "nextLine s = (Some (line @ CRLF), s\<lparr>sIn := rest # segs\<rparr>)"
    using assms(1,2,4) by (intro nextLine_line) (auto simp: butlast_append)
  have "endsCRLF (line @ CRLF)" "\<not> length (line @ CRLF) < 3"
    using assms(3) by (cases line; simp add: endsCRLF_def nth_append)+
  then show ?thesis using n assms(5,6) by (simp add: serveTurn_def)
qed

lemma serveLoop_continue: "serveTurn ops v s = (Continue, t) \<Longrightarrow> serveLoop ops v s = serveLoop ops v t"
  by (simp add: serveLoop.simps [of ops v s])

lemma serveLoop_stop: "serveTurn ops v s = (f, t) \<Longrightarrow> f \<noteq> Continue \<Longrightarrow> serveLoop ops v s = (f, t)"
  by (cases f) (simp_all add: serveLoop.simps [of ops v s])

lemma trim_parts [simp]:
  "trimRightSpace ''FROM:<ann@a.org>'' = ''FROM:<ann@a.org>''" "trimRightSpace ''TO:<bob@b.org>'' = ''TO:<bob@b.org>''"
  "trimRightSpace ''TO:bob'' = ''TO:bob''"
  by (rule trimRightSpace_id; simp add: visible_def)+

lemma trim_addresses: "TrimSpace ''ann@a.org'' = ''ann@a.org''" "TrimSpace ''bob@b.org'' = ''bob@b.org''"
  by (rule TrimSpace_id; simp add: visible_def)+

lemma cmd_parts:
  "splitCmd (''MAIL FROM:<ann@a.org>'' @ CRLF) = (''MAIL'', ''FROM:<ann@a.org>'')"
  "splitCmd (''RCPT TO:<bob@b.org>'' @ CRLF) = (''RCPT'', ''TO:<bob@b.org>'')"
  "splitCmd (''RCPT TO:bob'' @ CRLF) = (''RCPT'', ''TO:bob'')"
  "splitCmd (''DATA'' @ CRLF) = (''DATA'', [])" "splitCmd (''QUIT'' @ CRLF) = (''QUIT'', [])"
  "splitCmd (''RSET'' @ CRLF) = (''RSET'', [])" "splitCmd (''STARTTLS'' @ CRLF) = (''STARTTLS'', [])"
  "angleMatch ''FROM:<'' ''FROM:<ann@a.org>'' = Some ''ann@a.org''" "angleMatch ''TO:<'' ''TO:<bob@b.org>'' = Some ''bob@b.org''"
  "angleMatch ''TO:<'' ''TO:bob'' = None"
  "TrimSpace ''ann@a.org'' = ''ann@a.org''" "TrimSpace ''bob@b.org'' = ''bob@b.org''"
  by (simp_all add: splitCmd_def trim_addresses) code_simp+

text \<open>The first two commands of a mail transaction, for any provider on a server that wants neither TLS nor AUTH.\<close>

definition open' :: "server \<Rightarrow> bool" where
  "open' v \<longleftrightarrow> allowNoTLS v \<and> \<not> mustAuth v \<and> \<not> shuttingDown v \<and> 2 < maxRecipients v"

lemma turn_MAIL:
  assumes "open' v" and "sIn s = (''MAIL FROM:<ann@a.org>'' @ CRLF @ rest) # segs" and "sMsg s = None"
    and "newMsg ops ''ann@a.org'' (sToken s) = Some m"
  shows "serveTurn ops v s =
    (Continue, s\<lparr>sIn := rest # segs, sMsg := Some m, sCalls := sCalls s @ [CallNew ''ann@a.org'' (sToken s) True],
       sOut := sOut s @ [''250 2.1.0 OK'' @ CRLF]\<rparr>)"
  using assms turn [OF assms(2) _ _ _ cmd_parts(1)]
  by (simp add: bufSize_def verbStr_def serveCmd_def cmdMAIL_def hasTLS_def open'_def cmd_parts Let_def badAddress_def put_def logCall_def)

lemma turn_RCPT:
  assumes "open' v" and "sIn s = (''RCPT TO:<bob@b.org>'' @ CRLF @ rest) # segs" and "sMsg s = Some m"
    and "addRcpt ops m ''bob@b.org'' = (Some True, m')" and "sRcpts s = 0"
  shows "serveTurn ops v s =
    (Continue, s\<lparr>sIn := rest # segs, sMsg := Some m', sRcpts := 1, sCalls := sCalls s @ [CallAdd ''bob@b.org'' True],
       sOut := sOut s @ [''250 2.1.0 OK'' @ CRLF]\<rparr>)"
  using assms turn [OF assms(2) _ _ _ cmd_parts(2)]
  by (simp add: bufSize_def verbStr_def serveCmd_def cmdRCPT_def hasTLS_def open'_def cmd_parts Let_def badAddress_def put_def logCall_def)

lemma turn_RCPT_bad:
  assumes "open' v" and "sIn s = (''RCPT TO:bob'' @ CRLF @ rest) # segs" and "sMsg s = Some m" and "sRcpts s = 0"
  shows "serveTurn ops v s =
    (Continue, s\<lparr>sIn := rest # segs, sRcpts := 1, sOut := sOut s @ [''501 5.1.7 Syntax error (bad rcpt)'' @ CRLF]\<rparr>)"
  using assms turn [OF assms(2) _ _ _ cmd_parts(3)]
  by (simp add: bufSize_def verbStr_def serveCmd_def cmdRCPT_def hasTLS_def open'_def cmd_parts Let_def put_def)

lemma turn_DATA:
  assumes "sIn s = (''DATA'' @ CRLF @ rest) # segs"
  shows "serveTurn ops v s = cmdDATA ops v [] (s\<lparr>sIn := rest # segs\<rparr>)"
  using turn [OF assms _ _ _ cmd_parts(4)] by (simp add: bufSize_def verbStr_def serveCmd_def)

lemma turn_QUIT:
  assumes "sIn s = (''QUIT'' @ CRLF @ rest) # segs"
  shows "serveTurn ops v s = (End, s\<lparr>sIn := rest # segs, sOut := sOut s @ [''221 2.0.0 Bye'' @ CRLF]\<rparr>)"
  using turn [OF assms _ _ _ cmd_parts(5)] by (simp add: bufSize_def verbStr_def serveCmd_def cmdQUIT_def hasNoArg_def put_def)

subsection \<open>Mail transactions on the greylist provider\<close>

definition greeted :: "server \<Rightarrow> bytes list \<Rightarrow> 'm session" where
  "greeted v inp = put (''220 '' @ srvHostname v @ '' ESMTP smsmtpd'') (newSession v inp)"

lemma greeted_fields [simp]:
  "sIn (greeted v inp) = inp" "sMsg (greeted v inp) = None" "sToken (greeted v inp) = 0" "sRcpts (greeted v inp) = 0"
  "sCalls (greeted v inp) = []" "sClosed (greeted v inp) = []" "sCancelled (greeted v inp) = []"
  by (simp_all add: greeted_def newSession_def)

lemma serve_greeted: "serve ops v0 inp = (let (f, t) = serveLoop ops (withDefaults v0) (greeted (withDefaults v0) inp) in (f, cancelCurrent ops t))"
  by (simp add: serve_def greeted_def Let_def)

text \<open>A provider whose file never fails, and what a written file holds.\<close>

definition reliable :: "greylist \<Rightarrow> bool" where
  "reliable gl \<longleftrightarrow> fwrite gl = (\<lambda>_ _. None) \<and> fseek gl = (\<lambda>_. None)"

lemma reliable_writes: "reliable gl \<Longrightarrow> fst (writeLine (greyOps gl addr) m l)"
  by (simp add: greyOps_def Write_def Let_def reliable_def)

lemma writeAll_file:
  assumes "reliable gl" and "gFile m = Some c"
  shows "writeAll (greyOps gl addr) m ls = m\<lparr>gFile := Some (c @ concat ls), gContentSize := gContentSize m + length (concat ls)\<rparr>"
  using assms(2)
proof (induction ls arbitrary: m c)
  case Nil
  then show ?case by (cases m) (simp add: writeAll_def)
next
  case (Cons l ls)
  have "snd (writeLine (greyOps gl addr) m l) = m\<lparr>gFile := Some (c @ l), gContentSize := gContentSize m + length l\<rparr>"
    using assms(1) Cons.prems by (simp add: greyOps_def Write_def Let_def reliable_def)
  then show ?case using Cons.IH [of "m\<lparr>gFile := Some (c @ l), gContentSize := gContentSize m + length l\<rparr>" "c @ l"]
    by (simp add: writeAll_def)
qed

lemma writeAll_new:
  assumes "reliable gl" and "gFile m = None" and "ls \<noteq> []"
  shows "writeAll (greyOps gl addr) m ls =
    m\<lparr>gFile := Some (concat ls), gFileOpen := True, gContentSize := gContentSize m + length (concat ls)\<rparr>"
proof -
  obtain l ls' where l: "ls = l # ls'" using assms(3) by (cases ls) auto
  let ?m = "m\<lparr>gFile := Some l, gFileOpen := True, gContentSize := gContentSize m + length l\<rparr>"
  have w: "snd (writeLine (greyOps gl addr) m l) = ?m"
    using assms(1,2) by (simp add: greyOps_def Write_def Let_def reliable_def)
  have "writeAll (greyOps gl addr) ?m ls' =
      ?m\<lparr>gFile := Some (l @ concat ls'), gContentSize := gContentSize ?m + length (concat ls')\<rparr>"
    by (rule writeAll_file [OF assms(1)]) simp
  then show ?thesis using w l by (simp add: writeAll_def)
qed

definition rawMessage :: "bytes \<Rightarrow> bytes list \<Rightarrow> bytes \<Rightarrow> rawMsg" where
  "rawMessage addr rcpts c = \<lparr>rRemoteAddr = addr, rFrom = ''ann@a.org'', rRecipients = rcpts, rWhitelist = False,
     rContent = Some c, rContentSize = length c\<rparr>"

text \<open>The session after the envelope commands, with a recipient taken or with one rejected.\<close>

definition annMsg :: "bytes \<Rightarrow> greyMsg" where
  "annMsg addr = the (NewMessage addr ''ann@a.org'' 0)"

definition annBobMsg :: "bytes \<Rightarrow> greyMsg" where
  "annBobMsg addr = snd (AddRecipient (annMsg addr) ''bob@b.org'')"

lemma envelope_run:
  assumes "open' v"
  shows "serveLoop (greyOps gl addr) v (greeted v [''MAIL FROM:<ann@a.org>'' @ CRLF @ ''RCPT TO:<bob@b.org>'' @ CRLF @ rest]) =
    serveLoop (greyOps gl addr) v ((greeted v [rest])\<lparr>sMsg := Some (annBobMsg addr), sRcpts := 1,
      sCalls := [CallNew ''ann@a.org'' 0 True, CallAdd ''bob@b.org'' True],
      sOut := sOut (greeted v [rest] :: greyMsg session) @ [''250 2.1.0 OK'' @ CRLF, ''250 2.1.0 OK'' @ CRLF]\<rparr>)"
proof -
  have n: "newMsg (greyOps gl addr) ''ann@a.org'' 0 = Some (annMsg addr)"
    by (simp add: greyOps_def annMsg_def NewMessage_def)
  have a: "addRcpt (greyOps gl addr) (annMsg addr) ''bob@b.org'' = (Some True, annBobMsg addr)"
    by (simp add: greyOps_def annBobMsg_def AddRecipient_def Let_def)
  let ?s = "greeted v [''MAIL FROM:<ann@a.org>'' @ CRLF @ ''RCPT TO:<bob@b.org>'' @ CRLF @ rest]"
  note t1 = turn_MAIL [OF assms, of ?s "''RCPT TO:<bob@b.org>'' @ CRLF @ rest" "[]" "greyOps gl addr" "annMsg addr"]
  let ?t = "snd (serveTurn (greyOps gl addr) v ?s)"
  note t2 = turn_RCPT [OF assms, of ?t rest "[]" "annMsg addr" "greyOps gl addr" "annBobMsg addr"]
  have t1: "serveTurn (greyOps gl addr) v ?s = (Continue, ?t)" using t1 n by simp
  have t2: "serveTurn (greyOps gl addr) v ?t = (Continue, (greeted v [rest])\<lparr>sMsg := Some (annBobMsg addr), sRcpts := 1,
      sCalls := [CallNew ''ann@a.org'' 0 True, CallAdd ''bob@b.org'' True],
      sOut := sOut (greeted v [rest] :: greyMsg session) @ [''250 2.1.0 OK'' @ CRLF, ''250 2.1.0 OK'' @ CRLF]\<rparr>)"
    using t2 a turn_MAIL [OF assms, of ?s "''RCPT TO:<bob@b.org>'' @ CRLF @ rest" "[]" "greyOps gl addr" "annMsg addr"] n
    by (simp add: greeted_def put_def newSession_def)
  show ?thesis using serveLoop_continue [OF t1] serveLoop_continue [OF t2] by simp
qed

lemma envelope_bad_run:
  assumes "open' v"
  shows "serveLoop (greyOps gl addr) v (greeted v [''MAIL FROM:<ann@a.org>'' @ CRLF @ ''RCPT TO:bob'' @ CRLF @ rest]) =
    serveLoop (greyOps gl addr) v ((greeted v [rest])\<lparr>sMsg := Some (annMsg addr), sRcpts := 1,
      sCalls := [CallNew ''ann@a.org'' 0 True],
      sOut := sOut (greeted v [rest] :: greyMsg session) @ [''250 2.1.0 OK'' @ CRLF, ''501 5.1.7 Syntax error (bad rcpt)'' @ CRLF]\<rparr>)"
proof -
  have n: "newMsg (greyOps gl addr) ''ann@a.org'' 0 = Some (annMsg addr)"
    by (simp add: greyOps_def annMsg_def NewMessage_def)
  let ?s = "greeted v [''MAIL FROM:<ann@a.org>'' @ CRLF @ ''RCPT TO:bob'' @ CRLF @ rest]"
  note t1 = turn_MAIL [OF assms, of ?s "''RCPT TO:bob'' @ CRLF @ rest" "[]" "greyOps gl addr" "annMsg addr"]
  let ?t = "snd (serveTurn (greyOps gl addr) v ?s)"
  have t1': "serveTurn (greyOps gl addr) v ?s = (Continue, ?t)" using t1 n by simp
  have t2: "serveTurn (greyOps gl addr) v ?t = (Continue, (greeted v [rest])\<lparr>sMsg := Some (annMsg addr), sRcpts := 1,
      sCalls := [CallNew ''ann@a.org'' 0 True],
      sOut := sOut (greeted v [rest] :: greyMsg session) @ [''250 2.1.0 OK'' @ CRLF, ''501 5.1.7 Syntax error (bad rcpt)'' @ CRLF]\<rparr>)"
    using turn_RCPT_bad [OF assms, of ?t rest "[]" "annMsg addr" "greyOps gl addr"] t1 n
    by (simp add: greeted_def put_def newSession_def)
  show ?thesis using serveLoop_continue [OF t1'] serveLoop_continue [OF t2] by simp
qed

text \<open>DATA and QUIT from there.\<close>

lemma data_quit_run:
  assumes "reliable gl" and "list_all lineOK ls" and "ls \<noteq> []" and "length (concat ls) \<le> maxSize v" and "allowNoTLS v"
    and "sIn s = [''DATA'' @ CRLF @ concat (map stuff ls) @ dotCRLF @ ''QUIT'' @ CRLF]" and "sMsg s = Some m" and "sRcpts s = 1"
    and "gFile m = None" and "gContentSize m = 0"
    and "processMsg gl (rawOf (m\<lparr>gFile := Some (concat ls), gContentSize := length (concat ls)\<rparr>)) = Closed"
  shows "\<exists>t. serveLoop (greyOps gl addr) v s = (End, t) \<and> sMsg t = None \<and>
    sCalls t = sCalls s @ map CallWrite ls @ [CallClose True] \<and> sCancelled t = sCancelled s \<and>
    map gDelivered (sClosed t) = map gDelivered (sClosed s) @
      [gDelivered m @ [rawOf (m\<lparr>gFile := Some (concat ls), gContentSize := length (concat ls)\<rparr>)]] \<and>
    sOut t = sOut s @ [''354 Go ahead'' @ CRLF, ''250 2.0.0 OK: queued'' @ CRLF, ''221 2.0.0 Bye'' @ CRLF]"
proof -
  let ?ops = "greyOps gl addr"
  let ?s1 = "s\<lparr>sIn := [concat (map stuff ls) @ dotCRLF @ ''QUIT'' @ CRLF]\<rparr>"
  have c: "closeMsg ?ops (writeAll ?ops m ls) = (Closed, snd (closeMsg ?ops (writeAll ?ops m ls)))"
    using assms(1,11) writeAll_new [OF assms(1,9,3)] assms(10) by (simp add: greyOps_def Close_def reliable_def rawOf_def)
  have d: "gDelivered (snd (closeMsg ?ops (writeAll ?ops m ls))) =
      gDelivered m @ [rawOf (m\<lparr>gFile := Some (concat ls), gContentSize := length (concat ls)\<rparr>)]"
    using assms(1,11) writeAll_new [OF assms(1,9,3)] assms(10)
    by (simp add: greyOps_def Close_def reliable_def rawOf_def closeFile_def)
  let ?t = "?s1\<lparr>sIn := [''QUIT'' @ CRLF], sMsg := None, sRcpts := 0, sCalls := sCalls s @ map CallWrite ls @ [CallClose True],
       sClosed := sClosed s @ [snd (closeMsg ?ops (writeAll ?ops m ls))], sOut := sOut s @ [''354 Go ahead'' @ CRLF, ''250 2.0.0 OK: queued'' @ CRLF]\<rparr>"
  have "cmdDATA ?ops v [] ?s1 = (Continue, ?t)"
    using DATA_run [OF assms(2) reliable_writes [OF assms(1)] assms(4), of ?s1 "''QUIT'' @ CRLF" "[]" m] c assms(5,7,8) by simp
  then have "serveTurn ?ops v s = (Continue, ?t)"
    unfolding turn_DATA [OF assms(6)] .
  then have "serveLoop ?ops v s = serveLoop ?ops v ?t"
    by (rule serveLoop_continue)
  also have "\<dots> = (End, ?t\<lparr>sIn := [[]], sOut := sOut ?t @ [''221 2.0.0 Bye'' @ CRLF]\<rparr>)"
    by (rule serveLoop_stop [OF turn_QUIT]) simp_all
  finally show ?thesis using d by simp
qed

lemma open_server: "open' (withDefaults openServer)" "allowNoTLS (withDefaults openServer)" "maxSize (withDefaults openServer) = 2 ^ 26"
  "srvHostname (withDefaults openServer) = ''mx''"
  by (simp_all add: open'_def withDefaults_def openServer_def)

lemma annMsg_fields:
  "gFile (annMsg addr) = None" "gContentSize (annMsg addr) = 0" "gDelivered (annMsg addr) = []"
  "rawOf ((annMsg addr)\<lparr>gFile := Some c, gContentSize := length c\<rparr>) = rawMessage addr [] c"
  by (simp_all add: annMsg_def NewMessage_def rawOf_def rawMessage_def sliceOf_def)

lemma annBobMsg_fields:
  "gFile (annBobMsg addr) = None" "gContentSize (annBobMsg addr) = 0" "gDelivered (annBobMsg addr) = []"
  "rawOf ((annBobMsg addr)\<lparr>gFile := Some c, gContentSize := length c\<rparr>) = rawMessage addr [''bob@b.org''] c"
  by (simp_all add: annBobMsg_def AddRecipient_def annMsg_def NewMessage_def rawOf_def rawMessage_def sliceOf_def)


text \<open>A rejected RCPT opens the door to DATA: the session counts recipients before it has validated them, so after a RCPT
  that was answered 501, DATA is accepted, \<open>queued\<close> is answered, and the provider processes a message without any recipient.\<close>

theorem rejected_rcpt_opens_data:
  assumes "reliable gl" and "list_all lineOK ls" and "ls \<noteq> []" and "length (concat ls) \<le> 2 ^ 26"
    and "processMsg gl (rawMessage addr [] (concat ls)) = Closed"
  shows "\<exists>t. serve (greyOps gl addr) openServer
      [''MAIL FROM:<ann@a.org>'' @ CRLF @ ''RCPT TO:bob'' @ CRLF @ ''DATA'' @ CRLF @ concat (map stuff ls) @ dotCRLF @ ''QUIT'' @ CRLF]
      = (End, t) \<and> map gDelivered (sClosed t) = [[rawMessage addr [] (concat ls)]] \<and>
    sOut t = map (\<lambda>l. l @ CRLF) [''220 mx ESMTP smsmtpd'', ''250 2.1.0 OK'', ''501 5.1.7 Syntax error (bad rcpt)'', ''354 Go ahead'', ''250 2.0.0 OK: queued'', ''221 2.0.0 Bye'']"
proof -
  let ?v = "withDefaults openServer"
  let ?rest = "''DATA'' @ CRLF @ concat (map stuff ls) @ dotCRLF @ ''QUIT'' @ CRLF"
  let ?s = "(greeted ?v [?rest])\<lparr>sMsg := Some (annMsg addr), sRcpts := 1,
      sCalls := [CallNew ''ann@a.org'' 0 True],
      sOut := sOut (greeted ?v [?rest] :: greyMsg session) @ [''250 2.1.0 OK'' @ CRLF, ''501 5.1.7 Syntax error (bad rcpt)'' @ CRLF]\<rparr>"
  obtain t where t: "serveLoop (greyOps gl addr) ?v ?s = (End, t)" "sMsg t = None"
      "map gDelivered (sClosed t) = map gDelivered (sClosed ?s) @ [[rawMessage addr [] (concat ls)]]"
      "sOut t = sOut ?s @ [''354 Go ahead'' @ CRLF, ''250 2.0.0 OK: queued'' @ CRLF, ''221 2.0.0 Bye'' @ CRLF]"
    using data_quit_run [OF assms(1-3), of ?v ?s "annMsg addr" addr] assms(4,5) by (auto simp: annMsg_fields open_server)
  show ?thesis using t envelope_bad_run [OF open_server(1), of gl addr ?rest]
    by (simp add: serve_greeted cancelCurrent_def) (simp add: greeted_def newSession_def open_server)
qed

definition calmGrey :: greylist where
  "calmGrey = \<lparr>fwrite = (\<lambda>_ _. None), fseek = (\<lambda>_. None), processMsg = (\<lambda>_. Closed), whitelistFn = None, blacklistFn = None\<rparr>"

lemma calm_ok: "reliable calmGrey" "processMsg calmGrey m = Closed" "list_all lineOK [''..hi'' @ CRLF]"
  by (simp_all add: reliable_def calmGrey_def lineOK_def stuff_def bufSize_def)


lemma rejected_rcpt_opens_data_witness:
  "\<exists>t. serve (greyOps calmGrey ''h'') openServer
      [''MAIL FROM:<ann@a.org>'' @ CRLF @ ''RCPT TO:bob'' @ CRLF @ ''DATA'' @ CRLF @ (''...hi'' @ CRLF) @ dotCRLF @ ''QUIT'' @ CRLF]
      = (End, t) \<and> map gDelivered (sClosed t) = [[rawMessage ''h'' [] (''..hi'' @ CRLF)]]"
  using rejected_rcpt_opens_data [OF calm_ok(1,3), of "''h''"] calm_ok(2) by (auto simp: stuff_def)

text \<open>An empty message takes the greylist server down: when DATA is followed at once by the terminating dot no line is written, the
  provider has no file, and its \<open>Close\<close> dereferences nil. The panic passes through \<open>serveCmd\<close>; \<open>serve\<close> cancels the message
  and panics again, whatever the provider's parameters are.\<close>

theorem empty_message_panics:
  "\<exists>t. serve (greyOps gl addr) openServer
      [''MAIL FROM:<ann@a.org>'' @ CRLF @ ''RCPT TO:<bob@b.org>'' @ CRLF @ ''DATA'' @ CRLF @ dotCRLF @ extra] = (Crash, t) \<and>
    sCalls t = [CallNew ''ann@a.org'' 0 True, CallAdd ''bob@b.org'' True, CallClose False, CallCancel] \<and> sClosed t = []"
proof -
  let ?v = "withDefaults openServer"
  let ?ops = "greyOps gl addr"
  let ?rest = "''DATA'' @ CRLF @ dotCRLF @ extra"
  let ?s = "(greeted ?v [?rest])\<lparr>sMsg := Some (annBobMsg addr), sRcpts := 1,
      sCalls := [CallNew ''ann@a.org'' 0 True, CallAdd ''bob@b.org'' True],
      sOut := sOut (greeted ?v [?rest] :: greyMsg session) @ [''250 2.1.0 OK'' @ CRLF, ''250 2.1.0 OK'' @ CRLF]\<rparr>"
  have l: "dataLoop ?ops ?v 0 (annBobMsg addr) (put ''354 Go ahead'' (?s\<lparr>sIn := [dotCRLF @ extra]\<rparr>)) =
      (None, (put ''354 Go ahead'' (?s\<lparr>sIn := [dotCRLF @ extra]\<rparr>))\<lparr>sIn := [extra]\<rparr>)"
    by (rule dataLoop_dot, rule nextLine_dot) simp
  have c: "closeMsg ?ops (annBobMsg addr) = (ClosePanic ''invalid memory address or nil pointer dereference'', annBobMsg addr)"
    by (simp add: greyOps_def Close_def annBobMsg_fields)
  obtain t where t: "cmdDATA ?ops ?v [] (?s\<lparr>sIn := [dotCRLF @ extra]\<rparr>) = (Crash, t)" "sMsg t = Some (annBobMsg addr)"
      "sCalls t = sCalls ?s @ [CallClose False]" "sClosed t = []"
    using l c open_server(2) by (simp add: cmdDATA_def hasTLS_def hasNoArg_def Let_def isPanic_def)
  have "sIn ?s = (''DATA'' @ CRLF @ dotCRLF @ extra) # []" by simp
  from turn_DATA [OF this, of ?ops ?v] t(1) have "serveTurn ?ops ?v ?s = (Crash, t)" by (simp only:)
  then have "serveLoop ?ops ?v ?s = (Crash, t)" by (rule serveLoop_stop) simp
  then show ?thesis using t envelope_run [OF open_server(1), of gl addr ?rest]
    by (simp add: serve_greeted cancelCurrent_def)
qed

subsection \<open>STARTTLS\<close>

definition authServer :: "(bytes \<Rightarrow> bytes \<Rightarrow> bytes \<Rightarrow> nat) \<Rightarrow> server" where
  "authServer auth = \<lparr>srvHostname = ''mx'', maxSize = 0, maxRecipients = 0, maxSessions = 0, allowNoTLS = False, authFn = Some auth,
     mustAuth = True, servingTLS = False, shuttingDown = False\<rparr>"

lemma auth_parts:
  "splitCmd (''AUTH PLAIN AHUAcA=='' @ CRLF) = (''AUTH'', ''PLAIN AHUAcA=='')"
  "b64Decode stdAlphabet True ''AHUAcA=='' = Some [NUL, CHR ''u'', NUL, CHR ''p'']"
proof -
  have "trimRightSpace ''PLAIN AHUAcA=='' = ''PLAIN AHUAcA==''"
    by (rule trimRightSpace_id) (simp_all add: visible_def)
  then show "splitCmd (''AUTH PLAIN AHUAcA=='' @ CRLF) = (''AUTH'', ''PLAIN AHUAcA=='')"
    by (simp add: splitCmd_def)
  show "b64Decode stdAlphabet True ''AHUAcA=='' = Some [NUL, CHR ''u'', NUL, CHR ''p'']"
    by code_simp
qed

lemma turn_AUTH:
  assumes "authFn v = Some auth" and "auth [] ''u'' ''p'' = Suc k"
    and "sIn s = (''AUTH PLAIN AHUAcA=='' @ CRLF @ rest) # segs"
  shows "serveTurn ops v s =
    (Continue, s\<lparr>sIn := rest # segs, sToken := Suc k, sOut := sOut s @ [''235 Authentication successful.'' @ CRLF]\<rparr>)"
  using assms turn [OF assms(3) _ _ _ auth_parts(1)]
  by (simp add: bufSize_def verbStr_def serveCmd_def cmdAUTH_def serveAuthPlain_def plainAuth_def auth_parts authResult_def Let_def put_def)

lemma turn_STARTTLS:
  assumes "\<not> sTLS s" and "sIn s = (''STARTTLS'' @ CRLF @ rest) # segs"
  shows "serveTurn ops v s = (Continue, s\<lparr>sIn := segs, sTLS := True, sOut := sOut s @ [''220 Ready to start TLS'' @ CRLF]\<rparr>)"
  using assms turn [OF assms(2) _ _ _ cmd_parts(7)]
  by (simp add: bufSize_def verbStr_def serveCmd_def cmdSTARTTLS_def hasNoArg_def Let_def put_def)

lemma turn_MAIL_TLS:
  assumes "sTLS s" and "sToken s = Suc k" and "\<not> shuttingDown v" and "sIn s = (''MAIL FROM:<ann@a.org>'' @ CRLF @ rest) # segs"
    and "sMsg s = None" and "newMsg ops ''ann@a.org'' (Suc k) = Some m"
  shows "serveTurn ops v s =
    (Continue, s\<lparr>sIn := rest # segs, sMsg := Some m, sCalls := sCalls s @ [CallNew ''ann@a.org'' (Suc k) True],
       sOut := sOut s @ [''250 2.1.0 OK'' @ CRLF]\<rparr>)"
  using assms turn [OF assms(4) _ _ _ cmd_parts(1)]
  by (simp add: bufSize_def verbStr_def serveCmd_def cmdMAIL_def hasTLS_def cmd_parts Let_def badAddress_def put_def logCall_def)

text \<open>Credentials are accepted in the clear and survive STARTTLS: on a server that demands TLS and authentication, AUTH PLAIN
  is served before TLS has been started, and the token it gives is the one \<open>NewMessage\<close> is called with for a MAIL
  that comes over TLS; STARTTLS resets neither it nor anything else of the session.\<close>

theorem plaintext_auth_survives_starttls:
  fixes ops :: "'m msgOps"
  assumes "auth [] ''u'' ''p'' = Suc k" and "newMsg ops ''ann@a.org'' (Suc k) = Some m"
  shows "\<exists>t. serve ops (authServer auth) [''AUTH PLAIN AHUAcA=='' @ CRLF @ ''STARTTLS'' @ CRLF @ plain, ''MAIL FROM:<ann@a.org>'' @ CRLF]
      = (End, t) \<and> sTLS t \<and> sCalls t = [CallNew ''ann@a.org'' (Suc k) True, CallCancel]"
proof -
  let ?v = "withDefaults (authServer auth)"
  let ?mail = "''MAIL FROM:<ann@a.org>'' @ CRLF"
  let ?s0 = "greeted ?v [''AUTH PLAIN AHUAcA=='' @ CRLF @ ''STARTTLS'' @ CRLF @ plain, ?mail] :: 'm session"
  let ?s1 = "?s0\<lparr>sIn := [''STARTTLS'' @ CRLF @ plain, ?mail], sToken := Suc k, sOut := sOut ?s0 @ [''235 Authentication successful.'' @ CRLF]\<rparr>"
  let ?s2 = "?s1\<lparr>sIn := [?mail], sTLS := True, sOut := sOut ?s1 @ [''220 Ready to start TLS'' @ CRLF]\<rparr>"
  let ?s3 = "?s2\<lparr>sIn := [[]], sMsg := Some m, sCalls := [CallNew ''ann@a.org'' (Suc k) True], sOut := sOut ?s2 @ [''250 2.1.0 OK'' @ CRLF]\<rparr>"
  have v: "authFn ?v = Some auth" "\<not> shuttingDown ?v" "\<not> sTLS (greeted ?v inp :: 'm session)" for inp
    by (simp_all add: withDefaults_def authServer_def greeted_def newSession_def)
  have 1: "serveTurn ops ?v ?s0 = (Continue, ?s1)" by (rule turn_AUTH [OF v(1) assms(1)]) simp
  have 2: "serveTurn ops ?v ?s1 = (Continue, ?s2)"
    using turn_STARTTLS [of ?s1 plain "[?mail]" ops ?v] v(3) by simp
  have 3: "serveTurn ops ?v ?s2 = (Continue, ?s3)"
    using turn_MAIL_TLS [of ?s2 k ?v "[]" "[]" ops m] v(2) assms(2) by simp
  have "nextLine ?s3 = (None, ?s3\<lparr>sIn := [[]]\<rparr>)" by (simp add: nextLine_def readSlice_def)
  then have "serveTurn ops ?v ?s3 = (End, ?s3\<lparr>sIn := [[]]\<rparr>)" by (simp add: serveTurn_def)
  from serveLoop_stop [OF this] have "serveLoop ops ?v ?s0 = (End, ?s3)"
    using serveLoop_continue [OF 1] serveLoop_continue [OF 2] serveLoop_continue [OF 3] by simp
  then show ?thesis by (simp add: serve_greeted cancelCurrent_def)
qed

lemma plaintext_auth_survives_starttls_witness:
  "\<exists>t. serve keepOps (authServer (\<lambda>_ _ _. 7)) [''AUTH PLAIN AHUAcA=='' @ CRLF @ ''STARTTLS'' @ CRLF, ''MAIL FROM:<ann@a.org>'' @ CRLF]
      = (End, t) \<and> sCalls t = [CallNew ''ann@a.org'' 7 True, CallCancel]"
  using plaintext_auth_survives_starttls [of "\<lambda>_ _ _. 7" 6 keepOps "[]" "[]"] by (auto simp: keepOps_def)

subsection \<open>Admission of sessions\<close>

text \<open>\<open>serveSession\<close> waits while \<open>len(server.sessions) > server.MaxSessions\<close>, then enters its session in the map; the
  deferred function of \<open>serve\<close> deletes it. The sessions are named by their ids, the steps are the ones taken under \<open>sessionsMu\<close>.\<close>

inductive sessionStep :: "nat \<Rightarrow> nat set \<Rightarrow> nat set \<Rightarrow> bool" for limit where
  enter: "\<not> limit < card ss \<Longrightarrow> i \<notin> ss \<Longrightarrow> sessionStep limit ss (insert i ss)"
| leave: "i \<in> ss \<Longrightarrow> sessionStep limit ss (ss - {i})"

inductive_cases sessionStepE: "sessionStep limit ss ss'"

abbreviation admitted :: "nat \<Rightarrow> nat set \<Rightarrow> bool" where
  "admitted limit ss \<equiv> (sessionStep limit)\<^sup>*\<^sup>* {} ss"

lemma admitted_bound: "admitted limit ss \<Longrightarrow> finite ss \<and> card ss \<le> Suc limit"
proof (induction rule: rtranclp_induct)
  case base
  then show ?case by simp
next
  case (step ss ss')
  show ?case using step(2,3) by (elim sessionStepE) (auto simp: card_Diff_singleton_if)
qed

lemma admitted_upto: "n \<le> Suc limit \<Longrightarrow> admitted limit {0..<n}"
proof (induction n)
  case 0
  then show ?case by simp
next
  case (Suc n)
  then have "sessionStep limit {0..<n} (insert n {0..<n})" by (intro enter) auto
  then show ?case using Suc by (auto simp: atLeast0_lessThan_Suc intro: rtranclp.rtrancl_into_rtrancl)
qed

text \<open>The bound on concurrent sessions is off by one, and exact: in every interleaving of sessions entering and leaving at most
  \<open>MaxSessions + 1\<close> are in the map, and \<open>MaxSessions + 1\<close> is reached.\<close>

theorem sessions_bound:
  "(\<exists>ss. admitted limit ss \<and> card ss = n) = (n \<le> limit + 1)"
proof
  show "\<exists>ss. admitted limit ss \<and> card ss = n \<Longrightarrow> n \<le> limit + 1"
    using admitted_bound by fastforce
  show "n \<le> limit + 1 \<Longrightarrow> \<exists>ss. admitted limit ss \<and> card ss = n"
    using admitted_upto [of n limit] by (intro exI [of _ "{0..<n}"]) simp
qed

end
