(* ===== verification/ImapMailbox.thy ===== *)
theory ImapMailbox
  imports ImapSearch "HOL-Library.Char_ord" "HOL-Library.List_Lexorder"
begin

text \<open>
  The in-memory implementation of the interface \<open>imap.Mailbox\<close> (\<open>imap/imaptest/memory.go\<close>): one user's mailboxes, messages and
  sessions' operations on them.

  The Go code shares memory between messages: \<open>Copy\<close> copies the struct of a message but not the array behind its
  \<open>Flags\<close> slice nor the files of its parts. The model has an explicit store: the arrays of flags by address (\<open>muArrays\<close>; an
  array is as long as its capacity), a slice is an address and a length, and address 0 with length 0 is the nil slice. How much
  spare capacity a reallocating \<open>append\<close> leaves is the parameter \<open>grow\<close> (of the old capacity and the new length). The part files are numbers, the closed ones are
  listed. What \<open>msgcleaver.Cleave\<close> makes of the data is an argument of \<open>Append\<close>. Mailboxes are known by their ID, which is
  unique within a user and never reused, so that it stands for the pointer too. Each operation holds the mailbox locks
  throughout, so it is one step; the callback calls are returned as a list.
\<close>

subsection \<open>State\<close>

type_synonym flagSlice = "nat \<times> nat"

record mail =
  mailHeader :: "bytes \<Rightarrow> bytes"
  mailDate :: int
  mailZone :: int
  mailSize :: int
  mailFiles :: "nat list"

record memMsg =
  msgSeq :: u32
  msgUID :: u32
  msgModSeq :: int
  msgFlags :: flagSlice
  msgMail :: mail
  msgMailbox :: nat

record memMailbox =
  mbName :: bytes
  mbAttrs :: nat
  mbMsgs :: "memMsg list"
  mbUidnext :: u32
  mbUidValidity :: u32

record memUser =
  muArrays :: "bytes list list"
  muClosed :: "nat list"
  muModSeqNext :: int
  muUidValidityNext :: u32
  muNextMailbox :: nat
  muNames :: "(bytes \<times> nat) list"
  muBoxes :: "nat \<Rightarrow> memMailbox"

definition setBox :: "nat \<Rightarrow> memMailbox \<Rightarrow> memUser \<Rightarrow> memUser" where
  "setBox k b u = u\<lparr>muBoxes := (muBoxes u)(k := b)\<rparr>"

lemma setBox_simps [simp]:
  "muBoxes (setBox k b u) = (muBoxes u)(k := b)" "muArrays (setBox k b u) = muArrays u" "muClosed (setBox k b u) = muClosed u"
  "muModSeqNext (setBox k b u) = muModSeqNext u" "muNames (setBox k b u) = muNames u"
  "muNextMailbox (setBox k b u) = muNextMailbox u" "muUidValidityNext (setBox k b u) = muUidValidityNext u"
  by (simp_all add: setBox_def)

subsection \<open>Flag slices\<close>

type_synonym arrays = "bytes list list"

definition sliceFlags :: "arrays \<Rightarrow> flagSlice \<Rightarrow> bytes list" where
  "sliceFlags h s = take (snd s) (h ! fst s)"

definition nilSlice :: flagSlice where "nilSlice = (0, 0)"

text \<open>\<open>append(s, xs...)\<close>: in place when the capacity is enough, else into a new array.\<close>

definition appendFlags' :: "(nat \<Rightarrow> nat \<Rightarrow> nat) \<Rightarrow> arrays \<Rightarrow> flagSlice \<Rightarrow> bytes list \<Rightarrow> arrays \<times> flagSlice" where
  "appendFlags' grow h s xs =
     (let a = fst s; n = snd s; arr = h ! a; k = n + length xs in
      if k \<le> length arr then (h[a := take n arr @ xs @ drop k arr], (a, k))
      else (h @ [take n arr @ xs @ replicate (grow (length arr) k) []], (length h, k)))"

text \<open>\<open>sort.Strings\<close> sorts the elements of the slice in its array.\<close>

definition sortFlags :: "arrays \<Rightarrow> flagSlice \<Rightarrow> arrays" where
  "sortFlags h s = h[fst s := sort (take (snd s) (h ! fst s)) @ drop (snd s) (h ! fst s)]"

definition hasFlag :: "bytes list \<Rightarrow> bytes \<Rightarrow> bool" where
  "hasFlag fs f = (f \<in> set fs)"

fun appendEach :: "(nat \<Rightarrow> nat \<Rightarrow> nat) \<Rightarrow> arrays \<Rightarrow> flagSlice \<Rightarrow> bytes list \<Rightarrow> arrays \<times> flagSlice" where
  "appendEach grow h s [] = (h, s)"
| "appendEach grow h s (x # xs) = (let (h1, s1) = appendFlags' grow h s [x] in appendEach grow h1 s1 xs)"

subsection \<open>Info, Search, Fetch\<close>

record mailboxInfo =
  infoName :: bytes
  infoAttrs :: nat
  numMessages :: u32
  numRecent :: u32
  numUnseen :: u32
  infoUidNext :: u32
  infoUidValidity :: u32
  firstUnseen :: u32
  highestModSeq :: int

definition infoStep :: "arrays \<Rightarrow> nat \<times> memMsg \<Rightarrow> mailboxInfo \<Rightarrow> mailboxInfo" where
  "infoStep h im info =
     (let fs = sliceFlags h (msgFlags (snd im)); unseen = \<not> hasFlag fs flagSeen;
          info1 = (if unseen \<and> firstUnseen info = 0 then info\<lparr>firstUnseen := of_nat (fst im + 1)\<rparr> else info);
          info2 = (if unseen then info1\<lparr>numUnseen := numUnseen info1 + 1\<rparr> else info1);
          info3 = (if hasFlag fs flagRecent then info2\<lparr>numRecent := numRecent info2 + 1\<rparr> else info2) in
      if highestModSeq info3 < msgModSeq (snd im) then info3\<lparr>highestModSeq := msgModSeq (snd im)\<rparr> else info3)"

definition Info :: "nat \<Rightarrow> memUser \<Rightarrow> mailboxInfo" where
  "Info k u =
     (let b = muBoxes u k in
      fold (infoStep (muArrays u)) (enumerate 0 (mbMsgs b))
        \<lparr>infoName = mbName b, infoAttrs = mbAttrs b, numMessages = of_nat (length (mbMsgs b)), numRecent = 0, numUnseen = 0,
         infoUidNext = mbUidnext b, infoUidValidity = mbUidValidity b, firstUnseen = 0, highestModSeq = 0\<rparr>)"

definition HighestModSequence :: "nat \<Rightarrow> memUser \<Rightarrow> int" where
  "HighestModSequence k u = fold (\<lambda>m h. if h < msgModSeq m then msgModSeq m else h) (mbMsgs (muBoxes u k)) 0"

record summary =
  sumSeq :: u32
  sumUID :: u32
  sumModSeq :: int

definition summaryOf :: "memMsg \<Rightarrow> summary" where
  "summaryOf m = \<lparr>sumSeq = msgSeq m, sumUID = msgUID m, sumModSeq = msgModSeq m\<rparr>"

definition asMatch :: "arrays \<Rightarrow> memMsg \<Rightarrow> matchMessage" where
  "asMatch h m = \<lparr>mmSeqNum = msgSeq m, mmUID = msgUID m, mmModSeq = msgModSeq m,
     mmFlag = hasFlag (sliceFlags h (msgFlags m)), mmHeader = mailHeader (msgMail m), mmDate = mailDate (msgMail m),
     mmZone = mailZone (msgMail m), mmSize = mailSize (msgMail m)\<rparr>"

definition Search :: "SearchOp \<Rightarrow> nat \<Rightarrow> memUser \<Rightarrow> summary list" where
  "Search op k u = map summaryOf (filter (\<lambda>m. matchOp (asMatch (muArrays u) m) op) (mbMsgs (muBoxes u k)))"

definition msgID :: "bool \<Rightarrow> memMsg \<Rightarrow> u32" where
  "msgID uid m = (if uid then msgUID m else msgSeq m)"

text \<open>The messages \<open>Fetch\<close> calls back with, with a copy of their flags.\<close>

definition Fetch :: "bool \<Rightarrow> SeqRange list \<Rightarrow> int \<Rightarrow> nat \<Rightarrow> memUser \<Rightarrow> (summary \<times> bytes list \<times> mail) list" where
  "Fetch uid sset changedSince k u =
     map (\<lambda>m. (summaryOf m, sliceFlags (muArrays u) (msgFlags m), msgMail m))
       (filter (\<lambda>m. SeqContains sset (msgID uid m) \<and> \<not> msgModSeq m \<le> changedSince) (mbMsgs (muBoxes u k)))"

subsection \<open>Append\<close>

text \<open>The modification sequence is taken before the data is parsed, so it is used up by a failing Append too.\<close>

definition Append :: "(nat \<Rightarrow> nat \<Rightarrow> nat) \<Rightarrow> bytes list \<Rightarrow> int \<times> int \<Rightarrow> bytes + mail \<Rightarrow> nat \<Rightarrow> memUser \<Rightarrow> (bytes + u32) \<times> memUser" where
  "Append grow flags dt cleaved k u =
     (let modSeq = muModSeqNext u; u1 = u\<lparr>muModSeqNext := modSeq + 1\<rparr> in
      case cleaved of
        Inl e \<Rightarrow> (Inl (''Memory.Append: '' @ e), u1)
      | Inr m \<Rightarrow>
        (let (h, fs) = appendEach grow (muArrays u1) nilSlice (filter (\<lambda>f. f \<noteq> flagRecent) flags);
             b = muBoxes u1 k; uid = mbUidnext b;
             msg = \<lparr>msgSeq = of_nat (length (mbMsgs b) + 1), msgUID = uid, msgModSeq = modSeq, msgFlags = fs,
               msgMail = m\<lparr>mailDate := fst dt, mailZone := snd dt\<rparr>, msgMailbox = 0\<rparr> in
         (Inr uid, setBox k (b\<lparr>mbMsgs := mbMsgs b @ [msg], mbUidnext := uid + 1\<rparr>) (u1\<lparr>muArrays := sortFlags h fs\<rparr>))))"

subsection \<open>Expunge\<close>

text \<open>The loop over the messages, with the number of messages removed before: what is reported, what is kept, what is closed. \<open>doomed\<close> says
  which messages go.\<close>

definition doomed :: "arrays \<Rightarrow> SeqRange list option \<Rightarrow> memMsg \<Rightarrow> bool" where
  "doomed h uidSeqs m =
     ((case uidSeqs of None \<Rightarrow> True | Some q \<Rightarrow> SeqContains q (msgUID m)) \<and> hasFlag (sliceFlags h (msgFlags m)) flagDeleted)"

fun expungeLoop :: "(memMsg \<Rightarrow> bool) \<Rightarrow> u32 \<Rightarrow> memMsg list \<Rightarrow> u32 list \<times> memMsg list \<times> nat list" where
  "expungeLoop gone delta [] = ([], [], [])"
| "expungeLoop gone delta (m # ms) =
     (let m' = m\<lparr>msgSeq := msgSeq m - delta\<rparr> in
      if gone m then
        (let (ns, kept, fs) = expungeLoop gone (delta + 1) ms in (msgSeq m' # ns, kept, mailFiles (msgMail m) @ fs))
      else
        (let (ns, kept, fs) = expungeLoop gone delta ms in (ns, m' # kept, fs)))"

definition Expunge :: "SeqRange list option \<Rightarrow> nat \<Rightarrow> memUser \<Rightarrow> u32 list \<times> memUser" where
  "Expunge uidSeqs k u =
     (let b = muBoxes u k;
          (ns, kept, fs) = expungeLoop (doomed (muArrays u) uidSeqs) 0 (mbMsgs b) in
      (ns, setBox k (b\<lparr>mbMsgs := kept\<rparr>) (u\<lparr>muClosed := muClosed u @ fs\<rparr>)))"

subsection \<open>Store\<close>

record storeResult =
  stSeq :: u32
  stUID :: u32
  stFlags :: flagSlice
  stModSeq :: int

text \<open>What the switch on the mode does to the flags of one message. \<open>None\<close> is the \<open>continue\<close> of a failed UNCHANGEDSINCE,
  which only \<open>StoreReplace\<close> looks at; otherwise \<open>changed\<close>, the arrays and the slice.\<close>

definition storeAdd :: "(nat \<Rightarrow> nat \<Rightarrow> nat) \<Rightarrow> bytes list \<Rightarrow> arrays \<Rightarrow> flagSlice \<Rightarrow> bool \<times> arrays \<times> flagSlice" where
  "storeAdd grow flags h s =
     (let (ch, h1, s1) = fold (\<lambda>f (ch, h, s). if hasFlag (sliceFlags h s) f then (ch, h, s)
                                            else (let (h', s') = appendFlags' grow h s [f] in (True, h', s'))) flags (False, h, s) in
      (ch, sortFlags h1 s1, s1))"

definition storeRemove :: "(nat \<Rightarrow> nat \<Rightarrow> nat) \<Rightarrow> bytes list \<Rightarrow> arrays \<Rightarrow> flagSlice \<Rightarrow> bool \<times> arrays \<times> flagSlice" where
  "storeRemove grow flags h s =
     (let keep = filter (\<lambda>f. f \<notin> set flags) (sliceFlags h s); (h1, s1) = appendEach grow h nilSlice keep in
      (keep \<noteq> [], h1, s1))"

text \<open>\<open>reflect.DeepEqual\<close> of two string slices tells the nil slice from an empty one; the flags of the command are nil when there are none.\<close>

definition deepEqual :: "arrays \<Rightarrow> flagSlice \<Rightarrow> bytes list \<Rightarrow> bool" where
  "deepEqual h s flags \<longleftrightarrow> sliceFlags h s = flags \<and> (s = nilSlice \<longleftrightarrow> flags = [])"

definition storeReplace :: "(nat \<Rightarrow> nat \<Rightarrow> nat) \<Rightarrow> bytes list \<Rightarrow> arrays \<Rightarrow> flagSlice \<Rightarrow> bool \<times> arrays \<times> flagSlice" where
  "storeReplace grow flags h s =
     (let recent = hasFlag (sliceFlags h s) flagRecent;
          changed = (\<not> deepEqual h s flags);
          (h1, s1) = appendFlags' grow h (fst s, 0) flags;
          (h2, s2) = (if recent then appendFlags' grow h1 s1 [flagRecent] else (h1, s1)) in
      (changed, sortFlags h2 s2, s2))"

definition storeFlagsOf :: "(nat \<Rightarrow> nat \<Rightarrow> nat) \<Rightarrow> StoreParam \<Rightarrow> arrays \<Rightarrow> memMsg \<Rightarrow> (bool \<times> arrays \<times> flagSlice) option" where
  "storeFlagsOf grow st h m =
     (case storeMode st of
        StoreAdd \<Rightarrow> Some (storeAdd grow (storeFlags st) h (msgFlags m))
      | StoreRemove \<Rightarrow> Some (storeRemove grow (storeFlags st) h (msgFlags m))
      | StoreReplace \<Rightarrow>
        (if unchangedSince st \<noteq> 0 \<and> unchangedSince st < msgModSeq m then None
         else Some (storeReplace grow (storeFlags st) h (msgFlags m)))
      | StoreUnknown \<Rightarrow> Some (False, h, msgFlags m))"

record storeState =
  ssArrays :: arrays
  ssModSeq :: int
  ssStored :: "storeResult list"
  ssFailed :: "SeqRange list"

definition resultOf :: "memMsg \<Rightarrow> storeResult" where
  "resultOf m = \<lparr>stSeq = msgSeq m, stUID = msgUID m, stFlags = msgFlags m, stModSeq = msgModSeq m\<rparr>"

definition storeStep :: "(nat \<Rightarrow> nat \<Rightarrow> nat) \<Rightarrow> bool \<Rightarrow> SeqRange list \<Rightarrow> StoreParam \<Rightarrow> memMsg \<Rightarrow> storeState \<Rightarrow> memMsg \<times> storeState" where
  "storeStep grow uid sset st m s =
     (if \<not> SeqContains sset (msgID uid m) then (m, s)
      else case storeFlagsOf grow st (ssArrays s) m of
        None \<Rightarrow> (m, s\<lparr>ssFailed := AppendSeqRange (ssFailed s) (msgID uid m)\<rparr>)
      | Some (changed, h, fs) \<Rightarrow>
        (let m1 = m\<lparr>msgFlags := fs\<rparr>; s1 = s\<lparr>ssArrays := h\<rparr> in
         if \<not> changed then
           (m1, if unchangedSince st \<noteq> 0 \<and> unchangedSince st < msgModSeq m1 then s1\<lparr>ssStored := ssStored s1 @ [resultOf m1]\<rparr> else s1)
         else
           (let m2 = m1\<lparr>msgModSeq := ssModSeq s1\<rparr> in
            (m2, s1\<lparr>ssModSeq := ssModSeq s1 + 1, ssStored := ssStored s1 @ [resultOf m2]\<rparr>))))"

fun storeLoop :: "(memMsg \<Rightarrow> storeState \<Rightarrow> memMsg \<times> storeState) \<Rightarrow> memMsg list \<Rightarrow> storeState \<Rightarrow> memMsg list \<times> storeState" where
  "storeLoop f [] s = ([], s)"
| "storeLoop f (m # ms) s = (let (m', s1) = f m s; (ms', s2) = storeLoop f ms s1 in (m' # ms', s2))"

definition Store :: "(nat \<Rightarrow> nat \<Rightarrow> nat) \<Rightarrow> bool \<Rightarrow> SeqRange list \<Rightarrow> StoreParam \<Rightarrow> nat \<Rightarrow> memUser \<Rightarrow> (storeResult list \<times> SeqRange list) \<times> memUser" where
  "Store grow uid sset st k u =
     (let b = muBoxes u k;
          (ms, s) = storeLoop (storeStep grow uid sset st) (mbMsgs b)
            \<lparr>ssArrays = muArrays u, ssModSeq = muModSeqNext u, ssStored = [], ssFailed = []\<rparr> in
      ((ssStored s, ssFailed s),
       setBox k (b\<lparr>mbMsgs := ms\<rparr>) (u\<lparr>muArrays := ssArrays s, muModSeqNext := ssModSeq s\<rparr>)))"

subsection \<open>Move and Copy\<close>

record moveState =
  mvDelta :: u32
  mvDst :: "memMsg list"
  mvUidnext :: u32
  mvReports :: "(u32 \<times> u32 \<times> u32) list"

text \<open>The loop of \<open>Move\<close>: each message has the number of messages moved before taken off its sequence number, then
  its number (or UID) is looked up in the set.\<close>

fun moveLoop :: "bool \<Rightarrow> SeqRange list \<Rightarrow> nat \<Rightarrow> memMsg list \<Rightarrow> moveState \<Rightarrow> memMsg list \<times> moveState" where
  "moveLoop uid sset dst [] s = ([], s)"
| "moveLoop uid sset dst (m # ms) s =
     (let m1 = m\<lparr>msgSeq := msgSeq m - mvDelta s\<rparr> in
      if \<not> SeqContains sset (msgID uid m1) then
        (let (kept, s1) = moveLoop uid sset dst ms s in (m1 # kept, s1))
      else
        (let newUid = mvUidnext s;
             m2 = m1\<lparr>msgMailbox := dst, msgUID := newUid, msgSeq := of_nat (length (mvDst s) + 1)\<rparr>;
             s1 = s\<lparr>mvDelta := mvDelta s + 1, mvDst := mvDst s @ [m2], mvUidnext := newUid + 1,
               mvReports := mvReports s @ [(msgSeq m1, msgUID m1, newUid)]\<rparr> in
         moveLoop uid sset dst ms s1))"

definition Move :: "bool \<Rightarrow> SeqRange list \<Rightarrow> nat \<Rightarrow> nat \<Rightarrow> memUser \<Rightarrow> (bytes + (u32 \<times> u32 \<times> u32) list) \<times> memUser" where
  "Move uid sset dst k u =
     (if dst = k then (Inl ''memory.Move: moving to ourself. TODO is this an error?'', u)
      else
        (let b = muBoxes u k; d = muBoxes u dst;
             (kept, s) = moveLoop uid sset dst (mbMsgs b) \<lparr>mvDelta = 0, mvDst = mbMsgs d, mvUidnext = mbUidnext d, mvReports = []\<rparr> in
         (Inr (mvReports s),
          setBox dst (d\<lparr>mbMsgs := mvDst s, mbUidnext := mvUidnext s\<rparr>) (setBox k (b\<lparr>mbMsgs := kept\<rparr>) u))))"

text \<open>\<open>Copy\<close> copies the message struct: the flags slice and the part files of the copy are those of the original.\<close>

definition copyStep :: "bool \<Rightarrow> SeqRange list \<Rightarrow> nat \<Rightarrow> memMsg \<Rightarrow> memMsg list \<times> u32 \<times> (u32 \<times> u32) list \<Rightarrow> memMsg list \<times> u32 \<times> (u32 \<times> u32) list" where
  "copyStep uid sset dst m s =
     (case s of (ds, next, rs) \<Rightarrow>
        if \<not> SeqContains sset (msgID uid m) then (ds, next, rs)
        else (ds @ [m\<lparr>msgMailbox := dst, msgUID := next, msgSeq := of_nat (length ds + 1)\<rparr>], next + 1, rs @ [(msgUID m, next)]))"

definition Copy :: "bool \<Rightarrow> SeqRange list \<Rightarrow> nat \<Rightarrow> nat \<Rightarrow> memUser \<Rightarrow> (bytes + (u32 \<times> u32) list) \<times> memUser" where
  "Copy uid sset dst k u =
     (if dst = k then (Inl ''memory.Copy: copying to ourself. TODO is this an error?'', u)
      else
        (let d = muBoxes u dst; (ds, next, rs) = fold (copyStep uid sset dst) (mbMsgs (muBoxes u k)) (mbMsgs d, mbUidnext d, []) in
         (Inr rs, setBox dst (d\<lparr>mbMsgs := ds, mbUidnext := next\<rparr>) u)))"

subsection \<open>SetSeen\<close>

text \<open>\<open>SetSeen\<close> on the message with number \<open>i\<close> of mailbox \<open>k\<close>, as fetched with the flags \<open>fetched\<close>: the flag goes to the message itself
  too; the modification sequence stays.\<close>

definition SetSeen :: "(nat \<Rightarrow> nat \<Rightarrow> nat) \<Rightarrow> bytes list \<Rightarrow> nat \<Rightarrow> nat \<Rightarrow> memUser \<Rightarrow> bool \<times> memUser" where
  "SetSeen grow fetched i k u =
     (if hasFlag fetched flagSeen then (False, u)
      else
        (let b = muBoxes u k; m = mbMsgs b ! i; (h, fs) = appendFlags' grow (muArrays u) (msgFlags m) [flagSeen] in
         (True, setBox k (b\<lparr>mbMsgs := (mbMsgs b)[i := m\<lparr>msgFlags := fs\<rparr>]\<rparr>) (u\<lparr>muArrays := sortFlags h fs\<rparr>))))"

subsection \<open>The session\<close>

definition Mailbox :: "bytes \<Rightarrow> memUser \<Rightarrow> nat option" where
  "Mailbox name u = map_of (muNames u) name"

definition CreateMailbox :: "bytes \<Rightarrow> nat \<Rightarrow> memUser \<Rightarrow> bytes option \<times> memUser" where
  "CreateMailbox name attrs u =
     (if map_of (muNames u) name \<noteq> None then (Some ''memory session: mailbox exists'', u)
      else
        (let k = muNextMailbox u in
         (None, setBox k \<lparr>mbName = name, mbAttrs = attrs, mbMsgs = [], mbUidnext = 1, mbUidValidity = muUidValidityNext u\<rparr>
           (u\<lparr>muNames := (name, k) # muNames u, muNextMailbox := k + 1, muUidValidityNext := muUidValidityNext u + 1\<rparr>))))"

definition deleteName :: "bytes \<Rightarrow> (bytes \<times> nat) list \<Rightarrow> (bytes \<times> nat) list" where
  "deleteName name ns = filter (\<lambda>p. fst p \<noteq> name) ns"

definition DeleteMailbox :: "bytes \<Rightarrow> memUser \<Rightarrow> bytes option \<times> memUser" where
  "DeleteMailbox name u =
     (case map_of (muNames u) name of
        None \<Rightarrow> (Some ''memory session: mailbox does not exist'', u)
      | Some k \<Rightarrow>
        (None, u\<lparr>muClosed := muClosed u @ concat (map (\<lambda>m. mailFiles (msgMail m)) (mbMsgs (muBoxes u k))),
                 muNames := deleteName name (muNames u)\<rparr>))"

definition RenameMailbox :: "bytes \<Rightarrow> bytes \<Rightarrow> memUser \<Rightarrow> bytes option \<times> memUser" where
  "RenameMailbox old new u =
     (case map_of (muNames u) old of
        None \<Rightarrow> (Some ''MemoryStore: source mailbox does not exist'', u)
      | Some k \<Rightarrow>
        (if map_of (muNames u) new \<noteq> None then (Some ''MemoryStore: destination mailbox exists'', u)
         else
           (None, setBox k ((muBoxes u k)\<lparr>mbName := new, mbUidValidity := muUidValidityNext u\<rparr>)
             (u\<lparr>muNames := (new, k) # deleteName old (muNames u), muUidValidityNext := muUidValidityNext u + 1\<rparr>))))"

text \<open>\<open>Mailboxes\<close>: sorted by name, INBOX first.\<close>

definition Mailboxes :: "memUser \<Rightarrow> (bytes \<times> nat) list" where
  "Mailboxes u =
     sort_key (\<lambda>p. if fst p = ''INBOX'' then [] else fst p)
       (map (\<lambda>(_, k). (mbName (muBoxes u k), mbAttrs (muBoxes u k))) (muNames u))"

text \<open>\<open>AddUser\<close>: the new user's state (\<open>n\<close> users before it) and its mailboxes.\<close>

definition newUser :: "nat \<Rightarrow> memUser" where
  "newUser n = \<lparr>muArrays = [[]], muClosed = [], muModSeqNext = 900000 + int (1000 * n), muUidValidityNext = 500000 + of_nat (1000 * n),
     muNextMailbox = 0, muNames = [],
     muBoxes = (\<lambda>_. \<lparr>mbName = [], mbAttrs = 0, mbMsgs = [], mbUidnext = 0, mbUidValidity = 0\<rparr>)\<rparr>"

definition AttrArchive :: nat where "AttrArchive = 64"
definition AttrDrafts :: nat where "AttrDrafts = 128"
definition AttrJunk :: nat where "AttrJunk = 512"
definition AttrSent :: nat where "AttrSent = 1024"
definition AttrTrash :: nat where "AttrTrash = 2048"

definition AddUser :: "nat \<Rightarrow> memUser" where
  "AddUser n = fold (\<lambda>(name, attrs) u. snd (CreateMailbox name attrs u))
     [(''INBOX'', 0), (''Archive'', AttrArchive), (''Drafts'', AttrDrafts), (''Subscriptions'', 0), (''Sent'', AttrSent),
      (''Spam'', AttrJunk), (''Trash'', AttrTrash)] (newUser n)"

end
