(* ===== verification/EmailHeader.thy ===== *)
theory EmailHeader
  imports Prelude
begin

text \<open>
  Message headers (\<open>email/header.go\<close>): the list of entries with its lazily built index, the canonical form of a key, and the
  folding encoder. \<open>Encode\<close> writes to a buffer, so that writing does not fail; what it writes is the value of the model, a
  slice index out of range is the outcome \<open>Panic\<close>. The variable \<open>firstPass\<close> of the Go function starts as false and is never
  set, so the branch it guards is left out.
\<close>

type_synonym headerKey = bytes

type_synonym headerEntry = "headerKey \<times> bytes"

record header =
  hEntries :: "headerEntry list"
  hIndex :: "(headerKey \<Rightarrow> bytes list) option"

definition emptyHeader :: header where
  "emptyHeader = \<lparr>hEntries = [], hIndex = None\<rparr>"

subsection \<open>Encoding\<close>

text \<open>The place to break: the last space at or before \<open>i\<close>, but not at 0; 0 if there is none.\<close>

fun findBreak :: "bytes \<Rightarrow> nat \<Rightarrow> nat" where
  "findBreak v i = (if i = 0 then 0 else if v ! i = SP then i else findBreak v (i - 1))"

declare findBreak.simps [simp del]

lemma findBreak_le: "findBreak v i \<le> i"
  by (induction v i rule: findBreak.induct) (subst findBreak.simps, fastforce intro: le_trans)

lemma findBreak_none: "SP \<notin> set v \<Longrightarrow> i < length v \<Longrightarrow> findBreak v i = 0"
proof (induction i)
  case (Suc i)
  then have "v ! Suc i \<noteq> SP" using nth_mem by metis
  then show ?case using Suc by (subst findBreak.simps) simp
qed (subst findBreak.simps, simp)

definition padding :: bytes where "padding = [SP, SP, SP, SP]"

function (sequential) encodeLoop :: "int \<Rightarrow> int \<Rightarrow> bytes \<Rightarrow> bytes go" where
  "encodeLoop spent limit v =
     (if int (length v) < limit - spent then Ok v
      else if limit - spent - 1 < 0 then Panic ''slice bounds out of range''
      else
        (let i = findBreak v (nat (limit - spent - 1)) in
         if i = 0 \<and> limit = 78 then encodeLoop spent 998 v
         else
           (let i = (if i = 0 then nat (998 - spent) else i) in
            if i = 0 \<or> length v < i then Panic ''slice bounds out of range''
            else case encodeLoop (int (length padding)) 78 (drop i v) of
              Ok out \<Rightarrow> Ok (take i v @ CRLF @ padding @ out)
            | Fail e \<Rightarrow> Fail e
            | Panic p \<Rightarrow> Panic p)))"
  by pat_completeness auto
termination
  by (relation "measures [\<lambda>(spent, limit, v). length v, \<lambda>(spent, limit, v). if limit = 78 then 1 else 0]") auto

declare encodeLoop.simps [simp del]

text \<open>\<open>HeaderEntry.Encode\<close>: the count it returns and what it writes.\<close>

definition encodeEntry :: "headerEntry \<Rightarrow> (nat \<times> bytes) go" where
  "encodeEntry e =
     (let k = fst e; v = snd e in
      if v = [] then Ok (0, k @ '':'' @ CRLF)
      else case encodeLoop (int (length k) - 2) 78 v of
        Ok out \<Rightarrow> (let w = k @ '': '' @ out @ CRLF in Ok (length w, w))
      | Fail err \<Rightarrow> Fail err
      | Panic p \<Rightarrow> Panic p)"

subsection \<open>Entries and index\<close>

definition indexAdd :: "headerKey \<Rightarrow> bytes \<Rightarrow> (headerKey \<Rightarrow> bytes list) \<Rightarrow> (headerKey \<Rightarrow> bytes list)" where
  "indexAdd k v m = m(k := m k @ [v])"

definition hAdd :: "headerKey \<Rightarrow> bytes \<Rightarrow> header \<Rightarrow> header" where
  "hAdd k v h = h\<lparr>hEntries := hEntries h @ [(k, v)],
     hIndex := Some (indexAdd k v (case hIndex h of None \<Rightarrow> (\<lambda>_. []) | Some m \<Rightarrow> m))\<rparr>"

definition hGet :: "headerKey \<Rightarrow> header \<Rightarrow> bytes \<times> header" where
  "hGet k h =
     (let m = (case hIndex h of None \<Rightarrow> fold (\<lambda>(k, v). indexAdd k v) (hEntries h) (\<lambda>_. []) | Some m \<Rightarrow> m) in
      (case m k of [] \<Rightarrow> [] | v # _ \<Rightarrow> v, h\<lparr>hIndex := Some m\<rparr>))"

definition hDel :: "headerKey \<Rightarrow> header \<Rightarrow> header" where
  "hDel k h = h\<lparr>hEntries := filter (\<lambda>e. fst e \<noteq> k) (hEntries h),
     hIndex := (case hIndex h of None \<Rightarrow> None | Some m \<Rightarrow> Some (m(k := [])))\<rparr>"

fun encodeEntries :: "headerEntry list \<Rightarrow> (nat \<times> bytes) go" where
  "encodeEntries [] = Ok (2, CRLF)"
| "encodeEntries (e # es) =
     (case encodeEntry e of
        Ok (n, w) \<Rightarrow>
          (case encodeEntries es of
             Ok (n', w') \<Rightarrow> Ok (n + n', w @ w')
           | Fail err \<Rightarrow> Fail err
           | Panic p \<Rightarrow> Panic p)
      | Fail err \<Rightarrow> Fail err
      | Panic p \<Rightarrow> Panic p)"

definition hEncode :: "header \<Rightarrow> (nat \<times> bytes) go" where
  "hEncode h = encodeEntries (hEntries h)"

subsection \<open>Keys\<close>

definition asciiLower :: "bytes \<Rightarrow> bytes" where
  "asciiLower data = map lowerByte data"

text \<open>The table of the known keys.\<close>

definition canonTable :: "(bytes \<times> headerKey) list" where
  "canonTable =
   [(''subject'', ''Subject''), (''date'', ''Date''), (''to'', ''To''), (''from'', ''From''), (''cc'', ''CC''),
    (''content-id'', ''Content-ID''), (''content-disposition'', ''Content-Disposition''),
    (''content-length'', ''Content-Length''), (''content-type'', ''Content-Type''),
    (''content-transfer-encoding'', ''Content-Transfer-Encoding''), (''received'', ''Received''),
    (''x-received'', ''X-Received''), (''return-path'', ''Return-Path''), (''arc-seal'', ''ARC-Seal''),
    (''arc-message-signature'', ''ARC-Message-Signature''), (''arc-authentication-results'', ''ARC-Authentication-Results''),
    (''received-spf'', ''Received-SPF''), (''delivered-to'', ''Delivered-To''), (''dkim-signature'', ''DKIM-Signature''),
    (''authentication-results'', ''Authentication-Results''), (''message-id'', ''Message-ID''),
    (''x-gm-message-state'', ''X-Gm-Message-State''), (''x-forwarded-to'', ''X-Forwarded-To''),
    (''x-forwarded-for'', ''X-Forwarded-For''), (''mime-version'', ''MIME-Version''), (''reply-to'', ''Reply-To''),
    (''feedback-id'', ''Feedback-ID''), (''references'', ''References''), (''list-id'', ''List-ID''),
    (''list-archive'', ''List-Archive''), (''list-help'', ''List-Help''), (''list-post'', ''List-Post''),
    (''list-unsubscribe'', ''List-Unsubscribe''), (''list-unsubscribe-post'', ''List-Unsubscribe-Post''),
    (''list-subscribe'', ''List-Subscribe''), (''list-owner'', ''List-Owner''), (''in-reply-to'', ''In-Reply-To''),
    (''x-ses-outgoing'', ''X-SES-Outgoing''), (''precedence'', ''Precedence''),
    (''x-original-messageid'', ''X-Original-MessageID''), (''x-mailer'', ''X-Mailer''),
    (''x-original-authentication-results'', ''X-Original-Authentication-Results''),
    (''x-auto-response-suppress'', ''X-Auto-Response-Suppress''), (''sender'', ''Sender''),
    (''x-report-abuse'', ''X-Report-Abuse''), (''x-csa-complaints'', ''X-CSA-Complaints''), (''x-campaign'', ''X-Campaign''),
    (''x-mc-user'', ''X-MC-User''), (''x-accounttype'', ''X-Accounttype''),
    (''x-originalarrivaltime'', ''X-OriginalArrivalTime''), (''domainkey-signature'', ''DomainKey-Signature''),
    (''x-beenthere'', ''X-BeenThere''), (''x-feedback-id'', ''X-Feedback-ID''), (''x-sent-to'', ''X-Sent-To''),
    (''x-binding'', ''X-Binding''), (''x-original-sender'', ''X-Original-Sender''),
    (''x-google-group-id'', ''X-Google-Group-Id''), (''x-google-dkim-signature'', ''X-Google-DKIM-Signature''),
    (''x-google-smtp-source'', ''X-Google-Smtp-Source''), (''x-google-id'', ''X-Google-Id''),
    (''x-emailtype-id'', ''X-EmailType-Id''), (''x-business-group'', ''X-Business-Group''),
    (''x-attach-flag'', ''X-Attach-Flag''), (''mailing-list'', ''Mailing-list''), (''errors-to'', ''Errors-To''),
    (''x-smtpapi'', ''X-SMTPAPI''), (''x-ms-tnef-correlator'', ''X-MS-TNEF-Correlator''),
    (''x-ms-has-attach'', ''X-MS-Has-Attach''), (''thread-topic'', ''Thread-Topic''), (''thread-index'', ''Thread-Index''),
    (''content-language'', ''Content-Language''), (''accept-language'', ''Accept-Language''),
    (''x-originatororg'', ''X-OriginatorOrg''),
    (''x-ms-exchange-transport-crosstenantheadersstamped'', ''X-MS-Exchange-Transport-CrossTenantHeadersStamped''),
    (''x-ms-exchange-crosstenant-network-message-id'', ''X-MS-Exchange-CrossTenant-Network-Message-Id''),
    (''x-antiabuse'', ''X-AntiAbuse''), (''x-mailer-name'', ''X-Mailer-Name''),
    (''x-ms-exchange-crosstenant-originalarrivaltime'', ''X-MS-Exchange-CrossTenant-originalarrivaltime''),
    (''x-ms-exchange-crosstenant-id'', ''X-MS-Exchange-CrossTenant-id''),
    (''x-ms-exchange-crosstenant-fromentityheader'', ''X-MS-Exchange-CrossTenant-fromentityheader''),
    (''x-proofpoint-virus-version'', ''X-Proofpoint-Virus-Version''), (''x-mktarchive'', ''X-MktArchive''),
    (''x-mailfrom'', ''X-Mailfrom''), (''x-msys-api'', ''X-MSYS-API''), (''x-priority'', ''X-Priority''),
    (''x-campaign-id'', ''X-Campaign-ID''), (''x-rptags'', ''X-RPTags''),
    (''x-proofpoint-spam-details'', ''X-Proofpoint-Spam-Details''), (''x-steam-message-type'', ''X-Steam-Message-Type''),
    (''x-notifications'', ''X-Notifications''), (''x-messageid'', ''X-MessageID''), (''x-listmember'', ''X-ListMember''),
    (''dkim-filter'', ''DKIM-Filter''), (''bounces-to'', ''Bounces-To''), (''x-virus-scanned'', ''X-Virus-Scanned''),
    (''x-roving-id'', ''X-Roving-Id''), (''x-roving-campaignid'', ''X-Roving-Campaignid''),
    (''x-return-path-hint'', ''X-Return-Path-Hint''), (''x-message-id'', ''X-Message-ID''),
    (''x-mailer_status'', ''X-Mailer_Status''), (''x-mailer_rsid'', ''X-Mailer_RSID''),
    (''x-mailer_profile'', ''X-Mailer_Profile''), (''x-mailer_osid'', ''X-Mailer_OSID''), (''x-channel-id'', ''X-Channel-ID''),
    (''x-campaign-activity-id'', ''X-Campaign-Activity-ID''), (''x-ctct-id'', ''X-CTCT-ID''),
    (''x-binding-id'', ''X-Binding-ID''), (''x-microsoft-exchange-diagnostics'', ''X-Microsoft-Exchange-Diagnostics''),
    (''x-mailman-version'', ''X-Mailman-Version''), (''x-mc-unique'', ''X-MC-Unique''),
    (''x-emarsys-identify'', ''X-EMarSys-Identify''), (''x-emarsys-environment'', ''X-EMarSys-Environment''),
    (''x-originating-ip'', ''X-Originating-IP''), (''x-spam-status'', ''X-Spam-Status''), (''x-spam-score'', ''X-Spam-Score''),
    (''x-spam-level'', ''X-Spam-Level''), (''x-spam-flag'', ''X-Spam-Flag''), (''x-source-sender'', ''X-Source-Sender''),
    (''x-source'', ''X-Source''), (''x-local-domain'', ''X-Local-Domain''), (''x-complaints-to'', ''X-Complaints-To''),
    (''x-broadcast-id'', ''X-Broadcast-Id''), (''x-bwhitelist'', ''X-BWhitelist''),
    (''x-account-notification-type'', ''X-Account-Notification-Type'')]"

text \<open>The default case: each small letter at the start or after a \<open>-\<close> becomes a capital; \<open>dash\<close> says if the letter is there.\<close>

fun capitalize :: "bool \<Rightarrow> bytes \<Rightarrow> bytes" where
  "capitalize dash [] = []"
| "capitalize dash (c # cs) =
     (if 97 \<le> bval c \<and> bval c \<le> 122 \<and> dash then char_of (bval c - 32) else c) # capitalize (c = CHR ''-'') cs"

text \<open>\<open>CanonicalKey\<close> and what it leaves in its argument: \<open>append(keyBytes)\<close> does not copy, so the lower-casing and the
  capitals of the default case are written into the caller's bytes.\<close>

definition CanonicalKey :: "bytes \<Rightarrow> headerKey \<times> bytes" where
  "CanonicalKey keyBytes =
     (let b = asciiLower keyBytes in
      case map_of canonTable b of
        Some k \<Rightarrow> (k, b)
      | None \<Rightarrow> (capitalize True b, capitalize True b))"

subsection \<open>The entries as a list\<close>

text \<open>The reference: an association list.\<close>

datatype headerOp = OpAdd headerKey bytes | OpDel headerKey | OpGet headerKey

definition applyOp :: "headerOp \<Rightarrow> header \<Rightarrow> header" where
  "applyOp op h = (case op of OpAdd k v \<Rightarrow> hAdd k v h | OpDel k \<Rightarrow> hDel k h | OpGet k \<Rightarrow> snd (hGet k h))"

definition refOp :: "headerOp \<Rightarrow> headerEntry list \<Rightarrow> headerEntry list" where
  "refOp op es = (case op of OpAdd k v \<Rightarrow> es @ [(k, v)] | OpDel k \<Rightarrow> filter (\<lambda>e. fst e \<noteq> k) es | OpGet k \<Rightarrow> es)"

definition valuesFor :: "headerKey \<Rightarrow> headerEntry list \<Rightarrow> bytes list" where
  "valuesFor k es = map snd (filter (\<lambda>e. fst e = k) es)"

text \<open>No index only while there are no entries: \<open>Add\<close> on a header with entries and no index would forget them.\<close>

definition indexOK :: "header \<Rightarrow> bool" where
  "indexOK h \<longleftrightarrow> (case hIndex h of None \<Rightarrow> hEntries h = [] | Some m \<Rightarrow> (\<forall>k. m k = valuesFor k (hEntries h)))"

lemma fold_indexAdd: "fold (\<lambda>(k, v). indexAdd k v) es m k = m k @ valuesFor k es"
  by (induction es arbitrary: m) (auto simp: indexAdd_def valuesFor_def)

lemma valuesFor_del: "valuesFor k (filter (\<lambda>e. fst e \<noteq> k') es) = (if k = k' then [] else valuesFor k es)"
  by (induction es) (auto simp: valuesFor_def)

lemma applyOp_spec: "indexOK h \<Longrightarrow> indexOK (applyOp op h) \<and> hEntries (applyOp op h) = refOp op (hEntries h)"
  by (cases op)
    (auto simp: applyOp_def refOp_def indexOK_def hAdd_def hDel_def hGet_def Let_def fold_indexAdd indexAdd_def valuesFor_del
      split: option.splits, auto simp: valuesFor_def)

lemma applyOps_spec: "indexOK h \<Longrightarrow> indexOK (fold applyOp ops h) \<and> hEntries (fold applyOp ops h) = fold refOp ops (hEntries h)"
  by (induction ops arbitrary: h) (simp_all add: applyOp_spec)

text \<open>C34: The header with its lazily built index refines an association list: after any sequence of Add, Del and Get on an empty
  header the entries are the list's and \<open>Get\<close> returns the value of the first entry with the key (nothing if there is none).\<close>

theorem header_refines:
  "hEntries (fold applyOp ops emptyHeader) = fold refOp ops [] \<and>
   fst (hGet k (fold applyOp ops emptyHeader)) = (case valuesFor k (fold refOp ops []) of [] \<Rightarrow> [] | v # _ \<Rightarrow> v)"
proof -
  have "indexOK emptyHeader" by (simp add: indexOK_def emptyHeader_def)
  note * = applyOps_spec [OF this, of ops]
  then have e: "hEntries (fold applyOp ops emptyHeader) = fold refOp ops []" by (simp add: emptyHeader_def)
  show ?thesis unfolding e [symmetric] using conjunct1 [OF *]
    by (cases "hIndex (fold applyOp ops emptyHeader)") (simp_all add: hGet_def Let_def indexOK_def fold_indexAdd valuesFor_def)
qed

subsection \<open>Folding\<close>

definition folded :: "bytes list \<Rightarrow> bytes" where
  "folded ps = hd ps @ concat (map (\<lambda>p. CRLF @ padding @ p) (tl ps))"

lemma encodeLoop_folds:
  assumes "- 2 \<le> spent" and "spent < 78" and "limit = 78 \<or> limit = 998"
  shows "\<exists>ps. encodeLoop spent limit v = Ok (folded ps) \<and> ps \<noteq> [] \<and> concat ps = v \<and>
    spent + int (length (hd ps)) \<le> 998 \<and> (\<forall>p\<in>set (tl ps). length padding + length p \<le> 998)"
  using assms
proof (induction spent limit v rule: encodeLoop.induct)
  case (1 spent limit v)
  let ?i = "findBreak v (nat (limit - spent - 1))"
  show ?case
  proof (cases "int (length v) < limit - spent")
    case True
    then show ?thesis using "1.prems" by (intro exI [of _ "[v]"]) (subst encodeLoop.simps, auto simp: folded_def)
  next
    case False
    have i: "?i \<le> nat (limit - spent - 1)" by (rule findBreak_le)
    have nn: "\<not> limit - spent - 1 < 0" using "1.prems" by auto
    show ?thesis
    proof (cases "?i = 0 \<and> limit = 78")
      case True
      then have z: "limit = 78" "findBreak v (nat (78 - spent - 1)) = 0" by auto
      have "encodeLoop spent limit v = encodeLoop spent 998 v"
        using False nn unfolding z(1) by (subst encodeLoop.simps) (simp only: Let_def z(2) if_False if_True simp_thms)
      then show ?thesis using "1.IH"(1) [OF False nn refl True] "1.prems" by auto
    next
      case cont: False
      define j where "j = (if ?i = 0 then nat (998 - spent) else ?i)"
      have j: "j \<noteq> 0" "j \<le> length v" "spent + int j \<le> 998"
        using cont i "1.prems" False by (auto simp: j_def)
      have p: "int (length padding) = 4" by (simp add: padding_def)
      obtain ps where ps: "encodeLoop (int (length padding)) 78 (drop j v) = Ok (folded ps)" "ps \<noteq> []" "concat ps = drop j v"
          "int (length padding) + int (length (hd ps)) \<le> 998" "\<forall>p\<in>set (tl ps). length padding + length p \<le> 998"
        using "1.IH"(2) [OF False nn refl cont j_def] j(1,2) p by auto
      have "encodeLoop spent limit v = Ok (take j v @ CRLF @ padding @ folded ps)"
        using False nn cont j(1,2) ps(1) by (subst encodeLoop.simps) (auto simp add: Let_def simp flip: j_def)
      moreover have "take j v @ CRLF @ padding @ folded ps = folded (take j v # ps)"
        using ps(2) by (cases ps) (simp_all add: folded_def)
      ultimately show ?thesis using ps j by (intro exI [of _ "take j v # ps"]) (cases ps, auto)
    qed
  qed
qed



lemma encodeLoop_panics: "78 \<le> spent \<Longrightarrow> encodeLoop spent 78 v = Panic ''slice bounds out of range''"
  by (subst encodeLoop.simps) simp

text \<open>Encoding an entry fails by a panic exactly if its value is not empty and its key has 80 or more bytes.\<close>

theorem header_long_key_panics:
  "(\<exists>p. encodeEntry (k, v) = Panic p) \<longleftrightarrow> 80 \<le> length k \<and> v \<noteq> []"
proof (cases "80 \<le> length k")
  case True
  then have "encodeLoop (int (length k) - 2) 78 v = Panic ''slice bounds out of range''" by (intro encodeLoop_panics) simp
  then show ?thesis using True by (simp add: encodeEntry_def Let_def)
next
  case False
  then have "\<exists>ps. encodeLoop (int (length k) - 2) 78 v = Ok (folded ps)"
    using encodeLoop_folds [of "int (length k) - 2" 78 v] by auto
  then show ?thesis using False by (auto simp: encodeEntry_def Let_def)
qed

text \<open>The first line may exceed the 998 bytes that the code means to enforce: a value without a space of 999 bytes less those of the
  key is written on one line, of 1001 bytes before its CRLF.\<close>

theorem header_first_line_too_long:
  assumes "SP \<notin> set v" and "length v + length k = 999" and "length k < 79"
  shows "encodeEntry (k, v) = Ok (1003, k @ '': '' @ v @ CRLF)"
proof -
  have "encodeLoop (int (length k) - 2) 78 v = encodeLoop (int (length k) - 2) 998 v"
    using assms(2,3) findBreak_none [OF assms(1), of "nat (79 - int (length k))"]
    by (subst encodeLoop.simps) (simp add: Let_def)
  also have "\<dots> = Ok v" using assms(2) by (subst encodeLoop.simps) simp
  finally show ?thesis using assms(2,3) by (auto simp: encodeEntry_def Let_def)
qed

theorem header_first_line_too_long_witness:
  "encodeEntry (''A'', replicate 998 (CHR ''x'')) = Ok (1003, ''A: '' @ replicate 998 (CHR ''x'') @ CRLF)"
  using header_first_line_too_long [of "replicate 998 (CHR ''x'')" "''A''"] by simp

subsection \<open>Canonical keys\<close>

lemma lowerByte_idem [simp]: "lowerByte (lowerByte b) = lowerByte b"
proof (cases "65 \<le> bval b \<and> bval b \<le> 90")
  case True
  then have "bval (char_of (bval b + 32)) = bval b + 32" by (intro bval_char_of) linarith
  with True show ?thesis by (simp add: lowerByte_def)
qed (auto simp: lowerByte_def)

lemma asciiLower_idem [simp]: "asciiLower (asciiLower s) = asciiLower s"
  by (simp add: asciiLower_def)

lemma lowerByte_table:
  "lowerByte (CHR ''-'') = CHR ''-''" "lowerByte (CHR ''A'') = CHR ''a''" "lowerByte (CHR ''B'') = CHR ''b''"
  "lowerByte (CHR ''C'') = CHR ''c''" "lowerByte (CHR ''D'') = CHR ''d''" "lowerByte (CHR ''E'') = CHR ''e''"
  "lowerByte (CHR ''F'') = CHR ''f''" "lowerByte (CHR ''G'') = CHR ''g''" "lowerByte (CHR ''H'') = CHR ''h''"
  "lowerByte (CHR ''I'') = CHR ''i''" "lowerByte (CHR ''K'') = CHR ''k''" "lowerByte (CHR ''L'') = CHR ''l''"
  "lowerByte (CHR ''M'') = CHR ''m''" "lowerByte (CHR ''N'') = CHR ''n''" "lowerByte (CHR ''O'') = CHR ''o''"
  "lowerByte (CHR ''P'') = CHR ''p''" "lowerByte (CHR ''R'') = CHR ''r''" "lowerByte (CHR ''S'') = CHR ''s''"
  "lowerByte (CHR ''T'') = CHR ''t''" "lowerByte (CHR ''U'') = CHR ''u''" "lowerByte (CHR ''V'') = CHR ''v''"
  "lowerByte (CHR ''W'') = CHR ''w''" "lowerByte (CHR ''X'') = CHR ''x''" "lowerByte (CHR ''Y'') = CHR ''y''"
  "lowerByte (CHR ''_'') = CHR ''_''" "lowerByte (CHR ''a'') = CHR ''a''" "lowerByte (CHR ''b'') = CHR ''b''"
  "lowerByte (CHR ''c'') = CHR ''c''" "lowerByte (CHR ''d'') = CHR ''d''" "lowerByte (CHR ''e'') = CHR ''e''"
  "lowerByte (CHR ''f'') = CHR ''f''" "lowerByte (CHR ''g'') = CHR ''g''" "lowerByte (CHR ''h'') = CHR ''h''"
  "lowerByte (CHR ''i'') = CHR ''i''" "lowerByte (CHR ''j'') = CHR ''j''" "lowerByte (CHR ''k'') = CHR ''k''"
  "lowerByte (CHR ''l'') = CHR ''l''" "lowerByte (CHR ''m'') = CHR ''m''" "lowerByte (CHR ''n'') = CHR ''n''"
  "lowerByte (CHR ''o'') = CHR ''o''" "lowerByte (CHR ''p'') = CHR ''p''" "lowerByte (CHR ''q'') = CHR ''q''"
  "lowerByte (CHR ''r'') = CHR ''r''" "lowerByte (CHR ''s'') = CHR ''s''" "lowerByte (CHR ''t'') = CHR ''t''"
  "lowerByte (CHR ''u'') = CHR ''u''" "lowerByte (CHR ''v'') = CHR ''v''" "lowerByte (CHR ''w'') = CHR ''w''"
  "lowerByte (CHR ''x'') = CHR ''x''" "lowerByte (CHR ''y'') = CHR ''y''"
  by code_simp+

lemma canonTable_lower: "list_all (\<lambda>(l, k). asciiLower k = l) canonTable"
  unfolding canonTable_def asciiLower_def by (simp only: list.pred_inject list.map lowerByte_table prod.case simp_thms)

lemma lower_capital:
  assumes "97 \<le> bval c" and "bval c \<le> 122"
  shows "lowerByte (char_of (bval c - 32)) = c"
proof -
  define b :: byte where "b = char_of (bval c - 32)"
  have "bval b = bval c - 32" unfolding b_def using assms by (intro bval_char_of) linarith
  then have "65 \<le> bval b" "bval b \<le> 90" "bval b + 32 = bval c" using assms by auto
  then have "lowerByte b = c" by (simp add: lowerByte_def)
  then show ?thesis by (simp only: b_def)
qed

lemma capitalize_lower: "asciiLower (capitalize d s) = asciiLower s"
proof (induction s arbitrary: d)
  case (Cons c cs)
  have "lowerByte c = c" if "97 \<le> bval c" "bval c \<le> 122" using that by (simp add: lowerByte_def)
  then show ?case using Cons lower_capital by (simp add: asciiLower_def)
qed (simp add: asciiLower_def)

text \<open>\<open>CanonicalKey\<close> respects exactly the equality of keys up to the case of ASCII letters: two keys have the same canonical form
  iff they agree after lower-casing; the canonical form is itself canonical, and the argument is left equal to it up to case.\<close>

theorem canonical_key:
  "(fst (CanonicalKey a) = fst (CanonicalKey b) \<longleftrightarrow> asciiLower a = asciiLower b) \<and>
   fst (CanonicalKey (fst (CanonicalKey a))) = fst (CanonicalKey a) \<and> asciiLower (snd (CanonicalKey a)) = asciiLower a"
proof -
  have l: "asciiLower (fst (CanonicalKey s)) = asciiLower s" for s
    using canonTable_lower
    by (auto simp: CanonicalKey_def Let_def capitalize_lower list_all_iff split: option.splits dest!: map_of_SomeD)
  have c: "fst (CanonicalKey s) = fst (CanonicalKey t)" if "asciiLower s = asciiLower t" for s t
    using that by (simp add: CanonicalKey_def Let_def)
  have "asciiLower (snd (CanonicalKey a)) = asciiLower a" by (auto simp: CanonicalKey_def Let_def capitalize_lower split: option.splits)
  then show ?thesis using l c by metis
qed

end
