(* ===== verification/MsgTree.thy ===== *)
theory MsgTree
  imports EmailHeader Base64 "HOL-Library.Multiset"
begin

text \<open>
  The MIME tree of a message (\<open>email/msgbuilder/tree.go\<close>) and the content encoding of \<open>msgbuilder.go\<close>. A node points
  into the message's slice of parts, so the model's node holds the part's index. \<open>pullParts\<close> fills in missing names, so building the
  tree returns the parts as well. The random source is the stream of bytes that \<open>math/rand\<close> yields for the seed, with the number of bytes
  taken so far. Reading and seeking in a content buffer do not fail in the model. Media types are ASCII.
\<close>

record part =
  partName :: bytes
  partIsBody :: bool
  partIsAttachment :: bool
  partContentType :: bytes
  partContentID :: bytes
  partContent :: "bytes option"
  partCTE :: bytes
  partCTSize :: int
  partCTLines :: int

record partHeader =
  phContentType :: bytes
  phContentID :: bytes
  phContentDisposition :: bytes
  phCTE :: bytes

datatype treeNode = TreeNode (nodeHeader: partHeader) (nodePart: "nat option") (nodeKids: "treeNode list")

definition containerHeader :: "bytes \<Rightarrow> partHeader" where
  "containerHeader ct = \<lparr>phContentType = ct, phContentID = [], phContentDisposition = [], phCTE = []\<rparr>"

text \<open>\<open>PartHeader.ForEach\<close>: the calls in their order.\<close>

definition forEachHeader :: "partHeader \<Rightarrow> (headerKey \<times> bytes) list" where
  "forEachHeader hdr =
     [(''Content-Disposition'', phContentDisposition hdr),
      (''Content-ID'', phContentID hdr),
      (''Content-Transfer-Encoding'', if phCTE hdr = ''7bit'' then [] else phCTE hdr),
      (''Content-Type'', phContentType hdr)]"

subsection \<open>Boundaries\<close>

definition randBoundary :: "(nat \<Rightarrow> byte) \<Rightarrow> nat \<Rightarrow> bytes \<times> nat" where
  "randBoundary rnd pos = (''.'' @ b64Encode stdAlphabet True (map rnd [pos..<pos + 12]) @ ''.'', pos + 12)"

text \<open>\<open>strconv.Quote\<close> on printable ASCII.\<close>

definition quoteASCII :: "bytes \<Rightarrow> bytes" where
  "quoteASCII v = [DQ] @ concat (map (\<lambda>c. if c = DQ \<or> c = BSL then [BSL, c] else [c]) v) @ [DQ]"

definition specials :: bytes where
  "specials = ''()<>@,;:/[]?='' @ [BSL, DQ]"

definition quoteSpecial :: "bytes \<Rightarrow> bytes" where
  "quoteSpecial v = (if \<exists>c\<in>set v. c \<in> set specials then quoteASCII v else v)"

subsection \<open>The header of a part\<close>

definition isSpaceByte :: "byte \<Rightarrow> bool" where
  "isSpaceByte c \<longleftrightarrow> c = SP \<or> c = TAB \<or> c = LF \<or> c = CR \<or> c = CHR 0x0B \<or> c = CHR 0x0C"

definition trimSpace :: "bytes \<Rightarrow> bytes" where
  "trimSpace s = rev (dropWhile isSpaceByte (rev (dropWhile isSpaceByte s)))"

definition extractMediaType :: "bytes \<Rightarrow> bytes" where
  "extractMediaType v =
     (case IndexByte v (CHR '';'') of
        None \<Rightarrow> v
      | Some i \<Rightarrow> trimSpace (asciiLower (take i v)))"

text \<open>The lines that \<open>bufio.Reader.ReadLine\<close> returns (a line longer than its buffer comes in pieces, which are longer than 120 too).\<close>

fun readLines :: "bytes \<Rightarrow> bytes \<Rightarrow> bytes list" where
  "readLines cur [] = (if cur = [] then [] else [rev cur])"
| "readLines cur (c # cs) =
     (if c = LF then rev (case cur of d # ds \<Rightarrow> if d = CR then ds else cur | [] \<Rightarrow> []) # readLines [] cs
      else readLines (c # cur) cs)"

definition contentIsASCII :: "bytes \<Rightarrow> bool" where
  "contentIsASCII content \<longleftrightarrow> (\<forall>line\<in>set (readLines [] content). \<forall>c\<in>set line. c \<noteq> NUL \<and> bval c < 0x80)"

definition contentIs7Bit :: "bytes \<Rightarrow> bool" where
  "contentIs7Bit content \<longleftrightarrow> contentIsASCII content \<and> (\<forall>line\<in>set (readLines [] content). length line \<le> 120)"

definition transferEncoding :: "bytes \<Rightarrow> bytes \<Rightarrow> bytes" where
  "transferEncoding contentType content =
     (let t = extractMediaType contentType in
      if contentIsASCII content \<or> t = ''text/plain'' \<or> t = ''text/html'' then
        (if contentIs7Bit content then ''7bit'' else ''quoted-printable'')
      else ''base64'')"

definition buildPartHeader :: "part \<Rightarrow> goerr + partHeader" where
  "buildPartHeader p =
     (let ct0 = partContentType p;
          ct1 = (if ct0 = ''text/plain'' \<or> ct0 = ''text/html'' then ct0 @ ''; charset='' @ [DQ] @ ''UTF-8'' @ [DQ] else ct0);
          cd0 = (if partIsAttachment p then ''attachment'' else ''inline'');
          cid = (if partContentID p \<noteq> [] then ''<'' @ partContentID p @ ''>'' else []);
          name = (if partName p = [] then partContentID p else partName p);
          quoted = [DQ] @ name @ [DQ];
          ct2 = (if name \<noteq> [] \<and> ct1 \<noteq> [] then ct1 @ ''; name='' @ quoted else ct1);
          cd1 = (if name \<noteq> [] then cd0 @ ''; filename='' @ quoted else cd0);
          hdr = \<lparr>phContentType = ct2, phContentID = cid, phContentDisposition = cd1, phCTE = partCTE p\<rparr> in
      if DQ \<in> set (partContentID p) then Inl (ErrNew ''part header: Content-ID includes quotes'')
      else if DQ \<in> set name then Inl (ErrNew ''part header: attachment name includes quotes'')
      else if partCTE p \<noteq> [] then Inr hdr
      else case partContent p of
        None \<Rightarrow> Inl (ErrNew ''part header: no content'')
      | Some content \<Rightarrow> Inr (hdr\<lparr>phCTE := transferEncoding ct2 content\<rparr>))"

subsection \<open>The tree\<close>

text \<open>\<open>pullParts\<close>: the indexes of the bodies, the related parts and the attachments, and the parts with their names.\<close>

definition nameParts :: "part list \<Rightarrow> part list" where
  "nameParts ps =
     map (\<lambda>(i, p). if \<not> partIsBody p \<and> partName p = [] then p\<lparr>partName := ''attachment-'' @ fmtNat i\<rparr> else p) (enumerate 0 ps)"

definition pullParts :: "part list \<Rightarrow> (nat list \<times> nat list \<times> nat list) \<times> part list" where
  "pullParts ps =
     (let is = [0..<length ps] in
      ((filter (\<lambda>i. partIsBody (ps ! i)) is,
        filter (\<lambda>i. \<not> partIsBody (ps ! i) \<and> \<not> partIsAttachment (ps ! i)) is,
        filter (\<lambda>i. \<not> partIsBody (ps ! i) \<and> partIsAttachment (ps ! i)) is),
       nameParts ps))"

text \<open>A leaf for each part, in order; the first error ends the loop.\<close>

fun buildLeaves :: "part list \<Rightarrow> nat list \<Rightarrow> goerr + treeNode list" where
  "buildLeaves ps [] = Inr []"
| "buildLeaves ps (i # is) =
     (case buildPartHeader (ps ! i) of
        Inl e \<Rightarrow> Inl e
      | Inr hdr \<Rightarrow>
        (case buildLeaves ps is of
           Inl e \<Rightarrow> Inl e
         | Inr ns \<Rightarrow> Inr (TreeNode hdr (Some i) [] # ns)))"

definition buildTreeRelated :: "(nat \<Rightarrow> byte) \<Rightarrow> part list \<Rightarrow> nat \<Rightarrow> nat list \<Rightarrow> nat \<Rightarrow> (goerr + treeNode) \<times> nat" where
  "buildTreeRelated rnd ps body related pos =
     (case buildPartHeader (ps ! body) of
        Inl e \<Rightarrow> (Inl e, pos)
      | Inr hdr \<Rightarrow>
        (let node = TreeNode hdr (Some body) [] in
         if related = [] then (Inr node, pos)
         else
           (let (boundary, pos1) = randBoundary rnd pos in
            (case buildLeaves ps related of
               Inl e \<Rightarrow> (Inl e, pos1)
             | Inr ns \<Rightarrow>
               (Inr (TreeNode (containerHeader (''multipart/related; boundary='' @ quoteSpecial boundary)) None (node # ns)), pos1)))))"

fun buildAlternatives ::
  "(nat \<Rightarrow> byte) \<Rightarrow> part list \<Rightarrow> nat list \<Rightarrow> bool \<Rightarrow> nat list \<Rightarrow> nat \<Rightarrow> (goerr + treeNode list) \<times> nat" where
  "buildAlternatives rnd ps related seenHTML [] pos = (Inr [], pos)"
| "buildAlternatives rnd ps related seenHTML (b # bs) pos =
     (let html = (partContentType (ps ! b) = ''text/html'' \<and> \<not> seenHTML);
          (r, pos1) = buildTreeRelated rnd ps b (if html then related else []) pos in
      case r of
        Inl e \<Rightarrow> (Inl e, pos1)
      | Inr node \<Rightarrow>
        (case buildAlternatives rnd ps related (seenHTML \<or> html) bs pos1 of
           (Inl e, pos2) \<Rightarrow> (Inl e, pos2)
         | (Inr ns, pos2) \<Rightarrow> (Inr (node # ns), pos2)))"

definition buildTreeBody :: "(nat \<Rightarrow> byte) \<Rightarrow> part list \<Rightarrow> nat list \<Rightarrow> nat list \<Rightarrow> nat \<Rightarrow> (goerr + treeNode) \<times> nat" where
  "buildTreeBody rnd ps bodies related pos =
     (case bodies of
        [] \<Rightarrow> (Inl (ErrNew ''no body''), pos)
      | [b] \<Rightarrow> buildTreeRelated rnd ps b related pos
      | _ \<Rightarrow>
        (let (boundary, pos1) = randBoundary rnd pos in
         case buildAlternatives rnd ps related False bodies pos1 of
           (Inl e, pos2) \<Rightarrow> (Inl e, pos2)
         | (Inr ns, pos2) \<Rightarrow>
           (Inr (TreeNode (containerHeader (''multipart/alternative; boundary='' @ quoteSpecial boundary)) None ns), pos2)))"

definition BuildTree :: "(nat \<Rightarrow> byte) \<Rightarrow> part list \<Rightarrow> (goerr + treeNode) \<times> part list" where
  "BuildTree rnd parts =
     (let ((bodies, related, attachments), ps) = pullParts parts;
          wrap = WrapErr ''msgbuilder.BuildTree: %s: %v'' in
      case buildTreeBody rnd ps bodies related 0 of
        (Inl e, _) \<Rightarrow> (Inl (wrap e), ps)
      | (Inr bodyNode, pos) \<Rightarrow>
        (if attachments = [] then (Inr bodyNode, ps)
         else
           (let (boundary, _) = randBoundary rnd pos in
            case buildLeaves ps attachments of
              Inl e \<Rightarrow> (Inl (wrap e), ps)
            | Inr ns \<Rightarrow>
              (Inr (TreeNode (containerHeader (''multipart/mixed; boundary='' @ quoteSpecial boundary)) None (bodyNode # ns)), ps))))"

subsection \<open>Encoding content\<close>

text \<open>\<open>lineBreakWriter.Write\<close>, with Go's signed integers: the bytes seen on the line so far, and what goes to the underlying writer.\<close>

function lineBreakWrite :: "nat \<Rightarrow> int \<Rightarrow> bytes \<Rightarrow> (int \<times> bytes) go" where
  "lineBreakWrite breakAt seen p =
     (if p = [] \<or> breakAt = 0 then Ok (seen, [])
      else
        (let full = (seen = int breakAt);
             seen1 = (if full then 0 else seen);
             toWrite = (if int (length p) - seen1 > int breakAt then int breakAt - seen1 else int (length p)) in
         if toWrite \<le> 0 then Panic ''slice bounds out of range''
         else case lineBreakWrite breakAt (seen1 + toWrite) (drop (nat toWrite) p) of
           Ok (seen2, out) \<Rightarrow> Ok (seen2, (if full then CRLF else []) @ take (nat toWrite) p @ out)
         | Fail e \<Rightarrow> Fail e
         | Panic x \<Rightarrow> Panic x))"
  by pat_completeness auto
termination
  by (relation "measure (\<lambda>(breakAt, seen, p). length p)") auto

declare lineBreakWrite.simps [simp del]

fun lineBreakWrites :: "nat \<Rightarrow> int \<Rightarrow> bytes list \<Rightarrow> bytes go" where
  "lineBreakWrites breakAt seen [] = Ok []"
| "lineBreakWrites breakAt seen (p # ps) =
     (case lineBreakWrite breakAt seen p of
        Ok (seen1, out) \<Rightarrow>
          (case lineBreakWrites breakAt seen1 ps of
             Ok out1 \<Rightarrow> Ok (out @ out1)
           | Fail e \<Rightarrow> Fail e
           | Panic x \<Rightarrow> Panic x)
      | Fail e \<Rightarrow> Fail e
      | Panic x \<Rightarrow> Panic x)"

text \<open>The writes of \<open>base64.NewEncoder\<close>: at most 1024 characters at a time, and the one or two bytes it keeps back.\<close>

function b64Interior :: "bytes \<Rightarrow> bytes list \<times> bytes" where
  "b64Interior p =
     (if length p < 3 then ([], p)
      else
        (let n = (if length p < 768 then length p - length p mod 3 else 768);
             (ws, rest) = b64Interior (drop n p) in
         (b64Encode stdAlphabet True (take n p) # ws, rest)))"
  by pat_completeness auto
termination
proof (relation "measure length", goal_cases)
  case (2 p x)
  have "length p mod 3 < 3" by simp
  with 2 show ?case by auto
qed simp

definition b64Write :: "bytes \<Rightarrow> bytes \<Rightarrow> bytes list \<times> bytes" where
  "b64Write keep p =
     (if keep = [] then b64Interior p
      else if length keep + length p < 3 then ([], keep @ p)
      else
        (let n = 3 - length keep; (ws, rest) = b64Interior (drop n p) in
         (b64Encode stdAlphabet True (keep @ take n p) # ws, rest)))"

fun b64Writes :: "bytes \<Rightarrow> bytes list \<Rightarrow> bytes list" where
  "b64Writes keep [] = (if keep = [] then [] else [b64Encode stdAlphabet True keep])"
| "b64Writes keep (p # ps) = (let (ws, keep1) = b64Write keep p in ws @ b64Writes keep1 ps)"

text \<open>\<open>EncodeContent\<close> of a content that is read in the given chunks; the quoted-printable writer of the standard library is the argument
  \<open>quotedPrintable\<close>.\<close>

definition EncodeContent :: "(bytes \<Rightarrow> bytes) \<Rightarrow> partHeader \<Rightarrow> bytes list option \<Rightarrow> bytes go" where
  "EncodeContent quotedPrintable hdr content =
     (case content of
        None \<Rightarrow> Fail (ErrNew ''msgbuilder.EncodeContent: part has no content'')
      | Some chunks \<Rightarrow>
        (if phCTE hdr = [] \<or> phCTE hdr = ''7bit'' then Ok (concat chunks)
         else if phCTE hdr = ''quoted-printable'' then Ok (quotedPrintable (concat chunks))
         else if phCTE hdr = ''base64'' then lineBreakWrites 68 0 (b64Writes [] chunks)
         else Fail (ErrNew ''msgbuilder: unknown content-transfer-encoding'')))"

definition lengthWriter :: "bytes \<Rightarrow> int \<times> int" where
  "lengthWriter p = (int (length p), int (length (filter (\<lambda>b. b = LF) p)))"

subsection \<open>Every part has its leaf\<close>

fun leaves :: "treeNode \<Rightarrow> nat list" where
  "leaves (TreeNode h (Some i) ks) = i # concat (map leaves ks)"
| "leaves (TreeNode h None ks) = concat (map leaves ks)"

text \<open>A leaf has a part and no kids, a container has kids and no part.\<close>

fun treeOK :: "treeNode \<Rightarrow> bool" where
  "treeOK (TreeNode h (Some i) ks) \<longleftrightarrow> ks = []"
| "treeOK (TreeNode h None ks) \<longleftrightarrow> ks \<noteq> [] \<and> (\<forall>k\<in>set ks. treeOK k)"

lemma buildLeaves_spec: "buildLeaves ps is = Inr ns \<Longrightarrow> map leaves ns = map (\<lambda>i. [i]) is \<and> (\<forall>n\<in>set ns. treeOK n)"
  by (induction "is" arbitrary: ns) (auto split: sum.splits)

lemma buildTreeRelated_spec:
  "buildTreeRelated rnd ps b related pos = (Inr t, pos') \<Longrightarrow> leaves t = b # related \<and> treeOK t"
  by (auto simp: buildTreeRelated_def Let_def split: sum.splits if_splits prod.splits dest!: buildLeaves_spec)

definition isHTML :: "part list \<Rightarrow> nat \<Rightarrow> bool" where
  "isHTML ps i \<longleftrightarrow> partContentType (ps ! i) = ''text/html''"

lemma buildAlternatives_spec:
  "buildAlternatives rnd ps related seen bs pos = (Inr ns, pos') \<Longrightarrow>
    mset (concat (map leaves ns)) = mset bs + (if \<not> seen \<and> (\<exists>b\<in>set bs. isHTML ps b) then mset related else {#}) \<and>
    length ns = length bs \<and> (\<forall>n\<in>set ns. treeOK n)"
proof (induction bs arbitrary: seen pos ns)
  case Nil
  then show ?case by simp
next
  case (Cons b bs)
  define html where "html = (isHTML ps b \<and> \<not> seen)"
  obtain t pos1 ns1 where t: "buildTreeRelated rnd ps b (if html then related else []) pos = (Inr t, pos1)"
      and a: "buildAlternatives rnd ps related (seen \<or> html) bs pos1 = (Inr ns1, pos')" and ns: "ns = t # ns1"
    using Cons.prems by (auto simp: html_def isHTML_def Let_def split: sum.splits prod.splits)
  show ?case using Cons.IH [OF a] buildTreeRelated_spec [OF t] ns by (auto simp: html_def)
qed

lemma nameParts_fields:
  assumes "i < length ps"
  shows "partIsBody (nameParts ps ! i) = partIsBody (ps ! i)" and "partContentType (nameParts ps ! i) = partContentType (ps ! i)"
    and "length (nameParts ps) = length ps"
  using assms by (auto simp: nameParts_def nth_enumerate_eq)

lemma mset_split3:
  "mset (filter P xs) + mset (filter (\<lambda>i. \<not> P i \<and> \<not> Q i) xs) + mset (filter (\<lambda>i. \<not> P i \<and> Q i) xs) = mset xs"
  by (induction xs) auto

text \<open>C36: When \<open>BuildTree\<close> succeeds, each part of the message is the part of exactly one leaf, except that the related parts are lost
  when there are several bodies and none of them is \<open>text/html\<close>; leaves have no kids and containers have some.\<close>

theorem tree_has_parts:
  assumes "BuildTree rnd ps = (Inr t, ps')"
  defines "bodies \<equiv> filter (\<lambda>i. partIsBody (ps ! i)) [0..<length ps]"
    and "lost \<equiv> filter (\<lambda>i. \<not> partIsBody (ps ! i) \<and> \<not> partIsAttachment (ps ! i)) [0..<length ps]"
  shows "treeOK t \<and> bodies \<noteq> [] \<and>
    mset (leaves t) + (if 2 \<le> length bodies \<and> (\<forall>i\<in>set bodies. \<not> isHTML ps i) then mset lost else {#}) = mset [0..<length ps]"
proof -
  define att where "att = filter (\<lambda>i. \<not> partIsBody (ps ! i) \<and> partIsAttachment (ps ! i)) [0..<length ps]"
  have pp: "pullParts ps = ((bodies, lost, att), nameParts ps)" by (simp add: pullParts_def Let_def bodies_def lost_def att_def)
  obtain b pos where b: "buildTreeBody rnd (nameParts ps) bodies lost 0 = (Inr b, pos)"
    using assms(1) unfolding BuildTree_def pp Let_def prod.case
    by (cases "buildTreeBody rnd (nameParts ps) bodies lost 0"; cases "fst (buildTreeBody rnd (nameParts ps) bodies lost 0)") auto
  have l: "mset (leaves t) = mset (leaves b) + mset att \<and> (treeOK b \<longrightarrow> treeOK t)"
    using assms(1) unfolding BuildTree_def pp Let_def prod.case b
    by (auto split: sum.splits prod.splits if_splits dest!: buildLeaves_spec)
  have ne: "bodies \<noteq> []" using b by (auto simp: buildTreeBody_def)
  have h: "isHTML (nameParts ps) i = isHTML ps i" if "i \<in> set bodies" for i
    using that nameParts_fields [of i ps] by (simp add: isHTML_def bodies_def)
  have bo: "mset (leaves b) + (if 2 \<le> length bodies \<and> (\<forall>i\<in>set bodies. \<not> isHTML ps i) then mset lost else {#}) = mset bodies + mset lost
      \<and> treeOK b"
  proof (cases "2 \<le> length bodies")
    case False
    then obtain x where x: "bodies = [x]" using ne by (cases bodies) (auto simp: Suc_le_eq)
    have "buildTreeRelated rnd (nameParts ps) x lost 0 = (Inr b, pos)" using b by (simp add: buildTreeBody_def x)
    note * = buildTreeRelated_spec [OF this]
    show ?thesis using False * by (simp add: x)
  next
    case True
    then obtain x y zs where x: "bodies = x # y # zs" by (metis Suc_le_length_iff numeral_2_eq_2)
    obtain bd p1 where r: "randBoundary rnd 0 = (bd, p1)" by (metis surj_pair)
    obtain res p2 where a: "buildAlternatives rnd (nameParts ps) lost False bodies p1 = (res, p2)" by (metis surj_pair)
    obtain ns where res: "res = Inr ns" and bt: "nodePart b = None" "nodeKids b = ns"
      using b unfolding buildTreeBody_def x list.case Let_def r prod.case a [unfolded x] by (cases res) auto
    have tb: "leaves b = concat (map leaves ns)" "treeOK b \<longleftrightarrow> ns \<noteq> [] \<and> (\<forall>k\<in>set ns. treeOK k)"
      using bt by (cases b; simp)+
    have "(\<exists>i\<in>set bodies. isHTML (nameParts ps) i) \<longleftrightarrow> (\<exists>i\<in>set bodies. isHTML ps i)" using h by blast
    then show ?thesis using buildAlternatives_spec [OF a [unfolded res]] True ne unfolding tb by auto
  qed
  have "mset bodies + mset lost + mset att = mset [0..<length ps]"
    unfolding bodies_def lost_def att_def by (rule mset_split3)
  then show ?thesis using l bo ne by (metis (no_types, lifting) add.assoc add.commute)
qed

definition plainPart :: "bool \<Rightarrow> part" where
  "plainPart isBody = \<lparr>partName = ''x'', partIsBody = isBody, partIsAttachment = False, partContentType = ''text/plain'', partContentID = [],
     partContent = None, partCTE = ''7bit'', partCTSize = 0, partCTLines = 0\<rparr>"

theorem tree_has_parts_witness:
  "\<exists>t ps'. BuildTree (\<lambda>n. NUL) [plainPart True, plainPart False] = (Inr t, ps') \<and> mset (leaves t) = {#0, 1#}"
proof -
  have "\<exists>t ps'. BuildTree (\<lambda>n. NUL) [plainPart True, plainPart False] = (Inr t, ps')"
    by (simp add: BuildTree_def pullParts_def nameParts_def plainPart_def buildTreeBody_def buildTreeRelated_def buildPartHeader_def
      Let_def randBoundary_def upt_rec enumerate_eq_zip)
  then obtain t ps' where b: "BuildTree (\<lambda>n. NUL) [plainPart True, plainPart False] = (Inr t, ps')" by blast
  have "filter (\<lambda>i. partIsBody ([plainPart True, plainPart False] ! i)) [0..<length [plainPart True, plainPart False]] = [0]"
    by (simp add: plainPart_def upt_rec)
  then have "mset (leaves t) = mset [0..<length [plainPart True, plainPart False]]" using tree_has_parts [OF b] by simp
  then show ?thesis using b by (simp add: upt_rec)
qed

subsection \<open>Line breaks\<close>

definition brokenLines :: "bytes list \<Rightarrow> bytes" where
  "brokenLines ls = (if ls = [] then [] else hd ls @ concat (map (\<lambda>l. CRLF @ l) (tl ls)))"

lemma lineBreakWrite_spec:
  assumes "0 < b" and "seen = 0 \<or> seen = int b"
  shows "\<exists>s ls. lineBreakWrite b seen p = Ok (s, (if seen = int b \<and> p \<noteq> [] then CRLF else []) @ brokenLines ls) \<and>
    concat ls = p \<and> (\<forall>l\<in>set ls. length l \<le> b) \<and> (p \<noteq> [] \<longrightarrow> ls \<noteq> [])"
  using assms
proof (induction b seen p rule: lineBreakWrite.induct)
  case (1 b seen p)
  show ?case
  proof (cases "p = []")
    case True
    then show ?thesis by (intro exI [of _ seen] exI [of _ "[]"]) (subst lineBreakWrite.simps, simp add: brokenLines_def)
  next
    case False
    define n where "n = (if b < length p then b else length p)"
    have n: "0 < n" "n \<le> length p" "n \<le> b" using False "1.prems" by (auto simp: n_def)
    have step: "lineBreakWrite b seen p = (case lineBreakWrite b (int n) (drop n p) of
        Ok (s, out) \<Rightarrow> Ok (s, (if seen = int b then CRLF else []) @ take n p @ out) | Fail e \<Rightarrow> Fail e | Panic x \<Rightarrow> Panic x)"
      using False "1.prems" n by (subst lineBreakWrite.simps) (auto simp: Let_def n_def cong: go.case_cong)
    show ?thesis
    proof (cases "drop n p = []")
      case True
      then have "lineBreakWrite b (int n) (drop n p) = Ok (int n, [])" by (subst lineBreakWrite.simps) simp
      moreover have "take n p = p" using True by simp
      ultimately show ?thesis using step n False True by (intro exI [of _ "int n"] exI [of _ "[p]"]) (auto simp: brokenLines_def)
    next
      case more: False
      then have nb: "n = b" by (auto simp: n_def split: if_splits)
      have "\<not> (p = [] \<or> b = 0)" using False "1.prems" by simp
      then obtain s ls where "lineBreakWrite b (int b) (drop b p) = Ok (s, CRLF @ brokenLines ls)" "concat ls = drop b p"
          "\<forall>l\<in>set ls. length l \<le> b" "ls \<noteq> []"
        using "1.IH" [OF _ refl refl refl] more "1.prems" nb n by (auto simp: n_def split: if_splits)
      then show ?thesis using step False n unfolding nb
        by (intro exI [of _ s] exI [of _ "take b p # ls"]) (cases ls, auto simp: brokenLines_def)
    qed
  qed
qed

text \<open>C38: What arrives in a single write at the start of a line is broken into lines of at most the given length, in order and
  completely.\<close>

theorem line_breaks:
  assumes "0 < b"
  shows "\<exists>s ls. lineBreakWrite b 0 p = Ok (s, brokenLines ls) \<and> concat ls = p \<and> (\<forall>l\<in>set ls. length l \<le> b)"
  using lineBreakWrite_spec [OF assms, of 0 p] assms by auto

theorem line_breaks_witness:
  "\<exists>s ls. lineBreakWrite 68 0 (replicate 200 (CHR ''A'')) = Ok (s, brokenLines ls) \<and> (\<forall>l\<in>set ls. length l \<le> 68)"
  using line_breaks [of 68 "replicate 200 (CHR ''A'')"] by auto

lemma length_b64Encode: "length (b64Encode al True s) = (length s + 2) div 3 * 4"
proof (induction s rule: triples_induct)
  case (More x y z r)
  have "(length r + 2) div 3 + 1 = (length r + 5) div 3" by linarith
  with More show ?case by (simp add: add.commute)
qed simp_all

lemma b64Interior_small:
  assumes "3 dvd length p" and "3 \<le> length p" and "length p < 768"
  shows "b64Interior p = ([b64Encode stdAlphabet True p], [])"
proof -
  have z: "length p - length p mod 3 = length p" using assms(1) by (simp add: dvd_eq_mod_eq_0)
  have "b64Interior [] = ([], [])" by (subst b64Interior.simps) simp
  then show ?thesis using assms(2,3) by (subst b64Interior.simps) (simp add: Let_def z)
qed

lemma lineBreakWrite_short:
  assumes "p \<noteq> []" and "seen \<noteq> int b" and "0 < b" and "int (length p) - seen \<le> int b"
  shows "lineBreakWrite b seen p = Ok (seen + int (length p), p)"
proof -
  have "lineBreakWrite b (seen + int (length p)) [] = Ok (seen + int (length p), [])" by (subst lineBreakWrite.simps) simp
  then show ?thesis using assms by (subst lineBreakWrite.simps) (simp add: Let_def)
qed

text \<open>A write that is not longer than the line length plus what is on the line is not broken (the test subtracts where it should
  add), after which the line never ends and a longer write panics: base64 content read in chunks of 90, 60 and 153 bytes makes
  \<open>EncodeContent\<close> panic with a slice index out of range.\<close>

theorem base64_chunks_panic:
  assumes "phCTE hdr = ''base64''" and "length a = 90" and "length b = 60" and "length c = 153"
  shows "EncodeContent qp hdr (Some [a, b, c]) = Panic ''slice bounds out of range''"
proof -
  let ?e = "b64Encode stdAlphabet True"
  have w: "b64Writes [] [a, b, c] = [?e a, ?e b, ?e c]"
    using b64Interior_small [of a] b64Interior_small [of b] b64Interior_small [of c] assms(2-4) by (simp add: b64Write_def)
  have l: "length (?e a) = 120" "length (?e b) = 80" "length (?e c) = 204" using assms(2-4) by (simp_all add: length_b64Encode)
  have "lineBreakWrite 68 68 (drop 68 (?e a)) = Ok (52, CRLF @ drop 68 (?e a))"
  proof -
    have "lineBreakWrite 68 52 [] = Ok (52, [])" by (subst lineBreakWrite.simps) simp
    moreover have "drop 68 (?e a) \<noteq> []" using l(1) by simp
    ultimately show ?thesis using l(1) by (subst lineBreakWrite.simps) (simp add: Let_def)
  qed
  then have A: "lineBreakWrite 68 0 (?e a) = Ok (52, take 68 (?e a) @ CRLF @ drop 68 (?e a))"
    using l(1) by (subst lineBreakWrite.simps) (auto simp: Let_def)
  have B: "lineBreakWrite 68 52 (?e b) = Ok (132, ?e b)"
    using lineBreakWrite_short [of "?e b" 52 68] l(2) by fastforce
  have C: "lineBreakWrite 68 132 (?e c) = Panic ''slice bounds out of range''"
    using l(3) by (subst lineBreakWrite.simps) (auto simp: Let_def)
  have "EncodeContent qp hdr (Some [a, b, c]) = lineBreakWrites 68 0 (b64Writes [] [a, b, c])"
    using assms(1) by (simp add: EncodeContent_def del: b64Writes.simps)
  then show ?thesis unfolding w by (simp add: A B C)
qed

theorem base64_chunks_panic_witness:
  "EncodeContent id \<lparr>phContentType = [], phContentID = [], phContentDisposition = [], phCTE = ''base64''\<rparr>
    (Some [replicate 90 NUL, replicate 60 NUL, replicate 153 NUL]) = Panic ''slice bounds out of range''"
  using base64_chunks_panic [of "\<lparr>phContentType = [], phContentID = [], phContentDisposition = [], phCTE = ''base64''\<rparr>"
    "replicate 90 NUL" "replicate 60 NUL" "replicate 153 NUL" id] by simp

end
