(* ===== verification/ImapConn.thy ===== *)
theory ImapConn
  imports ImapMailbox MsgTree
begin

text \<open>
  The connections of the IMAP server (\<open>imap/imapserver/imapserver.go\<close>): their state, what they write, and the updates that
  connections of one user send each other.

  The world holds the state of the data store, every connection and, for each user, the connections in \<open>user.conns\<close> (in the order in
  which the loop over the map visits them). A connection's output is the list of bytes written to its \<open>bufio.Writer\<close>; flushing does not
  fail, and what is written after the network connection was closed is lost. A use of a nil \<open>session\<close> or \<open>mailbox\<close> sets the mark
  \<open>wNil\<close>, another run-time panic sets \<open>wCrash\<close>: the deferred function of \<open>serve\<close> panics again, so both end the process.
\<close>

subsection \<open>State\<close>

datatype idleUpdateType = IdleTotalCount | IdleExpunge

record idleUpdate =
  iuType :: idleUpdateType
  iuValue :: u32
  iuSkipSelf :: bool

abbreviation totalCount :: "u32 \<Rightarrow> bool \<Rightarrow> idleUpdate" where
  "totalCount n skip \<equiv> \<lparr>iuType = IdleTotalCount, iuValue = n, iuSkipSelf = skip\<rparr>"

abbreviation expungeUpdate :: "u32 \<Rightarrow> idleUpdate" where
  "expungeUpdate n \<equiv> \<lparr>iuType = IdleExpunge, iuValue = n, iuSkipSelf = True\<rparr>"

record ('u, 'h) conn =
  cUserID :: int
  cSession :: "'u option"
  cMailbox :: "'h option"
  cReadOnly :: bool
  cCondstore :: bool
  cParser :: parser
  cOut :: bytes
  cRespondBuf :: bytes
  cCompressing :: bool
  cIdleStarted :: bool
  cIdling :: bool
  cUpdates :: "idleUpdate list"
  cInIdle :: bool \<comment> \<open>blocked in the read of IDLE\<close>
  cClosed :: bool

record ('s, 'u, 'h) world =
  wStore :: 's
  wConn :: "nat \<Rightarrow> ('u, 'h) conn"
  wConns :: "nat list"
  wUsers :: "int \<Rightarrow> nat list"
  wNil :: bool
  wCrash :: bool

definition updConn :: "nat \<Rightarrow> (('u, 'h) conn \<Rightarrow> ('u, 'h) conn) \<Rightarrow> ('s, 'u, 'h) world \<Rightarrow> ('s, 'u, 'h) world" where
  "updConn c f w = w\<lparr>wConn := (wConn w)(c := f (wConn w c))\<rparr>"

lemma updConn_simps [simp]:
  "wStore (updConn c f w) = wStore w" "wConn (updConn c f w) d = (if d = c then f (wConn w c) else wConn w d)"
  "wConns (updConn c f w) = wConns w" "wUsers (updConn c f w) = wUsers w" "wNil (updConn c f w) = wNil w" "wCrash (updConn c f w) = wCrash w"
  by (simp_all add: updConn_def)

abbreviation setMode :: "Mode \<Rightarrow> ('u, 'h) conn \<Rightarrow> ('u, 'h) conn" where
  "setMode m k \<equiv> k\<lparr>cParser := (cParser k)\<lparr>pMode := m\<rparr>\<rparr>"

abbreviation connMode :: "('u, 'h) conn \<Rightarrow> Mode" where
  "connMode k \<equiv> pMode (cParser k)"

abbreviation connCmd :: "('u, 'h) conn \<Rightarrow> Command" where
  "connCmd k \<equiv> pCommand (cParser k)"

abbreviation cmdOf :: "nat \<Rightarrow> ('s, 'u, 'h) world \<Rightarrow> Command" where
  "cmdOf c w \<equiv> connCmd (wConn w c)"

subsection \<open>The data store\<close>

text \<open>The interfaces \<open>DataStore\<close>, \<open>imap.Session\<close> and \<open>imap.Mailbox\<close>: a session handle \<open>'u\<close>, a mailbox handle
  \<open>'h\<close>. The callbacks of Search, Expunge, Move and Copy are lists of what they are called with.\<close>

datatype loginError = BadCredentials | LoginError bytes

record msgData =
  mdHeaders :: header
  mdFlags :: "bytes list"
  mdDate :: bytes \<comment> \<open>the date in the format of INTERNALDATE\<close>
  mdParts :: "part list"
  mdSize :: int
  mdRandom :: "nat \<Rightarrow> byte"

record ('s, 'u, 'h, 'm) backend =
  beLogin :: "bytes \<Rightarrow> bytes \<Rightarrow> 's \<Rightarrow> (loginError + int \<times> 'u) \<times> 's"
  beMailboxes :: "'u \<Rightarrow> 's \<Rightarrow> bytes + (bytes \<times> nat) list"
  beMailbox :: "'u \<Rightarrow> bytes \<Rightarrow> 's \<Rightarrow> bytes + 'h option"
  beCreate :: "'u \<Rightarrow> bytes \<Rightarrow> nat \<Rightarrow> 's \<Rightarrow> bytes option \<times> 's"
  beDelete :: "'u \<Rightarrow> bytes \<Rightarrow> 's \<Rightarrow> bytes option \<times> 's"
  beRename :: "'u \<Rightarrow> bytes \<Rightarrow> bytes \<Rightarrow> 's \<Rightarrow> bytes option go \<times> 's"
  beRegister :: "'u \<Rightarrow> bytes \<Rightarrow> PushService \<Rightarrow> 's \<Rightarrow> bytes option \<times> 's"
  beCloseSession :: "'u \<Rightarrow> 's \<Rightarrow> 's"
  beID :: "'h \<Rightarrow> int"
  beInfo :: "'h \<Rightarrow> 's \<Rightarrow> bytes + mailboxInfo"
  beAppend :: "'h \<Rightarrow> bytes list \<Rightarrow> bytes \<Rightarrow> bytes \<Rightarrow> 's \<Rightarrow> (bytes + u32) go \<times> 's"
  beSearch :: "'h \<Rightarrow> SearchOp \<Rightarrow> 's \<Rightarrow> bytes + summary list"
  beFetch :: "'h \<Rightarrow> bool \<Rightarrow> SeqRange list \<Rightarrow> int \<Rightarrow> 's \<Rightarrow> bytes option \<times> 'm list"
  beSummary :: "'m \<Rightarrow> summary"
  beMessage :: "'m \<Rightarrow> 's \<Rightarrow> msgData"
  beLoadPart :: "'m \<Rightarrow> nat \<Rightarrow> 's \<Rightarrow> bytes + bytes"
  beSetSeen :: "'m \<Rightarrow> 's \<Rightarrow> bytes option \<times> 's"
  beSeenFlags :: "'m \<Rightarrow> bytes list \<Rightarrow> 's \<Rightarrow> bytes list" \<comment> \<open>of the fetched copy, behind SetSeen\<close>
  beExpunge :: "'h \<Rightarrow> SeqRange list option \<Rightarrow> 's \<Rightarrow> (bytes option \<times> u32 list) \<times> 's"
  beStore :: "'h \<Rightarrow> bool \<Rightarrow> SeqRange list \<Rightarrow> StoreParam \<Rightarrow> 's \<Rightarrow> (bytes + (summary \<times> bytes list) list \<times> SeqRange list) \<times> 's"
  beMove :: "'h \<Rightarrow> bool \<Rightarrow> SeqRange list \<Rightarrow> 'h \<Rightarrow> 's \<Rightarrow> (bytes option \<times> (u32 \<times> u32 \<times> u32) list) \<times> 's"
  beCopy :: "'h \<Rightarrow> bool \<Rightarrow> SeqRange list \<Rightarrow> 'h \<Rightarrow> 's \<Rightarrow> (bytes option \<times> (u32 \<times> u32) list) \<times> 's"
  beHighest :: "'h \<Rightarrow> 's \<Rightarrow> bytes + int"
  beClose :: "'h \<Rightarrow> 's \<Rightarrow> bytes option \<times> 's"

text \<open>What the connection uses of packages outside of the repository, of the server's configuration and of the network: \<open>%v\<close> of an
  error, the check of the date of APPEND by \<open>time.Parse\<close>, \<open>mail.ParseAddressList\<close> (names and addresses), \<open>mime.ParseMediaType\<close>,
  the quoted-printable writer, the chunks in which \<open>io.Copy\<close> reads a content, \<open>path.Clean\<close>, what \<open>flate.NewReader\<close> yields of the rest of the network input, and
  \<open>strconv.IsPrint\<close> on the runes outside of ASCII.\<close>

record env =
  envErrText :: "goerr \<Rightarrow> bytes"
  envDateError :: "bytes \<Rightarrow> bytes option"
  envAddresses :: "bytes \<Rightarrow> (bytes \<times> bytes) list option"
  envMediaType :: "bytes \<Rightarrow> (bytes \<times> (bytes \<times> bytes) list) option"
  envQuotedPrintable :: "bytes \<Rightarrow> bytes"
  envChunks :: "bytes \<Rightarrow> bytes list"
  envPathClean :: "bytes \<Rightarrow> bytes"
  envInflate :: "bytes \<Rightarrow> bytes"
  envIsPrint :: "nat \<Rightarrow> bool"
  envVersion :: bytes
  envAPNS :: "bytes option"
  envMaxConns :: nat

subsection \<open>Output\<close>

definition writeOut :: "bytes \<Rightarrow> ('u, 'h) conn \<Rightarrow> ('u, 'h) conn" where
  "writeOut s k = (if cClosed k then k else k\<lparr>cOut := cOut k @ s\<rparr>)"

definition writef :: "nat \<Rightarrow> bytes \<Rightarrow> ('s, 'u, 'h) world \<Rightarrow> ('s, 'u, 'h) world" where
  "writef c s w = updConn c (writeOut s) w"

definition respondln :: "nat \<Rightarrow> bytes \<Rightarrow> ('s, 'u, 'h) world \<Rightarrow> ('s, 'u, 'h) world" where
  "respondln c msg w =
     updConn c (\<lambda>k. (writeOut (cmdTag (connCmd k) @ [SP] @ msg @ CRLF) k)\<lparr>cRespondBuf := msg\<rparr>) w"

text \<open>The classification of \<open>writeString\<close>.\<close>

datatype strType = StrLiteral | StrQuote | StrAtom

definition atomRune :: "nat \<Rightarrow> bool" where
  "atomRune r \<longleftrightarrow> 65 \<le> r \<and> r \<le> 90 \<or> 97 \<le> r \<and> r \<le> 122 \<or> 48 \<le> r \<and> r \<le> 57 \<or> r = 45 \<or> r = 95 \<or> r = 46"

function strTypeOf :: "strType \<Rightarrow> bytes \<Rightarrow> strType" where
  "strTypeOf t s =
     (if s = [] then t
      else
        (let (r, sz) = decodeRune s in
         if r = RuneError \<or> r = bval CR \<or> r = bval LF then StrLiteral
         else if r = bval DQ then StrLiteral
         else strTypeOf (if atomRune r then t else StrQuote) (drop sz s)))"
  by pat_completeness auto
termination
proof (relation "measure (\<lambda>(t, s). length s)", goal_cases)
  case (2 t s x r sz)
  then have "sz = snd (decodeRune s)" by (metis snd_conv)
  with 2 show ?case using decodeRune_width [of s] by (cases s) auto
qed simp

declare strTypeOf.simps [simp del]

text \<open>\<open>writeString\<close>: what it writes. \<open>AppendEncode\<close> never fails and yields ASCII only.\<close>

definition stringBytes :: "bytes \<Rightarrow> bytes" where
  "stringBytes s =
     (if s = [] then [DQ, DQ]
      else case strTypeOf StrAtom s of
        StrAtom \<Rightarrow> s
      | StrLiteral \<Rightarrow> ''{'' @ fmtNat (length s) @ ''}'' @ CRLF @ AppendEncode [] s
      | StrQuote \<Rightarrow> goQuote (\<lambda>_. False) (AppendEncode [] s))"

definition writeString :: "nat \<Rightarrow> bytes \<Rightarrow> ('s, 'u, 'h) world \<Rightarrow> ('s, 'u, 'h) world" where
  "writeString c s w = writef c (stringBytes s) w"

subsection \<open>Updates\<close>

text \<open>The old EXISTS updates are dropped, all but the last.\<close>

fun dropCounts :: "nat \<Rightarrow> idleUpdate list \<Rightarrow> idleUpdate list" where
  "dropCounts n [] = []"
| "dropCounts n (u # us) =
     (if iuType u = IdleTotalCount \<and> 1 < n then dropCounts (n - 1) us else u # dropCounts n us)"

definition pruneUpdates :: "idleUpdate list \<Rightarrow> idleUpdate list" where
  "pruneUpdates us =
     (let countCount = length (filter (\<lambda>u. iuType u = IdleTotalCount) us) in
      if 1 < countCount then dropCounts countCount us else us)"

definition updateText :: "idleUpdate \<Rightarrow> bytes" where
  "updateText u =
     (case iuType u of
        IdleExpunge \<Rightarrow> ''* '' @ fmtNat (unat (iuValue u)) @ '' EXPUNGE'' @ CRLF
      | IdleTotalCount \<Rightarrow> ''* '' @ fmtNat (unat (iuValue u)) @ '' EXISTS'' @ CRLF)"

definition writeUpdates :: "('u, 'h) conn \<Rightarrow> ('u, 'h) conn" where
  "writeUpdates k = (writeOut (concat (map updateText (pruneUpdates (cUpdates k)))) k)\<lparr>cUpdates := []\<rparr>"

definition watches :: "('s, 'u, 'h, 'm) backend \<Rightarrow> int \<Rightarrow> ('u, 'h) conn \<Rightarrow> bool" where
  "watches be mailboxID k \<longleftrightarrow> (case cMailbox k of None \<Rightarrow> False | Some h \<Rightarrow> beID be h = mailboxID \<and> cIdleStarted k)"

definition receiveUpdate :: "idleUpdate \<Rightarrow> ('u, 'h) conn \<Rightarrow> ('u, 'h) conn" where
  "receiveUpdate u k = k\<lparr>cUpdates := cUpdates k @ [u]\<rparr>"

definition sendTo :: "('s, 'u, 'h, 'm) backend \<Rightarrow> nat \<Rightarrow> int \<Rightarrow> idleUpdate \<Rightarrow> nat \<Rightarrow> ('s, 'u, 'h) world \<Rightarrow> ('s, 'u, 'h) world" where
  "sendTo be src mailboxID u d w =
     updConn d (\<lambda>k.
       if d = src then (if \<not> iuSkipSelf u \<and> watches be mailboxID k then receiveUpdate u k else k)
       else if watches be mailboxID k then
         (let k1 = receiveUpdate u k in if cIdling k1 then writeUpdates k1 else k1)
       else k) w"

definition sendIdleUpdate :: "('s, 'u, 'h, 'm) backend \<Rightarrow> nat \<Rightarrow> int \<Rightarrow> idleUpdate \<Rightarrow> ('s, 'u, 'h) world \<Rightarrow> ('s, 'u, 'h) world" where
  "sendIdleUpdate be src mailboxID u w = fold (sendTo be src mailboxID u) (wUsers w (cUserID (wConn w src))) w"

text \<open>\<open>notifier.Notify\<close>: the loop ends if the mailbox gives no information; the information is asked for once.\<close>

fun notifyLoop :: "('s, 'u, 'h, 'm) backend \<Rightarrow> int \<Rightarrow> idleUpdate option \<Rightarrow> nat list \<Rightarrow> ('s, 'u, 'h) world \<Rightarrow> ('s, 'u, 'h) world" where
  "notifyLoop be mailboxID upd [] w = w"
| "notifyLoop be mailboxID upd (d # ds) w =
     (if \<not> watches be mailboxID (wConn w d) then notifyLoop be mailboxID upd ds w
      else
        (let upd' = (case upd of
             Some u \<Rightarrow> Some u
           | None \<Rightarrow> (case beInfo be (the (cMailbox (wConn w d))) (wStore w) of
               Inl e \<Rightarrow> None
             | Inr info \<Rightarrow> Some (totalCount (numMessages info) False))) in
         case upd' of
           None \<Rightarrow> w
         | Some u \<Rightarrow>
           notifyLoop be mailboxID (Some u) ds
             (updConn d (\<lambda>k. let k1 = receiveUpdate u k in if cIdling k1 then writeUpdates k1 else k1) w)))"

definition Notify :: "('s, 'u, 'h, 'm) backend \<Rightarrow> int \<Rightarrow> int \<Rightarrow> ('s, 'u, 'h) world \<Rightarrow> ('s, 'u, 'h) world" where
  "Notify be userID mailboxID w = notifyLoop be mailboxID None (wUsers w userID) w"

subsection \<open>Closing\<close>

definition closeMailbox :: "('s, 'u, 'h, 'm) backend \<Rightarrow> nat \<Rightarrow> ('s, 'u, 'h) world \<Rightarrow> ('s, 'u, 'h) world" where
  "closeMailbox be c w =
     (case cMailbox (wConn w c) of
        None \<Rightarrow> w
      | Some h \<Rightarrow>
        (let (err, s) = beClose be h (wStore w); w1 = w\<lparr>wStore := s\<rparr>;
             w2 = (case err of None \<Rightarrow> w1 | Some e \<Rightarrow> writef c (''* BAD CLOSE server error: '' @ e @ CRLF) w1) in
         updConn c (\<lambda>k. setMode ModeAuth (k\<lparr>cReadOnly := False, cMailbox := None, cUpdates := [], cIdling := False, cIdleStarted := False\<rparr>)) w2))"

definition closeConn :: "('s, 'u, 'h, 'm) backend \<Rightarrow> nat \<Rightarrow> ('s, 'u, 'h) world \<Rightarrow> ('s, 'u, 'h) world" where
  "closeConn be c w = updConn c (\<lambda>k. k\<lparr>cClosed := True\<rparr>) (closeMailbox be c w)"

end
