(* ===== verification/ImapFetch.thy ===== *)
theory ImapFetch
  imports ImapConn
begin

text \<open>
  FETCH (\<open>imap/imapserver/fetch.go\<close>) with the parts of \<open>email/msgbuilder/msgbuilder.go\<close> that it calls: what each item writes,
  and the \<open>\Seen\<close> flag that reading a body sets.

  The callback of \<open>Mailbox.Fetch\<close> works on a copy of the message (\<open>msgData\<close>), which building the MIME form changes (names of parts,
  rewritten headers, loaded contents); the copy is threaded through the items of the message. An item whose data cannot be produced is
  logged and writes nothing.
\<close>

subsection \<open>Writing a message\<close>

definition boundaryChar :: "byte \<Rightarrow> bool" where
  "boundaryChar b \<longleftrightarrow> 65 \<le> bval b \<and> bval b \<le> 90 \<or> 97 \<le> bval b \<and> bval b \<le> 122 \<or> 48 \<le> bval b \<and> bval b \<le> 57 \<or>
     b \<in> set ('' ()+_,-./:=?'' @ [CHR 0x27])"

text \<open>\<open>multipart.Writer.SetBoundary\<close>.\<close>

definition validBoundary :: "bytes \<Rightarrow> bool" where
  "validBoundary b \<longleftrightarrow> b \<noteq> [] \<and> length b \<le> 70 \<and> (\<forall>c\<in>set b. boundaryChar c) \<and> last b \<noteq> SP"

text \<open>\<open>multipart.Writer.CreatePart\<close> with the header of a node; \<open>textproto\<close> writes \<open>Content-Id\<close>, and the keys come sorted.\<close>

definition partPreamble :: "bytes \<Rightarrow> bool \<Rightarrow> partHeader \<Rightarrow> bytes" where
  "partPreamble boundary first hdr =
     (if first then [] else CRLF) @ ''--'' @ boundary @ CRLF @
     concat (map (\<lambda>(k, v). if v = [] then [] else (if k = ''Content-ID'' then ''Content-Id'' else k) @ '': '' @ v @ CRLF) (forEachHeader hdr)) @
     CRLF"

definition goBind :: "'a go \<Rightarrow> ('a \<Rightarrow> 'b go) \<Rightarrow> 'b go" where
  "goBind r f = (case r of Ok x \<Rightarrow> f x | Fail e \<Rightarrow> Fail e | Panic p \<Rightarrow> Panic p)"

lemma goBind_cong [fundef_cong]: "r = r' \<Longrightarrow> (\<And>x. r' = Ok x \<Longrightarrow> f x = g x) \<Longrightarrow> goBind r f = goBind r' g"
  by (simp add: goBind_def split: go.split)

text \<open>\<open>WriteNode\<close>.\<close>

fun WriteNode :: "env \<Rightarrow> part list \<Rightarrow> treeNode \<Rightarrow> bytes go"
  and writeKids :: "env \<Rightarrow> part list \<Rightarrow> bytes \<Rightarrow> bool \<Rightarrow> treeNode list \<Rightarrow> bytes go" where
  "WriteNode v ps (TreeNode hdr (Some i) ks) =
     EncodeContent (envQuotedPrintable v) hdr (map_option (envChunks v) (partContent (ps ! i)))"
| "WriteNode v ps (TreeNode hdr None ks) =
     (case envMediaType v (phContentType hdr) of
        None \<Rightarrow> Fail (ErrNew ''mime: no media type'')
      | Some (_, params) \<Rightarrow>
        (let boundary = (case map_of params ''boundary'' of None \<Rightarrow> [] | Some b \<Rightarrow> b) in
         if \<not> validBoundary boundary then Panic ''mime: invalid boundary''
         else goBind (writeKids v ps boundary True ks) (\<lambda>out. Ok (out @ CRLF @ ''--'' @ boundary @ ''--'' @ CRLF))))"
| "writeKids v ps boundary first [] = Ok []"
| "writeKids v ps boundary first (k # ks) =
     goBind (WriteNode v ps k) (\<lambda>a.
     goBind (writeKids v ps boundary False ks) (\<lambda>b. Ok (partPreamble boundary first (nodeHeader k) @ a @ b)))"

text \<open>The headers that \<open>Builder.write\<close> rewrites.\<close>

definition rewriteHeaders :: "partHeader \<Rightarrow> header \<Rightarrow> header" where
  "rewriteHeaders hdr h =
     fold (\<lambda>(k, val) h. let h1 = hDel k h in if val \<noteq> [] then hAdd k val h1 else h1) (forEachHeader hdr)
       (hAdd ''MIME-Version'' ''1.0'' (hDel ''MIME-Version'' h))"

text \<open>\<open>Builder.Build\<close> without a DKIM signer, as FETCH calls it: the bytes, and the message it leaves.\<close>

definition Build :: "env \<Rightarrow> msgData \<Rightarrow> bytes go \<times> msgData" where
  "Build v md =
     (let (t, ps) = BuildTree (mdRandom md) (mdParts md); md1 = md\<lparr>mdParts := ps\<rparr> in
      case t of
        Inl e \<Rightarrow> (Fail (WrapErr ''msgbuilder.Build: %v'' e), md1)
      | Inr root \<Rightarrow>
        (case WriteNode v ps root of
           Ok body \<Rightarrow>
             (let h = rewriteHeaders (nodeHeader root) (mdHeaders md1) in
              (goBind (hEncode h) (\<lambda>(n, head). Ok (head @ body)), md1\<lparr>mdHeaders := h\<rparr>))
         | Fail e \<Rightarrow> (Fail (WrapErr ''msgbuilder.Build: %v'' e), md1)
         | Panic p \<Rightarrow> (Panic p, md1)))"

subsection \<open>The section of a body\<close>

text \<open>\<open>findPath\<close>: the path elements are \<open>uint16\<close>, so 0 asks for the kid with index 65535.\<close>

fun walkPath :: "treeNode \<Rightarrow> u16 list \<Rightarrow> treeNode option go" where
  "walkPath node [] = Ok (Some node)"
| "walkPath node (p # ps) =
     (if int (length (nodeKids node)) \<le> int (unat p) - 1 then Ok None
      else if length (nodeKids node) \<le> unat (p - 1) then Panic ''index out of range''
      else walkPath (nodeKids node ! unat (p - 1)) ps)"

definition findPath :: "treeNode \<Rightarrow> u16 list \<Rightarrow> treeNode option go" where
  "findPath node path = (if path = [1] \<and> nodeKids node = [] then Ok (Some node) else walkPath node path)"

text \<open>\<open>loadParts\<close>: the leaves in order; the first error ends it.\<close>

fun loadLeaves :: "('s, 'u, 'h, 'm) backend \<Rightarrow> 'm \<Rightarrow> 's \<Rightarrow> nat list \<Rightarrow> part list \<Rightarrow> bool \<times> part list" where
  "loadLeaves be m s [] ps = (True, ps)"
| "loadLeaves be m s (i # is) ps =
     (if partContent (ps ! i) \<noteq> None then loadLeaves be m s is ps
      else case beLoadPart be m i s of
        Inl e \<Rightarrow> (False, ps)
      | Inr content \<Rightarrow> loadLeaves be m s is (ps[i := (ps ! i)\<lparr>partContent := Some content\<rparr>]))"

definition headersOf :: "partHeader \<Rightarrow> header" where
  "headersOf hdr = fold (\<lambda>(k, val) h. if val \<noteq> [] then hAdd k val h else h) (forEachHeader hdr) emptyHeader"

definition fieldsNot :: "bytes list \<Rightarrow> header \<Rightarrow> header" where
  "fieldsNot names h =
     (let notKeys = map (\<lambda>n. fst (CanonicalKey n)) names in
      fold (\<lambda>e h. if fst e \<in> set notKeys then h else hAdd (fst e) (snd e) h) (hEntries h) emptyHeader)"

definition fieldsOnly :: "bytes list \<Rightarrow> header \<Rightarrow> header" where
  "fieldsOnly names h =
     fold (\<lambda>n out. let k = fst (CanonicalKey n); val = fst (hGet k h) in if val \<noteq> [] then hAdd k val out else out) names emptyHeader"

text \<open>The buffer that \<open>writeBody\<close> fills, by the section's name; \<open>Fail\<close> is an error that is logged.\<close>

definition errSection :: goerr where "errSection = ErrNew ''FETCH BODY''"

definition encodeHeader :: "header \<Rightarrow> bytes go" where
  "encodeHeader h = goBind (hEncode h) (\<lambda>(n, out). Ok out)"

definition bodyBuffer ::
  "env \<Rightarrow> ('s, 'u, 'h, 'm) backend \<Rightarrow> 'm \<Rightarrow> 's \<Rightarrow> FetchItemSection \<Rightarrow> treeNode \<Rightarrow> msgData \<Rightarrow> bytes go \<times> msgData" where
  "bodyBuffer v be m s sec node md =
     (let name = secName sec; hasPath = (secPath sec \<noteq> []) in
      if name = [] then
        (if hasPath then
           (case nodePart node of
              None \<Rightarrow> (Fail errSection, md)
            | Some i \<Rightarrow>
              (case beLoadPart be m i s of
                 Inl e \<Rightarrow> (Fail errSection, md)
               | Inr content \<Rightarrow>
                 (let ps = (mdParts md)[i := (mdParts md ! i)\<lparr>partContent := Some content\<rparr>] in
                  (EncodeContent (envQuotedPrintable v) (nodeHeader node) (Some (envChunks v content)), md\<lparr>mdParts := ps\<rparr>))))
         else
           (let (ok, ps) = loadLeaves be m s (leaves node) (mdParts md); md1 = md\<lparr>mdParts := ps\<rparr> in
            if ok then Build v md1 else (Fail errSection, md1)))
      else if name = ''HEADER'' \<or> name = ''MIME'' then
        (encodeHeader (if hasPath then headersOf (nodeHeader node) else mdHeaders md), md)
      else if name = ''HEADER.FIELDS.NOT'' then
        (if hasPath then (Fail errSection, md) else (encodeHeader (fieldsNot (secHeaders sec) (mdHeaders md)), md))
      else if name = ''HEADER.FIELDS'' then
        (if hasPath then (Fail errSection, md) else (encodeHeader (fieldsOnly (secHeaders sec) (mdHeaders md)), md))
      else if name = ''TEXT'' then
        (let (ok, ps) = loadLeaves be m s (leaves node) (mdParts md); md1 = md\<lparr>mdParts := ps\<rparr> in
         if ok then (WriteNode v ps node, md1) else (Fail errSection, md1))
      else (Fail errSection, md))"

text \<open>What is written in front of the literal.\<close>

definition sectionText :: "FetchItemSection \<Rightarrow> bytes" where
  "sectionText sec =
     ''BODY['' @ joinWith ''.'' (map (\<lambda>n. fmtNat (unat n)) (secPath sec)) @
     (if secName sec \<noteq> [] then (if secPath sec \<noteq> [] then ''.'' else []) @ secName sec else []) @
     (if secName sec = ''HEADER.FIELDS'' \<or> secName sec = ''HEADER.FIELDS.NOT'' then
        '' ('' @ joinWith '' '' (map (\<lambda>n. stringBytes (fst (CanonicalKey n))) (secHeaders sec)) @ '')'' else []) @
     '']''"

definition literalBytes :: "bytes \<Rightarrow> bytes" where
  "literalBytes b = ''{'' @ fmtNat (length b) @ ''}'' @ CRLF @ b"

text \<open>The partial range: the origin is cut to the size, the length to what is left.\<close>

definition partialText :: "FetchItem \<Rightarrow> bytes \<Rightarrow> bytes" where
  "partialText item b =
     (if partialStart item \<noteq> 0 \<or> partialLength item \<noteq> 0 then
        (let start = min (unat (partialStart item)) (length b); l = min (unat (partialLength item)) (length b - start) in
         ''<'' @ fmtNat start @ ''> '' @ literalBytes (take l (drop start b)))
      else '' '' @ literalBytes b)"

definition markCrash :: "('s, 'u, 'h) world \<Rightarrow> ('s, 'u, 'h) world" where
  "markCrash w = w\<lparr>wCrash := True\<rparr>"

definition writeBody ::
  "env \<Rightarrow> ('s, 'u, 'h, 'm) backend \<Rightarrow> nat \<Rightarrow> 'm \<Rightarrow> FetchItem \<Rightarrow> msgData \<Rightarrow> ('s, 'u, 'h) world \<Rightarrow> msgData \<times> ('s, 'u, 'h) world" where
  "writeBody v be c m item md w =
     (let (t, ps) = BuildTree (mdRandom md) (mdParts md); md1 = md\<lparr>mdParts := ps\<rparr>; sec = itemSection item in
      case t of
        Inl e \<Rightarrow> (md1, w)
      | Inr root \<Rightarrow>
        (case (if secPath sec \<noteq> [] then findPath root (secPath sec) else Ok (Some root)) of
           Panic p \<Rightarrow> (md1, markCrash w)
         | Fail e \<Rightarrow> (md1, w)
         | Ok None \<Rightarrow> (md1, w)
         | Ok (Some node) \<Rightarrow>
           (let (r, md2) = bodyBuffer v be m (wStore w) sec node md1 in
            case r of
              Panic p \<Rightarrow> (md2, markCrash w)
            | Fail e \<Rightarrow> (md2, w)
            | Ok buffer \<Rightarrow>
              (let (md3, w1) =
                 (if \<not> itemPeek item \<and> \<not> hasFlag (mdFlags md2) flagSeen then
                    (let (err, s) = beSetSeen be m (wStore w) in
                     (md2\<lparr>mdFlags := beSeenFlags be m (mdFlags md2) s\<rparr>, w\<lparr>wStore := s\<rparr>))
                  else (md2, w)) in
               (md3, writef c (sectionText sec @ partialText item buffer) w1)))))"

subsection \<open>The other items\<close>

definition addressText :: "bytes \<times> bytes \<Rightarrow> bytes" where
  "addressText a =
     (let addr = snd a; n = length (takeWhile (\<lambda>b. b \<noteq> CHR ''@'') (rev addr)) in
      if n = length addr then []
      else
        ''('' @ (if fst a = [] then ''NIL'' else stringBytes (fst a)) @ '' NIL '' @
        stringBytes (take (length addr - n - 1) addr) @ '' '' @ stringBytes (drop (length addr - n) addr) @ '')'')"

definition addressesText :: "env \<Rightarrow> bytes \<Rightarrow> bytes" where
  "addressesText v b = (case envAddresses v b of None \<Rightarrow> ''NIL'' | Some addrs \<Rightarrow> concat (map addressText addrs))"

definition envelopeText :: "env \<Rightarrow> header \<Rightarrow> bytes" where
  "envelopeText v h =
     (let str = (\<lambda>k. stringBytes (fst (hGet k h))); addr = (\<lambda>k. addressesText v (fst (hGet k h))) in
      ''ENVELOPE ('' @ joinWith '' ''
        [str ''Date'', str ''Subject'', addr ''From'', addr ''Sender'', addr ''Reply-To'', addr ''To'', addr ''CC'', addr ''BCC'',
         str ''In-Reply-To'', str ''Message-ID''] @ '')'')"

definition flagText :: "bytes \<Rightarrow> bytes" where
  "flagText f = (if f \<noteq> [] \<and> hd f = BSL then f else stringBytes f)"

text \<open>\<open>writeBodyStructurePart\<close>. A node whose content type does not parse writes nothing.\<close>

definition upperASCII :: "bytes \<Rightarrow> bytes" where
  "upperASCII = asciiUpper"

fun bodyStructure :: "env \<Rightarrow> part list \<Rightarrow> treeNode \<Rightarrow> bytes"
  and kidsStructure :: "env \<Rightarrow> part list \<Rightarrow> bool \<Rightarrow> treeNode list \<Rightarrow> bytes" where
  "bodyStructure v ps (TreeNode hdr p ks) =
     (case envMediaType v (phContentType hdr) of
        None \<Rightarrow> []
      | Some (mt, params) \<Rightarrow>
        (case IndexByte mt (CHR ''/'') of
           None \<Rightarrow> []
         | Some i \<Rightarrow>
           (let bodyType = take i mt; bodySubtype = drop (i + 1) mt; param = (\<lambda>k. case map_of params k of None \<Rightarrow> [] | Some x \<Rightarrow> x) in
            if ks \<noteq> [] then
              kidsStructure v ps True ks @ '' '' @ stringBytes (upperASCII bodySubtype) @ '' (boundary '' @ stringBytes (param ''boundary'') @
              '')'' @ (if phContentDisposition hdr = [] then '' NIL'' else '' ()'') @ '' NIL NIL''
            else
              stringBytes bodyType @ '' '' @ stringBytes bodySubtype @ '' ('' @
              joinWith '' '' (map (\<lambda>k. stringBytes k @ '' '' @ stringBytes (param k)) (sort (map fst params))) @ '')'' @
              (if phContentID hdr = [] then '' NIL'' else '' '' @ stringBytes (phContentID hdr)) @ '' NIL '' @
              (if phCTE hdr = ''7bit'' then ''NIL'' else stringBytes (phCTE hdr)) @
              (case p of None \<Rightarrow> [] | Some i \<Rightarrow>
                 '' '' @ fmtInt (partCTSize (ps ! i)) @ (if bodyType = ''text'' then '' '' @ fmtInt (partCTLines (ps ! i)) else [])))))"
| "kidsStructure v ps first [] = []"
| "kidsStructure v ps first (k # ks) =
     (if first then ''('' else '' ('') @ bodyStructure v ps k @ '')'' @ kidsStructure v ps False ks"

text \<open>The items that write and change nothing else.\<close>

definition plainItem :: "env \<Rightarrow> summary \<Rightarrow> FetchItemType \<Rightarrow> msgData \<Rightarrow> bytes" where
  "plainItem v sm t md =
     (case t of
        FetchEnvelope \<Rightarrow> envelopeText v (mdHeaders md)
      | FetchFlags \<Rightarrow> ''FLAGS ('' @ joinWith '' '' (map flagText (mdFlags md)) @ '')''
      | FetchInternalDate \<Rightarrow> ''INTERNALDATE '' @ stringBytes (mdDate md)
      | FetchRFC822Size \<Rightarrow> ''RFC822.SIZE '' @ fmtInt (mdSize md)
      | FetchUID \<Rightarrow> ''UID '' @ fmtNat (unat (sumUID sm))
      | FetchModSeq \<Rightarrow> ''MODSEQ ('' @ fmtInt (sumModSeq sm) @ '')''
      | _ \<Rightarrow> [])"

definition bodyItem :: "bytes \<Rightarrow> FetchItem" where
  "bodyItem name = emptyItem\<lparr>itemType := FetchBody, itemSection := \<lparr>secPath = [], secName = name, secHeaders = []\<rparr>\<rparr>"

text \<open>One item that is no macro.\<close>

definition writeItem1 ::
  "env \<Rightarrow> ('s, 'u, 'h, 'm) backend \<Rightarrow> nat \<Rightarrow> 'm \<Rightarrow> FetchItem \<Rightarrow> msgData \<Rightarrow> ('s, 'u, 'h) world \<Rightarrow> msgData \<times> ('s, 'u, 'h) world" where
  "writeItem1 v be c m item md w =
     (case itemType item of
        FetchBody \<Rightarrow> writeBody v be c m item md w
      | FetchRFC822Header \<Rightarrow> writeBody v be c m (bodyItem ''HEADER'') md w
      | FetchRFC822Text \<Rightarrow> writeBody v be c m (bodyItem ''TEXT'') md w
      | FetchBodyStructure \<Rightarrow>
        (let (t, ps) = BuildTree (mdRandom md) (mdParts md); md1 = md\<lparr>mdParts := ps\<rparr> in
         case t of
           Inl e \<Rightarrow> (md1, w)
         | Inr root \<Rightarrow> (md1, writef c (''BODYSTRUCTURE ('' @ bodyStructure v ps root @ '')'') w))
      | FetchFlags \<Rightarrow>
        (if [] \<in> set (mdFlags md) then (md, markCrash w) else (md, writef c (plainItem v (beSummary be m) FetchFlags md) w))
      | FetchNone \<Rightarrow> (md, markCrash w)
      | FetchUnknown \<Rightarrow> (md, markCrash w)
      | t \<Rightarrow> (md, writef c (plainItem v (beSummary be m) t md) w))"

definition itemOfType :: "FetchItemType \<Rightarrow> FetchItem" where
  "itemOfType t = emptyItem\<lparr>itemType := t\<rparr>"

definition macroItems :: "FetchItemType \<Rightarrow> FetchItem list option" where
  "macroItems t =
     (case t of
        FetchAll \<Rightarrow> Some (map itemOfType [FetchFlags, FetchInternalDate, FetchRFC822Size, FetchEnvelope])
      | FetchFull \<Rightarrow> Some (map itemOfType [FetchFlags, FetchInternalDate, FetchRFC822Size, FetchEnvelope, FetchBody])
      | FetchFast \<Rightarrow> Some (map itemOfType [FetchFlags, FetchInternalDate, FetchRFC822Size])
      | _ \<Rightarrow> None)"

fun writeItems ::
  "('a \<Rightarrow> msgData \<Rightarrow> ('s, 'u, 'h) world \<Rightarrow> msgData \<times> ('s, 'u, 'h) world) \<Rightarrow> nat \<Rightarrow> bool \<Rightarrow> 'a list \<Rightarrow> msgData \<Rightarrow>
    ('s, 'u, 'h) world \<Rightarrow> msgData \<times> ('s, 'u, 'h) world" where
  "writeItems f c first [] md w = (md, w)"
| "writeItems f c first (i # is) md w =
     (let (md1, w1) = f i md (if first then w else writef c '' '' w) in writeItems f c False is md1 w1)"

definition writeItem ::
  "env \<Rightarrow> ('s, 'u, 'h, 'm) backend \<Rightarrow> nat \<Rightarrow> 'm \<Rightarrow> FetchItem \<Rightarrow> msgData \<Rightarrow> ('s, 'u, 'h) world \<Rightarrow> msgData \<times> ('s, 'u, 'h) world" where
  "writeItem v be c m item md w =
     (case macroItems (itemType item) of
        Some is \<Rightarrow> writeItems (writeItem1 v be c m) c True is md w
      | None \<Rightarrow> writeItem1 v be c m item md w)"

subsection \<open>The command\<close>

definition setCondStore :: "('s, 'u, 'h, 'm) backend \<Rightarrow> nat \<Rightarrow> ('s, 'u, 'h) world \<Rightarrow> ('s, 'u, 'h) world" where
  "setCondStore be c w =
     (if cCondstore (wConn w c) then w
      else
        (let w1 = updConn c (\<lambda>k. k\<lparr>cCondstore := True\<rparr>) w in
         case cMailbox (wConn w c) of
           None \<Rightarrow> w1\<lparr>wNil := True\<rparr>
         | Some h \<Rightarrow>
           (case beHighest be h (wStore w1) of
              Inl e \<Rightarrow> w1
            | Inr modSeq \<Rightarrow> writef c (''* OK [HIGHESTMODSEQ '' @ fmtInt modSeq @ '']'' @ CRLF) w1)))"

text \<open>Bodies go last.\<close>

definition sortItems :: "FetchItem list \<Rightarrow> FetchItem list" where
  "sortItems items = filter (\<lambda>i. itemType i \<noteq> FetchBody) items @ filter (\<lambda>i. itemType i = FetchBody) items"

definition fetchMessage ::
  "env \<Rightarrow> ('s, 'u, 'h, 'm) backend \<Rightarrow> nat \<Rightarrow> FetchItem list \<Rightarrow> 'm \<Rightarrow> ('s, 'u, 'h) world \<Rightarrow> ('s, 'u, 'h) world" where
  "fetchMessage v be c items m w =
     (let w1 = writef c (''* '' @ fmtNat (unat (sumSeq (beSummary be m))) @ '' FETCH ('') w;
          (_, w2) = writeItems (writeItem v be c m) c True items (beMessage be m (wStore w1)) w1 in
      writef c ('')'' @ CRLF) w2)"

definition cmdFetch :: "env \<Rightarrow> ('s, 'u, 'h, 'm) backend \<Rightarrow> nat \<Rightarrow> ('s, 'u, 'h) world \<Rightarrow> ('s, 'u, 'h) world" where
  "cmdFetch v be c w =
     (let cmd = cmdOf c w;
          w1 = (if \<exists>i\<in>set (cmdFetchItems cmd). itemType i = FetchModSeq then setCondStore be c w else w);
          items = sortItems (cmdFetchItems cmd);
          changedSince = (if cmdChangedSince cmd = 0 then - 1 else cmdChangedSince cmd) in
      case cMailbox (wConn w1 c) of
        None \<Rightarrow> w1\<lparr>wNil := True\<rparr>
      | Some h \<Rightarrow>
        (let (err, ms) = beFetch be h (cmdUID cmd) (cmdSequences cmd) changedSince (wStore w1);
             w2 = fold (fetchMessage v be c items) ms w1 in
         case err of
           Some e \<Rightarrow> respondln c (''BAD FETCH error: '' @ e) w2
         | None \<Rightarrow> respondln c (if cmdUID cmd then ''OK UID FETCH completed'' else ''OK FETCH completed'') w2))"

end
