(* ===== verification/ImapServer.thy ===== *)
theory ImapServer
  imports ImapFetch
begin

text \<open>
  The commands of the IMAP server (\<open>imap/imapserver/imapserver.go\<close>): one definition per handler, \<open>serveCmd\<close> and
  \<open>serveParseCmd\<close>, and the steps of the server with several connections.

  A handler runs with the lock of its own connection held throughout, so it is one step; the locks themselves are
  not modelled. IDLE gives its lock up while it waits for a line, so it is two steps.
\<close>

definition withSession :: "nat \<Rightarrow> ('u \<Rightarrow> ('s, 'u, 'h) world \<Rightarrow> ('s, 'u, 'h) world) \<Rightarrow> ('s, 'u, 'h) world \<Rightarrow> ('s, 'u, 'h) world" where
  "withSession c f w = (case cSession (wConn w c) of None \<Rightarrow> w\<lparr>wNil := True\<rparr> | Some u \<Rightarrow> f u w)"

definition withMailbox :: "nat \<Rightarrow> ('h \<Rightarrow> ('s, 'u, 'h) world \<Rightarrow> ('s, 'u, 'h) world) \<Rightarrow> ('s, 'u, 'h) world \<Rightarrow> ('s, 'u, 'h) world" where
  "withMailbox c f w = (case cMailbox (wConn w c) of None \<Rightarrow> w\<lparr>wNil := True\<rparr> | Some h \<Rightarrow> f h w)"

abbreviation sendAll :: "('s, 'u, 'h, 'm) backend \<Rightarrow> nat \<Rightarrow> int \<Rightarrow> idleUpdate list \<Rightarrow> ('s, 'u, 'h) world \<Rightarrow> ('s, 'u, 'h) world" where
  "sendAll be c mailboxID us w \<equiv> fold (sendIdleUpdate be c mailboxID) us w"

text \<open>The number of messages is sent if the mailbox tells it.\<close>

definition sendCount :: "('s, 'u, 'h, 'm) backend \<Rightarrow> nat \<Rightarrow> 'h \<Rightarrow> bool \<Rightarrow> ('s, 'u, 'h) world \<Rightarrow> ('s, 'u, 'h) world" where
  "sendCount be c h skip w =
     (case beInfo be h (wStore w) of
        Inl e \<Rightarrow> w
      | Inr info \<Rightarrow> sendIdleUpdate be c (beID be h) (totalCount (numMessages info) skip) w)"

subsection \<open>LOGIN, ID, IDLE, COMPRESS\<close>

definition capability :: bytes where
  "capability = ''IMAP4rev1 AUTH=PLAIN ENABLE ID''"

definition capabilityAuth :: bytes where
  "capabilityAuth = ''IMAP4rev1 COMPRESS=DEFLATE CONDSTORE ENABLE ESEARCH ID IDLE LIST-EXTENDED MOVE SPECIAL-USE UIDPLUS''"

definition capabilities :: "env \<Rightarrow> bytes" where
  "capabilities v = (case envAPNS v of None \<Rightarrow> capabilityAuth | Some _ \<Rightarrow> capabilityAuth @ '' XAPPLEPUSHSERVICE'')"

definition cmdCapability :: "env \<Rightarrow> nat \<Rightarrow> ('s, 'u, 'h) world \<Rightarrow> ('s, 'u, 'h) world" where
  "cmdCapability v c w =
     respondln c ''OK Completed''
       (writef c (''* CAPABILITY '' @ (if connMode (wConn w c) = ModeNonAuth then capability else capabilities v) @ CRLF) w)"

definition cmdCompress :: "env \<Rightarrow> nat \<Rightarrow> ('s, 'u, 'h) world \<Rightarrow> ('s, 'u, 'h) world" where
  "cmdCompress v c w =
     (if cCompressing (wConn w c) then respondln c ''NO [COMPRESSIONACTIVE] DEFLATE active'' w
      else
        updConn c (\<lambda>k. k\<lparr>cParser := (cParser k)\<lparr>pScanner :=
             (let sc = pScanner (cParser k) in SetSource (envInflate v (buf sc)) (endErr sc) sc)\<rparr>\<rparr>)
          (respondln c ''OK DEFLATE active'' (updConn c (\<lambda>k. k\<lparr>cCompressing := True\<rparr>) w)))"

definition cmdLogout :: "('s, 'u, 'h, 'm) backend \<Rightarrow> nat \<Rightarrow> ('s, 'u, 'h) world \<Rightarrow> ('s, 'u, 'h) world" where
  "cmdLogout be c w = closeConn be c (writef c (''* BYE'' @ CRLF @ cmdTag (cmdOf c w) @ '' OK Completed'' @ CRLF) w)"

definition cmdLogin :: "env \<Rightarrow> ('s, 'u, 'h, 'm) backend \<Rightarrow> nat \<Rightarrow> ('s, 'u, 'h) world \<Rightarrow> ('s, 'u, 'h) world" where
  "cmdLogin v be c w =
     (if connMode (wConn w c) \<noteq> ModeNonAuth then respondln c ''BAD wrong mode'' w
      else
        (let cmd = cmdOf c w; (r, s) = beLogin be (cmdUsername cmd) (cmdPassword cmd) (wStore w); w1 = w\<lparr>wStore := s\<rparr> in
         case r of
           Inl BadCredentials \<Rightarrow> respondln c ''NO bad credenttials'' w1
         | Inl (LoginError e) \<Rightarrow> respondln c (''BAD '' @ e) w1
         | Inr (userID, session) \<Rightarrow>
           (let w2 = updConn c (\<lambda>k. setMode ModeAuth (k\<lparr>cUserID := userID, cSession := Some session\<rparr>)) w1;
                w3 = w2\<lparr>wUsers := (wUsers w2)(userID := List.insert c (wUsers w2 userID))\<rparr> in
            respondln c (''OK [CAPABILITY '' @ capabilities v @ ''] logged in'') w3)))"

definition cmdID :: "env \<Rightarrow> nat \<Rightarrow> ('s, 'u, 'h) world \<Rightarrow> ('s, 'u, 'h) world" where
  "cmdID v c w =
     (let q = (\<lambda>s. [DQ] @ s @ [DQ]) in
      respondln c ''OK success''
       (writef c (''* ID ('' @ joinWith '' '' [q ''name'', q ''spilld'', q ''vendor'', q ''Spilled Ink'', q ''support-url'',
          q ''https://github.com/spilledink'', q ''version'', goQuote (envIsPrint v) (envVersion v)] @ '')'' @ CRLF) w))"

definition cmdIdleStart :: "nat \<Rightarrow> ('s, 'u, 'h) world \<Rightarrow> ('s, 'u, 'h) world" where
  "cmdIdleStart c w =
     updConn c (\<lambda>k.
       (let k1 = k\<lparr>cIdleStarted := True, cIdling := True\<rparr>;
            k2 = (case cMailbox k1 of None \<Rightarrow> k1 | Some _ \<Rightarrow> writeUpdates k1) in k2\<lparr>cInIdle := True\<rparr>)) w"

text \<open>The line that ends IDLE: \<open>ReadSlice\<close> with the reader's buffer of 4096 bytes.\<close>

definition readerSize :: nat where "readerSize = 4096"

definition readSlice :: "scanner \<Rightarrow> (goerr + bytes) \<times> scanner" where
  "readSlice sc =
     (let line = takeWhile (\<lambda>b. b \<noteq> LF) (buf sc) in
      if length line < length (buf sc) \<and> length line < readerSize then (Inr (line @ [LF]), sc\<lparr>buf := drop (length line + 1) (buf sc)\<rparr>)
      else if readerSize \<le> length (buf sc) then (Inl (ErrNew ''bufio: buffer full''), sc\<lparr>buf := drop readerSize (buf sc)\<rparr>)
      else (Inl (IoErr (endErr sc)), sc\<lparr>buf := []\<rparr>))"

definition cmdIdleEnd :: "env \<Rightarrow> nat \<Rightarrow> ('s, 'u, 'h) world \<Rightarrow> ('s, 'u, 'h) world" where
  "cmdIdleEnd v c w =
     (let (r, sc) = readSlice (pScanner (cParser (wConn w c)));
          w1 = updConn c (\<lambda>k. k\<lparr>cParser := (cParser k)\<lparr>pScanner := sc\<rparr>, cInIdle := False\<rparr>) w;
          w2 = (case r of
              Inl e \<Rightarrow> respondln c (''BAD IDLE terminated: '' @ envErrText v e) w1
            | Inr sl \<Rightarrow>
              (if asciiUpper sl = ''DONE'' @ CRLF then respondln c ''OK IDLE terminated'' w1
               else respondln c (''BAD IDLE terminated: unrecognized response: '' @ goQuote (envIsPrint v) sl) w1)) in
      updConn c (\<lambda>k. k\<lparr>cIdling := False\<rparr>) w2)"

subsection \<open>Mailboxes\<close>

definition cmdCreate :: "('s, 'u, 'h, 'm) backend \<Rightarrow> nat \<Rightarrow> ('s, 'u, 'h) world \<Rightarrow> ('s, 'u, 'h) world" where
  "cmdCreate be c = withSession c (\<lambda>u w.
     (let (err, s) = beCreate be u (cmdMailbox (cmdOf c w)) 0 (wStore w); w1 = w\<lparr>wStore := s\<rparr> in
      case err of Some e \<Rightarrow> respondln c (''NO DELETE failed '' @ e) w1 | None \<Rightarrow> respondln c ''OK DELETE completed'' w1))"

definition cmdDelete :: "('s, 'u, 'h, 'm) backend \<Rightarrow> nat \<Rightarrow> ('s, 'u, 'h) world \<Rightarrow> ('s, 'u, 'h) world" where
  "cmdDelete be c = withSession c (\<lambda>u w.
     (let (err, s) = beDelete be u (cmdMailbox (cmdOf c w)) (wStore w); w1 = w\<lparr>wStore := s\<rparr> in
      case err of Some e \<Rightarrow> respondln c (''NO DELETE failed '' @ e) w1 | None \<Rightarrow> respondln c ''OK DELETE completed'' w1))"

definition cmdRename :: "('s, 'u, 'h, 'm) backend \<Rightarrow> nat \<Rightarrow> ('s, 'u, 'h) world \<Rightarrow> ('s, 'u, 'h) world" where
  "cmdRename be c = withSession c (\<lambda>u w.
     (let (err, s) = beRename be u (cmdRenameOld (cmdOf c w)) (cmdRenameNew (cmdOf c w)) (wStore w); w1 = w\<lparr>wStore := s\<rparr> in
      case err of
        Ok (Some e) \<Rightarrow> respondln c (''NO RENAME '' @ e) w1
      | Ok None \<Rightarrow> respondln c ''OK RENAME completed'' w1
      | _ \<Rightarrow> markCrash w1))"

definition cmdAppend :: "env \<Rightarrow> ('s, 'u, 'h, 'm) backend \<Rightarrow> nat \<Rightarrow> ('s, 'u, 'h) world \<Rightarrow> ('s, 'u, 'h) world" where
  "cmdAppend v be c = withSession c (\<lambda>u w.
     (let cmd = cmdOf c w; literal = litFile (pScanner (cParser (wConn w c))) in
      case beMailbox be u (cmdMailbox cmd) (wStore w) of
        Inl e \<Rightarrow> respondln c (''NO APPEND '' @ e) w
      | Inr None \<Rightarrow> respondln c ''NO APPEND no such mailbox'' w
      | Inr (Some h) \<Rightarrow>
        (case beInfo be h (wStore w) of
           Inl e \<Rightarrow> respondln c (''NO APPEND info '' @ e) w
         | Inr info \<Rightarrow>
           (case (if cmdAppendDate cmd = [] then None else envDateError v (cmdAppendDate cmd)) of
              Some e \<Rightarrow> respondln c (''NO APPEND bad date '' @ e) w
            | None \<Rightarrow>
              (let (r, s) = beAppend be h (cmdAppendFlags cmd) (cmdAppendDate cmd) literal (wStore w); w1 = w\<lparr>wStore := s\<rparr> in
               case r of
                 Ok (Inl e) \<Rightarrow> respondln c (''NO APPEND '' @ e) w1
               | Ok (Inr uid) \<Rightarrow>
                 respondln c (''OK [APPENDUID '' @ fmtNat (unat (infoUidValidity info)) @ '' '' @ fmtNat (unat uid) @ ''] APPEND completed'')
                   (updConn c writeUpdates (sendCount be c h False w1))
               | _ \<Rightarrow> markCrash w1)))))"

definition cmdExpunge :: "('s, 'u, 'h, 'm) backend \<Rightarrow> nat \<Rightarrow> ('s, 'u, 'h) world \<Rightarrow> ('s, 'u, 'h) world" where
  "cmdExpunge be c = withMailbox c (\<lambda>h w.
     (let cmd = cmdOf c w; uidSeqs = (if cmdUID cmd then Some (cmdSequences cmd) else None);
          ((err, ns), s) = beExpunge be h uidSeqs (wStore w);
          w1 = fold (\<lambda>n w. writef c (''* '' @ fmtNat (unat n) @ '' EXPUNGE'' @ CRLF) (sendIdleUpdate be c (beID be h) (expungeUpdate n) w))
                 ns (w\<lparr>wStore := s\<rparr>) in
      case err of
        Some e \<Rightarrow> respondln c (''NO EXPUNGE '' @ e) w1
      | None \<Rightarrow> respondln c ''OK EXPUNGE completed'' (sendCount be c h False w1)))"

definition cmdClose :: "('s, 'u, 'h, 'm) backend \<Rightarrow> nat \<Rightarrow> ('s, 'u, 'h) world \<Rightarrow> ('s, 'u, 'h) world" where
  "cmdClose be c = withMailbox c (\<lambda>h w.
     (let ((err, ns), s) = beExpunge be h None (wStore w);
          w1 = sendAll be c (beID be h) (map expungeUpdate ns) (w\<lparr>wStore := s\<rparr>);
          w2 = (case err of
              Some e \<Rightarrow> writef c (''* BAD CLOSE server expunge error: '' @ e @ CRLF) w1
            | None \<Rightarrow> (if ns \<noteq> [] then sendCount be c h True w1 else w1)) in
      respondln c ''OK CLOSE completed, returned to authenticated state.'' (closeMailbox be c w2)))"

text \<open>\<open>path.Dir\<close> of the names, for the children flags.\<close>

definition pathDir :: "env \<Rightarrow> bytes \<Rightarrow> bytes" where
  "pathDir v name = envPathClean v (rev (dropWhile (\<lambda>b. b \<noteq> CHR ''/'') (rev name)))"

definition attrNames :: "(nat \<times> bytes) list" where
  "attrNames = [(2, ''Noinferiors''), (4, ''Noselect''), (8, ''Marked''), (16, ''Unmarked''), (32, ''All''), (64, ''Archive''),
     (128, ''Drafts''), (256, ''Flagged''), (512, ''Junk''), (1024, ''Sent''), (2048, ''Trash'')]"

definition attrString :: "nat \<Rightarrow> bytes" where
  "attrString attrs = joinWith '' '' (map (\<lambda>p. BSL # snd p) (filter (\<lambda>p. odd (attrs div fst p)) attrNames))"

definition listLine :: "env \<Rightarrow> string \<Rightarrow> (bytes \<times> nat) list \<Rightarrow> bytes \<times> nat \<Rightarrow> bytes" where
  "listLine v name boxes b =
     (let kids = (\<exists>x\<in>set boxes. pathDir v (fst x) = fst b);
          kidFlag = (if name = ''LSUB'' then [] else if kids then BSL # ''HasChildren'' else BSL # ''HasNoChildren'');
          ext = attrString (snd b) in
      ''* '' @ name @ '' ('' @ kidFlag @ (if ext \<noteq> [] then '' '' else []) @ ext @ '') '' @ [DQ] @ ''/'' @ [DQ] @ '' '' @
      stringBytes (fst b) @ CRLF)"

definition cmdListMailboxes :: "env \<Rightarrow> ('s, 'u, 'h, 'm) backend \<Rightarrow> nat \<Rightarrow> ('s, 'u, 'h) world \<Rightarrow> ('s, 'u, 'h) world" where
  "cmdListMailboxes v be c w0 =
     (let cmd = cmdOf c w0; l = cmdList cmd; ref = referenceName l; glob = mailboxGlob l in
      if ref = [] \<and> glob = [] then
        respondln c ''OK Success''
          (writef c (''* '' @ cmdName cmd @ '' ('' @ [BSL] @ ''Noselect) '' @ [DQ] @ ''/'' @ [DQ] @ '' '' @ [DQ, DQ] @ CRLF) w0)
      else if ref = [] \<and> glob \<in> {''%/%'', ''%/%/%'', ''%/%/%/%''} then respondln c ''OK Success'' w0
      else if ref \<noteq> [] \<or> glob \<noteq> ''*'' \<and> glob \<noteq> ''%'' then respondln c ''BAD Not yet implemented'' w0
      else if selectOptions l \<noteq> [] then respondln c ''BAD LIST select options not implemented'' w0
      else if returnOptions l \<noteq> [] \<and> returnOptions l \<noteq> [''SPECIAL-USE''] then
        respondln c ''BAD LIST return options not implemented'' w0
      else withSession c (\<lambda>u w.
        (case beMailboxes be u (wStore w) of
           Inl e \<Rightarrow> respondln c (''BAD '' @ cmdName cmd @ '' '' @ e) w
         | Inr boxes \<Rightarrow>
           respondln c ''OK Success'' (writef c (concat (map (listLine v (cmdName cmd) boxes) boxes)) w))) w0)"

subsection \<open>SELECT and STATUS\<close>

definition selectFlags :: bytes where
  "selectFlags = joinWith '' '' (map (\<lambda>f. BSL # f) [''Answered'', ''Flagged'', ''Draft'', ''Deleted'', ''Seen''])"

definition selectText :: "bool \<Rightarrow> mailboxInfo \<Rightarrow> bytes" where
  "selectText readOnly info =
     (let num = (\<lambda>n. fmtNat (unat n)) in
      ''* '' @ num (numMessages info) @ '' EXISTS'' @ CRLF @
      ''* '' @ num (numRecent info) @ '' RECENT'' @ CRLF @
      ''* FLAGS ('' @ selectFlags @ '')'' @ CRLF @
      (if readOnly then ''* OK [PERMANENTFLAGS ()] No permanent flags permitted'' @ CRLF
       else ''* OK [PERMANENTFLAGS ('' @ selectFlags @ '')] Ok'' @ CRLF) @
      ''* OK [HIGHESTMODSEQ '' @ fmtInt (highestModSeq info) @ '']'' @ CRLF @
      (if 0 < firstUnseen info then ''* OK [UNSEEN '' @ num (firstUnseen info) @ '']'' @ CRLF else []) @
      ''* OK [UIDVALIDITY '' @ num (infoUidValidity info) @ '']'' @ CRLF @
      ''* OK [UIDNEXT '' @ num (infoUidNext info) @ '']'' @ CRLF)"

definition cmdSelect :: "('s, 'u, 'h, 'm) backend \<Rightarrow> nat \<Rightarrow> ('s, 'u, 'h) world \<Rightarrow> ('s, 'u, 'h) world" where
  "cmdSelect be c w0 =
     (let cmd = cmdOf c w0; readOnly = (cmdName cmd = ''EXAMINE'') in
      withSession c (\<lambda>u w.
        (case beMailbox be u (cmdMailbox cmd) (wStore w) of
           Inl e \<Rightarrow> respondln c (''NO '' @ e) (updConn c (\<lambda>k. setMode ModeAuth (k\<lparr>cMailbox := None\<rparr>)) w)
         | Inr None \<Rightarrow> respondln c ''NO unknown mailbox'' (updConn c (\<lambda>k. setMode ModeAuth (k\<lparr>cMailbox := None\<rparr>)) w)
         | Inr (Some h) \<Rightarrow>
           (case beInfo be h (wStore w) of
              Inl e \<Rightarrow> respondln c ''NO SELECT internal error'' (updConn c (\<lambda>k. setMode ModeAuth (k\<lparr>cMailbox := None\<rparr>)) w)
            | Inr info \<Rightarrow>
              (let w1 = updConn c (\<lambda>k. setMode ModeSelected (k\<lparr>cMailbox := Some h\<rparr>)) w;
                   w2 = writef c (selectText readOnly info) w1;
                   w3 = (if cmdCondstore cmd then updConn c (\<lambda>k. k\<lparr>cCondstore := True\<rparr>) w2 else w2);
                   store = (if cCondstore (wConn w3 c) then '', CONDSTORE enabled'' else []) in
               respondln c ((if readOnly then ''OK [READ-ONLY] EXAMINE completed'' else ''OK [READ-WRITE] SELECT completed'') @ store) w3))))
        (updConn c (\<lambda>k. k\<lparr>cReadOnly := readOnly\<rparr>) (closeMailbox be c w0)))"

definition statusText :: "mailboxInfo \<Rightarrow> StatusItem \<Rightarrow> bytes" where
  "statusText info item =
     (case item of
        StatusMessages \<Rightarrow> ''MESSAGES '' @ fmtNat (unat (numMessages info))
      | StatusRecent \<Rightarrow> ''RECENT '' @ fmtNat (unat (numRecent info))
      | StatusUIDNext \<Rightarrow> ''UIDNEXT '' @ fmtNat (unat (infoUidNext info))
      | StatusUIDValidity \<Rightarrow> ''UIDVALIDITY '' @ fmtNat (unat (infoUidValidity info))
      | StatusUnseen \<Rightarrow> ''UNSEEN '' @ fmtNat (unat (numUnseen info))
      | StatusHighestModSeq \<Rightarrow> ''HIGHESTMODSEQ '' @ fmtInt (highestModSeq info))"

definition cmdStatus :: "('s, 'u, 'h, 'm) backend \<Rightarrow> nat \<Rightarrow> ('s, 'u, 'h) world \<Rightarrow> ('s, 'u, 'h) world" where
  "cmdStatus be c = withSession c (\<lambda>u w.
     (let cmd = cmdOf c w in
      case beMailbox be u (cmdMailbox cmd) (wStore w) of
        Inl e \<Rightarrow> respondln c (''BAD STATUS '' @ e) w
      | Inr None \<Rightarrow> w\<lparr>wNil := True\<rparr>
      | Inr (Some h) \<Rightarrow>
        (case beInfo be h (wStore w) of
           Inl e \<Rightarrow> respondln c (''BAD STATUS '' @ e) w
         | Inr info \<Rightarrow>
           respondln c ''OK STATUS complete''
             (writef c (''* STATUS '' @ stringBytes (cmdMailbox cmd) @ '' ('' @
                joinWith '' '' (map (statusText info) (cmdStatusItems cmd)) @ '')'' @ CRLF) w))))"

subsection \<open>COPY and MOVE\<close>

definition copyText :: "mailboxInfo \<Rightarrow> SeqRange list \<Rightarrow> SeqRange list \<Rightarrow> bytes" where
  "copyText dstInfo srcs dsts =
     (if srcs = [] then []
      else ''* OK [COPYUID '' @ fmtNat (unat (infoUidValidity dstInfo)) @ '' '' @ FormatSeqs srcs @ '' '' @ FormatSeqs dsts @ '']'' @ CRLF)"

definition cmdMove :: "('s, 'u, 'h, 'm) backend \<Rightarrow> nat \<Rightarrow> 'h \<Rightarrow> mailboxInfo \<Rightarrow> ('s, 'u, 'h) world \<Rightarrow> ('s, 'u, 'h) world" where
  "cmdMove be c dst dstInfo = withMailbox c (\<lambda>h w.
     (let cmd = cmdOf c w; ((err, rs), s) = beMove be h (cmdUID cmd) (cmdSequences cmd) dst (wStore w);
          w1 = sendAll be c (beID be h) (map (\<lambda>r. expungeUpdate (fst r)) rs) (w\<lparr>wStore := s\<rparr>) in
      case err of
        Some e \<Rightarrow> respondln c (''BAD MOVE '' @ e) w1
      | None \<Rightarrow>
        (let w2 = sendCount be c dst False (sendCount be c h False w1);
             srcs = foldl AppendSeqRange [] (map (fst \<circ> snd) rs); dsts = foldl AppendSeqRange [] (map (snd \<circ> snd) rs);
             w3 = writef c (copyText dstInfo srcs dsts @ concat (map (\<lambda>r. ''* '' @ fmtNat (unat (fst r)) @ '' EXPUNGE'' @ CRLF) rs)) w2 in
         respondln c ''OK MOVE done'' (updConn c writeUpdates w3))))"

definition cmdCopy :: "('s, 'u, 'h, 'm) backend \<Rightarrow> nat \<Rightarrow> 'h \<Rightarrow> mailboxInfo \<Rightarrow> ('s, 'u, 'h) world \<Rightarrow> ('s, 'u, 'h) world" where
  "cmdCopy be c dst dstInfo = withMailbox c (\<lambda>h w.
     (let cmd = cmdOf c w; ((err, rs), s) = beCopy be h (cmdUID cmd) (cmdSequences cmd) dst (wStore w); w1 = w\<lparr>wStore := s\<rparr> in
      case err of
        Some e \<Rightarrow> respondln c (''BAD COPY '' @ e) w1
      | None \<Rightarrow>
        (let srcs = foldl AppendSeqRange [] (map fst rs); dsts = foldl AppendSeqRange [] (map snd rs) in
         respondln c ''OK COPY done'' (writef c (copyText dstInfo srcs dsts) (sendCount be c dst False w1)))))"

definition cmdCopyOrMove :: "('s, 'u, 'h, 'm) backend \<Rightarrow> nat \<Rightarrow> ('s, 'u, 'h) world \<Rightarrow> ('s, 'u, 'h) world" where
  "cmdCopyOrMove be c = withSession c (\<lambda>u w.
     (let cmd = cmdOf c w in
      case beMailbox be u (cmdMailbox cmd) (wStore w) of
        Inl e \<Rightarrow> respondln c (''BAD destination mailbox '' @ e) w
      | Inr None \<Rightarrow> w\<lparr>wNil := True\<rparr>
      | Inr (Some dst) \<Rightarrow>
        (case beInfo be dst (wStore w) of
           Inl e \<Rightarrow> respondln c (''BAD destination mailbox info '' @ e) w
         | Inr dstInfo \<Rightarrow> (if cmdName cmd = ''MOVE'' then cmdMove be c dst dstInfo w else cmdCopy be c dst dstInfo w))))"

subsection \<open>STORE\<close>

definition storedText :: "bool \<Rightarrow> bool \<Rightarrow> StoreParam \<Rightarrow> summary \<times> bytes list \<Rightarrow> bytes" where
  "storedText uid condstore st r =
     (if unchangedSince st = 0 \<and> storeSilent st then []
      else
        ''* '' @ fmtNat (unat (sumSeq (fst r))) @ '' FETCH ('' @
        joinWith '' ''
          ((if uid then [''UID '' @ fmtNat (unat (sumUID (fst r)))] else []) @
           (if condstore then [''MODSEQ ('' @ fmtInt (sumModSeq (fst r)) @ '')''] else []) @
           (if \<not> storeSilent st then [''FLAGS ('' @ joinWith '' '' (map flagText (snd r)) @ '')''] else [])) @
        '')'' @ CRLF)"

definition cmdStoreFlags :: "('s, 'u, 'h, 'm) backend \<Rightarrow> nat \<Rightarrow> ('s, 'u, 'h) world \<Rightarrow> ('s, 'u, 'h) world" where
  "cmdStoreFlags be c = withMailbox c (\<lambda>h w.
     (let cmd = cmdOf c w; st = cmdStore cmd; (r, s) = beStore be h (cmdUID cmd) (cmdSequences cmd) st (wStore w); w1 = w\<lparr>wStore := s\<rparr> in
      case r of
        Inl e \<Rightarrow> respondln c (''NO STORE '' @ e) w1
      | Inr (stored, failed) \<Rightarrow>
        (let w2 = (if unchangedSince st \<noteq> 0 then setCondStore be c w1 else w1);
             w3 = writef c (concat (map (storedText (cmdUID cmd) (cCondstore (wConn w2 c)) st) stored)) w2 in
         respondln c
           (if failed \<noteq> [] then ''OK [MODIFIED '' @ FormatSeqs failed @ ''] Conditional STORE failed''
            else if 0 < unchangedSince st then ''OK Conditional STORE completed''
            else ''OK STORE completed'') w3)))"

subsection \<open>SEARCH\<close>

fun hasModSeqOp :: "SearchOp \<Rightarrow> bool" where
  "hasModSeqOp (SearchOp key children x n sq d) \<longleftrightarrow> key = ''MODSEQ'' \<or> (\<exists>ch\<in>set children. hasModSeqOp ch)"

record searchAcc =
  saResults :: "u32 list"
  saMaxMod :: int
  saMin :: u32
  saMinMod :: int
  saMax :: u32
  saMaxResMod :: int

definition searchStep :: "bool \<Rightarrow> summary \<Rightarrow> searchAcc \<Rightarrow> searchAcc" where
  "searchStep uid data a =
     (let num = (if uid then sumUID data else sumSeq data);
          a1 = a\<lparr>saResults := saResults a @ [num]\<rparr>;
          a2 = (if saMaxMod a1 < sumModSeq data then a1\<lparr>saMaxMod := sumModSeq data\<rparr> else a1);
          a3 = (if num < saMin a2 then a2\<lparr>saMin := num, saMinMod := sumModSeq data\<rparr> else a2) in
      if saMax a3 < num then a3\<lparr>saMax := num, saMaxResMod := sumModSeq data\<rparr> else a3)"

definition searchFold :: "bool \<Rightarrow> summary list \<Rightarrow> searchAcc" where
  "searchFold uid rs =
     fold (searchStep uid) rs \<lparr>saResults = [], saMaxMod = 0, saMin = - 1, saMinMod = 0, saMax = 0, saMaxResMod = 0\<rparr>"

definition esearchText :: "env \<Rightarrow> Command \<Rightarrow> SearchOp \<Rightarrow> searchAcc \<Rightarrow> bytes" where
  "esearchText v cmd op a =
     (let ret = set (searchReturn (cmdSearch cmd)); num = (\<lambda>n. fmtNat (unat n)) in
      ''* ESEARCH (TAG '' @ goQuote (envIsPrint v) (cmdTag cmd) @ '')'' @
      (if ''COUNT'' \<in> ret then '' COUNT '' @ fmtNat (length (saResults a)) else []) @
      (if saResults a \<noteq> [] then
         (if ''MIN'' \<in> ret then '' MIN '' @ num (saMin a) else []) @
         (if ''MAX'' \<in> ret then '' MAX '' @ num (saMax a) else []) @
         (if ''ALL'' \<in> ret then '' ALL '' @ FormatSeqs (foldl AppendSeqRange [] (saResults a)) else []) @
         (if hasModSeqOp op then
            '' MODSEQ '' @ fmtInt
              (if ''ALL'' \<in> ret \<or> ''COUNT'' \<in> ret then saMaxMod a
               else if ''MIN'' \<in> ret \<and> ''MAX'' \<in> ret then max (saMinMod a) (saMaxResMod a)
               else if ''MIN'' \<in> ret then saMinMod a
               else saMaxResMod a)
          else [])
       else []) @ CRLF)"

definition searchText :: "SearchOp \<Rightarrow> searchAcc \<Rightarrow> bytes" where
  "searchText op a =
     (if saResults a = [] then []
      else ''* SEARCH'' @ concat (map (\<lambda>n. '' '' @ fmtNat (unat n)) (saResults a)) @
        (if hasModSeqOp op then '' (MODSEQ '' @ fmtInt (saMaxMod a) @ '')'' else []) @ CRLF)"

definition cmdSearchMsgs :: "env \<Rightarrow> ('s, 'u, 'h, 'm) backend \<Rightarrow> nat \<Rightarrow> ('s, 'u, 'h) world \<Rightarrow> ('s, 'u, 'h) world" where
  "cmdSearchMsgs v be c = withMailbox c (\<lambda>h w.
     (let cmd = cmdOf c w in
      case searchOp (cmdSearch cmd) of
        None \<Rightarrow> w\<lparr>wNil := True\<rparr>
      | Some op \<Rightarrow>
        (case beSearch be h op (wStore w) of
           Inl e \<Rightarrow> respondln c (''BAD SEARCH error: '' @ e) w
         | Inr rs \<Rightarrow>
           (let a = searchFold (cmdUID cmd) rs in
            respondln c (''OK '' @ (if cmdUID cmd then ''UID '' else []) @ ''SEARCH'')
              (writef c (if searchReturn (cmdSearch cmd) \<noteq> [] then esearchText v cmd op a else searchText op a) w)))))"

subsection \<open>XAPPLEPUSHSERVICE\<close>

fun registerAll :: "('s, 'u, 'h, 'm) backend \<Rightarrow> 'u \<Rightarrow> PushService \<Rightarrow> bytes list \<Rightarrow> 's \<Rightarrow> bytes option \<times> 's" where
  "registerAll be u dev [] s = (None, s)"
| "registerAll be u dev (m # ms) s =
     (let (err, s1) = beRegister be u m dev s in case err of Some e \<Rightarrow> (Some e, s1) | None \<Rightarrow> registerAll be u dev ms s1)"

definition cmdXApplePushService :: "env \<Rightarrow> ('s, 'u, 'h, 'm) backend \<Rightarrow> nat \<Rightarrow> ('s, 'u, 'h) world \<Rightarrow> ('s, 'u, 'h) world" where
  "cmdXApplePushService v be c w0 =
     (case envAPNS v of
        None \<Rightarrow> respondln c (''BAD XAPPLEPUSHSERVICE not supported'' @ CRLF) w0
      | Some topic \<Rightarrow>
        (case cmdPush (cmdOf c w0) of
           None \<Rightarrow> w0\<lparr>wNil := True\<rparr>
         | Some aps \<Rightarrow>
           (if apsMailboxes aps = [] then
              respondln c ''OK XAPPLEPUSHSERVICE Registration success.''
                (writef c (''* XAPPLEPUSHSERVICE aps-version '' @ [DQ] @ ''2'' @ [DQ] @ '' aps-topic '' @ goQuote (envIsPrint v) topic @ CRLF) w0)
            else withSession c (\<lambda>u w.
              (let (err, s) = registerAll be u aps (apsMailboxes aps) (wStore w); w1 = w\<lparr>wStore := s\<rparr> in
               case err of
                 Some e \<Rightarrow> respondln c (''BAD XAPPLEPUSHSERVICE '' @ e) w1
               | None \<Rightarrow>
                 respondln c ''OK XAPPLEPUSHSERVICE Registration success.''
                   (writef c (''* XAPPLEPUSHSERVICE aps-version '' @ [DQ] @ ''2'' @ [DQ] @ '' aps-topic '' @ goQuote (envIsPrint v) topic @ CRLF) w1)))
              w0)))"

subsection \<open>The dispatch\<close>

definition dispatch :: "env \<Rightarrow> ('s, 'u, 'h, 'm) backend \<Rightarrow> nat \<Rightarrow> ('s, 'u, 'h) world \<Rightarrow> ('s, 'u, 'h) world" where
  "dispatch v be c w =
     (let n = cmdName (cmdOf c w) in
      if n = ''CAPABILITY'' then cmdCapability v c w
      else if n = ''COMPRESS'' then cmdCompress v c w
      else if n = ''LOGOUT'' then cmdLogout be c w
      else if n = ''NOOP'' then respondln c ''OK nothing offered, nothing given'' w
      else if n = ''LOGIN'' \<or> n = ''AUTHENTICATE'' then cmdLogin v be c w
      else if n = ''STARTTLS'' then respondln c ''BAD already using TLS'' w
      else if n = ''APPEND'' then cmdAppend v be c w
      else if n = ''CREATE'' then cmdCreate be c w
      else if n = ''DELETE'' then cmdDelete be c w
      else if n = ''ENABLE'' then respondln c ''OK completed'' w
      else if n = ''EXAMINE'' then cmdSelect be c w
      else if n = ''ID'' then cmdID v c w
      else if n = ''IDLE'' then cmdIdleStart c w
      else if n = ''LIST'' \<or> n = ''LSUB'' then cmdListMailboxes v be c w
      else if n = ''RENAME'' then cmdRename be c w
      else if n = ''SELECT'' then cmdSelect be c w
      else if n = ''STATUS'' then cmdStatus be c w
      else if n = ''SUBSCRIBE'' then respondln c ''BAD SUBSCRIBE TODO'' w
      else if n = ''UNSUBSCRIBE'' then respondln c ''BAD UNSUBSCRIBE TODO'' w
      else if n = ''CHECK'' then respondln c ''OK CHECK completed'' w
      else if n = ''CLOSE'' then cmdClose be c w
      else if n = ''EXPUNGE'' then cmdExpunge be c w
      else if n = ''COPY'' \<or> n = ''MOVE'' then cmdCopyOrMove be c w
      else if n = ''FETCH'' then cmdFetch v be c w
      else if n = ''STORE'' then cmdStoreFlags be c w
      else if n = ''SEARCH'' then cmdSearchMsgs v be c w
      else if n = ''XAPPLEPUSHSERVICE'' then cmdXApplePushService v be c w
      else w)"

definition serveCmd :: "env \<Rightarrow> ('s, 'u, 'h, 'm) backend \<Rightarrow> nat \<Rightarrow> ('s, 'u, 'h) world \<Rightarrow> ('s, 'u, 'h) world" where
  "serveCmd v be c w = dispatch v be c (updConn c (\<lambda>k. writeUpdates (k\<lparr>cRespondBuf := []\<rparr>)) w)"

text \<open>\<open>serveParseCmd\<close>: whether the connection goes on, and the world. \<open>None\<close> is the parser not returning. The prompts of the
  literals that the parser read are written before anything else.\<close>

definition parseReply :: "env \<Rightarrow> goerr \<Rightarrow> bool \<times> bytes" where
  "parseReply v e =
     (case e of
        IoErr EOF \<Rightarrow> (False, [])
      | IoErr (OtherIO x) \<Rightarrow> (False, [])
      | TaggedError tag e' \<Rightarrow> (True, tag @ '' BAD '' @ envErrText v e' @ CRLF)
      | ParseError x \<Rightarrow> (True, ''* BAD '' @ envErrText v e @ CRLF)
      | _ \<Rightarrow> (False, ''* BAD connection error'' @ CRLF))"

definition serveParseCmd :: "env \<Rightarrow> ('s, 'u, 'h, 'm) backend \<Rightarrow> nat \<Rightarrow> ('s, 'u, 'h) world \<Rightarrow> (bool \<times> ('s, 'u, 'h) world) option" where
  "serveParseCmd v be c w =
     (let p = cParser (wConn w c) in
      case ParseCommand p of
        None \<Rightarrow> None
      | Some (r, q) \<Rightarrow>
        (let prompts = concat (map fst (drop (length (contLog (pScanner p))) (contLog (pScanner q))));
             w1 = updConn c (\<lambda>k. (writeOut prompts k)\<lparr>cParser := q\<rparr>) w in
         Some (case r of
             Panic x \<Rightarrow> (False, markCrash w1)
           | Fail e \<Rightarrow> (let (go_on, reply) = parseReply v e in (go_on, writef c reply w1))
           | Ok _ \<Rightarrow> (True, serveCmd v be c w1))))"

subsection \<open>The server's steps\<close>

definition greeting :: bytes where
  "greeting = ''* OK IMAP4 spilled.ink ready'' @ CRLF"

definition newConn :: "bytes \<Rightarrow> io_error \<Rightarrow> ('u, 'h) conn" where
  "newConn input e =
     \<lparr>cUserID = 0, cSession = None, cMailbox = None, cReadOnly = False, cCondstore = False,
      cParser = NewParser (NewScanner input e True True) ModeNonAuth, cOut = greeting, cRespondBuf = [], cCompressing = False,
      cIdleStarted = False, cIdling = False, cUpdates = [], cInIdle = False, cClosed = False\<rparr>"

definition accept :: "nat \<Rightarrow> bytes \<Rightarrow> io_error \<Rightarrow> ('s, 'u, 'h) world \<Rightarrow> ('s, 'u, 'h) world" where
  "accept c input e w = w\<lparr>wConn := (wConn w)(c := newConn input e), wConns := c # wConns w\<rparr>"

text \<open>The deferred function of \<open>serve\<close>.\<close>

definition endConn :: "('s, 'u, 'h, 'm) backend \<Rightarrow> nat \<Rightarrow> ('s, 'u, 'h) world \<Rightarrow> ('s, 'u, 'h) world" where
  "endConn be c w =
     (let w1 = closeMailbox be c w;
          w2 = (case cSession (wConn w1 c) of None \<Rightarrow> w1 | Some u \<Rightarrow> w1\<lparr>wStore := beCloseSession be u (wStore w1)\<rparr>);
          w3 = closeConn be c w2;
          uid = cUserID (wConn w3 c) in
      w3\<lparr>wConns := remove1 c (wConns w3),
         wUsers := (if uid \<noteq> 0 then (wUsers w3)(uid := remove1 c (wUsers w3 uid)) else wUsers w3)\<rparr>)"

text \<open>A step: a connection is admitted, a connection serves one command or ends, IDLE ends, the data store notifies of a delivery (and
  changes by itself).\<close>

inductive serverStep :: "env \<Rightarrow> ('s, 'u, 'h, 'm) backend \<Rightarrow> ('s, 'u, 'h) world \<Rightarrow> ('s, 'u, 'h) world \<Rightarrow> bool" for v be where
  Accept: "c \<notin> set (wConns w) \<Longrightarrow> (\<forall>u. c \<notin> set (wUsers w u)) \<Longrightarrow> length (wConns w) \<le> envMaxConns v \<Longrightarrow>
    serverStep v be w (accept c input e w)"
| Serve: "c \<in> set (wConns w) \<Longrightarrow> \<not> cInIdle (wConn w c) \<Longrightarrow> serveParseCmd v be c w = Some (True, w') \<Longrightarrow> serverStep v be w w'"
| End: "c \<in> set (wConns w) \<Longrightarrow> \<not> cInIdle (wConn w c) \<Longrightarrow> serveParseCmd v be c w = Some (False, w') \<Longrightarrow>
    serverStep v be w (endConn be c w')"
| IdleEnd: "c \<in> set (wConns w) \<Longrightarrow> cInIdle (wConn w c) \<Longrightarrow> serverStep v be w (cmdIdleEnd v c w)"
| Deliver: "serverStep v be w (Notify be userID mailboxID (w\<lparr>wStore := s\<rparr>))"

definition initWorld :: "'s \<Rightarrow> ('s, 'u, 'h) world" where
  "initWorld s = \<lparr>wStore = s, wConn = (\<lambda>_. newConn [] EOF), wConns = [], wUsers = (\<lambda>_. []), wNil = False, wCrash = False\<rparr>"

end
