(* ===== verification/ImapServerProps.thy ===== *)
theory ImapServerProps
  imports ImapServer
begin

text \<open>
  What holds of the IMAP server whatever the commands: a connection's mode agrees with its session and its mailbox, so that no handler
  uses a nil one.
\<close>

subsection \<open>What output and updates leave alone\<close>

definition core :: "('u, 'h) conn \<Rightarrow> Mode \<times> 'h option \<times> 'u option \<times> int" where
  "core k = (connMode k, cMailbox k, cSession k, cUserID k)"

definition sameCore :: "('s, 'u, 'h) world \<Rightarrow> ('s, 'u, 'h) world \<Rightarrow> bool" where
  "sameCore w w' \<longleftrightarrow> (\<forall>c. core (wConn w' c) = core (wConn w c)) \<and> wNil w' = wNil w"

lemma sameCore_refl [simp, intro]: "sameCore w w"
  by (simp add: sameCore_def)

lemma sameCore_trans [trans]: "sameCore w w' \<Longrightarrow> sameCore w' w'' \<Longrightarrow> sameCore w w''"
  by (simp add: sameCore_def)

lemma core_writeOut [simp]: "core (writeOut s k) = core k"
  by (simp add: core_def writeOut_def)

lemma core_fields [simp]:
  "core (k\<lparr>cRespondBuf := b\<rparr>) = core k" "core (k\<lparr>cUpdates := us\<rparr>) = core k" "core (k\<lparr>cIdling := i\<rparr>) = core k"
  "core (k\<lparr>cInIdle := i\<rparr>) = core k" "core (k\<lparr>cIdleStarted := i\<rparr>) = core k" "core (k\<lparr>cCompressing := i\<rparr>) = core k"
  "core (k\<lparr>cCondstore := i\<rparr>) = core k" "core (k\<lparr>cClosed := i\<rparr>) = core k" "core (k\<lparr>cReadOnly := i\<rparr>) = core k"
  by (simp_all add: core_def)

lemma core_writeUpdates [simp]: "core (writeUpdates k) = core k"
  by (simp add: writeUpdates_def)

lemma core_receiveUpdate [simp]: "core (receiveUpdate u k) = core k"
  by (simp add: receiveUpdate_def)

named_theorems quiet "operations that change no mode, session or mailbox of a connection"

lemma quiet_updConn: "(\<And>k. core (f k) = core k) \<Longrightarrow> sameCore w (updConn c f w)"
  by (simp add: sameCore_def)

lemma quiet_store [quiet]: "sameCore w (w\<lparr>wStore := s\<rparr>)"
  by (simp add: sameCore_def)

lemma quiet_crash [quiet]: "sameCore w (markCrash w)"
  by (simp add: sameCore_def markCrash_def)

lemma quiet_writef [quiet]: "sameCore w (writef c s w)"
  by (simp add: writef_def quiet_updConn)

lemma quiet_respondln [quiet]: "sameCore w (respondln c s w)"
  by (simp add: respondln_def quiet_updConn)

lemma quiet_writeUpdates [quiet]: "sameCore w (updConn c writeUpdates w)"
  by (simp add: quiet_updConn)

lemma quiet_sendTo: "sameCore w (sendTo be src i u d w)"
  by (simp add: sendTo_def quiet_updConn Let_def)

lemma quiet_fold: "(\<And>x w. sameCore w (f x w)) \<Longrightarrow> sameCore w (fold f xs w)"
  by (induction xs arbitrary: w) (auto intro: sameCore_trans)

lemma quiet_send [quiet]: "sameCore w (sendIdleUpdate be c i u w)"
  by (simp add: sendIdleUpdate_def quiet_fold quiet_sendTo)

lemma quiet_sendAll [quiet]: "sameCore w (sendAll be c i us w)"
  by (simp add: quiet_fold quiet_send)

lemma quiet_sendCount [quiet]: "sameCore w (sendCount be c h b w)"
  by (simp add: sendCount_def quiet split: sum.split)

lemma quiet_notifyLoop: "sameCore w (notifyLoop be i upd ds w)"
proof (induction be i upd ds w rule: notifyLoop.induct)
  case (2 be i upd d ds w)
  have u: "sameCore w (updConn d (\<lambda>k. let k1 = receiveUpdate u k in if cIdling k1 then writeUpdates k1 else k1) w)" for u
    by (rule quiet_updConn) (simp add: Let_def)
  show ?case using 2 by (auto simp: Let_def split: option.splits sum.splits intro: sameCore_trans [OF u])
qed simp

lemma quiet_Notify [quiet]: "sameCore w (Notify be uid i w)"
  by (simp add: Notify_def quiet_notifyLoop)

lemma quiet_writeBody: "sameCore w (snd (writeBody v be c m item md w))"
  by (auto simp: writeBody_def Let_def quiet sameCore_trans [OF quiet_store quiet_writef]
      split: prod.splits sum.splits go.splits option.splits)

lemma quiet_writeItem1: "sameCore w (snd (writeItem1 v be c m item md w))"
  by (auto simp: writeItem1_def Let_def quiet quiet_writeBody split: FetchItemType.splits prod.splits sum.splits)

lemma quiet_writeItems:
  assumes "\<And>i md w. sameCore w (snd (f i md w))"
  shows "sameCore w (snd (writeItems f c first is md w))"
proof (induction "is" arbitrary: first md w)
  case (Cons i "is")
  let ?w = "if first then w else writef c '' '' w"
  have "sameCore w ?w" by (simp add: quiet)
  also have "sameCore ?w (snd (f i md ?w))" by (rule assms)
  also have "sameCore (snd (f i md ?w)) (snd (writeItems f c False is (fst (f i md ?w)) (snd (f i md ?w))))" by (rule Cons)
  finally show ?case by (simp add: split_beta)
qed simp

lemma quiet_writeItem: "sameCore w (snd (writeItem v be c m item md w))"
  by (auto simp: writeItem_def quiet_writeItem1 intro!: quiet_writeItems split: option.splits)

lemma quiet_fetchMessage: "sameCore w (fetchMessage v be c items m w)"
proof -
  let ?w1 = "writef c (''* '' @ fmtNat (unat (sumSeq (beSummary be m))) @ '' FETCH ('') w"
  have "sameCore w ?w1" by (rule quiet)
  also have "sameCore ?w1 (snd (writeItems (writeItem v be c m) c True items (beMessage be m (wStore ?w1)) ?w1))"
    by (rule quiet_writeItems) (rule quiet_writeItem)
  also have "sameCore \<dots> (fetchMessage v be c items m w)" by (simp add: fetchMessage_def Let_def split_beta quiet)
  finally show ?thesis .
qed

lemmas quiet_then =
  sameCore_trans [OF _ quiet_store] sameCore_trans [OF _ quiet_writef] sameCore_trans [OF _ quiet_respondln]
  sameCore_trans [OF _ quiet_writeUpdates] sameCore_trans [OF _ quiet_send] sameCore_trans [OF _ quiet_sendAll]
  sameCore_trans [OF _ quiet_sendCount]

subsection \<open>Modes, sessions and mailboxes\<close>

definition connOK :: "('u, 'h) conn \<Rightarrow> bool" where
  "connOK k \<longleftrightarrow> (cMailbox k \<noteq> None \<longleftrightarrow> connMode k = ModeSelected) \<and> (connMode k \<noteq> ModeNonAuth \<longrightarrow> cSession k \<noteq> None)"

definition worldOK :: "('s, 'u, 'h) world \<Rightarrow> bool" where
  "worldOK w \<longleftrightarrow> (\<forall>c. connOK (wConn w c)) \<and> \<not> wNil w"

lemma connOK_core: "core k = core k' \<Longrightarrow> connOK k = connOK k'"
  by (simp add: core_def connOK_def)

lemma worldOK_quiet: "sameCore w w' \<Longrightarrow> worldOK w' = worldOK w"
  by (metis connOK_core sameCore_def worldOK_def)

lemma worldOK_updConn: "worldOK w \<Longrightarrow> (connOK (wConn w c) \<Longrightarrow> connOK (f (wConn w c))) \<Longrightarrow> worldOK (updConn c f w)"
  by (simp add: worldOK_def)

lemma worldOK_conn: "worldOK w \<Longrightarrow> connOK (wConn w c)"
  by (simp add: worldOK_def)

lemma worldOK_ops [simp]:
  "worldOK (w\<lparr>wStore := s\<rparr>) = worldOK w" "worldOK (writef c t w) = worldOK w" "worldOK (respondln c t w) = worldOK w"
  "worldOK (updConn c writeUpdates w) = worldOK w" "worldOK (sendIdleUpdate be c i u w) = worldOK w"
  "worldOK (sendAll be c i us w) = worldOK w" "worldOK (sendCount be c h b w) = worldOK w" "worldOK (markCrash w) = worldOK w"
  "worldOK (Notify be uid i w) = worldOK w"
  by (rule worldOK_quiet, rule quiet)+

lemma worldOK_users [simp]: "worldOK (w\<lparr>wUsers := us\<rparr>) = worldOK w" "worldOK (w\<lparr>wConns := cs\<rparr>) = worldOK w"
  by (simp_all add: worldOK_def)

lemma worldOK_updConn_core:
  assumes "sameCore w w1" and "worldOK w" and "\<And>k. core k = core (wConn w c) \<Longrightarrow> connOK k \<Longrightarrow> connOK (f k)"
  shows "worldOK (updConn c f w1)"
proof -
  have "worldOK w1" using assms(1,2) by (simp add: worldOK_quiet)
  then show ?thesis using assms(1,3) by (intro worldOK_updConn) (auto simp: sameCore_def)
qed

lemma closeMailbox_OK: assumes "worldOK w" shows "worldOK (closeMailbox be c w)"
proof (cases "cMailbox (wConn w c)")
  case None
  then show ?thesis using assms by (simp add: closeMailbox_def)
next
  case (Some h)
  have ok: "connOK (f k)" if "core k = core (wConn w c)" "connOK k"
      "f = (\<lambda>k. setMode ModeAuth (k\<lparr>cReadOnly := False, cMailbox := None, cUpdates := [], cIdling := False, cIdleStarted := False\<rparr>))" for k f
    using that Some by (auto simp: connOK_def core_def)
  obtain err s where e: "beClose be h (wStore w) = (err, s)" by fastforce
  show ?thesis unfolding closeMailbox_def Some option.case e Let_def prod.case
    by (cases err; simp; rule worldOK_updConn_core [OF _ assms ok]; auto simp: quiet intro: quiet_then)
qed

lemma closeMailbox_conn: "worldOK w \<Longrightarrow> cMailbox (wConn (closeMailbox be c w) c) = None \<and>
    connMode (wConn (closeMailbox be c w) c) = (if connMode (wConn w c) = ModeSelected then ModeAuth else connMode (wConn w c)) \<and>
    cSession (wConn (closeMailbox be c w) c) = cSession (wConn w c)"
  using worldOK_conn [of w c]
  by (auto simp: closeMailbox_def Let_def connOK_def writef_def writeOut_def split: option.splits prod.splits)

lemma closeConn_OK: "worldOK w \<Longrightarrow> worldOK (closeConn be c w)"
  unfolding closeConn_def by (intro worldOK_updConn closeMailbox_OK) (simp_all add: connOK_def)

text \<open>The law of the data store that this rests on: \<open>Session.Mailbox\<close> returns an error or a mailbox.\<close>

locale mailbox_found =
  fixes be :: "('s, 'u, 'h, 'm) backend"
  assumes mailbox_not_nil: "beMailbox be u name s \<noteq> Inr None"
begin

lemma sessionOK:
  assumes "worldOK w" and "connMode (wConn w c) \<noteq> ModeNonAuth" and "\<And>u. worldOK (f u w)"
  shows "worldOK (withSession c f w)"
  using assms worldOK_conn [OF assms(1), of c] by (auto simp: withSession_def connOK_def)

lemma mailboxOK:
  assumes "worldOK w" and "connMode (wConn w c) = ModeSelected" and "\<And>h. worldOK (f h w)"
  shows "worldOK (withMailbox c f w)"
  using assms worldOK_conn [OF assms(1), of c] by (auto simp: withMailbox_def connOK_def)

lemma cmdLogin_OK: "worldOK w \<Longrightarrow> worldOK (cmdLogin v be c w)"
  by (auto simp: cmdLogin_def Let_def split: prod.splits sum.splits loginError.splits)
    (auto simp: worldOK_def connOK_def)

lemma cmdAppend_OK: "worldOK w \<Longrightarrow> connMode (wConn w c) \<noteq> ModeNonAuth \<Longrightarrow> worldOK (cmdAppend v be c w)"
  unfolding cmdAppend_def by (rule sessionOK) (auto simp: Let_def split: prod.splits sum.splits option.splits go.splits)

lemma cmdMailboxes_OK:
  assumes "worldOK w" and "connMode (wConn w c) \<noteq> ModeNonAuth"
  shows "worldOK (cmdCreate be c w)" and "worldOK (cmdDelete be c w)" and "worldOK (cmdRename be c w)"
    and "worldOK (cmdListMailboxes v be c w)"
  unfolding cmdCreate_def cmdDelete_def cmdRename_def cmdListMailboxes_def
  using assms by (auto intro!: sessionOK simp: Let_def split: prod.splits sum.splits option.splits go.splits)

lemma cmdStatus_OK: "worldOK w \<Longrightarrow> connMode (wConn w c) \<noteq> ModeNonAuth \<Longrightarrow> worldOK (cmdStatus be c w)"
  unfolding cmdStatus_def by (rule sessionOK) (auto simp: Let_def mailbox_not_nil split: sum.splits option.splits)

lemma fold_OK: "worldOK w \<Longrightarrow> (\<And>x w. worldOK w \<Longrightarrow> worldOK (f x w)) \<Longrightarrow> worldOK (fold f xs w)"
  by (induction xs arbitrary: w) auto

lemma cmdExpunge_OK: "worldOK w \<Longrightarrow> connMode (wConn w c) = ModeSelected \<Longrightarrow> worldOK (cmdExpunge be c w)"
  unfolding cmdExpunge_def by (rule mailboxOK) (auto simp: Let_def intro!: fold_OK split: prod.splits option.splits)

lemma cmdClose_OK: "worldOK w \<Longrightarrow> connMode (wConn w c) = ModeSelected \<Longrightarrow> worldOK (cmdClose be c w)"
  unfolding cmdClose_def by (rule mailboxOK) (auto simp: Let_def intro!: closeMailbox_OK split: prod.splits option.splits)

lemma cmdCopyOrMove_OK: "worldOK w \<Longrightarrow> connMode (wConn w c) = ModeSelected \<Longrightarrow> worldOK (cmdCopyOrMove be c w)"
  unfolding cmdCopyOrMove_def cmdMove_def cmdCopy_def
  by (rule sessionOK) (auto simp: Let_def mailbox_not_nil intro!: mailboxOK split: prod.splits sum.splits option.splits)

lemma setCondStore_OK: "worldOK w \<Longrightarrow> connMode (wConn w c) = ModeSelected \<Longrightarrow> worldOK (setCondStore be c w)"
  using worldOK_conn [of w c] worldOK_quiet [OF quiet_updConn [of "\<lambda>k. k\<lparr>cCondstore := True\<rparr>" w c]]
  by (auto simp: setCondStore_def Let_def connOK_def split: option.splits sum.splits)

lemma cmdStoreFlags_OK: "worldOK w \<Longrightarrow> connMode (wConn w c) = ModeSelected \<Longrightarrow> worldOK (cmdStoreFlags be c w)"
  unfolding cmdStoreFlags_def
  by (rule mailboxOK) (auto simp: Let_def intro!: setCondStore_OK split: prod.splits sum.splits)

lemma cmdSearchMsgs_OK:
  "worldOK w \<Longrightarrow> connMode (wConn w c) = ModeSelected \<Longrightarrow> searchOp (cmdSearch (cmdOf c w)) \<noteq> None \<Longrightarrow> worldOK (cmdSearchMsgs v be c w)"
  unfolding cmdSearchMsgs_def by (rule mailboxOK) (auto simp: Let_def split: sum.splits option.splits)

lemma setCondStore_mailbox: "cMailbox (wConn (setCondStore be c w) c) = cMailbox (wConn w c)"
  by (auto simp: setCondStore_def Let_def writef_def writeOut_def split: option.splits sum.splits)

lemma cmdFetch_OK: assumes "worldOK w" and "connMode (wConn w c) = ModeSelected" shows "worldOK (cmdFetch v be c w)"
proof -
  define w1 where "w1 = (if \<exists>i\<in>set (cmdFetchItems (cmdOf c w)). itemType i = FetchModSeq then setCondStore be c w else w)"
  have w1: "worldOK w1" "cMailbox (wConn w1 c) = cMailbox (wConn w c)"
    using setCondStore_OK [OF assms] assms(1) by (auto simp: w1_def setCondStore_mailbox)
  obtain h where h: "cMailbox (wConn w c) = Some h" using worldOK_conn [OF assms(1), of c] assms(2) by (auto simp: connOK_def)
  have "worldOK (fold (fetchMessage v be c items) ms w1)" for items ms
    using w1(1) by (intro fold_OK) (simp_all add: worldOK_quiet [OF quiet_fetchMessage])
  then show ?thesis unfolding cmdFetch_def Let_def w1_def [symmetric] w1(2) h option.case
    by (auto split: prod.splits option.splits)
qed

lemma cmdSelect_OK: assumes "worldOK w" and "connMode (wConn w c) \<noteq> ModeNonAuth" shows "worldOK (cmdSelect be c w)"
proof -
  define w1 where "w1 = updConn c (\<lambda>k. k\<lparr>cReadOnly := (cmdName (cmdOf c w) = ''EXAMINE'')\<rparr>) (closeMailbox be c w)"
  have cm: "worldOK (closeMailbox be c w)" by (rule closeMailbox_OK [OF assms(1)])
  have w1: "worldOK w1" unfolding w1_def by (rule worldOK_updConn [OF cm]) (simp add: connOK_def)
  have m: "connMode (wConn w1 c) \<noteq> ModeNonAuth" "cSession (wConn w1 c) \<noteq> None"
    using closeMailbox_conn [OF assms(1), of be c] assms worldOK_conn [OF assms(1), of c] by (auto simp: w1_def connOK_def)
  have none: "worldOK (updConn c (\<lambda>k. setMode ModeAuth (k\<lparr>cMailbox := None\<rparr>)) w1)"
    using m by (intro worldOK_updConn [OF w1]) (simp add: connOK_def)
  have some: "worldOK (updConn c (\<lambda>k. setMode ModeSelected (k\<lparr>cMailbox := Some h\<rparr>)) w1)" for h
    using m by (intro worldOK_updConn [OF w1]) (simp add: connOK_def)
  have cond: "worldOK (updConn c (\<lambda>k. k\<lparr>cCondstore := True\<rparr>) w2) = worldOK w2" for w2 :: "('s, 'u, 'h) world"
    by (rule worldOK_quiet) (simp add: quiet_updConn)
  show ?thesis unfolding cmdSelect_def Let_def w1_def [symmetric]
    by (rule sessionOK [OF w1 m(1)]) (auto simp: none [simplified] some [simplified] cond split: sum.splits option.splits)
qed

lemma cmdPush_OK:
  "worldOK w \<Longrightarrow> connMode (wConn w c) \<noteq> ModeNonAuth \<Longrightarrow> cmdPush (cmdOf c w) \<noteq> None \<Longrightarrow> worldOK (cmdXApplePushService v be c w)"
  unfolding cmdXApplePushService_def
  by (auto simp: Let_def intro!: sessionOK split: option.splits prod.splits)

lemma quiet_simple: "sameCore w (cmdCapability v c w)" "sameCore w (cmdID v c w)" "sameCore w (cmdIdleStart c w)"
  by (auto simp: cmdCapability_def cmdID_def Let_def intro: quiet_then)
    (auto simp: cmdIdleStart_def Let_def intro!: quiet_updConn split: option.splits)

lemma cmdCompress_OK: assumes ok: "worldOK w" shows "worldOK (cmdCompress v c (w :: ('s, 'u, 'h) world))"
proof -
  have a: "worldOK (updConn c (\<lambda>k. k\<lparr>cCompressing := True\<rparr>) w)" by (rule worldOK_updConn [OF ok]) (simp add: connOK_def)
  have b: "worldOK (updConn c (\<lambda>k. k\<lparr>cParser := (cParser k)\<lparr>pScanner := f k\<rparr>\<rparr>) w1)" if "worldOK w1"
    for f :: "('u, 'h) conn \<Rightarrow> scanner" and w1 :: "('s, 'u, 'h) world"
    by (rule worldOK_updConn [OF that]) (simp add: connOK_def)
  show ?thesis
  proof (cases "cCompressing (wConn w c)")
    case False
    then show ?thesis unfolding cmdCompress_def using a by (simp only: if_False) (rule b, simp)
  qed (use ok in \<open>simp add: cmdCompress_def\<close>)
qed

lemma cmdLogout_OK: "worldOK w \<Longrightarrow> worldOK (cmdLogout be c w)"
  by (simp add: cmdLogout_def closeConn_OK)

text \<open>What the parser guarantees of an accepted command is what the handlers need.\<close>

definition cmdReady :: "Command \<Rightarrow> Mode \<Rightarrow> bool" where
  "cmdReady cmd m \<longleftrightarrow> goodMode (cmdName cmd) m \<and> (cmdName cmd = ''SEARCH'' \<longrightarrow> searchOp (cmdSearch cmd) \<noteq> None) \<and>
     (cmdName cmd = ''XAPPLEPUSHSERVICE'' \<longrightarrow> cmdPush cmd \<noteq> None)"

lemma worldOK_if: "(P \<Longrightarrow> worldOK a) \<Longrightarrow> (\<not> P \<Longrightarrow> worldOK b) \<Longrightarrow> worldOK (if P then a else b)"
  by simp

lemma dispatch_OK:
  assumes "worldOK w" and "cmdReady (cmdOf c w) (connMode (wConn w c))"
  shows "worldOK (dispatch v be c w)"
proof -
  have q: "worldOK (cmdCapability v c w)" "worldOK (cmdID v c w)" "worldOK (cmdIdleStart c w)"
    using assms(1) by (simp_all add: worldOK_quiet [OF quiet_simple(1)] worldOK_quiet [OF quiet_simple(2)] worldOK_quiet [OF quiet_simple(3)])
  note ok = assms(1) q cmdCompress_OK cmdLogout_OK cmdLogin_OK cmdAppend_OK cmdMailboxes_OK cmdStatus_OK cmdExpunge_OK cmdClose_OK
    cmdCopyOrMove_OK cmdStoreFlags_OK cmdSearchMsgs_OK cmdFetch_OK cmdSelect_OK cmdPush_OK
  let ?n = "cmdName (cmdOf c w)" and ?m = "connMode (wConn w c)"
  have nonauth: "?m \<noteq> ModeNonAuth" if "?n \<in> {''APPEND'', ''CREATE'', ''DELETE'', ''EXAMINE'', ''LIST'', ''LSUB'', ''RENAME'', ''SELECT'',
      ''STATUS'', ''XAPPLEPUSHSERVICE'', ''COPY'', ''MOVE''}"
    using that assms(2) unfolding cmdReady_def goodMode_def by auto
  have selected: "?m = ModeSelected" if "?n \<in> {''CLOSE'', ''EXPUNGE'', ''COPY'', ''MOVE'', ''FETCH'', ''STORE'', ''SEARCH''}"
    using that assms(2) unfolding cmdReady_def goodMode_def by auto
  have args: "?n = ''SEARCH'' \<Longrightarrow> searchOp (cmdSearch (cmdOf c w)) \<noteq> None" "?n = ''XAPPLEPUSHSERVICE'' \<Longrightarrow> cmdPush (cmdOf c w) \<noteq> None"
    using assms(2) by (auto simp: cmdReady_def)
  show ?thesis unfolding dispatch_def Let_def
    by (intro worldOK_if; (elim disjE)?) (use assms(1) in \<open>simp_all add: ok nonauth selected args\<close>)
qed

lemma serveCmd_OK:
  assumes "worldOK w" and "cmdReady (cmdOf c w) (connMode (wConn w c))"
  shows "worldOK (serveCmd v be c w)"
proof -
  let ?f = "\<lambda>k. writeUpdates (k\<lparr>cRespondBuf := []\<rparr>)"
  have q: "sameCore w (updConn c ?f w)" by (rule quiet_updConn) simp
  have p: "cParser (writeUpdates k) = cParser k" for k :: "('u, 'h) conn" by (simp add: writeUpdates_def writeOut_def)
  show ?thesis unfolding serveCmd_def using assms(2) worldOK_quiet [OF q] assms(1) by (intro dispatch_OK) (simp_all add: p)
qed

lemma serveParseCmd_OK:
  assumes "worldOK w" and "serveParseCmd v be c w = Some (b, w')"
  shows "worldOK w'"
proof -
  obtain r q where p: "ParseCommand (cParser (wConn w c)) = Some (r, q)"
    using assms(2) by (auto simp: serveParseCmd_def Let_def split: option.splits)
  note m = ParseCommand_mode [OF p]
  define w1 where "w1 = updConn c (\<lambda>k. (writeOut (concat (map fst (drop (length (contLog (pScanner (cParser (wConn w c)))))
    (contLog (pScanner q))))) k)\<lparr>cParser := q\<rparr>) w"
  have w1: "worldOK w1" unfolding w1_def by (rule worldOK_updConn [OF assms(1)]) (simp add: connOK_def m writeOut_def)
  have s: "worldOK (serveCmd v be c w1)" if "r = Ok ()"
    using ParseCommand_wf [OF p [unfolded that]] by (intro serveCmd_OK [OF w1]) (auto simp: w1_def cmdReady_def m writeOut_def)
  show ?thesis using assms(2) w1 s unfolding serveParseCmd_def Let_def p option.case prod.case w1_def [symmetric]
    by (cases r) (auto split: prod.splits)
qed

lemma serverStep_OK: "serverStep v be w w' \<Longrightarrow> worldOK w \<Longrightarrow> worldOK w'"
proof (induction rule: serverStep.induct)
  case (Accept c w input e)
  then show ?case by (auto simp: accept_def worldOK_def newConn_def connOK_def NewParser_def)
next
  case (Serve c w w')
  then show ?case by (blast intro: serveParseCmd_OK)
next
  case (End c w w')
  then have w': "worldOK w'" by (blast intro: serveParseCmd_OK)
  show ?case using closeMailbox_OK [OF w', of be c]
    by (auto simp: endConn_def Let_def intro!: closeConn_OK split: option.splits)
next
  case (IdleEnd c w)
  have i: "worldOK (updConn c (\<lambda>k. k\<lparr>cParser := (cParser k)\<lparr>pScanner := sc\<rparr>, cInIdle := False\<rparr>) w)" for sc
    using IdleEnd by (intro worldOK_updConn) (simp_all add: connOK_def)
  have j: "worldOK (updConn c (\<lambda>k. k\<lparr>cIdling := False\<rparr>) w1) = worldOK w1" for w1 :: "('s, 'u, 'h) world"
    by (rule worldOK_quiet) (simp add: quiet_updConn)
  show ?case using i by (auto simp: cmdIdleEnd_def Let_def j split: prod.splits sum.splits)
next
  case (Deliver w userID mailboxID s)
  then show ?case by simp
qed

lemma initWorld_OK: "worldOK (initWorld s)"
  by (simp add: initWorld_def worldOK_def newConn_def connOK_def NewParser_def)

lemma reachable_OK: "(serverStep v be)\<^sup>*\<^sup>* (initWorld s) w \<Longrightarrow> worldOK w"
  by (induction rule: rtranclp_induct) (blast intro: serverStep_OK initWorld_OK)+

end

end
