(* ===== verification/ImapMailboxProps.thy ===== *)
theory ImapMailboxProps
  imports ImapMailbox "HOL-Library.Sublist" "HOL-Library.Multiset"
begin

text \<open>
  What the in-memory mailbox (\<open>ImapMailbox\<close>) keeps and promises: the numbering of its messages, the sequence numbers reported by
  EXPUNGE and MOVE as seen by a client that replays them, and the places where the code does something else.
\<close>

subsection \<open>Numbering\<close>

text \<open>The messages carry the sequence numbers from \<open>n\<close> on.\<close>

definition numbered :: "nat \<Rightarrow> memMsg list \<Rightarrow> bool" where
  "numbered n ms \<longleftrightarrow> map msgSeq ms = map of_nat [n..<n + length ms]"

lemma numbered_Nil [simp]: "numbered n []"
  by (simp add: numbered_def)

lemma numbered_Cons [simp]: "numbered n (m # ms) \<longleftrightarrow> msgSeq m = of_nat n \<and> numbered (Suc n) ms"
proof -
  have "[n..<n + length (m # ms)] = n # [Suc n..<Suc n + length ms]" by (subst upt_conv_Cons) simp_all
  then show ?thesis by (simp only: numbered_def list.map list.inject)
qed

lemma numbered_append [simp]: "numbered n (xs @ ys) \<longleftrightarrow> numbered n xs \<and> numbered (n + length xs) ys"
  by (induction xs arbitrary: n) simp_all

definition ascending :: "memMsg list \<Rightarrow> u32 \<Rightarrow> bool" where
  "ascending ms bound \<longleftrightarrow> sorted_wrt (<) (map msgUID ms) \<and> (\<forall>m\<in>set ms. msgUID m < bound)"

definition boxOK :: "memMailbox \<Rightarrow> bool" where
  "boxOK b \<longleftrightarrow> numbered 1 (mbMsgs b) \<and> ascending (mbMsgs b) (mbUidnext b)"

text \<open>Room for \<open>n\<close> more messages before the UIDs of the mailbox wrap around.\<close>

definition room :: "memMailbox \<Rightarrow> nat \<Rightarrow> bool" where
  "room b n \<longleftrightarrow> unat (mbUidnext b) + n < 2 ^ 32"

lemma ascending_snoc:
  assumes "ascending ms bound" and "msgUID m = bound" and "unat bound + 1 < 2 ^ 32"
  shows "ascending (ms @ [m]) (bound + 1)"
proof -
  have "bound < bound + 1" using assms(3) by (simp add: word_less_nat_alt unat_word_ariths)
  then show ?thesis using assms by (auto simp: ascending_def sorted_wrt_append dest: less_trans)
qed

lemma ascending_filter:
  assumes "ascending ms bound" and "map msgUID ks = map msgUID (filter P ms)"
  shows "ascending ks bound"
proof -
  have "sorted_wrt (<) (map msgUID (filter P ms))"
    using assms(1) by (simp add: ascending_def sorted_wrt_map sorted_wrt_filter)
  moreover have "msgUID ` set ks = msgUID ` set (filter P ms)" using assms(2) by (metis list.set_map)
  ultimately show ?thesis using assms by (auto simp: ascending_def image_iff dest!: equalityD1 subsetD)
qed

subsection \<open>Expunge\<close>

text \<open>A client's list of messages under an EXPUNGE response (RFC 3501, 7.4.1): the message with that number goes, the later ones move down.\<close>

definition expungeAt :: "u32 \<Rightarrow> 'a list \<Rightarrow> 'a list" where
  "expungeAt n xs = take (unat n - 1) xs @ drop (unat n) xs"

lemma expungeAt_mid: "length pre + 1 < 2 ^ 32 \<Longrightarrow> expungeAt (of_nat (length pre + 1)) (pre @ x # xs) = pre @ xs"
proof -
  assume "length pre + 1 < 2 ^ 32"
  then have "unat (of_nat (length pre + 1) :: u32) = length pre + 1" by (intro unat_of_nat_u32) simp
  then show ?thesis by (simp add: expungeAt_def)
qed

lemma expungeLoop_replay:
  assumes "numbered (length pre + 1 + d) ms" and "length pre + length ms < 2 ^ 32"
    and "expungeLoop gone (of_nat d) ms = (ns, kept, fs)"
  shows "numbered (length pre + 1) kept \<and> map msgUID kept = map msgUID (filter (\<lambda>m. \<not> gone m) ms) \<and>
    map msgFlags kept = map msgFlags (filter (\<lambda>m. \<not> gone m) ms) \<and>
    fs = concat (map (mailFiles \<circ> msgMail) (filter gone ms)) \<and>
    fold expungeAt ns (pre @ map msgUID ms) = pre @ map msgUID kept"
  using assms
proof (induction ms arbitrary: pre d ns kept fs)
  case Nil
  then show ?case by simp
next
  case (Cons m ms)
  have q: "msgSeq m - of_nat d = of_nat (length pre + 1)" using Cons.prems(1) by simp
  show ?case
  proof (cases "gone m")
    case True
    obtain ns' kept' fs' where r: "expungeLoop gone (of_nat (Suc d)) ms = (ns', kept', fs')" by (metis prod_cases3)
    have *: "of_nat d + 1 = (of_nat (Suc d) :: u32)" by simp
    have o: "ns = of_nat (length pre + 1) # ns'" "kept = kept'" "fs = mailFiles (msgMail m) @ fs'"
      using Cons.prems(3) True r q unfolding expungeLoop.simps * by (auto simp: Let_def)
    show ?thesis using Cons.IH [OF _ _ r, of pre] Cons.prems(1,2) True o expungeAt_mid [of pre "msgUID m" "map msgUID ms"]
      by (simp add: add.assoc)
  next
    case False
    obtain ns' kept' fs' where r: "expungeLoop gone (of_nat d) ms = (ns', kept', fs')" by (metis prod_cases3)
    have o: "ns = ns'" "kept = m\<lparr>msgSeq := of_nat (length pre + 1)\<rparr> # kept'" "fs = fs'"
      using Cons.prems(3) False r q by (auto simp: Let_def)
    show ?thesis using Cons.IH [OF _ _ r, of "pre @ [msgUID m]"] Cons.prems(1,2) False o
      by (simp add: add.assoc add.commute)
  qed
qed

lemma boxOK_length: "boxOK b \<Longrightarrow> length (mbMsgs b) < 2 ^ 32"
proof -
  assume ok: "boxOK b"
  let ?us = "map msgUID (mbMsgs b)"
  have "distinct ?us" using ok by (auto simp: boxOK_def ascending_def strict_sorted_iff)
  then have "length ?us = card (set ?us)" by (rule distinct_card [symmetric])
  also have "\<dots> = card (unat ` set ?us)" by (rule card_image [symmetric]) (auto simp: inj_on_def word_unat_eq_iff)
  also have "\<dots> \<le> card {..<unat (mbUidnext b)}"
    using ok by (intro card_mono) (auto simp: boxOK_def ascending_def word_less_nat_alt)
  also have "\<dots> < 2 ^ 32" using unsigned_less [of "mbUidnext b"] by simp
  finally show ?thesis by simp
qed

lemma Expunge_loop:
  assumes "boxOK (muBoxes u k)"
  obtains ns kept fs where "Expunge uidSeqs k u = (ns, setBox k ((muBoxes u k)\<lparr>mbMsgs := kept\<rparr>) (u\<lparr>muClosed := muClosed u @ fs\<rparr>))"
    and "expungeLoop (doomed (muArrays u) uidSeqs) 0 (mbMsgs (muBoxes u k)) = (ns, kept, fs)"
    and "numbered 1 kept" and "ascending kept (mbUidnext (muBoxes u k))"
    and "map msgUID kept = map msgUID (filter (\<lambda>m. \<not> doomed (muArrays u) uidSeqs m) (mbMsgs (muBoxes u k)))"
    and "fs = concat (map (mailFiles \<circ> msgMail) (filter (doomed (muArrays u) uidSeqs) (mbMsgs (muBoxes u k))))"
    and "fold expungeAt ns (map msgUID (mbMsgs (muBoxes u k))) = map msgUID kept"
proof -
  obtain ns kept fs where l: "expungeLoop (doomed (muArrays u) uidSeqs) 0 (mbMsgs (muBoxes u k)) = (ns, kept, fs)" by (metis prod_cases3)
  have n: "numbered 1 (mbMsgs (muBoxes u k))" "ascending (mbMsgs (muBoxes u k)) (mbUidnext (muBoxes u k))"
    using assms by (simp_all add: boxOK_def)
  note r = expungeLoop_replay [of "[]" 0, simplified, OF n(1) [simplified] boxOK_length [OF assms, simplified] l]
  show thesis
    by (rule that [OF _ l]) (use r n(2) ascending_filter [OF n(2), of kept] l in \<open>auto simp: Expunge_def Let_def\<close>)
qed

text \<open>C4: Expunge of a well-formed mailbox removes exactly the messages with \<open>\Deleted\<close> (in the given UIDs), in place, renumbers the rest
  without gaps, closes the files of the removed messages and no others, touches no other mailbox, and a client that applies the reported
  numbers in order to its list of UIDs has the mailbox's new list.\<close>

theorem expunge_replay:
  assumes "boxOK (muBoxes u k)" and "Expunge uidSeqs k u = (ns, u')"
  shows "boxOK (muBoxes u' k) \<and> (\<forall>j. j \<noteq> k \<longrightarrow> muBoxes u' j = muBoxes u j) \<and>
    map msgUID (mbMsgs (muBoxes u' k)) = map msgUID (filter (\<lambda>m. \<not> doomed (muArrays u) uidSeqs m) (mbMsgs (muBoxes u k))) \<and>
    fold expungeAt ns (map msgUID (mbMsgs (muBoxes u k))) = map msgUID (mbMsgs (muBoxes u' k)) \<and>
    muClosed u' = muClosed u @ concat (map (mailFiles \<circ> msgMail) (filter (doomed (muArrays u) uidSeqs) (mbMsgs (muBoxes u k)))) \<and>
    muArrays u' = muArrays u \<and> muModSeqNext u' = muModSeqNext u"
  by (rule Expunge_loop [OF assms(1), of uidSeqs]) (use assms in \<open>auto simp: boxOK_def\<close>)

subsection \<open>Move and Copy\<close>

lemma subseq_sorted_wrt: "subseq xs ys \<Longrightarrow> sorted_wrt P ys \<Longrightarrow> sorted_wrt P xs"
  by (induction rule: list_emb.induct) (auto dest: list_emb_set)

lemma subseq_ascending:
  assumes "ascending ms bound" and "subseq (map msgUID ks) (map msgUID ms)"
  shows "ascending ks bound"
  using assms list_emb_set [OF assms(2)] by (fastforce simp: ascending_def dest: subseq_sorted_wrt)

lemma moveLoop_spec:
  assumes "numbered (length pre + 1 + d) ms" and "mvDelta s = of_nat d" and "length pre + length ms < 2 ^ 32"
    and "numbered 1 (mvDst s)" and "ascending (mvDst s) (mvUidnext s)" and "unat (mvUidnext s) + length ms < 2 ^ 32"
    and "moveLoop uid sset dst ms s = (kept, t)"
  shows "numbered (length pre + 1) kept \<and> subseq (map msgUID kept) (map msgUID ms) \<and>
    numbered 1 (mvDst t) \<and> ascending (mvDst t) (mvUidnext t) \<and>
    (\<exists>rs. mvReports t = mvReports s @ rs \<and> fold expungeAt (map fst rs) (pre @ map msgUID ms) = pre @ map msgUID kept \<and>
      map msgUID (mvDst t) = map msgUID (mvDst s) @ map (snd \<circ> snd) rs \<and>
      mset (map msgUID ms) = mset (map msgUID kept) + mset (map (fst \<circ> snd) rs) \<and>
      (uid \<longrightarrow> map (fst \<circ> snd) rs = filter (SeqContains sset) (map msgUID ms)))"
  using assms
proof (induction ms arbitrary: pre d s kept)
  case Nil
  then show ?case by simp
next
  case (Cons m ms)
  have q: "msgSeq m - mvDelta s = of_nat (length pre + 1)" using Cons.prems(1,2) by simp
  let ?m = "m\<lparr>msgSeq := of_nat (length pre + 1)\<rparr>"
  show ?case
  proof (cases "SeqContains sset (msgID uid ?m)")
    case False
    obtain kept' where r: "moveLoop uid sset dst ms s = (kept', t)" and o: "kept = ?m # kept'"
      using Cons.prems(7) False q by (auto simp: Let_def split: prod.splits)
    show ?thesis
      using Cons.IH [OF _ Cons.prems(2) _ Cons.prems(4,5) _ r, of "pre @ [msgUID m]"] Cons.prems(1,3,6) False o
      by (auto simp: msgID_def)
  next
    case True
    let ?m2 = "?m\<lparr>msgMailbox := dst, msgUID := mvUidnext s, msgSeq := of_nat (length (mvDst s) + 1)\<rparr>"
    let ?s = "s\<lparr>mvDelta := mvDelta s + 1, mvDst := mvDst s @ [?m2], mvUidnext := mvUidnext s + 1,
      mvReports := mvReports s @ [(of_nat (length pre + 1), msgUID m, mvUidnext s)]\<rparr>"
    have r: "moveLoop uid sset dst ms ?s = (kept, t)" using Cons.prems(7) True q by (simp add: Let_def)
    have w: "unat (mvUidnext s + 1) = unat (mvUidnext s) + 1" using Cons.prems(6) by (simp add: unat_word_ariths)
    have a: "ascending (mvDst ?s) (mvUidnext ?s)"
      using ascending_snoc [OF Cons.prems(5), of ?m2] Cons.prems(6) by simp
    note IH = Cons.IH [of pre "Suc d" ?s, OF _ _ _ _ a _ r]
    show ?thesis
      using IH Cons.prems(1,2,3,4,6) True w expungeAt_mid [of pre "msgUID m" "map msgUID ms"]
      by (auto simp: msgID_def add.assoc)
  qed
qed

lemma Move_loop:
  assumes "boxOK (muBoxes u k)" and "boxOK (muBoxes u dst)" and "room (muBoxes u dst) (length (mbMsgs (muBoxes u k)))" and "dst \<noteq> k"
  obtains kept t where "Move uid sset dst k u =
      (Inr (mvReports t), setBox dst ((muBoxes u dst)\<lparr>mbMsgs := mvDst t, mbUidnext := mvUidnext t\<rparr>)
        (setBox k ((muBoxes u k)\<lparr>mbMsgs := kept\<rparr>) u))"
    and "moveLoop uid sset dst (mbMsgs (muBoxes u k))
      \<lparr>mvDelta = 0, mvDst = mbMsgs (muBoxes u dst), mvUidnext = mbUidnext (muBoxes u dst), mvReports = []\<rparr> = (kept, t)"
    and "numbered 1 kept" and "ascending kept (mbUidnext (muBoxes u k))" and "subseq (map msgUID kept) (map msgUID (mbMsgs (muBoxes u k)))"
    and "numbered 1 (mvDst t)" and "ascending (mvDst t) (mvUidnext t)"
    and "fold expungeAt (map fst (mvReports t)) (map msgUID (mbMsgs (muBoxes u k))) = map msgUID kept"
    and "map msgUID (mvDst t) = map msgUID (mbMsgs (muBoxes u dst)) @ map (snd \<circ> snd) (mvReports t)"
    and "mset (map msgUID (mbMsgs (muBoxes u k))) = mset (map msgUID kept) + mset (map (fst \<circ> snd) (mvReports t))"
    and "uid \<Longrightarrow> map (fst \<circ> snd) (mvReports t) = filter (SeqContains sset) (map msgUID (mbMsgs (muBoxes u k)))"
proof -
  let ?b = "muBoxes u k" and ?d = "muBoxes u dst"
  let ?s = "\<lparr>mvDelta = 0, mvDst = mbMsgs ?d, mvUidnext = mbUidnext ?d, mvReports = []\<rparr>"
  obtain kept t where l: "moveLoop uid sset dst (mbMsgs ?b) ?s = (kept, t)" by (metis surj_pair)
  have r: "numbered 1 kept \<and> subseq (map msgUID kept) (map msgUID (mbMsgs ?b)) \<and>
    numbered 1 (mvDst t) \<and> ascending (mvDst t) (mvUidnext t) \<and>
    (\<exists>rs. mvReports t = rs \<and> fold expungeAt (map fst rs) (map msgUID (mbMsgs ?b)) = map msgUID kept \<and>
      map msgUID (mvDst t) = map msgUID (mbMsgs ?d) @ map (snd \<circ> snd) rs \<and>
      mset (map msgUID (mbMsgs ?b)) = mset (map msgUID kept) + mset (map (fst \<circ> snd) rs) \<and>
      (uid \<longrightarrow> map (fst \<circ> snd) rs = filter (SeqContains sset) (map msgUID (mbMsgs ?b))))"
    using moveLoop_spec [of "[]" 0 "mbMsgs ?b" ?s, OF _ _ _ _ _ _ l] assms(1-3) boxOK_length [OF assms(1)]
    by (simp add: boxOK_def room_def)
  have "ascending kept (mbUidnext ?b)" using assms(1) r by (auto simp: boxOK_def intro: subseq_ascending)
  then show thesis using r l assms(4) by (intro that [of t kept]) (auto simp: Move_def Let_def)
qed

text \<open>C24: Move to another mailbox with room: whatever was selected, both mailboxes stay well-formed, the source's UIDs that stay are a
  subsequence, a client that applies the reported sequence numbers to its view of the source has the new source, the destination has its
  old UIDs followed by the reported new ones in order, the reported source UIDs and the remaining ones are the old ones, and a UID MOVE moves
  exactly the UIDs in the set.\<close>

theorem move_replay:
  assumes "boxOK (muBoxes u k)" and "boxOK (muBoxes u dst)" and "room (muBoxes u dst) (length (mbMsgs (muBoxes u k)))"
    and "Move uid sset dst k u = (Inr rs, u')"
  shows "boxOK (muBoxes u' k) \<and> boxOK (muBoxes u' dst) \<and> (\<forall>j. j \<noteq> k \<longrightarrow> j \<noteq> dst \<longrightarrow> muBoxes u' j = muBoxes u j) \<and>
    subseq (map msgUID (mbMsgs (muBoxes u' k))) (map msgUID (mbMsgs (muBoxes u k))) \<and>
    fold expungeAt (map fst rs) (map msgUID (mbMsgs (muBoxes u k))) = map msgUID (mbMsgs (muBoxes u' k)) \<and>
    map msgUID (mbMsgs (muBoxes u' dst)) = map msgUID (mbMsgs (muBoxes u dst)) @ map (snd \<circ> snd) rs \<and>
    mset (map msgUID (mbMsgs (muBoxes u k))) = mset (map msgUID (mbMsgs (muBoxes u' k))) + mset (map (fst \<circ> snd) rs) \<and>
    (uid \<longrightarrow> map (fst \<circ> snd) rs = filter (SeqContains sset) (map msgUID (mbMsgs (muBoxes u k))))"
proof -
  have "dst \<noteq> k" using assms(4) by (auto simp: Move_def)
  then show ?thesis
    by (rule Move_loop [OF assms(1-3), of uid sset]) (use assms \<open>dst \<noteq> k\<close> in \<open>auto simp: boxOK_def\<close>)
qed

lemma copy_spec:
  assumes "fold (copyStep uid sset dst) ms (ds, next, rs) = (ds', next', rs')"
    and "numbered 1 ds" and "ascending ds next" and "unat next + length ms < 2 ^ 32"
  shows "numbered 1 ds' \<and> ascending ds' next' \<and>
    (\<exists>new. rs' = rs @ new \<and> map msgUID ds' = map msgUID ds @ map snd new \<and>
      map fst new = map msgUID (filter (\<lambda>m. SeqContains sset (msgID uid m)) ms) \<and>
      map msgFlags ds' = map msgFlags ds @ map msgFlags (filter (\<lambda>m. SeqContains sset (msgID uid m)) ms) \<and>
      (\<forall>m\<in>set ds'. msgModSeq m \<in> msgModSeq ` (set ds \<union> set ms)))"
  using assms
proof (induction ms arbitrary: ds "next" rs)
  case Nil
  then show ?case by auto
next
  case (Cons m ms)
  show ?case
  proof (cases "SeqContains sset (msgID uid m)")
    case False
    then show ?thesis using Cons.IH [of ds "next" rs] Cons.prems by (auto simp: copyStep_def)
  next
    case True
    let ?m = "m\<lparr>msgMailbox := dst, msgUID := next, msgSeq := of_nat (length ds + 1)\<rparr>"
    have w: "unat (next + 1) = unat next + 1" using Cons.prems(4) by (simp add: unat_word_ariths)
    have "ascending (ds @ [?m]) (next + 1)" using ascending_snoc [OF Cons.prems(3), of ?m] Cons.prems(4) by simp
    then show ?thesis
      using Cons.IH [of "ds @ [?m]" "next + 1" "rs @ [(msgUID m, next)]"] Cons.prems True w by (auto simp: copyStep_def)
  qed
qed

subsection \<open>Flag slices\<close>

definition validSlice :: "arrays \<Rightarrow> flagSlice \<Rightarrow> bool" where
  "validSlice h s \<longleftrightarrow> fst s < length h \<and> snd s \<le> length (h ! fst s)"

text \<open>Arrays are never dropped and keep their capacity; array 0 has none.\<close>

definition extends :: "arrays \<Rightarrow> arrays \<Rightarrow> bool" where
  "extends h h' \<longleftrightarrow> length h \<le> length h' \<and> (\<forall>i<length h. length (h' ! i) = length (h ! i))"

definition arraysOK :: "arrays \<Rightarrow> bool" where
  "arraysOK h \<longleftrightarrow> h \<noteq> [] \<and> h ! 0 = []"

lemma extends_refl [simp]: "extends h h"
  by (simp add: extends_def)

lemma extends_trans [trans]: "extends h h' \<Longrightarrow> extends h' h'' \<Longrightarrow> extends h h''"
  by (auto simp: extends_def)

lemma extends_valid: "extends h h' \<Longrightarrow> validSlice h s \<Longrightarrow> validSlice h' s"
  by (auto simp: extends_def validSlice_def)

lemma extends_arraysOK: "extends h h' \<Longrightarrow> arraysOK h \<Longrightarrow> arraysOK h'"
  by (cases h) (auto simp: extends_def arraysOK_def dest: spec [where x = 0])

lemma valid_nilSlice: "arraysOK h \<Longrightarrow> validSlice h nilSlice"
  by (simp add: arraysOK_def validSlice_def nilSlice_def)

lemma sliceFlags_nil [simp]: "sliceFlags h nilSlice = []"
  by (simp add: sliceFlags_def nilSlice_def)

lemma appendFlags'_spec:
  assumes "appendFlags' grow h s xs = (h', s')" and "validSlice h s"
  shows "extends h h' \<and> validSlice h' s' \<and> sliceFlags h' s' = sliceFlags h s @ xs"
proof (cases "snd s + length xs \<le> length (h ! fst s)")
  case True
  then have "h' = h[fst s := take (snd s) (h ! fst s) @ xs @ drop (snd s + length xs) (h ! fst s)]" "s' = (fst s, snd s + length xs)"
    using assms by (auto simp: appendFlags'_def Let_def)
  then show ?thesis using assms(2) True
    by (auto simp: extends_def validSlice_def sliceFlags_def nth_list_update)
next
  case False
  then have "h' = h @ [take (snd s) (h ! fst s) @ xs @ replicate (grow (length (h ! fst s)) (snd s + length xs)) []]" "s' = (length h, snd s + length xs)"
    using assms by (auto simp: appendFlags'_def Let_def)
  then show ?thesis using assms(2) by (auto simp: extends_def validSlice_def sliceFlags_def nth_append)
qed

lemma appendEach_spec:
  "appendEach grow h s xs = (h', s') \<Longrightarrow> validSlice h s \<Longrightarrow>
    extends h h' \<and> validSlice h' s' \<and> sliceFlags h' s' = sliceFlags h s @ xs"
proof (induction xs arbitrary: h s)
  case Nil
  then show ?case by simp
next
  case (Cons x xs)
  obtain h1 s1 where a: "appendFlags' grow h s [x] = (h1, s1)" by (metis surj_pair)
  note sp = appendFlags'_spec [OF a Cons.prems(2)]
  have "appendEach grow h1 s1 xs = (h', s')" using Cons.prems(1) a by simp
  then show ?case using Cons.IH [of h1 s1] sp by (auto intro: extends_trans)
qed

lemma sortFlags_spec:
  assumes "validSlice h s"
  shows "extends h (sortFlags h s) \<and> validSlice (sortFlags h s) s \<and> sliceFlags (sortFlags h s) s = sort (sliceFlags h s)"
  using assms by (auto simp: sortFlags_def extends_def validSlice_def sliceFlags_def nth_list_update min_absorb2)

lemma storeAdd_loop:
  assumes "fold (\<lambda>f (ch, h, s). if hasFlag (sliceFlags h s) f then (ch, h, s)
      else (let (h', s') = appendFlags' grow h s [f] in (True, h', s'))) flags (ch, h, s) = (ch', h', s')"
    and "validSlice h s"
  shows "extends h h' \<and> validSlice h' s' \<and> set (sliceFlags h' s') = set (sliceFlags h s) \<union> set flags \<and>
    (ch' \<longleftrightarrow> ch \<or> \<not> set flags \<subseteq> set (sliceFlags h s))"
  using assms
proof (induction flags arbitrary: ch h s)
  case Nil
  then show ?case by simp
next
  case (Cons f fs)
  show ?case
  proof (cases "hasFlag (sliceFlags h s) f")
    case True
    then show ?thesis using Cons.IH [of ch h s] Cons.prems by (auto simp: hasFlag_def)
  next
    case False
    obtain h1 s1 where a: "appendFlags' grow h s [f] = (h1, s1)" by (metis surj_pair)
    note sp = appendFlags'_spec [OF a Cons.prems(2)]
    show ?thesis using Cons.IH [of True h1 s1] Cons.prems(1) False a sp
      by (auto simp: hasFlag_def intro: extends_trans)
  qed
qed

lemma storeAdd_spec:
  assumes "storeAdd grow flags h s = (ch, h', s')" and "validSlice h s"
  shows "extends h h' \<and> validSlice h' s' \<and> set (sliceFlags h' s') = set (sliceFlags h s) \<union> set flags \<and>
    sorted (sliceFlags h' s') \<and> (ch \<longleftrightarrow> \<not> set flags \<subseteq> set (sliceFlags h s))"
proof -
  obtain h1 where l: "fold (\<lambda>f (ch, h, s). if hasFlag (sliceFlags h s) f then (ch, h, s)
      else (let (h', s') = appendFlags' grow h s [f] in (True, h', s'))) flags (False, h, s) = (ch, h1, s')"
    and h': "h' = sortFlags h1 s'"
    using assms(1) by (auto simp: storeAdd_def split: prod.splits)
  show ?thesis using storeAdd_loop [OF l assms(2)] sortFlags_spec [of h1 s'] by (auto simp: h' intro: extends_trans)
qed

lemma storeRemove_spec:
  assumes "storeRemove grow flags h s = (ch, h', s')" and "arraysOK h"
  shows "extends h h' \<and> validSlice h' s' \<and> sliceFlags h' s' = filter (\<lambda>f. f \<notin> set flags) (sliceFlags h s) \<and>
    (ch \<longleftrightarrow> filter (\<lambda>f. f \<notin> set flags) (sliceFlags h s) \<noteq> [])"
proof -
  have "appendEach grow h nilSlice (filter (\<lambda>f. f \<notin> set flags) (sliceFlags h s)) = (h', s')"
    "ch \<longleftrightarrow> filter (\<lambda>f. f \<notin> set flags) (sliceFlags h s) \<noteq> []"
    using assms(1) by (auto simp: storeRemove_def Let_def split: prod.splits)
  then show ?thesis using appendEach_spec [OF _ valid_nilSlice [OF assms(2)]] by fastforce
qed

lemma storeReplace_spec:
  assumes "storeReplace grow flags h s = (ch, h', s')" and "validSlice h s"
  shows "extends h h' \<and> validSlice h' s' \<and>
    sliceFlags h' s' = sort (flags @ (if hasFlag (sliceFlags h s) flagRecent then [flagRecent] else [])) \<and>
    (ch \<longleftrightarrow> \<not> deepEqual h s flags)"
proof -
  obtain h1 s1 where a: "appendFlags' grow h (fst s, 0) flags = (h1, s1)" by (metis surj_pair)
  have "validSlice h (fst s, 0)" using assms(2) by (simp add: validSlice_def)
  note A = appendFlags'_spec [OF a this]
  have nil: "sliceFlags h (fst s, 0) = []" by (simp add: sliceFlags_def)
  show ?thesis
  proof (cases "hasFlag (sliceFlags h s) flagRecent")
    case True
    obtain h2 s2 where b: "appendFlags' grow h1 s1 [flagRecent] = (h2, s2)" by (metis surj_pair)
    note B = appendFlags'_spec [OF b conjunct1 [OF conjunct2 [OF A]]]
    show ?thesis using assms(1) True a b A B nil sortFlags_spec [of h2 s2]
      by (auto simp: storeReplace_def Let_def intro: extends_trans)
  next
    case False
    then show ?thesis using assms(1) a A nil sortFlags_spec [of h1 s1]
      by (auto simp: storeReplace_def Let_def intro: extends_trans)
  qed
qed

text \<open>STORE on one message, whatever other messages share its array: \<open>+FLAGS\<close> makes the flags the union, sorted, and reports
  a change iff a flag is new; \<open>-FLAGS\<close> removes exactly the given flags; \<open>FLAGS\<close> sets them, sorted, keeping \<open>\Recent\<close>;
  each leaves every slice valid and drops no array.\<close>

theorem store_flags:
  assumes "storeFlagsOf grow st h m = Some (ch, h', s')" and "arraysOK h" and "validSlice h (msgFlags m)"
    and "storeMode st \<noteq> StoreUnknown"
  shows "extends h h' \<and> validSlice h' s' \<and>
    (case storeMode st of
       StoreAdd \<Rightarrow> set (sliceFlags h' s') = set (sliceFlags h (msgFlags m)) \<union> set (storeFlags st) \<and> sorted (sliceFlags h' s') \<and>
         (ch \<longleftrightarrow> \<not> set (storeFlags st) \<subseteq> set (sliceFlags h (msgFlags m)))
     | StoreRemove \<Rightarrow> sliceFlags h' s' = filter (\<lambda>f. f \<notin> set (storeFlags st)) (sliceFlags h (msgFlags m))
     | _ \<Rightarrow> sorted (sliceFlags h' s') \<and> mset (sliceFlags h' s') =
         mset (storeFlags st) + (if hasFlag (sliceFlags h (msgFlags m)) flagRecent then {#flagRecent#} else {#}))"
  using assms storeAdd_spec [of grow "storeFlags st" h "msgFlags m" ch h' s'] storeRemove_spec [of grow "storeFlags st" h "msgFlags m" ch h' s']
    storeReplace_spec [of grow "storeFlags st" h "msgFlags m" ch h' s']
  by (cases "storeMode st") (auto simp: storeFlagsOf_def split: if_splits)

lemma storeFlagsOf_valid:
  assumes "storeFlagsOf grow st h m = Some (ch, h', s')" and "arraysOK h" and "validSlice h (msgFlags m)"
  shows "extends h h' \<and> validSlice h' s'"
  using assms storeAdd_spec [of grow "storeFlags st" h "msgFlags m" ch h' s'] storeRemove_spec [of grow "storeFlags st" h "msgFlags m" ch h' s']
    storeReplace_spec [of grow "storeFlags st" h "msgFlags m" ch h' s']
  by (cases "storeMode st") (auto simp: storeFlagsOf_def split: if_splits)

subsection \<open>The user's mailboxes\<close>

text \<open>Messages whose flags are valid slices and whose modification sequences were given out.\<close>

definition msgsOK :: "arrays \<Rightarrow> int \<Rightarrow> memMsg list \<Rightarrow> bool" where
  "msgsOK h q ms \<longleftrightarrow> (\<forall>m\<in>set ms. validSlice h (msgFlags m) \<and> msgModSeq m < q)"

lemma msgsOK_mono: "msgsOK h q ms \<Longrightarrow> extends h h' \<Longrightarrow> q \<le> q' \<Longrightarrow> msgsOK h' q' ms"
  by (auto simp: msgsOK_def dest: extends_valid)

lemma storeStep_spec:
  assumes "storeStep grow uid sset st m s = (m', s')" and "arraysOK (ssArrays s)" and "validSlice (ssArrays s) (msgFlags m)"
    and "msgModSeq m < ssModSeq s"
  shows "msgSeq m' = msgSeq m \<and> msgUID m' = msgUID m \<and> extends (ssArrays s) (ssArrays s') \<and> ssModSeq s \<le> ssModSeq s' \<and>
    validSlice (ssArrays s') (msgFlags m') \<and> msgModSeq m' < ssModSeq s'"
proof (cases "SeqContains sset (msgID uid m)")
  case False
  then show ?thesis using assms by (auto simp: storeStep_def)
next
  case True
  show ?thesis
  proof (cases "storeFlagsOf grow st (ssArrays s) m")
    case None
    then show ?thesis using assms True by (auto simp: storeStep_def)
  next
    case (Some r)
    obtain ch h fs where r: "r = (ch, h, fs)" by (metis surj_pair)
    note v = storeFlagsOf_valid [OF Some [unfolded r] assms(2,3)]
    show ?thesis using assms(1,4) True Some r v
      by (cases ch) (auto simp: storeStep_def Let_def)
  qed
qed

lemma storeLoop_spec:
  assumes "storeLoop (storeStep grow uid sset st) ms s = (ms', s')" and "arraysOK (ssArrays s)" and "msgsOK (ssArrays s) (ssModSeq s) ms"
  shows "map msgSeq ms' = map msgSeq ms \<and> map msgUID ms' = map msgUID ms \<and> extends (ssArrays s) (ssArrays s') \<and>
    ssModSeq s \<le> ssModSeq s' \<and> msgsOK (ssArrays s') (ssModSeq s') ms'"
  using assms
proof (induction ms arbitrary: s ms')
  case Nil
  then show ?case by (simp add: msgsOK_def)
next
  case (Cons m ms)
  obtain m1 s1 where a: "storeStep grow uid sset st m s = (m1, s1)" by (metis surj_pair)
  obtain ms1 where b: "storeLoop (storeStep grow uid sset st) ms s1 = (ms1, s')" and o: "ms' = m1 # ms1"
    using Cons.prems(1) a by (auto split: prod.splits)
  have A: "msgSeq m1 = msgSeq m \<and> msgUID m1 = msgUID m \<and> extends (ssArrays s) (ssArrays s1) \<and> ssModSeq s \<le> ssModSeq s1 \<and>
    validSlice (ssArrays s1) (msgFlags m1) \<and> msgModSeq m1 < ssModSeq s1"
    using Cons.prems(2,3) by (intro storeStep_spec [OF a]) (auto simp: msgsOK_def)
  have "msgsOK (ssArrays s1) (ssModSeq s1) ms" using Cons.prems(3) A by (auto simp: msgsOK_def dest: extends_valid)
  note B = Cons.IH [OF b _ this]
  show ?case using A B Cons.prems(2) o by (auto simp: msgsOK_def dest: extends_valid extends_arraysOK intro: extends_trans)
qed

definition userOK :: "memUser \<Rightarrow> bool" where
  "userOK u \<longleftrightarrow> (\<forall>k. boxOK (muBoxes u k) \<and> msgsOK (muArrays u) (muModSeqNext u) (mbMsgs (muBoxes u k))) \<and> arraysOK (muArrays u) \<and>
    distinct (map fst (muNames u)) \<and> distinct (map snd (muNames u)) \<and>
    (\<forall>(n, k)\<in>set (muNames u). mbName (muBoxes u k) = n \<and> k < muNextMailbox u)"

lemma userOK_box:
  assumes "userOK u" and "boxOK b" and "mbName b = mbName (muBoxes u k)"
    and "extends (muArrays u) h" and "muModSeqNext u \<le> q" and "msgsOK h q (mbMsgs b)"
  shows "userOK (setBox k b (u\<lparr>muArrays := h, muModSeqNext := q\<rparr>))" and "userOK (setBox k b (u\<lparr>muModSeqNext := q, muArrays := h\<rparr>))"
  using assms by (auto simp: userOK_def intro: msgsOK_mono extends_arraysOK)

lemma userOK_D:
  assumes "userOK u"
  shows "boxOK (muBoxes u k)" and "arraysOK (muArrays u)" and "msgsOK (muArrays u) (muModSeqNext u) (mbMsgs (muBoxes u k))"
  using assms by (simp_all add: userOK_def)

lemma Append_OK:
  assumes "userOK u" and "room (muBoxes u k) 1"
  shows "userOK (snd (Append grow flags dt cl k u))"
proof (cases cl)
  case (Inl e)
  then show ?thesis using assms(1) by (auto simp: Append_def Let_def userOK_def intro: msgsOK_mono)
next
  case (Inr m)
  let ?b = "muBoxes u k"
  obtain h fs where e: "appendEach grow (muArrays u) nilSlice (filter (\<lambda>f. f \<noteq> flagRecent) flags) = (h, fs)" by (metis surj_pair)
  note E = appendEach_spec [OF e valid_nilSlice [OF userOK_D(2) [OF assms(1)]]]
  note S = sortFlags_spec [OF conjunct1 [OF conjunct2 [OF E]]]
  let ?msg = "\<lparr>msgSeq = of_nat (length (mbMsgs ?b) + 1), msgUID = mbUidnext ?b, msgModSeq = muModSeqNext u, msgFlags = fs,
    msgMail = m\<lparr>mailDate := fst dt, mailZone := snd dt\<rparr>, msgMailbox = 0\<rparr>"
  let ?b' = "?b\<lparr>mbMsgs := mbMsgs ?b @ [?msg], mbUidnext := mbUidnext ?b + 1\<rparr>"
  have x: "extends (muArrays u) (sortFlags h fs)" using E S by (blast intro: extends_trans)
  have "boxOK ?b'" using userOK_D(1) [OF assms(1), of k] assms(2) ascending_snoc [of "mbMsgs ?b" "mbUidnext ?b" ?msg]
    by (simp add: boxOK_def room_def)
  moreover have "msgsOK (sortFlags h fs) (muModSeqNext u + 1) (mbMsgs ?b')"
    using msgsOK_mono [OF userOK_D(3) [OF assms(1), of k] x, of "muModSeqNext u + 1"] S by (auto simp: msgsOK_def)
  ultimately have "userOK (setBox k ?b' (u\<lparr>muModSeqNext := muModSeqNext u + 1, muArrays := sortFlags h fs\<rparr>))"
    using x by (intro userOK_box(2) [OF assms(1)]) simp_all
  then show ?thesis using Inr e by (simp add: Append_def Let_def)
qed

lemma expungeLoop_OK: "expungeLoop gone d ms = (ns, kept, fs) \<Longrightarrow> msgsOK h q ms \<Longrightarrow> msgsOK h q kept"
  by (induction ms arbitrary: d ns kept fs) (fastforce simp: msgsOK_def Let_def split: if_splits prod.splits)+

lemma Expunge_OK: assumes "userOK u" shows "userOK (snd (Expunge uidSeqs k u))"
  by (rule Expunge_loop [OF userOK_D(1) [OF assms], of uidSeqs k])
    (use assms in \<open>auto simp: userOK_def boxOK_def dest: expungeLoop_OK\<close>)

lemma moveLoop_keep:
  "\<not> SeqContains sset (msgID uid (m\<lparr>msgSeq := msgSeq m - mvDelta s\<rparr>)) \<Longrightarrow>
    moveLoop uid sset dst (m # ms) s = (let (kept, t) = moveLoop uid sset dst ms s in (m\<lparr>msgSeq := msgSeq m - mvDelta s\<rparr> # kept, t))"
  by (simp only: moveLoop.simps Let_def if_True not_False_eq_True)

lemma moveLoop_OK:
  "moveLoop uid sset dst ms s = (kept, t) \<Longrightarrow> msgsOK h q ms \<Longrightarrow> msgsOK h q (mvDst s) \<Longrightarrow> msgsOK h q kept \<and> msgsOK h q (mvDst t)"
proof (induction ms arbitrary: s kept)
  case Nil
  then show ?case by simp
next
  case (Cons m ms)
  let ?m = "m\<lparr>msgSeq := msgSeq m - mvDelta s\<rparr>"
  have m: "validSlice h (msgFlags m)" "msgModSeq m < q" and r: "msgsOK h q ms" using Cons.prems(2) by (simp_all add: msgsOK_def)
  show ?case
  proof (cases "SeqContains sset (msgID uid ?m)")
    case False
    obtain kept' t' where l: "moveLoop uid sset dst ms s = (kept', t')" by (metis surj_pair)
    have k: "kept = ?m # kept'" "t' = t" using Cons.prems(1) unfolding moveLoop_keep [OF False] l Let_def by simp_all
    have "msgsOK h q kept' \<and> msgsOK h q (mvDst t)" by (rule Cons.IH [OF l [unfolded k(2)] r Cons.prems(3)])
    then show ?thesis using m by (simp add: k(1) msgsOK_def)
  next
    case True
    note l = Cons.prems(1) [simplified moveLoop.simps Let_def, simplified True, simplified]
    show ?thesis by (rule Cons.IH [OF l r]) (use Cons.prems(3) m in \<open>simp add: msgsOK_def\<close>)
  qed
qed

lemma Move_OK:
  assumes "userOK u" and "room (muBoxes u dst) (length (mbMsgs (muBoxes u k)))"
  shows "userOK (snd (Move uid sset dst k u))"
proof (cases "dst = k")
  case True
  then show ?thesis using assms(1) by (simp add: Move_def)
next
  case False
  show ?thesis
    by (rule Move_loop [OF userOK_D(1,1) [OF assms(1)] assms(2) False, of uid sset])
      (use assms in \<open>auto simp: userOK_def boxOK_def dest!: moveLoop_OK\<close>)
qed

lemma msgsOK_iff:
  "msgsOK h q ms \<longleftrightarrow> msgFlags ` set ms \<subseteq> {s. validSlice h s} \<and> msgModSeq ` set ms \<subseteq> {..<q}"
  by (auto simp: msgsOK_def)

lemma Copy_OK:
  assumes "userOK u" and "room (muBoxes u dst) (length (mbMsgs (muBoxes u k)))"
  shows "userOK (snd (Copy uid sset dst k u))"
proof (cases "dst = k")
  case True
  then show ?thesis using assms(1) by (simp add: Copy_def)
next
  case False
  let ?d = "muBoxes u dst" and ?b = "muBoxes u k"
  obtain ds n rs where f: "fold (copyStep uid sset dst) (mbMsgs ?b) (mbMsgs ?d, mbUidnext ?d, []) = (ds, n, rs)" by (metis prod_cases3)
  have d: "numbered 1 (mbMsgs ?d)" "ascending (mbMsgs ?d) (mbUidnext ?d)" using userOK_D(1) [OF assms(1)] by (simp_all add: boxOK_def)
  note sp = copy_spec [OF f d assms(2) [unfolded room_def]]
  have c: "numbered 1 ds \<and> ascending ds n" using sp by simp
  have fl: "map msgFlags ds = map msgFlags (mbMsgs ?d) @ map msgFlags (filter (\<lambda>m. SeqContains sset (msgID uid m)) (mbMsgs ?b))"
    using sp by (elim conjE exE)
  have q: "msgModSeq ` set ds \<subseteq> msgModSeq ` (set (mbMsgs ?d) \<union> set (mbMsgs ?b))" using sp by (elim conjE exE) (simp add: image_subset_iff)
  have "msgFlags ` set ds \<subseteq> msgFlags ` (set (mbMsgs ?d) \<union> set (mbMsgs ?b))"
    unfolding list.set_map [symmetric] fl by auto
  moreover have "msgFlags ` (set (mbMsgs ?d) \<union> set (mbMsgs ?b)) \<subseteq> {s. validSlice (muArrays u) s}"
    "msgModSeq ` (set (mbMsgs ?d) \<union> set (mbMsgs ?b)) \<subseteq> {..<muModSeqNext u}"
    using userOK_D(3) [OF assms(1), of dst] userOK_D(3) [OF assms(1), of k] by (auto simp: msgsOK_def)
  ultimately have "msgsOK (muArrays u) (muModSeqNext u) ds" using q by (meson msgsOK_iff order_trans)
  then show ?thesis using c assms(1) f False by (auto simp: Copy_def Let_def userOK_def boxOK_def)
qed

lemma numbered_eq: "map msgSeq ms' = map msgSeq ms \<Longrightarrow> numbered n ms' = numbered n ms"
  by (auto simp: numbered_def dest: map_eq_imp_length_eq)

lemma ascending_eq: "map msgUID ms' = map msgUID ms \<Longrightarrow> ascending ms' b = ascending ms b"
  using ascending_filter [of ms b ms' "\<lambda>_. True"] ascending_filter [of ms' b ms "\<lambda>_. True"] by auto

lemma Store_OK: assumes "userOK u" shows "userOK (snd (Store grow uid sset st k u))"
proof -
  let ?b = "muBoxes u k" and ?s = "\<lparr>ssArrays = muArrays u, ssModSeq = muModSeqNext u, ssStored = [], ssFailed = []\<rparr>"
  obtain ms s where l: "storeLoop (storeStep grow uid sset st) (mbMsgs ?b) ?s = (ms, s)" by (metis surj_pair)
  note L = storeLoop_spec [OF l] 
  have L: "map msgSeq ms = map msgSeq (mbMsgs ?b) \<and> map msgUID ms = map msgUID (mbMsgs ?b) \<and> extends (muArrays u) (ssArrays s) \<and>
    muModSeqNext u \<le> ssModSeq s \<and> msgsOK (ssArrays s) (ssModSeq s) ms"
    using storeLoop_spec [OF l] userOK_D(2,3) [OF assms] by simp
  have "boxOK (?b\<lparr>mbMsgs := ms\<rparr>)"
    using userOK_D(1) [OF assms, of k] L numbered_eq [of ms "mbMsgs ?b" 1] ascending_eq [of ms "mbMsgs ?b"] by (simp add: boxOK_def)
  then have "userOK (setBox k (?b\<lparr>mbMsgs := ms\<rparr>) (u\<lparr>muArrays := ssArrays s, muModSeqNext := ssModSeq s\<rparr>))"
    using L by (intro userOK_box(1) [OF assms]) simp_all
  then show ?thesis using l by (simp add: Store_def Let_def)
qed

lemma SetSeen_OK:
  assumes "userOK u" and "i < length (mbMsgs (muBoxes u k))"
  shows "userOK (snd (SetSeen grow fetched i k u))"
proof (cases "hasFlag fetched flagSeen")
  case True
  then show ?thesis using assms(1) by (simp add: SetSeen_def)
next
  case False
  let ?b = "muBoxes u k" and ?m = "mbMsgs (muBoxes u k) ! i"
  obtain h fs where a: "appendFlags' grow (muArrays u) (msgFlags ?m) [flagSeen] = (h, fs)" by (metis surj_pair)
  have m: "validSlice (muArrays u) (msgFlags ?m)" "msgModSeq ?m < muModSeqNext u"
    using userOK_D(3) [OF assms(1), of k] assms(2) by (auto simp: msgsOK_def)
  note A = appendFlags'_spec [OF a m(1)]
  note S = sortFlags_spec [OF conjunct1 [OF conjunct2 [OF A]]]
  let ?ms = "(mbMsgs ?b)[i := ?m\<lparr>msgFlags := fs\<rparr>]" and ?h = "sortFlags h fs"
  have x: "extends (muArrays u) ?h" using A S by (blast intro: extends_trans)
  have "msgsOK ?h (muModSeqNext u) ?ms"
    using msgsOK_mono [OF userOK_D(3) [OF assms(1), of k] x, of "muModSeqNext u"] S m
    by (auto simp: msgsOK_def dest!: subsetD [OF set_update_subset_insert])
  moreover have "map msgSeq ?ms = map msgSeq (mbMsgs ?b)" "map msgUID ?ms = map msgUID (mbMsgs ?b)"
    by (simp_all add: map_update list_update_same_conv assms(2))
  then have "boxOK (?b\<lparr>mbMsgs := ?ms\<rparr>)"
    using userOK_D(1) [OF assms(1), of k] numbered_eq [of ?ms "mbMsgs ?b" 1] ascending_eq [of ?ms "mbMsgs ?b"] by (simp add: boxOK_def)
  ultimately have "userOK (setBox k (?b\<lparr>mbMsgs := ?ms\<rparr>) (u\<lparr>muArrays := ?h, muModSeqNext := muModSeqNext u\<rparr>))"
    using x by (intro userOK_box(1) [OF assms(1)]) simp_all
  then show ?thesis using False a by (simp add: SetSeen_def Let_def)
qed

lemma deleteName_sub: "set (deleteName n ns) \<subseteq> set ns" "map fst (deleteName n ns) = filter (\<lambda>x. x \<noteq> n) (map fst ns)"
  by (auto simp: deleteName_def filter_map comp_def)

lemma Create_OK: assumes "userOK u" shows "userOK (snd (CreateMailbox name attrs u))"
proof (cases "map_of (muNames u) name")
  case None
  then have "name \<notin> set (map fst (muNames u))" by (simp add: map_of_eq_None_iff)
  then show ?thesis using assms None
    by (auto simp: CreateMailbox_def Let_def userOK_def boxOK_def ascending_def msgsOK_def)
qed (use assms in \<open>simp add: CreateMailbox_def\<close>)

lemma Delete_OK: assumes "userOK u" shows "userOK (snd (DeleteMailbox name u))"
  using assms deleteName_sub [of name "muNames u"]
  by (auto simp: DeleteMailbox_def userOK_def deleteName_def distinct_map_filter split: option.splits)

lemma Rename_OK: assumes "userOK u" shows "userOK (snd (RenameMailbox old new u))"
proof (cases "map_of (muNames u) old")
  case None
  then show ?thesis using assms by (simp add: RenameMailbox_def)
next
  case (Some k)
  show ?thesis
  proof (cases "map_of (muNames u) new")
    case None
    then have n: "new \<notin> set (map fst (muNames u))" by (simp add: map_of_eq_None_iff)
    have i: "inj_on snd (set (muNames u))" "distinct (map fst (muNames u))"
      using assms by (simp_all add: userOK_def distinct_map)
    have k: "(old, k) \<in> set (muNames u)" using Some by (rule map_of_SomeD)
    have ne: "k' \<noteq> k" if "(n', k') \<in> set (deleteName old (muNames u))" for n' k'
      using that k inj_onD [OF i(1), of "(n', k')" "(old, k)"] by (auto simp: deleteName_def)
    have "userOK (setBox k ((muBoxes u k)\<lparr>mbName := new, mbUidValidity := muUidValidityNext u\<rparr>)
      (u\<lparr>muNames := (new, k) # deleteName old (muNames u), muUidValidityNext := muUidValidityNext u + 1\<rparr>))"
      using assms n k ne deleteName_sub [of old "muNames u"]
      by (fastforce simp: userOK_def boxOK_def deleteName_def distinct_map_filter)
    then show ?thesis using Some None by (simp add: RenameMailbox_def)
  next
    case (Some k')
    then show ?thesis using assms \<open>map_of (muNames u) old = Some k\<close> by (simp add: RenameMailbox_def)
  qed
qed

text \<open>One operation of one session of the user. Append, Move and Copy are those that find room for the new UIDs.\<close>

inductive memStep :: "(nat \<Rightarrow> nat \<Rightarrow> nat) \<Rightarrow> memUser \<Rightarrow> memUser \<Rightarrow> bool" for grow where
  "room (muBoxes u k) 1 \<Longrightarrow> memStep grow u (snd (Append grow flags dt cl k u))"
| "memStep grow u (snd (Expunge uidSeqs k u))"
| "memStep grow u (snd (Store grow uid sset st k u))"
| "room (muBoxes u dst) (length (mbMsgs (muBoxes u k))) \<Longrightarrow> memStep grow u (snd (Move uid sset dst k u))"
| "room (muBoxes u dst) (length (mbMsgs (muBoxes u k))) \<Longrightarrow> memStep grow u (snd (Copy uid sset dst k u))"
| "i < length (mbMsgs (muBoxes u k)) \<Longrightarrow> memStep grow u (snd (SetSeen grow fetched i k u))"
| "memStep grow u (snd (CreateMailbox name attrs u))"
| "memStep grow u (snd (DeleteMailbox name u))"
| "memStep grow u (snd (RenameMailbox old new u))"

lemma memStep_OK: "memStep grow u u' \<Longrightarrow> userOK u \<Longrightarrow> userOK u'"
  by (induction rule: memStep.induct)
    (rule Append_OK Expunge_OK Store_OK Move_OK Copy_OK SetSeen_OK Create_OK Delete_OK Rename_OK; assumption)+

lemma newUser_OK: "userOK (newUser n)"
  by (simp add: newUser_def userOK_def boxOK_def ascending_def msgsOK_def arraysOK_def)

lemma AddUser_OK: "userOK (AddUser n)"
  by (simp add: AddUser_def Create_OK newUser_OK)


text \<open>A new user with two messages in INBOX: the first is \<open>\Deleted\<close>, the second \<open>\Seen\<close>.\<close>

definition exampleMail :: mail where
  "exampleMail = \<lparr>mailHeader = (\<lambda>_. []), mailDate = 0, mailZone = 0, mailSize = 10, mailFiles = [7]\<rparr>"

definition exampleUser :: memUser where
  "exampleUser = snd (Append (\<lambda>c n. n) [flagSeen] (0, 0) (Inr exampleMail) 0
     (snd (Append (\<lambda>c n. n) [flagDeleted] (0, 0) (Inr exampleMail) 0 (AddUser 0))))"

lemma AddUser_room: "room (muBoxes (AddUser 0) 0) 2"
  by (simp add: room_def AddUser_def newUser_def CreateMailbox_def Let_def)

lemma AddUser_0:
  "muBoxes (AddUser 0) 0 = \<lparr>mbName = ''INBOX'', mbAttrs = 0, mbMsgs = [], mbUidnext = 1, mbUidValidity = 500000\<rparr>"
  "muBoxes (AddUser 0) 5 = \<lparr>mbName = ''Spam'', mbAttrs = 512, mbMsgs = [], mbUidnext = 1, mbUidValidity = 500005\<rparr>"
  "muArrays (AddUser 0) = [[]]" "muModSeqNext (AddUser 0) = 900000" "muClosed (AddUser 0) = []"
  by (simp_all add: AddUser_def newUser_def CreateMailbox_def Let_def AttrJunk_def)

lemma flags_distinct [simp]: "flagSeen \<noteq> flagDeleted" "flagDeleted \<noteq> flagSeen" "flagSeen \<noteq> flagRecent" "flagDeleted \<noteq> flagRecent"
  by (simp_all add: flagSeen_def flagDeleted_def flagRecent_def)

lemma exampleUser_OK: "userOK exampleUser"
  unfolding exampleUser_def
  by (intro Append_OK AddUser_OK) (simp_all add: AddUser_0 room_def Append_def Let_def split_beta)

lemma exampleUser_msgs:
  "mbMsgs (muBoxes exampleUser 0) =
    [\<lparr>msgSeq = 1, msgUID = 1, msgModSeq = 900000, msgFlags = (1, 1), msgMail = exampleMail, msgMailbox = 0\<rparr>,
     \<lparr>msgSeq = 2, msgUID = 2, msgModSeq = 900001, msgFlags = (2, 1), msgMail = exampleMail, msgMailbox = 0\<rparr>]"
  "muArrays exampleUser = [[], [flagDeleted, []], [flagSeen, []]]"
  "mbMsgs (muBoxes exampleUser 5) = []" "mbUidnext (muBoxes exampleUser 5) = 1"
  by (simp_all add: exampleUser_def Append_def AddUser_0 Let_def appendFlags'_def nilSlice_def sortFlags_def split_beta exampleMail_def)


theorem expunge_replay_witness:
  "fold expungeAt (fst (Expunge None 0 exampleUser)) [1, 2] = ([2] :: u32 list)"
proof -
  have d: "filter (\<lambda>m. \<not> doomed (muArrays exampleUser) None m) (mbMsgs (muBoxes exampleUser 0)) = [mbMsgs (muBoxes exampleUser 0) ! 1]"
    by (simp add: exampleUser_msgs doomed_def hasFlag_def sliceFlags_def)
  obtain ns u' where e: "Expunge None 0 exampleUser = (ns, u')" by (metis surj_pair)
  have "fold expungeAt ns (map msgUID (mbMsgs (muBoxes exampleUser 0))) =
    map msgUID (filter (\<lambda>m. \<not> doomed (muArrays exampleUser) None m) (mbMsgs (muBoxes exampleUser 0)))"
    using expunge_replay [OF userOK_D(1) [OF exampleUser_OK] e] by metis
  then show ?thesis unfolding d e by (simp add: exampleUser_msgs)
qed

theorem move_replay_witness:
  "\<exists>rs u'. Move True [mkSeq 2 2] 5 0 exampleUser = (Inr rs, u') \<and> map (fst \<circ> snd) rs = [2] \<and> boxOK (muBoxes u' 5)"
proof -
  obtain rs u' where m: "Move True [mkSeq 2 2] 5 0 exampleUser = (Inr rs, u')"
    by (cases "Move True [mkSeq 2 2] 5 0 exampleUser") (auto simp: Move_def Let_def split: prod.splits)
  have "room (muBoxes exampleUser 5) (length (mbMsgs (muBoxes exampleUser 0)))" by (simp add: room_def exampleUser_msgs)
  from move_replay [OF userOK_D(1,1) [OF exampleUser_OK] this m]
  have r: "map (fst \<circ> snd) rs = filter (SeqContains [mkSeq 2 2]) (map msgUID (mbMsgs (muBoxes exampleUser 0)))"
    and b: "boxOK (muBoxes u' 5)" by (elim conjE, simp only: simp_thms)+
  have "filter (SeqContains [mkSeq 2 2]) (map msgUID (mbMsgs (muBoxes exampleUser 0))) = [2]"
    by (simp add: exampleUser_msgs SeqContains_def word_le_nat_alt)
  with r have "map (fst \<circ> snd) rs = [2]" by (rule trans)
  with m b show ?thesis by (intro exI [of _ rs] exI [of _ u'] conjI)
qed

theorem store_flags_witness:
  "let (ch, h, s) = the (storeFlagsOf (\<lambda>c n. n) \<lparr>storeMode = StoreAdd, storeSilent = False, storeFlags = [flagSeen], unchangedSince = 0\<rparr>
     (muArrays exampleUser) (mbMsgs (muBoxes exampleUser 0) ! 0)) in ch \<and> set (sliceFlags h s) = {flagDeleted, flagSeen}"
proof -
  let ?st = "\<lparr>storeMode = StoreAdd, storeSilent = False, storeFlags = [flagSeen], unchangedSince = 0\<rparr>"
  let ?m = "mbMsgs (muBoxes exampleUser 0) ! 0"
  obtain ch h s where r: "storeFlagsOf (\<lambda>c n. n) ?st (muArrays exampleUser) ?m = Some (ch, h, s)"
    by (simp add: storeFlagsOf_def) (metis surj_pair)
  show ?thesis using store_flags [OF r userOK_D(2) [OF exampleUser_OK]] r
    by (auto simp: exampleUser_msgs validSlice_def sliceFlags_def)
qed

subsection \<open>Where the operations do something else\<close>

lemma moveLoop_number_one:
  "numbered (Suc d) ms \<Longrightarrow> mvDelta s = of_nat d \<Longrightarrow> fst (moveLoop False [mkSeq 1 1] dst ms s) = []"
proof (induction ms arbitrary: d s)
  case Nil
  then show ?case by simp
next
  case (Cons m ms)
  have "msgSeq m - mvDelta s = 1" using Cons.prems by simp
  then show ?case using Cons.IH [of "Suc d"] Cons.prems by (simp add: Let_def SeqContains_def msgID_def)
qed

text \<open>MOVE by sequence number tests each message against the set after taking off the messages moved before it: moving message 1
  moves every message of the mailbox.\<close>

theorem move_one_moves_all:
  assumes "userOK u" and "Move False [mkSeq 1 1] dst k u = (Inr rs, u')"
  shows "mbMsgs (muBoxes u' k) = []"
proof -
  have n: "numbered (Suc 0) (mbMsgs (muBoxes u k))" using userOK_D(1) [OF assms(1), of k] by (simp add: boxOK_def)
  show ?thesis
    using assms(2) moveLoop_number_one [OF n, of "\<lparr>mvDelta = 0, mvDst = mbMsgs (muBoxes u dst), mvUidnext = mbUidnext (muBoxes u dst),
      mvReports = []\<rparr>" dst]
    by (auto simp: Move_def Let_def split: if_splits prod.splits)
qed

text \<open>STORE \<open>-FLAGS\<close> on one message reports it and takes a new modification sequence iff some flag remains, not iff one was
  removed: removing the only flag is not reported, removing a flag that is not set is.\<close>

theorem store_remove_reports:
  assumes "storeMode st = StoreRemove" and "SeqContains sset (msgID uid m)" and "unchangedSince st = 0"
  shows "(ssStored (snd (storeStep grow uid sset st m s)) \<noteq> ssStored s \<longleftrightarrow>
      filter (\<lambda>f. f \<notin> set (storeFlags st)) (sliceFlags (ssArrays s) (msgFlags m)) \<noteq> []) \<and>
    (ssModSeq (snd (storeStep grow uid sset st m s)) \<noteq> ssModSeq s \<longleftrightarrow>
      filter (\<lambda>f. f \<notin> set (storeFlags st)) (sliceFlags (ssArrays s) (msgFlags m)) \<noteq> [])"
  using assms by (auto simp: storeStep_def storeFlagsOf_def storeRemove_def Let_def split: prod.splits)

theorem move_one_moves_all_witness:
  "\<exists>rs u'. Move False [mkSeq 1 1] 5 0 exampleUser = (Inr rs, u') \<and> mbMsgs (muBoxes u' 0) = []"
proof -
  obtain rs u' where m: "Move False [mkSeq 1 1] 5 0 exampleUser = (Inr rs, u')"
    by (cases "Move False [mkSeq 1 1] 5 0 exampleUser") (auto simp: Move_def Let_def split: prod.splits)
  then show ?thesis using move_one_moves_all [OF exampleUser_OK m] by blast
qed

text \<open>COPY shares the array of flags: after a message with a flag is copied, replacing the original's flags by \<open>(\Deleted)\<close>
  makes the copy \<open>\Deleted\<close> too, and EXPUNGE in the destination removes it.\<close>

theorem copy_shares_flags:
  assumes "userOK u" and "dst \<noteq> k" and "mbMsgs (muBoxes u k) = [m]" and "mbMsgs (muBoxes u dst) = []"
    and "sliceFlags (muArrays u) (msgFlags m) = [f]" and "f \<noteq> flagRecent" and "f \<noteq> flagDeleted"
    and "storeMode st = StoreReplace" and "storeFlags st = [flagDeleted]" and "unchangedSince st = 0"
  shows "fst (Expunge None dst (snd (Copy True [mkSeq 0 0] dst k u))) = [] \<and>
    fst (Expunge None dst (snd (Store grow True [mkSeq 0 0] st k (snd (Copy True [mkSeq 0 0] dst k u))))) = [1]"
proof -
  have v: "validSlice (muArrays u) (msgFlags m)" using userOK_D(3) [OF assms(1), of k] assms(3) by (simp add: msgsOK_def)
  have "snd (msgFlags m) = 1"
    using assms(5) v by (auto simp: sliceFlags_def validSlice_def min_absorb2 dest: arg_cong [where f = length])
  then obtain a where s: "msgFlags m = (a, 1)" by (metis prod.collapse)
  have a: "a < length (muArrays u)" "1 \<le> length (muArrays u ! a)" using v by (simp_all add: s validSlice_def)
  let ?u1 = "snd (Copy True [mkSeq 0 0] dst k u)"
  have c: "mbMsgs (muBoxes ?u1 dst) = [m\<lparr>msgMailbox := dst, msgUID := mbUidnext (muBoxes u dst), msgSeq := 1\<rparr>]"
    "mbMsgs (muBoxes ?u1 k) = [m]" "muArrays ?u1 = muArrays u"
    using assms(2-4) by (simp_all add: Copy_def Let_def copyStep_def SeqContains_def)
  let ?h = "(muArrays u)[a := flagDeleted # drop 1 (muArrays u ! a)]"
  have r: "storeFlagsOf grow st (muArrays u) m = Some (True, ?h, (a, 1))"
    using assms(5-10) a
    by (simp add: storeFlagsOf_def storeReplace_def deepEqual_def hasFlag_def appendFlags'_def s Let_def sortFlags_def)
  let ?u2 = "snd (Store grow True [mkSeq 0 0] st k ?u1)"
  have "muArrays ?u2 = ?h" "muBoxes ?u2 dst = muBoxes ?u1 dst"
    using assms(2) r by (simp_all add: Store_def c Let_def storeStep_def SeqContains_def split_beta)
  then show ?thesis using a assms(5,7)
    by (simp add: Expunge_def c Let_def doomed_def hasFlag_def s) (simp add: sliceFlags_def)
qed

theorem copy_shares_flags_witness:
  "let u = snd (Expunge None 0 exampleUser); st = \<lparr>storeMode = StoreReplace, storeSilent = False, storeFlags = [flagDeleted], unchangedSince = 0\<rparr> in
    fst (Expunge None 5 (snd (Store (\<lambda>c n. n) True [mkSeq 0 0] st 0 (snd (Copy True [mkSeq 0 0] 5 0 u))))) = [1]"
proof -
  let ?u = "snd (Expunge None 0 exampleUser)"
  let ?st = "\<lparr>storeMode = StoreReplace, storeSilent = False, storeFlags = [flagDeleted], unchangedSince = 0\<rparr>"
  have d: "doomed (muArrays exampleUser) None (mbMsgs (muBoxes exampleUser 0) ! 0)"
    "\<not> doomed (muArrays exampleUser) None (mbMsgs (muBoxes exampleUser 0) ! 1)"
    by (simp_all add: exampleUser_msgs doomed_def hasFlag_def sliceFlags_def)
  have "mbMsgs (muBoxes ?u 0) = [\<lparr>msgSeq = 1, msgUID = 2, msgModSeq = 900001, msgFlags = (2, 1), msgMail = exampleMail, msgMailbox = 0\<rparr>]"
    "mbMsgs (muBoxes ?u 5) = []" "sliceFlags (muArrays ?u) (2, 1) = [flagSeen]"
    using d by (simp_all add: Expunge_def exampleUser_msgs Let_def sliceFlags_def split_beta)
  then show ?thesis
    using copy_shares_flags [OF Expunge_OK [OF exampleUser_OK], of 5 0 None 0 _ flagSeen ?st "\<lambda>c n. n"] by (simp add: Let_def)
qed

theorem store_remove_reports_witness:
  "let st = \<lparr>storeMode = StoreRemove, storeSilent = False, storeFlags = [flagDeleted], unchangedSince = 0\<rparr>;
       s = \<lparr>ssArrays = muArrays exampleUser, ssModSeq = 900002, ssStored = [], ssFailed = []\<rparr> in
    ssStored (snd (storeStep (\<lambda>c n. n) True [mkSeq 0 0] st (mbMsgs (muBoxes exampleUser 0) ! 0) s)) = []"
  using store_remove_reports [of "\<lparr>storeMode = StoreRemove, storeSilent = False, storeFlags = [flagDeleted], unchangedSince = 0\<rparr>"
      "[mkSeq 0 0]" True "mbMsgs (muBoxes exampleUser 0) ! 0" "\<lambda>c n. n"
      "\<lparr>ssArrays = muArrays exampleUser, ssModSeq = 900002, ssStored = [], ssFailed = []\<rparr>"]
  by (simp add: exampleUser_msgs SeqContains_def sliceFlags_def Let_def split_beta)

end
