(* ===== verification/ImapUpdates.thy ===== *)
theory ImapUpdates
  imports ImapServerProps ImapMailboxProps
begin

text \<open>
  What a connection that watches a mailbox is told when other connections of its user change it (\<open>sendIdleUpdate\<close>,
  \<open>writeUpdates\<close>), and the contract of the data store (\<open>mail_store\<close>) under which this keeps the client's view of the
  mailbox right.
\<close>

subsection \<open>What a watching connection is told\<close>

definition receive :: "idleUpdate \<Rightarrow> ('u, 'h) conn \<Rightarrow> ('u, 'h) conn" where
  "receive u k = (let k1 = receiveUpdate u k in if cIdling k1 then writeUpdates k1 else k1)"

lemma sendTo_simps [simp]:
  "wUsers (sendTo be c i u d w) = wUsers w" "wStore (sendTo be c i u d w) = wStore w"
  "wConn (sendTo be c i u d w) e = (if e = d then
     (if d = c then (if \<not> iuSkipSelf u \<and> watches be i (wConn w d) then receiveUpdate u (wConn w d) else wConn w d)
      else if watches be i (wConn w d) then receive u (wConn w d) else wConn w d) else wConn w e)"
  by (simp_all add: sendTo_def receive_def)

lemma fold_sendTo_frame:
  "wUsers (fold (sendTo be c i u) ds w) = wUsers w" "wStore (fold (sendTo be c i u) ds w) = wStore w"
  "e \<notin> set ds \<Longrightarrow> wConn (fold (sendTo be c i u) ds w) e = wConn w e"
  by (induction ds arbitrary: w) simp_all

lemma fold_sendTo:
  assumes "distinct ds" and "e \<in> set ds" and "e \<noteq> c"
  shows "wConn (fold (sendTo be c i u) ds w) e = (if watches be i (wConn w e) then receive u (wConn w e) else wConn w e)"
  using assms
proof (induction ds arbitrary: w)
  case (Cons d ds)
  show ?case
  proof (cases "e = d")
    case True
    then show ?thesis using Cons.prems fold_sendTo_frame(3) [of e ds be c i u "sendTo be c i u d w"] by simp
  next
    case False
    then show ?thesis using Cons.prems Cons.IH [of "sendTo be c i u d w"] by simp
  qed
qed simp

lemma core_receive: "core (receive u k) = core k" "cIdleStarted (receive u k) = cIdleStarted k" "cIdling (receive u k) = cIdling k"
  "cClosed (receive u k) = cClosed k"
  by (simp_all add: receive_def Let_def receiveUpdate_def writeUpdates_def writeOut_def core_def)

lemma watches_receive: "watches be i (receive u k) = watches be i k"
  using core_receive [of u k] by (auto simp: watches_def core_def split: option.splits)

lemma cUserID_send: "cUserID (wConn (sendIdleUpdate be c i u w) d) = cUserID (wConn w d)"
  using quiet_send [of w be c i u] by (auto simp: sameCore_def core_def)

lemma fold_watches: "watches be i (fold receive us k) = watches be i k"
  by (induction us arbitrary: k) (simp_all add: watches_receive)

lemma sendIdleUpdate_conn:
  assumes "distinct (wUsers w (cUserID (wConn w c)))" and "d \<noteq> c" and "d \<in> set (wUsers w (cUserID (wConn w c)))"
  shows "wConn (sendIdleUpdate be c i u w) d = (if watches be i (wConn w d) then receive u (wConn w d) else wConn w d)"
    and "wUsers (sendIdleUpdate be c i u w) = wUsers w"
  using fold_sendTo [OF assms(1,3,2), of be i u w] by (simp_all add: sendIdleUpdate_def fold_sendTo_frame)

text \<open>A watching connection receives the updates in order.\<close>

lemma sendAll_conn:
  assumes "distinct (wUsers w (cUserID (wConn w c)))" and "d \<noteq> c" and "d \<in> set (wUsers w (cUserID (wConn w c)))"
    and "watches be i (wConn w d)"
  shows "wConn (sendAll be c i us w) d = fold receive us (wConn w d) \<and> wUsers (sendAll be c i us w) = wUsers w"
  using assms
proof (induction us arbitrary: w)
  case (Cons u us)
  let ?w = "sendIdleUpdate be c i u w"
  have "wConn ?w d = receive u (wConn w d)" "wUsers ?w = wUsers w"
    using sendIdleUpdate_conn [OF Cons.prems(1-3), of be i u] Cons.prems(4) by simp_all
  then show ?case using Cons.IH [of ?w] Cons.prems by (simp add: cUserID_send watches_receive)
qed simp

lemma sendAll_store: "wStore (sendAll be c i us w) = wStore w"
  by (induction us arbitrary: w) (simp_all add: sendIdleUpdate_def fold_sendTo_frame)

lemma pruneUpdates_one [simp]: "pruneUpdates [u] = [u]"
  by (simp add: pruneUpdates_def)

lemma receive_idling:
  assumes "cIdling k" and "cUpdates k = []" and "\<not> cClosed k"
  shows "cOut (fold receive us k) = cOut k @ concat (map updateText us) \<and> cUpdates (fold receive us k) = []"
  using assms
proof (induction us arbitrary: k)
  case (Cons u us)
  have "cOut (receive u k) = cOut k @ updateText u" "cUpdates (receive u k) = []"
    using Cons.prems by (simp_all add: receive_def Let_def receiveUpdate_def writeUpdates_def writeOut_def)
  then show ?case using Cons.IH [of "receive u k"] Cons.prems by (simp add: core_receive)
qed simp

lemma receive_waiting: "\<not> cIdling k \<Longrightarrow> cUpdates (fold receive us k) = cUpdates k @ us \<and> cOut (fold receive us k) = cOut k"
  by (induction us arbitrary: k) (simp_all add: receive_def Let_def receiveUpdate_def)

subsection \<open>Pruning\<close>

text \<open>The number of messages that a client believes in after an update.\<close>

definition countAfter :: "idleUpdate \<Rightarrow> u32 \<Rightarrow> u32" where
  "countAfter u n = (case iuType u of IdleTotalCount \<Rightarrow> iuValue u | IdleExpunge \<Rightarrow> n - 1)"

lemma dropCounts_spec:
  "m = length (filter (\<lambda>u. iuType u = IdleTotalCount) us) \<Longrightarrow>
    filter (\<lambda>u. iuType u = IdleExpunge) (dropCounts m us) = filter (\<lambda>u. iuType u = IdleExpunge) us \<and>
    length (filter (\<lambda>u. iuType u = IdleTotalCount) (dropCounts m us)) \<le> 1 \<and>
    (0 < m \<longrightarrow> fold countAfter (dropCounts m us) n = fold countAfter us n') \<and> (m = 0 \<longrightarrow> dropCounts m us = us)"
proof (induction us arbitrary: m n n')
  case (Cons u us)
  let ?m = "length (filter (\<lambda>u. iuType u = IdleTotalCount) us)"
  show ?case
  proof (cases "iuType u")
    case IdleTotalCount
    then have m: "m = Suc ?m" using Cons.prems by simp
    show ?thesis
    proof (cases "?m = 0")
      case True
      then have "dropCounts 1 us = us \<and> filter (\<lambda>u. iuType u = IdleTotalCount) us = []"
      proof -
        have "dropCounts k us = us" if "filter (\<lambda>u. iuType u = IdleTotalCount) us = []" for k
          using that by (induction us arbitrary: k) (auto split: if_splits)
        then show ?thesis using True by simp
      qed
      then show ?thesis using m True IdleTotalCount by (simp add: countAfter_def)
    next
      case False
      then have "0 < ?m" by linarith
      then show ?thesis using Cons.IH [OF refl, of n "countAfter u n'"] m IdleTotalCount by simp
    qed
  next
    case IdleExpunge
    then have m: "m = ?m" using Cons.prems by simp
    then show ?thesis using Cons.IH [OF m, of "countAfter u n" "countAfter u n'"] IdleExpunge by auto
  qed
qed simp

text \<open>Dropping the out-of-date EXISTS updates keeps every EXPUNGE in its order and at most one EXISTS, and leaves the client with
  the same number of messages.\<close>

theorem prune_sound:
  "filter (\<lambda>u. iuType u = IdleExpunge) (pruneUpdates us) = filter (\<lambda>u. iuType u = IdleExpunge) us \<and>
   length (filter (\<lambda>u. iuType u = IdleTotalCount) (pruneUpdates us)) \<le> 1 \<and>
   fold countAfter (pruneUpdates us) n = fold countAfter us n"
  using dropCounts_spec [OF refl, of us n n] by (auto simp: pruneUpdates_def Let_def)

text \<open>A client with \<open>n\<close> messages accepts an EXPUNGE of a number from 1 to \<open>n\<close>.\<close>

fun legalUpdates :: "u32 \<Rightarrow> idleUpdate list \<Rightarrow> bool" where
  "legalUpdates n [] \<longleftrightarrow> True"
| "legalUpdates n (u # us) \<longleftrightarrow>
     (iuType u = IdleExpunge \<longrightarrow> 0 < iuValue u \<and> iuValue u \<le> n) \<and> legalUpdates (countAfter u n) us"

text \<open>Dropping an EXISTS that came before an EXPUNGE can make the EXPUNGE name a message the client does not have: after one message
  was delivered and expunged again, the client is sent the EXPUNGE of a number beyond its mailbox.\<close>

theorem dropped_exists:
  assumes "n < n + 1"
  shows "legalUpdates n [totalCount (n + 1) False, expungeUpdate (n + 1), totalCount n False] \<and>
    \<not> legalUpdates n (pruneUpdates [totalCount (n + 1) False, expungeUpdate (n + 1), totalCount n False])"
proof -
  have "0 < n + 1" using word_zero_le assms by (rule le_less_trans)
  then show ?thesis using assms by (auto simp: pruneUpdates_def countAfter_def)
qed

theorem dropped_exists_witness:
  "legalUpdates 5 [totalCount (5 + 1) False, expungeUpdate (5 + 1), totalCount 5 False] \<and>
    \<not> legalUpdates 5 (pruneUpdates [totalCount (5 + 1) False, expungeUpdate (5 + 1), totalCount 5 False])"
  by (rule dropped_exists) simp

subsection \<open>The contract of the data store\<close>

text \<open>The store knows the UIDs of a mailbox; the sequence numbers that Expunge and Move call back with, applied in order, lead from the
  old list to the new one, and Info counts it. \<open>fits\<close> says that the second mailbox has room for
  the messages of the first.\<close>

locale mail_store =
  fixes be :: "('s, 'u, 'h, 'm) backend" and good :: "'s \<Rightarrow> bool" and uids :: "'h \<Rightarrow> 's \<Rightarrow> u32 list"
    and fits :: "'h \<Rightarrow> 'h \<Rightarrow> 's \<Rightarrow> bool"
  assumes expunge_law: "good s \<Longrightarrow> beExpunge be h q s = ((None, ns), s') \<Longrightarrow> good s' \<and> fold expungeAt ns (uids h s) = uids h s'"
    and move_law: "good s \<Longrightarrow> fits h dst s \<Longrightarrow> beMove be h uid sset dst s = ((None, rs), s') \<Longrightarrow>
      good s' \<and> fold expungeAt (map fst rs) (uids h s) = uids h s'"
    and count_law: "good s \<Longrightarrow> beInfo be h s = Inr info \<Longrightarrow> unat (numMessages info) = length (uids h s)"
begin

lemma watcher_expunge:
  assumes g: "good (wStore w)" and h: "cMailbox (wConn w c) = Some h"
    and e: "beExpunge be h (if cmdUID (cmdOf c w) then Some (cmdSequences (cmdOf c w)) else None) (wStore w) = ((None, ns), s')"
    and i: "beInfo be h s' = Inr info"
    and d: "distinct (wUsers w (cUserID (wConn w c)))" "d \<noteq> c" "d \<in> set (wUsers w (cUserID (wConn w c)))"
      "watches be (beID be h) (wConn w d)"
  shows "wConn (cmdExpunge be c w) d = fold receive (map expungeUpdate ns @ [totalCount (numMessages info) False]) (wConn w d)"
    and "fold expungeAt ns (uids h (wStore w)) = uids h s'" and "unat (numMessages info) = length (uids h s')"
    and "wStore (cmdExpunge be c w) = s'"
proof -
  show "fold expungeAt ns (uids h (wStore w)) = uids h s'" using expunge_law [OF g e] by simp
  show "unat (numMessages info) = length (uids h s')" using count_law [OF _ i] expunge_law [OF g e] by simp
  define f where "f = (\<lambda>n w. writef c (''* '' @ fmtNat (unat n) @ '' EXPUNGE'' @ CRLF) (sendIdleUpdate be c (beID be h) (expungeUpdate n) w))"
  have f: "wConn (fold f ns w) d = fold receive (map expungeUpdate ns) (wConn w d) \<and> wUsers (fold f ns w) = wUsers w \<and>
      cUserID (wConn (fold f ns w) c) = cUserID (wConn w c) \<and> wStore (fold f ns w) = wStore w"
    if "distinct (wUsers w (cUserID (wConn w c)))" "d \<in> set (wUsers w (cUserID (wConn w c)))" "watches be (beID be h) (wConn w d)"
    for w :: "('s, 'u, 'h) world"
    using that
  proof (induction ns arbitrary: w)
    case (Cons n ns)
    have "cUserID (wConn (f n w) c) = cUserID (wConn w c)" by (simp add: f_def writef_def writeOut_def cUserID_send)
    moreover have "wConn (f n w) d = receive (expungeUpdate n) (wConn w d)" "wUsers (f n w) = wUsers w" "wStore (f n w) = wStore w"
      using sendIdleUpdate_conn [OF Cons.prems(1) d(2) Cons.prems(2), of be "beID be h" "expungeUpdate n"] Cons.prems(3) d(2)
      by (simp_all add: f_def writef_def writeOut_def sendIdleUpdate_def fold_sendTo_frame)
    ultimately show ?case using Cons.IH [of "f n w"] Cons.prems by (simp add: watches_receive)
  qed simp
  let ?w = "fold f ns (w\<lparr>wStore := s'\<rparr>)"
  have w: "wConn ?w d = fold receive (map expungeUpdate ns) (wConn w d)" "wUsers ?w = wUsers w" "cUserID (wConn ?w c) = cUserID (wConn w c)"
    "wStore ?w = s'" using f [of "w\<lparr>wStore := s'\<rparr>"] d by simp_all
  have wd: "watches be (beID be h) (wConn ?w d)" using d(4) unfolding w(1)
    by (simp add: fold_watches)
  have eq: "cmdExpunge be c w = respondln c ''OK EXPUNGE completed'' (sendIdleUpdate be c (beID be h) (totalCount (numMessages info) False) ?w)"
    unfolding cmdExpunge_def withMailbox_def h option.case Let_def e prod.case sendCount_def f_def [symmetric] w(4) i sum.case ..
  have "wConn (sendIdleUpdate be c (beID be h) (totalCount (numMessages info) False) ?w) d =
      receive (totalCount (numMessages info) False) (fold receive (map expungeUpdate ns) (wConn w d))"
    using sendIdleUpdate_conn(1) [of ?w c d be "beID be h" "totalCount (numMessages info) False"] d(1-3) wd
    unfolding w(1-3) by simp
  then show "wConn (cmdExpunge be c w) d = fold receive (map expungeUpdate ns @ [totalCount (numMessages info) False]) (wConn w d)"
    using d(2) by (simp add: eq respondln_def)
  show "wStore (cmdExpunge be c w) = s'"
    by (simp add: eq respondln_def sendIdleUpdate_def fold_sendTo_frame w(4))
qed

lemma watcher_move:
  assumes g: "good (wStore w)" "fits h dst (wStore w)" and h: "cMailbox (wConn w c) = Some h"
    and e: "beMove be h (cmdUID (cmdOf c w)) (cmdSequences (cmdOf c w)) dst (wStore w) = ((None, rs), s')"
    and i: "beInfo be h s' = Inr info" "beID be dst \<noteq> beID be h"
    and d: "distinct (wUsers w (cUserID (wConn w c)))" "d \<noteq> c" "d \<in> set (wUsers w (cUserID (wConn w c)))"
      "watches be (beID be h) (wConn w d)"
  shows "wConn (cmdMove be c dst dstInfo w) d =
      fold receive (map (\<lambda>r. expungeUpdate (fst r)) rs @ [totalCount (numMessages info) False]) (wConn w d)"
    and "fold expungeAt (map fst rs) (uids h (wStore w)) = uids h s'" and "unat (numMessages info) = length (uids h s')"
proof -
  have l: "good s'" "fold expungeAt (map fst rs) (uids h (wStore w)) = uids h s'" using move_law [OF g e] by simp_all
  show "fold expungeAt (map fst rs) (uids h (wStore w)) = uids h s'" by (rule l)
  show "unat (numMessages info) = length (uids h s')" by (rule count_law [OF l(1) i(1)])
  define us where "us = map (\<lambda>r. expungeUpdate (fst r)) rs @ [totalCount (numMessages info) False]"
  define w1 where "w1 = sendAll be c (beID be h) us (w\<lparr>wStore := s'\<rparr>)"
  have w1: "wConn w1 d = fold receive us (wConn w d)" "wUsers w1 = wUsers w"
    using sendAll_conn [of "w\<lparr>wStore := s'\<rparr>" c d be "beID be h" us] d by (simp_all add: w1_def)
  have uid: "cUserID (wConn w1 c) = cUserID (wConn w c)"
    using quiet_sendAll [of "w\<lparr>wStore := s'\<rparr>" be c "beID be h" us] by (auto simp: w1_def sameCore_def core_def)
  have no: "\<not> watches be (beID be dst) (wConn w1 d)"
    using d(4) i(2) fold_watches [of be "beID be dst" us "wConn w d"] unfolding w1(1) by (auto simp: watches_def split: option.splits)
  have dst: "wConn (sendCount be c dst False w1) d = wConn w1 d"
    using sendIdleUpdate_conn(1) [of w1 c d be "beID be dst"] d(1-3) w1(2) uid no
    by (auto simp: sendCount_def split: sum.split)
  have "sendCount be c h False (sendAll be c (beID be h) (map (\<lambda>r. expungeUpdate (fst r)) rs) (w\<lparr>wStore := s'\<rparr>)) = w1"
    unfolding sendCount_def using sendAll_store [of be c "beID be h" _ "w\<lparr>wStore := s'\<rparr>"] by (simp add: i(1) w1_def us_def)
  then show "wConn (cmdMove be c dst dstInfo w) d =
      fold receive (map (\<lambda>r. expungeUpdate (fst r)) rs @ [totalCount (numMessages info) False]) (wConn w d)" unfolding us_def [symmetric]
    using d(2) dst w1(1) unfolding cmdMove_def withMailbox_def h option.case Let_def e prod.case
    by (simp add: respondln_def writef_def)
qed

end

end
