(* ===== verification/ImapIsolation.thy ===== *)
theory ImapIsolation
  imports ImapServerProps
begin

text \<open>
  What a connection's commands cannot reach: the data of another user and the connections that are not of its user. The data store
  says what belongs to whom (\<open>owned_store\<close>); the server hands a session only mailboxes of its user.
\<close>

subsection \<open>A connection on its own\<close>

text \<open>Nothing but the connection changed, and of that nothing that matters here.\<close>

definition alone :: "nat \<Rightarrow> ('s, 'u, 'h) world \<Rightarrow> ('s, 'u, 'h) world \<Rightarrow> bool" where
  "alone c w0 w \<longleftrightarrow> wStore w = wStore w0 \<and> wUsers w = wUsers w0 \<and> core (wConn w c) = core (wConn w0 c) \<and>
     (\<forall>d. d \<noteq> c \<longrightarrow> wConn w d = wConn w0 d)"

lemma alone_refl [simp]: "alone c w w"
  by (simp add: alone_def)

lemma alone_updConn: "alone c w0 w \<Longrightarrow> (\<And>k. core (f k) = core k) \<Longrightarrow> alone c w0 (updConn c f w)"
  by (simp add: alone_def)

lemma alone_writef: "alone c w0 w \<Longrightarrow> alone c w0 (writef c t w)"
  by (simp add: writef_def alone_updConn)

lemma alone_respondln: "alone c w0 w \<Longrightarrow> alone c w0 (respondln c t w)"
  by (simp add: respondln_def alone_updConn)

lemma core_scanner: "core (k\<lparr>cParser := (cParser k)\<lparr>pScanner := sc\<rparr>\<rparr>) = core k"
  by (simp add: core_def)

lemma alone_simple:
  "alone c w (cmdCapability v c w)" "alone c w (cmdID v c w)" "alone c w (cmdCompress v c w)" "alone c w (cmdIdleStart c w)"
  by (auto simp: cmdCapability_def cmdID_def cmdCompress_def cmdIdleStart_def Let_def core_scanner
      intro!: alone_updConn alone_respondln alone_writef split: option.splits)

lemma alone_logout: "cMailbox (wConn w c) = None \<Longrightarrow> alone c w (cmdLogout be c w)"
proof -
  let ?w = "writef c (''* BYE'' @ CRLF @ cmdTag (cmdOf c w) @ '' OK Completed'' @ CRLF) w"
  assume "cMailbox (wConn w c) = None"
  then have "closeMailbox be c ?w = ?w" by (simp add: closeMailbox_def writef_def writeOut_def)
  then show ?thesis unfolding cmdLogout_def closeConn_def by (simp only:) (intro alone_updConn alone_writef alone_refl core_fields)
qed

subsection \<open>The data store's part\<close>

text \<open>Mailboxes and messages have an owner; \<open>touches u\<close> holds of a change of the store that leaves all alone but the data of user
  \<open>u\<close>. Every operation of a session, a mailbox or a message touches the data of its owner only; a session finds mailboxes of its own, and
  logging in touches nothing.\<close>

locale owned_store = mailbox_found be for be :: "('s, 'u, 'h, 'm) backend" +
  fixes owner :: "'h \<Rightarrow> 'u" and mowner :: "'m \<Rightarrow> 'u" and userID :: "'u \<Rightarrow> int" and touches :: "'u \<Rightarrow> 's \<Rightarrow> 's \<Rightarrow> bool"
  assumes touches_refl: "touches u s s"
    and touches_trans: "touches u s s' \<Longrightarrow> touches u s' s'' \<Longrightarrow> touches u s s''"
    and login_touches: "beLogin be name pass s = (r, s') \<Longrightarrow> touches u s s'"
    and login_id: "beLogin be name pass s = (Inr (i, u), s') \<Longrightarrow> i = userID u"
    and mailbox_owner: "beMailbox be u name s = Inr (Some h) \<Longrightarrow> owner h = u"
    and fetch_owner: "beFetch be h b q ch s = (e, ms) \<Longrightarrow> m \<in> set ms \<Longrightarrow> mowner m = owner h"
    and session_touches: "beCreate be u name attrs s = (e, s') \<Longrightarrow> touches u s s'" "beDelete be u name s = (e, s') \<Longrightarrow> touches u s s'"
      "beRename be u old new s = (rn, s') \<Longrightarrow> touches u s s'" "beRegister be u name dev s = (e, s') \<Longrightarrow> touches u s s'"
      "touches u s (beCloseSession be u s)"
    and mailbox_touches: "beAppend be h fs dt data s = (x, s') \<Longrightarrow> touches (owner h) s s'"
      "beExpunge be h uq s = (y, s') \<Longrightarrow> touches (owner h) s s'" "beStore be h b q st s = (z, s') \<Longrightarrow> touches (owner h) s s'"
      "owner dst = owner h \<Longrightarrow> beMove be h b q dst s = (mv, s') \<Longrightarrow> touches (owner h) s s'"
      "owner dst = owner h \<Longrightarrow> beCopy be h b q dst s = (cp, s') \<Longrightarrow> touches (owner h) s s'" "beClose be h s = (e, s') \<Longrightarrow> touches (owner h) s s'"
    and seen_touches: "beSetSeen be m s = (e, s') \<Longrightarrow> touches (mowner m) s s'"
begin

definition ownedBy :: "'u \<Rightarrow> ('u, 'h) conn \<Rightarrow> bool" where
  "ownedBy u k \<longleftrightarrow> cSession k = Some u \<and> cUserID k = userID u \<and> connMode k \<noteq> ModeNonAuth \<and> (\<forall>h. cMailbox k = Some h \<longrightarrow> owner h = u)"

lemma ownedBy_core: "core k = core k' \<Longrightarrow> ownedBy u k = ownedBy u k'"
  by (simp add: core_def ownedBy_def)

text \<open>From \<open>w0\<close> to \<open>w\<close> the connection \<open>c\<close> of user \<open>u\<close> touched its user's data and connections only.\<close>

definition within :: "nat \<Rightarrow> 'u \<Rightarrow> ('s, 'u, 'h) world \<Rightarrow> ('s, 'u, 'h) world \<Rightarrow> bool" where
  "within c u w0 w \<longleftrightarrow> touches u (wStore w0) (wStore w) \<and> ownedBy u (wConn w c) \<and> wUsers w = wUsers w0 \<and>
     (\<forall>d. d \<noteq> c \<longrightarrow> core (wConn w d) = core (wConn w0 d) \<and> (d \<notin> set (wUsers w0 (userID u)) \<longrightarrow> wConn w d = wConn w0 d))"

lemma within_refl: "ownedBy u (wConn w c) \<Longrightarrow> within c u w w"
  by (simp add: within_def touches_refl)

lemma within_updConn: "within c u w0 w \<Longrightarrow> (\<And>k. ownedBy u k \<Longrightarrow> ownedBy u (f k)) \<Longrightarrow> within c u w0 (updConn c f w)"
  by (simp add: within_def)

lemma within_core: "within c u w0 w \<Longrightarrow> (\<And>k. core (f k) = core k) \<Longrightarrow> within c u w0 (updConn c f w)"
  using ownedBy_core by (intro within_updConn) blast+

lemma within_store: "within c u w0 w \<Longrightarrow> touches u (wStore w) s \<Longrightarrow> within c u w0 (w\<lparr>wStore := s\<rparr>)"
  using touches_trans by (auto simp: within_def)

lemma within_marks: "within c u w0 w \<Longrightarrow> within c u w0 (w\<lparr>wNil := True\<rparr>)" "within c u w0 w \<Longrightarrow> within c u w0 (markCrash w)"
  by (simp_all add: within_def markCrash_def)

lemma within_writef: "within c u w0 w \<Longrightarrow> within c u w0 (writef c t w)"
  by (simp add: writef_def within_core)

lemma within_respondln: "within c u w0 w \<Longrightarrow> within c u w0 (respondln c t w)"
  by (simp add: respondln_def within_core)

lemma within_writeUpdates: "within c u w0 w \<Longrightarrow> within c u w0 (updConn c writeUpdates w)"
  by (simp add: within_core)

lemma within_fold: "within c u w0 w \<Longrightarrow> (\<And>x w. x \<in> set xs \<Longrightarrow> within c u w0 w \<Longrightarrow> within c u w0 (f x w)) \<Longrightarrow> within c u w0 (fold f xs w)"
  by (induction xs arbitrary: w) auto

lemma within_sendTo: "within c u w0 w \<Longrightarrow> d \<in> set (wUsers w0 (userID u)) \<Longrightarrow> within c u w0 (sendTo be c i upd d w)"
proof -
  assume w: "within c u w0 w" and d: "d \<in> set (wUsers w0 (userID u))"
  define f where "f = (\<lambda>k. if d = c then (if \<not> iuSkipSelf upd \<and> watches be i k then receiveUpdate upd k else k)
    else if watches be i k then (let k1 = receiveUpdate upd k in if cIdling k1 then writeUpdates k1 else k1) else k)"
  have f: "core (f k) = core k" for k by (simp add: f_def Let_def)
  have "within c u w0 (updConn d f w)"
  proof (cases "d = c")
    case True
    then show ?thesis using within_core [OF w f] by simp
  qed (use w d f in \<open>auto simp: within_def\<close>)
  then show ?thesis unfolding sendTo_def f_def .
qed

lemma within_send: assumes "within c u w0 w" shows "within c u w0 (sendIdleUpdate be c i upd w)"
proof -
  have "wUsers w (cUserID (wConn w c)) = wUsers w0 (userID u)" using assms by (simp add: within_def ownedBy_def)
  then show ?thesis using assms unfolding sendIdleUpdate_def by (intro within_fold within_sendTo) simp_all
qed

lemma within_sendAll: "within c u w0 w \<Longrightarrow> within c u w0 (sendAll be c i us w)"
  by (intro within_fold within_send)

lemma within_sendCount: "within c u w0 w \<Longrightarrow> within c u w0 (sendCount be c h b w)"
  by (simp add: sendCount_def within_send split: sum.split)

lemma within_session: "within c u w0 w \<Longrightarrow> (\<And>w. within c u w0 w \<Longrightarrow> within c u w0 (f u w)) \<Longrightarrow> within c u w0 (withSession c f w)"
proof -
  assume w: "within c u w0 w" and f: "\<And>w. within c u w0 w \<Longrightarrow> within c u w0 (f u w)"
  have "cSession (wConn w c) = Some u" using w by (simp add: within_def ownedBy_def)
  then show ?thesis using f [OF w] by (simp add: withSession_def)
qed

lemma within_mailbox:
  "within c u w0 w \<Longrightarrow> (\<And>h w. within c u w0 w \<Longrightarrow> owner h = u \<Longrightarrow> within c u w0 (f h w)) \<Longrightarrow> within c u w0 (withMailbox c f w)"
proof -
  assume w: "within c u w0 w" and f: "\<And>h w. within c u w0 w \<Longrightarrow> owner h = u \<Longrightarrow> within c u w0 (f h w)"
  have "owner h = u" if "cMailbox (wConn w c) = Some h" for h using w that by (simp add: within_def ownedBy_def)
  then show ?thesis using f [OF w] within_marks(1) [OF w] by (auto simp: withMailbox_def split: option.split)
qed

lemma within_if: "(P \<Longrightarrow> within c u w0 a) \<Longrightarrow> (\<not> P \<Longrightarrow> within c u w0 b) \<Longrightarrow> within c u w0 (if P then a else b)"
  by simp

lemmas within_ops = within_core within_store within_marks within_writef within_respondln within_writeUpdates within_send within_sendAll
  within_sendCount

subsection \<open>The handlers\<close>

lemma within_mailboxes:
  assumes "within c u w0 w"
  shows "within c u w0 (cmdCreate be c w)" and "within c u w0 (cmdDelete be c w)" and "within c u w0 (cmdRename be c w)"
  unfolding cmdCreate_def cmdDelete_def cmdRename_def
  by (rule within_session [OF assms]; auto simp: Let_def dest!: session_touches(1-4) intro!: within_ops split: prod.split option.split go.split)+

lemma within_list: "within c u w0 w \<Longrightarrow> within c u w0 (cmdListMailboxes v be c w)"
  unfolding cmdListMailboxes_def Let_def
  by (intro within_if within_respondln within_writef; (rule within_session)?)
    (auto intro!: within_respondln within_writef split: sum.split)

lemma within_status: "within c u w0 w \<Longrightarrow> within c u w0 (cmdStatus be c w)"
  unfolding cmdStatus_def by (rule within_session) (auto simp: Let_def intro!: within_ops split: sum.split option.split)

lemma within_append: "within c u w0 w \<Longrightarrow> within c u w0 (cmdAppend v be c w)"
  unfolding cmdAppend_def
  by (rule within_session)
    (auto simp: Let_def dest!: mailbox_touches(1) mailbox_owner intro!: within_ops split: sum.split option.split prod.split go.split)

lemma within_expunge: "within c u w0 w \<Longrightarrow> within c u w0 (cmdExpunge be c w)"
  unfolding cmdExpunge_def
  by (rule within_mailbox) (auto simp: Let_def dest!: mailbox_touches(2) intro!: within_ops within_fold split: option.split prod.split)

lemma within_closeMailbox: assumes "within c u w0 w" shows "within c u w0 (closeMailbox be c w)"
proof (cases "cMailbox (wConn w c)")
  case (Some h)
  then have o: "owner h = u" using assms by (simp add: within_def ownedBy_def)
  obtain err s where e: "beClose be h (wStore w) = (err, s)" by (metis surj_pair)
  have "touches u (wStore w) s" using mailbox_touches(6) [OF e] o by simp
  then have "within c u w0 (case err of None \<Rightarrow> w\<lparr>wStore := s\<rparr>
      | Some e \<Rightarrow> writef c (''* BAD CLOSE server error: '' @ e @ CRLF) (w\<lparr>wStore := s\<rparr>))"
    using assms by (cases err) (auto intro!: within_ops)
  then show ?thesis unfolding closeMailbox_def Some option.case Let_def e prod.case
    by (rule within_updConn) (simp add: ownedBy_def)
qed (use assms in \<open>simp add: closeMailbox_def\<close>)

lemma within_close: "within c u w0 w \<Longrightarrow> within c u w0 (cmdClose be c w)"
  unfolding cmdClose_def
  by (rule within_mailbox)
    (auto simp: Let_def dest!: mailbox_touches(2) intro!: within_closeMailbox within_ops split: option.split prod.split)

lemma within_closeConn: "within c u w0 w \<Longrightarrow> within c u w0 (closeConn be c w)"
  unfolding closeConn_def by (intro within_core within_closeMailbox) simp_all

lemma within_copyMove: assumes "within c u w0 w" shows "within c u w0 (cmdCopyOrMove be c w)"
proof -
  have "within c u w0 (cmdMove be c dst info w)" "within c u w0 (cmdCopy be c dst info w)"
    if "within c u w0 w" "owner dst = u" for dst info w
    unfolding cmdMove_def cmdCopy_def
    by (rule within_mailbox [OF that(1)];
        use that(2) in \<open>auto simp: Let_def dest!: mailbox_touches(4,5) [rotated] intro!: within_ops split: option.split prod.split\<close>)+
  then show ?thesis unfolding cmdCopyOrMove_def
    by (intro within_session [OF assms])
      (auto simp: Let_def dest: mailbox_owner intro!: within_respondln within_marks split: sum.split option.split)
qed

lemma within_setCondStore: "within c u w0 w \<Longrightarrow> within c u w0 (setCondStore be c w)"
  by (auto simp: setCondStore_def Let_def intro!: within_ops split: option.split sum.split)

lemma within_store_flags: "within c u w0 w \<Longrightarrow> within c u w0 (cmdStoreFlags be c w)"
  unfolding cmdStoreFlags_def
  by (rule within_mailbox)
    (auto simp: Let_def dest!: mailbox_touches(3) intro!: within_writef within_respondln within_setCondStore within_store split: sum.split prod.split)

lemma within_search: "within c u w0 w \<Longrightarrow> within c u w0 (cmdSearchMsgs v be c w)"
  unfolding cmdSearchMsgs_def
  by (rule within_mailbox) (auto simp: Let_def intro!: within_marks within_writef within_respondln split: sum.split option.split)

lemma within_push: assumes "within c u w0 w" shows "within c u w0 (cmdXApplePushService v be c w)"
proof -
  have r: "touches u s s'" if "registerAll be u dev ms s = (e, s')" for dev ms s e s'
    using that
  proof (induction ms arbitrary: s)
    case (Cons m ms)
    then show ?case using touches_trans
      by (auto simp: Let_def dest!: session_touches(4) split: prod.splits option.splits)
  qed (simp add: touches_refl)
  show ?thesis using assms unfolding cmdXApplePushService_def Let_def
    by (auto dest!: r intro!: within_session [of c u w0] within_respondln within_writef within_marks within_store split: option.split prod.split)
qed

lemma within_select: assumes "within c u w0 w" shows "within c u w0 (cmdSelect be c w)"
proof -
  let ?w = "updConn c (\<lambda>k. k\<lparr>cReadOnly := (cmdName (cmdOf c w) = ''EXAMINE'')\<rparr>) (closeMailbox be c w)"
  have w: "within c u w0 ?w" by (intro within_core within_closeMailbox assms) simp
  have off: "within c u w0 (updConn c (\<lambda>k. setMode ModeAuth (k\<lparr>cMailbox := None\<rparr>)) w)" if "within c u w0 w" for w
    by (rule within_updConn [OF that]) (simp add: ownedBy_def)
  have on: "within c u w0 (updConn c (\<lambda>k. setMode ModeSelected (k\<lparr>cMailbox := Some h\<rparr>)) w)" if "within c u w0 w" "owner h = u" for w h
    by (rule within_updConn [OF that(1)]) (use that(2) in \<open>simp add: ownedBy_def\<close>)
  have cond: "within c u w0 (updConn c (\<lambda>k. k\<lparr>cCondstore := True\<rparr>) w)" if "within c u w0 w" for w
    by (rule within_core [OF that]) simp
  show ?thesis unfolding cmdSelect_def Let_def
  proof (rule within_session [OF w], goal_cases)
    case (1 wa)
    show ?case
    proof (cases "beMailbox be u (cmdMailbox (cmdOf c w)) (wStore wa)")
      case (Inl e)
      show ?thesis unfolding Inl sum.case by (intro within_respondln off 1)
    next
      case (Inr x)
      show ?thesis
      proof (cases x)
        case None
        show ?thesis unfolding Inr None sum.case option.case by (intro within_respondln off 1)
      next
        case (Some h)
        have o: "owner h = u" using Inr Some mailbox_owner by simp
        show ?thesis unfolding Inr Some sum.case option.case
          by (cases "beInfo be h (wStore wa)"; simp only: sum.case)
            (intro within_respondln within_writef within_if cond off on 1 o)+
      qed
    qed
  qed
qed

subsection \<open>FETCH\<close>

lemma within_writeBody: "within c u w0 w \<Longrightarrow> mowner m = u \<Longrightarrow> within c u w0 (snd (writeBody v be c m item md w))"
  by (auto simp: writeBody_def Let_def dest!: seen_touches intro!: within_marks within_writef within_store
      split: prod.split sum.split go.split option.split)

lemma within_writeItem1: "within c u w0 w \<Longrightarrow> mowner m = u \<Longrightarrow> within c u w0 (snd (writeItem1 v be c m item md w))"
  by (auto simp: writeItem1_def Let_def within_writeBody intro!: within_marks within_writef split: FetchItemType.split prod.split sum.split)

lemma within_writeItems:
  assumes "\<And>i md w. within c u w0 w \<Longrightarrow> within c u w0 (snd (f i md w))" and "within c u w0 w"
  shows "within c u w0 (snd (writeItems f c first is md w))"
  using assms(2)
proof (induction "is" arbitrary: first md w)
  case (Cons i "is")
  have "within c u w0 (if first then w else writef c '' '' w)" using Cons.prems by (simp add: within_writef)
  then show ?case using Cons.IH assms(1) by (simp add: split_beta)
qed simp

lemma within_fetchMessage: assumes "within c u w0 w" and "mowner m = u" shows "within c u w0 (fetchMessage v be c items m w)"
proof -
  have "within c u w0 (snd (writeItem v be c m item md w))" if "within c u w0 w" for item md w
    using that assms(2) by (auto simp: writeItem_def within_writeItem1 intro!: within_writeItems split: option.split)
  then show ?thesis unfolding fetchMessage_def Let_def split_beta
    by (intro within_writef within_writeItems assms(1))
qed

lemma within_fetch: assumes "within c u w0 w" shows "within c u w0 (cmdFetch v be c w)"
proof -
  define w1 where "w1 = (if \<exists>i\<in>set (cmdFetchItems (cmdOf c w)). itemType i = FetchModSeq then setCondStore be c w else w)"
  have w1: "within c u w0 w1" using assms by (simp add: w1_def within_setCondStore)
  have o: "owner h = u" if "cMailbox (wConn w1 c) = Some h" for h using w1 that by (simp add: within_def ownedBy_def)
  show ?thesis
  proof (cases "cMailbox (wConn w1 c)")
    case None
    show ?thesis unfolding cmdFetch_def Let_def w1_def [symmetric] None option.case by (rule within_marks(1) [OF w1])
  next
    case (Some h)
    define ch where "ch = (if cmdChangedSince (cmdOf c w) = 0 then - 1 else cmdChangedSince (cmdOf c w))"
    obtain e ms where f: "beFetch be h (cmdUID (cmdOf c w)) (cmdSequences (cmdOf c w)) ch (wStore w1) = (e, ms)" by (metis surj_pair)
    have m: "mowner m = u" if "m \<in> set ms" for m using fetch_owner [OF f that] o [OF Some] by simp
    have "within c u w0 (fold (fetchMessage v be c items) ms w1)" for items
      using w1 by (intro within_fold within_fetchMessage m)
    then show ?thesis unfolding cmdFetch_def Let_def w1_def [symmetric] ch_def [symmetric] Some option.case f prod.case
      by (auto intro!: within_respondln split: option.split)
  qed
qed

subsection \<open>Commands\<close>

lemma within_alone: assumes "alone c w w'" and "within c u w0 w" shows "within c u w0 w'"
proof -
  have "ownedBy u (wConn w' c)" using assms ownedBy_core [of "wConn w' c" "wConn w c"] by (simp add: alone_def within_def)
  then show ?thesis using assms by (simp add: alone_def within_def)
qed

lemma within_dispatch: assumes "within c u w0 w" shows "within c u w0 (dispatch v be c w)"
proof -
  have "connMode (wConn w c) \<noteq> ModeNonAuth" using assms by (simp add: within_def ownedBy_def)
  then have login: "within c u w0 (cmdLogin v be c w)" using assms by (simp add: cmdLogin_def within_respondln)
  have logout: "within c u w0 (cmdLogout be c w)" unfolding cmdLogout_def by (intro within_closeConn within_writef assms)
  show ?thesis unfolding dispatch_def Let_def
    by (intro within_if login logout assms within_respondln within_alone [OF alone_simple(1) assms] within_alone [OF alone_simple(2) assms]
        within_alone [OF alone_simple(3) assms] within_alone [OF alone_simple(4) assms] within_append within_mailboxes within_select
        within_list within_status within_close within_expunge within_copyMove within_fetch within_store_flags within_search within_push)
qed

lemma core_started: "core (writeUpdates (k\<lparr>cRespondBuf := []\<rparr>)) = core k"
  by simp

lemma within_serveParse:
  assumes "ownedBy u (wConn w c)" and "serveParseCmd v be c w = Some (b, w')"
  shows "within c u w w'"
proof -
  obtain r q where p: "ParseCommand (cParser (wConn w c)) = Some (r, q)"
    using assms(2) by (auto simp: serveParseCmd_def Let_def split: option.splits)
  define w1 where "w1 = updConn c (\<lambda>k. (writeOut (concat (map fst (drop (length (contLog (pScanner (cParser (wConn w c)))))
    (contLog (pScanner q))))) k)\<lparr>cParser := q\<rparr>) w"
  have "core (wConn w1 c) = core (wConn w c)" using ParseCommand_mode [OF p] by (simp add: w1_def core_def writeOut_def)
  then have "ownedBy u (wConn w1 c)" using assms(1) ownedBy_core by blast
  then have w1: "within c u w w1" by (simp add: within_def touches_refl w1_def)
  have "within c u w (serveCmd v be c w1)" unfolding serveCmd_def by (intro within_dispatch within_core w1 core_started)
  then show ?thesis using assms(2) w1 unfolding serveParseCmd_def Let_def p option.case prod.case w1_def [symmetric]
    by (cases r) (auto intro: within_marks within_writef split: prod.splits)
qed

definition anonymous :: "('u, 'h) conn \<Rightarrow> bool" where
  "anonymous k \<longleftrightarrow> cSession k = None \<and> cMailbox k = None \<and> connMode k = ModeNonAuth"

lemma anonymous_core: "core k = core k' \<Longrightarrow> anonymous k = anonymous k'"
  by (simp add: core_def anonymous_def)

text \<open>Without a session the connection stays alone, or it logs in.\<close>

definition enters :: "nat \<Rightarrow> ('s, 'u, 'h) world \<Rightarrow> ('s, 'u, 'h) world \<Rightarrow> bool" where
  "enters c w0 w \<longleftrightarrow> (\<forall>u. touches u (wStore w0) (wStore w)) \<and> (\<forall>d. d \<noteq> c \<longrightarrow> wConn w d = wConn w0 d) \<and>
     (core (wConn w c) = core (wConn w0 c) \<and> wUsers w = wUsers w0 \<or>
      (\<exists>u. ownedBy u (wConn w c) \<and> wUsers w = (wUsers w0)(userID u := List.insert c (wUsers w0 (userID u)))))"

lemma enters_alone: "alone c w w' \<Longrightarrow> enters c w w'"
  by (simp add: alone_def enters_def touches_refl)

lemma enters_respondln: "enters c w0 w \<Longrightarrow> enters c w0 (respondln c t w)"
proof -
  have "core (wConn (respondln c t w) c) = core (wConn w c)" by (simp add: respondln_def)
  moreover from this have "ownedBy u (wConn (respondln c t w) c) = ownedBy u (wConn w c)" for u by (rule ownedBy_core)
  moreover have "wStore (respondln c t w) = wStore w" "wUsers (respondln c t w) = wUsers w"
    "d \<noteq> c \<Longrightarrow> wConn (respondln c t w) d = wConn w d" for d by (simp_all add: respondln_def)
  ultimately show "enters c w0 w \<Longrightarrow> enters c w0 (respondln c t w)" by (simp add: enters_def)
qed

lemma enters_login: assumes "anonymous (wConn w c)" shows "enters c w (cmdLogin v be c w)"
proof -
  obtain r s where r: "beLogin be (cmdUsername (cmdOf c w)) (cmdPassword (cmdOf c w)) (wStore w) = (r, s)" by (metis surj_pair)
  have s: "enters c w (w\<lparr>wStore := s\<rparr>)" using login_touches [OF r] by (simp add: enters_def)
  have m: "connMode (wConn w c) = ModeNonAuth" "cMailbox (wConn w c) = None" using assms by (simp_all add: anonymous_def)
  show ?thesis
  proof (cases r)
    case (Inl e)
    then show ?thesis using m s by (cases e) (simp_all add: cmdLogin_def Let_def r enters_respondln)
  next
    case (Inr x)
    obtain i u where x: "x = (i, u)" by fastforce
    have i: "i = userID u" using r by (simp add: Inr x login_id)
    let ?w = "updConn c (\<lambda>k. setMode ModeAuth (k\<lparr>cUserID := i, cSession := Some u\<rparr>)) (w\<lparr>wStore := s\<rparr>)"
    have "enters c w (?w\<lparr>wUsers := (wUsers ?w)(i := List.insert c (wUsers ?w i))\<rparr>)"
      using s m i by (auto simp: enters_def ownedBy_def)
    then show ?thesis unfolding cmdLogin_def Let_def r Inr x sum.case prod.case using m by (auto intro: enters_respondln)
  qed
qed

lemma enters_dispatch:
  assumes "anonymous (wConn w c)" and "goodMode (cmdName (cmdOf c w)) ModeNonAuth"
  shows "enters c w (dispatch v be c w)"
proof -
  have a: "alone c w (cmdLogout be c w)" using assms(1) by (intro alone_logout) (simp add: anonymous_def)
  consider "cmdName (cmdOf c w) \<in> {''CAPABILITY'', ''COMPRESS'', ''LOGOUT'', ''NOOP'', ''ID'', ''STARTTLS''}"
    | "cmdName (cmdOf c w) \<in> {''LOGIN'', ''AUTHENTICATE''}"
    using assms(2) by (simp add: goodMode_def split: if_splits) blast+
  then show ?thesis
  proof cases
    case 1
    then show ?thesis
      by (elim insertE) (simp_all add: dispatch_def Let_def enters_alone alone_simple a alone_respondln)
  next
    case 2
    then show ?thesis by (elim insertE) (simp_all add: dispatch_def Let_def enters_login [OF assms(1)])
  qed
qed

lemma enters_serveParse:
  assumes "anonymous (wConn w c)" and "serveParseCmd v be c w = Some (b, w')"
  shows "enters c w w'"
proof -
  obtain r q where p: "ParseCommand (cParser (wConn w c)) = Some (r, q)"
    using assms(2) by (auto simp: serveParseCmd_def Let_def split: option.splits)
  note m = ParseCommand_mode [OF p]
  define w1 where "w1 = updConn c (\<lambda>k. (writeOut (concat (map fst (drop (length (contLog (pScanner (cParser (wConn w c)))))
    (contLog (pScanner q))))) k)\<lparr>cParser := q\<rparr>) w"
  have c1: "core (wConn w1 c) = core (wConn w c)" using m by (simp add: w1_def core_def writeOut_def)
  have w1: "alone c w w1" using c1 by (simp add: alone_def w1_def)
  define w2 where "w2 = updConn c (\<lambda>k. writeUpdates (k\<lparr>cRespondBuf := []\<rparr>)) w1"
  have w2: "alone c w w2" unfolding w2_def by (rule alone_updConn [OF w1]) (rule core_started)
  have "enters c w (dispatch v be c w2)" if "r = Ok ()"
  proof -
    have "goodMode (cmdName (cmdOf c w2)) ModeNonAuth"
      using ParseCommand_wf [OF p [unfolded that]] assms(1) by (simp add: w2_def w1_def anonymous_def writeUpdates_def writeOut_def)
    moreover have "anonymous (wConn w2 c)" using w2 assms(1) anonymous_core [of "wConn w2 c" "wConn w c"] by (simp add: alone_def)
    ultimately have "enters c w2 (dispatch v be c w2)" by (intro enters_dispatch)
    then show ?thesis using w2 by (simp add: enters_def alone_def)
  qed
  note ok = this
  note eq = assms(2) [unfolded serveParseCmd_def Let_def p option.case prod.case w1_def [symmetric] serveCmd_def w2_def [symmetric]]
  show ?thesis
  proof (cases r)
    case (Ok x)
    then have "w' = dispatch v be c w2" using eq by simp
    then show ?thesis using ok Ok by simp
  next
    case (Fail e)
    then have "w' = writef c (snd (parseReply v e)) w1" using eq by (simp add: split_beta)
    then show ?thesis using enters_alone [OF alone_writef [OF w1]] by simp
  next
    case (Panic x)
    then have "w' = markCrash w1" using eq by simp
    then show ?thesis using enters_alone [OF w1] by (simp add: enters_def markCrash_def)
  qed
qed

subsection \<open>The server\<close>

definition ownedWorld :: "('s, 'u, 'h) world \<Rightarrow> bool" where
  "ownedWorld w \<longleftrightarrow> (\<forall>c. anonymous (wConn w c) \<or> (\<exists>u. ownedBy u (wConn w c))) \<and>
     (\<forall>c x. c \<in> set (wUsers w x) \<longrightarrow> (\<exists>u. ownedBy u (wConn w c) \<and> x = userID u))"

lemma ownedWorld_core:
  assumes "ownedWorld w" and "\<And>d. core (wConn w' d) = core (wConn w d)" and "\<And>x. set (wUsers w' x) \<subseteq> set (wUsers w x)"
  shows "ownedWorld w'"
proof -
  have "ownedBy u (wConn w' d) = ownedBy u (wConn w d)" "anonymous (wConn w' d) = anonymous (wConn w d)" for u d
    using assms(2) ownedBy_core anonymous_core by blast+
  then show ?thesis using assms(1,3) unfolding ownedWorld_def by (metis subsetD)
qed

lemma ownedWorld_within: assumes "ownedWorld w" and "ownedBy u (wConn w c)" and "within c u w w'" shows "ownedWorld w'"
proof -
  have o: "ownedBy v (wConn w' d) = ownedBy v (wConn w d)" if "d \<noteq> c" for v d
    using assms(3) that ownedBy_core [of "wConn w' d" "wConn w d"] by (simp add: within_def)
  have a: "anonymous (wConn w' d) = anonymous (wConn w d)" if "d \<noteq> c" for d
    using assms(3) that anonymous_core [of "wConn w' d" "wConn w d"] by (simp add: within_def)
  have u: "ownedBy u (wConn w' c)" "wUsers w' = wUsers w" using assms(3) by (simp_all add: within_def)
  have "x = userID u" if "c \<in> set (wUsers w x)" for x
    using assms(1,2) that unfolding ownedWorld_def ownedBy_def by (metis option.inject)
  then show ?thesis using assms(1) o a u unfolding ownedWorld_def by metis
qed

lemma ownedWorld_enters: assumes "ownedWorld w" and "anonymous (wConn w c)" and "enters c w w'" shows "ownedWorld w'"
proof -
  have same: "wConn w' d = wConn w d" if "d \<noteq> c" for d using assms(3) that by (simp add: enters_def)
  have no: "c \<notin> set (wUsers w x)" for x
    using assms(1,2) unfolding ownedWorld_def ownedBy_def anonymous_def by blast
  consider "core (wConn w' c) = core (wConn w c)" "wUsers w' = wUsers w"
    | u where "ownedBy u (wConn w' c)" "wUsers w' = (wUsers w)(userID u := List.insert c (wUsers w (userID u)))"
    using assms(3) by (auto simp: enters_def)
  then show ?thesis
  proof cases
    case 1
    then show ?thesis using same by (intro ownedWorld_core [OF assms(1)]) (metis, simp)
  next
    case 2
    have "\<exists>v. ownedBy v (wConn w' d) \<and> x = userID v" if "d \<in> set (wUsers w' x)" for d x
    proof (cases "d = c")
      case True
      then show ?thesis using that 2 no by (auto split: if_splits)
    next
      case False
      then have "d \<in> set (wUsers w x)" using that 2(2) by (simp split: if_splits)
      then show ?thesis using assms(1) same [OF False] by (simp add: ownedWorld_def)
    qed
    then show ?thesis using assms(1) 2(1) same unfolding ownedWorld_def by metis
  qed
qed

text \<open>The end of a connection.\<close>

lemma endConn_within:
  assumes "ownedBy u (wConn w c)"
  shows "\<exists>w3. within c u w w3 \<and> wStore (endConn be c w) = wStore w3 \<and> wConn (endConn be c w) = wConn w3 \<and>
    (\<forall>x. set (wUsers (endConn be c w) x) \<subseteq> set (wUsers w3 x))"
proof -
  define w1 where "w1 = closeMailbox be c w"
  define w2 where "w2 = (case cSession (wConn w1 c) of None \<Rightarrow> w1 | Some u \<Rightarrow> w1\<lparr>wStore := beCloseSession be u (wStore w1)\<rparr>)"
  have w1: "within c u w w1" unfolding w1_def by (intro within_closeMailbox within_refl assms)
  then have "cSession (wConn w1 c) = Some u" by (simp add: within_def ownedBy_def)
  then have "within c u w w2" unfolding w2_def using within_store [OF w1 session_touches(5)] by simp
  then have "within c u w (closeConn be c w2)" by (rule within_closeConn)
  then show ?thesis
    by (intro exI [of _ "closeConn be c w2"]) (auto simp: endConn_def Let_def w1_def [symmetric] w2_def [symmetric] dest: subsetD [OF set_remove1_subset])
qed

lemma endConn_anonymous:
  assumes "anonymous (wConn w c)"
  shows "wStore (endConn be c w) = wStore w" and "core (wConn (endConn be c w) d) = core (wConn w d)"
    and "d \<noteq> c \<Longrightarrow> wConn (endConn be c w) d = wConn w d" and "set (wUsers (endConn be c w) x) \<subseteq> set (wUsers w x)"
  using assms by (auto simp: endConn_def closeConn_def closeMailbox_def anonymous_def Let_def dest: subsetD [OF set_remove1_subset])

lemma wUsers_notifyLoop: "wUsers (notifyLoop be i upd ds w) = wUsers w"
  by (induction be i upd ds w rule: notifyLoop.induct) (auto simp: Let_def split: option.split sum.split)

lemma alone_idleEnd: "alone c w (cmdIdleEnd v c w)"
  by (auto simp: cmdIdleEnd_def Let_def core_def intro!: alone_updConn alone_respondln split: prod.split sum.split)

lemma ownedWorld_serve:
  assumes "ownedWorld w" and "serveParseCmd v be c w = Some (b, w')"
  shows "ownedWorld w'" and "ownedWorld (endConn be c w')"
proof -
  have e: "ownedWorld (endConn be c w')" if w': "ownedWorld w'"
  proof -
    consider "anonymous (wConn w' c)" | u where "ownedBy u (wConn w' c)" using w' unfolding ownedWorld_def by blast
    then show ?thesis
    proof cases
      case 1
      then show ?thesis using endConn_anonymous [OF 1] by (intro ownedWorld_core [OF w'])
    next
      case 2
      then obtain w3 where w3: "within c u w' w3" "wStore (endConn be c w') = wStore w3" "wConn (endConn be c w') = wConn w3"
        "\<forall>x. set (wUsers (endConn be c w') x) \<subseteq> set (wUsers w3 x)" using endConn_within by blast
      have "ownedWorld w3" by (rule ownedWorld_within [OF w' 2 w3(1)])
      then show ?thesis by (rule ownedWorld_core) (use w3 in simp_all)
    qed
  qed
  consider "anonymous (wConn w c)" | u where "ownedBy u (wConn w c)" using assms(1) unfolding ownedWorld_def by blast
  then show "ownedWorld w'"
  proof cases
    case 1
    then show ?thesis using ownedWorld_enters [OF assms(1) 1 enters_serveParse [OF 1 assms(2)]] by simp
  next
    case 2
    then show ?thesis using ownedWorld_within [OF assms(1) 2 within_serveParse [OF 2 assms(2)]] by simp
  qed
  then show "ownedWorld (endConn be c w')" by (rule e)
qed

lemma ownedWorld_step: "serverStep v be w w' \<Longrightarrow> ownedWorld w \<Longrightarrow> ownedWorld w'"
proof (induction rule: serverStep.induct)
  case (Accept c w input e)
  then show ?case by (auto simp: ownedWorld_def accept_def anonymous_def newConn_def NewParser_def)
next
  case (Serve c w w')
  then show ?case by (blast intro: ownedWorld_serve(1))
next
  case (End c w w')
  then show ?case by (blast intro: ownedWorld_serve(2))
next
  case (IdleEnd c w)
  have a: "alone c w (cmdIdleEnd v c w)" by (rule alone_idleEnd)
  then have "core (wConn (cmdIdleEnd v c w) d) = core (wConn w d)" for d by (cases "d = c") (simp_all add: alone_def)
  then show ?case using a IdleEnd(3) by - (rule ownedWorld_core [of w], simp_all add: alone_def)
next
  case (Deliver w userID mailboxID s)
  have "sameCore (w\<lparr>wStore := s\<rparr>) (Notify be userID mailboxID (w\<lparr>wStore := s\<rparr>))" by (rule quiet)
  then show ?case using Deliver by - (rule ownedWorld_core [of w], simp_all add: sameCore_def Notify_def wUsers_notifyLoop)
qed

lemma ownedWorld_reachable: "(serverStep v be)\<^sup>*\<^sup>* (initWorld s) w \<Longrightarrow> ownedWorld w"
proof (induction rule: rtranclp_induct)
  case base
  then show ?case by (simp add: ownedWorld_def initWorld_def anonymous_def newConn_def NewParser_def)
next
  case (step w w')
  then show ?case by (blast intro: ownedWorld_step)
qed

text \<open>A command, and the end of the connection after it, of a user's connection and of one without a user.\<close>

lemma serve_isolated:
  assumes "ownedWorld w" and "serveParseCmd v be c w = Some (b, w')" and "w2 \<in> {w', endConn be c w'}"
  shows "case cSession (wConn w c) of
      None \<Rightarrow> (\<forall>u. cSession (wConn w' c) = None \<longrightarrow> touches u (wStore w) (wStore w2)) \<and> (\<forall>d. d \<noteq> c \<longrightarrow> wConn w' d = wConn w d)
    | Some u \<Rightarrow> touches u (wStore w) (wStore w2) \<and>
        (\<forall>d. d \<noteq> c \<longrightarrow> cUserID (wConn w d) \<noteq> cUserID (wConn w c) \<longrightarrow> wConn w2 d = wConn w d)"
proof -
  consider "anonymous (wConn w c)" | u where "ownedBy u (wConn w c)" using assms(1) unfolding ownedWorld_def by blast
  then show ?thesis
  proof cases
    case 1
    have e: "enters c w w'" by (rule enters_serveParse [OF 1 assms(2)])
    have "touches u (wStore w) (wStore w2)" if "cSession (wConn w' c) = None" for u
    proof -
      have "anonymous (wConn w' c)"
        using e that 1 anonymous_core [of "wConn w' c" "wConn w c"] by (auto simp: enters_def ownedBy_def)
      then have "wStore w2 = wStore w'" using assms(3) endConn_anonymous(1) by auto
      then show ?thesis using e by (simp add: enters_def)
    qed
    then show ?thesis using 1 e by (simp add: anonymous_def enters_def)
  next
    case 2
    have s: "cSession (wConn w c) = Some u" "cUserID (wConn w c) = userID u" using 2 by (simp_all add: ownedBy_def)
    have w': "within c u w w'" by (rule within_serveParse [OF 2 assms(2)])
    obtain w3 where w3: "within c u w' w3" "wStore (endConn be c w') = wStore w3" "wConn (endConn be c w') = wConn w3"
      using endConn_within [of u w' c] w' by (auto simp: within_def)
    have no: "d \<notin> set (wUsers w (userID u))" if "cUserID (wConn w d) \<noteq> userID u" for d
      using assms(1) that unfolding ownedWorld_def ownedBy_def by metis
    have "touches u (wStore w) (wStore w3)" using w' w3(1) touches_trans by (auto simp: within_def)
    then have "touches u (wStore w) (wStore w2)" using assms(3) w' w3(2) by (auto simp: within_def)
    moreover have "wConn w2 d = wConn w d" if "d \<noteq> c" "cUserID (wConn w d) \<noteq> userID u" for d
      using assms(3) w' w3(1,3) no [OF that(2)] that(1) by (auto simp: within_def)
    ultimately show ?thesis by (simp add: s)
  qed
qed

end

end
