(* ===== verification/ImapMemory.thy ===== *)
theory ImapMemory
  imports ImapUpdates ImapIsolation ImapParserRuns
begin

text \<open>
  The in-memory data store as a whole (\<open>imap/imaptest/memory.go\<close>): \<open>MemoryStore\<close> with its users, and the interfaces that the
  server calls (\<open>backend\<close>) on the operations of \<open>ImapMailbox\<close>.

  A session is known by its user's ID, a mailbox by the user's ID and its own, the message of a Fetch callback by its mailbox and its place
  there. The fields of \<open>memParams\<close> stand for code outside of the model: the capacity of a reallocated slice, \<open>msgcleaver.Cleave\<close> (which
  makes new files at every call: it is given the modification sequence of the call), the headers and parts of what it returns, reading a
  part's file (closed or not), the parsing and the format of dates, \<open>mail.ParseAddress\<close> of the To header, \<open>strconv.IsPrint\<close>, and the random numbers that the
  boundaries are made of.
\<close>

record memParams =
  mpGrow :: "nat \<Rightarrow> nat \<Rightarrow> nat"
  mpCleave :: "bytes \<Rightarrow> int \<Rightarrow> bytes + mail"
  mpHeaders :: "mail \<Rightarrow> header"
  mpParts :: "mail \<Rightarrow> part list"
  mpRead :: "nat \<Rightarrow> bool \<Rightarrow> bytes + bytes"
  mpParseDate :: "bytes \<Rightarrow> int \<times> int"
  mpFormatDate :: "int \<Rightarrow> int \<Rightarrow> bytes"
  mpToAddress :: "mail \<Rightarrow> bytes + bytes"
  mpIsPrint :: "nat \<Rightarrow> bool"
  mpRandom :: "mail \<Rightarrow> nat \<Rightarrow> byte"

record memStore =
  msUsers :: "(bytes \<times> int \<times> bytes) list" \<comment> \<open>name, ID, password\<close>
  msData :: "int \<Rightarrow> memUser"
  msNextSession :: int

record memRef =
  mrUser :: int
  mrBox :: nat
  mrIndex :: nat
  mrSummary :: summary

definition emptyStore :: memStore where
  "emptyStore = \<lparr>msUsers = [], msData = (\<lambda>_. newUser 0), msNextSession = 0\<rparr>"

definition onUser :: "int \<Rightarrow> (memUser \<Rightarrow> 'a \<times> memUser) \<Rightarrow> memStore \<Rightarrow> 'a \<times> memStore" where
  "onUser uid f s = (let (r, u) = f (msData s uid) in (r, s\<lparr>msData := (msData s)(uid := u)\<rparr>))"

subsection \<open>Users\<close>

definition Login :: "memParams \<Rightarrow> bytes \<Rightarrow> bytes \<Rightarrow> memStore \<Rightarrow> (loginError + int \<times> int) \<times> memStore" where
  "Login p name pass s =
     (case map_of (msUsers s) name of
        None \<Rightarrow> (Inl (LoginError (''MemoryStore: no such user '' @ goQuote (mpIsPrint p) name)), s)
      | Some (uid, pw) \<Rightarrow>
        (if pw \<noteq> pass then (Inl (LoginError (''MemoryStore: bad password for user '' @ goQuote (mpIsPrint p) name)), s)
         else (Inr (uid, uid), s\<lparr>msNextSession := msNextSession s + 1\<rparr>)))"

definition addUser :: "memParams \<Rightarrow> bytes \<Rightarrow> bytes \<Rightarrow> memStore \<Rightarrow> bytes option \<times> memStore" where
  "addUser p name pass s0 =
     (let s = (if msUsers s0 = [] then s0\<lparr>msNextSession := 1\<rparr> else s0); n = length (msUsers s); uid = int (n + 1) in
      if map_of (msUsers s) name \<noteq> None then (Some (''MemoryStore: user '' @ goQuote (mpIsPrint p) name @ '' already exists''), s)
      else (None, s\<lparr>msUsers := (name, uid, pass) # msUsers s, msData := (msData s)(uid := AddUser n), msNextSession := msNextSession s + 1\<rparr>))"

text \<open>\<open>SendMsg\<close>: the error, the store, and the user and the mailbox that the notifiers are told of.\<close>

definition SendMsg :: "memParams \<Rightarrow> int \<times> int \<Rightarrow> bytes \<Rightarrow> memStore \<Rightarrow> (bytes option \<times> (int \<times> int) option) go \<times> memStore" where
  "SendMsg p dt data s =
     (case mpCleave p data 0 of
        Inl e \<Rightarrow> (Ok (Some (''MemoryStore.SendMsg: '' @ e), None), s)
      | Inr m \<Rightarrow>
        (case mpToAddress p m of
           Inl e \<Rightarrow> (Ok (Some (''MemoryStore.SendMsg: '' @ e), None), s)
         | Inr addr \<Rightarrow>
           (case map_of (msUsers s) addr of
              None \<Rightarrow> (Ok (Some (''MemoryStore.SendMsg: no such user '' @ goQuote (mpIsPrint p) addr), None), s)
            | Some (uid, pw) \<Rightarrow>
              (let u = msData s uid in
               case map_of (muNames u) ''INBOX'' of
                 None \<Rightarrow> (Panic ''nil pointer dereference'', s)
               | Some k \<Rightarrow>
                 (let (r, s1) = onUser uid (ImapMailbox.Append (mpGrow p) [] dt (mpCleave p data (muModSeqNext u)) k) s in
                  case r of
                    Inl e \<Rightarrow> (Ok (Some e, None), s1)
                  | Inr _ \<Rightarrow> (Ok (None, Some (uid, int k)), s1))))))"

subsection \<open>Messages\<close>

text \<open>The messages that \<open>Fetch\<close> calls back with.\<close>

definition fetchRefs :: "int \<Rightarrow> nat \<Rightarrow> bool \<Rightarrow> SeqRange list \<Rightarrow> int \<Rightarrow> memUser \<Rightarrow> memRef list" where
  "fetchRefs uid k byUID sset changedSince u =
     map (\<lambda>(i, m). \<lparr>mrUser = uid, mrBox = k, mrIndex = i, mrSummary = summaryOf m\<rparr>)
       (filter (\<lambda>(i, m). SeqContains sset (msgID byUID m) \<and> \<not> msgModSeq m \<le> changedSince) (enumerate 0 (mbMsgs (muBoxes u k))))"

definition refMsg :: "memRef \<Rightarrow> memStore \<Rightarrow> memMsg" where
  "refMsg r s = mbMsgs (muBoxes (msData s (mrUser r)) (mrBox r)) ! mrIndex r"

definition refFlags :: "memRef \<Rightarrow> memStore \<Rightarrow> bytes list" where
  "refFlags r s = sliceFlags (muArrays (msData s (mrUser r))) (msgFlags (refMsg r s))"

text \<open>The copy of the message: the headers are added again, the contents of the parts are left out.\<close>

definition copyMsg :: "memParams \<Rightarrow> memRef \<Rightarrow> memStore \<Rightarrow> msgData" where
  "copyMsg p r s =
     (let m = msgMail (refMsg r s) in
      \<lparr>mdHeaders = fold (\<lambda>e h. hAdd (fst e) (snd e) h) (hEntries (mpHeaders p m)) emptyHeader,
       mdFlags = refFlags r s, mdDate = mpFormatDate p (mailDate m) (mailZone m),
       mdParts = map (\<lambda>x. x\<lparr>partContent := None\<rparr>) (mpParts p m), mdSize = mailSize m, mdRandom = mpRandom p m\<rparr>)"

definition LoadPart :: "memParams \<Rightarrow> memRef \<Rightarrow> nat \<Rightarrow> memStore \<Rightarrow> bytes + bytes" where
  "LoadPart p r i s =
     (let fs = mailFiles (msgMail (refMsg r s)) in
      if i < length fs then mpRead p (fs ! i) (fs ! i \<in> set (muClosed (msData s (mrUser r)))) else Inl ''no such part'')"

subsection \<open>The store as the server's data store\<close>

definition storeReply :: "(storeResult list \<times> SeqRange list) \<times> memUser \<Rightarrow> (bytes + (summary \<times> bytes list) list \<times> SeqRange list) \<times> memUser" where
  "storeReply r =
     (case r of ((stored, failed), u) \<Rightarrow>
       (Inr (map (\<lambda>x. (\<lparr>sumSeq = stSeq x, sumUID = stUID x, sumModSeq = stModSeq x\<rparr>, sliceFlags (muArrays u) (stFlags x))) stored, failed), u))"

definition memBackend :: "memParams \<Rightarrow> (memStore, int, int \<times> nat, memRef) backend" where
  "memBackend p =
     \<lparr>beLogin = Login p,
      beMailboxes = (\<lambda>uid s. Inr (Mailboxes (msData s uid))),
      beMailbox = (\<lambda>uid name s.
        (case Mailbox name (msData s uid) of None \<Rightarrow> Inl (''MemoryStore: unknown mailbox '' @ name) | Some k \<Rightarrow> Inr (Some (uid, k)))),
      beCreate = (\<lambda>uid name attrs. onUser uid (CreateMailbox name attrs)),
      beDelete = (\<lambda>uid name. onUser uid (DeleteMailbox name)),
      beRename = (\<lambda>uid old new s. let (e, s1) = onUser uid (RenameMailbox old new) s in (Ok e, s1)),
      beRegister = (\<lambda>uid name dev s. (None, s)),
      beCloseSession = (\<lambda>uid s. s),
      beID = (\<lambda>h. int (snd h)),
      beInfo = (\<lambda>h s. Inr (Info (snd h) (msData s (fst h)))),
      beAppend = (\<lambda>h flags date data s.
        (let (r, s1) = onUser (fst h) (ImapMailbox.Append (mpGrow p) flags (mpParseDate p date)
           (mpCleave p data (muModSeqNext (msData s (fst h)))) (snd h)) s in (Ok r, s1))),
      beSearch = (\<lambda>h op s. Inr (Search op (snd h) (msData s (fst h)))),
      beFetch = (\<lambda>h byUID sset changedSince s. (None, fetchRefs (fst h) (snd h) byUID sset changedSince (msData s (fst h)))),
      beSummary = mrSummary,
      beMessage = copyMsg p,
      beLoadPart = LoadPart p,
      beSetSeen = (\<lambda>r s.
        (let (ok, s') = onUser (mrUser r) (SetSeen (mpGrow p) (refFlags r s) (mrIndex r) (mrBox r)) s in
         (if ok then None else Some (''message '' @ fmtNat (unat (sumSeq (mrSummary r))) @ '' already '' @ flagSeen), s'))),
      beSeenFlags = (\<lambda>r fs s. refFlags r s),
      beExpunge = (\<lambda>h q. onUser (fst h) (\<lambda>u. let (ns, u') = Expunge q (snd h) u in ((None, ns), u'))),
      beStore = (\<lambda>h byUID sset st. onUser (fst h) (\<lambda>u. storeReply (Store (mpGrow p) byUID sset st (snd h) u))),
      beMove = (\<lambda>h byUID sset dst. onUser (fst h) (\<lambda>u.
        case Move byUID sset (snd dst) (snd h) u of (Inl e, u') \<Rightarrow> ((Some e, []), u') | (Inr rs, u') \<Rightarrow> ((None, rs), u'))),
      beCopy = (\<lambda>h byUID sset dst. onUser (fst h) (\<lambda>u.
        case Copy byUID sset (snd dst) (snd h) u of (Inl e, u') \<Rightarrow> ((Some e, []), u') | (Inr rs, u') \<Rightarrow> ((None, rs), u'))),
      beHighest = (\<lambda>h s. Inr (HighestModSequence (snd h) (msData s (fst h)))),
      beClose = (\<lambda>h s. (None, s))\<rparr>"

interpretation memory: mailbox_found "memBackend p" for p
  by unfold_locales (simp add: memBackend_def split: option.splits)

lemma onUser_simps [simp]:
  "fst (onUser uid f s) = fst (f (msData s uid))" "msData (snd (onUser uid f s)) = (msData s)(uid := snd (f (msData s uid)))"
  "msUsers (snd (onUser uid f s)) = msUsers s"
  by (simp_all add: onUser_def split_beta Let_def)

lemma onUser_eq: "onUser uid f s = (r, s') \<longleftrightarrow> (\<exists>u. f (msData s uid) = (r, u) \<and> s' = s\<lparr>msData := (msData s)(uid := u)\<rparr>)"
  by (auto simp: onUser_def Let_def split: prod.splits)

definition storeOK :: "memStore \<Rightarrow> bool" where
  "storeOK s \<longleftrightarrow> (\<forall>uid. userOK (msData s uid))"

definition boxUIDs :: "int \<times> nat \<Rightarrow> memStore \<Rightarrow> u32 list" where
  "boxUIDs h s = map msgUID (mbMsgs (muBoxes (msData s (fst h)) (snd h)))"

definition boxFits :: "int \<times> nat \<Rightarrow> int \<times> nat \<Rightarrow> memStore \<Rightarrow> bool" where
  "boxFits h dst s \<longleftrightarrow> room (muBoxes (msData s (fst h)) (snd dst)) (length (boxUIDs h s))"

lemma Info_count: "numMessages (Info k u) = of_nat (length (mbMsgs (muBoxes u k)))"
proof -
  have "numMessages (fold (infoStep h) ims i) = numMessages i" for h ims i
    by (induction ims arbitrary: i) (simp_all add: infoStep_def Let_def)
  then show ?thesis by (simp add: Info_def Let_def)
qed

lemma Expunge_uids:
  assumes "boxOK (muBoxes u k)" and "Expunge q k u = (ns, u')"
  shows "fold expungeAt ns (map msgUID (mbMsgs (muBoxes u k))) = map msgUID (mbMsgs (muBoxes u' k))"
  by (rule Expunge_loop [OF assms(1), of q]) (use assms(2) in auto)

interpretation memory: mail_store "memBackend p" storeOK boxUIDs boxFits for p
proof (unfold_locales, goal_cases)
  case (1 s h q ns s')
  then obtain u where u: "Expunge q (snd h) (msData s (fst h)) = (ns, u)" "s' = s\<lparr>msData := (msData s)(fst h := u)\<rparr>"
    by (auto simp: memBackend_def onUser_eq Let_def split: prod.splits)
  then show ?case using Expunge_OK [of "msData s (fst h)" q "snd h"] Expunge_uids [OF _ u(1)] 1(1)
    by (auto simp: storeOK_def boxUIDs_def dest: userOK_D(1))
next
  case (2 s h dst uid sset rs s')
  then obtain u where u: "Move uid sset (snd dst) (snd h) (msData s (fst h)) = (Inr rs, u)" "s' = s\<lparr>msData := (msData s)(fst h := u)\<rparr>"
    by (auto simp: memBackend_def onUser_eq split: prod.splits sum.splits)
  have ne: "snd dst \<noteq> snd h" using u(1) by (auto simp: Move_def)
  have ok: "userOK (msData s (fst h))" "room (muBoxes (msData s (fst h)) (snd dst)) (length (mbMsgs (muBoxes (msData s (fst h)) (snd h))))"
    using 2(1,2) by (simp_all add: storeOK_def boxFits_def boxUIDs_def)
  have "userOK u" using Move_OK [OF ok, of uid sset] u(1) by simp
  moreover have "fold expungeAt (map fst rs) (map msgUID (mbMsgs (muBoxes (msData s (fst h)) (snd h)))) = map msgUID (mbMsgs (muBoxes u (snd h)))"
    by (rule Move_loop [OF userOK_D(1) [OF ok(1)] userOK_D(1) [OF ok(1)] ok(2) ne, of uid sset]) (use u(1) ne in auto)
  ultimately show ?case using 2(1) u(2) by (simp add: storeOK_def boxUIDs_def)
next
  case (3 s h info)
  then show ?case using boxOK_length [OF userOK_D(1), of "msData s (fst h)" "snd h"]
    by (auto simp: memBackend_def Info_count storeOK_def boxUIDs_def intro!: unat_of_nat_u32)
qed

subsection \<open>Who owns what\<close>

definition touchesUser :: "int \<Rightarrow> memStore \<Rightarrow> memStore \<Rightarrow> bool" where
  "touchesUser uid s s' \<longleftrightarrow> msUsers s' = msUsers s \<and> (\<forall>v. v \<noteq> uid \<longrightarrow> msData s' v = msData s v)"

lemma touches_onUser: "onUser uid f s = (r, s') \<Longrightarrow> touchesUser uid s s'"
  by (auto simp: onUser_eq touchesUser_def)

lemma touches_Login: "Login p name pass s = (r, s') \<Longrightarrow> touchesUser uid s s'"
  by (auto simp: Login_def touchesUser_def split: option.splits if_splits prod.splits)

interpretation memory: owned_store "memBackend p" fst mrUser "\<lambda>u. u" touchesUser for p
proof (unfold_locales, goal_cases)
  case 1
  then show ?case by (simp add: touchesUser_def)
next
  case (2 u s s' s'')
  then show ?case by (simp add: touchesUser_def)
next
  case (3 name pass s r s' u)
  then show ?case by (simp add: memBackend_def touches_Login)
next
  case (4 name pass s i u s')
  then show ?case by (auto simp: memBackend_def Login_def split: option.splits if_splits)
next
  case (5 u name s h)
  then show ?case by (auto simp: memBackend_def split: option.splits)
next
  case (6 h b q ch s e ms m)
  then show ?case by (auto simp: memBackend_def fetchRefs_def)
qed (auto simp: memBackend_def touchesUser_def dest: touches_onUser split: prod.splits)

subsection \<open>The server on the in-memory store\<close>

text \<open>C2: Whatever the clients send and in whatever order their commands are served, a server on a data store whose sessions never return
  a nil mailbox without an error never uses a nil session or mailbox: a selected connection has an open mailbox, an authenticated one a
  session.\<close>

theorem server_never_nil:
  assumes "\<And>u name s. beMailbox be u name s \<noteq> Inr None" and "(serverStep v be)\<^sup>*\<^sup>* (initWorld s0) w"
  shows "\<not> wNil w \<and> (\<forall>c. (cMailbox (wConn w c) \<noteq> None \<longleftrightarrow> connMode (wConn w c) = ModeSelected) \<and>
    (connMode (wConn w c) \<noteq> ModeNonAuth \<longrightarrow> cSession (wConn w c) \<noteq> None))"
  using mailbox_found.reachable_OK [OF mailbox_found.intro, OF assms] by (simp add: worldOK_def connOK_def)

theorem server_never_nil_witness:
  "\<not> wNil (accept 0 [] EOF (initWorld emptyStore) :: (memStore, int, int \<times> nat) world) \<and>
    (\<forall>c. (cMailbox (wConn (accept 0 [] EOF (initWorld emptyStore) :: (memStore, int, int \<times> nat) world) c) \<noteq> None \<longleftrightarrow>
        connMode (wConn (accept 0 [] EOF (initWorld emptyStore) :: (memStore, int, int \<times> nat) world) c) = ModeSelected) \<and>
      (connMode (wConn (accept 0 [] EOF (initWorld emptyStore) :: (memStore, int, int \<times> nat) world) c) \<noteq> ModeNonAuth \<longrightarrow>
        cSession (wConn (accept 0 [] EOF (initWorld emptyStore) :: (memStore, int, int \<times> nat) world) c) \<noteq> None))"
proof (rule server_never_nil [of "memBackend p"])
  show "beMailbox (memBackend p) u name s \<noteq> Inr None" for u name s by (rule memory.mailbox_not_nil)
  show "(serverStep v (memBackend p))\<^sup>*\<^sup>* (initWorld emptyStore) (accept 0 [] EOF (initWorld emptyStore))" for v
    by (intro r_into_rtranclp serverStep.Accept) (simp_all add: initWorld_def)
qed

text \<open>A LOGIN line, from the bytes on the network to the session.\<close>

lemma login_step:
  assumes k: "ready (cParser (wConn w c))" "connMode (wConn w c) = ModeNonAuth" "\<not> cClosed (wConn w c)"
    and line: "tagBytes tag" "knownName name ''LOGIN''" "textBytes user" "textBytes pass"
      "pBuf (cParser (wConn w c)) = tag @ SP # name @ SP # quoteString user @ SP # quoteString pass @ CRLF @ r"
    and u: "map_of (msUsers (wStore w)) user = Some (uid, pw)"
  shows "\<exists>w'. serveParseCmd v (memBackend p) c w = Some (True, w') \<and> pBuf (cParser (wConn w' c)) = r \<and>
    msData (wStore w') = msData (wStore w) \<and> (\<forall>d. d \<noteq> c \<longrightarrow> wConn w' d = wConn w d) \<and>
    (if pass = pw then
       cSession (wConn w' c) = Some uid \<and> connMode (wConn w' c) = ModeAuth \<and> c \<in> set (wUsers w' uid) \<and>
       (\<exists>out. cOut (wConn w' c) = out @ tag @ '' OK [CAPABILITY '' @ capabilities v @ ''] logged in'' @ CRLF)
     else
       cSession (wConn w' c) = cSession (wConn w c) \<and> connMode (wConn w' c) = ModeNonAuth \<and> wUsers w' = wUsers w \<and>
       (\<exists>out. cOut (wConn w' c) = out @ tag @ '' BAD MemoryStore: bad password for user '' @ goQuote (mpIsPrint p) user @ CRLF))"
proof -
  obtain q where q: "ParseCommand (cParser (wConn w c)) = Some (Ok (), q)" "pBuf q = r" "pMode q = ModeNonAuth"
    "pCommand q = emptyCommand\<lparr>cmdTag := tag, cmdName := ''LOGIN'', cmdUsername := user, cmdPassword := pass\<rparr>"
    using login_run [OF k(1,2) line] by blast
  define k1 where "k1 = writeUpdates ((writeOut (concat (map fst (drop (length (contLog (pScanner (cParser (wConn w c)))))
    (contLog (pScanner q))))) (wConn w c))\<lparr>cParser := q, cRespondBuf := []\<rparr>)"
  define w1 where "w1 = updConn c (\<lambda>_. k1) w"
  have k1: "cParser k1 = q" "cSession k1 = cSession (wConn w c)" "\<not> cClosed k1"
    using k(3) by (simp_all add: k1_def writeUpdates_def writeOut_def)
  have "serveParseCmd v (memBackend p) c w = Some (True, dispatch v (memBackend p) c w1)"
    by (simp add: serveParseCmd_def serveCmd_def q(1) w1_def k1_def updConn_def Let_def writeOut_def)
  moreover have "dispatch v (memBackend p) c w1 = cmdLogin v (memBackend p) c w1"
    by (simp add: dispatch_def w1_def k1(1) q(4) Let_def)
  ultimately have s: "serveParseCmd v (memBackend p) c w = Some (True, cmdLogin v (memBackend p) c w1)" by simp
  have b: "beLogin (memBackend p) = Login p" by (simp add: memBackend_def)
  have m: "connMode (wConn w1 c) = ModeNonAuth" "cmdUsername (cmdOf c w1) = user" "cmdPassword (cmdOf c w1) = pass" "cmdTag (cmdOf c w1) = tag"
    "wStore w1 = wStore w" "wUsers w1 = wUsers w" "wConn w1 c = k1" "\<And>d. d \<noteq> c \<Longrightarrow> wConn w1 d = wConn w d"
    by (simp_all add: w1_def k1(1) q(3,4))
  show ?thesis
  proof (cases "pass = pw")
    case True
    then have l: "Login p user pass (wStore w) = (Inr (uid, uid), (wStore w)\<lparr>msNextSession := msNextSession (wStore w) + 1\<rparr>)"
      using u by (simp add: Login_def)
    show ?thesis unfolding s using True m k1 q(2,4)
      by (simp add: cmdLogin_def b l [unfolded True] Let_def respondln_def writeOut_def)
  next
    case False
    then have l: "Login p user pass (wStore w) = (Inl (LoginError (''MemoryStore: bad password for user '' @ goQuote (mpIsPrint p) user)), wStore w)"
      using u by (simp add: Login_def)
    show ?thesis unfolding s using False m k1 q(2-4)
      by (simp add: cmdLogin_def b l Let_def respondln_def writeOut_def)
  qed
qed

lemma ParseCommand_eof: "pBuf p = [] \<Longrightarrow> \<exists>r q. ParseCommand p = Some (r, q)"
proof -
  assume b: "pBuf p = []"
  have e: "\<exists>s'. peekChar s = (NUL, s') \<and> buf s' = []" if "buf s = []" for s
    using that by (auto simp: peekChar_def)
  have "\<not> fst (nextToken TokenTag False s)" if "buf s = []" for s
  proof -
    have c: "buf (clear s) = []" using that by simp
    obtain s1 where s1: "peekChar (clear s) = (NUL, s1)" "buf s1 = []" using e [OF c] by blast
    obtain s2 where s2: "peekChar s1 = (NUL, s2)" using e [OF s1(2)] by blast
    have "consumeWhitespace (clear s) = s1" by (subst consumeWhitespace.simps) (simp add: s1)
    then show ?thesis by (simp add: nextToken_def s2)
  qed
  moreover have "buf (pScanner (startP p)) = []" using b by (simp add: resetParser_def shareLiteral_def Let_def updCmd_def)
  ultimately have "fst (commandHead (startP p)) \<noteq> None" by (simp add: commandHead_def pNext_def Next_def split_beta)
  then have "parseBody (startP p) \<noteq> None" by (auto simp: parseBody_def Let_def split: prod.splits)
  then show ?thesis by (auto simp: ParseCommand_def Let_def split: option.splits prod.splits)
qed

text \<open>A store with the users joe (password x), whose INBOX has two messages, and ann.\<close>

definition exampleParams :: memParams where
  "exampleParams = \<lparr>mpGrow = (\<lambda>c n. n), mpCleave = (\<lambda>d n. Inr exampleMail), mpHeaders = (\<lambda>m. emptyHeader), mpParts = (\<lambda>m. []),
     mpRead = (\<lambda>f closed. Inr []), mpParseDate = (\<lambda>d. (0, 0)), mpFormatDate = (\<lambda>d z. []), mpToAddress = (\<lambda>m. Inr ''joe''),
     mpIsPrint = (\<lambda>r. True), mpRandom = (\<lambda>m n. NUL)\<rparr>"

definition exampleEnv :: env where
  "exampleEnv = \<lparr>envErrText = (\<lambda>e. []), envDateError = (\<lambda>d. None), envAddresses = (\<lambda>b. None), envMediaType = (\<lambda>b. None),
     envQuotedPrintable = (\<lambda>b. b), envChunks = (\<lambda>b. [b]), envPathClean = (\<lambda>b. b), envInflate = (\<lambda>b. b), envIsPrint = (\<lambda>r. True),
     envVersion = [], envAPNS = None, envMaxConns = 16384\<rparr>"

definition exampleStore :: memStore where
  "exampleStore = \<lparr>msUsers = [(''ann'', 2, ''y''), (''joe'', 1, ''x'')], msData = (\<lambda>uid. if uid = 1 then exampleUser else AddUser 1),
     msNextSession = 3\<rparr>"

definition joeLine :: bytes where
  "joeLine = ''a1 login '' @ quoteString ''joe'' @ SP # quoteString ''x'' @ CRLF"

definition joeWorld :: "(memStore, int, int \<times> nat) world" where
  "joeWorld = accept 0 joeLine EOF (initWorld exampleStore)"

lemma joe_names: "knownName ''login'' ''LOGIN''"
  by code_simp

text \<open>C25: A LOGIN line with quoted strings, on a fresh connection to a server on the in-memory store, in one command: with the user's password it
  opens the user's session, registers the connection with the user and answers OK with the capabilities; with another it answers BAD
  and changes neither the session nor the users' connections. Either way the mailboxes and the other connections stay as they are and
  the rest of the input is left for the next command.\<close>

theorem login_served:
  assumes "ready (cParser (wConn w c))" and "connMode (wConn w c) = ModeNonAuth" and "\<not> cClosed (wConn w c)"
    and "tagBytes tag" and "knownName name ''LOGIN''" and "textBytes user" and "textBytes pass"
    and "pBuf (cParser (wConn w c)) = tag @ SP # name @ SP # quoteString user @ SP # quoteString pass @ CRLF @ r"
    and "map_of (msUsers (wStore w)) user = Some (uid, pw)"
  shows "\<exists>w'. serveParseCmd v (memBackend p) c w = Some (True, w') \<and> pBuf (cParser (wConn w' c)) = r \<and>
    msData (wStore w') = msData (wStore w) \<and> (\<forall>d. d \<noteq> c \<longrightarrow> wConn w' d = wConn w d) \<and>
    (if pass = pw then
       cSession (wConn w' c) = Some uid \<and> connMode (wConn w' c) = ModeAuth \<and> c \<in> set (wUsers w' uid) \<and>
       (\<exists>out. cOut (wConn w' c) = out @ tag @ '' OK [CAPABILITY '' @ capabilities v @ ''] logged in'' @ CRLF)
     else
       cSession (wConn w' c) = cSession (wConn w c) \<and> connMode (wConn w' c) = ModeNonAuth \<and> wUsers w' = wUsers w \<and>
       (\<exists>out. cOut (wConn w' c) = out @ tag @ '' BAD MemoryStore: bad password for user '' @ goQuote (mpIsPrint p) user @ CRLF))"
  using assms by (rule login_step)

lemma joe_facts:
  "ready (cParser (wConn joeWorld 0))" "connMode (wConn joeWorld 0) = ModeNonAuth" "\<not> cClosed (wConn joeWorld 0)" "tagBytes ''a1''"
  "textBytes ''joe''" "textBytes ''x''"
  "pBuf (cParser (wConn joeWorld 0)) = ''a1'' @ SP # ''login'' @ SP # quoteString ''joe'' @ SP # quoteString ''x'' @ CRLF @ []"
  "map_of (msUsers (wStore joeWorld)) ''joe'' = Some (1, ''x'')"
  by (simp_all add: joeWorld_def accept_def initWorld_def newConn_def NewParser_def NewScanner_def idle_def tagBytes_def textBytes_def
      is7bitPrint_def joeLine_def exampleStore_def)

theorem login_served_witness:
  "\<exists>w'. serveParseCmd exampleEnv (memBackend exampleParams) 0 joeWorld = Some (True, w') \<and> cSession (wConn w' 0) = Some 1"
proof -
  show ?thesis
    using login_served [OF joe_facts(1-4) joe_names joe_facts(5-8), of exampleEnv exampleParams] by auto
qed

text \<open>C3: In every reachable state, a command of a connection (and the end of the connection after it) changes the mailboxes of no user but the
  one logged in on it, and no user's name or password; a connection of another user is not written to and keeps all of its state.\<close>

theorem user_isolation:
  assumes "(serverStep v (memBackend p))\<^sup>*\<^sup>* (initWorld s0) w" and "serveParseCmd v (memBackend p) c w = Some (b, w')"
    and "w2 \<in> {w', endConn (memBackend p) c w'}" and "cSession (wConn w c) = Some uid"
  shows "(\<forall>v. v \<noteq> uid \<longrightarrow> msData (wStore w2) v = msData (wStore w) v) \<and> msUsers (wStore w2) = msUsers (wStore w) \<and>
    (\<forall>d. d \<noteq> c \<longrightarrow> cUserID (wConn w d) \<noteq> uid \<longrightarrow> wConn w2 d = wConn w d)"
proof -
  have o: "memory.ownedWorld w" by (rule memory.ownedWorld_reachable [OF assms(1)])
  then have "cUserID (wConn w c) = uid"
    using assms(4) unfolding memory.ownedWorld_def memory.anonymous_def memory.ownedBy_def by (metis option.distinct(1) option.inject)
  then show ?thesis using memory.serve_isolated [OF o assms(2,3)] assms(4) by (simp add: touchesUser_def)
qed

theorem user_isolation_witness:
  "\<exists>w b w'. cSession (wConn w 0) = Some 1 \<and> serveParseCmd exampleEnv (memBackend exampleParams) 0 w = Some (b, w') \<and>
    msData (wStore w') 2 = msData (wStore w) 2 \<and> msUsers (wStore w') = msUsers (wStore w)"
proof -
  let ?be = "memBackend exampleParams"
  have "0 \<le> envMaxConns exampleEnv" by simp
  then have s0: "serverStep exampleEnv ?be (initWorld exampleStore) joeWorld"
    unfolding joeWorld_def by (intro serverStep.Accept) (simp_all add: initWorld_def)
  obtain w where w: "serveParseCmd exampleEnv ?be 0 joeWorld = Some (True, w)" "cSession (wConn w 0) = Some 1" "pBuf (cParser (wConn w 0)) = []"
    using login_step [OF joe_facts(1-4) joe_names joe_facts(5-8), of exampleEnv exampleParams] by auto
  have "serverStep exampleEnv ?be joeWorld w"
    by (rule serverStep.Serve [OF _ _ w(1)]) (simp_all add: joeWorld_def accept_def newConn_def)
  then have r: "(serverStep exampleEnv ?be)\<^sup>*\<^sup>* (initWorld exampleStore) w" using s0 by (meson converse_rtranclp_into_rtranclp r_into_rtranclp)
  obtain x q where "ParseCommand (cParser (wConn w 0)) = Some (x, q)" using ParseCommand_eof [OF w(3)] by blast
  then obtain b w' where p: "serveParseCmd exampleEnv ?be 0 w = Some (b, w')" by (fastforce simp: serveParseCmd_def Let_def)
  have "w' \<in> {w', endConn ?be 0 w'}" by simp
  from user_isolation [OF r p this w(2)] p w(2) show ?thesis by force
qed

text \<open>C6: EXPUNGE on one connection, seen by another connection of the user that watches the same mailbox: the numbers it is told, applied in
  order to its list of UIDs, give the mailbox's new list, and the EXISTS that follows counts it. An idling connection is sent the
  lines at once; another keeps them for its next command, behind what it has pending.\<close>

theorem expunge_told:
  assumes "storeOK (wStore w)" and "cMailbox (wConn w c) = Some h"
    and "distinct (wUsers w (cUserID (wConn w c)))" and "d \<noteq> c" and "d \<in> set (wUsers w (cUserID (wConn w c)))"
    and "cMailbox (wConn w d) = Some h" and "cIdleStarted (wConn w d)"
  shows "\<exists>ns. let w' = cmdExpunge (memBackend p) c w; uids' = boxUIDs h (wStore w');
        us = map expungeUpdate ns @ [totalCount (of_nat (length uids')) False] in
      fold expungeAt ns (boxUIDs h (wStore w)) = uids' \<and> length uids' < 2 ^ 32 \<and>
      (if cIdling (wConn w d) then
         cUpdates (wConn w d) = [] \<longrightarrow> \<not> cClosed (wConn w d) \<longrightarrow>
           cOut (wConn w' d) = cOut (wConn w d) @ concat (map updateText us) \<and> cUpdates (wConn w' d) = []
       else cOut (wConn w' d) = cOut (wConn w d) \<and> cUpdates (wConn w' d) = cUpdates (wConn w d) @ us)"
proof -
  let ?q = "if cmdUID (cmdOf c w) then Some (cmdSequences (cmdOf c w)) else None"
  obtain ns s' where e: "beExpunge (memBackend p) h ?q (wStore w) = ((None, ns), s')"
    by (auto simp: memBackend_def onUser_def split_beta Let_def)
  have i: "beInfo (memBackend p) h s' = Inr (Info (snd h) (msData s' (fst h)))" by (simp add: memBackend_def)
  let ?info = "Info (snd h) (msData s' (fst h))"
  have wd: "watches (memBackend p) (beID (memBackend p) h) (wConn w d)" using assms(6,7) by (simp add: watches_def)
  note told = memory.watcher_expunge [OF assms(1,2) e i assms(3-5) wd]
  have n: "length (boxUIDs h s') < 2 ^ 32" "of_nat (length (boxUIDs h s')) = numMessages ?info"
    using told(3) unsigned_less [of "numMessages ?info"] by (simp_all flip: told(3))
  show ?thesis
    using told n receive_idling [of "wConn w d" "map expungeUpdate ns @ [totalCount (numMessages ?info) False]"]
      receive_waiting [of "wConn w d" "map expungeUpdate ns @ [totalCount (numMessages ?info) False]"]
    by (intro exI [of _ ns]) (simp add: Let_def)
qed

definition idlePair :: "(memStore, int, int \<times> nat) world" where
  "idlePair = (let k = (newConn [] EOF)\<lparr>cUserID := 1, cSession := Some 1, cMailbox := Some (1, 0)\<rparr> in
     (initWorld exampleStore)\<lparr>wConn := (\<lambda>c. if c = 1 then k\<lparr>cIdleStarted := True, cIdling := True\<rparr> else k), wUsers := (\<lambda>u. [0, 1])\<rparr>)"

theorem expunge_told_witness:
  "\<exists>ns. fold expungeAt ns (boxUIDs (1, 0) (wStore idlePair)) = boxUIDs (1, 0) (wStore (cmdExpunge (memBackend exampleParams) 0 idlePair)) \<and>
    cOut (wConn (cmdExpunge (memBackend exampleParams) 0 idlePair) 1) = greeting @ concat (map updateText
      (map expungeUpdate ns @ [totalCount (of_nat (length (boxUIDs (1, 0) (wStore (cmdExpunge (memBackend exampleParams) 0 idlePair))))) False]))"
proof -
  have "storeOK (wStore idlePair)"
    by (simp add: storeOK_def idlePair_def initWorld_def exampleStore_def exampleUser_OK AddUser_OK Let_def)
  then show ?thesis
    using expunge_told [of idlePair 0 "(1, 0)" 1 exampleParams]
    by (auto simp: idlePair_def initWorld_def newConn_def Let_def)
qed

end
