(* ===== verification/CssReader.thy ===== *)
theory CssReader
  imports GoIO
begin

text \<open>
  The rune reader of the CSS scanner (\<open>html/css/sourcereader.go\<close>): a buffer of 4096 bytes over an
  \<open>io.Reader\<close>, with a look ahead of three runes and an unread of one. A rune is an \<open>int\<close>, -1 where
  the Go code has -1 for the end of the input.

  The \<open>io.Reader\<close> is the list of what its calls of \<open>Read\<close> will return when they have room (data
  and perhaps an error); what does not fit the caller's slice stays for the next call, and when
  the list is used up \<open>Read\<close> returns \<open>io.EOF\<close>. \<open>r.buf\<close> is kept in two parts, \<open>rDone\<close> before
  \<open>r.off\<close> and \<open>rAvail\<close> from there on.

  \<open>rest\<close> is the input still to be read. Every operation is shown to act on it alone, however the
  bytes arrive (\<open>peek_spec\<close>, \<open>GetRune_spec\<close>), and \<open>tracks\<close> is the invariant that line, column and
  offset are those of the bytes consumed.
\<close>

text \<open>\<open>utf8.FullRune\<close>: no further byte can change what \<open>DecodeRune\<close> returns.\<close>

definition runeLen :: "byte \<Rightarrow> nat" where
  "runeLen a =
     (let x = bval a in
      if 0xC2 \<le> x \<and> x \<le> 0xDF then 2 else if 0xE0 \<le> x \<and> x \<le> 0xEF then 3
      else if 0xF0 \<le> x \<and> x \<le> 0xF4 then 4 else 1)"

definition accepts :: "byte \<Rightarrow> byte \<Rightarrow> bool" where
  "accepts a b \<longleftrightarrow> cont b \<and> (bval a = 0xE0 \<longrightarrow> 0xA0 \<le> bval b) \<and> (bval a = 0xED \<longrightarrow> bval b \<le> 0x9F)
     \<and> (bval a = 0xF0 \<longrightarrow> 0x90 \<le> bval b) \<and> (bval a = 0xF4 \<longrightarrow> bval b \<le> 0x8F)"

definition fullRune :: "bytes \<Rightarrow> bool" where
  "fullRune p =
     (case p of
        [] \<Rightarrow> False
      | a # p1 \<Rightarrow> runeLen a \<le> length p \<or> p1 \<noteq> [] \<and> \<not> accepts a (hd p1) \<or> 2 < length p \<and> \<not> cont (p ! 2))"

subsection \<open>The reader\<close>

record sourceReader =
  rErr :: "rdErr option"
  rSrc :: chunks
  rDone :: bytes
  rAvail :: bytes
  rLine :: int
  rCol :: int
  rN :: int
  rRecHasNULL :: bool
  rReplaceNULL :: bool
  rLastRuneLen :: int
  rLastCol :: int

definition bufCap :: nat where "bufCap = 4096"

definition ErrMaxBufExceeded :: rdErr where
  "ErrMaxBufExceeded = RdErr ''sourcereader: max buffer size exceeded''"

definition ErrNoProgress :: rdErr where
  "ErrNoProgress = RdErr ''multiple Read calls return no data or error''"

definition ErrNoRune :: rdErr where
  "ErrNoRune = RdErr ''sourcereader: no rune to unread''"

definition NewSourceReader :: "chunks \<Rightarrow> sourceReader" where
  "NewSourceReader src =
     \<lparr>rErr = None, rSrc = src, rDone = [], rAvail = [], rLine = 0, rCol = 0, rN = 0,
      rRecHasNULL = False, rReplaceNULL = False, rLastRuneLen = 0, rLastCol = 0\<rparr>"

definition SetReplaceNULL :: "bool \<Rightarrow> sourceReader \<Rightarrow> sourceReader" where
  "SetReplaceNULL v r = r\<lparr>rReplaceNULL := v\<rparr>"

text \<open>The first half of \<open>fill\<close>: the bytes before the last rune leave the buffer.\<close>

definition slide :: "sourceReader \<Rightarrow> sourceReader" where
  "slide r =
     (let slideOff = int (length (rDone r)) - (if 0 < rLastRuneLen r then rLastRuneLen r else 0) in
      if 0 < slideOff then r\<lparr>rDone := drop (nat slideOff) (rDone r)\<rparr> else r)"

definition fill :: "sourceReader \<Rightarrow> sourceReader" where
  "fill r0 =
     (let r = slide r0 in
      if length (rDone r) = bufCap then r\<lparr>rErr := Some ErrMaxBufExceeded\<rparr>
      else
        (let (b, err, src) = readSrc (bufCap - length (rDone r @ rAvail r)) (rSrc r);
             r1 = r\<lparr>rAvail := rAvail r @ b, rSrc := src\<rparr> in
         if err \<noteq> None then r1\<lparr>rErr := err\<rparr>
         else if length b = 0 then r1\<lparr>rErr := Some ErrNoProgress\<rparr>
         else r1))"

lemma slide_frame [simp]:
  "rAvail (slide r) = rAvail r" "rSrc (slide r) = rSrc r" "rErr (slide r) = rErr r"
  "rLastRuneLen (slide r) = rLastRuneLen r" "rLine (slide r) = rLine r" "rCol (slide r) = rCol r"
  "rN (slide r) = rN r" "rLastCol (slide r) = rLastCol r" "rReplaceNULL (slide r) = rReplaceNULL r"
  by (simp_all add: slide_def Let_def)

lemma fill_frame [simp]:
  "rLastRuneLen (fill r) = rLastRuneLen r" "rLine (fill r) = rLine r" "rCol (fill r) = rCol r"
  "rN (fill r) = rN r" "rLastCol (fill r) = rLastCol r" "rReplaceNULL (fill r) = rReplaceNULL r"
  "rDone (fill r) = rDone (slide r)"
  by (simp_all add: fill_def Let_def split: prod.splits)

text \<open>The bytes that are in the buffer or in the \<open>io.Reader\<close>.\<close>

definition left :: "sourceReader \<Rightarrow> nat" where
  "left r = length (rAvail r) + srcSize (rSrc r)"

lemma left_fill [simp]: "left (fill r) = left r"
  by (auto simp: fill_def left_def Let_def dest: readSrc_size split: prod.splits)

lemma fill_more: "rErr (fill r) = None \<Longrightarrow> srcSize (rSrc (fill r)) < srcSize (rSrc r)"
  by (auto simp: fill_def Let_def dest!: readSrc_size split: prod.splits if_splits)
    (metis add_less_same_cancel2 length_greater_0_conv less_add_same_cancel2)

function fillTo :: "nat \<Rightarrow> sourceReader \<Rightarrow> sourceReader" where
  "fillTo peekOff r =
     (if rErr r \<noteq> None then r
      else if peekOff + 4 \<le> length (rAvail r) then r
      else if peekOff < length (rAvail r) \<and> fullRune (drop peekOff (rAvail r)) then r
      else fillTo peekOff (fill r))"
  by pat_completeness auto
termination
  by (relation "measure (\<lambda>(k, r). if rErr r = None then Suc (srcSize (rSrc r)) else 0)")
    (auto dest!: fill_more)

declare fillTo.simps [simp del]

text \<open>The rune at the head of some bytes, and its width.\<close>

definition runeAt :: "bool \<Rightarrow> bytes \<Rightarrow> int \<times> nat" where
  "runeAt repl p =
     (let (rn, sz) = decodeRune p in (if repl \<and> rn = 0 then int RuneError else int rn, sz))"

definition peek :: "sourceReader \<Rightarrow> (int \<times> nat) \<times> sourceReader" where
  "peek r0 =
     (let r = fillTo 0 r0 in
      if rAvail r = [] then ((-1, 0), r) else (runeAt (rReplaceNULL r) (rAvail r), r))"

definition PeekRune :: "sourceReader \<Rightarrow> int \<times> sourceReader" where
  "PeekRune r = (let ((rn, sz), r1) = peek r in (rn, r1))"

fun peekLoop :: "nat \<Rightarrow> nat \<Rightarrow> sourceReader \<Rightarrow> int list \<times> sourceReader" where
  "peekLoop 0 peekOff r = ([], r)"
| "peekLoop (Suc k) peekOff r0 =
     (let r = fillTo peekOff r0 in
      if length (rAvail r) \<le> peekOff then (replicate (Suc k) (-1), r)
      else (let (rn, sz) = runeAt (rReplaceNULL r) (drop peekOff (rAvail r));
                (runes, r1) = peekLoop k (peekOff + sz) r in
            (rn # runes, r1)))"

definition PeekRunes :: "nat \<Rightarrow> sourceReader \<Rightarrow> int list \<times> sourceReader" where
  "PeekRunes k r = peekLoop k 0 r"

text \<open>\<open>GetRune\<close> from \<open>r.lastRuneLen = size\<close> on.\<close>

definition advance :: "int \<Rightarrow> nat \<Rightarrow> sourceReader \<Rightarrow> sourceReader" where
  "advance rn sz r =
     (let r1 = r\<lparr>rLastRuneLen := int sz, rDone := rDone r @ take sz (rAvail r), rAvail := drop sz (rAvail r)\<rparr>;
          r2 = (if rReplaceNULL r \<and> rn = int RuneError \<and> sz = 1 then r1\<lparr>rRecHasNULL := True\<rparr> else r1);
          r3 = (if rn = 10 then r2\<lparr>rLastCol := rCol r2, rLine := rLine r2 + 1, rCol := 0\<rparr>
                else r2\<lparr>rCol := rCol r2 + int sz\<rparr>) in
      r3\<lparr>rN := rN r3 + int sz\<rparr>)"

definition GetRune :: "sourceReader \<Rightarrow> int \<times> sourceReader" where
  "GetRune r0 =
     (let ((rn, sz), r) = peek r0 in if rn = -1 then (-1, r) else (rn, advance rn sz r))"

definition UngetRune :: "sourceReader \<Rightarrow> sourceReader" where
  "UngetRune r =
     (if rLastRuneLen r < 0 then r\<lparr>rErr := Some ErrNoRune\<rparr>
      else
        (let keep = length (rDone r) - nat (rLastRuneLen r);
             r1 = r\<lparr>rDone := take keep (rDone r), rAvail := drop keep (rDone r) @ rAvail r,
                    rN := rN r - rLastRuneLen r\<rparr>;
             r2 = (if rCol r1 = 0 then r1\<lparr>rCol := rLastCol r1, rLine := rLine r1 - 1\<rparr>
                   else r1\<lparr>rCol := rCol r1 - rLastRuneLen r1\<rparr>) in
         r2\<lparr>rLastRuneLen := -1\<rparr>))"

definition Pos :: "sourceReader \<Rightarrow> int \<times> int \<times> int" where
  "Pos r = (rLine r, rCol r, rN r)"

subsection \<open>What the buffer keeps\<close>

text \<open>\<open>ext r r1\<close>: peeking has taken \<open>r\<close> to \<open>r1\<close>. The last rune stays in the buffer, and bytes are
  added only while there is no error.\<close>

definition held :: "sourceReader \<Rightarrow> bytes" where
  "held r = drop (length (rDone r) - nat (rLastRuneLen r)) (rDone r)"

definition ext :: "sourceReader \<Rightarrow> sourceReader \<Rightarrow> bool" where
  "ext r r1 \<longleftrightarrow> held r1 = held r \<and> suffix (rDone r1) (rDone r) \<and> left r1 = left r \<and>
     rLastRuneLen r1 = rLastRuneLen r \<and> rLine r1 = rLine r \<and> rCol r1 = rCol r \<and> rN r1 = rN r \<and>
     rLastCol r1 = rLastCol r \<and> rReplaceNULL r1 = rReplaceNULL r \<and>
     (\<exists>more. rAvail r1 = rAvail r @ more \<and> (rErr r \<noteq> None \<longrightarrow> more = [] \<and> rErr r1 = rErr r))"

lemma ext_refl [simp]: "ext r r"
  by (simp add: ext_def)

lemma ext_trans: "ext r r1 \<Longrightarrow> ext r1 r2 \<Longrightarrow> ext r r2"
  unfolding ext_def by (fastforce intro: suffix_order.trans)

lemma held_slide: "held (slide r) = held r"
  by (auto simp: held_def slide_def Let_def nat_diff_distrib')

lemma suffix_slide: "suffix (rDone (slide r)) (rDone r)"
  by (simp add: slide_def Let_def suffix_drop)

lemma held_fill: "held (fill r) = held r"
  using held_slide [of r] by (simp add: held_def)

lemma ext_fill: "rErr r = None \<Longrightarrow> ext r (fill r)"
proof -
  assume "rErr r = None"
  moreover have "\<exists>more. rAvail (fill r) = rAvail r @ more"
    by (auto simp: fill_def Let_def split: prod.splits)
  ultimately show ?thesis
    using held_fill [of r] suffix_slide [of r] by (simp add: ext_def)
qed

lemma ext_fillTo: "ext r (fillTo k r)"
proof (induction k r rule: fillTo.induct)
  case (1 k r)
  then show ?case using ext_fill [of r] ext_trans by (subst fillTo.simps) auto
qed

lemma ext_peek: "peek r = (x, r1) \<Longrightarrow> ext r r1"
  using ext_fillTo [of r 0] by (auto simp: peek_def Let_def split: if_splits)

lemma ext_PeekRune: "PeekRune r = (c, r1) \<Longrightarrow> ext r r1"
  using ext_peek [of r] by (auto simp: PeekRune_def split: prod.splits)

lemma ext_peekLoop: "peekLoop k off r = (cs, r1) \<Longrightarrow> ext r r1"
proof (induction k arbitrary: off r cs r1)
  case 0
  then show ?case by simp
next
  case (Suc k)
  show ?case
    using Suc.prems ext_fillTo [of r off] Suc.IH ext_trans
    by (auto simp: Let_def split: prod.splits if_splits)
qed

lemma ext_PeekRunes: "PeekRunes k r = (cs, r1) \<Longrightarrow> ext r r1"
  by (simp add: PeekRunes_def ext_peekLoop)

lemma fillTo_post: 
  "rErr (fillTo k r) \<noteq> None \<or> k + 4 \<le> length (rAvail (fillTo k r)) \<or>
   k < length (rAvail (fillTo k r)) \<and> fullRune (drop k (rAvail (fillTo k r)))"
proof (induction k r rule: fillTo.induct)
  case (1 k r)
  show ?case
  proof (cases "rErr r \<noteq> None \<or> k + 4 \<le> length (rAvail r)
      \<or> k < length (rAvail r) \<and> fullRune (drop k (rAvail r))")
    case True
    then have "fillTo k r = r" by (subst fillTo.simps) auto
    with True show ?thesis by simp
  next
    case False
    then have "fillTo k r = fillTo k (fill r)" by (subst fillTo.simps) auto
    with False 1 show ?thesis by simp
  qed
qed

lemma decode_one: "runeLen a = 1 \<Longrightarrow> decodeRune (a # x) = decodeRune [a]"
  by (auto simp: runeLen_def decodeRune_def Let_def split: if_splits)

lemma decode_two: "runeLen a = 2 \<Longrightarrow> decodeRune (a # b # x) = decodeRune [a, b]"
  by (simp add: runeLen_def decodeRune_def Let_def split: if_splits)

lemma decode_three: "runeLen a = 3 \<Longrightarrow> decodeRune (a # b # c # x) = decodeRune [a, b, c]"
  by (simp add: runeLen_def decodeRune_def Let_def split: if_splits)

lemma decode_four: "runeLen a = 4 \<Longrightarrow> decodeRune (a # b # c # d # x) = decodeRune [a, b, c, d]"
  by (simp add: runeLen_def decodeRune_def Let_def split: if_splits)

lemma decode_reject:
  "runeLen a \<noteq> 1 \<Longrightarrow> \<not> accepts a b \<Longrightarrow> decodeRune (a # b # x) = (RuneError, 1)"
  by (auto simp: runeLen_def decodeRune_def accepts_def Let_def split: if_splits list.split)

lemma decode_reject3:
  "2 < runeLen a \<Longrightarrow> \<not> cont c \<Longrightarrow> decodeRune (a # b # c # x) = (RuneError, 1)"
  by (simp add: runeLen_def decodeRune_def Let_def split: if_splits list.split)

lemma runeLen_cases:
  obtains "runeLen a = 1" | "runeLen a = 2" | "runeLen a = 3" | "runeLen a = 4"
proof -
  have "runeLen a = 1 \<or> runeLen a = 2 \<or> runeLen a = 3 \<or> runeLen a = 4"
    by (simp add: runeLen_def Let_def)
  then show ?thesis using that by blast
qed

lemma list_upto3:
  obtains "p = []" | b where "p = [b]" | b c where "p = [b, c]" | b c d q where "p = b # c # d # q"
  by (metis list.exhaust)

lemma decode_full:
  assumes "fullRune p"
  shows "decodeRune (p @ q) = decodeRune p"
proof -
  from assms obtain a p1 where p: "p = a # p1" by (cases p) (auto simp: fullRune_def)
  consider "runeLen a = 1" | (two) b p2 where "p1 = b # p2" "runeLen a = 2"
    | (rej) b p2 where "p1 = b # p2" "runeLen a \<noteq> 1" "\<not> accepts a b"
    | (three) b c p3 where "p1 = b # c # p3" "runeLen a = 3"
    | (rej3) b c p3 where "p1 = b # c # p3" "2 < runeLen a" "\<not> cont c"
    | (four) b c d p4 where "p1 = b # c # d # p4" "runeLen a = 4"
    using assms unfolding p fullRune_def
    by (cases rule: runeLen_cases [of a]; cases rule: list_upto3 [of p1]) (simp_all, metis+)
  then show ?thesis
  proof cases
    case 1
    then show ?thesis unfolding p by (metis append_Cons decode_one)
  next
    case two
    then show ?thesis unfolding p by (metis append_Cons decode_two)
  next
    case rej
    then show ?thesis by (simp add: p decode_reject)
  next
    case three
    then show ?thesis unfolding p by (metis append_Cons decode_three)
  next
    case rej3
    then show ?thesis by (simp add: p decode_reject3)
  next
    case four
    then show ?thesis unfolding p by (metis append_Cons decode_four)
  qed
qed

lemma fullRune_four: "4 \<le> length p \<Longrightarrow> fullRune p"
  by (cases p) (auto simp: fullRune_def runeLen_def Let_def)

subsection \<open>Reading forward\<close>

lemma runeAt_width: "p \<noteq> [] \<Longrightarrow> runeAt b p = (c, sz) \<Longrightarrow> 0 < sz \<and> sz \<le> length p \<and> c \<noteq> -1"
  using decodeRune_width [of p] by (auto simp: runeAt_def split: prod.splits if_splits)

lemma peek_cases:
  assumes "peek r = ((c, sz), r1)"
  obtains "rAvail r1 = []" "c = -1" "sz = 0"
    | "rAvail r1 \<noteq> []" "c \<noteq> -1" "0 < sz" "sz \<le> length (rAvail r1)"
      "runeAt (rReplaceNULL r1) (rAvail r1) = (c, sz)"
proof (cases "rAvail r1 = []")
  case True
  then show ?thesis using assms that(1) by (auto simp: peek_def Let_def split: if_splits)
next
  case False
  then have "runeAt (rReplaceNULL r1) (rAvail r1) = (c, sz)"
    using assms by (auto simp: peek_def Let_def split: if_splits)
  with False show ?thesis using that(2) runeAt_width by blast
qed

lemma PeekRune_ge: "PeekRune r = (c, r1) \<Longrightarrow> -1 \<le> c"
  by (auto simp: PeekRune_def peek_def runeAt_def Let_def split: prod.splits if_splits)

text \<open>\<open>GetRune\<close> after \<open>peek\<close>: nothing at the end of the input, else the rune leaves the buffer.\<close>

lemma advance_sel [simp]:
  "rLastRuneLen (advance c sz r) = int sz" "rDone (advance c sz r) = rDone r @ take sz (rAvail r)"
  "rAvail (advance c sz r) = drop sz (rAvail r)" "rErr (advance c sz r) = rErr r"
  "rSrc (advance c sz r) = rSrc r" "rReplaceNULL (advance c sz r) = rReplaceNULL r"
  "rN (advance c sz r) = rN r + int sz"
  "rLine (advance c sz r) = (if c = 10 then rLine r + 1 else rLine r)"
  "rCol (advance c sz r) = (if c = 10 then 0 else rCol r + int sz)"
  "rLastCol (advance c sz r) = (if c = 10 then rCol r else rLastCol r)"
  by (simp_all add: advance_def Let_def)

lemma held_advance: "sz \<le> length (rAvail r) \<Longrightarrow> held (advance c sz r) = take sz (rAvail r)"
  by (simp add: held_def)

lemma left_advance: "sz \<le> length (rAvail r) \<Longrightarrow> left r = sz + left (advance c sz r)"
  by (simp add: left_def)

lemma GetRune_cases:
  assumes "GetRune r = (c, r1)"
  obtains (eof) "c = -1" "ext r r1" "rAvail r1 = []"
    | (get) sz rp where "c \<noteq> -1" "peek r = ((c, sz), rp)" "ext r rp" "0 < sz" "sz \<le> length (rAvail rp)"
        "runeAt (rReplaceNULL rp) (rAvail rp) = (c, sz)" "r1 = advance c sz rp"
proof -
  obtain c' sz rp where p: "peek r = ((c', sz), rp)" by (metis prod.collapse)
  note e = ext_peek [OF p]
  from p show ?thesis
  proof (cases rule: peek_cases)
    case 1
    then show ?thesis using assms e that(1) by (simp add: GetRune_def p)
  next
    case 2
    moreover from 2 have "c' = c" "r1 = advance c sz rp" using assms by (auto simp: GetRune_def p)
    ultimately show ?thesis using e p by (auto intro: that(2))
  qed
qed

lemma left_GetRune: "GetRune r = (c, r1) \<Longrightarrow> left r1 \<le> left r \<and> (c \<noteq> -1 \<longrightarrow> left r1 < left r)"
  by (cases rule: GetRune_cases [of r c r1])
    (auto simp: ext_def dest: left_advance [of _ _ c])

lemma GetRune_ge: "GetRune r = (c, r1) \<Longrightarrow> -1 \<le> c"
  by (cases rule: GetRune_cases [of r c r1]) (auto simp: runeAt_def split: prod.splits if_splits)

text \<open>\<open>UngetRune\<close> gives back the bytes of the last rune, whatever was peeked in between.\<close>

lemma Unget_ext:
  assumes "GetRune r = (c, r1)" "c \<noteq> -1" "ext r1 r2"
  obtains sz rp where "peek r = ((c, sz), rp)" "ext r rp" "0 < sz"
    "\<exists>more. rAvail (UngetRune r2) = rAvail rp @ more \<and> (rErr rp \<noteq> None \<longrightarrow> more = [])"
    "rErr rp \<noteq> None \<longrightarrow> rErr (UngetRune r2) = rErr rp"
    "rReplaceNULL (UngetRune r2) = rReplaceNULL rp" "left (UngetRune r2) = left r"
  using assms(1)
proof (cases rule: GetRune_cases)
  case eof
  with assms(2) show ?thesis by simp
next
  case (get sz rp)
  have h: "held r2 = take sz (rAvail rp)" "rLastRuneLen r2 = int sz" "left r2 = left r1"
      "rReplaceNULL r2 = rReplaceNULL rp"
    using assms(3) get(5) by (auto simp: ext_def get(7) held_advance)
  obtain more where more: "rAvail r2 = drop sz (rAvail rp) @ more"
      "rErr rp \<noteq> None \<longrightarrow> more = [] \<and> rErr r2 = rErr rp"
    using assms(3) by (auto simp: ext_def get(7))
  have av: "rAvail (UngetRune r2) = held r2 @ rAvail r2" and "rSrc (UngetRune r2) = rSrc r2"
    using h(2) by (simp_all add: UngetRune_def held_def Let_def)
  then have "left (UngetRune r2) = sz + left r2" using h(1) get(5) by (simp add: left_def)
  moreover have "left rp = sz + left r1" unfolding get(7) by (rule left_advance [OF get(5)])
  moreover have "left rp = left r" using get(3) by (simp add: ext_def)
  ultimately have l: "left (UngetRune r2) = left r" using h(3) by simp
  have "rAvail (UngetRune r2) = rAvail rp @ more" using av more(1) h(1) by simp
  moreover have "rErr (UngetRune r2) = rErr r2" "rReplaceNULL (UngetRune r2) = rReplaceNULL r2"
    using h(2) by (simp_all add: UngetRune_def Let_def)
  ultimately show ?thesis using that [OF get(2,3,4)] more(2) h(4) l by auto
qed

text \<open>Reading again gives the same rune.\<close>

lemma reget:
  assumes g: "GetRune r = (c, r1)" and "c \<noteq> -1" and "ext r1 r2"
  shows "fst (GetRune (UngetRune r2)) = c"
proof -
  from assms obtain sz rp where u: "peek r = ((c, sz), rp)" "0 < sz"
      "\<exists>more. rAvail (UngetRune r2) = rAvail rp @ more \<and> (rErr rp \<noteq> None \<longrightarrow> more = [])"
      "rErr rp \<noteq> None \<longrightarrow> rErr (UngetRune r2) = rErr rp"
      "rReplaceNULL (UngetRune r2) = rReplaceNULL rp"
    by (rule Unget_ext) blast
  obtain c' sz' r3 where p: "peek (UngetRune r2) = ((c', sz'), r3)" by (metis prod.collapse)
  have e: "ext (UngetRune r2) r3" by (rule ext_peek [OF p])
  have "rAvail rp \<noteq> []" using u(1,2) by (auto elim: peek_cases)
  then have ne: "rAvail r3 \<noteq> []" using e u(3) by (auto simp: ext_def)
  obtain more where m: "rAvail r3 = rAvail rp @ more" "rErr rp \<noteq> None \<longrightarrow> more = []"
    using e u(3,4) by (auto simp: ext_def)
  have rp: "rp = fillTo 0 r" "runeAt (rReplaceNULL rp) (rAvail rp) = (c, sz)"
    using u(1) \<open>rAvail rp \<noteq> []\<close> by (auto simp: peek_def Let_def split: if_splits)
  have "decodeRune (rAvail r3) = decodeRune (rAvail rp)"
    using fillTo_post [of 0 r] m fullRune_four decode_full unfolding rp(1) [symmetric]
    by (cases "rErr rp") auto
  moreover have "rReplaceNULL r3 = rReplaceNULL rp" using e u(5) by (simp add: ext_def)
  ultimately have "runeAt (rReplaceNULL r3) (rAvail r3) = (c, sz)" using rp(2) by (simp add: runeAt_def)
  then have "c' = c" using p ne by (auto elim: peek_cases)
  with p assms(2) show ?thesis by (simp add: GetRune_def)
qed

subsection \<open>The input still to be read\<close>

text \<open>\<open>pending\<close> is what the \<open>io.Reader\<close> delivers before its first error, \<open>finalErr\<close> that error.\<close>

fun pending :: "chunks \<Rightarrow> bytes" where
  "pending [] = []"
| "pending ((b, e) # src) = b @ (if b = [] \<or> e \<noteq> None then [] else pending src)"

fun finalErr :: "chunks \<Rightarrow> rdErr" where
  "finalErr [] = RdEOF"
| "finalErr ((b, e) # src) =
     (case e of Some x \<Rightarrow> x | None \<Rightarrow> if b = [] then ErrNoProgress else finalErr src)"

definition rest :: "sourceReader \<Rightarrow> bytes" where
  "rest r = rAvail r @ (if rErr r = None then pending (rSrc r) else [])"

definition lastErr :: "sourceReader \<Rightarrow> rdErr" where
  "lastErr r = (case rErr r of Some e \<Rightarrow> e | None \<Rightarrow> finalErr (rSrc r))"

text \<open>\<open>lines\<close> and \<open>column\<close> of a position: the newlines before it, and the bytes since the last one.\<close>

definition lines :: "bytes \<Rightarrow> nat" where
  "lines p = count_list p LF"

definition column :: "bytes \<Rightarrow> nat" where
  "column p = length (takeWhile (\<lambda>b. b \<noteq> LF) (rev p))"

text \<open>The reader has consumed \<open>p\<close>; its last rune, if it can be unread, is the end of \<open>p\<close>.\<close>

definition consumed :: "bytes \<Rightarrow> sourceReader \<Rightarrow> bool" where
  "consumed p r \<longleftrightarrow> rN r = int (length p) \<and> rLine r = int (lines p) \<and> rCol r = int (column p) \<and>
     suffix (rDone r) p \<and> rLastRuneLen r \<le> 4 \<and>
     (0 < rLastRuneLen r \<longrightarrow>
        int (length (held r)) = rLastRuneLen r \<and>
        (held r = [LF] \<and> rLastCol r = int (column (butlast p)) \<or> LF \<notin> set (held r)))"

definition tracks :: "bytes \<Rightarrow> sourceReader \<Rightarrow> bool" where
  "tracks S r \<longleftrightarrow> (\<exists>p. S = p @ rest r \<and> consumed p r)"

lemma readSrc_pending:
  "0 < room \<Longrightarrow> readSrc room src = (b, e, src') \<Longrightarrow>
   pending src = b @ (if b = [] \<or> e \<noteq> None then [] else pending src') \<and>
   finalErr src = (case e of Some x \<Rightarrow> x | None \<Rightarrow> if b = [] then ErrNoProgress else finalErr src')"
  by (auto simp: readSrc_def split: list.splits prod.splits if_splits option.splits)

text \<open>There is always room: \<open>fill\<close> is called only when less than a look ahead is in the buffer.\<close>

lemma length_slide:
  "rLastRuneLen r \<le> 4 \<Longrightarrow> length (rDone (slide r)) \<le> 4"
  by (auto simp: slide_def Let_def)

lemma rest_fill:
  assumes "rErr r = None" "rLastRuneLen r \<le> 4" "length (rAvail r) < 100"
  shows "rest (fill r) = rest r \<and> lastErr (fill r) = lastErr r"
proof -
  have d: "length (rDone (slide r)) \<le> 4" by (rule length_slide [OF assms(2)])
  obtain b e src' where b: "readSrc (bufCap - length (rDone (slide r) @ rAvail r)) (rSrc r) = (b, e, src')"
    by (metis prod_cases3)
  have "0 < bufCap - length (rDone (slide r) @ rAvail r)" using d assms(3) by (simp add: bufCap_def)
  from readSrc_pending [OF this b] show ?thesis
    using assms(1) d b by (auto simp: fill_def rest_def lastErr_def Let_def bufCap_def split: option.splits)
qed

lemma rest_fillTo:
  "rLastRuneLen r \<le> 4 \<Longrightarrow> k < 90 \<Longrightarrow> rest (fillTo k r) = rest r \<and> lastErr (fillTo k r) = lastErr r"
proof (induction k r rule: fillTo.induct)
  case (1 k r)
  show ?case
  proof (cases "rErr r \<noteq> None \<or> k + 4 \<le> length (rAvail r)
      \<or> k < length (rAvail r) \<and> fullRune (drop k (rAvail r))")
    case True
    then have "fillTo k r = r" by (subst fillTo.simps) auto
    then show ?thesis by simp
  next
    case False
    then have "fillTo k r = fillTo k (fill r)" by (subst fillTo.simps) auto
    with False 1 rest_fill [of r] show ?thesis by auto
  qed
qed

text \<open>After \<open>fillTo\<close> the buffer decides the rune: at the end of the buffer is the end of the input.\<close>

lemma fillTo_rune:
  assumes "rLastRuneLen r \<le> 4" "k < 90"
  defines "r1 \<equiv> fillTo k r"
  shows "length (rAvail r1) \<le> k \<longleftrightarrow> length (rest r) \<le> k"
    and "k < length (rAvail r1) \<Longrightarrow> decodeRune (drop k (rAvail r1)) = decodeRune (drop k (rest r))"
proof -
  have rs: "rest r1 = rest r" using rest_fillTo [OF assms(1,2)] by (simp add: r1_def)
  note post = fillTo_post [of k r, folded r1_def]
  show "length (rAvail r1) \<le> k \<longleftrightarrow> length (rest r) \<le> k"
    using post unfolding rs [symmetric] unfolding rest_def by auto
  assume k: "k < length (rAvail r1)"
  show "decodeRune (drop k (rAvail r1)) = decodeRune (drop k (rest r))"
  proof (cases "rErr r1")
    case None
    then have "fullRune (drop k (rAvail r1))"
      using post by (auto intro: fullRune_four)
    then show ?thesis using k decode_full unfolding rs [symmetric] by (simp add: rest_def None)
  next
    case (Some e)
    then show ?thesis unfolding rs [symmetric] by (simp add: rest_def)
  qed
qed

text \<open>What the next rune of the input is, -1 at its end.\<close>

definition runeOf :: "bool \<Rightarrow> bytes \<Rightarrow> int \<times> nat" where
  "runeOf b p = (if p = [] then (-1, 0) else runeAt b p)"

lemma peek_spec:
  assumes "rLastRuneLen r \<le> 4"
  shows "peek r = (runeOf (rReplaceNULL r) (rest r), fillTo 0 r)"
proof -
  have "rReplaceNULL (fillTo 0 r) = rReplaceNULL r" using ext_fillTo [of r 0] by (simp add: ext_def)
  then show ?thesis
    using fillTo_rune [OF assms, of 0] by (auto simp: peek_def Let_def runeOf_def runeAt_def)
qed

lemma rest_peek:
  assumes "rLastRuneLen r \<le> 4" "peek r = (x, r1)"
  shows "rest r1 = rest r" "lastErr r1 = lastErr r"
  using assms rest_fillTo [of r 0] by (auto simp: peek_spec)

lemma PeekRune_spec:
  assumes "rLastRuneLen r \<le> 4" "PeekRune r = (c, r1)"
  shows "c = fst (runeOf (rReplaceNULL r) (rest r))" "rest r1 = rest r" "lastErr r1 = lastErr r" "ext r r1"
proof -
  obtain sz where p: "peek r = ((c, sz), r1)"
    using assms(2) by (auto simp: PeekRune_def split: prod.splits)
  then show "c = fst (runeOf (rReplaceNULL r) (rest r))" using peek_spec [OF assms(1)] by (metis fst_conv)
  show "rest r1 = rest r" "lastErr r1 = lastErr r" "ext r r1"
    by (rule rest_peek [OF assms(1) p] ext_peek [OF p])+
qed

fun runesOf :: "nat \<Rightarrow> bool \<Rightarrow> bytes \<Rightarrow> int list" where
  "runesOf 0 b p = []"
| "runesOf (Suc k) b p = fst (runeOf b p) # runesOf k b (drop (snd (runeOf b p)) p)"

lemma runesOf_Nil [simp]: "runesOf k b [] = replicate k (-1)"
  by (induction k) (simp_all add: runeOf_def)

lemma decodeRune_le4: "snd (decodeRune p) \<le> 4"
  by (auto simp: decodeRune_def Let_def split: list.splits)

lemma runeAt_le4: "runeAt b p = (c, sz) \<Longrightarrow> sz \<le> 4"
  using decodeRune_le4 [of p] by (auto simp: runeAt_def split: prod.splits)

lemma peekLoop_spec:
  "rLastRuneLen r \<le> 4 \<Longrightarrow> off + 4 * k < 90 \<Longrightarrow> peekLoop k off r = (cs, r1) \<Longrightarrow>
   cs = runesOf k (rReplaceNULL r) (drop off (rest r)) \<and> rest r1 = rest r \<and> lastErr r1 = lastErr r"
proof (induction k arbitrary: off r cs r1)
  case 0
  then show ?case by simp
next
  case (Suc k)
  let ?r = "fillTo off r"
  have off: "off < 90" using Suc.prems(2) by simp
  have e: "rLastRuneLen ?r \<le> 4" "rReplaceNULL ?r = rReplaceNULL r"
    using ext_fillTo [of r off] Suc.prems(1) by (simp_all add: ext_def)
  note f = fillTo_rune [OF Suc.prems(1) off] and rs = rest_fillTo [OF Suc.prems(1) off]
  show ?case
  proof (cases "length (rest r) \<le> off")
    case True
    then show ?thesis using Suc.prems(3) f(1) rs by (auto simp: Let_def runeOf_def)
  next
    case False
    obtain c sz where c: "runeAt (rReplaceNULL r) (drop off (rest r)) = (c, sz)" by fastforce
    moreover have "runeAt (rReplaceNULL r) (drop off (rAvail ?r)) = runeAt (rReplaceNULL r) (drop off (rest r))"
      using f False by (simp add: runeAt_def)
    ultimately obtain ds where "cs = c # ds" "peekLoop k (off + sz) ?r = (ds, r1)"
      using Suc.prems(3) False f(1) e by (auto simp: Let_def split: prod.splits)
    moreover have "off + sz + 4 * k < 90" using Suc.prems(2) runeAt_le4 [OF c] by simp
    ultimately show ?thesis
      using Suc.IH [OF e(1)] rs c False e by (auto simp: runeOf_def add.commute)
  qed
qed

lemma PeekRunes_spec:
  assumes "rLastRuneLen r \<le> 4" "k < 20" "PeekRunes k r = (cs, r1)"
  shows "cs = runesOf k (rReplaceNULL r) (rest r)" "rest r1 = rest r" "lastErr r1 = lastErr r" "ext r r1"
  using peekLoop_spec [OF assms(1), of 0 k cs r1] assms(2,3) ext_PeekRunes [OF assms(3)]
  by (simp_all add: PeekRunes_def)

lemma rest_advance: "sz \<le> length (rAvail r) \<Longrightarrow> rest (advance c sz r) = drop sz (rest r)"
  by (simp add: rest_def)

lemma lastErr_advance: "lastErr (advance c sz r) = lastErr r"
  by (simp add: lastErr_def split: option.split)

lemma GetRune_spec:
  assumes "rLastRuneLen r \<le> 4" "GetRune r = (c, r1)"
  shows "c = fst (runeOf (rReplaceNULL r) (rest r))"
    and "rest r1 = drop (snd (runeOf (rReplaceNULL r) (rest r))) (rest r)"
    and "lastErr r1 = lastErr r" and "rReplaceNULL r1 = rReplaceNULL r" and "rLastRuneLen r1 \<le> 4"
proof -
  note g = assms(2) [unfolded GetRune_def peek_spec [OF assms(1)]]
  let ?r = "fillTo 0 r"
  have e: "rReplaceNULL ?r = rReplaceNULL r" "rLastRuneLen ?r \<le> 4"
    using ext_fillTo [of r 0] assms(1) by (simp_all add: ext_def)
  have rs: "rest ?r = rest r" "lastErr ?r = lastErr r" using rest_fillTo [OF assms(1), of 0] by auto
  obtain c' sz where c: "runeOf (rReplaceNULL r) (rest r) = (c', sz)" by fastforce
  have "c = c' \<and> rest r1 = drop sz (rest r) \<and> lastErr r1 = lastErr r \<and> rReplaceNULL r1 = rReplaceNULL r
      \<and> rLastRuneLen r1 \<le> 4"
  proof (cases "c' = -1")
    case True
    then have "rest r = []" "sz = 0" using c runeAt_width by (auto simp: runeOf_def split: if_splits)
    with True show ?thesis using g c e rs by auto
  next
    case False
    then have ne: "rest r \<noteq> []" and ra: "runeAt (rReplaceNULL r) (rest r) = (c', sz)"
      using c by (auto simp: runeOf_def split: if_splits)
    then have av: "rAvail ?r \<noteq> []" using fillTo_rune(1) [OF assms(1), of 0] by simp
    have "sz \<le> length (rAvail ?r)" using runeAt_width [OF av, of _ c' sz] fillTo_rune(2) [OF assms(1), of 0] av ra
      by (auto simp: runeAt_def)
    then show ?thesis
      using g c e rs False runeAt_le4 [OF ra] rest_advance lastErr_advance by auto
  qed
  then show "c = fst (runeOf (rReplaceNULL r) (rest r))"
    "rest r1 = drop (snd (runeOf (rReplaceNULL r) (rest r))) (rest r)"
    "lastErr r1 = lastErr r" "rReplaceNULL r1 = rReplaceNULL r" "rLastRuneLen r1 \<le> 4"
    by (simp_all add: c)
qed

subsection \<open>Positions\<close>

lemma lines_append: "lines (p @ q) = lines p + lines q"
  by (simp add: lines_def count_list_append)

lemma column_clean: "LF \<notin> set q \<Longrightarrow> column (p @ q) = column p + length q"
proof -
  assume "LF \<notin> set q"
  then have "takeWhile (\<lambda>b. b \<noteq> LF) (rev q @ rev p) = rev q @ takeWhile (\<lambda>b. b \<noteq> LF) (rev p)"
    by (intro takeWhile_append2) auto
  then show ?thesis by (simp add: column_def)
qed

lemma lines_clean: "LF \<notin> set q \<Longrightarrow> lines q = 0"
  by (simp add: lines_def count_list_0_iff)

lemma column_newline [simp]: "column (p @ [LF]) = 0"
  by (simp add: column_def)

text \<open>Only the rune U+000A has the byte LF in its encoding.\<close>

lemma decodeRune_LF:
  assumes "p \<noteq> []" "decodeRune p = (c, sz)"
  shows "c = 10 \<Longrightarrow> take sz p = [LF]" and "c \<noteq> 10 \<Longrightarrow> LF \<notin> set (take sz p)"
proof -
  obtain a p1 where p: "p = a # p1" using assms(1) by (cases p) auto
  have lf: "a = LF \<longleftrightarrow> bval a = 10" using bval_eq_iff [of a LF] by simp
  have cont: "cont b \<Longrightarrow> b \<noteq> LF" for b by (auto simp: cont_def)
  have two: "bval a mod 32 * 64 + bval b mod 64 \<noteq> 10" if "194 \<le> bval a" "bval a \<le> 223" for b
    using add_mod_small [of "bval a - 192" 32 6] that by simp
  have three: "bval a mod 16 * 4096 + bval b mod 64 * 64 + bval c mod 64 \<noteq> 10"
    if "224 \<le> bval a" "bval a \<le> 239" "cont b" "bval a = 224 \<longrightarrow> 160 \<le> bval b" for b c
  proof (cases "bval a = 224")
    case True
    then show ?thesis using that add_mod_small [of "bval b - 128" 64 2] by (simp add: cont_def)
  next
    case False
    then show ?thesis using add_mod_small [of "bval a - 224" 16 14] that by simp
  qed
  have four: "bval a mod 8 * 262144 + bval b mod 64 * 4096 + bval c mod 64 * 64 + bval d mod 64 \<noteq> 10"
    if "240 \<le> bval a" "bval a \<le> 244" "cont b" "bval a = 240 \<longrightarrow> 144 \<le> bval b" for b c d
  proof (cases "bval a = 240")
    case True
    then show ?thesis using that add_mod_small [of "bval b - 128" 64 2] by (simp add: cont_def)
  next
    case False
    then show ?thesis using add_mod_small [of "bval a - 240" 8 30] that by simp
  qed
  have big: "c \<noteq> 10 \<and> LF \<notin> set (take sz p)" if a: "0x80 \<le> bval a"
  proof -
    have "a \<noteq> LF" using lf a by auto
    moreover have "c \<noteq> 10 \<and> (\<forall>b \<in> set (take (sz - 1) p1). cont b)"
      using assms(2) a two three four unfolding p
      by (cases rule: list_upto3 [of p1])
        (auto simp: decodeRune_def RuneError_def Let_def split: if_splits)
    ultimately show ?thesis using cont unfolding p by (cases sz) auto
  qed
  show "c = 10 \<Longrightarrow> take sz p = [LF]" "c \<noteq> 10 \<Longrightarrow> LF \<notin> set (take sz p)"
    using assms(2) big lf by (cases "bval a < 0x80"; auto simp: p decodeRune_def)+
qed

lemma runeAt_LF:
  assumes "p \<noteq> []" "runeAt b p = (c, sz)"
  shows "c = 10 \<Longrightarrow> take sz p = [LF]" and "c \<noteq> 10 \<Longrightarrow> LF \<notin> set (take sz p)"
  using assms decodeRune_LF [OF assms(1)]
  by (auto simp: runeAt_def RuneError_def split: prod.splits if_splits)

lemma consumed_ext: "ext r r1 \<Longrightarrow> consumed p r \<Longrightarrow> consumed p r1"
  unfolding ext_def consumed_def by (auto intro: suffix_order.trans)

lemma tracks_ext: "ext r r1 \<Longrightarrow> rest r1 = rest r \<Longrightarrow> tracks S r \<Longrightarrow> tracks S r1"
  unfolding tracks_def by (auto intro: consumed_ext)

lemma tracks_le4: "tracks S r \<Longrightarrow> rLastRuneLen r \<le> 4"
  by (auto simp: tracks_def consumed_def)

lemma consumed_advance:
  assumes "consumed p r" "rAvail r \<noteq> []" "runeAt b (rAvail r) = (c, sz)"
  shows "consumed (p @ take sz (rAvail r)) (advance c sz r)"
proof -
  note w = runeAt_width [OF assms(2,3)] and lf = runeAt_LF [OF assms(2,3)]
  have h: "held (advance c sz r) = take sz (rAvail r)" using w by (simp add: held_advance)
  have "lines (p @ take sz (rAvail r)) = lines p + (if c = 10 then 1 else 0)"
    "column (p @ take sz (rAvail r)) = (if c = 10 then 0 else column p + sz)"
    using lf w by (auto simp: lines_append column_clean lines_clean lines_def)
  then show ?thesis
    using assms(1) w lf h runeAt_le4 [OF assms(3)] unfolding consumed_def
    by (auto simp: suffix_def)
qed

lemma tracks_GetRune:
  assumes "tracks S r" "GetRune r = (c, r1)"
  shows "tracks S r1 \<and> (c \<noteq> -1 \<longrightarrow> 0 < rLastRuneLen r1)"
  using assms(2)
proof (cases rule: GetRune_cases)
  case eof
  moreover have "r1 = fillTo 0 r"
    using assms peek_spec [OF tracks_le4] eof(1) by (auto simp: GetRune_def split: if_splits prod.splits)
  ultimately show ?thesis using assms(1) rest_fillTo [of r 0] tracks_le4 tracks_ext by auto
next
  case (get sz rp)
  have rp: "tracks S rp" using tracks_ext [OF get(3) _ assms(1)] rest_peek(1) [OF tracks_le4 [OF assms(1)] get(2)] by simp
  then obtain p where p: "S = p @ rest rp" "consumed p rp" by (auto simp: tracks_def)
  have ne: "rAvail rp \<noteq> []" using get(4,5) by auto
  have "rest rp = take sz (rAvail rp) @ rest r1"
    using get(5) by (simp add: get(7) rest_def)
  with p consumed_advance [OF p(2) ne get(6)] get(4) show ?thesis
    unfolding tracks_def get(7) by auto
qed

lemma tracks_Unget:
  assumes "tracks S r" "0 < rLastRuneLen r"
  shows "tracks S (UngetRune r)"
proof -
  obtain q where q: "S = q @ rest r" "consumed q r" using assms(1) by (auto simp: tracks_def)
  let ?d = "held r"
  have len: "int (length ?d) = rLastRuneLen r" and suf: "suffix (rDone r) q"
    and lf: "?d = [LF] \<and> rLastCol r = int (column (butlast q)) \<or> LF \<notin> set ?d"
    using q(2) assms(2) by (auto simp: consumed_def)
  have dn: "rDone r = take (length (rDone r) - length ?d) (rDone r) @ ?d"
    by (metis append_take_drop_id held_def len nat_int)
  then obtain p where p: "q = p @ ?d" "suffix (take (length (rDone r) - length ?d) (rDone r)) p"
    using suf by (metis append.assoc same_suffix_suffix suffix_def)
  have r: "rDone (UngetRune r) = take (length (rDone r) - length ?d) (rDone r)"
    "rest (UngetRune r) = ?d @ rest r" "rLastRuneLen (UngetRune r) = -1" "rN (UngetRune r) = rN r - int (length ?d)"
    "rCol (UngetRune r) = (if rCol r = 0 then rLastCol r else rCol r - int (length ?d))"
    "rLine (UngetRune r) = (if rCol r = 0 then rLine r - 1 else rLine r)"
    using assms(2) len by (auto simp: UngetRune_def Let_def rest_def held_def)
  have "?d \<noteq> []" using len assms(2) by auto
  then have "int (lines p) = rLine (UngetRune r)" "int (column p) = rCol (UngetRune r)"
    using lf q(2) unfolding r(5,6) consumed_def
    by (auto simp: p(1) lines_append column_clean lines_clean lines_def)
  then have "consumed p (UngetRune r)"
    using q(2) p r(1,3,4) unfolding consumed_def by (auto simp: p(1) lines_append)
  then show ?thesis using q(1) p(1) r(2) unfolding tracks_def by auto
qed

lemma tracks_New: "tracks (pending src) (SetReplaceNULL b (NewSourceReader src))"
  by (simp add: tracks_def NewSourceReader_def SetReplaceNULL_def consumed_def rest_def lines_def column_def)

lemma tracks_PeekRune: "tracks S r \<Longrightarrow> PeekRune r = (c, r1) \<Longrightarrow> tracks S r1"
  by (metis PeekRune_spec(2,4) tracks_ext tracks_le4)

lemma tracks_PeekRunes: "tracks S r \<Longrightarrow> k < 20 \<Longrightarrow> PeekRunes k r = (cs, r1) \<Longrightarrow> tracks S r1"
  by (metis PeekRunes_spec(2,4) tracks_ext tracks_le4)

subsection \<open>Refinement\<close>

text \<open>The reader over a plain byte string: what is held of the last rune, and what is still to be read.
  A client's calls are a list of operations; both runs end at an unread that has nothing to unread.\<close>

datatype readerOp = DoGet | DoPeek | DoPeeks nat | DoUnget

fun runReader :: "readerOp list \<Rightarrow> sourceReader \<Rightarrow> int list list" where
  "runReader [] r = []"
| "runReader (DoGet # ops) r = (let (c, r1) = GetRune r in [c] # runReader ops r1)"
| "runReader (DoPeek # ops) r = (let (c, r1) = PeekRune r in [c] # runReader ops r1)"
| "runReader (DoPeeks k # ops) r = (let (cs, r1) = PeekRunes (k mod 4) r in cs # runReader ops r1)"
| "runReader (DoUnget # ops) r = (if 0 < rLastRuneLen r then runReader ops (UngetRune r) else [])"

fun runString :: "readerOp list \<Rightarrow> bytes \<Rightarrow> bytes \<Rightarrow> int list list" where
  "runString [] h w = []"
| "runString (DoGet # ops) h w =
     (let (c, sz) = runeOf True w in
      [c] # (if c = -1 then runString ops h w else runString ops (take sz w) (drop sz w)))"
| "runString (DoPeek # ops) h w = [fst (runeOf True w)] # runString ops h w"
| "runString (DoPeeks k # ops) h w = runesOf (k mod 4) True w # runString ops h w"
| "runString (DoUnget # ops) h w = (if h \<noteq> [] then runString ops [] (h @ w) else [])"

definition heldRune :: "sourceReader \<Rightarrow> bytes" where
  "heldRune r = (if 0 < rLastRuneLen r then held r else [])"

lemma heldRune_iff: "tracks S r \<Longrightarrow> heldRune r \<noteq> [] \<longleftrightarrow> 0 < rLastRuneLen r"
  by (auto simp: heldRune_def tracks_def consumed_def)

lemma heldRune_ext: "ext r r1 \<Longrightarrow> heldRune r1 = heldRune r"
  by (simp add: heldRune_def ext_def)

lemma heldRune_GetRune:
  assumes "tracks S r" "GetRune r = (c, r1)"
  shows "heldRune r1 = (if c = -1 then heldRune r else take (snd (runeOf (rReplaceNULL r) (rest r))) (rest r))"
  using assms(2)
proof (cases rule: GetRune_cases)
  case eof
  then show ?thesis by (simp add: heldRune_ext)
next
  case (get sz rp)
  note le4 = tracks_le4 [OF assms(1)]
  have "snd (runeOf (rReplaceNULL r) (rest r)) = sz" "rest r = rest rp"
    using get(2) peek_spec [OF le4] rest_peek(1) [OF le4 get(2)] by auto
  moreover have "take sz (rest rp) = take sz (rAvail rp)" using get(5) by (simp add: rest_def)
  ultimately show ?thesis using get(1,4,5) by (simp add: get(7) heldRune_def held_advance)
qed

lemma runReader_spec:
  "tracks S r \<Longrightarrow> rReplaceNULL r \<Longrightarrow> runReader ops r = runString ops (heldRune r) (rest r)"
proof (induction ops arbitrary: r)
  case Nil
  then show ?case by simp
next
  case (Cons x ops)
  note le4 = tracks_le4 [OF Cons.prems(1)]
  show ?case
  proof (cases x)
    case DoGet
    obtain c r1 where g: "GetRune r = (c, r1)" by fastforce
    note sp = GetRune_spec [OF le4 g]
    have "c = -1 \<Longrightarrow> rest r1 = rest r"
      using sp(1,2) runeAt_width [of "rest r"] by (auto simp: runeOf_def split: if_splits) (metis prod.collapse)
    then show ?thesis
      using Cons.IH [of r1] Cons.prems tracks_GetRune [OF Cons.prems(1) g] sp heldRune_GetRune [OF Cons.prems(1) g]
      by (auto simp: DoGet g split: prod.split)
  next
    case DoPeek
    obtain c r1 where g: "PeekRune r = (c, r1)" by fastforce
    note sp = PeekRune_spec [OF le4 g]
    show ?thesis
      using Cons.IH [of r1] Cons.prems tracks_PeekRune [OF Cons.prems(1) g] sp heldRune_ext [OF sp(4)]
      by (simp add: DoPeek g ext_def)
  next
    case (DoPeeks k)
    obtain cs r1 where g: "PeekRunes (k mod 4) r = (cs, r1)" by fastforce
    have k: "k mod 4 < 20" by (rule less_trans [of _ 4]) simp_all
    note sp = PeekRunes_spec [OF le4 k g]
    show ?thesis
      using Cons.IH [of r1] Cons.prems tracks_PeekRunes [OF Cons.prems(1) k g] sp heldRune_ext [OF sp(4)]
      by (simp add: DoPeeks g ext_def)
  next
    case DoUnget
    have "rest (UngetRune r) = held r @ rest r" "heldRune (UngetRune r) = []" "rReplaceNULL (UngetRune r) = rReplaceNULL r"
      if "0 < rLastRuneLen r"
      using that by (auto simp: UngetRune_def Let_def rest_def held_def heldRune_def)
    then show ?thesis
      using Cons.IH [of "UngetRune r"] Cons.prems tracks_Unget [OF Cons.prems(1)] heldRune_iff [OF Cons.prems(1)]
      by (auto simp: DoUnget heldRune_def)
  qed
qed

text \<open>C26: The buffered reader is a plain string to its clients: whatever sequence of reads, peeks (of up
  to three runes) and unreads they make, they get the runes of the bytes that the \<open>io.Reader\<close> delivers
  before its first error, however it cuts them into chunks, across every refill and slide of the buffer.\<close>

theorem reader_refines:
  "runReader ops (SetReplaceNULL True (NewSourceReader src)) = runString ops [] (pending src)"
proof -
  let ?r = "SetReplaceNULL True (NewSourceReader src)"
  have "heldRune ?r = []" "rest ?r = pending src" "rReplaceNULL ?r"
    by (simp_all add: heldRune_def rest_def SetReplaceNULL_def NewSourceReader_def)
  then show ?thesis using runReader_spec [OF tracks_New, of True src ops] by simp
qed

end
