(* ===== verification/CssScanner.thy ===== *)
theory CssScanner
  imports CssReader
begin

text \<open>
  The CSS tokenizer (\<open>html/css/scanner.go\<close>): \<open>Next\<close> and every reader it calls, over the rune reader of
  \<open>CssReader\<close>. A call of the error handler is an entry of \<open>scErrs\<close>. The loops end because each
  turn takes a rune (\<open>forward\<close> lemmas, on the bytes \<open>left\<close>); after an \<open>UngetRune\<close> the rune
  that was given back is read again (\<open>reget\<close>).
\<close>

subsection \<open>Data\<close>

datatype cssToken =
    Unknown | EOF | Ident | Function | AtKeyword | Hash | String | BadString | URL | BadURL | Delim
  | Number | Percentage | Dimension | UnicodeRange | IncludeMatch | DashMatch | PrefixMatch
  | SuffixMatch | SubstringMatch | Column | CDO | CDC | Colon | Semicolon | Comma | LeftBrack
  | RightBrack | LeftParen | RightParen | LeftBrace | RightBrace

datatype typeFlag = TypeFlagNone | TypeFlagID | TypeFlagNumber | TypeFlagInteger

type_synonym cssError = "int \<times> int \<times> int \<times> string"

record cssScanner =
  scErrs :: "cssError list"
  scToken :: cssToken
  scTypeFlag :: typeFlag
  scLiteral :: bytes
  scValue :: bytes
  scUnit :: bytes
  scRangeStart :: u32
  scRangeEnd :: u32
  scLine :: int
  scCol :: int
  scN :: int
  scSource :: sourceReader

definition NewScanner :: "chunks \<Rightarrow> cssScanner" where
  "NewScanner src =
     \<lparr>scErrs = [], scToken = Unknown, scTypeFlag = TypeFlagNone, scLiteral = [], scValue = [], scUnit = [],
      scRangeStart = 0, scRangeEnd = 0, scLine = 0, scCol = 0, scN = 0,
      scSource = SetReplaceNULL True (NewSourceReader src)\<rparr>"

text \<open>The calls of \<open>s.source\<close>.\<close>

definition getc :: "cssScanner \<Rightarrow> int \<times> cssScanner" where
  "getc s = (let (c, r) = GetRune (scSource s) in (c, s\<lparr>scSource := r\<rparr>))"

definition peekc :: "cssScanner \<Rightarrow> int \<times> cssScanner" where
  "peekc s = (let (c, r) = PeekRune (scSource s) in (c, s\<lparr>scSource := r\<rparr>))"

definition peeks :: "nat \<Rightarrow> cssScanner \<Rightarrow> int list \<times> cssScanner" where
  "peeks k s = (let (cs, r) = PeekRunes k (scSource s) in (cs, s\<lparr>scSource := r\<rparr>))"

definition ungetc :: "cssScanner \<Rightarrow> cssScanner" where
  "ungetc s = s\<lparr>scSource := UngetRune (scSource s)\<rparr>"

text \<open>\<open>utf8.EncodeRune\<close> on a rune that may be -1.\<close>

definition runeBytes :: "int \<Rightarrow> bytes" where
  "runeBytes c = (if c < 0 then encodeRune RuneError else encodeRune (nat c))"

definition cssAppendRune :: "bytes \<Rightarrow> int \<Rightarrow> bytes" where
  "cssAppendRune dst c = dst @ runeBytes c"

definition addLit :: "int \<Rightarrow> cssScanner \<Rightarrow> cssScanner" where
  "addLit c s = s\<lparr>scLiteral := cssAppendRune (scLiteral s) c\<rparr>"

definition addVal :: "int \<Rightarrow> cssScanner \<Rightarrow> cssScanner" where
  "addVal c s = s\<lparr>scValue := cssAppendRune (scValue s) c\<rparr>"

text \<open>\<open>s.Token = Delim\<close> with one byte appended to the literal.\<close>

definition delim :: "int \<Rightarrow> cssScanner \<Rightarrow> cssScanner" where
  "delim c s = (addLit c s)\<lparr>scToken := Delim\<rparr>"

definition scError :: "string \<Rightarrow> cssScanner \<Rightarrow> cssScanner" where
  "scError msg s = s\<lparr>scErrs := scErrs s @ [(scLine s, scCol s, scN s, msg)]\<rparr>"

definition updatePos :: "cssScanner \<Rightarrow> cssScanner" where
  "updatePos s = (let (l, c, n) = Pos (scSource s) in s\<lparr>scLine := l, scCol := c, scN := n\<rparr>)"

subsection \<open>Code points\<close>

abbreviation (input) rLF :: int where "rLF \<equiv> 10"
abbreviation (input) rDQ :: int where "rDQ \<equiv> 34"
abbreviation (input) rHash :: int where "rHash \<equiv> 35"
abbreviation (input) rDollar :: int where "rDollar \<equiv> 36"
abbreviation (input) rPercent :: int where "rPercent \<equiv> 37"
abbreviation (input) rSQ :: int where "rSQ \<equiv> 39"
abbreviation (input) rLParen :: int where "rLParen \<equiv> 40"
abbreviation (input) rRParen :: int where "rRParen \<equiv> 41"
abbreviation (input) rStar :: int where "rStar \<equiv> 42"
abbreviation (input) rPlus :: int where "rPlus \<equiv> 43"
abbreviation (input) rComma :: int where "rComma \<equiv> 44"
abbreviation (input) rMinus :: int where "rMinus \<equiv> 45"
abbreviation (input) rDot :: int where "rDot \<equiv> 46"
abbreviation (input) rSlash :: int where "rSlash \<equiv> 47"
abbreviation (input) rColon :: int where "rColon \<equiv> 58"
abbreviation (input) rSemi :: int where "rSemi \<equiv> 59"
abbreviation (input) rLess :: int where "rLess \<equiv> 60"
abbreviation (input) rEq :: int where "rEq \<equiv> 61"
abbreviation (input) rGreater :: int where "rGreater \<equiv> 62"
abbreviation (input) rQuestion :: int where "rQuestion \<equiv> 63"
abbreviation (input) rAt :: int where "rAt \<equiv> 64"
abbreviation (input) rLBrack :: int where "rLBrack \<equiv> 91"
abbreviation (input) rBSL :: int where "rBSL \<equiv> 92"
abbreviation (input) rRBrack :: int where "rRBrack \<equiv> 93"
abbreviation (input) rHat :: int where "rHat \<equiv> 94"
abbreviation (input) rLBrace :: int where "rLBrace \<equiv> 123"
abbreviation (input) rBar :: int where "rBar \<equiv> 124"
abbreviation (input) rRBrace :: int where "rRBrace \<equiv> 125"
abbreviation (input) rTilde :: int where "rTilde \<equiv> 126"

definition isDigitR :: "int \<Rightarrow> bool" where
  "isDigitR c \<longleftrightarrow> 48 \<le> c \<and> c \<le> 57"

definition isLetter :: "int \<Rightarrow> bool" where
  "isLetter c \<longleftrightarrow> 97 \<le> c \<and> c \<le> 122 \<or> 65 \<le> c \<and> c \<le> 90"

definition isHex :: "int \<Rightarrow> bool" where
  "isHex c \<longleftrightarrow> isDigitR c \<or> 97 \<le> c \<and> c \<le> 102 \<or> 65 \<le> c \<and> c \<le> 70"

definition isNameStartCodePoint :: "int \<Rightarrow> bool" where
  "isNameStartCodePoint c \<longleftrightarrow> isLetter c \<or> 0x80 \<le> c \<or> c = 95"

definition isNameCodePoint :: "int \<Rightarrow> bool" where
  "isNameCodePoint c \<longleftrightarrow> isNameStartCodePoint c \<or> isDigitR c \<or> c = rMinus"

definition isNumber :: "int \<Rightarrow> int \<Rightarrow> int \<Rightarrow> bool" where
  "isNumber c0 c1 c2 =
     (if c0 = rPlus \<or> c0 = rMinus then isDigitR c1 \<or> c1 = rDot \<and> isDigitR c2
      else if c0 = rDot then isDigitR c1
      else isDigitR c0)"

definition isEscape :: "int \<Rightarrow> int \<Rightarrow> bool" where
  "isEscape c0 c1 \<longleftrightarrow> c0 = rBSL \<and> c1 \<noteq> rLF"

definition isNonPrintable :: "int \<Rightarrow> bool" where
  "isNonPrintable c \<longleftrightarrow> 0 \<le> c \<and> c \<le> 8 \<or> c = 11 \<or> 14 \<le> c \<and> c \<le> 31 \<or> c = 127"

definition isIdent :: "int \<Rightarrow> int \<Rightarrow> int \<Rightarrow> bool" where
  "isIdent c0 c1 c2 =
     (if c0 = rMinus then isNameStartCodePoint c1 \<or> isEscape c1 c2
      else if isNameStartCodePoint c0 then True
      else isEscape c0 c1)"

definition isWhitespace :: "int \<Rightarrow> bool" where
  "isWhitespace c \<longleftrightarrow> c = 32 \<or> c = 9 \<or> c = 10 \<or> c = 13"

definition asHex :: "int \<Rightarrow> nat \<times> bool" where
  "asHex c =
     (if 48 \<le> c \<and> c \<le> 57 then (nat (c - 48), True)
      else if 97 \<le> c \<and> c \<le> 102 then (10 + nat (c - 97), True)
      else if 65 \<le> c \<and> c \<le> 70 then (10 + nat (c - 65), True)
      else (0, False))"

subsection \<open>Frames\<close>

abbreviation leftS :: "cssScanner \<Rightarrow> nat" where
  "leftS s \<equiv> left (scSource s)"

lemma source_frame [simp]:
  "scSource (addLit c s) = scSource s" "scSource (addVal c s) = scSource s"
  "scSource (delim c s) = scSource s" "scSource (scError m s) = scSource s"
  "scSource (updatePos s) = scSource s" "scSource (ungetc s) = UngetRune (scSource s)"
  by (simp_all add: addLit_def addVal_def delim_def scError_def updatePos_def ungetc_def Pos_def)

lemma left_getc [forward]: "getc s = (c, s1) \<Longrightarrow> leftS s1 \<le> leftS s"
  using left_GetRune [of "scSource s"] by (auto simp: getc_def split: prod.splits)

lemma getc_less: "getc s = (c, s1) \<Longrightarrow> c \<noteq> -1 \<Longrightarrow> leftS s1 < leftS s"
  using left_GetRune [of "scSource s"] by (auto simp: getc_def split: prod.splits)

lemma getc_ge: "getc s = (c, s1) \<Longrightarrow> -1 \<le> c"
  using GetRune_ge [of "scSource s"] by (auto simp: getc_def split: prod.splits)

lemma ext_peekc: "peekc s = (c, s1) \<Longrightarrow> ext (scSource s) (scSource s1)"
  using ext_PeekRune [of "scSource s"] by (auto simp: peekc_def split: prod.splits)

lemma ext_peeks: "peeks k s = (cs, s1) \<Longrightarrow> ext (scSource s) (scSource s1)"
  using ext_PeekRunes [of k "scSource s"] by (auto simp: peeks_def split: prod.splits)

lemma ext_left: "ext r r1 \<Longrightarrow> left r1 = left r"
  by (simp add: ext_def)

lemma left_peekc [forward]: "peekc s = (c, s1) \<Longrightarrow> leftS s1 = leftS s"
  by (rule ext_left [OF ext_peekc])

lemma left_peeks [forward]: "peeks k s = (c, s1) \<Longrightarrow> leftS s1 = leftS s"
  by (rule ext_left [OF ext_peeks])

text \<open>Giving a rune back, with peeks in between.\<close>

lemma left_unget:
  assumes "getc s = (c, s1)" "c \<noteq> -1" "ext (scSource s1) (scSource s2)"
  shows "leftS (ungetc s2) = leftS s"
proof -
  from assms(1) have "GetRune (scSource s) = (c, scSource s1)" by (auto simp: getc_def split: prod.splits)
  then have "left (UngetRune (scSource s2)) = left (scSource s)"
    using Unget_ext [OF _ assms(2,3)] by metis
  then show ?thesis by simp
qed

lemma regetc:
  assumes "getc s = (c, s1)" "c \<noteq> -1" "ext (scSource s1) (scSource s2)"
  shows "fst (getc (ungetc s2)) = c"
proof -
  from assms(1) have "GetRune (scSource s) = (c, scSource s1)" by (auto simp: getc_def split: prod.splits)
  from reget [OF this assms(2,3)] show ?thesis by (simp add: getc_def case_prod_unfold)
qed

subsection \<open>Escapes and names\<close>

text \<open>The loop of \<open>hex\<close>; the counter runs up to \<open>maxCount\<close>.\<close>

fun hexLoop :: "nat \<Rightarrow> u32 \<Rightarrow> nat \<Rightarrow> cssScanner \<Rightarrow> u32 \<times> nat \<times> cssScanner" where
  "hexLoop 0 d count s = (d, count, s)"
| "hexLoop (Suc k) d count s =
     (let (c, s1) = peekc s; (d0, ok) = asHex c in
      if ok then
        (let (c1, s2) = getc s1 in hexLoop k (or (push_bit 4 d) (of_nat d0)) (count + 1) (addLit c1 s2))
      else (d, count, s1))"

definition hex :: "nat \<Rightarrow> cssScanner \<Rightarrow> u32 \<times> nat \<times> cssScanner" where
  "hex maxCount s = hexLoop maxCount 0 0 s"

definition escape :: "cssScanner \<Rightarrow> int \<times> cssScanner" where
  "escape s =
     (let (c, s1) = getc s in
      if c = -1 then (int RuneError, s1)
      else if isHex c then
        (let (d, _, s3) = hex 6 (ungetc s1);
             (w, s4) = peekc s3;
             s5 = (if isWhitespace w then snd (getc s4) else s4) in
         (if 0xD800 \<le> d \<and> d \<le> 0xDFFF then int RuneError
          else if 0x10FFFF \<le> d then int RuneError
          else uint d, s5))
      else (c, addLit c s1))"

lemma left_hexLoop: "hexLoop k d n s = (d', n', s') \<Longrightarrow> leftS s' \<le> leftS s"
proof (induction k arbitrary: d n s)
  case 0
  then show ?case by simp
next
  case (Suc k)
  then show ?case by (fastforce simp: Let_def dest: left_getc left_peekc split: prod.splits if_splits)
qed

lemma left_hex [forward]: "hex k s = (d, n, s') \<Longrightarrow> leftS s' \<le> leftS s"
  by (simp add: hex_def left_hexLoop)

lemma left_escape [forward]: "escape s = (c, s') \<Longrightarrow> leftS s' \<le> leftS s"
proof -
  assume e: "escape s = (c, s')"
  obtain c1 s1 where g: "getc s = (c1, s1)" by fastforce
  show ?thesis
  proof (cases "c1 \<noteq> -1 \<and> isHex c1")
    case True
    obtain d n s3 w s4 where h: "hex 6 (ungetc s1) = (d, n, s3)" "peekc s3 = (w, s4)" by (metis prod_cases3 prod.collapse)
    have "leftS (ungetc s1) = leftS s" using left_unget [OF g _ ext_refl] True by simp
    moreover have "leftS (snd (getc s4)) \<le> leftS s4" by (rule left_getc [of _ "fst (getc s4)"]) simp
    ultimately show ?thesis using e True g h left_hex [OF h(1)] left_peekc [OF h(2)]
      by (auto simp: escape_def Let_def split: if_splits)
  next
    case False
    then show ?thesis using e g left_getc [OF g] by (auto simp: escape_def split: if_splits)
  qed
qed

lemma name_code_not_end [simp]: "\<not> isNameCodePoint (-1)" "\<not> isWhitespace (-1)" "\<not> isDigitR (-1)"
  by (simp_all add: isNameCodePoint_def isNameStartCodePoint_def isLetter_def isDigitR_def isWhitespace_def)

text \<open>The loop of \<open>name\<close>. A backslash before a newline is taken and ends the name.\<close>

function name :: "cssScanner \<Rightarrow> cssScanner" where
  "name s =
     (let (c, s1) = getc s in
      if isNameCodePoint c then name (addVal c (addLit c s1))
      else if c = rBSL then
        (let (p, s2) = peekc s1 in
         if p \<noteq> rLF then
           (let (e, s3) = escape (addLit rBSL s2) in name (addVal e s3))
         else s2)
      else if c = -1 then s1
      else ungetc s1)"
  by pat_completeness auto
termination
proof (relation "measure leftS", goal_cases)
  case (2 s x c s1)
  then show ?case using getc_less [of s c s1] by (cases "c = -1") auto
next
  case (3 s x c s1 x2 p s2 x3 e s3)
  then show ?case
    using getc_less [of s c s1] left_peekc [of s1 p s2] left_escape [of "addLit rBSL s2" e s3] by auto
qed simp

declare name.simps [simp del]

lemma left_name: "leftS (name s) \<le> leftS s"
proof (induction s rule: measure_induct_rule [of leftS])
  case (less s)
  obtain c s1 p s2 e s3 where g: "getc s = (c, s1)" "peekc s1 = (p, s2)" "escape (addLit rBSL s2) = (e, s3)"
    by (metis prod.collapse)
  have "c \<noteq> -1 \<Longrightarrow> leftS s1 < leftS s" by (rule getc_less [OF g(1)])
  moreover have "leftS s2 = leftS s1" "leftS s3 \<le> leftS s2"
    using left_peekc [OF g(2)] left_escape [OF g(3)] by simp_all
  moreover have "leftS s1 \<le> leftS s" by (rule left_getc [OF g(1)])
  moreover have "c \<noteq> -1 \<Longrightarrow> leftS (ungetc s1) = leftS s" by (rule left_unget [OF g(1) _ ext_refl])
  ultimately show ?case
    using g less.IH [of "addVal c (addLit c s1)"] less.IH [of "addVal e s3"]
    by (subst name.simps) (cases "c = -1"; simp add: Let_def)
qed

text \<open>A name that starts with a name code point or an escape takes at least one rune.\<close>

lemma name_less:
  assumes "getc s = (c, s1)" "isNameCodePoint c \<or> c = rBSL"
  shows "leftS (name s) < leftS s"
proof -
  have "c \<noteq> -1" using assms(2) by auto
  then have l: "leftS s1 < leftS s" by (rule getc_less [OF assms(1)])
  obtain p s2 e s3 where g: "peekc s1 = (p, s2)" "escape (addLit rBSL s2) = (e, s3)" by (metis prod.collapse)
  show ?thesis
    using assms l g left_peekc [OF g(1)] left_escape [OF g(2)] left_name [of "addVal c (addLit c s1)"]
      left_name [of "addVal e s3"]
    by (subst name.simps) (auto simp: Let_def)
qed

subsection \<open>Whitespace, digits, comments\<close>

text \<open>The measure of a loop that holds a rune: the bytes left, and whether the rune is one.\<close>

abbreviation held1 :: "int \<times> cssScanner \<Rightarrow> nat" where
  "held1 \<equiv> \<lambda>(c, s). leftS s + (if c = -1 then 0 else 1)"

lemma held1_getc: "getc s = (c1, s1) \<Longrightarrow> held1 (c1, s1) \<le> leftS s"
  using left_getc [of s c1 s1] getc_less [of s c1 s1] by auto

text \<open>\<open>for isWhitespace(c) { c = s.source.GetRune() }\<close>\<close>

function skipWS :: "int \<Rightarrow> cssScanner \<Rightarrow> int \<times> cssScanner" where
  "skipWS c s = (if isWhitespace c then (let (c1, s1) = getc s in skipWS c1 s1) else (c, s))"
  by pat_completeness auto
termination
proof (relation "measure held1", goal_cases)
  case (2 c s x c1 s1)
  then show ?case using held1_getc [of s c1 s1] by (cases "c = -1") auto
qed simp

declare skipWS.simps [simp del]

text \<open>\<open>for isDigit(c) { s.Literal = appendRune(s.Literal, c); c = s.source.GetRune() }\<close>\<close>

function digits :: "int \<Rightarrow> cssScanner \<Rightarrow> int \<times> cssScanner" where
  "digits c s = (if isDigitR c then (let (c1, s1) = getc (addLit c s) in digits c1 s1) else (c, s))"
  by pat_completeness auto
termination
proof (relation "measure held1", goal_cases)
  case (2 c s x c1 s1)
  then show ?case using held1_getc [of "addLit c s" c1 s1] by (cases "c = -1") auto
qed simp

declare digits.simps [simp del]

text \<open>The first loop of \<open>Next\<close>, which also moves the position.\<close>

function skipSpace :: "int \<Rightarrow> cssScanner \<Rightarrow> int \<times> cssScanner" where
  "skipSpace c s =
     (if isWhitespace c then (let (c1, s1) = getc (updatePos s) in skipSpace c1 s1) else (c, s))"
  by pat_completeness auto
termination
proof (relation "measure held1", goal_cases)
  case (2 c s x c1 s1)
  then show ?case using held1_getc [of "updatePos s" c1 s1] by (cases "c = -1") auto
qed simp

declare skipSpace.simps [simp del]

text \<open>The inner loop of \<open>skipComment\<close>, after a star: whether the comment ended, else the rune that
  is no star.\<close>

function stars :: "cssScanner \<Rightarrow> bool \<times> int \<times> cssScanner" where
  "stars s =
     (let (c, s1) = getc s in
      if c = rSlash then (True, c, s1)
      else if c = rStar then stars s1
      else (False, c, s1))"
  by pat_completeness auto
termination
proof (relation "measure leftS", goal_cases)
  case (2 s x c s1)
  then show ?case using getc_less [of s c s1] by auto
qed simp

declare stars.simps [simp del]

lemma left_stars [forward]: "stars s = (b, c, s1) \<Longrightarrow> leftS s1 \<le> leftS s"
proof (induction s arbitrary: b c s1 rule: measure_induct_rule [of leftS])
  case (less s)
  obtain c0 s0 where g: "getc s = (c0, s0)" by fastforce
  have "leftS s0 \<le> leftS s" "c0 \<noteq> -1 \<Longrightarrow> leftS s0 < leftS s"
    using left_getc [OF g] getc_less [OF g] by auto
  then show ?case using less.prems less.IH [of s0 b c s1] g
    by (subst (asm) stars.simps) (auto split: if_splits)
qed

function skipCommentLoop :: "int \<Rightarrow> cssScanner \<Rightarrow> cssScanner" where
  "skipCommentLoop c s =
     (if c < 0 then scError ''unterminated comment'' (updatePos s)
      else
        (let (closed, c1, s1) = (if c = rStar then stars s else (False, c, s)) in
         if closed then s1
         else (let (c2, s2) = getc s1 in skipCommentLoop c2 s2)))"
  by pat_completeness auto
termination
proof (relation "measure held1", goal_cases)
  case (2 c s x closed y c1 s1 z c2 s2)
  then have "leftS s1 \<le> leftS s" using left_stars [of s closed c1 s1] by (auto split: if_splits)
  then show ?case using 2 held1_getc [of s1 c2 s2] by auto
qed simp

declare skipCommentLoop.simps [simp del]

definition skipComment :: "cssScanner \<Rightarrow> cssScanner" where
  "skipComment s = (let (c, s1) = getc s in skipCommentLoop c s1)"

lemma left_skipWS [forward]: "skipWS c s = (c', s') \<Longrightarrow> held1 (c', s') \<le> held1 (c, s)"
proof (induction c s rule: skipWS.induct)
  case (1 c s)
  obtain c1 s1 where g: "getc s = (c1, s1)" by fastforce
  have "\<not> P (-1) \<Longrightarrow> P c \<Longrightarrow> c \<noteq> -1" for P by auto
  then show ?case using 1(1) [OF _ refl g [symmetric]] 1(2) g held1_getc [OF g] name_code_not_end
    by (subst (asm) (2) skipWS.simps) (auto split: if_splits)
qed

lemma left_digits [forward]: "digits c s = (c', s') \<Longrightarrow> held1 (c', s') \<le> held1 (c, s)"
proof (induction c s rule: digits.induct)
  case (1 c s)
  obtain c1 s1 where g: "getc (addLit c s) = (c1, s1)" by fastforce
  have "\<not> P (-1) \<Longrightarrow> P c \<Longrightarrow> c \<noteq> -1" for P by auto
  then show ?case using 1(1) [OF _ refl g [symmetric]] 1(2) g held1_getc [OF g] name_code_not_end
    by (subst (asm) (2) digits.simps) (auto split: if_splits)
qed

lemma left_skipSpace [forward]: "skipSpace c s = (c', s') \<Longrightarrow> held1 (c', s') \<le> held1 (c, s)"
proof (induction c s rule: skipSpace.induct)
  case (1 c s)
  obtain c1 s1 where g: "getc (updatePos s) = (c1, s1)" by fastforce
  have "\<not> P (-1) \<Longrightarrow> P c \<Longrightarrow> c \<noteq> -1" for P by auto
  then show ?case using 1(1) [OF _ refl g [symmetric]] 1(2) g held1_getc [OF g] name_code_not_end
    by (subst (asm) (2) skipSpace.simps) (auto split: if_splits)
qed

lemma left_skipCommentLoop: "leftS (skipCommentLoop c s) \<le> leftS s"
proof (induction c s rule: skipCommentLoop.induct)
  case (1 c s)
  obtain b c1 s1 c2 s2 where g: "(if c = rStar then stars s else (False, c, s)) = (b, c1, s1)" "getc s1 = (c2, s2)"
    by (metis prod_cases3 prod.collapse)
  have "leftS s1 \<le> leftS s" using g(1) left_stars [of s b c1 s1] by (auto split: if_splits)
  then show ?case using 1 [OF _ g(1) [symmetric] refl refl _ g(2) [symmetric] refl] g left_getc [OF g(2)]
    by (subst skipCommentLoop.simps) (auto simp: Let_def)
qed

lemma left_skipComment: "leftS (skipComment s) \<le> leftS s"
proof -
  obtain c s1 where g: "getc s = (c, s1)" by fastforce
  show ?thesis using left_getc [OF g] left_skipCommentLoop [of c s1] by (simp add: skipComment_def g)
qed

subsection \<open>Strings and URLs\<close>

definition badString :: "cssScanner \<Rightarrow> cssScanner" where
  "badString s = updatePos (s\<lparr>scLiteral := [], scValue := [], scToken := BadString\<rparr>)"

text \<open>The case of \<open>string\<close> for a backslash.\<close>

definition stringEscape :: "cssScanner \<Rightarrow> cssScanner" where
  "stringEscape s =
     (let (p, s1) = peekc (addLit rBSL s) in
      if p = -1 then snd (getc s1)
      else if p = rLF then addVal rLF (addLit rLF (snd (getc s1)))
      else (let (e, s2) = escape s1 in addVal e s2))"

lemma left_snd_getc: "leftS (snd (getc s)) \<le> leftS s"
  using left_getc [of s "fst (getc s)" "snd (getc s)"] by simp

lemma left_stringEscape: "leftS (stringEscape s) \<le> leftS s"
proof -
  obtain p s1 e s2 where g: "peekc (addLit rBSL s) = (p, s1)" "escape s1 = (e, s2)" by (metis prod.collapse)
  show ?thesis using left_peekc [OF g(1)] left_escape [OF g(2)] left_snd_getc [of s1]
    by (simp add: stringEscape_def g)
qed

function stringLoop :: "int \<Rightarrow> cssScanner \<Rightarrow> cssScanner" where
  "stringLoop quote s =
     (let (c, s1) = getc s in
      if c = quote then addLit quote s1
      else if c = -1 then scError ''unterminated string'' (badString s1)
      else if c = rLF then scError ''newline in string'' (badString s1)
      else if c = rBSL then stringLoop quote (stringEscape s1)
      else stringLoop quote (addVal c (addLit c s1)))"
  by pat_completeness auto
termination
proof (relation "measure (\<lambda>(q, s). leftS s)", goal_cases)
  case (2 q s x c s1)
  then show ?case using getc_less [of s c s1] left_stringEscape [of s1] by auto
next
  case (3 q s x c s1)
  then show ?case using getc_less [of s c s1] by auto
qed simp

declare stringLoop.simps [simp del]

definition stringC :: "int \<Rightarrow> cssScanner \<Rightarrow> cssScanner" where
  "stringC quote s = stringLoop quote (addLit quote s)"

lemma left_badString [simp]: "scSource (badString s) = scSource s"
  by (simp add: badString_def)

lemma left_stringLoop: "leftS (stringLoop q s) \<le> leftS s"
proof (induction s rule: measure_induct_rule [of leftS])
  case (less s)
  obtain c s1 where g: "getc s = (c, s1)" by fastforce
  have "leftS s1 \<le> leftS s" "c \<noteq> -1 \<Longrightarrow> leftS s1 < leftS s"
    using left_getc [OF g] getc_less [OF g] by auto
  moreover have "leftS (stringEscape s1) \<le> leftS s1" by (rule left_stringEscape)
  ultimately show ?case
    using g less.IH [of "stringEscape s1"] less.IH [of "addVal c (addLit c s1)"]
    by (subst stringLoop.simps) (cases "c = -1"; simp)
qed

lemma left_stringC: "leftS (stringC q s) \<le> leftS s"
  using left_stringLoop [of q "addLit q s"] by (simp add: stringC_def)

lemma left_escape_again:
  assumes "getc s = (c, s1)" "peekc s1 = (p, s2)" "isEscape c p"
  shows "leftS (snd (escape (ungetc s2))) < leftS s"
proof -
  have c: "c \<noteq> -1" "c = rBSL" using assms(3) by (auto simp: isEscape_def)
  have e: "ext (scSource s1) (scSource s2)" by (rule ext_peekc [OF assms(2)])
  obtain c' s3 where g: "getc (ungetc s2) = (c', s3)" by fastforce
  then have c': "c' = c" using regetc [OF assms(1) c(1) e] by simp
  have "leftS s3 < leftS (ungetc s2)" using getc_less [OF g] c c' by simp
  then show ?thesis using left_unget [OF assms(1) c(1) e] c(2)
    by (simp add: escape_def g c' isHex_def isDigitR_def)
qed

text \<open>The loop of \<open>badURLRemnants\<close>; after \<open>UngetRune\<close>, \<open>escape\<close> takes just the backslash.\<close>

function badURLLoop :: "cssScanner \<Rightarrow> cssScanner" where
  "badURLLoop s =
     (let (c, s1) = getc s in
      if c = rRParen \<or> c = -1 then s1\<lparr>scLiteral := []\<rparr>
      else
        (let (p, s2) = peekc s1 in
         if isEscape c p then badURLLoop (snd (escape (ungetc s2))) else badURLLoop s2))"
  by pat_completeness auto
termination
proof (relation "measure leftS", goal_cases)
  case (2 s x c s1 x2 p s2)
  then show ?case using left_escape_again [of s c s1 p s2] by simp
next
  case (3 s x c s1 x2 p s2)
  then show ?case using getc_less [of s c s1] left_peekc [of s1 p s2] by simp
qed simp

declare badURLLoop.simps [simp del]

definition badURLRemnants :: "cssScanner \<Rightarrow> cssScanner" where
  "badURLRemnants s = badURLLoop (s\<lparr>scToken := BadURL\<rparr>)"

lemma left_badURLLoop: "leftS (badURLLoop s) \<le> leftS s"
proof (induction s rule: measure_induct_rule [of leftS])
  case (less s)
  obtain c s1 p s2 where g: "getc s = (c, s1)" "peekc s1 = (p, s2)" by (metis prod.collapse)
  have "leftS s1 \<le> leftS s" "c \<noteq> -1 \<Longrightarrow> leftS s1 < leftS s" "leftS s2 = leftS s1"
    using left_getc [OF g(1)] getc_less [OF g(1)] left_peekc [OF g(2)] by auto
  then show ?case
    using g less.IH [of "snd (escape (ungetc s2))"] less.IH [of s2] left_escape_again [OF g]
    by (subst badURLLoop.simps) (cases "c = -1"; cases "isEscape c p"; simp)
qed

lemma left_badURL: "leftS (badURLRemnants s) \<le> leftS s"
  using left_badURLLoop [of "s\<lparr>scToken := BadURL\<rparr>"] by (simp add: badURLRemnants_def)

lemma held1_turn:
  "skipWS c0 s0 = (c, s) \<Longrightarrow> c \<noteq> -1 \<Longrightarrow> leftS s1 \<le> leftS s \<Longrightarrow> getc s1 = (c1, s2) \<Longrightarrow>
   held1 (c1, s2) < held1 (c0, s0)"
  using left_skipWS [of c0 s0 c s] held1_getc [of s1 c1 s2] by simp

text \<open>The last loop of \<open>url\<close>: an address without quotes.\<close>

function urlLoop :: "int \<Rightarrow> cssScanner \<Rightarrow> cssScanner" where
  "urlLoop c0 s0 =
     (let (c, s) = skipWS c0 s0 in
      if c = rRParen then addLit rRParen s
      else if c = -1 then s
      else if c = rDQ \<or> c = rSQ \<or> c = rLParen then badURLRemnants s
      else if c = rBSL then
        (let (p, s1) = peekc s in
         if isEscape c p then
           (let (e, s2) = escape (addLit rBSL s1); (c1, s3) = getc (addVal e s2) in urlLoop c1 s3)
         else badURLRemnants s1)
      else if isNonPrintable c then badURLRemnants s
      else (let (c1, s1) = getc (addVal c (addLit c s)) in urlLoop c1 s1))"
  by pat_completeness auto
termination
proof (relation "measure held1", goal_cases)
  case (2 c0 s0 x c s x1 p s1 x2 e s2 x3 c1 s3)
  then have g: "peekc s = (p, s1)" "escape (addLit rBSL s1) = (e, s2)" by simp_all
  have "leftS s2 \<le> leftS s" using left_peekc [OF g(1)] left_escape [OF g(2)] by simp
  with 2 show ?case using held1_turn [of c0 s0 c s "addVal e s2" c1 s3] by simp
next
  case (3 c0 s0 x c s x1 c1 s1)
  then show ?case using held1_turn [of c0 s0 c s "addVal c (addLit c s)" c1 s1] by simp
qed simp

declare urlLoop.simps [simp del]

definition url :: "cssScanner \<Rightarrow> cssScanner" where
  "url s0 =
     (let (c0, s1) = getc (s0\<lparr>scToken := URL\<rparr>); (c, s) = skipWS c0 s1 in
      if c = -1 then s
      else if c = rDQ \<or> c = rSQ then
        (let s2 = stringC c s in
         if scToken s2 = BadString then badURLRemnants s2
         else
           (let (d0, s3) = getc (s2\<lparr>scToken := URL\<rparr>); (d, s4) = skipWS d0 s3 in
            if d = rRParen then addLit rRParen s4
            else badURLRemnants (ungetc s4)))
      else urlLoop c s)"


subsection \<open>Numbers\<close>

text \<open>The fraction of a number, and its exponent, where two looked-at runes go into the literal.\<close>

definition fraction :: "int \<Rightarrow> cssScanner \<Rightarrow> int \<times> cssScanner" where
  "fraction c s =
     (let (p, s1) = (if c = rDot then peekc s else (-1, s)) in
      if c = rDot \<and> isDigitR p then
        (let (d, s2) = getc (addLit rDot (s1\<lparr>scTypeFlag := TypeFlagNumber\<rparr>));
             (c1, s3) = getc (addLit d s2) in digits c1 s3)
      else (c, s1))"

definition exponent :: "int \<Rightarrow> cssScanner \<Rightarrow> int \<times> cssScanner" where
  "exponent c s =
     (if c = 101 \<or> c = 69 then
        (let (p, s1) = peeks 2 s in
         if isDigitR (p ! 0) \<or> (p ! 0 = rMinus \<or> p ! 0 = rPlus) \<and> isDigitR (p ! 1) then
           (let s2 = addLit (p ! 1) (addLit (p ! 0) (addLit c (s1\<lparr>scTypeFlag := TypeFlagNumber\<rparr>)));
                (c1, s3) = getc (snd (getc (snd (getc s2)))) in digits c1 s3)
         else (c, s1))
      else (c, s))"

definition number :: "int \<Rightarrow> cssScanner \<Rightarrow> cssScanner" where
  "number c0 s0 =
     (let s1 = s0\<lparr>scToken := Number, scTypeFlag := TypeFlagInteger\<rparr>;
          (c1, s2) = (if c0 = rPlus \<or> c0 = rMinus then getc (addLit c0 s1) else (c0, s1));
          (c2, s3) = digits c1 s2;
          (c3, s4) = fraction c2 s3;
          (c4, s5) = exponent c3 s4 in
      if c4 \<noteq> -1 then ungetc s5 else s5)"

definition numeric :: "int \<Rightarrow> cssScanner \<Rightarrow> cssScanner" where
  "numeric c s =
     (let (p, s1) = peeks 3 (number c s) in
      if isIdent (p ! 0) (p ! 1) (p ! 2) then
        (let numberEnd = length (scLiteral s1); s2 = name (s1\<lparr>scToken := Dimension\<rparr>) in
         s2\<lparr>scValue := [], scUnit := drop numberEnd (scLiteral s2)\<rparr>)
      else if p ! 0 = rPercent then snd (getc (addLit rPercent (s1\<lparr>scToken := Percentage\<rparr>)))
      else s1\<lparr>scToken := Number\<rparr>)"

subsection \<open>The other tokens\<close>

definition hash :: "cssScanner \<Rightarrow> cssScanner" where
  "hash s =
     (let (p, s1) = peeks 2 s;
          hasName = (isNameCodePoint (p ! 0) \<or> isEscape (p ! 0) (p ! 1));
          s2 = addLit rHash s1 in
      if hasName then name (s2\<lparr>scToken := Hash\<rparr>) else s2\<lparr>scToken := Delim\<rparr>)"

text \<open>The question marks of \<open>unicodeRange\<close>: \<open>for i < 6\<close>.\<close>

fun questions :: "nat \<Rightarrow> nat \<Rightarrow> cssScanner \<Rightarrow> nat \<times> cssScanner" where
  "questions 0 numQM s = (numQM, s)"
| "questions (Suc k) numQM s =
     (let (p, s1) = peekc s in
      if p = rQuestion then (let (c, s2) = getc s1 in questions k (numQM + 1) (addLit c s2))
      else (numQM, s1))"

fun widen :: "nat \<Rightarrow> u32 \<times> u32 \<Rightarrow> u32 \<times> u32" where
  "widen 0 r = r"
| "widen (Suc k) (lo, hi) = widen k (push_bit 4 lo, or (push_bit 4 hi) 0xF)"

definition unicodeRange :: "cssScanner \<Rightarrow> cssScanner" where
  "unicodeRange s =
     (let (d, i, s1) = hex 6 s; (numQM, s2) = questions (6 - i) 0 s1 in
      if 0 < numQM then
        (let (lo, hi) = widen numQM (d, d) in s2\<lparr>scRangeStart := lo, scRangeEnd := hi, scToken := UnicodeRange\<rparr>)
      else
        (let s3 = s2\<lparr>scRangeStart := d\<rparr>; (p, s4) = peeks 2 s3 in
         if p ! 0 = rMinus \<and> isHex (p ! 1) then
           (let (c, s5) = getc s4; (e, _, s6) = hex 6 (addLit c s5) in
            s6\<lparr>scRangeEnd := e, scToken := UnicodeRange\<rparr>)
         else s4\<lparr>scRangeEnd := scRangeStart s4, scToken := UnicodeRange\<rparr>))"

definition identLike :: "cssScanner \<Rightarrow> cssScanner" where
  "identLike s =
     (let s1 = name s in
      if scLiteral s1 = ''url'' then
        (let (p, s2) = peekc s1 in
         if p = rLParen then (let (c, s3) = getc s2 in url ((addLit c s3)\<lparr>scValue := []\<rparr>))
         else s2\<lparr>scToken := Ident\<rparr>)
      else
        (let (p, s2) = peekc s1 in
         if p = rLParen then (snd (getc s2))\<lparr>scToken := Function\<rparr> else s2\<lparr>scToken := Ident\<rparr>))"

subsection \<open>Next\<close>

text \<open>The cases \<open>$\<close>, \<open>*\<close>, \<open>^\<close> and \<open>~\<close> of the switch: with \<open>=\<close> a match token, else a delimiter.\<close>

definition matchOrDelim :: "int \<Rightarrow> cssToken \<Rightarrow> cssScanner \<Rightarrow> cssScanner" where
  "matchOrDelim c t s =
     (let (p, s1) = peekc s in if p = rEq then (snd (getc s1))\<lparr>scToken := t\<rparr> else delim c s1)"

definition casePlus :: "cssScanner \<Rightarrow> cssScanner" where
  "casePlus s =
     (let (c, s1) = getc s; (p, s2) = peekc s1 in
      if isNumber rPlus c p then numeric rPlus (ungetc s2) else delim rPlus s2)"

definition caseMinus :: "cssScanner \<Rightarrow> cssScanner" where
  "caseMinus s =
     (let (p, s1) = peeks 3 s in
      if isDigitR (p ! 0) then numeric rMinus s1
      else if isIdent (p ! 0) (p ! 1) (p ! 2) then identLike (ungetc s1)
      else if p ! 0 = rMinus \<and> p ! 1 = rGreater then (snd (getc (snd (getc s1))))\<lparr>scToken := CDC\<rparr>
      else delim rMinus s1)"

definition caseLess :: "cssScanner \<Rightarrow> cssScanner" where
  "caseLess s =
     (let (p, s1) = peeks 3 s in
      if p ! 0 = 33 \<and> p ! 1 = rMinus \<and> p ! 2 = rMinus
      then (snd (getc (snd (getc (snd (getc s1))))))\<lparr>scToken := CDO\<rparr>
      else delim rLess s1)"

definition caseAt :: "cssScanner \<Rightarrow> cssScanner" where
  "caseAt s =
     (let (p, s1) = peeks 3 (addLit rAt s) in
      if isIdent (p ! 0) (p ! 1) (p ! 2) then (name s1)\<lparr>scToken := AtKeyword\<rparr> else s1\<lparr>scToken := Delim\<rparr>)"

definition caseBackslash :: "cssScanner \<Rightarrow> cssScanner" where
  "caseBackslash s =
     (let (p, s1) = peekc s in
      if isEscape rBSL p then identLike (ungetc s1)
      else delim rBSL (scError ''invalid escape character'' s1))"

definition caseU :: "int \<Rightarrow> cssScanner \<Rightarrow> cssScanner" where
  "caseU c s =
     (let (p, s1) = peeks 2 s in
      if p ! 0 = rPlus \<and> (isHex (p ! 1) \<or> p ! 1 = rQuestion) then
        (let (d, s2) = getc (addLit c s1) in unicodeRange (addLit d s2))
      else identLike (ungetc s1))"

definition caseDot :: "int \<Rightarrow> cssScanner \<Rightarrow> cssScanner" where
  "caseDot c s = (let (p, s1) = peekc s in if isDigitR p then numeric c s1 else delim rDot s1)"

definition caseBar :: "cssScanner \<Rightarrow> cssScanner" where
  "caseBar s =
     (let (p, s1) = peekc s in
      if p = rEq then (snd (getc s1))\<lparr>scToken := DashMatch\<rparr>
      else if p = rBar then (snd (getc s1))\<lparr>scToken := Column\<rparr>
      else delim rBar s1)"

text \<open>The end of the input: an error other than \<open>io.EOF\<close> is reported.\<close>

definition caseEnd :: "cssScanner \<Rightarrow> cssScanner" where
  "caseEnd s =
     (let s1 = (case rErr (scSource s) of Some (RdErr m) \<Rightarrow> scError m s | _ \<Rightarrow> s) in s1\<lparr>scToken := EOF\<rparr>)"

text \<open>The switch of \<open>Next\<close>, but for a slash.\<close>

definition switch :: "int \<Rightarrow> cssScanner \<Rightarrow> cssScanner" where
  "switch c s =
     (if c = -1 then caseEnd s
      else if c = rDQ \<or> c = rSQ then stringC c (s\<lparr>scToken := String\<rparr>)
      else if c = rHash then hash s
      else if c = rDollar then matchOrDelim c SuffixMatch s
      else if c = rLParen then s\<lparr>scToken := LeftParen\<rparr>
      else if c = rRParen then s\<lparr>scToken := RightParen\<rparr>
      else if c = rStar then matchOrDelim c SubstringMatch s
      else if c = rPlus then casePlus s
      else if c = rComma then s\<lparr>scToken := Comma\<rparr>
      else if c = rMinus then caseMinus s
      else if c = rDot then caseDot c s
      else if c = rColon then s\<lparr>scToken := Colon\<rparr>
      else if c = rSemi then s\<lparr>scToken := Semicolon\<rparr>
      else if c = rLess then caseLess s
      else if c = rAt then caseAt s
      else if c = rLBrack then s\<lparr>scToken := LeftBrack\<rparr>
      else if c = rBSL then caseBackslash s
      else if c = rRBrack then s\<lparr>scToken := RightBrack\<rparr>
      else if c = rHat then matchOrDelim c PrefixMatch s
      else if c = rLBrace then s\<lparr>scToken := LeftBrace\<rparr>
      else if c = rRBrace then s\<lparr>scToken := RightBrace\<rparr>
      else if c = 85 \<or> c = 117 then caseU c s
      else if c = rBar then caseBar s
      else if c = rTilde then matchOrDelim c IncludeMatch s
      else if isDigitR c then numeric c s
      else if isNameStartCodePoint c then identLike (ungetc s)
      else delim c s)"

text \<open>From the label \<open>redo\<close>: a comment starts over.\<close>

function redo :: "cssScanner \<Rightarrow> cssScanner" where
  "redo s =
     (let (c0, s0) = getc (updatePos s); (c, s1) = skipSpace c0 s0 in
      if c = rSlash then
        (let (p, s2) = peekc s1 in
         if p = rStar then redo (skipComment (snd (getc s2))) else delim rSlash s2)
      else switch c s1)"
  by pat_completeness auto
termination
proof (relation "measure leftS", goal_cases)
  case (2 s x c0 s0 x1 c s1 x2 p s2)
  then have g: "getc (updatePos s) = (c0, s0)" "skipSpace c0 s0 = (c, s1)" "peekc s1 = (p, s2)" "c = rSlash"
    by simp_all
  have "leftS s1 < leftS s" using held1_getc [OF g(1)] left_skipSpace [OF g(2)] g(4) by simp
  then show ?case
    using left_peekc [OF g(3)] left_snd_getc [of s2] left_skipComment [of "snd (getc s2)"] by simp
qed simp

declare redo.simps [simp del]

definition clearToken :: "cssScanner \<Rightarrow> cssScanner" where
  "clearToken s =
     s\<lparr>scToken := Unknown, scTypeFlag := TypeFlagNone, scLiteral := [], scValue := [], scUnit := [],
       scRangeStart := 0, scRangeEnd := 0\<rparr>"

definition NextCss :: "cssScanner \<Rightarrow> cssScanner" where
  "NextCss s = redo (clearToken s)"

end
