(* ===== verification/CssScannerProps.thy ===== *)
theory CssScannerProps
  imports CssScanner
begin

text \<open>
  What holds of every token. The locale \<open>scanner_invariant\<close> is the contract between the scanner and
  its reader: what a property must satisfy to be kept by \<open>Next\<close>; \<open>text_invariant\<close> and
  \<open>reader_invariant\<close> are the parts of it that names, and strings and URLs need. They are interpreted
  for the runes that are left (\<open>budget\<close>), for the positions of tokens and errors (\<open>located\<close>) and for the
  encoding of what is returned (\<open>textOK\<close>).
\<close>

subsection \<open>Interface of the reader\<close>

text \<open>What the scanner does to its source and its results is a sequence of the operations below, and
  it unreads only after it has read. A property that each of them keeps is kept by \<open>Next\<close>.\<close>

abbreviation canUnget :: "cssScanner \<Rightarrow> bool" where
  "canUnget s \<equiv> 0 < rLastRuneLen (scSource s)"

locale text_invariant =
  fixes P :: "cssScanner \<Rightarrow> bool"
  assumes inv_getc: "P s \<Longrightarrow> P (snd (getc s))"
    and inv_peekc: "P s \<Longrightarrow> P (snd (peekc s))"
    and inv_peeks: "P s \<Longrightarrow> k < 20 \<Longrightarrow> P (snd (peeks k s))"
    and inv_ungetc: "P s \<Longrightarrow> canUnget s \<Longrightarrow> P (ungetc s)"
    and inv_lit: "P s \<Longrightarrow> P (addLit c s)"
    and inv_val: "P s \<Longrightarrow> P (addVal c s)"
    and inv_error: "P s \<Longrightarrow> P (scError m s)"
    and inv_pos: "P s \<Longrightarrow> P (updatePos s)"

locale reader_invariant = text_invariant P for P :: "cssScanner \<Rightarrow> bool" +
  assumes inv_clear: "P s \<Longrightarrow> P (s\<lparr>scLiteral := []\<rparr>)" "P s \<Longrightarrow> P (s\<lparr>scValue := []\<rparr>)"
    and inv_token: "P s \<Longrightarrow> P (s\<lparr>scToken := t\<rparr>)"

text \<open>Strings, URLs and delimiters set no further result; numbers and ranges do.\<close>

locale scanner_invariant = reader_invariant P for P :: "cssScanner \<Rightarrow> bool" +
  assumes inv_flag: "P s \<Longrightarrow> P (s\<lparr>scTypeFlag := f\<rparr>)"
    and inv_unit: "P s \<Longrightarrow> P (s\<lparr>scUnit := u\<rparr>)"
    and inv_range: "P s \<Longrightarrow> P (s\<lparr>scRangeStart := lo\<rparr>)" "P s \<Longrightarrow> P (s\<lparr>scRangeEnd := hi\<rparr>)"

text \<open>When a rune can be unread.\<close>

lemma canUnget_getc: "getc s = (c, s1) \<Longrightarrow> canUnget s \<or> c \<noteq> -1 \<Longrightarrow> canUnget s1"
  by (auto simp: getc_def ext_def elim!: GetRune_cases split: prod.splits)

lemma canUnget_peekc: "peekc s = (c, s1) \<Longrightarrow> canUnget s1 = canUnget s"
  using ext_peekc [of s c s1] by (simp add: ext_def)

lemma canUnget_peeks: "peeks k s = (c, s1) \<Longrightarrow> canUnget s1 = canUnget s"
  using ext_peeks [of k s c s1] by (simp add: ext_def)

lemma canUnget_skipWS: "skipWS c s = (c', s') \<Longrightarrow> canUnget s \<Longrightarrow> canUnget s'"
proof (induction c s rule: skipWS.induct)
  case (1 c s)
  obtain c1 s1 where g: "getc s = (c1, s1)" by fastforce
  show ?case using 1(1) [OF _ refl g [symmetric]] 1(2,3) g canUnget_getc [OF g]
    by (subst (asm) (2) skipWS.simps) (auto split: if_splits)
qed

lemma skipWS_unget: "skipWS c s = (c', s') \<Longrightarrow> c' \<noteq> -1 \<Longrightarrow> c = -1 \<or> canUnget s \<Longrightarrow> canUnget s'"
  using canUnget_skipWS [of c s c' s'] by (auto simp: skipWS.simps [of "-1"])

lemma ready_getc: "getc s = (c, s1) \<Longrightarrow> c = -1 \<or> canUnget s1"
  using canUnget_getc by blast

lemma ready_digits: "digits c s = (c', s') \<Longrightarrow> c = -1 \<or> canUnget s \<Longrightarrow> c' = -1 \<or> canUnget s'"
proof (induction c s rule: digits.induct)
  case (1 c s)
  obtain c1 s1 where g: "getc (addLit c s) = (c1, s1)" by fastforce
  show ?case using 1(1) [OF _ refl g [symmetric]] 1(2,3) g ready_getc [OF g]
    by (subst (asm) (2) digits.simps) (auto split: if_splits)
qed

lemma canUnget_fields [simp]:
  "canUnget (s\<lparr>scTypeFlag := f\<rparr>) = canUnget s" "canUnget (s\<lparr>scToken := t\<rparr>) = canUnget s"
  "canUnget (addLit c s) = canUnget s" "canUnget (addVal c s) = canUnget s"
  by simp_all

lemma ready_fraction: "fraction c s = (c', s') \<Longrightarrow> c = -1 \<or> canUnget s \<Longrightarrow> c' = -1 \<or> canUnget s'"
  using ready_digits ready_getc canUnget_peekc
  by (fastforce simp: fraction_def Let_def split: prod.splits if_splits)

lemma ready_exponent: "exponent c s = (c', s') \<Longrightarrow> c = -1 \<or> canUnget s \<Longrightarrow> c' = -1 \<or> canUnget s'"
  using ready_digits ready_getc canUnget_peeks
  by (fastforce simp: exponent_def Let_def split: prod.splits if_splits)

lemma badString_token [simp]: "scToken (badString s) = BadString" "scToken (scError m s) = scToken s"
  by (simp_all add: badString_def updatePos_def scError_def split: prod.splits)

text \<open>A string that is closed ends with the quote, which can be unread.\<close>

lemma canUnget_stringLoop: "q \<noteq> -1 \<Longrightarrow> scToken (stringLoop q s) \<noteq> BadString \<Longrightarrow> canUnget (stringLoop q s)"
proof (induction s rule: measure_induct_rule [of leftS])
  case (less s)
  obtain c s1 where g: "getc s = (c, s1)" by fastforce
  show ?case
    using less.prems g less.IH [of "stringEscape s1"] less.IH [of "addVal c (addLit c s1)"] getc_less [OF g]
      ready_getc [OF g] left_stringEscape [of s1]
    by (subst (asm) stringLoop.simps; subst stringLoop.simps) (cases "c = -1"; auto split: if_splits)
qed

context text_invariant
begin

lemmas kept = inv_ungetc inv_lit inv_val inv_error inv_pos

lemma keep_getc: "getc s = (c, s1) \<Longrightarrow> P s \<Longrightarrow> P s1"
  using inv_getc [of s] by simp

lemma keep_peekc: "peekc s = (c, s1) \<Longrightarrow> P s \<Longrightarrow> P s1"
  using inv_peekc [of s] by simp

lemma keep_peeks: "peeks k s = (c, s1) \<Longrightarrow> k < 20 \<Longrightarrow> P s \<Longrightarrow> P s1"
  using inv_peeks [of s k] by simp

lemma keep_hexLoop: "hexLoop k d n s = (d', n', s') \<Longrightarrow> P s \<Longrightarrow> P s'"
proof (induction k arbitrary: d n s)
  case 0
  then show ?case by simp
next
  case (Suc k)
  obtain c s1 c1 s2 where g: "peekc s = (c, s1)" "getc s1 = (c1, s2)" by (metis prod.collapse)
  have "P (addLit c1 s2)" "P s1" using Suc.prems(2) keep_peekc [OF g(1)] keep_getc [OF g(2)] by (simp_all add: kept)
  then show ?case using Suc.prems(1) Suc.IH [of _ _ "addLit c1 s2"] g
    by (auto simp: Let_def split: prod.splits if_splits)
qed

lemma keep_hex: "hex k s = (d, n, s') \<Longrightarrow> P s \<Longrightarrow> P s'"
  by (simp add: hex_def keep_hexLoop)

lemma keep_escape: "escape s = (c, s') \<Longrightarrow> P s \<Longrightarrow> P s'"
proof -
  assume e: "escape s = (c, s')" and P: "P s"
  obtain c1 s1 where g: "getc s = (c1, s1)" by fastforce
  have P1: "P s1" by (rule keep_getc [OF g P])
  show "P s'"
  proof (cases "c1 \<noteq> -1 \<and> isHex c1")
    case True
    obtain d n s3 w s4 where h: "hex 6 (ungetc s1) = (d, n, s3)" "peekc s3 = (w, s4)"
      by (metis prod_cases3 prod.collapse)
    have "P (ungetc s1)" using P1 ready_getc [OF g] True by (simp add: kept)
    then have "P s4" using keep_hex [OF h(1)] keep_peekc [OF h(2)] by blast
    then show ?thesis using e True g h inv_getc by (auto simp: escape_def split: if_splits)
  next
    case False
    then show ?thesis using e g P1 by (auto simp: escape_def kept split: if_splits)
  qed
qed

lemma keep_name: "P s \<Longrightarrow> P (name s)"
proof (induction s rule: measure_induct_rule [of leftS])
  case (less s)
  obtain c s1 p s2 e s3 where g: "getc s = (c, s1)" "peekc s1 = (p, s2)" "escape (addLit rBSL s2) = (e, s3)"
    by (metis prod.collapse)
  have P: "P s1" "P s2" "P s3"
    using less.prems keep_getc [OF g(1)] keep_peekc [OF g(2)] keep_escape [OF g(3)] by (simp_all add: kept)
  have l: "c \<noteq> -1 \<Longrightarrow> leftS s1 < leftS s" "leftS s3 \<le> leftS s1"
    using getc_less [OF g(1)] left_peekc [OF g(2)] left_escape [OF g(3)] by simp_all
  have "c \<noteq> -1 \<Longrightarrow> P (ungetc s1)" using ready_getc [OF g(1)] P by (simp add: kept)
  then show ?case
    using g P l less.IH [of "addVal c (addLit c s1)"] less.IH [of "addVal e s3"]
    by (subst name.simps) (cases "c = -1"; simp add: Let_def kept)
qed

lemma keep_skipWS: "skipWS c s = (c', s') \<Longrightarrow> P s \<Longrightarrow> P s'"
proof (induction c s rule: skipWS.induct)
  case (1 c s)
  obtain c1 s1 where g: "getc s = (c1, s1)" by fastforce
  show ?case using 1(1) [OF _ refl g [symmetric]] 1(2,3) g keep_getc [OF g]
    by (subst (asm) (2) skipWS.simps) (auto split: if_splits)
qed

lemma keep_digits: "digits c s = (c', s') \<Longrightarrow> P s \<Longrightarrow> P s'"
proof (induction c s rule: digits.induct)
  case (1 c s)
  obtain c1 s1 where g: "getc (addLit c s) = (c1, s1)" by fastforce
  show ?case using 1(1) [OF _ refl g [symmetric]] 1(2,3) g keep_getc [OF g] kept
    by (subst (asm) (2) digits.simps) (auto split: if_splits)
qed

lemma keep_skipSpace: "skipSpace c s = (c', s') \<Longrightarrow> P s \<Longrightarrow> P s'"
proof (induction c s rule: skipSpace.induct)
  case (1 c s)
  obtain c1 s1 where g: "getc (updatePos s) = (c1, s1)" by fastforce
  show ?case using 1(1) [OF _ refl g [symmetric]] 1(2,3) g keep_getc [OF g] kept
    by (subst (asm) (2) skipSpace.simps) (auto split: if_splits)
qed

lemma keep_stars: "stars s = (b, c, s1) \<Longrightarrow> P s \<Longrightarrow> P s1"
proof (induction s arbitrary: b c s1 rule: measure_induct_rule [of leftS])
  case (less s)
  obtain c0 s0 where g: "getc s = (c0, s0)" by fastforce
  then show ?case using less.prems less.IH [of s0 b c s1] getc_less [OF g] keep_getc [OF g]
    by (subst (asm) stars.simps) (auto split: if_splits)
qed

lemma keep_skipCommentLoop: "P s \<Longrightarrow> P (skipCommentLoop c s)"
proof (induction c s rule: skipCommentLoop.induct)
  case (1 c s)
  obtain b c1 s1 c2 s2 where g: "(if c = rStar then stars s else (False, c, s)) = (b, c1, s1)" "getc s1 = (c2, s2)"
    by (metis prod_cases3 prod.collapse)
  have "P s1" using g(1) 1(2) keep_stars [of s b c1 s1] by (auto split: if_splits)
  then show ?case
    using 1(1) [OF _ g(1) [symmetric] refl refl _ g(2) [symmetric] refl] 1(2) g keep_getc [OF g(2)] kept
    by (subst skipCommentLoop.simps) (auto simp: Let_def)
qed

lemma keep_skipComment: "P s \<Longrightarrow> P (skipComment s)"
  using inv_getc [of s] by (simp add: skipComment_def keep_skipCommentLoop case_prod_unfold Let_def)

lemma keep_stringEscape: "P s \<Longrightarrow> P (stringEscape s)"
proof -
  assume P: "P s"
  obtain p s1 e s2 where g: "peekc (addLit rBSL s) = (p, s1)" "escape s1 = (e, s2)" by (metis prod.collapse)
  have "P s1" "P s2" using P keep_peekc [OF g(1)] keep_escape [OF g(2)] by (simp_all add: kept)
  then show ?thesis using inv_getc [of s1] by (simp add: stringEscape_def g kept)
qed

end

context reader_invariant
begin

lemmas keep = inv_ungetc inv_lit inv_val inv_clear inv_token inv_error inv_pos

lemma keep_delim: "P s \<Longrightarrow> P (delim c s)"
  by (simp add: delim_def keep)

lemma keep_badString: "P s \<Longrightarrow> P (badString s)"
proof -
  assume "P s"
  then have "P (s\<lparr>scLiteral := []\<rparr>\<lparr>scValue := []\<rparr>\<lparr>scToken := BadString\<rparr>)" by (intro inv_token inv_clear)
  then show ?thesis by (simp add: badString_def keep)
qed

lemma keep_stringLoop: "P s \<Longrightarrow> P (stringLoop q s)"
proof (induction s rule: measure_induct_rule [of leftS])
  case (less s)
  obtain c s1 where g: "getc s = (c, s1)" by fastforce
  have "P s1" by (rule keep_getc [OF g less.prems])
  moreover have "P (stringEscape s1)" "P (badString s1)" using keep_stringEscape keep_badString calculation by auto
  moreover have "leftS (stringEscape s1) \<le> leftS s1" by (rule left_stringEscape)
  ultimately show ?case
    using g less.IH [of "stringEscape s1"] less.IH [of "addVal c (addLit c s1)"] getc_less [OF g]
    by (subst stringLoop.simps) (cases "c = -1"; simp add: keep)
qed

lemma keep_stringC: "P s \<Longrightarrow> P (stringC q s)"
  by (simp add: stringC_def keep_stringLoop keep)

lemma keep_badURLLoop: "P s \<Longrightarrow> P (badURLLoop s)"
proof (induction s rule: measure_induct_rule [of leftS])
  case (less s)
  obtain c s1 p s2 where g: "getc s = (c, s1)" "peekc s1 = (p, s2)" by (metis prod.collapse)
  have P: "P s1" "P s2" using less.prems keep_getc [OF g(1)] keep_peekc [OF g(2)] by auto
  have "canUnget s2" if "c \<noteq> -1" using ready_getc [OF g(1)] canUnget_peekc [OF g(2)] that by simp
  then have "c \<noteq> -1 \<Longrightarrow> P (snd (escape (ungetc s2)))"
    using P keep_escape [of "ungetc s2" "fst (escape (ungetc s2))"] by (simp add: keep)
  moreover have "c \<noteq> -1 \<Longrightarrow> leftS s2 < leftS s" using getc_less [OF g(1)] left_peekc [OF g(2)] by simp
  ultimately show ?case
    using g P less.IH [of "snd (escape (ungetc s2))"] less.IH [of s2] left_escape_again [OF g]
    by (subst badURLLoop.simps) (cases "c = -1"; cases "isEscape c p"; simp add: keep)
qed

lemma keep_badURL: "P s \<Longrightarrow> P (badURLRemnants s)"
  by (simp add: badURLRemnants_def keep_badURLLoop keep)

lemma keep_urlLoop: "P s \<Longrightarrow> P (urlLoop c s)"
proof (induction "(c, s)" arbitrary: c s rule: measure_induct_rule [of held1])
  case (less c0 s0)
  obtain c s where w: "skipWS c0 s0 = (c, s)" by fastforce
  obtain p s1 e s2 c1 s3 d s4 where g: "peekc s = (p, s1)" "escape (addLit rBSL s1) = (e, s2)"
      "getc (addVal e s2) = (c1, s3)" "getc (addVal c (addLit c s)) = (d, s4)" by (metis prod.collapse)
  have P: "P s" "P s1" "P s2" "P s3" "P s4"
    using less.prems keep_skipWS [OF w] keep_peekc [OF g(1)] keep_escape [OF g(2)] keep_getc [OF g(3)]
      keep_getc [OF g(4)] by (simp_all add: keep)
  have l2: "leftS s2 \<le> leftS s" using left_peekc [OF g(1)] left_escape [OF g(2)] by simp
  have "c \<noteq> -1 \<Longrightarrow> P (urlLoop c1 s3)" "c \<noteq> -1 \<Longrightarrow> P (urlLoop d s4)"
    using less.hyps [of c1 s3] less.hyps [of d s4] held1_turn [OF w _ _ g(3)] held1_turn [OF w _ _ g(4)] l2 P
    by simp_all
  then show ?case using P w g by (subst urlLoop.simps) (simp add: Let_def keep keep_badURL)
qed

lemma keep_url: "P s \<Longrightarrow> P (url s)"
proof -
  assume P: "P s"
  obtain c0 s1 c s2 where g: "getc (s\<lparr>scToken := URL\<rparr>) = (c0, s1)" "skipWS c0 s1 = (c, s2)" by (metis prod.collapse)
  obtain d0 s3 d s4 where h: "getc ((stringC c s2)\<lparr>scToken := URL\<rparr>) = (d0, s3)" "skipWS d0 s3 = (d, s4)"
    by (metis prod.collapse)
  have P2: "P s2" "P (stringC c s2)" "P s4"
    using P keep_getc [OF g(1)] keep_skipWS [OF g(2)] keep_getc [OF h(1)] keep_skipWS [OF h(2)]
    by (simp_all add: keep keep_stringC)
  have "canUnget s4" if "c \<noteq> -1" "scToken (stringC c s2) \<noteq> BadString"
  proof -
    have "canUnget (stringC c s2)" using canUnget_stringLoop that by (simp add: stringC_def)
    then show ?thesis using canUnget_getc [OF h(1)] canUnget_skipWS [OF h(2)] by simp
  qed
  then have str: "c \<noteq> -1 \<Longrightarrow> scToken (stringC c s2) \<noteq> BadString \<Longrightarrow> P (badURLRemnants (ungetc s4))"
    using P2 by (simp add: keep keep_badURL)
  show ?thesis
  proof (cases "c = -1 \<or> c \<noteq> rDQ \<and> c \<noteq> rSQ")
    case True
    then show ?thesis using P2 g by (auto simp: url_def keep_urlLoop)
  next
    case False
    then have "url s = (if scToken (stringC c s2) = BadString then badURLRemnants (stringC c s2)
        else if d = rRParen then addLit rRParen s4 else badURLRemnants (ungetc s4))"
      using g h by (auto simp: url_def Let_def)
    then show ?thesis using P2 str False by (simp add: keep keep_badURL)
  qed
qed

lemma keep_hash: "P s \<Longrightarrow> P (hash s)"
proof -
  assume P: "P s"
  obtain p s1 where p: "peeks 2 s = (p, s1)" by fastforce
  then have "P s1" using keep_peeks P by simp
  then show ?thesis by (simp add: hash_def p Let_def keep keep_name)
qed

lemma keep_questions: "questions k n s = (n', s') \<Longrightarrow> P s \<Longrightarrow> P s'"
proof (induction k arbitrary: n s)
  case 0
  then show ?case by simp
next
  case (Suc k)
  obtain p s1 c s2 where g: "peekc s = (p, s1)" "getc s1 = (c, s2)" by (metis prod.collapse)
  have "P s1" "P (addLit c s2)" using Suc.prems(2) keep_peekc [OF g(1)] keep_getc [OF g(2)] by (simp_all add: keep)
  then show ?case using Suc.prems(1) Suc.IH g by (auto split: if_splits)
qed

lemma keep_identLike: "P s \<Longrightarrow> P (identLike s)"
proof -
  assume P: "P s"
  obtain p s2 c s3 where g: "peekc (name s) = (p, s2)" "getc s2 = (c, s3)" by (metis prod.collapse)
  have "P s2" "P s3" using P keep_name keep_peekc [OF g(1)] keep_getc [OF g(2)] by simp_all
  then show ?thesis using g by (simp add: identLike_def Let_def keep keep_url)
qed

lemma keep_match: "P s \<Longrightarrow> P (matchOrDelim c t s)"
proof -
  assume P: "P s"
  obtain p s1 where g: "peekc s = (p, s1)" by fastforce
  then have "P s1" using keep_peekc P by simp
  then show ?thesis by (simp add: matchOrDelim_def g keep inv_getc keep_delim)
qed

lemma keep_caseLess: "P s \<Longrightarrow> P (caseLess s)"
proof -
  assume P: "P s"
  obtain p s1 where g: "peeks 3 s = (p, s1)" by fastforce
  then have "P s1" using keep_peeks P by simp
  then show ?thesis by (simp add: caseLess_def g keep inv_getc keep_delim)
qed

lemma keep_caseAt: "P s \<Longrightarrow> P (caseAt s)"
proof -
  assume P: "P s"
  obtain p s1 where g: "peeks 3 (addLit rAt s) = (p, s1)" by fastforce
  have "P s1" using keep_peeks [OF g] P by (simp add: keep)
  then show ?thesis by (simp add: caseAt_def g keep keep_name)
qed

lemma keep_caseBackslash:
  assumes P: "P s" and c: "canUnget s"
  shows "P (caseBackslash s)"
proof -
  obtain p s1 where g: "peekc s = (p, s1)" by fastforce
  have "P s1" "canUnget s1" using P c keep_peekc [OF g] canUnget_peekc [OF g] by simp_all
  then show ?thesis by (simp add: caseBackslash_def g keep keep_delim keep_identLike)
qed

lemma keep_caseBar: "P s \<Longrightarrow> P (caseBar s)"
proof -
  assume P: "P s"
  obtain p s1 where g: "peekc s = (p, s1)" by fastforce
  then have "P s1" using keep_peekc P by simp
  then show ?thesis by (simp add: caseBar_def g keep inv_getc keep_delim)
qed

end

lemma ready_skipSpace: "skipSpace c s = (c', s') \<Longrightarrow> c = -1 \<or> canUnget s \<Longrightarrow> c' = -1 \<or> canUnget s'"
proof (induction c s rule: skipSpace.induct)
  case (1 c s)
  obtain c1 s1 where g: "getc (updatePos s) = (c1, s1)" by fastforce
  show ?case using 1(1) [OF _ refl g [symmetric]] 1(2,3) g ready_getc [OF g]
    by (subst (asm) (2) skipSpace.simps) (auto split: if_splits)
qed

context scanner_invariant
begin

lemmas keeps = keep inv_flag inv_unit inv_range

lemma keep_fraction: "fraction c s = (c', s') \<Longrightarrow> P s \<Longrightarrow> P s'"
proof -
  assume f: "fraction c s = (c', s')" and P: "P s"
  obtain p s1 where p: "peekc s = (p, s1)" by fastforce
  obtain d s2 c1 s3 c2 s4 where g: "getc (addLit rDot (s1\<lparr>scTypeFlag := TypeFlagNumber\<rparr>)) = (d, s2)"
      "getc (addLit d s2) = (c1, s3)" "digits c1 s3 = (c2, s4)" by (metis prod.collapse)
  have "P s1" "P s4"
    using P keep_peekc [OF p] keep_getc [OF g(1)] keep_getc [OF g(2)] keep_digits [OF g(3)] by (simp_all add: keeps)
  then show ?thesis using f P p g by (auto simp: fraction_def split: if_splits)
qed

lemma keep_exponent: "exponent c s = (c', s') \<Longrightarrow> P s \<Longrightarrow> P s'"
proof -
  assume f: "exponent c s = (c', s')" and P: "P s"
  obtain p s1 where p: "peeks 2 s = (p, s1)" by fastforce
  obtain c1 s3 c2 s4 where g: "getc (snd (getc (snd (getc
      (addLit (p ! 1) (addLit (p ! 0) (addLit c (s1\<lparr>scTypeFlag := TypeFlagNumber\<rparr>)))))))) = (c1, s3)"
      "digits c1 s3 = (c2, s4)" by (metis prod.collapse)
  have "P s1" "P s4"
    using P keep_peeks [OF p] keep_getc [OF g(1)] keep_digits [OF g(2)] by (simp_all add: keeps inv_getc)
  then show ?thesis using f P p g by (auto simp: exponent_def Let_def split: if_splits)
qed

lemma keep_number:
  assumes P: "P s" and ready: "c = rPlus \<or> c = rMinus \<or> canUnget s"
  shows "P (number c s)"
proof -
  let ?s1 = "s\<lparr>scToken := Number, scTypeFlag := TypeFlagInteger\<rparr>"
  obtain c1 s2 where a: "(if c = rPlus \<or> c = rMinus then getc (addLit c ?s1) else (c, ?s1)) = (c1, s2)" by fastforce
  obtain c2 s3 c3 s4 c4 s5 where g: "digits c1 s2 = (c2, s3)" "fraction c2 s3 = (c3, s4)" "exponent c3 s4 = (c4, s5)"
    by (metis prod.collapse)
  have P1: "P ?s1" using inv_token [of s] inv_flag [of "s\<lparr>scToken := Number\<rparr>"] P by simp
  have s2: "P s2" "c1 = -1 \<or> canUnget s2"
    using a P1 ready keep_getc [of "addLit c ?s1" c1 s2] ready_getc [of "addLit c ?s1" c1 s2]
    by (auto simp: keeps split: if_splits)
  have "P s5" "c4 = -1 \<or> canUnget s5"
    using s2 keep_digits [OF g(1)] keep_fraction [OF g(2)] keep_exponent [OF g(3)]
      ready_digits [OF g(1)] ready_fraction [OF g(2)] ready_exponent [OF g(3)] by blast+
  then show ?thesis using a g by (auto simp: number_def Let_def keeps)
qed

lemma keep_numeric:
  assumes "P s" "c = rPlus \<or> c = rMinus \<or> canUnget s"
  shows "P (numeric c s)"
proof -
  obtain p s1 where p: "peeks 3 (number c s) = (p, s1)" by fastforce
  have P: "P s1" using keep_peeks [OF p] keep_number [OF assms] by simp
  have "P ((name (s1\<lparr>scToken := Dimension\<rparr>))\<lparr>scValue := []\<rparr>\<lparr>scUnit := u\<rparr>)" for u
    by (intro inv_unit inv_clear keep_name inv_token P)
  then show ?thesis using P p by (simp add: numeric_def Let_def keeps inv_getc)
qed

lemma keep_unicodeRange: "P s \<Longrightarrow> P (unicodeRange s)"
proof -
  assume P: "P s"
  obtain d i s1 n s2 where g: "hex 6 s = (d, i, s1)" "questions (6 - i) 0 s1 = (n, s2)" by (metis prod_cases3 prod.collapse)
  obtain lo hi where w: "widen n (d, d) = (lo, hi)" by fastforce
  obtain p s4 c s5 e k s6 where h: "peeks 2 (s2\<lparr>scRangeStart := d\<rparr>) = (p, s4)" "getc s4 = (c, s5)"
      "hex 6 (addLit c s5) = (e, k, s6)" by (metis prod_cases3 prod.collapse)
  have P2: "P s2" using P keep_hex [OF g(1)] keep_questions [OF g(2)] by simp
  then have P6: "P s4" "P s6"
    using keep_peeks [OF h(1)] keep_getc [OF h(2)] keep_hex [OF h(3)] by (simp_all add: keeps)
  have "P (t\<lparr>scRangeStart := lo\<rparr>\<lparr>scRangeEnd := hi\<rparr>\<lparr>scToken := UnicodeRange\<rparr>)"
    "P (t\<lparr>scRangeEnd := hi\<rparr>\<lparr>scToken := UnicodeRange\<rparr>)" if "P t" for t lo hi
    using that by (intro inv_token inv_range; simp)+
  from this [OF P2] this [OF P6(1)] this [OF P6(2)] show ?thesis
    by (simp add: unicodeRange_def g w h Let_def)
qed

lemma keep_casePlus: "P s \<Longrightarrow> P (casePlus s)"
proof -
  assume P: "P s"
  obtain c s1 p s2 where g: "getc s = (c, s1)" "peekc s1 = (p, s2)" by (metis prod.collapse)
  have P2: "P s2" using P keep_getc [OF g(1)] keep_peekc [OF g(2)] by simp
  have num: "P (numeric rPlus (ungetc s2))" if n: "isNumber rPlus c p"
  proof -
    have "c \<noteq> -1" using n by (auto simp: isNumber_def)
    then have "P (ungetc s2)" using P2 ready_getc [OF g(1)] canUnget_peekc [OF g(2)] by (simp add: keeps)
    then show ?thesis by (simp add: keep_numeric)
  qed
  then show ?thesis using P2 by (simp add: casePlus_def g keep_delim)
qed

lemma keep_caseMinus:
  assumes P: "P s" and c: "canUnget s"
  shows "P (caseMinus s)"
proof -
  obtain p s1 where g: "peeks 3 s = (p, s1)" by fastforce
  have "P s1" "canUnget s1" using P c keep_peeks [OF g] canUnget_peeks [OF g] by simp_all
  then show ?thesis by (simp add: caseMinus_def g keeps inv_getc keep_delim keep_numeric keep_identLike)
qed

lemma keep_caseU:
  assumes P: "P s" and c: "canUnget s"
  shows "P (caseU c s)"
proof -
  obtain p s1 d s2 where g: "peeks 2 s = (p, s1)" "getc (addLit c s1) = (d, s2)" by (metis prod.collapse)
  have "P s1" "canUnget s1" "P s2"
    using P c keep_peeks [OF g(1)] canUnget_peeks [OF g(1)] keep_getc [OF g(2)] by (simp_all add: keeps)
  then show ?thesis by (simp add: caseU_def g keeps keep_unicodeRange keep_identLike)
qed

lemma keep_caseDot:
  assumes P: "P s" and c: "canUnget s"
  shows "P (caseDot c s)"
proof -
  obtain p s1 where g: "peekc s = (p, s1)" by fastforce
  have "P s1" "canUnget s1" using P c keep_peekc [OF g] canUnget_peekc [OF g] by simp_all
  then show ?thesis by (simp add: caseDot_def g keep_delim keep_numeric)
qed

lemma keep_switch:
  assumes P: "P s" and c: "c = -1 \<or> canUnget s"
  shows "P (switch c s)"
proof (cases "c = -1")
  case True
  then show ?thesis using P by (simp add: switch_def caseEnd_def keeps split: option.split rdErr.split)
next
  case False
  then have u: "canUnget s" using c by simp
  note cases = keep_stringC keep_hash keep_match keep_casePlus keep_caseMinus [OF _ u] keep_caseLess
    keep_caseAt keep_caseBackslash [OF _ u] keep_caseU [OF _ u] keep_caseBar keep_caseDot [OF _ u]
    keep_numeric keep_identLike keep_delim keeps
  have "P (ungetc s)" using P u by (simp add: keeps)
  then show ?thesis unfolding switch_def using P u False by (simp add: cases)
qed

lemma keep_redo: "P s \<Longrightarrow> P (redo s)"
proof (induction s rule: measure_induct_rule [of leftS])
  case (less s)
  obtain c0 s0 c s1 p s2 where g: "getc (updatePos s) = (c0, s0)" "skipSpace c0 s0 = (c, s1)" "peekc s1 = (p, s2)"
    by (metis prod.collapse)
  have P: "P s1" "P s2" "c = -1 \<or> canUnget s1"
    using less.prems keep_getc [OF g(1)] keep_skipSpace [OF g(2)] keep_peekc [OF g(3)]
      ready_skipSpace [OF g(2) ready_getc [OF g(1)]] by (simp_all add: keeps)
  have "c = rSlash \<Longrightarrow> leftS s1 < leftS s" using held1_getc [OF g(1)] left_skipSpace [OF g(2)] by simp
  then have "c = rSlash \<Longrightarrow> leftS (skipComment (snd (getc s2))) < leftS s"
    using left_peekc [OF g(3)] left_snd_getc [of s2] left_skipComment [of "snd (getc s2)"] by simp
  moreover have "P (skipComment (snd (getc s2)))" using P by (simp add: keep_skipComment inv_getc)
  ultimately show ?case
    using g P less.IH by (subst redo.simps) (simp add: Let_def keep_delim keep_switch)
qed

theorem keep_Next:
  assumes "P s"
  shows "P (NextCss s)"
proof -
  have "P (s\<lparr>scToken := Unknown\<rparr>\<lparr>scTypeFlag := TypeFlagNone\<rparr>\<lparr>scLiteral := []\<rparr>\<lparr>scValue := []\<rparr>
      \<lparr>scUnit := []\<rparr>\<lparr>scRangeStart := 0\<rparr>\<lparr>scRangeEnd := 0\<rparr>)"
    using assms by (intro inv_range inv_unit inv_clear inv_flag inv_token)
  then show ?thesis by (simp add: NextCss_def clearToken_def keep_redo)
qed

end

subsection \<open>Instances\<close>

text \<open>What can be read once more: a rune given back does not exceed what was there before it was read.\<close>

definition budget :: "cssScanner \<Rightarrow> nat" where
  "budget s = leftS s + nat (rLastRuneLen (scSource s))"

lemma budget_getc: "getc s = (c, s1) \<Longrightarrow> budget s1 \<le> budget s \<and> (c \<noteq> -1 \<longrightarrow> budget s1 \<le> leftS s)"
  by (auto simp: getc_def budget_def ext_def dest: left_advance [of _ _ c] elim!: GetRune_cases split: prod.splits)

lemma budget_ext: "ext (scSource s) (scSource s1) \<Longrightarrow> budget s1 = budget s"
  by (simp add: budget_def ext_def)

lemma budget_ungetc: "canUnget s \<Longrightarrow> budget (ungetc s) \<le> budget s"
  by (auto simp: budget_def ungetc_def UngetRune_def left_def Let_def)

lemma budget_fields [simp]:
  "budget (addLit c s) = budget s" "budget (addVal c s) = budget s" "budget (s\<lparr>scLiteral := l\<rparr>) = budget s"
  "budget (s\<lparr>scValue := l\<rparr>) = budget s" "budget (s\<lparr>scToken := t\<rparr>) = budget s" "budget (s\<lparr>scTypeFlag := f\<rparr>) = budget s"
  "budget (s\<lparr>scUnit := u\<rparr>) = budget s" "budget (s\<lparr>scRangeStart := lo\<rparr>) = budget s"
  "budget (s\<lparr>scRangeEnd := lo\<rparr>) = budget s" "budget (scError m s) = budget s" "budget (updatePos s) = budget s"
  by (simp_all add: budget_def)

interpretation budget: scanner_invariant "\<lambda>s. budget s \<le> n" for n
proof (unfold_locales, goal_cases)
  case (1 s)
  then show ?case using budget_getc [of s "fst (getc s)" "snd (getc s)"] by simp
next
  case (2 s)
  then show ?case using budget_ext [OF ext_peekc] by (metis prod.collapse)
next
  case (3 s k)
  then show ?case using budget_ext [OF ext_peeks] by (metis prod.collapse)
next
  case (4 s)
  then show ?case using budget_ungetc [of s] by simp
qed simp_all

text \<open>Where a token starts: the source read so far, and the line and column there.\<close>

definition located :: "bytes \<Rightarrow> int \<times> int \<times> int \<Rightarrow> bool" where
  "located S pos =
     (case pos of (l, c, n) \<Rightarrow>
        0 \<le> n \<and> nat n \<le> length S \<and> l = int (lines (take (nat n) S)) \<and> c = int (column (take (nat n) S)))"

definition errPos :: "cssError \<Rightarrow> int \<times> int \<times> int" where
  "errPos e = (case e of (l, c, n, m) \<Rightarrow> (l, c, n))"

definition exact :: "bytes \<Rightarrow> rdErr \<Rightarrow> cssScanner \<Rightarrow> bool" where
  "exact S e s \<longleftrightarrow> tracks S (scSource s) \<and> lastErr (scSource s) = e \<and> rReplaceNULL (scSource s) \<and>
     located S (scLine s, scCol s, scN s) \<and> list_all (\<lambda>x. located S (errPos x)) (scErrs s)"

lemma exact_source:
  "exact S e s \<Longrightarrow> tracks S r \<Longrightarrow> lastErr r = e \<Longrightarrow> rReplaceNULL r \<Longrightarrow> exact S e (s\<lparr>scSource := r\<rparr>)"
  by (simp add: exact_def)

lemma located_Pos: "tracks S r \<Longrightarrow> located S (Pos r)"
  by (auto simp: tracks_def consumed_def located_def Pos_def)

lemma lastErr_Unget: "0 < rLastRuneLen r \<Longrightarrow> lastErr (UngetRune r) = lastErr r"
  by (simp add: UngetRune_def Let_def lastErr_def split: option.split)

lemma replace_Unget: "rReplaceNULL (UngetRune r) = rReplaceNULL r"
  by (simp add: UngetRune_def Let_def)

interpretation exact: scanner_invariant "exact S e" for S e
proof (unfold_locales, goal_cases)
  case (1 s)
  obtain c r where g: "GetRune (scSource s) = (c, r)" by fastforce
  with 1 have t: "tracks S (scSource s)" by (simp add: exact_def)
  then have "tracks S r" "lastErr r = e" "rReplaceNULL r"
    using 1 tracks_GetRune [OF t g] GetRune_spec [OF tracks_le4 [OF t] g] by (simp_all add: exact_def)
  then show ?case using 1 by (simp add: getc_def g exact_source)
next
  case (2 s)
  obtain c r where g: "PeekRune (scSource s) = (c, r)" by fastforce
  with 2 have t: "tracks S (scSource s)" by (simp add: exact_def)
  then have "tracks S r" "lastErr r = e" "rReplaceNULL r"
    using 2 tracks_PeekRune [OF t g] PeekRune_spec [OF tracks_le4 [OF t] g] by (simp_all add: exact_def ext_def)
  then show ?case using 2 by (simp add: peekc_def g exact_source)
next
  case (3 s k)
  obtain c r where g: "PeekRunes k (scSource s) = (c, r)" by fastforce
  with 3 have t: "tracks S (scSource s)" by (simp add: exact_def)
  then have "tracks S r" "lastErr r = e" "rReplaceNULL r"
    using 3 tracks_PeekRunes [OF t 3(2) g] PeekRunes_spec [OF tracks_le4 [OF t] 3(2) g]
    by (simp_all add: exact_def ext_def)
  then show ?case using 3 by (simp add: peeks_def g exact_source)
next
  case (4 s)
  then show ?case
    by (auto simp: ungetc_def exact_def tracks_Unget lastErr_Unget replace_Unget)
next
  case (8 s)
  then show ?case using located_Pos [of S "scSource s"] by (simp add: exact_def updatePos_def Pos_def)
qed (simp_all add: exact_def addLit_def addVal_def scError_def errPos_def)

text \<open>Texts that the scanner returns are built of runes.\<close>

definition textOK :: "cssScanner \<Rightarrow> bool" where
  "textOK s \<longleftrightarrow> (\<exists>rs. (\<forall>r \<in> set rs. validRune r) \<and> scLiteral s = utf8 rs) \<and>
     (\<exists>rs. (\<forall>r \<in> set rs. validRune r) \<and> scValue s = utf8 rs)"

lemma append_rune_text:
  "(\<exists>rs. (\<forall>r \<in> set rs. validRune r) \<and> b = utf8 rs) \<Longrightarrow>
   \<exists>rs. (\<forall>r \<in> set rs. validRune r) \<and> cssAppendRune b c = utf8 rs"
proof (elim exE conjE)
  fix rs
  assume rs: "\<forall>r \<in> set rs. validRune r" "b = utf8 rs"
  have "\<exists>r. validRune r \<and> runeBytes c = encodeRune r"
    using length_encodeRune_Error [of "nat c"] validRune_Error by (auto simp: runeBytes_def)
  then obtain r where r: "validRune r" "runeBytes c = encodeRune r" by blast
  have "cssAppendRune b c = utf8 (rs @ [r])" by (simp add: cssAppendRune_def rs r)
  moreover have "\<forall>r \<in> set (rs @ [r]). validRune r" using rs r by simp
  ultimately show ?thesis by blast
qed

lemma empty_text: "\<exists>rs. (\<forall>r \<in> set rs. validRune r) \<and> [] = utf8 rs"
  by (rule exI [of _ "[]"]) simp

lemma textOK_source [simp]: "textOK (s\<lparr>scSource := r\<rparr>) = textOK s"
  by (simp add: textOK_def)

interpretation textOK: scanner_invariant textOK
proof (unfold_locales, goal_cases)
  case (5 s c)
  then show ?case by (simp add: textOK_def addLit_def append_rune_text)
next
  case (6 s c)
  then show ?case by (simp add: textOK_def addVal_def append_rune_text)
next
  case (9 s)
  then show ?case using empty_text by (simp add: textOK_def)
next
  case (10 s)
  then show ?case using empty_text by (simp add: textOK_def)
qed (simp_all add: getc_def peekc_def peeks_def ungetc_def scError_def updatePos_def Pos_def case_prod_unfold Let_def
    textOK_def [of "s\<lparr>scToken := t\<rparr>" for s t] textOK_def)

subsection \<open>Progress\<close>

lemma fillTo_fillTo [simp]: "fillTo k (fillTo k r) = fillTo k r"
  using fillTo_post [of k r] by (subst fillTo.simps) auto

lemma peekc_again: "peekc s = (p, s1) \<Longrightarrow> peekc s1 = (p, s1)"
  by (auto simp: peekc_def PeekRune_def peek_def Let_def split: prod.splits if_splits)

lemma peekc_getc: "peekc s = (p, s1) \<Longrightarrow> fst (getc s1) = p"
  by (auto simp: peekc_def getc_def GetRune_def PeekRune_def peek_def Let_def split: prod.splits if_splits)

lemma left_budget: "leftS s \<le> budget s"
  by (simp add: budget_def)

lemma identLike_less:
  assumes "getc t = (c, s)" "ext (scSource s) (scSource s2)" "isNameCodePoint c \<or> c = rBSL"
  shows "leftS (identLike (ungetc s2)) < leftS t"
proof -
  have c: "c \<noteq> -1" using assms(3) by auto
  obtain s3 where "getc (ungetc s2) = (c, s3)" using regetc [OF assms(1) c assms(2)] by (metis prod.collapse)
  from name_less [OF this] have n: "leftS (name (ungetc s2)) < leftS t"
    using left_unget [OF assms(1) c assms(2)] assms(3) by simp
  obtain p s4 d s5 where g: "peekc (name (ungetc s2)) = (p, s4)" "getc s4 = (d, s5)" by (metis prod.collapse)
  have l4: "leftS s4 < leftS t" using left_peekc [OF g(1)] n by simp
  have b: "budget s5 \<le> leftS s4" "leftS s5 \<le> leftS s4" if "p = rLParen"
    using budget_getc [OF g(2)] left_getc [OF g(2)] peekc_getc [OF g(1)] g(2) that by auto
  have "budget (url ((addLit d s5)\<lparr>scValue := []\<rparr>)) \<le> budget s5" by (rule budget.keep_url) simp
  then have "leftS (url ((addLit d s5)\<lparr>scValue := []\<rparr>)) \<le> budget s5" using left_budget le_trans by blast
  then show ?thesis using b l4 g by (auto simp: identLike_def Let_def)
qed

text \<open>A held rune can be given back within the limit \<open>L\<close>.\<close>

definition within :: "nat \<Rightarrow> int \<times> cssScanner \<Rightarrow> bool" where
  "within L x \<longleftrightarrow> leftS (snd x) \<le> L \<and> (fst x \<noteq> -1 \<longrightarrow> budget (snd x) \<le> L)"

lemma within_getc: "leftS s \<le> L \<Longrightarrow> within L (getc s)"
  using budget_getc [of s "fst (getc s)" "snd (getc s)"] left_snd_getc [of s] by (auto simp: within_def)

lemma within_digits: "leftS s \<le> L \<Longrightarrow> isDigitR c \<or> within L (c, s) \<Longrightarrow> within L (digits c s)"
proof (induction c s rule: digits.induct)
  case (1 c s)
  obtain c1 s1 where g: "getc (addLit c s) = (c1, s1)" by fastforce
  have "within L (c1, s1)" using within_getc [of "addLit c s" L] g 1(2) by simp
  then show ?case using 1(1) [OF _ refl g [symmetric]] 1(3) g
    by (subst digits.simps) (auto simp: within_def)
qed

lemma within_fraction:
  assumes "leftS s \<le> L" "within L (c, s) \<or> c = rDot \<and> isDigitR (fst (peekc s))"
  shows "within L (fraction c s)"
proof -
  obtain p s1 where p: "peekc s = (p, s1)" by fastforce
  obtain d s2 c1 s3 where g: "getc (addLit rDot (s1\<lparr>scTypeFlag := TypeFlagNumber\<rparr>)) = (d, s2)"
      "getc (addLit d s2) = (c1, s3)" by (metis prod.collapse)
  have l1: "leftS s1 \<le> L" "budget s1 = budget s"
    using left_peekc [OF p] budget_ext [OF ext_peekc [OF p]] assms(1) by simp_all
  then have l2: "leftS (addLit d s2) \<le> L" using left_getc [OF g(1)] by simp
  from within_getc [OF this] g(2) have "within L (c1, s3)" by simp
  then have "within L (digits c1 s3)" by (intro within_digits) (auto simp: within_def)
  moreover have "within L (c, s1)" "within L (c, s)" if "\<not> (c = rDot \<and> isDigitR p)"
    using assms p that l1 by (auto simp: within_def)
  ultimately show ?thesis
    by (cases "c = rDot \<and> isDigitR p") (auto simp: fraction_def p g)
qed

lemma within_exponent:
  assumes "within L (c, s)"
  shows "within L (exponent c s)"
proof -
  obtain p s1 where p: "peeks 2 s = (p, s1)" by fastforce
  let ?s2 = "addLit (p ! 1) (addLit (p ! 0) (addLit c (s1\<lparr>scTypeFlag := TypeFlagNumber\<rparr>)))"
  obtain c1 s3 where g: "getc (snd (getc (snd (getc ?s2)))) = (c1, s3)" by fastforce
  have l1: "leftS s1 \<le> L" "budget s1 = budget s"
    using left_peeks [OF p] budget_ext [OF ext_peeks [OF p]] assms by (simp_all add: within_def)
  have "leftS (snd (getc (snd (getc ?s2)))) \<le> L"
    using left_snd_getc [of ?s2] left_snd_getc [of "snd (getc ?s2)"] l1 by simp
  from within_getc [OF this] g have "within L (c1, s3)" by simp
  then have "within L (digits c1 s3)" by (intro within_digits) (auto simp: within_def)
  moreover have "within L (c, s1)" using assms l1 by (simp add: within_def)
  moreover have "exponent c s = digits c1 s3 \<or> exponent c s = (c, s1) \<or> exponent c s = (c, s)"
    using g by (auto simp: exponent_def p Let_def)
  ultimately show ?thesis using assms by auto
qed

lemma left_number:
  assumes "c = rPlus \<or> c = rMinus \<or> isDigitR c \<or> c = rDot \<and> isDigitR (fst (peekc s))"
  shows "leftS (number c s) \<le> leftS s"
proof -
  let ?s1 = "s\<lparr>scToken := Number, scTypeFlag := TypeFlagInteger\<rparr>" and ?L = "leftS s"
  obtain c1 s2 where a: "(if c = rPlus \<or> c = rMinus then getc (addLit c ?s1) else (c, ?s1)) = (c1, s2)" by fastforce
  obtain c2 s3 c3 s4 c4 s5 where g: "digits c1 s2 = (c2, s3)" "fraction c2 s3 = (c3, s4)" "exponent c3 s4 = (c4, s5)"
    by (metis prod.collapse)
  have "within ?L (fraction c2 s3)"
  proof (cases "c = rDot")
    case True
    then have "c2 = c" "s3 = ?s1" using a g(1) by (auto simp: digits.simps isDigitR_def)
    moreover have "fst (peekc ?s1) = fst (peekc s)" by (simp add: peekc_def case_prod_unfold Let_def)
    ultimately show ?thesis using assms True by (intro within_fraction) (auto simp: isDigitR_def)
  next
    case False
    have "leftS s2 \<le> ?L" "isDigitR c1 \<or> within ?L (c1, s2)"
      using a assms False within_getc [of "addLit c ?s1" ?L] by (auto simp: within_def split: if_splits)
    then have "within ?L (c2, s3)" using within_digits [of s2 ?L c1] g(1) by simp
    then show ?thesis by (intro within_fraction) (auto simp: within_def)
  qed
  then have "within ?L (c4, s5)" using within_exponent [of ?L c3 s4] g by simp
  moreover have "c4 \<noteq> -1 \<Longrightarrow> leftS (ungetc s5) \<le> budget s5"
    by (auto simp: budget_def UngetRune_def left_def Let_def)
  ultimately show ?thesis using a g by (auto simp: number_def Let_def within_def)
qed

lemma left_numeric:
  assumes "c = rPlus \<or> c = rMinus \<or> isDigitR c \<or> c = rDot \<and> isDigitR (fst (peekc s))"
  shows "leftS (numeric c s) \<le> leftS s"
proof -
  obtain p s1 where p: "peeks 3 (number c s) = (p, s1)" by fastforce
  have l: "leftS s1 \<le> leftS s" using left_peeks [OF p] left_number [OF assms] by simp
  show ?thesis
    using l left_name [of "s1\<lparr>scToken := Dimension\<rparr>"] left_snd_getc [of "addLit rPercent (s1\<lparr>scToken := Percentage\<rparr>)"]
    by (simp add: numeric_def p Let_def)
qed

lemma left_hash: "leftS (hash s) \<le> leftS s"
proof -
  obtain p s1 where p: "peeks 2 s = (p, s1)" by fastforce
  show ?thesis using left_peeks [OF p] left_name [of "(addLit rHash s1)\<lparr>scToken := Hash\<rparr>"]
    by (simp add: hash_def p Let_def)
qed

lemma left_questions: "questions k n s = (n', s') \<Longrightarrow> leftS s' \<le> leftS s"
proof (induction k arbitrary: n s)
  case 0
  then show ?case by simp
next
  case (Suc k)
  then show ?case by (fastforce simp: Let_def dest: left_getc left_peekc split: prod.splits if_splits)
qed

lemma left_unicodeRange: "leftS (unicodeRange s) \<le> leftS s"
proof -
  obtain d i s1 n s2 where g: "hex 6 s = (d, i, s1)" "questions (6 - i) 0 s1 = (n, s2)" by (metis prod_cases3 prod.collapse)
  obtain lo hi where w: "widen n (d, d) = (lo, hi)" by fastforce
  obtain p s4 c s5 e k s6 where h: "peeks 2 (s2\<lparr>scRangeStart := d\<rparr>) = (p, s4)" "getc s4 = (c, s5)"
      "hex 6 (addLit c s5) = (e, k, s6)" by (metis prod_cases3 prod.collapse)
  show ?thesis
    using left_hex [OF g(1)] left_questions [OF g(2)] left_peeks [OF h(1)] left_getc [OF h(2)] left_hex [OF h(3)]
    by (simp add: unicodeRange_def g w h Let_def)
qed

lemma left_match: "leftS (matchOrDelim c t s) \<le> leftS s"
proof -
  obtain p s1 where g: "peekc s = (p, s1)" by fastforce
  show ?thesis using left_peekc [OF g] left_snd_getc [of s1] by (simp add: matchOrDelim_def g)
qed

lemma left_casePlus: "leftS (casePlus s) \<le> leftS s"
proof -
  obtain c s1 p s2 where g: "getc s = (c, s1)" "peekc s1 = (p, s2)" by (metis prod.collapse)
  have "leftS (numeric rPlus (ungetc s2)) \<le> leftS s" if n: "isNumber rPlus c p"
  proof -
    have "c \<noteq> -1" using n by (auto simp: isNumber_def)
    then have "leftS (ungetc s2) = leftS s" by (rule left_unget [OF g(1) _ ext_peekc [OF g(2)]])
    then show ?thesis using left_numeric [of rPlus "ungetc s2"] by simp
  qed
  then show ?thesis using left_getc [OF g(1)] left_peekc [OF g(2)] by (simp add: casePlus_def g)
qed

text \<open>The remaining cases of the switch, after \<open>getc\<close> took a rune.\<close>

lemma left_caseMinus:
  assumes "getc t = (rMinus, s)"
  shows "leftS (caseMinus s) < leftS t"
proof -
  obtain p s1 where g: "peeks 3 s = (p, s1)" by fastforce
  have l: "leftS s1 < leftS t" using getc_less [OF assms] left_peeks [OF g] by simp
  have "leftS (identLike (ungetc s1)) < leftS t"
    by (rule identLike_less [OF assms ext_peeks [OF g]]) (simp add: isNameCodePoint_def)
  then show ?thesis
    using l left_numeric [of rMinus s1] left_snd_getc [of s1] left_snd_getc [of "snd (getc s1)"]
    by (simp add: caseMinus_def g)
qed

lemma left_caseLess: "leftS (caseLess s) \<le> leftS s"
proof -
  obtain p s1 where g: "peeks 3 s = (p, s1)" by fastforce
  show ?thesis
    using left_peeks [OF g] left_snd_getc [of s1] left_snd_getc [of "snd (getc s1)"]
      left_snd_getc [of "snd (getc (snd (getc s1)))"] by (simp add: caseLess_def g)
qed

lemma left_caseAt: "leftS (caseAt s) \<le> leftS s"
proof -
  obtain p s1 where g: "peeks 3 (addLit rAt s) = (p, s1)" by fastforce
  show ?thesis using left_peeks [OF g] left_name [of s1] by (simp add: caseAt_def g)
qed

lemma left_caseBackslash:
  assumes "getc t = (rBSL, s)"
  shows "leftS (caseBackslash s) < leftS t"
proof -
  obtain p s1 where g: "peekc s = (p, s1)" by fastforce
  have "leftS (identLike (ungetc s1)) < leftS t"
    by (rule identLike_less [OF assms ext_peekc [OF g]]) simp
  then show ?thesis using getc_less [OF assms] left_peekc [OF g] by (simp add: caseBackslash_def g)
qed

lemma left_caseU:
  assumes "getc t = (c, s)" "c = 85 \<or> c = 117"
  shows "leftS (caseU c s) < leftS t"
proof -
  obtain p s1 d s2 where g: "peeks 2 s = (p, s1)" "getc (addLit c s1) = (d, s2)" by (metis prod.collapse)
  have "leftS (identLike (ungetc s1)) < leftS t"
    by (rule identLike_less [OF assms(1) ext_peeks [OF g(1)]])
      (use assms(2) in \<open>auto simp: isNameCodePoint_def isNameStartCodePoint_def isLetter_def\<close>)
  moreover have "leftS s < leftS t" using getc_less [OF assms(1)] assms(2) by auto
  ultimately show ?thesis
    using left_peeks [OF g(1)] left_getc [OF g(2)] left_unicodeRange [of "addLit d s2"] by (simp add: caseU_def g)
qed

lemma left_caseDot: "leftS (caseDot rDot s) \<le> leftS s"
proof -
  obtain p s1 where g: "peekc s = (p, s1)" by fastforce
  show ?thesis using left_peekc [OF g] left_numeric [of rDot s1] peekc_again [OF g] by (auto simp: caseDot_def g)
qed

lemma left_caseBar: "leftS (caseBar s) \<le> leftS s"
proof -
  obtain p s1 where g: "peekc s = (p, s1)" by fastforce
  show ?thesis using left_peekc [OF g] left_snd_getc [of s1] by (simp add: caseBar_def g)
qed

lemma switch_less:
  assumes g: "getc t = (c, s)" and c: "c \<noteq> -1"
  shows "leftS (switch c s) < leftS t"
proof -
  have l: "leftS s < leftS t" by (rule getc_less [OF g c])
  have id: "isNameStartCodePoint c \<Longrightarrow> left (scSource (identLike (ungetc s))) < leftS t"
    by (rule identLike_less [OF g ext_refl]) (simp add: isNameCodePoint_def)
  have "leftS (stringC q (s\<lparr>scToken := String\<rparr>)) < leftS t" for q
    using l left_stringC [of q "s\<lparr>scToken := String\<rparr>"] by simp
  moreover have le: "x \<le> leftS s \<Longrightarrow> x < leftS t" for x using l by simp
  ultimately show ?thesis
    unfolding switch_def using c g l id
    by (simp add: le left_stringC left_hash left_match left_casePlus left_caseMinus left_caseLess left_caseAt
        left_caseBackslash left_caseU left_caseDot left_caseBar left_numeric)
qed

lemma skipSpace_got:
  "skipSpace c0 s0 = (c, s1) \<Longrightarrow> getc t0 = (c0, s0) \<Longrightarrow> leftS t0 \<le> L \<Longrightarrow>
   \<exists>t. getc t = (c, s1) \<and> leftS t \<le> L"
proof (induction c0 s0 arbitrary: t0 rule: skipSpace.induct)
  case (1 c0 s0)
  obtain c2 s2 where g: "getc (updatePos s0) = (c2, s2)" by fastforce
  have "leftS s0 \<le> L" using left_getc [OF 1(3)] 1(4) by simp
  then show ?case using 1(1) [OF _ refl g [symmetric] _ g] 1(2,3,4) g
    by (subst (asm) (2) skipSpace.simps) (auto split: if_splits)
qed

lemma redo_progress: "scToken (redo s) = EOF \<or> leftS (redo s) < leftS s"
proof (induction s rule: measure_induct_rule [of leftS])
  case (less s)
  obtain c0 s0 c s1 p s2 where g: "getc (updatePos s) = (c0, s0)" "skipSpace c0 s0 = (c, s1)" "peekc s1 = (p, s2)"
    by (metis prod.collapse)
  obtain t where t: "getc t = (c, s1)" "leftS t \<le> leftS s"
    using skipSpace_got [OF g(2) g(1), of "leftS s"] by auto
  show ?case
  proof (cases "c = rSlash")
    case True
    then have l: "leftS s2 < leftS s" using getc_less [OF t(1)] t(2) left_peekc [OF g(3)] by simp
    then have "leftS (skipComment (snd (getc s2))) < leftS s"
      using left_snd_getc [of s2] left_skipComment [of "snd (getc s2)"] by simp
    then have "scToken (redo (skipComment (snd (getc s2)))) = EOF \<or>
        leftS (redo (skipComment (snd (getc s2)))) < leftS s"
      using less.IH [of "skipComment (snd (getc s2))"] by linarith
    moreover have "redo s = (if p = rStar then redo (skipComment (snd (getc s2))) else delim rSlash s2)"
      using True g by (subst redo.simps) simp
    ultimately show ?thesis using l by simp
  next
    case False
    then have r: "redo s = switch c s1" using g by (subst redo.simps) simp
    show ?thesis
    proof (cases "c = -1")
      case True
      then show ?thesis by (simp add: r switch_def caseEnd_def)
    next
      case False
      then show ?thesis using switch_less [OF t(1) False] t(2) by (simp add: r)
    qed
  qed
qed

lemma Next_progress: "scToken (NextCss s) = EOF \<or> leftS (NextCss s) < leftS s"
  using redo_progress [of "clearToken s"] by (simp add: NextCss_def clearToken_def)

lemma redo_le: "leftS (redo s) \<le> leftS s"
proof (induction s rule: measure_induct_rule [of leftS])
  case (less s)
  obtain c0 s0 c s1 p s2 where g: "getc (updatePos s) = (c0, s0)" "skipSpace c0 s0 = (c, s1)" "peekc s1 = (p, s2)"
    by (metis prod.collapse)
  obtain t where t: "getc t = (c, s1)" "leftS t \<le> leftS s"
    using skipSpace_got [OF g(2) g(1), of "leftS s"] by auto
  have l: "leftS s1 \<le> leftS s" using left_getc [OF t(1)] t(2) by simp
  show ?case
  proof (cases "c = rSlash")
    case True
    then have l: "leftS s2 < leftS s" using getc_less [OF t(1)] t(2) left_peekc [OF g(3)] by simp
    then have "leftS (skipComment (snd (getc s2))) < leftS s"
      using left_snd_getc [of s2] left_skipComment [of "snd (getc s2)"] by simp
    then have "leftS (redo (skipComment (snd (getc s2)))) \<le> leftS s"
      using less.IH [of "skipComment (snd (getc s2))"] by linarith
    moreover have "redo s = (if p = rStar then redo (skipComment (snd (getc s2))) else delim rSlash s2)"
      using True g by (subst redo.simps) simp
    ultimately show ?thesis using l by simp
  next
    case False
    then have r: "redo s = switch c s1" using g by (subst redo.simps) simp
    show ?thesis
    proof (cases "c = -1")
      case True
      then show ?thesis using l by (simp add: r switch_def caseEnd_def Let_def split: option.split rdErr.split)
    next
      case False
      then show ?thesis using switch_less [OF t(1) False] t(2) by (simp add: r)
    qed
  qed
qed

lemma Next_le: "leftS (NextCss s) \<le> leftS s"
  using redo_le [of "clearToken s"] by (simp add: NextCss_def clearToken_def)

text \<open>The scanner after \<open>k\<close> calls of \<open>Next\<close>.\<close>

definition scanned :: "nat \<Rightarrow> chunks \<Rightarrow> cssScanner" where
  "scanned k src = (NextCss ^^ k) (NewScanner src)"

lemma scanned_simps [simp]: "scanned 0 src = NewScanner src" "scanned (Suc k) src = NextCss (scanned k src)"
  by (simp_all add: scanned_def)

lemma left_New [simp]: "leftS (NewScanner src) = srcSize src"
  by (simp add: NewScanner_def NewSourceReader_def SetReplaceNULL_def left_def)

text \<open>C37: Tokenising any input ends: however the reader delivers it, one of the first n + 1 calls of
  \<open>Next\<close> for an input of n bytes yields \<open>EOF\<close> (each of the others takes at least one byte).\<close>

theorem css_scan_ends: "\<exists>k \<le> srcSize src + 1. scToken (scanned k src) = EOF"
proof (rule ccontr)
  assume no: "\<not> ?thesis"
  have "k \<le> srcSize src + 1 \<Longrightarrow> leftS (scanned k src) + k \<le> srcSize src" for k
  proof (induction k)
    case 0
    then show ?case by simp
  next
    case (Suc k)
    then have "scToken (scanned (Suc k) src) \<noteq> EOF" using no by blast
    then have "leftS (scanned (Suc k) src) < leftS (scanned k src)"
      using Next_progress [of "scanned k src"] by simp
    then show ?case using Suc by simp
  qed
  from this [of "srcSize src + 1"] show False by simp
qed

lemma exact_New: "exact (pending src) (finalErr src) (NewScanner src)"
  using tracks_New [of src True]
  by (simp add: exact_def NewScanner_def located_def lines_def column_def lastErr_def NewSourceReader_def SetReplaceNULL_def)

lemma exact_scanned: "exact (pending src) (finalErr src) (scanned k src)"
  by (induction k) (simp_all add: exact_New exact.keep_Next)

text \<open>Positions are exact: after any number of calls of \<open>Next\<close> the reader stands behind a prefix of
  the input and its line, column and offset are those of that prefix; the position of the token and of
  every reported error is that of some byte of the input. The only error the reader ever has is the one
  of the \<open>io.Reader\<close>: no rune is unread twice, and the buffer never overflows.\<close>

theorem css_positions:
  "\<exists>p. pending src = p @ rest (scSource (scanned k src)) \<and>
     Pos (scSource (scanned k src)) = (int (lines p), int (column p), int (length p)) \<and>
     located (pending src) (scLine (scanned k src), scCol (scanned k src), scN (scanned k src)) \<and>
     list_all (\<lambda>e. located (pending src) (errPos e)) (scErrs (scanned k src)) \<and>
     lastErr (scSource (scanned k src)) = finalErr src"
  using exact_scanned [of src k] unfolding exact_def tracks_def consumed_def Pos_def by auto

text \<open>Whatever bytes come in, the texts of a token are valid UTF-8: the literal and the value are
  built of runes, and a byte that is no rune has become U+FFFD.\<close>

theorem css_text_valid:
  "utf8Valid (scLiteral (scanned k src)) \<and> utf8Valid (scValue (scanned k src))"
proof -
  have "textOK (scanned k src)"
  proof (induction k)
    case 0
    then show ?case using empty_text by (simp add: textOK_def NewScanner_def)
  next
    case (Suc k)
    then show ?case by (simp add: textOK.keep_Next)
  qed
  then show ?thesis unfolding textOK_def using utf8Valid_utf8 by metis
qed

subsection \<open>Types of tokens\<close>

text \<open>Names and escapes leave the kind of the token alone.\<close>

interpretation token: text_invariant "\<lambda>s. scToken s = t" for t
  by unfold_locales
    (simp_all add: getc_def peekc_def peeks_def ungetc_def addLit_def addVal_def scError_def updatePos_def Pos_def
      case_prod_unfold Let_def)

text \<open>What only numbers and ranges set.\<close>

definition extras :: "cssScanner \<Rightarrow> typeFlag \<times> bytes \<times> u32 \<times> u32" where
  "extras s = (scTypeFlag s, scUnit s, scRangeStart s, scRangeEnd s)"

interpretation extras: reader_invariant "\<lambda>s. extras s = x" for x
  by unfold_locales
    (simp_all add: getc_def peekc_def peeks_def ungetc_def addLit_def addVal_def scError_def updatePos_def Pos_def
      case_prod_unfold Let_def extras_def)

text \<open>A token is well typed: a number has a type flag and only a number has one, only a dimension has a
  unit, which ends its literal, only a range has bounds, which fit into six hexadecimal digits, and a
  bad token has no text.\<close>

definition numberTokens :: "cssToken set" where
  "numberTokens = {Number, Percentage, Dimension}"

definition wellTyped :: "cssScanner \<Rightarrow> bool" where
  "wellTyped s \<longleftrightarrow>
     (if scToken s \<in> numberTokens then scTypeFlag s \<in> {TypeFlagInteger, TypeFlagNumber}
      else scTypeFlag s = TypeFlagNone) \<and>
     (if scToken s = Dimension then suffix (scUnit s) (scLiteral s) else scUnit s = []) \<and>
     (scToken s \<noteq> UnicodeRange \<longrightarrow> scRangeStart s = 0 \<and> scRangeEnd s = 0) \<and>
     unat (scRangeStart s) < 2 ^ 24 \<and> unat (scRangeEnd s) < 2 ^ 24 \<and>
     (scToken s \<in> {BadString, BadURL} \<longrightarrow> scLiteral s = [])"

abbreviation noExtras :: "cssScanner \<Rightarrow> bool" where
  "noExtras s \<equiv> extras s = (TypeFlagNone, [], 0, 0)"

lemma plain_typed:
  "noExtras s \<Longrightarrow> scToken s \<notin> numberTokens \<Longrightarrow> scToken s \<in> {BadString, BadURL} \<longrightarrow> scLiteral s = [] \<Longrightarrow> wellTyped s"
  by (auto simp: wellTyped_def extras_def numberTokens_def)

text \<open>Strings and URLs.\<close>

definition cleared :: "cssToken \<Rightarrow> cssScanner \<Rightarrow> bool" where
  "cleared t s \<longleftrightarrow> scToken s = t \<and> t \<noteq> BadString \<and> t \<noteq> BadURL \<or> scToken s \<in> {BadString, BadURL} \<and> scLiteral s = []"

lemma badString_cleared: "cleared t (scError m (badString s))"
  by (simp add: cleared_def badString_def scError_def updatePos_def Pos_def)

lemma stringLoop_typed:
  "scToken s = t \<Longrightarrow> t \<noteq> BadString \<Longrightarrow> t \<noteq> BadURL \<Longrightarrow> cleared t (stringLoop q s)"
proof (induction s rule: measure_induct_rule [of leftS])
  case (less s)
  obtain c s1 where g: "getc s = (c, s1)" by fastforce
  have t: "scToken s1 = t" using token.keep_getc [OF g, of t] less.prems(1) by simp
  then have "scToken (stringEscape s1) = t" by (rule token.keep_stringEscape)
  moreover have "scToken (addVal c (addLit c s1)) = t" "cleared t (addLit q s1)"
    using t less.prems by (simp_all add: addVal_def addLit_def cleared_def)
  ultimately show ?case
    using g less.prems less.IH [of "stringEscape s1"] less.IH [of "addVal c (addLit c s1)"] getc_less [OF g]
      left_stringEscape [of s1] badString_cleared [of t _ s1]
    by (subst stringLoop.simps) (cases "c = -1"; simp)
qed

lemma stringC_typed: "scToken s = t \<Longrightarrow> t \<noteq> BadString \<Longrightarrow> t \<noteq> BadURL \<Longrightarrow> cleared t (stringC q s)"
  by (simp add: stringC_def stringLoop_typed addLit_def)

lemma badURLLoop_typed: "scToken s = BadURL \<Longrightarrow> cleared t (badURLLoop s)"
proof (induction s rule: measure_induct_rule [of leftS])
  case (less s)
  obtain c s1 p s2 where g: "getc s = (c, s1)" "peekc s1 = (p, s2)" by (metis prod.collapse)
  have t: "scToken s1 = BadURL" "scToken s2 = BadURL"
    using token.keep_getc [OF g(1), of BadURL] token.keep_peekc [OF g(2), of BadURL] less.prems by simp_all
  have "scToken (snd (escape (ungetc s2))) = BadURL"
    by (rule token.keep_escape [OF prod.collapse [symmetric]]) (simp add: t ungetc_def)
  moreover have "c \<noteq> -1 \<Longrightarrow> leftS s2 < leftS s" using getc_less [OF g(1)] left_peekc [OF g(2)] by simp
  moreover have "cleared t (s1\<lparr>scLiteral := []\<rparr>)" using t by (simp add: cleared_def)
  ultimately show ?case
    using g t less.IH [of "snd (escape (ungetc s2))"] less.IH [of s2] left_escape_again [OF g]
    by (subst badURLLoop.simps) (cases "c = -1"; cases "isEscape c p"; simp)
qed

lemma badURL_typed: "cleared t (badURLRemnants s)"
  by (simp add: badURLRemnants_def badURLLoop_typed)

lemma urlLoop_typed: "scToken s = URL \<Longrightarrow> cleared URL (urlLoop c s)"
proof (induction "(c, s)" arbitrary: c s rule: measure_induct_rule [of held1])
  case (less c0 s0)
  obtain c s where w: "skipWS c0 s0 = (c, s)" by fastforce
  obtain p s1 e s2 c1 s3 d s4 where g: "peekc s = (p, s1)" "escape (addLit rBSL s1) = (e, s2)"
      "getc (addVal e s2) = (c1, s3)" "getc (addVal c (addLit c s)) = (d, s4)" by (metis prod.collapse)
  have t: "scToken s = URL" "scToken s1 = URL" "scToken s2 = URL" "scToken s3 = URL" "scToken s4 = URL"
    using less.prems token.keep_skipWS [OF w, of URL] token.keep_peekc [OF g(1), of URL]
      token.keep_escape [OF g(2), of URL] token.keep_getc [OF g(3), of URL] token.keep_getc [OF g(4), of URL]
    by (simp_all add: addVal_def addLit_def)
  have l2: "leftS s2 \<le> leftS s" using left_peekc [OF g(1)] left_escape [OF g(2)] by simp
  have "c \<noteq> -1 \<Longrightarrow> cleared URL (urlLoop c1 s3)" "c \<noteq> -1 \<Longrightarrow> cleared URL (urlLoop d s4)"
    using less.hyps [of c1 s3] less.hyps [of d s4] held1_turn [OF w _ _ g(3)] held1_turn [OF w _ _ g(4)] l2 t
    by simp_all
  moreover have "cleared URL s" "cleared URL (addLit rRParen s)" using t by (simp_all add: cleared_def addLit_def)
  ultimately show ?case using w g by (subst urlLoop.simps) (simp add: Let_def badURL_typed)
qed

lemma url_typed: "cleared URL (url s)"
proof -
  obtain c0 s1 c s2 where g: "getc (s\<lparr>scToken := URL\<rparr>) = (c0, s1)" "skipWS c0 s1 = (c, s2)" by (metis prod.collapse)
  obtain d0 s3 d s4 where h: "getc ((stringC c s2)\<lparr>scToken := URL\<rparr>) = (d0, s3)" "skipWS d0 s3 = (d, s4)"
    by (metis prod.collapse)
  have t: "scToken s2 = URL" "scToken s4 = URL"
    using token.keep_getc [OF g(1), of URL] token.keep_skipWS [OF g(2), of URL]
      token.keep_getc [OF h(1), of URL] token.keep_skipWS [OF h(2), of URL] by simp_all
  show ?thesis
  proof (cases "c = -1 \<or> c \<noteq> rDQ \<and> c \<noteq> rSQ")
    case True
    then show ?thesis using t g urlLoop_typed by (auto simp: url_def cleared_def)
  next
    case False
    then have "url s = (if scToken (stringC c s2) = BadString then badURLRemnants (stringC c s2)
        else if d = rRParen then addLit rRParen s4 else badURLRemnants (ungetc s4))"
      using g h by (auto simp: url_def Let_def)
    then show ?thesis using t(2) by (simp add: badURL_typed) (simp add: cleared_def addLit_def)
  qed
qed

text \<open>Numbers.\<close>

definition numExtras :: "typeFlag \<times> bytes \<times> u32 \<times> u32 \<Rightarrow> bool" where
  "numExtras x \<longleftrightarrow> (case x of (f, u, lo, hi) \<Rightarrow> f \<in> {TypeFlagInteger, TypeFlagNumber} \<and> u = [] \<and> lo = 0 \<and> hi = 0)"

lemma extras_fields [simp]:
  "extras (addLit c s) = extras s" "extras (s\<lparr>scToken := t\<rparr>) = extras s" "extras (ungetc s) = extras s"
  "extras (s\<lparr>scTypeFlag := f\<rparr>) = (f, snd (extras s))" "extras (delim c s) = extras s"
  by (simp_all add: extras_def addLit_def ungetc_def delim_def)

lemma extras_snd_getc [simp]: "extras (snd (getc s)) = extras s"
  by (rule extras.inv_getc) simp

lemma extras_of:
  "getc s = (c, s1) \<Longrightarrow> extras s1 = extras s" "peekc s = (c, s1) \<Longrightarrow> extras s1 = extras s"
  "digits d s = (c, s1) \<Longrightarrow> extras s1 = extras s"
  using extras.keep_getc extras.keep_peekc extras.keep_digits by blast+

lemma extras_peeks: "peeks k s = (cs, s1) \<Longrightarrow> k < 20 \<Longrightarrow> extras s1 = extras s"
  using extras.keep_peeks by blast

lemma fraction_typed: "fraction c s = (c', s') \<Longrightarrow> numExtras (extras s) \<Longrightarrow> numExtras (extras s')"
  by (auto simp: fraction_def numExtras_def Let_def dest!: extras_of split: prod.splits if_splits)

lemma exponent_typed: "exponent c s = (c', s') \<Longrightarrow> numExtras (extras s) \<Longrightarrow> numExtras (extras s')"
  by (auto simp: exponent_def numExtras_def Let_def dest!: extras_of extras_peeks split: prod.splits if_splits)

lemma number_typed:
  assumes "noExtras s"
  shows "numExtras (extras (number c s))"
proof -
  let ?s1 = "s\<lparr>scToken := Number, scTypeFlag := TypeFlagInteger\<rparr>"
  obtain c1 s2 where a: "(if c = rPlus \<or> c = rMinus then getc (addLit c ?s1) else (c, ?s1)) = (c1, s2)" by fastforce
  obtain c2 s3 c3 s4 c4 s5 where g: "digits c1 s2 = (c2, s3)" "fraction c2 s3 = (c3, s4)" "exponent c3 s4 = (c4, s5)"
    by (metis prod.collapse)
  have "numExtras (extras ?s1)" using assms by (simp add: numExtras_def extras_def)
  moreover have "extras s2 = extras ?s1" using a extras_of(1) [of "addLit c ?s1"] by (auto split: if_splits)
  ultimately have "numExtras (extras s3)" using extras_of(3) [OF g(1)] by simp
  then have "numExtras (extras s5)" using fraction_typed [OF g(2)] exponent_typed [OF g(3)] by simp
  then show ?thesis using a g by (simp add: number_def Let_def)
qed

lemma numeric_typed:
  assumes "noExtras s"
  shows "wellTyped (numeric c s)"
proof -
  obtain p s1 where p: "peeks 3 (number c s) = (p, s1)" by fastforce
  have e: "numExtras (extras s1)" using number_typed [OF assms] extras_peeks [OF p] by simp
  have n: "extras (name (s1\<lparr>scToken := Dimension\<rparr>)) = extras s1" by (rule extras.keep_name) simp
  have d: "scToken (name (s1\<lparr>scToken := Dimension\<rparr>)) = Dimension" by (rule token.keep_name) simp
  have q: "extras (snd (getc (addLit rPercent (s1\<lparr>scToken := Percentage\<rparr>)))) = extras s1" by simp
  have r: "scToken (snd (getc (addLit rPercent (s1\<lparr>scToken := Percentage\<rparr>)))) = Percentage"
    by (rule token.inv_getc) (simp add: addLit_def)
  have typed: "wellTyped t" if "numExtras (extras t)" "scToken t \<in> {Number, Percentage}" for t
    using that by (auto simp: wellTyped_def numExtras_def extras_def numberTokens_def)
  have dim: "wellTyped (t\<lparr>scValue := [], scUnit := drop k (scLiteral t)\<rparr>)"
    if "numExtras (extras t)" "scToken t = Dimension" for t k
    using that by (auto simp: wellTyped_def numExtras_def extras_def numberTokens_def suffix_drop)
  show ?thesis
    using e n d q r dim [of "name (s1\<lparr>scToken := Dimension\<rparr>)"] typed [of "s1\<lparr>scToken := Number\<rparr>"]
      typed [of "snd (getc (addLit rPercent (s1\<lparr>scToken := Percentage\<rparr>)))"]
    by (simp add: numeric_def p Let_def)
qed

text \<open>Ranges: \<open>n\<close> hexadecimal digits fill \<open>4 * n\<close> bits.\<close>

lemma take_bit_small: "unat (x :: u32) < 2 ^ n \<Longrightarrow> take_bit n x = x"
proof -
  assume "unat x < 2 ^ n"
  then have "unat (take_bit n x) = unat x" by (simp add: unsigned_take_bit_eq take_bit_nat_eq_self)
  then show ?thesis by (simp add: word_unat_eq_iff)
qed

lemma hex_digit_bits:
  assumes "take_bit (4 * n) (d :: u32) = d" "m < 16"
  shows "take_bit (4 * Suc n) (or (push_bit 4 d) (of_nat m)) = or (push_bit 4 d) (of_nat m)"
proof -
  have "unat (of_nat m :: u32) = m" using assms(2) by (intro unat_of_nat_u32) simp
  moreover have "m < 2 ^ (4 * Suc n)" using assms(2) by (rule less_le_trans) (simp add: power_add)
  ultimately have "take_bit (4 * Suc n) (of_nat m :: u32) = of_nat m" by (intro take_bit_small) simp
  moreover have "take_bit (4 * Suc n) (push_bit 4 d) = push_bit 4 d" using assms(1) by (simp add: take_bit_push_bit)
  ultimately show ?thesis by (simp only: take_bit_or)
qed

lemma asHex_less: "asHex c = (m, ok) \<Longrightarrow> m < 16"
  by (auto simp: asHex_def split: if_splits)

lemma hexLoop_bits:
  "hexLoop k d n s = (d', n', s') \<Longrightarrow> take_bit (4 * n) d = d \<Longrightarrow> take_bit (4 * n') d' = d' \<and> n' \<le> n + k"
proof (induction k arbitrary: d n s)
  case 0
  then show ?case by simp
next
  case (Suc k)
  obtain c s1 m ok c1 s2 where g: "peekc s = (c, s1)" "asHex c = (m, ok)" "getc s1 = (c1, s2)" by (metis prod.collapse)
  show ?case using Suc.prems(1) Suc.IH [of "or (push_bit 4 d) (of_nat m)" "Suc n" "addLit c1 s2"] g
      hex_digit_bits [OF Suc.prems(2) asHex_less [OF g(2)]] Suc.prems(2)
    by (auto simp: Let_def simp del: mult_Suc_right split: if_splits)
qed

lemma hex_bits: "hex k s = (d, n, s') \<Longrightarrow> take_bit (4 * n) d = d \<and> n \<le> k"
  using hexLoop_bits [of k 0 0 s d n s'] by (simp add: hex_def)

lemma widen_bits:
  "widen k (lo, hi) = (lo', hi') \<Longrightarrow> take_bit (4 * n) lo = lo \<Longrightarrow> take_bit (4 * n) hi = hi \<Longrightarrow>
   take_bit (4 * (n + k)) lo' = lo' \<and> take_bit (4 * (n + k)) hi' = hi'"
proof (induction k arbitrary: lo hi n)
  case 0
  then show ?case by simp
next
  case (Suc k)
  have "take_bit (4 * Suc n) (push_bit 4 lo) = push_bit 4 lo" using Suc.prems(2) by (simp add: take_bit_push_bit)
  moreover have "take_bit (4 * Suc n) (or (push_bit 4 hi) 0xF) = or (push_bit 4 hi) 0xF"
    using hex_digit_bits [OF Suc.prems(3), of 15] by simp
  ultimately show ?case using Suc.IH [of "push_bit 4 lo" "or (push_bit 4 hi) 0xF" "Suc n"] Suc.prems(1)
    by (simp del: mult_Suc_right)
qed

lemma take_bit_bound: "take_bit n (d :: u32) = d \<Longrightarrow> n \<le> 24 \<Longrightarrow> unat d < 2 ^ 24"
proof -
  assume d: "take_bit n d = d" and n: "n \<le> 24"
  have "unat d = take_bit n (unat d)" using d by (metis unsigned_take_bit_eq)
  also have "\<dots> < 2 ^ n" by (rule take_bit_nat_less_exp)
  also have "\<dots> \<le> 2 ^ 24" using n by (rule power_increasing) simp
  finally show ?thesis .
qed

lemma questions_le: "questions k n s = (n', s') \<Longrightarrow> n' \<le> n + k"
proof (induction k arbitrary: n s)
  case 0
  then show ?case by simp
next
  case (Suc k)
  then show ?case by (fastforce simp: Let_def split: prod.splits if_splits)
qed

lemma questions_extras: "questions k n s = (n', s') \<Longrightarrow> extras s' = extras s"
proof (induction k arbitrary: n s)
  case 0
  then show ?case by simp
next
  case (Suc k)
  then show ?case by (fastforce simp: Let_def dest: extras_of split: prod.splits if_splits)
qed

lemma unicodeRange_typed:
  assumes "noExtras s"
  shows "wellTyped (unicodeRange s)"
proof -
  obtain d i s1 n s2 where g: "hex 6 s = (d, i, s1)" "questions (6 - i) 0 s1 = (n, s2)" by (metis prod_cases3 prod.collapse)
  obtain lo hi where w: "widen n (d, d) = (lo, hi)" by fastforce
  obtain p s4 c s5 e k s6 where h: "peeks 2 (s2\<lparr>scRangeStart := d\<rparr>) = (p, s4)" "getc s4 = (c, s5)"
      "hex 6 (addLit c s5) = (e, k, s6)" by (metis prod_cases3 prod.collapse)
  note hb = hex_bits [OF g(1)] hex_bits [OF h(3)]
  have i: "i + n \<le> 6" using hb(1) questions_le [OF g(2)] by linarith
  have d: "unat d < 2 ^ 24" "unat e < 2 ^ 24" using take_bit_bound [of "4 * i" d] take_bit_bound [of "4 * k" e] hb by simp_all
  have lohi: "unat lo < 2 ^ 24" "unat hi < 2 ^ 24"
    using take_bit_bound [of "4 * (i + n)"] widen_bits [OF w, of i] hb(1) i by simp_all
  have x2: "extras s2 = (TypeFlagNone, [], 0, 0)"
    using assms extras.keep_hex [OF g(1), of "extras s"] questions_extras [OF g(2)] by simp
  then have "extras (s2\<lparr>scRangeStart := d\<rparr>) = (TypeFlagNone, [], d, 0)" by (simp add: extras_def)
  then have x4: "extras s4 = (TypeFlagNone, [], d, 0)" using extras_peeks [OF h(1)] by simp
  have x6: "extras s6 = (TypeFlagNone, [], d, 0)"
    using x4 extras_of(1) [OF h(2)] extras.keep_hex [OF h(3), of "extras s5"] by simp
  show ?thesis
    using d lohi x2 x4 x6
    by (auto simp: unicodeRange_def g w h Let_def wellTyped_def extras_def numberTokens_def)
qed

text \<open>The other cases.\<close>

lemma simple_typed:
  "noExtras s \<Longrightarrow> scToken s \<notin> numberTokens \<union> {BadString, BadURL} \<Longrightarrow> wellTyped s"
  by (auto intro: plain_typed)

lemma cleared_typed: "noExtras s \<Longrightarrow> cleared t s \<Longrightarrow> t \<notin> numberTokens \<Longrightarrow> wellTyped s"
  by (rule plain_typed) (auto simp: cleared_def numberTokens_def)

lemma identLike_typed: "noExtras s \<Longrightarrow> wellTyped (identLike s)"
proof -
  assume "noExtras s"
  then have x: "noExtras (identLike s)" by (rule extras.keep_identLike)
  have "cleared URL (identLike s) \<or> scToken (identLike s) \<in> {Function, Ident}"
    using url_typed by (auto simp: identLike_def Let_def split: prod.splits)
  then show ?thesis using x cleared_typed [of "identLike s" URL] simple_typed by (auto simp: numberTokens_def)
qed

lemma name_token [simp]: "scToken (name s) = scToken s"
  by (rule token.keep_name) (rule refl)

lemma token_of:
  "scToken (hash s) \<in> {Hash, Delim}" "scToken (caseLess s) \<in> {CDO, Delim}" "scToken (caseAt s) \<in> {AtKeyword, Delim}"
  "scToken (caseBar s) \<in> {DashMatch, Column, Delim}" "scToken (matchOrDelim k m s) \<in> {m, Delim}"
  "scToken (delim k s) = Delim"
  by (simp_all add: hash_def caseLess_def caseAt_def caseBar_def matchOrDelim_def delim_def Let_def case_prod_unfold)

lemma plain_cases_typed:
  assumes x: "noExtras s"
  shows "wellTyped (hash s)" "wellTyped (caseLess s)" "wellTyped (caseAt s)" "wellTyped (caseBar s)"
    "wellTyped (delim k s)" "m \<notin> numberTokens \<union> {BadString, BadURL} \<Longrightarrow> wellTyped (matchOrDelim k m s)"
    "wellTyped (stringC q (s\<lparr>scToken := String\<rparr>))"
proof -
  have n: "noExtras (hash s)" "noExtras (caseLess s)" "noExtras (caseAt s)" "noExtras (caseBar s)"
      "noExtras (delim k s)" "noExtras (matchOrDelim k m s)"
    using x by (simp_all add: extras.keep_hash extras.keep_caseLess extras.keep_caseAt extras.keep_caseBar extras.keep_match)
  note t = token_of [where s = s]
  show "wellTyped (hash s)" using n(1) t(1) by (intro simple_typed) (auto simp: numberTokens_def)
  show "wellTyped (caseLess s)" using n(2) t(2) by (intro simple_typed) (auto simp: numberTokens_def)
  show "wellTyped (caseAt s)" using n(3) t(3) by (intro simple_typed) (auto simp: numberTokens_def)
  show "wellTyped (caseBar s)" using n(4) t(4) by (intro simple_typed) (auto simp: numberTokens_def)
  show "wellTyped (delim k s)" using n(5) t(6) by (intro simple_typed) (auto simp: numberTokens_def)
  show "m \<notin> numberTokens \<union> {BadString, BadURL} \<Longrightarrow> wellTyped (matchOrDelim k m s)"
    using n(6) t(5) [of k m] by (intro simple_typed) (auto simp: numberTokens_def)
  have "noExtras (stringC q (s\<lparr>scToken := String\<rparr>))" using x by (simp add: extras.keep_stringC)
  then show "wellTyped (stringC q (s\<lparr>scToken := String\<rparr>))"
    using cleared_typed [OF _ stringC_typed [of "s\<lparr>scToken := String\<rparr>" String q]] by (simp add: numberTokens_def)
qed

lemma read_cases_typed:
  assumes x: "noExtras s"
  shows "wellTyped (casePlus s)" "wellTyped (caseMinus s)" "wellTyped (caseBackslash s)" "wellTyped (caseU c s)"
    "wellTyped (caseDot c s)"
proof -
  obtain d s1 p s2 where g: "getc s = (d, s1)" "peekc s1 = (p, s2)" by (metis prod.collapse)
  have "noExtras s2" using x extras_of(1) [OF g(1)] extras_of(2) [OF g(2)] by simp
  then show "wellTyped (casePlus s)"
    using numeric_typed [of "ungetc s2" rPlus] plain_cases_typed(5) [of s2 rPlus] by (simp add: casePlus_def g)
  obtain q s3 where h: "peeks 3 s = (q, s3)" by fastforce
  have x3: "noExtras s3" using x extras_peeks [OF h] by simp
  have "noExtras ((snd (getc (snd (getc s3))))\<lparr>scToken := CDC\<rparr>)" using x3 by simp
  then have "wellTyped ((snd (getc (snd (getc s3))))\<lparr>scToken := CDC\<rparr>)"
    by (rule simple_typed) (simp add: numberTokens_def)
  then show "wellTyped (caseMinus s)"
    using x3 numeric_typed [of s3 rMinus] identLike_typed [of "ungetc s3"] plain_cases_typed(5) [of s3 rMinus]
    by (simp add: caseMinus_def h)
  obtain q s4 where h: "peekc s = (q, s4)" by fastforce
  have x4: "noExtras s4" using x extras_of(2) [OF h] by simp
  have "noExtras (scError m s4)" for m using x4 by (simp add: extras_def scError_def)
  from plain_cases_typed(5) [OF this]
  show "wellTyped (caseBackslash s)" using x4 identLike_typed [of "ungetc s4"] by (simp add: caseBackslash_def h)
  show "wellTyped (caseDot c s)"
    using numeric_typed [OF x4, of c] plain_cases_typed(5) [OF x4, of rDot] by (simp add: caseDot_def h)
  obtain q s5 d s6 where h: "peeks 2 s = (q, s5)" "getc (addLit c s5) = (d, s6)" by (metis prod.collapse)
  have "noExtras s5" "noExtras (addLit d s6)" using x extras_peeks [OF h(1)] extras_of(1) [OF h(2)] by simp_all
  then show "wellTyped (caseU c s)"
    using identLike_typed [of "ungetc s5"] unicodeRange_typed [of "addLit d s6"] by (simp add: caseU_def h)
qed

lemma switch_typed:
  assumes x: "noExtras s"
  shows "wellTyped (switch c s)"
proof -
  have "extras (scError m s) = extras s" for m by (simp add: extras_def scError_def)
  then have e: "wellTyped (caseEnd s)"
    using x by (intro simple_typed) (simp_all add: caseEnd_def Let_def numberTokens_def split: option.split rdErr.split)
  have single: "wellTyped (s\<lparr>scToken := k\<rparr>)" if "k \<notin> numberTokens \<union> {BadString, BadURL}" for k
    using x that by (intro simple_typed) simp_all
  have ident: "wellTyped (identLike (ungetc s))" using identLike_typed [of "ungetc s"] x by simp
  show ?thesis
    unfolding switch_def
    by (simp add: e single ident plain_cases_typed [OF x] read_cases_typed [OF x] numeric_typed [OF x] numberTokens_def)
qed

lemma redo_typed: "noExtras s \<Longrightarrow> wellTyped (redo s)"
proof (induction s rule: measure_induct_rule [of leftS])
  case (less s)
  obtain c0 s0 c s1 p s2 where g: "getc (updatePos s) = (c0, s0)" "skipSpace c0 s0 = (c, s1)" "peekc s1 = (p, s2)"
    by (metis prod.collapse)
  have x: "noExtras s1" "noExtras s2"
    using less.prems extras.inv_pos [of s] extras_of(1) [OF g(1)] extras.keep_skipSpace [OF g(2), of "extras s0"]
      extras_of(2) [OF g(3)] by simp_all
  have "noExtras (skipComment (snd (getc s2)))" using x by (simp add: extras.keep_skipComment)
  moreover have "c = rSlash \<Longrightarrow> leftS (skipComment (snd (getc s2))) < leftS s"
    using held1_getc [OF g(1)] left_skipSpace [OF g(2)] left_peekc [OF g(3)] left_snd_getc [of s2]
      left_skipComment [of "snd (getc s2)"] by simp
  ultimately show ?case
    using g x less.IH switch_typed [OF x(1)] plain_cases_typed(5) [OF x(2)]
    by (subst redo.simps) (simp add: Let_def)
qed


end
