(* ===== verification/CssParser.thy ===== *)
theory CssParser
  imports CssScannerProps
begin

text \<open>
  CSS declarations (\<open>html/css/parser.go\<close>) and their printing (\<open>html/css/format.go\<close>). The parser is its
  scanner: \<open>p.s\<close> is passed through. A number that \<open>strconv\<close> refuses is the outcome \<open>Panic\<close>.

  A \<open>float64\<close> is its 64 bits. Which number rounds to which, and how it is printed, is the parameter
  \<open>floatLib\<close> (\<open>strconv\<close>); the decimal syntax that \<open>ParseFloat\<close> accepts is \<open>decimalOf\<close>.
\<close>

subsection \<open>Numbers\<close>

record floatLib =
  flRound :: "bool \<Rightarrow> nat \<Rightarrow> int \<Rightarrow> u64 option"
  flOfInt :: "int \<Rightarrow> u64"
  flFormat :: "u64 \<Rightarrow> bytes"

text \<open>A sign, and the digits with the scale: \<open>(neg, m, e)\<close> is the number m * 10^e.\<close>

definition signOf :: "bytes \<Rightarrow> bool \<times> bytes" where
  "signOf s = (case s of c # t \<Rightarrow> if c = CHR ''-'' then (True, t) else if c = CHR ''+'' then (False, t) else (False, s)
               | [] \<Rightarrow> (False, []))"

definition exponentOf :: "bytes \<Rightarrow> int option" where
  "exponentOf s =
     (case s of
        [] \<Rightarrow> Some 0
      | c # t \<Rightarrow>
          if c = CHR ''e'' \<or> c = CHR ''E'' then
            (let (neg, ds) = signOf t in
             if ds \<noteq> [] \<and> list_all isDigit ds then Some (if neg then - int (decVal ds) else int (decVal ds)) else None)
          else None)"

definition decimalOf :: "bytes \<Rightarrow> (bool \<times> nat \<times> int) option" where
  "decimalOf s =
     (let (neg, s1) = signOf s;
          ip = takeWhile isDigit s1;
          s2 = dropWhile isDigit s1;
          (fp, s3) = (case s2 of c # t \<Rightarrow> if c = CHR ''.'' then (takeWhile isDigit t, dropWhile isDigit t) else ([], s2)
                      | [] \<Rightarrow> ([], [])) in
      if ip @ fp = [] then None
      else map_option (\<lambda>e. (neg, decVal (ip @ fp), e - int (length fp))) (exponentOf s3))"

text \<open>\<open>strconv.ParseFloat(s, 64)\<close>: \<open>None\<close> is a syntax or a range error.\<close>

definition ParseFloat :: "floatLib \<Rightarrow> bytes \<Rightarrow> u64 option" where
  "ParseFloat fl s = (case decimalOf s of None \<Rightarrow> None | Some (neg, m, e) \<Rightarrow> flRound fl neg m e)"

subsection \<open>Declarations\<close>

datatype ValueType =
    ValueUnknown | ValueIdent | ValueFunction | ValueHash | ValueHashID | ValueString | ValueURL | ValueDelim
  | ValueNumber | ValueInteger | ValuePercentage | ValueDimension | ValueUnicodeRange | ValueIncludeMatch
  | ValueDashMatch | ValuePrefixMatch | ValueSuffixMatch | ValueSubstringMatch | ValueComma

record cssValue =
  vPos :: "int \<times> int"
  vType :: ValueType
  vRaw :: bytes
  vNumber :: u64
  vValue :: bytes

record cssDecl =
  dPos :: "int \<times> int"
  dProperty :: bytes
  dPropertyRaw :: bytes
  dValues :: "cssValue list"
  dBangImportant :: bool

text \<open>\<open>Decl.clear\<close>: what a declaration is before it is parsed.\<close>

definition clearDecl :: cssDecl where
  "clearDecl = \<lparr>dPos = (0, 0), dProperty = [], dPropertyRaw = [], dValues = [], dBangImportant = False\<rparr>"

text \<open>\<open>bytes.TrimSuffix\<close>\<close>

definition trimSuffix :: "bytes \<Rightarrow> bytes \<Rightarrow> bytes" where
  "trimSuffix s t = (if suffix t s then take (length s - length t) s else s)"

definition orPanic :: "string \<Rightarrow> bytes \<Rightarrow> ValueType \<Rightarrow> u64 option \<Rightarrow> (ValueType \<times> u64) go" where
  "orPanic msg lit t v = (case v of None \<Rightarrow> Panic (msg @ lit) | Some x \<Rightarrow> Ok (t, x))"

definition valueType :: "floatLib \<Rightarrow> cssScanner \<Rightarrow> (ValueType \<times> u64) go" where
  "valueType fl s =
     (let lit = scLiteral s in
      case scToken s of
        Ident \<Rightarrow> Ok (ValueIdent, 0)
      | Function \<Rightarrow> Ok (ValueFunction, 0)
      | Hash \<Rightarrow> Ok (ValueHash, 0)
      | String \<Rightarrow> Ok (ValueString, 0)
      | URL \<Rightarrow> Ok (ValueURL, 0)
      | Delim \<Rightarrow> Ok (ValueDelim, 0)
      | RightParen \<Rightarrow> Ok (ValueDelim, 0)
      | Number \<Rightarrow>
          if scTypeFlag s = TypeFlagInteger then
            (case ParseInt64 lit of
               Inl _ \<Rightarrow> Panic (''invalid integer: '' @ lit)
             | Inr v \<Rightarrow> Ok (ValueInteger, flOfInt fl v))
          else orPanic ''invalid float: '' lit ValueNumber (ParseFloat fl lit)
      | Percentage \<Rightarrow>
          (let b = (if lit \<noteq> [] \<and> last lit = CHR ''%'' then butlast lit else lit) in
           orPanic ''invalid percentage: '' lit ValuePercentage (ParseFloat fl b))
      | Dimension \<Rightarrow>
          orPanic ''invalid dimension: '' lit ValueDimension (ParseFloat fl (trimSuffix lit (scUnit s)))
      | UnicodeRange \<Rightarrow> Ok (ValueUnicodeRange, 0)
      | IncludeMatch \<Rightarrow> Ok (ValueIncludeMatch, 0)
      | DashMatch \<Rightarrow> Ok (ValueDashMatch, 0)
      | PrefixMatch \<Rightarrow> Ok (ValuePrefixMatch, 0)
      | SuffixMatch \<Rightarrow> Ok (ValueSuffixMatch, 0)
      | SubstringMatch \<Rightarrow> Ok (ValueSubstringMatch, 0)
      | Comma \<Rightarrow> Ok (ValueComma, 0)
      | _ \<Rightarrow> Ok (ValueUnknown, 0))"

text \<open>The body of the loop of \<open>parseDecl\<close>: the value of the current token.\<close>

definition valueOf :: "cssScanner \<Rightarrow> ValueType \<Rightarrow> u64 \<Rightarrow> cssValue" where
  "valueOf s t n =
     \<lparr>vPos = (scLine s, scCol s), vType = t, vRaw = scLiteral s, vNumber = n,
      vValue = (if t = ValueDimension then scUnit s
                else if scToken s = RightParen then '')''
                else if t = ValueDelim then scLiteral s
                else if t = ValueUnicodeRange then scLiteral s
                else scValue s)\<rparr>"

text \<open>What is left, for loops that end at \<open>EOF\<close>.\<close>

definition toScan :: "cssScanner \<Rightarrow> nat" where
  "toScan s = (if scToken s = EOF then 0 else Suc (leftS s))"

lemma toScan_Next: "scToken s \<noteq> EOF \<Longrightarrow> toScan (NextCss s) < toScan s"
  using Next_progress [of s] by (auto simp: toScan_def)

function parseValues :: "floatLib \<Rightarrow> cssDecl \<Rightarrow> cssScanner \<Rightarrow> (bool \<times> cssDecl \<times> cssScanner) go" where
  "parseValues fl d s =
     (if scToken s = EOF \<or> scToken s = Semicolon then Ok (True, d, s)
      else
        (case valueType fl s of
           Panic m \<Rightarrow> Panic m
         | Fail e \<Rightarrow> Fail e
         | Ok (t, n) \<Rightarrow> parseValues fl (d\<lparr>dValues := dValues d @ [valueOf s t n]\<rparr>) (NextCss s)))"
  by pat_completeness auto
termination
  by (relation "measure (\<lambda>(fl, d, s). toScan s)") (auto simp: toScan_Next)

declare parseValues.simps [simp del]

definition parseDecl :: "floatLib \<Rightarrow> cssScanner \<Rightarrow> (bool \<times> cssDecl \<times> cssScanner) go" where
  "parseDecl fl s =
     (let d = clearDecl\<lparr>dPos := (scLine s, scCol s), dProperty := scValue s, dPropertyRaw := scLiteral s\<rparr>;
          s1 = NextCss s in
      if scToken s1 \<noteq> Colon then
        Ok (False, clearDecl, scError (''bad declaration: expecting '' @ [CHR 0x27, CHR '':'', CHR 0x27]) s1)
      else parseValues fl d (NextCss s1))"

text \<open>The loop of \<open>ParseDecl\<close> that skips to the end of an invalid declaration.\<close>

function skipDecl :: "cssScanner \<Rightarrow> cssScanner" where
  "skipDecl s =
     (let s1 = NextCss s in if scToken s1 = EOF \<or> scToken s1 = Semicolon then s1 else skipDecl s1)"
  by pat_completeness auto
termination
proof (relation "measure leftS", goal_cases)
  case (2 s s1)
  then show ?case using Next_progress [of s] by auto
qed simp

declare skipDecl.simps [simp del]

definition ParseDecl :: "floatLib \<Rightarrow> cssScanner \<Rightarrow> (bool \<times> cssDecl \<times> cssScanner) go" where
  "ParseDecl fl s0 =
     (let s = NextCss s0 in
      if scToken s = EOF \<or> scToken s = Semicolon then Ok (False, clearDecl, s)
      else if scToken s = Ident then parseDecl fl s
      else Ok (False, clearDecl, skipDecl (scError ''invalid token'' s)))"

text \<open>A declaration takes at least one byte.\<close>

lemma parseValues_le: "parseValues fl d s = Ok (b, d', s') \<Longrightarrow> leftS s' \<le> leftS s"
proof (induction fl d s rule: parseValues.induct)
  case (1 fl d s)
  show ?case
    using 1(1) 1(2) Next_le [of s] parseValues.simps [of fl d s]
    by (fastforce split: if_splits go.splits prod.splits)
qed

lemma ParseDecl_less: "ParseDecl fl s = Ok (True, d, s') \<Longrightarrow> leftS s' < leftS s"
proof -
  assume p: "ParseDecl fl s = Ok (True, d, s')"
  let ?s1 = "NextCss s" and ?s3 = "NextCss (NextCss (NextCss s))"
  have "scToken ?s1 = Ident" using p by (auto simp: ParseDecl_def Let_def split: if_splits)
  then have "leftS ?s1 < leftS s" using Next_progress [of s] by auto
  moreover have "leftS ?s3 \<le> leftS ?s1" using Next_le [of ?s1] Next_le [of "NextCss ?s1"] by simp
  moreover have "\<exists>d0. parseValues fl d0 ?s3 = Ok (True, d, s')"
    using p by (auto simp: ParseDecl_def parseDecl_def Let_def split: if_splits)
  ultimately show ?thesis using parseValues_le [of fl _ ?s3 True d s'] by fastforce
qed

subsection \<open>Printing\<close>

fun appendEscapedString :: "bytes \<Rightarrow> bytes \<Rightarrow> bytes" where
  "appendEscapedString dst [] = dst"
| "appendEscapedString dst (c # src) =
     appendEscapedString
       (if c = BSL then dst @ [BSL, BSL]
        else if c = LF then dst @ [BSL, LF]
        else if c = DQ then dst @ [BSL, DQ]
        else dst @ [c]) src"

definition AppendValue :: "floatLib \<Rightarrow> bytes \<Rightarrow> cssValue \<Rightarrow> bytes" where
  "AppendValue fl dst v =
     (case vType v of
        ValueIdent \<Rightarrow> appendEscapedString dst (vValue v)
      | ValueFunction \<Rightarrow> appendEscapedString dst (vValue v) @ ''(''
      | ValueHash \<Rightarrow> appendEscapedString (dst @ ''#'') (vValue v)
      | ValueHashID \<Rightarrow> appendEscapedString (dst @ ''#'') (vValue v)
      | ValueString \<Rightarrow> appendEscapedString (dst @ [DQ]) (vValue v) @ [DQ]
      | ValueURL \<Rightarrow> appendEscapedString (dst @ ''url('' @ [DQ]) (vValue v) @ [DQ] @ '')''
      | ValueDelim \<Rightarrow> appendEscapedString dst (vValue v)
      | ValueNumber \<Rightarrow> dst @ flFormat fl (vNumber v)
      | ValueInteger \<Rightarrow> dst @ flFormat fl (vNumber v)
      | ValuePercentage \<Rightarrow> dst @ flFormat fl (vNumber v) @ ''%''
      | ValueDimension \<Rightarrow> dst @ flFormat fl (vNumber v) @ vValue v
      | ValueUnicodeRange \<Rightarrow> dst @ vValue v
      | ValueIncludeMatch \<Rightarrow> dst @ ''~=''
      | ValueDashMatch \<Rightarrow> dst @ ''|=''
      | ValuePrefixMatch \<Rightarrow> dst @ ''^=''
      | ValueSuffixMatch \<Rightarrow> dst @ ''$=''
      | ValueSubstringMatch \<Rightarrow> dst @ ''*=''
      | ValueComma \<Rightarrow> dst @ '',''
      | ValueUnknown \<Rightarrow> dst)"

text \<open>The space before a value: none before a comma, a function or a delimiter, nor after the paren of a
  function, nor before the first value.\<close>

definition spaced :: "cssValue option \<Rightarrow> cssValue \<Rightarrow> bytes" where
  "spaced prev v =
     (case prev of
        None \<Rightarrow> []
      | Some p \<Rightarrow>
          if vType v \<in> {ValueComma, ValueFunction, ValueDelim} then []
          else if vType p = ValueFunction then []
          else '' '')"

fun appendValues :: "floatLib \<Rightarrow> bytes \<Rightarrow> cssValue option \<Rightarrow> cssValue list \<Rightarrow> bytes" where
  "appendValues fl dst prev [] = dst"
| "appendValues fl dst prev (v # vs) = appendValues fl (AppendValue fl (dst @ spaced prev v) v) (Some v) vs"

definition AppendDecl :: "floatLib \<Rightarrow> bytes \<Rightarrow> cssDecl \<Rightarrow> bytes" where
  "AppendDecl fl dst d = appendValues fl (appendEscapedString dst (dProperty d) @ '': '') None (dValues d) @ '';''"

end
