(* ===== verification/CssRuns.thy ===== *)
theory CssRuns
  imports CssParser
begin

text \<open>
  The scanner on given input. Under \<open>sound\<close>, which holds of every source a scanner has, each call of
  the reader is a rewriting step on the input that is left (the rules \<open>run\<close>); so a token is computed by
  simplification, for a concrete input or for one built of arbitrary texts.
\<close>

subsection \<open>Reading as rewriting\<close>

definition sound :: "sourceReader \<Rightarrow> bool" where
  "sound r \<longleftrightarrow> rReplaceNULL r \<and> (\<exists>S. tracks S r)"

text \<open>The first rune of the input, its bytes, and what follows them.\<close>

definition runeFst :: "bytes \<Rightarrow> int" where
  "runeFst w = fst (runeOf True w)"

definition runeTail :: "bytes \<Rightarrow> bytes" where
  "runeTail w = drop (snd (runeOf True w)) w"

definition runeHead :: "bytes \<Rightarrow> bytes \<Rightarrow> bytes" where
  "runeHead h w = (if w = [] then h else take (snd (runeOf True w)) w)"

named_theorems run "the scanner on known input, as rewrite rules"

lemma sound_GetRune:
  assumes "sound r"
  shows "sound (snd (GetRune r))" "rest (snd (GetRune r)) = runeTail (rest r)"
    "heldRune (snd (GetRune r)) = runeHead (heldRune r) (rest r)"
    "fst (GetRune r) = runeFst (rest r)"
proof -
  obtain c r1 S where g: "GetRune r = (c, r1)" and S: "tracks S r" and b: "rReplaceNULL r"
    using assms by (metis prod.collapse sound_def)
  note sp = GetRune_spec [OF tracks_le4 [OF S] g]
  have "c = -1 \<longleftrightarrow> rest r = []"
    using sp(1) runeAt_width [of "rest r"] by (auto simp: runeOf_def) (metis prod.collapse)
  then show "sound (snd (GetRune r))" "rest (snd (GetRune r)) = runeTail (rest r)"
    "heldRune (snd (GetRune r)) = runeHead (heldRune r) (rest r)"
    "fst (GetRune r) = runeFst (rest r)"
    using sp b tracks_GetRune [OF S g] heldRune_GetRune [OF S g] by (auto simp: g sound_def runeFst_def runeTail_def runeHead_def)
qed

lemma sound_PeekRune:
  assumes "sound r"
  shows "sound (snd (PeekRune r))" "rest (snd (PeekRune r)) = rest r" "heldRune (snd (PeekRune r)) = heldRune r"
    "fst (PeekRune r) = runeFst (rest r)"
proof -
  obtain c r1 S where g: "PeekRune r = (c, r1)" and S: "tracks S r" and b: "rReplaceNULL r"
    using assms by (metis prod.collapse sound_def)
  note sp = PeekRune_spec [OF tracks_le4 [OF S] g]
  show "sound (snd (PeekRune r))" "rest (snd (PeekRune r)) = rest r" "heldRune (snd (PeekRune r)) = heldRune r"
    "fst (PeekRune r) = runeFst (rest r)"
    using sp b tracks_PeekRune [OF S g] heldRune_ext [OF sp(4)] by (auto simp: g sound_def ext_def runeFst_def)
qed

fun peeked :: "nat \<Rightarrow> bytes \<Rightarrow> int list" where
  "peeked 0 w = []"
| "peeked (Suc k) w = runeFst w # peeked k (runeTail w)"

lemma runesOf_peeked: "runesOf k True w = peeked k w"
  by (induction k arbitrary: w) (simp_all add: runeFst_def runeTail_def)

lemma sound_PeekRunes:
  assumes "sound r" "k < 20"
  shows "sound (snd (PeekRunes k r))" "rest (snd (PeekRunes k r)) = rest r" "heldRune (snd (PeekRunes k r)) = heldRune r"
    "fst (PeekRunes k r) = peeked k (rest r)"
proof -
  obtain c r1 S where g: "PeekRunes k r = (c, r1)" and S: "tracks S r" and b: "rReplaceNULL r"
    using assms(1) by (metis prod.collapse sound_def)
  note sp = PeekRunes_spec [OF tracks_le4 [OF S] assms(2) g]
  show "sound (snd (PeekRunes k r))" "rest (snd (PeekRunes k r)) = rest r" "heldRune (snd (PeekRunes k r)) = heldRune r"
    "fst (PeekRunes k r) = peeked k (rest r)"
    using sp b tracks_PeekRunes [OF S assms(2) g] heldRune_ext [OF sp(4)] by (auto simp: g sound_def ext_def runesOf_peeked)
qed

lemma sound_UngetRune:
  assumes "sound r" "heldRune r \<noteq> []"
  shows "sound (UngetRune r)" "rest (UngetRune r) = heldRune r @ rest r" "heldRune (UngetRune r) = []"
proof -
  obtain S where S: "tracks S r" "rReplaceNULL r" using assms(1) by (auto simp: sound_def)
  have u: "0 < rLastRuneLen r" using heldRune_iff [OF S(1)] assms(2) by simp
  then have "rest (UngetRune r) = held r @ rest r" "heldRune (UngetRune r) = []"
    by (auto simp: UngetRune_def Let_def rest_def held_def heldRune_def)
  then show "rest (UngetRune r) = heldRune r @ rest r" "heldRune (UngetRune r) = []"
    using u by (simp_all add: heldRune_def)
  show "sound (UngetRune r)" using tracks_Unget [OF S(1) u] S(2) by (auto simp: sound_def replace_Unget)
qed

lemma sound_New:
  "sound (scSource (NewScanner src))" "rest (scSource (NewScanner src)) = pending src"
  "heldRune (scSource (NewScanner src)) = []"
  using tracks_New [of src True]
  by (auto simp: sound_def NewScanner_def rest_def heldRune_def SetReplaceNULL_def NewSourceReader_def)

lemma getc_run: "sound (scSource s) \<Longrightarrow>
    getc s = (runeFst (rest (scSource s)), s\<lparr>scSource := snd (GetRune (scSource s))\<rparr>)"
  by (simp add: getc_def case_prod_unfold sound_GetRune(4) Let_def)

lemma peekc_run: "sound (scSource s) \<Longrightarrow>
    peekc s = (runeFst (rest (scSource s)), s\<lparr>scSource := snd (PeekRune (scSource s))\<rparr>)"
  by (simp add: peekc_def case_prod_unfold sound_PeekRune(4) Let_def)

lemma peeks_run: "sound (scSource s) \<Longrightarrow> k < 20 \<Longrightarrow>
    peeks k s = (peeked k (rest (scSource s)), s\<lparr>scSource := snd (PeekRunes k (scSource s))\<rparr>)"
  by (simp add: peeks_def case_prod_unfold sound_PeekRunes(4) Let_def)

lemma rune_ascii:
  assumes "bval a < 128" "a \<noteq> NUL"
  shows "runeFst (a # w) = int (bval a)" "runeTail (a # w) = w" "runeHead h (a # w) = [a]"
  using assms bval_eq_iff [of a NUL]
  by (simp_all add: runeFst_def runeTail_def runeHead_def runeOf_def runeAt_def decodeRune_def)

lemma rune_rune:
  assumes "validRune r" "r \<noteq> 0"
  shows "runeFst (encodeRune r @ w) = int r" "runeTail (encodeRune r @ w) = w"
    "runeHead h (encodeRune r @ w) = encodeRune r"
  using assms by (simp_all add: runeFst_def runeTail_def runeHead_def runeOf_def runeAt_def decode_encodeRune)

lemma rune_Nil: "runeFst [] = -1" "runeTail [] = []" "runeHead h [] = h"
  by (simp_all add: runeFst_def runeTail_def runeHead_def runeOf_def)

lemma peeked_23: "peeked 2 w = [runeFst w, runeFst (runeTail w)]"
  "peeked 3 w = [runeFst w, runeFst (runeTail w), runeFst (runeTail (runeTail w))]"
  by (simp_all add: numeral_2_eq_2 numeral_3_eq_3)

lemmas [run] = sound_GetRune(1-3) sound_PeekRune(1-3) sound_PeekRunes(1-3) sound_UngetRune sound_New
  getc_run peekc_run peeks_run rune_ascii rune_rune rune_Nil peeked_23
  isDigitR_def isLetter_def isHex_def isNameStartCodePoint_def isNameCodePoint_def isNumber_def isEscape_def
  isNonPrintable_def isIdent_def isWhitespace_def asHex_def
  addLit_def addVal_def cssAppendRune_def runeBytes_def encodeRune_ascii ungetc_def delim_def

lemmas scanner_simps = NextCss_def clearToken_def redo.simps switch_def skipSpace.simps skipWS.simps name.simps
  identLike_def url_def numeric_def number_def digits.simps fraction_def exponent_def caseU_def caseMinus_def
  stringC_def urlLoop.simps badURLRemnants_def badURLLoop.simps stringEscape_def escape_def hex_def
  matchOrDelim_def hash_def updatePos_def Pos_def Let_def

text \<open>What a client sees of the scanner: the token, and the input that is left.\<close>

definition stands :: "cssScanner \<Rightarrow> bytes \<Rightarrow> bool" where
  "stands s w \<longleftrightarrow> sound (scSource s) \<and> rest (scSource s) = w"

definition emits :: "cssScanner \<Rightarrow> cssToken \<Rightarrow> bytes \<Rightarrow> bytes \<Rightarrow> bytes \<Rightarrow> bool" where
  "emits s t lit val w \<longleftrightarrow> scToken s = t \<and> scLiteral s = lit \<and> scValue s = val \<and> stands s w"

lemma stands_cons:
  "stands s (a # w) \<Longrightarrow> bval a < 128 \<Longrightarrow> a \<noteq> NUL \<Longrightarrow>
   stands (s\<lparr>scSource := snd (GetRune (scSource s))\<rparr>) w"
  by (simp add: stands_def run)

subsection \<open>Tokens\<close>

lemma emits_colon: "stands s (CHR '':'' # w) \<Longrightarrow> emits (NextCss s) Colon [] [] w"
  by (simp add: stands_def emits_def run scanner_simps)

lemma emits_semicolon: "stands s (CHR '';'' # w) \<Longrightarrow> emits (NextCss s) Semicolon [] [] w"
  by (simp add: stands_def emits_def run scanner_simps)

lemma emits_comma: "stands s (CHR '','' # w) \<Longrightarrow> emits (NextCss s) Comma [] [] w"
  by (simp add: stands_def emits_def run scanner_simps)

lemma emits_rparen: "stands s (CHR '')'' # w) \<Longrightarrow> emits (NextCss s) RightParen [] [] w"
  by (simp add: stands_def emits_def run scanner_simps)

lemma emits_EOF: "stands s [] \<Longrightarrow> scToken (NextCss s) = EOF \<and> stands (NextCss s) []"
  by (simp add: stands_def run scanner_simps caseEnd_def scError_def split: option.split rdErr.split)

text \<open>A space before a token is as if it were not there.\<close>

lemma Next_space:
  assumes "stands s (SP # w)"
  shows "\<exists>s'. stands s' w \<and> NextCss s = NextCss s'"
proof -
  let ?s' = "s\<lparr>scSource := snd (GetRune (scSource s))\<rparr>"
  have st: "stands ?s' w" using stands_cons [OF assms] by simp
  have "getc (updatePos (clearToken s)) = (32, updatePos (clearToken s)\<lparr>scSource := snd (GetRune (scSource s))\<rparr>)"
    using assms by (simp add: stands_def getc_run clearToken_def rune_ascii)
  moreover have "skipSpace 32 t = (let (c1, s1) = getc (updatePos t) in skipSpace c1 s1)" for t
    by (subst skipSpace.simps) (simp add: isWhitespace_def)
  moreover have "updatePos (updatePos (clearToken s)\<lparr>scSource := r\<rparr>) = updatePos (clearToken (s\<lparr>scSource := r\<rparr>))" for r
    by (simp add: updatePos_def clearToken_def Pos_def)
  ultimately have "NextCss s = NextCss ?s'"
    unfolding NextCss_def by (subst (1 2) redo.simps) (simp add: Let_def case_prod_unfold)
  with st show ?thesis by blast
qed

text \<open>Names: runes that \<open>name\<close> takes, before something it does not take.\<close>

definition nameRunes :: "nat list \<Rightarrow> bool" where
  "nameRunes ns \<longleftrightarrow> list_all (\<lambda>r. validRune r \<and> isNameCodePoint (int r)) ns"

definition endsName :: "bytes \<Rightarrow> bool" where
  "endsName w \<longleftrightarrow> w \<noteq> [] \<and> hd w \<in> {SP, CHR '','', CHR '';'', CHR '':'', CHR '')''}"

definition stopsName :: "bytes \<Rightarrow> bool" where
  "stopsName w \<longleftrightarrow> w \<noteq> [] \<and> hd w \<in> {SP, CHR '','', CHR '';'', CHR '':'', CHR '')'', CHR ''(''}"

lemma endsName_stops: "endsName w \<Longrightarrow> stopsName w"
  by (auto simp: endsName_def stopsName_def)

lemma stopsName_cases:
  assumes "stopsName w"
  obtains a v where "w = a # v" "bval a < 128" "a \<noteq> NUL" "\<not> isNameCodePoint (int (bval a))" "int (bval a) \<noteq> rBSL"
    "int (bval a) \<noteq> -1"
proof -
  obtain a v where w: "w = a # v" "a \<in> {SP, CHR '','', CHR '';'', CHR '':'', CHR '')'', CHR ''(''}"
    using assms by (cases w) (auto simp: stopsName_def)
  then show ?thesis
    by (intro that [of a v]) (auto simp: isNameCodePoint_def isNameStartCodePoint_def isLetter_def isDigitR_def)
qed

lemma endsName_cases:
  assumes "endsName w"
  obtains a v where "w = a # v" "bval a < 128" "a \<noteq> NUL" "\<not> isNameCodePoint (int (bval a))" "int (bval a) \<noteq> rBSL"
    "int (bval a) \<noteq> rPlus" "int (bval a) \<noteq> rLParen" "int (bval a) \<noteq> -1"
proof -
  obtain a v where w: "w = a # v" "a \<in> {SP, CHR '','', CHR '';'', CHR '':'', CHR '')''}"
    using assms by (cases w) (auto simp: endsName_def)
  then show ?thesis
    by (intro that [of a v]) (auto simp: isNameCodePoint_def isNameStartCodePoint_def isLetter_def isDigitR_def)
qed

lemma not_name_zero: "isNameCodePoint (int r) \<Longrightarrow> r \<noteq> 0"
  by (auto simp: isNameCodePoint_def isNameStartCodePoint_def isLetter_def isDigitR_def)

lemma name_run:
  "nameRunes ns \<Longrightarrow> sound (scSource s) \<Longrightarrow> rest (scSource s) = utf8 ns @ w \<Longrightarrow> stopsName w \<Longrightarrow>
   \<exists>r. name s = s\<lparr>scLiteral := scLiteral s @ utf8 ns, scValue := scValue s @ utf8 ns, scSource := r\<rparr> \<and>
     sound r \<and> rest r = w"
proof (induction ns arbitrary: s)
  case Nil
  from Nil.prems(4) obtain a v where w: "w = a # v" "bval a < 128" "a \<noteq> NUL" "\<not> isNameCodePoint (int (bval a))"
      "int (bval a) \<noteq> rBSL" "int (bval a) \<noteq> -1" by (rule stopsName_cases)
  have "name s = s\<lparr>scSource := UngetRune (snd (GetRune (scSource s)))\<rparr>"
    using Nil.prems w by (subst name.simps) (simp add: getc_run rune_ascii ungetc_def)
  then show ?case using Nil.prems w by (intro exI [of _ "UngetRune (snd (GetRune (scSource s)))"]) (simp add: run)
next
  case (Cons r ns)
  let ?s = "addVal (int r) (addLit (int r) (s\<lparr>scSource := snd (GetRune (scSource s))\<rparr>))"
  have r: "validRune r" "isNameCodePoint (int r)" "r \<noteq> 0" using Cons.prems(1) not_name_zero by (auto simp: nameRunes_def)
  have n: "name s = name ?s"
    using Cons.prems(2,3) r by (subst name.simps) (simp add: getc_run rune_rune)
  have "nameRunes ns" "sound (scSource ?s)" "rest (scSource ?s) = utf8 ns @ w"
    using Cons.prems r by (simp_all add: nameRunes_def run(1-3) rune_rune)
  from Cons.IH [OF this Cons.prems(4)] show ?case
    unfolding n by (auto simp: addVal_def addLit_def cssAppendRune_def runeBytes_def)
qed

text \<open>The cases of the switch that start a name.\<close>

lemma nameStart_switch:
  assumes "isNameStartCodePoint c"
  shows "switch c s = (if c = 85 \<or> c = 117 then caseU c s else identLike (ungetc s))" "c \<noteq> rSlash"
    "\<not> isWhitespace c" "c \<noteq> -1"
proof -
  have c: "65 \<le> c \<and> c \<le> 90 \<or> 97 \<le> c \<and> c \<le> 122 \<or> c = 95 \<or> 128 \<le> c"
    using assms by (auto simp: isNameStartCodePoint_def isLetter_def)
  then show "c \<noteq> rSlash" "\<not> isWhitespace c" "c \<noteq> -1" by (auto simp: isWhitespace_def)
  have "c \<noteq> -1" "c \<noteq> rDQ" "c \<noteq> rSQ" "c \<noteq> rHash" "c \<noteq> rDollar" "c \<noteq> rLParen" "c \<noteq> rRParen" "c \<noteq> rStar"
    "c \<noteq> rPlus" "c \<noteq> rComma" "c \<noteq> rMinus" "c \<noteq> rDot" "c \<noteq> rColon" "c \<noteq> rSemi" "c \<noteq> rLess" "c \<noteq> rAt"
    "c \<noteq> rLBrack" "c \<noteq> rBSL" "c \<noteq> rRBrack" "c \<noteq> rHat" "c \<noteq> rLBrace" "c \<noteq> rRBrace" "c \<noteq> rBar" "c \<noteq> rTilde"
    "\<not> isDigitR c"
    using c by (auto simp: isDigitR_def)
  then show "switch c s = (if c = 85 \<or> c = 117 then caseU c s else identLike (ungetc s))"
    using assms by (simp only: switch_def if_False if_True simp_thms)
qed

text \<open>A name before a separator is an identifier.\<close>

lemma first_not_plus:
  "nameRunes ns \<Longrightarrow> endsName w \<Longrightarrow> runeFst (utf8 ns @ w) \<noteq> rPlus \<and> runeFst w \<noteq> rLParen"
proof
  assume n: "nameRunes ns" and w: "endsName w"
  from w obtain a v where a: "w = a # v" "bval a < 128" "a \<noteq> NUL" "int (bval a) \<noteq> rPlus" "int (bval a) \<noteq> rLParen"
    by (rule endsName_cases)
  show "runeFst w \<noteq> rLParen" using a by (simp add: rune_ascii)
  show "runeFst (utf8 ns @ w) \<noteq> rPlus"
  proof (cases ns)
    case Nil
    then show ?thesis using a by (simp add: rune_ascii)
  next
    case (Cons r ns')
    then have "validRune r" "isNameCodePoint (int r)" "r \<noteq> 0" using n not_name_zero by (auto simp: nameRunes_def)
    then show ?thesis using Cons
      by (auto simp: rune_rune isNameCodePoint_def isNameStartCodePoint_def isLetter_def isDigitR_def)
  qed
qed

lemma redo_name:
  assumes "sound (scSource s)" "rest (scSource s) = encodeRune r @ w" "validRune r" "isNameStartCodePoint (int r)"
    "runeFst w \<noteq> rPlus"
  shows "\<exists>s0. redo s = identLike s0 \<and> scLiteral s0 = scLiteral s \<and> scValue s0 = scValue s \<and>
    sound (scSource s0) \<and> rest (scSource s0) = encodeRune r @ w"
proof -
  note st = nameStart_switch [OF assms(4)]
  have r0: "r \<noteq> 0" using assms(4) not_name_zero [of r] by (simp add: isNameCodePoint_def)
  let ?s1 = "(updatePos s)\<lparr>scSource := snd (GetRune (scSource s))\<rparr>"
  let ?s2 = "?s1\<lparr>scSource := snd (PeekRunes 2 (scSource ?s1))\<rparr>"
  have g: "getc (updatePos s) = (int r, ?s1)" using assms r0 by (simp add: getc_run rune_rune)
  have sp: "skipSpace (int r) ?s1 = (int r, ?s1)" using st(3) by (subst skipSpace.simps) simp
  have "redo s = switch (int r) ?s1" using g sp st(2) by (subst redo.simps) simp
  moreover have "caseU (int r) ?s1 = identLike (ungetc ?s2)"
    using assms r0 by (simp add: caseU_def peeks_run sound_GetRune rune_rune peeked_23)
  ultimately have "redo s = identLike (ungetc ?s1) \<or> redo s = identLike (ungetc ?s2)" using st(1) by auto
  moreover have "scLiteral (ungetc t) = scLiteral t" "scValue (ungetc t) = scValue t" for t
    by (simp_all add: ungetc_def)
  moreover have "scLiteral ?s1 = scLiteral s" "scValue ?s1 = scValue s" by (simp_all add: updatePos_def Pos_def)
  moreover have "sound (scSource (ungetc ?s1))" "rest (scSource (ungetc ?s1)) = encodeRune r @ w"
    "sound (scSource (ungetc ?s2))" "rest (scSource (ungetc ?s2)) = encodeRune r @ w"
    using assms r0 by (simp_all add: run(1-13) rune_rune)
  ultimately show ?thesis by fastforce
qed

lemma emits_ident:
  assumes "stands s (utf8 (r # ns) @ w)" "nameRunes (r # ns)" "isNameStartCodePoint (int r)" "endsName w"
  shows "emits (NextCss s) Ident (utf8 (r # ns)) (utf8 (r # ns)) w"
proof -
  have v: "validRune r" "nameRunes ns" using assms(2) by (simp_all add: nameRunes_def)
  let ?s = "clearToken s"
  have "sound (scSource ?s)" "rest (scSource ?s) = encodeRune r @ utf8 ns @ w"
    using assms(1) by (simp_all add: stands_def clearToken_def)
  from redo_name [OF this v(1) assms(3)] first_not_plus [OF v(2) assms(4)]
  obtain s0 where s0: "redo ?s = identLike s0" "scLiteral s0 = []" "scValue s0 = []" "sound (scSource s0)"
      "rest (scSource s0) = utf8 (r # ns) @ w" by (auto simp: clearToken_def)
  from name_run [OF assms(2) s0(4,5) endsName_stops [OF assms(4)]] s0(2,3)
  obtain r' where n: "name s0 = s0\<lparr>scLiteral := utf8 (r # ns), scValue := utf8 (r # ns), scSource := r'\<rparr>"
      "sound r'" "rest r' = w" by auto
  have "runeFst w \<noteq> rLParen" using first_not_plus [OF assms(2,4)] by simp
  then show ?thesis
    using s0(1) n by (simp add: NextCss_def identLike_def emits_def stands_def peekc_run sound_PeekRune Let_def)
qed

subsection \<open>Escaped strings\<close>

text \<open>\<open>appendEscapedString\<close> byte by byte, and rune by rune on valid text.\<close>

definition escByte :: "byte \<Rightarrow> bytes" where
  "escByte c = (if c = BSL \<or> c = LF \<or> c = DQ then [BSL, c] else [c])"

lemma appendEscaped_concat: "appendEscapedString dst src = dst @ concat (map escByte src)"
  by (induction dst src rule: appendEscapedString.induct) (auto simp: escByte_def)

lemma high_byte: "0x80 \<le> k \<Longrightarrow> (k + m :: nat) < 256 \<Longrightarrow> 0x80 \<le> bval (char_of (k + m))"
  using bval_char_of [of "k + m"] by linarith

lemma encodeRune_high_valid:
  assumes "0x80 \<le> r" "validRune r"
  shows "list_all (\<lambda>b. 0x80 \<le> bval b) (encodeRune r)"
proof -
  have tail: "0x80 \<le> bval (char_of (0x80 + m mod 64))" for m :: nat
    by (rule high_byte) (use mod_less_divisor [of 64 m] in linarith)+
  have r: "r \<le> 0x10FFFF" using assms(2) by (simp add: validRune_def)
  consider "r < 0x800" | "0x800 \<le> r" "r < 0x10000" | "0x10000 \<le> r" by linarith
  then show ?thesis
  proof cases
    case 1
    then have "0x80 \<le> bval (char_of (0xC0 + r div 64))"
      by (intro high_byte) (use less_mult_imp_div_less [of r 32 64] in linarith)+
    then show ?thesis using 1 assms tail [of r] by (simp add: encodeRune_def del: of_char_of)
  next
    case 2
    then have "0x80 \<le> bval (char_of (0xE0 + r div 4096))"
      by (intro high_byte) (use less_mult_imp_div_less [of r 16 4096] in linarith)+
    then show ?thesis using 2 assms tail [of r] tail [of "r div 64"] by (simp add: encodeRune_def del: of_char_of)
  next
    case 3
    then have "0x80 \<le> bval (char_of (0xF0 + r div 262144))"
      by (intro high_byte) (use less_mult_imp_div_less [of r 5 262144] r in linarith)+
    then show ?thesis using 3 assms tail [of r] tail [of "r div 64"] tail [of "r div 4096"]
      by (simp add: encodeRune_def del: of_char_of)
  qed
qed

lemma encodeRune_high:
  assumes "0x80 \<le> r" "b \<in> set (encodeRune r)"
  shows "0x80 \<le> bval b"
proof (cases "validRune r")
  case True
  then show ?thesis using encodeRune_high_valid assms by (simp add: list_all_iff)
next
  case False
  then have "encodeRune r = encodeRune RuneError" using length_encodeRune_Error by blast
  moreover have "list_all (\<lambda>b. 0x80 \<le> bval b) (encodeRune RuneError)"
    by (rule encodeRune_high_valid) (simp_all add: validRune_Error, simp add: RuneError_def)
  ultimately show ?thesis using assms(2) by (simp add: list_all_iff)
qed

definition escRune :: "nat \<Rightarrow> bytes" where
  "escRune r = (if r = 92 \<or> r = 10 \<or> r = 34 then [BSL, char_of r] else encodeRune r)"

lemma concat_escByte: "\<forall>b\<in>set bs. b \<noteq> BSL \<and> b \<noteq> LF \<and> b \<noteq> DQ \<Longrightarrow> concat (map escByte bs) = bs"
  by (induction bs) (auto simp: escByte_def)

lemma escape_rune: "concat (map escByte (encodeRune r)) = escRune r"
proof (cases "r < 0x80")
  case True
  then have b: "bval (char_of r) = r" by (intro bval_char_of) simp
  have "char_of r = c \<longleftrightarrow> r = bval c" for c using bval_eq_iff [of "char_of r" c] unfolding b by simp
  from this [of BSL] this [of LF] this [of DQ]
  have "char_of r = BSL \<longleftrightarrow> r = 92" "char_of r = LF \<longleftrightarrow> r = 10" "char_of r = DQ \<longleftrightarrow> r = 34" by simp_all
  then show ?thesis using True by (simp add: encodeRune_ascii escByte_def escRune_def)
next
  case False
  have "\<forall>b\<in>set (encodeRune r). b \<noteq> BSL \<and> b \<noteq> LF \<and> b \<noteq> DQ"
    using encodeRune_high [of r] False by fastforce
  from concat_escByte [OF this] show ?thesis using False by (simp add: escRune_def)
qed

lemma escaped_utf8: "appendEscapedString dst (utf8 rs) = dst @ concat (map escRune rs)"
proof -
  have "concat (map escByte (utf8 rs)) = concat (map escRune rs)"
    by (induction rs) (simp_all add: escape_rune)
  then show ?thesis by (simp add: appendEscaped_concat)
qed

text \<open>The text of a string: any runes but U+0000, which the reader replaces.\<close>

definition textRunes :: "nat list \<Rightarrow> bool" where
  "textRunes rs \<longleftrightarrow> list_all (\<lambda>r. validRune r \<and> r \<noteq> 0) rs"

definition emitsValue :: "cssScanner \<Rightarrow> cssToken \<Rightarrow> bytes \<Rightarrow> bytes \<Rightarrow> bool" where
  "emitsValue s t val w \<longleftrightarrow> scToken s = t \<and> scValue s = val \<and> stands s w"

lemma ascii_rune: "bval b < 128 \<Longrightarrow> runeBytes (int (bval b)) = [b]"
  by (simp add: runeBytes_def encodeRune_ascii)

text \<open>One turn of the loop of \<open>string\<close>, for a rune and for an escaped byte.\<close>

lemma stringLoop_rune:
  assumes "stands s (encodeRune r @ w)" "validRune r" "r \<noteq> 0" "r \<noteq> 92" "r \<noteq> 10" "r \<noteq> 34"
  shows "\<exists>t. stringLoop rDQ s = stringLoop rDQ t \<and> emitsValue t (scToken s) (scValue s @ encodeRune r) w"
proof (intro exI conjI)
  let ?t = "addVal (int r) (addLit (int r) (s\<lparr>scSource := snd (GetRune (scSource s))\<rparr>))"
  show "stringLoop rDQ s = stringLoop rDQ ?t"
    using assms by (subst stringLoop.simps) (simp add: stands_def getc_run rune_rune)
  show "emitsValue ?t (scToken s) (scValue s @ encodeRune r) w"
    using assms by (simp add: emitsValue_def stands_def run(1-3) rune_rune addVal_def addLit_def cssAppendRune_def runeBytes_def)
qed

lemma stringEscape_run:
  assumes "stands s (b # w)" "b \<in> {BSL, LF, DQ}"
  shows "emitsValue (stringEscape s) (scToken s) (scValue s @ [b]) w"
proof -
  let ?s1 = "(addLit rBSL s)\<lparr>scSource := snd (PeekRune (scSource s))\<rparr>"
  let ?s2 = "?s1\<lparr>scSource := snd (GetRune (scSource ?s1))\<rparr>"
  have b: "bval b < 128" "b \<noteq> NUL" "int (bval b) \<noteq> -1" "\<not> isHex (int (bval b))" "bval b = 10 \<longleftrightarrow> b = LF"
    using assms(2) by (auto simp: isHex_def isDigitR_def)
  have p: "peekc (addLit rBSL s) = (int (bval b), ?s1)" and g: "getc ?s1 = (int (bval b), ?s2)"
    using assms(1) b by (simp_all add: stands_def peekc_run getc_run run(4-6) rune_ascii)
  have e: "escape ?s1 = (int (bval b), addLit (int (bval b)) ?s2)" using b g by (simp add: escape_def)
  have "stringEscape s = addVal (int (bval b)) (addLit (int (bval b)) ?s2)"
    unfolding stringEscape_def p using b g e by auto
  then show ?thesis
    using assms(1) b by (simp add: emitsValue_def stands_def run(1-6) rune_ascii addVal_def addLit_def cssAppendRune_def ascii_rune)
qed

lemma stringLoop_escape:
  assumes "stands s (BSL # b # w)" "b \<in> {BSL, LF, DQ}"
  shows "\<exists>t. stringLoop rDQ s = stringLoop rDQ t \<and> emitsValue t (scToken s) (scValue s @ [b]) w"
proof (intro exI conjI)
  let ?s1 = "s\<lparr>scSource := snd (GetRune (scSource s))\<rparr>"
  show "stringLoop rDQ s = stringLoop rDQ (stringEscape ?s1)"
    using assms(1) by (subst stringLoop.simps) (simp add: stands_def getc_run rune_ascii)
  have "stands ?s1 (b # w)" using stands_cons [OF assms(1)] by simp
  from stringEscape_run [OF this assms(2)]
  show "emitsValue (stringEscape ?s1) (scToken s) (scValue s @ [b]) w" by simp
qed

lemma stringLoop_run:
  "textRunes rs \<Longrightarrow> stands s (concat (map escRune rs) @ DQ # w) \<Longrightarrow>
   emitsValue (stringLoop rDQ s) (scToken s) (scValue s @ utf8 rs) w"
proof (induction rs arbitrary: s)
  case Nil
  then show ?case
    by (subst stringLoop.simps) (simp add: stands_def emitsValue_def getc_run run(1-3) rune_ascii addLit_def)
next
  case (Cons r rs)
  have r: "validRune r" "r \<noteq> 0" and rs: "textRunes rs" using Cons.prems(1) by (simp_all add: textRunes_def)
  let ?w = "concat (map escRune rs) @ DQ # w"
  have "\<exists>t. stringLoop rDQ s = stringLoop rDQ t \<and> emitsValue t (scToken s) (scValue s @ encodeRune r) ?w"
  proof (cases "r = 92 \<or> r = 10 \<or> r = 34")
    case True
    then have "char_of r \<in> {BSL, LF, DQ}" "encodeRune r = [char_of r]"
      using char_of_bval [of LF] char_of_bval [of BSL] char_of_bval [of DQ] by (auto simp: encodeRune_ascii)
    moreover have "stands s (BSL # char_of r # ?w)" using Cons.prems(2) True by (auto simp: escRune_def [of r])
    ultimately show ?thesis using stringLoop_escape [of s "char_of r" ?w] by simp
  next
    case False
    moreover have "stands s (encodeRune r @ ?w)" using Cons.prems(2) False by (auto simp: escRune_def [of r])
    ultimately show ?thesis using stringLoop_rune [OF _ r] by blast
  qed
  then obtain t where t: "stringLoop rDQ s = stringLoop rDQ t"
      "emitsValue t (scToken s) (scValue s @ encodeRune r) ?w" by blast
  then show ?case using Cons.IH [OF rs, of t] by (simp add: emitsValue_def)
qed

lemma stringC_run:
  assumes "textRunes rs" "stands s (concat (map escRune rs) @ DQ # w)"
  shows "emitsValue (stringC rDQ s) (scToken s) (scValue s @ utf8 rs) w"
  using stringLoop_run [OF assms(1), of "addLit rDQ s" w] assms(2) by (simp add: stringC_def addLit_def stands_def)

lemma emits_string:
  assumes "stands s (DQ # concat (map escRune rs) @ DQ # w)" "textRunes rs"
  shows "emitsValue (NextCss s) String (utf8 rs) w"
proof -
  let ?s1 = "(updatePos (clearToken s))\<lparr>scSource := snd (GetRune (scSource s)), scToken := String\<rparr>"
  have "stands ?s1 (concat (map escRune rs) @ DQ # w)" using stands_cons [OF assms(1)] by (simp add: stands_def)
  from stringC_run [OF assms(2) this]
  have "emitsValue (stringC rDQ ?s1) String (utf8 rs) w" by (simp add: updatePos_def clearToken_def Pos_def)
  moreover have "NextCss s = stringC rDQ ?s1"
    using assms(1) unfolding NextCss_def
    by (subst redo.simps) (simp add: stands_def getc_run rune_ascii clearToken_def skipSpace.simps isWhitespace_def switch_def)
  ultimately show ?thesis by simp
qed

lemma clearToken_sel [simp]:
  "scLiteral (clearToken s) = []" "scValue (clearToken s) = []" "scSource (clearToken s) = scSource s"
  by (simp_all add: clearToken_def)

lemma utf8_url: "utf8 [117, 114, 108] = ''url''"
  using char_of_bval [of "CHR ''u''"] char_of_bval [of "CHR ''r''"] char_of_bval [of "CHR ''l''"]
  by (simp add: encodeRune_ascii)

text \<open>A URL as it is printed: \<open>url(\<close>, a string, and the closing paren.\<close>

lemma url_run:
  assumes "stands s (DQ # concat (map escRune rs) @ DQ # CHR '')'' # w)" "textRunes rs" "scValue s = []"
  shows "emitsValue (url s) URL (utf8 rs) w"
proof -
  let ?s1 = "s\<lparr>scToken := URL, scSource := snd (GetRune (scSource s))\<rparr>"
  let ?s2 = "stringC rDQ ?s1"
  let ?s3 = "?s2\<lparr>scToken := URL, scSource := snd (GetRune (scSource ?s2))\<rparr>"
  have "stands ?s1 (concat (map escRune rs) @ DQ # CHR '')'' # w)"
    using stands_cons [OF assms(1)] by (simp add: stands_def)
  from stringC_run [OF assms(2) this] have s2: "emitsValue ?s2 URL (utf8 rs) (CHR '')'' # w)" using assms(3) by simp
  have "getc (s\<lparr>scToken := URL\<rparr>) = (rDQ, ?s1)" "getc (?s2\<lparr>scToken := URL\<rparr>) = (rRParen, ?s3)"
    using assms(1) s2 by (simp_all add: stands_def emitsValue_def getc_run rune_ascii)
  moreover have "skipWS rDQ t = (rDQ, t)" "skipWS rRParen t = (rRParen, t)" for t
    by (simp_all add: skipWS.simps isWhitespace_def)
  moreover have "scToken ?s2 \<noteq> BadString" using s2 by (simp add: emitsValue_def)
  ultimately have "url s = addLit rRParen ?s3" by (simp add: url_def Let_def)
  moreover have "stands ?s3 w" using s2 by (simp add: emitsValue_def stands_def run(1-3) rune_ascii)
  ultimately show ?thesis using s2 by (simp add: emitsValue_def addLit_def stands_def)
qed

lemma emits_url:
  assumes "stands s (''url('' @ DQ # concat (map escRune rs) @ DQ # CHR '')'' # w)" "textRunes rs"
  shows "emitsValue (NextCss s) URL (utf8 rs) w"
proof -
  let ?w = "DQ # concat (map escRune rs) @ DQ # CHR '')'' # w"
  have u: "encodeRune 117 = ''u''" "encodeRune 114 = ''r''" "encodeRune 108 = ''l''"
    using char_of_bval [of "CHR ''u''"] char_of_bval [of "CHR ''r''"] char_of_bval [of "CHR ''l''"]
    by (simp_all add: encodeRune_ascii)
  have v: "validRune 117" "isNameStartCodePoint (int 117)" "nameRunes [117, 114, 108]"
    by (simp_all add: validRune_def isSurrogate_def isNameStartCodePoint_def isLetter_def nameRunes_def isNameCodePoint_def)
  have "sound (scSource (clearToken s))" "rest (scSource (clearToken s)) = encodeRune 117 @ ''rl('' @ ?w"
    using assms(1) by (simp_all add: stands_def clearToken_def u)
  from redo_name [OF this v(1,2)]
  obtain s0 where s0: "redo (clearToken s) = identLike s0" "scLiteral s0 = []" "scValue s0 = []" "sound (scSource s0)"
      "rest (scSource s0) = utf8 [117, 114, 108] @ CHR ''('' # ?w"
    by (auto simp: rune_ascii u)
  have "stopsName (CHR ''('' # ?w)" by (simp add: stopsName_def)
  from name_run [OF v(3) s0(4,5) this] s0(2,3)
  obtain r where n: "name s0 = s0\<lparr>scLiteral := ''url'', scValue := ''url'', scSource := r\<rparr>"
      "sound r" "rest r = CHR ''('' # ?w" by (auto simp: u)
  let ?s1 = "(name s0)\<lparr>scSource := snd (PeekRune r)\<rparr>"
  let ?s2 = "?s1\<lparr>scSource := snd (GetRune (scSource ?s1))\<rparr>"
  have p: "peekc (name s0) = (rLParen, ?s1)" and g: "getc ?s1 = (rLParen, ?s2)"
    using n by (simp_all add: peekc_run getc_run sound_PeekRune rune_ascii)
  have "stands ((addLit rLParen ?s2)\<lparr>scValue := []\<rparr>) ?w"
    using n by (simp add: stands_def run(1-6) rune_ascii addLit_def)
  from url_run [OF this assms(2)] show ?thesis
    using s0(1) p g n(1) by (simp add: NextCss_def identLike_def Let_def)
qed

lemma emits_hash:
  assumes "stands s (CHR ''#'' # utf8 (r # ns) @ w)" "nameRunes (r # ns)" "endsName w"
  shows "emitsValue (NextCss s) Hash (utf8 (r # ns)) w"
proof -
  have r: "validRune r" "r \<noteq> 0" "isNameCodePoint (int r)" using assms(2) not_name_zero by (auto simp: nameRunes_def)
  let ?s1 = "(updatePos (clearToken s))\<lparr>scSource := snd (GetRune (scSource s))\<rparr>"
  let ?s2 = "(addLit rHash (?s1\<lparr>scSource := snd (PeekRunes 2 (scSource ?s1))\<rparr>))\<lparr>scToken := Hash\<rparr>"
  have "sound (scSource ?s1)" "rest (scSource ?s1) = utf8 (r # ns) @ w"
    using stands_cons [OF assms(1)] by (simp_all add: stands_def)
  then have h: "hash ?s1 = name ?s2" and s2: "sound (scSource ?s2)" "rest (scSource ?s2) = utf8 (r # ns) @ w"
    using r by (simp_all add: hash_def peeks_run peeked_23 rune_rune sound_PeekRunes Let_def)
  have "NextCss s = hash ?s1"
    using assms(1) unfolding NextCss_def
    by (subst redo.simps) (simp add: stands_def getc_run rune_ascii clearToken_def skipSpace.simps isWhitespace_def switch_def)
  moreover obtain q where "name ?s2 = ?s2\<lparr>scLiteral := scLiteral ?s2 @ utf8 (r # ns),
      scValue := scValue ?s2 @ utf8 (r # ns), scSource := q\<rparr>" "sound q" "rest q = w"
    using name_run [OF assms(2) s2 endsName_stops [OF assms(3)]] by blast
  moreover have "scToken ?s2 = Hash" "scValue ?s2 = []" by (simp_all add: addLit_def updatePos_def Pos_def)
  ultimately show ?thesis unfolding h by (simp add: emitsValue_def stands_def)
qed

subsection \<open>Declarations\<close>

text \<open>Values that \<open>AppendValue\<close> prints so that they read the same again.\<close>

definition identBytes :: "bytes \<Rightarrow> bool" where
  "identBytes b \<longleftrightarrow> (\<exists>r ns. b = utf8 (r # ns) \<and> nameRunes (r # ns) \<and> isNameStartCodePoint (int r))"

definition hashBytes :: "bytes \<Rightarrow> bool" where
  "hashBytes b \<longleftrightarrow> (\<exists>r ns. b = utf8 (r # ns) \<and> nameRunes (r # ns))"

definition textBytes :: "bytes \<Rightarrow> bool" where
  "textBytes b \<longleftrightarrow> (\<exists>rs. b = utf8 rs \<and> textRunes rs)"

definition printable :: "cssValue \<Rightarrow> bool" where
  "printable v \<longleftrightarrow>
     vType v = ValueIdent \<and> identBytes (vValue v) \<or> vType v = ValueHash \<and> hashBytes (vValue v) \<or>
     vType v \<in> {ValueString, ValueURL} \<and> textBytes (vValue v) \<or> vType v = ValueComma \<and> vValue v = []"

text \<open>What is kept of a value: its type and its text.\<close>

definition gist :: "cssValue \<Rightarrow> ValueType \<times> bytes" where
  "gist v = (vType v, vValue v)"

lemma AppendValue_dst: "AppendValue fl dst v = dst @ AppendValue fl [] v"
  by (simp add: AppendValue_def appendEscaped_concat split: ValueType.split)

lemma appendValues_dst: "appendValues fl dst p vs = dst @ appendValues fl [] p vs"
proof (induction vs arbitrary: dst p)
  case Nil
  then show ?case by simp
next
  case (Cons v vs)
  show ?case
    using Cons [of "AppendValue fl (dst @ spaced p v) v" "Some v"] Cons [of "AppendValue fl (spaced p v) v" "Some v"]
      AppendValue_dst [of fl "dst @ spaced p v" v] AppendValue_dst [of fl "spaced p v" v] by simp
qed

lemma appendValues_step:
  "appendValues fl [] p (v # vs) = spaced p v @ AppendValue fl [] v @ appendValues fl [] (Some v) vs"
  using appendValues_dst [of fl "AppendValue fl (spaced p v) v" "Some v" vs] AppendValue_dst [of fl "spaced p v" v]
  by simp

lemma spaced_cases:
  "printable v \<Longrightarrow> printable p \<Longrightarrow> spaced (Some p) v = (if vType v = ValueComma then [] else '' '')"
  by (auto simp: spaced_def printable_def)

lemma escRune_name: "isNameCodePoint (int r) \<Longrightarrow> escRune r = encodeRune r"
  by (auto simp: escRune_def isNameCodePoint_def isNameStartCodePoint_def isLetter_def isDigitR_def)

lemma escaped_name: "nameRunes ns \<Longrightarrow> appendEscapedString dst (utf8 ns) = dst @ utf8 ns"
proof -
  have "nameRunes ns \<Longrightarrow> concat (map escRune ns) = utf8 ns"
    by (induction ns) (simp_all add: nameRunes_def escRune_name)
  then show "nameRunes ns \<Longrightarrow> ?thesis" by (simp add: escaped_utf8)
qed

text \<open>A printed value, read back: one token of its type with its text.\<close>

lemma emits_value:
  assumes "printable v" "stands s (AppendValue fl [] v @ w)" "endsName w"
  shows "\<exists>n. valueType fl (NextCss s) = Ok (vType v, n) \<and> gist (valueOf (NextCss s) (vType v) n) = gist v \<and>
    stands (NextCss s) w \<and> scToken (NextCss s) \<notin> {EOF, Semicolon}"
proof -
  consider (ident) r ns where "vType v = ValueIdent" "vValue v = utf8 (r # ns)" "nameRunes (r # ns)" "isNameStartCodePoint (int r)"
    | (hash) r ns where "vType v = ValueHash" "vValue v = utf8 (r # ns)" "nameRunes (r # ns)"
    | (string) rs where "vType v = ValueString" "vValue v = utf8 rs" "textRunes rs"
    | (url) rs where "vType v = ValueURL" "vValue v = utf8 rs" "textRunes rs"
    | (comma) "vType v = ValueComma" "vValue v = []"
    using assms(1) by (auto simp: printable_def identBytes_def hashBytes_def textBytes_def)
  then show ?thesis
  proof cases
    case ident
    then have "emits (NextCss s) Ident (utf8 (r # ns)) (utf8 (r # ns)) w"
      using assms(2,3) escaped_name [OF ident(3), of "[]"] by (intro emits_ident) (simp_all add: AppendValue_def)
    then show ?thesis using ident by (simp add: emits_def valueType_def valueOf_def gist_def)
  next
    case hash
    then have "emitsValue (NextCss s) Hash (utf8 (r # ns)) w"
      using assms(2,3) escaped_name [OF hash(3), of "''#''"] by (intro emits_hash) (simp_all add: AppendValue_def)
    then show ?thesis using hash by (simp add: emitsValue_def valueType_def valueOf_def gist_def)
  next
    case string
    then have "emitsValue (NextCss s) String (utf8 rs) w"
      using assms(2) by (intro emits_string) (simp_all add: AppendValue_def escaped_utf8)
    then show ?thesis using string by (simp add: emitsValue_def valueType_def valueOf_def gist_def)
  next
    case url
    then have "emitsValue (NextCss s) URL (utf8 rs) w"
      using assms(2) by (intro emits_url) (simp_all add: AppendValue_def escaped_utf8)
    then show ?thesis using url by (simp add: emitsValue_def valueType_def valueOf_def gist_def)
  next
    case comma
    then have "emits (NextCss s) Comma [] [] w"
      using assms(2) by (intro emits_comma) (simp add: AppendValue_def)
    then show ?thesis using comma by (simp add: emits_def valueType_def valueOf_def gist_def)
  qed
qed

lemma appendValues_ends:
  "list_all printable vs \<Longrightarrow> printable p \<Longrightarrow> endsName (appendValues fl [] (Some p) vs @ CHR '';'' # w)"
  by (cases vs) (auto simp: appendValues_step spaced_cases endsName_def AppendValue_def simp del: appendValues.simps(2))

lemma parseValues_run:
  "list_all printable vs \<Longrightarrow> printable p \<Longrightarrow> stands s (appendValues fl [] (Some p) vs @ CHR '';'' # w) \<Longrightarrow>
   \<exists>d' s'. parseValues fl d (NextCss s) = Ok (True, d', s') \<and> dProperty d' = dProperty d \<and>
     map gist (dValues d') = map gist (dValues d) @ map gist vs \<and> scToken s' = Semicolon \<and> stands s' w"
proof (induction vs arbitrary: p s d)
  case Nil
  then have "emits (NextCss s) Semicolon [] [] w" by (intro emits_semicolon) simp
  then show ?case by (subst parseValues.simps) (simp add: emits_def)
next
  case (Cons v vs)
  have v: "printable v" "list_all printable vs" using Cons.prems(1) by simp_all
  let ?w = "appendValues fl [] (Some v) vs @ CHR '';'' # w"
  have "\<exists>s'. stands s' (AppendValue fl [] v @ ?w) \<and> NextCss s = NextCss s'"
    using Cons.prems(3) Next_space [of s "AppendValue fl [] v @ ?w"] spaced_cases [OF v(1) Cons.prems(2)]
    by (auto simp: appendValues_step simp del: appendValues.simps(2) split: if_splits)
  then obtain s' where s': "stands s' (AppendValue fl [] v @ ?w)" "NextCss s = NextCss s'" by blast
  from emits_value [OF v(1) s'(1) appendValues_ends [OF v(2,1)]]
  obtain n where n: "valueType fl (NextCss s) = Ok (vType v, n)" "gist (valueOf (NextCss s) (vType v) n) = gist v"
    "stands (NextCss s) ?w" "scToken (NextCss s) \<notin> {EOF, Semicolon}" using s'(2) by auto
  have step: "parseValues fl d (NextCss s) =
      parseValues fl (d\<lparr>dValues := dValues d @ [valueOf (NextCss s) (vType v) n]\<rparr>) (NextCss (NextCss s))"
    using n(1,4) by (subst parseValues.simps) simp
  from Cons.IH [OF v(2,1) n(3), of "d\<lparr>dValues := dValues d @ [valueOf (NextCss s) (vType v) n]\<rparr>"] n(2)
  show ?case unfolding step by simp
qed

lemma appendDecl_eq:
  "identBytes (dProperty d) \<Longrightarrow>
   AppendDecl fl [] d = dProperty d @ '': '' @ appendValues fl [] None (dValues d) @ '';''"
proof -
  assume "identBytes (dProperty d)"
  then obtain ns where "dProperty d = utf8 ns" "nameRunes ns" unfolding identBytes_def by blast
  then have "appendEscapedString [] (dProperty d) = dProperty d" using escaped_name [of ns "[]"] by simp
  then show ?thesis
    using appendValues_dst [of fl "dProperty d @ '': ''" None "dValues d"] by (simp add: AppendDecl_def)
qed

lemma roundtrip_decl:
  assumes "identBytes (dProperty d)" "list_all printable (dValues d)" "stands s (AppendDecl fl [] d @ w)"
  shows "\<exists>d' s'. ParseDecl fl s = Ok (True, d', s') \<and> dProperty d' = dProperty d \<and>
    map gist (dValues d') = map gist (dValues d) \<and> scToken s' = Semicolon \<and> stands s' w"
proof -
  obtain r ns where p: "dProperty d = utf8 (r # ns)" "nameRunes (r # ns)" "isNameStartCodePoint (int r)"
    using assms(1) by (auto simp: identBytes_def)
  let ?vs = "appendValues fl [] None (dValues d) @ CHR '';'' # w"
  have "stands s (utf8 (r # ns) @ CHR '':'' # SP # ?vs)" using assms(3) appendDecl_eq [OF assms(1)] p(1) by simp
  from emits_ident [OF this p(2,3)]
  have s1: "scToken (NextCss s) = Ident" "scValue (NextCss s) = dProperty d" "stands (NextCss s) (CHR '':'' # SP # ?vs)"
    using p(1) by (simp_all add: endsName_def emits_def)
  from emits_colon [OF s1(3)] have s2: "scToken (NextCss (NextCss s)) = Colon" "stands (NextCss (NextCss s)) (SP # ?vs)"
    by (simp_all add: emits_def)
  from Next_space [OF s2(2)] obtain s3 where s3: "stands s3 ?vs" "NextCss (NextCss (NextCss s)) = NextCss s3" by blast
  let ?d = "clearDecl\<lparr>dPos := (scLine (NextCss s), scCol (NextCss s)), dProperty := dProperty d,
      dPropertyRaw := scLiteral (NextCss s)\<rparr>"
  have parse: "ParseDecl fl s = parseValues fl ?d (NextCss s3)"
    using s1 s2 s3 by (simp add: ParseDecl_def parseDecl_def Let_def)
  have d: "dProperty ?d = dProperty d" "dValues ?d = []" by (simp_all add: clearDecl_def)
  show ?thesis
  proof (cases "dValues d")
    case Nil
    then have "emits (NextCss s3) Semicolon [] [] w" using s3(1) by (intro emits_semicolon) simp
    then show ?thesis unfolding parse using d Nil by (subst parseValues.simps) (simp add: emits_def)
  next
    case (Cons v vs)
    have v: "printable v" "list_all printable vs" using assms(2) Cons by simp_all
    let ?w = "appendValues fl [] (Some v) vs @ CHR '';'' # w"
    have "stands s3 (AppendValue fl [] v @ ?w)"
      using s3(1) Cons by (simp add: appendValues_step spaced_def del: appendValues.simps(2))
    from emits_value [OF v(1) this appendValues_ends [OF v(2,1)]]
    obtain n where n: "valueType fl (NextCss s3) = Ok (vType v, n)" "gist (valueOf (NextCss s3) (vType v) n) = gist v"
      "stands (NextCss s3) ?w" "scToken (NextCss s3) \<notin> {EOF, Semicolon}" by auto
    have step: "parseValues fl ?d (NextCss s3) =
        parseValues fl (?d\<lparr>dValues := [valueOf (NextCss s3) (vType v) n]\<rparr>) (NextCss (NextCss s3))"
      using n(1,4) d(2) by (subst parseValues.simps) (simp add: clearDecl_def)
    from parseValues_run [OF v(2,1) n(3), of "?d\<lparr>dValues := [valueOf (NextCss s3) (vType v) n]\<rparr>"] n(2) d(1) Cons
    show ?thesis unfolding parse step by simp
  qed
qed

text \<open>A function: a name before a paren, but for \<open>url\<close>.\<close>

lemma emits_function:
  assumes "stands s (utf8 (r # ns) @ CHR ''('' # w)" "nameRunes (r # ns)" "isNameStartCodePoint (int r)"
    "utf8 (r # ns) \<noteq> ''url''"
  shows "emits (NextCss s) Function (utf8 (r # ns)) (utf8 (r # ns)) w"
proof -
  have v: "validRune r" using assms(2) by (simp add: nameRunes_def)
  have stop: "stopsName (CHR ''('' # w)" by (simp add: stopsName_def)
  have "runeFst (utf8 ns @ CHR ''('' # w) \<noteq> rPlus"
  proof (cases ns)
    case Nil
    then show ?thesis by (simp add: rune_ascii)
  next
    case (Cons q qs)
    then have "validRune q" "isNameCodePoint (int q)" "q \<noteq> 0" using assms(2) not_name_zero by (auto simp: nameRunes_def)
    then show ?thesis using Cons
      by (auto simp: rune_rune isNameCodePoint_def isNameStartCodePoint_def isLetter_def isDigitR_def)
  qed
  moreover have "sound (scSource (clearToken s))" "rest (scSource (clearToken s)) = encodeRune r @ utf8 ns @ CHR ''('' # w"
    using assms(1) by (simp_all add: stands_def clearToken_def)
  ultimately obtain s0 where s0: "redo (clearToken s) = identLike s0" "scLiteral s0 = []" "scValue s0 = []"
      "sound (scSource s0)" "rest (scSource s0) = utf8 (r # ns) @ CHR ''('' # w"
    using redo_name [of "clearToken s" r "utf8 ns @ CHR ''('' # w"] v assms(3) by auto
  from name_run [OF assms(2) s0(4,5) stop] s0(2,3)
  obtain q where n: "name s0 = s0\<lparr>scLiteral := utf8 (r # ns), scValue := utf8 (r # ns), scSource := q\<rparr>"
      "sound q" "rest q = CHR ''('' # w" by auto
  show ?thesis
    using s0(1) n assms(4)
    by (simp add: NextCss_def identLike_def emits_def stands_def peekc_run getc_run run(1-6) rune_ascii Let_def)
qed

text \<open>A scanner of a style attribute (\<open>strings.NewReader\<close>).\<close>

definition styleScanner :: "bytes \<Rightarrow> cssScanner" where
  "styleScanner b = NewScanner [(b, None)]"

lemma stands_style [simp]: "stands (styleScanner b) b"
  by (simp add: styleScanner_def stands_def sound_New)


definition exampleFloats :: floatLib where
  "exampleFloats = \<lparr>flRound = (\<lambda>_ _ _. None), flOfInt = of_int, flFormat = (\<lambda>_. ''0'')\<rparr>"

definition exampleDecl :: cssDecl where
  "exampleDecl = clearDecl\<lparr>dProperty := utf8 [98, 103],
     dValues := [\<lparr>vPos = (0, 0), vType = ValueURL, vRaw = [], vNumber = 0, vValue = utf8 [0x65E5, 34, 92]\<rparr>,
                 \<lparr>vPos = (0, 0), vType = ValueComma, vRaw = [], vNumber = 0, vValue = []\<rparr>,
                 \<lparr>vPos = (0, 0), vType = ValueIdent, vRaw = [], vNumber = 0, vValue = utf8 [97, 45, 98]\<rparr>]\<rparr>"

lemma example_printable: "identBytes (dProperty exampleDecl)" "list_all printable (dValues exampleDecl)"
proof -
  have n: "nameRunes [98, 103]" "isNameStartCodePoint (int 98)" "nameRunes [97, 45, 98]" "isNameStartCodePoint (int 97)"
      "textRunes [0x65E5, 34, 92]"
    by (simp_all add: nameRunes_def textRunes_def validRune_def isSurrogate_def isNameCodePoint_def
        isNameStartCodePoint_def isLetter_def)
  have i: "identBytes (utf8 [98, 103])" unfolding identBytes_def using n(1,2) by blast
  have j: "identBytes (utf8 [97, 45, 98])" unfolding identBytes_def using n(3,4) by blast
  have t: "textBytes (utf8 [0x65E5, 34, 92])" unfolding textBytes_def using n(5) by blast
  show "identBytes (dProperty exampleDecl)" using i by (simp add: exampleDecl_def clearDecl_def)
  show "list_all printable (dValues exampleDecl)" using j t by (simp add: exampleDecl_def clearDecl_def printable_def)
qed


subsection \<open>Numbers that panic\<close>

lemma emits_exp: "stands s ''1e5px'' \<Longrightarrow>
    scToken (NextCss s) = Dimension \<and> scLiteral (NextCss s) = ''1e5px'' \<and> scUnit (NextCss s) = ''x''"
  by (simp add: stands_def run scanner_simps) (simp add: char_of_def bit_0)

lemma emits_exp_end: "stands s ''1e5'' \<Longrightarrow>
    scToken (NextCss s) = Number \<and> scLiteral (NextCss s) = ''1e5'' @ runeBytes (-1) \<and> scTypeFlag (NextCss s) = TypeFlagNumber"
  by (simp add: stands_def run scanner_simps) (simp add: char_of_def bit_0)

lemma emits_big: "stands s ''9223372036854775808'' \<Longrightarrow>
    scToken (NextCss s) = Number \<and> scLiteral (NextCss s) = ''9223372036854775808'' \<and> scTypeFlag (NextCss s) = TypeFlagInteger"
  by (simp add: stands_def run scanner_simps) (simp add: char_of_def bit_0)

lemma emits_a: "stands s (''a:'' @ w) \<Longrightarrow> scToken (NextCss s) = Ident \<and> stands (NextCss s) (CHR '':'' # w)"
proof -
  assume s: "stands s (''a:'' @ w)"
  have a: "encodeRune 97 = ''a''" using char_of_bval [of "CHR ''a''"] by (simp add: encodeRune_ascii)
  have "emits (NextCss s) Ident (utf8 [97]) (utf8 [97]) (CHR '':'' # w)"
    using s by (intro emits_ident)
      (simp_all add: a nameRunes_def validRune_def isSurrogate_def isNameCodePoint_def isNameStartCodePoint_def
        isLetter_def endsName_def)
  then show ?thesis by (simp add: emits_def)
qed

text \<open>A declaration of the property \<open>a\<close> whose first value panics.\<close>

lemma parse_panics:
  assumes "stands s (''a:'' @ w)" "\<And>t. stands t w \<Longrightarrow> valueType fl (NextCss t) = Panic m"
    "\<And>t. stands t w \<Longrightarrow> scToken (NextCss t) \<notin> {EOF, Semicolon}"
  shows "ParseDecl fl s = Panic m"
proof -
  note s1 = emits_a [OF assms(1)]
  have s2: "scToken (NextCss (NextCss s)) = Colon" "stands (NextCss (NextCss s)) w"
    using emits_colon [of "NextCss s" w] s1 by (simp_all add: emits_def)
  have "parseValues fl d (NextCss (NextCss (NextCss s))) = Panic m" for d
    using assms(2,3) [OF s2(2)] by (subst parseValues.simps) simp
  then show ?thesis using s1 s2 by (simp add: ParseDecl_def parseDecl_def Let_def)
qed

text \<open>Numbers in a style attribute make the parser panic, whatever \<open>strconv\<close> rounds: an exponent of one
  digit takes the rune behind it into the literal (or U+FFFD at the end of the input), which \<open>ParseFloat\<close>
  refuses, and so does an integer of more than 63 bits.\<close>

theorem css_number_panics:
  "ParseDecl fl (styleScanner ''a:1e5px'') = Panic ''invalid dimension: 1e5px'' \<and>
   ParseDecl fl (styleScanner ''a:1e5'') = Panic (''invalid float: 1e5'' @ encodeRune RuneError) \<and>
   ParseDecl fl (styleScanner ''a:9223372036854775808'') = Panic ''invalid integer: 9223372036854775808''"
proof (intro conjI)
  have "suffix ''x'' ''1e5px''" by (simp add: suffix_def)
  then have "trimSuffix ''1e5px'' ''x'' = ''1e5p''" by (simp add: trimSuffix_def)
  moreover have "decimalOf ''1e5p'' = None"
    by (simp add: decimalOf_def signOf_def exponentOf_def isDigit_def)
  ultimately show "ParseDecl fl (styleScanner ''a:1e5px'') = Panic ''invalid dimension: 1e5px''"
    by (intro parse_panics [of _ "''1e5px''"]) (simp_all add: emits_exp valueType_def orPanic_def ParseFloat_def)
  have "decimalOf (''1e5'' @ runeBytes (-1)) = None"
    by (simp add: decimalOf_def signOf_def exponentOf_def isDigit_def runeBytes_def RuneError_def encodeRune_def
        validRune_def isSurrogate_def)
  then show "ParseDecl fl (styleScanner ''a:1e5'') = Panic (''invalid float: 1e5'' @ encodeRune RuneError)"
    by (intro parse_panics [of _ "''1e5''"])
      (simp_all add: emits_exp_end valueType_def orPanic_def ParseFloat_def runeBytes_def)
  have "ParseInt64 ''9223372036854775808'' = Inl (NumRange ''9223372036854775808'')"
    by (simp add: ParseInt64_def ParseUint_def isDigit_def digitVal_def)
  then show "ParseDecl fl (styleScanner ''a:9223372036854775808'') = Panic ''invalid integer: 9223372036854775808''"
    by (intro parse_panics [of _ "''9223372036854775808''"]) (simp_all add: emits_big valueType_def)
qed

subsection \<open>Printing a function after another value\<close>

text \<open>Printing joins what was two values: \<open>AppendDecl\<close> puts no space before a function, so an identifier
  and a function after it are printed as, and read back as, one function with the joined name.\<close>

theorem format_joins_function:
  assumes "identBytes x" "identBytes f" "x @ f \<noteq> ''url''" "vType u = ValueIdent" "vValue u = x"
    "vType v = ValueFunction" "vValue v = f" "stands s (appendValues fl [] None [u, v] @ w)"
  shows "emits (NextCss s) Function (x @ f) (x @ f) w"
proof -
  obtain r ns where x: "x = utf8 (r # ns)" "nameRunes (r # ns)" "isNameStartCodePoint (int r)"
    using assms(1) unfolding identBytes_def by blast
  obtain q qs where f: "f = utf8 (q # qs)" "nameRunes (q # qs)"
    using assms(2) unfolding identBytes_def by blast
  have xf: "x @ f = utf8 (r # ns @ q # qs)" "nameRunes (r # ns @ q # qs)"
    using x f by (simp_all add: nameRunes_def)
  have "appendValues fl [] None [u, v] @ w = utf8 (r # ns @ q # qs) @ CHR ''('' # w"
    using assms(4-7) escaped_name [OF x(2), of "[]"] escaped_name [OF f(2), of x] x(1) f(1)
    by (simp add: spaced_def AppendValue_def)
  then show ?thesis using emits_function [OF _ xf(2) x(3)] assms(3,8) xf(1) by simp
qed

definition exampleValue :: "ValueType \<Rightarrow> nat list \<Rightarrow> cssValue" where
  "exampleValue t rs = \<lparr>vPos = (0, 0), vType = t, vRaw = [], vNumber = 0, vValue = utf8 rs\<rparr>"

theorem format_joins_function_witness:
  "emits (NextCss (styleScanner (appendValues exampleFloats [] None
      [exampleValue ValueIdent [97], exampleValue ValueFunction [98]]))) Function (utf8 [97] @ utf8 [98]) (utf8 [97] @ utf8 [98]) []"
proof (rule format_joins_function [where u = "exampleValue ValueIdent [97]" and v = "exampleValue ValueFunction [98]"
      and fl = exampleFloats])
  have n: "nameRunes [97]" "nameRunes [98]" "isNameStartCodePoint (int 97)" "isNameStartCodePoint (int 98)"
    by (simp_all add: nameRunes_def validRune_def isSurrogate_def isNameCodePoint_def isNameStartCodePoint_def isLetter_def)
  show "identBytes (utf8 [97])" "identBytes (utf8 [98])" unfolding identBytes_def using n by blast+
  show "utf8 [97] @ utf8 [98] \<noteq> ''url''" by (simp add: encodeRune_ascii)
  show "stands (styleScanner (appendValues exampleFloats [] None
      [exampleValue ValueIdent [97], exampleValue ValueFunction [98]]))
    (appendValues exampleFloats [] None [exampleValue ValueIdent [97], exampleValue ValueFunction [98]] @ [])" by simp
qed (simp_all add: exampleValue_def)

end
