(* ===== verification/HtmlSafe.thy ===== *)
theory HtmlSafe
  imports CssRuns "HOL-Library.AList"
begin

text \<open>
  The HTML sanitizer (\<open>html/htmlsafe/htmlsafe.go\<close>): \<open>Sanitize\<close> over the tokens of the HTML tokenizer, what it
  does to attributes, addresses and style attributes, and the two sets of options it comes with.

  An \<open>atom.Atom\<close> is its name, the empty name for 0. The tokenizer and the table of atoms
  (\<open>golang.org/x/net/html\<close>), \<open>url.Parse\<close> of the trimmed address and the printing tables of \<open>strconv\<close> are the
  parameter \<open>htmlLib\<close>. The writer is the list of what was written; \<open>hlWriteErr\<close> says which call of
  \<open>Write\<close> fails (a failing call writes nothing).
\<close>

subsection \<open>Data\<close>

type_synonym atom = bytes

record options =
  oTags :: "(atom \<times> atom list) list"
  oStyles :: "(bytes \<times> bool) list"

record url =
  urlScheme :: bytes
  urlString :: bytes

datatype tokenType = TextToken | StartTagToken | EndTagToken | SelfClosingTagToken | CommentToken | DoctypeToken

record attribute =
  aNamespace :: bytes
  aKey :: bytes
  aVal :: bytes

record htmlToken =
  htType :: tokenType
  htRaw :: bytes
  htAtom :: atom
  htAttr :: "attribute list"

record htmlLib =
  hlFloats :: floatLib
  hlLookup :: "bytes \<Rightarrow> atom"
  hlAtomNum :: "atom \<Rightarrow> nat"
  hlParseURL :: "bytes \<Rightarrow> url option"
  hlIsPrint :: "nat \<Rightarrow> bool"
  hlWriteErr :: "nat \<Rightarrow> goerr option"

record sanitizer =
  sRewriteURL :: "(bytes \<Rightarrow> url \<Rightarrow> bytes) option"
  sOptions :: "options option"

subsection \<open>Options\<close>

definition StrictEmail :: options where
  "StrictEmail =
     \<lparr>oTags =
        [(''a'', [''class'', ''href'', ''id'', ''style'', ''target'']),
         (''b'', [''class'', ''id'', ''style'']),
         (''br'', [''class'', ''id'', ''style'']),
         (''div'', [''align'', ''class'', ''dir'', ''id'', ''style'']),
         (''font'', [''class'', ''color'', ''face'', ''id'', ''size'', ''style'']),
         (''h1'', [''align'', ''class'', ''dir'', ''id'', ''style'']),
         (''h2'', [''align'', ''class'', ''dir'', ''id'', ''style'']),
         (''h3'', [''align'', ''class'', ''dir'', ''id'', ''style'']),
         (''h4'', [''align'', ''class'', ''dir'', ''id'', ''style'']),
         (''h5'', [''align'', ''class'', ''dir'', ''id'', ''style'']),
         (''h6'', [''align'', ''class'', ''dir'', ''id'', ''style'']),
         (''head'', [''dir'', ''lang'']),
         (''hr'', [''align'', ''size'', ''width'']),
         (''img'', [''align'', ''class'', ''height'', ''id'', ''src'', ''style'', ''usemap'', ''width'']),
         (''label'', [''class'', ''id'', ''style'']),
         (''li'', [''class'', ''dir'', ''id'', ''style'', ''type'']),
         (''ol'', [''class'', ''dir'', ''id'', ''style'', ''type'']),
         (''p'', [''align'', ''class'', ''dir'', ''id'', ''style'']),
         (''span'', [''class'', ''id'', ''style'']),
         (''strong'', [''class'', ''id'', ''style'']),
         (''table'', [''align'', ''class'', ''dir'', ''frame'', ''id'', ''style'', ''width'']),
         (''td'', [''abbr'', ''align'', ''class'', ''colspan'', ''dir'', ''height'', ''id'', ''lang'', ''rowspan'',
            ''scope'', ''style'', ''width'']),
         (''th'', [''abbr'', ''align'', ''class'', ''colspan'', ''dir'', ''height'', ''id'', ''lang'', ''scope'',
            ''style'', ''width'']),
         (''tr'', [''align'', ''class'', ''dir'', ''id'', ''style'']),
         (''u'', [''class'', ''id'', ''style'']),
         (''ul'', [''class'', ''dir'', ''id'', ''style''])],
      oStyles = map (\<lambda>k. (k, True))
        [''background'', ''background-color'', ''border'', ''border-bottom'', ''border-bottom-color'',
         ''border-bottom-style'', ''border-bottom-width'', ''border-color'', ''border-left'', ''border-left-color'',
         ''border-left-style'', ''border-left-width'', ''border-right'', ''border-right-color'', ''border-right-style'',
         ''border-right-width'', ''border-style'', ''border-top'', ''border-top-color'', ''border-width'', ''color'',
         ''display'', ''font'', ''font-family'', ''font-size'', ''font-style'', ''font-variant'', ''font-weight'',
         ''height'', ''letter-spacing'', ''line-height'', ''list-style-type'', ''padding'', ''padding-bottom'',
         ''padding-left'', ''padding-right'', ''padding-top'', ''table-layout'', ''text-align'', ''text-decoration'',
         ''text-indent'', ''text-transform'', ''vertical-align'']\<rparr>"

text \<open>A Go map is an association list with one entry for a key; a missing key gives nil or false.\<close>

definition tagAttrs :: "options \<Rightarrow> atom \<Rightarrow> atom list" where
  "tagAttrs opts t = (case map_of (oTags opts) t of Some as \<Rightarrow> as | None \<Rightarrow> [])"

definition allowedStyle :: "options \<Rightarrow> bytes \<Rightarrow> bool" where
  "allowedStyle opts k = (map_of (oStyles opts) k = Some True)"

definition unionAttrs :: "htmlLib \<Rightarrow> atom list \<Rightarrow> atom list \<Rightarrow> atom list" where
  "unionAttrs lib x y = sort_key (hlAtomNum lib) (remdups (x @ y))"

definition unionTag :: "htmlLib \<Rightarrow> options \<Rightarrow> atom \<times> atom list \<Rightarrow> options" where
  "unionTag lib res t =
     res\<lparr>oTags := AList.update (fst t) (unionAttrs lib (tagAttrs res (fst t)) (snd t)) (oTags res)\<rparr>"

definition unionOptions :: "htmlLib \<Rightarrow> options list \<Rightarrow> options" where
  "unionOptions lib optsList =
     fold (\<lambda>opts res.
         let res1 = fold (\<lambda>t r. unionTag lib r t) (oTags opts) res in
         fold (\<lambda>(k, v) r. r\<lparr>oStyles := AList.update k v (oStyles r)\<rparr>) (oStyles opts) res1)
       optsList \<lparr>oTags = [], oStyles = []\<rparr>"

definition SafeOptions :: "htmlLib \<Rightarrow> options" where
  "SafeOptions lib =
     unionOptions lib [StrictEmail,
       \<lparr>oTags = [(''html'', []), (''body'', [''dir'', ''style'']), (''title'', [''dir''])], oStyles = []\<rparr>]"

definition hasAttr :: "atom list \<Rightarrow> atom \<Rightarrow> bool" where
  "hasAttr attrs k = list_ex (\<lambda>t. t = k) attrs"

subsection \<open>Attributes\<close>

text \<open>\<open>rewriteURL\<close>: the empty string drops the attribute.\<close>

definition rewriteURL :: "htmlLib \<Rightarrow> sanitizer \<Rightarrow> atom \<Rightarrow> bytes \<Rightarrow> bytes" where
  "rewriteURL lib san attr val =
     (case hlParseURL lib val of
        None \<Rightarrow> []
      | Some u \<Rightarrow>
          if urlScheme u = ''javascript'' then []
          else if urlScheme u = ''cid'' \<or> urlScheme u = ''http'' \<or> urlScheme u = ''https'' then
            (case sRewriteURL san of Some f \<Rightarrow> f attr u | None \<Rightarrow> urlString u)
          else [])"

definition escapeAttrByte :: "byte \<Rightarrow> bytes" where
  "escapeAttrByte c =
     (if c = CHR ''&'' then ''&amp;''
      else if c = CHR 0x27 then ''&#39;''
      else if c = CHR ''<'' then ''&#lt;''
      else if c = CHR ''>'' then ''&#gt;''
      else if c = DQ then ''&#34;''
      else if c = CR then ''&#13;''
      else [c])"

definition escapeAttr :: "bytes \<Rightarrow> bytes" where
  "escapeAttr src = concat (map escapeAttrByte src)"

text \<open>The URLs of a declaration are rewritten; nothing else of it is.\<close>

definition rewriteValue :: "htmlLib \<Rightarrow> sanitizer \<Rightarrow> cssValue \<Rightarrow> cssValue" where
  "rewriteValue lib san v =
     (if vType v = ValueURL then v\<lparr>vRaw := [], vValue := rewriteURL lib san ''style'' (vValue v)\<rparr> else v)"

definition rewriteDecl :: "htmlLib \<Rightarrow> sanitizer \<Rightarrow> cssDecl \<Rightarrow> cssDecl" where
  "rewriteDecl lib san d = d\<lparr>dValues := map (rewriteValue lib san) (dValues d)\<rparr>"

text \<open>The loop of \<open>styleAttr\<close>; \<open>i\<close> counts the declarations that were printed.\<close>

function styleLoop :: "htmlLib \<Rightarrow> sanitizer \<Rightarrow> options \<Rightarrow> bytes \<Rightarrow> nat \<Rightarrow> cssScanner \<Rightarrow> bytes go" where
  "styleLoop lib san opts buf i s =
     (case ParseDecl (hlFloats lib) s of
        Panic m \<Rightarrow> Panic m
      | Fail e \<Rightarrow> Fail e
      | Ok (ok, d, s1) \<Rightarrow>
          if \<not> ok then Ok buf
          else if \<not> allowedStyle opts (dProperty d) then styleLoop lib san opts buf i s1
          else
            (let buf1 = (if 0 < i then buf @ [SP] else buf) in
             styleLoop lib san opts (AppendDecl (hlFloats lib) buf1 (rewriteDecl lib san d)) (i + 1) s1))"
  by pat_completeness auto
termination
  by (relation "measure (\<lambda>(lib, san, opts, buf, i, s). leftS s)") (auto dest: ParseDecl_less)

declare styleLoop.simps [simp del]

definition styleAttr :: "htmlLib \<Rightarrow> sanitizer \<Rightarrow> options \<Rightarrow> bytes \<Rightarrow> bytes go" where
  "styleAttr lib san opts val =
     (case styleLoop lib san opts [] 0 (styleScanner val) of
        Ok buf \<Rightarrow> Ok ('' style='' @ [DQ] @ escapeAttr buf @ [DQ])
      | Fail e \<Rightarrow> Fail e
      | Panic m \<Rightarrow> Panic m)"

definition urlAttr :: "htmlLib \<Rightarrow> sanitizer \<Rightarrow> atom \<Rightarrow> bytes \<Rightarrow> bytes" where
  "urlAttr lib san attr val =
     (let encURL = rewriteURL lib san attr val in
      if encURL \<noteq> [] then [SP] @ attr @ ''='' @ [DQ] @ encURL @ [DQ] else [])"

subsection \<open>Sanitize\<close>

definition writeDst :: "htmlLib \<Rightarrow> bytes \<Rightarrow> bytes list \<Rightarrow> goerr option \<times> bytes list" where
  "writeDst lib b out = (case hlWriteErr lib (length out) of Some e \<Rightarrow> (Some e, out) | None \<Rightarrow> (None, out @ [b]))"

text \<open>One attribute: what is written for it, if anything.\<close>

definition attrText :: "htmlLib \<Rightarrow> sanitizer \<Rightarrow> options \<Rightarrow> atom list \<Rightarrow> attribute \<Rightarrow> bytes option go" where
  "attrText lib san opts allowTag at =
     (if aNamespace at \<noteq> [] then Ok None
      else
        (let key = hlLookup lib (aKey at) in
         if \<not> hasAttr allowTag key then Ok None
         else if key = ''style'' then
           (case styleAttr lib san opts (aVal at) of
              Ok b \<Rightarrow> Ok (Some b) | Fail e \<Rightarrow> Fail e | Panic m \<Rightarrow> Panic m)
         else if key = ''href'' \<or> key = ''src'' then
           (let b = urlAttr lib san key (aVal at) in Ok (if b = [] then None else Some b))
         else Ok (Some ([SP] @ aKey at @ ''='' @ goQuote (hlIsPrint lib) (aVal at)))))"

fun attrLoop :: "htmlLib \<Rightarrow> sanitizer \<Rightarrow> options \<Rightarrow> atom list \<Rightarrow> attribute list \<Rightarrow> bytes list \<Rightarrow>
    (goerr option \<times> bytes list) go" where
  "attrLoop lib san opts allowTag [] out = Ok (None, out)"
| "attrLoop lib san opts allowTag (at # ats) out =
     (case attrText lib san opts allowTag at of
        Panic m \<Rightarrow> Panic m
      | Fail e \<Rightarrow> Fail e
      | Ok None \<Rightarrow> attrLoop lib san opts allowTag ats out
      | Ok (Some b) \<Rightarrow>
          (case writeDst lib b out of
             (Some e, out1) \<Rightarrow> Ok (Some e, out1)
           | (None, out1) \<Rightarrow> attrLoop lib san opts allowTag ats out1))"

text \<open>An allowed start tag.\<close>

definition startTag :: "htmlLib \<Rightarrow> sanitizer \<Rightarrow> options \<Rightarrow> htmlToken \<Rightarrow> bytes list \<Rightarrow> (goerr option \<times> bytes list) go" where
  "startTag lib san opts t out =
     (case writeDst lib (''<'' @ htAtom t) out of
        (Some e, out1) \<Rightarrow> Ok (Some e, out1)
      | (None, out1) \<Rightarrow>
          (case attrLoop lib san opts (tagAttrs opts (htAtom t)) (htAttr t) out1 of
             Panic m \<Rightarrow> Panic m
           | Fail e \<Rightarrow> Fail e
           | Ok (Some e, out2) \<Rightarrow> Ok (Some e, out2)
           | Ok (None, out2) \<Rightarrow>
               Ok (writeDst lib (if htType t = SelfClosingTagToken then ''/>'' else ''>'') out2)))"

fun sanitizeLoop :: "htmlLib \<Rightarrow> sanitizer \<Rightarrow> options \<Rightarrow> goerr \<Rightarrow> bool \<Rightarrow> htmlToken list \<Rightarrow> bytes list \<Rightarrow>
    (goerr option \<times> bytes list) go" where
  "sanitizeLoop lib san opts zerr discarding [] out = Ok (if zerr \<noteq> IoErr io_error.EOF then Some zerr else None, out)"
| "sanitizeLoop lib san opts zerr discarding (t # ts) out =
     (let found = (htAtom t \<in> fst ` set (oTags opts));
          copy = (\<lambda>disc.
            if \<not> disc then
              (case writeDst lib (htRaw t) out of
                 (Some e, out1) \<Rightarrow> Ok (Some e, out1)
               | (None, out1) \<Rightarrow> sanitizeLoop lib san opts zerr disc ts out1)
            else sanitizeLoop lib san opts zerr disc ts out) in
      if htType t = StartTagToken \<or> htType t = SelfClosingTagToken then
        (if \<not> found then copy True
         else
           (case startTag lib san opts t out of
              Panic m \<Rightarrow> Panic m
            | Fail e \<Rightarrow> Fail e
            | Ok (Some e, out1) \<Rightarrow> Ok (Some e, out1)
            | Ok (None, out1) \<Rightarrow> sanitizeLoop lib san opts zerr False ts out1))
      else if htType t = EndTagToken then
        (if \<not> found then sanitizeLoop lib san opts zerr False ts out else copy False)
      else copy discarding)"

text \<open>\<open>Sanitize\<close> of the tokens up to the tokenizer's error token, whose error is \<open>zerr\<close>; the count is
  that of the bytes written.\<close>

definition Sanitize :: "htmlLib \<Rightarrow> sanitizer \<Rightarrow> htmlToken list \<Rightarrow> goerr \<Rightarrow> (nat \<times> goerr option \<times> bytes list) go" where
  "Sanitize lib san ts zerr =
     (let opts = (case sOptions san of Some o1 \<Rightarrow> o1 | None \<Rightarrow> SafeOptions lib) in
      case sanitizeLoop lib san opts zerr False ts [] of
        Ok (err, out) \<Rightarrow> Ok (length (concat out), err, out)
      | Fail e \<Rightarrow> Fail e
      | Panic m \<Rightarrow> Panic m)"


subsection \<open>What is written\<close>

text \<open>Text that cannot end an attribute value or begin a tag.\<close>

definition inert :: "bytes \<Rightarrow> bool" where
  "inert b \<longleftrightarrow> list_all (\<lambda>c. c \<notin> {DQ, CHR 0x27, CHR ''<'', CHR ''>'', CR}) b"

lemma inert_escapeAttr: "inert (escapeAttr src)"
proof -
  have "inert (escapeAttrByte c)" for c by (simp add: inert_def escapeAttrByte_def)
  then show ?thesis by (induction src) (simp_all add: escapeAttr_def inert_def)
qed

definition styleText :: "bytes \<Rightarrow> bool" where
  "styleText b \<longleftrightarrow> (\<exists>body. b = '' style='' @ [DQ] @ body @ [DQ] \<and> inert body)"

lemma styleAttr_text: "styleAttr lib san opts val = Ok b \<Longrightarrow> styleText b"
  using inert_escapeAttr by (auto simp: styleAttr_def styleText_def split: go.splits)

text \<open>A style attribute stays in its quotes: whatever style the message has, the attribute that is
  written is \<open>style="..."\<close> around a text without quotes, angle brackets and carriage returns.\<close>

theorem style_attr_closed: "case styleAttr lib san opts val of Ok b \<Rightarrow> styleText b | _ \<Rightarrow> True"
  by (auto dest: styleAttr_text split: go.split)

text \<open>An address that is kept has one of three schemes.\<close>

definition keptURL :: "htmlLib \<Rightarrow> sanitizer \<Rightarrow> atom \<Rightarrow> bytes \<Rightarrow> bytes \<Rightarrow> bool" where
  "keptURL lib san attr val u \<longleftrightarrow>
     (case hlParseURL lib val of
        None \<Rightarrow> False
      | Some p \<Rightarrow> urlScheme p \<in> {''cid'', ''http'', ''https''} \<and>
          u = (case sRewriteURL san of Some f \<Rightarrow> f attr p | None \<Rightarrow> urlString p))"

lemma rewriteURL_kept: "rewriteURL lib san attr val = u \<Longrightarrow> u \<noteq> [] \<Longrightarrow> keptURL lib san attr val u"
  by (auto simp: rewriteURL_def keptURL_def split: option.splits if_splits)

text \<open>What \<open>Sanitize\<close> may write for an attribute of a tag, and at all.\<close>

definition okAttr :: "htmlLib \<Rightarrow> sanitizer \<Rightarrow> options \<Rightarrow> htmlToken \<Rightarrow> bytes \<Rightarrow> bool" where
  "okAttr lib san opts t b \<longleftrightarrow>
     (\<exists>at \<in> set (htAttr t). aNamespace at = [] \<and> hlLookup lib (aKey at) \<in> set (tagAttrs opts (htAtom t)) \<and>
        (if hlLookup lib (aKey at) = ''style'' then styleText b
         else if hlLookup lib (aKey at) \<in> {''href'', ''src''} then
           (\<exists>u. b = [SP] @ hlLookup lib (aKey at) @ ''='' @ [DQ] @ u @ [DQ] \<and>
              keptURL lib san (hlLookup lib (aKey at)) (aVal at) u)
         else b = [SP] @ aKey at @ ''='' @ goQuote (hlIsPrint lib) (aVal at)))"

definition okWrite :: "htmlLib \<Rightarrow> sanitizer \<Rightarrow> options \<Rightarrow> htmlToken \<Rightarrow> bytes \<Rightarrow> bool" where
  "okWrite lib san opts t b \<longleftrightarrow>
     (if htType t \<in> {StartTagToken, SelfClosingTagToken} then
        htAtom t \<in> fst ` set (oTags opts) \<and> (b \<in> {''<'' @ htAtom t, ''>'', ''/>''} \<or> okAttr lib san opts t b)
      else b = htRaw t \<and> (htType t = EndTagToken \<longrightarrow> htAtom t \<in> fst ` set (oTags opts)))"

lemma hasAttr_iff: "hasAttr attrs k \<longleftrightarrow> k \<in> set attrs"
  by (induction attrs) (auto simp: hasAttr_def)

lemma attrText_ok:
  assumes "attrText lib san opts (tagAttrs opts (htAtom t)) at = Ok (Some b)" "at \<in> set (htAttr t)"
  shows "okAttr lib san opts t b"
  unfolding okAttr_def
proof (intro bexI [OF _ assms(2)] conjI)
  show "aNamespace at = []" "hlLookup lib (aKey at) \<in> set (tagAttrs opts (htAtom t))"
    using assms(1) by (auto simp: attrText_def hasAttr_iff Let_def split: if_splits)
  show "if hlLookup lib (aKey at) = ''style'' then styleText b
      else if hlLookup lib (aKey at) \<in> {''href'', ''src''} then
        \<exists>u. b = [SP] @ hlLookup lib (aKey at) @ ''='' @ [DQ] @ u @ [DQ] \<and> keptURL lib san (hlLookup lib (aKey at)) (aVal at) u
      else b = [SP] @ aKey at @ ''='' @ goQuote (hlIsPrint lib) (aVal at)"
    using assms(1) styleAttr_text rewriteURL_kept
    by (auto simp: attrText_def urlAttr_def Let_def split: if_splits go.splits)
qed

lemma writeDst_ok:
  "writeDst lib b out = (e, out1) \<Longrightarrow> list_all P out \<Longrightarrow> P b \<Longrightarrow> list_all P out1"
  by (auto simp: writeDst_def split: option.splits)

lemma attrLoop_ok:
  "attrLoop lib san opts (tagAttrs opts (htAtom t)) ats out = Ok (e, out1) \<Longrightarrow> set ats \<subseteq> set (htAttr t) \<Longrightarrow>
   list_all P out \<Longrightarrow> (\<And>b. okAttr lib san opts t b \<Longrightarrow> P b) \<Longrightarrow> list_all P out1"
proof (induction ats arbitrary: out)
  case Nil
  then show ?case by simp
next
  case (Cons at ats)
  then show ?case
    using attrText_ok [of lib san opts t at] writeDst_ok [of lib _ out _ _ P]
    by (auto split: go.splits option.splits prod.splits)
qed

lemma startTag_ok:
  assumes "startTag lib san opts t out = Ok (e, out1)" "list_all P out"
    "\<And>b. b \<in> {''<'' @ htAtom t, ''>'', ''/>''} \<or> okAttr lib san opts t b \<Longrightarrow> P b"
  shows "list_all P out1"
proof -
  obtain e1 out2 where w: "writeDst lib (''<'' @ htAtom t) out = (e1, out2)" by fastforce
  have o2: "list_all P out2" using writeDst_ok [OF w assms(2)] assms(3) by blast
  show ?thesis
  proof (cases e1)
    case (Some x)
    then show ?thesis using assms(1) w o2 by (auto simp: startTag_def)
  next
    case None
    obtain e3 out3 where a: "attrLoop lib san opts (tagAttrs opts (htAtom t)) (htAttr t) out2 = Ok (e3, out3)"
      using assms(1) w None by (auto simp: startTag_def split: go.splits)
    have o3: "list_all P out3" by (rule attrLoop_ok [OF a subset_refl o2]) (use assms(3) in blast)
    show ?thesis
    proof (cases e3)
      case (Some x)
      then show ?thesis using assms(1) w None a o3 by (auto simp: startTag_def)
    next
      case e3: None
      define b where "b = (if htType t = SelfClosingTagToken then ''/>'' else ''>'')"
      have "P b" using assms(3) [of b] by (auto simp: b_def)
      moreover have "writeDst lib b out3 = (e, out1)" using assms(1) w None a e3 by (simp add: startTag_def b_def)
      ultimately show ?thesis using writeDst_ok o3 by blast
    qed
  qed
qed

lemma sanitizeLoop_ok:
  "sanitizeLoop lib san opts zerr disc ts out = Ok (e, out1) \<Longrightarrow> list_all P out \<Longrightarrow>
   (\<And>t b. t \<in> set ts \<Longrightarrow> okWrite lib san opts t b \<Longrightarrow> P b) \<Longrightarrow> list_all P out1"
proof (induction ts arbitrary: disc out)
  case Nil
  then show ?case by simp
next
  case (Cons t ts)
  have P: "okWrite lib san opts t b \<Longrightarrow> P b" for b using Cons.prems(3) by auto
  have IH: "sanitizeLoop lib san opts zerr d ts out2 = Ok (e, out1) \<Longrightarrow> list_all P out2 \<Longrightarrow> list_all P out1" for d out2
    by (rule Cons.IH) (auto intro: Cons.prems(3))
  let ?found = "htAtom t \<in> fst ` set (oTags opts)"
  show ?case
  proof (cases "htType t \<in> {StartTagToken, SelfClosingTagToken}")
    case True
    show ?thesis
    proof (cases ?found)
      case False
      then show ?thesis using Cons.prems(1,2) True IH by (auto simp: Let_def)
    next
      case found: True
      have tag: "b \<in> {''<'' @ htAtom t, ''>'', ''/>''} \<or> okAttr lib san opts t b \<Longrightarrow> P b" for b
        using P True found by (simp add: okWrite_def)
      obtain e2 out2 where st: "startTag lib san opts t out = Ok (e2, out2)"
        using Cons.prems(1) True found by (auto simp: Let_def split: go.splits)
      have "list_all P out2" by (rule startTag_ok [OF st Cons.prems(2) tag])
      then show ?thesis using Cons.prems(1) True found st IH by (cases e2) (auto simp: Let_def)
    qed
  next
    case False
    obtain e2 out2 where w: "writeDst lib (htRaw t) out = (e2, out2)" by fastforce
    have "htType t = EndTagToken \<longrightarrow> ?found \<Longrightarrow> P (htRaw t)"
      using P [of "htRaw t"] False by (auto simp: okWrite_def)
    then have "htType t = EndTagToken \<longrightarrow> ?found \<Longrightarrow> list_all P out2" using writeDst_ok [OF w Cons.prems(2)] by blast
    then show ?thesis using Cons.prems(1,2) False w IH
      by (cases e2; cases "htType t = EndTagToken"; cases ?found) (auto simp: Let_def split: if_splits)
  qed
qed

text \<open>The options in force.\<close>

definition inForce :: "htmlLib \<Rightarrow> sanitizer \<Rightarrow> options" where
  "inForce lib san = (case sOptions san of Some o1 \<Rightarrow> o1 | None \<Rightarrow> SafeOptions lib)"


subsection \<open>Discarding\<close>

lemma discarded:
  "list_all (\<lambda>t. htType t \<in> {TextToken, CommentToken, DoctypeToken}) mid \<Longrightarrow>
   sanitizeLoop lib san opts zerr True (mid @ ts) out = sanitizeLoop lib san opts zerr True ts out"
  by (induction mid) (auto simp: Let_def)


definition exampleLib :: htmlLib where
  "exampleLib = \<lparr>hlFloats = exampleFloats, hlLookup = (\<lambda>k. k), hlAtomNum = (\<lambda>_. 0), hlParseURL = (\<lambda>_. None),
     hlIsPrint = (\<lambda>_. True), hlWriteErr = (\<lambda>_. None)\<rparr>"

definition exampleSanitizer :: sanitizer where
  "exampleSanitizer = \<lparr>sRewriteURL = None, sOptions = Some StrictEmail\<rparr>"

definition tok :: "tokenType \<Rightarrow> atom \<Rightarrow> bytes \<Rightarrow> htmlToken" where
  "tok t a r = \<lparr>htType = t, htRaw = r, htAtom = a, htAttr = []\<rparr>"


subsection \<open>Unions of options\<close>

definition wellFormed :: "options \<Rightarrow> bool" where
  "wellFormed opts \<longleftrightarrow> distinct (map fst (oTags opts))"

lemma tagAttrs_unionTag:
  "set (tagAttrs (unionTag lib res t) a) = set (tagAttrs res a) \<union> (if a = fst t then set (snd t) else {})"
  by (auto simp: unionTag_def tagAttrs_def update_conv' unionAttrs_def split: option.splits)

lemma tagAttrs_fold:
  "set (tagAttrs (fold (\<lambda>t r. unionTag lib r t) tags res) a) = set (tagAttrs res a) \<union> (\<Union>t\<in>set tags. if a = fst t then set (snd t) else {})"
  by (induction tags arbitrary: res) (auto simp: tagAttrs_unionTag)

lemma keys_fold:
  "fst ` set (oTags (fold (\<lambda>t r. unionTag lib r t) tags res)) = fst ` set (oTags res) \<union> fst ` set tags"
proof (induction tags arbitrary: res)
  case Nil
  then show ?case by simp
next
  case (Cons t tags)
  have "fst ` set (AList.update k v al) = insert k (fst ` set al)" for k v and al :: "(atom \<times> atom list) list"
    by (induction al) auto
  then show ?case using Cons by (auto simp: unionTag_def)
qed

lemma tagAttrs_entries:
  "wellFormed opts \<Longrightarrow> (\<Union>t\<in>set (oTags opts). if a = fst t then set (snd t) else {}) = set (tagAttrs opts a)"
  by (auto simp: wellFormed_def tagAttrs_def split: option.splits if_splits
      dest: map_of_is_SomeI map_of_SomeD)

definition unionStep :: "htmlLib \<Rightarrow> options \<Rightarrow> options \<Rightarrow> options" where
  "unionStep lib opts res =
     fold (\<lambda>(k, v) r. r\<lparr>oStyles := AList.update k v (oStyles r)\<rparr>) (oStyles opts)
       (fold (\<lambda>t r. unionTag lib r t) (oTags opts) res)"

lemma styles_tags: "oTags (fold (\<lambda>(k, v) r. r\<lparr>oStyles := AList.update k v (oStyles r)\<rparr>) l r) = oTags r"
  by (induction l arbitrary: r) auto

lemma union_step:
  assumes "wellFormed opts"
  shows "set (tagAttrs (unionStep lib opts res) a) = set (tagAttrs res a) \<union> set (tagAttrs opts a)"
    "fst ` set (oTags (unionStep lib opts res)) = fst ` set (oTags res) \<union> fst ` set (oTags opts)"
proof -
  let ?r = "fold (\<lambda>t r. unionTag lib r t) (oTags opts) res"
  have "tagAttrs (unionStep lib opts res) a = tagAttrs ?r a" by (simp add: unionStep_def tagAttrs_def styles_tags)
  then show "set (tagAttrs (unionStep lib opts res) a) = set (tagAttrs res a) \<union> set (tagAttrs opts a)"
    using tagAttrs_entries [OF assms] by (simp add: tagAttrs_fold)
  show "fst ` set (oTags (unionStep lib opts res)) = fst ` set (oTags res) \<union> fst ` set (oTags opts)"
    by (simp add: unionStep_def styles_tags keys_fold)
qed

lemma unionOptions_fold: "unionOptions lib os = fold (unionStep lib) os \<lparr>oTags = [], oStyles = []\<rparr>"
  by (simp add: unionOptions_def unionStep_def [abs_def] Let_def)

text \<open>\<open>unionOptions\<close> allows an element iff one of the options does, and for it the attributes that one of
  them allows.\<close>

theorem union_allows:
  assumes "list_all wellFormed os"
  shows "set (tagAttrs (unionOptions lib os) a) = (\<Union>o1\<in>set os. set (tagAttrs o1 a)) \<and>
    fst ` set (oTags (unionOptions lib os)) = (\<Union>o1\<in>set os. fst ` set (oTags o1))"
proof -
  have "set (tagAttrs (fold (unionStep lib) os r) a) = set (tagAttrs r a) \<union> (\<Union>o1\<in>set os. set (tagAttrs o1 a)) \<and>
      fst ` set (oTags (fold (unionStep lib) os r)) = fst ` set (oTags r) \<union> (\<Union>o1\<in>set os. fst ` set (oTags o1))" for r
    using assms by (induction os arbitrary: r) (auto simp: union_step)
  then show ?thesis by (simp add: unionOptions_fold tagAttrs_def)
qed

theorem union_allows_witness:
  "''body'' \<in> fst ` set (oTags (SafeOptions exampleLib)) \<and>
   set (tagAttrs (SafeOptions exampleLib) ''body'') = {''dir'', ''style''}"
proof -
  let ?more = "\<lparr>oTags = [(''html'', []), (''body'', [''dir'', ''style'']), (''title'', [''dir''])], oStyles = []\<rparr>"
  have "list_all wellFormed [StrictEmail, ?more]" by (simp add: wellFormed_def StrictEmail_def)
  from union_allows [OF this, of exampleLib "''body''", folded SafeOptions_def] show ?thesis
    by (simp add: set_eq_iff tagAttrs_def StrictEmail_def)
qed

subsection \<open>What gets through\<close>

text \<open>An attribute breaks out of its quotes: values are printed with Go's \<open>%q\<close>, whose backslash is no
  escape in HTML, so a quote in the value ends the attribute and what follows becomes an attribute of its own.
  The paragraph below is written with an event handler, whatever the sanitizer is.\<close>

theorem attribute_breaks_out:
  "Sanitize exampleLib exampleSanitizer
     [\<lparr>htType = StartTagToken, htRaw = [], htAtom = ''p'',
       htAttr = [\<lparr>aNamespace = [], aKey = ''class'', aVal = ''x'' @ [DQ] @ '' onclick='' @ [DQ] @ ''evil()''\<rparr>]\<rparr>] (IoErr io_error.EOF) =
   Ok (32, None, [''<p'', '' class='' @ [DQ] @ ''x'' @ [BSL, DQ] @ '' onclick='' @ [BSL, DQ] @ ''evil()'' @ [DQ], ''>''])"
  by (simp add: Sanitize_def exampleSanitizer_def exampleLib_def startTag_def writeDst_def attrText_def tagAttrs_def
      StrictEmail_def hasAttr_def goQuote_def quoteLoop.simps decodeRune_def RuneError_def Let_def)

text \<open>A declaration of one function with a string in it.\<close>

lemma function_decl:
  assumes "identBytes p" "identBytes f" "f \<noteq> ''url''" "textRunes rs"
    "stands s (p @ '':'' @ f @ ''('' @ DQ # concat (map escRune rs) @ DQ # '')'')"
  shows "\<exists>d s'. ParseDecl fl s = Ok (True, d, s') \<and> dProperty d = p \<and> stands s' [] \<and>
    map (\<lambda>v. (vType v, vValue v)) (dValues d) = [(ValueFunction, f), (ValueString, utf8 rs), (ValueDelim, '')'')]"
proof -
  obtain r ns where p: "p = utf8 (r # ns)" "nameRunes (r # ns)" "isNameStartCodePoint (int r)"
    using assms(1) unfolding identBytes_def by blast
  obtain q qs where f: "f = utf8 (q # qs)" "nameRunes (q # qs)" "isNameStartCodePoint (int q)"
    using assms(2) unfolding identBytes_def by blast
  let ?w3 = "DQ # concat (map escRune rs) @ DQ # '')''"
  let ?w2 = "f @ CHR ''('' # ?w3"
  have "stands s (utf8 (r # ns) @ CHR '':'' # ?w2)" using assms(5) p(1) by simp
  from emits_ident [OF this p(2,3)] have s1: "emits (NextCss s) Ident p p (CHR '':'' # ?w2)"
    using p(1) by (simp add: endsName_def)
  then have s2: "emits (NextCss (NextCss s)) Colon [] [] ?w2" by (intro emits_colon) (simp add: emits_def)
  let ?t = "NextCss (NextCss (NextCss s))"
  have s3: "emits ?t Function f f ?w3"
    using emits_function [of "NextCss (NextCss s)" q qs ?w3, folded f(1)] s2 f assms(3) by (simp add: emits_def)
  then have s4: "emitsValue (NextCss ?t) String (utf8 rs) '')''"
    using emits_string [of ?t rs "'')''"] assms(4) by (simp add: emits_def)
  then have s5: "emits (NextCss (NextCss ?t)) RightParen [] [] []"
    by (intro emits_rparen) (simp add: emitsValue_def)
  then have s6: "scToken (NextCss (NextCss (NextCss ?t))) = EOF" "stands (NextCss (NextCss (NextCss ?t))) []"
    using emits_EOF [of "NextCss (NextCss ?t)"] by (simp_all add: emits_def)
  have "parseValues fl d ?t = Ok (True, d\<lparr>dValues := dValues d @ [valueOf ?t ValueFunction 0,
      valueOf (NextCss ?t) ValueString 0, valueOf (NextCss (NextCss ?t)) ValueDelim 0]\<rparr>, NextCss (NextCss (NextCss ?t)))" for d
    using s3 s4 s5 s6
    by (simp add: parseValues.simps [of fl _ ?t] parseValues.simps [of fl _ "NextCss ?t"]
        parseValues.simps [of fl _ "NextCss (NextCss ?t)"] parseValues.simps [of fl _ "NextCss (NextCss (NextCss ?t))"]
        valueType_def emits_def emitsValue_def)
  then show ?thesis
    using s1 s2 s3 s4 s5 s6 by (simp add: ParseDecl_def parseDecl_def Let_def emits_def emitsValue_def valueOf_def clearDecl_def)
qed

lemma function_printed:
  assumes "identBytes (dProperty d)" "identBytes f"
    "map (\<lambda>v. (vType v, vValue v)) (dValues d) = [(ValueFunction, f), (ValueString, utf8 rs), (ValueDelim, '')'')]"
  shows "AppendDecl fl [] (rewriteDecl lib san d) =
    dProperty d @ '': '' @ f @ ''('' @ DQ # concat (map escRune rs) @ DQ # '');''"
proof -
  obtain u v w where vs: "dValues d = [u, v, w]" "vType u = ValueFunction" "vValue u = f" "vType v = ValueString"
      "vValue v = utf8 rs" "vType w = ValueDelim" "vValue w = '')''"
    using assms(3) by (auto simp: map_eq_Cons_conv)
  obtain ns where f: "f = utf8 ns" "nameRunes ns" using assms(2) unfolding identBytes_def by blast
  have rw: "rewriteDecl lib san d = d" using vs by (simp add: rewriteDecl_def rewriteValue_def)
  show ?thesis unfolding rw appendDecl_eq [OF assms(1)] using vs f escaped_name [OF f(2), of "[]"]
    by (simp add: spaced_def AppendValue_def escaped_utf8)
qed

text \<open>Only \<open>url(\<close> in lower case is an address: what a style puts in any other function, \<open>URL(\<close> among them, is
  written as it was, whatever rewriting of addresses is set up and whatever its scheme.\<close>

theorem upper_url_kept:
  assumes "identBytes p" "allowedStyle opts p" "identBytes f" "f \<noteq> ''url''" "textRunes rs"
  shows "styleAttr lib san opts (p @ '':'' @ f @ ''('' @ DQ # concat (map escRune rs) @ DQ # '')'') =
    Ok ('' style='' @ [DQ] @ escapeAttr (p @ '': '' @ f @ ''('' @ DQ # concat (map escRune rs) @ DQ # '');'') @ [DQ])"
proof -
  obtain d s' where d: "ParseDecl (hlFloats lib) (styleScanner (p @ '':'' @ f @ ''('' @ DQ # concat (map escRune rs) @ DQ # '')''))
      = Ok (True, d, s')" "dProperty d = p" "stands s' []"
      "map (\<lambda>v. (vType v, vValue v)) (dValues d) = [(ValueFunction, f), (ValueString, utf8 rs), (ValueDelim, '')'')]"
    using function_decl [OF assms(1,3,4,5) stands_style, of "hlFloats lib"] by (elim exE conjE) (rule that)
  have e: "ParseDecl (hlFloats lib) s' = Ok (False, clearDecl, NextCss s')"
    using emits_EOF [OF d(3)] by (simp add: ParseDecl_def Let_def)
  have pr: "AppendDecl (hlFloats lib) [] (rewriteDecl lib san d) =
      p @ '': '' @ f @ ''('' @ DQ # concat (map escRune rs) @ DQ # '');''"
    using function_printed [of d f rs] assms(1,3) d(2,4) by simp
  have l: "styleLoop lib san opts (AppendDecl (hlFloats lib) [] (rewriteDecl lib san d)) 1 s' =
      Ok (AppendDecl (hlFloats lib) [] (rewriteDecl lib san d))"
    by (subst styleLoop.simps) (simp add: e)
  have "styleLoop lib san opts [] 0 (styleScanner (p @ '':'' @ f @ ''('' @ DQ # concat (map escRune rs) @ DQ # '')'')) =
      Ok (AppendDecl (hlFloats lib) [] (rewriteDecl lib san d))"
    by (subst styleLoop.simps) (simp add: d(1,2) assms(2) l [simplified] del: append.simps append_Cons append_Nil)
  then show ?thesis unfolding styleAttr_def by (simp add: pr)
qed

lemma utf8_bytes: "list_all (\<lambda>c. bval c < 128) b \<Longrightarrow> utf8 (map bval b) = b"
  by (induction b) (simp_all add: encodeRune_ascii char_of_bval)

lemma identBytes_letters: "b \<noteq> [] \<Longrightarrow> list_all (\<lambda>c. bval c < 128 \<and> isLetter (int (bval c))) b \<Longrightarrow> identBytes b"
  unfolding identBytes_def
  by (rule exI [of _ "bval (hd b)"], rule exI [of _ "map bval (tl b)"]) (cases b, auto simp: utf8_bytes list_all_iff encodeRune_ascii nameRunes_def
      validRune_def isSurrogate_def isNameCodePoint_def isNameStartCodePoint_def char_of_bval)

theorem upper_url_kept_witness:
  "styleAttr exampleLib exampleSanitizer StrictEmail (''color'' @ '':'' @ ''URL'' @ ''('' @ DQ # concat (map escRune []) @ DQ # '')'') =
    Ok ('' style='' @ [DQ] @ escapeAttr (''color'' @ '': '' @ ''URL'' @ ''('' @ DQ # concat (map escRune []) @ DQ # '');'') @ [DQ])"
  by (rule upper_url_kept)
    (simp_all add: identBytes_letters textRunes_def allowedStyle_def StrictEmail_def isLetter_def)

end
