(* ===== verification/DkimBody.thy ===== *)
theory DkimBody
  imports GoIO
begin

text \<open>
  The canonicalisation of message bodies in \<open>email/dkim/dkim_verify.go\<close>: the readers \<open>reduceWhitespace\<close> and
  \<open>trimTrailingCRLFs\<close>, and the copy of a body into a hash.

  A body is an \<open>io.Reader\<close> (\<open>chunks\<close>), perhaps under an \<open>io.LimitReader\<close>. \<open>copyBody\<close> is \<open>io.Copy\<close> with its buffer
  of 32 KB. The result of the copy is compared with \<open>trimSpec\<close>, a function of the text of the body alone: the chunks in
  which it is read do not matter (\<open>copyBody_spec\<close>), and on a text whose lines end in CRLF it is the canonical body of
  RFC 6376 that the comments quote (\<open>trimSpec_lines\<close>). It need not return: a run of empty lines that fills the
  buffer makes the reader panic.
\<close>

subsection \<open>The readers\<close>

text \<open>The source of a body: the \<open>io.Reader\<close>, what is left of the limit, and the state of \<open>reduceWhitespace\<close> if it
  is used.\<close>

record bodySrc =
  bsSrc :: chunks
  bsLimit :: "int option"
  bsRelaxed :: bool
  bsInWS :: bool

text \<open>\<open>io.LimitedReader.Read\<close>.\<close>

definition limRead :: "nat \<Rightarrow> bodySrc \<Rightarrow> bytes \<times> rdErr option \<times> bodySrc" where
  "limRead k r =
     (case bsLimit r of
        None \<Rightarrow> (let (b, e, src) = readSrc k (bsSrc r) in (b, e, r\<lparr>bsSrc := src\<rparr>))
      | Some n \<Rightarrow>
          if n \<le> 0 then ([], Some RdEOF, r)
          else (let (b, e, src) = readSrc (min k (nat n)) (bsSrc r) in
                (b, e, r\<lparr>bsSrc := src, bsLimit := Some (n - int (length b))\<rparr>)))"

text \<open>The loop of \<open>reduceWhitespace.Read\<close> over the bytes read. It appends to the slice it reads from, at or before the
  position of the current byte (\<open>length_reduceWS\<close>), so what is read is what was read before the loop.\<close>

fun reduceWS :: "bool \<Rightarrow> bytes \<Rightarrow> bytes \<times> bool" where
  "reduceWS w [] = ([], w)"
| "reduceWS w (c # cs) =
     (if c = SP \<or> c = TAB then reduceWS True cs
      else
        (let (out, w1) = reduceWS False cs in
         ((if w \<and> c \<noteq> CR \<and> c \<noteq> LF then [SP] else []) @ c # out, w1)))"

definition reduceRead :: "nat \<Rightarrow> bodySrc \<Rightarrow> bytes \<times> rdErr option \<times> bodySrc" where
  "reduceRead k r =
     (if k = 0 then limRead k r
      else
        (let (b, e, r1) = limRead (if bsInWS r then k - 1 else k) r;
             (out, w) = reduceWS (bsInWS r) b in
         (out, e, r1\<lparr>bsInWS := w\<rparr>)))"

definition bodyRead :: "nat \<Rightarrow> bodySrc \<Rightarrow> bytes \<times> rdErr option \<times> bodySrc" where
  "bodyRead k r = (if bsRelaxed r then reduceRead k r else limRead k r)"

lemma length_reduceWS:
  "reduceWS w b = (out, w1) \<Longrightarrow> length out + (if w1 then 1 else 0) \<le> length b + (if w then 1 else 0)"
proof (induction w b arbitrary: out w1 rule: reduceWS.induct)
  case (1 w)
  then show ?case by simp
next
  case (2 w c cs)
  then show ?case
    using 2(2) [of "fst (reduceWS False cs)" "snd (reduceWS False cs)"] by (auto simp: Let_def split: if_splits prod.splits)
qed

text \<open>What is left to do with a source; every \<open>Read\<close> without an error makes it smaller.\<close>

definition srcWork :: "bodySrc \<Rightarrow> nat" where
  "srcWork r = 4 * srcSize (bsSrc r) + length (bsSrc r) + (if bsInWS r then 3 else 0)"

lemma readSrc_less:
  "readSrc k src = (b, None, src') \<Longrightarrow> 0 < k \<Longrightarrow>
   4 * srcSize src' + length src' + 3 * length b < 4 * srcSize src + length src \<and> length b \<le> k"
  by (cases src) (auto simp: readSrc_def srcSize_def split: prod.splits if_splits)

lemma readSrc_le:
  "readSrc k src = (b, e, src') \<Longrightarrow>
   4 * srcSize src' + length src' + 3 * length b \<le> 4 * srcSize src + length src \<and> length b \<le> k"
  by (cases src) (auto simp: readSrc_def srcSize_def split: prod.splits if_splits)

lemma limRead_less:
  "limRead k r = (b, None, r1) \<Longrightarrow> 0 < k \<Longrightarrow>
   srcWork r1 + 3 * length b < srcWork r \<and> bsInWS r1 = bsInWS r \<and> bsRelaxed r1 = bsRelaxed r"
  using readSrc_less [of k "bsSrc r" b] readSrc_less [of "min k (nat n)" "bsSrc r" b for n]
  by (fastforce simp: limRead_def srcWork_def split: option.splits if_splits prod.splits)

lemma limRead_le:
  "limRead k r = (b, e, r1) \<Longrightarrow>
   srcWork r1 + 3 * length b \<le> srcWork r \<and> bsInWS r1 = bsInWS r \<and> bsRelaxed r1 = bsRelaxed r"
  using readSrc_le [of k "bsSrc r" b] readSrc_le [of "min k (nat n)" "bsSrc r" b for n]
  by (fastforce simp: limRead_def srcWork_def split: option.splits if_splits prod.splits)

lemma bodyRead_less:
  assumes "bodyRead k r = (out, None, r1)" "1 < k"
  shows "srcWork r1 + 3 * length out < srcWork r"
proof (cases "bsRelaxed r")
  case True
  define k1 where "k1 = (if bsInWS r then k - 1 else k)"
  obtain b e r2 where l: "limRead k1 r = (b, e, r2)" by (metis prod.collapse)
  obtain o2 w where w: "reduceWS (bsInWS r) b = (o2, w)" by fastforce
  have "out = o2" "e = None" "r1 = r2\<lparr>bsInWS := w\<rparr>"
    using assms True l w by (simp_all add: bodyRead_def reduceRead_def k1_def)
  then show ?thesis using limRead_less [of k1 r b r2] length_reduceWS [OF w] l assms(2)
    by (auto simp: srcWork_def k1_def split: if_splits)
qed (use assms limRead_less [of k r out r1] in \<open>simp add: bodyRead_def\<close>)

lemma bodyRead_le:
  assumes "bodyRead k r = (out, e, r1)"
  shows "srcWork r1 + 3 * length out \<le> srcWork r"
proof (cases "bsRelaxed r \<and> k \<noteq> 0")
  case True
  define k1 where "k1 = (if bsInWS r then k - 1 else k)"
  obtain b e2 r2 where l: "limRead k1 r = (b, e2, r2)" by (metis prod.collapse)
  obtain o2 w where w: "reduceWS (bsInWS r) b = (o2, w)" by fastforce
  have "out = o2" "r1 = r2\<lparr>bsInWS := w\<rparr>"
    using assms True l w by (simp_all add: bodyRead_def reduceRead_def k1_def)
  then show ?thesis using limRead_le [OF l] length_reduceWS [OF w] by (auto simp: srcWork_def split: if_splits)
qed (use assms limRead_le [of k r out e r1] in \<open>auto simp: bodyRead_def reduceRead_def split: if_splits\<close>)

subsection \<open>trimTrailingCRLFs\<close>

text \<open>\<open>tData\<close> is \<open>s.data[s.off : s.off+s.len]\<close>.\<close>

record trimmer =
  tR :: bodySrc
  tData :: bytes
  tErr :: "rdErr option"
  tInCR :: bool
  tNum :: nat
  tEpilogue :: bool

definition newTrimmer :: "bodySrc \<Rightarrow> trimmer" where
  "newTrimmer r = \<lparr>tR = r, tData = [], tErr = None, tInCR = False, tNum = 0, tEpilogue = False\<rparr>"

definition newSimpleBody :: "chunks \<Rightarrow> int option \<Rightarrow> trimmer" where
  "newSimpleBody src lim = newTrimmer \<lparr>bsSrc = src, bsLimit = lim, bsRelaxed = False, bsInWS = False\<rparr>"

definition newRelaxedBody :: "chunks \<Rightarrow> int option \<Rightarrow> trimmer" where
  "newRelaxedBody src lim = newTrimmer \<lparr>bsSrc = src, bsLimit = lim, bsRelaxed = True, bsInWS = False\<rparr>"

text \<open>The first loop of \<open>Read\<close>, which gets data; the result is the error with which \<open>Read\<close> returns, if it does.\<close>

function trimFill :: "trimmer \<Rightarrow> rdErr option \<times> trimmer" where
  "trimFill t =
     (if tData t \<noteq> [] then (None, t)
      else
        (case tErr t of
           Some e \<Rightarrow> if tEpilogue t then (Some e, t) else (None, t\<lparr>tData := CRLF, tEpilogue := True\<rparr>)
         | None \<Rightarrow> (let (b, e, r) = bodyRead 2048 (tR t) in trimFill (t\<lparr>tR := r, tData := b, tErr := e\<rparr>))))"
  by pat_completeness auto
termination
proof (relation "measure (\<lambda>t. srcWork (tR t) + (if tErr t = None then 1 else 0))", goal_cases)
  case (2 t x b y e r)
  then show ?case using bodyRead_less [of 2048 "tR t" b r] bodyRead_le [of 2048 "tR t" b e r] by (cases e) auto
qed simp

declare trimFill.simps [simp del]

text \<open>\<open>for ; s.numCRLFs > 0 && n+1 < len(buf); s.numCRLFs--\<close>\<close>

fun flushCRLFs :: "nat \<Rightarrow> nat \<Rightarrow> bytes \<Rightarrow> nat \<times> bytes" where
  "flushCRLFs L 0 out = (0, out)"
| "flushCRLFs L (Suc k) out = (if length out + 1 < L then flushCRLFs L k (out @ CRLF) else (Suc k, out))"

text \<open>The second loop, over the data; \<open>L\<close> is \<open>len(buf)\<close> and \<open>out\<close> is \<open>buf[:n]\<close>.\<close>

fun trimLoop :: "nat \<Rightarrow> bool \<Rightarrow> nat \<Rightarrow> bytes \<Rightarrow> bytes \<Rightarrow> (bytes \<times> bool \<times> nat \<times> bytes) go" where
  "trimLoop L w k [] out = Ok (out, w, k, [])"
| "trimLoop L w k (c # cs) out =
     (if L \<le> length out then Ok (out, w, k, c # cs)
      else
        (let out1 = (if c \<noteq> LF \<and> w then out @ [CR] else out);
             w1 = (if c \<noteq> LF then False else w) in
         if c = CR then trimLoop L True k cs out1
         else if c = LF then
           (if w1 then trimLoop L False (k + 1) cs out1 else trimLoop L w1 k cs (out1 @ [LF]))
         else
           (let (k1, out2) = flushCRLFs L k out1 in
            if 0 < k1 then Ok (out2, w1, k1, c # cs)
            else if L \<le> length out2 then Panic ''runtime error: index out of range''
            else trimLoop L w1 0 cs (out2 @ [c]))))"

definition trimRead :: "nat \<Rightarrow> trimmer \<Rightarrow> (bytes \<times> rdErr option \<times> trimmer) go" where
  "trimRead L t0 =
     (case trimFill t0 of
        (Some e, t) \<Rightarrow> Ok ([], Some e, t)
      | (None, t) \<Rightarrow>
          if tEpilogue t then Ok (take L (tData t), None, t\<lparr>tData := drop L (tData t)\<rparr>)
          else
            (case trimLoop L (tInCR t) (tNum t) (tData t) [] of
               Panic m \<Rightarrow> Panic m
             | Fail e \<Rightarrow> Fail e
             | Ok (out, w, k, rest) \<Rightarrow> Ok (out, None, t\<lparr>tInCR := w, tNum := k, tData := rest\<rparr>)))"

text \<open>\<open>io.Copy\<close>, with its buffer of 32 KB. Every \<open>Read\<close> that returns no error leaves less to do.\<close>

definition copyBuf :: nat where
  "copyBuf = 32768"

definition work :: "trimmer \<Rightarrow> nat" where
  "work t = srcWork (tR t) + 3 * length (tData t) + tNum t + (if tEpilogue t then 0 else 10)"

lemma work_fill: "trimFill t = (e, t1) \<Longrightarrow> work t1 \<le> work t"
proof (induction t arbitrary: e t1 rule: trimFill.induct)
  case (1 t)
  obtain b err r where b: "bodyRead 2048 (tR t) = (b, err, r)" by (metis prod.collapse)
  have "tData t = [] \<Longrightarrow> work (t\<lparr>tR := r, tData := b, tErr := err\<rparr>) \<le> work t"
    using bodyRead_le [OF b] by (simp add: work_def)
  then show ?case
    using 1(1) [OF _ _ b [symmetric] refl refl, of e t1] 1(2) b
    by (fastforce simp: trimFill.simps [of t] work_def split: if_splits option.splits)
qed

lemma fill_data: "trimFill t = (None, t1) \<Longrightarrow> tData t1 \<noteq> []"
proof (induction t arbitrary: t1 rule: trimFill.induct)
  case (1 t)
  obtain b err r where b: "bodyRead 2048 (tR t) = (b, err, r)" by (metis prod.collapse)
  show ?case
    using 1(1) [OF _ _ b [symmetric] refl refl, of t1] 1(2) b
    by (fastforce simp: trimFill.simps [of t] split: if_splits option.splits)
qed

lemma flush_spec:
  "flushCRLFs L k out = (k1, out1) \<Longrightarrow>
   \<exists>m. k = k1 + m \<and> out1 = out @ concat (replicate m CRLF) \<and> (0 < k1 \<longrightarrow> L \<le> length out1 + 1)"
proof (induction L k out rule: flushCRLFs.induct)
  case (1 L out)
  then show ?case by (intro exI [of _ 0]) simp
next
  case (2 L k out)
  show ?case
  proof (cases "length out + 1 < L")
    case True
    then obtain m where "k = k1 + m" "out1 = (out @ CRLF) @ concat (replicate m CRLF)" "0 < k1 \<longrightarrow> L \<le> length out1 + 1"
      using 2 by auto
    then show ?thesis by (intro exI [of _ "Suc m"]) simp
  next
    case False
    then show ?thesis using 2(2) by (intro exI [of _ 0]) auto
  qed
qed

text \<open>One turn of the loop.\<close>

lemma loop_step:
  assumes "trimLoop L w k (c # cs) out = Ok res" "length out < L"
  obtains (CR) "c = CR" "trimLoop L True k cs (if w then out @ [CR] else out) = Ok res"
  | (CRLF) "c = LF" "w" "trimLoop L False (k + 1) cs out = Ok res"
  | (LF) "c = LF" "\<not> w" "trimLoop L False k cs (out @ [LF]) = Ok res"
  | (full) m k1 out1 where "c \<noteq> CR" "c \<noteq> LF" "out1 = (if w then out @ [CR] else out) @ concat (replicate m CRLF)"
      "k = k1 + m" "0 < k1" "L \<le> length out1 + 1" "res = (out1, False, k1, c # cs)"
  | (byte) out1 where "c \<noteq> CR" "c \<noteq> LF" "out1 = (if w then out @ [CR] else out) @ concat (replicate k CRLF)"
      "length out1 < L" "trimLoop L False 0 cs (out1 @ [c]) = Ok res"
proof -
  let ?out = "if w then out @ [CR] else out"
  obtain k2 out2 where f: "flushCRLFs L k ?out = (k2, out2)" by fastforce
  obtain m where m: "k = k2 + m" "out2 = ?out @ concat (replicate m CRLF)" "0 < k2 \<longrightarrow> L \<le> length out2 + 1"
    using flush_spec [OF f] by blast
  consider "c = CR" | "c = LF" "w" | "c = LF" "\<not> w" | "c \<noteq> CR" "c \<noteq> LF" "0 < k2" | "c \<noteq> CR" "c \<noteq> LF" "k2 = 0" by blast
  then show thesis
  proof cases
    case 4
    then show thesis using assms f m by (intro full [of out2 m k2]) simp_all
  next
    case 5
    then show thesis using assms f m by (intro byte [of out2]) (simp_all split: if_splits)
  qed (use assms CR CRLF LF in simp_all)
qed

lemma loop_work:
  "trimLoop L w k data out = Ok (out1, w1, k1, rest) \<Longrightarrow> 3 * length rest + k1 \<le> 3 * length data + k"
proof (induction data arbitrary: w k out)
  case Nil
  then show ?case by simp
next
  case (Cons c cs)
  show ?case
  proof (cases "length out < L")
    case True
    from loop_step [OF Cons.prems True] show ?thesis by cases (auto dest!: Cons.IH)
  qed (use Cons.prems in simp)
qed

lemma loop_less:
  assumes "trimLoop L w k data [] = Ok (out1, w1, k1, rest)" "3 \<le> L" "data \<noteq> []"
  shows "3 * length rest + k1 < 3 * length data + k"
proof -
  obtain c cs where d: "data = c # cs" using assms(3) by (cases data) auto
  have "length [] < L" using assms(2) by simp
  from loop_step [OF assms(1) [unfolded d] this] show ?thesis unfolding d
  proof cases
    case (4 m k2 out2)
    then have "m \<noteq> 0" using assms(2) by (cases m) (auto split: if_splits)
    then show "3 * length rest + k1 < 3 * length (c # cs) + k" using 4 by simp
  qed (auto dest!: loop_work)
qed

lemma work_less:
  assumes "trimRead L t = Ok (out, None, t1)" "3 \<le> L"
  shows "work t1 < work t"
proof -
  obtain e t2 where f: "trimFill t = (e, t2)" by fastforce
  have e: "e = None" using assms(1) f by (cases e) (auto simp: trimRead_def)
  note d = fill_data [OF f [unfolded e]] and le = work_fill [OF f]
  show ?thesis
  proof (cases "tEpilogue t2")
    case True
    then have "t1 = t2\<lparr>tData := drop L (tData t2)\<rparr>" using assms(1) f e by (simp add: trimRead_def)
    then have "work t1 < work t2" using d assms(2) by (cases "tData t2") (auto simp: work_def)
    then show ?thesis using le by simp
  next
    case False
    obtain o2 w k rs where l: "trimLoop L (tInCR t2) (tNum t2) (tData t2) [] = Ok (o2, w, k, rs)"
      using assms(1) f e False by (auto simp: trimRead_def split: go.splits)
    then have "t1 = t2\<lparr>tInCR := w, tNum := k, tData := rs\<rparr>" using assms(1) f e False by (simp add: trimRead_def)
    then have "work t1 < work t2" using loop_less [OF l assms(2) d] by (simp add: work_def)
    then show ?thesis using le by simp
  qed
qed

function copyLoop :: "trimmer \<Rightarrow> bytes \<Rightarrow> (bytes \<times> rdErr option) go" where
  "copyLoop t acc =
     (case trimRead copyBuf t of
        Panic m \<Rightarrow> Panic m
      | Fail e \<Rightarrow> Fail e
      | Ok (out, e, t1) \<Rightarrow>
          (case e of
             None \<Rightarrow> copyLoop t1 (acc @ out)
           | Some RdEOF \<Rightarrow> Ok (acc @ out, None)
           | Some (RdErr m) \<Rightarrow> Ok (acc @ out, Some (RdErr m))))"
  by pat_completeness auto
termination
  by (relation "measure (\<lambda>(t, _). work t)") (auto dest: work_less simp: copyBuf_def)

declare copyLoop.simps [simp del]

definition copyBody :: "trimmer \<Rightarrow> (bytes \<times> rdErr option) go" where
  "copyBody t = copyLoop t []"

subsection \<open>The text that is copied\<close>

text \<open>The text of a reader, up to its first error.\<close>

fun srcText :: "chunks \<Rightarrow> bytes" where
  "srcText [] = []"
| "srcText ((b, e) # src) = b @ (if e = None then srcText src else [])"

definition limited :: "int option \<Rightarrow> bytes \<Rightarrow> bytes" where
  "limited lim s = (case lim of None \<Rightarrow> s | Some n \<Rightarrow> take (nat n) s)"

definition bodyText :: "bodySrc \<Rightarrow> bytes" where
  "bodyText r =
     (let s = limited (bsLimit r) (srcText (bsSrc r)) in if bsRelaxed r then fst (reduceWS (bsInWS r) s) else s)"

lemma reduceWS_append:
  "reduceWS w (a @ b) = (fst (reduceWS w a) @ fst (reduceWS (snd (reduceWS w a)) b), snd (reduceWS (snd (reduceWS w a)) b))"
  by (induction w a rule: reduceWS.induct) (auto simp: case_prod_unfold Let_def)

lemma readSrc_text:
  "readSrc k src = (b, e, src1) \<Longrightarrow> srcText src = b @ (if e = None then srcText src1 else []) \<and> length b \<le> k"
  by (cases src) (auto simp: readSrc_def split: prod.splits if_splits)

lemma limRead_text:
  assumes "limRead k r = (b, e, r1)"
  shows "limited (bsLimit r) (srcText (bsSrc r)) = b @ (if e = None then limited (bsLimit r1) (srcText (bsSrc r1)) else [])"
    and "bsRelaxed r1 = bsRelaxed r" "bsInWS r1 = bsInWS r"
proof -
  show "limited (bsLimit r) (srcText (bsSrc r)) = b @ (if e = None then limited (bsLimit r1) (srcText (bsSrc r1)) else [])"
  proof (cases "bsLimit r")
    case None
    then show ?thesis using assms readSrc_text [of k "bsSrc r" b e] by (auto simp: limRead_def limited_def split: prod.splits)
  next
    case (Some n)
    show ?thesis
    proof (cases "n \<le> 0")
      case True
      then show ?thesis using assms Some by (auto simp: limRead_def limited_def)
    next
      case False
      obtain src1 where r: "readSrc (min k (nat n)) (bsSrc r) = (b, e, src1)" "r1 = r\<lparr>bsSrc := src1, bsLimit := Some (n - int (length b))\<rparr>"
        using assms Some False by (auto simp: limRead_def split: prod.splits)
      have "srcText (bsSrc r) = b @ (if e = None then srcText src1 else [])" "length b \<le> nat n"
        using readSrc_text [OF r(1)] by auto
      moreover have "nat n - length b = nat (n - int (length b))" by simp
      ultimately show ?thesis using Some r(2) by (simp add: limited_def)
    qed
  qed
qed (use limRead_le [OF assms] in auto)

lemma bodyRead_text:
  assumes "bodyRead k r = (b, e, r1)" "0 < k"
  shows "bodyText r = b @ (if e = None then bodyText r1 else [])"
proof (cases "bsRelaxed r")
  case True
  define k1 where "k1 = (if bsInWS r then k - 1 else k)"
  obtain b2 e2 r2 where l: "limRead k1 r = (b2, e2, r2)" by (metis prod.collapse)
  obtain o2 w where w: "reduceWS (bsInWS r) b2 = (o2, w)" by fastforce
  have "b = o2" "e = e2" "r1 = r2\<lparr>bsInWS := w\<rparr>"
    using assms True l w by (simp_all add: bodyRead_def reduceRead_def k1_def)
  then show ?thesis
    using limRead_text [OF l] w True
    by (cases e2) (simp_all add: bodyText_def reduceWS_append Let_def)
next
  case False
  then have l: "limRead k r = (b, e, r1)" using assms by (simp add: bodyRead_def)
  show ?thesis using limRead_text [OF l] False by (simp add: bodyText_def)
qed

text \<open>What \<open>trimTrailingCRLFs\<close> makes of a text: \<open>w\<close> is a CR that was read and not written, \<open>k\<close> the number of CRLFs.\<close>

fun trimSpec :: "bool \<Rightarrow> nat \<Rightarrow> bytes \<Rightarrow> bytes" where
  "trimSpec w k [] = CRLF"
| "trimSpec w k (c # cs) =
     (if c \<noteq> LF \<and> w then [CR] else []) @
     (if c = CR then trimSpec True k cs
      else if c = LF then (if w then trimSpec False (k + 1) cs else LF # trimSpec False k cs)
      else concat (replicate k CRLF) @ c # trimSpec False 0 cs)"

definition streamOf :: "trimmer \<Rightarrow> bytes" where
  "streamOf t =
     (if tEpilogue t then tData t
      else trimSpec (tInCR t) (tNum t) (tData t @ (if tErr t = None then bodyText (tR t) else [])))"

text \<open>The trailing data are written once: after the epilogue there is no more data.\<close>

definition trimOK :: "trimmer \<Rightarrow> bool" where
  "trimOK t \<longleftrightarrow> (tEpilogue t \<longrightarrow> tErr t \<noteq> None)"

lemma fill_stream:
  "trimFill t = (e, t1) \<Longrightarrow> trimOK t \<Longrightarrow>
   streamOf t1 = streamOf t \<and> trimOK t1 \<and> (e \<noteq> None \<longrightarrow> tEpilogue t1 \<and> tData t1 = [])"
proof (induction t arbitrary: e t1 rule: trimFill.induct)
  case (1 t)
  show ?case
  proof (cases "tData t = [] \<and> tErr t = None")
    case True
    obtain b err r where b: "bodyRead 2048 (tR t) = (b, err, r)" by (metis prod.collapse)
    let ?t = "t\<lparr>tR := r, tData := b, tErr := err\<rparr>"
    have ep: "\<not> tEpilogue t" using 1(3) True by (simp add: trimOK_def)
    have "trimFill ?t = (e, t1)" using 1(2) True b by (simp add: trimFill.simps [of t])
    moreover have "trimOK ?t" using ep by (simp add: trimOK_def)
    moreover have "streamOf ?t = streamOf t" using bodyRead_text [OF b] ep True by (simp add: streamOf_def)
    ultimately show ?thesis using 1(1) [of "(b, err, r)" b "(err, r)" err r e t1] b True by simp
  next
    case False
    then show ?thesis
      using 1(2,3)
      by ((cases "tErr t"; cases "tEpilogue t"), auto simp: trimFill.simps [of t] streamOf_def trimOK_def split: if_splits, metis)
  qed
qed

lemma loop_stream:
  "trimLoop L w k data out = Ok (out1, w1, k1, rest) \<Longrightarrow>
   out @ trimSpec w k (data @ s) = out1 @ trimSpec w1 k1 (rest @ s)"
proof (induction data arbitrary: w k out)
  case Nil
  then show ?case by simp
next
  case (Cons c cs)
  show ?case
  proof (cases "length out < L")
    case True
    from loop_step [OF Cons.prems True] show ?thesis
    proof cases
      case (4 m k2 out2)
      then show ?thesis by (simp add: replicate_add add.commute [of k2 m])
    next
      case (5 out2)
      then show ?thesis using Cons.IH [of False 0 "out2 @ [c]"] by auto
    qed (auto dest!: Cons.IH)
  qed (use Cons.prems in simp)
qed

lemma read_stream:
  assumes "trimRead L t = Ok (out, e, t1)" "trimOK t"
  shows "streamOf t = out @ (if e = None then streamOf t1 else [])" "trimOK t1"
proof -
  obtain e2 t2 where f: "trimFill t = (e2, t2)" by fastforce
  note fs = fill_stream [OF f assms(2)]
  have "streamOf t2 = out @ (if e = None then streamOf t1 else []) \<and> trimOK t1"
  proof (cases e2)
    case (Some x)
    then show ?thesis using assms(1) f fs by (auto simp: trimRead_def streamOf_def)
  next
    case None
    show ?thesis
    proof (cases "tEpilogue t2")
      case True
      then show ?thesis using assms(1) f None fs by (auto simp: trimRead_def streamOf_def trimOK_def)
    next
      case False
      obtain o2 w k rs where l: "trimLoop L (tInCR t2) (tNum t2) (tData t2) [] = Ok (o2, w, k, rs)"
        using assms(1) f None False by (auto simp: trimRead_def split: go.splits)
      then have "out = o2" "e = None" "t1 = t2\<lparr>tInCR := w, tNum := k, tData := rs\<rparr>"
        using assms(1) f None False by (simp_all add: trimRead_def)
      moreover have "streamOf t2 = o2 @ streamOf (t2\<lparr>tInCR := w, tNum := k, tData := rs\<rparr>)"
        using loop_stream [OF l, of "if tErr t2 = None then bodyText (tR t2) else []"] False by (simp add: streamOf_def)
      moreover have "trimOK (t2\<lparr>tInCR := w, tNum := k, tData := rs\<rparr>)" using fs by (simp add: trimOK_def)
      ultimately show ?thesis by simp
    qed
  qed
  then show "streamOf t = out @ (if e = None then streamOf t1 else [])" "trimOK t1" using fs by auto
qed

lemma copy_stream:
  "copyLoop t acc = Ok (out, e) \<Longrightarrow> trimOK t \<Longrightarrow> out = acc @ streamOf t"
proof (induction t acc arbitrary: out e rule: copyLoop.induct)
  case (1 t acc)
  obtain o1 e1 t1 where r: "trimRead copyBuf t = Ok (o1, e1, t1)"
    using 1(2) by (auto simp: copyLoop.simps [of t] split: go.splits)
  show ?case
  proof (cases e1)
    case None
    then show ?thesis
      using 1(1) [OF r refl refl None, of out e] 1(2) read_stream [OF r 1(3)] r by (simp add: copyLoop.simps [of t])
  next
    case (Some x)
    then show ?thesis using 1(2) read_stream [OF r 1(3)] r by (cases x) (auto simp: copyLoop.simps [of t])
  qed
qed

text \<open>However the body arrives, what is hashed is a function of its text.\<close>

lemma copyBody_spec:
  "copyBody (newTrimmer r) = Ok (out, e) \<Longrightarrow> out = trimSpec False 0 (bodyText r)"
  using copy_stream [of "newTrimmer r" "[]" out e]
  by (simp add: copyBody_def newTrimmer_def trimOK_def streamOf_def)

subsection \<open>Bodies that are copied\<close>

lemma flush_all: "length out + 2 * k \<le> L \<Longrightarrow> flushCRLFs L k out = (0, out @ concat (replicate k CRLF))"
  by (induction L k out rule: flushCRLFs.induct) simp_all

lemma loop_fits:
  "length out + 2 * k + length data + of_bool w \<le> L \<Longrightarrow>
   \<exists>out1 w1 k1 rest. trimLoop L w k data out = Ok (out1, w1, k1, rest) \<and>
     length out1 + 2 * k1 + length rest + of_bool w1 \<le> length out + 2 * k + length data + of_bool w"
proof (induction data arbitrary: w k out)
  case Nil
  then show ?case by simp
next
  case (Cons c cs)
  let ?out = "if w then out @ [CR] else out"
  have len: "length out < L" using Cons.prems by simp
  show ?case
  proof (cases "c = CR \<or> c = LF")
    case True
    then show ?thesis
      using Cons.IH [of ?out k True] Cons.IH [of out "k + 1" False] Cons.IH [of "out @ [LF]" k False] Cons.prems len
      by (cases w; fastforce simp: Let_def)
  next
    case False
    have f: "flushCRLFs L k ?out = (0, ?out @ concat (replicate k CRLF))"
      using Cons.prems by (intro flush_all) (simp split: if_splits)
    have n: "length (concat (replicate k CRLF)) = 2 * k" by (induction k) simp_all
    then have "\<not> L \<le> length (?out @ concat (replicate k CRLF))" using Cons.prems by (cases w) simp_all
    then show ?thesis
      using Cons.IH [of "(?out @ concat (replicate k CRLF)) @ [c]" 0 False] Cons.prems len False f n
      by (cases w) (fastforce simp: Let_def)+
  qed
qed

text \<open>A source without errors.\<close>

definition plain :: "chunks \<Rightarrow> bool" where
  "plain src \<longleftrightarrow> list_all (\<lambda>(b, e). e = None \<or> e = Some RdEOF) src"

lemma readSrc_plain: "readSrc k src = (b, e, src1) \<Longrightarrow> plain src \<Longrightarrow> plain src1 \<and> e \<in> {None, Some RdEOF}"
  by (cases src) (auto simp: readSrc_def plain_def split: prod.splits if_splits)

lemma bodyRead_plain:
  "bodyRead k r = (b, e, r1) \<Longrightarrow> plain (bsSrc r) \<Longrightarrow> plain (bsSrc r1) \<and> e \<in> {None, Some RdEOF}"
  by (auto simp: bodyRead_def reduceRead_def limRead_def dest: readSrc_plain split: option.splits if_splits prod.splits)

definition pendingLen :: "trimmer \<Rightarrow> nat" where
  "pendingLen t = 2 * tNum t + length (tData t @ (if tErr t = None then bodyText (tR t) else [])) + of_bool (tInCR t)"

definition fits :: "trimmer \<Rightarrow> bool" where
  "fits t \<longleftrightarrow> (tEpilogue t \<or> pendingLen t \<le> copyBuf) \<and> plain (bsSrc (tR t)) \<and> tErr t \<in> {None, Some RdEOF}"

lemma fill_fits: "trimFill t = (e, t1) \<Longrightarrow> fits t \<Longrightarrow> trimOK t \<Longrightarrow> fits t1 \<and> e \<in> {None, Some RdEOF}"
proof (induction t arbitrary: e t1 rule: trimFill.induct)
  case (1 t)
  show ?case
  proof (cases "tData t = [] \<and> tErr t = None")
    case True
    obtain b err r where b: "bodyRead 2048 (tR t) = (b, err, r)" by (metis prod.collapse)
    let ?t = "t\<lparr>tR := r, tData := b, tErr := err\<rparr>"
    have ep: "\<not> tEpilogue t" using 1(4) True by (simp add: trimOK_def)
    have "trimFill ?t = (e, t1)" using 1(2) True b by (simp add: trimFill.simps [of t])
    moreover have "trimOK ?t" using ep by (simp add: trimOK_def)
    moreover have "fits ?t"
      using 1(3) bodyRead_text [OF b] bodyRead_plain [OF b] ep True by (cases err) (auto simp: fits_def pendingLen_def)
    ultimately show ?thesis using 1(1) [of "(b, err, r)" b "(err, r)" err r e t1] b True by simp
  next
    case False
    then show ?thesis
      using 1(2,3) by (auto simp: trimFill.simps [of t] fits_def split: if_splits option.splits)
  qed
qed

lemma read_fits:
  assumes "fits t" "trimOK t"
  shows "\<exists>out e t1. trimRead copyBuf t = Ok (out, e, t1) \<and> fits t1 \<and> e \<in> {None, Some RdEOF}"
proof -
  obtain e t2 where f: "trimFill t = (e, t2)" by fastforce
  note ff = fill_fits [OF f assms]
  show ?thesis
  proof (cases "e = None \<and> \<not> tEpilogue t2")
    case True
    then have "2 * tNum t2 + length (tData t2) + of_bool (tInCR t2) \<le> copyBuf"
      using ff by (auto simp: fits_def pendingLen_def)
    then obtain o2 w k rs where l: "trimLoop copyBuf (tInCR t2) (tNum t2) (tData t2) [] = Ok (o2, w, k, rs)"
        "length o2 + 2 * k + length rs + of_bool w \<le> 2 * tNum t2 + length (tData t2) + of_bool (tInCR t2)"
      using loop_fits [of "[]" "tNum t2" "tData t2" "tInCR t2" copyBuf] by auto
    then show ?thesis using f True ff by (auto simp: trimRead_def fits_def pendingLen_def)
  next
    case False
    then show ?thesis using f ff by (cases e) (auto simp: trimRead_def fits_def)
  qed
qed

lemma copy_fits: "fits t \<Longrightarrow> trimOK t \<Longrightarrow> \<exists>out. copyLoop t acc = Ok (out, None)"
proof (induction t acc rule: copyLoop.induct)
  case (1 t acc)
  obtain out e t1 where r: "trimRead copyBuf t = Ok (out, e, t1)" "fits t1" "e \<in> {None, Some RdEOF}"
    using read_fits [OF 1(2,3)] by blast
  show ?case
  proof (cases e)
    case None
    then show ?thesis using 1(1) [OF r(1) refl refl None r(2)] read_stream(2) [OF r(1) 1(3)] r
      by (simp add: copyLoop.simps [of t])
  next
    case (Some x)
    then show ?thesis using r by (simp add: copyLoop.simps [of t])
  qed
qed

lemma length_bodyText: "length (bodyText r) \<le> length (srcText (bsSrc r)) + of_bool (bsInWS r)"
  using length_reduceWS [of "bsInWS r" "limited (bsLimit r) (srcText (bsSrc r))"]
  by (cases "reduceWS (bsInWS r) (limited (bsLimit r) (srcText (bsSrc r)))")
    (auto simp: bodyText_def Let_def limited_def split: option.splits if_splits)

lemma copyBody_short:
  assumes "length (bodyText r) \<le> copyBuf" "plain (bsSrc r)"
  shows "copyBody (newTrimmer r) = Ok (trimSpec False 0 (bodyText r), None)"
proof -
  have "fits (newTrimmer r)" "trimOK (newTrimmer r)"
    using assms by (simp_all add: fits_def newTrimmer_def pendingLen_def trimOK_def)
  then obtain out where o: "copyBody (newTrimmer r) = Ok (out, None)" using copy_fits unfolding copyBody_def by blast
  then show ?thesis using copyBody_spec [OF o] by simp
qed

subsection \<open>Canonical bodies\<close>

text \<open>RFC 6376, section 3.4.3 and 3.4.4, on a body given by its lines: without the empty lines at the end, and with a
  CRLF after the last line; relaxed, each line without white space at its end, and with each run of white space made a
  single space.\<close>

definition clean :: "bytes \<Rightarrow> bool" where
  "clean l \<longleftrightarrow> CR \<notin> set l \<and> LF \<notin> set l"

definition fromLines :: "bytes list \<Rightarrow> bytes \<Rightarrow> bytes" where
  "fromLines ls en = concat (map (\<lambda>l. l @ CRLF) ls) @ en"

fun dropLFCR :: "bytes \<Rightarrow> bytes" where
  "dropLFCR (a # b # s) = (if a = LF \<and> b = CR then dropLFCR s else a # b # s)"
| "dropLFCR s = s"

definition stripCRLFs :: "bytes \<Rightarrow> bytes" where
  "stripCRLFs b = rev (dropLFCR (rev b))"

definition canonSimple :: "bytes list \<Rightarrow> bytes \<Rightarrow> bytes" where
  "canonSimple ls en = stripCRLFs (fromLines ls en) @ CRLF"

fun squash :: "bytes \<Rightarrow> bytes" where
  "squash (a # b # s) = (if a = SP \<and> b = SP then squash (b # s) else a # squash (b # s))"
| "squash s = s"

fun rstripSP :: "bytes \<Rightarrow> bytes" where
  "rstripSP [] = []"
| "rstripSP (c # cs) = (let r = rstripSP cs in if c = SP \<and> r = [] then [] else c # r)"

definition relaxLine :: "bytes \<Rightarrow> bytes" where
  "relaxLine l = rstripSP (squash (map (\<lambda>c. if c = TAB then SP else c) l))"

definition canonRelaxed :: "bytes list \<Rightarrow> bytes \<Rightarrow> bytes" where
  "canonRelaxed ls en = stripCRLFs (fromLines (map relaxLine ls) (relaxLine en)) @ CRLF"

lemma dropLFCR_append: "c \<noteq> CR \<Longrightarrow> c \<noteq> LF \<Longrightarrow> dropLFCR (z @ c # u) = dropLFCR z @ c # u"
  by (induction z rule: dropLFCR.induct) (cases u; auto)+

lemma strip_append:
  assumes "clean l" "l \<noteq> []"
  shows "stripCRLFs (x @ l @ y) = x @ l @ stripCRLFs y"
proof -
  obtain b c where l: "l = b @ [c]" using assms(2) by (metis append_butlast_last_id)
  then have "c \<noteq> CR" "c \<noteq> LF" using assms(1) by (auto simp: clean_def)
  then show ?thesis using dropLFCR_append [of c "rev y" "rev b @ rev x"] by (simp add: l stripCRLFs_def)
qed

lemma CRLFs_swap: "concat (replicate k CRLF) @ CR # LF # s = CR # LF # concat (replicate k CRLF) @ s"
  by (induction k) simp_all

lemma strip_CRLFs: "stripCRLFs (concat (replicate k CRLF)) = []"
proof -
  have "dropLFCR (concat (replicate k [LF, CR])) = []" by (induction k) simp_all
  then show ?thesis by (simp add: stripCRLFs_def rev_concat)
qed

lemma trim_clean:
  "clean l \<Longrightarrow> trimSpec False k (l @ s) = (if l = [] then trimSpec False k s else concat (replicate k CRLF) @ l @ trimSpec False 0 s)"
  by (induction l arbitrary: k) (auto simp: clean_def)

lemma trimSpec_lines:
  "list_all clean ls \<Longrightarrow> clean en \<Longrightarrow>
   trimSpec False k (fromLines ls en) = stripCRLFs (concat (replicate k CRLF) @ fromLines ls en) @ CRLF"
proof (induction ls arbitrary: k)
  case Nil
  then show ?case
    using trim_clean [of en k "[]"] strip_append [of en "concat (replicate k CRLF)" "[]"] strip_CRLFs [of k]
    by (simp add: fromLines_def stripCRLFs_def)
next
  case (Cons l ls)
  have l: "clean l" and IH: "trimSpec False j (fromLines ls en) = stripCRLFs (concat (replicate j CRLF) @ fromLines ls en) @ CRLF" for j
    using Cons by simp_all
  have f: "fromLines (l # ls) en = l @ CRLF @ fromLines ls en" by (simp add: fromLines_def)
  have c: "trimSpec False j (CRLF @ s) = trimSpec False (j + 1) s" for j s by simp
  show ?case
  proof (cases "l = []")
    case True
    then show ?thesis using IH [of "k + 1"] c unfolding f by (simp add: CRLFs_swap)
  next
    case False
    then show ?thesis
      unfolding f trim_clean [OF l] c using IH [of 1] strip_append [OF l False, of "concat (replicate k CRLF)" "CRLF @ fromLines ls en"]
      by simp
  qed
qed

lemma squash_cons: "c \<noteq> SP \<Longrightarrow> squash (c # s) = c # squash s"
  by (cases s) simp_all

lemma reduceWS_line:
  "clean l \<Longrightarrow> fst (reduceWS w l) = rstripSP (squash ((if w then [SP] else []) @ map (\<lambda>c. if c = TAB then SP else c) l))"
  by (induction w l rule: reduceWS.induct) (auto simp: clean_def Let_def case_prod_unfold squash_cons)

lemma relaxLine_reduce: "clean l \<Longrightarrow> fst (reduceWS False l) = relaxLine l"
  by (simp add: relaxLine_def reduceWS_line)

lemma clean_relaxLine: "clean l \<Longrightarrow> clean (relaxLine l)"
proof -
  have "set (fst (reduceWS w l)) \<subseteq> insert SP (set l)" for w by (induction w l rule: reduceWS.induct) (auto simp: Let_def case_prod_unfold)
  note sub = this [of False]
  assume l: "clean l"
  show ?thesis using sub l unfolding relaxLine_reduce [OF l] by (auto simp: clean_def)
qed

lemma reduceWS_lines:
  "list_all clean ls \<Longrightarrow> clean en \<Longrightarrow> fst (reduceWS False (fromLines ls en)) = fromLines (map relaxLine ls) (relaxLine en)"
  by (induction ls) (simp_all add: fromLines_def relaxLine_reduce reduceWS_append Let_def case_prod_unfold)



subsection \<open>Empty lines that fill the buffer\<close>

definition emptyLines :: nat where
  "emptyLines = 16384"

text \<open>\<open>emptyLines\<close> CRLFs and a byte, from the state of the reader on.\<close>

definition atEmpties :: "byte \<Rightarrow> bytes \<Rightarrow> bool \<Rightarrow> nat \<Rightarrow> bytes \<Rightarrow> bool" where
  "atEmpties c s w k rem \<longleftrightarrow>
     (\<exists>j. k + j + of_bool w = emptyLines \<and> rem = (if w then [LF] else []) @ concat (replicate j CRLF) @ c # s)"

lemma loop_empties:
  assumes "c \<noteq> CR" "c \<noteq> LF"
  shows "atEmpties c s w k (data @ x) \<Longrightarrow>
    (\<exists>m. trimLoop copyBuf w k data [] = Panic m) \<or>
    (\<exists>w1 k1. trimLoop copyBuf w k data [] = Ok ([], w1, k1, []) \<and> atEmpties c s w1 k1 x)"
proof (induction data arbitrary: w k)
  case Nil
  then show ?case by simp
next
  case (Cons d ds)
  obtain j where j: "k + j + of_bool w = emptyLines" "d # ds @ x = (if w then [LF] else []) @ concat (replicate j CRLF) @ c # s"
    using Cons.prems by (auto simp: atEmpties_def)
  consider "w" | "\<not> w" "0 < j" | "\<not> w" "j = 0" by blast
  then show ?case
  proof cases
    case 1
    then have "d = LF" "atEmpties c s False (k + 1) (ds @ x)" using j by (auto simp: atEmpties_def)
    then show ?thesis using Cons.IH [of False "k + 1"] 1 by (simp add: copyBuf_def)
  next
    case 2
    then obtain i where i: "j = Suc i" by (cases j) auto
    then have "d = CR" "atEmpties c s True k (ds @ x)" using j 2 by (auto simp: atEmpties_def)
    then show ?thesis using Cons.IH [of True k] 2 by (simp add: copyBuf_def)
  next
    case 3
    then have d: "d = c" "k = emptyLines" using j by auto
    have "flushCRLFs copyBuf emptyLines [] = (0, concat (replicate emptyLines CRLF))"
      using flush_all [of "[]" emptyLines copyBuf] by (simp add: copyBuf_def emptyLines_def)
    moreover have "length (concat (replicate n CRLF)) = 2 * n" for n by (induction n) simp_all
    ultimately show ?thesis using d assms 3 by (simp add: copyBuf_def emptyLines_def)
  qed
qed

definition empties :: "byte \<Rightarrow> bytes \<Rightarrow> trimmer \<Rightarrow> bool" where
  "empties c s t \<longleftrightarrow> \<not> tEpilogue t \<and>
     atEmpties c s (tInCR t) (tNum t) (tData t @ (if tErr t = None then bodyText (tR t) else []))"

lemma fill_empties:
  "trimFill t = (e, t1) \<Longrightarrow> empties c s t \<Longrightarrow> empties c s t1 \<and> e = None"
proof (induction t arbitrary: e t1 rule: trimFill.induct)
  case (1 t)
  show ?case
  proof (cases "tData t = [] \<and> tErr t = None")
    case True
    obtain b err r where b: "bodyRead 2048 (tR t) = (b, err, r)" by (metis prod.collapse)
    let ?t = "t\<lparr>tR := r, tData := b, tErr := err\<rparr>"
    have "trimFill ?t = (e, t1)" using 1(2) True b by (simp add: trimFill.simps [of t])
    moreover have "empties c s ?t" using 1(3) bodyRead_text [OF b] True by (cases err) (simp_all add: empties_def)
    ultimately show ?thesis using 1(1) [of "(b, err, r)" b "(err, r)" err r e t1] b True by simp
  next
    case False
    then show ?thesis using 1(2,3) by (auto simp: trimFill.simps [of t] empties_def atEmpties_def split: if_splits option.splits)
  qed
qed

lemma copy_empties:
  assumes "c \<noteq> CR" "c \<noteq> LF"
  shows "empties c s t \<Longrightarrow> \<exists>m. copyLoop t acc = Panic m"
proof (induction t acc rule: copyLoop.induct)
  case (1 t acc)
  obtain e t2 where f: "trimFill t = (e, t2)" by fastforce
  note fe = fill_empties [OF f 1(2)]
  then have r: "atEmpties c s (tInCR t2) (tNum t2) (tData t2 @ (if tErr t2 = None then bodyText (tR t2) else []))"
    by (simp add: empties_def)
  from loop_empties [OF assms r] show ?case
  proof (elim disjE exE conjE)
    fix m
    assume "trimLoop copyBuf (tInCR t2) (tNum t2) (tData t2) [] = Panic m"
    then show ?thesis using f fe by (simp add: copyLoop.simps [of t] trimRead_def empties_def)
  next
    fix w k
    assume l: "trimLoop copyBuf (tInCR t2) (tNum t2) (tData t2) [] = Ok ([], w, k, [])"
      "atEmpties c s w k (if tErr t2 = None then bodyText (tR t2) else [])"
    let ?t = "t2\<lparr>tInCR := w, tNum := k, tData := []\<rparr>"
    have rd: "trimRead copyBuf t = Ok ([], None, ?t)" using f fe l by (simp add: trimRead_def empties_def)
    have "empties c s ?t" using fe l by (cases "tErr t2") (simp_all add: empties_def)
    then show ?thesis using 1(1) [OF rd refl refl refl] rd by (simp add: copyLoop.simps [of t])
  qed
qed

text \<open>A body of 16384 empty lines and a visible byte makes the hash of the body panic, simple or relaxed, in whatever pieces
  it arrives: the pending CRLFs fill the 32 KB of \<open>io.Copy\<close> exactly, and the byte is then written behind the buffer.\<close>

theorem empty_lines_panic:
  assumes "srcText src = concat (replicate emptyLines CRLF) @ c # s" "c \<notin> {SP, TAB, CR, LF}"
  shows "(\<exists>m. copyBody (newSimpleBody src None) = Panic m) \<and> (\<exists>m. copyBody (newRelaxedBody src None) = Panic m)"
proof -
  have "fst (reduceWS False (concat (replicate j CRLF) @ c # s)) = concat (replicate j CRLF) @ c # fst (reduceWS False s)" for j
    using assms(2) by (induction j) (auto simp: Let_def case_prod_unfold)
  then have "atEmpties c (fst (reduceWS False s)) False 0 (fst (reduceWS False (concat (replicate emptyLines CRLF) @ c # s)))"
    by (auto simp: atEmpties_def)
  moreover have "atEmpties c s False 0 (concat (replicate emptyLines CRLF) @ c # s)" by (auto simp: atEmpties_def)
  ultimately show ?thesis
    using copy_empties [of c s "newSimpleBody src None" "[]"] copy_empties [of c "fst (reduceWS False s)" "newRelaxedBody src None" "[]"] assms
    by (simp add: copyBody_def newSimpleBody_def newRelaxedBody_def newTrimmer_def empties_def bodyText_def limited_def)
qed

theorem empty_lines_panic_witness:
  "(\<exists>m. copyBody (newSimpleBody [(concat (replicate emptyLines CRLF), None), (''x'', None)] None) = Panic m) \<and>
   (\<exists>m. copyBody (newRelaxedBody [(concat (replicate emptyLines CRLF), None), (''x'', None)] None) = Panic m)"
  by (rule empty_lines_panic [where c = "CHR ''x''" and s = "[]"]) simp_all

end
