(* ===== verification/Dkim.thy ===== *)
theory Dkim
  imports DkimBody
begin

text \<open>
  DKIM (\<open>email/dkim/dkim_verify.go\<close>, \<open>dkim_sign.go\<close>): \<open>Verifier.Verify\<close> with the parsing of the signature's tags, the
  canonicalisation of headers, the hash of the body (\<open>DkimBody\<close>) and the lookup of the key; \<open>Signer.Sign\<close>.

  A message is its bytes, what its reader returns behind them, whether it can be sought, and the pieces in which its
  body is read (\<open>dkimMsg\<close>). The hash functions, RSA, the parsing of keys, the resolver and \<open>bytes.EqualFold\<close> beyond
  ASCII are the parameter \<open>dkimLib\<close>. What a hash is given is collected as a byte string. The hooks of the
  package's tests (\<open>testPublicKeyHook\<close>, \<open>testSkipBody\<close>), which are zero in the program, are left out.
\<close>

subsection \<open>Data\<close>

datatype hashAlgo = SHA1 | SHA256

datatype canonical = Simple | Relaxed

record dkimMsg =
  rmData :: bytes
  rmErr :: rdErr
  rmSeek :: "rdErr option"
  rmCut :: "nat list"

record dkimLib =
  dlFold :: "bytes \<Rightarrow> bytes \<Rightarrow> bool"
  dlSum :: "hashAlgo \<Rightarrow> bytes \<Rightarrow> bytes"
  dlVerifyRSA :: "bytes \<Rightarrow> hashAlgo \<Rightarrow> bytes \<Rightarrow> bytes \<Rightarrow> bool"
  dlParsePKIX :: "bytes \<Rightarrow> goerr + bytes option"
  dlResolver :: "bytes \<Rightarrow> goerr + bytes list"
  dlSignRSA :: "bytes \<Rightarrow> bytes \<Rightarrow> goerr + bytes"
  dlPem :: "bytes \<Rightarrow> bytes option"
  dlParseKey :: "bytes \<Rightarrow> goerr + bytes"

record verifier =
  vLookupTXT :: "(bytes \<Rightarrow> goerr + bytes list) option"

definition goErr :: "rdErr \<Rightarrow> goerr" where
  "goErr e = (case e of RdEOF \<Rightarrow> IoErr io_error.EOF | RdErr m \<Rightarrow> IoErr (OtherIO m))"

definition ErrNotSigned :: goerr where "ErrNotSigned = ErrNew ''dkim: no signature''"
definition ErrMalformed :: goerr where "ErrMalformed = ErrNew ''dkim: signature is malformed''"
definition ErrBadVersion :: goerr where "ErrBadVersion = ErrNew ''dkim: bad signature version''"
definition ErrBadSignatureData :: goerr where "ErrBadSignatureData = ErrNew ''dkim: bad signature data''"
definition ErrBadSignature :: goerr where "ErrBadSignature = ErrNew ''dkim: bad signature''"
definition ErrBadBodyLimit :: goerr where "ErrBadBodyLimit = ErrNew ''dkim: bad body limit''"
definition ErrBadDomainKey :: goerr where "ErrBadDomainKey = ErrNew ''dkim: domain record provided bad key''"
definition ErrNoVersion :: goerr where "ErrNoVersion = ErrNew ''dkim: missing version''"
definition ErrNoAlgorithm :: goerr where "ErrNoAlgorithm = ErrNew ''dkim: no algorithm''"
definition ErrNoSignatureData :: goerr where "ErrNoSignatureData = ErrNew ''dkim: no signature data''"
definition ErrNoBodyHash :: goerr where "ErrNoBodyHash = ErrNew ''dkim: no body hash''"
definition ErrNoDomain :: goerr where "ErrNoDomain = ErrNew ''dkim: no domain''"
definition ErrNoSelector :: goerr where "ErrNoSelector = ErrNew ''dkim: no selector''"
definition ErrUnknownAlgorithm :: goerr where
  "ErrUnknownAlgorithm = ErrNew ''dkim: unknown algorithm (only rsa-sha1 and rsa-sh256 supported)''"
definition ErrUnknownQueryMethod :: goerr where
  "ErrUnknownQueryMethod = ErrNew ''dkim: unknown key query method (only dns/text supported)''"
definition ErrUnknownCanonicalization :: goerr where
  "ErrUnknownCanonicalization = ErrNew ''dkim: unknown canonicalization (only simple and relaxed supported)''"
definition ErrNoTXTRecord :: goerr where "ErrNoTXTRecord = ErrNew ''dkim: no domain TXT record found''"
definition ErrUnknownDomainKeyType :: goerr where
  "ErrUnknownDomainKeyType = ErrNew ''dkim: bad domain key type (only rsa supported)''"
definition ErrNoDomainKeyData :: goerr where "ErrNoDomainKeyData = ErrNew ''dkim: domain record contains no key data''"
definition ErrShortBody :: goerr where "ErrShortBody = ErrNew ''dkim: body is shorter than specified body limit''"
definition ErrBadBodyHash :: goerr where "ErrBadBodyHash = ErrNew ''dkim: body hash does not match''"
definition ErrRSAVerifyFailed :: goerr where "ErrRSAVerifyFailed = ErrNew ''dkim: RSA verification error''"
definition ErrTooLong :: goerr where "ErrTooLong = ErrNew ''bufio.Scanner: token too long''"

subsection \<open>Lines\<close>

text \<open>\<open>bytes.EqualFold\<close>.\<close>

definition equalFold :: "dkimLib \<Rightarrow> bytes \<Rightarrow> bytes \<Rightarrow> bool" where
  "equalFold lib x y =
     (if list_all (\<lambda>b. bval b < 128) (x @ y) then map lowerByte x = map lowerByte y else dlFold lib x y)"

text \<open>\<open>Scanner.Scan\<close> of a \<open>bufio.Scanner\<close> over the rest of the message: the line without its ending, the rest
  behind it, and what \<open>Scanner.Err\<close> is afterwards. A line must fit in 64 KB with its newline. The reader is asked for
  more, and reports its error, when no whole line is left.\<close>

definition maxToken :: nat where
  "maxToken = 65536"

definition dropCR :: "bytes \<Rightarrow> bytes" where
  "dropCR b = (if b \<noteq> [] \<and> last b = CR then butlast b else b)"

definition scanErr :: "rdErr \<Rightarrow> goerr option" where
  "scanErr e = (if e = RdEOF then None else Some (goErr e))"

definition scanLine :: "rdErr \<Rightarrow> bytes \<Rightarrow> bytes option \<times> bytes \<times> goerr option" where
  "scanLine e s =
     (case IndexByte s LF of
        Some i \<Rightarrow>
          if i < maxToken then (Some (dropCR (take i s)), drop (i + 1) s, None) else (None, s, Some ErrTooLong)
      | None \<Rightarrow>
          if maxToken \<le> length s then (None, s, Some ErrTooLong)
          else if s = [] then (None, [], scanErr e)
          else (Some (dropCR s), [], scanErr e))"

lemma scanLine_less: "scanLine e s = (Some b, r, err) \<Longrightarrow> length r < length s"
  by (auto simp: scanLine_def dest: IndexByte_Some split: option.splits if_splits)

text \<open>The result of a function that ends with \<open>s.Err()\<close>.\<close>

definition orErr :: "goerr option \<Rightarrow> bytes \<Rightarrow> goerr + bytes" where
  "orErr err b = (case err of Some e \<Rightarrow> Inl e | None \<Rightarrow> Inr b)"

definition isWSP :: "byte \<Rightarrow> bool" where
  "isWSP c \<longleftrightarrow> c = SP \<or> c = TAB"

text \<open>\<open>readHeader\<close>: the first header that begins with the name, with its continuation lines.\<close>

function contHeader :: "rdErr \<Rightarrow> bytes \<Rightarrow> bytes \<Rightarrow> goerr + bytes" where
  "contHeader e s out =
     (case scanLine e s of
        (None, r, err) \<Rightarrow> orErr err out
      | (Some b, r, err) \<Rightarrow>
          if b = [] \<or> \<not> isWSP (hd b) then orErr err out else contHeader e r (out @ b @ CRLF))"
  by pat_completeness auto
termination
  by (relation "measure (\<lambda>(_, s, _). length s)") (auto dest: sym scanLine_less)

declare contHeader.simps [simp del]

definition hasName :: "dkimLib \<Rightarrow> bytes \<Rightarrow> bytes \<Rightarrow> bool" where
  "hasName lib nm b \<longleftrightarrow> length nm \<le> length b \<and> equalFold lib (take (length nm) b) nm"

function readHeader :: "dkimLib \<Rightarrow> rdErr \<Rightarrow> bytes \<Rightarrow> bytes \<Rightarrow> goerr + bytes" where
  "readHeader lib e s nm =
     (case scanLine e s of
        (None, r, err) \<Rightarrow> orErr err []
      | (Some b, r, err) \<Rightarrow>
          if b = [] then orErr err []
          else if hasName lib nm b then contHeader e r (b @ CRLF)
          else readHeader lib e r nm)"
  by pat_completeness auto
termination
  by (relation "measure (\<lambda>(_, _, s, _). length s)") (auto dest: sym scanLine_less)

declare readHeader.simps [simp del]

text \<open>\<open>writeFWS\<close>.\<close>

fun writeFWS :: "bool \<Rightarrow> bytes \<Rightarrow> bytes" where
  "writeFWS w [] = []"
| "writeFWS w (c # cs) =
     (if c = SP \<or> c = TAB \<or> c = CR \<or> c = LF then (if w then [] else [SP]) @ writeFWS True cs
      else c # writeFWS False cs)"

text \<open>\<open>readRelaxedHeader\<close>; the continuation lines first. \<open>writeFWS\<close> works in place, so the name comes back changed
  when it has white space in it.\<close>

function relaxedCont :: "rdErr \<Rightarrow> bytes \<Rightarrow> bytes \<Rightarrow> goerr + bytes" where
  "relaxedCont e s out =
     (case scanLine e s of
        (None, r, err) \<Rightarrow> orErr err (out @ CRLF)
      | (Some b, r, err) \<Rightarrow>
          if b = [] \<or> \<not> isWSP (hd b) then orErr err (out @ CRLF)
          else relaxedCont e r (out @ [SP] @ writeFWS True (TrimSpace b)))"
  by pat_completeness auto
termination
  by (relation "measure (\<lambda>(_, s, _). length s)") (auto dest: sym scanLine_less)

declare relaxedCont.simps [simp del]

definition afterColon :: "bytes \<Rightarrow> bytes" where
  "afterColon b = (case IndexByte b (CHR '':'') of Some i \<Rightarrow> drop (i + 1) b | None \<Rightarrow> b)"

definition relaxedFirst :: "bytes \<Rightarrow> bytes \<Rightarrow> bytes" where
  "relaxedFirst nm b = writeFWS False nm @ '':'' @ writeFWS False (TrimSpace (afterColon (drop (length nm) b)))"

definition inPlace :: "bytes \<Rightarrow> bytes" where
  "inPlace nm = writeFWS False nm @ drop (length (writeFWS False nm)) nm"

function readRelaxedHeader :: "dkimLib \<Rightarrow> rdErr \<Rightarrow> bytes \<Rightarrow> bytes \<Rightarrow> (goerr + bytes) \<times> bytes" where
  "readRelaxedHeader lib e s nm =
     (case scanLine e s of
        (None, r, err) \<Rightarrow> (orErr err [], nm)
      | (Some b, r, err) \<Rightarrow>
          if b = [] then (orErr err [], nm)
          else if hasName lib nm b then (relaxedCont e r (relaxedFirst nm b), inPlace nm)
          else readRelaxedHeader lib e r nm)"
  by pat_completeness auto
termination
  by (relation "measure (\<lambda>(_, _, s, _). length s)") (auto dest: sym scanLine_less)

declare readRelaxedHeader.simps [simp del]

subsection \<open>The headers that are hashed\<close>

definition dkimSigHeader :: bytes where
  "dkimSigHeader = ''DKIM-Signature:''"

definition dkimSigHeaderLower :: bytes where
  "dkimSigHeaderLower = ''dkim-signature''"

fun splitByte :: "byte \<Rightarrow> bytes \<Rightarrow> bytes list" where
  "splitByte d [] = [[]]"
| "splitByte d (c # cs) =
     (if c = d then [] # splitByte d cs
      else (case splitByte d cs of p # ps \<Rightarrow> (c # p) # ps | [] \<Rightarrow> [[c]]))"

definition trimEnd :: "bytes \<Rightarrow> bytes" where
  "trimEnd b = rev (dropWhile (\<lambda>c. c = CR \<or> c = LF) (rev b))"

fun joinParts :: "bytes list \<Rightarrow> bytes" where
  "joinParts [] = []"
| "joinParts [p] = p"
| "joinParts (p # ps) = p @ '';'' @ joinParts ps"

text \<open>The signature's own header is hashed with an empty \<open>b=\<close>.\<close>

definition blankSimple :: "bytes \<Rightarrow> bytes" where
  "blankSimple part =
     (case IndexByte part (CHR ''='') of
        None \<Rightarrow> part
      | Some i \<Rightarrow> if TrimSpace (take i part) = ''b'' then take (i + 1) part else part)"

definition blankRelaxed :: "bytes \<Rightarrow> bytes" where
  "blankRelaxed part =
     (case IndexByte part (CHR ''='') of
        None \<Rightarrow> part
      | Some i \<Rightarrow> if 0 < i \<and> TrimSpace (take i part) = ''b'' then '' b='' else part)"

text \<open>\<open>src.Seek(0, 0)\<close>\<close>

definition seekStart :: "dkimMsg \<Rightarrow> goerr + bytes" where
  "seekStart m = (case rmSeek m of Some e \<Rightarrow> Inl (goErr e) | None \<Rightarrow> Inr (rmData m))"

fun simpleLoop :: "dkimLib \<Rightarrow> dkimMsg \<Rightarrow> bytes list \<Rightarrow> bytes \<Rightarrow> goerr + bytes" where
  "simpleLoop lib m [] out = Inr out"
| "simpleLoop lib m (nm # nms) out =
     (case seekStart m of
        Inl e \<Rightarrow> Inl e
      | Inr s \<Rightarrow>
          (case readHeader lib (rmErr m) s nm of
             Inl e \<Rightarrow> Inl e
           | Inr b \<Rightarrow> simpleLoop lib m nms (out @ b)))"

definition simpleHeaders :: "dkimLib \<Rightarrow> dkimMsg \<Rightarrow> bytes list \<Rightarrow> goerr + bytes" where
  "simpleHeaders lib m names =
     (case simpleLoop lib m names [] of
        Inl e \<Rightarrow> Inl e
      | Inr out \<Rightarrow>
          (case seekStart m of
             Inl e \<Rightarrow> Inl e
           | Inr s \<Rightarrow>
               (case readHeader lib (rmErr m) s dkimSigHeader of
                  Inl e \<Rightarrow> Inl e
                | Inr b \<Rightarrow> Inr (out @ joinParts (map blankSimple (splitByte (CHR '';'') (trimEnd b)))))))"

text \<open>The loop of \<open>relaxedHeaders\<close>; \<open>before\<close> are the names before the current one.\<close>

fun relaxedLoop :: "dkimLib \<Rightarrow> dkimMsg \<Rightarrow> bytes list \<Rightarrow> bytes list \<Rightarrow> bytes \<Rightarrow> goerr + bytes" where
  "relaxedLoop lib m before [] out = Inr out"
| "relaxedLoop lib m before (nm # nms) out =
     (if nm \<in> set before then relaxedLoop lib m (before @ [nm]) nms out
      else
        (case seekStart m of
           Inl e \<Rightarrow> Inl e
         | Inr s \<Rightarrow>
             (case readRelaxedHeader lib (rmErr m) s nm of
                (Inl e, _) \<Rightarrow> Inl e
              | (Inr b, nm1) \<Rightarrow> relaxedLoop lib m (before @ [nm1]) nms (out @ b))))"

definition toLower :: "bytes \<Rightarrow> bytes" where
  "toLower b = map lowerByte b"

definition relaxedHeaders :: "dkimLib \<Rightarrow> dkimMsg \<Rightarrow> bytes list \<Rightarrow> goerr + bytes" where
  "relaxedHeaders lib m names =
     (case relaxedLoop lib m [] (map toLower names) [] of
        Inl e \<Rightarrow> Inl e
      | Inr out \<Rightarrow>
          (case seekStart m of
             Inl e \<Rightarrow> Inl e
           | Inr s \<Rightarrow>
               (case fst (readRelaxedHeader lib (rmErr m) s dkimSigHeaderLower) of
                  Inl e \<Rightarrow> Inl e
                | Inr b \<Rightarrow> Inr (out @ joinParts (map blankRelaxed (splitByte (CHR '';'') (trimEnd b)))))))"

subsection \<open>The hash of the body\<close>

text \<open>The reader of the body: its bytes in the pieces \<open>ns\<close>, then the error of the message's reader.\<close>

fun cutBody :: "nat list \<Rightarrow> bytes \<Rightarrow> rdErr \<Rightarrow> chunks" where
  "cutBody [] s e = [(s, None), ([], Some e)]"
| "cutBody (n # ns) s e = (take n s, None) # cutBody ns (drop n s) e"

text \<open>The headers end at the first line that is followed by CRLF.\<close>

function skipHeaders :: "rdErr \<Rightarrow> bytes \<Rightarrow> goerr + bytes" where
  "skipHeaders e s =
     (case IndexByte s LF of
        None \<Rightarrow> Inl (goErr e)
      | Some i \<Rightarrow>
          (let r = drop (i + 1) s in
           if length r < 2 then Inl (goErr e)
           else if r ! 0 = CR \<and> r ! 1 = LF then Inr (drop 2 r)
           else skipHeaders e r))"
  by pat_completeness auto
termination
  by (relation "measure (\<lambda>(_, s). length s)") (auto dest!: IndexByte_Some)

declare skipHeaders.simps [simp del]

definition hashBody :: "dkimLib \<Rightarrow> canonical \<Rightarrow> int \<Rightarrow> hashAlgo \<Rightarrow> dkimMsg \<Rightarrow> (goerr + bytes) go" where
  "hashBody lib canon limit algo m =
     (case seekStart m of
        Inl e \<Rightarrow> Ok (Inl e)
      | Inr s \<Rightarrow>
          (case skipHeaders (rmErr m) s of
             Inl e \<Rightarrow> Ok (Inl e)
           | Inr b \<Rightarrow>
               (let src = cutBody (rmCut m) b (rmErr m);
                    lim = (if limit \<noteq> 0 then Some limit else None);
                    body = (if canon = Relaxed then newRelaxedBody src lim else newSimpleBody src lim) in
                case copyBody body of
                  Panic p \<Rightarrow> Panic p
                | Fail e \<Rightarrow> Fail e
                | Ok (out, Some e) \<Rightarrow> Ok (Inl (WrapErr ''dkim: body read failed: %v'' (goErr e)))
                | Ok (out, None) \<Rightarrow>
                    Ok (if limit \<noteq> 0 \<and> int (length out) \<noteq> limit then Inl ErrShortBody else Inr (dlSum lib algo out)))))"

subsection \<open>The tags of the signature\<close>

record dkimTags =
  dtVersion :: bool
  dtAlgo :: "hashAlgo option"
  dtSelector :: bytes
  dtDomain :: bytes
  dtLimit :: int
  dtHeaders :: "bytes list"
  dtSig :: bytes
  dtBodyHash :: bytes
  dtCanonHeader :: canonical
  dtCanonBody :: canonical

definition noTags :: dkimTags where
  "noTags =
     \<lparr>dtVersion = False, dtAlgo = None, dtSelector = [], dtDomain = [], dtLimit = 0, dtHeaders = [], dtSig = [],
      dtBodyHash = [], dtCanonHeader = Simple, dtCanonBody = Simple\<rparr>"

text \<open>The part before the first semicolon, and what is behind it.\<close>

definition nextPart :: "bytes \<Rightarrow> bytes \<times> bytes" where
  "nextPart s =
     (case IndexByte s (CHR '';'') of
        Some i \<Rightarrow> (TrimSpace (take i s), drop (i + 1) s)
      | None \<Rightarrow> (TrimSpace s, []))"

definition canonOf :: "bytes \<Rightarrow> canonical option" where
  "canonOf v = (if v = ''simple'' then Some Simple else if v = ''relaxed'' then Some Relaxed else None)"

definition tagCanon :: "bytes \<Rightarrow> dkimTags \<Rightarrow> goerr + dkimTags" where
  "tagCanon v t =
     (case (case IndexByte v (CHR ''/'') of
              Some i \<Rightarrow>
                if 0 < i then
                  (case canonOf (drop (i + 1) v) of None \<Rightarrow> None | Some b \<Rightarrow> Some (take i v, t\<lparr>dtCanonBody := b\<rparr>))
                else Some (v, t)
            | None \<Rightarrow> Some (v, t)) of
        None \<Rightarrow> Inl ErrUnknownCanonicalization
      | Some (v1, t1) \<Rightarrow>
          (case canonOf v1 of None \<Rightarrow> Inl ErrUnknownCanonicalization | Some h \<Rightarrow> Inr (t1\<lparr>dtCanonHeader := h\<rparr>)))"

function headerNames :: "bytes \<Rightarrow> bytes list" where
  "headerNames v =
     (if v = [] then []
      else
        (case IndexByte v (CHR '':'') of
           Some i \<Rightarrow> if 0 < i then TrimSpace (take i v) # headerNames (drop (i + 1) v) else [TrimSpace v]
         | None \<Rightarrow> [TrimSpace v]))"
  by pat_completeness auto
termination
  by (relation "measure length") (auto dest: IndexByte_Some)

declare headerNames.simps [simp del]

definition noSpace :: "bytes \<Rightarrow> bytes" where
  "noSpace v = filter (\<lambda>c. c \<notin> {SP, TAB, CR, LF}) v"

definition tagData :: "bytes \<Rightarrow> goerr + bytes" where
  "tagData v = (case b64Decode stdAlphabet True (noSpace v) of None \<Rightarrow> Inl ErrBadSignatureData | Some b \<Rightarrow> Inr b)"

text \<open>The switch over the tag.\<close>

definition setTag :: "bytes \<Rightarrow> bytes \<Rightarrow> dkimTags \<Rightarrow> goerr + dkimTags" where
  "setTag k v t =
     (if k = ''v'' then (if v = ''1'' then Inr (t\<lparr>dtVersion := True\<rparr>) else Inl ErrBadVersion)
      else if k = ''a'' then
        (if v = ''rsa-sha1'' then Inr (t\<lparr>dtAlgo := Some SHA1\<rparr>)
         else if v = ''rsa-sha256'' then Inr (t\<lparr>dtAlgo := Some SHA256\<rparr>)
         else Inl ErrUnknownAlgorithm)
      else if k = ''c'' then tagCanon v t
      else if k = ''d'' then Inr (t\<lparr>dtDomain := v\<rparr>)
      else if k = ''s'' then Inr (t\<lparr>dtSelector := v\<rparr>)
      else if k = ''h'' then Inr (t\<lparr>dtHeaders := dtHeaders t @ headerNames v\<rparr>)
      else if k = ''b'' then (case tagData v of Inl e \<Rightarrow> Inl e | Inr b \<Rightarrow> Inr (t\<lparr>dtSig := b\<rparr>))
      else if k = ''bh'' then (case tagData v of Inl e \<Rightarrow> Inl e | Inr b \<Rightarrow> Inr (t\<lparr>dtBodyHash := b\<rparr>))
      else if k = ''q'' then (if v = ''dns/txt'' then Inr t else Inl ErrUnknownQueryMethod)
      else if k = ''l'' then
        (case ParseInt64 v of Inl _ \<Rightarrow> Inl ErrBadBodyLimit | Inr n \<Rightarrow> Inr (t\<lparr>dtLimit := n\<rparr>))
      else Inr t)"

definition tagPart :: "bytes \<Rightarrow> dkimTags \<Rightarrow> goerr + dkimTags" where
  "tagPart p t =
     (case IndexByte p (CHR ''='') of
        None \<Rightarrow> if TrimSpace p = [] then Inr t else Inl ErrMalformed
      | Some i \<Rightarrow> setTag (TrimSpace (take i p)) (TrimSpace (drop (i + 1) p)) t)"

lemma nextPart_less: "s \<noteq> [] \<Longrightarrow> length (snd (nextPart s)) < length s"
  by (auto simp: nextPart_def dest: IndexByte_Some split: option.split)

function parseTags :: "bytes \<Rightarrow> dkimTags \<Rightarrow> goerr + dkimTags" where
  "parseTags hdr t =
     (if hdr = [] then Inr t
      else
        (case tagPart (fst (nextPart hdr)) t of Inl e \<Rightarrow> Inl e | Inr t1 \<Rightarrow> parseTags (snd (nextPart hdr)) t1))"
  by pat_completeness auto
termination
  by (relation "measure (\<lambda>(hdr, _). length hdr)") (auto dest: nextPart_less)

declare parseTags.simps [simp del]

definition missingTag :: "dkimTags \<Rightarrow> goerr option" where
  "missingTag t =
     (if dtAlgo t = None then Some ErrNoAlgorithm
      else if dtDomain t = [] then Some ErrNoDomain
      else if dtSelector t = [] then Some ErrNoSelector
      else if \<not> dtVersion t then Some ErrNoVersion
      else if dtSig t = [] then Some ErrNoSignatureData
      else if dtBodyHash t = [] then Some ErrNoBodyHash
      else None)"

subsection \<open>The key\<close>

text \<open>The tags of the domain's TXT record; the state is \<open>pubKeyData\<close>.\<close>

function keyTags :: "bytes \<Rightarrow> bytes \<Rightarrow> goerr + bytes" where
  "keyTags txt dat =
     (if txt = [] then Inr dat
      else
        (let (p, rest) = nextPart txt in
         if p = [] then keyTags rest dat
         else
           (case IndexByte p (CHR ''='') of
              None \<Rightarrow> Inl ErrMalformed
            | Some i \<Rightarrow>
                (let k = take i p; v = drop (i + 1) p in
                 if length k \<noteq> 1 then Inl ErrBadDomainKey
                 else if k = ''k'' then (if v \<noteq> ''rsa'' then Inl ErrUnknownDomainKeyType else keyTags rest dat)
                 else if k = ''p'' then
                   (case b64Decode stdAlphabet True v of None \<Rightarrow> Inl ErrBadDomainKey | Some d \<Rightarrow> keyTags rest d)
                 else keyTags rest dat))))"
  by pat_completeness auto
termination
  by (relation "measure (\<lambda>(txt, _). length txt)") (auto dest: nextPart_less simp: prod_eq_iff)

declare keyTags.simps [simp del]

definition lookupPublicKey :: "dkimLib \<Rightarrow> verifier \<Rightarrow> bytes \<Rightarrow> goerr + bytes" where
  "lookupPublicKey lib v domain =
     (case (case vLookupTXT v of Some f \<Rightarrow> f | None \<Rightarrow> dlResolver lib) domain of
        Inl e \<Rightarrow> Inl e
      | Inr txts \<Rightarrow>
          if txts = [] then Inl ErrNoTXTRecord
          else
            (case keyTags (concat txts) [] of
               Inl e \<Rightarrow> Inl e
             | Inr dat \<Rightarrow>
                 if dat = [] then Inl ErrNoDomainKeyData
                 else
                   (case dlParsePKIX lib dat of
                      Inl e \<Rightarrow> Inl (WrapErr ''dkim: parsing public key: %v'' e)
                    | Inr None \<Rightarrow> Inl ErrBadDomainKey
                    | Inr (Some key) \<Rightarrow> Inr key)))"

subsection \<open>Verify\<close>

definition findDKIMSignature :: "dkimLib \<Rightarrow> dkimMsg \<Rightarrow> goerr + bytes" where
  "findDKIMSignature lib m =
     (case readHeader lib (rmErr m) (rmData m) dkimSigHeader of
        Inl e \<Rightarrow> Inl e
      | Inr hdr \<Rightarrow>
          if hdr = [] then Inl ErrNotSigned
          else if length hdr < length dkimSigHeader then Inl ErrBadSignature
          else Inr (drop (length dkimSigHeader) hdr))"

text \<open>\<open>Verify\<close> from the tags on: \<open>None\<close> is no error.\<close>

definition verifyTags :: "dkimLib \<Rightarrow> verifier \<Rightarrow> dkimMsg \<Rightarrow> hashAlgo \<Rightarrow> dkimTags \<Rightarrow> goerr option go" where
  "verifyTags lib v m algo t =
     (case hashBody lib (dtCanonBody t) (dtLimit t) algo m of
        Panic p \<Rightarrow> Panic p
      | Fail e \<Rightarrow> Fail e
      | Ok (Inl e) \<Rightarrow> Ok (Some e)
      | Ok (Inr bh) \<Rightarrow>
          if dtBodyHash t \<noteq> bh then Ok (Some ErrBadBodyHash)
          else
            (case (if dtCanonHeader t = Relaxed then relaxedHeaders lib m (dtHeaders t) else simpleHeaders lib m (dtHeaders t)) of
               Inl e \<Rightarrow> Ok (Some e)
             | Inr text \<Rightarrow>
                 (case lookupPublicKey lib v (dtSelector t @ ''._domainkey.'' @ dtDomain t) of
                    Inl e \<Rightarrow> Ok (Some e)
                  | Inr key \<Rightarrow>
                      if dlVerifyRSA lib key algo (dlSum lib algo text) (dtSig t) then Ok None
                      else Ok (Some ErrRSAVerifyFailed))))"

definition Verify :: "dkimLib \<Rightarrow> verifier \<Rightarrow> dkimMsg \<Rightarrow> goerr option go" where
  "Verify lib v m =
     (case findDKIMSignature lib m of
        Inl e \<Rightarrow> Ok (Some e)
      | Inr hdr \<Rightarrow>
          (case parseTags hdr noTags of
             Inl e \<Rightarrow> Ok (Some e)
           | Inr t \<Rightarrow>
               (case missingTag t of
                  Some e \<Rightarrow> Ok (Some e)
                | None \<Rightarrow> verifyTags lib v m (the (dtAlgo t)) t)))"

subsection \<open>Sign\<close>

record signer =
  sgKey :: bytes
  sgDomain :: bytes
  sgSelector :: bytes
  sgHeaders :: "bytes list"

definition signedHeaders :: "bytes list" where
  "signedHeaders =
     [''content-type'', ''date'', ''from'', ''in-reply-to'', ''message-id'', ''mime-version'', ''references'', ''subject'', ''to'']"

definition NewSigner :: "dkimLib \<Rightarrow> bytes \<Rightarrow> goerr + signer" where
  "NewSigner lib privateKey =
     (case dlPem lib privateKey of
        None \<Rightarrow> Inl (ErrNew ''dkim: cannot decode key'')
      | Some block \<Rightarrow>
          (case dlParseKey lib block of
             Inl e \<Rightarrow> Inl (WrapErr ''dkim: cannot parse key: %v'' e)
           | Inr key \<Rightarrow> Inr \<lparr>sgKey = key, sgDomain = [], sgSelector = [], sgHeaders = signedHeaders\<rparr>))"

text \<open>The loop of \<open>collectRelaxedHeaders\<close> over a value.\<close>

fun relaxValue :: "bool \<Rightarrow> bytes \<Rightarrow> bytes" where
  "relaxValue w [] = []"
| "relaxValue w (c # cs) =
     (if c = SP \<or> c = TAB then (if w then relaxValue w cs else SP # relaxValue True cs) else c # relaxValue False cs)"

text \<open>\<open>collectRelaxedHeaders\<close>: the keys for the h= tag, and what is hashed.\<close>

fun collectLoop :: "(bytes \<Rightarrow> bytes) \<Rightarrow> nat \<Rightarrow> bytes list \<Rightarrow> bytes \<times> bytes" where
  "collectLoop get n [] = ([], [])"
| "collectLoop get n (k # ks) =
     (let v = get k in
      if v = [] then collectLoop get n ks
      else
        (let (keys, text) = collectLoop get (n + 1) ks in
         ((if 0 < n then '':'' else []) @ k @ keys, k @ '':'' @ relaxValue False (TrimSpace v) @ CRLF @ text)))"

definition collectRelaxedHeaders :: "(bytes \<Rightarrow> bytes) \<Rightarrow> bytes list \<Rightarrow> bytes \<times> bytes" where
  "collectRelaxedHeaders get ks = collectLoop get 0 ks"

definition relaxedBodyHash :: "dkimLib \<Rightarrow> chunks \<Rightarrow> (goerr + bytes) go" where
  "relaxedBodyHash lib body =
     (case copyBody (newRelaxedBody body None) of
        Panic m \<Rightarrow> Panic m
      | Fail e \<Rightarrow> Fail e
      | Ok (out, Some e) \<Rightarrow> Ok (Inl (WrapErr ''dkim: hashing body: %v'' (goErr e)))
      | Ok (out, None) \<Rightarrow> Ok (Inr (b64Encode stdAlphabet True (dlSum lib SHA256 out))))"

text \<open>The signature in pieces of 66 bytes.\<close>

function foldSig :: "bytes \<Rightarrow> bytes" where
  "foldSig s = (if length s \<le> 66 then s else take 66 s @ [SP] @ foldSig (drop 66 s))"
  by pat_completeness auto
termination
  by (relation "measure length") auto

declare foldSig.simps [simp del]

definition sigStart :: "signer \<Rightarrow> bytes \<Rightarrow> bytes \<Rightarrow> bytes" where
  "sigStart sg keys bh =
     ''v=1; a=rsa-sha256; c=relaxed/relaxed; d='' @ sgDomain sg @ ''; s='' @ sgSelector sg @ ''; h='' @ keys @
     ''; bh='' @ bh @ ''; b=''"

definition Sign :: "dkimLib \<Rightarrow> signer \<Rightarrow> (bytes \<Rightarrow> bytes) \<Rightarrow> chunks \<Rightarrow> (goerr + bytes) go" where
  "Sign lib sg get body =
     (let (keys, text) = collectRelaxedHeaders get (sgHeaders sg) in
      case relaxedBodyHash lib body of
        Panic m \<Rightarrow> Panic m
      | Fail e \<Rightarrow> Fail e
      | Ok (Inl e) \<Rightarrow> Ok (Inl e)
      | Ok (Inr bh) \<Rightarrow>
          (let buf = sigStart sg keys bh in
           case dlSignRSA lib (sgKey sg) (dlSum lib SHA256 (text @ ''dkim-signature:'' @ buf)) of
             Inl e \<Rightarrow> Ok (Inl (WrapErr ''dkim: %v'' e))
           | Inr sig \<Rightarrow> Ok (Inr (buf @ foldSig (b64Encode stdAlphabet True sig)))))"

end
