(* ===== verification/DkimRuns.thy ===== *)
theory DkimRuns
  imports Dkim
begin

text \<open>
  What \<open>Verify\<close> does on whole messages (\<open>Dkim\<close>): it accepts what \<open>Sign\<close> signed; two ways in which a message can be
  changed without the verifier noticing.
\<close>

subsection \<open>Trimming\<close>

text \<open>A word is not empty and has visible ASCII bytes only.\<close>

definition word :: "bytes \<Rightarrow> bool" where
  "word b \<longleftrightarrow> b \<noteq> [] \<and> list_all visible b"

lemma word_ends: "word b \<Longrightarrow> b \<noteq> [] \<and> visible (hd b) \<and> visible (last b)"
  by (auto simp: word_def list_all_iff)

lemma TrimSpace_word: "word b \<Longrightarrow> TrimSpace b = b"
  using word_ends TrimSpace_id by blast

lemma encoding_ascii:
  assumes "e \<in> set spaceEncodings" "c \<in> {SP, TAB, CR, LF}"
  shows "hd e = c \<Longrightarrow> e = [c]" "last e = c \<Longrightarrow> e = [c]"
proof -
  obtain r where r: "e = encodeRune r" "r < 0x4000" using assms(1) spaceRunes_less by (auto simp: spaceEncodings_def)
  have v: "validRune r" using r(2) by (simp add: validRune_def isSurrogate_def)
  have c: "bval c < 0x80" using assms(2) by auto
  have b: "bval (char_of (0x80 + r mod 64)) = 0x80 + r mod 64" by (rule bval_char_of) linarith
  have h1: "r < 0x800 \<Longrightarrow> bval (char_of (0xC0 + r div 64)) = 0xC0 + r div 64"
    by (rule bval_char_of) (simp add: less_mult_imp_div_less)
  have h2: "bval (char_of (0xE0 + r div 4096)) = 0xE0 + r div 4096" using r(2) by (intro bval_char_of) linarith
  show "hd e = c \<Longrightarrow> e = [c]"
    using r v c h1 h2 by (auto simp: encodeRune_def Let_def split: if_splits simp del: of_char_of)
  show "last e = c \<Longrightarrow> e = [c]"
    using r v c b by (auto simp: encodeRune_def Let_def split: if_splits simp del: of_char_of)
qed

lemma space_encoding: "c \<in> {SP, TAB, CR, LF} \<Longrightarrow> [c] \<in> set spaceEncodings"
proof -
  assume c: "c \<in> {SP, TAB, CR, LF}"
  then have "encodeRune (bval c) = [c]" by (subst encodeRune_ascii) auto
  moreover have "bval c \<in> set spaceRunes" using c by (auto simp: spaceRunes_def)
  ultimately show ?thesis unfolding spaceEncodings_def by (metis image_eqI list.set_map)
qed

lemma trimLeft_first:
  assumes "[c] \<in> set encs" "\<And>e. e \<in> set encs \<Longrightarrow> e \<noteq> [] \<Longrightarrow> hd e = c \<Longrightarrow> e = [c]"
  shows "trimLeft encs (c # s) = trimLeft encs s"
proof -
  obtain e where e: "find (\<lambda>e. e \<noteq> [] \<and> prefix e (c # s)) encs = Some e"
    using assms(1) by (cases "find (\<lambda>e. e \<noteq> [] \<and> prefix e (c # s)) encs") (auto simp: find_None_iff)
  then have "e \<in> set encs" "e \<noteq> []" "prefix e (c # s)" by (auto simp: find_Some_iff)
  moreover have "hd e = c" using \<open>e \<noteq> []\<close> \<open>prefix e (c # s)\<close> by (auto simp: prefix_Cons)
  ultimately have "e = [c]" using assms(2) by blast
  then show ?thesis using e by (simp add: trimLeft.simps [of encs "c # s"])
qed

lemma trimLeftSpace_cons: "c \<in> {SP, TAB, CR, LF} \<Longrightarrow> trimLeftSpace (c # s) = trimLeftSpace s"
  unfolding trimLeftSpace_def
  by (rule trimLeft_first [OF space_encoding]) (auto dest: encoding_ascii)

lemma trimRightSpace_snoc: "c \<in> {SP, TAB, CR, LF} \<Longrightarrow> trimRightSpace (s @ [c]) = trimRightSpace s"
proof -
  assume c: "c \<in> {SP, TAB, CR, LF}"
  have "[c] \<in> set (map rev spaceEncodings)" using imageI [OF space_encoding [OF c], of rev] by simp
  moreover have "e = [c]" if e: "e \<in> set (map rev spaceEncodings)" "e \<noteq> []" "hd e = c" for e
  proof -
    obtain x where x: "x \<in> set spaceEncodings" "e = rev x" using e(1) by auto
    then have "last x = c" using e by (simp add: hd_rev)
    then show ?thesis using encoding_ascii(2) [OF x(1) c] x(2) by simp
  qed
  ultimately have "trimLeft (map rev spaceEncodings) (c # rev s) = trimLeft (map rev spaceEncodings) (rev s)"
    by (intro trimLeft_first) blast+
  then show ?thesis by (simp add: trimRightSpace_def)
qed

lemma TrimSpace_SP: "TrimSpace (SP # s) = TrimSpace s"
  by (simp add: TrimSpace_def trimLeftSpace_cons)

lemma trimLeftSpace_id: "s \<noteq> [] \<Longrightarrow> visible (hd s) \<Longrightarrow> trimLeftSpace s = s"
  using trimLeft_stop [of spaceEncodings s] spaceEncodings_ends by (fastforce simp: trimLeftSpace_def)

lemma TrimSpace_CRLF:
  assumes "s \<noteq> []" "visible (hd s)" "visible (last s)"
  shows "TrimSpace (s @ CRLF) = s"
proof -
  have "trimLeftSpace (s @ CRLF) = (s @ [CR]) @ [LF]" using assms(1,2) trimLeftSpace_id [of "s @ CRLF"] by simp
  then show ?thesis
    using trimRightSpace_snoc [of LF "s @ [CR]"] trimRightSpace_snoc [of CR s] trimRightSpace_id [OF assms(1,3)]
    by (simp add: TrimSpace_def)
qed

lemma set_trimLeft: "set (trimLeft encs s) \<subseteq> set s"
proof (induction encs s rule: trimLeft.induct)
  case (1 encs s)
  show ?case
  proof (cases "find (\<lambda>e. e \<noteq> [] \<and> prefix e s) encs")
    case None
    then show ?thesis by (simp add: trimLeft.simps [of encs s])
  next
    case (Some e)
    then show ?thesis using 1 [of e] set_drop_subset [of "length e" s] by (auto simp: trimLeft.simps [of encs s])
  qed
qed

lemma set_TrimSpace: "set (TrimSpace s) \<subseteq> set s"
  using set_trimLeft [of spaceEncodings s] set_trimLeft [of "map rev spaceEncodings" "rev (trimLeft spaceEncodings s)"]
  by (auto simp: TrimSpace_def trimRightSpace_def trimLeftSpace_def)

subsection \<open>Lines of a message\<close>

definition short :: "bytes \<Rightarrow> bool" where
  "short l \<longleftrightarrow> clean l \<and> length l + 1 < maxToken"

lemma scanLine_line: "short l \<Longrightarrow> scanLine e (l @ CRLF @ s) = (Some l, s, None)"
proof -
  assume l: "short l"
  have "IndexByte ((l @ [CR]) @ LF # s) LF = Some (length (l @ [CR]))"
    using l by (intro IndexByte_append) (auto simp: short_def clean_def)
  then show ?thesis using l by (simp add: scanLine_def dropCR_def short_def)
qed

definition headerLine :: "bytes \<times> bytes \<Rightarrow> bytes" where
  "headerLine h = fst h @ '': '' @ snd h"

definition headerText :: "(bytes \<times> bytes) list \<Rightarrow> bytes" where
  "headerText hs = concat (map (\<lambda>h. headerLine h @ CRLF) hs)"

text \<open>A header on one line: a name of visible bytes but the colon, a value without CR and LF.\<close>

definition goodHeader :: "bytes \<times> bytes \<Rightarrow> bool" where
  "goodHeader h \<longleftrightarrow> word (fst h) \<and> CHR '':'' \<notin> set (fst h) \<and> short (headerLine h)"

lemma headerLine_start: "goodHeader h \<Longrightarrow> headerLine h \<noteq> [] \<and> \<not> isWSP (hd (headerLine h))"
  using word_ends [of "fst h"] by (auto simp: goodHeader_def headerLine_def isWSP_def visible_def)

text \<open>What stands behind a header: another one, or the end of the headers.\<close>

lemma scanLine_next:
  assumes "list_all goodHeader hs"
  shows "\<exists>b r. scanLine e (headerText hs @ CRLF @ s) = (Some b, r, None) \<and> (b = [] \<or> \<not> isWSP (hd b))"
proof (cases hs)
  case Nil
  have "scanLine e ([] @ CRLF @ s) = (Some [], s, None)" by (rule scanLine_line) (simp add: short_def clean_def maxToken_def)
  then show ?thesis using Nil by (simp add: headerText_def)
next
  case (Cons h hs')
  then have h: "goodHeader h" using assms by simp
  then have "scanLine e (headerLine h @ CRLF @ headerText hs' @ CRLF @ s) = (Some (headerLine h), headerText hs' @ CRLF @ s, None)"
    by (intro scanLine_line) (simp add: goodHeader_def)
  then show ?thesis using Cons headerLine_start [OF h] by (simp add: headerText_def)
qed

lemma cont_next:
  assumes "list_all goodHeader hs"
  shows "contHeader e (headerText hs @ CRLF @ s) out = Inr out"
    "relaxedCont e (headerText hs @ CRLF @ s) out = Inr (out @ CRLF)"
  using scanLine_next [OF assms, of e s] by (auto simp: contHeader.simps relaxedCont.simps orErr_def)

lemma equalFold_self: "list_all visible x \<Longrightarrow> equalFold lib y x \<longleftrightarrow> (if list_all (\<lambda>b. bval b < 128) y then toLower y = toLower x else dlFold lib y x)"
  by (auto simp: equalFold_def toLower_def visible_def list_all_iff)

lemma visible_ascii: "list_all visible x \<Longrightarrow> list_all (\<lambda>b. bval b < 128) x"
  by (auto simp: visible_def list_all_iff)

lemma hasName_own:
  "list_all visible nm \<Longrightarrow> list_all visible k \<Longrightarrow> toLower nm = k \<Longrightarrow> toLower k = k \<Longrightarrow> hasName lib k (nm @ s)"
proof -
  assume a: "list_all visible nm" "list_all visible k" "toLower nm = k" "toLower k = k"
  have "length nm = length k" using a(3) by (auto simp: toLower_def)
  then show ?thesis using a visible_ascii [OF a(1)] by (simp add: hasName_def equalFold_self)
qed

text \<open>\<open>readRelaxedHeader\<close> finds the first header that has the name.\<close>

lemma readRelaxed_skip:
  assumes "short l" "l \<noteq> []" "\<not> hasName lib k l"
  shows "readRelaxedHeader lib e (l @ CRLF @ s) k = readRelaxedHeader lib e s k"
  by (subst readRelaxedHeader.simps) (simp add: assms scanLine_line [OF assms(1)] del: append.simps append_assoc)

lemma readRelaxed_found:
  assumes "short l" "l \<noteq> []" "hasName lib k l" "list_all goodHeader hs"
  shows "readRelaxedHeader lib e (l @ CRLF @ headerText hs @ CRLF @ s) k = (Inr (relaxedFirst k l @ CRLF), inPlace k)"
  by (subst readRelaxedHeader.simps)
    (simp add: assms scanLine_line [OF assms(1)] cont_next [OF assms(4)] del: append.simps append_assoc)

text \<open>The value that \<open>Header.Get\<close> gives the signer: that of the first header with the name.\<close>

definition firstValue :: "(bytes \<times> bytes) list \<Rightarrow> bytes \<Rightarrow> bytes" where
  "firstValue hs k = (case find (\<lambda>h. toLower (fst h) = k) hs of Some h \<Rightarrow> snd h | None \<Rightarrow> [])"

text \<open>A name as signers have it, and one that no header has as a proper prefix of its name.\<close>

definition goodKey :: "bytes \<Rightarrow> bool" where
  "goodKey k \<longleftrightarrow> word k \<and> toLower k = k \<and> CHR '':'' \<notin> set k \<and> CHR '';'' \<notin> set k"

definition unambiguous :: "dkimLib \<Rightarrow> (bytes \<times> bytes) list \<Rightarrow> bytes \<Rightarrow> bool" where
  "unambiguous lib hs k \<longleftrightarrow> list_all (\<lambda>h. hasName lib k (headerLine h) \<longrightarrow> toLower (fst h) = k) hs"

definition relaxedText :: "bytes \<Rightarrow> bytes \<Rightarrow> bytes" where
  "relaxedText k v = k @ '':'' @ relaxValue False (TrimSpace v) @ CRLF"

lemma FWS_visible: "list_all visible x \<Longrightarrow> writeFWS w (x @ y) = x @ writeFWS (if x = [] then w else False) y"
  by (induction x arbitrary: w) (auto simp: visible_def)

lemma FWS_word: "list_all visible x \<Longrightarrow> writeFWS w x = x"
  using FWS_visible [of x w "[]"] by simp

lemma FWS_relaxValue: "clean v \<Longrightarrow> writeFWS w v = relaxValue w v"
  by (induction v arbitrary: w) (auto simp: clean_def)

lemma relaxedFirst_line:
  assumes "goodKey k" "toLower n = k" "clean v"
  shows "relaxedFirst k (headerLine (n, v)) @ CRLF = relaxedText k v"
proof -
  have "length n = length k" using assms(2) by (auto simp: toLower_def)
  then have d: "afterColon (drop (length k) (headerLine (n, v))) = SP # v" by (simp add: headerLine_def afterColon_def)
  have "clean (TrimSpace v)" using assms(3) set_TrimSpace [of v] by (auto simp: clean_def)
  then show ?thesis using assms(1) by (simp add: relaxedFirst_def d TrimSpace_SP FWS_word FWS_relaxValue relaxedText_def goodKey_def word_def)
qed

lemma goodHeader_clean: "goodHeader h \<Longrightarrow> clean (snd h)"
  by (auto simp: goodHeader_def short_def clean_def headerLine_def)

lemma relaxed_lookup:
  assumes "list_all goodHeader hs" "goodKey k" "unambiguous lib hs k" "\<exists>h\<in>set hs. toLower (fst h) = k"
  shows "readRelaxedHeader lib e (headerText hs @ CRLF @ s) k = (Inr (relaxedText k (firstValue hs k)), k)"
  using assms(1,3,4)
proof (induction hs)
  case Nil
  then show ?case by simp
next
  case (Cons h hs)
  have h: "goodHeader h" "list_all goodHeader hs" using Cons.prems(1) by simp_all
  have sh: "short (headerLine h)" "headerLine h \<noteq> []" using h headerLine_start [OF h(1)] by (auto simp: goodHeader_def)
  have t: "headerText (h # hs) @ CRLF @ s = headerLine h @ CRLF @ headerText hs @ CRLF @ s" by (simp add: headerText_def)
  show ?case
  proof (cases "toLower (fst h) = k")
    case True
    then have n: "hasName lib k (headerLine h)"
      using h(1) assms(2) by (auto simp: headerLine_def goodHeader_def goodKey_def word_def intro!: hasName_own)
    have "inPlace k = k" using assms(2) by (simp add: inPlace_def FWS_word goodKey_def word_def)
    moreover have "relaxedFirst k (headerLine h) @ CRLF = relaxedText k (firstValue (h # hs) k)"
      using relaxedFirst_line [OF assms(2) True goodHeader_clean [OF h(1)]] True by (simp add: firstValue_def)
    ultimately show ?thesis unfolding t readRelaxed_found [OF sh n h(2)] by simp
  next
    case False
    then have n: "\<not> hasName lib k (headerLine h)" using Cons.prems(2) by (auto simp: unambiguous_def)
    have "firstValue (h # hs) k = firstValue hs k" using False by (simp add: firstValue_def)
    then show ?thesis
      unfolding t readRelaxed_skip [OF sh n] using Cons.IH [OF h(2)] Cons.prems(2,3) False by (simp add: unambiguous_def)
  qed
qed

lemma firstValue_some: "firstValue hs k \<noteq> [] \<Longrightarrow> \<exists>h\<in>set hs. toLower (fst h) = k"
  by (auto simp: firstValue_def find_Some_iff split: option.splits)

lemma relaxedLoop_keys:
  assumes "rmSeek m = None" "\<And>k. k \<in> set ks \<Longrightarrow> readRelaxedHeader lib (rmErr m) (rmData m) k = (Inr (f k), k)"
    "distinct (before @ ks)"
  shows "relaxedLoop lib m before ks out = Inr (out @ concat (map f ks))"
  using assms(2,3) by (induction ks arbitrary: before out) (simp_all add: seekStart_def assms(1))

definition joinColon :: "bytes list \<Rightarrow> bytes" where
  "joinColon ks = (case ks of [] \<Rightarrow> [] | k # ks1 \<Rightarrow> k @ concat (map (\<lambda>x. CHR '':'' # x) ks1))"

lemma collect_keys:
  "collectRelaxedHeaders get keys =
    (let ks = filter (\<lambda>k. get k \<noteq> []) keys in (joinColon ks, concat (map (\<lambda>k. relaxedText k (get k)) ks)))"
proof -
  have n: "0 < n \<Longrightarrow> collectLoop get n ks =
      (concat (map (\<lambda>x. CHR '':'' # x) (filter (\<lambda>k. get k \<noteq> []) ks)), concat (map (\<lambda>k. relaxedText k (get k)) (filter (\<lambda>k. get k \<noteq> []) ks)))" for n ks
    by (induction ks arbitrary: n) (simp_all add: Let_def relaxedText_def)
  have "collectLoop get 0 keys = (let ks = filter (\<lambda>k. get k \<noteq> []) keys in (joinColon ks, concat (map (\<lambda>k. relaxedText k (get k)) ks)))"
    by (induction keys) (simp_all add: Let_def joinColon_def n relaxedText_def)
  then show ?thesis by (simp add: collectRelaxedHeaders_def)
qed

lemma headerNames_join: "list_all goodKey ks \<Longrightarrow> headerNames (joinColon ks) = ks"
proof (induction ks)
  case Nil
  then show ?case by (simp add: joinColon_def headerNames.simps)
next
  case (Cons k ks)
  have k: "word k" "CHR '':'' \<notin> set k" "k \<noteq> []" using Cons.prems by (auto simp: goodKey_def word_def)
  show ?case
  proof (cases ks)
    case Nil
    then show ?thesis using k TrimSpace_word [OF k(1)] IndexByte_None_iff [of k "CHR '':''"]
      by (subst headerNames.simps) (simp add: joinColon_def)
  next
    case (Cons k2 ks2)
    then have j: "joinColon (k # ks) = k @ CHR '':'' # joinColon ks" by (simp add: joinColon_def)
    show ?thesis unfolding j using k TrimSpace_word [OF k(1)] Cons.IH Cons.prems IndexByte_append [OF k(2), of "joinColon ks"]
      by (subst headerNames.simps) simp
  qed
qed

subsection \<open>The tags of a signature\<close>

fun unwords :: "bytes list \<Rightarrow> bytes" where
  "unwords [] = []"
| "unwords [w] = w"
| "unwords (w # ws) = w @ SP # unwords ws"

lemma FWS_unwords: "list_all word ws \<Longrightarrow> writeFWS w (unwords ws) = unwords ws"
  by (induction ws arbitrary: w rule: unwords.induct) (auto simp: word_def FWS_visible FWS_word)

lemma unwords_append: "ws \<noteq> [] \<Longrightarrow> vs \<noteq> [] \<Longrightarrow> unwords (ws @ vs) = unwords ws @ SP # unwords vs"
  by (induction ws rule: unwords.induct) (auto simp: neq_Nil_conv)

lemma unwords_ends: "list_all word ws \<Longrightarrow> ws \<noteq> [] \<Longrightarrow> unwords ws \<noteq> [] \<and> visible (hd (unwords ws)) \<and> visible (last (unwords ws))"
  by (induction ws rule: unwords.induct) (use word_ends in auto)

lemma foldSig_words:
  "word s \<Longrightarrow> \<exists>ws. ws \<noteq> [] \<and> list_all word ws \<and> foldSig s = unwords ws \<and> concat ws = s"
proof (induction s rule: foldSig.induct)
  case (1 s)
  show ?case
  proof (cases "length s \<le> 66")
    case True
    then show ?thesis using 1(2) by (intro exI [of _ "[s]"]) (simp add: foldSig.simps [of s])
  next
    case False
    then have d: "word (drop 66 s)" "word (take 66 s)"
      using 1(2) by (auto simp: word_def list_all_iff dest: in_set_dropD in_set_takeD)
    obtain ws where ws: "ws \<noteq> []" "list_all word ws" "foldSig (drop 66 s) = unwords ws" "concat ws = drop 66 s"
      using 1(1) [OF False d(1)] by blast
    then show ?thesis using False d
      by (intro exI [of _ "take 66 s # ws"]) (auto simp: foldSig.simps [of s] neq_Nil_conv)
  qed
qed

lemma noSpace_unwords: "list_all word ws \<Longrightarrow> noSpace (unwords ws) = concat ws"
proof (induction ws rule: unwords.induct)
  have n: "list_all visible w \<Longrightarrow> noSpace w = w" for w
    by (auto simp: noSpace_def filter_id_conv list_all_iff visible_def)
  {
    case (2 w)
    then show ?case using n by (simp add: word_def)
  next
    case (3 w v vs)
    then show ?case using n [of w] by (simp add: word_def noSpace_def)
  }
qed (simp add: noSpace_def)

lemma parseTags_part:
  assumes "CHR '';'' \<notin> set p"
  shows "parseTags (p @ CHR '';'' # s) t = (case tagPart (TrimSpace p) t of Inl e \<Rightarrow> Inl e | Inr t1 \<Rightarrow> parseTags s t1)"
proof -
  have "nextPart (p @ CHR '';'' # s) = (TrimSpace p, s)" using IndexByte_append [OF assms, of s] by (simp add: nextPart_def)
  then show ?thesis by (subst parseTags.simps) (simp split: sum.split)
qed

lemma parseTags_last:
  assumes "CHR '';'' \<notin> set p" "p \<noteq> []"
  shows "parseTags p t = tagPart (TrimSpace p) t"
  using assms IndexByte_None_iff [of p "CHR '';''"]
  by (subst parseTags.simps) (simp add: nextPart_def parseTags.simps [of "[]"] split: sum.split)

lemma tagPart_key:
  assumes "word k" "CHR ''='' \<notin> set k" "TrimSpace v = v"
  shows "tagPart (k @ CHR ''='' # v) t = setTag k v t"
  using IndexByte_append [OF assms(2), of v] by (simp add: tagPart_def TrimSpace_word [OF assms(1)] assms(3))

text \<open>What \<open>Sign\<close> writes, as words.\<close>

definition goodName :: "bytes \<Rightarrow> bool" where
  "goodName b \<longleftrightarrow> word b \<and> CHR '';'' \<notin> set b"

lemma encode_word:
  assumes "b \<noteq> []"
  shows "word (b64Encode stdAlphabet True b) \<and> CHR '';'' \<notin> set (b64Encode stdAlphabet True b)"
proof -
  have "set (b64Encode stdAlphabet True b) \<subseteq> insert (CHR ''='') (set stdAlphabet)"
    by (induction b rule: triples_induct) auto
  moreover have "list_all (\<lambda>c. visible c \<and> c \<noteq> CHR '';'') stdAlphabet" by (simp add: stdAlphabet_def visible_def)
  moreover have "visible (CHR ''='')" by (simp add: visible_def)
  ultimately have "\<forall>c\<in>set (b64Encode stdAlphabet True b). visible c \<and> c \<noteq> CHR '';''" by (auto simp: list_all_iff)
  then show ?thesis using assms by (auto simp: word_def list_all_iff)
qed

lemma joinColon_visible: "list_all goodKey ks \<Longrightarrow> list_all visible (joinColon ks) \<and> CHR '';'' \<notin> set (joinColon ks)"
  by (cases ks) (auto simp: joinColon_def goodKey_def word_def list_all_iff visible_def)

lemma noSpace_word: "word b \<Longrightarrow> noSpace b = b"
  by (auto simp: noSpace_def filter_id_conv list_all_iff visible_def word_def)

text \<open>The tags that \<open>Verify\<close> gets from them.\<close>

definition tagText :: "bytes \<Rightarrow> bytes \<Rightarrow> bytes" where
  "tagText k v = SP # k @ CHR ''='' # v"

definition okTag :: "bytes \<Rightarrow> bytes \<Rightarrow> bool" where
  "okTag k v \<longleftrightarrow> word k \<and> CHR ''='' \<notin> set k \<and> CHR '';'' \<notin> set k \<and> TrimSpace v = v \<and> (v = [] \<or> visible (last v)) \<and>
     CHR '';'' \<notin> set v"

lemma parseTags_tag:
  assumes "okTag k v"
  shows "parseTags (tagText k v @ CHR '';'' # s) t = (case setTag k v t of Inl e \<Rightarrow> Inl e | Inr t1 \<Rightarrow> parseTags s t1)"
proof -
  have k: "word k" "CHR ''='' \<notin> set k" "TrimSpace v = v" using assms by (simp_all add: okTag_def)
  have "TrimSpace (tagText k v) = k @ CHR ''='' # v"
    using assms TrimSpace_id [of "k @ CHR ''='' # v"] word_ends [OF k(1)] by (auto simp: okTag_def tagText_def TrimSpace_SP visible_def)
  then show ?thesis using assms parseTags_part [of "tagText k v" s t] tagPart_key [OF k, of t] by (simp add: okTag_def tagText_def)
qed

lemma okTag_word: "word k \<Longrightarrow> CHR ''='' \<notin> set k \<Longrightarrow> CHR '';'' \<notin> set k \<Longrightarrow> word v \<Longrightarrow> CHR '';'' \<notin> set v \<Longrightarrow> okTag k v"
  using word_ends [of v] by (simp add: okTag_def TrimSpace_word)

lemma parse_signature:
  assumes "goodName (sgDomain sg)" "goodName (sgSelector sg)" "list_all goodKey ks" "bh \<noteq> []" "sig \<noteq> []"
  shows "parseTags (SP # sigStart sg (joinColon ks) (b64Encode stdAlphabet True bh) @ foldSig (b64Encode stdAlphabet True sig) @ CRLF) noTags =
    Inr \<lparr>dtVersion = True, dtAlgo = Some SHA256, dtSelector = sgSelector sg, dtDomain = sgDomain sg, dtLimit = 0,
      dtHeaders = ks, dtSig = sig, dtBodyHash = bh, dtCanonHeader = Relaxed, dtCanonBody = Relaxed\<rparr>"
proof -
  let ?B = "b64Encode stdAlphabet True bh" and ?E = "b64Encode stdAlphabet True sig"
  obtain ws where ws: "ws \<noteq> []" "list_all word ws" "foldSig ?E = unwords ws" "concat ws = ?E"
    using foldSig_words encode_word [OF assms(5)] by blast
  let ?F = "unwords ws"
  note e = unwords_ends [OF ws(2,1)]
  have sc: "CHR '';'' \<notin> set ?F"
  proof -
    have "set (unwords us) \<subseteq> insert SP (set (concat us))" for us by (induction us rule: unwords.induct) auto
    then show ?thesis using encode_word [OF assms(5)] ws(4) by fastforce
  qed
  have D: "TrimSpace (sgDomain sg) = sgDomain sg" "TrimSpace (sgSelector sg) = sgSelector sg"
    using assms(1,2) by (simp_all add: goodName_def TrimSpace_word)
  have K: "TrimSpace (joinColon ks) = joinColon ks"
    using joinColon_visible [OF assms(3)] TrimSpace_word [of "joinColon ks"] set_TrimSpace [of "[]"]
    by (cases "joinColon ks = []") (simp_all add: word_def)
  have B: "TrimSpace ?B = ?B" "tagData ?B = Inr bh" "CHR '';'' \<notin> set ?B"
    using encode_word [OF assms(4)] by (auto simp: TrimSpace_word tagData_def noSpace_word std64.decode_encode)
  have F: "TrimSpace ?F = ?F" "tagData ?F = Inr sig"
    using e TrimSpace_id [of ?F] noSpace_unwords [OF ws(2)] ws(4) by (simp_all add: tagData_def std64.decode_encode)
  have ok: "okTag ''v'' ''1''" "okTag ''a'' ''rsa-sha256''" "okTag ''c'' ''relaxed/relaxed''" "okTag ''d'' (sgDomain sg)"
    "okTag ''s'' (sgSelector sg)" "okTag ''bh'' ?B"
    using assms(1,2) encode_word [OF assms(4)] by (intro okTag_word; simp add: goodName_def word_def visible_def)+
  have okh: "okTag ''h'' (joinColon ks)"
    using joinColon_visible [OF assms(3)] K last_in_set [of "joinColon ks"]
    by (auto simp: okTag_def list_all_iff word_def visible_def simp del: last_in_set)
  have last: "parseTags (tagText ''b'' (?F @ CRLF)) t = setTag ''b'' ?F t" for t
  proof -
    have "TrimSpace ((''b'' @ CHR ''='' # ?F) @ CRLF) = ''b'' @ CHR ''='' # ?F" using e by (intro TrimSpace_CRLF) (auto simp: visible_def)
    then show ?thesis
      using parseTags_last [of "tagText ''b'' (?F @ CRLF)" t] tagPart_key [of "''b''" ?F t] sc F by (simp add: tagText_def TrimSpace_SP word_def visible_def)
  qed
  have shape: "SP # sigStart sg (joinColon ks) ?B @ ?F @ CRLF =
      tagText ''v'' ''1'' @ CHR '';'' # tagText ''a'' ''rsa-sha256'' @ CHR '';'' # tagText ''c'' ''relaxed/relaxed'' @ CHR '';'' #
      tagText ''d'' (sgDomain sg) @ CHR '';'' # tagText ''s'' (sgSelector sg) @ CHR '';'' # tagText ''h'' (joinColon ks) @ CHR '';'' #
      tagText ''bh'' ?B @ CHR '';'' # tagText ''b'' (?F @ CRLF)" by (simp add: sigStart_def tagText_def)
  have "parseTags (SP # sigStart sg (joinColon ks) ?B @ ?F @ CRLF) noTags = parseTags
      (tagText ''d'' (sgDomain sg) @ CHR '';'' # tagText ''s'' (sgSelector sg) @ CHR '';'' # tagText ''h'' (joinColon ks) @ CHR '';'' #
      tagText ''bh'' ?B @ CHR '';'' # tagText ''b'' (?F @ CRLF)) (noTags\<lparr>dtVersion := True, dtAlgo := Some SHA256, dtCanonBody := Relaxed, dtCanonHeader := Relaxed\<rparr>)"
    unfolding shape by (simp add: parseTags_tag [OF ok(1)] parseTags_tag [OF ok(2)] parseTags_tag [OF ok(3)]
        setTag_def tagCanon_def canonOf_def del: append.simps append_assoc)
  also have "\<dots> = Inr \<lparr>dtVersion = True, dtAlgo = Some SHA256, dtSelector = sgSelector sg, dtDomain = sgDomain sg, dtLimit = 0,
      dtHeaders = ks, dtSig = sig, dtBodyHash = bh, dtCanonHeader = Relaxed, dtCanonBody = Relaxed\<rparr>"
    using B(2) F(2) headerNames_join [OF assms(3)]
    by (simp add: parseTags_tag [OF ok(4)] parseTags_tag [OF ok(5)] parseTags_tag [OF ok(6)] parseTags_tag [OF okh] last
        setTag_def noTags_def del: append.simps append_assoc)
  finally show ?thesis unfolding ws(3) .
qed

subsection \<open>What the verifier hashes\<close>

lemma splitByte_part: "d \<notin> set p \<Longrightarrow> splitByte d (p @ d # s) = p # splitByte d s"
  by (induction p) auto

lemma splitByte_last: "d \<notin> set p \<Longrightarrow> splitByte d p = [p]"
  by (induction p) auto

lemma blank_key:
  assumes "word k" "CHR ''='' \<notin> set k"
  shows "blankRelaxed (tagText k v) = (if k = ''b'' then '' b='' else tagText k v)"
proof -
  have "IndexByte ((SP # k) @ CHR ''='' # v) (CHR ''='') = Some (length (SP # k))"
    using assms(2) by (intro IndexByte_append) auto
  then show ?thesis by (simp add: tagText_def blankRelaxed_def TrimSpace_SP TrimSpace_word [OF assms(1)])
qed

text \<open>Without the data of its \<open>b=\<close> tag, the header is what the signer hashed.\<close>

lemma blank_signature:
  assumes "goodName (sgDomain sg)" "goodName (sgSelector sg)" "list_all goodKey ks" "CHR '';'' \<notin> set B" "CHR '';'' \<notin> set F"
  shows "joinParts (map blankRelaxed (splitByte (CHR '';'') (''dkim-signature:'' @ sigStart sg (joinColon ks) B @ F))) =
    ''dkim-signature:'' @ sigStart sg (joinColon ks) B"
proof -
  have shape: "''dkim-signature:'' @ sigStart sg (joinColon ks) B @ F =
      ''dkim-signature:v=1'' @ CHR '';'' # tagText ''a'' ''rsa-sha256'' @ CHR '';'' # tagText ''c'' ''relaxed/relaxed'' @ CHR '';'' #
      tagText ''d'' (sgDomain sg) @ CHR '';'' # tagText ''s'' (sgSelector sg) @ CHR '';'' # tagText ''h'' (joinColon ks) @ CHR '';'' #
      tagText ''bh'' B @ CHR '';'' # tagText ''b'' F" by (simp add: sigStart_def tagText_def)
  have sd: "CHR '';'' \<notin> set (sgDomain sg)" "CHR '';'' \<notin> set (sgSelector sg)" "CHR '';'' \<notin> set (joinColon ks)"
    using assms(1,2) joinColon_visible [OF assms(3)] by (simp_all add: goodName_def)
  have parts: "splitByte (CHR '';'') (''dkim-signature:'' @ sigStart sg (joinColon ks) B @ F) =
      [''dkim-signature:v=1'', tagText ''a'' ''rsa-sha256'', tagText ''c'' ''relaxed/relaxed'', tagText ''d'' (sgDomain sg), tagText ''s'' (sgSelector sg),
       tagText ''h'' (joinColon ks), tagText ''bh'' B, tagText ''b'' F]"
  proof -
    have n: "CHR '';'' \<notin> set v \<Longrightarrow> CHR '';'' \<notin> set k \<Longrightarrow> CHR '';'' \<notin> set (tagText k v)" for k v by (simp add: tagText_def)
    show ?thesis unfolding shape using sd assms(4,5) n splitByte_part
      by (simp add: splitByte_last del: splitByte.simps append.simps append_assoc)
  qed
  have w: "word k \<and> CHR ''='' \<notin> set k" if "k \<in> {''a'', ''c'', ''d'', ''s'', ''h'', ''bh'', ''b''}" for k
    using that by (auto simp: word_def visible_def)
  have first: "blankRelaxed ''dkim-signature:v=1'' = ''dkim-signature:v=1''"
    using TrimSpace_word [of "''dkim-signature:v''"] by (simp add: blankRelaxed_def word_def visible_def)
  show ?thesis unfolding parts using w blank_key first by (simp add: sigStart_def) (simp add: tagText_def)
qed

text \<open>The signature's header is read as the one that was printed.\<close>

definition sigLine :: "bytes \<Rightarrow> bytes" where
  "sigLine sig = headerLine (''DKIM-Signature'', sig)"

lemma hasName_sig: "hasName lib dkimSigHeaderLower (sigLine sig)"
  by (simp add: hasName_def sigLine_def headerLine_def dkimSigHeaderLower_def equalFold_def lowerByte_def)
    (simp add: char_of_def bit_0)

lemma signature_text:
  assumes "list_all word ws" "ws \<noteq> []" "short (sigLine (unwords ws))" "list_all goodHeader hs"
  shows "fst (readRelaxedHeader lib e (sigLine (unwords ws) @ CRLF @ headerText hs @ CRLF @ s) dkimSigHeaderLower) =
      Inr (''dkim-signature:'' @ unwords ws @ CRLF)"
    "readHeader lib e (sigLine (unwords ws) @ CRLF @ headerText hs @ CRLF @ s) dkimSigHeader = Inr (sigLine (unwords ws) @ CRLF)"
proof -
  note ends = unwords_ends [OF assms(1,2)]
  let ?l = "sigLine (unwords ws)"
  have ne: "?l \<noteq> []" by (simp add: sigLine_def headerLine_def)
  have h2: "hasName lib dkimSigHeader ?l"
    by (simp add: hasName_def sigLine_def headerLine_def dkimSigHeader_def equalFold_def)
  have "relaxedFirst dkimSigHeaderLower ?l = ''dkim-signature:'' @ unwords ws"
    using TrimSpace_id [of "unwords ws"] ends FWS_unwords [OF assms(1)]
    by (simp add: relaxedFirst_def sigLine_def headerLine_def dkimSigHeaderLower_def afterColon_def TrimSpace_SP)
  then show "fst (readRelaxedHeader lib e (?l @ CRLF @ headerText hs @ CRLF @ s) dkimSigHeaderLower) =
      Inr (''dkim-signature:'' @ unwords ws @ CRLF)"
    using readRelaxed_found [OF assms(3) ne hasName_sig assms(4)] by simp
  show "readHeader lib e (?l @ CRLF @ headerText hs @ CRLF @ s) dkimSigHeader = Inr (?l @ CRLF)"
    by (subst readHeader.simps)
      (simp add: ne h2 scanLine_line [OF assms(3)] cont_next [OF assms(4)] del: append.simps append_assoc)
qed

lemma skipHeaders_lines:
  "list_all (\<lambda>l. clean l \<and> l \<noteq> []) ls \<Longrightarrow> ls \<noteq> [] \<Longrightarrow> skipHeaders e (concat (map (\<lambda>l. l @ CRLF) ls) @ CRLF @ b) = Inr b"
proof (induction ls)
  case Nil
  then show ?case by simp
next
  case (Cons l ls)
  have "IndexByte ((l @ [CR]) @ LF # concat (map (\<lambda>l. l @ CRLF) ls) @ CRLF @ b) LF = Some (length (l @ [CR]))"
    using Cons.prems(1) by (intro IndexByte_append) (auto simp: clean_def)
  then have i: "IndexByte (concat (map (\<lambda>l. l @ CRLF) (l # ls)) @ CRLF @ b) LF = Some (length l + 1)" by simp
  show ?case
  proof (cases ls)
    case Nil
    then show ?thesis using i by (subst skipHeaders.simps) simp
  next
    case (Cons l2 ls2)
    then obtain a as where l2: "l2 = a # as" "a \<noteq> CR" using \<open>list_all _ (l # ls)\<close> by (cases l2) (auto simp: clean_def)
    show ?thesis using i Cons.IH Cons.prems Cons l2 by (subst skipHeaders.simps) (simp add: Let_def)
  qed
qed

lemma srcText_cut: "srcText (cutBody ns b e) = b"
  by (induction ns b e rule: cutBody.induct) simp_all

lemma plain_cut: "plain (cutBody ns b RdEOF)"
  by (induction ns b RdEOF rule: cutBody.induct) (simp_all add: plain_def)

lemma relaxed_short:
  assumes "length (srcText src) \<le> copyBuf" "plain src"
  shows "copyBody (newRelaxedBody src None) = Ok (trimSpec False 0 (fst (reduceWS False (srcText src))), None)"
  using copyBody_short [of "\<lparr>bsSrc = src, bsLimit = None, bsRelaxed = True, bsInWS = False\<rparr>"] assms
    length_bodyText [of "\<lparr>bsSrc = src, bsLimit = None, bsRelaxed = True, bsInWS = False\<rparr>"]
  by (simp add: newRelaxedBody_def bodyText_def limited_def)

subsection \<open>Signed messages verify\<close>

text \<open>A message with a signature in front of its headers.\<close>

definition signedMsg :: "bytes \<Rightarrow> (bytes \<times> bytes) list \<Rightarrow> bytes \<Rightarrow> nat list \<Rightarrow> dkimMsg" where
  "signedMsg sig hs body ns =
     \<lparr>rmData = sigLine sig @ CRLF @ headerText hs @ CRLF @ body, rmErr = RdEOF, rmSeek = None, rmCut = ns\<rparr>"

text \<open>The key pair: what the signer's key signs, the key that the domain publishes verifies.\<close>

definition keyPair :: "dkimLib \<Rightarrow> verifier \<Rightarrow> signer \<Rightarrow> bool" where
  "keyPair lib v sg \<longleftrightarrow>
     (\<exists>key. lookupPublicKey lib v (sgSelector sg @ ''._domainkey.'' @ sgDomain sg) = Inr key \<and>
        (\<forall>d sig. dlSignRSA lib (sgKey sg) d = Inr sig \<longrightarrow> sig \<noteq> [] \<and> dlVerifyRSA lib key SHA256 d sig)) \<and>
     (\<forall>b. dlSum lib SHA256 b \<noteq> [])"

text \<open>What is signed: the headers that have a value, the digest of the body, the signature's own start.\<close>

definition signedKeys :: "signer \<Rightarrow> (bytes \<times> bytes) list \<Rightarrow> bytes list" where
  "signedKeys sg hs = filter (\<lambda>k. firstValue hs k \<noteq> []) (sgHeaders sg)"

definition bodyDigest :: "dkimLib \<Rightarrow> bytes \<Rightarrow> bytes" where
  "bodyDigest lib body = dlSum lib SHA256 (trimSpec False 0 (fst (reduceWS False body)))"

definition unsignedSig :: "dkimLib \<Rightarrow> signer \<Rightarrow> (bytes \<times> bytes) list \<Rightarrow> bytes \<Rightarrow> bytes" where
  "unsignedSig lib sg hs body = sigStart sg (joinColon (signedKeys sg hs)) (b64Encode stdAlphabet True (bodyDigest lib body))"

definition signedText :: "dkimLib \<Rightarrow> signer \<Rightarrow> (bytes \<times> bytes) list \<Rightarrow> bytes \<Rightarrow> bytes" where
  "signedText lib sg hs body =
     concat (map (\<lambda>k. relaxedText k (firstValue hs k)) (signedKeys sg hs)) @ ''dkim-signature:'' @ unsignedSig lib sg hs body"

lemma Sign_ok:
  assumes "Sign lib sg (firstValue hs) src = Ok (Inr sig)" "plain src" "length (srcText src) \<le> copyBuf"
  shows "\<exists>s. dlSignRSA lib (sgKey sg) (dlSum lib SHA256 (signedText lib sg hs (srcText src))) = Inr s \<and>
    sig = unsignedSig lib sg hs (srcText src) @ foldSig (b64Encode stdAlphabet True s)"
  using assms(1) relaxed_short [OF assms(3,2)]
  by (auto simp: Sign_def collect_keys Let_def signedKeys_def relaxedBodyHash_def bodyDigest_def unsignedSig_def signedText_def
      split: sum.splits)

lemma semicolon_unwords: "CHR '';'' \<notin> set (concat us) \<Longrightarrow> CHR '';'' \<notin> set (unwords us)"
proof -
  have "set (unwords us) \<subseteq> insert SP (set (concat us))" by (induction us rule: unwords.induct) auto
  moreover assume "CHR '';'' \<notin> set (concat us)"
  ultimately show ?thesis by auto
qed

lemma signature_words:
  assumes "goodName (sgDomain sg)" "goodName (sgSelector sg)" "list_all goodKey ks" "bh \<noteq> []" "s \<noteq> []"
  shows "\<exists>ws. list_all word ws \<and> ws \<noteq> [] \<and>
    sigStart sg (joinColon ks) (b64Encode stdAlphabet True bh) @ foldSig (b64Encode stdAlphabet True s) = unwords ws"
proof -
  obtain fs where fs: "fs \<noteq> []" "list_all word fs" "foldSig (b64Encode stdAlphabet True s) = unwords fs"
    using foldSig_words encode_word [OF assms(5)] by blast
  define ws where "ws = [''v=1;'', ''a=rsa-sha256;'', ''c=relaxed/relaxed;'', ''d='' @ sgDomain sg @ '';'', ''s='' @ sgSelector sg @ '';'',
      ''h='' @ joinColon ks @ '';'', ''bh='' @ b64Encode stdAlphabet True bh @ '';'', ''b='' @ hd fs] @ tl fs"
  have "list_all word ws"
    using assms(1,2) joinColon_visible [OF assms(3)] encode_word [OF assms(4)] fs(1,2)
    by (cases fs) (auto simp: ws_def goodName_def word_def visible_def)
  moreover have "sigStart sg (joinColon ks) (b64Encode stdAlphabet True bh) @ unwords fs = unwords ws"
    using fs(1) by (cases fs; cases "tl fs") (simp_all add: ws_def sigStart_def)
  moreover have "ws \<noteq> []" by (simp add: ws_def)
  ultimately show ?thesis using fs(3) by auto
qed

lemma trimEnd_words:
  assumes "list_all word ws" "ws \<noteq> []"
  shows "trimEnd (x @ unwords ws @ CRLF) = x @ unwords ws"
proof -
  note e = unwords_ends [OF assms]
  obtain ys y where y: "unwords ws = ys @ [y]" using e by (metis append_butlast_last_id)
  then have "visible y" using e by simp
  then show ?thesis by (auto simp: y trimEnd_def visible_def)
qed

lemma signed_lookup:
  assumes "list_all goodHeader hs" "k \<in> set (signedKeys sg hs)" "list_all goodKey (sgHeaders sg)"
    "list_all (unambiguous lib ((''DKIM-Signature'', sig) # hs)) (sgHeaders sg)"
    "list_all (\<lambda>k. toLower ''DKIM-Signature'' \<noteq> k) (sgHeaders sg)" "short (sigLine sig)"
  shows "readRelaxedHeader lib e (sigLine sig @ CRLF @ headerText hs @ CRLF @ body) k = (Inr (relaxedText k (firstValue hs k)), k)"
proof -
  have g: "goodKey k" "unambiguous lib ((''DKIM-Signature'', sig) # hs) k" "toLower ''DKIM-Signature'' \<noteq> k" "firstValue hs k \<noteq> []"
    using assms(2-5) by (auto simp: signedKeys_def list_all_iff)
  have "\<not> hasName lib k (sigLine sig)" using g(2,3) by (simp add: unambiguous_def sigLine_def)
  then have "readRelaxedHeader lib e (sigLine sig @ CRLF @ headerText hs @ CRLF @ body) k =
      readRelaxedHeader lib e (headerText hs @ CRLF @ body) k"
    by (intro readRelaxed_skip assms(6)) (simp_all add: sigLine_def headerLine_def)
  also have "\<dots> = (Inr (relaxedText k (firstValue hs k)), k)"
    using g firstValue_some [OF g(4)] by (intro relaxed_lookup [OF assms(1)]) (simp_all add: unambiguous_def)
  finally show ?thesis .
qed

lemma find_signature:
  assumes "list_all word ws" "ws \<noteq> []" "short (sigLine (unwords ws))" "list_all goodHeader hs"
  shows "findDKIMSignature lib (signedMsg (unwords ws) hs body ns) = Inr (SP # unwords ws @ CRLF)"
  using signature_text(2) [OF assms, of lib RdEOF body]
  by (simp add: findDKIMSignature_def signedMsg_def) (simp add: sigLine_def headerLine_def dkimSigHeader_def)

lemma skip_signed:
  assumes "list_all goodHeader hs" "short (sigLine sig)"
  shows "skipHeaders e (sigLine sig @ CRLF @ headerText hs @ CRLF @ body) = Inr body"
proof -
  have "skipHeaders e (concat (map (\<lambda>l. l @ CRLF) (sigLine sig # map headerLine hs)) @ CRLF @ body) = Inr body"
  proof (rule skipHeaders_lines)
    show "list_all (\<lambda>l. clean l \<and> l \<noteq> []) (sigLine sig # map headerLine hs)"
      using assms headerLine_start by (auto simp: list_all_iff short_def goodHeader_def) (simp add: sigLine_def headerLine_def)
  qed simp
  then show ?thesis by (simp add: headerText_def o_def)
qed

text \<open>C20: What \<open>Sign\<close> signs, \<open>Verify\<close> accepts: the signature put in front of a message's headers, each on one line, over a body of
  at most 32 KB, is verified without error by a verifier that finds the signer's key. The headers signed must not be
  prefixes of the names of others (they are looked up by prefix), the body may arrive in any pieces on both sides.\<close>

theorem sign_verifies:
  assumes "Sign lib sg (firstValue hs) src = Ok (Inr sig)" "keyPair lib v sg"
    and "goodName (sgDomain sg)" "goodName (sgSelector sg)" "list_all goodKey (sgHeaders sg)" "distinct (sgHeaders sg)"
    and "list_all goodHeader hs" "list_all (unambiguous lib ((''DKIM-Signature'', sig) # hs)) (sgHeaders sg)"
    and "list_all (\<lambda>k. toLower ''DKIM-Signature'' \<noteq> k) (sgHeaders sg)" "short (sigLine sig)"
    and "srcText src = body" "plain src" "length body \<le> copyBuf"
  shows "Verify lib v (signedMsg sig hs body ns) = Ok None"
proof -
  let ?m = "signedMsg sig hs body ns"
  define ks where "ks = signedKeys sg hs"
  define bh where "bh = bodyDigest lib body"
  define hashed where "hashed = signedText lib sg hs body"
  have buf: "unsignedSig lib sg hs body = sigStart sg (joinColon ks) (b64Encode stdAlphabet True bh)"
    by (simp add: unsignedSig_def ks_def bh_def)
  obtain key where key: "lookupPublicKey lib v (sgSelector sg @ ''._domainkey.'' @ sgDomain sg) = Inr key"
      "\<And>d s. dlSignRSA lib (sgKey sg) d = Inr s \<Longrightarrow> s \<noteq> [] \<and> dlVerifyRSA lib key SHA256 d s" "bh \<noteq> []"
    using assms(2) unfolding keyPair_def bh_def bodyDigest_def by blast
  have ks: "list_all goodKey ks" "distinct ks" using assms(5,6) by (auto simp: ks_def signedKeys_def list_all_iff)
  obtain s where s: "dlSignRSA lib (sgKey sg) (dlSum lib SHA256 hashed) = Inr s"
      "sig = sigStart sg (joinColon ks) (b64Encode stdAlphabet True bh) @ foldSig (b64Encode stdAlphabet True s)"
    using Sign_ok [OF assms(1,12)] assms(11,13) buf hashed_def by auto
  have sn: "s \<noteq> []" "dlVerifyRSA lib key SHA256 (dlSum lib SHA256 hashed) s" using key(2) [OF s(1)] by simp_all
  obtain ws where ws: "list_all word ws" "ws \<noteq> []" "sig = unwords ws"
    using signature_words [OF assms(3,4) ks(1) key(3) sn(1)] s(2) by auto
  have sg: "short (sigLine (unwords ws))" using assms(10) ws(3) by simp
  have tags: "parseTags (SP # sig @ CRLF) noTags = Inr \<lparr>dtVersion = True, dtAlgo = Some SHA256, dtSelector = sgSelector sg,
      dtDomain = sgDomain sg, dtLimit = 0, dtHeaders = ks, dtSig = s, dtBodyHash = bh, dtCanonHeader = Relaxed, dtCanonBody = Relaxed\<rparr>"
    using parse_signature [OF assms(3,4) ks(1) key(3) sn(1)] by (simp add: s(2))
  have "copyBody (newRelaxedBody (cutBody ns body RdEOF) None) = Ok (trimSpec False 0 (fst (reduceWS False body)), None)"
    using relaxed_short [of "cutBody ns body RdEOF"] assms(13) srcText_cut plain_cut by simp
  then have hash: "hashBody lib Relaxed 0 SHA256 ?m = Ok (Inr bh)"
    using skip_signed [OF assms(7,10)] by (simp add: hashBody_def seekStart_def signedMsg_def bh_def bodyDigest_def Let_def)
  have loop: "relaxedLoop lib ?m [] (map toLower ks) [] = Inr (concat (map (\<lambda>k. relaxedText k (firstValue hs k)) ks))"
  proof -
    have "map toLower ks = ks" using ks(1) by (induction ks) (simp_all add: goodKey_def)
    then show ?thesis
      using relaxedLoop_keys [of ?m ks lib "\<lambda>k. relaxedText k (firstValue hs k)" "[]" "[]"] ks(2)
        signed_lookup [OF assms(7) _ assms(5,8-10)]
      by (simp add: signedMsg_def ks_def)
  qed
  obtain fs where fs: "foldSig (b64Encode stdAlphabet True s) = unwords fs" "concat fs = b64Encode stdAlphabet True s"
    using foldSig_words encode_word [OF sn(1)] by blast
  have "joinParts (map blankRelaxed (splitByte (CHR '';'') (''dkim-signature:'' @ sig))) = ''dkim-signature:'' @ unsignedSig lib sg hs body"
    using blank_signature [OF assms(3,4) ks(1)] semicolon_unwords [of fs] fs encode_word [OF sn(1)] encode_word [OF key(3)]
    by (simp add: s(2) buf)
  then have headers: "relaxedHeaders lib ?m ks = Inr hashed"
    using loop signature_text(1) [OF ws(1,2) sg assms(7), of lib RdEOF body] trimEnd_words [OF ws(1,2), of "''dkim-signature:''"] ws(3)
    by (simp add: relaxedHeaders_def seekStart_def signedMsg_def hashed_def signedText_def ks_def)
  show ?thesis
    using find_signature [OF ws(1,2) sg assms(7)] ws(3) tags hash headers key(1) sn key(3) assms(3,4)
    by (simp add: Verify_def missingTag_def verifyTags_def goodName_def word_def)
qed

definition exampleDkim :: dkimLib where
  "exampleDkim =
     \<lparr>dlFold = (=), dlSum = (\<lambda>_ b. [char_of (length b)]), dlVerifyRSA = (\<lambda>_ _ d s. s = ''s'' @ d), dlParsePKIX = (\<lambda>b. Inr (Some b)),
      dlResolver = (\<lambda>_. Inr [''k=rsa; p='', ''YQ=='']), dlSignRSA = (\<lambda>_ d. Inr (''s'' @ d)), dlPem = Some, dlParseKey = Inr\<rparr>"

definition exampleSigner :: signer where
  "exampleSigner = \<lparr>sgKey = ''key'', sgDomain = ''a.b'', sgSelector = ''x'', sgHeaders = [''date'', ''from'', ''to'']\<rparr>"

definition exampleSig :: bytes where
  "exampleSig = ''v=1; a=rsa-sha256; c=relaxed/relaxed; d=a.b; s=x; h=from:to; bh=BA==; b=c2k=''"

lemma example_key: "lookupPublicKey exampleDkim \<lparr>vLookupTXT = None\<rparr> d = Inr ''a''"
proof -
  have t: "TrimSpace ''k=rsa'' = ''k=rsa''" "TrimSpace '' p=YQ=='' = ''p=YQ==''"
    by (simp_all add: TrimSpace_SP TrimSpace_word word_def visible_def)
  have "b64Decode stdAlphabet True ''YQ=='' = Some ''a''"
    by (simp add: b64Decode_def stdAlphabet_def b1_def) (simp add: char_of_def bit_0)
  then show ?thesis using t by (simp add: lookupPublicKey_def exampleDkim_def keyTags.simps nextPart_def)
qed

lemma example_sign:
  "Sign exampleDkim exampleSigner (firstValue [(''From'', ''ann''), (''To'', ''bob'')]) [(''hi'', None), (CRLF, None)] = Ok (Inr exampleSig)"
proof -
  have copy: "copyBody (newRelaxedBody [(''hi'', None), (CRLF, None)] None) = Ok (''hi'' @ CRLF, None)"
    using relaxed_short [of "[(''hi'', None), (CRLF, None)]"] by (simp add: copyBuf_def plain_def)
  have t: "TrimSpace ''ann'' = ''ann''" "TrimSpace ''bob'' = ''bob''" by (simp_all add: TrimSpace_word word_def visible_def)
  have f: "toLower ''From'' = ''from''" "toLower ''To'' = ''to''"
    by (simp_all add: toLower_def lowerByte_def) (simp_all add: char_of_def bit_0)
  have b: "b64Encode stdAlphabet True [char_of (4 :: nat)] = ''BA==''"
    "b64Encode stdAlphabet True [CHR ''s'', char_of (105 :: nat)] = ''c2k=''"
    by (simp_all add: sym_def stdAlphabet_def)
  have c: "collectRelaxedHeaders (firstValue [(''From'', ''ann''), (''To'', ''bob'')]) (sgHeaders exampleSigner) =
      (''from:to'', ''from:ann'' @ CRLF @ ''to:bob'' @ CRLF)"
    by (simp add: collectRelaxedHeaders_def exampleSigner_def firstValue_def f t)
  show ?thesis
    using c copy b by (simp add: Sign_def relaxedBodyHash_def exampleDkim_def sigStart_def exampleSigner_def exampleSig_def foldSig.simps)
qed

theorem sign_verifies_witness:
  "Verify exampleDkim \<lparr>vLookupTXT = None\<rparr> (signedMsg exampleSig [(''From'', ''ann''), (''To'', ''bob'')] (''hi'' @ CRLF) [1]) = Ok None"
proof (rule sign_verifies [OF example_sign])
  show "keyPair exampleDkim \<lparr>vLookupTXT = None\<rparr> exampleSigner"
    unfolding keyPair_def example_key by (simp add: exampleDkim_def)
  show "list_all (unambiguous exampleDkim [(''DKIM-Signature'', exampleSig), (''From'', ''ann''), (''To'', ''bob'')]) (sgHeaders exampleSigner)"
    by (simp add: exampleSigner_def unambiguous_def hasName_def headerLine_def equalFold_def toLower_def lowerByte_def)
      (simp add: char_of_def bit_0)
  show "list_all (\<lambda>k. toLower ''DKIM-Signature'' \<noteq> k) (sgHeaders exampleSigner)"
    by (simp add: exampleSigner_def toLower_def)
  show "list_all goodKey (sgHeaders exampleSigner)"
    by (simp add: exampleSigner_def goodKey_def word_def visible_def toLower_def lowerByte_def)
  show "short (sigLine exampleSig)"
    by (simp add: short_def sigLine_def headerLine_def exampleSig_def clean_def maxToken_def)
qed (simp_all add: exampleSigner_def goodName_def goodHeader_def word_def visible_def short_def headerLine_def clean_def
    maxToken_def plain_def copyBuf_def)

subsection \<open>Changes that are not noticed\<close>

text \<open>Two messages that cannot be told apart.\<close>

definition sameHeaders :: "dkimLib \<Rightarrow> dkimMsg \<Rightarrow> dkimMsg \<Rightarrow> bytes set \<Rightarrow> bool" where
  "sameHeaders lib m n names \<longleftrightarrow>
     (\<forall>k\<in>names. readRelaxedHeader lib (rmErr m) (rmData m) k = readRelaxedHeader lib (rmErr n) (rmData n) k)"

lemma relaxedLoop_same:
  "rmSeek m = rmSeek n \<Longrightarrow> sameHeaders lib m n (set ks) \<Longrightarrow> relaxedLoop lib m before ks out = relaxedLoop lib n before ks out"
  by (induction ks arbitrary: before out) (auto simp: seekStart_def sameHeaders_def split: option.split sum.split prod.split)

lemma simpleLoop_same:
  "rmSeek m = rmSeek n \<Longrightarrow> (\<And>k. readHeader lib (rmErr m) (rmData m) k = readHeader lib (rmErr n) (rmData n) k) \<Longrightarrow>
   simpleLoop lib m ks out = simpleLoop lib n ks out"
  by (induction ks arbitrary: out) (auto simp: seekStart_def split: option.split sum.split)

lemma relaxedHeaders_same:
  assumes "rmSeek m = rmSeek n" "sameHeaders lib m n (insert dkimSigHeaderLower (toLower ` set ks))"
  shows "relaxedHeaders lib m ks = relaxedHeaders lib n ks"
proof -
  have "relaxedLoop lib m [] (map toLower ks) [] = relaxedLoop lib n [] (map toLower ks) []"
    using assms by (intro relaxedLoop_same) (auto simp: sameHeaders_def)
  moreover have "readRelaxedHeader lib (rmErr m) (rmData m) dkimSigHeaderLower = readRelaxedHeader lib (rmErr n) (rmData n) dkimSigHeaderLower"
    using assms(2) by (simp add: sameHeaders_def)
  ultimately show ?thesis
    using assms(1) by (cases "rmSeek n") (auto simp: relaxedHeaders_def seekStart_def split: sum.split)
qed

lemma simpleHeaders_same:
  assumes "rmSeek m = rmSeek n" "\<And>k. readHeader lib (rmErr m) (rmData m) k = readHeader lib (rmErr n) (rmData n) k"
  shows "simpleHeaders lib m ks = simpleHeaders lib n ks"
  using simpleLoop_same [OF assms, of ks "[]"] assms
  by (cases "rmSeek n") (auto simp: simpleHeaders_def seekStart_def split: sum.split)

lemma hashBody_same:
  "rmSeek m = rmSeek n \<Longrightarrow> rmErr m = rmErr n \<Longrightarrow> rmCut m = rmCut n \<Longrightarrow>
   skipHeaders (rmErr m) (rmData m) = skipHeaders (rmErr n) (rmData n) \<Longrightarrow> hashBody lib c l a m = hashBody lib c l a n"
  by (cases "rmSeek n"; cases "skipHeaders (rmErr n) (rmData n)") (simp_all add: hashBody_def seekStart_def)

lemma Verify_same:
  assumes "findDKIMSignature lib m = findDKIMSignature lib n" "\<And>c l a. hashBody lib c l a m = hashBody lib c l a n"
    "\<And>hdr t. findDKIMSignature lib n = Inr hdr \<Longrightarrow> parseTags hdr noTags = Inr t \<Longrightarrow> dtCanonHeader t = Relaxed \<Longrightarrow>
      relaxedHeaders lib m (dtHeaders t) = relaxedHeaders lib n (dtHeaders t)"
    "\<And>hdr t. findDKIMSignature lib n = Inr hdr \<Longrightarrow> parseTags hdr noTags = Inr t \<Longrightarrow> dtCanonHeader t = Simple \<Longrightarrow>
      simpleHeaders lib m (dtHeaders t) = simpleHeaders lib n (dtHeaders t)"
  shows "Verify lib v m = Verify lib v n"
proof (cases "findDKIMSignature lib n")
  case (Inl e)
  then show ?thesis by (simp add: Verify_def assms(1))
next
  case (Inr hdr)
  note found = this
  show ?thesis
  proof (cases "parseTags hdr noTags")
    case (Inl e)
    then show ?thesis using found by (simp add: Verify_def assms(1))
  next
    case (Inr t)
    have "verifyTags lib v m a t = verifyTags lib v n a t" for a
      using assms(3,4) [OF found Inr] by (cases "dtCanonHeader t") (simp_all only: verifyTags_def assms(2), simp_all)
    then show ?thesis using found Inr by (cases "missingTag t") (simp_all add: Verify_def assms(1))
  qed
qed

definition lineText :: "bytes list \<Rightarrow> bytes" where
  "lineText ls = concat (map (\<lambda>l. l @ CRLF) ls)"

lemma scanLine_empty: "scanLine e (CRLF @ s) = (Some [], s, None)" "scanLine e (LF # s) = (Some [], s, None)"
  by (simp_all add: scanLine_def dropCR_def maxToken_def)

lemma lineText_Cons: "lineText (l # ls) @ s = l @ CRLF @ lineText ls @ s"
  by (simp add: lineText_def)

lemma lineText_Nil: "lineText [] @ s = s"
  by (simp add: lineText_def)

lemma cont_stop:
  "list_all short ls \<Longrightarrow>
   contHeader e (lineText ls @ CRLF @ x) out = contHeader e (lineText ls @ LF # y) out \<and>
   relaxedCont e (lineText ls @ CRLF @ x) out = relaxedCont e (lineText ls @ LF # y) out"
proof (induction ls arbitrary: out)
  case Nil
  show ?case
    unfolding lineText_Nil by (simp add: contHeader.simps [of e] relaxedCont.simps [of e] scanLine_empty [simplified])
next
  case (Cons l ls)
  have l: "short l" "list_all short ls" using Cons.prems by simp_all
  show ?case
    unfolding lineText_Cons contHeader.simps [of e "l @ _"] relaxedCont.simps [of e "l @ _"] scanLine_line [OF l(1)]
    using Cons.IH [OF l(2)] by simp
qed

lemma read_stop:
  "list_all short ls \<Longrightarrow>
   readHeader lib e (lineText ls @ CRLF @ x) k = readHeader lib e (lineText ls @ LF # y) k \<and>
   readRelaxedHeader lib e (lineText ls @ CRLF @ x) k = readRelaxedHeader lib e (lineText ls @ LF # y) k"
proof (induction ls)
  case Nil
  show ?case
    unfolding lineText_Nil
    by (simp add: readHeader.simps [of lib e] readRelaxedHeader.simps [of lib e] scanLine_empty [simplified])
next
  case (Cons l ls)
  have l: "short l" "list_all short ls" using Cons.prems by simp_all
  show ?case
    unfolding lineText_Cons readHeader.simps [of lib e "l @ _"] readRelaxedHeader.simps [of lib e "l @ _"] scanLine_line [OF l(1)]
    using Cons.IH [OF l(2)] cont_stop [OF l(2)] by simp
qed

lemma skip_line:
  assumes "LF \<notin> set l" "2 \<le> length r" "\<not> prefix CRLF r"
  shows "skipHeaders e (l @ LF # r) = skipHeaders e r"
proof -
  have "\<not> (r ! 0 = CR \<and> r ! 1 = LF)" using assms(2,3) by (cases r; cases "tl r") auto
  then show ?thesis using assms(2) IndexByte_append [OF assms(1), of r] by (subst skipHeaders.simps) (auto simp: Let_def)
qed

lemma skip_gap:
  assumes "list_all (\<lambda>l. clean l \<and> l \<noteq> []) ls" "list_all (\<lambda>l. clean l \<and> l \<noteq> []) es"
  shows "ls \<noteq> [] \<Longrightarrow> skipHeaders e (lineText ls @ LF # lineText es @ CRLF @ b) = Inr b"
  using assms(1)
proof (induction ls)
  case (Cons l ls)
  have np: "\<not> prefix CRLF (LF # s)" for s by simp
  have gap: "skipHeaders e (LF # lineText es @ CRLF @ b) = Inr b"
  proof (cases es)
    case Nil
    then show ?thesis by (subst skipHeaders.simps) (simp add: lineText_def)
  next
    case (Cons d ds)
    then obtain a as where d: "d = a # as" "a \<noteq> CR" using assms(2) by (cases d) (auto simp: clean_def)
    then have "skipHeaders e ([] @ LF # lineText es @ CRLF @ b) = skipHeaders e (lineText es @ CRLF @ b)"
      using Cons by (intro skip_line) (simp_all add: lineText_def)
    then show ?thesis using skipHeaders_lines [OF assms(2), of e b] Cons by (simp add: lineText_def)
  qed
  have l: "LF \<notin> set (l @ [CR])" using Cons.prems(2) by (simp add: clean_def)
  have step: "2 \<le> length r \<Longrightarrow> \<not> prefix CRLF r \<Longrightarrow> skipHeaders e (l @ CRLF @ r) = skipHeaders e r" for r
    using skip_line [OF l, of r e] by simp
  show ?case
  proof (cases ls)
    case Nil
    then show ?thesis unfolding lineText_Cons using step [of "LF # lineText es @ CRLF @ b"] gap by (simp add: lineText_def)
  next
    case (Cons l2 ls2)
    then obtain a as where l2: "l2 = a # as" "a \<noteq> CR" using \<open>list_all _ (l # ls)\<close> by (cases l2) (auto simp: clean_def)
    then have "skipHeaders e (lineText ls @ LF # lineText es @ CRLF @ b) = Inr b" using Cons.IH Cons.prems Cons by simp
    moreover have "skipHeaders e (l @ CRLF @ (lineText ls @ LF # lineText es @ CRLF @ b)) =
        skipHeaders e (lineText ls @ LF # lineText es @ CRLF @ b)"
      using Cons l2 by (intro step) (simp_all add: lineText_def)
    ultimately show ?thesis unfolding lineText_Cons by simp
  qed
qed simp

text \<open>Text can be put between the headers and the body of a signed message without the verifier noticing: readers of headers end
  them at an empty line, here one of a bare LF, while the body that is hashed begins behind the first line that is followed by
  CRLF. Whatever \<open>es\<close> says, at the top of what a reader takes for the body, the result is that of the message without it.\<close>

theorem gap_unnoticed:
  assumes "list_all (\<lambda>l. short l \<and> l \<noteq> []) ls" "ls \<noteq> []" "list_all (\<lambda>l. clean l \<and> l \<noteq> []) es"
  shows "Verify lib v (m\<lparr>rmData := lineText ls @ LF # lineText es @ CRLF @ body\<rparr>) =
    Verify lib v (m\<lparr>rmData := lineText ls @ CRLF @ body\<rparr>)"
proof -
  let ?d = "lineText ls @ CRLF @ body" and ?d' = "lineText ls @ LF # lineText es @ CRLF @ body"
  have ls: "list_all short ls" "list_all (\<lambda>l. clean l \<and> l \<noteq> []) ls" using assms(1) by (auto simp: list_all_iff short_def)
  have r: "readHeader lib e ?d' k = readHeader lib e ?d k" "readRelaxedHeader lib e ?d' k = readRelaxedHeader lib e ?d k" for e k
    using read_stop [OF ls(1), where lib = lib and e = e and x = body and k = k and y = "lineText es @ CRLF @ body"] by simp_all
  have sk: "skipHeaders e ?d' = skipHeaders e ?d" for e
    using skip_gap [OF ls(2) assms(3,2)] skipHeaders_lines [OF ls(2) assms(2), of e body] by (simp add: lineText_def)
  show ?thesis
  proof (rule Verify_same)
    show "findDKIMSignature lib (m\<lparr>rmData := ?d'\<rparr>) = findDKIMSignature lib (m\<lparr>rmData := ?d\<rparr>)"
      by (simp add: findDKIMSignature_def r [simplified])
    show "hashBody lib c l a (m\<lparr>rmData := ?d'\<rparr>) = hashBody lib c l a (m\<lparr>rmData := ?d\<rparr>)" for c l a
      by (rule hashBody_same) (simp_all add: sk [simplified])
    show "relaxedHeaders lib (m\<lparr>rmData := ?d'\<rparr>) ks = relaxedHeaders lib (m\<lparr>rmData := ?d\<rparr>) ks" for ks
      by (rule relaxedHeaders_same) (simp_all add: sameHeaders_def r [simplified])
    show "simpleHeaders lib (m\<lparr>rmData := ?d'\<rparr>) ks = simpleHeaders lib (m\<lparr>rmData := ?d\<rparr>) ks" for ks
      by (rule simpleHeaders_same) (simp_all add: r [simplified])
  qed
qed

theorem gap_unnoticed_witness:
  "Verify exampleDkim \<lparr>vLookupTXT = None\<rparr> (signedMsg [] [] [] []\<lparr>rmData := lineText [sigLine exampleSig, ''From: ann''] @ LF # lineText [''evil''] @ CRLF @ ''hi''\<rparr>) =
   Verify exampleDkim \<lparr>vLookupTXT = None\<rparr> (signedMsg [] [] [] []\<lparr>rmData := lineText [sigLine exampleSig, ''From: ann''] @ CRLF @ ''hi''\<rparr>)"
  by (rule gap_unnoticed)
    (simp_all add: short_def clean_def sigLine_def headerLine_def exampleSig_def maxToken_def)

text \<open>A header that is looked up by its prefix: its name is \<open>n\<close> with something behind it.\<close>

lemma prefix_first:
  assumes "word n" "CHR '':'' \<notin> set x" "goodHeader (n @ x, v)" "goodHeader (n, v)" "toLower n = k" "toLower k = k" "list_all visible k"
    "list_all goodHeader hs" "list_all goodHeader hs'"
  shows "readRelaxedHeader lib e (headerLine (n @ x, v) @ CRLF @ headerText hs @ CRLF @ s) k =
    readRelaxedHeader lib e (headerLine (n, v) @ CRLF @ headerText hs' @ CRLF @ s) k"
proof -
  have len: "length n = length k" using assms(5) by (auto simp: toLower_def)
  have nm: "hasName lib k (headerLine (n @ x, v))" "hasName lib k (headerLine (n, v))"
    using hasName_own [of n k lib] assms(1,5-7) by (simp_all add: headerLine_def word_def)
  have a: "afterColon (x @ CHR '':'' # SP # v) = SP # v" "afterColon (CHR '':'' # SP # v) = SP # v"
    using IndexByte_append [OF assms(2), of "SP # v"] by (simp_all add: afterColon_def)
  have f: "relaxedFirst k (headerLine (n @ x, v)) = relaxedFirst k (headerLine (n, v))"
    using a by (simp add: relaxedFirst_def headerLine_def flip: len)
  have g: "short (headerLine (n @ x, v))" "short (headerLine (n, v))" using assms(3,4) by (simp_all add: goodHeader_def)
  have ne: "headerLine (n @ x, v) \<noteq> []" "headerLine (n, v) \<noteq> []" by (simp_all add: headerLine_def)
  show ?thesis
    unfolding readRelaxed_found [OF g(1) ne(1) nm(1) assms(8)] readRelaxed_found [OF g(2) ne(2) nm(2) assms(9)] f ..
qed

text \<open>A signed header can be replaced: with a relaxed signature, the header \<open>n: v\<close> it covers may be renamed to one of which \<open>n\<close> is a
  proper prefix, and another \<open>n: w\<close> put behind it. The verifier looks headers up by prefix and hashes the signed name with the value
  of the first, so the result is the same, for any \<open>w\<close>: From can be forged.\<close>

theorem forged_header_unnoticed:
  assumes "parseTags (SP # sig @ CRLF) noTags = Inr t" "dtCanonHeader t = Relaxed" "sig = unwords ws" "list_all word ws" "ws \<noteq> []"
    and "short (sigLine sig)" "goodHeader (n @ x, v)" "goodHeader (n, v)" "goodHeader (n, w)" "list_all goodHeader hs"
    and "\<And>k. k \<in> toLower ` set (dtHeaders t) \<Longrightarrow> k = toLower n \<and> toLower k = k \<and> list_all visible k \<and> \<not> hasName lib k (sigLine sig) \<or>
      \<not> hasName lib k (headerLine (n @ x, v)) \<and> \<not> hasName lib k (headerLine (n, v)) \<and> \<not> hasName lib k (headerLine (n, w))"
  shows "Verify lib vr (signedMsg sig ((n @ x, v) # (n, w) # hs) body ns) = Verify lib vr (signedMsg sig ((n, v) # hs) body ns)"
proof -
  let ?m = "signedMsg sig ((n @ x, v) # (n, w) # hs) body ns" and ?n = "signedMsg sig ((n, v) # hs) body ns"
  have gm: "list_all goodHeader ((n @ x, v) # (n, w) # hs)" and gn: "list_all goodHeader ((n, v) # hs)"
    using assms(7-10) by simp_all
  have sg: "short (sigLine (unwords ws))" using assms(3,6) by simp
  have ne: "sigLine sig \<noteq> []" by (simp add: sigLine_def headerLine_def)
  have find: "findDKIMSignature lib ?m = Inr (SP # sig @ CRLF)" "findDKIMSignature lib ?n = Inr (SP # sig @ CRLF)"
    using find_signature [OF assms(4,5) sg gm] find_signature [OF assms(4,5) sg gn] assms(3) by simp_all
  have found: "readRelaxedHeader lib RdEOF (rmData ?m) k = readRelaxedHeader lib RdEOF (rmData ?n) k" if "hasName lib k (sigLine sig)" for k
    using readRelaxed_found [OF assms(6) ne that gm, of RdEOF body] readRelaxed_found [OF assms(6) ne that gn, of RdEOF body]
    by (simp add: signedMsg_def)
  have skipped: "readRelaxedHeader lib RdEOF (headerLine h @ CRLF @ s) k = readRelaxedHeader lib RdEOF s k"
    if "goodHeader h" "\<not> hasName lib k (headerLine h)" for h s k
    using that headerLine_start [OF that(1)] by (intro readRelaxed_skip) (simp_all add: goodHeader_def)
  have look: "readRelaxedHeader lib RdEOF (rmData ?m) k = readRelaxedHeader lib RdEOF (rmData ?n) k"
    if k: "k \<in> toLower ` set (dtHeaders t)" "\<not> hasName lib k (sigLine sig)" for k
  proof -
    have "readRelaxedHeader lib RdEOF (headerLine (n @ x, v) @ CRLF @ headerText ((n, w) # hs) @ CRLF @ body) k =
        readRelaxedHeader lib RdEOF (headerLine (n, v) @ CRLF @ headerText hs @ CRLF @ body) k"
      using assms(11) [OF k(1)]
    proof
      assume a: "k = toLower n \<and> toLower k = k \<and> list_all visible k \<and> \<not> hasName lib k (sigLine sig)"
      have "word n" "CHR '':'' \<notin> set x" using assms(7,8) by (simp_all add: goodHeader_def)
      moreover have "toLower n = k" "toLower k = k" "list_all visible k" using a by (elim conjE; simp only:)+
      ultimately show ?thesis using gm assms(10) by (intro prefix_first assms(7,8)) simp_all
    next
      assume "\<not> hasName lib k (headerLine (n @ x, v)) \<and> \<not> hasName lib k (headerLine (n, v)) \<and> \<not> hasName lib k (headerLine (n, w))"
      then show ?thesis using skipped [OF assms(7)] skipped [OF assms(8)] skipped [OF assms(9)] by (simp add: headerText_def)
    qed
    then show ?thesis
      using readRelaxed_skip [OF assms(6) ne k(2), of RdEOF] by (simp add: signedMsg_def headerText_def)
  qed
  have rh: "relaxedHeaders lib ?m (dtHeaders t) = relaxedHeaders lib ?n (dtHeaders t)"
    by (rule relaxedHeaders_same) (use found look hasName_sig in \<open>auto simp: sameHeaders_def signedMsg_def\<close>)
  show ?thesis
  proof (rule Verify_same)
    show "hashBody lib c l a ?m = hashBody lib c l a ?n" for c l a
      using skip_signed [OF gm assms(6), of RdEOF body] skip_signed [OF gn assms(6), of RdEOF body]
      by (intro hashBody_same) (simp_all add: signedMsg_def)
  qed (use find assms(1,2) rh in auto)
qed

theorem forged_header_unnoticed_witness:
  "Verify exampleDkim \<lparr>vLookupTXT = None\<rparr> (signedMsg exampleSig ((''From'' @ ''age'', ''ann'') # (''From'', ''eve'') # [(''To'', ''bob'')]) ''hi'' []) =
   Verify exampleDkim \<lparr>vLookupTXT = None\<rparr> (signedMsg exampleSig ((''From'', ''ann'') # [(''To'', ''bob'')]) ''hi'' [])"
proof -
  define t where "t = \<lparr>dtVersion = True, dtAlgo = Some SHA256, dtSelector = ''x'', dtDomain = ''a.b'', dtLimit = 0,
      dtHeaders = [''from'', ''to''], dtSig = ''s'' @ [char_of (105 :: nat)], dtBodyHash = [char_of (4 :: nat)],
      dtCanonHeader = Relaxed, dtCanonBody = Relaxed\<rparr>"
  define ws where "ws = [''v=1;'', ''a=rsa-sha256;'', ''c=relaxed/relaxed;'', ''d=a.b;'', ''s=x;'', ''h=from:to;'', ''bh=BA==;'', ''b=c2k='']"
  have b: "b64Encode stdAlphabet True [char_of (4 :: nat)] = ''BA==''"
    "b64Encode stdAlphabet True [CHR ''s'', char_of (105 :: nat)] = ''c2k=''"
    by (simp_all add: sym_def stdAlphabet_def)
  have lower: "toLower ''From'' = ''from''" "toLower ''from'' = ''from''" "toLower ''to'' = ''to''"
    by (simp_all add: toLower_def lowerByte_def) (simp_all add: char_of_def bit_0)
  have "list_all goodKey [''from'', ''to'']" using lower by (simp add: goodKey_def word_def visible_def)
  then have "parseTags (SP # exampleSig @ CRLF) noTags = Inr t"
    using parse_signature [of exampleSigner "[''from'', ''to'']" "[char_of (4 :: nat)]" "''s'' @ [char_of (105 :: nat)]"] b
    by (simp add: exampleSigner_def goodName_def word_def visible_def joinColon_def sigStart_def exampleSig_def t_def foldSig.simps)
  then show ?thesis
  proof (rule forged_header_unnoticed [where ws = ws and t = t])
    show "dtCanonHeader t = Relaxed" by (simp add: t_def)
    show "exampleSig = unwords ws" by (simp add: ws_def exampleSig_def)
    show "list_all word ws" by (simp add: ws_def word_def visible_def)
    show "ws \<noteq> []" by (simp add: ws_def)
    show "short (sigLine exampleSig)" by (simp add: short_def sigLine_def headerLine_def exampleSig_def clean_def maxToken_def)
    fix k assume "k \<in> toLower ` set (dtHeaders t)"
    then have "k = ''from'' \<or> k = ''to''" using lower by (auto simp: t_def)
    moreover have "\<not> hasName exampleDkim ''from'' (sigLine exampleSig)"
      by (simp add: hasName_def sigLine_def headerLine_def equalFold_def lowerByte_def) (simp add: char_of_def bit_0)
    moreover have "\<not> hasName exampleDkim ''to'' (headerLine (''From'' @ ''age'', ''ann''))"
      "\<not> hasName exampleDkim ''to'' (headerLine (''From'', ''ann''))" "\<not> hasName exampleDkim ''to'' (headerLine (''From'', ''eve''))"
      by (simp_all add: hasName_def headerLine_def equalFold_def lowerByte_def)
    ultimately show "k = toLower ''From'' \<and> toLower k = k \<and> list_all visible k \<and> \<not> hasName exampleDkim k (sigLine exampleSig) \<or>
      \<not> hasName exampleDkim k (headerLine (''From'' @ ''age'', ''ann'')) \<and> \<not> hasName exampleDkim k (headerLine (''From'', ''ann'')) \<and>
      \<not> hasName exampleDkim k (headerLine (''From'', ''eve''))"
      using lower by (auto simp: visible_def)
  qed (simp_all add: goodHeader_def word_def visible_def short_def headerLine_def clean_def maxToken_def)
qed

end
