(* ===== verification/SpillBox.thy ===== *)
theory SpillBox
  imports ImapMailbox EmailHeader GoIO
begin

text \<open>
  One user's database (\<open>spilldb/spillbox\<close>): its tables (\<open>sql_spillbox.go\<close>), the SQL statements of the code as functions on
  them, and \<open>mailbox.go\<close> with what \<open>spillbox.go\<close> and \<open>insertmsg.go\<close> have for mailboxes.

  A table is the list of its rows in the order of insertion, a column that may be NULL an option. The column Flags holds a JSON object
  with the flags as keys; here it is the list of its keys. A statement may fail for reasons of the database (\<open>libFail\<close>, by the
  name of the function that runs it), a connection may refuse writes (\<open>libReadOnly\<close>: the code opens a pool of connections with
  \<open>SQLITE_OPEN_READONLY\<close>), and constraints of the schema are checked. \<open>sqlitex.Save\<close> rolls back when the function returns an
  error (\<open>saveDb\<close>); a panic, which unwinds like one, is the error \<open>DbPanic\<close>. SQLite, the ID that \<open>sqlitex.InsertRandID\<close> settles for, the clock, gzip, SHA-256 and the parsers of
  \<open>third_party/imf\<close> are the parameter \<open>spillLib\<close>. A query whose rows are ordered reads them all before the first is returned.
\<close>

subsection \<open>Tables\<close>

record mailboxRow =
  mxID :: int
  mxNextUID :: int
  mxUidValidity :: int
  mxAttrs :: nat
  mxName :: "bytes option"
  mxDeletedName :: "bytes option"

record msgRow =
  rwID :: int
  rwStagingID :: "int option"
  rwModSeq :: "int option"
  rwSeed :: "int option"
  rwRawHash :: "bytes option"
  rwConvo :: "int option"
  rwState :: int
  rwMailbox :: "int option"
  rwUID :: "int option"
  rwFlags :: "bytes list option"
  rwSize :: "int option"
  rwDate :: int
  rwExpunged :: "int option"
  rwHdrs :: "int option"
  rwUnsub :: "int option"

text \<open>\<open>email.Part\<close> without its content and its number in the message: a row of MsgParts.\<close>

record partRow =
  prMsgID :: int
  prNum :: int
  prName :: bytes
  prIsBody :: bool
  prIsAttachment :: bool
  prIsCompressed :: bool
  prCompressedSize :: "int option"
  prContentType :: bytes
  prContentID :: bytes
  prBlobID :: int
  prCTE :: bytes
  prCTSize :: int
  prCTLines :: int

record blobRow =
  blID :: int
  blSHA :: "bytes option"
  blContent :: "bytes option"

record addressRow =
  adID :: int
  adContact :: int
  adName :: "bytes option"
  adAddr :: bytes
  adDefault :: bool
  adVisible :: bool

record spillDb =
  dbMailboxes :: "mailboxRow list"
  dbSequencing :: "(bytes \<times> int) list" \<comment> \<open>name, next mod-sequence\<close>
  dbMsgs :: "msgRow list"
  dbParts :: "partRow list"
  dbBlobs :: "blobRow list"
  dbContacts :: "int list"
  dbAddresses :: "addressRow list"
  dbMsgAddrs :: "(int \<times> int \<times> int) list" \<comment> \<open>message, address, role\<close>
  dbConvos :: "(int \<times> (int \<times> bytes) list) list" \<comment> \<open>ID, the contacts of the summary\<close>
  dbConvoContacts :: "(int \<times> int) list"
  dbConvoLabels :: "(int \<times> int) list"
  dbLabels :: "(int \<times> bytes) list"
  dbDevices :: "(bytes \<times> bytes \<times> bytes) list"

definition initDb :: spillDb where
  "initDb = \<lparr>dbMailboxes = [], dbSequencing = [], dbMsgs = [], dbParts = [], dbBlobs = [], dbContacts = [1], dbAddresses = [],
     dbMsgAddrs = [], dbConvos = [], dbConvoContacts = [], dbConvoLabels = [],
     dbLabels = [(1, ''Personal Mail''), (2, ''Subscriptions''), (3, ''Spam and Trash'')], dbDevices = []\<rparr>"

definition MsgReady :: int where "MsgReady = 1"
definition MsgFetching :: int where "MsgFetching = 3"
definition MsgExpunged :: int where "MsgExpunged = 7"

subsection \<open>Statements\<close>

datatype dbErr = ConstraintUnique | ConstraintPrimaryKey | ReadOnly | NoResults | DbErr bytes | DbPanic string

datatype pool = PoolRO | PoolRW

record spillLib =
  libFail :: "string \<Rightarrow> spillDb \<Rightarrow> dbErr option"
  libReadOnly :: bool
  libIsPrint :: "nat \<Rightarrow> bool"
  libLower :: "bytes \<Rightarrow> bytes"
  libErrText :: "dbErr \<Rightarrow> bytes"
  libRandID :: "string \<Rightarrow> spillDb \<Rightarrow> int"
  libNow :: "spillDb \<Rightarrow> int"
  libGzip :: "bytes \<Rightarrow> bytes"
  libGunzip :: "bytes \<Rightarrow> bytes + bytes"
  libSHA256 :: "bytes \<Rightarrow> bytes"
  libParseHdrs :: "bytes \<Rightarrow> bytes + header"
  libAddress :: "bytes \<Rightarrow> bytes + bytes \<times> bytes"
  libAddressList :: "bytes \<Rightarrow> bytes + (bytes \<times> bytes) list"

text \<open>An operation on a database \<open>'d\<close>, and one on a user's.\<close>

type_synonym ('d, 'a) dbOp = "'d \<Rightarrow> (dbErr + 'a) \<times> 'd"
type_synonym 'a dbm = "(spillDb, 'a) dbOp"

definition okDb :: "'a \<Rightarrow> ('d, 'a) dbOp" where
  "okDb x d = (Inr x, d)"

definition failDb :: "dbErr \<Rightarrow> ('d, 'a) dbOp" where
  "failDb e d = (Inl e, d)"

definition bindDb :: "('d, 'a) dbOp \<Rightarrow> ('a \<Rightarrow> ('d, 'b) dbOp) \<Rightarrow> ('d, 'b) dbOp" where
  "bindDb m f d = (case m d of (Inl e, d1) \<Rightarrow> (Inl e, d1) | (Inr x, d1) \<Rightarrow> f x d1)"

definition mapErr :: "(dbErr \<Rightarrow> dbErr) \<Rightarrow> ('d, 'a) dbOp \<Rightarrow> ('d, 'a) dbOp" where
  "mapErr g m d = (case m d of (Inl e, d1) \<Rightarrow> (Inl (g e), d1) | (Inr x, d1) \<Rightarrow> (Inr x, d1))"

text \<open>\<open>defer sqlitex.Save(conn)(&err)\<close>\<close>

definition saveDb :: "('d, 'a) dbOp \<Rightarrow> ('d, 'a) dbOp" where
  "saveDb m d = (case m d of (Inl e, _) \<Rightarrow> (Inl e, d) | (Inr x, d1) \<Rightarrow> (Inr x, d1))"

fun eachDb :: "('a \<Rightarrow> ('d, unit) dbOp) \<Rightarrow> 'a list \<Rightarrow> ('d, unit) dbOp" where
  "eachDb f [] = okDb ()"
| "eachDb f (x # xs) = bindDb (f x) (\<lambda>_. eachDb f xs)"

definition readDb :: "spillLib \<Rightarrow> string \<Rightarrow> (spillDb \<Rightarrow> 'a) \<Rightarrow> 'a dbm" where
  "readDb p fn q d = (case libFail p fn d of Some e \<Rightarrow> (Inl e, d) | None \<Rightarrow> (Inr (q d), d))"

definition writeDb :: "spillLib \<Rightarrow> pool \<Rightarrow> string \<Rightarrow> (spillDb \<Rightarrow> dbErr + 'a \<times> spillDb) \<Rightarrow> 'a dbm" where
  "writeDb p c fn u d =
     (if c = PoolRO \<and> libReadOnly p then (Inl ReadOnly, d)
      else
        (case libFail p fn d of
           Some e \<Rightarrow> (Inl e, d)
         | None \<Rightarrow> (case u d of Inl e \<Rightarrow> (Inl e, d) | Inr (x, d1) \<Rightarrow> (Inr x, d1))))"

definition updateDb :: "spillLib \<Rightarrow> pool \<Rightarrow> string \<Rightarrow> (spillDb \<Rightarrow> spillDb) \<Rightarrow> unit dbm" where
  "updateDb p c fn u = writeDb p c fn (\<lambda>d. Inr ((), u d))"

text \<open>\<open>sqlitex.ResultInt64\<close> and \<open>ResultText\<close> of a query with one column.\<close>

definition resultDb :: "spillLib \<Rightarrow> string \<Rightarrow> (spillDb \<Rightarrow> 'a list) \<Rightarrow> 'a dbm" where
  "resultDb p fn q = bindDb (readDb p fn q) (\<lambda>xs. case xs of [x] \<Rightarrow> okDb x | [] \<Rightarrow> failDb NoResults | _ \<Rightarrow> failDb (DbErr ''multiple results''))"

text \<open>\<open>InsertRandID\<close>: the insertion with the ID that it settles for.\<close>

definition insertRandID :: "spillLib \<Rightarrow> pool \<Rightarrow> string \<Rightarrow> (int \<Rightarrow> spillDb \<Rightarrow> dbErr + spillDb) \<Rightarrow> int dbm" where
  "insertRandID p c fn ins =
     writeDb p c fn (\<lambda>d. let i = libRandID p fn d in case ins i d of Inl e \<Rightarrow> Inl e | Inr d1 \<Rightarrow> Inr (i, d1))"

definition wrapErr :: "spillLib \<Rightarrow> bytes \<Rightarrow> dbErr \<Rightarrow> dbErr" where
  "wrapErr p s e = (case e of DbPanic m \<Rightarrow> DbPanic m | _ \<Rightarrow> DbErr (s @ libErrText p e))"

subsection \<open>The monad\<close>

named_theorems db_defs

lemma bindDb_Inr: "bindDb m f d = (Inr y, d2) \<longleftrightarrow> (\<exists>x d1. m d = (Inr x, d1) \<and> f x d1 = (Inr y, d2))"
  by (auto simp: bindDb_def split: sum.splits prod.splits)

lemma okDb_eq [simp]: "okDb x d = (r, d1) \<longleftrightarrow> r = Inr x \<and> d1 = d"
  by (auto simp: okDb_def)

lemma failDb_eq [simp]: "failDb e d = (r, d1) \<longleftrightarrow> r = Inl e \<and> d1 = d"
  by (auto simp: failDb_def)

lemma saveDb_Inr: "saveDb m d = (Inr x, d1) \<longleftrightarrow> m d = (Inr x, d1)"
  by (auto simp: saveDb_def split: sum.splits prod.splits)

lemma saveDb_Inl: "saveDb m d = (Inl e, d1) \<Longrightarrow> d1 = d"
  by (auto simp: saveDb_def split: sum.splits prod.splits)

lemma mapErr_Inr: "mapErr g m d = (Inr x, d1) \<longleftrightarrow> m d = (Inr x, d1)"
  by (auto simp: mapErr_def split: sum.splits prod.splits)

lemma readDb_Inr: "readDb p fn q d = (Inr x, d1) \<longleftrightarrow> libFail p fn d = None \<and> x = q d \<and> d1 = d"
  by (auto simp: readDb_def split: option.splits)

lemma writeDb_Inr:
  "writeDb p c fn u d = (Inr x, d1) \<longleftrightarrow> \<not> (c = PoolRO \<and> libReadOnly p) \<and> libFail p fn d = None \<and> u d = Inr (x, d1)"
  by (auto simp: writeDb_def split: option.splits sum.splits)

lemma updateDb_Inr:
  "updateDb p c fn u d = (Inr x, d1) \<longleftrightarrow> \<not> (c = PoolRO \<and> libReadOnly p) \<and> libFail p fn d = None \<and> d1 = u d"
  by (auto simp: updateDb_def writeDb_Inr)

lemma resultDb_Inr: "resultDb p fn q d = (Inr x, d1) \<longleftrightarrow> libFail p fn d = None \<and> q d = [x] \<and> d1 = d"
  by (auto simp: resultDb_def bindDb_Inr readDb_Inr split: list.splits)

lemma insertRandID_Inr:
  "insertRandID p c fn ins d = (Inr i, d1) \<longleftrightarrow>
     \<not> (c = PoolRO \<and> libReadOnly p) \<and> libFail p fn d = None \<and> i = libRandID p fn d \<and> ins i d = Inr d1"
  by (auto simp: insertRandID_def writeDb_Inr Let_def split: sum.splits)

lemmas dbm_Inr = bindDb_Inr saveDb_Inr mapErr_Inr readDb_Inr writeDb_Inr updateDb_Inr resultDb_Inr insertRandID_Inr

subsection \<open>Mailboxes\<close>

text \<open>\<open>path.Clean\<close> and \<open>filepath.Dir\<close>.\<close>

fun splitSlash :: "bytes \<Rightarrow> bytes list" where
  "splitSlash [] = [[]]"
| "splitSlash (c # cs) = (if c = CHR ''/'' then [] # splitSlash cs else (case splitSlash cs of p # ps \<Rightarrow> (c # p) # ps | [] \<Rightarrow> [[c]]))"

definition cleanStep :: "bool \<Rightarrow> bytes \<Rightarrow> bytes list \<Rightarrow> bytes list" where
  "cleanStep rooted e out =
     (if e = [] \<or> e = ''.'' then out
      else if e = ''..'' then
        (if out \<noteq> [] \<and> last out \<noteq> ''..'' then butlast out else if rooted then out else out @ [e])
      else out @ [e])"

fun joinSlash :: "bytes list \<Rightarrow> bytes" where
  "joinSlash [] = []"
| "joinSlash [e] = e"
| "joinSlash (e # es) = e @ ''/'' @ joinSlash es"

definition pathClean :: "bytes \<Rightarrow> bytes" where
  "pathClean s =
     (let rooted = (s \<noteq> [] \<and> hd s = CHR ''/'');
          r = (if rooted then ''/'' else []) @ joinSlash (fold (cleanStep rooted) (splitSlash s) []) in
      if r = [] then ''.'' else r)"

definition pathDir :: "bytes \<Rightarrow> bytes" where
  "pathDir s = pathClean (rev (dropWhile (\<lambda>c. c \<noteq> CHR ''/'') (rev s)))"

definition noKidsMailboxes :: "bytes list" where
  "noKidsMailboxes = [''INBOX'', ''Archive'', ''Sent'', ''Drafts'', ''Trash'']"

definition reservedMailboxNames :: "bytes list" where
  "reservedMailboxNames = ''Subscriptions'' # noKidsMailboxes"

definition insertMailbox :: "bytes \<Rightarrow> nat \<Rightarrow> int \<Rightarrow> spillDb \<Rightarrow> dbErr + spillDb" where
  "insertMailbox name attrs i d =
     (if i \<in> mxID ` set (dbMailboxes d) then Inl ConstraintPrimaryKey
      else if Some name \<in> mxName ` set (dbMailboxes d) then Inl ConstraintUnique
      else
        (let uv = (if dbMailboxes d = [] then 42 else Max (mxUidValidity ` set (dbMailboxes d))) + 1 in
         Inr (d\<lparr>dbMailboxes := dbMailboxes d @
           [\<lparr>mxID = i, mxNextUID = 1, mxUidValidity = uv, mxAttrs = attrs, mxName = Some name, mxDeletedName = None\<rparr>]\<rparr>)))"

text \<open>The loop over the outer names reuses the statement that was prepared last, which has no parameter $id: binding it makes
  the statement fail.\<close>

definition createMailbox :: "spillLib \<Rightarrow> pool \<Rightarrow> bytes \<Rightarrow> nat \<Rightarrow> unit dbm" where
  "createMailbox p c name attr =
     (let pre = ''spillbox.CreateMailbox('' @ goQuote (libIsPrint p) name @ ''): '' in
      saveDb
       (case find (\<lambda>res. prefix (res @ ''/'') name) noKidsMailboxes of
          Some res \<Rightarrow> failDb (DbErr (pre @ ''cannot create mailbox under '' @ goQuote (libIsPrint p) res))
        | None \<Rightarrow>
            bindDb (mapErr (\<lambda>e. if e = ConstraintUnique then DbErr (pre @ ''exists'') else wrapErr p pre e)
                (insertRandID p c ''CreateMailbox'' (insertMailbox name attr)))
              (\<lambda>_. bindDb (updateDb p c ''CreateMailbox sequencing''
                    (\<lambda>d. if name \<in> fst ` set (dbSequencing d) then d else d\<lparr>dbSequencing := dbSequencing d @ [(name, 1)]\<rparr>))
                (\<lambda>_. let outer = pathDir name in
                   if outer = ''.'' \<or> outer = ''INBOX'' then okDb ()
                   else failDb (wrapErr p (''CreateMailbox('' @ goQuote (libIsPrint p) name @ '') outer name '' @ goQuote (libIsPrint p) outer @ '' failed: '')
                     (DbErr ''unknown parameter: $id''))))))"

text \<open>The trigger on the column Name gives a renamed mailbox a new UIDVALIDITY.\<close>

definition renameTrigger :: "int \<Rightarrow> spillDb \<Rightarrow> spillDb" where
  "renameTrigger i d =
     d\<lparr>dbMailboxes := map (\<lambda>m. if mxID m = i then m\<lparr>mxUidValidity := Max (mxUidValidity ` set (dbMailboxes d)) + 1\<rparr> else m) (dbMailboxes d)\<rparr>"

definition deleteRows :: "bytes \<Rightarrow> spillDb \<Rightarrow> nat \<times> spillDb" where
  "deleteRows name d =
     (let ms = filter (\<lambda>m. mxName m = Some name) (dbMailboxes d);
          d1 = d\<lparr>dbMailboxes := map (\<lambda>m. if mxName m = Some name then m\<lparr>mxDeletedName := mxName m, mxName := None\<rparr> else m) (dbMailboxes d)\<rparr> in
      (length ms, fold (\<lambda>m. renameTrigger (mxID m)) ms d1))"

definition deleteMailbox :: "spillLib \<Rightarrow> pool \<Rightarrow> bytes \<Rightarrow> unit dbm" where
  "deleteMailbox p c name =
     (if name \<in> set reservedMailboxNames then failDb (DbErr (''spillbox.DeleteMailbox: cannot delete '' @ goQuote (libIsPrint p) name))
      else
        (let pre = ''spillbox.DeleteMailbox('' @ goQuote (libIsPrint p) name @ ''): '' in
         bindDb (mapErr (wrapErr p pre) (writeDb p c ''DeleteMailbox'' (\<lambda>d. Inr (deleteRows name d))))
           (\<lambda>n. if n = 0 then failDb (DbErr (pre @ ''no such mailbox'')) else okDb ())))"

subsection \<open>Numbering\<close>

definition nextMsgUID :: "spillLib \<Rightarrow> pool \<Rightarrow> int \<Rightarrow> u32 dbm" where
  "nextMsgUID p c mb =
     bindDb (resultDb p ''NextMsgUID'' (\<lambda>d. map mxNextUID (filter (\<lambda>m. mxID m = mb) (dbMailboxes d))))
       (\<lambda>next. bindDb (updateDb p c ''NextMsgUID update''
            (\<lambda>d. d\<lparr>dbMailboxes := map (\<lambda>m. if mxID m = mb \<and> mxNextUID m = next then m\<lparr>mxNextUID := next + 1\<rparr> else m) (dbMailboxes d)\<rparr>))
          (\<lambda>_. okDb (word_of_int next)))"

text \<open>\<open>Name IN (SELECT Name FROM Mailboxes WHERE MailboxID = $mailboxID)\<close>\<close>

definition boxNames :: "int \<Rightarrow> spillDb \<Rightarrow> bytes list" where
  "boxNames mb d = List.map_filter mxName (filter (\<lambda>m. mxID m = mb) (dbMailboxes d))"

definition nextMsgModSeq :: "spillLib \<Rightarrow> pool \<Rightarrow> int \<Rightarrow> int dbm" where
  "nextMsgModSeq p c mb =
     saveDb (bindDb (resultDb p ''NextMsgModSeq'' (\<lambda>d. map snd (filter (\<lambda>x. fst x \<in> set (boxNames mb d)) (dbSequencing d))))
       (\<lambda>ms. bindDb (updateDb p c ''NextMsgModSeq update''
            (\<lambda>d. d\<lparr>dbSequencing := map (\<lambda>x. if fst x \<in> set (boxNames mb d) then (fst x, snd x + 1) else x) (dbSequencing d)\<rparr>))
          (\<lambda>_. okDb ms)))"

definition initMailboxes :: "(bytes \<times> nat) list" where
  "initMailboxes =
     [(''INBOX'', 0), (''Archive'', AttrArchive), (''Drafts'', AttrDrafts), (''Subscriptions'', 0), (''Sent'', AttrSent),
      (''Spam'', AttrJunk), (''Trash'', AttrTrash)]"

definition boxInit :: "spillLib \<Rightarrow> unit dbm" where
  "boxInit p = eachDb (\<lambda>(name, attr). createMailbox p PoolRW name attr) initMailboxes"

definition registerPushDevice :: "spillLib \<Rightarrow> bytes \<Rightarrow> bytes \<Rightarrow> bytes \<Rightarrow> unit dbm" where
  "registerPushDevice p mailbox account tok =
     bindDb (readDb p ''RegisterPushDevice'' (\<lambda>d. length (filter (\<lambda>x. x = (mailbox, account, tok)) (dbDevices d))))
       (\<lambda>n. if 0 < n then okDb ()
            else updateDb p PoolRW ''RegisterPushDevice insert'' (\<lambda>d. d\<lparr>dbDevices := dbDevices d @ [(mailbox, account, tok)]\<rparr>))"

end
