(* ===== verification/SpillContacts.thy ===== *)
theory SpillContacts
  imports SpillBox
begin

text \<open>
  The contacts of a user (\<open>spilldb/spillbox/normalize.go\<close>, \<open>contact.go\<close>, and \<open>InsertAddresses\<close> of \<open>spillbox.go\<close>): the normal
  form of an address, the contact and the address row that a name and an address belong to, the addresses of a message.
\<close>

subsection \<open>Normal forms\<close>

record domainDetail =
  ddCaseless :: bool
  ddIgnoreUserDots :: bool

definition domainDetails :: "bytes \<Rightarrow> domainDetail" where
  "domainDetails d =
     (if d \<in> {''meetup.com'', ''yahoo.com'', ''hotmail.com'', ''aol.com'', ''msn.com'', ''outlook.com'', ''facebook.com'',
        ''live.com'', ''comcast.net'', ''earthlink.net''} then \<lparr>ddCaseless = True, ddIgnoreUserDots = False\<rparr>
      else if d \<in> {''gmail.com'', ''zentus.com'', ''googlegroups.com''} then \<lparr>ddCaseless = True, ddIgnoreUserDots = True\<rparr>
      else \<lparr>ddCaseless = False, ddIgnoreUserDots = False\<rparr>)"

definition domainAliases :: "bytes \<Rightarrow> bytes option" where
  "domainAliases d = (if d = ''googlemail.com'' then Some ''gmail.com'' else None)"

text \<open>\<open>bytes.ToLower\<close>, \<open>strings.ToLower\<close>.\<close>

definition lowerBytes :: "spillLib \<Rightarrow> bytes \<Rightarrow> bytes" where
  "lowerBytes p b = (if list_all (\<lambda>c. bval c < 128) b then map lowerByte b else libLower p b)"

text \<open>The \<open>break\<close> behind a plus sign leaves the switch only, so the loop goes on.\<close>

definition stripUser :: "bytes \<Rightarrow> bytes" where
  "stripUser user = filter (\<lambda>b. b \<noteq> CHR ''+'' \<and> b \<noteq> CHR ''.'') user"

definition normalizeAddr :: "spillLib \<Rightarrow> bytes \<Rightarrow> bytes" where
  "normalizeAddr p addr =
     (case IndexByte addr (CHR ''@'') of
        None \<Rightarrow> addr
      | Some i \<Rightarrow>
          if i = length addr - 1 then addr
          else
            (let user = take i addr;
                 domain0 = drop (i + 1) addr;
                 domain1 = lowerBytes p (if last domain0 = CHR ''.'' then butlast domain0 else domain0);
                 domain = (case domainAliases domain1 of Some d \<Rightarrow> d | None \<Rightarrow> domain1);
                 details = domainDetails domain;
                 user1 = (if ddIgnoreUserDots details then stripUser user else user);
                 user2 = (if ddCaseless details then map lowerByte user1 else user1) in
             user2 @ ''@'' @ domain))"

subsection \<open>Contacts\<close>

text \<open>The rows of a scan come in the order of the primary key.\<close>

definition addressRows :: "(addressRow \<Rightarrow> bool) \<Rightarrow> spillDb \<Rightarrow> addressRow list" where
  "addressRows P d = sort_key adID (filter P (dbAddresses d))"

definition firstContact :: "spillLib \<Rightarrow> string \<Rightarrow> bytes \<Rightarrow> int \<Rightarrow> int dbm" where
  "firstContact p fn addr contact =
     (if contact \<noteq> 0 then okDb contact
      else
        bindDb (readDb p fn (addressRows (\<lambda>a. adAddr a = addr)))
          (\<lambda>rows. okDb (case rows of [] \<Rightarrow> 0 | a # _ \<Rightarrow> adContact a)))"

definition insertContact :: "int \<Rightarrow> spillDb \<Rightarrow> dbErr + spillDb" where
  "insertContact i d = (if i \<in> set (dbContacts d) then Inl ConstraintPrimaryKey else Inr (d\<lparr>dbContacts := dbContacts d @ [i]\<rparr>))"

definition insertAddress :: "int \<Rightarrow> bytes option \<Rightarrow> bytes \<Rightarrow> bool \<Rightarrow> bool \<Rightarrow> int \<Rightarrow> spillDb \<Rightarrow> dbErr + spillDb" where
  "insertAddress contact name addr dflt vis i d =
     (if i \<in> adID ` set (dbAddresses d) then Inl ConstraintPrimaryKey
      else Inr (d\<lparr>dbAddresses := dbAddresses d @
        [\<lparr>adID = i, adContact = contact, adName = name, adAddr = addr, adDefault = dflt, adVisible = vis\<rparr>]\<rparr>))"

text \<open>\<open>ResolveAddressID\<close>: the address and the contact. The steps behind the lookup of the contact first.\<close>

definition resolveInsert :: "spillLib \<Rightarrow> bytes \<Rightarrow> bytes \<Rightarrow> bool \<Rightarrow> bool \<Rightarrow> int \<Rightarrow> int dbm" where
  "resolveInsert p name addr vis dflt contact =
     (let norm = normalizeAddr p addr in
      bindDb (insertRandID p PoolRW ''ResolveAddressID address'' (insertAddress contact (Some name) addr dflt vis))
        (\<lambda>aid. if norm = addr then okDb aid
           else bindDb (insertRandID p PoolRW ''ResolveAddressID norm'' (insertAddress contact (Some name) norm False False))
             (\<lambda>_. okDb aid)))"

definition resolveAddressID :: "spillLib \<Rightarrow> bytes \<times> bytes \<Rightarrow> bool \<Rightarrow> (int \<times> int) dbm" where
  "resolveAddressID p na vis =
     (case na of (name, addr) \<Rightarrow>
       bindDb (readDb p ''ResolveAddressID'' (addressRows (\<lambda>a. adName a = Some name \<and> adAddr a = addr)))
         (\<lambda>rows. let (aid0, contact0, vis0) = (case rows of [] \<Rightarrow> (0, 0, False) | a # _ \<Rightarrow> (adID a, adContact a, adVisible a)) in
          bindDb (firstContact p ''ResolveAddressID name'' addr contact0)
            (\<lambda>contact1. bindDb (firstContact p ''ResolveAddressID norm'' (normalizeAddr p addr) contact1)
              (\<lambda>contact2. bindDb
                  (if contact2 \<noteq> 0 then okDb (contact2, False)
                   else bindDb (insertRandID p PoolRW ''ResolveAddressID contact'' insertContact) (\<lambda>i. okDb (i, True)))
                (\<lambda>(contact, dflt). bindDb
                    (if aid0 \<noteq> 0 then okDb (aid0, vis0)
                     else bindDb (resolveInsert p name addr vis dflt contact) (\<lambda>i. okDb (i, vis)))
                  (\<lambda>(aid, inDB). bindDb
                      (if vis \<and> \<not> inDB then
                         updateDb p PoolRW ''ResolveAddressID visible''
                           (\<lambda>d. d\<lparr>dbAddresses := map (\<lambda>a. if adID a = aid then a\<lparr>adVisible := vis\<rparr> else a) (dbAddresses d)\<rparr>)
                       else okDb ())
                    (\<lambda>_. okDb (aid, contact))))))))"

text \<open>\<open>normalizeAddr\<close> writes the normal form over its argument, which keeps its length.\<close>

definition normalizedInPlace :: "spillLib \<Rightarrow> bytes \<Rightarrow> bytes" where
  "normalizedInPlace p addr = (let norm = normalizeAddr p addr in take (length addr) (norm @ drop (length norm) addr))"

definition insertDeliveredTo :: "spillLib \<Rightarrow> bytes \<Rightarrow> unit dbm" where
  "insertDeliveredTo p addr =
     (let count = (\<lambda>x d. length (filter (\<lambda>a. adAddr a = x) (dbAddresses d))) in
      bindDb (readDb p ''insertDeliveredTo'' (count addr))
       (\<lambda>found. if found \<noteq> 0 then okDb ()
          else
            (let norm = normalizeAddr p addr; addr1 = normalizedInPlace p addr in
             bindDb (readDb p ''insertDeliveredTo norm'' (count norm))
               (\<lambda>found1. if found1 \<noteq> 0 then okDb ()
                  else
                    bindDb (insertRandID p PoolRW ''insertDeliveredTo insert'' (insertAddress 1 None addr1 False True))
                      (\<lambda>_. if norm = addr1 then okDb ()
                         else
                           bindDb (insertRandID p PoolRW ''insertDeliveredTo insert norm'' (insertAddress 1 None norm False True))
                             (\<lambda>_. okDb ()))))))"

subsection \<open>The addresses of a message\<close>

definition RoleFrom :: int where "RoleFrom = 1"
definition RoleTo :: int where "RoleTo = 2"
definition RoleCC :: int where "RoleCC = 3"
definition RoleBCC :: int where "RoleBCC = 4"

text \<open>The roles whose headers are read, with their headers.\<close>

definition roleHeaders :: "(int \<times> bytes) list" where
  "roleHeaders = [(RoleTo, ''To''), (RoleCC, ''CC''), (RoleBCC, ''BCC'')]"

definition insertMsgAddr :: "spillLib \<Rightarrow> int \<Rightarrow> int \<Rightarrow> int \<Rightarrow> unit dbm" where
  "insertMsgAddr p mid aid role =
     writeDb p PoolRW ''InsertAddresses'' (\<lambda>d.
       if (mid, aid, role) \<in> set (dbMsgAddrs d) then Inl ConstraintPrimaryKey
       else Inr ((), d\<lparr>dbMsgAddrs := dbMsgAddrs d @ [(mid, aid, role)]\<rparr>))"

definition roleString :: "int \<Rightarrow> bytes" where
  "roleString r = (if r = RoleTo then ''RoleTo'' else if r = RoleCC then ''RoleCC'' else ''RoleBCC'')"

definition addrErr :: "int \<Rightarrow> bytes \<Rightarrow> bytes" where
  "addrErr mid what = ''InsertAddresses: m'' @ fmtInt mid @ '': '' @ what @ '': ''"

definition insertRole :: "spillLib \<Rightarrow> int \<Rightarrow> header \<Rightarrow> int \<times> bytes \<Rightarrow> unit dbm" where
  "insertRole p mid hdr role =
     (let str = TrimSpace (fst (hGet (snd role) hdr)) in
      if str = [] then okDb ()
      else
        (case libAddressList p str of
           Inl e \<Rightarrow> failDb (DbErr (addrErr mid (''parsing '' @ roleString (fst role) @ '' addr '' @ goQuote (libIsPrint p) str) @ e))
         | Inr addrs \<Rightarrow>
             eachDb (\<lambda>na. bindDb (mapErr (wrapErr p (addrErr mid (''resolving '' @ roleString (fst role)))) (resolveAddressID p na True))
               (\<lambda>(aid, _). insertMsgAddr p mid aid (fst role))) addrs))"

definition insertAddresses :: "spillLib \<Rightarrow> int \<Rightarrow> header \<Rightarrow> unit dbm" where
  "insertAddresses p mid hdr =
     (let from = fst (hGet ''From'' hdr) in
      saveDb (bindDb (eachDb (insertDeliveredTo p) (case hIndex hdr of None \<Rightarrow> [] | Some m \<Rightarrow> m ''Delivered-To''))
        (\<lambda>_. bindDb
            (if from = [] then okDb 0
             else
               (case libAddress p from of
                  Inl e \<Rightarrow> failDb (DbErr (addrErr mid ''parsing From header'' @ e))
                | Inr na \<Rightarrow>
                    bindDb (mapErr (wrapErr p (addrErr mid ''resolving From addr'')) (resolveAddressID p na True))
                      (\<lambda>(aid, _). okDb aid)))
          (\<lambda>fromID. bindDb (insertMsgAddr p mid fromID RoleFrom)
            (\<lambda>_. eachDb (insertRole p mid hdr) roleHeaders)))))"

end
