(* ===== verification/SpillInsert.thy ===== *)
theory SpillInsert
  imports SpillContacts
begin

text \<open>
  Messages in a user's database (\<open>spilldb/spillbox/insertmsg.go\<close>, and the loading of headers and parts of \<open>spillbox.go\<close>):
  \<open>InsertMsg\<close> with the blobs, the parts, the mailbox, the conversation and the label of a message.

  A blob that is written incrementally has the size it was made with. The notifiers, which \<open>InsertMsg\<close> calls for a message from the
  staging area, are left out.
\<close>

subsection \<open>Messages\<close>

record msgPart =
  npNum :: int
  npName :: bytes
  npIsBody :: bool
  npIsAttachment :: bool
  npIsCompressed :: bool
  npCompressedSize :: int
  npContentType :: bytes
  npContentID :: bytes
  npContent :: "bytes option"
  npBlobID :: int
  npCTE :: bytes
  npCTSize :: int
  npCTLines :: int

record newMsg =
  nmID :: int
  nmSeed :: int
  nmMailbox :: int
  nmRawHash :: bytes
  nmDate :: int
  nmHeaders :: header
  nmFlags :: "bytes list"
  nmParts :: "msgPart list"
  nmSize :: int

definition partRowOf :: "int \<Rightarrow> msgPart \<Rightarrow> partRow" where
  "partRowOf mid np =
     \<lparr>prMsgID = mid, prNum = npNum np, prName = npName np, prIsBody = npIsBody np, prIsAttachment = npIsAttachment np,
      prIsCompressed = npIsCompressed np, prCompressedSize = (if npIsCompressed np then Some (npCompressedSize np) else None),
      prContentType = npContentType np, prContentID = npContentID np, prBlobID = npBlobID np, prCTE = npCTE np,
      prCTSize = npCTSize np, prCTLines = npCTLines np\<rparr>"

subsection \<open>Loading\<close>

definition blobContent :: "int option \<Rightarrow> spillDb \<Rightarrow> bytes option list" where
  "blobContent i d = map blContent (filter (\<lambda>b. Some (blID b) = i) (dbBlobs d))"

definition hdrsBlob :: "int \<Rightarrow> spillDb \<Rightarrow> int option" where
  "hdrsBlob mid d = (case map rwHdrs (filter (\<lambda>m. rwID m = mid) (dbMsgs d)) of [] \<Rightarrow> None | h # _ \<Rightarrow> h)"

definition loadMsgHdrs :: "spillLib \<Rightarrow> int \<Rightarrow> header dbm" where
  "loadMsgHdrs p mid =
     bindDb (resultDb p ''LoadMsgHdrs'' (\<lambda>d. blobContent (hdrsBlob mid d) d))
       (\<lambda>b. case libParseHdrs p ((case b of Some s \<Rightarrow> s | None \<Rightarrow> []) @ [LF, LF]) of
          Inl e \<Rightarrow> failDb (DbErr (''m'' @ fmtInt mid @ '': could not parse headers: '' @ e))
        | Inr h \<Rightarrow> okDb h)"

text \<open>\<open>LoadPartsSummary\<close>: the join with the blobs, in the order of the part numbers.\<close>

definition partOfRow :: "spillDb \<Rightarrow> partRow \<Rightarrow> msgPart" where
  "partOfRow d r =
     \<lparr>npNum = prNum r, npName = prName r, npIsBody = prIsBody r, npIsAttachment = prIsAttachment r,
      npIsCompressed = prIsCompressed r,
      npCompressedSize = (case blobContent (Some (prBlobID r)) d of Some s # _ \<Rightarrow> int (length s) | _ \<Rightarrow> 0),
      npContentType = prContentType r, npContentID = prContentID r, npContent = None, npBlobID = prBlobID r, npCTE = prCTE r,
      npCTSize = prCTSize r, npCTLines = prCTLines r\<rparr>"

definition loadPartsSummary :: "spillLib \<Rightarrow> int \<Rightarrow> msgPart list dbm" where
  "loadPartsSummary p mid =
     mapErr (wrapErr p (''spillbox.LoadPartSummary(m'' @ fmtInt mid @ ''): ''))
       (readDb p ''LoadPartsSummary''
         (\<lambda>d. map (partOfRow d) (sort_key prNum (filter (\<lambda>r. prMsgID r = mid \<and> prBlobID r \<in> blID ` set (dbBlobs d)) (dbParts d)))))"

text \<open>\<open>readMsgPart\<close> with a full copy of the content, as \<open>LoadPartContent\<close> calls it.\<close>

definition readMsgPart :: "spillLib \<Rightarrow> int \<Rightarrow> bool \<Rightarrow> bytes dbm" where
  "readMsgPart p blob isCompressed =
     bindDb (readDb p ''readMsgPart'' (blobContent (Some blob)))
       (\<lambda>bs. case bs of
          Some s # _ \<Rightarrow>
            if isCompressed then (case libGunzip p s of Inl e \<Rightarrow> failDb (DbErr e) | Inr t \<Rightarrow> okDb t) else okDb s
        | _ \<Rightarrow> failDb NoResults)"

definition loadPartContent :: "spillLib \<Rightarrow> msgPart \<Rightarrow> bytes dbm" where
  "loadPartContent p np =
     mapErr (wrapErr p (''LoadPartContent(blobid='' @ fmtInt (npBlobID np) @ ''): '')) (readMsgPart p (npBlobID np) (npIsCompressed np))"

subsection \<open>Parts\<close>

definition insertPartSummary :: "spillLib \<Rightarrow> pool \<Rightarrow> int \<Rightarrow> msgPart \<Rightarrow> unit dbm" where
  "insertPartSummary p c mid np =
     writeDb p c ''InsertPartSummary'' (\<lambda>d.
       if (mid, npNum np) \<in> (\<lambda>r. (prMsgID r, prNum r)) ` set (dbParts d) then Inl ConstraintPrimaryKey
       else Inr ((), d\<lparr>dbParts := dbParts d @ [partRowOf mid np]\<rparr>))"

definition insertBlob :: "bytes option \<Rightarrow> bytes option \<Rightarrow> int \<Rightarrow> spillDb \<Rightarrow> dbErr + spillDb" where
  "insertBlob sha content i d =
     (if i \<in> blID ` set (dbBlobs d) then Inl ConstraintPrimaryKey
      else Inr (d\<lparr>dbBlobs := dbBlobs d @ [\<lparr>blID = i, blSHA = sha, blContent = content\<rparr>]\<rparr>))"

definition updateBlob :: "int \<Rightarrow> (blobRow \<Rightarrow> blobRow) \<Rightarrow> spillDb \<Rightarrow> spillDb" where
  "updateBlob i f d = d\<lparr>dbBlobs := map (\<lambda>b. if blID b = i then f b else b) (dbBlobs d)\<rparr>"

text \<open>\<open>conn.OpenBlob\<close> for writing, and the write: the blob keeps its size.\<close>

definition fillBlob :: "spillLib \<Rightarrow> int \<Rightarrow> bytes \<Rightarrow> unit dbm" where
  "fillBlob p i s =
     writeDb p PoolRW ''OpenBlob'' (\<lambda>d.
       case blobContent (Some i) d of
         Some old # _ \<Rightarrow>
           if length old < length s then Inl (DbErr ''blob write past the end'')
           else Inr ((), updateBlob i (\<lambda>b. b\<lparr>blContent := Some (s @ drop (length s) old)\<rparr>) d)
       | _ \<Rightarrow> Inl NoResults)"

definition storedSize :: "msgPart \<Rightarrow> bytes \<Rightarrow> nat" where
  "storedSize np s = (if npIsCompressed np then nat (npCompressedSize np) else length s)"

definition insertPart :: "spillLib \<Rightarrow> int \<Rightarrow> msgPart \<Rightarrow> msgPart dbm" where
  "insertPart p mid np =
     bindDb
       (if npBlobID np = 0 then
          bindDb (insertRandID p PoolRW ''insertPart'' (insertBlob None (map_option (\<lambda>s. replicate (storedSize np s) NUL) (npContent np))))
            (\<lambda>i. bindDb (insertPartSummary p PoolRW mid (np\<lparr>npBlobID := i\<rparr>)) (\<lambda>_. okDb (np\<lparr>npBlobID := i\<rparr>)))
        else
          (case npContent np of
             None \<Rightarrow> okDb np
           | Some s \<Rightarrow>
               bindDb (updateDb p PoolRW ''insertPart content''
                   (updateBlob (npBlobID np) (\<lambda>b. b\<lparr>blContent := Some (replicate (storedSize np s) NUL)\<rparr>)))
                 (\<lambda>_. okDb np)))
       (\<lambda>np1. case npContent np1 of
          None \<Rightarrow> okDb np1
        | Some s \<Rightarrow>
            (let t = (if npIsCompressed np1 then libGzip p s else s) in
             bindDb (fillBlob p (npBlobID np1) t)
               (\<lambda>_. bindDb (updateDb p PoolRW ''insertPart sha256'' (updateBlob (npBlobID np1) (\<lambda>b. b\<lparr>blSHA := Some (libSHA256 p t)\<rparr>)))
                 (\<lambda>_. okDb np1))))"

fun insertParts :: "spillLib \<Rightarrow> int \<Rightarrow> nat \<Rightarrow> msgPart list \<Rightarrow> msgPart list dbm" where
  "insertParts p mid i [] = okDb []"
| "insertParts p mid i (np # nps) =
     bindDb (mapErr (wrapErr p (''part '' @ fmtNat i @ '': '')) (insertPart p mid np))
       (\<lambda>np1. bindDb (insertParts p mid (i + 1) nps) (\<lambda>nps1. okDb (np1 # nps1)))"

subsection \<open>The mailbox of a message\<close>

text \<open>The runes of a header, and the two regular expressions.\<close>

fun runesOf :: "nat \<Rightarrow> bytes \<Rightarrow> nat list" where
  "runesOf 0 s = []"
| "runesOf (Suc n) s = (if s = [] then [] else (let (r, k) = decodeRune s in r # runesOf n (drop (max 1 k) s)))"

definition foldsTo :: "nat list \<Rightarrow> bytes \<Rightarrow> bool" where
  "foldsTo rs w \<longleftrightarrow> map (\<lambda>r. if 65 \<le> r \<and> r \<le> 90 then r + 32 else r) (take (length w) rs) = map bval w"

definition noNewline :: "nat list \<Rightarrow> bool" where
  "noNewline rs \<longleftrightarrow> 10 \<notin> set rs"

text \<open>\<open>(?i)no.?.?reply.*@\<close> and \<open>(?i)@.*noreply\<close>\<close>

definition noreplyRE :: "bytes \<Rightarrow> bool" where
  "noreplyRE s =
     (let rs = runesOf (length s) s in
      list_ex (\<lambda>i. foldsTo (drop i rs) ''no'' \<and>
          list_ex (\<lambda>k. noNewline (take k (drop (i + 2) rs)) \<and> foldsTo (drop (i + 2 + k) rs) ''reply'' \<and>
              64 \<in> set (takeWhile (\<lambda>r. r \<noteq> 10) (drop (i + 7 + k) rs))) [0, 1, 2])
        [0..<length rs])"

definition noreplyDomainRE :: "bytes \<Rightarrow> bool" where
  "noreplyDomainRE s =
     (let rs = runesOf (length s) s in
      list_ex (\<lambda>i. rs ! i = 64 \<and>
          list_ex (\<lambda>k. noNewline (take k (drop (i + 1) rs)) \<and> foldsTo (drop (i + 1 + k) rs) ''noreply'') [0..<length rs])
        [0..<length rs])"

definition isSubscription :: "header \<Rightarrow> bool" where
  "isSubscription hdr =
     (let get = (\<lambda>k. fst (hGet k hdr)) in
      get ''List-Id'' \<noteq> [] \<or> get ''List-Post'' \<noteq> [] \<or> get ''List-Unsubscribe'' \<noteq> [] \<or> get ''X-Mandrill-User'' \<noteq> [] \<or>
      noreplyRE (get ''From'') \<or> noreplyDomainRE (get ''From'') \<or> get ''Feedback-Id'' \<noteq> [] \<or> get ''EcrmHeader'' \<noteq> [])"

definition hasUnsubscribe :: "spillLib \<Rightarrow> string \<Rightarrow> int \<Rightarrow> bool dbm" where
  "hasUnsubscribe p fn mid =
     bindDb (resultDb p fn (\<lambda>d. map rwUnsub (filter (\<lambda>m. rwID m = mid) (dbMsgs d))))
       (\<lambda>u. okDb (case u of None \<Rightarrow> False | Some n \<Rightarrow> 0 < n))"

definition updateMsg :: "int \<Rightarrow> (msgRow \<Rightarrow> msgRow) \<Rightarrow> spillDb \<Rightarrow> spillDb" where
  "updateMsg mid f d = d\<lparr>dbMsgs := map (\<lambda>m. if rwID m = mid then f m else m) (dbMsgs d)\<rparr>"

definition assignMailbox :: "spillLib \<Rightarrow> int \<Rightarrow> int \<Rightarrow> int dbm" where
  "assignMailbox p mid provided =
     bindDb (loadMsgHdrs p mid)
       (\<lambda>hdr. bindDb (hasUnsubscribe p ''assignMailbox unsubscribe'' mid)
         (\<lambda>unsub. bindDb
             (if provided \<noteq> 0 then okDb provided
              else
                (let name = (if isSubscription hdr \<or> unsub then ''Subscriptions'' else ''INBOX'') in
                 resultDb p ''assignMailbox name'' (\<lambda>d. map mxID (filter (\<lambda>m. mxName m = Some name) (dbMailboxes d)))))
           (\<lambda>mb. bindDb (nextMsgUID p PoolRW mb)
             (\<lambda>uid. bindDb (nextMsgModSeq p PoolRW mb)
               (\<lambda>modSeq. bindDb (updateDb p PoolRW ''assignMailbox''
                     (updateMsg mid (\<lambda>m. m\<lparr>rwMailbox := Some mb, rwUID := Some (uint uid), rwModSeq := Some modSeq\<rparr>)))
                 (\<lambda>_. okDb mb))))))"

subsection \<open>The conversation of a message\<close>

text \<open>The contacts of the addresses of a message but the user's own, once for every address.\<close>

definition msgAddresses :: "int \<Rightarrow> spillDb \<Rightarrow> addressRow list" where
  "msgAddresses mid d =
     concat (map (\<lambda>(m, a, r). if m = mid then filter (\<lambda>x. adID x = a \<and> adContact x \<noteq> 1) (dbAddresses d) else []) (dbMsgAddrs d))"

definition matchingConvos :: "int \<Rightarrow> spillDb \<Rightarrow> int list" where
  "matchingConvos mid d =
     (let these = map adContact (msgAddresses mid d);
          rows = filter (\<lambda>x. snd x \<in> set these) (dbConvoContacts d) in
      filter (\<lambda>c. length (filter (\<lambda>x. fst x = c) rows) = length these) (sort (remdups (map fst rows))))"

definition findLabel :: "spillLib \<Rightarrow> bytes \<Rightarrow> int dbm" where
  "findLabel p name = resultDb p ''findLabel'' (\<lambda>d. map fst (filter (\<lambda>x. snd x = name) (dbLabels d)))"

definition assignLabel :: "spillLib \<Rightarrow> int \<Rightarrow> int \<Rightarrow> unit dbm" where
  "assignLabel p mid convo =
     bindDb (loadMsgHdrs p mid)
       (\<lambda>hdr. bindDb (hasUnsubscribe p ''assignLabel unsubscribe'' mid)
         (\<lambda>unsub. bindDb (findLabel p ''Personal Mail'')
           (\<lambda>personal. bindDb (if isSubscription hdr \<or> unsub then findLabel p ''Subscriptions'' else okDb personal)
             (\<lambda>label. mapErr (\<lambda>e. DbErr (libErrText p e @ '': convoID='' @ fmtInt convo @ '', labelID='' @ fmtInt label))
               (writeDb p PoolRW ''assignLabel'' (\<lambda>d.
                  if (label, convo) \<in> set (dbConvoLabels d) then Inl ConstraintPrimaryKey
                  else Inr ((), d\<lparr>dbConvoLabels := dbConvoLabels d @ [(label, convo)]\<rparr>)))))))"

definition insertConvo :: "(int \<times> bytes) list \<Rightarrow> int \<Rightarrow> spillDb \<Rightarrow> dbErr + spillDb" where
  "insertConvo summary i d =
     (if i \<in> fst ` set (dbConvos d) then Inl ConstraintPrimaryKey else Inr (d\<lparr>dbConvos := dbConvos d @ [(i, summary)]\<rparr>))"

text \<open>An insertion with a given ID, which becomes one with a random ID when that is taken.\<close>

definition insertOrRand :: "spillLib \<Rightarrow> string \<Rightarrow> int \<Rightarrow> (int \<Rightarrow> spillDb \<Rightarrow> dbErr + spillDb) \<Rightarrow> int dbm" where
  "insertOrRand p fn i ins d =
     (case writeDb p PoolRW fn (\<lambda>d. case ins i d of Inl e \<Rightarrow> Inl e | Inr d1 \<Rightarrow> Inr (i, d1)) d of
        (Inl ConstraintPrimaryKey, d1) \<Rightarrow> insertRandID p PoolRW fn ins d1
      | r \<Rightarrow> r)"

definition newConvo :: "spillLib \<Rightarrow> int \<Rightarrow> int dbm" where
  "newConvo p mid =
     bindDb (readDb p ''newConvo'' (msgAddresses mid))
       (\<lambda>as. let summary = map (\<lambda>a. (adContact a, case adName a of Some n \<Rightarrow> (if n = [] then lowerBytes p (adAddr a) else n)
                 | None \<Rightarrow> lowerBytes p (adAddr a))) as in
          bindDb (insertOrRand p ''newConvo insert'' mid (insertConvo summary))
            (\<lambda>convo. bindDb (writeDb p PoolRW ''newConvo contacts'' (\<lambda>d.
                 let rows = map (\<lambda>c. (convo, c)) (remdups (map adContact (msgAddresses mid d))) in
                 if set rows \<inter> set (dbConvoContacts d) \<noteq> {} then Inl ConstraintPrimaryKey
                 else Inr ((), d\<lparr>dbConvoContacts := dbConvoContacts d @ rows\<rparr>)))
              (\<lambda>_. bindDb (assignLabel p mid convo) (\<lambda>_. okDb convo))))"

text \<open>The error of \<open>newConvo\<close> is overwritten by that of the statement behind it.\<close>

definition dropErr :: "'a \<Rightarrow> 'a dbm \<Rightarrow> 'a dbm" where
  "dropErr x m d =
     (case m d of (Inl (DbPanic e), d1) \<Rightarrow> (Inl (DbPanic e), d1) | (Inl _, d1) \<Rightarrow> (Inr x, d1) | (Inr y, d1) \<Rightarrow> (Inr y, d1))"

definition assignConvo :: "spillLib \<Rightarrow> int \<Rightarrow> int dbm" where
  "assignConvo p mid =
     saveDb (bindDb (readDb p ''assignConvo'' (matchingConvos mid))
       (\<lambda>cs. bindDb (case cs of c # _ \<Rightarrow> okDb c | [] \<Rightarrow> dropErr 0 (newConvo p mid))
         (\<lambda>convo. bindDb (updateDb p PoolRW ''assignConvo update'' (updateMsg mid (\<lambda>m. m\<lparr>rwConvo := Some convo\<rparr>)))
           (\<lambda>_. okDb convo))))"

subsection \<open>InsertMsg\<close>

definition setMsgFetched :: "spillLib \<Rightarrow> int \<Rightarrow> int \<Rightarrow> int dbm" where
  "setMsgFetched p mid provided =
     bindDb (updateDb p PoolRW ''setMsgFetched'' (updateMsg mid (\<lambda>m. if rwState m = MsgFetching then m\<lparr>rwState := MsgReady\<rparr> else m)))
       (\<lambda>_. bindDb (assignMailbox p mid provided)
         (\<lambda>mb. bindDb (assignConvo p mid) (\<lambda>_. okDb mb)))"

text \<open>The low 32 bits of the first eight bytes, as a number that is not negative; a hash that is shorter makes it panic.\<close>

definition extractMsgID :: "bytes \<Rightarrow> int go" where
  "extractMsgID h =
     (if length h < 8 then Panic ''runtime error: index out of range''
      else
        (let w = (word_of_nat (foldl (\<lambda>n c. n * 256 + bval c) 0 (take 4 (drop 4 h))) :: u32);
             w1 = (if sint w < 0 then - w else w) in
         Ok (if w1 = 0 then 1 else sint w1)))"

definition insertMsgRow :: "newMsg \<Rightarrow> int \<Rightarrow> int \<Rightarrow> int \<Rightarrow> spillDb \<Rightarrow> dbErr + spillDb" where
  "insertMsgRow msg staging hdrs i d =
     (if i \<in> rwID ` set (dbMsgs d) then Inl ConstraintPrimaryKey
      else if staging \<noteq> 0 \<and> Some staging \<in> rwStagingID ` set (dbMsgs d) then Inl ConstraintUnique
      else Inr (d\<lparr>dbMsgs := dbMsgs d @
        [\<lparr>rwID = i, rwStagingID = (if staging \<noteq> 0 then Some staging else None), rwModSeq = None, rwSeed = Some (nmSeed msg),
          rwRawHash = Some (nmRawHash msg), rwConvo = None, rwState = MsgFetching, rwMailbox = None, rwUID = None,
          rwFlags = Some (nmFlags msg), rwSize = Some (nmSize msg), rwDate = nmDate msg, rwExpunged = None, rwHdrs = Some hdrs,
          rwUnsub = None\<rparr>]\<rparr>))"

text \<open>The headers go to a blob with the next row ID.\<close>

definition insertHdrs :: "spillLib \<Rightarrow> header \<Rightarrow> int dbm" where
  "insertHdrs p hdr =
     (case hEncode hdr of
        Panic m \<Rightarrow> failDb (DbPanic m)
      | Fail e \<Rightarrow> failDb (DbErr ''header encoding'')
      | Ok (_, s) \<Rightarrow>
          bindDb (writeDb p PoolRW ''insertMsg blob'' (\<lambda>d.
              let i = (if dbBlobs d = [] then 1 else Max (blID ` set (dbBlobs d)) + 1) in
              case insertBlob (Some (libSHA256 p s)) (Some (replicate (length s) NUL)) i d of
                Inl e \<Rightarrow> Inl e | Inr d1 \<Rightarrow> Inr (i, d1)))
            (\<lambda>i. bindDb (fillBlob p i s) (\<lambda>_. okDb i)))"

definition newMsgRow :: "spillLib \<Rightarrow> newMsg \<Rightarrow> int \<Rightarrow> int dbm" where
  "newMsgRow p msg staging =
     bindDb (insertHdrs p (nmHeaders msg))
       (\<lambda>hdrs. case extractMsgID (nmRawHash msg) of
          Ok mid0 \<Rightarrow>
            bindDb (insertOrRand p ''insertMsg'' mid0 (insertMsgRow msg staging hdrs))
              (\<lambda>mid. bindDb (insertAddresses p mid (nmHeaders msg)) (\<lambda>_. okDb mid))
        | Panic m \<Rightarrow> failDb (DbPanic m)
        | Fail e \<Rightarrow> failDb (DbErr []))"

definition knownMsg :: "spillLib \<Rightarrow> newMsg \<Rightarrow> int dbm" where
  "knownMsg p msg =
     bindDb (readDb p ''insertMsg hash'' (\<lambda>d. map rwID (sort_key rwID (filter (\<lambda>m. rwRawHash m = Some (nmRawHash msg)) (dbMsgs d)))))
       (\<lambda>ids. case ids of
          i # _ \<Rightarrow> if i \<noteq> nmID msg then failDb (DbErr (''raw hash for m'' @ fmtInt i @ '' has changed'')) else okDb (nmID msg)
        | [] \<Rightarrow> okDb (nmID msg))"

text \<open>\<open>insertMsg\<close>: whether it is done, and the message with its ID, its mailbox and the blobs of its parts.\<close>

definition insertMsg :: "spillLib \<Rightarrow> newMsg \<Rightarrow> int \<Rightarrow> (bool \<times> newMsg) dbm" where
  "insertMsg p msg staging =
     saveDb (if nmRawHash msg = [] then failDb (DbErr ''missing hash'')
      else
        bindDb (if nmID msg \<noteq> 0 then knownMsg p msg else newMsgRow p msg staging)
          (\<lambda>mid. bindDb (insertParts p mid 0 (nmParts msg))
            (\<lambda>nps. bindDb (readDb p ''insertMsg count'' (\<lambda>d. length (filter
                  (\<lambda>b. blContent b = None \<and> blID b \<in> prBlobID ` set (filter (\<lambda>r. prMsgID r = mid) (dbParts d))) (dbBlobs d))))
              (\<lambda>missing.
                 if 0 < missing then okDb (False, msg\<lparr>nmID := mid, nmParts := nps\<rparr>)
                 else bindDb (setMsgFetched p mid (nmMailbox msg))
                   (\<lambda>mb. okDb (True, msg\<lparr>nmID := mid, nmParts := nps, nmMailbox := mb\<rparr>))))))"

text \<open>\<open>InsertMsg\<close>; the name of the mailbox is looked up for the notifiers.\<close>

definition InsertMsg :: "spillLib \<Rightarrow> bool \<Rightarrow> newMsg \<Rightarrow> int \<Rightarrow> (bool \<times> newMsg) dbm" where
  "InsertMsg p notifiers msg staging =
     bindDb (mapErr (wrapErr p ''InsertMsg: '') (insertMsg p msg staging))
       (\<lambda>(ready, msg1).
          if ready \<and> staging \<noteq> 0 \<and> notifiers then
            bindDb (mapErr (wrapErr p ''mailbox name: '')
                (resultDb p ''InsertMsg name'' (\<lambda>d. map mxName (filter (\<lambda>m. mxID m = nmMailbox msg1) (dbMailboxes d)))))
              (\<lambda>_. okDb (ready, msg1))
          else okDb (ready, msg1))"

end
