(* ===== verification/SpillAuth.thy ===== *)
theory SpillAuth
  imports SpillInsert
begin

text \<open>
  The users of the server: the throttle of failing logins (\<open>util/throttle/throttle.go\<close>) and \<open>AuthDevice\<close>
  (\<open>spilldb/db/auth.go\<close>), over the tables of devices and addresses of the main database.

  A time is in nanoseconds; the clock is part of the state, and sleeping moves it. \<open>bcrypt\<close> and \<open>bytes.ToUpper\<close> beyond ASCII are
  parameters. Each call is one step (the code holds a lock, except while it sleeps).
\<close>

subsection \<open>The throttle\<close>

record throttle =
  trAttempts :: "bytes \<Rightarrow> (int \<times> nat) option" \<comment> \<open>last, failures\<close>
  trCleaned :: "int option" \<comment> \<open>None is the zero time\<close>

definition newThrottle :: throttle where
  "newThrottle = \<lparr>trAttempts = (\<lambda>_. None), trCleaned = None\<rparr>"

definition delay :: int where "delay = 3000000000"
definition window :: int where "window = 60000000000"
definition buffer :: nat where "buffer = 10"

definition cleanUp :: "int \<Rightarrow> throttle \<Rightarrow> throttle" where
  "cleanUp now tr =
     (if (case trCleaned tr of None \<Rightarrow> True | Some t \<Rightarrow> now - t > window) then
        \<lparr>trAttempts = (\<lambda>k. case trAttempts tr k of None \<Rightarrow> None | Some (l, n) \<Rightarrow> if now - l > delay then None else Some (l, n)),
         trCleaned = Some now\<rparr>
      else tr)"

text \<open>Whether it throttled, and the time behind it.\<close>

definition throttleVal :: "bytes \<Rightarrow> int \<times> throttle \<Rightarrow> bool \<times> int \<times> throttle" where
  "throttleVal key s =
     (case s of (now, tr) \<Rightarrow>
       let tr1 = cleanUp now tr in
       (case trAttempts tr1 key of
          Some (l, n) \<Rightarrow> if buffer \<le> n \<and> now - l < delay then (True, now + delay, tr1) else (False, now, tr1)
        | None \<Rightarrow> (False, now, tr1)))"

definition throttleAdd :: "bytes \<Rightarrow> int \<times> throttle \<Rightarrow> int \<times> throttle" where
  "throttleAdd key s =
     (case s of (now, tr) \<Rightarrow>
       let n = (case trAttempts tr key of None \<Rightarrow> 0 | Some (_, n) \<Rightarrow> n) in
       (now, tr\<lparr>trAttempts := (trAttempts tr)(key \<mapsto> (now, n + 1))\<rparr>))"

subsection \<open>Devices\<close>

record deviceRow =
  dvID :: int
  dvUserID :: int
  dvPassHash :: bytes
  dvDeleted :: bool
  dvLastTime :: int
  dvLastAddr :: bytes

record mainDb =
  mdDevices :: "deviceRow list"
  mdAddresses :: "(bytes \<times> int) list" \<comment> \<open>address, user\<close>

record authLib =
  auGet :: "mainDb \<Rightarrow> bool" \<comment> \<open>the pool has a connection\<close>
  auFail :: "string \<Rightarrow> mainDb \<Rightarrow> bool"
  auCompare :: "bytes \<Rightarrow> bytes \<Rightarrow> bool"
  auUpper :: "bytes \<Rightarrow> bytes"

record authState =
  asDb :: mainDb
  asNow :: int
  asThrottle :: throttle

datatype authErr = Canceled | AuthFailed | AuthBadCredentials

definition cleanPassword :: "authLib \<Rightarrow> bytes \<Rightarrow> bytes" where
  "cleanPassword a pw =
     filter (\<lambda>c. c \<noteq> SP) (if list_all (\<lambda>c. bval c < 128) pw then map upperByte pw else auUpper a pw)"

definition userDevices :: "bytes \<Rightarrow> mainDb \<Rightarrow> deviceRow list" where
  "userDevices username m =
     sort_key dvID (filter (\<lambda>r. dvUserID r \<in> snd ` set (filter (\<lambda>x. fst x = username) (mdAddresses m))) (mdDevices m))"

text \<open>The loop over the devices and what follows; the throttle is left out.\<close>

definition checkDevices :: "authLib \<Rightarrow> bytes \<Rightarrow> bytes \<Rightarrow> bytes \<Rightarrow> int \<Rightarrow> mainDb \<Rightarrow> (authErr + int) \<times> mainDb" where
  "checkDevices a remote username pw now m =
     (if auFail a ''AuthDevice'' m then (Inl AuthFailed, m)
      else
        (case find (\<lambda>r. auCompare a (dvPassHash r) pw) (userDevices username m) of
           None \<Rightarrow> (Inl AuthBadCredentials, m)
         | Some r \<Rightarrow>
             if dvDeleted r \<or> dvUserID r = 0 then (Inl AuthBadCredentials, m)
             else if auFail a ''AuthDevice update'' m then (Inl AuthFailed, m)
             else
               (Inr (dvUserID r), m\<lparr>mdDevices := map (\<lambda>x. if dvID x = dvID r
                  then x\<lparr>dvLastTime := now div 1000000000, dvLastAddr := remote\<rparr> else x) (mdDevices m)\<rparr>)))"

definition throttles :: "bytes \<Rightarrow> bytes \<Rightarrow> int \<times> throttle \<Rightarrow> int \<times> throttle" where
  "throttles remote username s =
     (if remote \<noteq> [] \<and> fst (throttleVal remote s) then snd (throttleVal remote s)
      else snd (throttleVal username (if remote \<noteq> [] then snd (throttleVal remote s) else s)))"

definition AuthDevice :: "authLib \<Rightarrow> bytes \<Rightarrow> bytes \<Rightarrow> bytes \<Rightarrow> authState \<Rightarrow> (authErr + int) \<times> authState" where
  "AuthDevice a remote username pw s =
     (if \<not> auGet a (asDb s) then (Inl Canceled, s)
      else
        (let (now, tr) = throttles remote username (asNow s, asThrottle s);
             (r, m) = checkDevices a remote username (cleanPassword a pw) now (asDb s);
             (now1, tr1) = (case r of
                Inl e \<Rightarrow> throttleAdd username (if remote \<noteq> [] then throttleAdd remote (now, tr) else (now, tr))
              | Inr _ \<Rightarrow> (now, tr)) in
         (r, \<lparr>asDb = m, asNow = now1, asThrottle = tr1\<rparr>)))"

end
