(* ===== verification/ImapDb.thy ===== *)
theory ImapDb
  imports ImapMemory SpillAuth
begin

text \<open>
  The data store of the server proper (\<open>spilldb/imapdb/imapdb.go\<close>, with \<open>Open\<close> of \<open>boxmgmt\<close>): sessions, mailboxes and messages as
  operations on the users' databases of \<open>SpillInsert\<close>, and their record \<open>dbBackend\<close> as the server calls them.

  A session is the ID of its user; a mailbox handle also has the mailbox's ID and name, a message of a Fetch callback the handle, the
  ID and the summary. The sequence numbers of a query are the places of the ready messages in the order of their UIDs. The parameters are those of
  \<open>spillLib\<close> and \<open>authLib\<close>, \<open>msgcleaver.Cleave\<close>, the opening of a user's database, dates, the local time zone and the random numbers of the
  boundaries. A pool that has no connection makes the operation fail (\<open>libFail\<close> of the name Get). The headers, the flags and the parts of a fetched
  message are read when it is called back; \<open>SetSeen\<close> does not reach the flags that were read.
\<close>

subsection \<open>State\<close>

record dbHandle =
  dhUser :: int
  dhID :: int
  dhName :: bytes

record dbStore =
  dsMain :: authState
  dsBox :: "int \<Rightarrow> spillDb"

record dbParams =
  dpLib :: spillLib
  dpAuth :: authLib
  dpOpen :: "int \<Rightarrow> dbStore \<Rightarrow> bytes option"
  dpRemote :: bytes
  dpCleave :: "bytes \<Rightarrow> bytes + newMsg"
  dpParseDate :: "bytes \<Rightarrow> int"
  dpFormatDate :: "int \<Rightarrow> bytes"
  dpZone :: "int \<Rightarrow> int"
  dpAuthText :: "authErr \<Rightarrow> bytes"
  dpRandom :: "int option \<Rightarrow> nat \<Rightarrow> byte"

definition withConn :: "spillLib \<Rightarrow> 'a dbm \<Rightarrow> 'a dbm" where
  "withConn p m = bindDb (readDb p ''Get'' (\<lambda>_. ())) (\<lambda>_. m)"

lemma withConn_Inr: "withConn p m d = (Inr x, d1) \<longleftrightarrow> libFail p ''Get'' d = None \<and> m d = (Inr x, d1)"
  by (auto simp: withConn_def bindDb_Inr readDb_Inr)

subsection \<open>Sequence numbers\<close>

definition uidOf :: "msgRow \<Rightarrow> int" where
  "uidOf m = (case rwUID m of None \<Rightarrow> 0 | Some u \<Rightarrow> u)"

definition modSeqOf :: "msgRow \<Rightarrow> int" where
  "modSeqOf m = (case rwModSeq m of None \<Rightarrow> 0 | Some n \<Rightarrow> n)"

definition inBox :: "int \<Rightarrow> msgRow \<Rightarrow> bool" where
  "inBox mb m \<longleftrightarrow> rwMailbox m = Some mb"

definition readyMsgs :: "int \<Rightarrow> spillDb \<Rightarrow> msgRow list" where
  "readyMsgs mb d = sort_key uidOf (filter (\<lambda>m. inBox mb m \<and> rwState m = MsgReady) (dbMsgs d))"

definition seqRows :: "int \<Rightarrow> spillDb \<Rightarrow> (nat \<times> msgRow) list" where
  "seqRows mb d = enumerate 1 (readyMsgs mb d)"

text \<open>The bounds of a range in the query; the maximum 0 (the end of the mailbox) is the largest number.\<close>

definition rangeMax :: "SeqRange \<Rightarrow> int" where
  "rangeMax q = (if seqMax q = 0 then 2 ^ 32 - 1 else uint (seqMax q))"

definition inRange :: "bool \<Rightarrow> int \<Rightarrow> int \<Rightarrow> nat \<times> msgRow \<Rightarrow> bool" where
  "inRange useUID lo hi r \<longleftrightarrow>
     (if useUID then rwUID (snd r) \<noteq> None \<and> lo \<le> uidOf (snd r) \<and> uidOf (snd r) \<le> hi
      else lo \<le> int (fst r) \<and> int (fst r) \<le> hi)"

definition rowSummary :: "nat \<times> msgRow \<Rightarrow> summary" where
  "rowSummary r = \<lparr>sumSeq = of_nat (fst r), sumUID = word_of_int (uidOf (snd r)), sumModSeq = modSeqOf (snd r)\<rparr>"

subsection \<open>Loops that report\<close>

text \<open>The error, if there is one, and what was reported until then.\<close>

type_synonym 'c dbLog = "spillDb \<Rightarrow> (dbErr option \<times> 'c list) \<times> spillDb"

fun logEach :: "('a \<Rightarrow> 'c dbm) \<Rightarrow> 'a list \<Rightarrow> 'c dbLog" where
  "logEach f [] d = ((None, []), d)"
| "logEach f (x # xs) d =
     (case f x d of
        (Inl e, d1) \<Rightarrow> ((Some e, []), d1)
      | (Inr y, d1) \<Rightarrow> (let ((e, ys), d2) = logEach f xs d1 in ((e, y # ys), d2)))"

text \<open>For each range its query, which is given how many rows there were before, and the step for each of its rows, which is given how
  many rows of the range were before it.\<close>

fun logRanges :: "(nat \<Rightarrow> SeqRange \<Rightarrow> 'a list dbm) \<Rightarrow> (nat \<times> 'a \<Rightarrow> 'c dbm) \<Rightarrow> nat \<Rightarrow> SeqRange list \<Rightarrow> 'c dbLog" where
  "logRanges sel f n [] d = ((None, []), d)"
| "logRanges sel f n (q # qs) d =
     (case sel n q d of
        (Inl e, d1) \<Rightarrow> ((Some e, []), d1)
      | (Inr rows, d1) \<Rightarrow>
          (case logEach f (enumerate 0 rows) d1 of
             ((Some e, ys), d2) \<Rightarrow> ((Some e, ys), d2)
           | ((None, ys), d2) \<Rightarrow> (let ((e, zs), d3) = logRanges sel f (n + length ys) qs d2 in ((e, ys @ zs), d3))))"

text \<open>\<open>defer sqlitex.Save(conn)(&err)\<close> around a loop that reports.\<close>

definition saveLog :: "'c dbLog \<Rightarrow> 'c dbLog" where
  "saveLog m d = (case m d of ((Some e, ys), _) \<Rightarrow> ((Some e, ys), d) | ((None, ys), d1) \<Rightarrow> ((None, ys), d1))"

definition bindLog :: "'a dbm \<Rightarrow> ('a \<Rightarrow> 'c dbLog) \<Rightarrow> 'c dbLog" where
  "bindLog m f d = (case m d of (Inl e, d1) \<Rightarrow> ((Some e, []), d1) | (Inr x, d1) \<Rightarrow> f x d1)"

text \<open>The rows of a range, as Fetch, Store and Copy select them.\<close>

definition rangeRows :: "spillLib \<Rightarrow> string \<Rightarrow> dbHandle \<Rightarrow> bool \<Rightarrow> nat \<Rightarrow> SeqRange \<Rightarrow> (nat \<times> msgRow) list dbm" where
  "rangeRows p fn h useUID n q = readDb p fn (\<lambda>d. filter (inRange useUID (uint (seqMin q)) (rangeMax q)) (seqRows (dhID h) d))"

subsection \<open>The session\<close>

definition dbMailboxList :: "spillLib \<Rightarrow> (bytes \<times> nat) list dbm" where
  "dbMailboxList p = withConn p (readDb p ''Mailboxes''
     (\<lambda>d. sort_key (\<lambda>x. if fst x = ''INBOX'' then [] else fst x)
        (sort_key fst (map (\<lambda>m. (case mxName m of Some n \<Rightarrow> n | None \<Rightarrow> [], mxAttrs m)) (filter (\<lambda>m. mxName m \<noteq> None) (dbMailboxes d))))))"

definition dbMailbox :: "spillLib \<Rightarrow> int \<Rightarrow> bytes \<Rightarrow> dbHandle dbm" where
  "dbMailbox p uid name = withConn p (bindDb (readDb p ''Mailbox'' (\<lambda>d. filter (\<lambda>m. mxName m = Some name) (dbMailboxes d)))
     (\<lambda>ms. case ms of
        [] \<Rightarrow> failDb (DbErr (''mailbox not found: '' @ name))
      | m # _ \<Rightarrow> okDb \<lparr>dhUser = uid, dhID = mxID m, dhName = name\<rparr>))"

definition dbCreate :: "spillLib \<Rightarrow> bytes \<Rightarrow> nat \<Rightarrow> unit dbm" where
  "dbCreate p name attr = withConn p (saveDb (createMailbox p PoolRW name attr))"

definition dbDelete :: "spillLib \<Rightarrow> bytes \<Rightarrow> unit dbm" where
  "dbDelete p name = withConn p (deleteMailbox p PoolRW name)"

definition dbRename :: "bytes \<Rightarrow> bytes \<Rightarrow> unit dbm" where
  "dbRename old new =
     (if old = ''INBOX'' then failDb (DbErr ''TODO move all inbox messages to new mailbox'') else failDb (DbPanic ''TODO''))"

definition dbRegister :: "spillLib \<Rightarrow> bytes \<Rightarrow> PushService \<Rightarrow> unit dbm" where
  "dbRegister p mailbox dev = withConn p (registerPushDevice p mailbox (apsAccountID dev) (apsDeviceToken dev))"

definition dbLogin :: "dbParams \<Rightarrow> bytes \<Rightarrow> bytes \<Rightarrow> dbStore \<Rightarrow> (loginError + int \<times> int) \<times> dbStore" where
  "dbLogin p name pass s =
     (let (r, main) = AuthDevice (dpAuth p) (dpRemote p) name pass (dsMain s); s1 = s\<lparr>dsMain := main\<rparr> in
      case r of
        Inl AuthBadCredentials \<Rightarrow> (Inl BadCredentials, s1)
      | Inl e \<Rightarrow> (Inl (LoginError (dpAuthText p e)), s1)
      | Inr uid \<Rightarrow>
          (case dpOpen p uid s1 of Some e \<Rightarrow> (Inl (LoginError e), s1) | None \<Rightarrow> (Inr (uid, uid), s1)))"

subsection \<open>Info, Search, Fetch\<close>

definition rowFlags :: "msgRow \<Rightarrow> bytes list" where
  "rowFlags m = (case rwFlags m of None \<Rightarrow> [] | Some fs \<Rightarrow> fs)"

text \<open>The highest mod-sequence, of the expunged messages too; the NULL of an empty mailbox is read as 0.\<close>

definition maxModSeq :: "int \<Rightarrow> spillDb \<Rightarrow> int" where
  "maxModSeq mb d =
     (case List.map_filter rwModSeq (filter (inBox mb) (dbMsgs d)) of [] \<Rightarrow> 0 | n # ns \<Rightarrow> fold max ns n)"

definition dbInfo :: "spillLib \<Rightarrow> dbHandle \<Rightarrow> mailboxInfo dbm" where
  "dbInfo p h = withConn p (saveDb
     (bindDb (readDb p ''Info'' (\<lambda>d. filter (\<lambda>m. mxID m = dhID h) (dbMailboxes d)))
       (\<lambda>ms. case ms of
          [] \<Rightarrow> failDb (DbErr ''missing mailbox db info'')
        | m # _ \<Rightarrow>
            readDb p ''Info messages'' (\<lambda>d.
              let unseen = filter (\<lambda>r. flagSeen \<notin> set (rowFlags (snd r))) (seqRows (dhID h) d) in
              \<lparr>infoName = dhName h, infoAttrs = 0, numMessages = of_nat (length (readyMsgs (dhID h) d)), numRecent = 0,
               numUnseen = of_nat (length unseen), infoUidNext = word_of_int (mxNextUID m), infoUidValidity = word_of_int (mxUidValidity m),
               firstUnseen = (case unseen of [] \<Rightarrow> 0 | r # _ \<Rightarrow> of_nat (fst r)), highestModSeq = maxModSeq (dhID h) d\<rparr>))))"

definition dbHighest :: "spillLib \<Rightarrow> dbHandle \<Rightarrow> int dbm" where
  "dbHighest p h = withConn p (readDb p ''HighestModSequence'' (maxModSeq (dhID h)))"

text \<open>What the matcher sees of a row; headers that cannot be loaded are empty. A time is in seconds since the year 1.\<close>

definition rowMatch :: "dbParams \<Rightarrow> spillDb \<Rightarrow> nat \<times> msgRow \<Rightarrow> matchMessage" where
  "rowMatch p d r =
     (let m = snd r in
      \<lparr>mmSeqNum = of_nat (fst r), mmUID = word_of_int (uidOf m), mmModSeq = modSeqOf m, mmFlag = (\<lambda>f. f \<in> set (rowFlags m)),
       mmHeader = (\<lambda>name. case fst (loadMsgHdrs (dpLib p) (rwID m) d) of
          Inl _ \<Rightarrow> [] | Inr hdr \<Rightarrow> fst (hGet (fst (CanonicalKey name)) hdr)),
       mmDate = rwDate m + 62135596800, mmZone = dpZone p (rwDate m), mmSize = (case rwSize m of None \<Rightarrow> 0 | Some n \<Rightarrow> n)\<rparr>)"

definition dbSearch :: "dbParams \<Rightarrow> dbHandle \<Rightarrow> SearchOp \<Rightarrow> summary list dbm" where
  "dbSearch p h op = withConn (dpLib p) (readDb (dpLib p) ''Search''
     (\<lambda>d. map rowSummary (filter (\<lambda>r. matchOp (rowMatch p d r) op) (seqRows (dhID h) d))))"

record dbRef =
  drHandle :: dbHandle
  drMsgID :: int
  drSummary :: summary

text \<open>\<open>fetchMsg\<close>: the message as it is called back, when its headers, flags and parts can be loaded.\<close>

definition fetchMsg :: "spillLib \<Rightarrow> dbHandle \<Rightarrow> nat \<times> msgRow \<Rightarrow> dbRef dbm" where
  "fetchMsg p h r =
     (let mid = rwID (snd r); pre = ''m'' @ fmtInt mid in
      bindDb (mapErr (wrapErr p (pre @ '' headers: '')) (loadMsgHdrs p mid))
        (\<lambda>_. bindDb (if rwFlags (snd r) = None then failDb (DbErr (pre @ '' flags: EOF'')) else okDb ())
          (\<lambda>_. bindDb (loadPartsSummary p mid) (\<lambda>_. okDb \<lparr>drHandle = h, drMsgID = mid, drSummary = rowSummary r\<rparr>))))"

definition dbFetch :: "spillLib \<Rightarrow> dbHandle \<Rightarrow> bool \<Rightarrow> SeqRange list \<Rightarrow> int \<Rightarrow> dbRef dbLog" where
  "dbFetch p h useUID sset changedSince =
     bindLog (readDb p ''Get'' (\<lambda>_. ()))
       (\<lambda>_. logRanges
          (\<lambda>n q. bindDb (rangeRows p ''Fetch'' h useUID n q)
             (\<lambda>rows. okDb (filter (\<lambda>r. rwModSeq (snd r) \<noteq> None \<and> changedSince < modSeqOf (snd r)) rows)))
          (\<lambda>(_, r). fetchMsg p h r) 0 sset)"

definition imapPart :: "msgPart \<Rightarrow> part" where
  "imapPart np = \<lparr>partName = npName np, partIsBody = npIsBody np, partIsAttachment = npIsAttachment np,
     partContentType = npContentType np, partContentID = npContentID np, partContent = npContent np, partCTE = npCTE np,
     partCTSize = npCTSize np, partCTLines = npCTLines np\<rparr>"

definition msgRowOf :: "int \<Rightarrow> spillDb \<Rightarrow> msgRow option" where
  "msgRowOf mid d = find (\<lambda>m. rwID m = mid) (dbMsgs d)"

definition refData :: "dbParams \<Rightarrow> dbRef \<Rightarrow> spillDb \<Rightarrow> msgData" where
  "refData p r d =
     (let mid = drMsgID r; row = msgRowOf mid d in
      \<lparr>mdHeaders = (case fst (loadMsgHdrs (dpLib p) mid d) of Inl _ \<Rightarrow> emptyHeader | Inr h \<Rightarrow> h),
       mdFlags = (case row of None \<Rightarrow> [] | Some m \<Rightarrow> sort (remdups (rowFlags m))),
       mdDate = (case row of None \<Rightarrow> [] | Some m \<Rightarrow> dpFormatDate p (rwDate m)),
       mdParts = (case fst (loadPartsSummary (dpLib p) mid d) of Inl _ \<Rightarrow> [] | Inr ps \<Rightarrow> map imapPart ps),
       mdSize = (case row of None \<Rightarrow> 0 | Some m \<Rightarrow> (case rwSize m of None \<Rightarrow> 0 | Some n \<Rightarrow> n)),
       mdRandom = dpRandom p (case row of None \<Rightarrow> None | Some m \<Rightarrow> rwSeed m)\<rparr>)"

definition dbLoadPart :: "spillLib \<Rightarrow> dbRef \<Rightarrow> nat \<Rightarrow> bytes dbm" where
  "dbLoadPart p r i =
     bindDb (loadPartsSummary p (drMsgID r))
       (\<lambda>ps. if i < length ps then loadPartContent p (ps ! i) else failDb (DbPanic ''index out of range''))"

definition addSeen :: "msgRow \<Rightarrow> msgRow" where
  "addSeen m = m\<lparr>rwFlags := map_option (\<lambda>fs. if flagSeen \<in> set fs then fs else fs @ [flagSeen]) (rwFlags m)\<rparr>"

definition dbSetSeen :: "spillLib \<Rightarrow> dbRef \<Rightarrow> unit dbm" where
  "dbSetSeen p r = updateDb p PoolRO ''SetSeen'' (updateMsg (drMsgID r) addSeen)"

subsection \<open>Expunge\<close>

definition expungeRow :: "int \<Rightarrow> msgRow \<Rightarrow> msgRow" where
  "expungeRow now m = m\<lparr>rwState := MsgExpunged, rwExpunged := Some now\<rparr>"

definition toExpunge :: "SeqRange list option \<Rightarrow> nat \<times> msgRow \<Rightarrow> bool" where
  "toExpunge uidSeqs r \<longleftrightarrow> flagDeleted \<in> set (rowFlags (snd r)) \<and>
     (case uidSeqs of None \<Rightarrow> True | Some q \<Rightarrow> SeqContains q (word_of_int (uidOf (snd r))))"

fun expungeRows :: "spillLib \<Rightarrow> nat \<Rightarrow> (nat \<times> msgRow) list \<Rightarrow> u32 list dbm" where
  "expungeRows p n [] = okDb []"
| "expungeRows p n (r # rs) =
     bindDb (writeDb p PoolRW ''Expunge update'' (\<lambda>d. Inr ((), updateMsg (rwID (snd r)) (expungeRow (libNow p d)) d)))
       (\<lambda>_. bindDb (expungeRows p (n + 1) rs) (\<lambda>ns. okDb ((of_nat (fst r) - of_nat n) # ns)))"

definition dbExpunge :: "spillLib \<Rightarrow> dbHandle \<Rightarrow> SeqRange list option \<Rightarrow> u32 list dbm" where
  "dbExpunge p h uidSeqs = withConn p (saveDb
     (bindDb (readDb p ''Expunge count'' (\<lambda>d. length (filter (toExpunge None) (seqRows (dhID h) d))))
       (\<lambda>count. if count = 0 then okDb []
          else bindDb (readDb p ''Expunge'' (\<lambda>d. filter (toExpunge uidSeqs) (seqRows (dhID h) d)))
            (\<lambda>rs. expungeRows p 0 rs))))"

subsection \<open>Store\<close>

text \<open>The flags as sets: whether they change, and the new ones in order. \<open>None\<close> is a failed UNCHANGEDSINCE.\<close>

definition storeRowFlags :: "StoreParam \<Rightarrow> msgRow \<Rightarrow> (bool \<times> bytes list) option" where
  "storeRowFlags st m =
     (let old = set (rowFlags m); new = set (filter (\<lambda>f. f \<noteq> flagRecent) (storeFlags st));
          ret = (\<lambda>changed fs. Some (changed, sort (remdups fs)));
          given = filter (\<lambda>f. f \<noteq> flagRecent) (storeFlags st) in
      case storeMode st of
        StoreAdd \<Rightarrow> ret (\<not> new \<subseteq> old) (rowFlags m @ given)
      | StoreRemove \<Rightarrow> ret (new \<inter> old \<noteq> {}) (filter (\<lambda>f. f \<notin> new) (rowFlags m))
      | StoreReplace \<Rightarrow>
          (if unchangedSince st \<noteq> 0 \<and> unchangedSince st < modSeqOf m then None else ret (new \<noteq> old) given)
      | StoreUnknown \<Rightarrow> ret False (rowFlags m))"

text \<open>What the step adds to the result: a message that failed, by its number, or one that is stored.\<close>

type_synonym storeEvent = "u32 + (summary \<times> bytes list) option"

definition storeRow :: "spillLib \<Rightarrow> bool \<Rightarrow> StoreParam \<Rightarrow> int \<Rightarrow> nat \<times> msgRow \<Rightarrow> storeEvent dbm" where
  "storeRow p useUID st newModSeq r =
     (let m = snd r; sm = rowSummary r in
      if rwFlags m = None then failDb (DbErr ''EOF'')
      else
        (case storeRowFlags st m of
           None \<Rightarrow> okDb (Inl (if useUID then sumUID sm else sumSeq sm))
         | Some (changed, fs) \<Rightarrow>
             (if \<not> changed then
                okDb (Inr (if unchangedSince st \<noteq> 0 \<and> unchangedSince st < modSeqOf m then Some (sm, fs) else None))
              else
                bindDb (updateDb p PoolRW ''Store'' (updateMsg (rwID m) (\<lambda>x. x\<lparr>rwFlags := Some fs, rwModSeq := Some newModSeq\<rparr>)))
                  (\<lambda>_. okDb (Inr (Some (sm\<lparr>sumModSeq := newModSeq\<rparr>, fs)))))))"

definition storeResults :: "storeEvent list \<Rightarrow> (summary \<times> bytes list) list \<times> SeqRange list" where
  "storeResults es =
     (List.map_filter (\<lambda>e. case e of Inl _ \<Rightarrow> None | Inr x \<Rightarrow> x) es,
      fold (\<lambda>e failed. case e of Inl i \<Rightarrow> AppendSeqRange failed i | Inr _ \<Rightarrow> failed) es [])"

definition logResult :: "'c dbLog \<Rightarrow> 'c list dbm" where
  "logResult m d = (case m d of ((Some e, _), d1) \<Rightarrow> (Inl e, d1) | ((None, ys), d1) \<Rightarrow> (Inr ys, d1))"

definition dbStoreFlags :: "spillLib \<Rightarrow> dbHandle \<Rightarrow> bool \<Rightarrow> SeqRange list \<Rightarrow> StoreParam \<Rightarrow> ((summary \<times> bytes list) list \<times> SeqRange list) dbm" where
  "dbStoreFlags p h useUID sset st = withConn p (saveDb
     (bindDb (nextMsgModSeq p PoolRW (dhID h))
       (\<lambda>newModSeq. bindDb (logResult (logRanges (rangeRows p ''Store rows'' h useUID) (\<lambda>(_, r). storeRow p useUID st newModSeq r) 0 sset))
         (\<lambda>es. okDb (storeResults es)))))"

subsection \<open>Copy and Move\<close>

text \<open>The row of a copy has no size.\<close>

definition copiedRow :: "msgRow \<Rightarrow> int \<Rightarrow> int \<Rightarrow> int \<Rightarrow> int \<Rightarrow> msgRow" where
  "copiedRow m mb modSeq uid i =
     \<lparr>rwID = i, rwStagingID = None, rwModSeq = Some modSeq, rwSeed = Some (case rwSeed m of None \<Rightarrow> 0 | Some n \<Rightarrow> n),
      rwRawHash = Some (case rwRawHash m of None \<Rightarrow> [] | Some h \<Rightarrow> h), rwConvo = None, rwState = MsgReady, rwMailbox = Some mb,
      rwUID = Some uid, rwFlags = rwFlags m, rwSize = None, rwDate = rwDate m, rwExpunged = None,
      rwHdrs = Some (case rwHdrs m of None \<Rightarrow> 0 | Some n \<Rightarrow> n), rwUnsub = None\<rparr>"

definition addMsgRow :: "(int \<Rightarrow> msgRow) \<Rightarrow> int \<Rightarrow> spillDb \<Rightarrow> dbErr + spillDb" where
  "addMsgRow row i d =
     (if i \<in> rwID ` set (dbMsgs d) then Inl ConstraintPrimaryKey else Inr (d\<lparr>dbMsgs := dbMsgs d @ [(row i)\<lparr>rwID := i\<rparr>]\<rparr>))"

definition dbCopyMsg :: "spillLib \<Rightarrow> int \<Rightarrow> dbHandle \<Rightarrow> nat \<times> msgRow \<Rightarrow> (u32 \<times> u32) dbm" where
  "dbCopyMsg p newModSeq dst r =
     bindDb (nextMsgUID p PoolRO (dhID dst))
       (\<lambda>dstUID. bindDb (insertRandID p PoolRO ''copyMsg'' (addMsgRow (copiedRow (snd r) (dhID dst) newModSeq (uint dstUID))))
         (\<lambda>mid. bindDb (loadPartsSummary p (rwID (snd r)))
           (\<lambda>parts. bindDb (eachDb (insertPartSummary p PoolRO mid) parts)
             (\<lambda>_. okDb (word_of_int (uidOf (snd r)), dstUID)))))"

definition dbCopy :: "spillLib \<Rightarrow> dbHandle \<Rightarrow> bool \<Rightarrow> SeqRange list \<Rightarrow> dbHandle \<Rightarrow> (u32 \<times> u32) dbLog" where
  "dbCopy p h useUID sset dst =
     bindLog (readDb p ''Get'' (\<lambda>_. ()))
       (\<lambda>_. saveLog (bindLog (nextMsgModSeq p PoolRO (dhID dst))
         (\<lambda>newModSeq. logRanges (rangeRows p ''Copy'' h useUID) (\<lambda>(_, r). dbCopyMsg p newModSeq dst r) 0 sset)))"

definition tombstone :: "msgRow \<Rightarrow> int \<Rightarrow> int \<Rightarrow> int \<Rightarrow> int \<Rightarrow> msgRow" where
  "tombstone m mb modSeq now i =
     \<lparr>rwID = i, rwStagingID = None, rwModSeq = Some modSeq, rwSeed = None, rwRawHash = None, rwConvo = None, rwState = MsgExpunged,
      rwMailbox = Some mb, rwUID = Some (uint (word_of_int (uidOf m) :: u32)), rwFlags = None, rwSize = None, rwDate = rwDate m,
      rwExpunged = Some now, rwHdrs = None, rwUnsub = None\<rparr>"

text \<open>The query of a range of sequence numbers takes the number of messages that were moved until then off its bounds.\<close>

definition moveRows :: "spillLib \<Rightarrow> dbHandle \<Rightarrow> bool \<Rightarrow> nat \<Rightarrow> SeqRange \<Rightarrow> (nat \<times> msgRow) list dbm" where
  "moveRows p h useUID n q =
     (let delta = (if useUID then 0 else int n) in
      readDb p ''Move rows'' (\<lambda>d. filter (inRange useUID (uint (seqMin q) - delta) (rangeMax q - delta)) (seqRows (dhID h) d)))"

definition moveMsg :: "spillLib \<Rightarrow> dbHandle \<Rightarrow> int \<Rightarrow> dbHandle \<Rightarrow> nat \<times> nat \<times> msgRow \<Rightarrow> (u32 \<times> u32 \<times> u32) dbm" where
  "moveMsg p h newModSeq dst x =
     (case x of (seqDelta, n, m) \<Rightarrow>
       bindDb (nextMsgUID p PoolRO (dhID dst))
         (\<lambda>dstUID. bindDb (updateDb p PoolRO ''Move''
               (updateMsg (rwID m) (\<lambda>y. y\<lparr>rwMailbox := Some (dhID dst), rwModSeq := Some newModSeq, rwUID := Some (uint dstUID)\<rparr>)))
           (\<lambda>_. bindDb (bindDb (readDb p ''Move now'' (libNow p))
                 (\<lambda>now. insertRandID p PoolRO ''Move tombstone'' (addMsgRow (tombstone m (dhID h) newModSeq now))))
             (\<lambda>_. okDb (of_nat n - of_nat seqDelta, word_of_int (uidOf m), dstUID)))))"

definition dbMove :: "spillLib \<Rightarrow> dbHandle \<Rightarrow> bool \<Rightarrow> SeqRange list \<Rightarrow> dbHandle \<Rightarrow> (u32 \<times> u32 \<times> u32) dbLog" where
  "dbMove p h useUID sset dst =
     bindLog (readDb p ''Get'' (\<lambda>_. ()))
       (\<lambda>_. saveLog (bindLog (nextMsgModSeq p PoolRO (dhID dst))
         (\<lambda>newModSeq. logRanges (moveRows p h useUID) (moveMsg p h newModSeq dst) 0 sset)))"

subsection \<open>Append\<close>

definition dbAppend :: "dbParams \<Rightarrow> dbHandle \<Rightarrow> bytes list \<Rightarrow> bytes \<Rightarrow> bytes \<Rightarrow> u32 dbm" where
  "dbAppend p h flags dt body =
     (case dpCleave p body of
        Inl e \<Rightarrow> failDb (DbErr e)
      | Inr msg \<Rightarrow>
          (let q = dpLib p;
               msg1 = msg\<lparr>nmMailbox := dhID h, nmDate := dpParseDate p dt, nmFlags := sort (nmFlags msg @ flags)\<rparr> in
           bindDb (InsertMsg q False msg1 0)
             (\<lambda>(done, msg2). if \<not> done then failDb (DbErr ''imapdb: missing message content'')
                else withConn q
                  (bindDb (resultDb q ''Append uid'' (\<lambda>d. map uidOf (filter (\<lambda>m. rwID m = nmID msg2) (dbMsgs d))))
                    (\<lambda>uid. okDb (word_of_int uid))))))"

subsection \<open>The store as the server's data store\<close>

definition onBox :: "int \<Rightarrow> (spillDb \<Rightarrow> 'a \<times> spillDb) \<Rightarrow> dbStore \<Rightarrow> 'a \<times> dbStore" where
  "onBox uid f s = (let (r, d) = f (dsBox s uid) in (r, s\<lparr>dsBox := (dsBox s)(uid := d)\<rparr>))"

definition readBox :: "dbParams \<Rightarrow> int \<Rightarrow> 'a dbm \<Rightarrow> dbStore \<Rightarrow> bytes + 'a" where
  "readBox p uid m s = (case fst (m (dsBox s uid)) of Inl e \<Rightarrow> Inl (libErrText (dpLib p) e) | Inr x \<Rightarrow> Inr x)"

definition runBox :: "dbParams \<Rightarrow> int \<Rightarrow> 'a dbm \<Rightarrow> dbStore \<Rightarrow> (bytes + 'a) \<times> dbStore" where
  "runBox p uid m s = (let (r, s1) = onBox uid m s in (case r of Inl e \<Rightarrow> Inl (libErrText (dpLib p) e) | Inr x \<Rightarrow> Inr x, s1))"

definition errBox :: "dbParams \<Rightarrow> int \<Rightarrow> unit dbm \<Rightarrow> dbStore \<Rightarrow> bytes option \<times> dbStore" where
  "errBox p uid m s = (let (r, s1) = runBox p uid m s in (case r of Inl e \<Rightarrow> Some e | Inr _ \<Rightarrow> None, s1))"

text \<open>An operation that may panic.\<close>

definition goBox :: "dbParams \<Rightarrow> int \<Rightarrow> 'a dbm \<Rightarrow> dbStore \<Rightarrow> (bytes + 'a) go \<times> dbStore" where
  "goBox p uid m s =
     (let (r, s1) = onBox uid m s in
      (case r of Inl (DbPanic e) \<Rightarrow> Panic e | Inl e \<Rightarrow> Ok (Inl (libErrText (dpLib p) e)) | Inr x \<Rightarrow> Ok (Inr x), s1))"

definition renameBox :: "dbParams \<Rightarrow> int \<Rightarrow> bytes \<Rightarrow> bytes \<Rightarrow> dbStore \<Rightarrow> bytes option go \<times> dbStore" where
  "renameBox p uid old new s =
     (let (r, s1) = goBox p uid (dbRename old new) s in
      (case r of Ok (Inl e) \<Rightarrow> Ok (Some e) | Ok (Inr _) \<Rightarrow> Ok None | Panic e \<Rightarrow> Panic e | Fail e \<Rightarrow> Fail e, s1))"

definition logBox :: "dbParams \<Rightarrow> int \<Rightarrow> 'c dbLog \<Rightarrow> dbStore \<Rightarrow> (bytes option \<times> 'c list) \<times> dbStore" where
  "logBox p uid m s = (let ((e, ys), s1) = onBox uid m s in ((map_option (libErrText (dpLib p)) e, ys), s1))"

definition dbBackend :: "dbParams \<Rightarrow> (dbStore, int, dbHandle, dbRef) backend" where
  "dbBackend p =
     (let q = dpLib p in
      \<lparr>beLogin = dbLogin p,
       beMailboxes = (\<lambda>uid. readBox p uid (dbMailboxList q)),
       beMailbox = (\<lambda>uid name s. map_sum id Some (readBox p uid (dbMailbox q uid name) s)),
       beCreate = (\<lambda>uid name attr. errBox p uid (dbCreate q name attr)),
       beDelete = (\<lambda>uid name. errBox p uid (dbDelete q name)),
       beRename = renameBox p,
       beRegister = (\<lambda>uid name dev. errBox p uid (dbRegister q name dev)),
       beCloseSession = (\<lambda>uid s. s),
       beID = dhID,
       beInfo = (\<lambda>h. readBox p (dhUser h) (dbInfo q h)),
       beAppend = (\<lambda>h flags dt body. goBox p (dhUser h) (dbAppend p h flags dt body)),
       beSearch = (\<lambda>h op. readBox p (dhUser h) (dbSearch p h op)),
       beFetch = (\<lambda>h useUID sset changedSince s. fst (logBox p (dhUser h) (dbFetch q h useUID sset changedSince) s)),
       beSummary = drSummary,
       beMessage = (\<lambda>r s. refData p r (dsBox s (dhUser (drHandle r)))),
       beLoadPart = (\<lambda>r i. readBox p (dhUser (drHandle r)) (dbLoadPart q r i)),
       beSetSeen = (\<lambda>r. errBox p (dhUser (drHandle r)) (dbSetSeen q r)),
       beSeenFlags = (\<lambda>r fs s. fs),
       beExpunge = (\<lambda>h uidSeqs s.
         (let (r, s1) = runBox p (dhUser h) (dbExpunge q h uidSeqs) s in (case r of Inl e \<Rightarrow> (Some e, []) | Inr ns \<Rightarrow> (None, ns), s1))),
       beStore = (\<lambda>h useUID sset st. runBox p (dhUser h) (dbStoreFlags q h useUID sset st)),
       beMove = (\<lambda>h useUID sset dst. logBox p (dhUser h) (dbMove q h useUID sset dst)),
       beCopy = (\<lambda>h useUID sset dst. logBox p (dhUser h) (dbCopy q h useUID sset dst)),
       beHighest = (\<lambda>h. readBox p (dhUser h) (dbHighest q h)),
       beClose = (\<lambda>h s. (None, s))\<rparr>)"

end
