(* ===== verification/ImapDbInv.thy ===== *)
theory ImapDbInv
  imports ImapDb
begin

text \<open>
  The invariant of a user's database: IDs are unique, and no UID is given twice in a mailbox as long as its counter has not left the 32 bits
  of a UID. Every operation of the data store keeps it. The collection \<open>quietDb\<close> has what leaves mailboxes and messages alone.
\<close>

subsection \<open>Operations that leave mailboxes and messages alone\<close>

definition coreDb :: "spillDb \<Rightarrow> mailboxRow list \<times> msgRow list" where
  "coreDb d = (dbMailboxes d, dbMsgs d)"

definition quiet :: "'a dbm \<Rightarrow> bool" where
  "quiet m \<longleftrightarrow> (\<forall>d. coreDb (snd (m d)) = coreDb d)"

named_theorems quietDb

lemma quiet_okDb [quietDb]: "quiet (okDb x)"
  by (simp add: quiet_def okDb_def)

lemma quiet_failDb [quietDb]: "quiet (failDb e)"
  by (simp add: quiet_def failDb_def)

lemma quiet_bindDb [quietDb]: "quiet m \<Longrightarrow> (\<And>x. quiet (f x)) \<Longrightarrow> quiet (bindDb m f)"
  by (auto simp: quiet_def bindDb_def split: prod.split sum.split) (metis snd_conv)+

lemma quiet_mapErr [quietDb]: "quiet m \<Longrightarrow> quiet (mapErr g m)"
  by (auto simp: quiet_def mapErr_def split: prod.split sum.split) (metis snd_conv)+

lemma quiet_saveDb [quietDb]: "quiet m \<Longrightarrow> quiet (saveDb m)"
  by (auto simp: quiet_def saveDb_def split: prod.split sum.split) (metis snd_conv)

lemma quiet_dropErr [quietDb]: "quiet m \<Longrightarrow> quiet (dropErr x m)"
  by (auto simp: quiet_def dropErr_def split: prod.split sum.split dbErr.split) (metis snd_conv)+

lemma quiet_eachDb [quietDb]: "(\<And>x. quiet (f x)) \<Longrightarrow> quiet (eachDb f xs)"
  by (induction xs) (auto intro: quietDb)

lemma quiet_readDb [quietDb]: "quiet (readDb p fn q)"
  by (auto simp: quiet_def readDb_def split: option.split)

lemma quiet_resultDb [quietDb]: "quiet (resultDb p fn q)"
  unfolding resultDb_def by (rule quiet_bindDb) (auto intro: quietDb split: list.split)

lemma quiet_writeDb: "(\<And>d x d1. u d = Inr (x, d1) \<Longrightarrow> coreDb d1 = coreDb d) \<Longrightarrow> quiet (writeDb p c fn u)"
  by (auto simp: quiet_def writeDb_def split: option.split sum.split)

lemma quiet_updateDb: "(\<And>d. coreDb (u d) = coreDb d) \<Longrightarrow> quiet (updateDb p c fn u)"
  unfolding updateDb_def by (rule quiet_writeDb) auto

lemma quiet_insertRandID: "(\<And>i d d1. ins i d = Inr d1 \<Longrightarrow> coreDb d1 = coreDb d) \<Longrightarrow> quiet (insertRandID p c fn ins)"
  unfolding insertRandID_def by (rule quiet_writeDb) (auto simp: Let_def split: sum.splits)

lemma quiet_insertOrRand: "(\<And>i d d1. ins i d = Inr d1 \<Longrightarrow> coreDb d1 = coreDb d) \<Longrightarrow> quiet (insertOrRand p fn i ins)"
proof -
  assume i: "\<And>i d d1. ins i d = Inr d1 \<Longrightarrow> coreDb d1 = coreDb d"
  have a: "coreDb (snd (writeDb p PoolRW fn (\<lambda>d. case ins i d of Inl e \<Rightarrow> Inl e | Inr d1 \<Rightarrow> Inr (i, d1)) d)) = coreDb d" for d
    by (rule quiet_writeDb [unfolded quiet_def, rule_format]) (auto simp: i split: sum.splits)
  have b: "coreDb (snd (insertRandID p PoolRW fn ins d)) = coreDb d" for d
    by (rule quiet_insertRandID [unfolded quiet_def, rule_format]) (rule i)
  show ?thesis using a b
    unfolding quiet_def insertOrRand_def by (auto split: prod.split sum.split dbErr.split) (metis snd_conv)+
qed

lemma quiet_withConn [quietDb]: "quiet m \<Longrightarrow> quiet (withConn p m)"
  unfolding withConn_def by (intro quietDb)

lemma quietD: "quiet m \<Longrightarrow> m d = (r, d1) \<Longrightarrow> coreDb d1 = coreDb d"
  by (metis quiet_def snd_conv)

lemma quiet_nextMsgModSeq [quietDb]: "quiet (nextMsgModSeq p c mb)"
  unfolding nextMsgModSeq_def by (intro quietDb quiet_updateDb) (simp add: coreDb_def)

lemma quiet_loads [quietDb]:
  "quiet (loadMsgHdrs p i)" "quiet (loadPartsSummary p i)" "quiet (readMsgPart p j b)" "quiet (loadPartContent p np)"
  "quiet (hasUnsubscribe p fn i)" "quiet (findLabel p name)" "quiet (knownMsg p msg)"
proof -
  show r: "quiet (readMsgPart p j b)" for j b
    unfolding readMsgPart_def by (rule quiet_bindDb) (auto intro: quietDb split: list.split option.split sum.split)
  show "quiet (loadMsgHdrs p i)"
    unfolding loadMsgHdrs_def by (rule quiet_bindDb) (auto intro: quietDb split: sum.split)
  show "quiet (knownMsg p msg)"
    unfolding knownMsg_def by (rule quiet_bindDb) (auto intro: quietDb split: list.split)
  show "quiet (loadPartContent p np)" unfolding loadPartContent_def by (intro quietDb r)
qed (simp_all add: loadPartsSummary_def hasUnsubscribe_def findLabel_def quietDb)

lemma quiet_parts [quietDb]:
  "quiet (insertPartSummary p c i np)" "quiet (fillBlob p j s)" "quiet (insertPart p i np)" "quiet (insertParts p i n nps)"
proof -
  show s: "quiet (insertPartSummary p c i np)" for c i np
    unfolding insertPartSummary_def by (rule quiet_writeDb) (auto simp: coreDb_def split: if_splits)
  show f: "quiet (fillBlob p j s)" for j s
    unfolding fillBlob_def by (rule quiet_writeDb) (auto simp: coreDb_def updateBlob_def split: list.splits option.splits if_splits)
  have b: "quiet (insertRandID p PoolRW fn (insertBlob sha content))" for fn sha content
    by (rule quiet_insertRandID) (auto simp: insertBlob_def coreDb_def split: if_splits)
  have u: "quiet (updateDb p PoolRW fn (updateBlob i g))" for fn i g
    by (rule quiet_updateDb) (simp add: updateBlob_def coreDb_def)
  show n: "quiet (insertPart p i np)" for i np
    unfolding insertPart_def Let_def by (auto intro!: quietDb s f b u split: option.split)
  show "quiet (insertParts p i n nps)" by (induction nps arbitrary: n) (auto intro!: quietDb n)
qed

lemma quiet_resolve [quietDb]: "quiet (resolveAddressID p na v)" "quiet (insertDeliveredTo p a)" "quiet (insertMsgAddr p i j k)"
proof -
  have a: "quiet (insertRandID p c fn (insertAddress contact name addr dflt vis))" for c fn contact name addr dflt vis
    by (rule quiet_insertRandID) (auto simp: insertAddress_def coreDb_def split: if_splits)
  have c: "quiet (insertRandID p c fn insertContact)" for c fn
    by (rule quiet_insertRandID) (auto simp: insertContact_def coreDb_def split: if_splits)
  have f: "quiet (firstContact p fn addr n)" for fn addr n
    unfolding firstContact_def by (auto intro!: quietDb)
  have r: "quiet (resolveInsert p name addr vis dflt n)" for name addr vis dflt n
    unfolding resolveInsert_def Let_def by (auto intro!: quietDb a)
  have v: "quiet (updateDb p PoolRW fn (\<lambda>d. d\<lparr>dbAddresses := g d\<rparr>))" for fn g
    by (rule quiet_updateDb) (simp add: coreDb_def)
  show "quiet (resolveAddressID p na v)"
    unfolding resolveAddressID_def by (auto simp: Let_def intro!: quietDb a c f r v split: prod.split list.split)
  show "quiet (insertDeliveredTo p a)"
    unfolding insertDeliveredTo_def Let_def by (auto intro!: quietDb a)
  show "quiet (insertMsgAddr p i j k)"
    unfolding insertMsgAddr_def by (rule quiet_writeDb) (auto simp: coreDb_def split: if_splits)
qed

lemma quiet_addresses [quietDb]: "quiet (insertAddresses p i hdr)"
proof -
  have r: "quiet (insertRole p i hdr x)" for x
    unfolding insertRole_def Let_def by (auto intro!: quietDb split: sum.split prod.split)
  show ?thesis
    unfolding insertAddresses_def Let_def by (auto intro!: quietDb r split: sum.split prod.split)
qed

lemma quiet_convo [quietDb]: "quiet (newConvo p i)" "quiet (insertHdrs p hdr)"
proof -
  have l: "quiet (assignLabel p i c)" for c
    unfolding assignLabel_def by (auto intro!: quietDb quiet_writeDb simp: coreDb_def split: if_splits)
  have k: "quiet (insertOrRand p fn j (insertConvo s))" for fn j s
    by (rule quiet_insertOrRand) (auto simp: insertConvo_def coreDb_def split: if_splits)
  show "quiet (newConvo p i)"
    unfolding newConvo_def Let_def by (auto intro!: quietDb k l quiet_writeDb simp: coreDb_def split: if_splits)
  show "quiet (insertHdrs p hdr)"
    unfolding insertHdrs_def by (cases "hEncode hdr")
      (auto intro!: quietDb quiet_writeDb simp: coreDb_def insertBlob_def Let_def split: if_splits sum.splits)
qed

subsection \<open>The invariant\<close>

definition boxesOK :: "mailboxRow list \<Rightarrow> bool" where
  "boxesOK bs \<longleftrightarrow> distinct (map mxID bs) \<and> (\<forall>b\<in>set bs. 1 \<le> mxNextUID b)"

text \<open>The UIDs of a mailbox with the counter \<open>mxNextUID\<close>: positive, below the counter, each held by one row only.\<close>

definition counted :: "mailboxRow \<Rightarrow> msgRow list \<Rightarrow> bool" where
  "counted b ms \<longleftrightarrow> mxNextUID b \<le> 2 ^ 32 \<longrightarrow>
     (\<forall>m\<in>set ms. inBox (mxID b) m \<longrightarrow> rwUID m \<noteq> None \<and> 0 < uidOf m \<and> uidOf m < mxNextUID b) \<and>
     (\<forall>m\<in>set ms. \<forall>m'\<in>set ms. inBox (mxID b) m \<longrightarrow> inBox (mxID b) m' \<longrightarrow> uidOf m = uidOf m' \<longrightarrow> rwID m = rwID m')"

definition msgsOK :: "mailboxRow list \<Rightarrow> msgRow list \<Rightarrow> bool" where
  "msgsOK bs ms \<longleftrightarrow> distinct (map rwID ms) \<and> (\<forall>m\<in>set ms. \<forall>mb. inBox mb m \<longrightarrow> mb \<in> mxID ` set bs) \<and> (\<forall>b\<in>set bs. counted b ms)"

definition dbOK :: "spillDb \<Rightarrow> bool" where
  "dbOK d \<longleftrightarrow> boxesOK (dbMailboxes d) \<and> msgsOK (dbMailboxes d) (dbMsgs d)"

lemma dbOK_core: "coreDb d1 = coreDb d \<Longrightarrow> dbOK d1 = dbOK d"
  by (simp add: coreDb_def dbOK_def)

text \<open>The mailboxes may be renamed, their counters may grow, and new ones may come.\<close>

definition boxesGrow :: "mailboxRow list \<Rightarrow> mailboxRow list \<Rightarrow> bool" where
  "boxesGrow bs bs' \<longleftrightarrow> boxesOK bs' \<and> (\<forall>b\<in>set bs. \<exists>b'\<in>set bs'. mxID b' = mxID b \<and> mxNextUID b \<le> mxNextUID b')"

lemma box_unique: "boxesOK bs \<Longrightarrow> b \<in> set bs \<Longrightarrow> b' \<in> set bs \<Longrightarrow> mxID b = mxID b' \<Longrightarrow> b = b'"
  by (auto simp: boxesOK_def distinct_map dest: inj_onD)

lemma countedI:
  assumes "\<And>m. mxNextUID b \<le> 2 ^ 32 \<Longrightarrow> m \<in> set ms \<Longrightarrow> inBox (mxID b) m \<Longrightarrow> rwUID m \<noteq> None \<and> 0 < uidOf m \<and> uidOf m < mxNextUID b"
    and "\<And>m m'. mxNextUID b \<le> 2 ^ 32 \<Longrightarrow> m \<in> set ms \<Longrightarrow> m' \<in> set ms \<Longrightarrow> inBox (mxID b) m \<Longrightarrow> inBox (mxID b) m' \<Longrightarrow>
      uidOf m = uidOf m' \<Longrightarrow> rwID m = rwID m'"
  shows "counted b ms"
  using assms unfolding counted_def by blast

lemma countedD:
  assumes "counted b ms" and "mxNextUID b \<le> 2 ^ 32" and "m \<in> set ms" and "inBox (mxID b) m"
  shows "rwUID m \<noteq> None" and "0 < uidOf m" and "uidOf m < mxNextUID b"
    and "m' \<in> set ms \<Longrightarrow> inBox (mxID b) m' \<Longrightarrow> uidOf m = uidOf m' \<Longrightarrow> rwID m = rwID m'"
  using assms unfolding counted_def by blast+

lemma counted_grow: assumes "counted b ms" and "mxID b = mxID b'" and "mxNextUID b \<le> mxNextUID b'" shows "counted b' ms"
proof (rule countedI)
  assume "mxNextUID b' \<le> 2 ^ 32"
  then have n: "mxNextUID b \<le> 2 ^ 32" using assms(3) by linarith
  note c = countedD [OF assms(1) n, unfolded assms(2)]
  show "rwUID m \<noteq> None \<and> 0 < uidOf m \<and> uidOf m < mxNextUID b'" if "m \<in> set ms" "inBox (mxID b') m" for m
    using c(1-3) [OF that] assms(3) by simp
  show "rwID m = rwID m'" if "m \<in> set ms" "m' \<in> set ms" "inBox (mxID b') m" "inBox (mxID b') m'" "uidOf m = uidOf m'" for m m'
    by (rule c(4)) (use that in simp_all)
qed

lemma msgsOK_grow: assumes "msgsOK bs ms" and "boxesGrow bs bs'" shows "msgsOK bs' ms"
proof -
  have "counted b' ms" if b': "b' \<in> set bs'" for b'
  proof (cases "\<exists>m\<in>set ms. inBox (mxID b') m")
    case True
    then obtain b where b: "b \<in> set bs" "mxID b = mxID b'" using assms(1) by (fastforce simp: msgsOK_def)
    then obtain b2 where "b2 \<in> set bs'" "mxID b2 = mxID b" "mxNextUID b \<le> mxNextUID b2" using assms(2) by (auto simp: boxesGrow_def)
    then have "mxNextUID b \<le> mxNextUID b'" using box_unique [of bs' b2 b'] assms(2) b' b(2) by (auto simp: boxesGrow_def)
    then show ?thesis using assms(1) b counted_grow unfolding msgsOK_def by blast
  qed (auto simp: counted_def)
  moreover have "mxID ` set bs \<subseteq> mxID ` set bs'"
  proof
    fix x assume "x \<in> mxID ` set bs"
    then obtain b where "b \<in> set bs" "x = mxID b" by blast
    then obtain b' where "b' \<in> set bs'" "mxID b' = x" using assms(2) by (auto simp: boxesGrow_def)
    then show "x \<in> mxID ` set bs'" by blast
  qed
  ultimately show ?thesis using assms(1) by (auto simp: msgsOK_def)
qed

lemma boxesGrow_map:
  assumes "boxesOK bs" and "\<And>b. b \<in> set bs \<Longrightarrow> mxID (f b) = mxID b \<and> mxNextUID b \<le> mxNextUID (f b)"
  shows "boxesGrow bs (map f bs)"
proof -
  have "map mxID (map f bs) = map mxID bs" using assms(2) by simp
  then have "boxesOK (map f bs)" using assms unfolding boxesOK_def by (fastforce simp del: map_map)
  then show ?thesis using assms(2) by (auto simp: boxesGrow_def)
qed

text \<open>A row may change in all but its ID, its mailbox and its UID.\<close>

lemma msgsOK_map:
  assumes "msgsOK bs ms" and "\<And>m. m \<in> set ms \<Longrightarrow> rwID (g m) = rwID m"
    and "\<And>m mb. m \<in> set ms \<Longrightarrow> inBox mb (g m) \<Longrightarrow> mb \<in> mxID ` set bs"
    and "\<And>b. b \<in> set bs \<Longrightarrow> counted b (map g ms)"
  shows "msgsOK bs (map g ms)"
proof -
  have "map rwID (map g ms) = map rwID ms" using assms(2) by simp
  moreover have "\<forall>m\<in>set (map g ms). \<forall>mb. inBox mb m \<longrightarrow> mb \<in> mxID ` set bs" using assms(3) by auto
  ultimately show ?thesis using assms(1,4) unfolding msgsOK_def by (simp only:) blast
qed

lemma msgsOK_update:
  assumes "msgsOK bs ms" and "\<And>m. rwID (f m) = rwID m \<and> rwMailbox (f m) = rwMailbox m \<and> rwUID (f m) = rwUID m"
  shows "msgsOK bs (map (\<lambda>m. if rwID m = i then f m else m) ms)"
proof -
  define g where "g = (\<lambda>m. if rwID m = i then f m else m)"
  have g: "rwID (g m) = rwID m" "inBox mb (g m) = inBox mb m" "uidOf (g m) = uidOf m" "rwUID (g m) = rwUID m" for m mb
    using assms(2) by (simp_all add: g_def inBox_def uidOf_def)
  have "msgsOK bs (map g ms)"
  proof (rule msgsOK_map [OF assms(1)])
    fix b assume b: "b \<in> set bs"
    have c: "counted b ms" using assms(1) b by (simp add: msgsOK_def)
    show "counted b (map g ms)"
    proof (rule countedI)
      fix m assume n: "mxNextUID b \<le> 2 ^ 32" and m: "m \<in> set (map g ms)" "inBox (mxID b) m"
      then obtain k where k: "k \<in> set ms" "m = g k" by auto
      show "rwUID m \<noteq> None \<and> 0 < uidOf m \<and> uidOf m < mxNextUID b" using countedD(1-3) [OF c n k(1)] m(2) k(2) g by simp
    next
      fix m m' assume n: "mxNextUID b \<le> 2 ^ 32" and m: "m \<in> set (map g ms)" "m' \<in> set (map g ms)" "inBox (mxID b) m" "inBox (mxID b) m'"
        "uidOf m = uidOf m'"
      then obtain k k' where k: "k \<in> set ms" "m = g k" "k' \<in> set ms" "m' = g k'" by auto
      show "rwID m = rwID m'" using countedD(4) [OF c n k(1) _ k(3)] m(3-5) k(2,4) g by simp
    qed
  qed (use assms(1) g in \<open>auto simp: msgsOK_def\<close>)
  then show ?thesis by (simp add: g_def)
qed

text \<open>A UID that no other row of the mailbox has.\<close>

definition freshUID :: "mailboxRow list \<Rightarrow> msgRow list \<Rightarrow> int \<Rightarrow> int \<Rightarrow> bool" where
  "freshUID bs ms mb uid \<longleftrightarrow> mb \<in> mxID ` set bs \<and>
     (\<forall>b\<in>set bs. mxID b = mb \<longrightarrow> mxNextUID b \<le> 2 ^ 32 \<longrightarrow> 0 < uid \<and> uid < mxNextUID b \<and> (\<forall>m\<in>set ms. inBox mb m \<longrightarrow> uidOf m \<noteq> uid))"

lemma msgsOK_assign:
  assumes "msgsOK bs ms" and "freshUID bs ms mb uid" and "\<And>m. rwID (f m) = rwID m \<and> rwMailbox (f m) = Some mb \<and> rwUID (f m) = Some uid"
  shows "msgsOK bs (map (\<lambda>m. if rwID m = i then f m else m) ms)"
proof -
  define g where "g = (\<lambda>m. if rwID m = i then f m else m)"
  have new: "rwUID (g m) = Some uid" "uidOf (g m) = uid" "inBox x (g m) \<longleftrightarrow> x = mb" if "rwID m = i" for m x
    using that assms(3) by (auto simp: g_def inBox_def uidOf_def)
  have old: "g m = m" if "rwID m \<noteq> i" for m using that by (simp add: g_def)
  have gid: "rwID (g m) = rwID m" for m using assms(3) by (simp add: g_def)
  have "msgsOK bs (map g ms)"
  proof (rule msgsOK_map [OF assms(1) gid])
    show "x \<in> mxID ` set bs" if "m \<in> set ms" "inBox x (g m)" for m x
      using that assms(1,2) new(3) old by (cases "rwID m = i") (auto simp: msgsOK_def freshUID_def)
  next
    fix b assume b: "b \<in> set bs"
    have c: "counted b ms" using assms(1) b by (simp add: msgsOK_def)
    note u = assms(2) [unfolded freshUID_def, THEN conjunct2, rule_format, OF b]
    show "counted b (map g ms)"
    proof (rule countedI)
      fix m assume n: "mxNextUID b \<le> 2 ^ 32" and m: "m \<in> set (map g ms)" "inBox (mxID b) m"
      then obtain k where k: "k \<in> set ms" "m = g k" by auto
      show "rwUID m \<noteq> None \<and> 0 < uidOf m \<and> uidOf m < mxNextUID b"
        using k m(2) new old countedD(1-3) [OF c n k(1)] u [OF _ n] by (cases "rwID k = i") auto
    next
      fix m m' assume n: "mxNextUID b \<le> 2 ^ 32" and m: "m \<in> set (map g ms)" "m' \<in> set (map g ms)" "inBox (mxID b) m" "inBox (mxID b) m'"
        "uidOf m = uidOf m'"
      then obtain k k' where k: "k \<in> set ms" "m = g k" "k' \<in> set ms" "m' = g k'" by auto
      show "rwID m = rwID m'"
      proof -
        have o: "rwID k \<noteq> i \<and> rwID k' \<noteq> i \<Longrightarrow> rwID k = rwID k'" using k m(3-5) old countedD(4) [OF c n k(1) _ k(3)] by simp
        have "rwID k = i \<Longrightarrow> rwID k' \<noteq> i \<Longrightarrow> False" using k m(3-5) new old u [OF _ n] by auto
        moreover have "rwID k \<noteq> i \<Longrightarrow> rwID k' = i \<Longrightarrow> False" using k m(3-5) new old u [OF _ n] by auto
        ultimately show ?thesis using o gid k by metis
      qed
    qed
  qed
  then show ?thesis by (simp add: g_def)
qed

lemma msgsOK_add:
  assumes "msgsOK bs ms" and "rwID m \<notin> rwID ` set ms" and "\<And>mb. rwMailbox m = Some mb \<Longrightarrow> freshUID bs ms mb (uidOf m) \<and> rwUID m \<noteq> None"
  shows "msgsOK bs (ms @ [m])"
proof -
  have "counted b (ms @ [m])" if b: "b \<in> set bs" for b
  proof -
    have c: "counted b ms" using assms(1) b by (simp add: msgsOK_def)
    have u: "rwUID m \<noteq> None \<and> 0 < uidOf m \<and> uidOf m < mxNextUID b \<and> (\<forall>k\<in>set ms. inBox (mxID b) k \<longrightarrow> uidOf k \<noteq> uidOf m)"
      if "inBox (mxID b) m" "mxNextUID b \<le> 2 ^ 32"
      using assms(3) [of "mxID b"] that b by (simp add: inBox_def freshUID_def)
    show ?thesis
    proof (rule countedI)
      fix k assume n: "mxNextUID b \<le> 2 ^ 32" and k: "k \<in> set (ms @ [m])" "inBox (mxID b) k"
      show "rwUID k \<noteq> None \<and> 0 < uidOf k \<and> uidOf k < mxNextUID b"
        using countedD(1-3) [OF c n _ k(2)] u [OF _ n] k by (cases "k = m") auto
    next
      fix k k' assume n: "mxNextUID b \<le> 2 ^ 32" and k: "k \<in> set (ms @ [m])" "k' \<in> set (ms @ [m])" "inBox (mxID b) k" "inBox (mxID b) k'"
        "uidOf k = uidOf k'"
      show "rwID k = rwID k'"
      proof (cases "k = m \<or> k' = m")
        case True
        have "k = k'" if "k = m" using that k(2,4,5) u [OF _ n] k(3) by (metis in_set_conv_decomp insert_iff list.set(2) rotate1.simps(2) set_rotate1)
        moreover have "k = k'" if "k' = m" using that k(1,3,5) u [OF _ n] k(4) by (metis in_set_conv_decomp insert_iff list.set(2) rotate1.simps(2) set_rotate1)
        ultimately show ?thesis using True by blast
      next
        case False
        then show ?thesis using countedD(4) [OF c n _ k(3) _ k(4,5)] k(1,2) by simp
      qed
    qed
  qed
  then show ?thesis using assms by (auto simp: msgsOK_def inBox_def freshUID_def)
qed

subsection \<open>Operations that keep it\<close>

text \<open>From \<open>P\<close> the operation keeps the invariant, and \<open>Q\<close> holds of its result.\<close>

definition keeps :: "(spillDb \<Rightarrow> bool) \<Rightarrow> 'a dbm \<Rightarrow> ('a \<Rightarrow> spillDb \<Rightarrow> bool) \<Rightarrow> bool" where
  "keeps P m Q \<longleftrightarrow> (\<forall>d r d1. P d \<longrightarrow> dbOK d \<longrightarrow> m d = (r, d1) \<longrightarrow> dbOK d1 \<and> (\<forall>x. r = Inr x \<longrightarrow> Q x d1))"

lemma keeps_weaken: "keeps P m Q \<Longrightarrow> (\<And>d. P' d \<Longrightarrow> P d) \<Longrightarrow> (\<And>x d. Q x d \<Longrightarrow> Q' x d) \<Longrightarrow> keeps P' m Q'"
  unfolding keeps_def by blast

lemma keepsD: "keeps P m Q \<Longrightarrow> P d \<Longrightarrow> dbOK d \<Longrightarrow> m d = (r, d1) \<Longrightarrow> dbOK d1" "keeps P m Q \<Longrightarrow> P d \<Longrightarrow> dbOK d \<Longrightarrow> m d = (Inr x, d1) \<Longrightarrow> Q x d1"
  unfolding keeps_def by blast+

lemma keepsI: "(\<And>d r d1. P d \<Longrightarrow> dbOK d \<Longrightarrow> m d = (r, d1) \<Longrightarrow> dbOK d1 \<and> (\<forall>x. r = Inr x \<longrightarrow> Q x d1)) \<Longrightarrow> keeps P m Q"
  unfolding keeps_def by blast

lemma keeps_bind: assumes "keeps P m R" and "\<And>x. keeps (R x) (f x) Q" shows "keeps P (bindDb m f) Q"
proof (rule keepsI)
  fix d r d1 assume p: "P d" "dbOK d" and e: "bindDb m f d = (r, d1)"
  obtain r0 d0 where m: "m d = (r0, d0)" by (metis surj_pair)
  show "dbOK d1 \<and> (\<forall>x. r = Inr x \<longrightarrow> Q x d1)"
  proof (cases r0)
    case (Inl a)
    then have "r = Inl a" "d1 = d0" using e m by (simp_all add: bindDb_def)
    then show ?thesis using keepsD(1) [OF assms(1) p m] by simp
  next
    case (Inr x)
    then have "R x d0" "f x d0 = (r, d1)" using e m keepsD(2) [OF assms(1) p, of x d0] by (simp_all add: bindDb_def)
    then show ?thesis using assms(2) [of x] keepsD(1) [OF assms(1) p m] unfolding keeps_def by blast
  qed
qed

lemma keeps_save: "keeps P m Q \<Longrightarrow> keeps P (saveDb m) Q"
  unfolding keeps_def saveDb_def by (fastforce split: prod.splits sum.splits)

lemma keeps_mapErr: "keeps P m Q \<Longrightarrow> keeps P (mapErr g m) Q"
  unfolding keeps_def mapErr_def by (fastforce split: prod.splits sum.splits)

lemma keeps_quiet: "quiet m \<Longrightarrow> (\<And>d d1. P d \<Longrightarrow> coreDb d1 = coreDb d \<Longrightarrow> Q d1) \<Longrightarrow> keeps P m (\<lambda>_. Q)"
  unfolding keeps_def using quietD dbOK_core by metis

lemma keeps_True: "quiet m \<Longrightarrow> keeps P m (\<lambda>_ _. True)"
  by (rule keeps_quiet) simp_all

lemma keeps_then: "keeps P m (\<lambda>_ _. True) \<Longrightarrow> (\<And>x. keeps (\<lambda>_. True) (f x) (\<lambda>_ _. True)) \<Longrightarrow> keeps P (bindDb m f) (\<lambda>_ _. True)"
  by (rule keeps_bind)

text \<open>The quiet operations that the others are made of.\<close>

lemmas keeps_leaf = keeps_True [OF quiet_okDb] keeps_True [OF quiet_failDb] keeps_True [OF quiet_readDb] keeps_True [OF quiet_resultDb]
  quiet_loads [THEN keeps_True] quiet_parts [THEN keeps_True] quiet_addresses [THEN keeps_True] quiet_convo [THEN keeps_True]
  quiet_nextMsgModSeq [THEN keeps_True] quiet_dropErr [OF quiet_convo(1), THEN keeps_True]

lemma keeps_write:
  assumes "\<And>d x d1. P d \<Longrightarrow> dbOK d \<Longrightarrow> u d = Inr (x, d1) \<Longrightarrow> dbOK d1 \<and> Q x d1"
  shows "keeps P (writeDb p c fn u) Q"
  using assms unfolding keeps_def writeDb_def by (auto split: option.splits sum.splits if_splits)

lemma keeps_update: "(\<And>d. P d \<Longrightarrow> dbOK d \<Longrightarrow> dbOK (u d) \<and> Q () (u d)) \<Longrightarrow> keeps P (updateDb p c fn u) Q"
  unfolding updateDb_def by (rule keeps_write) auto

lemma keeps_rand:
  assumes "\<And>i d d1. P d \<Longrightarrow> dbOK d \<Longrightarrow> ins i d = Inr d1 \<Longrightarrow> dbOK d1 \<and> Q i d1"
  shows "keeps P (insertRandID p c fn ins) Q"
  unfolding insertRandID_def by (rule keeps_write) (use assms in \<open>auto simp: Let_def split: sum.splits\<close>)

lemma keeps_insertOrRand:
  assumes "\<And>i d d1. dbOK d \<Longrightarrow> ins i d = Inr d1 \<Longrightarrow> dbOK d1"
  shows "keeps (\<lambda>_. True) (insertOrRand p fn i ins) (\<lambda>_ _. True)"
proof -
  have a: "keeps (\<lambda>_. True) (writeDb p PoolRW fn (\<lambda>d. case ins i d of Inl e \<Rightarrow> Inl e | Inr d1 \<Rightarrow> Inr (i, d1))) (\<lambda>_ _. True)"
    by (rule keeps_write) (use assms in \<open>auto split: sum.splits\<close>)
  have b: "keeps (\<lambda>_. True) (insertRandID p PoolRW fn ins) (\<lambda>_ _. True)" by (rule keeps_rand) (use assms in auto)
  show ?thesis
  proof (rule keepsI)
    fix d r d1 assume d: "dbOK d" and e: "insertOrRand p fn i ins d = (r, d1)"
    obtain r0 d0 where w: "writeDb p PoolRW fn (\<lambda>d. case ins i d of Inl e \<Rightarrow> Inl e | Inr d1 \<Rightarrow> Inr (i, d1)) d = (r0, d0)" by (metis surj_pair)
    have d0: "dbOK d0" by (rule keepsD(1) [OF a TrueI d w])
    have "dbOK d1"
    proof (cases "r0 = Inl ConstraintPrimaryKey")
      case True
      then show ?thesis using e keepsD(1) [OF b TrueI d0] by (simp add: insertOrRand_def w)
    next
      case False
      then show ?thesis using e d0 by (auto simp: insertOrRand_def w split: sum.splits dbErr.splits)
    qed
    then show "dbOK d1 \<and> (\<forall>x. r = Inr x \<longrightarrow> True)" by simp
  qed
qed

lemma keeps_withConn: "keeps (\<lambda>_. True) m Q \<Longrightarrow> keeps (\<lambda>_. True) (withConn p m) Q"
  unfolding withConn_def by (rule keeps_bind [OF keeps_True]) (auto intro: quietDb)

lemma dbOK_updateMsg:
  "dbOK d \<Longrightarrow> (\<And>m. rwID (f m) = rwID m \<and> rwMailbox (f m) = rwMailbox m \<and> rwUID (f m) = rwUID m) \<Longrightarrow> dbOK (updateMsg i f d)"
  by (simp add: dbOK_def updateMsg_def msgsOK_update)

subsection \<open>UIDs\<close>

definition freshIn :: "int \<Rightarrow> u32 \<Rightarrow> spillDb \<Rightarrow> bool" where
  "freshIn mb uid d \<longleftrightarrow> freshUID (dbMailboxes d) (dbMsgs d) mb (uint uid)"

lemma freshIn_core: "coreDb d1 = coreDb d \<Longrightarrow> freshIn mb uid d1 = freshIn mb uid d"
  by (simp add: coreDb_def freshIn_def)

lemma nextMsgUID_msgs: "nextMsgUID p c mb d = (r, d1) \<Longrightarrow> dbMsgs d1 = dbMsgs d"
  by (auto simp: nextMsgUID_def bindDb_def resultDb_def readDb_def updateDb_def writeDb_def okDb_def failDb_def
      split: option.splits sum.splits prod.splits list.splits if_splits)

lemma nextMsgUID_fresh: "keeps P (nextMsgUID p c mb) (\<lambda>uid d. freshIn mb uid d)"
  unfolding nextMsgUID_def
proof (rule keeps_bind [where R = "\<lambda>n d. \<exists>b\<in>set (dbMailboxes d). mxID b = mb \<and> mxNextUID b = n"])
  show "keeps P (resultDb p ''NextMsgUID'' (\<lambda>d. map mxNextUID (filter (\<lambda>m. mxID m = mb) (dbMailboxes d))))
      (\<lambda>n d. \<exists>b\<in>set (dbMailboxes d). mxID b = mb \<and> mxNextUID b = n)"
  proof -
    have "\<exists>b\<in>set (dbMailboxes d1). mxID b = mb \<and> mxNextUID b = n"
      if "resultDb p ''NextMsgUID'' (\<lambda>d. map mxNextUID (filter (\<lambda>m. mxID m = mb) (dbMailboxes d))) d = (Inr n, d1)" for d n d1
    proof -
      have "map mxNextUID (filter (\<lambda>m. mxID m = mb) (dbMailboxes d)) = [n]" "d1 = d" using that by (simp_all add: resultDb_Inr)
      then have "n \<in> mxNextUID ` set (filter (\<lambda>m. mxID m = mb) (dbMailboxes d))" by (metis list.set_intros(1) list.set_map)
      then show ?thesis using \<open>d1 = d\<close> by auto
    qed
    then show ?thesis
      using quietD [OF quiet_resultDb] dbOK_core unfolding keeps_def by blast
  qed
next
  fix n
  let ?f = "\<lambda>m. if mxID m = mb \<and> mxNextUID m = n then m\<lparr>mxNextUID := n + 1\<rparr> else m"
  show "keeps (\<lambda>d. \<exists>b\<in>set (dbMailboxes d). mxID b = mb \<and> mxNextUID b = n)
      (bindDb (updateDb p c ''NextMsgUID update'' (\<lambda>d. d\<lparr>dbMailboxes := map ?f (dbMailboxes d)\<rparr>)) (\<lambda>_. okDb (word_of_int n)))
      (\<lambda>uid d. freshIn mb uid d)"
  proof (rule keeps_bind [where R = "\<lambda>_ d. freshIn mb (word_of_int n) d"])
    show "keeps (\<lambda>d. \<exists>b\<in>set (dbMailboxes d). mxID b = mb \<and> mxNextUID b = n)
        (updateDb p c ''NextMsgUID update'' (\<lambda>d. d\<lparr>dbMailboxes := map ?f (dbMailboxes d)\<rparr>)) (\<lambda>_ d. freshIn mb (word_of_int n) d)"
    proof (rule keeps_update)
      fix d assume ex: "\<exists>b\<in>set (dbMailboxes d). mxID b = mb \<and> mxNextUID b = n" and ok: "dbOK d"
      obtain b where b: "b \<in> set (dbMailboxes d)" "mxID b = mb" "mxNextUID b = n" using ex by blast
      have bs: "boxesOK (dbMailboxes d)" and ms: "msgsOK (dbMailboxes d) (dbMsgs d)" using ok by (simp_all add: dbOK_def)
      have g: "boxesGrow (dbMailboxes d) (map ?f (dbMailboxes d))" by (rule boxesGrow_map [OF bs]) auto
      have "dbOK (d\<lparr>dbMailboxes := map ?f (dbMailboxes d)\<rparr>)"
        using msgsOK_grow [OF ms g] g by (simp add: dbOK_def boxesGrow_def)
      moreover have "freshIn mb (word_of_int n) (d\<lparr>dbMailboxes := map ?f (dbMailboxes d)\<rparr>)"
      proof -
        have one: "0 < n" using bs b by (auto simp: boxesOK_def)
        have c: "counted b (dbMsgs d)" using ms b(1) by (simp add: msgsOK_def)
        have "0 < uint (word_of_int n :: u32) \<and> uint (word_of_int n :: u32) < mxNextUID b' \<and>
            (\<forall>m\<in>set (dbMsgs d). inBox mb m \<longrightarrow> uidOf m \<noteq> uint (word_of_int n :: u32))"
          if b': "b' \<in> set (map ?f (dbMailboxes d))" "mxID b' = mb" "mxNextUID b' \<le> 2 ^ 32" for b'
        proof -
          obtain b0 where b0: "b0 \<in> set (dbMailboxes d)" "b' = ?f b0" using b'(1) by auto
          then have "mxID b0 = mb" using b'(2) by (simp split: if_splits)
          then have "b0 = b" using box_unique [OF bs b0(1) b(1)] b(2) by simp
          then have n1: "mxNextUID b' = n + 1" using b0(2) b(2,3) by simp
          have u: "uint (word_of_int n :: u32) = n" using one n1 b'(3) by (simp add: uint_word_of_int)
          have n2: "mxNextUID b \<le> 2 ^ 32" using n1 b'(3) b(3) by simp
          show ?thesis using countedD(3) [OF c n2] one n1 b(2,3) unfolding u by fastforce
        qed
        moreover have "mb \<in> mxID ` set (map ?f (dbMailboxes d))" using b(1,2)
          by (intro image_eqI [of _ _ "?f b"]) auto
        moreover have e: "dbMailboxes (d\<lparr>dbMailboxes := bs\<rparr>) = bs" "dbMsgs (d\<lparr>dbMailboxes := bs\<rparr>) = dbMsgs d" for bs by simp_all
        ultimately show ?thesis unfolding freshIn_def freshUID_def e by blast
      qed
      ultimately show "dbOK (d\<lparr>dbMailboxes := map ?f (dbMailboxes d)\<rparr>) \<and>
          freshIn mb (word_of_int n) (d\<lparr>dbMailboxes := map ?f (dbMailboxes d)\<rparr>)" ..
    qed
  qed (auto simp: keeps_def)
qed

subsection \<open>The operations on mailboxes\<close>

lemma keeps_createMailbox: "keeps P (createMailbox p c name attr) (\<lambda>_ _. True)"
proof -
  have i: "dbOK d1" if ok: "dbOK d" and e: "insertMailbox name attr i d = Inr d1" for i d d1
  proof -
    obtain b where b: "i \<notin> mxID ` set (dbMailboxes d)" "d1 = d\<lparr>dbMailboxes := dbMailboxes d @ [b]\<rparr>" "mxID b = i" "mxNextUID b = 1"
      using e by (auto simp: insertMailbox_def Let_def split: if_splits)
    have "boxesGrow (dbMailboxes d) (dbMailboxes d @ [b])" using ok b by (auto simp: dbOK_def boxesGrow_def boxesOK_def)
    then show ?thesis using ok msgsOK_grow unfolding b(2) dbOK_def boxesGrow_def by force
  qed
  have sq: "dbOK (d\<lparr>dbSequencing := x\<rparr>) = dbOK d" for d x by (simp add: dbOK_def)
  show ?thesis unfolding createMailbox_def Let_def
    by (rule keeps_save)
      (auto intro!: keeps_leaf keeps_then keeps_mapErr keeps_rand keeps_update intro: i simp: sq split: option.split)
qed

lemma keeps_deleteMailbox: "keeps P (deleteMailbox p c name) (\<lambda>_ _. True)"
proof -
  have t: "dbOK (fold (\<lambda>m. renameTrigger (mxID m)) ms d)" if "dbOK d" for ms d
    using that
  proof (induction ms arbitrary: d)
    case (Cons m ms)
    have "boxesGrow (dbMailboxes d) (dbMailboxes (renameTrigger (mxID m) d))"
      using Cons.prems unfolding renameTrigger_def by (auto simp: dbOK_def intro!: boxesGrow_map)
    then have "dbOK (renameTrigger (mxID m) d)"
      using Cons.prems msgsOK_grow [of "dbMailboxes d" "dbMsgs d"] by (simp add: dbOK_def boxesGrow_def renameTrigger_def)
    then show ?case using Cons.IH by simp
  qed simp
  have "dbOK d1" if ok: "dbOK d" and e: "deleteRows name d = (n, d1)" for n d d1
  proof -
    let ?f = "\<lambda>m. if mxName m = Some name then m\<lparr>mxDeletedName := mxName m, mxName := None\<rparr> else m"
    have g: "boxesGrow (dbMailboxes d) (map ?f (dbMailboxes d))" using ok by (auto simp: dbOK_def intro!: boxesGrow_map)
    then have "dbOK (d\<lparr>dbMailboxes := map ?f (dbMailboxes d)\<rparr>)" using ok msgsOK_grow [OF _ g] by (simp add: dbOK_def boxesGrow_def)
    then show ?thesis using e t by (auto simp: deleteRows_def Let_def)
  qed
  then show ?thesis unfolding deleteMailbox_def Let_def
    by (auto intro!: keeps_leaf keeps_then keeps_mapErr keeps_write)
qed

subsection \<open>InsertMsg\<close>

lemma keeps_assignMailbox: "keeps P (assignMailbox p i provided) (\<lambda>_ _. True)"
proof -
  have a: "keeps (freshIn mb uid) (updateDb p c fn
      (updateMsg i (\<lambda>m. m\<lparr>rwMailbox := Some mb, rwUID := Some (uint uid), rwModSeq := Some ms\<rparr>))) (\<lambda>_ _. True)" for mb uid ms c fn
    by (rule keeps_update) (auto simp: dbOK_def updateMsg_def freshIn_def intro: msgsOK_assign)
  have n: "keeps (freshIn mb uid) (nextMsgModSeq p c mb') (\<lambda>_. freshIn mb uid)" for mb uid c mb'
    by (rule keeps_quiet [OF quiet_nextMsgModSeq]) (simp add: freshIn_def coreDb_def)
  have u: "keeps (freshIn mb uid) (bindDb (nextMsgModSeq p c mb') (\<lambda>ms. bindDb (updateDb p c fn
      (updateMsg i (\<lambda>m. m\<lparr>rwMailbox := Some mb, rwUID := Some (uint uid), rwModSeq := Some ms\<rparr>))) (\<lambda>_. okDb mb))) (\<lambda>_ _. True)" for mb uid c fn mb'
    by (rule keeps_bind [OF n]) (intro keeps_then a keeps_leaf)
  have s: "keeps (\<lambda>_. True) (if provided \<noteq> 0 then okDb provided else resultDb p fn g) (\<lambda>_ _. True)" for fn g
    by (simp add: keeps_leaf)
  show ?thesis unfolding assignMailbox_def Let_def
    by (rule keeps_then, rule keeps_leaf, rule keeps_then, rule keeps_leaf, rule keeps_then, rule s, rule keeps_bind [OF nextMsgUID_fresh], rule u)
qed

lemma keeps_updateMsg:
  "(\<And>m. rwID (f m) = rwID m \<and> rwMailbox (f m) = rwMailbox m \<and> rwUID (f m) = rwUID m) \<Longrightarrow>
    keeps P (updateDb p c fn (updateMsg i f)) (\<lambda>_ _. True)"
  by (rule keeps_update) (auto intro: dbOK_updateMsg)

lemma keeps_assignConvo: "keeps P (assignConvo p i) (\<lambda>_ _. True)"
  unfolding assignConvo_def
  by (auto intro!: keeps_save keeps_then keeps_updateMsg keeps_leaf split: list.split)

lemma keeps_newMsgRow: "keeps P (newMsgRow p msg staging) (\<lambda>_ _. True)"
proof -
  have "dbOK d1" if "dbOK d" "insertMsgRow msg staging hdrs i d = Inr d1" for hdrs i d d1
    using that unfolding insertMsgRow_def dbOK_def by (auto split: if_splits intro!: msgsOK_add)
  then have r: "keeps (\<lambda>_. True) (insertOrRand p fn j (insertMsgRow msg staging hdrs)) (\<lambda>_ _. True)" for fn j hdrs
    by (rule keeps_insertOrRand)
  have "keeps (\<lambda>_. True) (case extractMsgID (nmRawHash msg) of
      Ok mid0 \<Rightarrow> bindDb (insertOrRand p ''insertMsg'' mid0 (insertMsgRow msg staging hdrs))
        (\<lambda>mid. bindDb (insertAddresses p mid (nmHeaders msg)) (\<lambda>_. okDb mid))
    | Panic m \<Rightarrow> failDb (DbPanic m) | Fail e \<Rightarrow> failDb (DbErr [])) (\<lambda>_ _. True)" for hdrs
    by (auto intro!: keeps_then r keeps_leaf split: go.split)
  then show ?thesis unfolding newMsgRow_def by (intro keeps_then keeps_leaf)
qed

lemma keeps_setMsgFetched: "keeps P (setMsgFetched p i provided) (\<lambda>_ _. True)"
  unfolding setMsgFetched_def
  by (auto intro!: keeps_then keeps_updateMsg keeps_assignMailbox keeps_assignConvo keeps_leaf)

lemma keeps_insertMsg: "keeps P (insertMsg p msg staging) (\<lambda>_ _. True)"
  unfolding insertMsg_def
  by (auto intro!: keeps_save keeps_then keeps_newMsgRow keeps_setMsgFetched keeps_leaf)

lemma keeps_InsertMsg: "keeps P (InsertMsg p notifiers msg staging) (\<lambda>_ _. True)"
  unfolding InsertMsg_def
  by (auto intro!: keeps_then keeps_mapErr keeps_insertMsg keeps_leaf split: prod.split)

lemma keeps_dbAppend: "keeps (\<lambda>_. True) (dbAppend p h flags dt body) (\<lambda>_ _. True)"
  unfolding dbAppend_def Let_def
  by (auto intro!: keeps_then keeps_withConn keeps_InsertMsg keeps_leaf split: sum.split prod.split)

end
