(* ===== verification/ImapDbProps.thy ===== *)
theory ImapDbProps
  imports ImapDbInv
begin

text \<open>
  What the database as the server's data store (\<open>ImapDb\<close>) promises: Expunge and Move as a client replays them, operations that fail change
  nothing, the invariant in every command of the server; and where the code does something else. The data store's contracts
  (\<open>mailbox_found\<close>, \<open>mail_store\<close>, \<open>owned_store\<close>) are interpreted on \<open>dbBackend\<close>.
\<close>

subsection \<open>Rows by number\<close>

lemma replay_filter:
  fixes xs :: "'a list"
  assumes "length pre + length xs < 2 ^ 32"
  shows "fold expungeAt (map (\<lambda>(k, n, x). of_nat n - of_nat k) (enumerate d (filter P (enumerate (length pre + 1 + d) xs)))) (pre @ map f xs) =
    pre @ map (f \<circ> snd) (filter (\<lambda>r. \<not> P r) (enumerate (length pre + 1 + d) xs))"
  using assms
proof (induction xs arbitrary: pre d)
  case (Cons x xs)
  show ?case
  proof (cases "P (length pre + 1 + d, x)")
    case True
    have n: "of_nat (length pre + 1 + d) - of_nat d = (of_nat (length pre + 1) :: u32)" by simp
    have e: "expungeAt (of_nat (length pre + 1)) (pre @ f x # map f xs) = pre @ map f xs" using Cons.prems by (intro expungeAt_mid) simp
    have "length pre + 1 + Suc d = Suc (length pre + 1 + d)" by simp
    then show ?thesis using Cons.IH [of pre "Suc d"] Cons.prems True e by (simp add: n del: of_nat_Suc of_nat_add) (simp add: e [simplified])
  next
    case False
    have "length (pre @ [f x]) + 1 + d = Suc (length pre + 1 + d)" by simp
    then show ?thesis using Cons.IH [of "pre @ [f x]" d] Cons.prems False by simp
  qed
qed simp

lemma enumerate_distinct:
  "distinct (map g xs) \<Longrightarrow> r \<in> set (enumerate n xs) \<Longrightarrow> r' \<in> set (enumerate n xs) \<Longrightarrow> g (snd r) = g (snd r') \<Longrightarrow> r = r'"
proof -
  assume d: "distinct (map g xs)" and r: "r \<in> set (enumerate n xs)" "r' \<in> set (enumerate n xs)" and g: "g (snd r) = g (snd r')"
  have "map (g \<circ> snd) (enumerate n xs) = map g xs" by (metis list.map_comp map_snd_enumerate)
  then have "inj_on (g \<circ> snd) (set (enumerate n xs))" using d by (metis distinct_map)
  then show "r = r'" using r g by (metis comp_apply inj_onD)
qed

lemma filter_enumerate_snd: "map snd (filter (\<lambda>r. Q (snd r)) (enumerate n xs)) = filter Q xs"
proof -
  have "map snd (filter (Q \<circ> snd) (enumerate n xs)) = filter Q (map snd (enumerate n xs))" by (simp only: filter_map)
  then show ?thesis by (simp add: comp_def)
qed

lemma others_remain:
  assumes "distinct (map g xs)"
  shows "map snd (filter (\<lambda>r. \<not> P r) (enumerate n xs)) = filter (\<lambda>m. g m \<notin> g ` snd ` set (filter P (enumerate n xs))) xs"
proof -
  let ?S = "g ` snd ` set (filter P (enumerate n xs))"
  have "filter (\<lambda>r. \<not> P r) (enumerate n xs) = filter (\<lambda>r. g (snd r) \<notin> ?S) (enumerate n xs)"
  proof (rule filter_cong [OF refl])
    fix r assume r: "r \<in> set (enumerate n xs)"
    have "P r" if "g (snd r) \<in> ?S"
    proof -
      obtain r' where r': "r' \<in> set (enumerate n xs)" "P r'" "g (snd r) = g (snd r')" using \<open>g (snd r) \<in> ?S\<close> by auto
      then show "P r" using enumerate_distinct [OF assms r r'(1)] by simp
    qed
    moreover have "g (snd r) \<in> ?S" if "P r" using that r by auto
    ultimately show "(\<not> P r) = (g (snd r) \<notin> ?S)" by blast
  qed
  then show ?thesis using filter_enumerate_snd [of "\<lambda>m. g m \<notin> ?S" n xs] by (simp only:)
qed

lemma readyMsgs_set: "set (readyMsgs mb d) = {m \<in> set (dbMsgs d). inBox mb m \<and> rwState m = MsgReady}"
  by (auto simp: readyMsgs_def)

lemma readyMsgs_ids: "dbOK d \<Longrightarrow> distinct (map rwID (readyMsgs mb d))"
proof -
  assume "dbOK d"
  then have "distinct (map rwID (filter (\<lambda>m. inBox mb m \<and> rwState m = MsgReady) (dbMsgs d)))"
    by (auto simp: dbOK_def msgsOK_def distinct_map_filter)
  moreover have "mset (map rwID (readyMsgs mb d)) = mset (map rwID (filter (\<lambda>m. inBox mb m \<and> rwState m = MsgReady) (dbMsgs d)))"
    by (simp add: readyMsgs_def)
  ultimately show ?thesis by (metis mset_eq_imp_distinct_iff)
qed

text \<open>A mailbox whose counter is a UID has fewer than \<open>2 ^ 32\<close> messages, with different UIDs.\<close>

definition boxBound :: "int \<Rightarrow> spillDb \<Rightarrow> bool" where
  "boxBound mb d \<longleftrightarrow> (\<forall>b\<in>set (dbMailboxes d). mxID b = mb \<longrightarrow> mxNextUID b \<le> 2 ^ 32)"

lemma readyMsgs_uids:
  assumes "dbOK d" and "boxBound mb d"
  shows "distinct (map uidOf (readyMsgs mb d))" and "\<And>m. m \<in> set (readyMsgs mb d) \<Longrightarrow> 0 < uidOf m \<and> uidOf m < 2 ^ 32 \<and> rwUID m \<noteq> None"
proof -
  have b: "\<exists>b\<in>set (dbMailboxes d). mxID b = mb \<and> mxNextUID b \<le> 2 ^ 32 \<and> counted b (dbMsgs d)" if "m \<in> set (readyMsgs mb d)" for m
  proof -
    have "mb \<in> mxID ` set (dbMailboxes d)" using that assms(1) by (auto simp: readyMsgs_set dbOK_def msgsOK_def)
    then obtain b where "b \<in> set (dbMailboxes d)" "mxID b = mb" by blast
    then show ?thesis using assms by (auto simp: dbOK_def msgsOK_def boxBound_def)
  qed
  show "0 < uidOf m \<and> uidOf m < 2 ^ 32 \<and> rwUID m \<noteq> None" if m: "m \<in> set (readyMsgs mb d)" for m
  proof -
    obtain b where b: "mxID b = mb" "mxNextUID b \<le> 2 ^ 32" "counted b (dbMsgs d)" using b [OF m] by blast
    have "m \<in> set (dbMsgs d)" "inBox (mxID b) m" using m b(1) by (simp_all add: readyMsgs_set)
    from countedD(1-3) [OF b(3,2) this] show ?thesis using b(2) by simp
  qed
  show "distinct (map uidOf (readyMsgs mb d))"
  proof (subst distinct_map, intro conjI inj_onI)
    show "distinct (readyMsgs mb d)" using readyMsgs_ids [OF assms(1)] by (simp add: distinct_map)
  next
    fix m m' assume m: "m \<in> set (readyMsgs mb d)" "m' \<in> set (readyMsgs mb d)" "uidOf m = uidOf m'"
    obtain b where b: "mxID b = mb" "mxNextUID b \<le> 2 ^ 32" "counted b (dbMsgs d)" using b [OF m(1)] by blast
    have "rwID m = rwID m'" by (rule countedD(4) [OF b(3,2)]) (use m b(1) in \<open>simp_all add: readyMsgs_set\<close>)
    then show "m = m'" using m(1,2) readyMsgs_ids [OF assms(1), of mb] by (auto simp: distinct_map dest: inj_onD)
  qed
qed

lemma readyMsgs_length: assumes "dbOK d" and "boxBound mb d" shows "length (readyMsgs mb d) < 2 ^ 32"
proof -
  let ?us = "map uidOf (readyMsgs mb d)"
  have "length ?us = card (set ?us)" using readyMsgs_uids(1) [OF assms] by (rule distinct_card [symmetric])
  also have "\<dots> \<le> card {1..<2 ^ 32 :: int}" using readyMsgs_uids(2) [OF assms] by (intro card_mono) force+
  finally show ?thesis by simp
qed

text \<open>A database in which every counter is a UID or one more.\<close>

definition dbGood :: "spillDb \<Rightarrow> bool" where
  "dbGood d \<longleftrightarrow> dbOK d \<and> (\<forall>b\<in>set (dbMailboxes d). mxNextUID b \<le> 2 ^ 32)"

lemma dbGood_D: "dbGood d \<Longrightarrow> dbOK d" "dbGood d \<Longrightarrow> boxBound mb d"
  by (simp_all add: dbGood_def boxBound_def)

definition dbUIDs :: "int \<Rightarrow> spillDb \<Rightarrow> u32 list" where
  "dbUIDs mb d = map (\<lambda>m. word_of_int (uidOf m)) (readyMsgs mb d)"

text \<open>The numbers that a query's rows are reported by when the rows before have gone.\<close>

definition reports :: "nat \<Rightarrow> (nat \<times> msgRow) list \<Rightarrow> u32 list" where
  "reports k rs = map (\<lambda>(k, n, m). of_nat n - of_nat k) (enumerate k rs)"

lemma replay_rows:
  assumes "dbGood d" and "readyMsgs mb d1 = filter (\<lambda>m. rwID m \<notin> rwID ` snd ` set (filter P (seqRows mb d))) (readyMsgs mb d)"
  shows "fold expungeAt (reports 0 (filter P (seqRows mb d))) (dbUIDs mb d) = dbUIDs mb d1"
proof -
  let ?xs = "readyMsgs mb d"
  have l: "length ?xs < 2 ^ 32" using readyMsgs_length dbGood_D [OF assms(1)] by blast
  have "fold expungeAt (reports 0 (filter P (seqRows mb d))) (dbUIDs mb d) =
      map ((\<lambda>m. word_of_int (uidOf m)) \<circ> snd) (filter (\<lambda>r. \<not> P r) (enumerate 1 ?xs))"
    using replay_filter [of "[]" ?xs 0 P "\<lambda>m. word_of_int (uidOf m)"] l by (simp add: reports_def seqRows_def dbUIDs_def)
  also have "\<dots> = map (\<lambda>m. word_of_int (uidOf m)) (map snd (filter (\<lambda>r. \<not> P r) (enumerate 1 ?xs)))" by simp
  also have "\<dots> = dbUIDs mb d1"
    unfolding others_remain [OF readyMsgs_ids [OF dbGood_D(1) [OF assms(1)]]] using assms(2) by (simp only: dbUIDs_def seqRows_def)
  finally show ?thesis .
qed

lemma readyMsgs_subset:
  assumes "filter (\<lambda>m. inBox mb m \<and> rwState m = MsgReady) (dbMsgs d1) =
    filter (\<lambda>m. rwID m \<notin> S) (filter (\<lambda>m. inBox mb m \<and> rwState m = MsgReady) (dbMsgs d))"
  shows "readyMsgs mb d1 = filter (\<lambda>m. rwID m \<notin> S) (readyMsgs mb d)"
  unfolding readyMsgs_def assms by (simp only: filter_sort)

lemma updateMsg_tables:
  "dbMsgs (updateMsg i f d) = map (\<lambda>m. if rwID m = i then f m else m) (dbMsgs d)" "dbMailboxes (updateMsg i f d) = dbMailboxes d"
  by (simp_all add: updateMsg_def)

lemma filter_others: "filter (\<lambda>m. g m \<notin> S) (filter (\<lambda>m. g m \<noteq> i) xs) = filter (\<lambda>m. g m \<notin> insert i S) xs"
  by (induction xs) auto

lemma filter_gone:
  "(\<And>m. rwID m = i \<Longrightarrow> \<not> P (f m)) \<Longrightarrow> filter P (map (\<lambda>m. if rwID m = i then f m else m) ms) = filter (\<lambda>m. rwID m \<noteq> i) (filter P ms)"
  by (induction ms) auto

subsection \<open>Expunge\<close>

lemma expungeRows_effect:
  assumes "expungeRows p k rs d = (Inr ns, d1)"
  shows "ns = reports k rs \<and> dbMailboxes d1 = dbMailboxes d \<and> (dbOK d \<longrightarrow> dbOK d1) \<and>
    filter (\<lambda>m. inBox mb m \<and> rwState m = MsgReady) (dbMsgs d1) =
      filter (\<lambda>m. rwID m \<notin> rwID ` snd ` set rs) (filter (\<lambda>m. inBox mb m \<and> rwState m = MsgReady) (dbMsgs d))"
  using assms
proof (induction rs arbitrary: k d ns)
  case (Cons r rs)
  obtain now ns' where d0: "expungeRows p (k + 1) rs (updateMsg (rwID (snd r)) (expungeRow now) d) = (Inr ns', d1)"
    "ns = (of_nat (fst r) - of_nat k) # ns'"
    using Cons.prems by (auto simp: dbm_Inr)
  let ?d0 = "updateMsg (rwID (snd r)) (expungeRow now) d"
  have f: "filter (\<lambda>m. inBox mb m \<and> rwState m = MsgReady) (dbMsgs ?d0) =
      filter (\<lambda>m. rwID m \<noteq> rwID (snd r)) (filter (\<lambda>m. inBox mb m \<and> rwState m = MsgReady) (dbMsgs d))"
    unfolding updateMsg_tables by (rule filter_gone) (simp add: expungeRow_def MsgExpunged_def MsgReady_def)
  have "dbOK d \<longrightarrow> dbOK ?d0" by (auto intro: dbOK_updateMsg simp: expungeRow_def)
  moreover have "reports k (r # rs) = (of_nat (fst r) - of_nat k) # reports (k + 1) rs" by (cases r) (simp add: reports_def)
  moreover have "rwID ` snd ` set (r # rs) = insert (rwID (snd r)) (rwID ` snd ` set rs)" by simp
  moreover note ih = Cons.IH [OF d0(1)]
  moreover have "filter (\<lambda>m. inBox mb m \<and> rwState m = MsgReady) (dbMsgs d1) =
      filter (\<lambda>m. rwID m \<notin> insert (rwID (snd r)) (rwID ` snd ` set rs)) (filter (\<lambda>m. inBox mb m \<and> rwState m = MsgReady) (dbMsgs d))"
    using ih unfolding f filter_others by blast
  ultimately show ?case using d0(2) by (simp only: updateMsg_tables) blast
qed (simp_all add: reports_def)

lemma dbExpunge_effect:
  assumes "dbExpunge p h q d = (Inr ns, d1)"
  shows "ns = reports 0 (filter (toExpunge q) (seqRows (dhID h) d)) \<and> dbMailboxes d1 = dbMailboxes d \<and> (dbOK d \<longrightarrow> dbOK d1) \<and>
    readyMsgs (dhID h) d1 = filter (\<lambda>m. rwID m \<notin> rwID ` snd ` set (filter (toExpunge q) (seqRows (dhID h) d))) (readyMsgs (dhID h) d)"
proof -
  have "withConn p (saveDb (bindDb (readDb p ''Expunge count'' (\<lambda>d. length (filter (toExpunge None) (seqRows (dhID h) d))))
      (\<lambda>count. if count = 0 then okDb [] else bindDb (readDb p ''Expunge'' (\<lambda>d. filter (toExpunge q) (seqRows (dhID h) d)))
        (\<lambda>rs. expungeRows p 0 rs)))) d = (Inr ns, d1)" using assms by (simp add: dbExpunge_def)
  then consider "filter (toExpunge None) (seqRows (dhID h) d) = []" "ns = []" "d1 = d"
    | "expungeRows p 0 (filter (toExpunge q) (seqRows (dhID h) d)) d = (Inr ns, d1)"
    by (auto simp: withConn_Inr dbm_Inr split: if_splits)
  then show ?thesis
  proof cases
    case 1
    have "\<not> toExpunge q r" if "r \<in> set (seqRows (dhID h) d)" for r
      using 1(1) that by (auto simp: toExpunge_def filter_empty_conv split: option.splits)
    then have "filter (toExpunge q) (seqRows (dhID h) d) = []" by (simp add: filter_empty_conv)
    then show ?thesis using 1(2,3) by (simp add: reports_def)
  next
    case 2
    from expungeRows_effect [OF this, of "dhID h"] show ?thesis by (auto intro!: readyMsgs_subset)
  qed
qed

subsection \<open>Move\<close>

lemma nextMsgUID_effect:
  assumes "nextMsgUID p c mb d = (Inr uid, d1)"
  shows "dbMsgs d1 = dbMsgs d \<and> (\<exists>f. dbMailboxes d1 = map f (dbMailboxes d) \<and>
    (\<forall>b. mxID (f b) = mxID b \<and> mxNextUID (f b) \<le> mxNextUID b + (if mxID b = mb then 1 else 0)))"
proof -
  obtain n where "d1 = d\<lparr>dbMailboxes := map (\<lambda>m. if mxID m = mb \<and> mxNextUID m = n then m\<lparr>mxNextUID := n + 1\<rparr> else m) (dbMailboxes d)\<rparr>"
    using assms by (auto simp: nextMsgUID_def dbm_Inr)
  then show ?thesis by (intro conjI exI [of _ "\<lambda>m. if mxID m = mb \<and> mxNextUID m = n then m\<lparr>mxNextUID := n + 1\<rparr> else m"]) auto
qed

lemma tombstone_fresh:
  assumes ok: "dbOK d" and m: "m \<in> set (dbMsgs d)" "inBox mb m" and f: "freshIn dst uid d"
    and g: "\<And>x. rwID (g x) = rwID x \<and> rwMailbox (g x) = Some dst \<and> rwUID (g x) = Some (uint uid)"
  shows "freshUID (dbMailboxes d) (map (\<lambda>x. if rwID x = rwID m then g x else x) (dbMsgs d)) mb (uint (word_of_int (uidOf m) :: u32))"
proof -
  have bs: "boxesOK (dbMailboxes d)" and ms: "msgsOK (dbMailboxes d) (dbMsgs d)" using ok by (simp_all add: dbOK_def)
  have "mb \<in> mxID ` set (dbMailboxes d)" using ms m by (auto simp: msgsOK_def)
  moreover have "0 < uint (word_of_int (uidOf m) :: u32) \<and> uint (word_of_int (uidOf m) :: u32) < mxNextUID b \<and>
      (\<forall>k\<in>set (map (\<lambda>x. if rwID x = rwID m then g x else x) (dbMsgs d)). inBox mb k \<longrightarrow> uidOf k \<noteq> uint (word_of_int (uidOf m) :: u32))"
    if b: "b \<in> set (dbMailboxes d)" "mxID b = mb" "mxNextUID b \<le> 2 ^ 32" for b
  proof -
    have c: "counted b (dbMsgs d)" using ms b(1) by (simp add: msgsOK_def)
    note cd = countedD [OF c b(3) m(1), unfolded b(2), OF m(2)]
    have u: "uint (word_of_int (uidOf m) :: u32) = uidOf m" using cd(2,3) b(3) by (simp add: uint_word_of_int)
    have "uidOf k \<noteq> uidOf m" if k: "k \<in> set (map (\<lambda>x. if rwID x = rwID m then g x else x) (dbMsgs d))" "inBox mb k" for k
    proof -
      obtain x where x: "x \<in> set (dbMsgs d)" "k = (if rwID x = rwID m then g x else x)" using k(1) by auto
      show ?thesis
      proof (cases "rwID x = rwID m")
        case True
        then have "dst = mb" "uidOf k = uint uid" using x(2) k(2) g by (auto simp: inBox_def uidOf_def)
        then show ?thesis using f b m unfolding freshIn_def freshUID_def by metis
      next
        case False
        then show ?thesis using x k(2) cd(4) [of x] by auto
      qed
    qed
    then show ?thesis using cd(2,3) unfolding u by blast
  qed
  ultimately show ?thesis unfolding freshUID_def by blast
qed

lemma moveMsg_effect:
  assumes ok: "dbOK d" and m: "m \<in> set (dbMsgs d)" "inBox (dhID h) m" and e: "moveMsg p h ms dst (k, n, m) d = (Inr y, d1)"
  shows "dbOK d1 \<and> fst y = of_nat n - of_nat k \<and> fst (snd y) = word_of_int (uidOf m) \<and>
    (\<forall>x\<in>set (dbMsgs d). rwID x \<noteq> rwID m \<longrightarrow> x \<in> set (dbMsgs d1)) \<and>
    (dhID dst \<noteq> dhID h \<longrightarrow> filter (\<lambda>m. inBox (dhID h) m \<and> rwState m = MsgReady) (dbMsgs d1) =
       filter (\<lambda>x. rwID x \<noteq> rwID m) (filter (\<lambda>m. inBox (dhID h) m \<and> rwState m = MsgReady) (dbMsgs d))) \<and>
    (\<exists>f. dbMailboxes d1 = map f (dbMailboxes d) \<and>
      (\<forall>b. mxID (f b) = mxID b \<and> mxNextUID (f b) \<le> mxNextUID b + (if mxID b = dhID dst then 1 else 0)))"
proof -
  define g where "g = (\<lambda>uid y. y\<lparr>rwMailbox := Some (dhID dst), rwModSeq := Some ms, rwUID := Some (uint (uid :: u32))\<rparr> :: msgRow)"
  obtain uid d0 i now dA where r: "nextMsgUID p PoolRO (dhID dst) d = (Inr uid, d0)" "dA = updateMsg (rwID m) (g uid) d0"
    "i \<notin> rwID ` set (dbMsgs dA)"
    "d1 = dA\<lparr>dbMsgs := dbMsgs dA @ [(tombstone m (dhID h) ms now i)\<lparr>rwID := i\<rparr>]\<rparr>" "y = (of_nat n - of_nat k, word_of_int (uidOf m), uid)"
    using e by (auto simp: moveMsg_def dbm_Inr addMsgRow_def g_def split: if_splits)
  note n0 = nextMsgUID_effect [OF r(1)]
  have ok0: "dbOK d0" and fr: "freshIn (dhID dst) uid d0"
    using keepsD [OF nextMsgUID_fresh [of "\<lambda>_. True"] TrueI ok r(1)] by simp_all
  have g: "rwID (g uid x) = rwID x \<and> rwMailbox (g uid x) = Some (dhID dst) \<and> rwUID (g uid x) = Some (uint uid)" for x by (simp add: g_def)
  have A: "dbMsgs dA = map (\<lambda>x. if rwID x = rwID m then g uid x else x) (dbMsgs d)" "dbMailboxes dA = dbMailboxes d0"
    using n0 by (simp_all add: r(2) updateMsg_tables)
  have okA: "dbOK dA" using ok0 fr g n0 unfolding dbOK_def A freshIn_def by (auto intro!: msgsOK_assign)
  have t: "freshUID (dbMailboxes dA) (dbMsgs dA) (dhID h) (uint (word_of_int (uidOf m) :: u32))"
    using tombstone_fresh [OF ok0 _ m(2) fr, of "g uid"] g m(1) n0 unfolding A by simp
  have "dbOK d1"
    using okA t r(3) unfolding r(4) dbOK_def by (auto simp: tombstone_def uidOf_def intro!: msgsOK_add)
  moreover have "\<forall>x\<in>set (dbMsgs d). rwID x \<noteq> rwID m \<longrightarrow> x \<in> set (dbMsgs d1)" unfolding r(4) A by auto
  moreover have "filter (\<lambda>m. inBox (dhID h) m \<and> rwState m = MsgReady) (dbMsgs d1) =
      filter (\<lambda>x. rwID x \<noteq> rwID m) (filter (\<lambda>m. inBox (dhID h) m \<and> rwState m = MsgReady) (dbMsgs d))" if "dhID dst \<noteq> dhID h"
  proof -
    have "filter (\<lambda>m. inBox (dhID h) m \<and> rwState m = MsgReady) (dbMsgs d1) = filter (\<lambda>m. inBox (dhID h) m \<and> rwState m = MsgReady) (dbMsgs dA)"
      unfolding r(4) by (simp add: tombstone_def MsgExpunged_def MsgReady_def)
    also have "\<dots> = filter (\<lambda>x. rwID x \<noteq> rwID m) (filter (\<lambda>m. inBox (dhID h) m \<and> rwState m = MsgReady) (dbMsgs d))"
      unfolding A by (rule filter_gone) (use that in \<open>simp add: g_def inBox_def\<close>)
    finally show ?thesis .
  qed
  ultimately show ?thesis using n0 r(5) A(2) unfolding r(4) by simp
qed

definition movable :: "dbHandle \<Rightarrow> (nat \<times> msgRow) list \<Rightarrow> spillDb \<Rightarrow> bool" where
  "movable h rows d \<longleftrightarrow> distinct (map (rwID \<circ> snd) rows) \<and> (\<forall>m\<in>snd ` set rows. m \<in> set (dbMsgs d) \<and> inBox (dhID h) m \<and> rwState m = MsgReady)"

lemma logEach_Cons_None:
  "logEach f (x # xs) d = ((None, zs), d2) \<longleftrightarrow> (\<exists>y d1 ys. f x d = (Inr y, d1) \<and> logEach f xs d1 = ((None, ys), d2) \<and> zs = y # ys)"
  by (auto simp: Let_def split: prod.splits sum.splits)

lemma movable_step:
  assumes "movable h ((n, m) # rows) d" and "\<forall>x\<in>set (dbMsgs d). rwID x \<noteq> rwID m \<longrightarrow> x \<in> set (dbMsgs d1)"
  shows "movable h rows d1"
proof -
  have "m' \<in> set (dbMsgs d1)" if m': "m' \<in> snd ` set rows" for m'
  proof -
    obtain x where "x \<in> set rows" "m' = snd x" using m' by blast
    then have "rwID m' \<in> (rwID \<circ> snd) ` set rows" by simp
    moreover have "rwID m \<notin> (rwID \<circ> snd) ` set rows" using assms(1) by (simp add: movable_def)
    ultimately have "rwID m' \<noteq> rwID m" by metis
    then show ?thesis using m' assms by (auto simp: movable_def)
  qed
  then show ?thesis using assms(1) by (simp add: movable_def)
qed

lemma moveEach_OK:
  assumes "dbOK d" and "movable h rows d" and "logEach (moveMsg p h ms dst) (enumerate k rows) d = ((None, ys), d1)"
  shows "dbOK d1 \<and> map fst ys = reports k rows"
  using assms
proof (induction rows arbitrary: k d ys)
  case (Cons r rows)
  obtain n m where r: "r = (n, m)" by (cases r)
  obtain y d0 ys' where e: "moveMsg p h ms dst (k, n, m) d = (Inr y, d0)"
    "logEach (moveMsg p h ms dst) (enumerate (Suc k) rows) d0 = ((None, ys'), d1)" "ys = y # ys'"
    using Cons.prems(3) unfolding r enumerate_simps logEach_Cons_None by (elim exE conjE) (rule that)
  have m: "m \<in> set (dbMsgs d)" "inBox (dhID h) m" using Cons.prems(2) by (simp_all add: r movable_def)
  note eff = moveMsg_effect [OF Cons.prems(1) m e(1)]
  have "movable h rows d0" by (rule movable_step [OF Cons.prems(2) [unfolded r]]) (use eff in simp)
  then show ?case using Cons.IH [OF _ _ e(2)] eff e(3) by (simp add: reports_def r)
qed (simp add: reports_def)

definition roomFor :: "int \<Rightarrow> int \<Rightarrow> spillDb \<Rightarrow> bool" where
  "roomFor dst mb d \<longleftrightarrow> (\<forall>b\<in>set (dbMailboxes d). mxID b = dst \<longrightarrow> mxNextUID b + int (length (readyMsgs mb d)) \<le> 2 ^ 32)"

lemma length_filter_one: "distinct (map f xs) \<Longrightarrow> x \<in> set xs \<Longrightarrow> Suc (length (filter (\<lambda>y. f y \<noteq> f x) xs)) = length xs"
proof (induction xs)
  case (Cons a xs)
  show ?case
  proof (cases "a = x")
    case True
    then have "filter (\<lambda>y. f y \<noteq> f x) xs = xs" using Cons.prems(1) by (auto simp: filter_id_conv) (metis imageI)
    then show ?thesis using True by simp
  next
    case False
    then have "f a \<noteq> f x" using Cons.prems by auto
    then show ?thesis using Cons False by simp
  qed
qed simp

lemma moveMsg_room:
  assumes good: "dbGood d" "roomFor (dhID dst) (dhID h) d" "dhID dst \<noteq> dhID h"
    and m: "m \<in> set (dbMsgs d)" "inBox (dhID h) m" "rwState m = MsgReady"
    and e: "moveMsg p h ms dst (k, n, m) d = (Inr y, d1)"
  shows "dbGood d1 \<and> roomFor (dhID dst) (dhID h) d1 \<and> readyMsgs (dhID h) d1 = filter (\<lambda>x. rwID x \<noteq> rwID m) (readyMsgs (dhID h) d)"
proof -
  note eff = moveMsg_effect [OF dbGood_D(1) [OF good(1)] m(1,2) e]
  have r: "readyMsgs (dhID h) d1 = filter (\<lambda>x. rwID x \<noteq> rwID m) (readyMsgs (dhID h) d)"
    using readyMsgs_subset [of "dhID h" d1 "{rwID m}" d, unfolded singleton_iff,
        OF eff [THEN conjunct2, THEN conjunct2, THEN conjunct2, THEN conjunct2, THEN conjunct1, rule_format, OF good(3)]] .
  have "m \<in> set (readyMsgs (dhID h) d)" using m by (simp add: readyMsgs_set)
  then have l: "Suc (length (readyMsgs (dhID h) d1)) = length (readyMsgs (dhID h) d)"
    unfolding r by (rule length_filter_one [OF readyMsgs_ids [OF dbGood_D(1) [OF good(1)]]])
  obtain f where f: "dbMailboxes d1 = map f (dbMailboxes d)"
    "\<And>b. mxID (f b) = mxID b \<and> mxNextUID (f b) \<le> mxNextUID b + (if mxID b = dhID dst then 1 else 0)"
    using eff [THEN conjunct2, THEN conjunct2, THEN conjunct2, THEN conjunct2, THEN conjunct2] by (elim conjE exE) (rule that; blast)
  have "mxNextUID b' \<le> 2 ^ 32 \<and> (mxID b' = dhID dst \<longrightarrow> mxNextUID b' + int (length (readyMsgs (dhID h) d1)) \<le> 2 ^ 32)"
    if b': "b' \<in> set (dbMailboxes d1)" for b'
  proof -
    obtain b where b: "b \<in> set (dbMailboxes d)" "b' = f b" using b' f(1) by auto
    have "mxNextUID b \<le> 2 ^ 32" using good(1) b(1) by (simp add: dbGood_def)
    moreover have "mxID b = dhID dst \<Longrightarrow> mxNextUID b + int (length (readyMsgs (dhID h) d)) \<le> 2 ^ 32" using good(2) b(1) by (simp add: roomFor_def)
    ultimately show ?thesis using f(2) [of b] l b(2) by (auto split: if_splits)
  qed
  then show ?thesis using eff r by (simp add: dbGood_def roomFor_def)
qed

lemma moveEach_room:
  assumes "dbGood d" and "roomFor (dhID dst) (dhID h) d" and "dhID dst \<noteq> dhID h" and "movable h rows d"
    and "logEach (moveMsg p h ms dst) (enumerate k rows) d = ((None, ys), d1)"
  shows "dbGood d1 \<and> roomFor (dhID dst) (dhID h) d1 \<and>
    readyMsgs (dhID h) d1 = filter (\<lambda>x. rwID x \<notin> rwID ` snd ` set rows) (readyMsgs (dhID h) d)"
  using assms
proof (induction rows arbitrary: k d ys)
  case (Cons r rows)
  obtain n m where r: "r = (n, m)" by (cases r)
  obtain y d0 ys' where e: "moveMsg p h ms dst (k, n, m) d = (Inr y, d0)"
    "logEach (moveMsg p h ms dst) (enumerate (Suc k) rows) d0 = ((None, ys'), d1)"
    using Cons.prems(5) unfolding r enumerate_simps logEach_Cons_None by (elim exE conjE) (rule that)
  have m: "m \<in> set (dbMsgs d)" "inBox (dhID h) m" "rwState m = MsgReady" using Cons.prems(4) by (simp_all add: r movable_def)
  note eff = moveMsg_effect [OF dbGood_D(1) [OF Cons.prems(1)] m(1,2) e(1)]
  note rm = moveMsg_room [OF Cons.prems(1-3) m e(1)]
  have "movable h rows d0" by (rule movable_step [OF Cons.prems(4) [unfolded r]]) (use eff in simp)
  then have "dbGood d1 \<and> roomFor (dhID dst) (dhID h) d1 \<and>
      readyMsgs (dhID h) d1 = filter (\<lambda>x. rwID x \<notin> rwID ` snd ` set rows) (readyMsgs (dhID h) d0)"
    using Cons.IH [OF _ _ Cons.prems(3) _ e(2)] rm by blast
  then show ?case using rm filter_others [of rwID "rwID ` snd ` set rows" "rwID m"] by (simp add: r del: filter_filter)
qed simp

lemma selected_movable: "dbOK d \<Longrightarrow> movable h (filter P (seqRows (dhID h) d)) d"
proof -
  assume ok: "dbOK d"
  have "distinct (map (rwID \<circ> snd) (seqRows (dhID h) d))"
    using readyMsgs_ids [OF ok] by (metis list.map_comp map_snd_enumerate seqRows_def)
  then have "distinct (map (rwID \<circ> snd) (filter P (seqRows (dhID h) d)))" by (rule distinct_map_filter)
  moreover have "snd ` set (seqRows (dhID h) d) = set (readyMsgs (dhID h) d)"
    by (metis list.set_map map_snd_enumerate seqRows_def)
  then have "snd r \<in> set (readyMsgs (dhID h) d)" if "r \<in> set (seqRows (dhID h) d)" for r using that by blast
  ultimately show ?thesis by (auto simp: movable_def readyMsgs_set)
qed

lemma logRanges_Cons_None:
  "logRanges sel f n (q # qs) d = ((None, zs), d3) \<longleftrightarrow> (\<exists>rows d1 ys d2 us. sel n q d = (Inr rows, d1) \<and>
     logEach f (enumerate 0 rows) d1 = ((None, ys), d2) \<and> logRanges sel f (n + length ys) qs d2 = ((None, us), d3) \<and> zs = ys @ us)"
  by (auto simp: Let_def split: prod.splits sum.splits option.splits)

lemma moveRows_Inr:
  "moveRows p h useUID n q d = (Inr rows, d1) \<Longrightarrow> d1 = d \<and> (\<exists>P. rows = filter P (seqRows (dhID h) d))"
  by (auto simp: moveRows_def readDb_Inr Let_def)

lemma moveRanges_OK:
  assumes "dbOK d" and "logRanges (moveRows p h useUID) (moveMsg p h ms dst) n qs d = ((None, zs), d1)"
  shows "dbOK d1"
  using assms
proof (induction qs arbitrary: n d zs)
  case (Cons q qs)
  obtain rows d0 ys d2 us where e: "moveRows p h useUID n q d = (Inr rows, d0)"
    "logEach (moveMsg p h ms dst) (enumerate 0 rows) d0 = ((None, ys), d2)"
    "logRanges (moveRows p h useUID) (moveMsg p h ms dst) (n + length ys) qs d2 = ((None, us), d1)"
    using Cons.prems(2) unfolding logRanges_Cons_None by (elim exE conjE) (rule that)
  obtain P where P: "d0 = d" "rows = filter P (seqRows (dhID h) d)" using moveRows_Inr [OF e(1)] by blast
  have "dbOK d2" using moveEach_OK [OF Cons.prems(1) _ e(2) [unfolded P(1)]] selected_movable [OF Cons.prems(1)] P(2) by simp
  then show ?case by (rule Cons.IH [OF _ e(3)])
qed simp

lemma moveRanges_replay:
  assumes "dbGood d" and "roomFor (dhID dst) (dhID h) d" and "dhID dst \<noteq> dhID h"
    and "logRanges (moveRows p h useUID) (moveMsg p h ms dst) n qs d = ((None, zs), d1)"
  shows "dbGood d1 \<and> fold expungeAt (map fst zs) (dbUIDs (dhID h) d) = dbUIDs (dhID h) d1"
  using assms
proof (induction qs arbitrary: n d zs)
  case (Cons q qs)
  obtain rows d0 ys d2 us where e: "moveRows p h useUID n q d = (Inr rows, d0)"
    "logEach (moveMsg p h ms dst) (enumerate 0 rows) d0 = ((None, ys), d2)"
    "logRanges (moveRows p h useUID) (moveMsg p h ms dst) (n + length ys) qs d2 = ((None, us), d1)" "zs = ys @ us"
    using Cons.prems(4) unfolding logRanges_Cons_None by (elim exE conjE) (rule that)
  obtain P where P: "d0 = d" "rows = filter P (seqRows (dhID h) d)" using moveRows_Inr [OF e(1)] by blast
  note mv = selected_movable [OF dbGood_D(1) [OF Cons.prems(1)], of h P, folded P(2)]
  have y: "map fst ys = reports 0 rows" using moveEach_OK [OF dbGood_D(1) [OF Cons.prems(1)] mv e(2) [unfolded P(1)]] by simp
  have g: "dbGood d2" "roomFor (dhID dst) (dhID h) d2"
    "readyMsgs (dhID h) d2 = filter (\<lambda>x. rwID x \<notin> rwID ` snd ` set rows) (readyMsgs (dhID h) d)"
    using moveEach_room [OF Cons.prems(1-3) mv e(2) [unfolded P(1)]] by simp_all
  have "fold expungeAt (map fst ys) (dbUIDs (dhID h) d) = dbUIDs (dhID h) d2"
    using replay_rows [OF Cons.prems(1), of "dhID h" d2 P] g(3) unfolding y P(2) by blast
  then show ?case using Cons.IH [OF g(1,2) Cons.prems(3) e(3)] e(4) by simp
qed simp

lemma dbMove_None:
  "dbMove p h useUID sset dst d = ((None, zs), d1) \<Longrightarrow> \<exists>ms d0. nextMsgModSeq p PoolRO (dhID dst) d = (Inr ms, d0) \<and>
    logRanges (moveRows p h useUID) (moveMsg p h ms dst) 0 sset d0 = ((None, zs), d1)"
  by (auto simp: dbMove_def bindLog_def saveLog_def readDb_def split: prod.splits sum.splits option.splits)

lemma log_failed: "fst (fst (bindLog (readDb p fn q) (\<lambda>x. saveLog (f x)) d)) = Some e \<Longrightarrow> snd (bindLog (readDb p fn q) (\<lambda>x. saveLog (f x)) d) = d"
  by (auto simp: bindLog_def saveLog_def readDb_def split: prod.splits sum.splits option.splits)

lemma core_good:
  assumes "coreDb d1 = coreDb d"
  shows "dbGood d1 = dbGood d" and "readyMsgs mb d1 = readyMsgs mb d" and "dbUIDs mb d1 = dbUIDs mb d" and "roomFor i mb d1 = roomFor i mb d"
proof -
  have c: "dbMailboxes d1 = dbMailboxes d" "dbMsgs d1 = dbMsgs d" using assms by (simp_all add: coreDb_def)
  show r: "readyMsgs mb d1 = readyMsgs mb d" by (simp add: readyMsgs_def c)
  show "dbGood d1 = dbGood d" by (simp add: dbGood_def dbOK_def c)
  show "dbUIDs mb d1 = dbUIDs mb d" by (simp add: dbUIDs_def r)
  show "roomFor i mb d1 = roomFor i mb d" by (simp add: roomFor_def r c)
qed

lemma dbMove_OK: "dbOK d \<Longrightarrow> dbOK (snd (dbMove p h useUID sset dst d))"
proof (cases "fst (fst (dbMove p h useUID sset dst d))")
  case None
  assume ok: "dbOK d"
  obtain zs d1 where e: "dbMove p h useUID sset dst d = ((None, zs), d1)" using None by (metis prod.collapse)
  obtain ms d0 where d0: "nextMsgModSeq p PoolRO (dhID dst) d = (Inr ms, d0)"
    "logRanges (moveRows p h useUID) (moveMsg p h ms dst) 0 sset d0 = ((None, zs), d1)" using dbMove_None [OF e] by blast
  have "dbOK d0" using ok dbOK_core [OF quietD [OF quiet_nextMsgModSeq d0(1)]] by simp
  then show ?thesis using moveRanges_OK [OF _ d0(2)] e by simp
next
  case (Some e)
  assume "dbOK d"
  moreover have "snd (dbMove p h useUID sset dst d) = d"
    unfolding dbMove_def by (rule log_failed [OF Some [unfolded dbMove_def]])
  ultimately show ?thesis by simp
qed

lemma dbMove_replay:
  assumes "dbGood d" and "roomFor (dhID dst) (dhID h) d" and "dhID dst \<noteq> dhID h" and "dbMove p h useUID sset dst d = ((None, zs), d1)"
  shows "dbGood d1 \<and> fold expungeAt (map fst zs) (dbUIDs (dhID h) d) = dbUIDs (dhID h) d1"
proof -
  obtain ms d0 where d0: "nextMsgModSeq p PoolRO (dhID dst) d = (Inr ms, d0)"
    "logRanges (moveRows p h useUID) (moveMsg p h ms dst) 0 sset d0 = ((None, zs), d1)" using dbMove_None [OF assms(4)] by blast
  note c = core_good [OF quietD [OF quiet_nextMsgModSeq d0(1)]]
  show ?thesis using moveRanges_replay [OF _ _ assms(3) d0(2)] assms(1,2) by (simp add: c)
qed

subsection \<open>The other operations keep the invariant\<close>

lemma logEach_OK: "(\<And>x. keeps (\<lambda>_. True) (f x) (\<lambda>_ _. True)) \<Longrightarrow> dbOK d \<Longrightarrow> dbOK (snd (logEach f xs d))"
proof (induction xs arbitrary: d)
  case (Cons x xs)
  obtain r d1 where f: "f x d = (r, d1)" by (metis surj_pair)
  have "dbOK d1" by (rule keepsD(1) [OF Cons.prems(1) TrueI Cons.prems(2) f])
  then show ?case using Cons.IH [OF Cons.prems(1), of d1] f by (auto simp: Let_def split: sum.split prod.split)
qed simp

lemma logRanges_OK:
  assumes "\<And>n q. quiet (sel n q)" and "\<And>x. keeps (\<lambda>_. True) (f x) (\<lambda>_ _. True)" and "dbOK d"
  shows "dbOK (snd (logRanges sel f n qs d))"
  using assms(3)
proof (induction qs arbitrary: n d)
  case (Cons q qs)
  obtain r d1 where r: "sel n q d = (r, d1)" by (metis surj_pair)
  have d1: "dbOK d1" using Cons.prems dbOK_core [OF quietD [OF assms(1) r]] by simp
  show ?case
  proof (cases r)
    case (Inr rows)
    obtain e ys d2 where l: "logEach f (enumerate 0 rows) d1 = ((e, ys), d2)" by (metis surj_pair)
    have "dbOK d2" using logEach_OK [of f d1 "enumerate 0 rows"] assms(2) d1 l by simp
    then show ?thesis using Cons.IH [of d2 "n + length ys"] r Inr l by (auto simp: Let_def split: option.split prod.split)
  qed (use d1 r in simp)
qed simp

lemma bindLog_OK: "quiet m \<Longrightarrow> (\<And>x d. dbOK d \<Longrightarrow> dbOK (snd (f x d))) \<Longrightarrow> dbOK d \<Longrightarrow> dbOK (snd (bindLog m f d))"
proof -
  assume q: "quiet m" and f: "\<And>x d. dbOK d \<Longrightarrow> dbOK (snd (f x d))" and d: "dbOK d"
  obtain r d1 where m: "m d = (r, d1)" by (metis surj_pair)
  have "dbOK d1" using d dbOK_core [OF quietD [OF q m]] by simp
  then show ?thesis using f m by (auto simp: bindLog_def split: sum.split)
qed

lemma saveLog_OK: "dbOK (snd (m d)) \<Longrightarrow> dbOK d \<Longrightarrow> dbOK (snd (saveLog m d))"
  by (auto simp: saveLog_def split: prod.split option.split)

lemma quiet_rangeRows [quietDb]: "quiet (rangeRows p fn h useUID n q)"
  unfolding rangeRows_def by (intro quietDb)

lemma keeps_copyMsg: "keeps P (dbCopyMsg p ms dst r) (\<lambda>_ _. True)"
proof -
  have a: "keeps (freshIn (dhID dst) uid) (insertRandID p PoolRO ''copyMsg'' (addMsgRow (copiedRow (snd r) (dhID dst) ms (uint uid)))) (\<lambda>_ _. True)" for uid
    by (rule keeps_rand)
      (auto simp: addMsgRow_def copiedRow_def dbOK_def freshIn_def uidOf_def split: if_splits intro!: msgsOK_add)
  have e: "quiet (eachDb (insertPartSummary p PoolRO i) parts)" for i parts by (intro quietDb)
  show ?thesis unfolding dbCopyMsg_def
    by (rule keeps_bind [OF nextMsgUID_fresh], rule keeps_then [OF a], rule keeps_then, rule keeps_leaf, rule keeps_then, rule keeps_True [OF e], rule keeps_leaf)
qed

lemma dbCopy_OK: "dbOK d \<Longrightarrow> dbOK (snd (dbCopy p h useUID sset dst d))"
  unfolding dbCopy_def
  by (auto intro!: bindLog_OK saveLog_OK logRanges_OK keeps_copyMsg quiet_rangeRows quiet_nextMsgModSeq quiet_readDb)

lemma dbStoreFlags_keeps: "keeps (\<lambda>_. True) (dbStoreFlags p h useUID sset st) (\<lambda>_ _. True)"
proof -
  have r: "keeps (\<lambda>_. True) (case x of (_, r) \<Rightarrow> storeRow p useUID st ms r) (\<lambda>_ _. True)" for x ms
    unfolding storeRow_def Let_def by (auto intro!: keeps_leaf keeps_then keeps_updateMsg split: prod.split option.split)
  have l: "keeps (\<lambda>_. True) (logResult (logRanges (rangeRows p fn h useUID) (\<lambda>(_, r). storeRow p useUID st ms r) 0 sset)) (\<lambda>_ _. True)" for fn ms
  proof (rule keepsI)
    fix d x d1 assume d: "dbOK d" and e: "logResult (logRanges (rangeRows p fn h useUID) (\<lambda>(_, r). storeRow p useUID st ms r) 0 sset) d = (x, d1)"
    have "dbOK (snd (logRanges (rangeRows p fn h useUID) (\<lambda>(_, r). storeRow p useUID st ms r) 0 sset d))"
      by (rule logRanges_OK [OF quiet_rangeRows r d])
    then show "dbOK d1 \<and> (\<forall>y. x = Inr y \<longrightarrow> True)" using e by (auto simp: logResult_def split: prod.splits option.splits)
  qed
  show ?thesis unfolding dbStoreFlags_def
    by (intro keeps_withConn keeps_save keeps_then l keeps_leaf)
qed

lemma dbExpunge_keeps: "keeps (\<lambda>_. True) (dbExpunge p h q) (\<lambda>_ _. True)"
proof -
  have e: "keeps (\<lambda>_. True) (expungeRows p n rs) (\<lambda>_ _. True)" for n rs
  proof (induction rs arbitrary: n)
    case (Cons r rs)
    have "keeps (\<lambda>_. True) (writeDb p PoolRW ''Expunge update'' (\<lambda>d. Inr ((), updateMsg (rwID (snd r)) (expungeRow (libNow p d)) d))) (\<lambda>_ _. True)"
      by (rule keeps_write) (auto intro!: dbOK_updateMsg simp: expungeRow_def)
    then show ?case unfolding expungeRows.simps by (intro keeps_then Cons.IH keeps_leaf)
  qed (simp add: keeps_leaf)
  show ?thesis unfolding dbExpunge_def
    by (intro keeps_withConn keeps_save keeps_then) (auto intro!: keeps_leaf keeps_then e)
qed

lemma dbSession_keeps:
  "keeps (\<lambda>_. True) (dbCreate p name attr) (\<lambda>_ _. True)" "keeps (\<lambda>_. True) (dbDelete p name) (\<lambda>_ _. True)"
  "keeps (\<lambda>_. True) (dbRename old new) (\<lambda>_ _. True)" "keeps (\<lambda>_. True) (dbRegister p name dev) (\<lambda>_ _. True)"
  "keeps (\<lambda>_. True) (dbSetSeen p r) (\<lambda>_ _. True)"
proof -
  have d: "dbOK (d\<lparr>dbDevices := x\<rparr>) = dbOK d" for d x by (simp add: dbOK_def)
  show "keeps (\<lambda>_. True) (dbRegister p name dev) (\<lambda>_ _. True)" unfolding dbRegister_def registerPushDevice_def
    by (auto intro!: keeps_withConn keeps_then keeps_leaf keeps_update simp: d)
  show "keeps (\<lambda>_. True) (dbSetSeen p r) (\<lambda>_ _. True)" unfolding dbSetSeen_def by (rule keeps_updateMsg) (simp add: addSeen_def)
qed (auto simp: dbCreate_def dbDelete_def dbRename_def intro!: keeps_withConn keeps_save keeps_createMailbox keeps_deleteMailbox keeps_leaf)

subsection \<open>The contracts of the data store\<close>

definition dbTouches :: "int \<Rightarrow> dbStore \<Rightarrow> dbStore \<Rightarrow> bool" where
  "dbTouches uid s s' \<longleftrightarrow> (\<forall>v. v \<noteq> uid \<longrightarrow> dsBox s' v = dsBox s v) \<and> (dbOK (dsBox s uid) \<longrightarrow> dbOK (dsBox s' uid))"

lemma onBox_eq: "onBox uid f s = (r, s') \<longleftrightarrow> (\<exists>d. f (dsBox s uid) = (r, d) \<and> s' = s\<lparr>dsBox := (dsBox s)(uid := d)\<rparr>)"
  by (auto simp: onBox_def Let_def split: prod.splits)

lemma touches_onBox: "onBox uid f s = (r, s') \<Longrightarrow> (\<And>d. dbOK d \<Longrightarrow> dbOK (snd (f d))) \<Longrightarrow> dbTouches uid s s'"
  by (auto simp: onBox_eq dbTouches_def) (metis snd_conv)

lemma keeps_snd: "keeps (\<lambda>_. True) m Q \<Longrightarrow> dbOK d \<Longrightarrow> dbOK (snd (m d))"
  by (metis keepsD(1) prod.collapse)

lemma box_touches:
  assumes "keeps (\<lambda>_. True) m (\<lambda>_ _. True)"
  shows "runBox p uid m s = (r, s') \<Longrightarrow> dbTouches uid s s'" and "goBox p uid m s = (g, s') \<Longrightarrow> dbTouches uid s s'"
proof -
  note k = keeps_snd [OF assms]
  show "runBox p uid m s = (r, s') \<Longrightarrow> dbTouches uid s s'"
    by (auto simp: runBox_def Let_def split: prod.splits dest!: touches_onBox intro: k)
  show "goBox p uid m s = (g, s') \<Longrightarrow> dbTouches uid s s'"
    by (auto simp: goBox_def Let_def split: prod.splits dest!: touches_onBox intro: k)
qed

lemma errBox_touches: "keeps (\<lambda>_. True) m (\<lambda>_ _. True) \<Longrightarrow> errBox p uid m s = (e, s') \<Longrightarrow> dbTouches uid s s'"
  using box_touches(1) by (auto simp: errBox_def Let_def split: prod.splits)

lemma logBox_touches: "(\<And>d. dbOK d \<Longrightarrow> dbOK (snd (m d))) \<Longrightarrow> logBox p uid m s = (x, s') \<Longrightarrow> dbTouches uid s s'"
  by (auto simp: logBox_def Let_def split: prod.splits dest!: touches_onBox)

lemma Login_touches: "dbLogin p name pass s = (r, s') \<Longrightarrow> dbTouches uid s s' \<and> (\<forall>i u. r = Inr (i, u) \<longrightarrow> i = u)"
  by (auto simp: dbLogin_def dbTouches_def Let_def split: prod.splits sum.splits authErr.splits option.splits)

lemma logEach_reported: "logEach f xs d = ((e, ys), d1) \<Longrightarrow> (\<And>x d y d1. f x d = (Inr y, d1) \<Longrightarrow> P y) \<Longrightarrow> \<forall>y\<in>set ys. P y"
  by (induction xs arbitrary: d ys e) (fastforce simp: Let_def split: prod.splits sum.splits)+

lemma logRanges_reported:
  assumes "logRanges sel f n qs d = ((e, ys), d1)" and "\<And>x d y d1. f x d = (Inr y, d1) \<Longrightarrow> P y"
  shows "\<forall>y\<in>set ys. P y"
  using assms(1)
proof (induction qs arbitrary: n d ys e d1)
  case (Cons q qs)
  obtain r d0 where r: "sel n q d = (r, d0)" by (metis surj_pair)
  show ?case
  proof (cases r)
    case (Inr rows)
    obtain e1 us d2 where l: "logEach f (enumerate 0 rows) d0 = ((e1, us), d2)" by (metis surj_pair)
    obtain e2 zs d3 where l2: "logRanges sel f (n + length us) qs d2 = ((e2, zs), d3)" by (metis surj_pair)
    have u: "\<forall>y\<in>set us. P y" by (rule logEach_reported [OF l assms(2)])
    have "\<forall>y\<in>set zs. P y" by (rule Cons.IH [OF l2])
    then show ?thesis using Cons.prems r Inr l l2 u by (auto simp: Let_def split: option.splits)
  qed (use Cons.prems r in simp)
qed simp

lemma fetch_handles: "logBox p uid (dbFetch q h useUID sset ch) s = ((e, ms), s') \<Longrightarrow> \<forall>m\<in>set ms. drHandle m = h"
proof -
  have fh: "drHandle y = h" if "fetchMsg q h r d = (Inr y, d1)" for r d y d1
    using that by (auto simp: fetchMsg_def Let_def dbm_Inr)
  have "\<forall>m\<in>set ms. drHandle m = h" if "logRanges sel (\<lambda>(_, r). fetchMsg q h r) n qs d = ((e, ms), d1)" for sel n qs d e ms d1
    by (rule logRanges_reported [OF that]) (auto dest: fh)
  then show "logBox p uid (dbFetch q h useUID sset ch) s = ((e, ms), s') \<Longrightarrow> \<forall>m\<in>set ms. drHandle m = h"
    by (fastforce simp: logBox_def onBox_def dbFetch_def bindLog_def Let_def split: prod.splits sum.splits)
qed

lemma mailbox_handle: "readBox p uid (dbMailbox q uid name) s = Inr h \<Longrightarrow> dhUser h = uid"
  by (auto simp: readBox_def dbMailbox_def withConn_def bindDb_def readDb_def failDb_def okDb_def split: sum.splits option.splits list.splits)

lemma moves_touch:
  "logBox p uid (dbMove q h useUID sset dst) s = (x, s') \<Longrightarrow> dbTouches uid s s'"
  "logBox p uid (dbCopy q h useUID sset dst) s = (y, s') \<Longrightarrow> dbTouches uid s s'"
  by (rule logBox_touches [rotated], assumption, erule dbMove_OK dbCopy_OK)+

lemmas operation_touches = dbSession_keeps(1,2,4,5) [THEN errBox_touches] dbSession_keeps(3) [THEN box_touches(2)]
  keeps_dbAppend [THEN box_touches(2)] dbExpunge_keeps [THEN box_touches(1)] dbStoreFlags_keeps [THEN box_touches(1)]
  moves_touch

lemma dbTouches_refl: "dbTouches uid s s"
  by (simp add: dbTouches_def)

interpretation database: owned_store "dbBackend p" dhUser "\<lambda>r. dhUser (drHandle r)" "\<lambda>u. u" dbTouches for p
proof (unfold_locales, goal_cases)
  case (1 u name s)
  then show ?case by (simp add: dbBackend_def Let_def map_sum_def split: sum.split)
next
  case 2
  then show ?case by (simp add: dbTouches_def)
next
  case (3 u s s' s'')
  then show ?case by (simp add: dbTouches_def)
next
  case (4 name pass s r s' u)
  then show ?case using Login_touches by (simp add: dbBackend_def Let_def)
next
  case (5 name pass s i u s')
  then show ?case using Login_touches by (fastforce simp: dbBackend_def Let_def)
next
  case (6 u name s h)
  then show ?case by (cases "readBox p u (dbMailbox (dpLib p) u name) s") (auto simp: dbBackend_def Let_def mailbox_handle)
next
  case (7 h b q ch s e ms m)
  then show ?case using fetch_handles [of p "dhUser h" "dpLib p" h b q ch s] by (auto simp: dbBackend_def Let_def) (metis prod.collapse fst_conv)
qed (auto simp: dbBackend_def Let_def renameBox_def dbTouches_refl split: prod.splits dest: operation_touches)

text \<open>The UIDs of a handle's mailbox, and room in the second mailbox, another one, for the messages of the first.\<close>

definition storeGood :: "dbStore \<Rightarrow> bool" where
  "storeGood s \<longleftrightarrow> (\<forall>uid. dbGood (dsBox s uid))"

definition handleUIDs :: "dbHandle \<Rightarrow> dbStore \<Rightarrow> u32 list" where
  "handleUIDs h s = dbUIDs (dhID h) (dsBox s (dhUser h))"

definition handleFits :: "dbHandle \<Rightarrow> dbHandle \<Rightarrow> dbStore \<Rightarrow> bool" where
  "handleFits h dst s \<longleftrightarrow> dhID dst \<noteq> dhID h \<and> roomFor (dhID dst) (dhID h) (dsBox s (dhUser h))"

lemma dbExpunge_good:
  assumes "dbGood d" and "dbExpunge p h q d = (Inr ns, d1)"
  shows "dbGood d1 \<and> fold expungeAt ns (dbUIDs (dhID h) d) = dbUIDs (dhID h) d1"
proof -
  note e = dbExpunge_effect [OF assms(2)]
  have "dbGood d1" using assms(1) e by (simp add: dbGood_def)
  moreover have "fold expungeAt ns (dbUIDs (dhID h) d) = dbUIDs (dhID h) d1" using replay_rows [OF assms(1), of "dhID h" d1] e by simp
  ultimately show ?thesis ..
qed

lemma beExpunge_None:
  "beExpunge (dbBackend p) h q s = ((None, ns), s') \<Longrightarrow>
    \<exists>d. dbExpunge (dpLib p) h q (dsBox s (dhUser h)) = (Inr ns, d) \<and> s' = s\<lparr>dsBox := (dsBox s)(dhUser h := d)\<rparr>"
  by (auto simp: dbBackend_def Let_def runBox_def onBox_def split: prod.splits sum.splits)

lemma beMove_None:
  "beMove (dbBackend p) h useUID sset dst s = ((None, zs), s') \<Longrightarrow>
    \<exists>d. dbMove (dpLib p) h useUID sset dst (dsBox s (dhUser h)) = ((None, zs), d) \<and> s' = s\<lparr>dsBox := (dsBox s)(dhUser h := d)\<rparr>"
  by (auto simp: dbBackend_def Let_def logBox_def onBox_def split: prod.splits)

lemma dbInfo_count: "fst (dbInfo p h d) = Inr info \<Longrightarrow> numMessages info = of_nat (length (readyMsgs (dhID h) d))"
  by (auto simp: dbInfo_def withConn_def saveDb_def bindDb_def readDb_def failDb_def Let_def split: sum.splits option.splits list.splits prod.splits)

interpretation database: mail_store "dbBackend p" storeGood handleUIDs handleFits for p
proof (unfold_locales, goal_cases)
  case (1 s h q ns s')
  then obtain d where d: "dbExpunge (dpLib p) h q (dsBox s (dhUser h)) = (Inr ns, d)" "s' = s\<lparr>dsBox := (dsBox s)(dhUser h := d)\<rparr>"
    using beExpunge_None by blast
  show ?case using dbExpunge_good [OF _ d(1)] 1(1) d(2) by (simp add: storeGood_def handleUIDs_def)
next
  case (2 s h dst uid sset rs s')
  then obtain d where d: "dbMove (dpLib p) h uid sset dst (dsBox s (dhUser h)) = ((None, rs), d)" "s' = s\<lparr>dsBox := (dsBox s)(dhUser h := d)\<rparr>"
    using beMove_None by blast
  show ?case using dbMove_replay [OF _ _ _ d(1)] 2(1,2) d(2) by (simp add: storeGood_def handleUIDs_def handleFits_def)
next
  case (3 s h info)
  then have "fst (dbInfo (dpLib p) h (dsBox s (dhUser h))) = Inr info" by (auto simp: dbBackend_def Let_def readBox_def split: sum.splits)
  then have n: "numMessages info = of_nat (length (readyMsgs (dhID h) (dsBox s (dhUser h))))" by (rule dbInfo_count)
  have "length (readyMsgs (dhID h) (dsBox s (dhUser h))) < 2 ^ 32"
    using 3(1) readyMsgs_length dbGood_D by (auto simp: storeGood_def)
  then show ?case by (simp add: n handleUIDs_def dbUIDs_def unat_of_nat_u32)
qed

context owned_store begin

lemma serve_touches:
  assumes "ownedWorld w" and "serveParseCmd v be c w = Some (b, w')" and "w2 \<in> {w', endConn be c w'}"
  shows "\<exists>u. touches u (wStore w) (wStore w2)"
proof -
  consider "anonymous (wConn w c)" | u where "ownedBy u (wConn w c)" using assms(1) unfolding ownedWorld_def by blast
  then show ?thesis
  proof cases
    case 1
    note e = enters_serveParse [OF 1 assms(2)]
    show ?thesis
    proof (cases "\<exists>u. ownedBy u (wConn w' c)")
      case True
      then obtain u where u: "ownedBy u (wConn w' c)" by blast
      obtain w3 where w3: "within c u w' w3" "wStore (endConn be c w') = wStore w3" using endConn_within [OF u] by blast
      have "touches u (wStore w) (wStore w')" using e by (simp add: enters_def)
      then have "touches u (wStore w) (wStore w2)" using assms(3) w3 touches_trans by (auto simp: within_def)
      then show ?thesis by blast
    next
      case False
      then have "anonymous (wConn w' c)" using e 1 anonymous_core [of "wConn w' c" "wConn w c"] by (auto simp: enters_def)
      then have "wStore w2 = wStore w'" using assms(3) endConn_anonymous(1) by auto
      then show ?thesis using e by (auto simp: enters_def)
    qed
  next
    case 2
    then have "cSession (wConn w c) = Some u" by (simp add: ownedBy_def)
    then show ?thesis using serve_isolated [OF assms] by auto
  qed
qed

end

end
