(* ===== verification/ImapDbRuns.thy ===== *)
theory ImapDbRuns
  imports ImapDbProps
begin

text \<open>
  The properties of the data store on the users' databases, and the server on it. \<open>exampleDb\<close> is a user's database with an INBOX of five
  messages and an empty Archive, in which no statement fails.
\<close>

subsection \<open>An example\<close>

definition exampleLib :: spillLib where
  "exampleLib = \<lparr>libFail = (\<lambda>fn d. None), libReadOnly = False, libIsPrint = (\<lambda>r. True), libLower = (\<lambda>b. b), libErrText = (\<lambda>e. []),
     libRandID = (\<lambda>fn d. 1000 + int (length (dbMsgs d))), libNow = (\<lambda>d. 0), libGzip = (\<lambda>b. b), libGunzip = Inr, libSHA256 = (\<lambda>b. b),
     libParseHdrs = (\<lambda>b. Inr emptyHeader), libAddress = (\<lambda>b. Inr ([], b)), libAddressList = (\<lambda>b. Inr [([], b)])\<rparr>"

definition exampleRow :: "int \<Rightarrow> bytes list \<Rightarrow> msgRow" where
  "exampleRow i fs = \<lparr>rwID = i, rwStagingID = None, rwModSeq = Some i, rwSeed = Some i, rwRawHash = None, rwConvo = None, rwState = MsgReady,
     rwMailbox = Some 10, rwUID = Some i, rwFlags = Some fs, rwSize = Some 0, rwDate = 0, rwExpunged = None, rwHdrs = None, rwUnsub = None\<rparr>"

definition exampleBox :: "int \<Rightarrow> int \<Rightarrow> bytes \<Rightarrow> mailboxRow" where
  "exampleBox i next name = \<lparr>mxID = i, mxNextUID = next, mxUidValidity = i, mxAttrs = 0, mxName = Some name, mxDeletedName = None\<rparr>"

definition exampleDb :: spillDb where
  "exampleDb = initDb\<lparr>dbMailboxes := [exampleBox 10 6 ''INBOX'', exampleBox 11 1 ''Archive''], dbSequencing := [(''INBOX'', 6), (''Archive'', 1)],
     dbMsgs := [exampleRow 1 [], exampleRow 2 [flagDeleted], exampleRow 3 [flagSeen], exampleRow 4 [flagDeleted], exampleRow 5 []]\<rparr>"

definition inboxHandle :: dbHandle where "inboxHandle = \<lparr>dhUser = 1, dhID = 10, dhName = ''INBOX''\<rparr>"
definition archiveHandle :: dbHandle where "archiveHandle = \<lparr>dhUser = 1, dhID = 11, dhName = ''Archive''\<rparr>"

lemma exampleDb_good: "dbGood exampleDb"
  by (auto simp: dbGood_def dbOK_def boxesOK_def msgsOK_def counted_def exampleDb_def exampleBox_def exampleRow_def inBox_def uidOf_def)

lemma exampleDb_rows: "readyMsgs 10 exampleDb = dbMsgs exampleDb"
  by (simp add: readyMsgs_def exampleDb_def exampleRow_def inBox_def uidOf_def)

subsection \<open>Expunge\<close>



subsection \<open>Failing operations\<close>

lemma withConn_failed: "withConn p m d = (Inl e, d1) \<Longrightarrow> (m d = (Inl e, d1) \<Longrightarrow> d1 = d) \<Longrightarrow> d1 = d"
  by (auto simp: withConn_def bindDb_def readDb_def split: option.splits)

lemma deleteRows_none: "deleteRows name d = (0, d1) \<Longrightarrow> d1 = d"
proof -
  assume e: "deleteRows name d = (0, d1)"
  then have n: "filter (\<lambda>m. mxName m = Some name) (dbMailboxes d) = []" by (simp add: deleteRows_def Let_def)
  have "map (\<lambda>m. if mxName m = Some name then m\<lparr>mxDeletedName := mxName m, mxName := None\<rparr> else m) (dbMailboxes d) = dbMailboxes d"
    by (rule map_idI) (use n in \<open>auto simp: filter_empty_conv\<close>)
  then show ?thesis using e n by (simp add: deleteRows_def Let_def)
qed

lemma dbDelete_failed: "dbDelete p name d = (Inl e, d1) \<Longrightarrow> d1 = d"
proof -
  assume e: "dbDelete p name d = (Inl e, d1)"
  show "d1 = d"
  proof (rule withConn_failed [OF e [unfolded dbDelete_def]])
    assume m: "deleteMailbox p PoolRW name d = (Inl e, d1)"
    obtain n d0 where r: "deleteRows name d = (n, d0)" by (metis surj_pair)
    show "d1 = d"
    proof (cases "n = 0")
      case True
      then have "d0 = d" using deleteRows_none r by blast
      then show ?thesis using m r True
        by (auto simp: deleteMailbox_def Let_def bindDb_def mapErr_def writeDb_def okDb_def failDb_def split: if_splits option.splits)
    next
      case False
      then show ?thesis using m r
        by (auto simp: deleteMailbox_def Let_def bindDb_def mapErr_def writeDb_def okDb_def failDb_def split: if_splits option.splits)
    qed
  qed
qed

lemma log_failed_eq: "bindLog (readDb p fn q) (\<lambda>x. saveLog (f x)) d = ((Some e, ys), d1) \<Longrightarrow> d1 = d"
  using log_failed [of p fn q f d e] by simp


text \<open>A database in which the second tombstone of a MOVE cannot be written.\<close>

definition failingLib :: spillLib where
  "failingLib = exampleLib\<lparr>libFail := (\<lambda>fn d. if fn = ''Move tombstone'' \<and> 5 < length (dbMsgs d) then Some NoResults else None)\<rparr>"


subsection \<open>Mailbox names\<close>

text \<open>CREATE of a name with an outer name never succeeds: behind the new mailbox the loop over the outer names runs a statement that has no
  such parameter, and everything is rolled back.\<close>

theorem nested_create_fails:
  assumes "SpillBox.pathDir name \<noteq> ''.''" and "SpillBox.pathDir name \<noteq> ''INBOX''"
  shows "\<exists>e. dbCreate p name attr d = (Inl e, d)"
proof -
  have "\<exists>e d1. createMailbox p PoolRW name attr d = (Inl e, d1)"
    using assms by (auto simp: createMailbox_def saveDb_def bindDb_def failDb_def Let_def split: option.splits prod.splits sum.splits)
  then show ?thesis
    by (auto simp: dbCreate_def withConn_def saveDb_def bindDb_def readDb_def split: option.split)
qed

theorem nested_create_fails_witness: "\<exists>e. dbCreate exampleLib ''a/b'' 0 exampleDb = (Inl e, exampleDb)"
  by (rule nested_create_fails) code_simp+

text \<open>RENAME of any mailbox but INBOX, by a connection with a session, panics in the data store and ends the server.\<close>

theorem rename_crashes:
  assumes "cSession (wConn w c) = Some uid" and "cmdRenameOld (cmdOf c w) \<noteq> ''INBOX''"
  shows "wCrash (cmdRename (dbBackend p) c w)"
  using assms
  by (simp add: cmdRename_def withSession_def dbBackend_def Let_def renameBox_def goBox_def onBox_def dbRename_def failDb_def markCrash_def)

definition dbExampleParams :: dbParams where
  "dbExampleParams = \<lparr>dpLib = exampleLib, dpAuth = \<lparr>auGet = (\<lambda>m. True), auFail = (\<lambda>fn m. False), auCompare = (\<lambda>h pw. h = pw), auUpper = (\<lambda>b. b)\<rparr>,
     dpOpen = (\<lambda>uid s. None), dpRemote = [], dpCleave = (\<lambda>b. Inl []), dpParseDate = (\<lambda>b. 0), dpFormatDate = (\<lambda>n. []), dpZone = (\<lambda>n. 0),
     dpAuthText = (\<lambda>e. []), dpRandom = (\<lambda>s n. NUL)\<rparr>"

definition dbExampleStore :: dbStore where
  "dbExampleStore = \<lparr>dsMain = \<lparr>asDb = \<lparr>mdDevices = [], mdAddresses = []\<rparr>, asNow = 0, asThrottle = newThrottle\<rparr>, dsBox = (\<lambda>uid. exampleDb)\<rparr>"

definition renameWorld :: "(dbStore, int, dbHandle) world" where
  "renameWorld = (let k = newConn [] EOF in (initWorld dbExampleStore)\<lparr>wConn := (\<lambda>c. k\<lparr>cSession := Some 1,
     cParser := (cParser k)\<lparr>pCommand := emptyCommand\<lparr>cmdRenameOld := ''Archive'', cmdRenameNew := ''Old''\<rparr>\<rparr>\<rparr>)\<rparr>)"

theorem rename_crashes_witness: "wCrash (cmdRename (dbBackend dbExampleParams) 0 renameWorld)"
  by (rule rename_crashes [where uid = 1]) (simp_all add: renameWorld_def Let_def)

subsection \<open>Move\<close>

lemma enumerate_single:
  "n \<le> k \<Longrightarrow> k < n + length xs \<Longrightarrow> filter (\<lambda>r. int k \<le> int (fst r) \<and> int (fst r) \<le> int k) (enumerate n xs) = [(k, xs ! (k - n))]"
proof (induction xs arbitrary: n)
  case (Cons x xs)
  show ?case
  proof (cases "k = n")
    case True
    have "filter (\<lambda>r. int k \<le> int (fst r) \<and> int (fst r) \<le> int k) (enumerate (Suc n) xs) = []"
      using True by (auto simp: filter_empty_conv in_set_enumerate_eq)
    then show ?thesis using True by simp
  next
    case False
    then have "k - n = Suc (k - Suc n)" using Cons.prems(1) by simp
    then show ?thesis using Cons.IH [of "Suc n"] Cons.prems False by simp
  qed
qed simp

lemma single_rows:
  assumes "k = nat (uint (seqMin q) - int n)" and "seqMax q = seqMin q" and "int n < uint (seqMin q)" and "k \<le> length (readyMsgs (dhID h) d)"
    and "moveRows p h False n q d = (Inr rows, d1)"
  shows "rows = [(k, readyMsgs (dhID h) d ! (k - 1))]" and "d1 = d"
proof -
  have m: "rangeMax q = uint (seqMin q)" using assms(2,3) by (auto simp: rangeMax_def)
  have k: "uint (seqMin q) - int n = int k" "1 \<le> k" using assms(1,3) by simp_all
  have "filter (inRange False (uint (seqMin q) - int n) (rangeMax q - int n)) (seqRows (dhID h) d) =
      filter (\<lambda>r. int k \<le> int (fst r) \<and> int (fst r) \<le> int k) (enumerate 1 (readyMsgs (dhID h) d))"
    unfolding m k(1) seqRows_def by (rule filter_cong) (auto simp: inRange_def)
  then show "rows = [(k, readyMsgs (dhID h) d ! (k - 1))]"
    using assms(5) enumerate_single [of 1 k "readyMsgs (dhID h) d"] k(2) assms(4) by (simp add: moveRows_def readDb_Inr Let_def)
  show "d1 = d" using assms(5) by (simp add: moveRows_def readDb_Inr Let_def)
qed

lemma remove_nth:
  assumes "distinct (map f xs)" and "i < length xs" and "j < i"
  shows "filter (\<lambda>x. f x \<noteq> f (xs ! i)) xs ! j = xs ! j"
proof -
  have t: "filter (\<lambda>x. f x \<noteq> f (xs ! i)) (take i xs) = take i xs"
  proof (rule filter_True, rule ballI)
    fix x assume "x \<in> set (take i xs)"
    then obtain k where k: "k < i" "x = xs ! k" by (auto simp: in_set_conv_nth)
    show "f x \<noteq> f (xs ! i)" using assms(1,2) k nth_eq_iff_index_eq [of "map f xs" k i] by simp
  qed
  have "filter (\<lambda>x. f x \<noteq> f (xs ! i)) xs = filter (\<lambda>x. f x \<noteq> f (xs ! i)) (take i xs) @ filter (\<lambda>x. f x \<noteq> f (xs ! i)) (drop i xs)"
    by (metis append_take_drop_id filter_append)
  then show ?thesis using assms(2,3) t by (simp add: nth_append)
qed

text \<open>C18: MOVE of two messages by number, the later one first (as in \<open>MOVE 5,2\<close>), moves another message: after the first message
  the bounds of the second range are lowered by one although the numbers below the first have not changed, so that the message before the
  one that was asked for goes, and that one stays.\<close>

theorem move_wrong_message:
  assumes "dbGood d" and "roomFor (dhID dst) (dhID h) d" and "dhID dst \<noteq> dhID h"
    and "dbMove p h False [mkSeq a a, mkSeq b b] dst d = ((None, zs), d1)"
    and "2 \<le> b" and "b < a" and "unat a \<le> length (readyMsgs (dhID h) d)"
  shows "map (\<lambda>z. fst (snd z)) zs = [dbUIDs (dhID h) d ! (unat a - 1), dbUIDs (dhID h) d ! (unat b - 2)]"
proof -
  let ?xs = "readyMsgs (dhID h) d"
  have b: "2 \<le> unat b" "unat b < unat a" using assms(5,6) by (simp_all add: word_le_nat_alt word_less_nat_alt)
  have pos: "0 < uint a" "1 < uint b" using b unfolding unat_eq_nat_uint by linarith+
  obtain ms d0 where d0: "nextMsgModSeq p PoolRO (dhID dst) d = (Inr ms, d0)"
    "logRanges (moveRows p h False) (moveMsg p h ms dst) 0 [mkSeq a a, mkSeq b b] d0 = ((None, zs), d1)" using dbMove_None [OF assms(4)] by blast
  note c = core_good [OF quietD [OF quiet_nextMsgModSeq d0(1)]]
  obtain rows dA ys d2 us where e: "moveRows p h False 0 (mkSeq a a) d0 = (Inr rows, dA)"
    "logEach (moveMsg p h ms dst) (enumerate 0 rows) dA = ((None, ys), d2)"
    "logRanges (moveRows p h False) (moveMsg p h ms dst) (0 + length ys) [mkSeq b b] d2 = ((None, us), d1)" "zs = ys @ us"
    using d0(2) [unfolded logRanges_Cons_None [of _ _ 0]] by (elim exE conjE) (rule that)
  have r1: "rows = [(unat a, ?xs ! (unat a - 1))]" "dA = d0"
    using single_rows [of "unat a" "mkSeq a a" 0 h d0 p rows dA] e(1) b pos assms(7) by (simp_all add: c flip: unat_eq_nat_uint)
  let ?m = "?xs ! (unat a - 1)"
  obtain y where y: "moveMsg p h ms dst (0, unat a, ?m) d0 = (Inr y, d2)" "ys = [y]"
    using e(2) by (auto simp: r1 Let_def split: prod.splits sum.splits)
  have m: "?m \<in> set (readyMsgs (dhID h) d0)" unfolding c using b assms(7) by (intro nth_mem) simp
  then have m3: "?m \<in> set (dbMsgs d0)" "inBox (dhID h) ?m" "rwState ?m = MsgReady" by (simp_all add: readyMsgs_set)
  have g: "dbGood d0" "roomFor (dhID dst) (dhID h) d0" using assms(1,2) by (simp_all add: c)
  note mv = moveMsg_room [OF g assms(3) m3 y(1)]
  have x2: "readyMsgs (dhID h) d2 = filter (\<lambda>x. rwID x \<noteq> rwID ?m) ?xs" using mv by (simp add: c)
  have l2: "Suc (length (readyMsgs (dhID h) d2)) = length ?xs"
    unfolding x2 by (rule length_filter_one [OF readyMsgs_ids [OF dbGood_D(1) [OF assms(1)]]]) (use b assms(7) in \<open>simp add: nth_mem\<close>)
  obtain rows2 dB ys2 d3 us2 where e2: "moveRows p h False 1 (mkSeq b b) d2 = (Inr rows2, dB)"
    "logEach (moveMsg p h ms dst) (enumerate 0 rows2) dB = ((None, ys2), d3)" "us = ys2"
    using e(3) unfolding logRanges_Cons_None y(2) by (auto simp: logRanges.simps)
  have r2: "rows2 = [(unat b - 1, readyMsgs (dhID h) d2 ! (unat b - 2))]" "dB = d2"
    using single_rows [of "unat b - 1" "mkSeq b b" 1 h d2 p rows2 dB] e2(1) b pos l2 assms(7)
    by (simp_all add: nat_diff_distrib numeral_2_eq_2 flip: unat_eq_nat_uint)
  have n2: "readyMsgs (dhID h) d2 ! (unat b - 2) = ?xs ! (unat b - 2)"
    unfolding x2 by (rule remove_nth [OF readyMsgs_ids [OF dbGood_D(1) [OF assms(1)]]]) (use b assms(7) in auto)
  obtain y2 where y2: "moveMsg p h ms dst (0, unat b - 1, ?xs ! (unat b - 2)) d2 = (Inr y2, d3)" "ys2 = [y2]"
    using e2(2) by (auto simp: r2 n2 Let_def split: prod.splits sum.splits)
  have "?xs ! (unat b - 2) \<in> set (readyMsgs (dhID h) d2)"
    unfolding n2 [symmetric] using b l2 assms(7) by (intro nth_mem) linarith
  then have m4: "?xs ! (unat b - 2) \<in> set (dbMsgs d2)" "inBox (dhID h) (?xs ! (unat b - 2))" by (simp_all add: readyMsgs_set)
  have "fst (snd y) = word_of_int (uidOf ?m)" using moveMsg_effect [OF dbGood_D(1) [OF g(1)] m3(1,2) y(1)] by blast
  moreover have "fst (snd y2) = word_of_int (uidOf (?xs ! (unat b - 2)))"
    using moveMsg_effect [OF dbGood_D(1) m4 y2(1)] mv by blast
  ultimately show ?thesis using e(4) y(2) e2(3) y2(2) b assms(7) by (simp add: dbUIDs_def)
qed

theorem move_wrong_message_witness:
  "\<exists>zs d1. dbMove exampleLib inboxHandle False [mkSeq 5 5, mkSeq 2 2] archiveHandle exampleDb = ((None, zs), d1) \<and> map (\<lambda>z. fst (snd z)) zs = [5, 1]"
proof -
  let ?r = "dbMove exampleLib inboxHandle False [mkSeq 5 5, mkSeq 2 2] archiveHandle exampleDb"
  have "fst (fst ?r) = None" by code_simp
  then have e: "?r = ((None, snd (fst ?r)), snd ?r)" by (metis prod.collapse)
  have "roomFor (dhID archiveHandle) (dhID inboxHandle) exampleDb" "dhID archiveHandle \<noteq> dhID inboxHandle"
    "unat (5 :: u32) \<le> length (readyMsgs (dhID inboxHandle) exampleDb)" by code_simp+
  note m = move_wrong_message [OF exampleDb_good this(1,2) e _ _ this(3)]
  have "[dbUIDs (dhID inboxHandle) exampleDb ! (unat (5 :: u32) - 1), dbUIDs (dhID inboxHandle) exampleDb ! (unat (2 :: u32) - 2)] = [5, 1]" by code_simp
  then have "map (\<lambda>z. fst (snd z)) (snd (fst ?r)) = [5, 1]" using m by simp
  with e show ?thesis by (intro exI conjI)
qed

subsection \<open>The server\<close>

text \<open>C10: Whatever a connection sends, in every reachable state of a server on the databases: when the databases are well-formed (IDs are unique,
  and no UID of a mailbox is held by two rows or has reached the mailbox's counter, as long as the counter is a UID), so they are behind
  the command (and behind the end of the connection after it), and no database changes but that of one user, the one logged in.\<close>

theorem db_served_invariant:
  assumes "(serverStep v (dbBackend p))\<^sup>*\<^sup>* (initWorld s0) w" and "serveParseCmd v (dbBackend p) c w = Some (b, w')"
    and "w2 \<in> {w', endConn (dbBackend p) c w'}" and "\<forall>uid. dbOK (dsBox (wStore w) uid)"
  shows "(\<forall>uid. dbOK (dsBox (wStore w2) uid)) \<and>
    (\<forall>uid u. cSession (wConn w c) = Some u \<longrightarrow> uid \<noteq> u \<longrightarrow> dsBox (wStore w2) uid = dsBox (wStore w) uid)"
proof -
  have o: "database.ownedWorld w" by (rule database.ownedWorld_reachable [OF assms(1)])
  obtain u where "dbTouches u (wStore w) (wStore w2)" using database.serve_touches [OF o assms(2,3)] by blast
  then have "\<forall>uid. dbOK (dsBox (wStore w2) uid)" using assms(4) unfolding dbTouches_def by metis
  moreover have "\<forall>uid u. cSession (wConn w c) = Some u \<longrightarrow> uid \<noteq> u \<longrightarrow> dsBox (wStore w2) uid = dsBox (wStore w) uid"
    using database.serve_isolated [OF o assms(2,3)] by (auto simp: dbTouches_def)
  ultimately show ?thesis ..
qed

theorem db_served_invariant_witness:
  "\<exists>w b w'. (serverStep exampleEnv (dbBackend dbExampleParams))\<^sup>*\<^sup>* (initWorld dbExampleStore) w \<and>
    serveParseCmd exampleEnv (dbBackend dbExampleParams) 0 w = Some (b, w') \<and> (\<forall>uid. dbOK (dsBox (wStore w') uid))"
proof -
  let ?be = "dbBackend dbExampleParams" and ?w = "accept 0 [] EOF (initWorld dbExampleStore) :: (dbStore, int, dbHandle) world"
  have "serverStep exampleEnv ?be (initWorld dbExampleStore) ?w" by (intro serverStep.Accept) (simp_all add: initWorld_def)
  then have r: "(serverStep exampleEnv ?be)\<^sup>*\<^sup>* (initWorld dbExampleStore) ?w" by blast
  have "pBuf (cParser (wConn ?w 0)) = []" by (simp add: accept_def initWorld_def newConn_def NewParser_def NewScanner_def)
  then obtain x q where "ParseCommand (cParser (wConn ?w 0)) = Some (x, q)" using ParseCommand_eof by blast
  then obtain b w' where p: "serveParseCmd exampleEnv ?be 0 ?w = Some (b, w')" by (fastforce simp: serveParseCmd_def Let_def)
  have "w' \<in> {w', endConn ?be 0 w'}" "\<forall>uid. dbOK (dsBox (wStore ?w) uid)"
    using exampleDb_good by (simp_all add: accept_def initWorld_def dbExampleStore_def dbGood_def)
  from db_served_invariant [OF r p this] r p show ?thesis by blast
qed


definition movePair :: "(dbStore, int, dbHandle) world" where
  "movePair = (let k = (newConn [] EOF)\<lparr>cUserID := 1, cSession := Some 1, cMailbox := Some inboxHandle\<rparr>;
       q = cParser k in
     (initWorld dbExampleStore)\<lparr>wConn := (\<lambda>c. if c = 1 then k\<lparr>cIdleStarted := True\<rparr>
        else k\<lparr>cParser := q\<lparr>pCommand := emptyCommand\<lparr>cmdUID := False, cmdSequences := [mkSeq 2 3]\<rparr>\<rparr>\<rparr>), wUsers := (\<lambda>u. [0, 1])\<rparr>)"



definition failingParams :: dbParams where
  "failingParams = dbExampleParams\<lparr>dpLib := failingLib\<rparr>"


end
