(* ===== verification/SpillProps.thy ===== *)
theory SpillProps
  imports SpillAuth "HOL-Library.Multiset"
begin

text \<open>
  What holds of the delivery into a user's database and of the throttle of failing logins: recipients that are named twice, addresses with
  a tag, the time between failures.
\<close>

subsection \<open>Addresses with a tag\<close>

lemma IndexByte_first: "c \<notin> set xs \<Longrightarrow> IndexByte (xs @ c # ys) c = Some (length xs)"
  by (induction xs) auto

text \<open>The normal form of an address with a tag at a domain without case and dots (gmail.com) keeps the tag's letters: it is that of the
  address without the plus sign, so that two tags, or a tag and none, have different normal forms and get different contacts.\<close>

theorem plus_tag_kept:
  assumes "CHR ''@'' \<notin> set u" and "CHR ''@'' \<notin> set t"
  shows "normalizeAddr p (u @ ''+'' @ t @ ''@gmail.com'') = map lowerByte (stripUser u) @ map lowerByte (stripUser t) @ ''@gmail.com'' \<and>
    normalizeAddr p (u @ ''@gmail.com'') = map lowerByte (stripUser u) @ ''@gmail.com''"
proof -
  have l: "lowerBytes p ''gmail.com'' = ''gmail.com''" by (simp add: lowerBytes_def) code_simp
  have i: "IndexByte (u @ ''+'' @ t @ ''@gmail.com'') (CHR ''@'') = Some (length (u @ ''+'' @ t))"
    "IndexByte (u @ ''@gmail.com'') (CHR ''@'') = Some (length u)"
    using IndexByte_first [of "CHR ''@''" "u @ ''+'' @ t" "''gmail.com''"] IndexByte_first [of "CHR ''@''" u "''gmail.com''"] assms by simp_all
  have d: "domainAliases ''gmail.com'' = None" "domainDetails ''gmail.com'' = \<lparr>ddCaseless = True, ddIgnoreUserDots = True\<rparr>"
    by (simp_all add: domainAliases_def domainDetails_def)
  show ?thesis unfolding normalizeAddr_def i by (simp add: l d stripUser_def Let_def)
qed

theorem plus_tag_kept_witness:
  "\<forall>p. normalizeAddr p ''joe+hello@gmail.com'' = ''joehello@gmail.com'' \<and> normalizeAddr p ''joe@gmail.com'' = ''joe@gmail.com''"
proof
  fix p
  have "stripUser ''joe'' = ''joe'' \<and> stripUser ''hello'' = ''hello'' \<and> map lowerByte ''joe'' = ''joe'' \<and> map lowerByte ''hello'' = ''hello''" by code_simp
  then show "normalizeAddr p ''joe+hello@gmail.com'' = ''joehello@gmail.com'' \<and> normalizeAddr p ''joe@gmail.com'' = ''joe@gmail.com''"
    using plus_tag_kept [of "''joe''" "''hello''" p] by simp
qed

subsection \<open>The throttle\<close>

definition authOK :: "authState \<Rightarrow> bool" where
  "authOK s \<longleftrightarrow> (\<forall>k l n. trAttempts (asThrottle s) k = Some (l, n) \<longrightarrow> l \<le> asNow s)"

definition pastOnly :: "int \<times> throttle \<Rightarrow> bool" where
  "pastOnly x \<longleftrightarrow> (\<forall>k l n. trAttempts (snd x) k = Some (l, n) \<longrightarrow> l \<le> fst x)"

lemma cleanUp_attempts: "trAttempts (cleanUp now tr) k = Some x \<Longrightarrow> trAttempts tr k = Some x"
  by (auto simp: cleanUp_def split: if_splits option.splits)

lemma cleanUp_kept: "trAttempts tr k = Some (l, n) \<Longrightarrow> now - l \<le> delay \<Longrightarrow> trAttempts (cleanUp now tr) k = Some (l, n)"
  by (auto simp: cleanUp_def split: option.split)

lemma throttleVal_past: "pastOnly x \<Longrightarrow> pastOnly (snd (throttleVal k x)) \<and> fst x \<le> fst (snd (throttleVal k x))"
  by (cases x) (fastforce simp: throttleVal_def pastOnly_def Let_def delay_def split: option.split dest: cleanUp_attempts)

lemma throttleVal_waits:
  assumes "pastOnly x" and "trAttempts (snd x) k = Some (l, n)" and "buffer \<le> n"
  shows "l + delay \<le> fst (snd (throttleVal k x))"
proof -
  obtain now tr where x: "x = (now, tr)" by (cases x)
  have l: "l \<le> now" using assms(1,2) unfolding pastOnly_def x fst_conv snd_conv by blast
  show ?thesis
  proof (cases "now - l < delay")
    case True
    then have "trAttempts (cleanUp now tr) k = Some (l, n)" using cleanUp_kept assms(2) by (simp add: x)
    then show ?thesis using True assms(3) l by (simp add: x throttleVal_def Let_def)
  next
    case False
    then show ?thesis using throttleVal_past [OF assms(1), of k] by (simp add: x)
  qed
qed

lemma throttles_waits:
  assumes "pastOnly (now, tr)" and "trAttempts tr username = Some (l, n)" and "buffer \<le> n"
  shows "l + delay \<le> fst (throttles remote username (now, tr)) \<and> pastOnly (throttles remote username (now, tr))"
proof -
  let ?x = "snd (throttleVal remote (now, tr))"
  have l: "l \<le> now" using assms(1,2) unfolding pastOnly_def fst_conv snd_conv by blast
  have x: "pastOnly ?x" "now \<le> fst ?x" using throttleVal_past [OF assms(1), of remote] by simp_all
  show ?thesis
  proof (cases "remote \<noteq> []")
    case False
    then show ?thesis using throttleVal_waits [OF assms(1) _ assms(3), of username l] assms(2) throttleVal_past [OF assms(1)]
      by (simp add: throttles_def)
  next
    case True
    show ?thesis
    proof (cases "fst (throttleVal remote (now, tr))")
      case th: True
      then have "fst ?x = now + delay" by (auto simp: throttleVal_def Let_def split: option.splits if_splits)
      then show ?thesis using True th l x(1) by (simp add: throttles_def)
    next
      case th: False
      have "l + delay \<le> fst (snd (throttleVal username ?x))"
      proof (cases "trAttempts (snd ?x) username = Some (l, n)")
        case True
        then show ?thesis by (rule throttleVal_waits [OF x(1) _ assms(3)])
      next
        case False
        then have "\<not> now - l \<le> delay" using cleanUp_kept [of tr username l n now] assms(2)
          by (auto simp: throttleVal_def Let_def split: option.splits if_splits)
        then show ?thesis using throttleVal_past [OF x(1), of username] x(2) by linarith
      qed
      then show ?thesis using True th throttleVal_past [OF x(1)] by (simp add: throttles_def)
    qed
  qed
qed


definition bruteAuth :: authLib where
  "bruteAuth = \<lparr>auGet = (\<lambda>m. True), auFail = (\<lambda>fn m. False), auCompare = (\<lambda>h pw. h = pw), auUpper = (\<lambda>b. b)\<rparr>"

definition bruteState :: authState where
  "bruteState = \<lparr>asDb = \<lparr>mdDevices = [\<lparr>dvID = 1, dvUserID = 7, dvPassHash = ''X'', dvDeleted = False, dvLastTime = 0, dvLastAddr = []\<rparr>],
       mdAddresses = [(''joe'', 7)]\<rparr>, asNow = 100, asThrottle = newThrottle\<lparr>trAttempts := [''joe'' \<mapsto> (100, 10)], trCleaned := Some 0\<rparr>\<rparr>"


subsection \<open>Recipients\<close>

definition posIDs :: "spillDb \<Rightarrow> bool" where
  "posIDs d \<longleftrightarrow> (\<forall>a\<in>set (dbAddresses d). 0 < adID a)"

text \<open>Operations that leave every address its positive ID.\<close>

definition stays :: "'a dbm \<Rightarrow> bool" where
  "stays m \<longleftrightarrow> (\<forall>d. posIDs d \<longrightarrow> posIDs (snd (m d)))"

named_theorems staysDb

lemma stays_base [staysDb]: "stays (okDb x)" "stays (failDb e)" "stays (readDb p fn q)"
  by (auto simp: stays_def okDb_def failDb_def readDb_def split: option.split)

lemma stays_bind [staysDb]: "stays m \<Longrightarrow> (\<And>x. stays (f x)) \<Longrightarrow> stays (bindDb m f)"
  by (auto simp: stays_def bindDb_def split: prod.split sum.split)

lemma stays_mapErr [staysDb]: "stays m \<Longrightarrow> stays (mapErr g m)"
  by (auto simp: stays_def mapErr_def split: prod.split sum.split)

lemma stays_write: "(\<And>d x d1. posIDs d \<Longrightarrow> u d = Inr (x, d1) \<Longrightarrow> posIDs d1) \<Longrightarrow> stays (writeDb p c fn u)"
  by (auto simp: stays_def writeDb_def split: option.split sum.split)

lemma stays_rand: "(\<And>d d1. posIDs d \<Longrightarrow> ins (libRandID p fn d) d = Inr d1 \<Longrightarrow> posIDs d1) \<Longrightarrow> stays (insertRandID p c fn ins)"
  unfolding insertRandID_def by (rule stays_write) (auto simp: Let_def split: sum.splits)

lemma stays_each [staysDb]: "(\<And>x. stays (f x)) \<Longrightarrow> stays (eachDb f xs)"
  by (induction xs) (auto intro: staysDb)

text \<open>\<open>InsertRandID\<close> gives IDs from 1 on.\<close>

definition randPos :: "spillLib \<Rightarrow> bool" where
  "randPos p \<longleftrightarrow> (\<forall>fn d. 0 < libRandID p fn d)"

lemma stays_address: "randPos p \<Longrightarrow> stays (insertRandID p c fn (insertAddress contact name addr dflt vis))"
  by (rule stays_rand) (auto simp: insertAddress_def posIDs_def randPos_def split: if_splits)

lemma stays_resolve:
  assumes "randPos p"
  shows "stays (resolveAddressID p na v)" and "stays (insertDeliveredTo p a)" and "stays (insertMsgAddr p i j k)"
proof -
  note a = stays_address [OF assms]
  have c: "stays (insertRandID p c fn insertContact)" for c fn
    by (rule stays_rand) (auto simp: insertContact_def posIDs_def split: if_splits)
  have f: "stays (firstContact p fn addr n)" for fn addr n unfolding firstContact_def by (auto intro!: staysDb)
  have r: "stays (resolveInsert p name addr vis dflt n)" for name addr vis dflt n
    unfolding resolveInsert_def Let_def by (auto intro!: staysDb a)
  have u: "stays (updateDb p PoolRW fn (\<lambda>d. d\<lparr>dbAddresses := map (\<lambda>a. if adID a = aid then a\<lparr>adVisible := v\<rparr> else a) (dbAddresses d)\<rparr>))" for fn aid v
    unfolding updateDb_def by (rule stays_write) (auto simp: posIDs_def)
  show "stays (resolveAddressID p na v)"
    unfolding resolveAddressID_def by (auto simp: Let_def intro!: staysDb a c f r u split: prod.split list.split)
  show "stays (insertDeliveredTo p a)" unfolding insertDeliveredTo_def Let_def by (auto intro!: staysDb a)
  show "stays (insertMsgAddr p i j k)" unfolding insertMsgAddr_def by (rule stays_write) (auto simp: posIDs_def split: if_splits)
qed

text \<open>The row that a name and an address resolve to.\<close>

abbreviation sameAddress :: "bytes \<Rightarrow> bytes \<Rightarrow> addressRow \<Rightarrow> bool" where
  "sameAddress name addr a \<equiv> adName a = Some name \<and> adAddr a = addr"

lemma addressRows_set: "set (addressRows P d) = {a \<in> set (dbAddresses d). P a}"
  by (auto simp: addressRows_def)

lemma firstContact_frame: "firstContact p fn addr n d = (Inr x, d1) \<Longrightarrow> d1 = d"
  by (auto simp: firstContact_def dbm_Inr split: if_splits list.splits)

lemma contact_frame:
  "(if n \<noteq> 0 then okDb (n, False) else bindDb (insertRandID p c fn insertContact) (\<lambda>i. okDb (i, True))) d = (Inr x, d1) \<Longrightarrow>
    dbAddresses d1 = dbAddresses d \<and> dbMsgAddrs d1 = dbMsgAddrs d"
  by (auto simp: dbm_Inr insertContact_def split: if_splits)

lemma addressRows_map:
  assumes "dbAddresses d1 = map f (dbAddresses d)" and "\<And>a. adID (f a) = adID a \<and> adName (f a) = adName a \<and> adAddr (f a) = adAddr a"
  shows "map adID (addressRows (sameAddress name addr) d1) = map adID (addressRows (sameAddress name addr) d)"
proof -
  have "filter (sameAddress name addr) (map f (dbAddresses d)) = map f (filter (sameAddress name addr) (dbAddresses d))"
    using assms(2) by (simp add: filter_map comp_def)
  moreover have "map adID (sort_key adID (map f xs)) = map adID (sort_key adID xs)" for xs
  proof -
    have s: "map adID (sort_key adID ys) = sort (map adID ys)" for ys :: "addressRow list" by (rule properties_for_sort [symmetric]) simp_all
    have "map adID (map f xs) = map adID xs" using assms(2) by simp
    then show ?thesis by (simp only: s)
  qed
  ultimately show ?thesis by (simp add: addressRows_def assms(1))
qed

lemma resolve_found:
  assumes "addressRows (sameAddress name addr) d = r # rs" and "adID r \<noteq> 0" and "resolveAddressID p (name, addr) True d = (Inr (aid, c), d1)"
  shows "aid = adID r" and "map adID (addressRows (sameAddress name addr) d1) = map adID (r # rs)" and "dbMsgAddrs d1 = dbMsgAddrs d"
proof -
  let ?f = "\<lambda>a. if adID a = adID r then a\<lparr>adVisible := True\<rparr> else a"
  have d1: "aid = adID r \<and> dbMsgAddrs d1 = dbMsgAddrs d \<and> (dbAddresses d1 = dbAddresses d \<or> dbAddresses d1 = map ?f (dbAddresses d))"
    using assms by (auto simp: resolveAddressID_def dbm_Inr Let_def insertContact_def dest!: firstContact_frame split: if_splits prod.splits)
  then show "aid = adID r" "dbMsgAddrs d1 = dbMsgAddrs d" by simp_all
  show "map adID (addressRows (sameAddress name addr) d1) = map adID (r # rs)"
  proof (cases "dbAddresses d1 = dbAddresses d")
    case True
    then show ?thesis using assms(1) by (simp add: addressRows_def)
  next
    case False
    then have "dbAddresses d1 = map ?f (dbAddresses d)" using d1 by blast
    then have "map adID (addressRows (sameAddress name addr) d1) = map adID (addressRows (sameAddress name addr) d)"
      by (rule addressRows_map) simp
    then show ?thesis by (simp only: assms(1))
  qed
qed

lemma resolve_new:
  assumes "addressRows (sameAddress name addr) d = []" and "resolveAddressID p (name, addr) True d = (Inr (aid, c), d1)"
  shows "map adID (addressRows (sameAddress name addr) d1) = [aid]" and "dbMsgAddrs d1 = dbMsgAddrs d"
proof -
  have e: "filter (sameAddress name addr) (dbAddresses d) = []"
    using assms(1) addressRows_set [of "sameAddress name addr" d] by (simp add: filter_empty_conv)
  have "\<exists>d0 contact dflt. dbAddresses d0 = dbAddresses d \<and> dbMsgAddrs d0 = dbMsgAddrs d \<and>
      resolveInsert p name addr True dflt contact d0 = (Inr aid, d1)"
    using assms by (auto simp: resolveAddressID_def bindDb_Inr readDb_Inr Let_def dest!: firstContact_frame contact_frame) (metis+)?
  then obtain d0 contact dflt where d0: "dbAddresses d0 = dbAddresses d" "dbMsgAddrs d0 = dbMsgAddrs d"
    "resolveInsert p name addr True dflt contact d0 = (Inr aid, d1)" by blast
  define a where "a = \<lparr>adID = aid, adContact = contact, adName = Some name, adAddr = addr, adDefault = dflt, adVisible = True\<rparr>"
  have "\<exists>b. dbAddresses d1 = dbAddresses d0 @ a # b \<and> (\<forall>x\<in>set b. adAddr x \<noteq> addr) \<and> dbMsgAddrs d1 = dbMsgAddrs d0"
    using d0(3) by (auto simp: resolveInsert_def Let_def dbm_Inr insertAddress_def a_def split: if_splits)
  then obtain b where d2: "adID a = aid" "sameAddress name addr a" "dbAddresses d1 = dbAddresses d0 @ a # b" "\<forall>x\<in>set b. adAddr x \<noteq> addr"
    "dbMsgAddrs d1 = dbMsgAddrs d0" by (auto simp: a_def)
  have "filter (sameAddress name addr) b = []" using d2(4) by (auto simp: filter_empty_conv)
  then have "filter (sameAddress name addr) (dbAddresses d1) = [a]" using e d2(2,3) d0(1) by simp
  then show "map adID (addressRows (sameAddress name addr) d1) = [aid]" using d2(1) by (simp add: addressRows_def)
  show "dbMsgAddrs d1 = dbMsgAddrs d" using d2(5) d0(2) by simp
qed

lemma insertMsgAddr_Inr:
  "insertMsgAddr p i a role d = (Inr u, d1) \<Longrightarrow> (i, a, role) \<notin> set (dbMsgAddrs d) \<and> d1 = d\<lparr>dbMsgAddrs := dbMsgAddrs d @ [(i, a, role)]\<rparr>"
  by (auto simp: insertMsgAddr_def dbm_Inr split: if_splits)

lemma eachDb_append: "eachDb f (xs @ ys) d = (Inr u, d1) \<Longrightarrow> \<exists>d0. eachDb f xs d = (Inr (), d0) \<and> eachDb f ys d0 = (Inr u, d1)"
  by (induction xs arbitrary: d) (fastforce simp: bindDb_Inr okDb_def)+

text \<open>The same recipient twice in a row: the second time the row of the message's address is there already.\<close>

lemma insert_twice:
  assumes "randPos p" and "posIDs d" and
    "eachDb (\<lambda>na. bindDb (mapErr g (resolveAddressID p na True)) (\<lambda>(aid, _). insertMsgAddr p mid aid role)) (na # na # ys) d = (Inr u, d1)"
  shows False
proof -
  obtain name addr where na: "na = (name, addr)" by (cases na)
  obtain aid c dA dB aid2 c2 dC dD where s: "resolveAddressID p (name, addr) True d = (Inr (aid, c), dA)"
    "insertMsgAddr p mid aid role dA = (Inr (), dB)" "resolveAddressID p (name, addr) True dB = (Inr (aid2, c2), dC)"
    "insertMsgAddr p mid aid2 role dC = (Inr (), dD)"
    using assms(3) unfolding na by (auto simp: bindDb_Inr mapErr_Inr)
  have posA: "posIDs dA" using stays_resolve(1) [OF assms(1)] assms(2) s(1) unfolding stays_def by (metis snd_conv)
  have "\<exists>r rs. addressRows (sameAddress name addr) dA = r # rs \<and> adID r = aid"
  proof (cases "addressRows (sameAddress name addr) d")
    case Nil
    then show ?thesis using resolve_new(1) [OF Nil s(1)] by auto
  next
    case (Cons r rs)
    then have "r \<in> set (dbAddresses d)" using addressRows_set [of "sameAddress name addr"] by fastforce
    then have "adID r \<noteq> 0" using assms(2) by (auto simp: posIDs_def)
    then show ?thesis using resolve_found(1,2) [OF Cons _ s(1)] by auto
  qed
  then obtain r rs where r: "addressRows (sameAddress name addr) dA = r # rs" "adID r = aid" by blast
  have dB: "dB = dA\<lparr>dbMsgAddrs := dbMsgAddrs dA @ [(mid, aid, role)]\<rparr>" using insertMsgAddr_Inr [OF s(2)] by simp
  have rB: "addressRows (sameAddress name addr) dB = r # rs" using r(1) by (simp add: dB addressRows_def)
  have "r \<in> set (dbAddresses dA)" using r(1) addressRows_set [of "sameAddress name addr"] by fastforce
  then have "adID r \<noteq> 0" using posA by (auto simp: posIDs_def)
  then have "aid2 = aid" "dbMsgAddrs dC = dbMsgAddrs dB" using resolve_found(1,3) [OF rB _ s(3)] r(2) by simp_all
  then show False using insertMsgAddr_Inr [OF s(4)] by (simp add: dB)
qed

lemma insertRole_twice:
  assumes "randPos p" and "posIDs d" and "TrimSpace (fst (hGet (snd role) hdr)) \<noteq> []"
    and "libAddressList p (TrimSpace (fst (hGet (snd role) hdr))) = Inr (xs @ na # na # ys)"
  shows "insertRole p mid hdr role d \<noteq> (Inr u, d1)"
proof
  assume "insertRole p mid hdr role d = (Inr u, d1)"
  then have e: "eachDb (\<lambda>na. bindDb (mapErr (wrapErr p (addrErr mid (''resolving '' @ roleString (fst role)))) (resolveAddressID p na True))
      (\<lambda>(aid, _). insertMsgAddr p mid aid (fst role))) (xs @ na # na # ys) d = (Inr u, d1)"
    using assms(3,4) by (simp add: insertRole_def Let_def)
  let ?f = "\<lambda>na. bindDb (mapErr (wrapErr p (addrErr mid (''resolving '' @ roleString (fst role)))) (resolveAddressID p na True))
      (\<lambda>(aid, _). insertMsgAddr p mid aid (fst role))"
  have "stays (?f na)" for na by (auto intro!: staysDb stays_resolve [OF assms(1)] split: prod.split)
  then have st: "stays (eachDb ?f xs)" by (rule stays_each)
  obtain d0 where d0: "eachDb ?f xs d = (Inr (), d0)" "eachDb ?f (na # na # ys) d0 = (Inr u, d1)" using eachDb_append [OF e] by blast
  have "posIDs d0" using st assms(2) d0(1) unfolding stays_def by (metis snd_conv)
  then show False by (rule insert_twice [OF assms(1) _ d0(2)])
qed

lemma stays_Inr: "stays m \<Longrightarrow> posIDs d \<Longrightarrow> m d = (r, d1) \<Longrightarrow> posIDs d1"
  unfolding stays_def by (metis snd_conv)

lemma stays_role: "randPos p \<Longrightarrow> stays (insertRole p mid hdr role)"
  unfolding insertRole_def Let_def by (auto intro!: staysDb stays_resolve split: sum.split prod.split)

lemma stays_insertHdrs: "stays (insertHdrs p hdr)"
  unfolding insertHdrs_def fillBlob_def
  by (cases "hEncode hdr")
    (auto intro!: staysDb stays_write simp: posIDs_def insertBlob_def updateBlob_def Let_def split: if_splits sum.splits list.splits option.splits)

lemma stays_insertMsgRow: "stays (insertOrRand p fn i (insertMsgRow msg staging hdrs))"
proof -
  have r: "posIDs d1" if "posIDs d" "insertMsgRow msg staging hdrs j d = Inr d1" for j d d1
    using that by (auto simp: insertMsgRow_def posIDs_def split: if_splits)
  have a: "stays (writeDb p PoolRW fn (\<lambda>d. case insertMsgRow msg staging hdrs i d of Inl e \<Rightarrow> Inl e | Inr d1 \<Rightarrow> Inr (i, d1)))"
    by (rule stays_write) (auto intro: r split: sum.splits)
  have b: "stays (insertRandID p PoolRW fn (insertMsgRow msg staging hdrs))" by (rule stays_rand) (rule r)
  show ?thesis unfolding stays_def
  proof (intro allI impI)
    fix d assume d: "posIDs d"
    obtain x d0 where w: "writeDb p PoolRW fn (\<lambda>d. case insertMsgRow msg staging hdrs i d of Inl e \<Rightarrow> Inl e | Inr d1 \<Rightarrow> Inr (i, d1)) d = (x, d0)"
      by (metis surj_pair)
    have d0: "posIDs d0" by (rule stays_Inr [OF a d w])
    then have "posIDs (snd (insertRandID p PoolRW fn (insertMsgRow msg staging hdrs) d0))" using b by (simp add: stays_def)
    then show "posIDs (snd (insertOrRand p fn i (insertMsgRow msg staging hdrs) d))"
      using d0 by (auto simp: insertOrRand_def w split: sum.split dbErr.split)
  qed
qed

lemma addresses_twice:
  assumes r: "randPos p" and d: "posIDs d" and role: "role \<in> set roleHeaders" "TrimSpace (fst (hGet (snd role) hdr)) \<noteq> []"
    "libAddressList p (TrimSpace (fst (hGet (snd role) hdr))) = Inr (xs @ na # na # ys)"
  shows "insertAddresses p mid hdr d \<noteq> (Inr u, d1)"
proof
  assume e: "insertAddresses p mid hdr d = (Inr u, d1)"
  let ?from = "fst (hGet ''From'' hdr)"
  let ?m = "if ?from = [] then okDb 0
    else (case libAddress p ?from of Inl e \<Rightarrow> failDb (DbErr (addrErr mid ''parsing From header'' @ e))
      | Inr na \<Rightarrow> bindDb (mapErr (wrapErr p (addrErr mid ''resolving From addr'')) (resolveAddressID p na True)) (\<lambda>(aid, _). okDb aid))"
  obtain x d2 frm d3 y d4 where s: "eachDb (insertDeliveredTo p) (case hIndex hdr of None \<Rightarrow> [] | Some m \<Rightarrow> m ''Delivered-To'') d = (Inr x, d2)"
    "?m d2 = (Inr frm, d3)" "insertMsgAddr p mid frm RoleFrom d3 = (Inr y, d4)" "eachDb (insertRole p mid hdr) roleHeaders d4 = (Inr u, d1)"
    using e unfolding insertAddresses_def Let_def saveDb_Inr bindDb_Inr by blast
  have "stays ?m" by (auto intro!: staysDb stays_resolve [OF r] split: sum.split prod.split)
  then have d3: "posIDs d3" using stays_Inr [OF stays_each [OF stays_resolve(2) [OF r]] d s(1)] s(2) stays_Inr by blast
  have d4: "posIDs d4" by (rule stays_Inr [OF stays_resolve(3) [OF r] d3 s(3)])
  obtain ps qs where rs: "roleHeaders = ps @ role # qs" using role(1) by (metis split_list)
  obtain d5 where d5: "eachDb (insertRole p mid hdr) ps d4 = (Inr (), d5)" "eachDb (insertRole p mid hdr) (role # qs) d5 = (Inr u, d1)"
    using eachDb_append [of "insertRole p mid hdr" ps "role # qs"] s(4) unfolding rs by blast
  have "posIDs d5" by (rule stays_Inr [OF stays_each [OF stays_role [OF r]] d4 d5(1)])
  then show False using d5(2) insertRole_twice [OF r _ role(2,3)] by (auto simp: bindDb_Inr)
qed

text \<open>C16: A new message one of whose headers To, CC and BCC names the same recipient twice in a row is refused by \<open>InsertMsg\<close>, and nothing of
  it is stored: the second row of the message's addresses violates the primary key of the table.\<close>

theorem duplicate_recipient_refused:
  assumes "randPos p" and "posIDs d" and "nmID msg = 0" and "role \<in> set roleHeaders" and "TrimSpace (fst (hGet (snd role) (nmHeaders msg))) \<noteq> []"
    and "libAddressList p (TrimSpace (fst (hGet (snd role) (nmHeaders msg)))) = Inr (xs @ na # na # ys)"
  shows "\<exists>e. InsertMsg p notifiers msg staging d = (Inl e, d)"
proof -
  have "newMsgRow p msg staging d \<noteq> (Inr i, d1)" for i d1
  proof
    assume e: "newMsgRow p msg staging d = (Inr i, d1)"
    then obtain hdrs d2 where h: "insertHdrs p (nmHeaders msg) d = (Inr hdrs, d2)" by (auto simp: newMsgRow_def bindDb_Inr)
    obtain mid0 mid d3 u d4 where m: "insertOrRand p ''insertMsg'' mid0 (insertMsgRow msg staging hdrs) d2 = (Inr mid, d3)"
      "insertAddresses p mid (nmHeaders msg) d3 = (Inr u, d4)"
      using e h by (auto simp: newMsgRow_def bindDb_Inr split: go.splits)
    have "posIDs d3" by (rule stays_Inr [OF stays_insertMsgRow stays_Inr [OF stays_insertHdrs assms(2) h] m(1)])
    then show False using addresses_twice [OF assms(1) _ assms(4-6)] m(2) by blast
  qed
  then have n: "\<exists>e d1. newMsgRow p msg staging d = (Inl e, d1)" by (metis old.sum.exhaust surj_pair)
  have "\<exists>e. insertMsg p msg staging d = (Inl e, d)"
    using n assms(3) by (auto simp: insertMsg_def saveDb_def bindDb_def failDb_def)
  then show ?thesis by (auto simp: InsertMsg_def bindDb_def mapErr_def)
qed

definition twiceLib :: spillLib where
  "twiceLib = \<lparr>libFail = (\<lambda>fn d. None), libReadOnly = False, libIsPrint = (\<lambda>r. True), libLower = (\<lambda>b. b), libErrText = (\<lambda>e. []),
     libRandID = (\<lambda>fn d. 1 + int (length (dbMsgs d) + length (dbAddresses d))), libNow = (\<lambda>d. 0), libGzip = (\<lambda>b. b), libGunzip = Inr,
     libSHA256 = (\<lambda>b. b), libParseHdrs = (\<lambda>b. Inr emptyHeader), libAddress = (\<lambda>b. Inr ([], b)),
     libAddressList = (\<lambda>b. Inr [([], ''ann@x''), ([], ''ann@x'')])\<rparr>"

definition twiceMsg :: newMsg where
  "twiceMsg = \<lparr>nmID = 0, nmSeed = 1, nmMailbox = 0, nmRawHash = ''0123456789abcdef'', nmDate = 0,
     nmHeaders = hAdd ''To'' ''ann@x, ann@x'' (hAdd ''From'' ''joe@y'' emptyHeader), nmFlags = [], nmParts = [], nmSize = 10\<rparr>"

theorem duplicate_recipient_refused_witness:
  "\<exists>e. InsertMsg twiceLib False twiceMsg 0 initDb = (Inl e, initDb)"
proof (rule duplicate_recipient_refused [where role = "(RoleTo, ''To'')" and xs = "[]" and na = "([], ''ann@x'')" and ys = "[]"])
  show "randPos twiceLib" by (simp add: randPos_def twiceLib_def)
  show "posIDs initDb" by (simp add: posIDs_def initDb_def)
  show "nmID twiceMsg = 0" by (simp add: twiceMsg_def)
  show "(RoleTo, ''To'') \<in> set roleHeaders" by (simp add: roleHeaders_def)
  have "fst (hGet ''To'' (nmHeaders twiceMsg)) = ''ann@x, ann@x''" by code_simp
  moreover have "TrimSpace ''ann@x, ann@x'' = ''ann@x, ann@x''" by (rule TrimSpace_id) code_simp+
  ultimately show "TrimSpace (fst (hGet (snd (RoleTo, ''To'')) (nmHeaders twiceMsg))) \<noteq> []" by simp
  show "libAddressList twiceLib (TrimSpace (fst (hGet (snd (RoleTo, ''To'')) (nmHeaders twiceMsg)))) = Inr ([] @ ([], ''ann@x'') # ([], ''ann@x'') # [])"
    by (simp add: twiceLib_def)
qed

end
