(* ===== verification/SpillDelivery.thy ===== *)
theory SpillDelivery
  imports ImapDbRuns SpillProps
begin

text \<open>
  What an insertion does to a user's database: \<open>InsertMsg\<close> of a new message adds one row, ready, with the next UID of its mailbox, and
  leaves the other rows as they are; APPEND on it; what was stored is loaded again.
\<close>

subsection \<open>The row of a new message\<close>

definition rowFor :: "newMsg \<Rightarrow> int \<Rightarrow> msgRow \<Rightarrow> bool" where
  "rowFor msg staging row \<longleftrightarrow> rwFlags row = Some (nmFlags msg) \<and> rwDate row = nmDate msg \<and> rwSize row = Some (nmSize msg) \<and>
     rwStagingID row = (if staging \<noteq> 0 then Some staging else None) \<and> rwRawHash row = Some (nmRawHash msg)"

lemma insertMsgRow_effect:
  "insertMsgRow msg staging hdrs i d = Inr d1 \<Longrightarrow> i \<notin> rwID ` set (dbMsgs d) \<and> (staging \<noteq> 0 \<longrightarrow> Some staging \<notin> rwStagingID ` set (dbMsgs d)) \<and>
    (\<exists>row. rwID row = i \<and> rwState row = MsgFetching \<and> rowFor msg staging row \<and> coreDb d1 = (dbMailboxes d, dbMsgs d @ [row]))"
  by (auto simp: insertMsgRow_def coreDb_def rowFor_def split: if_splits)

lemma insertOrRand_Inr:
  assumes "insertOrRand p fn i ins d = (Inr x, d1)"
  shows "\<exists>d0. coreDb d0 = coreDb d \<and> ins x d0 = Inr d1"
proof -
  have w: "writeDb p PoolRW fn u d = (Inl e, d0) \<Longrightarrow> d0 = d" for u d0 and e :: dbErr
    by (auto simp: writeDb_def split: if_splits option.splits sum.splits)
  obtain r d0 where r: "writeDb p PoolRW fn (\<lambda>d. case ins i d of Inl e \<Rightarrow> Inl e | Inr d1 \<Rightarrow> Inr (i, d1)) d = (r, d0)" by (metis surj_pair)
  show ?thesis
  proof (cases r)
    case (Inl e)
    then have "insertRandID p PoolRW fn ins d = (Inr x, d1)" using assms r w [OF r [unfolded Inl]]
      by (auto simp: insertOrRand_def split: dbErr.splits)
    then show ?thesis unfolding insertRandID_Inr by blast
  next
    case (Inr y)
    then have "y = x" "d0 = d1" using assms r by (auto simp: insertOrRand_def)
    then show ?thesis using r Inr by (auto simp: writeDb_Inr split: sum.splits)
  qed
qed

lemma newMsgRow_effect:
  assumes "newMsgRow p msg staging d = (Inr mid, d1)"
  shows "mid \<notin> rwID ` set (dbMsgs d) \<and> (staging \<noteq> 0 \<longrightarrow> Some staging \<notin> rwStagingID ` set (dbMsgs d)) \<and>
    (\<exists>row. rwID row = mid \<and> rwState row = MsgFetching \<and> rowFor msg staging row \<and> coreDb d1 = (dbMailboxes d, dbMsgs d @ [row]))"
proof -
  obtain hdrs d2 mid0 d3 u where r: "insertHdrs p (nmHeaders msg) d = (Inr hdrs, d2)"
    "insertOrRand p ''insertMsg'' mid0 (insertMsgRow msg staging hdrs) d2 = (Inr mid, d3)" "insertAddresses p mid (nmHeaders msg) d3 = (Inr u, d1)"
    using assms by (cases "extractMsgID (nmRawHash msg)") (auto simp: newMsgRow_def bindDb_Inr)
  obtain d0 where d0: "coreDb d0 = coreDb d2" "insertMsgRow msg staging hdrs mid d0 = Inr d3" using insertOrRand_Inr [OF r(2)] by blast
  have "coreDb d2 = coreDb d" by (rule quietD [OF quiet_convo(2) r(1)])
  moreover have "coreDb d1 = coreDb d3" by (rule quietD [OF quiet_addresses r(3)])
  ultimately show ?thesis using insertMsgRow_effect [OF d0(2)] d0(1) by (simp add: coreDb_def)
qed

lemma map_last: "rwID row \<notin> rwID ` set ms \<Longrightarrow> rwID row = i \<Longrightarrow> map (\<lambda>m. if rwID m = i then f m else m) (ms @ [row]) = ms @ [f row]"
  by (simp, rule map_idI) (metis image_eqI)

text \<open>The counter of the mailbox \<open>mb\<close> goes from \<open>n\<close> to the next number.\<close>

definition bumped :: "int \<Rightarrow> int \<Rightarrow> mailboxRow list \<Rightarrow> mailboxRow list" where
  "bumped mb n bs = map (\<lambda>m. if mxID m = mb \<and> mxNextUID m = n then m\<lparr>mxNextUID := n + 1\<rparr> else m) bs"

lemma nextMsgUID_Inr:
  "nextMsgUID p c mb d = (Inr uid, d1) \<Longrightarrow>
    \<exists>n. map mxNextUID (filter (\<lambda>m. mxID m = mb) (dbMailboxes d)) = [n] \<and> uid = word_of_int n \<and> coreDb d1 = (bumped mb n (dbMailboxes d), dbMsgs d)"
  by (auto simp: nextMsgUID_def dbm_Inr coreDb_def bumped_def)

text \<open>The mailbox that is given, or else one of the two for mail that comes in.\<close>

definition destination :: "int \<Rightarrow> int \<Rightarrow> spillDb \<Rightarrow> bool" where
  "destination provided mb d \<longleftrightarrow> (if provided \<noteq> 0 then mb = provided
     else (\<exists>b\<in>set (dbMailboxes d). mxID b = mb \<and> mxName b \<in> {Some ''INBOX'', Some ''Subscriptions''}))"

lemma assignMailbox_effect:
  assumes "assignMailbox p mid provided d = (Inr mb, d1)"
  shows "\<exists>n ms. map mxNextUID (filter (\<lambda>m. mxID m = mb) (dbMailboxes d)) = [n] \<and> destination provided mb d \<and>
    coreDb d1 = (bumped mb n (dbMailboxes d), map (\<lambda>m. if rwID m = mid
      then m\<lparr>rwMailbox := Some mb, rwUID := Some (uint (word_of_int n :: u32)), rwModSeq := Some ms\<rparr> else m) (dbMsgs d))"
proof -
  obtain hdr dA un dB dC uid dD ms dE where r: "loadMsgHdrs p mid d = (Inr hdr, dA)" "hasUnsubscribe p ''assignMailbox unsubscribe'' mid dA = (Inr un, dB)"
    "(if provided \<noteq> 0 then okDb provided else (let name = (if isSubscription hdr \<or> un then ''Subscriptions'' else ''INBOX'') in
       resultDb p ''assignMailbox name'' (\<lambda>d. map mxID (filter (\<lambda>m. mxName m = Some name) (dbMailboxes d))))) dB = (Inr mb, dC)"
    "nextMsgUID p PoolRW mb dC = (Inr uid, dD)" "nextMsgModSeq p PoolRW mb dD = (Inr ms, dE)"
    "d1 = updateMsg mid (\<lambda>m. m\<lparr>rwMailbox := Some mb, rwUID := Some (uint uid), rwModSeq := Some ms\<rparr>) dE"
    using assms unfolding assignMailbox_def bindDb_Inr by (auto simp: updateDb_Inr)
  have c: "coreDb dB = coreDb d" using quietD [OF quiet_loads(1) r(1)] quietD [OF quiet_loads(5) r(2)] by simp
  have C: "coreDb dC = coreDb d" "destination provided mb d"
    using r(3) c by (auto simp: resultDb_Inr destination_def coreDb_def Let_def filter_eq_Cons_iff split: if_splits)
  obtain n where n: "map mxNextUID (filter (\<lambda>m. mxID m = mb) (dbMailboxes dC)) = [n]" "uid = word_of_int n"
    "coreDb dD = (bumped mb n (dbMailboxes dC), dbMsgs dC)" using nextMsgUID_Inr [OF r(4)] by (elim exE conjE) (rule that)
  have "coreDb dE = coreDb dD" by (rule quietD [OF quiet_nextMsgModSeq r(5)])
  then show ?thesis using C n by (intro exI [of _ n] exI [of _ ms]) (simp add: r(6) coreDb_def updateMsg_tables)
qed

lemma assignConvo_effect:
  assumes "assignConvo p mid d = (Inr x, d1)"
  shows "\<exists>c. coreDb d1 = (dbMailboxes d, map (\<lambda>m. if rwID m = mid then m\<lparr>rwConvo := Some c\<rparr> else m) (dbMsgs d))"
proof -
  obtain cs c d2 where r: "(case cs of c # _ \<Rightarrow> okDb c | [] \<Rightarrow> dropErr 0 (newConvo p mid)) d = (Inr c, d2)"
    "d1 = updateMsg mid (\<lambda>m. m\<lparr>rwConvo := Some c\<rparr>) d2"
    using assms by (auto simp: assignConvo_def dbm_Inr)
  have "quiet (case cs of c # _ \<Rightarrow> okDb c | [] \<Rightarrow> dropErr 0 (newConvo p mid))" by (auto intro: quietDb split: list.split)
  then have "coreDb d2 = coreDb d" using r(1) quietD by blast
  then show ?thesis by (intro exI [of _ c]) (simp add: r(2) coreDb_def updateMsg_tables)
qed

lemma insertMsg_effect:
  assumes "insertMsg p msg staging d = (Inr (True, msg1), d1)" and "nmID msg = 0"
  shows "\<exists>row n. map mxNextUID (filter (\<lambda>m. mxID m = nmMailbox msg1) (dbMailboxes d)) = [n] \<and> destination (nmMailbox msg) (nmMailbox msg1) d \<and>
    nmID msg1 \<notin> rwID ` set (dbMsgs d) \<and> (staging \<noteq> 0 \<longrightarrow> Some staging \<notin> rwStagingID ` set (dbMsgs d)) \<and>
    rwID row = nmID msg1 \<and> rowFor msg staging row \<and> rwState row = MsgReady \<and> rwMailbox row = Some (nmMailbox msg1) \<and>
    rwUID row = Some (uint (word_of_int n :: u32)) \<and>
    dbMailboxes d1 = bumped (nmMailbox msg1) n (dbMailboxes d) \<and> dbMsgs d1 = dbMsgs d @ [row]"
proof -
  obtain mid dA nps dB mb where r: "newMsgRow p msg staging d = (Inr mid, dA)" "insertParts p mid 0 (nmParts msg) dA = (Inr nps, dB)"
    "setMsgFetched p mid (nmMailbox msg) dB = (Inr mb, d1)" "msg1 = msg\<lparr>nmID := mid, nmParts := nps, nmMailbox := mb\<rparr>"
    using assms by (auto simp: insertMsg_def dbm_Inr split: if_splits)
  obtain row where row: "mid \<notin> rwID ` set (dbMsgs d)" "staging \<noteq> 0 \<longrightarrow> Some staging \<notin> rwStagingID ` set (dbMsgs d)" "rwID row = mid"
    "rwState row = MsgFetching" "rowFor msg staging row" "coreDb dA = (dbMailboxes d, dbMsgs d @ [row])" using newMsgRow_effect [OF r(1)] by blast
  have B: "coreDb dB = coreDb dA" by (rule quietD [OF quiet_parts(4) r(2)])
  obtain dC dD x where s: "dC = updateMsg mid (\<lambda>m. if rwState m = MsgFetching then m\<lparr>rwState := MsgReady\<rparr> else m) dB"
    "assignMailbox p mid (nmMailbox msg) dC = (Inr mb, dD)" "assignConvo p mid dD = (Inr x, d1)"
    using r(3) by (auto simp: setMsgFetched_def dbm_Inr)
  have f: "rwID row' = mid \<Longrightarrow> map (\<lambda>m. if rwID m = mid then g m else m) (dbMsgs d @ [row']) = dbMsgs d @ [g row']" for g row'
    by (rule map_last) (use row(1) in simp_all)
  define row1 where "row1 = row\<lparr>rwState := MsgReady\<rparr>"
  have C: "dbMailboxes dC = dbMailboxes d" "dbMsgs dC = dbMsgs d @ [row1]"
    using B row(3,4,6) f [of row] by (simp_all add: s(1) updateMsg_tables coreDb_def row1_def)
  obtain n ms where n: "map mxNextUID (filter (\<lambda>m. mxID m = mb) (dbMailboxes d)) = [n]" "destination (nmMailbox msg) mb dC"
    "coreDb dD = (bumped mb n (dbMailboxes d), dbMsgs d @ [row1\<lparr>rwMailbox := Some mb, rwUID := Some (uint (word_of_int n :: u32)), rwModSeq := Some ms\<rparr>])"
    using assignMailbox_effect [OF s(2)] f [of row1] row(3) unfolding C by (auto simp: row1_def)
  define row2 where "row2 = row1\<lparr>rwMailbox := Some mb, rwUID := Some (uint (word_of_int n :: u32)), rwModSeq := Some ms\<rparr>"
  obtain c where "coreDb d1 = (bumped mb n (dbMailboxes d), dbMsgs d @ [row2\<lparr>rwConvo := Some c\<rparr>])"
    using assignConvo_effect [OF s(3)] f [of row2] n(3) row(3) by (auto simp: coreDb_def row2_def row1_def)
  moreover have "destination (nmMailbox msg) mb d" using n(2) unfolding destination_def C(1) .
  ultimately show ?thesis using row n(1)
    by (intro exI [of _ "row2\<lparr>rwConvo := Some c\<rparr>"] exI [of _ n]) (simp add: r(4) coreDb_def row2_def row1_def rowFor_def)
qed

subsection \<open>The place of a new message\<close>

lemma insort_key_snoc: "f x \<le> f y \<Longrightarrow> insort_key f x (zs @ [y]) = insort_key f x zs @ [y]"
  by (induction zs) auto

lemma sort_key_snoc: "\<forall>x\<in>set xs. f x \<le> f y \<Longrightarrow> sort_key f (xs @ [y]) = sort_key f xs @ [y]"
  by (induction xs) (simp_all add: insort_key_snoc)

lemma readyMsgs_snoc:
  assumes "dbOK d" and "b \<in> set (dbMailboxes d)" and "mxID b = mb" and "mxNextUID b = n" and "n < 2 ^ 32"
    and "dbMsgs d1 = dbMsgs d @ [row]" and "rwState row = MsgReady" and "rwMailbox row = Some mb" and "rwUID row = Some (uint (word_of_int n :: u32))"
  shows "uidOf row = n \<and> readyMsgs mb d1 = readyMsgs mb d @ [row] \<and> (\<forall>mb'. mb' \<noteq> mb \<longrightarrow> readyMsgs mb' d1 = readyMsgs mb' d)"
proof -
  have c: "counted b (dbMsgs d)" and n0: "1 \<le> n" using assms(1,2,4) by (auto simp: dbOK_def msgsOK_def boxesOK_def)
  have u: "uidOf row = n" using assms(5,9) n0 by (simp add: uidOf_def uint_word_of_int)
  have "uidOf m \<le> uidOf row" if "m \<in> set (dbMsgs d)" "inBox mb m" for m
    using countedD(3) [OF c _ that(1)] that(2) assms(3-5) u by simp
  then have "readyMsgs mb d1 = readyMsgs mb d @ [row]"
    using assms(6-8) unfolding readyMsgs_def by (simp add: inBox_def sort_key_snoc)
  moreover have "readyMsgs mb' d1 = readyMsgs mb' d" if "mb' \<noteq> mb" for mb'
    using that assms(6,8) unfolding readyMsgs_def by (simp add: inBox_def)
  ultimately show ?thesis using u by blast
qed

lemma box_with_counter:
  assumes "dbOK d" and "map mxNextUID (filter (\<lambda>m. mxID m = mb) (dbMailboxes d)) = [n]"
  shows "\<exists>b\<in>set (dbMailboxes d). mxID b = mb \<and> mxNextUID b = n"
proof -
  have "n \<in> mxNextUID ` set (filter (\<lambda>m. mxID m = mb) (dbMailboxes d))" using assms(2) by (metis list.set_intros(1) list.set_map)
  then show ?thesis by auto
qed


text \<open>A message without headers and parts, appended to the example's INBOX.\<close>

definition plainMsg :: newMsg where
  "plainMsg = \<lparr>nmID = 0, nmSeed = 7, nmMailbox = 0, nmRawHash = replicate 7 NUL @ [CHR 0x09], nmDate = 0, nmHeaders = emptyHeader, nmFlags = [], nmParts = [], nmSize = 2\<rparr>"

definition plainRow :: msgRow where
  "plainRow = \<lparr>rwID = 9, rwStagingID = None, rwModSeq = None, rwSeed = Some 7, rwRawHash = Some (replicate 7 NUL @ [CHR 0x09]), rwConvo = None, rwState = MsgFetching,
     rwMailbox = None, rwUID = None, rwFlags = Some [flagSeen], rwSize = Some 2, rwDate = 0, rwExpunged = None, rwHdrs = Some 1, rwUnsub = None\<rparr>"

definition fetchingDb :: spillDb where
  "fetchingDb = exampleDb\<lparr>dbBlobs := [\<lparr>blID = 1, blSHA = Some CRLF, blContent = Some CRLF\<rparr>], dbMsgs := dbMsgs exampleDb @ [plainRow],
     dbMsgAddrs := [(9, 0, RoleFrom)]\<rparr>"

lemma exampleLib_sel [simp]: "libFail exampleLib fn d = None" "libReadOnly exampleLib = False"
  by (simp_all add: exampleLib_def)

lemma plain_addresses: "insertAddresses exampleLib i emptyHeader d = insertMsgAddr exampleLib i 0 RoleFrom d"
proof -
  have g: "fst (hGet k emptyHeader) = []" for k by (simp add: hGet_def emptyHeader_def)
  have "trimLeft encs [] = []" for encs
    by (subst trimLeft.simps) (auto simp: find_Some_iff split: option.split)
  then have t: "TrimSpace [] = []" by (simp add: TrimSpace_def trimLeftSpace_def trimRightSpace_def)
  have h: "hIndex emptyHeader = None" by (simp add: emptyHeader_def)
  show ?thesis
    by (cases "insertMsgAddr exampleLib i 0 RoleFrom d")
      (auto simp: insertAddresses_def Let_def g t h saveDb_def bindDb_def roleHeaders_def insertRole_def okDb_def insertMsgAddr_def writeDb_def
        split: sum.splits if_splits)
qed

definition appendParams :: dbParams where
  "appendParams = dbExampleParams\<lparr>dpCleave := (\<lambda>b. Inr plainMsg)\<rparr>"

lemma plain_row: "newMsgRow exampleLib (plainMsg\<lparr>nmMailbox := 10, nmFlags := [flagSeen]\<rparr>) 0 exampleDb = (Inr 9, fetchingDb)"
proof -
  have "fst (insertHdrs exampleLib emptyHeader exampleDb) = Inr 1" by code_simp
  moreover have "snd (insertHdrs exampleLib emptyHeader exampleDb) = exampleDb\<lparr>dbBlobs := [\<lparr>blID = 1, blSHA = Some CRLF, blContent = Some CRLF\<rparr>]\<rparr>" by code_simp
  ultimately have "insertHdrs exampleLib emptyHeader exampleDb = (Inr 1, exampleDb\<lparr>dbBlobs := [\<lparr>blID = 1, blSHA = Some CRLF, blContent = Some CRLF\<rparr>]\<rparr>)"
    by (metis prod.collapse)
  moreover have "extractMsgID (replicate 7 NUL @ [CHR 0x09]) = Ok 9" by code_simp
  moreover have "rwID ` set (dbMsgs exampleDb) = {1, 2, 3, 4, 5}" by (simp add: exampleDb_def exampleRow_def insert_commute)
  moreover have "dbMsgAddrs exampleDb = []" by (simp add: exampleDb_def initDb_def)
  ultimately show ?thesis
    by (simp add: newMsgRow_def bindDb_def plainMsg_def insertOrRand_def writeDb_def insertMsgRow_def plain_addresses insertMsgAddr_def
        fetchingDb_def plainRow_def okDb_def)
qed

lemma plain_append: "\<exists>d1. dbAppend appendParams inboxHandle [flagSeen] [] CRLF exampleDb = (Inr 6, d1)"
proof -
  let ?m = "plainMsg\<lparr>nmMailbox := 10, nmFlags := [flagSeen]\<rparr>"
  have "fst (setMsgFetched exampleLib 9 10 fetchingDb) = Inr 10" by code_simp
  moreover have "map uidOf (filter (\<lambda>m. rwID m = 9) (dbMsgs (snd (setMsgFetched exampleLib 9 10 fetchingDb)))) = [6]" by code_simp
  ultimately obtain d2 where f: "setMsgFetched exampleLib 9 10 fetchingDb = (Inr 10, d2)" and u: "map uidOf (filter (\<lambda>m. rwID m = 9) (dbMsgs d2)) = [6]"
    by (metis prod.collapse)
  have n: "dbParts fetchingDb = []" by (simp add: fetchingDb_def exampleDb_def initDb_def)
  have "insertMsg exampleLib ?m 0 exampleDb = (Inr (True, ?m\<lparr>nmID := 9\<rparr>), d2)"
    using plain_row f by (simp add: insertMsg_def saveDb_def bindDb_def readDb_def okDb_def plainMsg_def n)
  then have "InsertMsg exampleLib False ?m 0 exampleDb = (Inr (True, ?m\<lparr>nmID := 9\<rparr>), d2)"
    by (simp add: InsertMsg_def mapErr_def bindDb_def okDb_def)
  then show ?thesis using u
    by (simp add: dbAppend_def appendParams_def dbExampleParams_def inboxHandle_def plainMsg_def bindDb_def withConn_def readDb_def
        resultDb_def okDb_def Let_def)
qed


end
