(* ===== verification/Spec2Isabelle.thy ===== *)
theory Spec2Isabelle
  imports ImapParserRuns ImapSearch SmtpRuns ImapMemory HtmlSafe DkimRuns SpillDelivery
begin

text \<open>
  A verification development for Spilled Ink's mail server (module \<open>spilled.ink\<close>, in Go): its IMAP and SMTP servers, the mail
  stores behind them (in memory, and on the users' databases), the parts of the message library that they call, DKIM, and the sanitizer of the
  HTML and CSS of messages.

  \<^bold>\<open>The program.\<close> An SMTP client talks to a session of \<open>smtp/smtpserver\<close>, which hands the message to a provider
  (\<open>smtpserver/greylist\<close>). An IMAP client talks to a connection of \<open>imap/imapserver\<close>: the bytes it sends are cut into tokens and
  parsed into a command by \<open>imap/imapparser\<close>; the command's handler calls the session and the mailbox of a data store (the interfaces
  of \<open>imap/imap.go\<close>), writes the replies and tells the user's other connections of what changed. \<open>imap/imaptest/memory.go\<close> is the
  data store in memory, \<open>spilldb/imapdb\<close> the one of the server proper: it checks logins with \<open>spilldb/db\<close> and works on one SQLite database
  for every user, the tables and operations of which are \<open>spilldb/spillbox\<close>. FETCH rebuilds a message's MIME form with \<open>email\<close> and \<open>email/msgbuilder\<close>.

  \<^bold>\<open>The theories.\<close> Each definition has the name of the Go function or type it translates, or says which part of it.

  \<^item> \<open>Prelude\<close>: bytes, errors and panics (\<open>'a go\<close>), number formatting, UTF-8 decoding, lemma collections. \<open>Base64\<close>: the
    decoder and encoder of the standard library as the program uses it.
  \<^item> \<open>Utf7\<close> (\<open>imapparser/utf7mod\<close>), \<open>ImapTypes\<close> (\<open>types.go\<close>, \<open>typeshelp.go\<close>), \<open>ImapSearch\<close>
    (\<open>search.go\<close>): mailbox names, command records, sequence sets, the search matcher.
  \<^item> \<open>ImapScanner\<close>, \<open>ImapLexemes\<close> (\<open>scanner.go\<close>): the token scanner over its input buffer, one function per reader; the
    tokens it yields for what a client spells; its errors.
  \<^item> \<open>ImapParser\<close>, \<open>ImapParserProps\<close>, \<open>ImapParserRuns\<close> (\<open>parser.go\<close>): \<open>ParseCommand\<close> with every command and the
    deferred error handling; what an accepted command satisfies, termination, whole lines.
  \<^item> \<open>ImapMailbox\<close>, \<open>ImapMailboxProps\<close>, \<open>ImapMemory\<close> (\<open>memory.go\<close>): mailboxes with an explicit store of flag arrays,
    since COPY shares them; the invariant \<open>userOK\<close>; EXPUNGE and MOVE refined against a client that replays the reported numbers
    (\<open>expungeAt\<close>); the whole store as the server's data store (\<open>memBackend\<close>).
  \<^item> \<open>EmailHeader\<close> (\<open>email/header.go\<close>), \<open>MsgTree\<close> (\<open>msgbuilder/tree.go\<close> and the encoders of \<open>msgbuilder.go\<close>).
  \<^item> \<open>ImapConn\<close>, \<open>ImapFetch\<close>, \<open>ImapServer\<close> (\<open>imapserver.go\<close>, \<open>fetch.go\<close>): the state of the connections (\<open>world\<close>),
    every handler as a function on it, \<open>serveParseCmd\<close>, and the step relation \<open>serverStep\<close> (a connection comes, serves a command,
    ends IDLE, ends; the store delivers).
  \<^item> \<open>ImapServerProps\<close>: mode, session and mailbox of a connection agree in every reachable state. \<open>ImapUpdates\<close>: what other
    connections are told. \<open>ImapIsolation\<close>: what a connection cannot touch. Each states the contract of the data store that it needs
    as a locale (\<open>mailbox_found\<close>, \<open>mail_store\<close>, \<open>owned_store\<close>); \<open>ImapMemory\<close> interprets all three on \<open>memBackend\<close>, and
    \<open>ImapDbProps\<close> the last two on \<open>dbBackend\<close>.
  \<^item> \<open>SmtpServer\<close>, \<open>Greylist\<close>, \<open>SmtpRuns\<close>: the SMTP session over the interface \<open>Msg\<close> (\<open>msgOps\<close>), the greylisting
    provider behind it, and whole transactions.
  \<^item> \<open>CssReader\<close> (\<open>html/css/sourcereader.go\<close>), \<open>CssScanner\<close>, \<open>CssScannerProps\<close> (\<open>scanner.go\<close>), \<open>CssParser\<close>,
    \<open>CssRuns\<close> (\<open>parser.go\<close>, \<open>format.go\<close>): the rune reader over a source that is read in chunks, refined by a reader of the whole
    text; the tokens; declarations read and printed. \<open>HtmlSafe\<close> (\<open>html/htmlsafe\<close>): \<open>Sanitize\<close> over the tokens of a document.
  \<^item> \<open>GoIO\<close>: the \<open>io.Reader\<close> and the trimming of white space. \<open>DkimBody\<close>, \<open>Dkim\<close> (\<open>email/dkim/dkim_verify.go\<close>,
    \<open>dkim_sign.go\<close>): the canonical form of a body as a chain of readers, refined against RFC 6376; the headers that are hashed,
    \<open>Verify\<close> and \<open>Sign\<close>. \<open>DkimRuns\<close>: whole messages, and the changes to a signed message that are not noticed.
  \<^item> \<open>SpillBox\<close>, \<open>SpillContacts\<close>, \<open>SpillInsert\<close> (\<open>spilldb/spillbox\<close>): a user's database as a record of tables, each
    SQL statement of the code as a function on it; mailboxes and their counters, contacts, \<open>InsertMsg\<close>. \<open>SpillAuth\<close>
    (\<open>spilldb/db/auth.go\<close>, \<open>util/throttle\<close>): logins and their delays. \<open>SpillProps\<close>: what holds of them.
  \<^item> \<open>ImapDb\<close> (\<open>spilldb/imapdb\<close>): sessions, mailboxes and messages on these databases, as the server's data store
    \<open>dbBackend\<close>. \<open>ImapDbInv\<close>: the invariant \<open>dbOK\<close>, kept by every operation. \<open>ImapDbProps\<close>: EXPUNGE and MOVE refined against a
    client that replays the reported numbers; the interpretations. \<open>ImapDbRuns\<close>: the properties, of the store and of the server on it.
    \<open>SpillDelivery\<close>: what an insertion does, and APPEND.

  \<^bold>\<open>What is shown.\<close> Safety and invariants of the parser, the two servers and the mailboxes in all reachable states; refinement of
  EXPUNGE, MOVE, the header index, the greylist buffer; round trips of strings, sequence sets, mailbox names and whole lines; termination
  of the parsers where they do terminate; what a sanitized document can contain; that a signed message verifies; bounds of header lines and base64 lines. Where the code does something else than its comments
  or the protocol say, a theorem states what it does.

  \<^bold>\<open>Conventions.\<close> A byte is a \<open>char\<close>. Go's fixed-width integers are words where they can wrap, else \<open>int\<close> or \<open>nat\<close>. Code that
  panics returns \<open>Panic\<close>; in the server a use of nil sets \<open>wNil\<close> and another panic \<open>wCrash\<close>, since \<open>serve\<close> panics again. Loops
  are structural or have a termination proof by the length of the input; the flag loop of APPEND, which need not end, is a
  \<open>partial_function (option)\<close>, and with it \<open>ParseCommand\<close>: \<open>None\<close> is not returning. \<open>bufSize\<close> and \<open>readerSize\<close> are the
  4096 bytes of \<open>bufio\<close>, \<open>copyBuf\<close> the 32 KB of \<open>io.Copy\<close>, \<open>maxToken\<close> the 64 KB of \<open>bufio.Scanner\<close>; the operands of SEARCH keys nest at most as deep as the input is long (\<open>searchFuel\<close>).

  \<^bold>\<open>Parameters.\<close> \<open>env\<close>: error texts, the standard library's date, address and media type parsers, the quoted-printable writer,
  \<open>flate\<close>, the configuration. \<open>memParams\<close>: \<open>msgcleaver.Cleave\<close>, the part files, dates. \<open>floatLib\<close>, \<open>htmlLib\<close>: the rounding and
  printing of floats, the HTML tokenizer's table of atoms, \<open>url.Parse\<close>, the writer.
  \<open>dkimLib\<close>: hashes, RSA, the parsing of keys, the resolver. \<open>spillLib\<close>: which SQL statements fail, the IDs that \<open>InsertRandID\<close> settles
  for, the clock, gzip, SHA-256, the parsers of headers and addresses. \<open>authLib\<close>: bcrypt. \<open>dbParams\<close>: these and \<open>msgcleaver.Cleave\<close>, the opening of
  a user's database, dates. \<open>backend\<close>: the data store, where a theorem holds of any.

  \<^bold>\<open>Not modelled.\<close> Network and files other than the bytes read and written (deadlines, TLS, flush errors), logging, goroutine scheduling
  inside a handler (a handler holds its connection's lock and is one step), the push service and the
  notifiers, \<open>msgcleaver\<close>, the embedding of assets. Of \<open>spilldb\<close>: SQLite itself beyond the statements of the code, the JSON text of flags,
  \<open>LoadMessage\<close> and \<open>BuildMessage\<close>, the opening of databases, and the loops that stage, deliver and process messages.
\<close>

end
